(* ===== verification/Prelude.thy ===== *)
theory Prelude
  imports Complex_Main "HOL-Library.AList" "HOL-Library.List_Lexorder" "HOL-Library.Char_ord" "HOL-Library.Multiset"
begin

text \<open>
  Shared by every component: the result type of fallible code, the model of a JavaScript
  \<open>Map\<close> (an association list that keeps insertion order, as the language guarantees), the
  array idiom \<open>slice(-n)\<close>, and the lemmas about them that the component proofs use.

  \<^item> A \<open>Map\<close> is a list of key/value pairs; \<open>set\<close> is \<open>AList.update\<close> (overwrite in place, or
    append), \<open>delete\<close> is \<open>AList.delete\<close>, \<open>get\<close> is \<open>map_of\<close>, \<open>values\<close> is \<open>map snd\<close>.
  \<^item> A thrown error is the left side of a sum.
  \<^item> \<open>Array.prototype.sort\<close> is stable (ECMAScript 2019), as \<open>sort_key\<close> is.
\<close>

named_theorems js_arith \<open>evaluation rules of the numeric layer\<close>
named_theorems take_last_simps \<open>facts on keeping the tail of a list\<close>
named_theorems upsert_simps \<open>facts on last-write-wins maps\<close>

section \<open>Keeping the tail of a list: \<open>slice(-n)\<close>\<close>

definition take_last :: "nat \<Rightarrow> 'a list \<Rightarrow> 'a list" where
  "take_last n xs = drop (length xs - n) xs"

lemma length_take_last [simp, take_last_simps]: "length (take_last n xs) = min n (length xs)"
  by (simp add: take_last_def min_def)

lemma set_take_last [take_last_simps]: "set (take_last n xs) \<subseteq> set xs"
  by (auto simp: take_last_def dest: in_set_dropD)

lemma take_last_id [simp, take_last_simps]: "length xs \<le> n \<Longrightarrow> take_last n xs = xs"
  by (simp add: take_last_def)

lemma sorted_take_last [take_last_simps]: "sorted xs \<Longrightarrow> sorted (take_last n xs)"
  by (simp add: take_last_def sorted_wrt_drop)

lemma map_take_last [take_last_simps]: "map f (take_last n xs) = take_last n (map f xs)"
  by (simp add: take_last_def drop_map)

lemma distinct_take_last [take_last_simps]: "distinct xs \<Longrightarrow> distinct (take_last n xs)"
  by (simp add: take_last_def)

lemma take_last_append_tail: "n \<le> length ys \<Longrightarrow> take_last n (xs @ ys) = take_last n ys"
  by (simp add: take_last_def)

section \<open>Stripping both ends\<close>

definition strip_both :: "('a \<Rightarrow> bool) \<Rightarrow> 'a list \<Rightarrow> 'a list" where
  "strip_both P s = rev (dropWhile P (rev (dropWhile P s)))"

lemma strip_both_Nil [simp]: "strip_both P [] = []"
  by (simp add: strip_both_def)

lemma strip_both_id: "s = [] \<or> (\<not> P (hd s) \<and> \<not> P (last s)) \<Longrightarrow> strip_both P s = s"
proof (cases "s = []")
  case False
  assume "s = [] \<or> (\<not> P (hd s) \<and> \<not> P (last s))"
  with False have h: "\<not> P (hd s)" "\<not> P (hd (rev s))" by (simp_all add: hd_rev)
  then have "dropWhile P s = s" "dropWhile P (rev s) = rev s"
    using False by (cases s, simp_all, cases "rev s", simp_all)
  then show ?thesis by (simp add: strip_both_def)
qed (simp add: strip_both_def)

lemma strip_both_ends:
  assumes "strip_both P s \<noteq> []"
  shows "\<not> P (hd (strip_both P s)) \<and> \<not> P (last (strip_both P s))"
proof -
  let ?d = "dropWhile P s"
  have e: "strip_both P s = rev (dropWhile P (rev ?d))" by (simp add: strip_both_def)
  have "\<not> P (last (strip_both P s))"
    using assms by (simp add: e last_rev hd_dropWhile)
  moreover have "\<not> P (hd (strip_both P s))"
  proof -
    obtain t where "rev ?d = t @ dropWhile P (rev ?d)"
      by (metis takeWhile_dropWhile_id)
    then have "?d = strip_both P s @ rev t" by (metis e rev_append rev_rev_ident)
    with assms have "hd ?d = hd (strip_both P s)" "?d \<noteq> []" by auto
    then show ?thesis using hd_dropWhile [of P s] by simp
  qed
  ultimately show ?thesis by simp
qed

lemma set_strip_both: "set (strip_both P s) \<subseteq> set s"
  by (auto simp: strip_both_def dest!: set_dropWhileD)

lemma length_strip_both: "length (strip_both P s) \<le> length s"
  by (simp add: strip_both_def le_trans [OF length_dropWhile_le])

lemma strip_both_idem [simp]: "strip_both P (strip_both P s) = strip_both P s"
  using strip_both_ends by (intro strip_both_id) blast

section \<open>Last-write-wins maps\<close>

text \<open>
  \<^verbatim>\<open>for (const x of xs) byKey.set(key(x), x)\<close>, the idiom of every buffer merge of the worker.
\<close>

definition upserts :: "('a \<Rightarrow> 'k) \<Rightarrow> 'a list \<Rightarrow> ('k \<times> 'a) list \<Rightarrow> ('k \<times> 'a) list" where
  "upserts key xs m = fold (\<lambda>x. AList.update (key x) x) xs m"

lemma upserts_Nil [simp, upsert_simps]: "upserts key [] m = m"
  by (simp add: upserts_def)

lemma upserts_Cons [simp, upsert_simps]:
  "upserts key (x # xs) m = upserts key xs (AList.update (key x) x m)"
  by (simp add: upserts_def)

lemma upserts_append [upsert_simps]:
  "upserts key (xs @ ys) m = upserts key ys (upserts key xs m)"
  by (simp add: upserts_def)

lemma distinct_keys_upserts [upsert_simps]:
  "distinct (map fst m) \<Longrightarrow> distinct (map fst (upserts key xs m))"
  by (induction xs arbitrary: m) (simp_all add: distinct_update)

lemma keys_upserts [upsert_simps]:
  "fst ` set (upserts key xs m) = fst ` set m \<union> key ` set xs"
proof (induction xs arbitrary: m)
  case (Cons x xs)
  have "fst ` set (AList.update (key x) x m) = insert (key x) (fst ` set m)"
    by (induction m) auto
  with Cons show ?case by auto
qed simp

lemma set_update_subset: "set (AList.update k v m) \<subseteq> insert (k, v) (set m)"
  by (induction m) auto

lemma find_snoc:
  "find P (ys @ [x]) = (case find P ys of Some y \<Rightarrow> Some y | None \<Rightarrow> if P x then Some x else None)"
  by (induction ys) auto

text \<open>Reading a key gives the last element written under it.\<close>

lemma map_of_upserts:
  "map_of (upserts key xs m) q =
     (case find (\<lambda>x. key x = q) (rev xs) of Some x \<Rightarrow> Some x | None \<Rightarrow> map_of m q)"
proof (induction xs arbitrary: m)
  case (Cons x xs)
  show ?case
    by (simp add: Cons find_snoc update_conv split: option.splits)
qed simp

text \<open>Entries carry their own key.\<close>

lemma upserts_own_key:
  assumes "\<forall>(k, v) \<in> set m. key v = k"
  shows "\<forall>(k, v) \<in> set (upserts key xs m). key v = k"
  using assms
proof (induction xs arbitrary: m)
  case (Cons x xs)
  have "\<forall>(k, v) \<in> set (AList.update (key x) x m). key v = k"
    using Cons.prems by (induction m) auto
  then show ?case using Cons.IH by simp
qed simp

lemma values_upserts_subset:
  "snd ` set (upserts key xs m) \<subseteq> snd ` set m \<union> set xs"
proof (induction xs arbitrary: m)
  case (Cons x xs)
  have "snd ` set (AList.update (key x) x m) \<subseteq> insert x (snd ` set m)"
    by (induction m) auto
  with Cons.IH [of "AList.update (key x) x m"] show ?case by auto
qed simp

section \<open>Looking a key up in a list\<close>

text \<open>The first element with the key.\<close>

definition seek :: "('a \<Rightarrow> 'k) \<Rightarrow> 'a list \<Rightarrow> 'k \<Rightarrow> 'a option" where
  "seek key xs k = find (\<lambda>x. key x = k) xs"

lemma seek_Nil [simp]: "seek key [] k = None"
  by (simp add: seek_def)

lemma seek_Some: "seek key xs k = Some x \<Longrightarrow> x \<in> set xs \<and> key x = k"
  by (induction xs) (auto simp: seek_def split: if_splits)

lemma seek_None: "seek key xs k = None \<longleftrightarrow> k \<notin> key ` set xs"
  by (auto simp: seek_def find_None_iff)

lemma seek_append: "seek key (xs @ ys) k = (case seek key xs k of None \<Rightarrow> seek key ys k | Some x \<Rightarrow> Some x)"
  by (induction xs) (auto simp: seek_def)

lemma seek_distinct: "distinct (map key xs) \<Longrightarrow> seek key xs k = Some x \<longleftrightarrow> x \<in> set xs \<and> key x = k"
  by (induction xs) (auto simp: seek_def image_iff)

lemma seek_cong_set:
  assumes "distinct (map key xs)" "distinct (map key ys)" "set xs = set ys"
  shows "seek key xs k = seek key ys k"
proof (cases "seek key xs k")
  case None
  then have "k \<notin> key ` set ys" using assms(3) by (simp add: seek_None)
  with None show ?thesis by (metis seek_None)
next
  case (Some x)
  then have "seek key ys k = Some x" using assms seek_distinct by metis
  with Some show ?thesis by simp
qed

lemma seek_rev: "distinct (map key xs) \<Longrightarrow> seek key (rev xs) k = seek key xs k"
  by (rule seek_cong_set) (simp_all add: rev_map [symmetric])

lemma seek_filter:
  "(\<And>x. P x \<longleftrightarrow> Q (key x)) \<Longrightarrow> seek key (filter P xs) k = (if Q k then seek key xs k else None)"
  by (induction xs) (auto simp: seek_def)

lemma seek_pairs:
  assumes "distinct (map key xs)" "distinct (map key' ys)"
    and "(\<lambda>x. (key x, f x)) ` set xs = (\<lambda>y. (key' y, g y)) ` set ys"
  shows "map_option f (seek key xs k) = map_option g (seek key' ys k)"
proof (cases "seek key xs k")
  case None
  have "key ` set xs = key' ` set ys" using arg_cong [OF assms(3), of "image fst"] by (simp add: image_image)
  then have "seek key' ys k = None" using None seek_None [of key xs k] seek_None [of key' ys k] by simp
  with None show ?thesis by simp
next
  case (Some x)
  then have x: "x \<in> set xs" "key x = k" using seek_Some [of key xs k x] by simp_all
  then have "(k, f x) \<in> (\<lambda>x. (key x, f x)) ` set xs" by blast
  then have "(k, f x) \<in> (\<lambda>y. (key' y, g y)) ` set ys" by (simp only: assms(3))
  then obtain y where "y \<in> set ys" "key' y = k" "g y = f x" by auto
  then have "seek key' ys k = Some y" using assms(2) by (simp add: seek_distinct)
  with Some \<open>g y = f x\<close> show ?thesis by simp
qed

text \<open>A last-write-wins map read as a list.\<close>

definition latest :: "('a \<Rightarrow> 'k) \<Rightarrow> 'a list \<Rightarrow> 'a list" where
  "latest key xs = map snd (upserts key xs [])"

lemma latest_keys: "map key (latest key xs) = map fst (upserts key xs [])"
proof -
  have "\<forall>(k, v) \<in> set (upserts key xs []). key v = k" by (rule upserts_own_key) simp
  then show ?thesis by (auto simp: latest_def)
qed

lemma distinct_latest [simp]: "distinct (map key (latest key xs))"
  by (simp add: latest_keys distinct_keys_upserts)

lemma seek_latest: "seek key (latest key xs) k = seek key (rev xs) k"
proof -
  have own: "\<forall>(k, v) \<in> set (upserts key xs []). key v = k" by (rule upserts_own_key) simp
  have "\<forall>(k, v) \<in> set m. key v = k \<Longrightarrow> find (\<lambda>x. key x = k) (map snd m) = map_of m k" for m
    by (induction m) auto
  with own have "seek key (latest key xs) k = map_of (upserts key xs []) k"
    by (simp add: latest_def seek_def)
  then show ?thesis by (simp add: map_of_upserts seek_def split: option.split)
qed

lemma set_latest: "set (latest key xs) \<subseteq> set xs"
  using values_upserts_subset [of key xs "[]"] by (simp add: latest_def)

section \<open>Sorting by a key\<close>

lemma distinct_map_sort_key [simp]: "distinct (map key (sort_key order xs)) = distinct (map key xs)"
  by (rule mset_eq_imp_distinct_iff) simp

lemma map_of_sort_key [simp]:
  assumes "distinct (map fst rows)"
  shows "map_of (sort_key order rows) = map_of rows"
proof -
  have "distinct (map fst (sort_key order rows))" using assms by simp
  then show ?thesis using assms by (simp add: map_of_inject_set)
qed

lemma sum_list_sort_key [simp]:
  fixes f :: "'a \<Rightarrow> 'b::comm_monoid_add"
  shows "sum_list (map f (sort_key order xs)) = sum_list (map f xs)"
proof -
  have "sum_mset (mset (map f (sort_key order xs))) = sum_mset (mset (map f xs))" by simp
  then show ?thesis unfolding sum_mset_sum_list .
qed

end
