(* ===== verification/JsValue.thy ===== *)
theory JsValue
  imports Prelude
begin

text \<open>
  The part of JavaScript's value model that the worker's normalisation code relies on:
  values as they come out of JSON, an environment binding or a D1 row, the coercions
  \<open>Number(x)\<close>, \<open>String(x)\<close>, \<open>Boolean(x)\<close>, the operators \<open>||\<close>, \<open>??\<close> and \<open>?.\<close>,
  and \<open>trim\<close> / \<open>toLowerCase\<close>.

  \<^item> A number is NaN, an infinity or a finite value; finite values are exact rationals, so
    the rounding of IEEE doubles is not modelled (it is exact on the integers below
    \<open>2^53\<close>, which is what the code computes with), and there is one zero.
  \<^item> A string is a list of UTF-16 code units, restricted to the units below 256.
  \<^item> An object is an association list in insertion order.
\<close>

section \<open>Numbers\<close>

datatype jsnum = NaN | PosInf | NegInf | Fin rat

definition js_isFinite :: "jsnum \<Rightarrow> bool" where
  "js_isFinite n = (case n of Fin _ \<Rightarrow> True | _ \<Rightarrow> False)"

definition js_isInteger :: "jsnum \<Rightarrow> bool" where
  "js_isInteger n = (case n of Fin q \<Rightarrow> of_int \<lfloor>q\<rfloor> = q | _ \<Rightarrow> False)"

definition js_floor :: "jsnum \<Rightarrow> jsnum" where
  "js_floor n = (case n of Fin q \<Rightarrow> Fin (of_int \<lfloor>q\<rfloor>) | _ \<Rightarrow> n)"

text \<open>\<open>Math.round\<close> rounds halves towards plus infinity.\<close>

definition js_round :: "jsnum \<Rightarrow> jsnum" where
  "js_round n = (case n of Fin q \<Rightarrow> Fin (of_int \<lfloor>q + 1 / 2\<rfloor>) | _ \<Rightarrow> n)"

fun js_lt :: "jsnum \<Rightarrow> jsnum \<Rightarrow> bool" where
  "js_lt (Fin a) (Fin b) = (a < b)"
| "js_lt NegInf (Fin _) = True"
| "js_lt NegInf PosInf = True"
| "js_lt (Fin _) PosInf = True"
| "js_lt _ _ = False"

definition js_le :: "jsnum \<Rightarrow> jsnum \<Rightarrow> bool" where
  "js_le a b = (js_lt a b \<or> (a = b \<and> a \<noteq> NaN))"

definition js_max :: "jsnum \<Rightarrow> jsnum \<Rightarrow> jsnum" where
  "js_max a b = (if a = NaN \<or> b = NaN then NaN else if js_lt a b then b else a)"

definition js_min :: "jsnum \<Rightarrow> jsnum \<Rightarrow> jsnum" where
  "js_min a b = (if a = NaN \<or> b = NaN then NaN else if js_lt b a then b else a)"

fun js_add :: "jsnum \<Rightarrow> jsnum \<Rightarrow> jsnum" where
  "js_add (Fin a) (Fin b) = Fin (a + b)"
| "js_add NaN _ = NaN"
| "js_add _ NaN = NaN"
| "js_add PosInf NegInf = NaN"
| "js_add NegInf PosInf = NaN"
| "js_add PosInf _ = PosInf"
| "js_add NegInf _ = NegInf"
| "js_add _ PosInf = PosInf"
| "js_add _ NegInf = NegInf"

definition js_neg :: "jsnum \<Rightarrow> jsnum" where
  "js_neg n = (case n of Fin q \<Rightarrow> Fin (- q) | PosInf \<Rightarrow> NegInf | NegInf \<Rightarrow> PosInf | NaN \<Rightarrow> NaN)"

definition js_sub :: "jsnum \<Rightarrow> jsnum \<Rightarrow> jsnum" where
  "js_sub a b = js_add a (js_neg b)"

fun js_mul :: "jsnum \<Rightarrow> jsnum \<Rightarrow> jsnum" where
  "js_mul (Fin a) (Fin b) = Fin (a * b)"
| "js_mul NaN _ = NaN"
| "js_mul _ NaN = NaN"
| "js_mul (Fin a) b = (if a = 0 then NaN else if a < 0 then js_neg b else b)"
| "js_mul a (Fin b) = (if b = 0 then NaN else if b < 0 then js_neg a else a)"
| "js_mul a b = (if a = b then PosInf else NegInf)"

fun js_div :: "jsnum \<Rightarrow> jsnum \<Rightarrow> jsnum" where
  "js_div (Fin a) (Fin b) = (if b \<noteq> 0 then Fin (a / b) else if a = 0 then NaN else if 0 < a then PosInf else NegInf)"
| "js_div NaN _ = NaN"
| "js_div _ NaN = NaN"
| "js_div (Fin _) _ = Fin 0"
| "js_div a (Fin b) = (if b < 0 then js_neg a else a)"
| "js_div _ _ = NaN"

text \<open>\<open>Number(x.toFixed(k))\<close> of a non-negative number\<close>

definition to_fixed :: "nat \<Rightarrow> rat \<Rightarrow> rat" where
  "to_fixed k q = of_int \<lfloor>q * 10 ^ k + 1 / 2\<rfloor> / 10 ^ k"

text \<open>The truth value of a number, and \<open>n || d\<close> on numbers.\<close>

definition num_truthy :: "jsnum \<Rightarrow> bool" where
  "num_truthy n = (n \<noteq> NaN \<and> n \<noteq> Fin 0)"

definition num_or :: "jsnum \<Rightarrow> jsnum \<Rightarrow> jsnum" where
  "num_or a b = (if num_truthy a then a else b)"

abbreviation jsint :: "int \<Rightarrow> jsnum" where
  "jsint i \<equiv> Fin (of_int i)"

section \<open>Strings\<close>

definition is_digit :: "char \<Rightarrow> bool" where
  "is_digit c = (48 \<le> (of_char c :: nat) \<and> (of_char c :: nat) \<le> 57)"

definition digit_val :: "char \<Rightarrow> nat" where
  "digit_val c = of_char c - 48"

text \<open>The white space and line terminators that \<open>trim\<close> and \<open>Number\<close> strip.\<close>

definition js_space :: "char \<Rightarrow> bool" where
  "js_space c = ((of_char c :: nat) \<in> {9, 10, 11, 12, 13, 32, 160})"

definition js_trim :: "string \<Rightarrow> string" where
  "js_trim s = strip_both js_space s"

definition lower_char :: "char \<Rightarrow> char" where
  "lower_char c = (let n = (of_char c :: nat) in
     if (65 \<le> n \<and> n \<le> 90) \<or> (192 \<le> n \<and> n \<le> 222 \<and> n \<noteq> 215) then char_of (n + 32) else c)"

definition js_lower :: "string \<Rightarrow> string" where
  "js_lower s = map lower_char s"

text \<open>\<open>s.split(sep)\<close> for a one-character separator.\<close>

fun js_split :: "char \<Rightarrow> string \<Rightarrow> string list" where
  "js_split sep [] = [[]]"
| "js_split sep (c # cs) =
     (if c = sep then [] # js_split sep cs
      else case js_split sep cs of [] \<Rightarrow> [[c]] | w # ws \<Rightarrow> (c # w) # ws)"

fun js_join :: "string \<Rightarrow> string list \<Rightarrow> string" where
  "js_join sep [] = []"
| "js_join sep [w] = w"
| "js_join sep (w # ws) = w @ sep @ js_join sep ws"

definition starts_with :: "string \<Rightarrow> string \<Rightarrow> bool" where
  "starts_with p s = (take (length p) s = p)"

definition ends_with :: "string \<Rightarrow> string \<Rightarrow> bool" where
  "ends_with p s = (length p \<le> length s \<and> drop (length s - length p) s = p)"

fun js_includes :: "string \<Rightarrow> string \<Rightarrow> bool" where
  "js_includes p [] = (p = [])"
| "js_includes p (c # cs) = (starts_with p (c # cs) \<or> js_includes p cs)"

section \<open>Printing and reading numbers\<close>

definition digit_char :: "nat \<Rightarrow> char" where
  "digit_char d = char_of (48 + d)"

fun nat_str :: "nat \<Rightarrow> string" where
  "nat_str n = (if n < 10 then [digit_char n] else nat_str (n div 10) @ [digit_char (n mod 10)])"

declare nat_str.simps [simp del]

definition int_str :: "int \<Rightarrow> string" where
  "int_str i = (if i < 0 then CHR ''-'' # nat_str (nat (- i)) else nat_str (nat i))"

text \<open>\<open>padStart(w, '0')\<close>\<close>

definition pad_zero :: "nat \<Rightarrow> string \<Rightarrow> string" where
  "pad_zero w s = replicate (w - length s) (CHR ''0'') @ s"

definition digits_val :: "string \<Rightarrow> nat" where
  "digits_val s = fold (\<lambda>c acc. 10 * acc + digit_val c) s 0"

definition ten_pow :: "int \<Rightarrow> rat" where
  "ten_pow e = (if 0 \<le> e then 10 ^ nat e else 1 / 10 ^ nat (- e))"

text \<open>The exponent part of a decimal literal, which must end the string.\<close>

definition parse_exponent :: "string \<Rightarrow> int option" where
  "parse_exponent s = (case s of
     [] \<Rightarrow> Some 0
   | c # r \<Rightarrow>
       if c = CHR ''e'' \<or> c = CHR ''E'' then
         (case r of [] \<Rightarrow> None
          | d # ds \<Rightarrow>
              (let sgn = (if d = CHR ''-'' then - 1 else 1 :: int);
                   ds' = (if d = CHR ''-'' \<or> d = CHR ''+'' then ds else r)
               in if ds' \<noteq> [] \<and> list_all is_digit ds' then Some (sgn * int (digits_val ds')) else None))
       else None)"

definition parse_unsigned :: "string \<Rightarrow> jsnum" where
  "parse_unsigned s =
    (if s = ''Infinity'' then PosInf else
     let ip = takeWhile is_digit s; r = dropWhile is_digit s;
         dot = (r \<noteq> [] \<and> hd r = CHR ''.'');
         fp = (if dot then takeWhile is_digit (tl r) else []);
         r' = (if dot then dropWhile is_digit (tl r) else r)
     in if ip = [] \<and> fp = [] then NaN
        else case parse_exponent r' of
               None \<Rightarrow> NaN
             | Some e \<Rightarrow> Fin (of_nat (digits_val (ip @ fp)) * ten_pow (e - int (length fp))))"

definition radix_val :: "char \<Rightarrow> nat option" where
  "radix_val c = (let n = (of_char c :: nat) in
     if 48 \<le> n \<and> n \<le> 57 then Some (n - 48)
     else if 97 \<le> n \<and> n \<le> 122 then Some (n - 87)
     else if 65 \<le> n \<and> n \<le> 90 then Some (n - 55) else None)"

fun parse_radix :: "nat \<Rightarrow> nat \<Rightarrow> string \<Rightarrow> nat option" where
  "parse_radix b acc [] = Some acc"
| "parse_radix b acc (c # cs) =
     (case radix_val c of None \<Rightarrow> None
      | Some d \<Rightarrow> if d < b then parse_radix b (b * acc + d) cs else None)"

definition parse_radix_literal :: "nat \<Rightarrow> string \<Rightarrow> jsnum" where
  "parse_radix_literal b s =
     (if s = [] then NaN else case parse_radix b 0 s of None \<Rightarrow> NaN | Some n \<Rightarrow> jsint (int n))"

text \<open>\<open>Number(s)\<close> for a string: StringToNumber of the language.\<close>

definition parse_number :: "string \<Rightarrow> jsnum" where
  "parse_number s0 = (let s = js_trim s0 in
     case s of
       [] \<Rightarrow> Fin 0
     | c # r \<Rightarrow>
         if c = CHR ''-'' then js_neg (parse_unsigned r)
         else if c = CHR ''+'' then parse_unsigned r
         else if c = CHR ''0'' \<and> r \<noteq> [] \<and> hd r \<in> {CHR ''x'', CHR ''X''} then parse_radix_literal 16 (tl r)
         else if c = CHR ''0'' \<and> r \<noteq> [] \<and> hd r \<in> {CHR ''o'', CHR ''O''} then parse_radix_literal 8 (tl r)
         else if c = CHR ''0'' \<and> r \<noteq> [] \<and> hd r \<in> {CHR ''b'', CHR ''B''} then parse_radix_literal 2 (tl r)
         else parse_unsigned s)"

text \<open>
  \<open>String(n)\<close>. Integers print exactly. A fraction prints its decimal expansion, cut after
  twenty digits; no modelled code branches on the digits of a printed fraction.
\<close>

fun fraction_digits :: "nat \<Rightarrow> rat \<Rightarrow> string" where
  "fraction_digits 0 q = []"
| "fraction_digits (Suc k) q =
     (if q = 0 then [] else digit_char (nat \<lfloor>10 * q\<rfloor>) # fraction_digits k (10 * q - of_int \<lfloor>10 * q\<rfloor>))"

definition num_str :: "jsnum \<Rightarrow> string" where
  "num_str n = (case n of
     NaN \<Rightarrow> ''NaN'' | PosInf \<Rightarrow> ''Infinity'' | NegInf \<Rightarrow> ''-Infinity''
   | Fin q \<Rightarrow>
       if of_int \<lfloor>q\<rfloor> = q then int_str \<lfloor>q\<rfloor>
       else (if q < 0 then ''-'' else []) @ nat_str (nat \<lfloor>\<bar>q\<bar>\<rfloor>) @ ''.'' @
            fraction_digits 20 (\<bar>q\<bar> - of_int \<lfloor>\<bar>q\<bar>\<rfloor>))"

section \<open>Values\<close>

datatype jsval =
    Undefined
  | Null
  | Bool bool
  | Num jsnum
  | Str string
  | Arr "jsval list"
  | Obj "(string \<times> jsval) list"

abbreviation JInt :: "int \<Rightarrow> jsval" where
  "JInt i \<equiv> Num (jsint i)"

text \<open>\<open>v?.key\<close> for a property that is not inherited\<close>

definition js_get :: "jsval \<Rightarrow> string \<Rightarrow> jsval" where
  "js_get v k = (case v of
     Obj m \<Rightarrow> (case map_of m k of Some x \<Rightarrow> x | None \<Rightarrow> Undefined) | _ \<Rightarrow> Undefined)"

text \<open>\<open>v[k] = x\<close>, \<open>delete v[k]\<close> and \<open>k in v\<close> on a plain object\<close>

definition js_set :: "jsval \<Rightarrow> string \<Rightarrow> jsval \<Rightarrow> jsval" where
  "js_set v k x = (case v of Obj m \<Rightarrow> Obj (AList.update k x m) | _ \<Rightarrow> v)"

definition js_delete :: "jsval \<Rightarrow> string \<Rightarrow> jsval" where
  "js_delete v k = (case v of Obj m \<Rightarrow> Obj (AList.delete k m) | _ \<Rightarrow> v)"

definition js_has :: "jsval \<Rightarrow> string \<Rightarrow> bool" where
  "js_has v k = (case v of Obj m \<Rightarrow> map_of m k \<noteq> None | _ \<Rightarrow> False)"

definition js_truthy :: "jsval \<Rightarrow> bool" where
  "js_truthy v = (case v of
     Undefined \<Rightarrow> False | Null \<Rightarrow> False | Bool b \<Rightarrow> b | Num n \<Rightarrow> num_truthy n
   | Str s \<Rightarrow> s \<noteq> [] | Arr _ \<Rightarrow> True | Obj _ \<Rightarrow> True)"

text \<open>\<open>a || b\<close>, \<open>a ?? b\<close> and \<open>v == null\<close>\<close>

definition js_or :: "jsval \<Rightarrow> jsval \<Rightarrow> jsval" where
  "js_or a b = (if js_truthy a then a else b)"

definition js_nullish :: "jsval \<Rightarrow> bool" where
  "js_nullish v = (v = Undefined \<or> v = Null)"

definition js_coalesce :: "jsval \<Rightarrow> jsval \<Rightarrow> jsval" where
  "js_coalesce a b = (if js_nullish a then b else a)"

text \<open>\<open>v && typeof v === 'object' && !Array.isArray(v)\<close>\<close>

definition js_is_record :: "jsval \<Rightarrow> bool" where
  "js_is_record v = (case v of Obj _ \<Rightarrow> True | _ \<Rightarrow> False)"

fun js_String :: "jsval \<Rightarrow> string" where
  "js_String Undefined = ''undefined''"
| "js_String Null = ''null''"
| "js_String (Bool b) = (if b then ''true'' else ''false'')"
| "js_String (Num n) = num_str n"
| "js_String (Str s) = s"
| "js_String (Arr vs) =
     js_join '','' (map (\<lambda>v. if v = Undefined \<or> v = Null then [] else js_String v) vs)"
| "js_String (Obj _) = ''[object Object]''"

text \<open>
  \<open>Number(v)\<close>. An array converts through its string form: an array of two or more elements
  prints a comma and is NaN, a one-element array is its element's string form read back.
\<close>

fun js_Number :: "jsval \<Rightarrow> jsnum" where
  "js_Number Undefined = NaN"
| "js_Number Null = Fin 0"
| "js_Number (Bool b) = (if b then Fin 1 else Fin 0)"
| "js_Number (Num n) = n"
| "js_Number (Str s) = parse_number s"
| "js_Number (Arr []) = Fin 0"
| "js_Number (Arr [v]) = (case v of Undefined \<Rightarrow> Fin 0 | Bool _ \<Rightarrow> NaN | _ \<Rightarrow> js_Number v)"
| "js_Number (Arr _) = NaN"
| "js_Number (Obj _) = NaN"

text \<open>\<open>Number(v || 0)\<close>, the commonest reading of an optional numeric field\<close>

definition num_or0 :: "jsval \<Rightarrow> jsnum" where
  "num_or0 v = js_Number (js_or v (JInt 0))"

text \<open>\<open>String(v || '')\<close>\<close>

definition str_or_empty :: "jsval \<Rightarrow> string" where
  "str_or_empty v = js_String (js_or v (Str []))"


section \<open>Facts about the value layer\<close>

lemma js_num_simps [simp, js_arith]:
  "js_isFinite (Fin q)" "\<not> js_isFinite NaN" "\<not> js_isFinite PosInf" "\<not> js_isFinite NegInf"
  "js_floor (Fin q) = Fin (of_int \<lfloor>q\<rfloor>)" "js_floor NaN = NaN"
  "js_isInteger (Fin (of_int i))"
  "js_neg (Fin q) = Fin (- q)"
  "num_truthy (Fin q) \<longleftrightarrow> q \<noteq> 0" "\<not> num_truthy NaN"
  by (simp_all add: js_isFinite_def js_floor_def js_isInteger_def js_neg_def num_truthy_def)

lemma js_truthy_simps [simp]:
  "\<not> js_truthy Undefined" "\<not> js_truthy Null" "js_truthy (Bool b) \<longleftrightarrow> b"
  "js_truthy (Num n) \<longleftrightarrow> num_truthy n" "js_truthy (Str s) \<longleftrightarrow> s \<noteq> []" "js_truthy (Arr vs)" "js_truthy (Obj m)"
  by (simp_all add: js_truthy_def)

lemma js_or_simps [simp]:
  "js_or Undefined b = b" "js_or Null b = b" "js_or (Bool x) b = (if x then Bool x else b)"
  "js_or (Num n) b = (if num_truthy n then Num n else b)" "js_or (Str s) b = (if s = [] then b else Str s)"
  "js_or (Arr vs) b = Arr vs" "js_or (Obj m) b = Obj m"
  by (simp_all add: js_or_def)

lemma js_coalesce_simps [simp]:
  "js_coalesce Undefined b = b" "js_coalesce Null b = b" "js_coalesce (Bool x) b = Bool x"
  "js_coalesce (Num n) b = Num n" "js_coalesce (Str s) b = Str s" "js_coalesce (Arr vs) b = Arr vs"
  "js_coalesce (Obj m) b = Obj m"
  by (simp_all add: js_coalesce_def js_nullish_def)

lemma js_fin_ops [simp, js_arith]:
  "js_le (Fin a) (Fin b) \<longleftrightarrow> a \<le> b"
  "js_max (Fin a) (Fin b) = Fin (max a b)"
  "js_min (Fin a) (Fin b) = Fin (min a b)"
  "js_sub (Fin a) (Fin b) = Fin (a - b)"
  by (auto simp: js_le_def js_max_def js_min_def js_sub_def js_neg_def max_def min_def)

lemma num_or0_simps [simp]:
  "num_or0 Undefined = Fin 0" "num_or0 Null = Fin 0" "num_or0 (Num (Fin q)) = Fin q"
  "num_or0 (Num NaN) = Fin 0"
  by (simp_all add: num_or0_def js_or_def js_truthy_def)

lemma js_get_simps [simp]:
  "js_get Undefined k = Undefined" "js_get Null k = Undefined"
  "js_get (Obj m) k = (case map_of m k of Some x \<Rightarrow> x | None \<Rightarrow> Undefined)"
  by (simp_all add: js_get_def)

lemma js_isFinite_iff: "js_isFinite n \<longleftrightarrow> (\<exists>q. n = Fin q)"
  by (cases n) auto

lemma is_digit_digit_char [simp]: "d < 10 \<Longrightarrow> is_digit (digit_char d)"
  by (simp add: is_digit_def digit_char_def)

lemma digit_val_digit_char [simp]: "d < 10 \<Longrightarrow> digit_val (digit_char d) = d"
  by (simp add: digit_val_def digit_char_def)

lemma nat_str_digits: "\<forall>c \<in> set (nat_str n). is_digit c"
proof (induction n rule: nat_str.induct)
  case (1 n)
  then show ?case by (subst nat_str.simps) auto
qed

lemma nat_str_nonempty [simp]: "nat_str n \<noteq> []"
  by (subst nat_str.simps) simp

lemma digits_val_snoc [simp]: "digits_val (s @ [c]) = 10 * digits_val s + digit_val c"
  by (simp add: digits_val_def)

lemma digits_val_nat_str [simp]: "digits_val (nat_str n) = n"
proof (induction n rule: nat_str.induct)
  case (1 n)
  show ?case
  proof (cases "n < 10")
    case True
    then show ?thesis by (subst nat_str.simps) (simp add: digits_val_def)
  next
    case False
    then show ?thesis by (subst nat_str.simps) (use 1 in simp)
  qed
qed

lemma nat_str_leading_zero: "hd (nat_str n) = CHR ''0'' \<Longrightarrow> n = 0"
proof (induction n rule: nat_str.induct)
  case (1 n)
  show ?case
  proof (cases "n < 10")
    case True
    have "nat_str n = [digit_char n]" using True by (subst nat_str.simps) simp
    with "1.prems" have "digit_val (digit_char n) = digit_val (CHR ''0'')" by simp
    with True show ?thesis by (simp add: digit_val_def [of "CHR ''0''"])
  next
    case False
    then have "hd (nat_str n) = hd (nat_str (n div 10))"
      by (subst nat_str.simps) (simp add: hd_append)
    with 1 False have "n div 10 = 0" by simp
    with False show ?thesis by simp
  qed
qed

lemma digit_not_space: "is_digit c \<Longrightarrow> \<not> js_space c"
  by (auto simp: is_digit_def js_space_def)

lemma js_trim_no_space: "s \<noteq> [] \<Longrightarrow> \<not> js_space (hd s) \<Longrightarrow> \<not> js_space (last s) \<Longrightarrow> js_trim s = s"
  by (simp add: js_trim_def strip_both_id)

lemma js_trim_digits: "s \<noteq> [] \<Longrightarrow> \<forall>c \<in> set s. is_digit c \<Longrightarrow> js_trim s = s"
  by (rule js_trim_no_space) (auto dest: digit_not_space)

lemma parse_unsigned_digits:
  assumes "s \<noteq> []" and d: "\<forall>c \<in> set s. is_digit c"
  shows "parse_unsigned s = jsint (int (digits_val s))"
proof -
  have ni: "s \<noteq> ''Infinity''" using d by (auto simp: is_digit_def)
  have tw: "takeWhile is_digit s = s" and dw: "dropWhile is_digit s = []"
    using d by (simp_all add: takeWhile_eq_all_conv)
  show ?thesis
    unfolding parse_unsigned_def Let_def tw dw
    using assms(1) ni by (simp add: parse_exponent_def ten_pow_def)
qed

text \<open>What the code stores with \<open>String(n)\<close> it reads back with \<open>Number(s)\<close>.\<close>

lemma parse_number_nat_str: "parse_number (nat_str n) = jsint (int n)"
proof -
  obtain c r where s: "nat_str n = c # r" by (cases "nat_str n") auto
  have d: "\<forall>x \<in> set (c # r). is_digit x" using nat_str_digits [of n] s by simp
  have "c = CHR ''0'' \<Longrightarrow> r = []"
  proof -
    assume "c = CHR ''0''"
    then have "n = 0" using nat_str_leading_zero [of n] s by simp
    then show "r = []" using s by (simp add: nat_str.simps)
  qed
  moreover have "c \<noteq> CHR ''-''" "c \<noteq> CHR ''+''" using d by (auto simp: is_digit_def)
  moreover have "js_trim (c # r) = c # r" by (rule js_trim_digits) (use d in auto)
  moreover have "parse_unsigned (c # r) = jsint (int n)"
    using parse_unsigned_digits [of "nat_str n", OF nat_str_nonempty nat_str_digits]
    by (simp only: s [symmetric] digits_val_nat_str)
  ultimately show ?thesis by (auto simp: parse_number_def s)
qed

lemma parse_number_int_str [simp]: "parse_number (int_str i) = jsint i"
proof (cases "i < 0")
  case True
  let ?s = "nat_str (nat (- i))"
  have d: "\<forall>x \<in> set ?s. is_digit x" by (rule nat_str_digits)
  have "js_trim (CHR ''-'' # ?s) = CHR ''-'' # ?s"
    by (rule js_trim_no_space) (use d in \<open>auto simp: js_space_def dest!: digit_not_space\<close>)
  then show ?thesis
    using True parse_unsigned_digits [of ?s] d by (simp add: parse_number_def int_str_def)
next
  case False
  then show ?thesis by (simp add: int_str_def parse_number_nat_str)
qed

lemma js_Number_String_int: "js_Number (Str (js_String (JInt i))) = jsint i"
  by (simp add: num_str_def)

lemma js_trim_idem [simp]: "js_trim (js_trim s) = js_trim s"
  by (simp add: js_trim_def)

lemma js_trim_Nil [simp]: "js_trim [] = []"
  by (simp add: js_trim_def strip_both_def)

lemma js_split_no_sep: "sep \<notin> set w \<Longrightarrow> js_split sep w = [w]"
  by (induction w) auto

lemma js_split_append: "sep \<notin> set w \<Longrightarrow> js_split sep (w @ sep # r) = w # js_split sep r"
  by (induction w) auto

text \<open>Words without the separator survive \<open>join\<close> and \<open>split\<close>.\<close>

lemma js_split_join:
  "ws \<noteq> [] \<Longrightarrow> \<forall>w \<in> set ws. sep \<notin> set w \<Longrightarrow> js_split sep (js_join [sep] ws) = ws"
proof (induction "[sep]" ws rule: js_join.induct)
  case (3 w v vs)
  then show ?case by (simp add: js_split_append)
qed (simp_all add: js_split_no_sep)

lemma num_str_int [simp]: "num_str (jsint i) = int_str i"
  by (simp add: num_str_def)

lemma int_str_chars: "c \<in> set (int_str i) \<Longrightarrow> c = CHR ''-'' \<or> is_digit c"
  using nat_str_digits by (auto simp: int_str_def split: if_splits)

lemma js_trim_int_str [simp]: "js_trim (int_str i) = int_str i"
proof (rule js_trim_no_space)
  show ne: "int_str i \<noteq> []" by (simp add: int_str_def)
  have "\<not> js_space c" if "c \<in> set (int_str i)" for c
    using int_str_chars [OF that] by (auto simp: js_space_def dest: digit_not_space)
  with ne show "\<not> js_space (hd (int_str i))" "\<not> js_space (last (int_str i))" by simp_all
qed

text \<open>Writing, deleting and testing the properties of an object.\<close>

lemma js_set_get [simp]:
  "js_is_record v \<Longrightarrow> js_get (js_set v k x) k' = (if k' = k then x else js_get v k')"
  by (cases v) (simp_all add: js_is_record_def js_set_def update_conv)

lemma js_delete_get [simp]: "js_get (js_delete v k) k' = (if k' = k then Undefined else js_get v k')"
  by (cases v) (simp_all add: js_delete_def js_get_def delete_conv)

lemma js_set_has [simp]: "js_is_record v \<Longrightarrow> js_has (js_set v k x) k' \<longleftrightarrow> k' = k \<or> js_has v k'"
  by (cases v) (simp_all add: js_is_record_def js_set_def js_has_def update_conv)

lemma js_delete_has [simp]: "js_has (js_delete v k) k' \<longleftrightarrow> k' \<noteq> k \<and> js_has v k'"
  by (cases v) (simp_all add: js_delete_def js_has_def delete_conv)

lemma js_record_closed [simp]:
  "js_is_record (js_set v k x) = js_is_record v" "js_is_record (js_delete v k) = js_is_record v"
  by (cases v; simp add: js_is_record_def js_set_def js_delete_def)+

lemma js_split_nonempty [simp]: "js_split sep s \<noteq> []"
  by (induction s) (auto split: list.splits)

lemma js_join_Cons: "ws \<noteq> [] \<Longrightarrow> js_join sep (w # ws) = w @ sep @ js_join sep ws"
  by (cases ws) simp_all

lemma js_join_split: "js_join [sep] (js_split sep s) = s"
proof (induction s)
  case (Cons c cs)
  obtain w ws where w: "js_split sep cs = w # ws" by (cases "js_split sep cs") auto
  show ?case
  proof (cases "c = sep")
    case True
    with Cons show ?thesis by (simp add: js_join_Cons)
  next
    case False
    have "js_join [sep] ((c # w) # ws) = c # js_join [sep] (w # ws)" by (cases ws) simp_all
    with False Cons w show ?thesis by simp
  qed
qed simp

end
