(* ===== verification/Calendar.thy ===== *)
theory Calendar
  imports JsValue
begin

text \<open>
  Days, months and the calendar keys of the worker (\<open>worker/src/utils.js\<close>, and the day
  arithmetic of \<open>probe-history-buffer.js\<close>).

  The first part is the language's own date arithmetic (ECMAScript, \<open>DayFromYear\<close>,
  \<open>YearFromTime\<close>, \<open>MonthFromTime\<close>, \<open>MakeDay\<close>) on day numbers since 1970-01-01; the second
  the functions of the source built on it: local days, day keys, traffic periods. Instants
  are seconds as integers inside the range of a JavaScript date, \<open>now\<close> is the clock.
\<close>

section \<open>Division by a constant, one step further\<close>

lemma int_div_mod_succ:
  fixes a n :: int
  assumes "0 < n"
  shows "(a + 1) div n = a div n + (if a mod n = n - 1 then 1 else 0)"
    and "(a + 1) mod n = (if a mod n = n - 1 then 0 else a mod n + 1)"
proof -
  have a: "a = n * (a div n) + a mod n" and r: "0 \<le> a mod n" "a mod n < n" using assms by simp_all
  show "(a + 1) div n = a div n + (if a mod n = n - 1 then 1 else 0)"
  proof (cases "a mod n = n - 1")
    case True
    with a have "a + 1 = n * (a div n + 1) + 0" by (simp add: algebra_simps)
    then have "(a + 1) div n = a div n + 1" by (rule int_div_pos_eq) (use assms in simp_all)
    with True show ?thesis by simp
  next
    case False
    from a have "a + 1 = n * (a div n) + (a mod n + 1)" by simp
    then have "(a + 1) div n = a div n" by (rule int_div_pos_eq) (use r False in simp_all)
    with False show ?thesis by simp
  qed
  show "(a + 1) mod n = (if a mod n = n - 1 then 0 else a mod n + 1)"
  proof (cases "a mod n = n - 1")
    case True
    with a have "a + 1 = n * (a div n + 1) + 0" by (simp add: algebra_simps)
    then have "(a + 1) mod n = 0" by (rule int_mod_pos_eq) (use assms in simp_all)
    with True show ?thesis by simp
  next
    case False
    from a have "a + 1 = n * (a div n) + (a mod n + 1)" by simp
    then have "(a + 1) mod n = a mod n + 1" by (rule int_mod_pos_eq) (use r False in simp_all)
    with False show ?thesis by simp
  qed
qed

lemma int_div_succ_dvd:
  fixes a n :: int
  assumes "0 < n"
  shows "(a + 1) div n = a div n + (if n dvd a + 1 then 1 else 0)"
  using int_div_mod_succ [OF assms, of a] pos_mod_sign [OF assms, of a]
  by (auto simp: dvd_eq_mod_eq_0 split: if_splits)

section \<open>The proleptic Gregorian calendar of the language\<close>

definition day_from_year :: "int \<Rightarrow> int" where
  "day_from_year y =
     365 * (y - 1970) + (y - 1969) div 4 - (y - 1901) div 100 + (y - 1601) div 400"

definition leap_year :: "int \<Rightarrow> bool" where
  "leap_year y = ((y mod 4 = 0 \<and> y mod 100 \<noteq> 0) \<or> y mod 400 = 0)"

lemma dvd_shift: "(n::int) dvd c \<Longrightarrow> n dvd y - c \<longleftrightarrow> n dvd y"
  by (rule dvd_diff_left_iff)

lemma century_dvd: "100 dvd (y::int) \<Longrightarrow> 4 dvd y" "400 dvd y \<Longrightarrow> 100 dvd y"
  by (erule dvd_trans [rotated], simp)+

lemma leap_year_dvd: "leap_year y \<longleftrightarrow> 4 dvd y \<and> (100 dvd y \<longrightarrow> 400 dvd y)"
  unfolding leap_year_def dvd_eq_mod_eq_0 [symmetric] using century_dvd by blast

lemma day_from_year_Suc: "day_from_year (y + 1) = day_from_year y + (if leap_year y then 366 else 365)"
proof -
  define a b c where "a = (y - 1969) div 4" and "b = (y - 1901) div 100" and "c = (y - 1601) div 400"
  have "(y - 1968) div 4 = a + (if 4 dvd y then 1 else 0)"
    using int_div_succ_dvd [of 4 "y - 1969"] by (simp add: a_def dvd_shift)
  moreover have "(y - 1900) div 100 = b + (if 100 dvd y then 1 else 0)"
    using int_div_succ_dvd [of 100 "y - 1901"] by (simp add: b_def dvd_shift)
  moreover have "(y - 1600) div 400 = c + (if 400 dvd y then 1 else 0)"
    using int_div_succ_dvd [of 400 "y - 1601"] by (simp add: c_def dvd_shift)
  ultimately have "day_from_year (y + 1) - day_from_year y =
    365 + (if 4 dvd y then 1 else 0) - (if 100 dvd y then 1 else 0) + (if 400 dvd y then 1 else 0)"
    unfolding day_from_year_def a_def [symmetric] b_def [symmetric] c_def [symmetric] by simp
  then show ?thesis
    using century_dvd [of y] by (auto simp: leap_year_dvd split: if_splits)
qed

lemma day_from_year_less: "day_from_year y < day_from_year (y + 1)"
  by (simp add: day_from_year_Suc)

text \<open>\<open>YearFromTime\<close>: the largest year that starts no later than the day.\<close>

function year_search :: "int \<Rightarrow> int \<Rightarrow> int" where
  "year_search z y = (if day_from_year (y + 1) \<le> z then year_search z (y + 1) else y)"
  by pat_completeness auto
termination
  by (relation "measure (\<lambda>(z, y). nat (z + 1 - day_from_year y))")
    (auto simp: day_from_year_Suc split: if_splits)

declare year_search.simps [simp del]

definition year_from_day :: "int \<Rightarrow> int" where
  "year_from_day z = year_search z (1970 + (if 0 \<le> z then z div 366 else z div 365))"

lemma year_search_bounds:
  "day_from_year y \<le> z \<Longrightarrow>
   day_from_year (year_search z y) \<le> z \<and> z < day_from_year (year_search z y + 1)"
proof (induction z y rule: year_search.induct)
  case (1 z y)
  then show ?case by (cases "day_from_year (y + 1) \<le> z") (auto simp: year_search.simps [of z y])
qed

lemma day_from_year_upper: "day_from_year (1970 + int k) \<le> 366 * int k"
proof (induction k)
  case (Suc k)
  then show ?case using day_from_year_Suc [of "1970 + int k"]
    by (simp add: algebra_simps split: if_splits)
qed (simp add: day_from_year_def)

lemma day_from_year_lower: "day_from_year (1970 - int k) \<le> - 365 * int k"
proof (induction k)
  case (Suc k)
  then show ?case using day_from_year_Suc [of "1970 - int k - 1"]
    by (simp add: algebra_simps split: if_splits)
qed (simp add: day_from_year_def)

lemma year_guess: "day_from_year (1970 + (if 0 \<le> z then z div 366 else z div 365)) \<le> z"
proof (cases "0 \<le> z")
  case True
  then have "day_from_year (1970 + z div 366) \<le> 366 * (z div 366)"
    using day_from_year_upper [of "nat (z div 366)"] by (simp add: pos_imp_zdiv_nonneg_iff)
  also have "\<dots> \<le> z" using pos_mod_sign [of 366 z] mult_div_mod_eq [of 366 z] by linarith
  finally show ?thesis using True by simp
next
  case False
  then have neg: "z div 365 < 0" by (simp add: neg_imp_zdiv_neg_iff)
  then have "day_from_year (1970 + z div 365) \<le> 365 * (z div 365)"
    using day_from_year_lower [of "nat (- (z div 365))"] by simp
  also have "\<dots> \<le> z" using pos_mod_sign [of 365 z] mult_div_mod_eq [of 365 z] by linarith
  finally show ?thesis using False by simp
qed

lemma year_from_day_bounds:
  "day_from_year (year_from_day z) \<le> z" "z < day_from_year (year_from_day z + 1)"
  using year_search_bounds [OF year_guess] by (auto simp: year_from_day_def)

section \<open>Months\<close>

text \<open>The first day of a month (0 to 11) within its year, for a leap year or not.\<close>

definition month_start :: "bool \<Rightarrow> int \<Rightarrow> int" where
  "month_start leap m = [0, 31, 59, 90, 120, 151, 181, 212, 243, 273, 304, 334] ! nat m
     + (if leap \<and> 2 \<le> m then 1 else 0)"

definition month_len :: "bool \<Rightarrow> int \<Rightarrow> int" where
  "month_len leap m = (if m = 1 then (if leap then 29 else 28)
     else if m \<in> {3, 5, 8, 10} then 30 else 31)"

function month_search :: "bool \<Rightarrow> int \<Rightarrow> int \<Rightarrow> int" where
  "month_search leap d m =
     (if m < 11 \<and> month_start leap (m + 1) \<le> d then month_search leap d (m + 1) else m)"
  by pat_completeness auto
termination by (relation "measure (\<lambda>(leap, d, m). nat (11 - m))") auto

declare month_search.simps [simp del]

definition month_in_year :: "bool \<Rightarrow> int \<Rightarrow> int" where
  "month_in_year leap d = month_search leap d 0"

text \<open>\<open>MakeDay(y, m, d)\<close>: months outside 0 to 11 carry into the year.\<close>

definition make_day :: "int \<Rightarrow> int \<Rightarrow> int \<Rightarrow> int" where
  "make_day y m d = (let y' = y + m div 12 in day_from_year y' + month_start (leap_year y') (m mod 12) + d - 1)"

definition month_of_day :: "int \<Rightarrow> int" where
  "month_of_day z = (let y = year_from_day z in month_in_year (leap_year y) (z - day_from_year y))"

definition date_of_day :: "int \<Rightarrow> int" where
  "date_of_day z = (let y = year_from_day z in
     z - day_from_year y - month_start (leap_year y) (month_of_day z) + 1)"

text \<open>Months numbered through the years: month \<open>m\<close> of year \<open>y\<close> is \<open>12 * y + m\<close>.\<close>

definition month_first :: "int \<Rightarrow> int" where
  "month_first M = make_day 0 M 1"

definition month_days :: "int \<Rightarrow> int" where
  "month_days M = month_len (leap_year (M div 12)) (M mod 12)"

definition month_index :: "int \<Rightarrow> int" where
  "month_index z = 12 * year_from_day z + month_of_day z"

lemma month_lt_12:
  fixes m :: int
  assumes "0 \<le> m" "m < 12"
  shows "m = 0 \<or> m = 1 \<or> m = 2 \<or> m = 3 \<or> m = 4 \<or> m = 5 \<or> m = 6 \<or> m = 7 \<or> m = 8 \<or> m = 9 \<or> m = 10 \<or> m = 11"
  using assms by presburger

lemma month_start_simps:
  "month_start l 0 = 0" "month_start l 1 = 31" "month_start l 2 = 59 + (if l then 1 else 0)"
  "month_start l 3 = 90 + (if l then 1 else 0)" "month_start l 4 = 120 + (if l then 1 else 0)"
  "month_start l 5 = 151 + (if l then 1 else 0)" "month_start l 6 = 181 + (if l then 1 else 0)"
  "month_start l 7 = 212 + (if l then 1 else 0)" "month_start l 8 = 243 + (if l then 1 else 0)"
  "month_start l 9 = 273 + (if l then 1 else 0)" "month_start l 10 = 304 + (if l then 1 else 0)"
  "month_start l 11 = 334 + (if l then 1 else 0)"
  by (simp_all add: month_start_def)

lemma month_start_Suc:
  assumes "0 \<le> m" "m < 11"
  shows "month_start leap (m + 1) = month_start leap m + month_len leap m"
proof -
  have "m = 0 \<or> m = 1 \<or> m = 2 \<or> m = 3 \<or> m = 4 \<or> m = 5 \<or> m = 6 \<or> m = 7 \<or> m = 8 \<or> m = 9 \<or> m = 10"
    using month_lt_12 [of m] assms by auto
  then show ?thesis by (elim disjE) (simp_all add: month_start_simps month_len_def)
qed

lemma month_start_11: "month_start leap 11 + month_len leap 11 = (if leap then 366 else 365)"
  by (simp add: month_start_simps month_len_def)

lemma month_first_Suc: "month_first (M + 1) = month_first M + month_days M"
proof (cases "M mod 12 = 11")
  case True
  then have "(M + 1) mod 12 = 0" "(M + 1) div 12 = M div 12 + 1"
    using int_div_mod_succ [of 12 M] by simp_all
  with True show ?thesis
    using month_start_11 [of "leap_year (M div 12)"]
    by (simp add: month_first_def make_day_def month_days_def day_from_year_Suc month_start_simps Let_def
        split: if_splits)
next
  case False
  then have "(M + 1) mod 12 = M mod 12 + 1" "(M + 1) div 12 = M div 12"
    using int_div_mod_succ [of 12 M] by simp_all
  moreover have "M mod 12 < 11" using False pos_mod_bound [of 12 M] by linarith
  ultimately
  show ?thesis
    using month_start_Suc [of "M mod 12" "leap_year (M div 12)"]
    by (simp add: month_first_def make_day_def month_days_def Let_def)
qed

lemma month_days_bounds: "28 \<le> month_days M" "month_days M \<le> 31"
  by (auto simp: month_days_def month_len_def)

lemma month_first_add: "month_first M + 28 * int k \<le> month_first (M + int k)"
proof (induction k)
  case (Suc k)
  have "month_first (M + int (Suc k)) = month_first (M + int k) + month_days (M + int k)"
    using month_first_Suc [of "M + int k"] by (simp add: algebra_simps)
  with Suc month_days_bounds(1) [of "M + int k"] show ?case by simp
qed simp

lemma month_first_mono: "M \<le> N \<Longrightarrow> month_first M \<le> month_first N"
  using month_first_add [of M "nat (N - M)"] by simp

lemma month_first_less_iff: "month_first M < month_first N \<longleftrightarrow> M < N"
proof
  assume "M < N"
  then have "month_first (M + 1) \<le> month_first N" by (intro month_first_mono) simp
  with month_days_bounds(1) [of M] show "month_first M < month_first N"
    by (simp add: month_first_Suc)
qed (meson month_first_mono not_le)

lemma make_day_month_first: "make_day y m d = month_first (12 * y + m) + d - 1"
proof -
  have "(12 * y + m) div 12 = y + m div 12" "(12 * y + m) mod 12 = m mod 12" by simp_all
  then show ?thesis by (simp add: make_day_def month_first_def Let_def add.commute [of "m div 12"])
qed

lemma month_search_bounds:
  assumes "0 \<le> m" "m < 12" "month_start leap m \<le> d" "d < (if leap then 366 else 365)"
  shows "0 \<le> month_search leap d m \<and> month_search leap d m < 12 \<and>
    month_start leap (month_search leap d m) \<le> d \<and>
    d < month_start leap (month_search leap d m) + month_len leap (month_search leap d m)"
  using assms
proof (induction leap d m rule: month_search.induct)
  case (1 leap d m)
  show ?case
  proof (cases "m < 11 \<and> month_start leap (m + 1) \<le> d")
    case True
    with 1 show ?thesis by (simp add: month_search.simps [of leap d m])
  next
    case False
    then have "d < month_start leap m + month_len leap m"
      using 1 month_start_Suc [of m leap] month_start_11 [of leap] by (cases "m = 11") auto
    with 1 False show ?thesis by (auto simp: month_search.simps [of leap d m])
  qed
qed

lemma month_in_year_bounds:
  assumes "0 \<le> d" "d < (if leap then 366 else 365)"
  shows "0 \<le> month_in_year leap d \<and> month_in_year leap d < 12 \<and>
    month_start leap (month_in_year leap d) \<le> d \<and>
    d < month_start leap (month_in_year leap d) + month_len leap (month_in_year leap d)"
  unfolding month_in_year_def
  by (rule month_search_bounds) (use assms in \<open>auto simp: month_start_simps\<close>)

lemma month_index_bounds: "month_first (month_index z) \<le> z" "z < month_first (month_index z + 1)"
  and date_of_day_eq: "date_of_day z = z - month_first (month_index z) + 1"
  and month_index_div: "month_index z div 12 = year_from_day z"
  and month_index_mod: "month_index z mod 12 = month_of_day z"
proof -
  let ?y = "year_from_day z" and ?l = "leap_year (year_from_day z)" and ?m = "month_of_day z"
  have "0 \<le> z - day_from_year ?y" "z - day_from_year ?y < (if ?l then 366 else 365)"
    using year_from_day_bounds [of z] by (auto simp: day_from_year_Suc)
  then have m: "0 \<le> ?m" "?m < 12" "month_start ?l ?m \<le> z - day_from_year ?y"
    "z - day_from_year ?y < month_start ?l ?m + month_len ?l ?m"
    using month_in_year_bounds [of "z - day_from_year ?y" ?l] by (auto simp: month_of_day_def Let_def)
  then show dv: "month_index z div 12 = ?y" and md: "month_index z mod 12 = ?m"
    by (simp_all add: month_index_def)
  then have first: "month_first (month_index z) = day_from_year ?y + month_start ?l ?m"
    by (simp add: month_first_def make_day_def Let_def)
  show "month_first (month_index z) \<le> z" using m first by simp
  show "z < month_first (month_index z + 1)"
    using m first dv md by (simp add: month_first_Suc month_days_def)
  show "date_of_day z = z - month_first (month_index z) + 1"
    by (simp add: date_of_day_def first Let_def)
qed

lemma month_index_unique:
  assumes "month_first M \<le> z" "z < month_first (M + 1)"
  shows "month_index z = M"
proof -
  have "month_first (month_index z) < month_first (M + 1)" "month_first M < month_first (month_index z + 1)"
    using assms month_index_bounds [of z] by linarith+
  then show ?thesis by (simp add: month_first_less_iff)
qed

lemma date_of_day_bounds: "1 \<le> date_of_day z" "date_of_day z \<le> month_days (month_index z)"
  using month_index_bounds [of z] by (simp_all add: date_of_day_eq month_first_Suc)

text \<open>Reading a day's fields and making a day of them are inverse.\<close>

lemma make_day_of_fields: "make_day (year_from_day z) (month_of_day z) (date_of_day z) = z"
  by (simp add: make_day_month_first date_of_day_eq flip: month_index_def)

lemma fields_of_make_day:
  assumes "0 \<le> m" "m < 12" "1 \<le> d" "d \<le> month_days (12 * y + m)"
  shows "year_from_day (make_day y m d) = y" "month_of_day (make_day y m d) = m"
    "date_of_day (make_day y m d) = d"
proof -
  have i: "month_index (make_day y m d) = 12 * y + m"
    by (rule month_index_unique) (use assms in \<open>simp_all add: make_day_month_first month_first_Suc\<close>)
  then show "year_from_day (make_day y m d) = y" "month_of_day (make_day y m d) = m"
    using month_index_div [of "make_day y m d"] month_index_mod [of "make_day y m d"] assms by simp_all
  show "date_of_day (make_day y m d) = d"
    by (simp only: date_of_day_eq i) (simp add: make_day_month_first)
qed

section \<open>Printed days\<close>

text \<open>
  \<open>toISOString().slice(0, 10)\<close>: four digits of the year for the years 0 to 9999, a sign and
  six digits outside, cut at ten characters.
\<close>

definition iso_year :: "int \<Rightarrow> string" where
  "iso_year y = (if 0 \<le> y \<and> y \<le> 9999 then pad_zero 4 (nat_str (nat y))
     else (if y < 0 then ''-'' else ''+'') @ pad_zero 6 (nat_str (nat \<bar>y\<bar>)))"

definition pad2 :: "int \<Rightarrow> string" where
  "pad2 n = pad_zero 2 (int_str n)"

definition iso_day :: "int \<Rightarrow> string" where
  "iso_day z = take 10 (iso_year (year_from_day z) @ ''-'' @ pad2 (month_of_day z + 1) @ ''-'' @ pad2 (date_of_day z))"

fun fixed_digits :: "nat \<Rightarrow> nat \<Rightarrow> string" where
  "fixed_digits 0 n = []"
| "fixed_digits (Suc w) n = fixed_digits w (n div 10) @ [digit_char (n mod 10)]"

lemma length_fixed_digits [simp]: "length (fixed_digits w n) = w"
  by (induction w n rule: fixed_digits.induct) simp_all

lemma digit_char_0 [simp]: "digit_char 0 = CHR ''0''"
  by code_simp

lemma fixed_digits_0: "fixed_digits w 0 = replicate w (CHR ''0'')"
  by (induction w) (simp_all add: replicate_append_same)

lemma length_nat_str: "n < 10 ^ Suc w \<Longrightarrow> length (nat_str n) \<le> Suc w"
proof (induction w arbitrary: n)
  case 0
  then show ?case by (subst nat_str.simps) simp
next
  case (Suc w)
  then have "n div 10 < 10 ^ Suc w" by (simp add: less_mult_imp_div_less)
  with Suc.IH [of "n div 10"] show ?case by (subst nat_str.simps) auto
qed

lemma pad_zero_nat_str: "n < 10 ^ Suc w \<Longrightarrow> pad_zero (Suc w) (nat_str n) = fixed_digits (Suc w) n"
proof (induction w arbitrary: n)
  case 0
  then show ?case by (subst nat_str.simps) (simp add: pad_zero_def)
next
  case (Suc w)
  show ?case
  proof (cases "n < 10")
    case True
    then have d: "n div 10 = 0" "n mod 10 = n" by simp_all
    show ?thesis
      by (subst nat_str.simps)
        (simp add: True d pad_zero_def fixed_digits_0 flip: replicate_append_same)
  next
    case False
    have q: "n div 10 < 10 ^ Suc w" using Suc.prems by (simp add: less_mult_imp_div_less)
    have "pad_zero (Suc (Suc w)) (nat_str n) = pad_zero (Suc w) (nat_str (n div 10)) @ [digit_char (n mod 10)]"
      using False by (subst nat_str.simps) (simp add: pad_zero_def)
    with Suc.IH [OF q] show ?thesis by simp
  qed
qed

lemma digit_char_less: "d < e \<Longrightarrow> e < 10 \<Longrightarrow> digit_char d < digit_char e"
  by (simp add: digit_char_def less_char_def)

lemma less_append_same_length:
  fixes xs ys :: "'a::linorder list"
  assumes "length xs = length ys" "xs < ys"
  shows "xs @ us < ys @ vs"
  using assms by (induction xs ys rule: list_induct2) auto

lemma less_append_common:
  fixes xs :: "'a::linorder list"
  shows "us < vs \<Longrightarrow> xs @ us < xs @ vs"
  by (induction xs) auto

lemma fixed_digits_less: "m < n \<Longrightarrow> n < 10 ^ w \<Longrightarrow> fixed_digits w m < fixed_digits w n"
proof (induction w arbitrary: m n)
  case (Suc w)
  have q: "n div 10 < 10 ^ w" using Suc.prems by (simp add: less_mult_imp_div_less)
  show ?case
  proof (cases "m div 10 < n div 10")
    case True
    then show ?thesis using Suc.IH [OF True q] by (simp add: less_append_same_length)
  next
    case False
    then have e: "m div 10 = n div 10" using div_le_mono [of m n 10] Suc.prems(1) by simp
    then have "m mod 10 < n mod 10" using Suc.prems(1) by (metis div_mult_mod_eq add_less_cancel_left)
    then show ?thesis by (simp add: e less_append_common digit_char_less)
  qed
qed simp

lemma pad2_digits: "0 \<le> n \<Longrightarrow> n < 100 \<Longrightarrow> pad2 n = fixed_digits 2 (nat n)"
  using pad_zero_nat_str [of "nat n" 1] by (simp add: pad2_def int_str_def numeral_2_eq_2)

lemma month_of_day_bounds: "0 \<le> month_of_day z" "month_of_day z < 12"
  by (simp_all flip: month_index_mod)

lemma date_of_day_le_31: "date_of_day z \<le> 31"
  using date_of_day_bounds(2) [of z] month_days_bounds(2) [of "month_index z"] by linarith

lemma iso_day_digits:
  assumes "0 \<le> year_from_day z" "year_from_day z \<le> 9999"
  shows "iso_day z = fixed_digits 4 (nat (year_from_day z)) @ ''-'' @
    fixed_digits 2 (nat (month_of_day z + 1)) @ ''-'' @ fixed_digits 2 (nat (date_of_day z))"
proof -
  have "pad_zero 4 (nat_str (nat (year_from_day z))) = fixed_digits 4 (nat (year_from_day z))"
  proof -
    have "nat (year_from_day z) < 10 ^ Suc 3" using assms by simp
    moreover have "Suc 3 = 4" by simp
    ultimately show ?thesis using pad_zero_nat_str [of "nat (year_from_day z)" 3] by metis
  qed
  then show ?thesis
    using assms month_of_day_bounds [of z] date_of_day_bounds(1) [of z] date_of_day_le_31 [of z]
    by (simp add: iso_day_def iso_year_def pad2_digits)
qed

lemma day_from_year_mono: "y \<le> y' \<Longrightarrow> day_from_year y \<le> day_from_year y'"
proof (induction "nat (y' - y)" arbitrary: y')
  case (Suc k)
  then have "day_from_year y \<le> day_from_year (y' - 1)" by simp
  also have "\<dots> \<le> day_from_year y'" using day_from_year_less [of "y' - 1"] by simp
  finally show ?case .
qed simp

lemma year_from_day_mono: "a \<le> b \<Longrightarrow> year_from_day a \<le> year_from_day b"
  using year_from_day_bounds [of a] year_from_day_bounds [of b]
    day_from_year_mono [of "year_from_day b + 1" "year_from_day a"] by fastforce

lemma month_index_mono: "a \<le> b \<Longrightarrow> month_index a \<le> month_index b"
  using month_index_bounds [of a] month_index_bounds [of b]
    month_first_mono [of "month_index b + 1" "month_index a"] by fastforce

text \<open>Day keys sort as the days they name, in the years of four digits.\<close>

lemma iso_day_less:
  assumes "a < b" "0 \<le> year_from_day a" "year_from_day b \<le> 9999"
  shows "iso_day a < iso_day b"
proof -
  have y: "year_from_day a \<le> year_from_day b" using assms by (simp add: year_from_day_mono)
  note iso = iso_day_digits [of a] iso_day_digits [of b]
  consider "year_from_day a < year_from_day b"
    | "year_from_day a = year_from_day b" "month_of_day a < month_of_day b"
    | "year_from_day a = year_from_day b" "month_of_day a = month_of_day b" "date_of_day a < date_of_day b"
  proof -
    have "month_index a \<le> month_index b" using assms by (simp add: month_index_mono)
    moreover have "month_index a = month_index b \<Longrightarrow> date_of_day a < date_of_day b"
      using assms by (simp add: date_of_day_eq)
    moreover have "month_index a < month_index b \<Longrightarrow> year_from_day a = year_from_day b \<Longrightarrow> month_of_day a < month_of_day b"
      by (simp add: month_index_def)
    moreover have "month_index a = month_index b \<Longrightarrow> year_from_day a = year_from_day b \<and> month_of_day a = month_of_day b"
      using month_index_div [of a] month_index_div [of b] month_index_mod [of a] month_index_mod [of b] by simp
    ultimately show thesis using that y by (meson order_le_less)
  qed
  then show ?thesis
  proof cases
    case 1
    then show ?thesis using iso y assms
      by (auto intro!: less_append_same_length fixed_digits_less)
  next
    case 2
    then show ?thesis using iso y assms month_of_day_bounds [of a] month_of_day_bounds [of b]
      by (auto intro!: less_append_common less_append_same_length fixed_digits_less)
  next
    case 3
    then show ?thesis
      using iso y assms date_of_day_bounds(1) [of a] le_less_trans [OF date_of_day_le_31 [of b], of 100]
      by (auto intro!: less_append_common fixed_digits_less simp: nat_less_iff)
  qed
qed

lemma iso_day_inject:
  assumes "0 \<le> year_from_day a" "year_from_day a \<le> 9999" "0 \<le> year_from_day b" "year_from_day b \<le> 9999"
  shows "iso_day a = iso_day b \<longleftrightarrow> a = b"
  using assms iso_day_less [of a b] iso_day_less [of b a] by (metis linorder_neqE order_less_irrefl)

end
