(* ===== verification/Utils.thy ===== *)
theory Utils
  imports Calendar
begin

text \<open>
  \<open>worker/src/utils.js\<close>: clamping and boolean settings, the local calendar and the traffic
  billing period, expected HTTP statuses, public errors, history points and the synthesis of
  missed five-minute checks.

  The environment and every JSON value are \<open>jsval\<close>; a clock reading is an argument \<open>now\<close>
  (seconds). Instants are integers, as the code floors them before it stores them. Messages
  thrown to the user are constructors of \<open>util_error\<close>, as their Chinese text is outside the
  eight-bit strings of the model.
\<close>

section \<open>Settings\<close>

definition bucket_sec :: int where "bucket_sec = 300"

definition clamp :: "jsnum \<Rightarrow> int \<Rightarrow> int \<Rightarrow> int" where
  "clamp n lo hi = (case n of
     NaN \<Rightarrow> lo | PosInf \<Rightarrow> hi | NegInf \<Rightarrow> lo | Fin q \<Rightarrow> max lo (min hi \<lfloor>q\<rfloor>))"

definition retention_seconds :: "jsval \<Rightarrow> string \<Rightarrow> int \<Rightarrow> int \<Rightarrow> int \<Rightarrow> int" where
  "retention_seconds env key default_hours min_hours max_hours =
     clamp (js_Number (js_or (js_get env key) (JInt default_hours))) min_hours max_hours * 3600"

definition parse_boolean :: "jsval \<Rightarrow> bool \<Rightarrow> bool" where
  "parse_boolean value fallback =
     (if value = Undefined \<or> value = Null \<or> value = Str [] then fallback
      else case value of
        Bool b \<Rightarrow> b
      | _ \<Rightarrow> (let s = js_lower (js_trim (js_String value)) in
           if s = ''1'' \<or> s = ''true'' then True
           else if s = ''0'' \<or> s = ''false'' then False
           else fallback))"

definition last_persisted_check_at :: "jsval \<Rightarrow> jsval \<Rightarrow> jsval \<Rightarrow> jsnum" where
  "last_persisted_check_at target latest_status r2_history_checked_at =
     js_mul (js_floor (js_mul (js_max (js_max (num_or0 (js_get target ''last_checked_at''))
         (num_or0 (js_get latest_status ''checked_at'')))
       (num_or0 r2_history_checked_at)) (Fin (1 / of_int bucket_sec)))) (jsint bucket_sec)"

section \<open>The local day\<close>

definition timezone_offset_min :: "jsval \<Rightarrow> int" where
  "timezone_offset_min env =
     (let raw = js_coalesce (js_get env ''TIMEZONE_OFFSET_MINUTES'')
                  (js_coalesce (js_get env ''PUBLIC_TIMEZONE_OFFSET_MINUTES'') (JInt 480));
          n = js_Number raw
      in if \<not> js_isFinite n then 480 else clamp n (- 720) 840)"

definition timezone_label :: "jsval \<Rightarrow> string" where
  "timezone_label env =
     (let offset = timezone_offset_min env in
      if js_trim (str_or_empty (js_get env ''TIMEZONE_LABEL'')) \<noteq> []
      then js_trim (js_String (js_get env ''TIMEZONE_LABEL''))
      else let sgn = (if 0 \<le> offset then ''+'' else ''-''); ab = \<bar>offset\<bar>
           in ''UTC'' @ sgn @ pad2 (ab div 60) @ '':'' @ pad2 (ab mod 60))"

text \<open>\<open>Number(sec || nowSec())\<close>, shifted to the configured zone\<close>

definition local_seconds :: "int \<Rightarrow> jsval \<Rightarrow> int \<Rightarrow> int" where
  "local_seconds now env sec = (if sec = 0 then now else sec) + timezone_offset_min env * 60"

definition local_day :: "int \<Rightarrow> jsval \<Rightarrow> int \<Rightarrow> int" where
  "local_day now env sec = local_seconds now env sec div 86400"

definition day_from_sec :: "int \<Rightarrow> jsval \<Rightarrow> int \<Rightarrow> string" where
  "day_from_sec now env sec = iso_day (local_day now env sec)"

definition local_date_parts :: "int \<Rightarrow> jsval \<Rightarrow> int \<Rightarrow> int \<times> int \<times> int" where
  "local_date_parts now env sec =
     (let z = local_day now env sec in (year_from_day z, month_of_day z + 1, date_of_day z))"

text \<open>\<open>Date.UTC\<close> reads the years 0 to 99 as 1900 to 1999.\<close>

definition days_in_month :: "int \<Rightarrow> int \<Rightarrow> int" where
  "days_in_month year month =
     date_of_day (make_day (if 0 \<le> year \<and> year \<le> 99 then 1900 + year else year) month 0)"

text \<open>The language's remainder keeps the sign of the dividend.\<close>

definition month_shift :: "int \<Rightarrow> int \<Rightarrow> int \<Rightarrow> int \<times> int" where
  "month_shift year month delta =
     (let zb = year * 12 + (month - 1) + delta
      in (zb div 12, (if zb < 0 then - ((- zb) mod 12) else zb mod 12) + 1))"

definition date_key :: "int \<Rightarrow> int \<Rightarrow> int \<Rightarrow> string" where
  "date_key year month day = int_str year @ ''-'' @ pad2 month @ ''-'' @ pad2 day"

record traffic_period =
  tp_month :: string
  tp_calendar_month :: bool
  tp_reset_day :: int
  tp_start :: string
  tp_end :: string

definition traffic_period_from_reset_day :: "int \<Rightarrow> jsval \<Rightarrow> jsval \<Rightarrow> int \<Rightarrow> traffic_period" where
  "traffic_period_from_reset_day now env reset_day ts =
     (let (cy, cm, cd) = local_date_parts now env ts;
          r = clamp (js_Number (js_or reset_day (JInt 1))) 1 31;
          sd0 = min r (days_in_month cy cm);
          ((sy, sm), sd) =
            (if cd < sd0
             then (let (y, m) = month_shift cy cm (- 1) in ((y, m), min r (days_in_month y m)))
             else ((cy, cm), sd0));
          (ey, em) = month_shift sy sm 1;
          ed = min r (days_in_month ey em);
          start_key = date_key sy sm sd
      in \<lparr> tp_month = start_key, tp_calendar_month = (r = 1), tp_reset_day = r,
           tp_start = start_key, tp_end = date_key ey em ed \<rparr>)"

definition date_add_local :: "int \<Rightarrow> jsval \<Rightarrow> int \<Rightarrow> string" where
  "date_add_local now env delta_days = iso_day ((now + timezone_offset_min env * 60) div 86400 + delta_days)"

definition yesterday_local :: "int \<Rightarrow> jsval \<Rightarrow> string" where
  "yesterday_local now env = date_add_local now env (- 1)"

text \<open>\<open>new Date(`${day}T00:00:00.000Z`)\<close> for a key of the form \<open>dddd-dd-dd\<close>; days up to
  31 are accepted in every month and carry over, as V8 does. Other strings are not dates.\<close>

definition is_day_key :: "string \<Rightarrow> bool" where
  "is_day_key s = (length s = 10 \<and> s ! 4 = CHR ''-'' \<and> s ! 7 = CHR ''-'' \<and>
     list_all is_digit (take 4 s) \<and> list_all is_digit (take 2 (drop 5 s)) \<and> list_all is_digit (drop 8 s))"

definition parse_day_key :: "string \<Rightarrow> int option" where
  "parse_day_key s =
     (if is_day_key s then
        (let y = int (digits_val (take 4 s)); m = int (digits_val (take 2 (drop 5 s)));
             d = int (digits_val (drop 8 s))
         in if 1 \<le> m \<and> m \<le> 12 \<and> 1 \<le> d \<and> d \<le> 31 then Some (make_day y (m - 1) d) else None)
      else None)"

text \<open>\<open>None\<close> stands for NaN.\<close>

definition day_start_sec :: "jsval \<Rightarrow> string \<Rightarrow> int option" where
  "day_start_sec env day =
     (case parse_day_key day of None \<Rightarrow> None
      | Some z \<Rightarrow> Some (z * 86400 - timezone_offset_min env * 60))"

section \<open>Expected statuses\<close>

definition is_http_status :: "jsnum \<Rightarrow> bool" where
  "is_http_status x = (js_isInteger x \<and> js_le (jsint 100) x \<and> js_le x (jsint 599))"

text \<open>\<open>String(value || '').split(',').map(x => Number(x.trim())).filter(...)\<close>\<close>

definition status_numbers :: "jsval \<Rightarrow> jsnum list" where
  "status_numbers value =
     filter is_http_status (map (\<lambda>x. parse_number (js_trim x)) (js_split (CHR '','') (str_or_empty value)))"

text \<open>\<open>[...new Set(nums)].join(',')\<close>: a set keeps the first occurrence.\<close>

definition set_order :: "'a list \<Rightarrow> 'a list" where
  "set_order xs = rev (remdups (rev xs))"

definition normalize_expected_status :: "jsval \<Rightarrow> string" where
  "normalize_expected_status value = js_join '','' (map num_str (set_order (status_numbers value)))"

definition parse_expected_status :: "jsval \<Rightarrow> jsnum list" where
  "parse_expected_status value = (if \<not> js_truthy value then [] else status_numbers value)"

section \<open>Public errors\<close>

datatype public_error =
    UnexpectedHttp jsnum | PortClosed | ConnectTimeout | DnsError | ConnectFailed | TlsError | CheckFailed

definition contains_any :: "string list \<Rightarrow> string \<Rightarrow> bool" where
  "contains_any ws s = list_ex (\<lambda>w. js_includes w (js_lower s)) ws"

definition public_error_of :: "jsval \<Rightarrow> jsval \<Rightarrow> public_error option" where
  "public_error_of error status_code =
     (if \<not> js_truthy error then None
      else let msg = js_String error in
        if js_truthy status_code then Some (UnexpectedHttp (js_Number status_code))
        else if contains_any [''proxy request failed'', ''cannot connect to the specified address''] msg then Some PortClosed
        else if contains_any [''timeout'', ''timed out'', ''abort''] msg then Some ConnectTimeout
        else if contains_any [''dns'', ''resolve'', ''nxdomain'', ''name not found''] msg then Some DnsError
        else if contains_any [''refused'', ''reset'', ''unreachable'', ''network'', ''connect'', ''socket'', ''econn''] msg
          then Some ConnectFailed
        else if contains_any [''certificate'', ''tls'', ''ssl''] msg then Some TlsError
        else Some CheckFailed)"

section \<open>History points\<close>

record check_point =
  cp_at :: jsnum
  cp_ok :: int
  cp_latency :: "jsnum option"
  cp_status :: "jsnum option"
  cp_error :: "string option"
  cp_region :: jsval
  cp_colo :: "jsval option"
  cp_total :: jsnum
  cp_ok_count :: jsnum
  cp_missed :: bool

definition missed_message :: string where
  "missed_message = ''monitor missed this 5-minute check''"

definition normalize_ok_int :: "jsval \<Rightarrow> int" where
  "normalize_ok_int value =
     (if value = Bool True \<or> value = Num (Fin 1) then 1
      else if value = Bool False \<or> value = Num (Fin 0) \<or> js_nullish value then 0
      else if js_lower (js_trim (js_String value)) \<in> {''1'', ''true'', ''yes'', ''ok'', ''up''} then 1 else 0)"

definition is_missed_monitor_point :: "jsval \<Rightarrow> bool" where
  "is_missed_monitor_point point =
     (case point of
        Obj _ \<Rightarrow>
          js_get point ''missed'' = Bool True \<or> js_get point ''synthetic'' = Bool True \<or>
          (let error = js_lower (js_trim (str_or_empty (js_get point ''error'')))
           in error = missed_message \<or> js_includes missed_message error)
      | _ \<Rightarrow> False)"

definition normalize_history_point :: "jsval \<Rightarrow> check_point" where
  "normalize_history_point p =
     (let missed = is_missed_monitor_point p;
          latency = (if js_nullish (js_get p ''latency_ms'') then None else Some (js_Number (js_get p ''latency_ms'')));
          ok = (if missed then 0 else normalize_ok_int (js_get p ''ok''));
          total = (if js_nullish (js_get p ''total'') then jsint 1 else js_max (jsint 0) (num_or0 (js_get p ''total'')));
          ok_count = (if js_nullish (js_get p ''ok_count'') then jsint ok
                      else js_max (jsint 0) (num_or0 (js_get p ''ok_count'')))
      in \<lparr> cp_at = js_Number (js_or (js_get p ''checked_at'') (js_or (js_get p ''t'') (JInt 0))),
           cp_ok = ok,
           cp_latency = (case latency of Some n \<Rightarrow> if js_isFinite n then Some n else None | None \<Rightarrow> None),
           cp_status = (if js_nullish (js_get p ''status_code'') then None else Some (js_Number (js_get p ''status_code''))),
           cp_error = (if js_truthy (js_get p ''error'') then Some (take 500 (js_String (js_get p ''error''))) else None),
           cp_region = js_or (js_get p ''probe_region'') (Str ''auto''),
           cp_colo = (if js_truthy (js_get p ''cf_colo'') then Some (js_get p ''cf_colo'') else None),
           cp_total = (if missed then js_max (jsint 1) (num_or total (jsint 1)) else total),
           cp_ok_count = (if missed then jsint 0 else ok_count),
           cp_missed = missed \<rparr>)"

text \<open>The object a normalised point is.\<close>

definition opt_json :: "('a \<Rightarrow> jsval) \<Rightarrow> 'a option \<Rightarrow> jsval" where
  "opt_json f x = (case x of None \<Rightarrow> Null | Some y \<Rightarrow> f y)"

definition check_point_json :: "check_point \<Rightarrow> jsval" where
  "check_point_json c = Obj [(''checked_at'', Num (cp_at c)), (''ok'', JInt (cp_ok c)),
     (''latency_ms'', opt_json Num (cp_latency c)), (''status_code'', opt_json Num (cp_status c)),
     (''error'', opt_json Str (cp_error c)), (''probe_region'', cp_region c), (''cf_colo'', opt_json id (cp_colo c)),
     (''total'', Num (cp_total c)), (''ok_count'', Num (cp_ok_count c)), (''missed'', Bool (cp_missed c))]"

section \<open>Missed five-minute checks\<close>

text \<open>
  \<open>previous_at\<close> is \<open>Number(previous?.checked_at || 0)\<close>. A synthesised point of the past is
  stored, one of the still open gap is only shown (\<open>synthetic\<close>).
\<close>

record missed_point =
  mp_at :: int
  mp_region :: jsval
  mp_synthetic :: bool

definition missed_check_point :: "missed_point \<Rightarrow> check_point" where
  "missed_check_point m =
     \<lparr> cp_at = jsint (mp_at m), cp_ok = 0, cp_latency = None, cp_status = None, cp_error = Some missed_message,
       cp_region = mp_region m, cp_colo = None, cp_total = jsint 1, cp_ok_count = jsint 0, cp_missed = True \<rparr>"

text \<open>\<open>for (let ts = a; ts < b; ts += BUCKET_SEC) out.push(...)\<close>\<close>

function bucket_range :: "int \<Rightarrow> int \<Rightarrow> int list" where
  "bucket_range a b = (if a < b then a # bucket_range (a + bucket_sec) b else [])"
  by pat_completeness auto
termination by (relation "measure (\<lambda>(a, b). nat (b - a))") (auto simp: bucket_sec_def)

declare bucket_range.simps [simp del]

definition floor_bucket :: "int \<Rightarrow> int" where
  "floor_bucket t = t div bucket_sec * bucket_sec"

definition max_backfill :: "jsval \<Rightarrow> int" where
  "max_backfill env = clamp (js_Number (js_or (js_get env ''MISSED_BACKFILL_MAX_BUCKETS'') (JInt 144))) 0 288"

definition build_missed_points ::
  "int \<Rightarrow> jsval \<Rightarrow> int \<Rightarrow> int \<Rightarrow> jsval \<Rightarrow> jsnum option \<Rightarrow> missed_point list" where
  "build_missed_points now env previous_at bucket_at probe_region max_buckets_override =
     (if previous_at = 0 then []
      else let previous_bucket = floor_bucket previous_at in
        if day_from_sec now env previous_bucket \<noteq> day_from_sec now env bucket_at then []
        else let gap_buckets = (bucket_at - previous_bucket) div bucket_sec - 1;
                 max_missed = (case max_buckets_override of None \<Rightarrow> max_backfill env | Some n \<Rightarrow> clamp n 0 288)
             in if gap_buckets \<le> 0 \<or> gap_buckets > max_missed then []
                else map (\<lambda>ts. \<lparr> mp_at = ts, mp_region = js_or probe_region (Str ''auto''), mp_synthetic = False \<rparr>)
                       (bucket_range (previous_bucket + bucket_sec) bucket_at))"

definition build_open_missed_points ::
  "int \<Rightarrow> jsval \<Rightarrow> int \<Rightarrow> jsval \<Rightarrow> int \<Rightarrow> jsval \<Rightarrow> missed_point list" where
  "build_open_missed_points now env previous_at previous_region at_sec probe_region =
     (if previous_at = 0 then []
      else let previous_bucket = floor_bucket previous_at;
               now_value = (if at_sec = 0 then now else at_sec);
               current_bucket = floor_bucket now_value;
               grace_sec = clamp (js_Number (js_or (js_get env ''MISSED_BACKFILL_GRACE_SEC'') (JInt 150))) 0 (bucket_sec - 1);
               virtual_bucket_at = (if grace_sec \<le> now_value - current_bucket then current_bucket + bucket_sec else current_bucket)
           in if day_from_sec now env previous_bucket \<noteq> day_from_sec now env virtual_bucket_at then []
              else let gap_buckets = (virtual_bucket_at - previous_bucket) div bucket_sec - 1;
                       max_missed = max_backfill env
                   in if gap_buckets \<le> 0 \<or> gap_buckets > max_missed then []
                      else map (\<lambda>ts. \<lparr> mp_at = ts, mp_region = js_or probe_region (js_or previous_region (Str ''auto'')),
                                        mp_synthetic = True \<rparr>)
                             (bucket_range (previous_bucket + bucket_sec) virtual_bucket_at))"

section \<open>Facts about settings\<close>

lemma clamp_simps [simp, js_arith]:
  "clamp (Fin q) lo hi = max lo (min hi \<lfloor>q\<rfloor>)" "clamp NaN lo hi = lo"
  "clamp PosInf lo hi = hi" "clamp NegInf lo hi = lo"
  by (simp_all add: clamp_def)

lemma clamp_bounds: "lo \<le> hi \<Longrightarrow> lo \<le> clamp n lo hi \<and> clamp n lo hi \<le> hi"
  by (cases n) auto

lemma timezone_offset_bounds: "- 720 \<le> timezone_offset_min env \<and> timezone_offset_min env \<le> 840"
  unfolding timezone_offset_min_def Let_def by (simp add: clamp_bounds)

section \<open>The billing calendar\<close>

text \<open>
  What the traffic period means: every month has a reset point, the reset day or the month's
  last day, and the period of a day runs from the last reset point up to the next one.
\<close>

definition reset_point :: "int \<Rightarrow> int \<Rightarrow> int" where
  "reset_point r M = month_first M + min r (month_days M) - 1"

definition billing_month :: "int \<Rightarrow> int \<Rightarrow> int" where
  "billing_month r z = (if z < reset_point r (month_index z) then month_index z - 1 else month_index z)"

lemma reset_point_in_month:
  assumes "1 \<le> r"
  shows "month_first M \<le> reset_point r M" "reset_point r M < month_first (M + 1)"
  using assms month_days_bounds(1) [of M] by (auto simp: reset_point_def month_first_Suc)

lemma reset_point_mono:
  assumes "1 \<le> r" "M < N"
  shows "reset_point r M < reset_point r N"
  using reset_point_in_month [OF assms(1), of M] reset_point_in_month [OF assms(1), of N]
    month_first_mono [of "M + 1" N] assms(2) by linarith

lemma billing_month_bounds:
  assumes "1 \<le> r"
  shows "reset_point r (billing_month r z) \<le> z" "z < reset_point r (billing_month r z + 1)"
proof -
  note b = month_index_bounds [of z]
  show "reset_point r (billing_month r z) \<le> z"
    using b reset_point_in_month(2) [OF assms, of "month_index z - 1"] by (auto simp: billing_month_def)
  show "z < reset_point r (billing_month r z + 1)"
    using b reset_point_in_month(1) [OF assms, of "month_index z + 1"] by (auto simp: billing_month_def)
qed

lemma billing_month_unique:
  assumes "1 \<le> r" "reset_point r M \<le> z" "z < reset_point r (M + 1)"
  shows "billing_month r z = M"
proof (rule ccontr)
  assume "billing_month r z \<noteq> M"
  then consider "billing_month r z + 1 \<le> M" | "M + 1 \<le> billing_month r z" by linarith
  then show False
    using billing_month_bounds [OF assms(1), of z] assms(2,3)
      reset_point_mono [OF assms(1), of "billing_month r z + 1" M]
      reset_point_mono [OF assms(1), of "M + 1" "billing_month r z"]
    by cases (auto simp: order_le_less)
qed

lemma days_in_month_eq:
  assumes "100 \<le> y" "1 \<le> m" "m \<le> 12"
  shows "days_in_month y m = month_days (12 * y + (m - 1))"
proof -
  let ?M = "12 * y + (m - 1)"
  have "make_day y m 0 = month_first (?M + 1) - 1" by (simp add: make_day_month_first)
  moreover have "month_index (month_first (?M + 1) - 1) = ?M"
    using month_days_bounds(1) [of ?M] month_first_Suc [of ?M] by (intro month_index_unique) simp_all
  ultimately show ?thesis
    using assms month_first_Suc [of ?M] by (simp add: days_in_month_def date_of_day_eq)
qed

lemma month_shift_eq:
  assumes "0 \<le> 12 * y + (m - 1) + d"
  shows "month_shift y m d = ((12 * y + (m - 1) + d) div 12, (12 * y + (m - 1) + d) mod 12 + 1)"
  using assms by (simp add: month_shift_def Let_def mult.commute)

lemma date_key_iso:
  assumes "1000 \<le> y" "y \<le> 9999" "1 \<le> m" "m \<le> 12" "1 \<le> d" "d \<le> month_days (12 * y + (m - 1))"
  shows "date_key y m d = iso_day (month_first (12 * y + (m - 1)) + d - 1)"
proof -
  let ?z = "make_day y (m - 1) d"
  have f: "year_from_day ?z = y" "month_of_day ?z = m - 1" "date_of_day ?z = d"
    using fields_of_make_day [of "m - 1" d y] assms by simp_all
  have len: "length (nat_str (nat y)) = 4"
  proof -
    have "\<not> nat y < 10" "\<not> nat y div 10 < 10" "\<not> nat y div 10 div 10 < 10"
      "nat y div 10 div 10 div 10 < 10" using assms by linarith+
    then show ?thesis
      by (simp add: nat_str.simps [of "nat y"] nat_str.simps [of "nat y div 10"]
        nat_str.simps [of "nat y div 10 div 10"] nat_str.simps [of "nat y div 10 div 10 div 10"])
  qed
  have "iso_day ?z = date_key y m d"
    using assms len month_days_bounds(2) [of "12 * y + (m - 1)"]
    by (simp add: iso_day_def iso_year_def f date_key_def int_str_def pad_zero_def pad2_digits)
  then show ?thesis by (simp add: make_day_month_first)
qed

text \<open>The same operations on a numbered month.\<close>

lemma days_in_month_index:
  "1200 \<le> M \<Longrightarrow> days_in_month (M div 12) (M mod 12 + 1) = month_days M"
  using days_in_month_eq [of "M div 12" "M mod 12 + 1"] pos_mod_bound [of 12 M] pos_mod_sign [of 12 M]
  by fastforce

lemma month_shift_index:
  "0 \<le> M + d \<Longrightarrow> month_shift (M div 12) (M mod 12 + 1) d = ((M + d) div 12, (M + d) mod 12 + 1)"
  using month_shift_eq [of "M div 12" "M mod 12 + 1" d] by simp

lemma date_key_reset_point:
  assumes "12000 \<le> M" "M < 120000" "1 \<le> r"
  shows "date_key (M div 12) (M mod 12 + 1) (min r (month_days M)) = iso_day (reset_point r M)"
proof -
  have "1000 \<le> M div 12" "M div 12 \<le> 9999" "M mod 12 + 1 \<le> 12" "1 \<le> M mod 12 + 1" using assms by auto
  moreover have "12 * (M div 12) + (M mod 12 + 1 - 1) = M" by simp
  moreover have "1 \<le> min r (month_days M)" using assms(3) month_days_bounds(1) [of M] by simp
  ultimately show ?thesis
    using date_key_iso [of "M div 12" "M mod 12 + 1" "min r (month_days M)"] by (simp add: reset_point_def)
qed

lemma month_index_date_less_iff:
  "1 \<le> r \<Longrightarrow> date_of_day z < min r (month_days (month_index z)) \<longleftrightarrow> z < reset_point r (month_index z)"
  by (auto simp: reset_point_def date_of_day_eq)

lemma local_date_parts_index:
  "local_date_parts now env sec =
     (let z = local_day now env sec; M = month_index z in (M div 12, M mod 12 + 1, date_of_day z))"
  by (simp add: local_date_parts_def month_index_div month_index_mod Let_def)

lemma traffic_period_eq:
  fixes now env rd ts
  defines "z \<equiv> local_day now env ts" and "r \<equiv> clamp (js_Number (js_or rd (JInt 1))) 1 31"
  defines "S \<equiv> billing_month r z"
  assumes y: "1001 \<le> year_from_day z" "year_from_day z \<le> 9998"
  shows "traffic_period_from_reset_day now env rd ts =
    \<lparr> tp_month = iso_day (reset_point r S), tp_calendar_month = (r = 1), tp_reset_day = r,
      tp_start = iso_day (reset_point r S), tp_end = iso_day (reset_point r (S + 1)) \<rparr>"
proof -
  define M where "M = month_index z"
  have r: "1 \<le> r" unfolding r_def using clamp_bounds [of 1 31] by simp
  have M: "12012 \<le> M" "M < 119988"
    using y month_index_div [of z] by (auto simp flip: M_def)
  have S: "S = (if z < reset_point r M then M - 1 else M)"
    by (simp add: S_def billing_month_def M_def)
  then have Sb: "12000 \<le> S" "S + 1 < 120000" using M by auto
  have start: "(if date_of_day z < min r (days_in_month (M div 12) (M mod 12 + 1))
      then (let (y, m) = month_shift (M div 12) (M mod 12 + 1) (- 1) in ((y, m), min r (days_in_month y m)))
      else ((M div 12, M mod 12 + 1), min r (days_in_month (M div 12) (M mod 12 + 1))))
    = ((S div 12, S mod 12 + 1), min r (month_days S))"
  proof (cases "z < reset_point r M")
    case True
    moreover have "month_shift (M div 12) (M mod 12 + 1) (- 1) = (S div 12, S mod 12 + 1)"
      using month_shift_index [of M "- 1"] M True by (simp add: S)
    ultimately show ?thesis
      using days_in_month_index [of M] days_in_month_index [of S] month_index_date_less_iff [OF r, of z] M Sb
      by (simp flip: M_def)
  next
    case False
    then show ?thesis
      using days_in_month_index [of M] month_index_date_less_iff [OF r, of z] M
      by (auto simp add: S simp flip: M_def)
  qed
  have end_month: "month_shift (S div 12) (S mod 12 + 1) 1 = ((S + 1) div 12, (S + 1) mod 12 + 1)"
    using month_shift_index [of S 1] Sb by simp
  have keys: "date_key (S div 12) (S mod 12 + 1) (min r (month_days S)) = iso_day (reset_point r S)"
    "date_key ((S + 1) div 12) ((S + 1) mod 12 + 1) (min r (month_days (S + 1))) = iso_day (reset_point r (S + 1))"
    using date_key_reset_point [of S r] date_key_reset_point [of "S + 1" r] Sb r by simp_all
  show ?thesis
    unfolding traffic_period_from_reset_day_def local_date_parts_index z_def [symmetric]
      r_def [symmetric] Let_def M_def [symmetric] prod.case
    by (simp only: start [unfolded Let_def prod.case] prod.case end_month keys days_in_month_index [of "S + 1"] Sb)
      (use days_in_month_index [of "S + 1"] Sb keys in simp)
qed

lemma year_bounds_reset:
  assumes "1 \<le> r" "1001 \<le> year_from_day z" "year_from_day z \<le> 9998"
  defines "S \<equiv> billing_month r z"
  shows "0 \<le> year_from_day (reset_point r S)" "year_from_day (reset_point r (S + 1)) \<le> 9999"
proof -
  have i: "month_index (reset_point r S) = S" "month_index (reset_point r (S + 1)) = S + 1"
    using reset_point_in_month [OF assms(1), of S] reset_point_in_month [OF assms(1), of "S + 1"]
    by (auto intro!: month_index_unique)
  have "month_index z div 12 = year_from_day z" by (rule month_index_div)
  with assms(2,3) have "12012 \<le> month_index z" "month_index z < 119988" by auto
  then have "12011 \<le> S" "S < 119988" by (auto simp: S_def billing_month_def)
  then show "0 \<le> year_from_day (reset_point r S)" "year_from_day (reset_point r (S + 1)) \<le> 9999"
    using month_index_div [of "reset_point r S"] month_index_div [of "reset_point r (S + 1)"] i by auto
qed

section \<open>Properties of the billing period\<close>

text \<open>The traffic period of an instant contains its local day: compared as the code compares
  day keys, as strings, \<open>period_start\<close> is at most the local day of the instant, which is before
  \<open>period_end\<close>. For the years of four digits, every reset day and every zone offset.\<close>

theorem traffic_period_contains_day:
  assumes "1001 \<le> year_from_day (local_day now env ts)" "year_from_day (local_day now env ts) \<le> 9998"
  shows "tp_start (traffic_period_from_reset_day now env rd ts) \<le> day_from_sec now env ts \<and>
         day_from_sec now env ts < tp_end (traffic_period_from_reset_day now env rd ts)"
proof -
  let ?z = "local_day now env ts" and ?r = "clamp (js_Number (js_or rd (JInt 1))) 1 31"
  have r: "1 \<le> ?r" using clamp_bounds [of 1 31] by simp
  note b = billing_month_bounds [OF r, of ?z] year_bounds_reset [OF r assms]
  have "iso_day (reset_point ?r (billing_month ?r ?z)) \<le> iso_day ?z"
    using b(1,3) assms iso_day_less [of "reset_point ?r (billing_month ?r ?z)" ?z]
    by (cases "reset_point ?r (billing_month ?r ?z) = ?z") auto
  moreover have "iso_day ?z < iso_day (reset_point ?r (billing_month ?r ?z + 1))"
    using b assms by (intro iso_day_less) auto
  ultimately show ?thesis
    unfolding traffic_period_eq [OF assms, of rd] day_from_sec_def by simp
qed

theorem traffic_period_contains_day_witness:
  "tp_start (traffic_period_from_reset_day 0 (Obj []) (JInt 31) 1772000000) \<le> day_from_sec 0 (Obj []) 1772000000 \<and>
   day_from_sec 0 (Obj []) 1772000000 < tp_end (traffic_period_from_reset_day 0 (Obj []) (JInt 31) 1772000000)"
proof -
  have "year_from_day (local_day 0 (Obj []) 1772000000) = 2026" by code_simp
  then show ?thesis
    using traffic_period_contains_day [of 0 "Obj []" 1772000000 "JInt 31"] by simp
qed

lemma iso_day_le_iff:
  assumes "0 \<le> year_from_day a" "year_from_day a \<le> 9999" "0 \<le> year_from_day b" "year_from_day b \<le> 9999"
  shows "iso_day a \<le> iso_day b \<longleftrightarrow> a \<le> b" "iso_day a < iso_day b \<longleftrightarrow> a < b"
  using assms iso_day_less [of a b] iso_day_less [of b a]
  by (cases a b rule: linorder_cases; auto)+

lemma billing_points_in_range:
  assumes "1 \<le> r" "1001 \<le> year_from_day z" "year_from_day z \<le> 9998"
  shows "year_from_day (reset_point r (billing_month r z)) \<le> 9999"
    "0 \<le> year_from_day (reset_point r (billing_month r z + 1))"
  using year_bounds_reset [OF assms] reset_point_mono [OF assms(1), of "billing_month r z" "billing_month r z + 1"]
    year_from_day_mono [of "reset_point r (billing_month r z)" "reset_point r (billing_month r z + 1)"] by auto

text \<open>Traffic periods tile the calendar: any instant whose local day lies inside a period gets
  exactly that period, so every report of a period is booked under one key, and the day a
  period ends on starts the next one.\<close>

theorem traffic_periods_tile:
  fixes now t u :: int and env rd :: jsval
  assumes "1001 \<le> year_from_day (local_day now env t)" "year_from_day (local_day now env t) \<le> 9998"
    and "1001 \<le> year_from_day (local_day now env u)" "year_from_day (local_day now env u) \<le> 9998"
  defines "P \<equiv> traffic_period_from_reset_day now env rd t"
    and "Q \<equiv> traffic_period_from_reset_day now env rd u"
  shows "(tp_start P \<le> day_from_sec now env u \<and> day_from_sec now env u < tp_end P \<longrightarrow> Q = P) \<and>
         (day_from_sec now env u = tp_end P \<longrightarrow> tp_start Q = tp_end P)"
proof -
  let ?z = "local_day now env t" and ?w = "local_day now env u"
  let ?r = "clamp (js_Number (js_or rd (JInt 1))) 1 31"
  have r: "1 \<le> ?r" using clamp_bounds [of 1 31] by simp
  note P = traffic_period_eq [OF assms(1,2), of rd, folded P_def]
  note Q = traffic_period_eq [OF assms(3,4), of rd, folded Q_def]
  note range = year_bounds_reset [OF r assms(1,2)] billing_points_in_range [OF r assms(1,2)]
  let ?S = "billing_month ?r ?z"
  have "iso_day (reset_point ?r ?S) \<le> iso_day ?w \<longleftrightarrow> reset_point ?r ?S \<le> ?w"
    using iso_day_le_iff(1) [of "reset_point ?r ?S" ?w] range assms(3,4) by simp
  moreover have "iso_day ?w < iso_day (reset_point ?r (?S + 1)) \<longleftrightarrow> ?w < reset_point ?r (?S + 1)"
    using iso_day_le_iff(2) [of ?w "reset_point ?r (?S + 1)"] range assms(3,4) by simp
  moreover have "iso_day ?w = iso_day (reset_point ?r (?S + 1)) \<longleftrightarrow> ?w = reset_point ?r (?S + 1)"
    using iso_day_inject [of ?w "reset_point ?r (?S + 1)"] range assms(3,4) by simp
  moreover have "reset_point ?r ?S \<le> ?w \<Longrightarrow> ?w < reset_point ?r (?S + 1) \<Longrightarrow> billing_month ?r ?w = ?S"
    by (rule billing_month_unique [OF r])
  moreover have "?w = reset_point ?r (?S + 1) \<Longrightarrow> billing_month ?r ?w = ?S + 1"
    using reset_point_mono [OF r, of "?S + 1" "?S + 1 + 1"] by (intro billing_month_unique [OF r]) simp_all
  ultimately show ?thesis
    unfolding P Q day_from_sec_def by auto
qed

theorem traffic_periods_tile_witness:
  "traffic_period_from_reset_day 0 (Obj []) (JInt 31) 1772500000 =
   traffic_period_from_reset_day 0 (Obj []) (JInt 31) 1772400000"
proof -
  have y: "year_from_day (local_day 0 (Obj []) 1772400000) = 2026"
    "year_from_day (local_day 0 (Obj []) 1772500000) = 2026" by code_simp+
  have z: "local_day 0 (Obj []) 1772400000 = 20514" "local_day 0 (Obj []) 1772500000 = 20515" by code_simp+
  have b: "billing_month 31 20514 = 24313" "reset_point 31 24313 = 20512"
    "reset_point 31 24314 = 20543" by code_simp+
  have "iso_day 20512 \<le> iso_day 20515" "iso_day 20515 < iso_day 20543" by code_simp+
  then have "tp_start (traffic_period_from_reset_day 0 (Obj []) (JInt 31) 1772400000) \<le> day_from_sec 0 (Obj []) 1772500000 \<and>
    day_from_sec 0 (Obj []) 1772500000 < tp_end (traffic_period_from_reset_day 0 (Obj []) (JInt 31) 1772400000)"
    using traffic_period_eq [of 0 "Obj []" 1772400000 "JInt 31"] y by (simp add: z b day_from_sec_def)
  then show ?thesis
    using traffic_periods_tile [of 0 "Obj []" 1772400000 1772500000 "JInt 31"] y by simp
qed

section \<open>Facts about buckets and history points\<close>

lemma bucket_sec_pos: "0 < bucket_sec"
  by (simp add: bucket_sec_def)

lemma dvd_from: "0 < (n::int) \<Longrightarrow> (a \<le> t \<and> n dvd t - a) \<longleftrightarrow> (t = a \<or> (a + n \<le> t \<and> n dvd t - (a + n)))"
  by (cases "t = a")
    (auto simp: diff_diff_add [symmetric] dvd_diff_left_iff dest: zdvd_imp_le)

lemma bucket_range_set:
  "set (bucket_range a b) = {t. a \<le> t \<and> t < b \<and> bucket_sec dvd t - a}"
proof (induction a b rule: bucket_range.induct)
  case (1 a b)
  show ?case
  proof (cases "a < b")
    case True
    have "set (bucket_range a b) = insert a {t. a + bucket_sec \<le> t \<and> t < b \<and> bucket_sec dvd t - (a + bucket_sec)}"
      using 1 [OF True] True by (simp add: bucket_range.simps [of a b])
    also have "\<dots> = {t. a \<le> t \<and> t < b \<and> bucket_sec dvd t - a}"
      using True dvd_from [OF bucket_sec_pos, of a] by blast
    finally show ?thesis .
  next
    case False
    then show ?thesis by (auto simp: bucket_range.simps [of a b])
  qed
qed

lemma bucket_range_sorted: "sorted_wrt (<) (bucket_range a b)"
proof (induction a b rule: bucket_range.induct)
  case (1 a b)
  have "\<forall>t \<in> set (bucket_range (a + bucket_sec) b). a < t"
    using bucket_sec_pos by (auto simp: bucket_range_set)
  with 1 show ?case by (cases "a < b") (simp_all add: bucket_range.simps [of a b])
qed

text \<open>Both ends on the grid: one element per step.\<close>

lemma length_bucket_range: "bucket_sec dvd b - a \<Longrightarrow> length (bucket_range a b) = nat ((b - a) div bucket_sec)"
proof (induction a b rule: bucket_range.induct)
  case (1 a b)
  show ?case
  proof (cases "a < b")
    case True
    with "1.prems" have "a + bucket_sec \<le> b" "bucket_sec dvd b - (a + bucket_sec)"
      using dvd_from [OF bucket_sec_pos, of a b] by auto
    moreover have "b - a = (b - (a + bucket_sec)) + 1 * bucket_sec" by simp
    then have "(b - a) div bucket_sec = 1 + (b - (a + bucket_sec)) div bucket_sec"
      using bucket_sec_pos div_mult_self1 [of bucket_sec "b - (a + bucket_sec)" 1] by (simp add: mult.commute)
    ultimately show ?thesis using 1(1) [OF True] True bucket_sec_pos
      by (simp add: bucket_range.simps [of a b] nat_add_distrib pos_imp_zdiv_nonneg_iff)
  next
    case False
    then have "(b - a) div bucket_sec \<le> 0"
      using bucket_sec_pos by (simp add: div_nonpos_pos_le0)
    with False show ?thesis by (simp add: bucket_range.simps [of a b])
  qed
qed

lemma floor_bucket_bounds: "floor_bucket t \<le> t" "t < floor_bucket t + bucket_sec" "bucket_sec dvd floor_bucket t"
  using pos_mod_bound [OF bucket_sec_pos, of t] pos_mod_sign [OF bucket_sec_pos, of t]
  by (simp_all add: floor_bucket_def minus_mod_eq_div_mult [symmetric] dvd_minus_mod)

lemma max_backfill_le: "max_backfill env \<le> 288"
  unfolding max_backfill_def by (simp add: clamp_bounds)

lemma local_day_mono: "0 < a \<Longrightarrow> a \<le> b \<Longrightarrow> local_day now env a \<le> local_day now env b"
  by (auto simp: local_day_def local_seconds_def intro: zdiv_mono1)

lemma bucket_gap_set:
  assumes "bucket_sec dvd bucket_at" "bucket_sec dvd previous"
  shows "set (bucket_range (previous + bucket_sec) bucket_at) =
    {t. previous < t \<and> t < bucket_at \<and> bucket_sec dvd t}"
proof -
  have "(previous + bucket_sec \<le> t \<and> bucket_sec dvd t - (previous + bucket_sec)) \<longleftrightarrow>
      (previous < t \<and> bucket_sec dvd t)" for t
    using dvd_from [OF bucket_sec_pos, of previous t] assms(2) bucket_sec_pos
    by (auto simp: dvd_diff_left_iff)
  then show ?thesis unfolding bucket_range_set by blast
qed

text \<open>A back-filled gap is exact. When the monitor comes back at a bucket of the same local day,
  the synthesised points are the five-minute buckets strictly between the last check's bucket and
  this one, each once, in order, at most 288 of them, and none of them falls on another local day
  (so a backfill never touches the statistics of a day that is already closed).\<close>

theorem missed_points_fill_gap:
  fixes now previous_at bucket_at :: int and env region :: jsval and max_override :: "jsnum option"
  defines "pts \<equiv> build_missed_points now env previous_at bucket_at region max_override"
  assumes "bucket_sec \<le> previous_at" "bucket_sec dvd bucket_at" "pts \<noteq> []"
    and "0 \<le> year_from_day (local_day now env (floor_bucket previous_at))"
    and "year_from_day (local_day now env bucket_at) \<le> 9999"
  shows "mp_at ` set pts = {t. floor_bucket previous_at < t \<and> t < bucket_at \<and> bucket_sec dvd t} \<and>
    sorted_wrt (<) (map mp_at pts) \<and> length pts \<le> 288 \<and>
    (\<forall>p \<in> set pts. day_from_sec now env (mp_at p) = day_from_sec now env bucket_at)"
proof -
  let ?b = "floor_bucket previous_at" and ?r = "bucket_range (floor_bucket previous_at + bucket_sec) bucket_at"
  define mx where "mx = (case max_override of None \<Rightarrow> max_backfill env | Some n \<Rightarrow> clamp n 0 288)"
  have mx: "mx \<le> 288" by (auto simp: mx_def max_backfill_le clamp_bounds split: option.split)
  have nz: "previous_at \<noteq> 0" using assms(2) bucket_sec_pos by simp
  from assms(4) nz have same: "day_from_sec now env ?b = day_from_sec now env bucket_at"
    and gap: "(bucket_at - ?b) div bucket_sec - 1 \<le> mx" "0 < (bucket_at - ?b) div bucket_sec - 1"
    and pts: "map mp_at pts = ?r"
    unfolding pts_def build_missed_points_def Let_def mx_def by (auto split: if_splits simp: comp_def)
  have pos: "0 < ?b" using assms(2) floor_bucket_bounds(2) [of previous_at] by simp
  have set: "mp_at ` set pts = {t. ?b < t \<and> t < bucket_at \<and> bucket_sec dvd t}"
    using bucket_gap_set [OF assms(3) floor_bucket_bounds(3)] pts by (metis list.set_map)
  have "bucket_sec dvd bucket_at - (?b + bucket_sec)"
    using assms(3) floor_bucket_bounds(3) [of previous_at] by (intro dvd_diff dvd_add) simp_all
  then have "length pts = nat ((bucket_at - (?b + bucket_sec)) div bucket_sec)"
    using arg_cong [OF pts, of length] by (simp add: length_bucket_range)
  also have "(bucket_at - (?b + bucket_sec)) div bucket_sec = (bucket_at - ?b) div bucket_sec - 1"
    using div_mult_self1 [of bucket_sec "bucket_at - ?b" "- 1"] bucket_sec_pos by (simp add: algebra_simps)
  finally have "length pts \<le> 288" using gap mx by simp
  moreover have "day_from_sec now env t = day_from_sec now env bucket_at" if "?b < t" "t < bucket_at" for t
  proof -
    have m: "local_day now env ?b \<le> local_day now env t" "local_day now env t \<le> local_day now env bucket_at"
      using that pos by (auto intro: local_day_mono)
    have y: "year_from_day (local_day now env ?b) \<le> year_from_day (local_day now env bucket_at)"
      using m by (intro year_from_day_mono) simp
    have "local_day now env ?b = local_day now env bucket_at"
      using same assms(5,6) y iso_day_inject [of "local_day now env ?b" "local_day now env bucket_at"]
      by (simp add: day_from_sec_def)
    with m show ?thesis by (simp add: day_from_sec_def)
  qed
  moreover have "sorted_wrt (<) (map mp_at pts)" by (simp only: pts bucket_range_sorted)
  moreover have "?b < mp_at p \<and> mp_at p < bucket_at" if "p \<in> set pts" for p using set that by auto
  ultimately show ?thesis using set by blast
qed

theorem missed_points_fill_gap_witness:
  "mp_at ` set (build_missed_points 0 (Obj []) 1772500010 1772500800 (Str ''auto'') None)
     = {t. 1772499900 < t \<and> t < 1772500800 \<and> bucket_sec dvd t} \<and>
   build_missed_points 0 (Obj []) 1772500010 1772500800 (Str ''auto'') None \<noteq> []"
proof -
  have ne: "build_missed_points 0 (Obj []) 1772500010 1772500800 (Str ''auto'') None \<noteq> []"
    by code_simp
  have y: "year_from_day (local_day 0 (Obj []) (floor_bucket 1772500010)) = 2026"
    "year_from_day (local_day 0 (Obj []) 1772500800) = 2026" "floor_bucket 1772500010 = 1772499900"
    "bucket_sec dvd 1772500800" "bucket_sec \<le> 1772500010" by code_simp+
  show ?thesis
    using missed_points_fill_gap [of 1772500010 1772500800 0 "Obj []" "Str ''auto''" None] ne y
    by simp
qed

section \<open>Properties of history points\<close>

lemma js_max_absorb: "js_le (Fin a) n \<Longrightarrow> js_max (Fin a) n = n"
  by (cases n) (auto simp: js_max_def js_le_def)

lemma js_le_max: "js_max (Fin a) n \<noteq> NaN \<Longrightarrow> js_le (Fin a) (js_max (Fin a) n)"
  by (cases n) (auto simp: js_max_def js_le_def)

lemma js_le_0_if_1: "js_le (Fin 1) n \<Longrightarrow> js_le (Fin 0) n"
  by (cases n) (auto simp: js_le_def)

lemma js_le_1_or: "js_le (Fin 1) n \<Longrightarrow> num_or n b = n"
  by (cases n) (auto simp: js_le_def num_or_def num_truthy_def)

lemma num_or0_Num: "n \<noteq> NaN \<Longrightarrow> num_or0 (Num n) = n"
  by (cases n) (simp_all add: num_or0_def num_truthy_def)

text \<open>Every normalised history point is coherent, whatever was stored: \<open>ok\<close> is 0 or 1, a
  latency is a finite number, an error text is at most 500 characters, and a missed check counts as at least one
  check of which none succeeded.\<close>

theorem normalize_history_point_coherent:
  "cp_ok (normalize_history_point p) \<in> {0, 1} \<and>
   (case cp_latency (normalize_history_point p) of None \<Rightarrow> True | Some n \<Rightarrow> js_isFinite n) \<and>
   (case cp_error (normalize_history_point p) of None \<Rightarrow> True | Some e \<Rightarrow> length e \<le> 500) \<and>
   (if cp_missed (normalize_history_point p)
    then cp_ok (normalize_history_point p) = 0 \<and> cp_ok_count (normalize_history_point p) = Fin 0 \<and>
         js_le (Fin 1) (cp_total (normalize_history_point p))
    else True)"
proof -
  have le: "js_le (Fin 1) (js_max (Fin 1) (num_or n (Fin 1)))" for n
    by (cases n) (simp_all add: num_or_def num_truthy_def js_max_def js_le_def)
  show ?thesis
    by (auto simp: normalize_history_point_def Let_def normalize_ok_int_def le split: option.splits)
qed

text \<open>Normalising a history point is stable: a point that was normalised, stored and read back is
  normalised to itself, so the archive can be merged with itself any number of times. For points
  whose counters are numbers and whose error is absent or a text of at most 500 characters.\<close>

theorem normalize_history_point_stable:
  fixes p :: jsval
  defines "c \<equiv> normalize_history_point p"
  assumes num: "cp_at c \<noteq> NaN" "cp_total c \<noteq> NaN" "cp_ok_count c \<noteq> NaN"
    and err: "js_nullish (js_get p ''error'') \<or> (\<exists>e. js_get p ''error'' = Str e \<and> length e \<le> 500)"
  shows "normalize_history_point (check_point_json c) = c"
proof -
  have missed: "is_missed_monitor_point (check_point_json c) = cp_missed c"
  proof -
    have "js_lower (js_trim (str_or_empty (js_get (check_point_json c) ''error''))) =
        js_lower (js_trim (str_or_empty (js_get p ''error'')))"
      using err by (auto simp: c_def normalize_history_point_def Let_def check_point_json_def opt_json_def
          str_or_empty_def js_nullish_def)
    moreover have "cp_missed c = is_missed_monitor_point p"
      by (simp add: c_def normalize_history_point_def Let_def)
    moreover have "\<not> is_missed_monitor_point p \<Longrightarrow> (case p of Obj m \<Rightarrow> True | _ \<Rightarrow> js_get p ''error'' = Undefined)"
      by (cases p) (simp_all add: js_get_def)
    moreover have "js_get (check_point_json c) ''missed'' = Bool (cp_missed c)"
      "js_get (check_point_json c) ''synthetic'' = Undefined"
      by (simp_all add: check_point_json_def)
    moreover have "\<not> is_missed_monitor_point p \<Longrightarrow>
        js_lower (js_trim (str_or_empty (js_get p ''error''))) \<noteq> missed_message \<and>
        \<not> js_includes missed_message (js_lower (js_trim (str_or_empty (js_get p ''error''))))"
      by (cases p) (auto simp: is_missed_monitor_point_def js_get_def str_or_empty_def missed_message_def
          js_trim_def js_lower_def Let_def)
    ultimately show ?thesis
      by (auto simp: is_missed_monitor_point_def Let_def check_point_json_def)
  qed
  have region: "js_or (cp_region c) b = cp_region c" for b
    by (auto simp: c_def normalize_history_point_def Let_def js_or_def)
  have colo: "js_nullish (opt_json id (cp_colo c)) = (cp_colo c = None)"
    "js_truthy (opt_json id (cp_colo c)) = (cp_colo c \<noteq> None)"
    by (auto simp: c_def normalize_history_point_def Let_def opt_json_def js_nullish_def)
  let ?d = "normalize_history_point (check_point_json c)"
  note defs = normalize_history_point_def Let_def check_point_json_def opt_json_def
  have m: "cp_missed ?d = cp_missed c" by (simp add: normalize_history_point_def Let_def missed)
  have ok: "cp_ok c = 0 \<or> cp_ok c = 1" "cp_missed c \<Longrightarrow> cp_ok c = 0"
    by (auto simp: c_def normalize_history_point_def Let_def normalize_ok_int_def)
  have "cp_at ?d = cp_at c"
    using num(1) by (cases "cp_at c") (simp_all add: defs num_truthy_def)
  moreover have "cp_ok ?d = cp_ok c"
    using ok missed by (auto simp: normalize_history_point_def Let_def normalize_ok_int_def)
      (auto simp: check_point_json_def)
  moreover have "cp_latency ?d = cp_latency c"
    by (auto simp: c_def defs js_nullish_def)
  moreover have "cp_status ?d = cp_status c"
    by (auto simp: c_def defs js_nullish_def)
  moreover have "cp_error ?d = cp_error c"
    using err by (auto simp: c_def defs js_nullish_def)
  moreover have "cp_region ?d = cp_region c"
    by (simp add: normalize_history_point_def Let_def check_point_json_def region)
  moreover have "cp_colo ?d = cp_colo c"
    using colo by (auto simp: normalize_history_point_def Let_def check_point_json_def opt_json_def)
  moreover have "cp_total ?d = cp_total c"
  proof -
    have "js_le (Fin (if cp_missed c then 1 else 0)) (cp_total c)"
      using num(2) by (auto simp: c_def normalize_history_point_def Let_def js_le_max)
    then have "js_max (Fin 0) (cp_total c) = cp_total c"
      "cp_missed c \<Longrightarrow> js_max (Fin 1) (num_or (cp_total c) (Fin 1)) = cp_total c"
      by (auto simp: js_max_absorb js_le_1_or intro: js_max_absorb js_le_0_if_1 split: if_splits)
    then show ?thesis
      using num(2) by (simp add: normalize_history_point_def Let_def missed)
        (simp add: check_point_json_def js_nullish_def num_or0_Num)
  qed
  moreover have "cp_ok_count ?d = cp_ok_count c"
  proof -
    have "js_le (Fin 0) (cp_ok_count c)" "cp_missed c \<Longrightarrow> cp_ok_count c = Fin 0"
      using num(3) ok(1) by (auto simp: c_def normalize_history_point_def Let_def js_le_max)
    then show ?thesis
      using num(3) by (simp add: normalize_history_point_def Let_def missed)
        (simp add: check_point_json_def js_nullish_def num_or0_Num js_max_absorb)
  qed
  ultimately show ?thesis using m by (intro check_point.equality) simp_all
qed

theorem normalize_history_point_stable_witness:
  "normalize_history_point (check_point_json (normalize_history_point
     (Obj [(''t'', JInt 1772500800), (''ok'', Str '' UP ''), (''error'', Str ''refused''), (''latency_ms'', Str ''12.5'')])))
   = normalize_history_point
     (Obj [(''t'', JInt 1772500800), (''ok'', Str '' UP ''), (''error'', Str ''refused''), (''latency_ms'', Str ''12.5'')])"
proof -
  have "cp_at (normalize_history_point
     (Obj [(''t'', JInt 1772500800), (''ok'', Str '' UP ''), (''error'', Str ''refused''), (''latency_ms'', Str ''12.5'')])) = jsint 1772500800"
    "cp_total (normalize_history_point
     (Obj [(''t'', JInt 1772500800), (''ok'', Str '' UP ''), (''error'', Str ''refused''), (''latency_ms'', Str ''12.5'')])) = jsint 1"
    "cp_ok_count (normalize_history_point
     (Obj [(''t'', JInt 1772500800), (''ok'', Str '' UP ''), (''error'', Str ''refused''), (''latency_ms'', Str ''12.5'')])) = jsint 1"
    by code_simp+
  then show ?thesis by (intro normalize_history_point_stable) simp_all
qed

section \<open>Properties of expected statuses\<close>

lemma is_http_status_int: "is_http_status x \<Longrightarrow> \<exists>i. x = jsint i"
proof (cases x)
  case (Fin q)
  assume "is_http_status x"
  with Fin have "x = jsint \<lfloor>q\<rfloor>" by (auto simp: is_http_status_def js_isInteger_def)
  then show ?thesis ..
qed (simp_all add: is_http_status_def js_isInteger_def)

lemma status_numbers_join:
  assumes "xs \<noteq> []" "\<forall>x \<in> set xs. is_http_status x"
  shows "status_numbers (Str (js_join '','' (map num_str xs))) = xs"
proof -
  have i: "\<exists>i. x = jsint i" if "x \<in> set xs" for x using assms(2) that is_http_status_int by blast
  have "CHR '','' \<notin> set (num_str x)" if "x \<in> set xs" for x
    using i [OF that] int_str_chars [of "CHR '',''"] by (auto simp: is_digit_def)
  then have split: "js_split (CHR '','') (js_join '','' (map num_str xs)) = map num_str xs"
    using assms(1) by (intro js_split_join) auto
  have "parse_number (js_trim (num_str x)) = x" if "x \<in> set xs" for x
    using i [OF that] by auto
  then have "map (\<lambda>s. parse_number (js_trim s)) (map num_str xs) = xs"
    by (simp add: map_idI comp_def)
  moreover have "str_or_empty (Str s) = s" for s by (simp add: str_or_empty_def)
  ultimately show ?thesis using assms(2) split by (simp add: status_numbers_def filter_id_conv)
qed

lemma status_numbers_empty: "\<not> js_truthy v \<Longrightarrow> status_numbers v = []"
  by (simp add: status_numbers_def str_or_empty_def js_or_def parse_number_def js_trim_def is_http_status_def)

lemma set_order_set [simp]: "set (set_order xs) = set xs" "distinct (set_order xs)"
  by (simp_all add: set_order_def)

text \<open>What the write path stores for the expected statuses is read back by the probe as the same
  set, without repetitions: \<open>parseExpectedStatus\<close> after \<open>normalizeExpectedStatus\<close> accepts exactly
  the statuses \<open>parseExpectedStatus\<close> accepts on the raw input, for any input value.\<close>

theorem expected_status_roundtrip:
  "set (parse_expected_status (Str (normalize_expected_status v))) = set (parse_expected_status v) \<and>
   distinct (parse_expected_status (Str (normalize_expected_status v)))"
proof (cases "status_numbers v = []")
  case True
  then show ?thesis by (simp add: normalize_expected_status_def parse_expected_status_def set_order_def)
next
  case False
  let ?xs = "set_order (status_numbers v)"
  have ne: "?xs \<noteq> []" using False set_order_set(1) [of "status_numbers v"] by (metis set_empty)
  have ok: "\<forall>x \<in> set ?xs. is_http_status x" by (simp add: status_numbers_def)
  have "js_truthy v" using False status_numbers_empty by blast
  moreover have "js_truthy (Str (js_join '','' (map num_str ?xs)))"
    using status_numbers_join [OF ne ok] ne status_numbers_empty by metis
  ultimately show ?thesis
    by (simp add: parse_expected_status_def normalize_expected_status_def status_numbers_join [OF ne ok])
qed

end
