(* ===== verification/Hosts.thy ===== *)
theory Hosts
  imports Utils "HOL-Library.Word"
begin

unbundle bit_operations_syntax

text \<open>
  The host and identifier rules of \<open>worker/src/utils.js\<close>: which hosts the worker refuses to
  reach (\<open>isPrivateHost\<close>, \<open>expandIpv6\<close>), fetching with every redirect validated, masking of
  addresses for the public page, identifiers, and the public projection of a target.

  The URL parser and \<open>fetch\<close> are the platform's: they are arguments (\<open>parse\<close>,
  \<open>parse_rel\<close>, \<open>fetch\<close>) and the theorems hold for any of them.
\<close>

section \<open>IPv4 and IPv6 literals\<close>

text \<open>\<^verbatim>\<open>/^\d{1,3}(?:\.\d{1,3}){3}$/\<close>\<close>

definition is_quad :: "string \<Rightarrow> bool" where
  "is_quad s = (let ps = js_split (CHR ''.'') s in
     length ps = 4 \<and> list_all (\<lambda>p. p \<noteq> [] \<and> length p \<le> 3 \<and> list_all is_digit p) ps)"

definition quad_parts :: "string \<Rightarrow> nat list" where
  "quad_parts s = map digits_val (js_split (CHR ''.'') s)"

definition private_quad :: "nat list \<Rightarrow> bool" where
  "private_quad parts =
     (if list_ex (\<lambda>p. p > 255) parts then True
      else let a = parts ! 0; b = parts ! 1; c = parts ! 2 in
        if a = 10 \<or> a = 127 \<or> a = 0 then True
        else if a = 169 \<and> b = 254 then True
        else if a = 172 \<and> 16 \<le> b \<and> b \<le> 31 then True
        else if a = 192 \<and> b = 0 \<and> c = 0 then True
        else if a = 192 \<and> b = 0 \<and> c = 2 then True
        else if a = 192 \<and> b = 88 \<and> c = 99 then True
        else if a = 192 \<and> b = 168 then True
        else if a = 198 \<and> (b = 18 \<or> b = 19) then True
        else if a = 198 \<and> b = 51 \<and> c = 100 then True
        else if a = 203 \<and> b = 0 \<and> c = 113 then True
        else if a = 100 \<and> 64 \<le> b \<and> b \<le> 127 then True
        else 224 \<le> a)"

fun hex_str :: "nat \<Rightarrow> string" where
  "hex_str n = (if n < 16 then [if n < 10 then char_of (48 + n) else char_of (87 + n)]
     else hex_str (n div 16) @ hex_str (n mod 16))"

declare hex_str.simps [simp del]

text \<open>\<open>s.split('::')\<close>\<close>

fun split_double_colon :: "string \<Rightarrow> string list" where
  "split_double_colon [] = [[]]"
| "split_double_colon [c] = [[c]]"
| "split_double_colon (c # d # r) =
     (if c = CHR '':'' \<and> d = CHR '':'' then [] # split_double_colon r
      else case split_double_colon (d # r) of [] \<Rightarrow> [[c]] | w # ws \<Rightarrow> (c # w) # ws)"

definition is_hex_digit :: "char \<Rightarrow> bool" where
  "is_hex_digit c = (is_digit c \<or> (97 \<le> (of_char c :: nat) \<and> (of_char c :: nat) \<le> 102))"

text \<open>The dotted suffix is the leftmost match of \<^verbatim>\<open>/(\d{1,3}(?:\.\d{1,3}){3})$/\<close>.\<close>

definition dotted_index :: "string \<Rightarrow> nat option" where
  "dotted_index s = find (\<lambda>i. is_quad (drop i s)) [0..<length s]"

definition expand_groups :: "string \<Rightarrow> int list option" where
  "expand_groups input =
     (let sides = split_double_colon input in
      if length sides > 2 then None
      else let left = (if sides ! 0 \<noteq> [] then js_split (CHR '':'') (sides ! 0) else []);
               right = (if length sides = 2 \<and> sides ! 1 \<noteq> [] then js_split (CHR '':'') (sides ! 1) else [])
           in if length sides = 1 \<and> length left \<noteq> 8 then None
              else let missing = 8 - int (length left) - int (length right) in
                if missing < (if length sides = 2 then 1 else 0) then None
                else let groups = left @ replicate (nat missing) ''0'' @ right in
                  if length groups \<noteq> 8 \<or>
                     list_ex (\<lambda>p. \<not> (p \<noteq> [] \<and> length p \<le> 4 \<and> list_all is_hex_digit p)) groups then None
                  else Some (map (\<lambda>p. int (the (parse_radix 16 0 p))) groups))"

definition expand_ipv6 :: "string \<Rightarrow> int list option" where
  "expand_ipv6 value =
     (let input = js_lower value in
      case dotted_index input of
        None \<Rightarrow> expand_groups input
      | Some i \<Rightarrow>
          (let bytes = quad_parts (drop i input) in
           if list_ex (\<lambda>b. b > 255) bytes then None
           else expand_groups (take i input @ hex_str (bytes ! 0 * 256 + bytes ! 1) @ '':'' @
                  hex_str (bytes ! 2 * 256 + bytes ! 3))))"

section \<open>Which hosts are refused\<close>

definition strip_brackets :: "string \<Rightarrow> string" where
  "strip_brackets h = (if starts_with ''['' h \<and> ends_with '']'' h then butlast (tl h) else h)"

definition strip_dots :: "string \<Rightarrow> string" where
  "strip_dots h = rev (dropWhile (\<lambda>c. c = CHR ''.'') (rev h))"

text \<open>A DNS label: 1 to 63 characters of \<open>a-z0-9_-\<close>, no dash at either end.\<close>

definition is_label_char :: "char \<Rightarrow> bool" where
  "is_label_char c = (is_digit c \<or> (97 \<le> (of_char c :: nat) \<and> (of_char c :: nat) \<le> 122) \<or> c = CHR ''_'')"

definition is_label :: "string \<Rightarrow> bool" where
  "is_label l = (l \<noteq> [] \<and> length l \<le> 63 \<and> is_label_char (hd l) \<and> is_label_char (last l) \<and>
     list_all (\<lambda>c. is_label_char c \<or> c = CHR ''-'') l)"

definition private_ipv6_groups :: "int list \<Rightarrow> bool" where
  "private_ipv6_groups g =
     (list_all (\<lambda>i. g ! i = 0 \<or> (i = 7 \<and> g ! i = 1)) [0..<8] \<or>
      (g ! 0 AND 0xfe00 = 0xfc00) \<or> (g ! 0 AND 0xffc0 = 0xfe80) \<or>
      (g ! 0 AND 0xff00 = 0xff00) \<or>
      (g ! 0 = 0x0100 \<and> list_all (\<lambda>p. p = 0) (take 3 (drop 1 g))) \<or>
      (g ! 0 = 0x2001 \<and> g ! 1 = 0x0db8) \<or>
      g ! 0 = 0x2002 \<or>
      (g ! 0 = 0x0064 \<and> g ! 1 = 0xff9b \<and> (g ! 2 = 1 \<or> list_all (\<lambda>p. p = 0) (take 4 (drop 2 g)))))"

definition embedded_ipv4 :: "int list \<Rightarrow> string option" where
  "embedded_ipv4 g =
     (if (list_all (\<lambda>p. p = 0) (take 5 g) \<and> g ! 5 = 0xffff) \<or> list_all (\<lambda>p. p = 0) (take 6 g)
      then Some (int_str (drop_bit 8 (g ! 6)) @ ''.'' @ int_str (g ! 6 AND 255) @ ''.'' @
                 int_str (drop_bit 8 (g ! 7)) @ ''.'' @ int_str (g ! 7 AND 255))
      else None)"

text \<open>One round of \<open>isPrivateHost\<close>; \<open>again\<close> is the recursive call, which is only made on an
  IPv4 literal and so is not made twice.\<close>

definition private_host_round :: "(string \<Rightarrow> bool) \<Rightarrow> string \<Rightarrow> bool" where
  "private_host_round again host =
     (let raw = js_lower (js_trim host) in
      if raw = [] then True
      else let hostname = strip_dots (js_split (CHR ''%'') (strip_brackets raw) ! 0) in
        if hostname = [] then True
        else if hostname = ''localhost'' \<or> ends_with ''.localhost'' hostname \<or> ends_with ''.local'' hostname \<or>
                hostname = ''0.0.0.0'' then True
        else if starts_with ''::ffff:'' hostname \<and> is_quad (drop 7 hostname) then again (drop 7 hostname)
        else if is_quad hostname then private_quad (quad_parts hostname)
        else if CHR '':'' \<in> set hostname then
          (case expand_ipv6 hostname of
             None \<Rightarrow> True
           | Some g \<Rightarrow> if private_ipv6_groups g then True
                       else case embedded_ipv4 g of Some v4 \<Rightarrow> again v4 | None \<Rightarrow> False)
        else if list_all (\<lambda>c. is_digit c \<or> c = CHR ''.'') hostname then True
        else if list_ex (\<lambda>l. starts_with ''0x'' l) (js_split (CHR ''.'') hostname) then True
        else if length hostname > 253 then True
        else \<not> list_all is_label (js_split (CHR ''.'') hostname))"

definition is_private_host :: "string \<Rightarrow> bool" where
  "is_private_host = private_host_round (private_host_round (\<lambda>_. True))"

section \<open>Fetching with validated redirects\<close>

record url =
  u_protocol :: string
  u_username :: string
  u_password :: string
  u_hostname :: string
  u_href :: string

record http_response =
  rs_status :: int
  rs_location :: "string option"

datatype url_error = UrlEmpty | UrlInvalid | UrlScheme | UrlCredentials | UrlPrivate | UrlNotHttps
  | RedirectInvalid | FetchFailed

definition assert_public_http_url :: "(string \<Rightarrow> url option) \<Rightarrow> string \<Rightarrow> url_error + url" where
  "assert_public_http_url parse value =
     (let raw = js_trim value in
      if raw = [] then Inl UrlEmpty
      else case parse raw of
        None \<Rightarrow> Inl UrlInvalid
      | Some u \<Rightarrow>
          if u_protocol u \<noteq> ''http:'' \<and> u_protocol u \<noteq> ''https:'' then Inl UrlScheme
          else if u_username u \<noteq> [] \<or> u_password u \<noteq> [] then Inl UrlCredentials
          else if is_private_host (u_hostname u) then Inl UrlPrivate
          else Inr u)"

definition validated_public_https_url :: "(string \<Rightarrow> url option) \<Rightarrow> string \<Rightarrow> url_error + url" where
  "validated_public_https_url parse value =
     (case assert_public_http_url parse value of
        Inl e \<Rightarrow> Inl e
      | Inr u \<Rightarrow> if u_protocol u \<noteq> ''https:'' \<or> u_username u \<noteq> [] \<or> u_password u \<noteq> [] then Inl UrlNotHttps else Inr u)"

text \<open>
  The loop from \<open>redirects\<close> on, with \<open>left = maxRedirects - redirects\<close>; the first component of
  the result is the list of URLs requested, in order. \<open>parse_rel\<close> is \<open>new URL(location, current)\<close>.
\<close>

fun redirect_loop ::
  "(string \<Rightarrow> url_error + url) \<Rightarrow> (string \<Rightarrow> url \<Rightarrow> url option) \<Rightarrow> (string \<Rightarrow> http_response option) \<Rightarrow>
   nat \<Rightarrow> url \<Rightarrow> string list \<times> (url_error + http_response)" where
  "redirect_loop validate parse_rel fetch left current =
     (case fetch (u_href current) of
        None \<Rightarrow> ([u_href current], Inl FetchFailed)
      | Some response \<Rightarrow>
          if rs_status response \<notin> {301, 302, 303, 307, 308} then ([u_href current], Inr response)
          else case rs_location response of
            None \<Rightarrow> ([u_href current], Inl RedirectInvalid)
          | Some location \<Rightarrow>
              (case left of
                 0 \<Rightarrow> ([u_href current], Inl RedirectInvalid)
               | Suc left' \<Rightarrow>
                   if location = [] then ([u_href current], Inl RedirectInvalid)
                   else case parse_rel location current of
                     None \<Rightarrow> ([u_href current], Inl UrlInvalid)
                   | Some next \<Rightarrow>
                       (case validate (u_href next) of
                          Inl e \<Rightarrow> ([u_href current], Inl e)
                        | Inr u \<Rightarrow>
                            (let (trace, result) = redirect_loop validate parse_rel fetch left' u
                             in (u_href current # trace, result)))))"

declare redirect_loop.simps [simp del]

definition fetch_validated ::
  "(string \<Rightarrow> url_error + url) \<Rightarrow> (string \<Rightarrow> url \<Rightarrow> url option) \<Rightarrow> (string \<Rightarrow> http_response option) \<Rightarrow>
   nat \<Rightarrow> string \<Rightarrow> string list \<times> (url_error + http_response)" where
  "fetch_validated validate parse_rel fetch max_redirects target =
     (case validate target of
        Inl e \<Rightarrow> ([], Inl e)
      | Inr u \<Rightarrow> redirect_loop validate parse_rel fetch max_redirects u)"

definition fetch_public_http_with_validated_redirects where
  "fetch_public_http_with_validated_redirects parse = fetch_validated (assert_public_http_url parse)"

definition fetch_public_https_with_validated_redirects where
  "fetch_public_https_with_validated_redirects parse = fetch_validated (validated_public_https_url parse)"

section \<open>Identifiers\<close>

definition id_char :: "char \<Rightarrow> bool" where
  "id_char c = (is_digit c \<or> (97 \<le> (of_char c :: nat) \<and> (of_char c :: nat) \<le> 122) \<or> c \<in> set ''._:-'')"

text \<open>\<^verbatim>\<open>replace(/[^a-z0-9._:-]+/g, '-')\<close>: each run of other characters becomes one dash.\<close>

function dash_runs :: "string \<Rightarrow> string" where
  "dash_runs [] = []"
| "dash_runs (c # cs) =
     (if id_char c then c # dash_runs cs else CHR ''-'' # dash_runs (dropWhile (\<lambda>c. \<not> id_char c) cs))"
  by pat_completeness auto
termination
  by (relation "measure length") (auto simp: le_imp_less_Suc length_dropWhile_le)

declare dash_runs.simps(2) [simp del]

definition strip_dashes :: "string \<Rightarrow> string" where
  "strip_dashes s = strip_both (\<lambda>c. c = CHR ''-'') s"

definition sanitize_agent_id :: "jsval \<Rightarrow> string" where
  "sanitize_agent_id value = take 64 (strip_dashes (dash_runs (js_lower (js_trim (str_or_empty value)))))"

definition strip_scheme :: "string \<Rightarrow> string" where
  "strip_scheme s = (if starts_with ''http://'' s then drop 7 s
     else if starts_with ''https://'' s then drop 8 s else s)"

text \<open>FNV-1a on 32 bits, printed in base 36.\<close>

fun base36 :: "nat \<Rightarrow> string" where
  "base36 n = (if n < 36 then [if n < 10 then char_of (48 + n) else char_of (87 + n)]
     else base36 (n div 36) @ base36 (n mod 36))"

declare base36.simps [simp del]

definition stable_ascii_hash :: "string \<Rightarrow> string" where
  "stable_ascii_hash value =
     base36 (unat (fold (\<lambda>c hash. (hash XOR of_nat (of_char c)) * 16777619) value (2166136261 :: 32 word)))"

definition sanitize_id :: "jsval \<Rightarrow> string" where
  "sanitize_id value =
     (let raw = js_lower (js_trim (js_String (js_coalesce value (Str []))));
          out = take 96 (strip_dashes (dash_runs (strip_scheme raw)))
      in if out \<noteq> [] then out else ''id-'' @ stable_ascii_hash (if raw \<noteq> [] then raw else ''empty''))"

section \<open>The public projection of a target\<close>

definition mask_ip_like_host :: "string \<Rightarrow> string" where
  "mask_ip_like_host host =
     (let value = js_trim host in
      if value = [] then value
      else if is_quad value \<and> list_all (\<lambda>n. n \<le> 255) (quad_parts value) then
        nat_str (quad_parts value ! 0) @ ''.'' @ nat_str (quad_parts value ! 1) @ ''.*.*''
      else if list_all (\<lambda>c. is_hex_digit (lower_char c) \<or> c = CHR '':'' \<or> c = CHR ''.'') value \<and> CHR '':'' \<in> set value then
        (case filter (\<lambda>p. p \<noteq> []) (js_split (CHR '':'') value) of
           [] \<Rightarrow> value
         | [p] \<Rightarrow> p @ ''::**''
         | p # q # _ \<Rightarrow> p @ '':'' @ q @ ''::**'')
      else value)"

definition public_host :: "jsval \<Rightarrow> bool \<Rightarrow> jsval" where
  "public_host host mask_ips = (if mask_ips then Str (mask_ip_like_host (str_or_empty host)) else host)"

definition public_target_text :: "jsval \<Rightarrow> bool \<Rightarrow> string" where
  "public_target_text value mask_ips =
     (let raw = js_trim (str_or_empty value) in
      if raw = [] \<or> \<not> mask_ips then raw
      else case js_split (CHR '':'') raw of
        [h, p] \<Rightarrow> if is_quad h \<and> p \<noteq> [] \<and> length p \<le> 5 \<and> list_all is_digit p then mask_ip_like_host h
                  else mask_ip_like_host raw
      | _ \<Rightarrow> mask_ip_like_host raw)"

definition public_setting :: "jsval \<Rightarrow> string \<Rightarrow> bool \<Rightarrow> bool" where
  "public_setting env key dflt = parse_boolean (js_coalesce (js_get env key) (Bool dflt)) dflt"

definition public_mask_ips :: "jsval \<Rightarrow> bool" where
  "public_mask_ips env = parse_boolean (js_coalesce (js_get env ''PUBLIC_MASK_IPS'')
     (js_coalesce (js_get env ''MASK_IPS'') (js_coalesce (js_get env ''PRIVACY_MASK_IPS'') (Bool True)))) True"

definition public_hide_ports :: "jsval \<Rightarrow> bool" where
  "public_hide_ports env = public_setting env ''PUBLIC_HIDE_PORTS'' True"

definition public_cache_privacy_version :: "jsval \<Rightarrow> string" where
  "public_cache_privacy_version env = js_join ''-''
     [if public_mask_ips env then ''mask'' else ''plain'',
      if public_hide_ports env then ''noport'' else ''port'',
      if public_setting env ''PUBLIC_HIDE_URL_PATH'' True then ''origin'' else ''path'',
      if public_setting env ''PUBLIC_STATUS_AGENT_DETAILS'' False then ''agent'' else ''noagent'',
      if public_setting env ''PUBLIC_STATUS_UNLOCK_DETAILS'' False then ''unlock'' else ''nounlock'',
      if public_setting env ''PUBLIC_STATUS_STORAGE_DETAILS'' False then ''storage'' else ''nostorage'',
      ''v3'']"

definition public_capacity_percent :: "jsval \<Rightarrow> jsval" where
  "public_capacity_percent value =
     (if \<not> js_is_record value then Null
      else let percent = js_Number (js_get value ''percent'') in
        if js_isFinite percent then Obj [(''percent'', JInt (clamp percent 0 100))] else Null)"

definition public_network_rates :: "jsval \<Rightarrow> jsval" where
  "public_network_rates value =
     (if \<not> js_is_record value then Null
      else let clean = concat (map (\<lambda>key. let number = js_Number (js_get value key) in
                         if js_isFinite number then [(key, Num (js_max (jsint 0) number))] else [])
                       [''rx_bytes_sec'', ''tx_bytes_sec''])
           in if clean \<noteq> [] then Obj clean else Null)"

definition public_metrics_entries :: "jsval \<Rightarrow> (string \<times> jsval) list" where
  "public_metrics_entries metrics =
     [(''schema'', js_get metrics ''schema''), (''agent_id'', js_get metrics ''agent_id''),
      (''agent_label'', js_get metrics ''agent_label''), (''updated_at'', js_get metrics ''updated_at''),
      (''cpu_percent'', js_get metrics ''cpu_percent''),
      (''memory'', public_capacity_percent (js_get metrics ''memory'')),
      (''load'', js_get metrics ''load''),
      (''disk'', public_capacity_percent (js_get metrics ''disk'')),
      (''net'', public_network_rates (js_get metrics ''net''))]"

definition sanitize_public_agent_metrics :: "jsval \<Rightarrow> jsval \<Rightarrow> jsval" where
  "sanitize_public_agent_metrics metrics env =
     (if \<not> js_is_record metrics then metrics
      else if public_setting env ''PUBLIC_STATUS_AGENT_DETAILS'' False then metrics
      else Obj (filter (\<lambda>(_, v). \<not> js_nullish v) (public_metrics_entries metrics)))"

text \<open>
  Arguments for what is not modelled: \<open>purl\<close> is \<open>publicUrl\<close> (the platform's URL setters),
  \<open>etext\<close> the text of a public error and \<open>rlabel\<close> the label of a region (Chinese texts).
\<close>

definition agent_detail_keys :: "string list" where
  "agent_detail_keys = [''traffic_enabled'', ''traffic_quota_gb'', ''traffic_mode'', ''traffic_reset_day'',
     ''alert_traffic_remaining_percent'', ''alert_traffic_remaining_gb'']"

definition public_address :: "(jsval \<Rightarrow> jsval) \<Rightarrow> bool \<Rightarrow> jsval \<Rightarrow> jsval" where
  "public_address purl mask_ips row =
    (let type = js_lower (str_or_empty (js_get row ''type''));
         c0 = js_delete row ''sort_order'';
         display_host = (if type = ''tcp'' then public_host (js_get c0 ''target_host'') mask_ips else js_get c0 ''target_host'');
         display_url = (if type = ''http'' then purl (js_get c0 ''url'') else js_get c0 ''url'');
         display = js_or (if type = ''http'' then display_url else display_host) (Str [])
     in if type = ''tcp'' then
          js_set (js_set (js_set c0 ''target_host'' display_host) ''target'' display) ''target_display'' display
        else if type = ''http'' then
          js_set (js_set (js_set c0 ''url'' display_url) ''target'' display) ''target_display'' display
        else
          let a = (if js_truthy (js_get c0 ''target_host'')
                   then js_set c0 ''target_host'' (public_host (js_get c0 ''target_host'') mask_ips) else c0);
              b = (if js_truthy (js_get a ''target'')
                   then js_set a ''target'' (Str (public_target_text (js_get a ''target'') mask_ips)) else a)
          in if js_truthy (js_get b ''target_display'')
             then js_set b ''target_display'' (Str (public_target_text (js_get b ''target_display'') mask_ips)) else b)"

definition public_errors :: "(public_error option \<Rightarrow> jsval) \<Rightarrow> jsval \<Rightarrow> jsval" where
  "public_errors etext c =
    (let a = (if js_has c ''error''
              then js_set c ''error'' (etext (public_error_of (js_get c ''error'') (js_get c ''status_code''))) else c)
     in if js_has a ''last_error''
        then js_set a ''last_error'' (etext (public_error_of (js_get a ''last_error'') (js_get a ''status_code''))) else a)"

definition drop_private :: "jsval \<Rightarrow> jsval \<Rightarrow> jsval" where
  "drop_private env c =
    (let a = js_delete (js_delete (js_delete c ''unlock_data'') ''nq_unlock_data'') ''nq_unlock_updated_at''
     in if public_setting env ''PUBLIC_STATUS_AGENT_DETAILS'' False then a
        else let d = js_delete (js_delete a ''agent_version'') ''machine_uptime_sec'';
                 e = (if js_has d ''agent_metrics''
                      then js_set d ''agent_metrics'' (sanitize_public_agent_metrics (js_get d ''agent_metrics'') env)
                      else d)
             in fold (\<lambda>key o'. js_delete o' key) agent_detail_keys e)"

definition sanitize_public_target ::
  "(jsval \<Rightarrow> jsval) \<Rightarrow> (public_error option \<Rightarrow> jsval) \<Rightarrow> (jsval \<Rightarrow> jsval) \<Rightarrow> jsval \<Rightarrow> jsval \<Rightarrow> bool \<Rightarrow> bool \<Rightarrow> jsval" where
  "sanitize_public_target purl etext rlabel row env mask_ips hide_ports =
    (if \<not> js_is_record row then row else
     let c5 = drop_private env (public_errors etext (public_address purl mask_ips row));
         c6 = js_set (js_set (js_set c5 ''cf_colo'' Null) ''start_colo'' Null) ''recover_colo'' Null;
         c7 = js_set c6 ''region_label'' (rlabel (js_get c6 ''probe_region''))
     in if hide_ports then js_delete c7 ''target_port'' else c7)"

section \<open>Properties of fetching\<close>

lemma redirect_loop_safe:
  assumes "P (u_href current)" and step: "\<And>raw u. validate raw = Inr u \<Longrightarrow> P (u_href u)"
  shows "(\<forall>h \<in> set (fst (redirect_loop validate parse_rel fetch left current)). P h) \<and>
    length (fst (redirect_loop validate parse_rel fetch left current)) \<le> Suc left"
  using assms(1)
proof (induction left arbitrary: current)
  case 0
  then show ?case
    by (subst redirect_loop.simps, subst (2) redirect_loop.simps) (auto split: option.splits)
next
  case (Suc left)
  show ?case
  proof (cases "\<exists>response location next u. fetch (u_href current) = Some response \<and>
      rs_status response \<in> {301, 302, 303, 307, 308} \<and> rs_location response = Some location \<and> location \<noteq> [] \<and>
      parse_rel location current = Some next \<and> validate (u_href next) = Inr u")
    case True
    then obtain response location "next" u where r: "fetch (u_href current) = Some response"
      "rs_status response \<in> {301, 302, 303, 307, 308}" "rs_location response = Some location" "location \<noteq> []"
      "parse_rel location current = Some next" and u: "validate (u_href next) = Inr u" by blast
    have "redirect_loop validate parse_rel fetch (Suc left) current =
        (u_href current # fst (redirect_loop validate parse_rel fetch left u),
         snd (redirect_loop validate parse_rel fetch left u))"
      using r u by (subst redirect_loop.simps) (auto simp: split_beta)
    with Suc.IH [of u] step [OF u] Suc.prems show ?thesis by simp
  next
    case False
    then have "fst (redirect_loop validate parse_rel fetch (Suc left) current) = [u_href current]"
      by (subst redirect_loop.simps) (auto split: option.splits sum.splits)
    with Suc.prems show ?thesis by simp
  qed
qed

lemma redirect_loop_final:
  "snd (redirect_loop validate parse_rel fetch left current) = Inr response \<Longrightarrow>
   rs_status response \<notin> {301, 302, 303, 307, 308}"
proof (induction left arbitrary: current)
  case 0
  then show ?case by (subst (asm) redirect_loop.simps) (auto split: option.splits if_splits)
next
  case (Suc left)
  from Suc.prems show ?case
    by (subst (asm) redirect_loop.simps)
      (auto split: option.splits if_splits sum.splits simp: split_beta dest: Suc.IH)
qed

lemma assert_public_http_url_ok:
  "assert_public_http_url parse value = Inr u \<Longrightarrow>
   parse (js_trim value) = Some u \<and> u_protocol u \<in> {''http:'', ''https:''} \<and> u_username u = [] \<and> u_password u = [] \<and>
   \<not> is_private_host (u_hostname u)"
  by (auto simp: assert_public_http_url_def Let_def split: if_splits option.splits)

text \<open>C28: Fetching with redirects never leaves the public network: whatever the remote server answers,
  every URL that is requested is one the platform's parser read, with an http or https scheme, no
  credentials and a host that \<open>isPrivateHost\<close> does not refuse; at most \<open>maxRedirects + 1\<close> requests are
  made, and a response handed to the caller is never a redirect.\<close>

theorem fetch_public_http_safe:
  "list_all (\<lambda>h. \<exists>raw u. parse raw = Some u \<and> h = u_href u \<and> u_protocol u \<in> {''http:'', ''https:''} \<and>
        u_username u = [] \<and> u_password u = [] \<and> \<not> is_private_host (u_hostname u))
     (fst (fetch_public_http_with_validated_redirects parse parse_rel fetch max_redirects target)) \<and>
   length (fst (fetch_public_http_with_validated_redirects parse parse_rel fetch max_redirects target)) \<le> Suc max_redirects \<and>
   (case snd (fetch_public_http_with_validated_redirects parse parse_rel fetch max_redirects target) of
      Inl _ \<Rightarrow> True | Inr response \<Rightarrow> rs_status response \<notin> {301, 302, 303, 307, 308})"
proof -
  let ?P = "\<lambda>h. \<exists>raw u. parse raw = Some u \<and> h = u_href u \<and> u_protocol u \<in> {''http:'', ''https:''} \<and>
        u_username u = [] \<and> u_password u = [] \<and> \<not> is_private_host (u_hostname u)"
  have step: "?P (u_href u)" if "assert_public_http_url parse raw = Inr u" for raw u
    using assert_public_http_url_ok [OF that] by blast
  show ?thesis
  proof (cases "assert_public_http_url parse target")
    case (Inl e)
    then show ?thesis by (simp add: fetch_public_http_with_validated_redirects_def fetch_validated_def)
  next
    case (Inr u)
    have final: "case snd (redirect_loop (assert_public_http_url parse) parse_rel fetch max_redirects u) of
        Inl _ \<Rightarrow> True | Inr response \<Rightarrow> rs_status response \<notin> {301, 302, 303, 307, 308}"
      by (split sum.split) (auto dest: redirect_loop_final)
    show ?thesis
      using redirect_loop_safe [of ?P, OF step [OF Inr] step, where left = max_redirects] final
      by (simp add: fetch_public_http_with_validated_redirects_def fetch_validated_def Inr list_all_iff)
  qed
qed

section \<open>Properties of identifiers\<close>

lemma dash_runs_chars: "c \<in> set (dash_runs s) \<Longrightarrow> id_char c"
proof (induction s rule: dash_runs.induct)
  case (2 d cs)
  have dash: "id_char (CHR ''-'')" unfolding id_char_def by (intro disjI2) simp
  show ?case
  proof (cases "id_char d")
    case True
    with 2 show ?thesis by (auto simp only: dash_runs.simps(2) if_True set_simps)
  next
    case False
    with "2.prems" have "c = CHR ''-'' \<or> c \<in> set (dash_runs (dropWhile (\<lambda>c. \<not> id_char c) cs))"
      by (simp only: dash_runs.simps(2) if_False set_simps insert_iff)
    then show ?thesis using dash "2.IH"(2) [OF False] by (elim disjE) simp_all
  qed
qed simp

lemma dash_runs_id: "\<forall>c \<in> set s. id_char c \<Longrightarrow> dash_runs s = s"
proof (induction s)
  case (Cons c s)
  then have "id_char c" "dash_runs s = s" by simp_all
  then show ?case by (simp only: dash_runs.simps(2) if_True)
qed simp

lemma id_char_code:
  assumes "id_char c"
  shows "(of_char c :: nat) \<in> {45, 46, 58, 95} \<or> (48 \<le> (of_char c :: nat) \<and> (of_char c :: nat) \<le> 57) \<or>
    (97 \<le> (of_char c :: nat) \<and> (of_char c :: nat) \<le> 122)"
proof -
  have "c \<in> set ''._:-'' \<Longrightarrow> (of_char c :: nat) \<in> {45, 46, 58, 95}" by auto
  with assms show ?thesis unfolding id_char_def is_digit_def by blast
qed

lemma id_char_plain: "id_char c \<Longrightarrow> \<not> js_space c \<and> lower_char c = c"
  using id_char_code [of c] unfolding js_space_def lower_char_def Let_def by auto

lemma js_lower_id: "\<forall>c \<in> set s. id_char c \<Longrightarrow> js_lower s = s"
  by (simp add: js_lower_def map_idI id_char_plain)

lemma js_trim_id: "\<forall>c \<in> set s. id_char c \<Longrightarrow> js_trim s = s"
  by (cases "s = []") (auto simp: id_char_plain intro: js_trim_no_space)

lemma sanitize_agent_id_chars: "\<forall>c \<in> set (sanitize_agent_id v). id_char c"
  using dash_runs_chars set_strip_both
  by (fastforce simp: sanitize_agent_id_def strip_dashes_def dest!: in_set_takeD)

lemma sanitize_agent_id_hd: "sanitize_agent_id v \<noteq> [] \<Longrightarrow> hd (sanitize_agent_id v) \<noteq> CHR ''-''"
  using strip_both_ends [of "\<lambda>c. c = CHR ''-''" "dash_runs (js_lower (js_trim (str_or_empty v)))"]
  by (auto simp: sanitize_agent_id_def strip_dashes_def hd_take)

lemma sanitize_agent_id_len: "length (sanitize_agent_id v) \<le> 64"
  by (simp add: sanitize_agent_id_def)

lemma sanitize_again: "sanitize_agent_id (Str (sanitize_agent_id v)) = strip_dashes (sanitize_agent_id v)"
proof -
  have "length (strip_dashes (sanitize_agent_id v)) \<le> 64"
    using sanitize_agent_id_len [of v] length_strip_both le_trans unfolding strip_dashes_def by blast
  then show ?thesis
    using sanitize_agent_id_chars [of v]
    by (simp add: sanitize_agent_id_def [of "Str _"] str_or_empty_def js_trim_id js_lower_id dash_runs_id)
      (simp add: strip_dashes_def)
qed

lemma sanitize_agent_id_fixed:
  assumes "sanitize_agent_id v = [] \<or> last (sanitize_agent_id v) \<noteq> CHR ''-''"
  shows "sanitize_agent_id (Str (sanitize_agent_id v)) = sanitize_agent_id v"
  unfolding sanitize_again strip_dashes_def using assms sanitize_agent_id_hd [of v] by (intro strip_both_id) auto

lemma sanitize_agent_id_twice:
  "sanitize_agent_id (Str (sanitize_agent_id (Str (sanitize_agent_id v)))) = sanitize_agent_id (Str (sanitize_agent_id v))"
  by (rule sanitize_agent_id_fixed)
    (use strip_both_ends [of "\<lambda>c. c = CHR ''-''" "sanitize_agent_id v"] in
      \<open>auto simp: sanitize_again strip_dashes_def\<close>)

text \<open>C37: Agent identifiers are canonical: whatever is given, the result has at most 64 characters, all
  of \<open>a-z0-9._:-\<close>, and does not start with a dash; an identifier that is not cut behind a dash is
  unchanged when it is sanitised again, so the id a session stores is the id a lookup computes.\<close>

theorem sanitize_agent_id_canonical:
  "length (sanitize_agent_id v) \<le> 64 \<and> list_all id_char (sanitize_agent_id v) \<and>
   (if sanitize_agent_id v = [] then True else hd (sanitize_agent_id v) \<noteq> CHR ''-'') \<and>
   (if sanitize_agent_id v \<noteq> [] \<and> last (sanitize_agent_id v) = CHR ''-'' then True
    else sanitize_agent_id (Str (sanitize_agent_id v)) = sanitize_agent_id v)"
  using sanitize_agent_id_hd [of v] sanitize_agent_id_chars [of v] sanitize_agent_id_len [of v] sanitize_agent_id_fixed [of v]
  by (auto simp: list_all_iff)

section \<open>Properties of refused hosts\<close>

definition quad_str :: "nat \<Rightarrow> nat \<Rightarrow> nat \<Rightarrow> nat \<Rightarrow> string" where
  "quad_str a b c d = nat_str a @ ''.'' @ nat_str b @ ''.'' @ nat_str c @ ''.'' @ nat_str d"

lemma not_digits [simp]:
  "\<not> is_digit (CHR ''.'')" "\<not> is_digit (CHR '':'')" "\<not> is_digit (CHR ''%'')" "\<not> is_digit (CHR ''['')"
  "\<not> is_digit (CHR '']'')" "\<not> is_digit (CHR ''l'')"
  by (simp_all add: is_digit_def)

lemma is_quad_iff:
  "is_quad s \<longleftrightarrow> (\<exists>p q r t. s = p @ ''.'' @ q @ ''.'' @ r @ ''.'' @ t \<and>
     (\<forall>w \<in> {p, q, r, t}. w \<noteq> [] \<and> length w \<le> 3 \<and> (\<forall>c \<in> set w. is_digit c)))"
proof
  assume "is_quad s"
  then obtain p q r t where ps: "js_split (CHR ''.'') s = [p, q, r, t]"
    and ok: "\<forall>w \<in> {p, q, r, t}. w \<noteq> [] \<and> length w \<le> 3 \<and> (\<forall>c \<in> set w. is_digit c)"
    by (auto simp: is_quad_def Let_def length_Suc_conv list_all_iff numeral_eq_Suc)
  have "s = p @ ''.'' @ q @ ''.'' @ r @ ''.'' @ t"
    using js_join_split [of "CHR ''.''" s] by (simp add: ps)
  with ok show "\<exists>p q r t. s = p @ ''.'' @ q @ ''.'' @ r @ ''.'' @ t \<and>
     (\<forall>w \<in> {p, q, r, t}. w \<noteq> [] \<and> length w \<le> 3 \<and> (\<forall>c \<in> set w. is_digit c))" by blast
next
  assume "\<exists>p q r t. s = p @ ''.'' @ q @ ''.'' @ r @ ''.'' @ t \<and>
     (\<forall>w \<in> {p, q, r, t}. w \<noteq> [] \<and> length w \<le> 3 \<and> (\<forall>c \<in> set w. is_digit c))"
  then obtain p q r t where s: "s = js_join ''.'' [p, q, r, t]"
    and ok: "\<forall>w \<in> {p, q, r, t}. w \<noteq> [] \<and> length w \<le> 3 \<and> (\<forall>c \<in> set w. is_digit c)" by auto
  have no_dot: "w \<in> {p, q, r, t} \<Longrightarrow> CHR ''.'' \<notin> set w" for w using ok not_digits(1) by blast
  have "js_split (CHR ''.'') s = [p, q, r, t]"
    unfolding s by (rule js_split_join) (use ok no_dot in auto)
  with ok show "is_quad s" by (simp add: is_quad_def list_all_iff)
qed

lemma quad_split:
  "js_split (CHR ''.'') (quad_str a b c d) = [nat_str a, nat_str b, nat_str c, nat_str d]"
proof -
  have "quad_str a b c d = js_join ''.'' [nat_str a, nat_str b, nat_str c, nat_str d]" by (simp add: quad_str_def)
  then show ?thesis
    by (simp only:) (rule js_split_join, use nat_str_digits not_digits(1) in \<open>auto simp del: not_digits\<close>)
qed

lemma quad_parts_str [simp]: "quad_parts (quad_str a b c d) = [a, b, c, d]"
  by (simp add: quad_parts_def quad_split)

lemma is_quad_str: "a < 256 \<Longrightarrow> b < 256 \<Longrightarrow> c < 256 \<Longrightarrow> d < 256 \<Longrightarrow> is_quad (quad_str a b c d)"
  using length_nat_str [of a 2] length_nat_str [of b 2] length_nat_str [of c 2] length_nat_str [of d 2] nat_str_digits
  by (simp add: is_quad_def quad_split list_all_iff)

lemma is_quad_ends:
  assumes "is_quad q"
  shows "q \<noteq> []" "is_digit (hd q)" "is_digit (last q)" "c \<in> set q \<Longrightarrow> is_digit c \<or> c = CHR ''.''"
proof -
  from assms obtain p r t u where s: "q = p @ ''.'' @ r @ ''.'' @ t @ ''.'' @ u"
    and ok: "\<forall>w \<in> {p, r, t, u}. w \<noteq> [] \<and> length w \<le> 3 \<and> (\<forall>c \<in> set w. is_digit c)"
    unfolding is_quad_iff by blast
  show "q \<noteq> []" by (simp add: s)
  show "is_digit (hd q)" using ok by (simp add: s)
  show "is_digit (last q)" using ok by (simp add: s)
  show "c \<in> set q \<Longrightarrow> is_digit c \<or> c = CHR ''.''" using ok by (auto simp: s)
qed

lemma strip_dots_append: "q \<noteq> [] \<Longrightarrow> last q \<noteq> CHR ''.'' \<Longrightarrow> strip_dots (q @ replicate n (CHR ''.'')) = q"
proof -
  assume "q \<noteq> []" "last q \<noteq> CHR ''.''"
  then have "dropWhile (\<lambda>c. c = CHR ''.'') (rev q) = rev q" by (cases "rev q") (auto simp: last_rev hd_rev dest: arg_cong [where f = hd])
  moreover have "dropWhile (\<lambda>c. c = CHR ''.'') (replicate n (CHR ''.'') @ rev q) = dropWhile (\<lambda>c. c = CHR ''.'') (rev q)"
    by (induction n) simp_all
  ultimately show ?thesis by (simp add: strip_dots_def)
qed

lemma digit_plain: "is_digit c \<Longrightarrow> id_char c"
  by (simp add: id_char_def)

lemma ends_with_last: "w \<noteq> [] \<Longrightarrow> ends_with w s \<Longrightarrow> last s = last w"
  by (metis append_take_drop_id ends_with_def last_appendR)

text \<open>A dotted quad, trailing dots or not, is judged by its octets alone.\<close>

lemma private_host_round_quad:
  assumes "is_quad q"
  shows "private_host_round again (q @ replicate n (CHR ''.'')) = private_quad (quad_parts q)"
proof -
  let ?h = "q @ replicate n (CHR ''.'')"
  note e = is_quad_ends [OF assms]
  have dot: "id_char (CHR ''.'')" unfolding id_char_def by (intro disjI2) simp
  have "\<forall>c \<in> set ?h. id_char c" using e(4) dot digit_plain by auto
  then have raw: "js_lower (js_trim ?h) = ?h" by (simp only: js_trim_id js_lower_id)
  have brackets: "strip_brackets ?h = ?h"
  proof -
    obtain c r where "q = c # r" using e(1) by (cases q) auto
    then have "\<not> starts_with ''['' ?h" using e(2) by (auto simp: starts_with_def)
    then show ?thesis by (simp add: strip_brackets_def)
  qed
  have "CHR ''%'' \<notin> set ?h" using e(4) [of "CHR ''%''"] by auto
  then have zone: "js_split (CHR ''%'') ?h ! 0 = ?h" by (simp add: js_split_no_sep)
  have dots: "strip_dots ?h = q" using e(1,3) not_digits(1) by (intro strip_dots_append) metis+
  have local_names: "q \<noteq> ''localhost''" "\<not> ends_with ''.localhost'' q" "\<not> ends_with ''.local'' q"
  proof -
    have l: "last q \<noteq> CHR ''t''" "last q \<noteq> CHR ''l''" using e(3) by (auto simp: is_digit_def)
    then show "q \<noteq> ''localhost''" by auto
    show "\<not> ends_with ''.localhost'' q" "\<not> ends_with ''.local'' q"
      using l ends_with_last [of "''.localhost''" q] ends_with_last [of "''.local''" q] by auto
  qed
  have mapped: "\<not> starts_with ''::ffff:'' q"
    using e(1,2) by (cases q) (auto simp: starts_with_def)
  have "q = ''0.0.0.0'' \<Longrightarrow> private_quad (quad_parts q)" by (simp add: quad_parts_def private_quad_def digits_val_def digit_val_def)
  then show ?thesis
    unfolding private_host_round_def raw Let_def brackets zone dots
    using e(1) local_names mapped assms by auto
qed

lemma is_private_host_quad: "is_quad q \<Longrightarrow> is_private_host q = private_quad (quad_parts q)"
  using private_host_round_quad [of q _ 0] by (simp add: is_private_host_def)

text \<open>The address blocks that are not public, as base octets and prefix length.\<close>

definition reserved_blocks :: "((nat \<times> nat \<times> nat) \<times> nat) list" where
  "reserved_blocks = [((10, 0, 0), 8), ((127, 0, 0), 8), ((0, 0, 0), 8), ((169, 254, 0), 16),
     ((172, 16, 0), 12), ((192, 0, 0), 24), ((192, 0, 2), 24), ((192, 88, 99), 24), ((192, 168, 0), 16),
     ((198, 18, 0), 15), ((198, 51, 100), 24), ((203, 0, 113), 24), ((100, 64, 0), 10), ((224, 0, 0), 3)]"

definition ipv4_number :: "nat \<Rightarrow> nat \<Rightarrow> nat \<Rightarrow> nat \<Rightarrow> nat" where
  "ipv4_number a b c d = a * 2 ^ 24 + b * 2 ^ 16 + c * 2 ^ 8 + d"

definition in_block :: "nat \<Rightarrow> (nat \<times> nat \<times> nat) \<times> nat \<Rightarrow> bool" where
  "in_block n block = (case block of ((a, b, c), len) \<Rightarrow>
     n div 2 ^ (32 - len) = ipv4_number a b c 0 div 2 ^ (32 - len))"

lemma ipv4_prefixes:
  assumes "b < 256" "c < 256" "d < 256"
  shows "ipv4_number a b c d div 16777216 = a" "ipv4_number a b c d div 4194304 = a * 4 + b div 64"
    "ipv4_number a b c d div 1048576 = a * 16 + b div 16" "ipv4_number a b c d div 131072 = a * 128 + b div 2"
    "ipv4_number a b c d div 65536 = a * 256 + b" "ipv4_number a b c d div 256 = (a * 256 + b) * 256 + c"
    "ipv4_number a b c d div 536870912 = a div 32"
  using assms unfolding ipv4_number_def by simp_all

lemma base_pair:
  fixes a b m :: nat
  assumes "b < m" "b' < m"
  shows "a * m + b = a' * m + b' \<longleftrightarrow> a = a' \<and> b = b'"
proof -
  have "(a * m + b) div m = a" "(a' * m + b') div m = a'" using assms by simp_all
  then show ?thesis by (metis add_left_cancel)
qed

lemma in_block_len:
  assumes "b < 256" "c < 256" "d < 256" "y < 256" "z < 256"
  shows "in_block (ipv4_number a b c d) ((x, y, z), 8) \<longleftrightarrow> a = x"
    "in_block (ipv4_number a b c d) ((x, y, z), 10) \<longleftrightarrow> a = x \<and> b div 64 = y div 64"
    "in_block (ipv4_number a b c d) ((x, y, z), 12) \<longleftrightarrow> a = x \<and> b div 16 = y div 16"
    "in_block (ipv4_number a b c d) ((x, y, z), 15) \<longleftrightarrow> a = x \<and> b div 2 = y div 2"
    "in_block (ipv4_number a b c d) ((x, y, z), 16) \<longleftrightarrow> a = x \<and> b = y"
    "in_block (ipv4_number a b c d) ((x, y, z), 24) \<longleftrightarrow> a = x \<and> b = y \<and> c = z"
    "in_block (ipv4_number a b c d) ((x, y, z), 3) \<longleftrightarrow> a div 32 = x div 32"
proof -
  note p = ipv4_prefixes [OF assms(1-3), of a] and q = ipv4_prefixes [OF assms(4,5), of 0 x]
  have s: "b div 64 < 4" "y div 64 < 4" "b div 16 < 16" "y div 16 < 16" "b div 2 < 128" "y div 2 < 128"
    using assms by linarith+
  note n = base_pair [OF s(1,2), of a x] base_pair [OF s(3,4), of a x] base_pair [OF s(5,6), of a x]
    base_pair [OF assms(1,4), of a x]
  have m: "(a * 256 + b) * 256 + c = (x * 256 + y) * 256 + z \<longleftrightarrow> a = x \<and> b = y \<and> c = z"
    using base_pair [OF assms(2,5), of "a * 256 + b" "x * 256 + y"] base_pair [OF assms(1,4), of a x] by simp
  show "in_block (ipv4_number a b c d) ((x, y, z), 8) \<longleftrightarrow> a = x"
    "in_block (ipv4_number a b c d) ((x, y, z), 10) \<longleftrightarrow> a = x \<and> b div 64 = y div 64"
    "in_block (ipv4_number a b c d) ((x, y, z), 12) \<longleftrightarrow> a = x \<and> b div 16 = y div 16"
    "in_block (ipv4_number a b c d) ((x, y, z), 15) \<longleftrightarrow> a = x \<and> b div 2 = y div 2"
    "in_block (ipv4_number a b c d) ((x, y, z), 16) \<longleftrightarrow> a = x \<and> b = y"
    "in_block (ipv4_number a b c d) ((x, y, z), 24) \<longleftrightarrow> a = x \<and> b = y \<and> c = z"
    "in_block (ipv4_number a b c d) ((x, y, z), 3) \<longleftrightarrow> a div 32 = x div 32"
    using m by (simp_all add: in_block_def p q n)
qed

lemma private_quad_octets:
  assumes "a < 256" "b < 256" "c < 256" "d < 256"
  shows "private_quad [a, b, c, d] \<longleftrightarrow> a = 10 \<or> a = 127 \<or> a = 0 \<or> (a = 169 \<and> b = 254) \<or>
    (a = 172 \<and> 16 \<le> b \<and> b \<le> 31) \<or> (a = 192 \<and> b = 0 \<and> c = 0) \<or> (a = 192 \<and> b = 0 \<and> c = 2) \<or>
    (a = 192 \<and> b = 88 \<and> c = 99) \<or> (a = 192 \<and> b = 168) \<or> (a = 198 \<and> (b = 18 \<or> b = 19)) \<or>
    (a = 198 \<and> b = 51 \<and> c = 100) \<or> (a = 203 \<and> b = 0 \<and> c = 113) \<or> (a = 100 \<and> 64 \<le> b \<and> b \<le> 127) \<or> 224 \<le> a"
proof -
  have "\<not> list_ex (\<lambda>p. p > 255) [a, b, c, d]" using assms by simp
  moreover have orelse: "(if P then True else Q) \<longleftrightarrow> P \<or> Q" for P Q by simp
  moreover have "[a, b, c, d] ! 0 = a" "[a, b, c, d] ! 1 = b" "[a, b, c, d] ! 2 = c" by simp_all
  ultimately show ?thesis
    unfolding private_quad_def Let_def by (simp only: orelse disj_assoc simp_thms)
qed

lemma private_quad_blocks:
  assumes "a < 256" "b < 256" "c < 256" "d < 256"
  shows "private_quad [a, b, c, d] \<longleftrightarrow> list_ex (in_block (ipv4_number a b c d)) reserved_blocks"
proof -
  have "b div 64 = 1 \<longleftrightarrow> 64 \<le> b \<and> b \<le> 127" "b div 16 = 1 \<longleftrightarrow> 16 \<le> b \<and> b \<le> 31"
    "b div 2 = 9 \<longleftrightarrow> b = 18 \<or> b = 19" "a div 32 = 7 \<longleftrightarrow> 224 \<le> a" using assms(1) by linarith+
  then show ?thesis
    unfolding private_quad_octets [OF assms] using assms by (simp add: reserved_blocks_def in_block_len)
qed

text \<open>\<open>isPrivateHost\<close> on an IPv4 address, with any number of trailing dots, is exactly membership in
  the listed reserved blocks (loopback, private, carrier, link-local, documentation, benchmarking,
  multicast and above), for every one of the four-octet addresses.\<close>

theorem private_ipv4_blocks:
  assumes "a < 256" "b < 256" "c < 256" "d < 256"
  shows "is_private_host (quad_str a b c d @ replicate n (CHR ''.'')) \<longleftrightarrow>
         list_ex (in_block (ipv4_number a b c d)) reserved_blocks"
  using private_host_round_quad [OF is_quad_str [OF assms]] private_quad_blocks [OF assms]
  by (simp add: is_private_host_def)

theorem private_ipv4_blocks_witness:
  "is_private_host (quad_str 172 31 255 1 @ ''..'') \<and> \<not> is_private_host (quad_str 172 32 0 1)"
  using private_ipv4_blocks [of 172 31 255 1 2] private_ipv4_blocks [of 172 32 0 1 0]
  by (simp add: reserved_blocks_def in_block_len numeral_2_eq_2)

lemma hex_digit_char:
  assumes "n < 16"
  defines "c \<equiv> (if n < 10 then char_of (48 + n) else char_of (87 + n :: nat) :: char)"
  shows "is_hex_digit c" "radix_val c = Some n"
proof -
  have "n \<in> set [0..<16]" using assms(1) by simp
  moreover have "[0..<16] = [0, 1, 2, 3, 4, 5, 6, 7, 8, 9, 10, 11, 12, 13, 14, 15 :: nat]" by code_simp
  ultimately have "n \<in> {0, 1, 2, 3, 4, 5, 6, 7, 8, 9, 10, 11, 12, 13, 14, 15}" by simp
  then show "is_hex_digit c" "radix_val c = Some n"
    unfolding c_def is_hex_digit_def is_digit_def radix_val_def by auto
qed

lemma hex_str_digits: "c \<in> set (hex_str n) \<Longrightarrow> is_hex_digit c"
proof (induction n rule: hex_str.induct)
  case (1 n)
  show ?case
  proof (cases "n < 16")
    case True
    with 1(3) hex_digit_char(1) [OF True] show ?thesis by (subst (asm) hex_str.simps) auto
  next
    case False
    with 1(3) have "c \<in> set (hex_str (n div 16)) \<or> c \<in> set (hex_str (n mod 16))"
      by (subst (asm) hex_str.simps) auto
    with 1 False show ?thesis by blast
  qed
qed

lemma hex_str_small: "n < 16 \<Longrightarrow> hex_str n = [if n < 10 then char_of (48 + n) else char_of (87 + n)]"
  by (subst hex_str.simps) simp

lemma hex_str_big: "\<not> n < 16 \<Longrightarrow> hex_str n = hex_str (n div 16) @ hex_str (n mod 16)"
  by (subst hex_str.simps) simp

lemma length_hex_str: "n < 16 ^ Suc k \<Longrightarrow> hex_str n \<noteq> [] \<and> length (hex_str n) \<le> Suc k"
proof (induction k arbitrary: n)
  case 0
  then show ?case by (simp add: hex_str_small)
next
  case (Suc k)
  show ?case
  proof (cases "n < 16")
    case True
    then show ?thesis by (simp add: hex_str_small)
  next
    case False
    have "n div 16 < 16 ^ Suc k" using Suc.prems by (simp add: less_mult_imp_div_less)
    with Suc.IH [of "n div 16"] False show ?thesis by (simp add: hex_str_big hex_str_small [of "n mod 16"])
  qed
qed

lemma parse_radix_append:
  "parse_radix b acc (u @ v) = (case parse_radix b acc u of None \<Rightarrow> None | Some x \<Rightarrow> parse_radix b x v)"
  by (induction u arbitrary: acc) (auto split: option.split)

lemma parse_radix_hex_str [simp]: "parse_radix 16 0 (hex_str n) = Some n"
proof (induction n rule: hex_str.induct)
  case (1 n)
  have small: "parse_radix 16 acc (hex_str m) = Some (16 * acc + m)" if "m < 16" for acc m
    using hex_digit_char(2) [OF that] that by (simp add: hex_str_small)
  show ?case
  proof (cases "n < 16")
    case True
    then show ?thesis by (simp add: small)
  next
    case False
    with 1 show ?thesis by (simp add: hex_str_big parse_radix_append small)
  qed
qed

lemma split_double_colon_id:
  "\<nexists>u v. s = u @ ''::'' @ v \<Longrightarrow> split_double_colon s = [s]"
proof (induction s rule: split_double_colon.induct)
  case (3 c d r)
  have nd: "\<not> (c = CHR '':'' \<and> d = CHR '':'')"
    using "3.prems" by (metis append_Cons append_Nil)
  have "\<nexists>u v. d # r = u @ ''::'' @ v"
    using "3.prems" by (metis append_Cons)
  with "3.IH"(2) nd show ?case by simp
qed simp_all

lemma double_colon_empty_word: "[] \<in> set (tl (js_split (CHR '':'') (u @ ''::'' @ v)))"
proof (induction u)
  case (Cons c u)
  let ?s = "js_split (CHR '':'') (u @ ''::'' @ v)"
  obtain w ws where w: "?s = w # ws" by (metis js_split_nonempty neq_Nil_conv)
  show ?case using Cons w by (cases "c = CHR '':''") simp_all
qed simp

lemma split_double_colon_single:
  "[] \<notin> set (js_split (CHR '':'') s) \<Longrightarrow> split_double_colon s = [s]"
  using double_colon_empty_word by (intro split_double_colon_id) (metis list.set_sel(2) tl_Nil)

text \<open>The host part of a mapped address in hexadecimal, and its groups.\<close>

definition mapped_hex :: "nat \<Rightarrow> nat \<Rightarrow> string" where
  "mapped_hex x y = ''::ffff:'' @ hex_str x @ '':'' @ hex_str y"

lemma hex_char_plain: "is_hex_digit c \<Longrightarrow> id_char c \<and> c \<noteq> CHR '':'' \<and> c \<noteq> CHR ''.'' \<and> c \<noteq> CHR ''%'' \<and> c \<noteq> CHR ''t'' \<and> c \<noteq> CHR ''l''"
  unfolding is_hex_digit_def id_char_def is_digit_def by auto

lemma mapped_hex_chars: "c \<in> set (mapped_hex x y) \<Longrightarrow> c = CHR '':'' \<or> is_hex_digit c"
  using hex_str_digits by (auto simp: mapped_hex_def is_hex_digit_def)

lemma quad_needs_dot: "is_quad s \<Longrightarrow> CHR ''.'' \<in> set s"
  unfolding is_quad_iff by auto

lemma expand_mapped_hex:
  assumes "x < 65536" "y < 65536"
  shows "expand_ipv6 (mapped_hex x y) = Some [0, 0, 0, 0, 0, 0xffff, int x, int y]"
proof -
  have len: "hex_str n \<noteq> []" "length (hex_str n) \<le> 4" if "n < 65536" for n
    using length_hex_str [of n 3] that by simp_all
  have chars: "\<forall>c \<in> set (mapped_hex x y). id_char c"
  proof
    fix c assume "c \<in> set (mapped_hex x y)"
    moreover have "id_char (CHR '':'')" unfolding id_char_def by (intro disjI2) simp
    ultimately show "id_char c" using mapped_hex_chars hex_char_plain by metis
  qed
  have lower: "js_lower (mapped_hex x y) = mapped_hex x y" by (rule js_lower_id [OF chars])
  have "CHR ''.'' \<notin> set (mapped_hex x y)"
    using mapped_hex_chars [of "CHR ''.''"] hex_char_plain by auto
  then have "\<not> is_quad (drop i (mapped_hex x y))" for i
    using quad_needs_dot in_set_dropD by metis
  then have dotted: "dotted_index (mapped_hex x y) = None"
    by (simp add: dotted_index_def find_None_iff)
  define r where "r = ''ffff:'' @ hex_str x @ '':'' @ hex_str y"
  have ws: "js_split (CHR '':'') r = [''ffff'', hex_str x, hex_str y]"
  proof -
    have "r = js_join [CHR '':''] [''ffff'', hex_str x, hex_str y]" by (simp add: r_def)
    moreover have "CHR '':'' \<notin> set (hex_str n)" for n using hex_str_digits hex_char_plain by blast
    ultimately show ?thesis by (simp only:) (rule js_split_join, auto)
  qed
  have "split_double_colon r = [r]"
    by (rule split_double_colon_single) (simp only: ws, use len assms in \<open>auto simp: eq_commute [of "[]"]\<close>)
  moreover have "mapped_hex x y = CHR '':'' # CHR '':'' # r" by (simp add: mapped_hex_def r_def)
  ultimately have sides: "split_double_colon (mapped_hex x y) = [[], r]" by simp
  have "r \<noteq> []" by (simp add: r_def)
  have hex_ok: "list_all is_hex_digit (hex_str n)" for n using hex_str_digits by (simp add: list_all_iff)
  have lit: "list_all is_hex_digit ''0''" "list_all is_hex_digit ''ffff''" by code_simp+
  have five: "replicate 5 ''0'' = [''0'', ''0'', ''0'', ''0'', ''0'']" by code_simp
  have "expand_groups (mapped_hex x y) = Some [0, 0, 0, 0, 0, 0xffff, int x, int y]"
    unfolding expand_groups_def Let_def sides
    using \<open>r \<noteq> []\<close> len [OF assms(1)] len [OF assms(2)] lit by (simp add: ws five hex_ok radix_val_def)
  then show ?thesis unfolding expand_ipv6_def Let_def lower dotted by simp
qed

lemma octets_of_pair:
  assumes "a < 256" "b < 256"
  shows "drop_bit 8 (int (a * 256 + b)) = int a" "int (a * 256 + b) AND 255 = int b"
proof -
  show "drop_bit 8 (int (a * 256 + b)) = int a" using assms by (simp add: drop_bit_eq_div)
  have "int (a * 256 + b) AND mask 8 = int b"
    using assms by (simp add: take_bit_eq_mod flip: take_bit_eq_mask)
  then show "int (a * 256 + b) AND 255 = int b" by (simp add: mask_eq_exp_minus_1)
qed

lemma is_private_host_mapped_hex:
  assumes "a < 256" "b < 256" "c < 256" "d < 256"
  shows "is_private_host (mapped_hex (a * 256 + b) (c * 256 + d)) = private_quad [a, b, c, d]"
proof -
  let ?x = "a * 256 + b" and ?y = "c * 256 + d"
  let ?h = "mapped_hex ?x ?y"
  have lt: "?x < 65536" "?y < 65536" using assms by simp_all
  have colon: "id_char (CHR '':'')" unfolding id_char_def by (intro disjI2) simp
  have chars: "\<forall>c \<in> set ?h. id_char c" using mapped_hex_chars hex_char_plain colon by metis
  have not_in: "CHR ''.'' \<notin> set ?h" "CHR ''%'' \<notin> set ?h" "CHR ''l'' \<notin> set ?h"
    using mapped_hex_chars [of "CHR ''.''" ?x ?y] mapped_hex_chars [of "CHR ''%''" ?x ?y]
      mapped_hex_chars [of "CHR ''l''" ?x ?y] hex_char_plain [of "CHR ''.''"] hex_char_plain [of "CHR ''%''"]
      hex_char_plain [of "CHR ''l''"] by auto
  have raw: "js_lower (js_trim ?h) = ?h" using js_trim_id [OF chars] js_lower_id [OF chars] by simp
  have head: "?h = CHR '':'' # tl ?h" and ne: "?h \<noteq> []" by (simp_all add: mapped_hex_def)
  have brackets: "strip_brackets ?h = ?h" by (simp add: strip_brackets_def starts_with_def mapped_hex_def)
  have zone: "js_split (CHR ''%'') ?h ! 0 = ?h" using not_in(2) by (simp add: js_split_no_sep)
  have "last ?h \<noteq> CHR ''.''" using not_in(1) head by (metis last_in_set list.discI)
  then have dots: "strip_dots ?h = ?h" using strip_dots_append [of ?h 0] ne by simp
  have sub: "ends_with w ?h \<Longrightarrow> set w \<subseteq> set ?h" for w
    unfolding ends_with_def by (metis set_drop_subset)
  have names: "?h \<noteq> ''localhost''" "?h \<noteq> ''0.0.0.0''" "\<not> ends_with ''.localhost'' ?h" "\<not> ends_with ''.local'' ?h"
    using sub [of "''.localhost''"] sub [of "''.local''"] not_in head by auto
  have nq: "\<not> is_quad ?h" "\<not> is_quad (drop 7 ?h)"
    using quad_needs_dot not_in(1) in_set_dropD by metis+
  have eight: "[0..<8] = [0, 1, 2, 3, 4, 5, 6, 7]" by code_simp
  have g0: "(0 :: int) AND 0xfe00 \<noteq> 0xfc00" "(0 :: int) AND 0xffc0 \<noteq> 0xfe80" "(0 :: int) AND 0xff00 \<noteq> 0xff00" by simp_all
  have pub: "\<not> private_ipv6_groups [0, 0, 0, 0, 0, 0xffff, int ?x, int ?y]"
    using g0 eight by (simp add: private_ipv6_groups_def)
  have emb: "embedded_ipv4 [0, 0, 0, 0, 0, 0xffff, int ?x, int ?y] = Some (quad_str a b c d)"
    using octets_of_pair [OF assms(1,2)] octets_of_pair [OF assms(3,4)]
    by (simp add: embedded_ipv4_def quad_str_def int_str_def del: of_nat_add of_nat_mult)
  have "private_host_round again ?h = again (quad_str a b c d)" for again
    unfolding private_host_round_def raw Let_def brackets zone dots
    using head names nq pub emb expand_mapped_hex [OF lt] by (simp add: mapped_hex_def)
  then show ?thesis
    using private_host_round_quad [OF is_quad_str [OF assms], of _ 0] by (simp add: is_private_host_def)
qed

lemma is_private_host_mapped_dotted:
  assumes "a < 256" "b < 256" "c < 256" "d < 256"
  shows "is_private_host (''::ffff:'' @ quad_str a b c d) = private_quad [a, b, c, d]"
proof -
  let ?q = "quad_str a b c d"
  let ?h = "''::ffff:'' @ ?q"
  note e = is_quad_ends [OF is_quad_str [OF assms]]
  have pre: "\<forall>c \<in> set ''::ffff:.''. id_char c" unfolding id_char_def by (simp add: is_digit_def)
  then have chars: "\<forall>c \<in> set ?h. id_char c" using e(4) digit_plain by auto
  have raw: "js_lower (js_trim ?h) = ?h" using js_trim_id [OF chars] js_lower_id [OF chars] by simp
  have brackets: "strip_brackets ?h = ?h" by (simp add: strip_brackets_def starts_with_def)
  have "CHR ''%'' \<notin> set ?h" using e(4) [of "CHR ''%''"] by auto
  then have zone: "js_split (CHR ''%'') ?h ! 0 = ?h" by (simp add: js_split_no_sep)
  have last: "last ?h = last ?q" using e(1) by (metis last_appendR)
  then have "last ?h \<noteq> CHR ''.''" using e(3) not_digits(1) by metis
  then have dots: "strip_dots ?h = ?h" using strip_dots_append [of ?h 0] by simp
  have l: "last ?h \<noteq> CHR ''t''" "last ?h \<noteq> CHR ''l''" using e(3) last by (auto simp: is_digit_def)
  have names: "?h \<noteq> ''localhost''" "?h \<noteq> ''0.0.0.0''" "\<not> ends_with ''.localhost'' ?h" "\<not> ends_with ''.local'' ?h"
    using l ends_with_last [of "''.localhost''" ?h] ends_with_last [of "''.local''" ?h] by auto
  have "private_host_round again ?h = again ?q" for again
    unfolding private_host_round_def raw Let_def brackets zone dots
    using names is_quad_str [OF assms] by (simp add: starts_with_def)
  then show ?thesis
    using private_host_round_quad [OF is_quad_str [OF assms], of _ 0] by (simp add: is_private_host_def)
qed

text \<open>An IPv4-mapped IPv6 address is judged as the IPv4 address it carries, in the dotted spelling
  \<open>::ffff:a.b.c.d\<close> and in the hexadecimal one, for every IPv4 address: no spelling of a private
  address passes the check.\<close>

theorem mapped_ipv4_same_verdict:
  assumes "a < 256" "b < 256" "c < 256" "d < 256"
  shows "is_private_host (''::ffff:'' @ quad_str a b c d) = is_private_host (quad_str a b c d) \<and>
         is_private_host (''::ffff:'' @ hex_str (a * 256 + b) @ '':'' @ hex_str (c * 256 + d)) =
           is_private_host (quad_str a b c d)"
  using is_private_host_mapped_dotted [OF assms] is_private_host_mapped_hex [OF assms]
    is_private_host_quad [OF is_quad_str [OF assms]] by (simp add: mapped_hex_def)

theorem mapped_ipv4_same_verdict_witness:
  "is_private_host (''::ffff:'' @ quad_str 127 0 0 1) = is_private_host (quad_str 127 0 0 1) \<and>
   is_private_host (''::ffff:'' @ hex_str (127 * 256 + 0) @ '':'' @ hex_str (0 * 256 + 1)) =
     is_private_host (quad_str 127 0 0 1)"
  by (rule mapped_ipv4_same_verdict) simp_all

section \<open>Properties of the public projection\<close>

lemma js_delete_fold_has: "js_has (fold (\<lambda>key o'. js_delete o' key) ks v) k \<longleftrightarrow> k \<notin> set ks \<and> js_has v k"
  by (induction ks arbitrary: v) auto

lemma js_delete_fold_get:
  "js_get (fold (\<lambda>key o'. js_delete o' key) ks v) k = (if k \<in> set ks then Undefined else js_get v k)"
  by (induction ks arbitrary: v) auto

lemma js_delete_fold_record [simp]:
  "js_is_record (fold (\<lambda>key o'. js_delete o' key) ks v) = js_is_record v"
  by (induction ks arbitrary: v) auto

definition metrics_public_keys :: "string list" where
  "metrics_public_keys = [''schema'', ''agent_id'', ''agent_label'', ''updated_at'', ''cpu_percent'',
     ''memory'', ''load'', ''disk'', ''net'']"

lemma js_has_Obj: "js_has (Obj m) k \<longleftrightarrow> k \<in> fst ` set m"
  by (simp add: js_has_def map_of_eq_None_iff)

lemma js_has_filter: "js_has (Obj (filter P xs)) k \<Longrightarrow> k \<in> set (map fst xs)"
  by (auto simp: js_has_Obj)

lemma sanitize_metrics_keys:
  assumes "\<not> public_setting env ''PUBLIC_STATUS_AGENT_DETAILS'' False"
    "js_has (sanitize_public_agent_metrics v env) k"
  shows "k \<in> set metrics_public_keys"
proof (cases "js_is_record v")
  case True
  then have "js_has (Obj (filter (\<lambda>(_, v). \<not> js_nullish v) (public_metrics_entries v))) k"
    using assms by (simp add: sanitize_public_agent_metrics_def)
  then have "k \<in> set (map fst (public_metrics_entries v))" by (rule js_has_filter)
  then show ?thesis by (simp add: public_metrics_entries_def metrics_public_keys_def)
next
  case False
  then show ?thesis using assms by (cases v) (simp_all add: sanitize_public_agent_metrics_def js_is_record_def js_has_def)
qed

lemma js_record_if: "js_is_record (if P then v else w) = (if P then js_is_record v else js_is_record w)"
  "js_has (if P then v else w) k = (if P then js_has v k else js_has w k)"
  "js_get (if P then v else w) k = (if P then js_get v k else js_get w k)"
  by simp_all

lemma js_set_when_has [simp]:
  "js_has (if js_has d j then js_set d j x else d) k \<longleftrightarrow> js_has d k"
proof (cases "js_is_record d")
  case False
  then have "js_set d j x = d" by (cases d) (simp_all add: js_is_record_def js_set_def)
  then show ?thesis by simp
qed auto

lemma public_address_record [simp]: "js_is_record (public_address purl mask_ips row) = js_is_record row"
  unfolding public_address_def Let_def by (simp only: js_record_if js_record_closed if_cancel)

lemma public_address_has:
  assumes "js_is_record row" "k \<notin> {''target_host'', ''url'', ''target'', ''target_display''}"
  shows "js_has (public_address purl mask_ips row) k \<longleftrightarrow> k \<noteq> ''sort_order'' \<and> js_has row k"
proof -
  have other: "js_has (js_set v j x) k = js_has v k" if "js_is_record v" "j \<in> {''target_host'', ''url'', ''target'', ''target_display''}"
    for v j x using that assms(2) by auto
  show ?thesis
    unfolding public_address_def Let_def
    by (simp only: js_record_if js_record_closed if_cancel other assms(1) insertI1 insertI2 js_delete_has)
qed

lemma public_errors_record [simp]: "js_is_record (public_errors etext c) = js_is_record c"
  unfolding public_errors_def Let_def by (simp only: js_record_if js_record_closed if_cancel)

lemma public_errors_has: "js_has (public_errors etext c) k \<longleftrightarrow> js_has c k"
  unfolding public_errors_def Let_def by (subst js_set_when_has) (rule js_set_when_has)

lemma public_errors_get:
  assumes "js_is_record c"
  shows "js_has c ''error'' \<Longrightarrow> \<exists>e. js_get (public_errors etext c) ''error'' = etext e"
    "js_has c ''last_error'' \<Longrightarrow> \<exists>e. js_get (public_errors etext c) ''last_error'' = etext e"
proof -
  let ?a = "if js_has c ''error''
    then js_set c ''error'' (etext (public_error_of (js_get c ''error'') (js_get c ''status_code''))) else c"
  have r: "js_is_record ?a" using assms by simp
  have d: "public_errors etext c = (if js_has c ''last_error''
     then js_set ?a ''last_error'' (etext (public_error_of (js_get ?a ''last_error'') (js_get ?a ''status_code''))) else ?a)"
    unfolding public_errors_def Let_def by (simp only: js_set_when_has)
  show "\<exists>e. js_get (public_errors etext c) ''error'' = etext e" if "js_has c ''error''"
    using that assms unfolding d by (cases "js_has c ''last_error''") auto
  show "\<exists>e. js_get (public_errors etext c) ''last_error'' = etext e" if "js_has c ''last_error''"
    using that unfolding d by (simp only: if_True js_set_get [OF r] simp_thms) blast
qed

lemma drop_private_record [simp]: "js_is_record (drop_private env c) = js_is_record c"
  unfolding drop_private_def Let_def by (simp only: js_record_if js_record_closed if_cancel js_delete_fold_record)

lemma drop_private_has:
  "js_has (drop_private env c) k \<longleftrightarrow> js_has c k \<and> k \<notin> {''unlock_data'', ''nq_unlock_data'', ''nq_unlock_updated_at''} \<and>
    (public_setting env ''PUBLIC_STATUS_AGENT_DETAILS'' False \<or>
     k \<notin> set (''agent_version'' # ''machine_uptime_sec'' # agent_detail_keys))"
proof -
  have keys: "js_has (fold (\<lambda>key o'. js_delete o' key) agent_detail_keys
      (if js_has d ''agent_metrics'' then js_set d ''agent_metrics'' x else d)) k \<longleftrightarrow>
      k \<notin> set agent_detail_keys \<and> js_has d k" for d x
    by (subst js_delete_fold_has, subst js_set_when_has) (rule refl)
  show ?thesis
  proof (cases "public_setting env ''PUBLIC_STATUS_AGENT_DETAILS'' False")
    case True
    then show ?thesis
      unfolding drop_private_def Let_def by (simp only: if_True js_delete_has) auto
  next
    case False
    then show ?thesis
      unfolding drop_private_def Let_def
      by (simp only: if_False) (subst keys, simp only: js_delete_has, auto)
  qed
qed

lemma drop_private_get:
  assumes "js_is_record c" "k \<in> {''error'', ''last_error''}"
  shows "js_get (drop_private env c) k = js_get c k"
proof -
  have "k \<noteq> ''unlock_data''" "k \<noteq> ''nq_unlock_data''" "k \<noteq> ''nq_unlock_updated_at''" "k \<noteq> ''agent_version''"
    "k \<noteq> ''machine_uptime_sec''" "k \<noteq> ''agent_metrics''" "k \<notin> set agent_detail_keys"
    using assms(2) by (auto simp: agent_detail_keys_def)
  then show ?thesis
    unfolding drop_private_def Let_def
    by (simp only: js_record_if js_delete_fold_get js_delete_get js_set_get js_record_closed assms(1) if_cancel if_False)
qed

lemma js_has_Undefined [simp]: "\<not> js_has Undefined k"
  by (simp add: js_has_def)

lemma js_get_not_has: "\<not> js_has c k \<Longrightarrow> js_get c k = Undefined"
  by (cases c) (simp_all add: js_has_def js_get_def)

lemma drop_private_metrics:
  assumes "js_is_record c" "\<not> public_setting env ''PUBLIC_STATUS_AGENT_DETAILS'' False"
    "js_has (js_get (drop_private env c) ''agent_metrics'') k"
  shows "k \<in> set metrics_public_keys"
proof (cases "js_has c ''agent_metrics''")
  case True
  have "''agent_metrics'' \<notin> set agent_detail_keys" by (simp add: agent_detail_keys_def)
  with True assms(1,2) have "js_get (drop_private env c) ''agent_metrics'' = sanitize_public_agent_metrics (js_get c ''agent_metrics'') env"
    by (simp add: drop_private_def Let_def js_delete_fold_get)
  with assms(2,3) show ?thesis using sanitize_metrics_keys by metis
next
  case False
  then have "\<not> js_has (drop_private env c) ''agent_metrics''" by (simp only: drop_private_has simp_thms)
  with assms(3) show ?thesis by (simp add: js_get_not_has)
qed

text \<open>What the public page may see of a target. Whatever is stored: the sort order and the raw
  unlock data are gone, the port too when ports are hidden, the colocation fields are null, an
  error is replaced by its public class, and unless agent details are published, the agent's
  version, uptime, quota and alert settings are gone and its metrics keep only the nine public keys.\<close>

theorem public_target_hides:
  fixes row env :: jsval and mask_ips hide_ports :: bool
    and purl rlabel :: "jsval \<Rightarrow> jsval" and etext :: "public_error option \<Rightarrow> jsval"
  assumes "js_is_record row"
  defines "c \<equiv> sanitize_public_target purl etext rlabel row env mask_ips hide_ports"
    and "open_details \<equiv> public_setting env ''PUBLIC_STATUS_AGENT_DETAILS'' False"
  shows "(\<forall>k \<in> {''sort_order'', ''unlock_data'', ''nq_unlock_data'', ''nq_unlock_updated_at''}. \<not> js_has c k) \<and>
    (hide_ports \<longrightarrow> \<not> js_has c ''target_port'') \<and>
    (\<forall>k \<in> {''cf_colo'', ''start_colo'', ''recover_colo''}. js_get c k = Null) \<and>
    (js_has row ''error'' \<longrightarrow> (\<exists>e. js_get c ''error'' = etext e)) \<and>
    (js_has row ''last_error'' \<longrightarrow> (\<exists>e. js_get c ''last_error'' = etext e)) \<and>
    (\<not> open_details \<longrightarrow>
       (\<forall>k \<in> set (''agent_version'' # ''machine_uptime_sec'' # agent_detail_keys). \<not> js_has c k) \<and>
       (\<forall>k. js_has (js_get c ''agent_metrics'') k \<longrightarrow> k \<in> set metrics_public_keys))"
proof -
  let ?a = "public_address purl mask_ips row"
  let ?e = "public_errors etext ?a"
  let ?d = "drop_private env ?e"
  have r: "js_is_record ?a" "js_is_record ?e" "js_is_record ?d" using assms(1) by simp_all
  have has: "js_has c k \<longleftrightarrow> js_has ?d k" if "k \<notin> {''cf_colo'', ''start_colo'', ''recover_colo'', ''region_label'', ''target_port''}" for k
    using that assms(1) r(3) by (simp add: c_def sanitize_public_target_def Let_def)
  have get: "js_get c k = js_get ?d k" if "k \<notin> {''cf_colo'', ''start_colo'', ''recover_colo'', ''region_label'', ''target_port''}" for k
    using that assms(1) r(3) by (simp add: c_def sanitize_public_target_def Let_def)
  have colo: "\<forall>k \<in> {''cf_colo'', ''start_colo'', ''recover_colo''}. js_get c k = Null"
    using assms(1) r(3) by (simp add: c_def sanitize_public_target_def Let_def)
  have port: "hide_ports \<Longrightarrow> \<not> js_has c ''target_port''"
    using assms(1) by (simp add: c_def sanitize_public_target_def Let_def)
  have gone: "\<forall>k \<in> {''sort_order'', ''unlock_data'', ''nq_unlock_data'', ''nq_unlock_updated_at''}. \<not> js_has c k"
    using assms(1) r by (simp add: has drop_private_has public_errors_has public_address_has)
  have details: "\<not> open_details \<Longrightarrow> \<forall>k \<in> set (''agent_version'' # ''machine_uptime_sec'' # agent_detail_keys). \<not> js_has c k"
    using r by (simp add: has drop_private_has open_details_def agent_detail_keys_def)
  have metrics: "\<not> open_details \<Longrightarrow> js_has (js_get c ''agent_metrics'') k \<Longrightarrow> k \<in> set metrics_public_keys" for k
    using drop_private_metrics [OF r(2)] by (simp add: get open_details_def)
  have "js_has row ''error'' \<Longrightarrow> \<exists>e. js_get c ''error'' = etext e"
    using public_errors_get(1) [OF r(1)] assms(1) r by (simp add: get drop_private_get public_address_has)
  moreover have "js_has row ''last_error'' \<Longrightarrow> \<exists>e. js_get c ''last_error'' = etext e"
    using public_errors_get(2) [OF r(1)] assms(1) r by (simp add: get drop_private_get public_address_has)
  ultimately show ?thesis using colo port gone details metrics by blast
qed

theorem public_target_hides_witness:
  "\<not> js_has (sanitize_public_target id (\<lambda>_. Null) id
      (Obj [(''type'', Str ''tcp''), (''target_host'', Str ''10.1.2.3''), (''target_port'', JInt 22), (''error'', Str ''refused''),
        (''traffic_quota_gb'', JInt 5)]) (Obj []) True True) ''target_port'' \<and>
   \<not> js_has (sanitize_public_target id (\<lambda>_. Null) id
      (Obj [(''type'', Str ''tcp''), (''target_host'', Str ''10.1.2.3''), (''target_port'', JInt 22), (''error'', Str ''refused''),
        (''traffic_quota_gb'', JInt 5)]) (Obj []) True True) ''traffic_quota_gb''"
proof -
  let ?row = "Obj [(''type'', Str ''tcp''), (''target_host'', Str ''10.1.2.3''), (''target_port'', JInt 22), (''error'', Str ''refused''),
        (''traffic_quota_gb'', JInt 5)]"
  have "js_is_record ?row" by (simp add: js_is_record_def)
  moreover have "\<not> public_setting (Obj []) ''PUBLIC_STATUS_AGENT_DETAILS'' False"
    by (simp add: public_setting_def parse_boolean_def)
  ultimately show ?thesis
    using public_target_hides [of ?row id "\<lambda>_. Null" id "Obj []" True True] by (simp add: agent_detail_keys_def)
qed

end
