(* ===== verification/Protobuf.thy ===== *)
theory Protobuf
  imports JsValue "HOL-Library.Word"
begin

unbundle bit_operations_syntax

text \<open>
  The telemetry wire format: the decoder of \<open>worker/src/telemetry-protobuf.js\<close>, whole, and the
  encoder of \<open>agent/src/telemetry_proto.rs\<close> it mirrors.

  A frame is a list of bytes and a \<open>ProtoReader\<close> is the rest of its data from \<open>offset\<close> on; a
  decoded object is a record with the object's fields, an absent optional property is \<open>None\<close>.
  A number read by \<open>varint\<close> is a \<open>nat\<close> (at most \<open>2^53 - 1\<close>), one read by \<open>fixed64\<close> is the
  64-bit pattern of the double, a string is its UTF-8 bytes. \<open>JSON.parse\<close> is an argument.
\<close>

type_synonym bytes = "8 word list"
type_synonym f64 = "64 word"

datatype pb_error = TooLarge | BadField | Truncated | NumberTooLarge | BadVarint | BadFloat
  | WireMismatch | BadWire | BadUtf8 | BadCapabilities | BadVersion | MissingMetrics | NoProgress

type_synonym 'a reading = "pb_error + 'a \<times> bytes"

section \<open>The reader\<close>

definition max_safe_integer :: nat where "max_safe_integer = 2 ^ 53 - 1"

text \<open>\<open>left\<close> iterations remain, \<open>value |= (byte & 0x7f) << (index * 7)\<close> on disjoint bits is a sum.\<close>

fun raw_varint_loop :: "nat \<Rightarrow> nat \<Rightarrow> nat \<Rightarrow> bytes \<Rightarrow> nat reading" where
  "raw_varint_loop 0 index value bs = Inl BadVarint"
| "raw_varint_loop (Suc left) index value [] = Inl Truncated"
| "raw_varint_loop (Suc left) index value (b # bs) =
     (let value' = value + (unat b mod 128) * 2 ^ (index * 7) in
      if unat b < 128
      then (if value' > max_safe_integer then Inl NumberTooLarge else Inr (value', bs))
      else raw_varint_loop left (index + 1) value' bs)"

definition raw_varint :: "bytes \<Rightarrow> nat reading" where
  "raw_varint bs = raw_varint_loop 10 0 0 bs"

definition pb_key :: "bytes \<Rightarrow> (nat \<times> nat) reading" where
  "pb_key bs = (case raw_varint bs of
     Inl e \<Rightarrow> Inl e
   | Inr (value, rest) \<Rightarrow>
       if value div 8 = 0 then Inl BadField else Inr ((value div 8, value mod 8), rest))"

definition read_varint :: "nat \<Rightarrow> bytes \<Rightarrow> nat reading" where
  "read_varint wire bs = (if wire \<noteq> 0 then Inl WireMismatch else raw_varint bs)"

text \<open>A double is finite when its exponent bits are not all ones.\<close>

definition f64_finite :: "f64 \<Rightarrow> bool" where
  "f64_finite x = (drop_bit 52 x AND 0x7ff \<noteq> 0x7ff)"

fun le_val :: "bytes \<Rightarrow> nat" where
  "le_val [] = 0"
| "le_val (b # bs) = unat b + 256 * le_val bs"

definition read_fixed64 :: "nat \<Rightarrow> bytes \<Rightarrow> f64 reading" where
  "read_fixed64 wire bs =
     (if wire \<noteq> 1 then Inl WireMismatch
      else if length bs < 8 then Inl Truncated
      else let value = of_nat (le_val (take 8 bs)) in
        if \<not> f64_finite value then Inl BadFloat else Inr (value, drop 8 bs))"

definition read_bytes :: "nat \<Rightarrow> bytes \<Rightarrow> bytes reading" where
  "read_bytes wire bs =
     (if wire \<noteq> 2 then Inl WireMismatch
      else case raw_varint bs of
        Inl e \<Rightarrow> Inl e
      | Inr (n, rest) \<Rightarrow> if length rest < n then Inl Truncated else Inr (take n rest, drop n rest))"

text \<open>\<open>new TextDecoder('utf-8', { fatal: true })\<close>: well-formed sequences only (no overlong forms, no
  surrogates, nothing above U+10FFFF); a leading byte order mark is dropped.\<close>

fun utf8_valid :: "bytes \<Rightarrow> bool" where
  "utf8_valid [] = True"
| "utf8_valid (a # r) =
    (let cont = (\<lambda>lo hi (b :: 8 word). lo \<le> b \<and> b \<le> hi) in
     if a < 0x80 then utf8_valid r
     else if 0xc2 \<le> a \<and> a \<le> 0xdf then
       (case r of b # r' \<Rightarrow> cont 0x80 0xbf b \<and> utf8_valid r' | _ \<Rightarrow> False)
     else if 0xe0 \<le> a \<and> a \<le> 0xef then
       (case r of b # c # r' \<Rightarrow>
          cont (if a = 0xe0 then 0xa0 else 0x80) (if a = 0xed then 0x9f else 0xbf) b \<and> cont 0x80 0xbf c \<and> utf8_valid r'
        | _ \<Rightarrow> False)
     else if 0xf0 \<le> a \<and> a \<le> 0xf4 then
       (case r of b # c # d # r' \<Rightarrow>
          cont (if a = 0xf0 then 0x90 else 0x80) (if a = 0xf4 then 0x8f else 0xbf) b \<and> cont 0x80 0xbf c \<and>
          cont 0x80 0xbf d \<and> utf8_valid r'
        | _ \<Rightarrow> False)
     else False)"

definition utf8_decode :: "bytes \<Rightarrow> bytes option" where
  "utf8_decode bs = (if utf8_valid bs then Some (if take 3 bs = [0xef, 0xbb, 0xbf] then drop 3 bs else bs) else None)"

definition read_string :: "nat \<Rightarrow> bytes \<Rightarrow> bytes reading" where
  "read_string wire bs = (case read_bytes wire bs of
     Inl e \<Rightarrow> Inl e
   | Inr (x, rest) \<Rightarrow> (case utf8_decode x of None \<Rightarrow> Inl BadUtf8 | Some s \<Rightarrow> Inr (s, rest)))"

definition read_message :: "(bytes \<Rightarrow> pb_error + 'a) \<Rightarrow> nat \<Rightarrow> bytes \<Rightarrow> 'a reading" where
  "read_message decode wire bs = (case read_bytes wire bs of
     Inl e \<Rightarrow> Inl e
   | Inr (x, rest) \<Rightarrow> (case decode x of Inl e \<Rightarrow> Inl e | Inr v \<Rightarrow> Inr (v, rest)))"

definition skip_field :: "nat \<Rightarrow> bytes \<Rightarrow> unit reading" where
  "skip_field wire bs =
     (if wire = 0 then (case raw_varint bs of Inl e \<Rightarrow> Inl e | Inr (_, rest) \<Rightarrow> Inr ((), rest))
      else if wire = 1 then (if length bs < 8 then Inl Truncated else Inr ((), drop 8 bs))
      else if wire = 2 then
        (case raw_varint bs of Inl e \<Rightarrow> Inl e
         | Inr (n, rest) \<Rightarrow> if length rest < n then Inl Truncated else Inr ((), drop n rest))
      else if wire = 5 then (if length bs < 4 then Inl Truncated else Inr ((), drop 4 bs))
      else Inl BadWire)"

text \<open>\<open>f\<close> applied to what was read\<close>

definition reading :: "'a reading \<Rightarrow> ('a \<Rightarrow> 'b) \<Rightarrow> 'b reading" where
  "reading r f = (case r of Inl e \<Rightarrow> Inl e | Inr (x, rest) \<Rightarrow> Inr (f x, rest))"

text \<open>
  \<^verbatim>\<open>while (!reader.done()) { const [field, wire] = reader.key(); ... }\<close>, with the body as \<open>step\<close>. A
  body that consumed nothing would be reported as \<open>NoProgress\<close>; the key alone is a byte, so it never is.
\<close>

function pb_loop :: "(nat \<Rightarrow> nat \<Rightarrow> 'v \<Rightarrow> bytes \<Rightarrow> 'v reading) \<Rightarrow> 'v \<Rightarrow> bytes \<Rightarrow> pb_error + 'v" where
  "pb_loop step v bs =
     (if bs = [] then Inr v
      else case pb_key bs of
        Inl e \<Rightarrow> Inl e
      | Inr ((field, wire), rest) \<Rightarrow>
          (case step field wire v rest of
             Inl e \<Rightarrow> Inl e
           | Inr (v', rest') \<Rightarrow> if length rest' < length bs then pb_loop step v' rest' else Inl NoProgress))"
  by pat_completeness auto
termination by (relation "measure (\<lambda>(step, v, bs). length bs)") auto

declare pb_loop.simps [simp del]

section \<open>The encoder\<close>

fun varint :: "nat \<Rightarrow> bytes" where
  "varint n = (if 128 \<le> n then of_nat (n mod 128 + 128) # varint (n div 128) else [of_nat n])"

declare varint.simps [simp del]

fun le_bytes :: "nat \<Rightarrow> nat \<Rightarrow> bytes" where
  "le_bytes 0 n = []"
| "le_bytes (Suc k) n = of_nat (n mod 256) # le_bytes k (n div 256)"

definition enc_key :: "nat \<Rightarrow> nat \<Rightarrow> bytes" where
  "enc_key field wire = varint (field * 8 + wire)"

definition field_varint :: "nat \<Rightarrow> nat \<Rightarrow> bytes" where
  "field_varint field value = enc_key field 0 @ varint value"

definition field_f64 :: "nat \<Rightarrow> f64 \<Rightarrow> bytes" where
  "field_f64 field value = enc_key field 1 @ le_bytes 8 (unat value)"

definition field_bytes :: "nat \<Rightarrow> bytes \<Rightarrow> bytes" where
  "field_bytes field value = enc_key field 2 @ varint (length value) @ value"

definition opt_field :: "('a \<Rightarrow> bytes) \<Rightarrow> 'a option \<Rightarrow> bytes" where
  "opt_field enc x = (case x of None \<Rightarrow> [] | Some y \<Rightarrow> enc y)"

section \<open>Reading what was written\<close>

lemma byte_unat: "n < 256 \<Longrightarrow> unat (of_nat n :: 8 word) = n"
  by (simp add: unat_of_nat take_bit_eq_mod)

lemma raw_varint_loop_varint:
  "n < 128 ^ Suc left \<Longrightarrow>
   raw_varint_loop (Suc left) index acc (varint n @ rest) =
     (if acc + n * 2 ^ (index * 7) > max_safe_integer then Inl NumberTooLarge
      else Inr (acc + n * 2 ^ (index * 7), rest))"
proof (induction left arbitrary: n index acc)
  case 0
  then show ?case by (subst varint.simps) (simp add: Let_def byte_unat)
next
  case (Suc left)
  show ?case
  proof (cases "128 \<le> n")
    case True
    have b: "unat (of_nat (n mod 128 + 128) :: 8 word) = n mod 128 + 128"
      by (rule byte_unat) (use mod_less_divisor [of 128 n] in linarith)
    have q: "n div 128 < 128 ^ Suc left" using Suc.prems by (simp add: less_mult_imp_div_less)
    have split: "n mod 128 * p + n div 128 * (128 * p) = n * p" for p
    proof -
      have "n mod 128 * p + n div 128 * (128 * p) = (n mod 128 + n div 128 * 128) * p"
        by (simp only: add_mult_distrib mult.assoc)
      also have "n mod 128 + n div 128 * 128 = n" by (rule mod_div_mult_eq)
      finally show ?thesis .
    qed
    have sum: "acc + n mod 128 * 2 ^ (index * 7) + n div 128 * 2 ^ ((index + 1) * 7) = acc + n * 2 ^ (index * 7)"
      using split [of "2 ^ (index * 7)"] by (simp add: power_add)
    have v: "varint n = of_nat (n mod 128 + 128) # varint (n div 128)" using True by (subst varint.simps) simp
    show ?thesis
      unfolding v using Suc.IH [OF q, of "index + 1" "acc + n mod 128 * 2 ^ (index * 7)"]
      by (simp only: append_Cons raw_varint_loop.simps b Let_def sum) simp
  next
    case False
    then have "unat (of_nat n :: 8 word) = n" by (simp add: byte_unat)
    with False show ?thesis by (subst varint.simps) (simp add: Let_def)
  qed
qed

lemma raw_varint_varint [simp]: "n \<le> max_safe_integer \<Longrightarrow> raw_varint (varint n @ rest) = Inr (n, rest)"
proof -
  assume n: "n \<le> max_safe_integer"
  then have "n < 128 ^ Suc 9" by (simp add: max_safe_integer_def)
  from raw_varint_loop_varint [OF this, of 0 0 rest] n show ?thesis by (simp add: raw_varint_def)
qed

lemma max_safe_flags [simp]: "1 \<le> max_safe_integer" "Suc 0 \<le> max_safe_integer"
  by (simp_all add: max_safe_integer_def)

lemma f64_finite_0 [simp]: "f64_finite 0"
  by (simp add: f64_finite_def)

lemma length_varint: "0 < length (varint n)"
  by (subst varint.simps) simp

lemma length_le_bytes [simp]: "length (le_bytes k n) = k"
  by (induction k n rule: le_bytes.induct) simp_all

lemma le_val_le_bytes: "n < 256 ^ k \<Longrightarrow> le_val (le_bytes k n) = n"
  by (induction k n rule: le_bytes.induct) (simp_all add: byte_unat less_mult_imp_div_less)

lemma le_val_f64 [simp]: "of_nat (le_val (le_bytes 8 (unat x))) = (x :: f64)"
proof -
  have "unat x < 2 ^ LENGTH(64)" by (rule unsigned_less)
  then have "unat x < 256 ^ 8" by simp
  then show ?thesis by (simp only: le_val_le_bytes) simp
qed

lemma read_fixed64_written [simp]:
  "f64_finite x \<Longrightarrow> read_fixed64 1 (le_bytes 8 (unat x) @ rest) = Inr (x, rest)"
  by (simp add: read_fixed64_def)

lemmas read_fixed64_written' [simp] = read_fixed64_written [unfolded One_nat_def]

lemma read_varint_written [simp]: "n \<le> max_safe_integer \<Longrightarrow> read_varint 0 (varint n @ rest) = Inr (n, rest)"
  by (simp add: read_varint_def)

lemma read_bytes_written [simp]:
  "length x \<le> max_safe_integer \<Longrightarrow> read_bytes 2 (varint (length x) @ x @ rest) = Inr (x, rest)"
  by (simp add: read_bytes_def)

text \<open>A string that the decoder returns unchanged.\<close>

definition plain_text :: "bytes \<Rightarrow> bool" where
  "plain_text s = (utf8_decode s = Some s \<and> length s \<le> max_safe_integer)"

lemma read_string_written [simp]:
  "plain_text x \<Longrightarrow> read_string 2 (varint (length x) @ x @ rest) = Inr (x, rest)"
  by (simp add: read_string_def plain_text_def)

lemma read_message_written:
  "length x \<le> max_safe_integer \<Longrightarrow> read_message decode 2 (varint (length x) @ x @ rest) =
     (case decode x of Inl e \<Rightarrow> Inl e | Inr v \<Rightarrow> Inr (v, rest))"
  by (simp add: read_message_def)

lemma reading_simps [simp]: "reading (Inl e) f = Inl e" "reading (Inr (x, rest)) f = Inr (f x, rest)"
  by (simp_all add: reading_def)

lemma pb_key_written [simp]:
  assumes "0 < field" "field \<le> 1000" "wire < 8"
  shows "pb_key (enc_key field wire @ rest) = Inr ((field, wire), rest)"
proof -
  have "field * 8 + wire \<le> max_safe_integer" using assms by (simp add: max_safe_integer_def)
  with assms show ?thesis by (simp add: pb_key_def enc_key_def)
qed

lemma raw_varint_errors: "raw_varint bs \<noteq> Inl NoProgress"
proof -
  have "raw_varint_loop left index acc bs \<noteq> Inl NoProgress" for left index acc
    by (induction left index acc bs rule: raw_varint_loop.induct) (simp_all add: Let_def)
  then show ?thesis by (simp add: raw_varint_def)
qed

lemma pb_key_errors: "pb_key bs \<noteq> Inl NoProgress"
  using raw_varint_errors [of bs] by (auto simp: pb_key_def split: sum.splits)

text \<open>A nested message that can be written: well-formed, and its length is a safe integer.\<close>

definition sendable :: "('a \<Rightarrow> bytes) \<Rightarrow> ('a \<Rightarrow> bool) \<Rightarrow> 'a \<Rightarrow> bool" where
  "sendable encode ok x = (ok x \<and> length (encode x) \<le> max_safe_integer)"

subsection \<open>No reader lengthens its input\<close>

definition shrinks :: "'a reading \<Rightarrow> bytes \<Rightarrow> bool" where
  "shrinks r bs = (case r of Inl _ \<Rightarrow> True | Inr (_, rest) \<Rightarrow> length rest \<le> length bs)"

lemma raw_varint_loop_shorter:
  "raw_varint_loop left index acc bs = Inr (n, rest) \<Longrightarrow> length rest < length bs"
  by (induction left index acc bs rule: raw_varint_loop.induct)
    (auto simp: Let_def split: if_splits)

lemma raw_varint_shorter: "raw_varint bs = Inr (n, rest) \<Longrightarrow> length rest < length bs"
  by (auto simp: raw_varint_def dest: raw_varint_loop_shorter)

lemma pb_key_shorter: "pb_key bs = Inr (k, rest) \<Longrightarrow> length rest < length bs"
  by (auto simp: pb_key_def dest: raw_varint_shorter split: sum.splits if_splits)

lemma read_shrinks [simp]:
  "shrinks (read_varint wire bs) bs" "shrinks (read_fixed64 wire bs) bs" "shrinks (read_bytes wire bs) bs"
  "shrinks (skip_field wire bs) bs"
  by (auto simp: shrinks_def read_varint_def read_fixed64_def read_bytes_def skip_field_def Let_def
      dest: raw_varint_shorter split: sum.splits)

lemma read_nested_shrinks [simp]: "shrinks (read_string wire bs) bs" "shrinks (read_message decode wire bs) bs"
  using read_shrinks(3) [of wire bs]
  by (auto simp: shrinks_def read_string_def read_message_def split: sum.splits option.splits)

lemma read_errors [simp]:
  "read_varint wire bs \<noteq> Inl NoProgress" "read_fixed64 wire bs \<noteq> Inl NoProgress"
  "read_bytes wire bs \<noteq> Inl NoProgress" "skip_field wire bs \<noteq> Inl NoProgress"
  using raw_varint_errors
  by (auto simp: read_varint_def read_fixed64_def read_bytes_def skip_field_def Let_def split: sum.splits)

lemma read_nested_errors [simp]:
  "read_string wire bs \<noteq> Inl NoProgress"
  "(\<And>x. decode x \<noteq> Inl NoProgress) \<Longrightarrow> read_message decode wire bs \<noteq> Inl NoProgress"
  using read_errors(3) [of wire bs]
  by (auto simp: read_string_def read_message_def split: sum.splits option.splits)

lemma read_safe:
  "read_varint wire bs = Inr (n, rest) \<Longrightarrow> n \<le> max_safe_integer"
  "read_fixed64 wire bs = Inr (x, rest) \<Longrightarrow> f64_finite x"
  "read_message decode wire bs = Inr (y, rest) \<Longrightarrow> \<exists>z. decode z = Inr y"
proof -
  have loop: "raw_varint_loop left index acc bs = Inr (n, rest) \<Longrightarrow> n \<le> max_safe_integer" for left index acc
    by (induction left index acc bs rule: raw_varint_loop.induct) (auto simp: Let_def split: if_splits)
  then show "read_varint wire bs = Inr (n, rest) \<Longrightarrow> n \<le> max_safe_integer"
    by (auto simp: read_varint_def raw_varint_def split: if_splits)
  show "read_fixed64 wire bs = Inr (x, rest) \<Longrightarrow> f64_finite x"
    by (auto simp: read_fixed64_def Let_def split: if_splits)
  show "read_message decode wire bs = Inr (y, rest) \<Longrightarrow> \<exists>z. decode z = Inr y"
    by (auto simp: read_message_def split: sum.splits)
qed

lemma reading_Inr [simp]: "reading r f = Inr (y, rest) \<longleftrightarrow> (\<exists>x. r = Inr (x, rest) \<and> y = f x)"
  by (auto simp: reading_def split: sum.splits)

lemma reading_errors [simp]: "reading r f = Inl e \<longleftrightarrow> r = Inl e"
  by (auto simp: reading_def split: sum.splits)

subsection \<open>A successful read does not look further\<close>

definition prefix_stable :: "(bytes \<Rightarrow> 'a reading) \<Rightarrow> bool" where
  "prefix_stable r = (\<forall>bs more. case r bs of Inl _ \<Rightarrow> True | Inr (x, rest) \<Rightarrow> r (bs @ more) = Inr (x, rest @ more))"

lemma raw_varint_loop_append:
  "raw_varint_loop left index acc bs = Inr (n, rest) \<Longrightarrow>
   raw_varint_loop left index acc (bs @ more) = Inr (n, rest @ more)"
  by (induction left index acc bs rule: raw_varint_loop.induct) (auto simp: Let_def split: if_splits)

lemma raw_varint_append: "raw_varint bs = Inr (n, rest) \<Longrightarrow> raw_varint (bs @ more) = Inr (n, rest @ more)"
  by (simp add: raw_varint_def raw_varint_loop_append)

lemma pb_key_append: "pb_key bs = Inr (k, rest) \<Longrightarrow> pb_key (bs @ more) = Inr (k, rest @ more)"
  by (auto simp: pb_key_def raw_varint_append split: sum.splits if_splits)

lemma read_stable [simp]:
  "prefix_stable (read_varint wire)" "prefix_stable (read_fixed64 wire)" "prefix_stable (read_bytes wire)"
  "prefix_stable (skip_field wire)"
  by (auto simp: prefix_stable_def read_varint_def read_fixed64_def read_bytes_def skip_field_def Let_def
      raw_varint_append split: sum.splits)

lemma read_nested_stable [simp]:
  "prefix_stable (read_string wire)" "prefix_stable (read_message decode wire)"
  using read_stable(3) [of wire]
  by (auto simp: prefix_stable_def read_string_def read_message_def split: sum.splits option.splits)

lemma reading_stable [simp]: "prefix_stable r \<Longrightarrow> prefix_stable (\<lambda>bs. reading (r bs) f)"
  by (auto simp: prefix_stable_def reading_def split: sum.splits)

lemma prefix_stable_if [simp]:
  "prefix_stable (\<lambda>bs. if P then r bs else s bs) = (if P then prefix_stable r else prefix_stable s)"
  by simp

lemma reading_shrinks [simp]: "shrinks (reading r f) bs = shrinks r bs"
  by (auto simp: shrinks_def reading_def split: sum.splits)

section \<open>Messages\<close>

text \<open>
  What every message of the schema shares. A message is given by the body of its decoding loop;
  it never hands back more than it was given. Then the loop always progresses, and it reads a
  written field by running the body on it.
\<close>

locale pb_message =
  fixes step :: "nat \<Rightarrow> nat \<Rightarrow> 'v \<Rightarrow> bytes \<Rightarrow> 'v reading"
  assumes step_shrinks: "shrinks (step field wire v bs) bs"
begin

lemma step_rest: "step field wire v bs = Inr (v', rest) \<Longrightarrow> length rest \<le> length bs"
  using step_shrinks [of field wire v bs] by (simp add: shrinks_def)

lemma loop_Nil: "pb_loop step v [] = Inr v"
  by (simp add: pb_loop.simps)

text \<open>The guard of the loop is never taken.\<close>

lemma loop_step:
  "bs \<noteq> [] \<Longrightarrow> pb_loop step v bs =
     (case pb_key bs of
        Inl e \<Rightarrow> Inl e
      | Inr ((field, wire), rest) \<Rightarrow>
          (case step field wire v rest of Inl e \<Rightarrow> Inl e | Inr (v', rest') \<Rightarrow> pb_loop step v' rest'))"
  by (subst pb_loop.simps)
    (auto split: sum.splits dest!: step_rest pb_key_shorter)

lemma loop_written:
  assumes "0 < field" "field \<le> 1000" "wire < 8"
  shows "pb_loop step v (enc_key field wire @ bs) =
    (case step field wire v bs of Inl e \<Rightarrow> Inl e | Inr (v', rest') \<Rightarrow> pb_loop step v' rest')"
proof -
  have "enc_key field wire @ bs \<noteq> []" using length_varint by (simp add: enc_key_def)
  then show ?thesis by (subst loop_step) (simp_all add: assms)
qed

lemma loop_varint:
  "0 < field \<Longrightarrow> field \<le> 1000 \<Longrightarrow> pb_loop step v (field_varint field n @ bs) =
    (case step field 0 v (varint n @ bs) of Inl e \<Rightarrow> Inl e | Inr (v', rest') \<Rightarrow> pb_loop step v' rest')"
  by (simp add: field_varint_def loop_written)

lemma loop_f64:
  "0 < field \<Longrightarrow> field \<le> 1000 \<Longrightarrow> pb_loop step v (field_f64 field x @ bs) =
    (case step field 1 v (le_bytes 8 (unat x) @ bs) of Inl e \<Rightarrow> Inl e | Inr (v', rest') \<Rightarrow> pb_loop step v' rest')"
  by (simp add: field_f64_def loop_written)

lemma loop_bytes:
  "0 < field \<Longrightarrow> field \<le> 1000 \<Longrightarrow> pb_loop step v (field_bytes field x @ bs) =
    (case step field 2 v (varint (length x) @ x @ bs) of Inl e \<Rightarrow> Inl e | Inr (v', rest') \<Rightarrow> pb_loop step v' rest')"
  by (simp add: field_bytes_def loop_written)

text \<open>The last field of a message ends the input.\<close>

lemmas loop_fields = loop_varint loop_f64 loop_bytes
lemmas loop_last = loop_varint [of _ _ _ "[]", simplified] loop_f64 [of _ _ _ "[]", simplified]
  loop_bytes [of _ _ _ "[]", simplified]

lemma loop_progress:
  "(\<And>field wire v bs. step field wire v bs \<noteq> Inl NoProgress) \<Longrightarrow> pb_loop step v bs \<noteq> Inl NoProgress"
proof (induction "length bs" arbitrary: v bs rule: less_induct)
  case less
  show ?case
  proof (cases "bs = []")
    case False
    then show ?thesis
      using less.prems pb_key_errors [of bs]
      by (auto simp: loop_step split: sum.splits dest!: pb_key_shorter step_rest)
        (metis less.hyps le_less_trans less.prems)
  qed (simp add: loop_Nil)
qed

lemma loop_invariant:
  assumes "\<And>field wire v bs v' rest. I v \<Longrightarrow> step field wire v bs = Inr (v', rest) \<Longrightarrow> I v'"
  shows "I v \<Longrightarrow> pb_loop step v bs = Inr w \<Longrightarrow> I w"
proof (induction "length bs" arbitrary: v bs rule: less_induct)
  case less
  show ?case
  proof (cases "bs = []")
    case True
    with less.prems show ?thesis by (simp add: loop_Nil)
  next
    case False
    with less.prems obtain field wire rest v' rest' where k: "pb_key bs = Inr ((field, wire), rest)"
      "step field wire v rest = Inr (v', rest')" "pb_loop step v' rest' = Inr w"
      by (auto simp: loop_step split: sum.splits)
    then have "length rest' < length bs" using pb_key_shorter step_rest by (metis le_less_trans)
    then show ?thesis using k less assms by blast
  qed
qed

end

text \<open>When the body only reads forward, the fields of two parts are read one part after the other.\<close>

locale pb_stream = pb_message step for step :: "nat \<Rightarrow> nat \<Rightarrow> 'v \<Rightarrow> bytes \<Rightarrow> 'v reading" +
  assumes step_stable: "prefix_stable (step field wire v)"
begin

lemma step_append:
  "step field wire v bs = Inr (v', rest) \<Longrightarrow> step field wire v (bs @ more) = Inr (v', rest @ more)"
proof -
  assume "step field wire v bs = Inr (v', rest)"
  moreover have "case step field wire v bs of Inl _ \<Rightarrow> True | Inr (x, rest) \<Rightarrow> step field wire v (bs @ more) = Inr (x, rest @ more)"
    using step_stable [of field wire v] unfolding prefix_stable_def by blast
  ultimately show ?thesis by simp
qed

lemma loop_append: "pb_loop step v bs = Inr w \<Longrightarrow> pb_loop step v (bs @ more) = pb_loop step w more"
proof (induction "length bs" arbitrary: v bs rule: less_induct)
  case less
  show ?case
  proof (cases "bs = []")
    case True
    with less.prems show ?thesis by (simp add: loop_Nil)
  next
    case False
    with less.prems obtain field wire rest v' rest' where k: "pb_key bs = Inr ((field, wire), rest)"
      "step field wire v rest = Inr (v', rest')" "pb_loop step v' rest' = Inr w"
      by (auto simp: loop_step split: sum.splits)
    then have "length rest' < length bs" using pb_key_shorter step_rest by (metis le_less_trans)
    then have "pb_loop step v' (rest' @ more) = pb_loop step w more" using less.hyps k(3) by blast
    then show ?thesis
      using False k by (simp add: loop_step pb_key_append step_append)
  qed
qed

text \<open>A field the body ignores can stand anywhere between two fields.\<close>

lemma loop_ignored:
  assumes "pb_loop step v a = Inr w"
    and "pb_loop step w (chunk @ b) = pb_loop step w b"
  shows "pb_loop step v (a @ chunk @ b) = pb_loop step v (a @ b)"
  using loop_append [OF assms(1)] assms(2) by simp

end

section \<open>The messages of the schema\<close>

subsection \<open>Swap\<close>

record pb_swap =
  sw_total_mb :: nat
  sw_used_mb :: nat
  sw_percent :: f64

definition empty_swap :: pb_swap where
  "empty_swap = \<lparr> sw_total_mb = 0,
     sw_used_mb = 0,
     sw_percent = 0 \<rparr>"

definition step_swap :: "nat \<Rightarrow> nat \<Rightarrow> pb_swap \<Rightarrow> bytes \<Rightarrow> pb_swap reading" where
  "step_swap field wire v bs =
     (if field = 1 then reading (read_varint wire bs) (\<lambda>x. v\<lparr>sw_total_mb := x\<rparr>)
      else if field = 2 then reading (read_varint wire bs) (\<lambda>x. v\<lparr>sw_used_mb := x\<rparr>)
      else if field = 3 then reading (read_fixed64 wire bs) (\<lambda>x. v\<lparr>sw_percent := x\<rparr>)
      else reading (skip_field wire bs) (\<lambda>_. v))"

definition decode_swap :: "bytes \<Rightarrow> pb_error + pb_swap" where
  "decode_swap = pb_loop step_swap empty_swap"

definition encode_swap :: "pb_swap \<Rightarrow> bytes" where
  "encode_swap x = field_varint 1 (sw_total_mb x) @
     field_varint 2 (sw_used_mb x) @
     field_f64 3 (sw_percent x)"

definition wf_swap :: "pb_swap \<Rightarrow> bool" where
  "wf_swap x = (sw_total_mb x \<le> max_safe_integer \<and>
     sw_used_mb x \<le> max_safe_integer \<and>
     f64_finite (sw_percent x))"

interpretation swap: pb_stream step_swap
  by unfold_locales (simp_all add: step_swap_def [abs_def])

lemma decode_encode_swap: "wf_swap x \<Longrightarrow> decode_swap (encode_swap x) = Inr x"
proof -
  assume wf: "wf_swap x"
  have "pb_loop step_swap empty_swap (encode_swap x @ bs) = pb_loop step_swap x bs" for bs
    using wf by (cases x) (simp add: encode_swap_def wf_swap_def empty_swap_def swap.loop_fields step_swap_def sendable_def read_message_written  del: One_nat_def)
  from this [of "[]"] show ?thesis by (simp add: decode_swap_def swap.loop_Nil)
qed

definition safe_swap :: "pb_swap \<Rightarrow> bool" where
  "safe_swap x = (sw_total_mb x \<le> max_safe_integer \<and>
     sw_used_mb x \<le> max_safe_integer \<and>
     f64_finite (sw_percent x))"

lemma decode_swap_errors [simp]: "decode_swap bs \<noteq> Inl NoProgress"
  unfolding decode_swap_def by (rule swap.loop_progress) (simp add: step_swap_def)

lemma decode_swap_safe: "decode_swap bs = Inr x \<Longrightarrow> safe_swap x"
  unfolding decode_swap_def
proof (rule swap.loop_invariant [where I = safe_swap])
  show "safe_swap v \<Longrightarrow> step_swap field wire v bs = Inr (v', rest) \<Longrightarrow> safe_swap v'" for field wire v bs v' rest
    by (auto simp: step_swap_def safe_swap_def split: if_splits dest!: read_safe )
  show "safe_swap empty_swap" by (simp add: safe_swap_def empty_swap_def)
qed

subsection \<open>Memory\<close>

record pb_memory =
  me_total_mb :: nat
  me_used_mb :: nat
  me_percent :: f64
  me_swap :: "pb_swap option"

definition empty_memory :: pb_memory where
  "empty_memory = \<lparr> me_total_mb = 0,
     me_used_mb = 0,
     me_percent = 0,
     me_swap = None \<rparr>"

definition step_memory :: "nat \<Rightarrow> nat \<Rightarrow> pb_memory \<Rightarrow> bytes \<Rightarrow> pb_memory reading" where
  "step_memory field wire v bs =
     (if field = 1 then reading (read_varint wire bs) (\<lambda>x. v\<lparr>me_total_mb := x\<rparr>)
      else if field = 2 then reading (read_varint wire bs) (\<lambda>x. v\<lparr>me_used_mb := x\<rparr>)
      else if field = 3 then reading (read_fixed64 wire bs) (\<lambda>x. v\<lparr>me_percent := x\<rparr>)
      else if field = 4 then reading (read_message decode_swap wire bs) (\<lambda>x. v\<lparr>me_swap := Some x\<rparr>)
      else reading (skip_field wire bs) (\<lambda>_. v))"

definition decode_memory :: "bytes \<Rightarrow> pb_error + pb_memory" where
  "decode_memory = pb_loop step_memory empty_memory"

definition encode_memory :: "pb_memory \<Rightarrow> bytes" where
  "encode_memory x = field_varint 1 (me_total_mb x) @
     field_varint 2 (me_used_mb x) @
     field_f64 3 (me_percent x) @
     opt_field (\<lambda>y. field_bytes 4 (encode_swap y)) (me_swap x)"

definition wf_memory :: "pb_memory \<Rightarrow> bool" where
  "wf_memory x = (me_total_mb x \<le> max_safe_integer \<and>
     me_used_mb x \<le> max_safe_integer \<and>
     f64_finite (me_percent x) \<and>
     pred_option (sendable encode_swap wf_swap) (me_swap x))"

interpretation memory: pb_stream step_memory
  by unfold_locales (simp_all add: step_memory_def [abs_def])

lemma me_swap_option:
  "me_swap v = None \<Longrightarrow> pred_option (sendable encode_swap wf_swap) y \<Longrightarrow> pb_loop step_memory v (opt_field (\<lambda>y. field_bytes 4 (encode_swap y)) y @ bs) =
     pb_loop step_memory (v\<lparr>me_swap := y\<rparr>) bs"
  by (cases y; cases v; simp add: opt_field_def memory.loop_fields step_memory_def read_message_written sendable_def decode_encode_swap)

lemmas memory_options = me_swap_option

lemma decode_encode_memory: "wf_memory x \<Longrightarrow> decode_memory (encode_memory x) = Inr x"
proof -
  assume wf: "wf_memory x"
  have "pb_loop step_memory empty_memory (encode_memory x @ bs) = pb_loop step_memory x bs" for bs
    using wf by (cases x) (simp add: encode_memory_def wf_memory_def empty_memory_def memory.loop_fields step_memory_def memory_options sendable_def read_message_written decode_encode_swap del: One_nat_def)
  from this [of "[]"] show ?thesis by (simp add: decode_memory_def memory.loop_Nil)
qed

definition safe_memory :: "pb_memory \<Rightarrow> bool" where
  "safe_memory x = (me_total_mb x \<le> max_safe_integer \<and>
     me_used_mb x \<le> max_safe_integer \<and>
     f64_finite (me_percent x) \<and>
     pred_option safe_swap (me_swap x))"

lemma decode_memory_errors [simp]: "decode_memory bs \<noteq> Inl NoProgress"
  unfolding decode_memory_def by (rule memory.loop_progress) (simp add: step_memory_def)

lemma decode_memory_safe: "decode_memory bs = Inr x \<Longrightarrow> safe_memory x"
  unfolding decode_memory_def
proof (rule memory.loop_invariant [where I = safe_memory])
  show "safe_memory v \<Longrightarrow> step_memory field wire v bs = Inr (v', rest) \<Longrightarrow> safe_memory v'" for field wire v bs v' rest
    by (auto simp: step_memory_def safe_memory_def split: if_splits dest!: read_safe intro: decode_swap_safe)
  show "safe_memory empty_memory" by (simp add: safe_memory_def empty_memory_def)
qed

subsection \<open>Load\<close>

record pb_load =
  lo_load1 :: f64
  lo_load5 :: f64
  lo_load15 :: f64

definition empty_load :: pb_load where
  "empty_load = \<lparr> lo_load1 = 0,
     lo_load5 = 0,
     lo_load15 = 0 \<rparr>"

definition step_load :: "nat \<Rightarrow> nat \<Rightarrow> pb_load \<Rightarrow> bytes \<Rightarrow> pb_load reading" where
  "step_load field wire v bs =
     (if field = 1 then reading (read_fixed64 wire bs) (\<lambda>x. v\<lparr>lo_load1 := x\<rparr>)
      else if field = 2 then reading (read_fixed64 wire bs) (\<lambda>x. v\<lparr>lo_load5 := x\<rparr>)
      else if field = 3 then reading (read_fixed64 wire bs) (\<lambda>x. v\<lparr>lo_load15 := x\<rparr>)
      else reading (skip_field wire bs) (\<lambda>_. v))"

definition decode_load :: "bytes \<Rightarrow> pb_error + pb_load" where
  "decode_load = pb_loop step_load empty_load"

definition encode_load :: "pb_load \<Rightarrow> bytes" where
  "encode_load x = field_f64 1 (lo_load1 x) @
     field_f64 2 (lo_load5 x) @
     field_f64 3 (lo_load15 x)"

definition wf_load :: "pb_load \<Rightarrow> bool" where
  "wf_load x = (f64_finite (lo_load1 x) \<and>
     f64_finite (lo_load5 x) \<and>
     f64_finite (lo_load15 x))"

interpretation load: pb_stream step_load
  by unfold_locales (simp_all add: step_load_def [abs_def])

lemma decode_encode_load: "wf_load x \<Longrightarrow> decode_load (encode_load x) = Inr x"
proof -
  assume wf: "wf_load x"
  have "pb_loop step_load empty_load (encode_load x @ bs) = pb_loop step_load x bs" for bs
    using wf by (cases x) (simp add: encode_load_def wf_load_def empty_load_def load.loop_fields step_load_def sendable_def read_message_written  del: One_nat_def)
  from this [of "[]"] show ?thesis by (simp add: decode_load_def load.loop_Nil)
qed

definition safe_load :: "pb_load \<Rightarrow> bool" where
  "safe_load x = (f64_finite (lo_load1 x) \<and>
     f64_finite (lo_load5 x) \<and>
     f64_finite (lo_load15 x))"

lemma decode_load_errors [simp]: "decode_load bs \<noteq> Inl NoProgress"
  unfolding decode_load_def by (rule load.loop_progress) (simp add: step_load_def)

lemma decode_load_safe: "decode_load bs = Inr x \<Longrightarrow> safe_load x"
  unfolding decode_load_def
proof (rule load.loop_invariant [where I = safe_load])
  show "safe_load v \<Longrightarrow> step_load field wire v bs = Inr (v', rest) \<Longrightarrow> safe_load v'" for field wire v bs v' rest
    by (auto simp: step_load_def safe_load_def split: if_splits dest!: read_safe )
  show "safe_load empty_load" by (simp add: safe_load_def empty_load_def)
qed

subsection \<open>Disk\<close>

record pb_disk =
  di_total_gb :: f64
  di_used_gb :: f64
  di_avail_gb :: f64
  di_percent :: f64

definition empty_disk :: pb_disk where
  "empty_disk = \<lparr> di_total_gb = 0,
     di_used_gb = 0,
     di_avail_gb = 0,
     di_percent = 0 \<rparr>"

definition step_disk :: "nat \<Rightarrow> nat \<Rightarrow> pb_disk \<Rightarrow> bytes \<Rightarrow> pb_disk reading" where
  "step_disk field wire v bs =
     (if field = 1 then reading (read_fixed64 wire bs) (\<lambda>x. v\<lparr>di_total_gb := x\<rparr>)
      else if field = 2 then reading (read_fixed64 wire bs) (\<lambda>x. v\<lparr>di_used_gb := x\<rparr>)
      else if field = 3 then reading (read_fixed64 wire bs) (\<lambda>x. v\<lparr>di_avail_gb := x\<rparr>)
      else if field = 4 then reading (read_fixed64 wire bs) (\<lambda>x. v\<lparr>di_percent := x\<rparr>)
      else reading (skip_field wire bs) (\<lambda>_. v))"

definition decode_disk :: "bytes \<Rightarrow> pb_error + pb_disk" where
  "decode_disk = pb_loop step_disk empty_disk"

definition encode_disk :: "pb_disk \<Rightarrow> bytes" where
  "encode_disk x = field_f64 1 (di_total_gb x) @
     field_f64 2 (di_used_gb x) @
     field_f64 3 (di_avail_gb x) @
     field_f64 4 (di_percent x)"

definition wf_disk :: "pb_disk \<Rightarrow> bool" where
  "wf_disk x = (f64_finite (di_total_gb x) \<and>
     f64_finite (di_used_gb x) \<and>
     f64_finite (di_avail_gb x) \<and>
     f64_finite (di_percent x))"

interpretation disk: pb_stream step_disk
  by unfold_locales (simp_all add: step_disk_def [abs_def])

lemma decode_encode_disk: "wf_disk x \<Longrightarrow> decode_disk (encode_disk x) = Inr x"
proof -
  assume wf: "wf_disk x"
  have "pb_loop step_disk empty_disk (encode_disk x @ bs) = pb_loop step_disk x bs" for bs
    using wf by (cases x) (simp add: encode_disk_def wf_disk_def empty_disk_def disk.loop_fields step_disk_def sendable_def read_message_written  del: One_nat_def)
  from this [of "[]"] show ?thesis by (simp add: decode_disk_def disk.loop_Nil)
qed

definition safe_disk :: "pb_disk \<Rightarrow> bool" where
  "safe_disk x = (f64_finite (di_total_gb x) \<and>
     f64_finite (di_used_gb x) \<and>
     f64_finite (di_avail_gb x) \<and>
     f64_finite (di_percent x))"

lemma decode_disk_errors [simp]: "decode_disk bs \<noteq> Inl NoProgress"
  unfolding decode_disk_def by (rule disk.loop_progress) (simp add: step_disk_def)

lemma decode_disk_safe: "decode_disk bs = Inr x \<Longrightarrow> safe_disk x"
  unfolding decode_disk_def
proof (rule disk.loop_invariant [where I = safe_disk])
  show "safe_disk v \<Longrightarrow> step_disk field wire v bs = Inr (v', rest) \<Longrightarrow> safe_disk v'" for field wire v bs v' rest
    by (auto simp: step_disk_def safe_disk_def split: if_splits dest!: read_safe )
  show "safe_disk empty_disk" by (simp add: safe_disk_def empty_disk_def)
qed

subsection \<open>Net\<close>

record pb_net =
  ne_rx_bytes_sec :: f64
  ne_tx_bytes_sec :: f64
  ne_rx_bytes :: nat
  ne_tx_bytes :: nat
  ne_tcp_conns :: nat
  ne_udp_conns :: nat

definition empty_net :: pb_net where
  "empty_net = \<lparr> ne_rx_bytes_sec = 0,
     ne_tx_bytes_sec = 0,
     ne_rx_bytes = 0,
     ne_tx_bytes = 0,
     ne_tcp_conns = 0,
     ne_udp_conns = 0 \<rparr>"

definition step_net :: "nat \<Rightarrow> nat \<Rightarrow> pb_net \<Rightarrow> bytes \<Rightarrow> pb_net reading" where
  "step_net field wire v bs =
     (if field = 1 then reading (read_fixed64 wire bs) (\<lambda>x. v\<lparr>ne_rx_bytes_sec := x\<rparr>)
      else if field = 2 then reading (read_fixed64 wire bs) (\<lambda>x. v\<lparr>ne_tx_bytes_sec := x\<rparr>)
      else if field = 3 then reading (read_varint wire bs) (\<lambda>x. v\<lparr>ne_rx_bytes := x\<rparr>)
      else if field = 4 then reading (read_varint wire bs) (\<lambda>x. v\<lparr>ne_tx_bytes := x\<rparr>)
      else if field = 5 then reading (read_varint wire bs) (\<lambda>x. v\<lparr>ne_tcp_conns := x\<rparr>)
      else if field = 6 then reading (read_varint wire bs) (\<lambda>x. v\<lparr>ne_udp_conns := x\<rparr>)
      else reading (skip_field wire bs) (\<lambda>_. v))"

definition decode_net :: "bytes \<Rightarrow> pb_error + pb_net" where
  "decode_net = pb_loop step_net empty_net"

definition encode_net :: "pb_net \<Rightarrow> bytes" where
  "encode_net x = field_f64 1 (ne_rx_bytes_sec x) @
     field_f64 2 (ne_tx_bytes_sec x) @
     field_varint 3 (ne_rx_bytes x) @
     field_varint 4 (ne_tx_bytes x) @
     field_varint 5 (ne_tcp_conns x) @
     field_varint 6 (ne_udp_conns x)"

definition wf_net :: "pb_net \<Rightarrow> bool" where
  "wf_net x = (f64_finite (ne_rx_bytes_sec x) \<and>
     f64_finite (ne_tx_bytes_sec x) \<and>
     ne_rx_bytes x \<le> max_safe_integer \<and>
     ne_tx_bytes x \<le> max_safe_integer \<and>
     ne_tcp_conns x \<le> max_safe_integer \<and>
     ne_udp_conns x \<le> max_safe_integer)"

interpretation net: pb_stream step_net
  by unfold_locales (simp_all add: step_net_def [abs_def])

lemma decode_encode_net: "wf_net x \<Longrightarrow> decode_net (encode_net x) = Inr x"
proof -
  assume wf: "wf_net x"
  have "pb_loop step_net empty_net (encode_net x @ bs) = pb_loop step_net x bs" for bs
    using wf by (cases x) (simp add: encode_net_def wf_net_def empty_net_def net.loop_fields step_net_def sendable_def read_message_written  del: One_nat_def)
  from this [of "[]"] show ?thesis by (simp add: decode_net_def net.loop_Nil)
qed

definition safe_net :: "pb_net \<Rightarrow> bool" where
  "safe_net x = (f64_finite (ne_rx_bytes_sec x) \<and>
     f64_finite (ne_tx_bytes_sec x) \<and>
     ne_rx_bytes x \<le> max_safe_integer \<and>
     ne_tx_bytes x \<le> max_safe_integer \<and>
     ne_tcp_conns x \<le> max_safe_integer \<and>
     ne_udp_conns x \<le> max_safe_integer)"

lemma decode_net_errors [simp]: "decode_net bs \<noteq> Inl NoProgress"
  unfolding decode_net_def by (rule net.loop_progress) (simp add: step_net_def)

lemma decode_net_safe: "decode_net bs = Inr x \<Longrightarrow> safe_net x"
  unfolding decode_net_def
proof (rule net.loop_invariant [where I = safe_net])
  show "safe_net v \<Longrightarrow> step_net field wire v bs = Inr (v', rest) \<Longrightarrow> safe_net v'" for field wire v bs v' rest
    by (auto simp: step_net_def safe_net_def split: if_splits dest!: read_safe )
  show "safe_net empty_net" by (simp add: safe_net_def empty_net_def)
qed

subsection \<open>Diskio\<close>

record pb_diskio =
  io_read_bytes_sec :: f64
  io_write_bytes_sec :: f64

definition empty_diskio :: pb_diskio where
  "empty_diskio = \<lparr> io_read_bytes_sec = 0,
     io_write_bytes_sec = 0 \<rparr>"

definition step_diskio :: "nat \<Rightarrow> nat \<Rightarrow> pb_diskio \<Rightarrow> bytes \<Rightarrow> pb_diskio reading" where
  "step_diskio field wire v bs =
     (if field = 1 then reading (read_fixed64 wire bs) (\<lambda>x. v\<lparr>io_read_bytes_sec := x\<rparr>)
      else if field = 2 then reading (read_fixed64 wire bs) (\<lambda>x. v\<lparr>io_write_bytes_sec := x\<rparr>)
      else reading (skip_field wire bs) (\<lambda>_. v))"

definition decode_diskio :: "bytes \<Rightarrow> pb_error + pb_diskio" where
  "decode_diskio = pb_loop step_diskio empty_diskio"

definition encode_diskio :: "pb_diskio \<Rightarrow> bytes" where
  "encode_diskio x = field_f64 1 (io_read_bytes_sec x) @
     field_f64 2 (io_write_bytes_sec x)"

definition wf_diskio :: "pb_diskio \<Rightarrow> bool" where
  "wf_diskio x = (f64_finite (io_read_bytes_sec x) \<and>
     f64_finite (io_write_bytes_sec x))"

interpretation diskio: pb_stream step_diskio
  by unfold_locales (simp_all add: step_diskio_def [abs_def])

lemma decode_encode_diskio: "wf_diskio x \<Longrightarrow> decode_diskio (encode_diskio x) = Inr x"
proof -
  assume wf: "wf_diskio x"
  have "pb_loop step_diskio empty_diskio (encode_diskio x @ bs) = pb_loop step_diskio x bs" for bs
    using wf by (cases x) (simp add: encode_diskio_def wf_diskio_def empty_diskio_def diskio.loop_fields step_diskio_def sendable_def read_message_written  del: One_nat_def)
  from this [of "[]"] show ?thesis by (simp add: decode_diskio_def diskio.loop_Nil)
qed

definition safe_diskio :: "pb_diskio \<Rightarrow> bool" where
  "safe_diskio x = (f64_finite (io_read_bytes_sec x) \<and>
     f64_finite (io_write_bytes_sec x))"

lemma decode_diskio_errors [simp]: "decode_diskio bs \<noteq> Inl NoProgress"
  unfolding decode_diskio_def by (rule diskio.loop_progress) (simp add: step_diskio_def)

lemma decode_diskio_safe: "decode_diskio bs = Inr x \<Longrightarrow> safe_diskio x"
  unfolding decode_diskio_def
proof (rule diskio.loop_invariant [where I = safe_diskio])
  show "safe_diskio v \<Longrightarrow> step_diskio field wire v bs = Inr (v', rest) \<Longrightarrow> safe_diskio v'" for field wire v bs v' rest
    by (auto simp: step_diskio_def safe_diskio_def split: if_splits dest!: read_safe )
  show "safe_diskio empty_diskio" by (simp add: safe_diskio_def empty_diskio_def)
qed

subsection \<open>Stat\<close>

record pb_stat =
  st_avg :: f64
  st_max :: f64
  st_min :: f64

definition empty_stat :: pb_stat where
  "empty_stat = \<lparr> st_avg = 0,
     st_max = 0,
     st_min = 0 \<rparr>"

definition step_stat :: "nat \<Rightarrow> nat \<Rightarrow> pb_stat \<Rightarrow> bytes \<Rightarrow> pb_stat reading" where
  "step_stat field wire v bs =
     (if field = 1 then reading (read_fixed64 wire bs) (\<lambda>x. v\<lparr>st_avg := x\<rparr>)
      else if field = 2 then reading (read_fixed64 wire bs) (\<lambda>x. v\<lparr>st_max := x\<rparr>)
      else if field = 3 then reading (read_fixed64 wire bs) (\<lambda>x. v\<lparr>st_min := x\<rparr>)
      else reading (skip_field wire bs) (\<lambda>_. v))"

definition decode_stat :: "bytes \<Rightarrow> pb_error + pb_stat" where
  "decode_stat = pb_loop step_stat empty_stat"

definition encode_stat :: "pb_stat \<Rightarrow> bytes" where
  "encode_stat x = field_f64 1 (st_avg x) @
     field_f64 2 (st_max x) @
     field_f64 3 (st_min x)"

definition wf_stat :: "pb_stat \<Rightarrow> bool" where
  "wf_stat x = (f64_finite (st_avg x) \<and>
     f64_finite (st_max x) \<and>
     f64_finite (st_min x))"

interpretation stat: pb_stream step_stat
  by unfold_locales (simp_all add: step_stat_def [abs_def])

lemma decode_encode_stat: "wf_stat x \<Longrightarrow> decode_stat (encode_stat x) = Inr x"
proof -
  assume wf: "wf_stat x"
  have "pb_loop step_stat empty_stat (encode_stat x @ bs) = pb_loop step_stat x bs" for bs
    using wf by (cases x) (simp add: encode_stat_def wf_stat_def empty_stat_def stat.loop_fields step_stat_def sendable_def read_message_written  del: One_nat_def)
  from this [of "[]"] show ?thesis by (simp add: decode_stat_def stat.loop_Nil)
qed

definition safe_stat :: "pb_stat \<Rightarrow> bool" where
  "safe_stat x = (f64_finite (st_avg x) \<and>
     f64_finite (st_max x) \<and>
     f64_finite (st_min x))"

lemma decode_stat_errors [simp]: "decode_stat bs \<noteq> Inl NoProgress"
  unfolding decode_stat_def by (rule stat.loop_progress) (simp add: step_stat_def)

lemma decode_stat_safe: "decode_stat bs = Inr x \<Longrightarrow> safe_stat x"
  unfolding decode_stat_def
proof (rule stat.loop_invariant [where I = safe_stat])
  show "safe_stat v \<Longrightarrow> step_stat field wire v bs = Inr (v', rest) \<Longrightarrow> safe_stat v'" for field wire v bs v' rest
    by (auto simp: step_stat_def safe_stat_def split: if_splits dest!: read_safe )
  show "safe_stat empty_stat" by (simp add: safe_stat_def empty_stat_def)
qed

subsection \<open>Agg stats\<close>

record pb_agg_stats =
  ag_cpu :: "pb_stat option"
  ag_mem :: "pb_stat option"
  ag_disk :: "pb_stat option"
  ag_load :: "pb_stat option"
  ag_net_rx :: "pb_stat option"
  ag_net_tx :: "pb_stat option"
  ag_tcp_conns :: "pb_stat option"
  ag_udp_conns :: "pb_stat option"
  ag_disk_read :: "pb_stat option"
  ag_disk_write :: "pb_stat option"

definition empty_agg_stats :: pb_agg_stats where
  "empty_agg_stats = \<lparr> ag_cpu = None,
     ag_mem = None,
     ag_disk = None,
     ag_load = None,
     ag_net_rx = None,
     ag_net_tx = None,
     ag_tcp_conns = None,
     ag_udp_conns = None,
     ag_disk_read = None,
     ag_disk_write = None \<rparr>"

definition step_agg_stats :: "nat \<Rightarrow> nat \<Rightarrow> pb_agg_stats \<Rightarrow> bytes \<Rightarrow> pb_agg_stats reading" where
  "step_agg_stats field wire v bs =
     (if field = 1 then reading (read_message decode_stat wire bs) (\<lambda>x. v\<lparr>ag_cpu := Some x\<rparr>)
      else if field = 2 then reading (read_message decode_stat wire bs) (\<lambda>x. v\<lparr>ag_mem := Some x\<rparr>)
      else if field = 3 then reading (read_message decode_stat wire bs) (\<lambda>x. v\<lparr>ag_disk := Some x\<rparr>)
      else if field = 4 then reading (read_message decode_stat wire bs) (\<lambda>x. v\<lparr>ag_load := Some x\<rparr>)
      else if field = 5 then reading (read_message decode_stat wire bs) (\<lambda>x. v\<lparr>ag_net_rx := Some x\<rparr>)
      else if field = 6 then reading (read_message decode_stat wire bs) (\<lambda>x. v\<lparr>ag_net_tx := Some x\<rparr>)
      else if field = 7 then reading (read_message decode_stat wire bs) (\<lambda>x. v\<lparr>ag_tcp_conns := Some x\<rparr>)
      else if field = 8 then reading (read_message decode_stat wire bs) (\<lambda>x. v\<lparr>ag_udp_conns := Some x\<rparr>)
      else if field = 9 then reading (read_message decode_stat wire bs) (\<lambda>x. v\<lparr>ag_disk_read := Some x\<rparr>)
      else if field = 10 then reading (read_message decode_stat wire bs) (\<lambda>x. v\<lparr>ag_disk_write := Some x\<rparr>)
      else reading (skip_field wire bs) (\<lambda>_. v))"

definition decode_agg_stats :: "bytes \<Rightarrow> pb_error + pb_agg_stats" where
  "decode_agg_stats = pb_loop step_agg_stats empty_agg_stats"

definition encode_agg_stats :: "pb_agg_stats \<Rightarrow> bytes" where
  "encode_agg_stats x = opt_field (\<lambda>y. field_bytes 1 (encode_stat y)) (ag_cpu x) @
     opt_field (\<lambda>y. field_bytes 2 (encode_stat y)) (ag_mem x) @
     opt_field (\<lambda>y. field_bytes 3 (encode_stat y)) (ag_disk x) @
     opt_field (\<lambda>y. field_bytes 4 (encode_stat y)) (ag_load x) @
     opt_field (\<lambda>y. field_bytes 5 (encode_stat y)) (ag_net_rx x) @
     opt_field (\<lambda>y. field_bytes 6 (encode_stat y)) (ag_net_tx x) @
     opt_field (\<lambda>y. field_bytes 7 (encode_stat y)) (ag_tcp_conns x) @
     opt_field (\<lambda>y. field_bytes 8 (encode_stat y)) (ag_udp_conns x) @
     opt_field (\<lambda>y. field_bytes 9 (encode_stat y)) (ag_disk_read x) @
     opt_field (\<lambda>y. field_bytes 10 (encode_stat y)) (ag_disk_write x)"

definition wf_agg_stats :: "pb_agg_stats \<Rightarrow> bool" where
  "wf_agg_stats x = (pred_option (sendable encode_stat wf_stat) (ag_cpu x) \<and>
     pred_option (sendable encode_stat wf_stat) (ag_mem x) \<and>
     pred_option (sendable encode_stat wf_stat) (ag_disk x) \<and>
     pred_option (sendable encode_stat wf_stat) (ag_load x) \<and>
     pred_option (sendable encode_stat wf_stat) (ag_net_rx x) \<and>
     pred_option (sendable encode_stat wf_stat) (ag_net_tx x) \<and>
     pred_option (sendable encode_stat wf_stat) (ag_tcp_conns x) \<and>
     pred_option (sendable encode_stat wf_stat) (ag_udp_conns x) \<and>
     pred_option (sendable encode_stat wf_stat) (ag_disk_read x) \<and>
     pred_option (sendable encode_stat wf_stat) (ag_disk_write x))"

interpretation agg_stats: pb_stream step_agg_stats
  by unfold_locales (simp_all add: step_agg_stats_def [abs_def])

lemma ag_cpu_option:
  "ag_cpu v = None \<Longrightarrow> pred_option (sendable encode_stat wf_stat) y \<Longrightarrow> pb_loop step_agg_stats v (opt_field (\<lambda>y. field_bytes 1 (encode_stat y)) y @ bs) =
     pb_loop step_agg_stats (v\<lparr>ag_cpu := y\<rparr>) bs"
  by (cases y; cases v; simp add: opt_field_def agg_stats.loop_fields step_agg_stats_def read_message_written sendable_def decode_encode_stat)

lemma ag_mem_option:
  "ag_mem v = None \<Longrightarrow> pred_option (sendable encode_stat wf_stat) y \<Longrightarrow> pb_loop step_agg_stats v (opt_field (\<lambda>y. field_bytes 2 (encode_stat y)) y @ bs) =
     pb_loop step_agg_stats (v\<lparr>ag_mem := y\<rparr>) bs"
  by (cases y; cases v; simp add: opt_field_def agg_stats.loop_fields step_agg_stats_def read_message_written sendable_def decode_encode_stat)

lemma ag_disk_option:
  "ag_disk v = None \<Longrightarrow> pred_option (sendable encode_stat wf_stat) y \<Longrightarrow> pb_loop step_agg_stats v (opt_field (\<lambda>y. field_bytes 3 (encode_stat y)) y @ bs) =
     pb_loop step_agg_stats (v\<lparr>ag_disk := y\<rparr>) bs"
  by (cases y; cases v; simp add: opt_field_def agg_stats.loop_fields step_agg_stats_def read_message_written sendable_def decode_encode_stat)

lemma ag_load_option:
  "ag_load v = None \<Longrightarrow> pred_option (sendable encode_stat wf_stat) y \<Longrightarrow> pb_loop step_agg_stats v (opt_field (\<lambda>y. field_bytes 4 (encode_stat y)) y @ bs) =
     pb_loop step_agg_stats (v\<lparr>ag_load := y\<rparr>) bs"
  by (cases y; cases v; simp add: opt_field_def agg_stats.loop_fields step_agg_stats_def read_message_written sendable_def decode_encode_stat)

lemma ag_net_rx_option:
  "ag_net_rx v = None \<Longrightarrow> pred_option (sendable encode_stat wf_stat) y \<Longrightarrow> pb_loop step_agg_stats v (opt_field (\<lambda>y. field_bytes 5 (encode_stat y)) y @ bs) =
     pb_loop step_agg_stats (v\<lparr>ag_net_rx := y\<rparr>) bs"
  by (cases y; cases v; simp add: opt_field_def agg_stats.loop_fields step_agg_stats_def read_message_written sendable_def decode_encode_stat)

lemma ag_net_tx_option:
  "ag_net_tx v = None \<Longrightarrow> pred_option (sendable encode_stat wf_stat) y \<Longrightarrow> pb_loop step_agg_stats v (opt_field (\<lambda>y. field_bytes 6 (encode_stat y)) y @ bs) =
     pb_loop step_agg_stats (v\<lparr>ag_net_tx := y\<rparr>) bs"
  by (cases y; cases v; simp add: opt_field_def agg_stats.loop_fields step_agg_stats_def read_message_written sendable_def decode_encode_stat)

lemma ag_tcp_conns_option:
  "ag_tcp_conns v = None \<Longrightarrow> pred_option (sendable encode_stat wf_stat) y \<Longrightarrow> pb_loop step_agg_stats v (opt_field (\<lambda>y. field_bytes 7 (encode_stat y)) y @ bs) =
     pb_loop step_agg_stats (v\<lparr>ag_tcp_conns := y\<rparr>) bs"
  by (cases y; cases v; simp add: opt_field_def agg_stats.loop_fields step_agg_stats_def read_message_written sendable_def decode_encode_stat)

lemma ag_udp_conns_option:
  "ag_udp_conns v = None \<Longrightarrow> pred_option (sendable encode_stat wf_stat) y \<Longrightarrow> pb_loop step_agg_stats v (opt_field (\<lambda>y. field_bytes 8 (encode_stat y)) y @ bs) =
     pb_loop step_agg_stats (v\<lparr>ag_udp_conns := y\<rparr>) bs"
  by (cases y; cases v; simp add: opt_field_def agg_stats.loop_fields step_agg_stats_def read_message_written sendable_def decode_encode_stat)

lemma ag_disk_read_option:
  "ag_disk_read v = None \<Longrightarrow> pred_option (sendable encode_stat wf_stat) y \<Longrightarrow> pb_loop step_agg_stats v (opt_field (\<lambda>y. field_bytes 9 (encode_stat y)) y @ bs) =
     pb_loop step_agg_stats (v\<lparr>ag_disk_read := y\<rparr>) bs"
  by (cases y; cases v; simp add: opt_field_def agg_stats.loop_fields step_agg_stats_def read_message_written sendable_def decode_encode_stat)

lemma ag_disk_write_option:
  "ag_disk_write v = None \<Longrightarrow> pred_option (sendable encode_stat wf_stat) y \<Longrightarrow> pb_loop step_agg_stats v (opt_field (\<lambda>y. field_bytes 10 (encode_stat y)) y @ bs) =
     pb_loop step_agg_stats (v\<lparr>ag_disk_write := y\<rparr>) bs"
  by (cases y; cases v; simp add: opt_field_def agg_stats.loop_fields step_agg_stats_def read_message_written sendable_def decode_encode_stat)

lemmas agg_stats_options = ag_cpu_option ag_mem_option ag_disk_option ag_load_option ag_net_rx_option ag_net_tx_option ag_tcp_conns_option ag_udp_conns_option ag_disk_read_option ag_disk_write_option

lemma decode_encode_agg_stats: "wf_agg_stats x \<Longrightarrow> decode_agg_stats (encode_agg_stats x) = Inr x"
proof -
  assume wf: "wf_agg_stats x"
  have "pb_loop step_agg_stats empty_agg_stats (encode_agg_stats x @ bs) = pb_loop step_agg_stats x bs" for bs
    using wf by (cases x) (simp add: encode_agg_stats_def wf_agg_stats_def empty_agg_stats_def agg_stats.loop_fields step_agg_stats_def agg_stats_options sendable_def read_message_written decode_encode_stat del: One_nat_def)
  from this [of "[]"] show ?thesis by (simp add: decode_agg_stats_def agg_stats.loop_Nil)
qed

definition safe_agg_stats :: "pb_agg_stats \<Rightarrow> bool" where
  "safe_agg_stats x = (pred_option safe_stat (ag_cpu x) \<and>
     pred_option safe_stat (ag_mem x) \<and>
     pred_option safe_stat (ag_disk x) \<and>
     pred_option safe_stat (ag_load x) \<and>
     pred_option safe_stat (ag_net_rx x) \<and>
     pred_option safe_stat (ag_net_tx x) \<and>
     pred_option safe_stat (ag_tcp_conns x) \<and>
     pred_option safe_stat (ag_udp_conns x) \<and>
     pred_option safe_stat (ag_disk_read x) \<and>
     pred_option safe_stat (ag_disk_write x))"

lemma decode_agg_stats_errors [simp]: "decode_agg_stats bs \<noteq> Inl NoProgress"
  unfolding decode_agg_stats_def by (rule agg_stats.loop_progress) (simp add: step_agg_stats_def)

lemma decode_agg_stats_safe: "decode_agg_stats bs = Inr x \<Longrightarrow> safe_agg_stats x"
  unfolding decode_agg_stats_def
proof (rule agg_stats.loop_invariant [where I = safe_agg_stats])
  show "safe_agg_stats v \<Longrightarrow> step_agg_stats field wire v bs = Inr (v', rest) \<Longrightarrow> safe_agg_stats v'" for field wire v bs v' rest
    by (auto simp: step_agg_stats_def safe_agg_stats_def split: if_splits dest!: read_safe intro: decode_stat_safe)
  show "safe_agg_stats empty_agg_stats" by (simp add: safe_agg_stats_def empty_agg_stats_def)
qed

subsection \<open>Sample\<close>

record pb_sample =
  sa_ts :: nat
  sa_cpu :: f64
  sa_mem :: f64
  sa_disk :: f64
  sa_load :: f64
  sa_net_rx :: f64
  sa_net_tx :: f64
  sa_tcp_conns :: nat
  sa_udp_conns :: nat
  sa_disk_read :: f64
  sa_disk_write :: f64
  sa_cpu_temp :: "f64 option"
  sa_gpu_temp :: "f64 option"
  sa_gpu_util :: "f64 option"
  sa_motherboard_temp :: "f64 option"
  sa_disk_temp :: "f64 option"
  sa_chipset_temp :: "f64 option"
  sa_process_count :: "nat option"
  sa_load5 :: "f64 option"
  sa_load15 :: "f64 option"

definition empty_sample :: pb_sample where
  "empty_sample = \<lparr> sa_ts = 0,
     sa_cpu = 0,
     sa_mem = 0,
     sa_disk = 0,
     sa_load = 0,
     sa_net_rx = 0,
     sa_net_tx = 0,
     sa_tcp_conns = 0,
     sa_udp_conns = 0,
     sa_disk_read = 0,
     sa_disk_write = 0,
     sa_cpu_temp = None,
     sa_gpu_temp = None,
     sa_gpu_util = None,
     sa_motherboard_temp = None,
     sa_disk_temp = None,
     sa_chipset_temp = None,
     sa_process_count = None,
     sa_load5 = None,
     sa_load15 = None \<rparr>"

definition step_sample :: "nat \<Rightarrow> nat \<Rightarrow> pb_sample \<Rightarrow> bytes \<Rightarrow> pb_sample reading" where
  "step_sample field wire v bs =
     (if field = 1 then reading (read_varint wire bs) (\<lambda>x. v\<lparr>sa_ts := x\<rparr>)
      else if field = 2 then reading (read_fixed64 wire bs) (\<lambda>x. v\<lparr>sa_cpu := x\<rparr>)
      else if field = 3 then reading (read_fixed64 wire bs) (\<lambda>x. v\<lparr>sa_mem := x\<rparr>)
      else if field = 4 then reading (read_fixed64 wire bs) (\<lambda>x. v\<lparr>sa_disk := x\<rparr>)
      else if field = 5 then reading (read_fixed64 wire bs) (\<lambda>x. v\<lparr>sa_load := x\<rparr>)
      else if field = 6 then reading (read_fixed64 wire bs) (\<lambda>x. v\<lparr>sa_net_rx := x\<rparr>)
      else if field = 7 then reading (read_fixed64 wire bs) (\<lambda>x. v\<lparr>sa_net_tx := x\<rparr>)
      else if field = 8 then reading (read_varint wire bs) (\<lambda>x. v\<lparr>sa_tcp_conns := x\<rparr>)
      else if field = 9 then reading (read_varint wire bs) (\<lambda>x. v\<lparr>sa_udp_conns := x\<rparr>)
      else if field = 10 then reading (read_fixed64 wire bs) (\<lambda>x. v\<lparr>sa_disk_read := x\<rparr>)
      else if field = 11 then reading (read_fixed64 wire bs) (\<lambda>x. v\<lparr>sa_disk_write := x\<rparr>)
      else if field = 12 then reading (read_fixed64 wire bs) (\<lambda>x. v\<lparr>sa_cpu_temp := Some x\<rparr>)
      else if field = 13 then reading (read_fixed64 wire bs) (\<lambda>x. v\<lparr>sa_gpu_temp := Some x\<rparr>)
      else if field = 14 then reading (read_fixed64 wire bs) (\<lambda>x. v\<lparr>sa_gpu_util := Some x\<rparr>)
      else if field = 15 then reading (read_fixed64 wire bs) (\<lambda>x. v\<lparr>sa_motherboard_temp := Some x\<rparr>)
      else if field = 16 then reading (read_fixed64 wire bs) (\<lambda>x. v\<lparr>sa_disk_temp := Some x\<rparr>)
      else if field = 17 then reading (read_fixed64 wire bs) (\<lambda>x. v\<lparr>sa_chipset_temp := Some x\<rparr>)
      else if field = 18 then reading (read_varint wire bs) (\<lambda>x. v\<lparr>sa_process_count := Some x\<rparr>)
      else if field = 19 then reading (read_fixed64 wire bs) (\<lambda>x. v\<lparr>sa_load5 := Some x\<rparr>)
      else if field = 20 then reading (read_fixed64 wire bs) (\<lambda>x. v\<lparr>sa_load15 := Some x\<rparr>)
      else reading (skip_field wire bs) (\<lambda>_. v))"

definition decode_sample :: "bytes \<Rightarrow> pb_error + pb_sample" where
  "decode_sample = pb_loop step_sample empty_sample"

definition encode_sample :: "pb_sample \<Rightarrow> bytes" where
  "encode_sample x = field_varint 1 (sa_ts x) @
     field_f64 2 (sa_cpu x) @
     field_f64 3 (sa_mem x) @
     field_f64 4 (sa_disk x) @
     field_f64 5 (sa_load x) @
     field_f64 6 (sa_net_rx x) @
     field_f64 7 (sa_net_tx x) @
     field_varint 8 (sa_tcp_conns x) @
     opt_field (field_varint 18) (sa_process_count x) @
     opt_field (field_f64 19) (sa_load5 x) @
     opt_field (field_f64 20) (sa_load15 x) @
     field_varint 9 (sa_udp_conns x) @
     field_f64 10 (sa_disk_read x) @
     field_f64 11 (sa_disk_write x) @
     opt_field (field_f64 12) (sa_cpu_temp x) @
     opt_field (field_f64 13) (sa_gpu_temp x) @
     opt_field (field_f64 14) (sa_gpu_util x) @
     opt_field (field_f64 15) (sa_motherboard_temp x) @
     opt_field (field_f64 16) (sa_disk_temp x) @
     opt_field (field_f64 17) (sa_chipset_temp x)"

definition wf_sample :: "pb_sample \<Rightarrow> bool" where
  "wf_sample x = (sa_ts x \<le> max_safe_integer \<and>
     f64_finite (sa_cpu x) \<and>
     f64_finite (sa_mem x) \<and>
     f64_finite (sa_disk x) \<and>
     f64_finite (sa_load x) \<and>
     f64_finite (sa_net_rx x) \<and>
     f64_finite (sa_net_tx x) \<and>
     sa_tcp_conns x \<le> max_safe_integer \<and>
     sa_udp_conns x \<le> max_safe_integer \<and>
     f64_finite (sa_disk_read x) \<and>
     f64_finite (sa_disk_write x) \<and>
     pred_option f64_finite (sa_cpu_temp x) \<and>
     pred_option f64_finite (sa_gpu_temp x) \<and>
     pred_option f64_finite (sa_gpu_util x) \<and>
     pred_option f64_finite (sa_motherboard_temp x) \<and>
     pred_option f64_finite (sa_disk_temp x) \<and>
     pred_option f64_finite (sa_chipset_temp x) \<and>
     pred_option (\<lambda>n. n \<le> max_safe_integer) (sa_process_count x) \<and>
     pred_option f64_finite (sa_load5 x) \<and>
     pred_option f64_finite (sa_load15 x))"

interpretation sample: pb_stream step_sample
  by unfold_locales (simp_all add: step_sample_def [abs_def])

lemma sa_cpu_temp_option:
  "sa_cpu_temp v = None \<Longrightarrow> pred_option f64_finite y \<Longrightarrow> pb_loop step_sample v (opt_field (field_f64 12) y @ bs) =
     pb_loop step_sample (v\<lparr>sa_cpu_temp := y\<rparr>) bs"
  by (cases y; cases v; simp add: opt_field_def sample.loop_fields step_sample_def )

lemma sa_gpu_temp_option:
  "sa_gpu_temp v = None \<Longrightarrow> pred_option f64_finite y \<Longrightarrow> pb_loop step_sample v (opt_field (field_f64 13) y @ bs) =
     pb_loop step_sample (v\<lparr>sa_gpu_temp := y\<rparr>) bs"
  by (cases y; cases v; simp add: opt_field_def sample.loop_fields step_sample_def )

lemma sa_gpu_util_option:
  "sa_gpu_util v = None \<Longrightarrow> pred_option f64_finite y \<Longrightarrow> pb_loop step_sample v (opt_field (field_f64 14) y @ bs) =
     pb_loop step_sample (v\<lparr>sa_gpu_util := y\<rparr>) bs"
  by (cases y; cases v; simp add: opt_field_def sample.loop_fields step_sample_def )

lemma sa_motherboard_temp_option:
  "sa_motherboard_temp v = None \<Longrightarrow> pred_option f64_finite y \<Longrightarrow> pb_loop step_sample v (opt_field (field_f64 15) y @ bs) =
     pb_loop step_sample (v\<lparr>sa_motherboard_temp := y\<rparr>) bs"
  by (cases y; cases v; simp add: opt_field_def sample.loop_fields step_sample_def )

lemma sa_disk_temp_option:
  "sa_disk_temp v = None \<Longrightarrow> pred_option f64_finite y \<Longrightarrow> pb_loop step_sample v (opt_field (field_f64 16) y @ bs) =
     pb_loop step_sample (v\<lparr>sa_disk_temp := y\<rparr>) bs"
  by (cases y; cases v; simp add: opt_field_def sample.loop_fields step_sample_def )

lemma sa_chipset_temp_option:
  "sa_chipset_temp v = None \<Longrightarrow> pred_option f64_finite y \<Longrightarrow> pb_loop step_sample v (opt_field (field_f64 17) y @ bs) =
     pb_loop step_sample (v\<lparr>sa_chipset_temp := y\<rparr>) bs"
  by (cases y; cases v; simp add: opt_field_def sample.loop_fields step_sample_def )

lemma sa_process_count_option:
  "sa_process_count v = None \<Longrightarrow> pred_option (\<lambda>n. n \<le> max_safe_integer) y \<Longrightarrow> pb_loop step_sample v (opt_field (field_varint 18) y @ bs) =
     pb_loop step_sample (v\<lparr>sa_process_count := y\<rparr>) bs"
  by (cases y; cases v; simp add: opt_field_def sample.loop_fields step_sample_def )

lemma sa_load5_option:
  "sa_load5 v = None \<Longrightarrow> pred_option f64_finite y \<Longrightarrow> pb_loop step_sample v (opt_field (field_f64 19) y @ bs) =
     pb_loop step_sample (v\<lparr>sa_load5 := y\<rparr>) bs"
  by (cases y; cases v; simp add: opt_field_def sample.loop_fields step_sample_def )

lemma sa_load15_option:
  "sa_load15 v = None \<Longrightarrow> pred_option f64_finite y \<Longrightarrow> pb_loop step_sample v (opt_field (field_f64 20) y @ bs) =
     pb_loop step_sample (v\<lparr>sa_load15 := y\<rparr>) bs"
  by (cases y; cases v; simp add: opt_field_def sample.loop_fields step_sample_def )

lemmas sample_options = sa_cpu_temp_option sa_gpu_temp_option sa_gpu_util_option sa_motherboard_temp_option sa_disk_temp_option sa_chipset_temp_option sa_process_count_option sa_load5_option sa_load15_option

lemma decode_encode_sample: "wf_sample x \<Longrightarrow> decode_sample (encode_sample x) = Inr x"
proof -
  assume wf: "wf_sample x"
  have "pb_loop step_sample empty_sample (encode_sample x @ bs) = pb_loop step_sample x bs" for bs
    using wf by (cases x) (simp add: encode_sample_def wf_sample_def empty_sample_def sample.loop_fields step_sample_def sample_options sendable_def read_message_written  del: One_nat_def)
  from this [of "[]"] show ?thesis by (simp add: decode_sample_def sample.loop_Nil)
qed

definition safe_sample :: "pb_sample \<Rightarrow> bool" where
  "safe_sample x = (sa_ts x \<le> max_safe_integer \<and>
     f64_finite (sa_cpu x) \<and>
     f64_finite (sa_mem x) \<and>
     f64_finite (sa_disk x) \<and>
     f64_finite (sa_load x) \<and>
     f64_finite (sa_net_rx x) \<and>
     f64_finite (sa_net_tx x) \<and>
     sa_tcp_conns x \<le> max_safe_integer \<and>
     sa_udp_conns x \<le> max_safe_integer \<and>
     f64_finite (sa_disk_read x) \<and>
     f64_finite (sa_disk_write x) \<and>
     pred_option f64_finite (sa_cpu_temp x) \<and>
     pred_option f64_finite (sa_gpu_temp x) \<and>
     pred_option f64_finite (sa_gpu_util x) \<and>
     pred_option f64_finite (sa_motherboard_temp x) \<and>
     pred_option f64_finite (sa_disk_temp x) \<and>
     pred_option f64_finite (sa_chipset_temp x) \<and>
     pred_option (\<lambda>n. n \<le> max_safe_integer) (sa_process_count x) \<and>
     pred_option f64_finite (sa_load5 x) \<and>
     pred_option f64_finite (sa_load15 x))"

lemma decode_sample_errors [simp]: "decode_sample bs \<noteq> Inl NoProgress"
  unfolding decode_sample_def by (rule sample.loop_progress) (simp add: step_sample_def)

lemma decode_sample_safe: "decode_sample bs = Inr x \<Longrightarrow> safe_sample x"
  unfolding decode_sample_def
proof (rule sample.loop_invariant [where I = safe_sample])
  show "safe_sample v \<Longrightarrow> step_sample field wire v bs = Inr (v', rest) \<Longrightarrow> safe_sample v'" for field wire v bs v' rest
    by (auto simp: step_sample_def safe_sample_def split: if_splits dest!: read_safe )
  show "safe_sample empty_sample" by (simp add: safe_sample_def empty_sample_def)
qed

subsection \<open>Disk entry\<close>

record pb_disk_entry =
  de_device :: bytes
  de_mount :: bytes
  de_total_gb :: f64
  de_used_gb :: f64

definition empty_disk_entry :: pb_disk_entry where
  "empty_disk_entry = \<lparr> de_device = [],
     de_mount = [],
     de_total_gb = 0,
     de_used_gb = 0 \<rparr>"

definition step_disk_entry :: "nat \<Rightarrow> nat \<Rightarrow> pb_disk_entry \<Rightarrow> bytes \<Rightarrow> pb_disk_entry reading" where
  "step_disk_entry field wire v bs =
     (if field = 1 then reading (read_string wire bs) (\<lambda>x. v\<lparr>de_device := x\<rparr>)
      else if field = 2 then reading (read_string wire bs) (\<lambda>x. v\<lparr>de_mount := x\<rparr>)
      else if field = 3 then reading (read_fixed64 wire bs) (\<lambda>x. v\<lparr>de_total_gb := x\<rparr>)
      else if field = 4 then reading (read_fixed64 wire bs) (\<lambda>x. v\<lparr>de_used_gb := x\<rparr>)
      else reading (skip_field wire bs) (\<lambda>_. v))"

definition decode_disk_entry :: "bytes \<Rightarrow> pb_error + pb_disk_entry" where
  "decode_disk_entry = pb_loop step_disk_entry empty_disk_entry"

definition encode_disk_entry :: "pb_disk_entry \<Rightarrow> bytes" where
  "encode_disk_entry x = field_bytes 1 (de_device x) @
     field_bytes 2 (de_mount x) @
     field_f64 3 (de_total_gb x) @
     field_f64 4 (de_used_gb x)"

definition wf_disk_entry :: "pb_disk_entry \<Rightarrow> bool" where
  "wf_disk_entry x = (plain_text (de_device x) \<and>
     plain_text (de_mount x) \<and>
     f64_finite (de_total_gb x) \<and>
     f64_finite (de_used_gb x))"

interpretation disk_entry: pb_stream step_disk_entry
  by unfold_locales (simp_all add: step_disk_entry_def [abs_def])

lemma decode_encode_disk_entry: "wf_disk_entry x \<Longrightarrow> decode_disk_entry (encode_disk_entry x) = Inr x"
proof -
  assume wf: "wf_disk_entry x"
  have "pb_loop step_disk_entry empty_disk_entry (encode_disk_entry x @ bs) = pb_loop step_disk_entry x bs" for bs
    using wf by (cases x) (simp add: encode_disk_entry_def wf_disk_entry_def empty_disk_entry_def disk_entry.loop_fields step_disk_entry_def sendable_def read_message_written  del: One_nat_def)
  from this [of "[]"] show ?thesis by (simp add: decode_disk_entry_def disk_entry.loop_Nil)
qed

definition safe_disk_entry :: "pb_disk_entry \<Rightarrow> bool" where
  "safe_disk_entry x = (f64_finite (de_total_gb x) \<and>
     f64_finite (de_used_gb x))"

lemma decode_disk_entry_errors [simp]: "decode_disk_entry bs \<noteq> Inl NoProgress"
  unfolding decode_disk_entry_def by (rule disk_entry.loop_progress) (simp add: step_disk_entry_def)

lemma decode_disk_entry_safe: "decode_disk_entry bs = Inr x \<Longrightarrow> safe_disk_entry x"
  unfolding decode_disk_entry_def
proof (rule disk_entry.loop_invariant [where I = safe_disk_entry])
  show "safe_disk_entry v \<Longrightarrow> step_disk_entry field wire v bs = Inr (v', rest) \<Longrightarrow> safe_disk_entry v'" for field wire v bs v' rest
    by (auto simp: step_disk_entry_def safe_disk_entry_def split: if_splits dest!: read_safe )
  show "safe_disk_entry empty_disk_entry" by (simp add: safe_disk_entry_def empty_disk_entry_def)
qed

subsection \<open>Sensor\<close>

record pb_sensor =
  se_id :: bytes
  se_label :: bytes
  se_kind :: bytes
  se_temp_c :: f64

definition empty_sensor :: pb_sensor where
  "empty_sensor = \<lparr> se_id = [],
     se_label = [],
     se_kind = [],
     se_temp_c = 0 \<rparr>"

definition step_sensor :: "nat \<Rightarrow> nat \<Rightarrow> pb_sensor \<Rightarrow> bytes \<Rightarrow> pb_sensor reading" where
  "step_sensor field wire v bs =
     (if field = 1 then reading (read_string wire bs) (\<lambda>x. v\<lparr>se_id := x\<rparr>)
      else if field = 2 then reading (read_string wire bs) (\<lambda>x. v\<lparr>se_label := x\<rparr>)
      else if field = 3 then reading (read_string wire bs) (\<lambda>x. v\<lparr>se_kind := x\<rparr>)
      else if field = 4 then reading (read_fixed64 wire bs) (\<lambda>x. v\<lparr>se_temp_c := x\<rparr>)
      else reading (skip_field wire bs) (\<lambda>_. v))"

definition decode_sensor :: "bytes \<Rightarrow> pb_error + pb_sensor" where
  "decode_sensor = pb_loop step_sensor empty_sensor"

definition encode_sensor :: "pb_sensor \<Rightarrow> bytes" where
  "encode_sensor x = field_bytes 1 (se_id x) @
     field_bytes 2 (se_label x) @
     field_bytes 3 (se_kind x) @
     field_f64 4 (se_temp_c x)"

definition wf_sensor :: "pb_sensor \<Rightarrow> bool" where
  "wf_sensor x = (plain_text (se_id x) \<and>
     plain_text (se_label x) \<and>
     plain_text (se_kind x) \<and>
     f64_finite (se_temp_c x))"

interpretation sensor: pb_stream step_sensor
  by unfold_locales (simp_all add: step_sensor_def [abs_def])

lemma decode_encode_sensor: "wf_sensor x \<Longrightarrow> decode_sensor (encode_sensor x) = Inr x"
proof -
  assume wf: "wf_sensor x"
  have "pb_loop step_sensor empty_sensor (encode_sensor x @ bs) = pb_loop step_sensor x bs" for bs
    using wf by (cases x) (simp add: encode_sensor_def wf_sensor_def empty_sensor_def sensor.loop_fields step_sensor_def sendable_def read_message_written  del: One_nat_def)
  from this [of "[]"] show ?thesis by (simp add: decode_sensor_def sensor.loop_Nil)
qed

definition safe_sensor :: "pb_sensor \<Rightarrow> bool" where
  "safe_sensor x = (f64_finite (se_temp_c x))"

lemma decode_sensor_errors [simp]: "decode_sensor bs \<noteq> Inl NoProgress"
  unfolding decode_sensor_def by (rule sensor.loop_progress) (simp add: step_sensor_def)

lemma decode_sensor_safe: "decode_sensor bs = Inr x \<Longrightarrow> safe_sensor x"
  unfolding decode_sensor_def
proof (rule sensor.loop_invariant [where I = safe_sensor])
  show "safe_sensor v \<Longrightarrow> step_sensor field wire v bs = Inr (v', rest) \<Longrightarrow> safe_sensor v'" for field wire v bs v' rest
    by (auto simp: step_sensor_def safe_sensor_def split: if_splits dest!: read_safe )
  show "safe_sensor empty_sensor" by (simp add: safe_sensor_def empty_sensor_def)
qed

subsection \<open>Vps info\<close>

record pb_vps_info =
  vi_cpu_model :: bytes
  vi_cpu_cores :: nat
  vi_physical_cores :: nat
  vi_arch :: bytes
  vi_total_mem_mb :: nat
  vi_total_swap_mb :: nat
  vi_total_disk_gb :: f64
  vi_os :: bytes
  vi_kernel :: bytes
  vi_virtualization :: bytes
  vi_gpu_name :: "bytes option"
  vi_gpu_count :: "nat option"
  vi_gpu_accessible :: "bool option"
  vi_cpu_temp_c :: "f64 option"
  vi_gpu_temp_c :: "f64 option"
  vi_gpu_util :: "f64 option"
  vi_motherboard_temp_c :: "f64 option"
  vi_disk_temp_c :: "f64 option"
  vi_chipset_temp_c :: "f64 option"
  vi_temperature_sensors :: "pb_sensor list"
  vi_disk_list :: "pb_disk_entry list"

definition empty_vps_info :: pb_vps_info where
  "empty_vps_info = \<lparr> vi_cpu_model = [],
     vi_cpu_cores = 0,
     vi_physical_cores = 0,
     vi_arch = [],
     vi_total_mem_mb = 0,
     vi_total_swap_mb = 0,
     vi_total_disk_gb = 0,
     vi_os = [],
     vi_kernel = [],
     vi_virtualization = [],
     vi_gpu_name = None,
     vi_gpu_count = None,
     vi_gpu_accessible = None,
     vi_cpu_temp_c = None,
     vi_gpu_temp_c = None,
     vi_gpu_util = None,
     vi_motherboard_temp_c = None,
     vi_disk_temp_c = None,
     vi_chipset_temp_c = None,
     vi_temperature_sensors = [],
     vi_disk_list = [] \<rparr>"

definition step_vps_info :: "nat \<Rightarrow> nat \<Rightarrow> pb_vps_info \<Rightarrow> bytes \<Rightarrow> pb_vps_info reading" where
  "step_vps_info field wire v bs =
     (if field = 1 then reading (read_string wire bs) (\<lambda>x. v\<lparr>vi_cpu_model := x\<rparr>)
      else if field = 2 then reading (read_varint wire bs) (\<lambda>x. v\<lparr>vi_cpu_cores := x\<rparr>)
      else if field = 3 then reading (read_varint wire bs) (\<lambda>x. v\<lparr>vi_physical_cores := x\<rparr>)
      else if field = 4 then reading (read_string wire bs) (\<lambda>x. v\<lparr>vi_arch := x\<rparr>)
      else if field = 5 then reading (read_varint wire bs) (\<lambda>x. v\<lparr>vi_total_mem_mb := x\<rparr>)
      else if field = 6 then reading (read_varint wire bs) (\<lambda>x. v\<lparr>vi_total_swap_mb := x\<rparr>)
      else if field = 7 then reading (read_fixed64 wire bs) (\<lambda>x. v\<lparr>vi_total_disk_gb := x\<rparr>)
      else if field = 8 then reading (read_string wire bs) (\<lambda>x. v\<lparr>vi_os := x\<rparr>)
      else if field = 9 then reading (read_string wire bs) (\<lambda>x. v\<lparr>vi_kernel := x\<rparr>)
      else if field = 10 then reading (read_string wire bs) (\<lambda>x. v\<lparr>vi_virtualization := x\<rparr>)
      else if field = 11 then reading (read_string wire bs) (\<lambda>x. v\<lparr>vi_gpu_name := Some x\<rparr>)
      else if field = 12 then reading (read_varint wire bs) (\<lambda>x. v\<lparr>vi_gpu_count := Some x\<rparr>)
      else if field = 13 then reading (read_varint wire bs) (\<lambda>x. v\<lparr>vi_gpu_accessible := Some (x = 1)\<rparr>)
      else if field = 14 then reading (read_fixed64 wire bs) (\<lambda>x. v\<lparr>vi_cpu_temp_c := Some x\<rparr>)
      else if field = 15 then reading (read_fixed64 wire bs) (\<lambda>x. v\<lparr>vi_gpu_temp_c := Some x\<rparr>)
      else if field = 16 then reading (read_fixed64 wire bs) (\<lambda>x. v\<lparr>vi_gpu_util := Some x\<rparr>)
      else if field = 17 then reading (read_fixed64 wire bs) (\<lambda>x. v\<lparr>vi_motherboard_temp_c := Some x\<rparr>)
      else if field = 18 then reading (read_fixed64 wire bs) (\<lambda>x. v\<lparr>vi_disk_temp_c := Some x\<rparr>)
      else if field = 19 then reading (read_fixed64 wire bs) (\<lambda>x. v\<lparr>vi_chipset_temp_c := Some x\<rparr>)
      else if field = 20 then reading (read_message decode_sensor wire bs) (\<lambda>x. v\<lparr>vi_temperature_sensors := vi_temperature_sensors v @ [x]\<rparr>)
      else if field = 21 then reading (read_message decode_disk_entry wire bs) (\<lambda>x. v\<lparr>vi_disk_list := vi_disk_list v @ [x]\<rparr>)
      else reading (skip_field wire bs) (\<lambda>_. v))"

definition decode_vps_info :: "bytes \<Rightarrow> pb_error + pb_vps_info" where
  "decode_vps_info = pb_loop step_vps_info empty_vps_info"

definition encode_vps_info :: "pb_vps_info \<Rightarrow> bytes" where
  "encode_vps_info x = field_bytes 1 (vi_cpu_model x) @
     field_varint 2 (vi_cpu_cores x) @
     field_varint 3 (vi_physical_cores x) @
     field_bytes 4 (vi_arch x) @
     field_varint 5 (vi_total_mem_mb x) @
     field_varint 6 (vi_total_swap_mb x) @
     field_f64 7 (vi_total_disk_gb x) @
     field_bytes 8 (vi_os x) @
     field_bytes 9 (vi_kernel x) @
     field_bytes 10 (vi_virtualization x) @
     opt_field (field_bytes 11) (vi_gpu_name x) @
     opt_field (field_varint 12) (vi_gpu_count x) @
     opt_field (\<lambda>b. field_varint 13 (if b then 1 else 0)) (vi_gpu_accessible x) @
     opt_field (field_f64 14) (vi_cpu_temp_c x) @
     opt_field (field_f64 15) (vi_gpu_temp_c x) @
     opt_field (field_f64 16) (vi_gpu_util x) @
     opt_field (field_f64 17) (vi_motherboard_temp_c x) @
     opt_field (field_f64 18) (vi_disk_temp_c x) @
     opt_field (field_f64 19) (vi_chipset_temp_c x) @
     concat (map (\<lambda>y. field_bytes 20 (encode_sensor y)) (vi_temperature_sensors x)) @
     concat (map (\<lambda>y. field_bytes 21 (encode_disk_entry y)) (vi_disk_list x))"

definition wf_vps_info :: "pb_vps_info \<Rightarrow> bool" where
  "wf_vps_info x = (plain_text (vi_cpu_model x) \<and>
     vi_cpu_cores x \<le> max_safe_integer \<and>
     vi_physical_cores x \<le> max_safe_integer \<and>
     plain_text (vi_arch x) \<and>
     vi_total_mem_mb x \<le> max_safe_integer \<and>
     vi_total_swap_mb x \<le> max_safe_integer \<and>
     f64_finite (vi_total_disk_gb x) \<and>
     plain_text (vi_os x) \<and>
     plain_text (vi_kernel x) \<and>
     plain_text (vi_virtualization x) \<and>
     pred_option plain_text (vi_gpu_name x) \<and>
     pred_option (\<lambda>n. n \<le> max_safe_integer) (vi_gpu_count x) \<and>
     pred_option f64_finite (vi_cpu_temp_c x) \<and>
     pred_option f64_finite (vi_gpu_temp_c x) \<and>
     pred_option f64_finite (vi_gpu_util x) \<and>
     pred_option f64_finite (vi_motherboard_temp_c x) \<and>
     pred_option f64_finite (vi_disk_temp_c x) \<and>
     pred_option f64_finite (vi_chipset_temp_c x) \<and>
     list_all (sendable encode_sensor wf_sensor) (vi_temperature_sensors x) \<and>
     list_all (sendable encode_disk_entry wf_disk_entry) (vi_disk_list x))"

interpretation vps_info: pb_stream step_vps_info
  by unfold_locales (simp_all add: step_vps_info_def [abs_def])

lemma vi_gpu_name_option:
  "vi_gpu_name v = None \<Longrightarrow> pred_option plain_text y \<Longrightarrow> pb_loop step_vps_info v (opt_field (field_bytes 11) y @ bs) =
     pb_loop step_vps_info (v\<lparr>vi_gpu_name := y\<rparr>) bs"
  by (cases y; cases v; simp add: opt_field_def vps_info.loop_fields step_vps_info_def )

lemma vi_gpu_count_option:
  "vi_gpu_count v = None \<Longrightarrow> pred_option (\<lambda>n. n \<le> max_safe_integer) y \<Longrightarrow> pb_loop step_vps_info v (opt_field (field_varint 12) y @ bs) =
     pb_loop step_vps_info (v\<lparr>vi_gpu_count := y\<rparr>) bs"
  by (cases y; cases v; simp add: opt_field_def vps_info.loop_fields step_vps_info_def )

lemma vi_gpu_accessible_option:
  "vi_gpu_accessible v = None \<Longrightarrow> pb_loop step_vps_info v (opt_field (\<lambda>b. field_varint 13 (if b then 1 else 0)) y @ bs) =
     pb_loop step_vps_info (v\<lparr>vi_gpu_accessible := y\<rparr>) bs"
  by (cases y; cases v; simp add: opt_field_def vps_info.loop_fields step_vps_info_def )

lemma vi_cpu_temp_c_option:
  "vi_cpu_temp_c v = None \<Longrightarrow> pred_option f64_finite y \<Longrightarrow> pb_loop step_vps_info v (opt_field (field_f64 14) y @ bs) =
     pb_loop step_vps_info (v\<lparr>vi_cpu_temp_c := y\<rparr>) bs"
  by (cases y; cases v; simp add: opt_field_def vps_info.loop_fields step_vps_info_def )

lemma vi_gpu_temp_c_option:
  "vi_gpu_temp_c v = None \<Longrightarrow> pred_option f64_finite y \<Longrightarrow> pb_loop step_vps_info v (opt_field (field_f64 15) y @ bs) =
     pb_loop step_vps_info (v\<lparr>vi_gpu_temp_c := y\<rparr>) bs"
  by (cases y; cases v; simp add: opt_field_def vps_info.loop_fields step_vps_info_def )

lemma vi_gpu_util_option:
  "vi_gpu_util v = None \<Longrightarrow> pred_option f64_finite y \<Longrightarrow> pb_loop step_vps_info v (opt_field (field_f64 16) y @ bs) =
     pb_loop step_vps_info (v\<lparr>vi_gpu_util := y\<rparr>) bs"
  by (cases y; cases v; simp add: opt_field_def vps_info.loop_fields step_vps_info_def )

lemma vi_motherboard_temp_c_option:
  "vi_motherboard_temp_c v = None \<Longrightarrow> pred_option f64_finite y \<Longrightarrow> pb_loop step_vps_info v (opt_field (field_f64 17) y @ bs) =
     pb_loop step_vps_info (v\<lparr>vi_motherboard_temp_c := y\<rparr>) bs"
  by (cases y; cases v; simp add: opt_field_def vps_info.loop_fields step_vps_info_def )

lemma vi_disk_temp_c_option:
  "vi_disk_temp_c v = None \<Longrightarrow> pred_option f64_finite y \<Longrightarrow> pb_loop step_vps_info v (opt_field (field_f64 18) y @ bs) =
     pb_loop step_vps_info (v\<lparr>vi_disk_temp_c := y\<rparr>) bs"
  by (cases y; cases v; simp add: opt_field_def vps_info.loop_fields step_vps_info_def )

lemma vi_chipset_temp_c_option:
  "vi_chipset_temp_c v = None \<Longrightarrow> pred_option f64_finite y \<Longrightarrow> pb_loop step_vps_info v (opt_field (field_f64 19) y @ bs) =
     pb_loop step_vps_info (v\<lparr>vi_chipset_temp_c := y\<rparr>) bs"
  by (cases y; cases v; simp add: opt_field_def vps_info.loop_fields step_vps_info_def )

lemmas vps_info_options = vi_gpu_name_option vi_gpu_count_option vi_gpu_accessible_option vi_cpu_temp_c_option vi_gpu_temp_c_option vi_gpu_util_option vi_motherboard_temp_c_option vi_disk_temp_c_option vi_chipset_temp_c_option

lemma vi_temperature_sensors_repeated:
  "list_all (sendable encode_sensor wf_sensor) ys \<Longrightarrow>
   pb_loop step_vps_info v (concat (map (\<lambda>y. field_bytes 20 (encode_sensor y)) ys) @ bs) =
     pb_loop step_vps_info (v\<lparr>vi_temperature_sensors := vi_temperature_sensors v @ ys\<rparr>) bs"
  by (induction ys arbitrary: v) (simp_all add: vps_info.loop_fields step_vps_info_def read_message_written sendable_def decode_encode_sensor)

lemma vi_disk_list_repeated:
  "list_all (sendable encode_disk_entry wf_disk_entry) ys \<Longrightarrow>
   pb_loop step_vps_info v (concat (map (\<lambda>y. field_bytes 21 (encode_disk_entry y)) ys) @ bs) =
     pb_loop step_vps_info (v\<lparr>vi_disk_list := vi_disk_list v @ ys\<rparr>) bs"
  by (induction ys arbitrary: v) (simp_all add: vps_info.loop_fields step_vps_info_def read_message_written sendable_def decode_encode_disk_entry)

lemma decode_encode_vps_info: "wf_vps_info x \<Longrightarrow> decode_vps_info (encode_vps_info x) = Inr x"
proof -
  assume wf: "wf_vps_info x"
  have "pb_loop step_vps_info empty_vps_info (encode_vps_info x @ bs) = pb_loop step_vps_info x bs" for bs
    using wf by (cases x) (simp add: encode_vps_info_def wf_vps_info_def empty_vps_info_def vps_info.loop_fields step_vps_info_def vps_info_options vi_temperature_sensors_repeated vi_disk_list_repeated sendable_def read_message_written decode_encode_disk_entry decode_encode_sensor del: One_nat_def)
  from this [of "[]"] show ?thesis by (simp add: decode_vps_info_def vps_info.loop_Nil)
qed

definition safe_vps_info :: "pb_vps_info \<Rightarrow> bool" where
  "safe_vps_info x = (vi_cpu_cores x \<le> max_safe_integer \<and>
     vi_physical_cores x \<le> max_safe_integer \<and>
     vi_total_mem_mb x \<le> max_safe_integer \<and>
     vi_total_swap_mb x \<le> max_safe_integer \<and>
     f64_finite (vi_total_disk_gb x) \<and>
     pred_option (\<lambda>n. n \<le> max_safe_integer) (vi_gpu_count x) \<and>
     pred_option f64_finite (vi_cpu_temp_c x) \<and>
     pred_option f64_finite (vi_gpu_temp_c x) \<and>
     pred_option f64_finite (vi_gpu_util x) \<and>
     pred_option f64_finite (vi_motherboard_temp_c x) \<and>
     pred_option f64_finite (vi_disk_temp_c x) \<and>
     pred_option f64_finite (vi_chipset_temp_c x) \<and>
     list_all safe_sensor (vi_temperature_sensors x) \<and>
     list_all safe_disk_entry (vi_disk_list x))"

lemma decode_vps_info_errors [simp]: "decode_vps_info bs \<noteq> Inl NoProgress"
  unfolding decode_vps_info_def by (rule vps_info.loop_progress) (simp add: step_vps_info_def)

lemma decode_vps_info_safe: "decode_vps_info bs = Inr x \<Longrightarrow> safe_vps_info x"
  unfolding decode_vps_info_def
proof (rule vps_info.loop_invariant [where I = safe_vps_info])
  show "safe_vps_info v \<Longrightarrow> step_vps_info field wire v bs = Inr (v', rest) \<Longrightarrow> safe_vps_info v'" for field wire v bs v' rest
    by (auto simp: step_vps_info_def safe_vps_info_def split: if_splits dest!: read_safe intro: decode_disk_entry_safe decode_sensor_safe)
  show "safe_vps_info empty_vps_info" by (simp add: safe_vps_info_def empty_vps_info_def)
qed

subsection \<open>Ping point\<close>

record pb_ping_point =
  pp_dt :: nat
  pp_latency_ms :: "f64 option"
  pp_ok :: bool

definition empty_ping_point :: pb_ping_point where
  "empty_ping_point = \<lparr> pp_dt = 0,
     pp_latency_ms = None,
     pp_ok = False \<rparr>"

definition step_ping_point :: "nat \<Rightarrow> nat \<Rightarrow> pb_ping_point \<Rightarrow> bytes \<Rightarrow> pb_ping_point reading" where
  "step_ping_point field wire v bs =
     (if field = 1 then reading (read_varint wire bs) (\<lambda>x. v\<lparr>pp_dt := x\<rparr>)
      else if field = 2 then reading (read_fixed64 wire bs) (\<lambda>x. v\<lparr>pp_latency_ms := Some x\<rparr>)
      else if field = 3 then reading (read_varint wire bs) (\<lambda>x. v\<lparr>pp_ok := (x = 1)\<rparr>)
      else reading (skip_field wire bs) (\<lambda>_. v))"

definition decode_ping_point :: "bytes \<Rightarrow> pb_error + pb_ping_point" where
  "decode_ping_point = pb_loop step_ping_point empty_ping_point"

definition encode_ping_point :: "pb_ping_point \<Rightarrow> bytes" where
  "encode_ping_point x = field_varint 1 (pp_dt x) @
     opt_field (field_f64 2) (pp_latency_ms x) @
     field_varint 3 (if pp_ok x then 1 else 0)"

definition wf_ping_point :: "pb_ping_point \<Rightarrow> bool" where
  "wf_ping_point x = (pp_dt x \<le> max_safe_integer \<and>
     pred_option f64_finite (pp_latency_ms x))"

interpretation ping_point: pb_stream step_ping_point
  by unfold_locales (simp_all add: step_ping_point_def [abs_def])

lemma pp_latency_ms_option:
  "pp_latency_ms v = None \<Longrightarrow> pred_option f64_finite y \<Longrightarrow> pb_loop step_ping_point v (opt_field (field_f64 2) y @ bs) =
     pb_loop step_ping_point (v\<lparr>pp_latency_ms := y\<rparr>) bs"
  by (cases y; cases v; simp add: opt_field_def ping_point.loop_fields step_ping_point_def )

lemmas ping_point_options = pp_latency_ms_option

lemma decode_encode_ping_point: "wf_ping_point x \<Longrightarrow> decode_ping_point (encode_ping_point x) = Inr x"
proof -
  assume wf: "wf_ping_point x"
  have "pb_loop step_ping_point empty_ping_point (encode_ping_point x @ bs) = pb_loop step_ping_point x bs" for bs
    using wf by (cases x) (simp add: encode_ping_point_def wf_ping_point_def empty_ping_point_def ping_point.loop_fields step_ping_point_def ping_point_options sendable_def read_message_written  del: One_nat_def)
  from this [of "[]"] show ?thesis by (simp add: decode_ping_point_def ping_point.loop_Nil)
qed

definition safe_ping_point :: "pb_ping_point \<Rightarrow> bool" where
  "safe_ping_point x = (pp_dt x \<le> max_safe_integer \<and>
     pred_option f64_finite (pp_latency_ms x))"

lemma decode_ping_point_errors [simp]: "decode_ping_point bs \<noteq> Inl NoProgress"
  unfolding decode_ping_point_def by (rule ping_point.loop_progress) (simp add: step_ping_point_def)

lemma decode_ping_point_safe: "decode_ping_point bs = Inr x \<Longrightarrow> safe_ping_point x"
  unfolding decode_ping_point_def
proof (rule ping_point.loop_invariant [where I = safe_ping_point])
  show "safe_ping_point v \<Longrightarrow> step_ping_point field wire v bs = Inr (v', rest) \<Longrightarrow> safe_ping_point v'" for field wire v bs v' rest
    by (auto simp: step_ping_point_def safe_ping_point_def split: if_splits dest!: read_safe )
  show "safe_ping_point empty_ping_point" by (simp add: safe_ping_point_def empty_ping_point_def)
qed

subsection \<open>Ping series\<close>

text \<open>A ping series keeps its points as three columns.\<close>

record pb_ping_series =
  ps_target_id :: bytes
  ps_t0 :: nat
  ps_dt :: "nat list"
  ps_latency_ms :: "f64 option list"
  ps_ok :: "bool list"

definition empty_ping_series :: pb_ping_series where
  "empty_ping_series = \<lparr> ps_target_id = [], ps_t0 = 0, ps_dt = [], ps_latency_ms = [], ps_ok = [] \<rparr>"

definition push_point :: "pb_ping_point \<Rightarrow> pb_ping_series \<Rightarrow> pb_ping_series" where
  "push_point p v = v\<lparr> ps_dt := ps_dt v @ [pp_dt p], ps_latency_ms := ps_latency_ms v @ [pp_latency_ms p],
     ps_ok := ps_ok v @ [pp_ok p] \<rparr>"

definition step_ping_series :: "nat \<Rightarrow> nat \<Rightarrow> pb_ping_series \<Rightarrow> bytes \<Rightarrow> pb_ping_series reading" where
  "step_ping_series field wire v bs =
     (if field = 1 then reading (read_string wire bs) (\<lambda>x. v\<lparr>ps_target_id := x\<rparr>)
      else if field = 2 then reading (read_varint wire bs) (\<lambda>x. v\<lparr>ps_t0 := x\<rparr>)
      else if field = 3 then reading (read_message decode_ping_point wire bs) (\<lambda>x. push_point x v)
      else reading (skip_field wire bs) (\<lambda>_. v))"

definition decode_ping_series :: "bytes \<Rightarrow> pb_error + pb_ping_series" where
  "decode_ping_series = pb_loop step_ping_series empty_ping_series"

definition series_points :: "pb_ping_series \<Rightarrow> pb_ping_point list" where
  "series_points x = map (\<lambda>(d, l, k). \<lparr> pp_dt = d, pp_latency_ms = l, pp_ok = k \<rparr>)
     (zip (ps_dt x) (zip (ps_latency_ms x) (ps_ok x)))"

definition encode_ping_series :: "pb_ping_series \<Rightarrow> bytes" where
  "encode_ping_series x = field_bytes 1 (ps_target_id x) @ field_varint 2 (ps_t0 x) @
     concat (map (\<lambda>y. field_bytes 3 (encode_ping_point y)) (series_points x))"

definition wf_ping_series :: "pb_ping_series \<Rightarrow> bool" where
  "wf_ping_series x = (plain_text (ps_target_id x) \<and> ps_t0 x \<le> max_safe_integer \<and>
     length (ps_latency_ms x) = length (ps_dt x) \<and> length (ps_ok x) = length (ps_dt x) \<and>
     list_all (sendable encode_ping_point wf_ping_point) (series_points x))"

interpretation ping_series: pb_stream step_ping_series
  by unfold_locales (simp_all add: step_ping_series_def [abs_def])

definition safe_ping_series :: "pb_ping_series \<Rightarrow> bool" where
  "safe_ping_series x = (ps_t0 x \<le> max_safe_integer \<and> list_all (\<lambda>n. n \<le> max_safe_integer) (ps_dt x) \<and>
     list_all (pred_option f64_finite) (ps_latency_ms x) \<and>
     length (ps_latency_ms x) = length (ps_dt x) \<and> length (ps_ok x) = length (ps_dt x))"

lemma decode_ping_series_errors [simp]: "decode_ping_series bs \<noteq> Inl NoProgress"
  unfolding decode_ping_series_def by (rule ping_series.loop_progress) (simp add: step_ping_series_def)

lemma decode_ping_series_safe: "decode_ping_series bs = Inr x \<Longrightarrow> safe_ping_series x"
  unfolding decode_ping_series_def
proof (rule ping_series.loop_invariant [where I = safe_ping_series])
  show "safe_ping_series v \<Longrightarrow> step_ping_series field wire v bs = Inr (v', rest) \<Longrightarrow> safe_ping_series v'" for field wire v bs v' rest
    by (auto simp: step_ping_series_def safe_ping_series_def push_point_def safe_ping_point_def
        split: if_splits dest!: read_safe decode_ping_point_safe)
  show "safe_ping_series empty_ping_series" by (simp add: safe_ping_series_def empty_ping_series_def)
qed

lemma ps_points_repeated:
  "list_all (sendable encode_ping_point wf_ping_point) ys \<Longrightarrow>
   pb_loop step_ping_series v (concat (map (\<lambda>y. field_bytes 3 (encode_ping_point y)) ys) @ bs) =
     pb_loop step_ping_series (fold push_point ys v) bs"
  by (induction ys arbitrary: v)
    (simp_all add: ping_series.loop_fields step_ping_series_def read_message_written sendable_def decode_encode_ping_point)

lemma fold_push_point:
  "fold push_point ys v = v\<lparr> ps_dt := ps_dt v @ map pp_dt ys, ps_latency_ms := ps_latency_ms v @ map pp_latency_ms ys,
     ps_ok := ps_ok v @ map pp_ok ys \<rparr>"
  by (induction ys arbitrary: v) (simp_all add: push_point_def)

lemma series_points_columns:
  assumes "length l = length d" "length k = length d"
  shows "map pp_dt (series_points \<lparr>ps_target_id = i, ps_t0 = t, ps_dt = d, ps_latency_ms = l, ps_ok = k\<rparr>) = d"
    "map pp_latency_ms (series_points \<lparr>ps_target_id = i, ps_t0 = t, ps_dt = d, ps_latency_ms = l, ps_ok = k\<rparr>) = l"
    "map pp_ok (series_points \<lparr>ps_target_id = i, ps_t0 = t, ps_dt = d, ps_latency_ms = l, ps_ok = k\<rparr>) = k"
  using assms by (simp_all add: series_points_def comp_def split_beta flip: map_map [unfolded comp_def])

lemma decode_encode_ping_series: "wf_ping_series x \<Longrightarrow> decode_ping_series (encode_ping_series x) = Inr x"
proof -
  assume wf: "wf_ping_series x"
  have "pb_loop step_ping_series empty_ping_series (encode_ping_series x @ bs) = pb_loop step_ping_series x bs" for bs
    using wf by (cases x) (simp add: encode_ping_series_def wf_ping_series_def empty_ping_series_def ping_series.loop_fields
      step_ping_series_def ps_points_repeated fold_push_point series_points_columns del: One_nat_def)
  from this [of "[]"] show ?thesis by (simp add: decode_ping_series_def ping_series.loop_Nil)
qed

subsection \<open>Proxy check\<close>

record pb_proxy_check =
  pc_target_id :: bytes
  pc_name :: bytes
  pc_protocol :: bytes
  pc_ts :: nat
  pc_latency_ms :: "f64 option"
  pc_ok :: bool
  pc_stage :: bytes
  pc_error :: "bytes option"
  pc_handshake_ms :: "nat option"
  pc_first_byte_ms :: "nat option"
  pc_total_ms :: "nat option"

definition empty_proxy_check :: pb_proxy_check where
  "empty_proxy_check = \<lparr> pc_target_id = [],
     pc_name = [],
     pc_protocol = [],
     pc_ts = 0,
     pc_latency_ms = None,
     pc_ok = False,
     pc_stage = [],
     pc_error = None,
     pc_handshake_ms = None,
     pc_first_byte_ms = None,
     pc_total_ms = None \<rparr>"

definition step_proxy_check :: "nat \<Rightarrow> nat \<Rightarrow> pb_proxy_check \<Rightarrow> bytes \<Rightarrow> pb_proxy_check reading" where
  "step_proxy_check field wire v bs =
     (if field = 1 then reading (read_string wire bs) (\<lambda>x. v\<lparr>pc_target_id := x\<rparr>)
      else if field = 2 then reading (read_string wire bs) (\<lambda>x. v\<lparr>pc_name := x\<rparr>)
      else if field = 3 then reading (read_string wire bs) (\<lambda>x. v\<lparr>pc_protocol := x\<rparr>)
      else if field = 4 then reading (read_varint wire bs) (\<lambda>x. v\<lparr>pc_ts := x\<rparr>)
      else if field = 5 then reading (read_fixed64 wire bs) (\<lambda>x. v\<lparr>pc_latency_ms := Some x\<rparr>)
      else if field = 6 then reading (read_varint wire bs) (\<lambda>x. v\<lparr>pc_ok := (x = 1)\<rparr>)
      else if field = 7 then reading (read_string wire bs) (\<lambda>x. v\<lparr>pc_stage := x\<rparr>)
      else if field = 8 then reading (read_string wire bs) (\<lambda>x. v\<lparr>pc_error := Some x\<rparr>)
      else if field = 9 then reading (read_varint wire bs) (\<lambda>x. v\<lparr>pc_handshake_ms := Some x\<rparr>)
      else if field = 10 then reading (read_varint wire bs) (\<lambda>x. v\<lparr>pc_first_byte_ms := Some x\<rparr>)
      else if field = 11 then reading (read_varint wire bs) (\<lambda>x. v\<lparr>pc_total_ms := Some x\<rparr>)
      else reading (skip_field wire bs) (\<lambda>_. v))"

definition decode_proxy_check :: "bytes \<Rightarrow> pb_error + pb_proxy_check" where
  "decode_proxy_check = pb_loop step_proxy_check empty_proxy_check"

definition encode_proxy_check :: "pb_proxy_check \<Rightarrow> bytes" where
  "encode_proxy_check x = field_bytes 1 (pc_target_id x) @
     field_bytes 2 (pc_name x) @
     field_bytes 3 (pc_protocol x) @
     field_varint 4 (pc_ts x) @
     opt_field (field_f64 5) (pc_latency_ms x) @
     field_varint 6 (if pc_ok x then 1 else 0) @
     field_bytes 7 (pc_stage x) @
     opt_field (field_bytes 8) (pc_error x) @
     opt_field (field_varint 9) (pc_handshake_ms x) @
     opt_field (field_varint 10) (pc_first_byte_ms x) @
     opt_field (field_varint 11) (pc_total_ms x)"

definition wf_proxy_check :: "pb_proxy_check \<Rightarrow> bool" where
  "wf_proxy_check x = (plain_text (pc_target_id x) \<and>
     plain_text (pc_name x) \<and>
     plain_text (pc_protocol x) \<and>
     pc_ts x \<le> max_safe_integer \<and>
     pred_option f64_finite (pc_latency_ms x) \<and>
     plain_text (pc_stage x) \<and>
     pred_option plain_text (pc_error x) \<and>
     pred_option (\<lambda>n. n \<le> max_safe_integer) (pc_handshake_ms x) \<and>
     pred_option (\<lambda>n. n \<le> max_safe_integer) (pc_first_byte_ms x) \<and>
     pred_option (\<lambda>n. n \<le> max_safe_integer) (pc_total_ms x))"

interpretation proxy_check: pb_stream step_proxy_check
  by unfold_locales (simp_all add: step_proxy_check_def [abs_def])

lemma pc_latency_ms_option:
  "pc_latency_ms v = None \<Longrightarrow> pred_option f64_finite y \<Longrightarrow> pb_loop step_proxy_check v (opt_field (field_f64 5) y @ bs) =
     pb_loop step_proxy_check (v\<lparr>pc_latency_ms := y\<rparr>) bs"
  by (cases y; cases v; simp add: opt_field_def proxy_check.loop_fields step_proxy_check_def )

lemma pc_error_option:
  "pc_error v = None \<Longrightarrow> pred_option plain_text y \<Longrightarrow> pb_loop step_proxy_check v (opt_field (field_bytes 8) y @ bs) =
     pb_loop step_proxy_check (v\<lparr>pc_error := y\<rparr>) bs"
  by (cases y; cases v; simp add: opt_field_def proxy_check.loop_fields step_proxy_check_def )

lemma pc_handshake_ms_option:
  "pc_handshake_ms v = None \<Longrightarrow> pred_option (\<lambda>n. n \<le> max_safe_integer) y \<Longrightarrow> pb_loop step_proxy_check v (opt_field (field_varint 9) y @ bs) =
     pb_loop step_proxy_check (v\<lparr>pc_handshake_ms := y\<rparr>) bs"
  by (cases y; cases v; simp add: opt_field_def proxy_check.loop_fields step_proxy_check_def )

lemma pc_first_byte_ms_option:
  "pc_first_byte_ms v = None \<Longrightarrow> pred_option (\<lambda>n. n \<le> max_safe_integer) y \<Longrightarrow> pb_loop step_proxy_check v (opt_field (field_varint 10) y @ bs) =
     pb_loop step_proxy_check (v\<lparr>pc_first_byte_ms := y\<rparr>) bs"
  by (cases y; cases v; simp add: opt_field_def proxy_check.loop_fields step_proxy_check_def )

lemma pc_total_ms_option:
  "pc_total_ms v = None \<Longrightarrow> pred_option (\<lambda>n. n \<le> max_safe_integer) y \<Longrightarrow> pb_loop step_proxy_check v (opt_field (field_varint 11) y @ bs) =
     pb_loop step_proxy_check (v\<lparr>pc_total_ms := y\<rparr>) bs"
  by (cases y; cases v; simp add: opt_field_def proxy_check.loop_fields step_proxy_check_def )

lemmas proxy_check_options = pc_latency_ms_option pc_error_option pc_handshake_ms_option pc_first_byte_ms_option pc_total_ms_option

lemma decode_encode_proxy_check: "wf_proxy_check x \<Longrightarrow> decode_proxy_check (encode_proxy_check x) = Inr x"
proof -
  assume wf: "wf_proxy_check x"
  have "pb_loop step_proxy_check empty_proxy_check (encode_proxy_check x @ bs) = pb_loop step_proxy_check x bs" for bs
    using wf by (cases x) (simp add: encode_proxy_check_def wf_proxy_check_def empty_proxy_check_def proxy_check.loop_fields step_proxy_check_def proxy_check_options sendable_def read_message_written  del: One_nat_def)
  from this [of "[]"] show ?thesis by (simp add: decode_proxy_check_def proxy_check.loop_Nil)
qed

definition safe_proxy_check :: "pb_proxy_check \<Rightarrow> bool" where
  "safe_proxy_check x = (pc_ts x \<le> max_safe_integer \<and>
     pred_option f64_finite (pc_latency_ms x) \<and>
     pred_option (\<lambda>n. n \<le> max_safe_integer) (pc_handshake_ms x) \<and>
     pred_option (\<lambda>n. n \<le> max_safe_integer) (pc_first_byte_ms x) \<and>
     pred_option (\<lambda>n. n \<le> max_safe_integer) (pc_total_ms x))"

lemma decode_proxy_check_errors [simp]: "decode_proxy_check bs \<noteq> Inl NoProgress"
  unfolding decode_proxy_check_def by (rule proxy_check.loop_progress) (simp add: step_proxy_check_def)

lemma decode_proxy_check_safe: "decode_proxy_check bs = Inr x \<Longrightarrow> safe_proxy_check x"
  unfolding decode_proxy_check_def
proof (rule proxy_check.loop_invariant [where I = safe_proxy_check])
  show "safe_proxy_check v \<Longrightarrow> step_proxy_check field wire v bs = Inr (v', rest) \<Longrightarrow> safe_proxy_check v'" for field wire v bs v' rest
    by (auto simp: step_proxy_check_def safe_proxy_check_def split: if_splits dest!: read_safe )
  show "safe_proxy_check empty_proxy_check" by (simp add: safe_proxy_check_def empty_proxy_check_def)
qed

subsection \<open>Metrics\<close>

record pb_metrics =
  mx_hostname :: bytes
  mx_process_count :: nat
  mx_thread_count :: nat
  mx_cpu_percent :: f64
  mx_memory :: pb_memory
  mx_load :: pb_load
  mx_disk :: pb_disk
  mx_net :: pb_net
  mx_diskio :: pb_diskio
  mx_uptime_sec :: nat
  mx_stats :: "pb_agg_stats option"
  mx_samples :: "pb_sample list"
  mx_vps_info :: "pb_vps_info option"
  mx_ping_series :: "pb_ping_series list"
  mx_proxy_checks :: "pb_proxy_check list"

definition empty_metrics :: pb_metrics where
  "empty_metrics = \<lparr> mx_hostname = [],
     mx_process_count = 0,
     mx_thread_count = 0,
     mx_cpu_percent = 0,
     mx_memory = empty_memory,
     mx_load = empty_load,
     mx_disk = empty_disk,
     mx_net = empty_net,
     mx_diskio = empty_diskio,
     mx_uptime_sec = 0,
     mx_stats = None,
     mx_samples = [],
     mx_vps_info = None,
     mx_ping_series = [],
     mx_proxy_checks = [] \<rparr>"

definition step_metrics :: "nat \<Rightarrow> nat \<Rightarrow> pb_metrics \<Rightarrow> bytes \<Rightarrow> pb_metrics reading" where
  "step_metrics field wire v bs =
     (if field = 1 then reading (read_string wire bs) (\<lambda>x. v\<lparr>mx_hostname := x\<rparr>)
      else if field = 2 then reading (read_varint wire bs) (\<lambda>x. v\<lparr>mx_process_count := x\<rparr>)
      else if field = 3 then reading (read_varint wire bs) (\<lambda>x. v\<lparr>mx_thread_count := x\<rparr>)
      else if field = 4 then reading (read_fixed64 wire bs) (\<lambda>x. v\<lparr>mx_cpu_percent := x\<rparr>)
      else if field = 5 then reading (read_message decode_memory wire bs) (\<lambda>x. v\<lparr>mx_memory := x\<rparr>)
      else if field = 6 then reading (read_message decode_load wire bs) (\<lambda>x. v\<lparr>mx_load := x\<rparr>)
      else if field = 7 then reading (read_message decode_disk wire bs) (\<lambda>x. v\<lparr>mx_disk := x\<rparr>)
      else if field = 8 then reading (read_message decode_net wire bs) (\<lambda>x. v\<lparr>mx_net := x\<rparr>)
      else if field = 9 then reading (read_message decode_diskio wire bs) (\<lambda>x. v\<lparr>mx_diskio := x\<rparr>)
      else if field = 10 then reading (read_varint wire bs) (\<lambda>x. v\<lparr>mx_uptime_sec := x\<rparr>)
      else if field = 11 then reading (read_message decode_agg_stats wire bs) (\<lambda>x. v\<lparr>mx_stats := Some x\<rparr>)
      else if field = 12 then reading (read_message decode_sample wire bs) (\<lambda>x. v\<lparr>mx_samples := mx_samples v @ [x]\<rparr>)
      else if field = 13 then reading (read_message decode_vps_info wire bs) (\<lambda>x. v\<lparr>mx_vps_info := Some x\<rparr>)
      else if field = 14 then reading (read_message decode_ping_series wire bs) (\<lambda>x. v\<lparr>mx_ping_series := mx_ping_series v @ [x]\<rparr>)
      else if field = 15 then reading (read_message decode_proxy_check wire bs) (\<lambda>x. v\<lparr>mx_proxy_checks := mx_proxy_checks v @ [x]\<rparr>)
      else reading (skip_field wire bs) (\<lambda>_. v))"

definition decode_metrics :: "bytes \<Rightarrow> pb_error + pb_metrics" where
  "decode_metrics = pb_loop step_metrics empty_metrics"

definition encode_metrics :: "pb_metrics \<Rightarrow> bytes" where
  "encode_metrics x = field_bytes 1 (mx_hostname x) @
     field_varint 2 (mx_process_count x) @
     field_varint 3 (mx_thread_count x) @
     field_f64 4 (mx_cpu_percent x) @
     field_bytes 5 (encode_memory (mx_memory x)) @
     field_bytes 6 (encode_load (mx_load x)) @
     field_bytes 7 (encode_disk (mx_disk x)) @
     field_bytes 8 (encode_net (mx_net x)) @
     field_bytes 9 (encode_diskio (mx_diskio x)) @
     field_varint 10 (mx_uptime_sec x) @
     opt_field (\<lambda>y. field_bytes 11 (encode_agg_stats y)) (mx_stats x) @
     concat (map (\<lambda>y. field_bytes 12 (encode_sample y)) (mx_samples x)) @
     opt_field (\<lambda>y. field_bytes 13 (encode_vps_info y)) (mx_vps_info x) @
     concat (map (\<lambda>y. field_bytes 14 (encode_ping_series y)) (mx_ping_series x)) @
     concat (map (\<lambda>y. field_bytes 15 (encode_proxy_check y)) (mx_proxy_checks x))"

definition wf_metrics :: "pb_metrics \<Rightarrow> bool" where
  "wf_metrics x = (plain_text (mx_hostname x) \<and>
     mx_process_count x \<le> max_safe_integer \<and>
     mx_thread_count x \<le> max_safe_integer \<and>
     f64_finite (mx_cpu_percent x) \<and>
     sendable encode_memory wf_memory (mx_memory x) \<and>
     sendable encode_load wf_load (mx_load x) \<and>
     sendable encode_disk wf_disk (mx_disk x) \<and>
     sendable encode_net wf_net (mx_net x) \<and>
     sendable encode_diskio wf_diskio (mx_diskio x) \<and>
     mx_uptime_sec x \<le> max_safe_integer \<and>
     pred_option (sendable encode_agg_stats wf_agg_stats) (mx_stats x) \<and>
     list_all (sendable encode_sample wf_sample) (mx_samples x) \<and>
     pred_option (sendable encode_vps_info wf_vps_info) (mx_vps_info x) \<and>
     list_all (sendable encode_ping_series wf_ping_series) (mx_ping_series x) \<and>
     list_all (sendable encode_proxy_check wf_proxy_check) (mx_proxy_checks x))"

interpretation metrics: pb_stream step_metrics
  by unfold_locales (simp_all add: step_metrics_def [abs_def])

lemma mx_stats_option:
  "mx_stats v = None \<Longrightarrow> pred_option (sendable encode_agg_stats wf_agg_stats) y \<Longrightarrow> pb_loop step_metrics v (opt_field (\<lambda>y. field_bytes 11 (encode_agg_stats y)) y @ bs) =
     pb_loop step_metrics (v\<lparr>mx_stats := y\<rparr>) bs"
  by (cases y; cases v; simp add: opt_field_def metrics.loop_fields step_metrics_def read_message_written sendable_def decode_encode_agg_stats)

lemma mx_vps_info_option:
  "mx_vps_info v = None \<Longrightarrow> pred_option (sendable encode_vps_info wf_vps_info) y \<Longrightarrow> pb_loop step_metrics v (opt_field (\<lambda>y. field_bytes 13 (encode_vps_info y)) y @ bs) =
     pb_loop step_metrics (v\<lparr>mx_vps_info := y\<rparr>) bs"
  by (cases y; cases v; simp add: opt_field_def metrics.loop_fields step_metrics_def read_message_written sendable_def decode_encode_vps_info)

lemmas metrics_options = mx_stats_option mx_vps_info_option

lemma mx_samples_repeated:
  "list_all (sendable encode_sample wf_sample) ys \<Longrightarrow>
   pb_loop step_metrics v (concat (map (\<lambda>y. field_bytes 12 (encode_sample y)) ys) @ bs) =
     pb_loop step_metrics (v\<lparr>mx_samples := mx_samples v @ ys\<rparr>) bs"
  by (induction ys arbitrary: v) (simp_all add: metrics.loop_fields step_metrics_def read_message_written sendable_def decode_encode_sample)

lemma mx_ping_series_repeated:
  "list_all (sendable encode_ping_series wf_ping_series) ys \<Longrightarrow>
   pb_loop step_metrics v (concat (map (\<lambda>y. field_bytes 14 (encode_ping_series y)) ys) @ bs) =
     pb_loop step_metrics (v\<lparr>mx_ping_series := mx_ping_series v @ ys\<rparr>) bs"
  by (induction ys arbitrary: v) (simp_all add: metrics.loop_fields step_metrics_def read_message_written sendable_def decode_encode_ping_series)

lemma mx_proxy_checks_repeated:
  "list_all (sendable encode_proxy_check wf_proxy_check) ys \<Longrightarrow>
   pb_loop step_metrics v (concat (map (\<lambda>y. field_bytes 15 (encode_proxy_check y)) ys) @ bs) =
     pb_loop step_metrics (v\<lparr>mx_proxy_checks := mx_proxy_checks v @ ys\<rparr>) bs"
  by (induction ys arbitrary: v) (simp_all add: metrics.loop_fields step_metrics_def read_message_written sendable_def decode_encode_proxy_check)

lemma decode_encode_metrics: "wf_metrics x \<Longrightarrow> decode_metrics (encode_metrics x) = Inr x"
proof -
  assume wf: "wf_metrics x"
  have "pb_loop step_metrics empty_metrics (encode_metrics x @ bs) = pb_loop step_metrics x bs" for bs
    using wf by (cases x) (simp add: encode_metrics_def wf_metrics_def empty_metrics_def metrics.loop_fields step_metrics_def metrics_options mx_samples_repeated mx_ping_series_repeated mx_proxy_checks_repeated sendable_def read_message_written decode_encode_agg_stats decode_encode_disk decode_encode_diskio decode_encode_load decode_encode_memory decode_encode_net decode_encode_ping_series decode_encode_proxy_check decode_encode_sample decode_encode_vps_info del: One_nat_def)
  from this [of "[]"] show ?thesis by (simp add: decode_metrics_def metrics.loop_Nil)
qed

definition safe_metrics :: "pb_metrics \<Rightarrow> bool" where
  "safe_metrics x = (mx_process_count x \<le> max_safe_integer \<and>
     mx_thread_count x \<le> max_safe_integer \<and>
     f64_finite (mx_cpu_percent x) \<and>
     safe_memory (mx_memory x) \<and>
     safe_load (mx_load x) \<and>
     safe_disk (mx_disk x) \<and>
     safe_net (mx_net x) \<and>
     safe_diskio (mx_diskio x) \<and>
     mx_uptime_sec x \<le> max_safe_integer \<and>
     pred_option safe_agg_stats (mx_stats x) \<and>
     list_all safe_sample (mx_samples x) \<and>
     pred_option safe_vps_info (mx_vps_info x) \<and>
     list_all safe_ping_series (mx_ping_series x) \<and>
     list_all safe_proxy_check (mx_proxy_checks x))"

lemma decode_metrics_errors [simp]: "decode_metrics bs \<noteq> Inl NoProgress"
  unfolding decode_metrics_def by (rule metrics.loop_progress) (simp add: step_metrics_def)

lemma decode_metrics_safe: "decode_metrics bs = Inr x \<Longrightarrow> safe_metrics x"
  unfolding decode_metrics_def
proof (rule metrics.loop_invariant [where I = safe_metrics])
  show "safe_metrics v \<Longrightarrow> step_metrics field wire v bs = Inr (v', rest) \<Longrightarrow> safe_metrics v'" for field wire v bs v' rest
    by (auto simp: step_metrics_def safe_metrics_def split: if_splits dest!: read_safe intro: decode_agg_stats_safe decode_disk_safe decode_diskio_safe decode_load_safe decode_memory_safe decode_net_safe decode_ping_series_safe decode_proxy_check_safe decode_sample_safe decode_vps_info_safe)
  show "safe_metrics empty_metrics" by (simp add: safe_metrics_def empty_metrics_def safe_disk_def empty_disk_def safe_diskio_def empty_diskio_def safe_load_def empty_load_def safe_memory_def empty_memory_def safe_net_def empty_net_def)
qed

section \<open>The frame\<close>

record pb_body =
  pb_agent_id :: bytes
  pb_agent_label :: bytes
  pb_agent_version :: bytes
  pb_capabilities :: jsval
  pb_metrics_of :: "pb_metrics option"

definition empty_body :: pb_body where
  "empty_body = \<lparr> pb_agent_id = [], pb_agent_label = [], pb_agent_version = [], pb_capabilities = Null, pb_metrics_of = None \<rparr>"

text \<open>\<open>JSON.parse\<close> is the argument \<open>json\<close>; \<open>None\<close> is a syntax error.\<close>

definition parse_json :: "(bytes \<Rightarrow> jsval option) \<Rightarrow> bytes \<Rightarrow> pb_error + jsval" where
  "parse_json json bs = (case json bs of
     None \<Rightarrow> Inl BadCapabilities
   | Some x \<Rightarrow> Inr (case x of Obj _ \<Rightarrow> x | Arr _ \<Rightarrow> x | _ \<Rightarrow> Null))"

definition step_payload ::
  "(bytes \<Rightarrow> jsval option) \<Rightarrow> nat \<Rightarrow> nat \<Rightarrow> nat \<times> pb_body \<Rightarrow> bytes \<Rightarrow> (nat \<times> pb_body) reading" where
  "step_payload json field wire v bs =
     (let (version, body) = v in
      if field = 1 then reading (read_varint wire bs) (\<lambda>x. (x, body))
      else if field = 2 then reading (read_string wire bs) (\<lambda>x. (version, body\<lparr>pb_agent_id := x\<rparr>))
      else if field = 3 then reading (read_string wire bs) (\<lambda>x. (version, body\<lparr>pb_agent_label := x\<rparr>))
      else if field = 4 then reading (read_string wire bs) (\<lambda>x. (version, body\<lparr>pb_agent_version := x\<rparr>))
      else if field = 5 then
        reading (read_message (parse_json json) wire bs) (\<lambda>x. (version, body\<lparr>pb_capabilities := x\<rparr>))
      else if field = 6 then
        reading (read_message decode_metrics wire bs) (\<lambda>x. (version, body\<lparr>pb_metrics_of := Some x\<rparr>))
      else reading (skip_field wire bs) (\<lambda>_. (version, body)))"

definition max_frame_bytes :: nat where "max_frame_bytes = 1000000"

definition decode_agent_metrics_protobuf :: "(bytes \<Rightarrow> jsval option) \<Rightarrow> bytes \<Rightarrow> pb_error + pb_body" where
  "decode_agent_metrics_protobuf json bs =
     (if length bs > max_frame_bytes then Inl TooLarge
      else case pb_loop (step_payload json) (0, empty_body) bs of
        Inl e \<Rightarrow> Inl e
      | Inr (version, body) \<Rightarrow>
          if version \<noteq> 1 then Inl BadVersion
          else if pb_metrics_of body = None then Inl MissingMetrics
          else Inr body)"

text \<open>The agent's \<open>encode_payload\<close>; \<open>caps\<close> are the bytes \<open>serde_json::to_vec\<close> gave, if it did.\<close>

definition encode_payload :: "bytes \<Rightarrow> bytes \<Rightarrow> bytes \<Rightarrow> bytes option \<Rightarrow> pb_metrics \<Rightarrow> bytes" where
  "encode_payload agent_id agent_label agent_version caps metrics =
     field_varint 1 1 @ field_bytes 2 agent_id @ field_bytes 3 agent_label @ field_bytes 4 agent_version @
     opt_field (field_bytes 5) caps @ field_bytes 6 (encode_metrics metrics)"

interpretation payload: pb_stream "step_payload json"
  by unfold_locales (simp_all add: step_payload_def [abs_def] split_beta)

section \<open>Properties of the frame\<close>

lemma parse_json_errors [simp]: "parse_json json bs \<noteq> Inl NoProgress"
  by (simp add: parse_json_def split: option.split)

lemma capabilities_option:
  assumes "pred_option (\<lambda>c. length c \<le> max_safe_integer \<and> json c \<noteq> None) caps" "pb_capabilities b = Null"
  shows "pb_loop (step_payload json) (n, b) (opt_field (field_bytes 5) caps @ bs) =
    pb_loop (step_payload json)
      (n, b\<lparr>pb_capabilities := (case caps of None \<Rightarrow> Null | Some c \<Rightarrow> projr (parse_json json c))\<rparr>) bs"
  using assms
  by (cases caps; cases b)
    (auto simp: opt_field_def payload.loop_fields step_payload_def read_message_written parse_json_def)

lemma length_field_bytes: "length x \<le> length (field_bytes field x)"
  by (simp add: field_bytes_def)

lemma payload_roundtrip:
  fixes json :: "bytes \<Rightarrow> jsval option" and caps :: "bytes option"
  defines "capabilities \<equiv> (case caps of None \<Rightarrow> Null | Some c \<Rightarrow> projr (parse_json json c))"
  assumes "plain_text aid" "plain_text label" "plain_text version" "wf_metrics m"
    and "pred_option (\<lambda>c. json c \<noteq> None) caps"
    and size: "length (encode_payload aid label version caps m) \<le> max_frame_bytes"
  shows "decode_agent_metrics_protobuf json (encode_payload aid label version caps m) =
    Inr \<lparr> pb_agent_id = aid, pb_agent_label = label, pb_agent_version = version,
      pb_capabilities = capabilities, pb_metrics_of = Some m \<rparr>"
proof -
  have big: "max_frame_bytes \<le> max_safe_integer" by (simp add: max_frame_bytes_def max_safe_integer_def)
  have "length (encode_metrics m) \<le> length (encode_payload aid label version caps m)"
    using length_field_bytes [of "encode_metrics m" 6] by (simp add: encode_payload_def)
  then have metrics: "length (encode_metrics m) \<le> max_safe_integer" using size big by linarith
  have "length c \<le> length (encode_payload aid label version caps m)" if "caps = Some c" for c
    using that length_field_bytes [of c 5] by (simp add: encode_payload_def opt_field_def)
  then have caps: "pred_option (\<lambda>c. length c \<le> max_safe_integer \<and> json c \<noteq> None) caps"
    using assms(6) size big by (cases caps) fastforce+
  have "pb_loop (step_payload json) (0, empty_body) (encode_payload aid label version caps m @ []) =
      Inr (1, \<lparr> pb_agent_id = aid, pb_agent_label = label, pb_agent_version = version,
      pb_capabilities = capabilities, pb_metrics_of = Some m \<rparr>)"
    unfolding encode_payload_def append_assoc
    using assms(2-5) metrics caps
    by (simp add: payload.loop_fields step_payload_def empty_body_def capabilities_option capabilities_def
        read_message_written decode_encode_metrics payload.loop_Nil plain_text_def [of aid] del: One_nat_def append_Nil2)
  then show ?thesis using size by (simp add: decode_agent_metrics_protobuf_def)
qed


text \<open>Decoding always ends, on any bytes whatever, with a body or with one of the errors the code
  throws: the reading loops of the frame and of all nested messages make progress at every field.\<close>

theorem decode_terminates: "decode_agent_metrics_protobuf json bs \<noteq> Inl NoProgress"
proof -
  have "pb_loop (step_payload json) v bs \<noteq> Inl NoProgress" for v
    by (rule payload.loop_progress) (simp add: step_payload_def split: prod.split)
  then show ?thesis by (auto simp: decode_agent_metrics_protobuf_def split: sum.split)
qed

text \<open>What the decoder accepts is numerically safe: in every accepted frame all integers, at every
  depth, are at most \<open>2^53 - 1\<close> and all floating point numbers are finite, and the columns of a ping
  series have equal lengths; the frame has at most one million bytes.\<close>

theorem decode_accepts_safe:
  assumes "decode_agent_metrics_protobuf json bs = Inr body"
  shows "length bs \<le> 1000000 \<and> (\<exists>m. pb_metrics_of body = Some m \<and> safe_metrics m)"
proof -
  have "pred_option safe_metrics (pb_metrics_of (snd v))" if "pb_loop (step_payload json) (0, empty_body) bs = Inr v" for v
  proof (rule payload.loop_invariant [where I = "\<lambda>v. pred_option safe_metrics (pb_metrics_of (snd v))", OF _ _ that])
    show "pred_option safe_metrics (pb_metrics_of (snd v)) \<Longrightarrow> step_payload json field wire v bs = Inr (v', rest) \<Longrightarrow>
        pred_option safe_metrics (pb_metrics_of (snd v'))" for field wire v bs v' rest
      by (auto simp: step_payload_def split: if_splits prod.splits dest!: read_safe intro: decode_metrics_safe)
    show "pred_option safe_metrics (pb_metrics_of (snd (0, empty_body)))" by (simp add: empty_body_def)
  qed
  with assms show ?thesis
    by (fastforce simp: decode_agent_metrics_protobuf_def max_frame_bytes_def split: if_splits sum.splits)
qed

lemma skip_written:
  "n \<le> max_safe_integer \<Longrightarrow> skip_field 0 (varint n @ rest) = Inr ((), rest)"
  "skip_field 1 (le_bytes 8 k @ rest) = Inr ((), rest)"
  "length x \<le> max_safe_integer \<Longrightarrow> skip_field 2 (varint (length x) @ x @ rest) = Inr ((), rest)"
  by (simp_all add: skip_field_def)

text \<open>A newer agent can add fields: a field of a number the schema does not use, of any of the three
  kinds the agent writes, changes nothing wherever it stands between two fields of the frame.\<close>

theorem decode_ignores_unknown:
  assumes "pb_loop (step_payload json) (0, empty_body) a = Inr state"
    and "6 < field" "field \<le> 1000"
    and "chunk = field_varint field n \<or> chunk = field_f64 field d \<or> chunk = field_bytes field x"
    and "n \<le> max_safe_integer" "length (a @ chunk @ b) \<le> max_frame_bytes"
  shows "decode_agent_metrics_protobuf json (a @ chunk @ b) = decode_agent_metrics_protobuf json (a @ b)"
proof -
  have big: "max_frame_bytes \<le> max_safe_integer" by (simp add: max_frame_bytes_def max_safe_integer_def)
  have "chunk = field_bytes field x \<Longrightarrow> length x \<le> max_safe_integer"
    using assms(6) big length_field_bytes [of x field] by auto
  then have "pb_loop (step_payload json) state (chunk @ b) = pb_loop (step_payload json) state b"
    using assms(2-5) by (cases state) (auto simp: payload.loop_fields step_payload_def skip_written skip_written [unfolded One_nat_def])
  from payload.loop_ignored [OF assms(1) this] show ?thesis
    using assms(6) by (simp add: decode_agent_metrics_protobuf_def)
qed

section \<open>A concrete report\<close>

definition sample_report :: pb_metrics where
  "sample_report = empty_metrics\<lparr> mx_hostname := [0x76, 0x70, 0x73], mx_process_count := 300,
     mx_samples := [empty_sample\<lparr> sa_ts := 77, sa_load5 := Some 0 \<rparr>] \<rparr>"

lemma varint_small: "n < 128 \<Longrightarrow> varint n = [of_nat n]"
  by (subst varint.simps) simp

lemma varint_two:
  assumes "128 \<le> n" "n < 16384"
  shows "varint n = [of_nat (n mod 128 + 128), of_nat (n div 128)]"
proof -
  have "n div 128 < 128" using assms(2) by (simp add: less_mult_imp_div_less)
  with assms(1) show ?thesis by (simp add: varint.simps [of n] varint_small)
qed

lemmas encode_report = encode_metrics_def encode_memory_def encode_load_def encode_disk_def encode_net_def
  encode_diskio_def encode_sample_def encode_payload_def
  field_varint_def field_f64_def field_bytes_def enc_key_def opt_field_def
  sample_report_def empty_metrics_def empty_memory_def empty_load_def empty_disk_def empty_net_def
  empty_diskio_def empty_sample_def

lemma safe_bound: "n \<le> 100000 \<Longrightarrow> n \<le> max_safe_integer"
  by (simp add: max_safe_integer_def)

lemma wf_sample_report: "wf_metrics sample_report"
proof -
  have texts: "plain_text []" "plain_text [0x76, 0x70, 0x73]"
    by (simp_all add: plain_text_def utf8_decode_def max_safe_integer_def)
  have lens: "length (encode_memory empty_memory) \<le> 100000" "length (encode_load empty_load) \<le> 100000"
    "length (encode_disk empty_disk) \<le> 100000" "length (encode_net empty_net) \<le> 100000"
    "length (encode_diskio empty_diskio) \<le> 100000"
    "length (encode_sample (empty_sample\<lparr> sa_ts := 77, sa_load5 := Some 0 \<rparr>)) \<le> 100000"
    by (simp_all add: encode_report varint_small varint_two)
  show ?thesis
    using texts lens [THEN safe_bound]
    by (simp add: sample_report_def wf_metrics_def empty_metrics_def sendable_def wf_memory_def wf_load_def wf_disk_def
        wf_net_def wf_diskio_def wf_sample_def empty_memory_def empty_load_def empty_disk_def empty_net_def
        empty_diskio_def empty_sample_def max_safe_integer_def)
qed

lemma sample_report_size: "length (encode_payload [0x61] [] [] None sample_report) \<le> max_frame_bytes"
  by (simp add: encode_report varint_small varint_two max_frame_bytes_def)


theorem decode_accepts_safe_witness:
  "length (encode_payload [0x61] [] [] None sample_report) \<le> 1000000 \<and> safe_metrics sample_report"
proof -
  have "plain_text [0x61]" "plain_text []" by (simp_all add: plain_text_def utf8_decode_def max_safe_integer_def)
  then have "decode_agent_metrics_protobuf (\<lambda>_. None) (encode_payload [0x61] [] [] None sample_report) =
    Inr \<lparr> pb_agent_id = [0x61], pb_agent_label = [], pb_agent_version = [], pb_capabilities = Null,
      pb_metrics_of = Some sample_report \<rparr>"
    using payload_roundtrip [of "[0x61]" "[]" "[]" sample_report "\<lambda>_. None" None]
      wf_sample_report sample_report_size by simp
  from decode_accepts_safe [OF this] show ?thesis by simp
qed

theorem decode_ignores_unknown_witness:
  "decode_agent_metrics_protobuf (\<lambda>_. None) (field_varint 1 1 @ field_f64 7 5 @ []) =
   decode_agent_metrics_protobuf (\<lambda>_. None) (field_varint 1 1 @ [])"
proof (rule decode_ignores_unknown [where state = "(1, empty_body)" and field = 7 and d = 5 and n = 0 and x = "[]"])
  have "pb_loop (step_payload (\<lambda>_. None)) (0, empty_body) (field_varint 1 1 @ []) = Inr (1, empty_body)"
    by (simp add: payload.loop_fields step_payload_def payload.loop_Nil del: One_nat_def append_Nil2)
  then show "pb_loop (step_payload (\<lambda>_. None)) (0, empty_body) (field_varint 1 1) = Inr (1, empty_body)" by simp
  show "length (field_varint 1 1 @ field_f64 7 5 @ []) \<le> max_frame_bytes"
    by (simp add: field_varint_def field_f64_def enc_key_def varint_small max_frame_bytes_def)
qed simp_all

end
