(* ===== verification/TelemetryCodec.thy ===== *)
theory TelemetryCodec
  imports Utils "HOL-Library.Product_Lexorder"
begin

text \<open>
  The data the telemetry buffer of \<open>worker/src/telemetry-buffer.js\<close> keeps: reports grouped into
  five-minute chunks (\<open>groupByChunk\<close>), merged with last write winning (\<open>mergeBuffer\<close>), and
  stored as columns (\<open>compactBuffer\<close>) that are turned back into points when they are read.

  Points, pings and proxy checks are records of the fields the code reads, with integer times as
  \<open>processAgentMetricsPayload\<close> produces them, so \<open>Number(x.ts || 0)\<close> is the time itself.
  \<open>coll\<close> is a collation key: \<open>a.localeCompare(b)\<close> compares \<open>coll a\<close> with \<open>coll b\<close> (the
  locale tables are the platform's). A \<open>Map\<close> is an association list.
\<close>

section \<open>Samples\<close>

record metric_point =
  mt_ts :: int
  mt_fields :: "(string \<times> jsnum) list"
  mt_sensors :: "jsval list"

record ping =
  pg_target :: string
  pg_ts :: int
  pg_latency :: "jsnum option"
  pg_ok :: jsnum

record proxy_check =
  px_target :: string
  px_name :: string
  px_protocol :: string
  px_ts :: int
  px_latency :: "jsnum option"
  px_handshake :: "jsnum option"
  px_first_byte :: "jsnum option"
  px_total :: "jsnum option"
  px_ok :: jsnum
  px_stage :: string
  px_error :: "string option"

section \<open>Chunks\<close>

definition hour_sec :: int where "hour_sec = 3600"
definition chunk_sec :: int where "chunk_sec = 300"

definition hour_start :: "int \<Rightarrow> int" where
  "hour_start t = t div hour_sec * hour_sec"

definition chunk_start :: "int \<Rightarrow> int" where
  "chunk_start t = t div chunk_sec * chunk_sec"

record sample_group =
  sg_points :: "metric_point list"
  sg_pings :: "ping list"
  sg_checks :: "proxy_check list"

definition empty_group :: sample_group where
  "empty_group = \<lparr> sg_points = [], sg_pings = [], sg_checks = [] \<rparr>"

text \<open>\<open>bucket(ts).points.push(point)\<close>\<close>

definition bucket_push ::
  "(sample_group \<Rightarrow> sample_group) \<Rightarrow> int \<Rightarrow> (int \<times> sample_group) list \<Rightarrow> (int \<times> sample_group) list" where
  "bucket_push f ts grouped =
     (let chunk = chunk_start ts;
          g = (case map_of grouped chunk of Some g \<Rightarrow> g | None \<Rightarrow> empty_group)
      in AList.update chunk (f g) grouped)"

definition group_by_chunk ::
  "metric_point list \<Rightarrow> ping list \<Rightarrow> proxy_check list \<Rightarrow> (int \<times> sample_group) list" where
  "group_by_chunk points pings checks =
     (let g1 = fold (\<lambda>p g. if 0 < mt_ts p then bucket_push (\<lambda>s. s\<lparr>sg_points := sg_points s @ [p]\<rparr>) (mt_ts p) g else g)
                 points [];
          g2 = fold (\<lambda>p g. if 0 < pg_ts p \<and> pg_target p \<noteq> [] then bucket_push (\<lambda>s. s\<lparr>sg_pings := sg_pings s @ [p]\<rparr>) (pg_ts p) g else g)
                 pings g1
      in fold (\<lambda>c g. if 0 < px_ts c \<and> px_target c \<noteq> [] then bucket_push (\<lambda>s. s\<lparr>sg_checks := sg_checks s @ [c]\<rparr>) (px_ts c) g else g)
           checks g2)"

section \<open>Columns\<close>

definition sensor_kinds :: "string list" where
  "sensor_kinds = [''cpu'', ''gpu'', ''motherboard'', ''disk'', ''chipset'', ''other'']"

record sensor =
  sn_id :: string
  sn_label :: string
  sn_kind :: string
  sn_temp :: jsnum

definition normalize_buffered_temperature_sensor :: "jsval \<Rightarrow> sensor option" where
  "normalize_buffered_temperature_sensor s =
     (let sid = take 64 (js_trim (str_or_empty (js_get s ''id'')));
          label = take 128 (js_trim (str_or_empty (js_get s ''label'')));
          raw = js_get s ''temp_c'';
          temp = js_Number raw;
          kind = str_or_empty (js_get s ''kind'')
      in if sid = [] \<or> label = [] \<or> js_nullish raw \<or> raw = Str [] \<or> (\<exists>b \<in> {True, False}. raw = Bool b) \<or> \<not> js_isFinite temp
         then None
         else Some \<lparr> sn_id = sid, sn_label = label, sn_kind = (if kind \<in> set sensor_kinds then kind else ''other''),
                sn_temp = js_max (jsint (- 100)) (js_min (jsint 1000) temp) \<rparr>)"

definition sensor_json :: "sensor \<Rightarrow> jsval" where
  "sensor_json s = Obj [(''id'', Str (sn_id s)), (''label'', Str (sn_label s)), (''kind'', Str (sn_kind s)), (''temp_c'', Num (sn_temp s))]"

record sensor_series =
  ss_id :: string
  ss_label :: string
  ss_kind :: string
  ss_temp :: "jsnum option list"

definition temperature_sensor_series :: "metric_point list \<Rightarrow> sensor_series list" where
  "temperature_sensor_series points =
     (let found = concat (map (\<lambda>p. List.map_filter normalize_buffered_temperature_sensor (take 16 (mt_sensors p))) points);
          sensors = fold (\<lambda>s m. if map_of m (sn_id s) = None then m @ [(sn_id s, s)] else m) found []
      in map (\<lambda>(_, s). \<lparr> ss_id = sn_id s, ss_label = sn_label s, ss_kind = sn_kind s,
           ss_temp = map (\<lambda>p.
             (case find (\<lambda>item. js_trim (str_or_empty (js_get item ''id'')) = sn_id s) (mt_sensors p) of
                None \<Rightarrow> None
              | Some item \<Rightarrow> map_option sn_temp (normalize_buffered_temperature_sensor item))) points \<rparr>) sensors)"

record metric_columns =
  mc_t0 :: int
  mc_dt :: "int list"
  mc_fields :: "string list"
  mc_values :: "(string \<times> jsnum list) list"
  mc_sensors :: "sensor_series list"

text \<open>\<open>Number(point[field] || 0)\<close>\<close>

definition field_value :: "metric_point \<Rightarrow> string \<Rightarrow> jsnum" where
  "field_value p f = (case map_of (mt_fields p) f of Some n \<Rightarrow> num_or n (Fin 0) | None \<Rightarrow> Fin 0)"

definition metric_points_to_columns :: "metric_point list \<Rightarrow> metric_columns" where
  "metric_points_to_columns points =
     (let ps = sort_key mt_ts points;
          fields = set_order (concat (map (\<lambda>p. map fst (mt_fields p)) ps));
          t0 = (case ps of [] \<Rightarrow> 0 | p # _ \<Rightarrow> mt_ts p)
      in \<lparr> mc_t0 = t0, mc_dt = map (\<lambda>p. mt_ts p - t0) ps, mc_fields = fields,
           mc_values = map (\<lambda>f. (f, map (\<lambda>p. field_value p f) ps)) fields,
           mc_sensors = temperature_sensor_series ps \<rparr>)"

text \<open>\<open>xs?.[i] || 0\<close> and \<open>xs?.[i]\<close>, out of range included\<close>

definition nth_num :: "jsnum list \<Rightarrow> nat \<Rightarrow> jsnum" where
  "nth_num xs i = (if i < length xs then num_or (xs ! i) (Fin 0) else Fin 0)"

definition nth_opt :: "'a option list \<Rightarrow> nat \<Rightarrow> 'a option" where
  "nth_opt xs i = (if i < length xs then xs ! i else None)"

definition column_point :: "metric_columns \<Rightarrow> nat \<Rightarrow> metric_point" where
  "column_point c i =
     \<lparr> mt_ts = mc_t0 c + mc_dt c ! i,
       mt_fields = map (\<lambda>f. (f, nth_num (case map_of (mc_values c) f of Some xs \<Rightarrow> xs | None \<Rightarrow> []) i)) (mc_fields c),
       mt_sensors = List.map_filter (\<lambda>s. map_option sensor_json (normalize_buffered_temperature_sensor
           (Obj [(''id'', Str (ss_id s)), (''label'', Str (ss_label s)), (''kind'', Str (ss_kind s)),
             (''temp_c'', opt_json Num (nth_opt (ss_temp s) i))]))) (mc_sensors c) \<rparr>"

definition metrics_from_columns :: "metric_columns \<Rightarrow> metric_point list" where
  "metrics_from_columns c = map (column_point c) [0..<length (mc_dt c)]"

record ping_series =
  sr_target :: string
  sr_t0 :: int
  sr_dt :: "int list"
  sr_latency :: "jsnum option list"
  sr_ok :: "jsnum list"

text \<open>\<open>grouped\<close>: samples by target, in order of first appearance\<close>

definition group_by_target :: "('a \<Rightarrow> string) \<Rightarrow> 'a list \<Rightarrow> (string \<times> 'a list) list" where
  "group_by_target target xs =
     fold (\<lambda>x m. if target x = [] then m
                 else AList.update (target x) ((case map_of m (target x) of Some l \<Rightarrow> l | None \<Rightarrow> []) @ [x]) m) xs []"

definition ping_points_to_series :: "(string \<Rightarrow> string) \<Rightarrow> ping list \<Rightarrow> ping_series list" where
  "ping_points_to_series coll pings =
     map (\<lambda>(tid, l0).
        let l = sort_key pg_ts l0; t0 = (case l of [] \<Rightarrow> 0 | p # _ \<Rightarrow> pg_ts p)
        in \<lparr> sr_target = tid, sr_t0 = t0, sr_dt = map (\<lambda>p. pg_ts p - t0) l,
             sr_latency = map pg_latency l, sr_ok = map (\<lambda>p. num_or (pg_ok p) (Fin 0)) l \<rparr>)
       (sort_key (\<lambda>e. coll (fst e)) (group_by_target pg_target pings))"

definition series_pings :: "ping_series \<Rightarrow> ping list" where
  "series_pings s = map (\<lambda>i. \<lparr> pg_target = sr_target s, pg_ts = sr_t0 s + sr_dt s ! i,
     pg_latency = nth_opt (sr_latency s) i, pg_ok = nth_num (sr_ok s) i \<rparr>) [0..<length (sr_dt s)]"

definition pings_from_series :: "ping_series list \<Rightarrow> ping list" where
  "pings_from_series ss = concat (map series_pings ss)"

record check_series =
  cr_target :: string
  cr_name :: string
  cr_protocol :: string
  cr_t0 :: int
  cr_dt :: "int list"
  cr_latency :: "jsnum option list"
  cr_handshake :: "jsnum option list"
  cr_first_byte :: "jsnum option list"
  cr_total :: "jsnum option list"
  cr_ok :: "jsnum list"
  cr_stage :: "string list"
  cr_error :: "string option list"

definition proxy_checks_to_series :: "(string \<Rightarrow> string) \<Rightarrow> proxy_check list \<Rightarrow> check_series list" where
  "proxy_checks_to_series coll checks =
     map (\<lambda>(tid, l0).
        let l = sort_key px_ts l0; t0 = (case l of [] \<Rightarrow> 0 | p # _ \<Rightarrow> px_ts p);
            name = (case l of [] \<Rightarrow> tid | p # _ \<Rightarrow> if px_name p = [] then tid else px_name p);
            protocol = (case l of [] \<Rightarrow> [] | p # _ \<Rightarrow> px_protocol p)
        in \<lparr> cr_target = tid, cr_name = take 96 name, cr_protocol = take 24 protocol, cr_t0 = t0,
             cr_dt = map (\<lambda>p. px_ts p - t0) l,
             cr_latency = map px_latency l, cr_handshake = map px_handshake l,
             cr_first_byte = map px_first_byte l, cr_total = map px_total l,
             cr_ok = map (\<lambda>p. num_or (px_ok p) (Fin 0)) l,
             cr_stage = map (\<lambda>p. take 32 (px_stage p)) l,
             cr_error = map (\<lambda>p. map_option (take 64) (px_error p)) l \<rparr>)
       (sort_key (\<lambda>e. coll (fst e)) (group_by_target px_target checks))"

definition nth_str :: "string list \<Rightarrow> nat \<Rightarrow> string" where
  "nth_str xs i = (if i < length xs then xs ! i else [])"

definition series_checks :: "check_series \<Rightarrow> proxy_check list" where
  "series_checks s =
     (if cr_target s = [] \<or> cr_t0 s = 0 then []
      else map (\<lambda>i. \<lparr> px_target = cr_target s, px_name = (if cr_name s = [] then cr_target s else cr_name s),
        px_protocol = cr_protocol s, px_ts = cr_t0 s + cr_dt s ! i,
        px_latency = nth_opt (cr_latency s) i, px_handshake = nth_opt (cr_handshake s) i,
        px_first_byte = nth_opt (cr_first_byte s) i, px_total = nth_opt (cr_total s) i,
        px_ok = nth_num (cr_ok s) i, px_stage = nth_str (cr_stage s) i, px_error = nth_opt (cr_error s) i \<rparr>)
        [0..<length (cr_dt s)])"

definition checks_from_series :: "check_series list \<Rightarrow> proxy_check list" where
  "checks_from_series ss = concat (map series_checks ss)"

section \<open>Buffers\<close>

text \<open>A stored buffer is plain (the legacy hour form and a merge's result) or compact.\<close>

record plain_buffer =
  pb_agent :: string
  pb_chunk :: int
  pb_hour :: int
  pb_points :: "metric_point list"
  pb_pings :: "ping list"
  pb_checks :: "proxy_check list"

record compact_buffer =
  cb_agent :: string
  cb_chunk :: int
  cb_hour :: int
  cb_metrics :: metric_columns
  cb_ping_series :: "ping_series list"
  cb_check_series :: "check_series list"

datatype stored_buffer = Plain plain_buffer | Compact compact_buffer

definition empty_buffer :: "string \<Rightarrow> int \<Rightarrow> plain_buffer" where
  "empty_buffer agent_id start = \<lparr> pb_agent = agent_id, pb_chunk = start, pb_hour = hour_start start,
     pb_points = [], pb_pings = [], pb_checks = [] \<rparr>"

definition compact_of :: "(string \<Rightarrow> string) \<Rightarrow> plain_buffer \<Rightarrow> stored_buffer" where
  "compact_of coll b = Compact \<lparr> cb_agent = pb_agent b, cb_chunk = pb_chunk b, cb_hour = pb_hour b,
     cb_metrics = metric_points_to_columns (pb_points b),
     cb_ping_series = ping_points_to_series coll (pb_pings b),
     cb_check_series = proxy_checks_to_series coll (pb_checks b) \<rparr>"

definition buffer_agent :: "stored_buffer \<Rightarrow> string" where
  "buffer_agent v = (case v of Plain b \<Rightarrow> pb_agent b | Compact b \<Rightarrow> cb_agent b)"

definition buffer_points :: "stored_buffer \<Rightarrow> metric_point list" where
  "buffer_points v = (case v of Plain b \<Rightarrow> pb_points b | Compact b \<Rightarrow> metrics_from_columns (cb_metrics b))"

definition buffer_pings :: "stored_buffer \<Rightarrow> ping list" where
  "buffer_pings v = (case v of Plain b \<Rightarrow> pb_pings b | Compact b \<Rightarrow> pings_from_series (cb_ping_series b))"

definition buffer_checks :: "stored_buffer \<Rightarrow> proxy_check list" where
  "buffer_checks v = (case v of Plain b \<Rightarrow> pb_checks b | Compact b \<Rightarrow> checks_from_series (cb_check_series b))"

text \<open>\<open>incoming\<close> is a group of samples or another buffer; its samples are the arguments.\<close>

definition in_span :: "int \<Rightarrow> int \<Rightarrow> int \<Rightarrow> bool" where
  "in_span start duration ts = (start \<le> ts \<and> ts < start + duration)"

definition merge_buffer ::
  "(string \<Rightarrow> string) \<Rightarrow> stored_buffer \<Rightarrow> sample_group \<Rightarrow> string \<Rightarrow> int \<Rightarrow> int \<Rightarrow> plain_buffer" where
  "merge_buffer coll existing incoming agent_id start duration =
     (let by_point = upserts mt_ts (filter (\<lambda>p. in_span start duration (mt_ts p))
            (buffer_points existing @ sg_points incoming)) [];
          by_ping = upserts (\<lambda>p. (pg_target p, pg_ts p)) (filter (\<lambda>p. pg_target p \<noteq> [] \<and> in_span start duration (pg_ts p))
            (buffer_pings existing @ sg_pings incoming)) [];
          by_check = upserts (\<lambda>c. (px_target c, px_ts c)) (filter (\<lambda>c. px_target c \<noteq> [] \<and> in_span start duration (px_ts c))
            (buffer_checks existing @ sg_checks incoming)) []
      in \<lparr> pb_agent = agent_id, pb_chunk = start, pb_hour = hour_start start,
           pb_points = sort_key mt_ts (map snd by_point),
           pb_pings = sort_key (\<lambda>p. (pg_ts p, coll (pg_target p))) (map snd by_ping),
           pb_checks = sort_key (\<lambda>c. (px_ts c, coll (px_target c))) (map snd by_check) \<rparr>)"

definition buffer_group :: "stored_buffer \<Rightarrow> sample_group" where
  "buffer_group v = \<lparr> sg_points = buffer_points v, sg_pings = buffer_pings v, sg_checks = buffer_checks v \<rparr>"

section \<open>Columns keep what was stored\<close>

text \<open>
  The contract between the buffer and a column format: packing valid samples and unpacking them
  gives samples with the same keys and the same observable content, each as often. Under it a
  merge into a packed buffer is an overwrite of the keyed view of that buffer.
\<close>

locale keyed_columns =
  fixes key :: "'a \<Rightarrow> 'k" and obs :: "'a \<Rightarrow> 'o" and valid :: "'a \<Rightarrow> bool"
    and pack :: "'a list \<Rightarrow> 's" and unpack :: "'s \<Rightarrow> 'a list"
  assumes unpack_pack: "list_all valid xs \<Longrightarrow>
      mset (map (\<lambda>x. (key x, obs x)) (unpack (pack xs))) = mset (map (\<lambda>x. (key x, obs x)) xs)"
    and unpack_valid: "list_all valid xs \<Longrightarrow> list_all valid (unpack (pack xs))"
begin

lemma unpack_pairs:
  assumes "list_all valid xs"
  shows "(\<lambda>x. (key x, obs x)) ` set (unpack (pack xs)) = (\<lambda>x. (key x, obs x)) ` set xs"
  using arg_cong [OF unpack_pack [OF assms], of set_mset] by simp

lemma unpack_distinct:
  assumes "list_all valid xs" "distinct (map key xs)"
  shows "distinct (map key (unpack (pack xs)))"
proof -
  have "mset (map key (unpack (pack xs))) = mset (map key xs)"
    using arg_cong [OF unpack_pack [OF assms(1)], of "image_mset fst"] by (simp add: comp_def flip: mset_map)
  then show ?thesis using assms(2) mset_eq_imp_distinct_iff by blast
qed

definition view :: "'s \<Rightarrow> 'k \<Rightarrow> 'o option" where
  "view s k = map_option obs (seek key (unpack s) k)"

lemma view_pack:
  "list_all valid xs \<Longrightarrow> distinct (map key xs) \<Longrightarrow> view (pack xs) k = map_option obs (seek key xs k)"
  unfolding view_def by (rule seek_pairs) (simp_all add: unpack_distinct unpack_pairs)

lemma seek_merged:
  assumes "distinct (map key old)" "\<And>x. P x \<longleftrightarrow> Q (key x)"
  shows "seek key (sort_key order (latest key (filter P (old @ new)))) k =
    (if Q k then (case seek key (rev new) k of Some x \<Rightarrow> Some x | None \<Rightarrow> seek key old k) else None)"
proof -
  let ?l = "latest key (filter P (old @ new))"
  have "seek key (sort_key order ?l) k = seek key ?l k"
    by (rule seek_cong_set) simp_all
  also have "\<dots> = seek key (filter P (rev new @ rev old)) k"
    by (simp add: seek_latest rev_filter [symmetric])
  also have "\<dots> = (if Q k then seek key (rev new @ rev old) k else None)"
    using assms(2) by (rule seek_filter)
  finally show ?thesis
    using assms(1) by (simp add: seek_append seek_rev split: option.split)
qed

end

lemma group_update_flat:
  "mset (concat (map snd (AList.update k ((case map_of m k of Some l \<Rightarrow> l | None \<Rightarrow> []) @ [x]) m))) =
   add_mset x (mset (concat (map snd m)))"
  by (induction m) auto

lemma group_by_target_flat:
  "mset (concat (map snd (group_by_target t xs))) = mset (filter (\<lambda>x. t x \<noteq> []) xs)"
proof -
  have "mset (concat (map snd (fold (\<lambda>x m. if t x = [] then m
           else AList.update (t x) ((case map_of m (t x) of Some l \<Rightarrow> l | None \<Rightarrow> []) @ [x]) m) xs m))) =
        mset (concat (map snd m)) + mset (filter (\<lambda>x. t x \<noteq> []) xs)" for m
    by (induction xs arbitrary: m) (simp_all add: group_update_flat)
  from this [of "[]"] show ?thesis by (simp add: group_by_target_def)
qed

lemma group_update_own:
  assumes own: "\<forall>(k, l) \<in> set m. k \<noteq> [] \<and> l \<noteq> [] \<and> (\<forall>x \<in> set l. t x = k)" and x: "t x \<noteq> []"
  shows "\<forall>(k, l) \<in> set (AList.update (t x) ((case map_of m (t x) of Some l \<Rightarrow> l | None \<Rightarrow> []) @ [x]) m).
    k \<noteq> [] \<and> l \<noteq> [] \<and> (\<forall>x \<in> set l. t x = k)"
proof -
  define old where "old = (case map_of m (t x) of Some l \<Rightarrow> l | None \<Rightarrow> [])"
  have old: "t y = t x" if "y \<in> set old" for y
  proof (cases "map_of m (t x)")
    case None
    with that show ?thesis by (simp add: old_def)
  next
    case (Some l)
    then have "(t x, l) \<in> set m" by (rule map_of_SomeD)
    moreover have "y \<in> set l" using that Some by (simp add: old_def)
    ultimately show ?thesis using own by blast
  qed
  have "k \<noteq> [] \<and> l \<noteq> [] \<and> (\<forall>y \<in> set l. t y = k)" if "(k, l) \<in> set (AList.update (t x) (old @ [x]) m)" for k l
  proof -
    from that consider "k = t x" "l = old @ [x]" | "(k, l) \<in> set m"
      using set_update_subset [of "t x" "old @ [x]" m] by blast
    then show ?thesis
    proof cases
      case 1
      then have "\<forall>y \<in> set l. t y = k" using old by auto
      with 1 x show ?thesis by simp
    next
      case 2
      with own show ?thesis by blast
    qed
  qed
  then show ?thesis unfolding old_def by blast
qed

lemma group_by_target_own:
  "(k, l) \<in> set (group_by_target t xs) \<Longrightarrow> k \<noteq> [] \<and> l \<noteq> [] \<and> (\<forall>x \<in> set l. t x = k)"
proof -
  have "\<forall>(k, l) \<in> set m. k \<noteq> [] \<and> l \<noteq> [] \<and> (\<forall>x \<in> set l. t x = k) \<Longrightarrow>
    \<forall>(k, l) \<in> set (fold (\<lambda>x m. if t x = [] then m
           else AList.update (t x) ((case map_of m (t x) of Some l \<Rightarrow> l | None \<Rightarrow> []) @ [x]) m) xs m).
      k \<noteq> [] \<and> l \<noteq> [] \<and> (\<forall>x \<in> set l. t x = k)" for m
  proof (induction xs arbitrary: m)
    case (Cons x xs)
    then show ?case using group_update_own [OF Cons.prems, of x] by (cases "t x = []") simp_all
  qed simp
  from this [of "[]"] have "\<forall>(k, l) \<in> set (group_by_target t xs). k \<noteq> [] \<and> l \<noteq> [] \<and> (\<forall>x \<in> set l. t x = k)"
    by (simp add: group_by_target_def)
  moreover assume "(k, l) \<in> set (group_by_target t xs)"
  ultimately show ?thesis by blast
qed

text \<open>Concatenating the series of all groups, in any order of the groups\<close>

lemma mset_concat_groups:
  assumes "\<And>e. e \<in> set gs \<Longrightarrow> mset (g e) = mset (map f (snd e))"
  shows "mset (concat (map g (sort_key order gs))) = mset (map f (concat (map snd gs)))"
proof -
  have "mset (concat (map g (sort_key order gs))) = (\<Sum>e \<in># mset gs. mset (g e))"
    by (simp add: mset_concat comp_def flip: sum_mset_sum_list)
  also have "\<dots> = (\<Sum>e \<in># mset gs. mset (map f (snd e)))"
    by (rule arg_cong [of _ _ sum_mset], rule image_mset_cong) (simp add: assms)
  also have "\<dots> = mset (map f (concat (map snd gs)))"
    by (simp add: mset_concat map_concat comp_def flip: sum_mset_sum_list)
  finally show ?thesis .
qed

lemma num_or_idem [simp]: "num_or (num_or n (Fin 0)) (Fin 0) = num_or n (Fin 0)"
  by (simp add: num_or_def)

lemma map_upt_length: "map (\<lambda>i. f (xs ! i)) [0..<length xs] = map f xs"
  by (rule nth_equalityI) simp_all

lemma nth_opt_map [simp]: "i < length xs \<Longrightarrow> nth_opt (map f xs) i = f (xs ! i)"
  by (simp add: nth_opt_def)

lemma nth_num_map [simp]: "i < length xs \<Longrightarrow> nth_num (map f xs) i = num_or (f (xs ! i)) (Fin 0)"
  by (simp add: nth_num_def)

lemma nth_str_map [simp]: "i < length xs \<Longrightarrow> nth_str (map f xs) i = f (xs ! i)"
  by (simp add: nth_str_def)

definition norm_ping :: "ping \<Rightarrow> ping" where
  "norm_ping p = p\<lparr> pg_ok := num_or (pg_ok p) (Fin 0) \<rparr>"

lemma series_of_group:
  assumes "\<forall>x \<in> set l. pg_target x = tid"
  shows "series_pings \<lparr> sr_target = tid, sr_t0 = t0, sr_dt = map (\<lambda>p. pg_ts p - t0) l,
      sr_latency = map pg_latency l, sr_ok = map (\<lambda>p. num_or (pg_ok p) (Fin 0)) l \<rparr> = map norm_ping l"
proof (rule nth_equalityI)
  fix i assume "i < length (series_pings \<lparr> sr_target = tid, sr_t0 = t0, sr_dt = map (\<lambda>p. pg_ts p - t0) l,
      sr_latency = map pg_latency l, sr_ok = map (\<lambda>p. num_or (pg_ok p) (Fin 0)) l \<rparr>)"
  then have i: "i < length l" by (simp add: series_pings_def)
  then have "pg_target (l ! i) = tid" using assms by simp
  with i show "series_pings \<lparr> sr_target = tid, sr_t0 = t0, sr_dt = map (\<lambda>p. pg_ts p - t0) l,
      sr_latency = map pg_latency l, sr_ok = map (\<lambda>p. num_or (pg_ok p) (Fin 0)) l \<rparr> ! i = map norm_ping l ! i"
    by (simp add: series_pings_def norm_ping_def)
qed (simp add: series_pings_def)

lemma pings_series_mset:
  "mset (pings_from_series (ping_points_to_series coll ps)) =
   mset (map norm_ping (filter (\<lambda>p. pg_target p \<noteq> []) ps))"
proof -
  let ?gs = "group_by_target pg_target ps"
  have g: "mset (series_pings (case e of (tid, l0) \<Rightarrow>
        let l = sort_key pg_ts l0; t0 = (case l of [] \<Rightarrow> 0 | p # _ \<Rightarrow> pg_ts p)
        in \<lparr> sr_target = tid, sr_t0 = t0, sr_dt = map (\<lambda>p. pg_ts p - t0) l,
             sr_latency = map pg_latency l, sr_ok = map (\<lambda>p. num_or (pg_ok p) (Fin 0)) l \<rparr>)) =
      mset (map norm_ping (snd e))" if "e \<in> set ?gs" for e
  proof -
    obtain tid l0 where e: "e = (tid, l0)" by (cases e)
    then have own: "\<forall>x \<in> set (sort_key pg_ts l0). pg_target x = tid"
      using group_by_target_own [of tid l0 pg_target ps] that by simp
    show ?thesis by (simp add: e Let_def series_of_group [OF own])
  qed
  have "mset (pings_from_series (ping_points_to_series coll ps)) = mset (map norm_ping (concat (map snd ?gs)))"
    unfolding pings_from_series_def ping_points_to_series_def map_map comp_def
    by (rule mset_concat_groups) (rule g)
  also have "\<dots> = image_mset norm_ping (mset (concat (map snd ?gs)))" by (rule mset_map)
  also have "\<dots> = mset (map norm_ping (filter (\<lambda>p. pg_target p \<noteq> []) ps))"
    by (simp only: group_by_target_flat mset_map)
  finally show ?thesis .
qed

lemma map_of_graph: "map_of (map (\<lambda>f. (f, g f)) xs) k = (if k \<in> set xs then Some (g k) else None)"
  by (induction xs) auto

lemma metrics_columns_points:
  "map (\<lambda>p. (mt_ts p, field_value p)) (metrics_from_columns (metric_points_to_columns ps)) =
   map (\<lambda>p. (mt_ts p, field_value p)) (sort_key mt_ts ps)"
proof (rule nth_equalityI)
  let ?ps = "sort_key mt_ts ps" and ?c = "metric_points_to_columns ps"
  have len: "length (mc_dt ?c) = length ps" by (simp add: metric_points_to_columns_def Let_def)
  then show "length (map (\<lambda>p. (mt_ts p, field_value p)) (metrics_from_columns ?c)) =
      length (map (\<lambda>p. (mt_ts p, field_value p)) ?ps)" by (simp add: metrics_from_columns_def)
  fix i assume "i < length (map (\<lambda>p. (mt_ts p, field_value p)) (metrics_from_columns ?c))"
  then have i: "i < length ps" by (simp add: metrics_from_columns_def len)
  have ts: "mt_ts (column_point ?c i) = mt_ts (?ps ! i)"
    using i by (simp add: column_point_def metric_points_to_columns_def Let_def)
  have "field_value (column_point ?c i) f = field_value (?ps ! i) f" for f
  proof (cases "f \<in> set (mc_fields ?c)")
    case True
    then have "map_of (mc_values ?c) f = Some (map (\<lambda>p. field_value p f) ?ps)"
      by (simp add: metric_points_to_columns_def Let_def map_of_graph)
    then have "map_of (mt_fields (column_point ?c i)) f = Some (num_or (field_value (?ps ! i) f) (Fin 0))"
      using True i by (simp add: column_point_def map_of_graph)
    moreover have "num_or (field_value p f) (Fin 0) = field_value p f" for p
      by (simp add: field_value_def split: option.split) (simp add: num_or_def)
    ultimately show ?thesis by (simp add: field_value_def [of "column_point ?c i"])
  next
    case False
    have "map_of (mt_fields (?ps ! i)) f = None"
    proof -
      have "?ps ! i \<in> set ps" using i nth_mem [of i ?ps] by simp
      then show ?thesis using False
        by (auto simp: metric_points_to_columns_def Let_def map_of_eq_None_iff)
    qed
    with False show ?thesis
      by (simp add: field_value_def column_point_def map_of_graph)
  qed
  with ts i show "map (\<lambda>p. (mt_ts p, field_value p)) (metrics_from_columns ?c) ! i =
      map (\<lambda>p. (mt_ts p, field_value p)) ?ps ! i"
    by (simp add: metrics_from_columns_def len ext)
qed

definition ping_key :: "ping \<Rightarrow> string \<times> int" where
  "ping_key p = (pg_target p, pg_ts p)"

definition ping_obs :: "ping \<Rightarrow> jsnum option \<times> jsnum" where
  "ping_obs p = (pg_latency p, num_or (pg_ok p) (Fin 0))"

definition check_key :: "proxy_check \<Rightarrow> string \<times> int" where
  "check_key c = (px_target c, px_ts c)"

definition check_obs where
  "check_obs c = (px_latency c, px_handshake c, px_first_byte c, px_total c, num_or (px_ok c) (Fin 0),
     take 32 (px_stage c), map_option (take 64) (px_error c))"

definition check_valid :: "proxy_check \<Rightarrow> bool" where
  "check_valid c = (px_target c \<noteq> [] \<and> 0 < px_ts c)"

interpretation points: keyed_columns mt_ts field_value "\<lambda>_. True" metric_points_to_columns metrics_from_columns
proof
  fix xs :: "metric_point list"
  have "mset (map (\<lambda>p. (mt_ts p, field_value p)) (sort_key mt_ts xs)) = mset (map (\<lambda>p. (mt_ts p, field_value p)) xs)"
    by simp
  then show "mset (map (\<lambda>x. (mt_ts x, field_value x)) (metrics_from_columns (metric_points_to_columns xs))) =
      mset (map (\<lambda>x. (mt_ts x, field_value x)) xs)" by (simp only: metrics_columns_points)
qed (simp add: list_all_iff)

interpretation pings: keyed_columns ping_key ping_obs "\<lambda>p. pg_target p \<noteq> []" "ping_points_to_series coll" pings_from_series
proof
  fix xs :: "ping list"
  assume "list_all (\<lambda>p. pg_target p \<noteq> []) xs"
  then have f: "filter (\<lambda>p. pg_target p \<noteq> []) xs = xs" by (simp add: list_all_iff)
  have o: "(\<lambda>x. (ping_key x, ping_obs x)) \<circ> norm_ping = (\<lambda>x. (ping_key x, ping_obs x))"
    by (rule ext) (simp add: norm_ping_def ping_key_def ping_obs_def)
  show "mset (map (\<lambda>x. (ping_key x, ping_obs x)) (pings_from_series (ping_points_to_series coll xs))) =
      mset (map (\<lambda>x. (ping_key x, ping_obs x)) xs)"
    unfolding mset_map pings_series_mset f by (simp only: multiset.map_comp o)
  have "set (pings_from_series (ping_points_to_series coll xs)) = norm_ping ` set xs"
    using arg_cong [OF pings_series_mset [of coll xs], of set_mset] f by simp
  then show "list_all (\<lambda>p. pg_target p \<noteq> []) (pings_from_series (ping_points_to_series coll xs))"
    using \<open>list_all (\<lambda>p. pg_target p \<noteq> []) xs\<close> by (auto simp: list_all_iff norm_ping_def)
qed

lemma checks_of_group:
  assumes "\<forall>x \<in> set l. px_target x = tid" "tid \<noteq> []" "t0 \<noteq> 0"
  shows "map (\<lambda>c. (check_key c, check_obs c)) (series_checks
      \<lparr> cr_target = tid, cr_name = nm, cr_protocol = pr, cr_t0 = t0,
        cr_dt = map (\<lambda>p. px_ts p - t0) l,
        cr_latency = map px_latency l, cr_handshake = map px_handshake l,
        cr_first_byte = map px_first_byte l, cr_total = map px_total l,
        cr_ok = map (\<lambda>p. num_or (px_ok p) (Fin 0)) l,
        cr_stage = map (\<lambda>p. take 32 (px_stage p)) l,
        cr_error = map (\<lambda>p. map_option (take 64) (px_error p)) l \<rparr>) =
    map (\<lambda>c. (check_key c, check_obs c)) l"
  (is "map ?g (series_checks ?s) = map ?g l")
proof (rule nth_equalityI)
  show len: "length (map ?g (series_checks ?s)) = length (map ?g l)"
    using assms(2,3) by (simp add: series_checks_def)
  fix i assume "i < length (map ?g (series_checks ?s))"
  then have i: "i < length l" using len by simp
  then have "px_target (l ! i) = tid" using assms(1) by simp
  moreover have "map_option (take 64) (map_option (take 64) e) = map_option (take 64) e" for e :: "string option"
    by (cases e) simp_all
  ultimately show "map ?g (series_checks ?s) ! i = map ?g l ! i"
    using i assms(2,3) by (simp add: series_checks_def check_key_def check_obs_def)
qed

lemma checks_series_pairs:
  assumes "list_all check_valid cs"
  shows "mset (map (\<lambda>c. (check_key c, check_obs c)) (checks_from_series (proxy_checks_to_series coll cs))) =
    mset (map (\<lambda>c. (check_key c, check_obs c)) cs)"
proof -
  let ?gs = "group_by_target px_target cs" and ?g = "\<lambda>c. (check_key c, check_obs c)"
  let ?ser = "\<lambda>(tid, l0).
        let l = sort_key px_ts l0; t0 = (case l of [] \<Rightarrow> 0 | p # _ \<Rightarrow> px_ts p);
            name = (case l of [] \<Rightarrow> tid | p # _ \<Rightarrow> if px_name p = [] then tid else px_name p);
            protocol = (case l of [] \<Rightarrow> [] | p # _ \<Rightarrow> px_protocol p)
        in \<lparr> cr_target = tid, cr_name = take 96 name, cr_protocol = take 24 protocol, cr_t0 = t0,
             cr_dt = map (\<lambda>p. px_ts p - t0) l,
             cr_latency = map px_latency l, cr_handshake = map px_handshake l,
             cr_first_byte = map px_first_byte l, cr_total = map px_total l,
             cr_ok = map (\<lambda>p. num_or (px_ok p) (Fin 0)) l,
             cr_stage = map (\<lambda>p. take 32 (px_stage p)) l,
             cr_error = map (\<lambda>p. map_option (take 64) (px_error p)) l \<rparr>"
  have all: "set (concat (map snd ?gs)) = set cs"
    using arg_cong [OF group_by_target_flat [of px_target cs], of set_mset] assms
    by (auto simp: list_all_iff check_valid_def)
  have g: "mset (map ?g (series_checks (?ser e))) = mset (map ?g (snd e))" if e: "e \<in> set ?gs" for e
  proof -
    obtain tid l0 where d: "e = (tid, l0)" by (cases e)
    then have own: "tid \<noteq> []" "l0 \<noteq> []" "\<forall>x \<in> set (sort_key px_ts l0). px_target x = tid"
      using group_by_target_own [of tid l0 px_target cs] e by simp_all
    then obtain p r where p: "sort_key px_ts l0 = p # r"
      by (metis length_0_conv length_sort neq_Nil_conv)
    then have "p \<in> set l0" by (metis list.set_intros(1) set_sort)
    then have "p \<in> set (concat (map snd ?gs))" using d e by (auto intro!: bexI [of _ "(tid, l0)"])
    then have "p \<in> set cs" using all by blast
    then have "px_ts p \<noteq> 0" using assms by (auto simp: list_all_iff check_valid_def)
    note checks_of_group [OF own(3) [unfolded p] own(1) this]
    then have "map ?g (series_checks (?ser e)) = map ?g (p # r)"
      by (simp only: d prod.case Let_def p list.case)
    moreover have "mset (map ?g (p # r)) = mset (map ?g l0)"
      using arg_cong [OF p, of "\<lambda>l. mset (map ?g l)"] by (simp only: mset_map mset_sort)
    ultimately show ?thesis by (simp only: d snd_conv)
  qed
  have "mset (map ?g (checks_from_series (proxy_checks_to_series coll cs))) =
      mset (concat (map (\<lambda>e. map ?g (series_checks (?ser e))) (sort_key (\<lambda>e. coll (fst e)) ?gs)))"
    by (simp add: checks_from_series_def proxy_checks_to_series_def map_concat comp_def)
  also have "\<dots> = mset (map ?g (concat (map snd ?gs)))"
    by (rule mset_concat_groups) (rule g)
  also have "\<dots> = image_mset ?g (mset (concat (map snd ?gs)))" by (rule mset_map)
  also have "\<dots> = image_mset ?g (mset cs)"
    using assms by (simp only: group_by_target_flat) (simp add: list_all_iff check_valid_def cong: filter_cong)
  finally show ?thesis by simp
qed

interpretation checks: keyed_columns check_key check_obs check_valid "proxy_checks_to_series coll" checks_from_series
proof
  fix xs assume v: "list_all check_valid xs"
  show pairs: "mset (map (\<lambda>x. (check_key x, check_obs x)) (checks_from_series (proxy_checks_to_series coll xs))) =
      mset (map (\<lambda>x. (check_key x, check_obs x)) xs)"
    by (rule checks_series_pairs [OF v])
  have "set (map check_key (checks_from_series (proxy_checks_to_series coll xs))) = set (map check_key xs)"
    using arg_cong [OF pairs, of "\<lambda>m. fst ` set_mset m"] by (simp add: image_image)
  then have "c \<in> set (checks_from_series (proxy_checks_to_series coll xs)) \<Longrightarrow> check_key c \<in> check_key ` set xs" for c by auto
  then show "list_all check_valid (checks_from_series (proxy_checks_to_series coll xs))"
    using v by (fastforce simp: list_all_iff check_valid_def check_key_def)
qed

section \<open>A buffer is a keyed map\<close>

text \<open>
  What a reader of a stored buffer can observe: for each key (a time for points, a target and a
  time for pings and checks) the values the code returns for it.
\<close>

datatype sample_key = Point_at int | Ping_at string int | Check_at string int

datatype sample_obs =
    Point_obs "string \<Rightarrow> jsnum"
  | Ping_obs "jsnum option \<times> jsnum"
  | Check_obs "jsnum option \<times> jsnum option \<times> jsnum option \<times> jsnum option \<times> jsnum \<times> string \<times> string option"

definition group_contents :: "sample_group \<Rightarrow> sample_key \<Rightarrow> sample_obs option" where
  "group_contents g k = (case k of
      Point_at t \<Rightarrow> map_option (\<lambda>p. Point_obs (field_value p)) (seek mt_ts (rev (sg_points g)) t)
    | Ping_at i t \<Rightarrow> map_option (\<lambda>p. Ping_obs (ping_obs p)) (seek ping_key (rev (sg_pings g)) (i, t))
    | Check_at i t \<Rightarrow> map_option (\<lambda>c. Check_obs (check_obs c)) (seek check_key (rev (sg_checks g)) (i, t)))"

definition buffer_contents :: "stored_buffer \<Rightarrow> sample_key \<Rightarrow> sample_obs option" where
  "buffer_contents v = group_contents (buffer_group v)"

definition key_in_span :: "int \<Rightarrow> int \<Rightarrow> sample_key \<Rightarrow> bool" where
  "key_in_span start duration k = (case k of
      Point_at t \<Rightarrow> in_span start duration t
    | Ping_at i t \<Rightarrow> i \<noteq> [] \<and> in_span start duration t
    | Check_at i t \<Rightarrow> i \<noteq> [] \<and> in_span start duration t)"

text \<open>One sample per key; every buffer a merge produced has it\<close>

definition buffer_ok :: "stored_buffer \<Rightarrow> bool" where
  "buffer_ok v = (distinct (map mt_ts (buffer_points v)) \<and> distinct (map ping_key (buffer_pings v)) \<and>
     distinct (map check_key (buffer_checks v)))"

lemma merge_points_latest:
  "pb_points (merge_buffer coll old inc aid st d) =
   sort_key mt_ts (latest mt_ts (filter (\<lambda>p. in_span st d (mt_ts p)) (buffer_points old @ sg_points inc)))"
  by (simp add: merge_buffer_def latest_def Let_def)

lemma merge_pings_latest:
  "pb_pings (merge_buffer coll old inc aid st d) =
   sort_key (\<lambda>p. (pg_ts p, coll (pg_target p)))
     (latest ping_key (filter (\<lambda>p. pg_target p \<noteq> [] \<and> in_span st d (pg_ts p)) (buffer_pings old @ sg_pings inc)))"
  by (simp add: merge_buffer_def latest_def Let_def ping_key_def [abs_def])

lemma merge_checks_latest:
  "pb_checks (merge_buffer coll old inc aid st d) =
   sort_key (\<lambda>c. (px_ts c, coll (px_target c)))
     (latest check_key (filter (\<lambda>c. px_target c \<noteq> [] \<and> in_span st d (px_ts c)) (buffer_checks old @ sg_checks inc)))"
  by (simp add: merge_buffer_def latest_def Let_def check_key_def [abs_def])

lemma merge_distinct:
  "distinct (map mt_ts (pb_points (merge_buffer coll old inc aid st d)))"
  "distinct (map ping_key (pb_pings (merge_buffer coll old inc aid st d)))"
  "distinct (map check_key (pb_checks (merge_buffer coll old inc aid st d)))"
  by (simp_all only: merge_points_latest merge_pings_latest merge_checks_latest distinct_map_sort_key distinct_latest)

lemma merge_pings_valid: "list_all (\<lambda>p. pg_target p \<noteq> []) (pb_pings (merge_buffer coll old inc aid st d))"
  unfolding merge_pings_latest list_all_iff set_sort
  using set_latest [of ping_key "filter (\<lambda>p. pg_target p \<noteq> [] \<and> in_span st d (pg_ts p)) (buffer_pings old @ sg_pings inc)"]
  by auto

lemma merge_checks_valid:
  "0 < st \<Longrightarrow> list_all check_valid (pb_checks (merge_buffer coll old inc aid st d))"
  unfolding merge_checks_latest list_all_iff set_sort
  using set_latest [of check_key "filter (\<lambda>c. px_target c \<noteq> [] \<and> in_span st d (px_ts c)) (buffer_checks old @ sg_checks inc)"]
  by (auto simp: check_valid_def in_span_def)

lemma compact_of_parts [simp]:
  "buffer_points (compact_of coll b) = metrics_from_columns (metric_points_to_columns (pb_points b))"
  "buffer_pings (compact_of coll b) = pings_from_series (ping_points_to_series coll (pb_pings b))"
  "buffer_checks (compact_of coll b) = checks_from_series (proxy_checks_to_series coll (pb_checks b))"
  by (simp_all add: compact_of_def buffer_points_def buffer_pings_def buffer_checks_def)

lemma merged_buffer_ok: "0 < st \<Longrightarrow> buffer_ok (compact_of coll (merge_buffer coll old inc aid st d))"
  unfolding buffer_ok_def compact_of_parts
  by (intro conjI points.unpack_distinct pings.unpack_distinct checks.unpack_distinct merge_distinct
        merge_pings_valid merge_checks_valid) (simp_all add: list_all_iff)

text \<open>What a merge finds under a key: the newest incoming sample, else the old one\<close>

lemma merged_points:
  assumes "distinct (map mt_ts (buffer_points old))"
  shows "seek mt_ts (pb_points (merge_buffer coll old inc aid st d)) t =
    (if in_span st d t then (case seek mt_ts (rev (sg_points inc)) t of
       Some p \<Rightarrow> Some p | None \<Rightarrow> seek mt_ts (buffer_points old) t) else None)"
  unfolding merge_points_latest by (rule points.seek_merged [OF assms]) (rule refl)

lemma merged_pings:
  assumes "distinct (map ping_key (buffer_pings old))"
  shows "seek ping_key (pb_pings (merge_buffer coll old inc aid st d)) k =
    (if fst k \<noteq> [] \<and> in_span st d (snd k) then (case seek ping_key (rev (sg_pings inc)) k of
       Some p \<Rightarrow> Some p | None \<Rightarrow> seek ping_key (buffer_pings old) k) else None)"
  unfolding merge_pings_latest
  by (rule pings.seek_merged [OF assms, where Q = "\<lambda>k. fst k \<noteq> [] \<and> in_span st d (snd k)"]) (simp add: ping_key_def)

lemma merged_checks:
  assumes "distinct (map check_key (buffer_checks old))"
  shows "seek check_key (pb_checks (merge_buffer coll old inc aid st d)) k =
    (if fst k \<noteq> [] \<and> in_span st d (snd k) then (case seek check_key (rev (sg_checks inc)) k of
       Some p \<Rightarrow> Some p | None \<Rightarrow> seek check_key (buffer_checks old) k) else None)"
  unfolding merge_checks_latest
  by (rule checks.seek_merged [OF assms, where Q = "\<lambda>k. fst k \<noteq> [] \<and> in_span st d (snd k)"]) (simp add: check_key_def)

lemma contents_ok:
  assumes "buffer_ok v"
  shows "buffer_contents v (Point_at t) = map_option (\<lambda>p. Point_obs (field_value p)) (seek mt_ts (buffer_points v) t)"
    "buffer_contents v (Ping_at i t) = map_option (\<lambda>p. Ping_obs (ping_obs p)) (seek ping_key (buffer_pings v) (i, t))"
    "buffer_contents v (Check_at i t) = map_option (\<lambda>c. Check_obs (check_obs c)) (seek check_key (buffer_checks v) (i, t))"
  using assms by (simp_all add: buffer_contents_def group_contents_def buffer_group_def buffer_ok_def seek_rev)

lemma contents_compact:
  assumes "buffer_ok (compact_of coll b)" "buffer_ok (Plain b)"
    and "list_all (\<lambda>p. pg_target p \<noteq> []) (pb_pings b)" "list_all check_valid (pb_checks b)"
  shows "buffer_contents (compact_of coll b) k = buffer_contents (Plain b) k"
proof -
  have d: "distinct (map mt_ts (pb_points b))" "distinct (map ping_key (pb_pings b))" "distinct (map check_key (pb_checks b))"
    using assms(2) by (simp_all add: buffer_ok_def buffer_points_def buffer_pings_def buffer_checks_def)
  have v: "map_option field_value (seek mt_ts (metrics_from_columns (metric_points_to_columns (pb_points b))) t) =
      map_option field_value (seek mt_ts (pb_points b) t)"
    "map_option ping_obs (seek ping_key (pings_from_series (ping_points_to_series coll (pb_pings b))) i) =
      map_option ping_obs (seek ping_key (pb_pings b) i)"
    "map_option check_obs (seek check_key (checks_from_series (proxy_checks_to_series coll (pb_checks b))) i) =
      map_option check_obs (seek check_key (pb_checks b) i)" for t i
    using points.view_pack [OF _ d(1), of t] pings.view_pack [OF assms(3) d(2), of coll i]
      checks.view_pack [OF assms(4) d(3), of coll i]
    by (simp_all add: points.view_def pings.view_def checks.view_def list_all_iff)
  have lift: "map_option (\<lambda>x. h (g x)) m = map_option (\<lambda>x. h (g x)) m'" if "map_option g m = map_option g m'"
    for h :: "'x \<Rightarrow> 'y" and g :: "'w \<Rightarrow> 'x" and m m'
    using arg_cong [OF that, of "map_option h"] by (simp add: option.map_comp comp_def)
  show ?thesis
    by (cases k) (simp_all add: contents_ok [OF assms(1)] contents_ok [OF assms(2)] buffer_points_def [of "Plain _"]
        buffer_pings_def [of "Plain _"] buffer_checks_def [of "Plain _"] lift [OF v(1)] lift [OF v(2)] lift [OF v(3)])
qed

lemma plain_merge_ok: "buffer_ok (Plain (merge_buffer coll old inc aid st d))"
  using merge_distinct [of coll old inc aid st d]
  by (simp add: buffer_ok_def buffer_points_def buffer_pings_def buffer_checks_def)

lemma plain_merge_contents:
  assumes "buffer_ok old"
  shows "buffer_contents (Plain (merge_buffer coll old inc aid st d)) k =
    (if key_in_span st d k then (case group_contents inc k of Some ob \<Rightarrow> Some ob | None \<Rightarrow> buffer_contents old k)
     else None)"
proof -
  note ok = assms [unfolded buffer_ok_def]
  show ?thesis
    by (cases k; simp only: contents_ok [OF plain_merge_ok] buffer_points_def [of "Plain _"] buffer_pings_def [of "Plain _"]
          buffer_checks_def [of "Plain _"] stored_buffer.case merged_points [OF ok [THEN conjunct1]]
          merged_pings [OF ok [THEN conjunct2, THEN conjunct1]] merged_checks [OF ok [THEN conjunct2, THEN conjunct2]])
      (simp_all add: contents_ok [OF assms] group_contents_def key_in_span_def option.map_comp comp_def split: option.split)
qed

lemma merge_contents:
  assumes "buffer_ok old" "0 < st"
  shows "buffer_contents (compact_of coll (merge_buffer coll old inc aid st d)) k =
    (if key_in_span st d k then (case group_contents inc k of Some ob \<Rightarrow> Some ob | None \<Rightarrow> buffer_contents old k)
     else None)"
  by (simp only: contents_compact [OF merged_buffer_ok [OF assms(2)] plain_merge_ok merge_pings_valid merge_checks_valid [OF assms(2)]]
      plain_merge_contents [OF assms(1)])

text \<open>C29: A merge refines map override. Reading back the compact buffer that a merge stored gives, for every key
  inside the buffer's span, the newest incoming sample of that key, else the one stored before, and nothing
  outside the span: sorting, grouping by target and the column encoding neither lose nor duplicate a sample,
  and the last write wins.
\<close>

theorem merge_refines_override:
  assumes "buffer_ok old" "0 < start"
  shows "buffer_contents (compact_of coll (merge_buffer coll old incoming aid start duration)) k =
    (if key_in_span start duration k
     then (case group_contents incoming k of Some ob \<Rightarrow> Some ob | None \<Rightarrow> buffer_contents old k)
     else None)"
  by (rule merge_contents [OF assms])

lemma merge_refines_override_witness:
  "buffer_contents (compact_of id (merge_buffer id (Plain (empty_buffer ''a'' 300))
      \<lparr> sg_points = [], sg_pings = [\<lparr> pg_target = ''t'', pg_ts = 301, pg_latency = None, pg_ok = Fin 0 \<rparr>,
          \<lparr> pg_target = ''t'', pg_ts = 301, pg_latency = Some (Fin 8), pg_ok = Fin 1 \<rparr>], sg_checks = [] \<rparr> ''a'' 300 300))
      (Ping_at ''t'' 301) = Some (Ping_obs (Some (Fin 8), Fin 1))"
  by (subst merge_refines_override)
    (simp_all add: buffer_ok_def empty_buffer_def buffer_points_def buffer_pings_def buffer_checks_def
      key_in_span_def in_span_def group_contents_def seek_def ping_key_def ping_obs_def num_or_def)

text \<open>
  CX: Appending is idempotent, so a report group whose append succeeded but is drained again after a later
  failure changes nothing a reader can see.
\<close>

theorem merge_retry_idempotent:
  assumes "buffer_ok old" "0 < start"
  shows "buffer_contents (compact_of coll (merge_buffer coll
       (compact_of coll (merge_buffer coll old incoming aid start duration)) incoming aid start duration)) =
     buffer_contents (compact_of coll (merge_buffer coll old incoming aid start duration))"
  by (rule ext) (simp add: merge_contents assms merged_buffer_ok split: option.split)

lemma merge_retry_idempotent_witness:
  "buffer_contents (compact_of id (merge_buffer id
       (compact_of id (merge_buffer id (Plain (empty_buffer ''a'' 300))
          \<lparr> sg_points = [\<lparr> mt_ts = 310, mt_fields = [(''cpu'', Fin 5)], mt_sensors = [] \<rparr>], sg_pings = [], sg_checks = [] \<rparr> ''a'' 300 300))
          \<lparr> sg_points = [\<lparr> mt_ts = 310, mt_fields = [(''cpu'', Fin 5)], mt_sensors = [] \<rparr>], sg_pings = [], sg_checks = [] \<rparr> ''a'' 300 300)) =
   buffer_contents (compact_of id (merge_buffer id (Plain (empty_buffer ''a'' 300))
          \<lparr> sg_points = [\<lparr> mt_ts = 310, mt_fields = [(''cpu'', Fin 5)], mt_sensors = [] \<rparr>], sg_pings = [], sg_checks = [] \<rparr> ''a'' 300 300))"
  by (rule merge_retry_idempotent) (simp_all add: buffer_ok_def empty_buffer_def buffer_points_def buffer_pings_def buffer_checks_def)

end
