(* ===== verification/AgentState.thy ===== *)
theory AgentState
  imports Utils Hosts
begin

text \<open>
  \<open>worker/src/agent-state.js\<close> and \<open>agentStatusFields\<close> of \<open>utils.js\<close>: the latest state of an Agent,
  which of two states is newer, and the merge of the database rows with the states the telemetry
  stream holds.

  A state is a JSON value; \<open>date_ms\<close> is the platform's date parser (\<open>new Date(v).getTime()\<close>,
  \<open>None\<close> for NaN).
\<close>

definition buffered_agent_state_enabled :: "jsval \<Rightarrow> bool" where
  "buffered_agent_state_enabled env =
     (js_truthy (js_get env ''TELEMETRY_BUFFER'')
      \<and> \<not> parse_boolean (js_coalesce (js_get env ''AGENT_METRICS_STATE_TO_D1'') (Bool True)) True)"

text \<open>\<open>typeof value === 'number'\<close> first, else the date parser\<close>

definition agent_state_timestamp :: "(jsval \<Rightarrow> int option) \<Rightarrow> jsval \<Rightarrow> int" where
  "agent_state_timestamp date_ms v =
     (case v of
        Num n \<Rightarrow> (case n of Fin q \<Rightarrow> \<lfloor>q\<rfloor> | _ \<Rightarrow> 0)
      | _ \<Rightarrow> (case date_ms (js_or v (JInt 0)) of
               None \<Rightarrow> 0 | Some ms \<Rightarrow> if 0 < ms div 1000 then ms div 1000 else 0))"

definition updated_at :: "(jsval \<Rightarrow> int option) \<Rightarrow> jsval \<Rightarrow> int" where
  "updated_at date_ms state = agent_state_timestamp date_ms (js_get state ''updated_at'')"

text \<open>\<open>current\<close> is absent or a row\<close>

definition newer_agent_metric_row :: "(jsval \<Rightarrow> int option) \<Rightarrow> jsval option \<Rightarrow> jsval \<Rightarrow> jsval option" where
  "newer_agent_metric_row date_ms current candidate =
     (if \<not> js_is_record candidate then current
      else case current of
        None \<Rightarrow> Some candidate
      | Some c \<Rightarrow> if updated_at date_ms c \<le> updated_at date_ms candidate then Some candidate else Some c)"

type_synonym rows_by_agent = "(string \<times> jsval option) list"

definition put_newer :: "(jsval \<Rightarrow> int option) \<Rightarrow> string \<Rightarrow> jsval \<Rightarrow> rows_by_agent \<Rightarrow> rows_by_agent" where
  "put_newer date_ms i row m =
     (if i = [] then m
      else AList.update i (newer_agent_metric_row date_ms
             (case map_of m i of Some c \<Rightarrow> c | None \<Rightarrow> None) row) m)"

definition merge_agent_metric_rows ::
  "(jsval \<Rightarrow> int option) \<Rightarrow> jsval list \<Rightarrow> (string \<times> jsval) list \<Rightarrow> jsval option list" where
  "merge_agent_metric_rows date_ms d1_rows buffered =
     (let m1 = fold (\<lambda>row. put_newer date_ms (sanitize_agent_id (js_get row ''agent_id'')) row) d1_rows [];
          m2 = fold (\<lambda>(key, state). put_newer date_ms
                   (sanitize_agent_id (js_or (js_get state ''agent_id'') (Str key)))
                   (js_set state ''agent_id'' (Str (sanitize_agent_id (js_or (js_get state ''agent_id'') (Str key))))))
                 buffered m1
      in map snd m2)"

record agent_status =
  as_online :: bool
  as_last_seen :: "int option"
  as_offline_after :: int
  as_source :: bool

definition agent_status_fields :: "(jsval \<Rightarrow> int option) \<Rightarrow> int \<Rightarrow> jsval \<Rightarrow> jsval \<Rightarrow> bool \<Rightarrow> agent_status option" where
  "agent_status_fields date_ms now state env include_source =
     (if \<not> js_truthy (js_get state ''updated_at'') then None
      else let updated = map_option (\<lambda>ms. ms div 1000) (date_ms (js_get state ''updated_at''));
               age = (case updated of Some u \<Rightarrow> if 0 < u then Some (max 0 (now - u)) else None | None \<Rightarrow> None);
               limit = clamp (js_Number (js_or (js_get env ''AGENT_OFFLINE_AFTER_SEC'') (JInt 1800))) 120 3600
           in Some \<lparr> as_online = (case age of Some a \<Rightarrow> a \<le> limit | None \<Rightarrow> False), as_last_seen = age,
                as_offline_after = limit, as_source = include_source \<rparr>)"

section \<open>The newest row of each Agent survives a merge\<close>

text \<open>The rows offered for an Agent, in order, and the one a merge keeps\<close>

definition offered :: "jsval list \<Rightarrow> (string \<times> jsval) list \<Rightarrow> (string \<times> jsval) list" where
  "offered d1_rows buffered =
     map (\<lambda>row. (sanitize_agent_id (js_get row ''agent_id''), row)) d1_rows @
     map (\<lambda>(key, state). (let i = sanitize_agent_id (js_or (js_get state ''agent_id'') (Str key))
        in (i, js_set state ''agent_id'' (Str i)))) buffered"

lemma merge_is_fold_offered:
  "merge_agent_metric_rows date_ms d1 buffered =
   map snd (fold (\<lambda>(i, row). put_newer date_ms i row) (offered d1 buffered) [])"
  by (simp add: merge_agent_metric_rows_def offered_def fold_map comp_def case_prod_unfold Let_def)

definition newest :: "(jsval \<Rightarrow> int option) \<Rightarrow> jsval list \<Rightarrow> jsval option" where
  "newest date_ms rows = fold (\<lambda>row c. newer_agent_metric_row date_ms c row) rows None"

lemma newer_row_is:
  "newer_agent_metric_row date_ms c row \<in> {c, Some row}"
  by (simp add: newer_agent_metric_row_def split: option.split)

lemma newest_max:
  assumes "list_all js_is_record rows"
  shows "case newest date_ms rows of
      None \<Rightarrow> rows = []
    | Some r \<Rightarrow> r \<in> set rows \<and> (\<forall>x \<in> set rows. updated_at date_ms x \<le> updated_at date_ms r)"
  using assms
proof (induction rows rule: rev_induct)
  case Nil
  then show ?case by (simp add: newest_def)
next
  case (snoc x rows)
  have step: "newest date_ms (rows @ [x]) = newer_agent_metric_row date_ms (newest date_ms rows) x"
    by (simp add: newest_def)
  show ?case
  proof (cases "newest date_ms rows")
    case None
    with snoc show ?thesis unfolding step by (simp add: newer_agent_metric_row_def)
  next
    case (Some c)
    with snoc show ?thesis
      unfolding step by (auto simp: newer_agent_metric_row_def intro: order_trans)
  qed
qed

lemma fold_put_newer:
  "map_of (fold (\<lambda>(i, row). put_newer date_ms i row) rows m) k =
   (if k = [] \<or> k \<notin> fst ` set rows then map_of m k
    else Some (fold (\<lambda>row c. newer_agent_metric_row date_ms c row)
      (map snd (filter (\<lambda>e. fst e = k) rows)) (case map_of m k of Some c \<Rightarrow> c | None \<Rightarrow> None)))"
proof (induction rows arbitrary: m)
  case (Cons e rows)
  obtain i row where e: "e = (i, row)" by (cases e)
  have none: "filter (\<lambda>e. fst e = k) rows = []" if "k \<notin> fst ` set rows"
    using that by (auto simp: filter_empty_conv)
  show ?case
    using Cons [of "put_newer date_ms i row m"]
    by (auto simp: e put_newer_def update_conv' none)
qed simp

lemma distinct_put_newer: "distinct (map fst m) \<Longrightarrow> distinct (map fst (put_newer date_ms i row m))"
  by (simp add: put_newer_def distinct_update)

lemma distinct_fold_put_newer:
  "distinct (map fst m) \<Longrightarrow> distinct (map fst (fold (\<lambda>(i, row). put_newer date_ms i row) rows m))"
  by (induction rows arbitrary: m) (auto simp: distinct_put_newer)

text \<open>
  CX: Merging the stored rows with the states of the stream keeps, for every Agent that offers a row,
  exactly one row, and it is one of the Agent's own rows with the greatest time stamp: no Agent is lost,
  duplicated or shown an older state than one it reported.
\<close>

theorem merge_keeps_newest:
  assumes "list_all (\<lambda>e. js_is_record (snd e)) (offered d1_rows buffered)"
  shows "\<exists>ids. distinct ids \<and> set ids = fst ` set (offered d1_rows buffered) - {[]} \<and>
    list_all2 (\<lambda>i row. \<exists>r. row = Some r \<and> (i, r) \<in> set (offered d1_rows buffered) \<and>
        list_all (\<lambda>e. fst e \<noteq> i \<or> updated_at date_ms (snd e) \<le> updated_at date_ms r) (offered d1_rows buffered))
      ids (merge_agent_metric_rows date_ms d1_rows buffered)"
proof -
  let ?o = "offered d1_rows buffered"
  let ?m = "fold (\<lambda>(i, row). put_newer date_ms i row) ?o []"
  let ?mine = "\<lambda>i. map snd (filter (\<lambda>e. fst e = i) ?o)"
  have look: "map_of ?m k = (if k = [] \<or> k \<notin> fst ` set ?o then None else Some (newest date_ms (?mine k)))" for k
    by (simp add: fold_put_newer newest_def)
  have dist: "distinct (map fst ?m)" by (rule distinct_fold_put_newer) simp
  have keys: "set (map fst ?m) = fst ` set ?o - {[]}"
  proof -
    define m where "m = ?m"
    define os where "os = ?o"
    have look': "map_of m k = (if k = [] \<or> k \<notin> fst ` set os then None else Some (newest date_ms (map snd (filter (\<lambda>e. fst e = k) os))))" for k
      unfolding m_def os_def by (rule look)
    have "map_of m k \<noteq> None \<longleftrightarrow> k \<noteq> [] \<and> k \<in> fst ` set os" for k
      using look' [of k] by (cases "k = [] \<or> k \<notin> fst ` set os") simp_all
    then have "dom (map_of m) = fst ` set os - {[]}" by (intro set_eqI) (simp add: domIff conj_commute)
    then show ?thesis unfolding m_def os_def by (simp only: set_map dom_map_of_conv_image_fst)
  qed
  have row: "\<exists>r. v = Some r \<and> (i, r) \<in> set ?o \<and> list_all (\<lambda>e. fst e \<noteq> i \<or> updated_at date_ms (snd e) \<le> updated_at date_ms r) ?o"
    if "(i, v) \<in> set ?m" for i v
  proof -
    from that dist have "map_of ?m i = Some v" by simp
    with look [of i] have v: "v = newest date_ms (?mine i)" and i: "i \<in> fst ` set ?o" by (auto split: if_splits)
    from i have ne: "?mine i \<noteq> []" by (auto simp: filter_empty_conv)
    have "list_all js_is_record (?mine i)" using assms by (auto simp: list_all_iff)
    note newest_max [OF this, of date_ms]
    then show ?thesis using ne v by (cases v) (fastforce simp: list_all_iff)+
  qed
  have "list_all2 (\<lambda>i row. \<exists>r. row = Some r \<and> (i, r) \<in> set ?o \<and>
        list_all (\<lambda>e. fst e \<noteq> i \<or> updated_at date_ms (snd e) \<le> updated_at date_ms r) ?o) (map fst ?m) (map snd ?m)"
    unfolding list_all2_map1 list_all2_map2 list_all2_same by (intro ballI row) simp
  then show ?thesis unfolding merge_is_fold_offered using dist keys by blast
qed

lemma merge_keeps_newest_witness:
  "\<exists>ids. distinct ids \<and> set ids = {''a''} \<and>
    length (merge_agent_metric_rows (\<lambda>_. None) [Obj [(''agent_id'', Str ''a''), (''updated_at'', JInt 7)]] [(''A'', Obj [(''updated_at'', JInt 9)])]) = length ids"
proof -
  let ?d = "[Obj [(''agent_id'', Str ''a''), (''updated_at'', JInt 7)]]"
    and ?b = "[(''A'', Obj [(''updated_at'', JInt 9)])]"
  have o: "offered ?d ?b = [(''a'', Obj [(''agent_id'', Str ''a''), (''updated_at'', JInt 7)]),
      (''a'', Obj [(''updated_at'', JInt 9), (''agent_id'', Str ''a'')])]" by code_simp
  then have "list_all (\<lambda>e. js_is_record (snd e)) (offered ?d ?b)" by (simp add: js_is_record_def)
  from merge_keeps_newest [OF this, of "\<lambda>_. None", unfolded o]
  obtain ids where "distinct ids" "set ids = {''a''}"
    and "length ids = length (merge_agent_metric_rows (\<lambda>_. None) ?d ?b)"
    by (auto dest: list_all2_lengthD)
  then show ?thesis by metis
qed

end
