(* ===== verification/Availability.thy ===== *)
theory Availability
  imports AgentState "HOL-Library.Product_Lexorder"
begin

text \<open>
  \<open>worker/src/agent-availability.js\<close>: the on-line seconds of an Agent per local day. Two
  consecutive reports give an interval; it is cut at local midnights (\<open>addInterval\<close>), on line up
  to the off-line threshold after the first report and off line from there on.

  The table \<open>agent_daily_availability\<close> is a map from an Agent and a day to its row; a \<open>Map\<close> of
  days is an association list.
\<close>

record day_row =
  dr_total :: int
  dr_online :: int

definition no_row :: day_row where "no_row = \<lparr> dr_total = 0, dr_online = 0 \<rparr>"

definition day_offset :: "jsval \<Rightarrow> int" where
  "day_offset env = timezone_offset_min env * 60"

definition add_seconds :: "bool \<Rightarrow> int \<Rightarrow> string \<Rightarrow> (string \<times> day_row) list \<Rightarrow> (string \<times> day_row) list" where
  "add_seconds online seconds day rows =
     (let row = (case map_of rows day of Some r \<Rightarrow> r | None \<Rightarrow> no_row)
      in AList.update day \<lparr> dr_total = dr_total row + seconds,
           dr_online = (if online then dr_online row + seconds else dr_online row) \<rparr> rows)"

lemma next_midnight: "c < (((c::int) + off) div 86400 + 1) * 86400 - off"
proof -
  define d where "d = (c + off) div 86400"
  have "c + off < (d + 1) * 86400"
    using div_mult_mod_eq [of "c + off" 86400] pos_mod_bound [of 86400 "c + off"] by (simp add: d_def)
  then show ?thesis unfolding d_def by linarith
qed

function add_interval :: "int \<Rightarrow> int \<Rightarrow> bool \<Rightarrow> jsval \<Rightarrow> (string \<times> day_row) list \<Rightarrow> (string \<times> day_row) list" where
  "add_interval cursor till online env rows =
     (if till \<le> cursor then rows
      else let day_index = (cursor + day_offset env) div 86400;
               next_day_at = (day_index + 1) * 86400 - day_offset env;
               segment_end = min till next_day_at;
               seconds = max 0 (segment_end - cursor)
           in add_interval segment_end till online env (add_seconds online seconds (iso_day day_index) rows))"
  by pat_completeness auto
termination
proof (relation "measure (\<lambda>(cursor, till, _). nat (till - cursor))")
  fix cursor till day_index next_day_at segment_end seconds :: int and online env and rows :: "(string \<times> day_row) list"
  assume "\<not> till \<le> cursor" "day_index = (cursor + day_offset env) div 86400"
    "next_day_at = (day_index + 1) * 86400 - day_offset env" "segment_end = min till next_day_at"
  moreover from this have "cursor < next_day_at" using next_midnight by blast
  ultimately show "((segment_end, till, online, env, add_seconds online seconds (iso_day day_index) rows), cursor, till, online, env, rows)
      \<in> measure (\<lambda>(cursor, till, _). nat (till - cursor))" by simp
qed simp

declare add_interval.simps [simp del]

definition availability_retention_days :: "jsval \<Rightarrow> int" where
  "availability_retention_days env =
     clamp (js_Number (js_or (js_get env ''AGENT_AVAILABILITY_RETENTION_DAYS'') (JInt 90))) 30 180"

definition offline_after_sec :: "jsval \<Rightarrow> int" where
  "offline_after_sec env = clamp (js_Number (js_or (js_get env ''AGENT_OFFLINE_AFTER_SEC'') (JInt 1800))) 120 3600"

definition agent_availability_segments ::
  "(jsval \<Rightarrow> int option) \<Rightarrow> jsval \<Rightarrow> jsval \<Rightarrow> jsval \<Rightarrow> (string \<times> day_row) list" where
  "agent_availability_segments date_ms previous current env =
     (let previous_at = agent_state_timestamp date_ms previous;
          end_at = agent_state_timestamp date_ms current
      in if previous_at = 0 \<or> end_at = 0 \<or> end_at \<le> previous_at then []
         else let start_at = max previous_at (end_at - availability_retention_days env * 86400);
                  online_until = min end_at (previous_at + offline_after_sec env);
                  split_at = max start_at online_until
              in sort_key fst (add_interval split_at end_at False env
                   (add_interval start_at split_at True env [])))"

text \<open>Sums over a map of days\<close>

definition total_sec :: "(string \<times> day_row) list \<Rightarrow> int" where
  "total_sec rows = (\<Sum>r \<leftarrow> rows. dr_total (snd r))"

definition online_sec :: "(string \<times> day_row) list \<Rightarrow> int" where
  "online_sec rows = (\<Sum>r \<leftarrow> rows. dr_online (snd r))"

text \<open>\<open>INSERT ... ON CONFLICT(agent_id, day) DO UPDATE\<close>, and the clean-up when the day changes\<close>

record stored_day =
  sd_total :: int
  sd_online :: int
  sd_updated :: int

type_synonym availability_table = "((string \<times> string) \<times> stored_day) list"

definition upsert_day :: "string \<Rightarrow> int \<Rightarrow> string \<times> day_row \<Rightarrow> availability_table \<Rightarrow> availability_table" where
  "upsert_day agent stamp r db =
     AList.update (agent, fst r)
       (case map_of db (agent, fst r) of
          None \<Rightarrow> \<lparr> sd_total = dr_total (snd r), sd_online = dr_online (snd r), sd_updated = stamp \<rparr>
        | Some s \<Rightarrow> \<lparr> sd_total = sd_total s + dr_total (snd r), sd_online = sd_online s + dr_online (snd r), sd_updated = stamp \<rparr>) db"

definition availability_local_day :: "int \<Rightarrow> jsval \<Rightarrow> string" where
  "availability_local_day ts env = (if ts = 0 then [] else iso_day ((ts + day_offset env) div 86400))"

definition record_agent_availability ::
  "(jsval \<Rightarrow> int option) \<Rightarrow> jsval \<Rightarrow> jsval \<Rightarrow> jsval \<Rightarrow> jsval \<Rightarrow> availability_table \<Rightarrow> availability_table" where
  "record_agent_availability date_ms env agent previous current db =
     (let i = sanitize_agent_id agent;
          rows = agent_availability_segments date_ms previous current env;
          stamp = agent_state_timestamp date_ms current
      in if i = [] \<or> rows = [] then db
         else let db' = fold (upsert_day i stamp) rows db;
                  previous_day = availability_local_day (agent_state_timestamp date_ms previous) env;
                  current_day = availability_local_day stamp env;
                  cutoff = availability_local_day (stamp - availability_retention_days env * 86400) env
              in if previous_day \<noteq> [] \<and> current_day \<noteq> [] \<and> previous_day \<noteq> current_day
                 then filter (\<lambda>((a, day), _). \<not> (a = i \<and> day < cutoff)) db'
                 else db')"

text \<open>The public merge: numbers come from the database, so they are JavaScript numbers\<close>

record merged_row =
  mr_agent :: string
  mr_day :: string
  mr_total :: jsnum
  mr_ok :: jsnum

definition merge_row :: "jsval \<Rightarrow> jsval \<Rightarrow> jsval \<Rightarrow> jsval \<Rightarrow>
    ((string \<times> string) \<times> merged_row) list \<Rightarrow> ((string \<times> string) \<times> merged_row) list" where
  "merge_row agent day total_v online_v rows =
     (let i = sanitize_agent_id agent; d = str_or_empty day
      in if i = [] \<or> \<not> is_day_key d then rows
         else let row = (case map_of rows (i, d) of Some r \<Rightarrow> r
                | None \<Rightarrow> \<lparr> mr_agent = i, mr_day = d, mr_total = Fin 0, mr_ok = Fin 0 \<rparr>)
              in AList.update (i, d)
                   (row\<lparr> mr_total := js_add (mr_total row) (js_max (Fin 0) (num_or0 total_v)),
                     mr_ok := js_add (mr_ok row) (js_max (Fin 0) (num_or0 online_v)) \<rparr>) rows)"

definition earliest_stored_day :: "jsval list \<Rightarrow> (string \<times> string) list" where
  "earliest_stored_day stored =
     fold (\<lambda>row m. let i = sanitize_agent_id (js_get row ''agent_id''); day = str_or_empty (js_get row ''day'')
       in if i = [] \<or> \<not> is_day_key day then m
          else (case map_of m i of
                  None \<Rightarrow> AList.update i day m
                | Some d \<Rightarrow> if day < d then AList.update i day m else m)) stored []"

definition uptime_baseline_rows ::
  "(jsval \<Rightarrow> int option) \<Rightarrow> jsval list \<Rightarrow> jsval list \<Rightarrow> jsval list \<Rightarrow> jsval \<Rightarrow> jsval \<Rightarrow> (string \<times> string \<times> day_row) list" where
  "uptime_baseline_rows date_ms stored metrics targets env current =
     (let first_day = earliest_stored_day stored;
          by_agent = upserts (\<lambda>row. sanitize_agent_id (js_get row ''agent_id'')) metrics [];
          retention_start = agent_state_timestamp date_ms current - availability_retention_days env * 86400
      in concat (map (\<lambda>t.
           if num_or0 (js_get t ''no_public_ip'') \<noteq> Fin 1 then []
           else let i = sanitize_agent_id (js_get t ''id'');
                    metric = (case map_of by_agent i of Some r \<Rightarrow> r | None \<Rightarrow> Undefined);
                    end_at = agent_state_timestamp date_ms (js_get metric ''updated_at'');
                    uptime = js_max (Fin 0) (js_floor (num_or0 (js_get metric ''uptime_sec'')));
                    created = agent_state_timestamp date_ms (js_get t ''created_at'');
                    start_at = (case uptime of Fin q \<Rightarrow> max (max (end_at - \<lfloor>q\<rfloor>) created) retention_start
                                 | _ \<Rightarrow> max created retention_start)
                in if i = [] \<or> end_at = 0 \<or> \<not> num_truthy uptime \<or> end_at \<le> start_at then []
                   else map (\<lambda>(day, r). (i, day, r))
                     (filter (\<lambda>(day, _). case map_of first_day i of Some d \<Rightarrow> day < d | None \<Rightarrow> True)
                       (add_interval start_at end_at True env []))) targets))"

definition merge_agent_availability_rows ::
  "(jsval \<Rightarrow> int option) \<Rightarrow> (string \<Rightarrow> string) \<Rightarrow> jsval list \<Rightarrow> jsval list \<Rightarrow> jsval \<Rightarrow> jsval \<Rightarrow> jsval list \<Rightarrow> merged_row list" where
  "merge_agent_availability_rows date_ms coll stored metrics env current targets =
     (let m1 = fold (\<lambda>(i, day, r). merge_row (Str i) (Str day) (JInt (dr_total r)) (JInt (dr_online r)))
            (uptime_baseline_rows date_ms stored metrics targets env current) [];
          m2 = fold (\<lambda>row. merge_row (js_get row ''agent_id'') (js_get row ''day'') (js_get row ''total_sec'') (js_get row ''online_sec''))
            stored m1;
          m3 = fold (\<lambda>metric m. fold (\<lambda>(day, r). merge_row (Str (sanitize_agent_id (js_get metric ''agent_id''))) (Str day)
                 (JInt (dr_total r)) (JInt (dr_online r)))
               (agent_availability_segments date_ms (js_get metric ''updated_at'') current env) m) metrics m2
      in sort_key (\<lambda>r. (mr_day r, coll (mr_agent r))) (map snd m3))"

section \<open>Every second is counted once, on its day\<close>

definition day_total :: "(string \<times> day_row) list \<Rightarrow> string \<Rightarrow> int" where
  "day_total rows day = (case map_of rows day of Some r \<Rightarrow> dr_total r | None \<Rightarrow> 0)"

definition day_online :: "(string \<times> day_row) list \<Rightarrow> string \<Rightarrow> int" where
  "day_online rows day = (case map_of rows day of Some r \<Rightarrow> dr_online r | None \<Rightarrow> 0)"

text \<open>The seconds of the interval from \<open>a\<close> to \<open>b\<close> inside the local day \<open>z\<close>\<close>

definition overlap :: "jsval \<Rightarrow> int \<Rightarrow> int \<Rightarrow> int \<Rightarrow> int" where
  "overlap env a b z = max 0 (min b ((z + 1) * 86400 - day_offset env) - max a (z * 86400 - day_offset env))"

definition day_index :: "jsval \<Rightarrow> int \<Rightarrow> int" where
  "day_index env t = (t + day_offset env) div 86400"

lemma day_add_seconds [simp]:
  "day_total (add_seconds online n d rows) k = day_total rows k + (if k = d then n else 0)"
  "day_online (add_seconds online n d rows) k = day_online rows k + (if k = d \<and> online then n else 0)"
  by (auto simp: day_total_def day_online_def add_seconds_def Let_def no_row_def update_conv' split: option.split)

lemma day_index_bounds: "day_index env t * 86400 - day_offset env \<le> t" "t < (day_index env t + 1) * 86400 - day_offset env"
  unfolding day_index_def
  using next_midnight [of t "day_offset env"] div_mult_mod_eq [of "t + day_offset env" 86400] pos_mod_sign [of 86400 "t + day_offset env"]
  by linarith+

lemma overlap_split:
  assumes "a \<le> m" "m \<le> b"
  shows "overlap env a b z = overlap env a m z + overlap env m b z"
proof -
  have part: "max 0 (min b hi - max a lo) = max 0 (min m hi - max a lo) + max 0 (min b hi - max m lo)" if "lo < hi" for lo hi
  proof -
    consider "m \<le> lo" | "hi \<le> m" | "lo < m" "m < hi" by linarith
    then show ?thesis
      using assms that by cases (simp_all add: max_def min_def)
  qed
  show ?thesis unfolding overlap_def by (rule part) simp
qed

lemma overlap_day:
  assumes "a < m" "m \<le> (day_index env a + 1) * 86400 - day_offset env"
  shows "overlap env a m z = (if z = day_index env a then m - a else 0)"
proof -
  define d where "d = day_index env a"
  have b: "d * 86400 - day_offset env \<le> a" using day_index_bounds(1) [of env a] by (simp add: d_def)
  have m: "m \<le> (d + 1) * 86400 - day_offset env" using assms by (simp add: d_def)
  consider "z = d" | "z + 1 \<le> d" | "d + 1 \<le> z" by linarith
  then show ?thesis
  proof cases
    case 2
    then have "(z + 1) * 86400 \<le> d * 86400" by (intro mult_right_mono) simp_all
    with b have "(z + 1) * 86400 - day_offset env \<le> a" by linarith
    with 2 show ?thesis by (simp add: overlap_def d_def [symmetric])
  next
    case 3
    then have "(d + 1) * 86400 \<le> z * 86400" by (intro mult_right_mono) simp_all
    with m have "m \<le> z * 86400 - day_offset env" by linarith
    with 3 show ?thesis by (simp add: overlap_def d_def [symmetric])
  qed (use assms(1) b m in \<open>simp add: overlap_def d_def\<close>)
qed

lemma overlap_empty: "b \<le> a \<Longrightarrow> overlap env a b z = 0"
  by (simp add: overlap_def)

lemma day_index_mono: "a \<le> b \<Longrightarrow> day_index env a \<le> day_index env b"
  by (simp add: day_index_def zdiv_mono1)

lemma add_interval_days:
  assumes "\<And>y. day_index env cursor \<le> y \<Longrightarrow> y \<le> day_index env till \<Longrightarrow> iso_day y = iso_day z \<longleftrightarrow> y = z"
  shows "day_total (add_interval cursor till online env rows) (iso_day z) = day_total rows (iso_day z) + overlap env cursor till z \<and>
    day_online (add_interval cursor till online env rows) (iso_day z) =
      day_online rows (iso_day z) + (if online then overlap env cursor till z else 0)"
  using assms
proof (induction cursor till online env rows rule: add_interval.induct)
  case (1 cursor till online env rows)
  show ?case
  proof (cases "till \<le> cursor")
    case True
    then show ?thesis by (simp add: add_interval.simps overlap_empty)
  next
    case False
    define d where "d = day_index env cursor"
    define m where "m = min till ((d + 1) * 86400 - day_offset env)"
    have cm: "cursor < m" "m \<le> till" "m \<le> (d + 1) * 86400 - day_offset env"
      using False day_index_bounds(2) [of cursor env] by (simp_all add: m_def d_def)
    have step: "add_interval cursor till online env rows =
        add_interval m till online env (add_seconds online (m - cursor) (iso_day d) rows)"
      using False cm(1) by (subst add_interval.simps) (simp add: Let_def d_def day_index_def m_def)
    have inj: "iso_day z = iso_day d \<longleftrightarrow> z = d"
      using "1.prems" [of d] day_index_mono [of cursor till env] False by (auto simp: d_def)
    have ov: "overlap env cursor till z = overlap env m till z + (if z = d then m - cursor else 0)"
      using overlap_split [of cursor m till] overlap_day [OF cm(1), of env z] cm by (simp add: d_def)
    have "day_total (add_interval m till online env (add_seconds online (m - cursor) (iso_day d) rows)) (iso_day z) =
        day_total (add_seconds online (m - cursor) (iso_day d) rows) (iso_day z) + overlap env m till z \<and>
      day_online (add_interval m till online env (add_seconds online (m - cursor) (iso_day d) rows)) (iso_day z) =
        day_online (add_seconds online (m - cursor) (iso_day d) rows) (iso_day z) + (if online then overlap env m till z else 0)"
      using "1.IH" [OF False refl refl refl refl] "1.prems" day_index_mono [of cursor m env] cm
      by (simp add: d_def day_index_def m_def Let_def)
    then show ?thesis unfolding step ov using inj by simp
  qed
qed

lemma add_seconds_distinct: "distinct (map fst rows) \<Longrightarrow> distinct (map fst (add_seconds online n d rows))"
  by (simp add: add_seconds_def Let_def distinct_update)

lemma add_interval_distinct:
  "distinct (map fst rows) \<Longrightarrow> distinct (map fst (add_interval cursor till online env rows))"
proof (induction cursor till online env rows rule: add_interval.induct)
  case (1 cursor till online env rows)
  show ?case
  proof (cases "till \<le> cursor")
    case False
    from "1.IH" [OF False refl refl refl refl add_seconds_distinct [OF "1.prems"]] show ?thesis
      using False by (subst add_interval.simps) (simp only: Let_def if_False)
  qed (use "1.prems" in \<open>simp add: add_interval.simps\<close>)
qed

lemma day_maps_empty [simp]: "day_total [] k = 0" "day_online [] k = 0"
  by (simp_all add: day_total_def day_online_def)

text \<open>Availability accounting is exact. For two reports at \<open>p < e\<close>, the segments give every local day the
  seconds of the interval inside that day, each second once and on its own day, limited to the retention window;
  the on-line part is the part up to the off-line threshold after the first report. The days are those whose
  year has four digits.
\<close>

theorem availability_segments_exact:
  fixes p e z :: int and env :: jsval and date_ms :: "jsval \<Rightarrow> int option"
  defines "s \<equiv> max p (e - availability_retention_days env * 86400)"
  defines "segments \<equiv> agent_availability_segments date_ms (JInt p) (JInt e) env"
  assumes "0 < p" "p < e" "0 \<le> year_from_day z" "year_from_day z \<le> 9999"
    and "0 \<le> year_from_day (day_index env s)" "year_from_day (day_index env e) \<le> 9999"
  shows "day_total segments (iso_day z) = overlap env s e z \<and>
    day_online segments (iso_day z) = overlap env s (min e (p + offline_after_sec env)) z"
proof -
  define m where "m = max s (min e (p + offline_after_sec env))"
  have ret: "30 \<le> availability_retention_days env" and off: "120 \<le> offline_after_sec env"
    by (simp_all add: availability_retention_days_def offline_after_sec_def clamp_bounds)
  have order: "s \<le> m" "m \<le> e" using assms(4) ret by (auto simp: m_def s_def)
  have seg: "segments = sort_key fst (add_interval m e False env (add_interval s m True env []))"
    using assms(3,4) by (simp add: segments_def agent_availability_segments_def agent_state_timestamp_def m_def s_def Let_def)
  have inj: "iso_day y = iso_day z \<longleftrightarrow> y = z" if "day_index env s \<le> y" "y \<le> day_index env e" for y
    using that assms(5-8) year_from_day_mono [of "day_index env s" y] year_from_day_mono [of y "day_index env e"]
    by (intro iso_day_inject) linarith+
  have days: "day_index env s \<le> day_index env m" "day_index env m \<le> day_index env e"
    using order day_index_mono by blast+
  have first: "day_total (add_interval s m True env []) (iso_day z) = overlap env s m z \<and>
      day_online (add_interval s m True env []) (iso_day z) = overlap env s m z"
    using add_interval_days [of env s m z True "[]"] inj days by simp
  have "day_total (add_interval m e False env (add_interval s m True env [])) (iso_day z) = overlap env s m z + overlap env m e z \<and>
      day_online (add_interval m e False env (add_interval s m True env [])) (iso_day z) = overlap env s m z"
    using add_interval_days [of env m e z False "add_interval s m True env []"] inj days first by simp
  moreover have "day_total segments k = day_total (add_interval m e False env (add_interval s m True env [])) k"
    "day_online segments k = day_online (add_interval m e False env (add_interval s m True env [])) k" for k
    by (simp_all add: seg day_total_def day_online_def add_interval_distinct)
  moreover have "overlap env s e z = overlap env s m z + overlap env m e z" by (rule overlap_split [OF order])
  moreover have "overlap env s m z = overlap env s (min e (p + offline_after_sec env)) z"
  proof (cases "min e (p + offline_after_sec env) \<le> s")
    case True
    then show ?thesis by (simp add: m_def overlap_empty)
  qed (simp add: m_def)
  ultimately show ?thesis by simp
qed

lemma availability_segments_exact_witness:
  "day_total (agent_availability_segments (\<lambda>_. None) (JInt 1772500000) (JInt 1772600000) (Obj [])) ''2026-03-04'' = 46400"
proof -
  have d: "iso_day 20516 = ''2026-03-04''" "year_from_day 20516 = 2026"
    "day_index (Obj []) (max 1772500000 (1772600000 - availability_retention_days (Obj []) * 86400)) = 20515"
    "year_from_day 20515 = 2026" "day_index (Obj []) 1772600000 = 20516" by code_simp+
  have o: "overlap (Obj []) (max 1772500000 (1772600000 - availability_retention_days (Obj []) * 86400)) 1772600000 20516 = 46400"
    by code_simp
  show ?thesis
    using availability_segments_exact [of 1772500000 1772600000 20516 "Obj []" "\<lambda>_. None"] by (simp add: d o)
qed

end
