(* ===== verification/ReportStream.thy ===== *)
theory ReportStream
  imports AgentState TelemetryCodec Protobuf
begin

text \<open>
  The live half of the durable object \<open>TelemetryBuffer\<close> (\<open>worker/src/telemetry-buffer.js\<close>): the
  sockets of the Agents, the rate limit, the lifecycle epochs that fence off a deleted Agent, the
  reports held in memory and the alarm that drains them.

  One record holds the instance: the fields of the class (\<open>do_...\<close>), lost when the platform evicts
  the instance, and its durable storage (\<open>st_...\<close>), which is not. A handler is a function on it;
  storage writes that may fail have a boolean argument saying whether they succeed, and the effects
  on the database are a list. Times are seconds (\<open>now\<close>), alarms are milliseconds (\<open>ms\<close>).

  \<open>processAgentMetricsPayload\<close> runs between \<open>ws_receive\<close> and \<open>ws_commit\<close>; its result is an argument
  of the latter, and other handlers may run in between.
\<close>

section \<open>State\<close>

record report =
  rp_agent :: string
  rp_epoch :: int
  rp_ts :: int
  rp_prev_at :: jsval
  rp_state :: "jsval option"
  rp_points :: "metric_point list"
  rp_pings :: "ping list"
  rp_checks :: "proxy_check list"
  rp_net :: "jsval option"
  rp_latest_done :: bool
  rp_appended :: bool
  rp_avail_done :: bool
  rp_traffic_done :: bool

record lifecycle =
  lc_epoch :: int
  lc_deleted_at :: "int option"

type_synonym chunk_map = "((string \<times> int) \<times> stored_buffer) list"

record telemetry_do =
  do_latest :: "(string \<times> jsval) list"
  do_last_seen :: "(string \<times> int) list"
  do_reports :: "report list"
  do_bytes :: int
  do_persist_at :: "(string \<times> int) list"
  do_windows :: "(string \<times> int \<times> int) list"
  st_lifecycle :: "(string \<times> lifecycle) list"
  st_latest :: "(string \<times> jsval) list"
  st_last_seen :: "(string \<times> int) list"
  st_chunks :: chunk_map
  st_alarm :: "int option"

definition fresh_do :: telemetry_do where
  "fresh_do = \<lparr> do_latest = [], do_last_seen = [], do_reports = [], do_bytes = 0, do_persist_at = [],
     do_windows = [], st_lifecycle = [], st_latest = [], st_last_seen = [], st_chunks = [], st_alarm = None \<rparr>"

text \<open>Eviction: the constructor runs again over the same storage\<close>

definition evict :: "telemetry_do \<Rightarrow> telemetry_do" where
  "evict d = d\<lparr> do_latest := [], do_last_seen := [], do_reports := [], do_bytes := 0, do_persist_at := [],
     do_windows := [] \<rparr>"

definition max_mem_reports :: nat where "max_mem_reports = 5000"
definition max_mem_reports_bytes :: int where "max_mem_reports_bytes = 32 * 1024 * 1024"
definition latest_persist_throttle_sec :: int where "latest_persist_throttle_sec = 300"
definition last_seen_persist_interval_sec :: int where "last_seen_persist_interval_sec = 120"

definition estimate_report_bytes :: "report \<Rightarrow> int" where
  "estimate_report_bytes r =
     1024 + int (length (rp_points r)) * 96 + int (length (rp_pings r)) * 48 + int (length (rp_checks r)) * 96"

text \<open>\<open>latestStateKey\<close>, \<open>lastSeenKey\<close> and \<open>agentLifecycleKey\<close> sanitize the identifier\<close>

definition canon :: "string \<Rightarrow> string" where
  "canon i = sanitize_agent_id (Str i)"

section \<open>Rate limit\<close>

definition burst_window_sec :: "jsval \<Rightarrow> int" where
  "burst_window_sec env = clamp (js_Number (js_or (js_get env ''AGENT_WS_BURST_WINDOW_SEC'') (JInt 300))) 30 3600"

definition burst_limit :: "jsval \<Rightarrow> int" where
  "burst_limit env = clamp (js_Number (js_or (js_get env ''AGENT_WS_BURST_LIMIT'') (JInt 20))) 2 1000"

definition allow_agent_message :: "jsval \<Rightarrow> int \<Rightarrow> string \<Rightarrow> telemetry_do \<Rightarrow> telemetry_do \<times> bool" where
  "allow_agent_message env now agent d =
     (let window = burst_window_sec env; limit = burst_limit env;
          (start, count, windows) =
            (case map_of (do_windows d) agent of
               Some (s, n) \<Rightarrow> if window \<le> now - s then (now, 0, None) else (s, n, Some (do_windows d))
             | None \<Rightarrow> (now, 0, None));
          ws = (case windows of
                  Some w \<Rightarrow> w
                | None \<Rightarrow> (let w = AList.update agent (now, 0) (do_windows d)
                           in if 5000 < length w then filter (\<lambda>(k, s, n). \<not> window \<le> now - s) w else w))
      in (d\<lparr> do_windows := AList.update agent (start, count + 1) ws \<rparr>, count + 1 \<le> limit))"

section \<open>Lifecycle epochs\<close>

definition lifecycle_deleted :: "lifecycle \<Rightarrow> bool" where
  "lifecycle_deleted l = (case lc_deleted_at l of Some t \<Rightarrow> t \<noteq> 0 | None \<Rightarrow> False)"

definition open_agent_lifecycle :: "string \<Rightarrow> telemetry_do \<Rightarrow> telemetry_do \<times> lifecycle" where
  "open_agent_lifecycle agent d =
     (case map_of (st_lifecycle d) (canon agent) of
        Some l \<Rightarrow>
          if lifecycle_deleted l
          then (let l' = \<lparr> lc_epoch = lc_epoch l + 1, lc_deleted_at = None \<rparr>
                in (d\<lparr> st_lifecycle := AList.update (canon agent) l' (st_lifecycle d) \<rparr>, l'))
          else if 0 < lc_epoch l then (d, l)
          else (let l' = \<lparr> lc_epoch = 1, lc_deleted_at = None \<rparr>
                in (d\<lparr> st_lifecycle := AList.update (canon agent) l' (st_lifecycle d) \<rparr>, l'))
      | None \<Rightarrow>
          (let l' = \<lparr> lc_epoch = 1, lc_deleted_at = None \<rparr>
           in (d\<lparr> st_lifecycle := AList.update (canon agent) l' (st_lifecycle d) \<rparr>, l')))"

definition mark_agent_deleted :: "int \<Rightarrow> string \<Rightarrow> telemetry_do \<Rightarrow> telemetry_do" where
  "mark_agent_deleted now agent d =
     (let epoch = (case map_of (st_lifecycle d) (canon agent) of Some l \<Rightarrow> lc_epoch l | None \<Rightarrow> 0)
      in d\<lparr> st_lifecycle := AList.update (canon agent) \<lparr> lc_epoch = epoch + 1, lc_deleted_at = Some now \<rparr> (st_lifecycle d) \<rparr>)"

text \<open>An absent or zero \<open>expectedEpoch\<close> is \<open>0\<close>; \<open>None\<close> is the result \<open>null\<close>\<close>

definition current_agent_lifecycle_epoch :: "telemetry_do \<Rightarrow> string \<Rightarrow> int \<Rightarrow> int option" where
  "current_agent_lifecycle_epoch d agent expected =
     (if agent = [] then None
      else case map_of (st_lifecycle d) (canon agent) of
        None \<Rightarrow> Some expected
      | Some l \<Rightarrow>
          if lifecycle_deleted l then None
          else let epoch = (if lc_epoch l \<noteq> 0 then lc_epoch l else expected)
               in if epoch = 0 then None
                  else if 0 < expected \<and> epoch \<noteq> expected then None
                  else Some epoch)"

section \<open>Last report clock and latest state\<close>

text \<open>\<open>seen_at\<close> is already floored; \<open>0\<close> means now\<close>

definition record_agent_last_seen :: "bool \<Rightarrow> int \<Rightarrow> string \<Rightarrow> int \<Rightarrow> telemetry_do \<Rightarrow> telemetry_do" where
  "record_agent_last_seen put_ok now raw_agent seen_at d =
     (let agent = canon raw_agent; stamp = (if seen_at = 0 then now else seen_at)
      in if agent = [] then d
         else let d1 = (if (case map_of (do_last_seen d) agent of Some t \<Rightarrow> t | None \<Rightarrow> 0) < stamp
                        then d\<lparr> do_last_seen := AList.update agent stamp (do_last_seen d) \<rparr> else d);
                  stored = (case map_of (st_last_seen d) (canon agent) of Some t \<Rightarrow> t | None \<Rightarrow> 0)
              in if stored < stamp \<and> (stored = 0 \<or> last_seen_persist_interval_sec \<le> stamp - stored) \<and> put_ok
                 then d1\<lparr> st_last_seen := AList.update (canon agent) stamp (st_last_seen d1) \<rparr> else d1)"

text \<open>\<open>False\<close>: the write threw. \<open>latestPersistAt\<close> is set before the write.\<close>

definition persist_latest_state :: "bool \<Rightarrow> int \<Rightarrow> string \<Rightarrow> jsval \<Rightarrow> telemetry_do \<Rightarrow> telemetry_do \<times> bool" where
  "persist_latest_state put_ok now agent state d =
     (if now - (case map_of (do_persist_at d) agent of Some t \<Rightarrow> t | None \<Rightarrow> 0) < latest_persist_throttle_sec
      then (d, True)
      else let d1 = d\<lparr> do_persist_at := AList.update agent now (do_persist_at d) \<rparr>
           in if put_ok then (d1\<lparr> st_latest := AList.update (canon agent) state (st_latest d1) \<rparr>, True)
              else (d1, False))"

section \<open>A message on a socket\<close>

record socket =
  sk_agent :: string
  sk_epoch :: int

record in_flight =
  if_agent :: string
  if_epoch :: int
  if_previous :: "jsval option"

datatype ws_reply = Pong | AckDropped | CloseSuperseded | Ack | AckError bool

datatype frame = TextFrame string | BinFrame bytes
datatype ws_body = JsonBody jsval | PbBody pb_body
datatype frame_error = FrameTooLarge | BadJson | BadFrame pb_error
datatype ws_message = WsBad frame_error | WsPing | WsMetrics ws_body

text \<open>\<open>json\<close> is \<open>JSON.parse\<close> and \<open>text_of\<close> the UTF-8 decoder, both of the platform\<close>

definition parse_json_message :: "(string \<Rightarrow> jsval option) \<Rightarrow> string \<Rightarrow> frame_error + ws_body" where
  "parse_json_message json text_of =
     (if max_frame_bytes < length text_of then Inl FrameTooLarge
      else case json text_of of None \<Rightarrow> Inl BadJson | Some v \<Rightarrow> Inr (JsonBody v))"

definition parse_binary_message ::
  "(string \<Rightarrow> jsval option) \<Rightarrow> (bytes \<Rightarrow> string) \<Rightarrow> (bytes \<Rightarrow> pb_error + pb_body) \<Rightarrow> bytes \<Rightarrow> frame_error + ws_body" where
  "parse_binary_message json text_of decode bs =
     (if max_frame_bytes < length bs then Inl FrameTooLarge
      else if bs \<noteq> [] \<and> (hd bs = 0x7b \<or> hd bs = 0x5b) then parse_json_message json (text_of bs)
      else case decode bs of Inl e \<Rightarrow> Inl (BadFrame e) | Inr b \<Rightarrow> Inr (PbBody b))"

definition ws_message_of ::
  "(string \<Rightarrow> jsval option) \<Rightarrow> (bytes \<Rightarrow> string) \<Rightarrow> (bytes \<Rightarrow> pb_error + pb_body) \<Rightarrow> frame \<Rightarrow> ws_message" where
  "ws_message_of json text_of decode f =
     (case (case f of TextFrame t \<Rightarrow> parse_json_message json t | BinFrame bs \<Rightarrow> parse_binary_message json text_of decode bs) of
        Inl e \<Rightarrow> WsBad e
      | Inr (JsonBody v) \<Rightarrow>
          if js_get v ''type'' = Str ''ping'' then WsPing
          else if js_get v ''type'' = Str ''metrics'' then WsMetrics (JsonBody (js_get v ''payload''))
          else WsMetrics (JsonBody v)
      | Inr (PbBody b) \<Rightarrow> WsMetrics (PbBody b))"

definition previous_state :: "(jsval \<Rightarrow> int option) \<Rightarrow> string \<Rightarrow> telemetry_do \<Rightarrow> jsval option" where
  "previous_state date_ms agent d =
     (let memo = map_of (do_latest d) agent; stored = map_of (st_latest d) (canon agent);
          stamp = (\<lambda>s. agent_state_timestamp date_ms (js_or (case s of Some v \<Rightarrow> js_get v ''updated_at'' | None \<Rightarrow> Undefined) (JInt 0)))
      in if stamp memo < stamp stored then stored else memo)"

text \<open>\<open>webSocketMessage\<close> up to the call of \<open>processAgentMetricsPayload\<close>\<close>

definition ws_receive ::
  "(jsval \<Rightarrow> int option) \<Rightarrow> jsval \<Rightarrow> int \<Rightarrow> socket \<Rightarrow> ws_message \<Rightarrow> telemetry_do \<Rightarrow> telemetry_do \<times> (ws_reply + in_flight)" where
  "ws_receive date_ms env now s message d =
     (case message of
        WsBad e \<Rightarrow> (d, Inl (AckError False))
      | WsPing \<Rightarrow> (d, Inl Pong)
      | WsMetrics payload \<Rightarrow>
          (let agent = canon (sk_agent s);
               (d1, allowed) = (if agent \<noteq> [] then allow_agent_message env now agent d else (d, True))
           in if \<not> allowed then (d1, Inl AckDropped)
              else case current_agent_lifecycle_epoch d1 agent (sk_epoch s) of
                None \<Rightarrow> (d1, Inl CloseSuperseded)
              | Some epoch \<Rightarrow> (d1, Inr \<lparr> if_agent = agent, if_epoch = epoch, if_previous = previous_state date_ms agent d1 \<rparr>)))"

record metrics_result =
  re_state :: "jsval option"
  re_points :: "metric_point list"
  re_pings :: "ping list"
  re_checks :: "proxy_check list"
  re_net :: "jsval option"

text \<open>The loop over \<open>memReports.shift()\<close>\<close>

fun cap_reports :: "report list \<Rightarrow> int \<Rightarrow> report list \<times> int" where
  "cap_reports [] bytes = ([], bytes)"
| "cap_reports (r # rs) bytes =
     (if max_mem_reports < length (r # rs) \<or> (max_mem_reports_bytes < bytes \<and> 1 < length (r # rs))
      then cap_reports rs (bytes - estimate_report_bytes r)
      else (r # rs, bytes))"

definition push_report :: "report \<Rightarrow> telemetry_do \<Rightarrow> telemetry_do" where
  "push_report r d =
     (let (rs, bytes) = cap_reports (do_reports d @ [r]) (do_bytes d + estimate_report_bytes r)
      in d\<lparr> do_reports := rs, do_bytes := bytes \<rparr>)"

definition schedule_report_drain :: "int \<Rightarrow> telemetry_do \<Rightarrow> telemetry_do" where
  "schedule_report_drain ms d =
     (case st_alarm d of
        Some a \<Rightarrow> if a \<le> ms + 30000 then d else d\<lparr> st_alarm := Some (ms + 30000) \<rparr>
      | None \<Rightarrow> d\<lparr> st_alarm := Some (ms + 30000) \<rparr>)"

definition accept_state ::
  "(jsval \<Rightarrow> int option) \<Rightarrow> int \<Rightarrow> in_flight \<Rightarrow> jsval \<Rightarrow> telemetry_do \<Rightarrow> telemetry_do \<times> jsval option" where
  "accept_state date_ms now f state d =
     (let prev_ts = (case if_previous f of Some p \<Rightarrow> updated_at date_ms p | None \<Rightarrow> agent_state_timestamp date_ms Undefined);
          key = (if js_truthy (js_get state ''agent_id'') then js_String (js_get state ''agent_id'') else if_agent f)
      in if prev_ts \<le> updated_at date_ms state \<or> 900 < now - prev_ts
         then (d\<lparr> do_latest := AList.update key state (do_latest d) \<rparr>, Some state)
         else case if_previous f of
           Some p \<Rightarrow> (d\<lparr> do_latest := AList.update key p (do_latest d) \<rparr>, None)
         | None \<Rightarrow> (d, None))"

text \<open>\<open>webSocketMessage\<close> from the result of \<open>processAgentMetricsPayload\<close> on; an error carries the status\<close>

definition ws_commit ::
  "(jsval \<Rightarrow> int option) \<Rightarrow> int \<Rightarrow> bool \<Rightarrow> int + metrics_result \<Rightarrow> in_flight \<Rightarrow> telemetry_do \<Rightarrow> telemetry_do \<times> ws_reply" where
  "ws_commit date_ms ms put_ok outcome f d =
     (case outcome of
        Inl status \<Rightarrow> (d, AckError (500 \<le> status))
      | Inr res \<Rightarrow>
          if current_agent_lifecycle_epoch d (if_agent f) (if_epoch f) \<noteq> Some (if_epoch f) then (d, CloseSuperseded)
          else let now = ms div 1000;
                   d1 = record_agent_last_seen put_ok now (if_agent f) now d;
                   (d2, accepted) = (case re_state res of Some s \<Rightarrow> accept_state date_ms now f s d1 | None \<Rightarrow> (d1, None));
                   r = \<lparr> rp_agent = if_agent f, rp_epoch = if_epoch f, rp_ts = now,
                         rp_prev_at = (case if_previous f of Some p \<Rightarrow> js_or (js_get p ''updated_at'') Null | None \<Rightarrow> Null),
                         rp_state = accepted, rp_points = re_points res, rp_pings = re_pings res,
                         rp_checks = re_checks res, rp_net = re_net res,
                         rp_latest_done = False, rp_appended = False, rp_avail_done = False, rp_traffic_done = False \<rparr>
               in (schedule_report_drain ms (push_report r d2), Ack))"

definition open_agent_metrics_socket :: "string \<Rightarrow> telemetry_do \<Rightarrow> telemetry_do \<times> socket option" where
  "open_agent_metrics_socket header d =
     (let agent = canon header
      in if agent = [] then (d, None)
         else let (d1, l) = open_agent_lifecycle agent d
              in (d1, Some \<lparr> sk_agent = agent, sk_epoch = lc_epoch l \<rparr>))"

section \<open>The routes on the latest state\<close>

datatype latest_reply = BadAgent | LatestState "jsval option"

definition get_latest :: "string \<Rightarrow> telemetry_do \<Rightarrow> latest_reply" where
  "get_latest query d =
     (let agent = canon query
      in if agent = [] then BadAgent
         else if (case map_of (st_lifecycle d) (canon agent) of Some l \<Rightarrow> lifecycle_deleted l | None \<Rightarrow> False)
         then LatestState None
         else case map_of (do_latest d) agent of
           Some s \<Rightarrow> LatestState (Some s)
         | None \<Rightarrow> LatestState (map_of (st_latest d) (canon agent)))"

definition delete_latest :: "int \<Rightarrow> string \<Rightarrow> telemetry_do \<Rightarrow> telemetry_do" where
  "delete_latest now query d =
     (let agent = canon query
      in if agent = [] then d
         else let d1 = mark_agent_deleted now agent d
              in d1\<lparr> do_latest := AList.delete agent (do_latest d1),
                   do_last_seen := AList.delete agent (do_last_seen d1),
                   do_persist_at := AList.delete agent (do_persist_at d1),
                   do_reports := filter (\<lambda>r. canon (rp_agent r) \<noteq> agent) (do_reports d1),
                   st_latest := AList.delete (canon agent) (st_latest d1),
                   st_last_seen := AList.delete (canon agent) (st_last_seen d1) \<rparr>)"

section \<open>Draining\<close>

text \<open>\<open>appendLocal\<close>: one transaction over the chunks of the samples\<close>

definition append_chunks :: "(string \<Rightarrow> string) \<Rightarrow> string \<Rightarrow> (int \<times> sample_group) list \<Rightarrow> chunk_map \<Rightarrow> chunk_map" where
  "append_chunks coll agent grouped chunks =
     fold (\<lambda>(chunk, incoming) m.
        let key = (canon agent, chunk_start chunk);
            existing = (case map_of m key of Some v \<Rightarrow> v | None \<Rightarrow> Plain (empty_buffer agent chunk))
        in AList.update key (compact_of coll (merge_buffer coll existing incoming agent chunk chunk_sec)) m)
       grouped chunks"

datatype append_reply = AppendSkipped | Appended nat

definition append_local ::
  "(string \<Rightarrow> string) \<Rightarrow> string \<Rightarrow> metric_point list \<Rightarrow> ping list \<Rightarrow> proxy_check list \<Rightarrow> chunk_map \<Rightarrow>
   unit + chunk_map \<times> append_reply" where
  "append_local coll raw_agent points pings checks chunks =
     (let agent = canon raw_agent
      in if agent = [] then Inl ()
         else let grouped = group_by_chunk points pings checks
              in if grouped = [] then Inr (chunks, AppendSkipped)
                 else Inr (append_chunks coll agent grouped chunks, Appended (length grouped)))"

text \<open>Which of the writes of one Agent's drain succeed\<close>

record outcomes =
  oc_persist :: bool
  oc_append :: bool
  oc_avail :: bool
  oc_traffic :: "nat \<Rightarrow> bool"
  oc_persist_again :: bool

datatype db_effect = is_Availability: Availability string jsval int | is_Traffic: Traffic string jsval int

text \<open>The index of the report with the newest state, the first one when several are equally new\<close>

definition newest_report :: "(jsval \<Rightarrow> int option) \<Rightarrow> report list \<Rightarrow> nat option" where
  "newest_report date_ms items =
     fold (\<lambda>i latest. case rp_state (items ! i) of
         None \<Rightarrow> latest
       | Some s \<Rightarrow>
           (case latest of
              None \<Rightarrow> Some i
            | Some j \<Rightarrow> if (case rp_state (items ! j) of Some t \<Rightarrow> updated_at date_ms t | None \<Rightarrow> 0) < updated_at date_ms s
                       then Some i else latest)) [0..<length items] None"

definition persist_newest ::
  "(jsval \<Rightarrow> int option) \<Rightarrow> bool \<Rightarrow> int \<Rightarrow> string \<Rightarrow> report list \<Rightarrow> telemetry_do \<Rightarrow> telemetry_do \<times> report list \<times> bool" where
  "persist_newest date_ms ok now agent items d =
     (case newest_report date_ms items of
        None \<Rightarrow> (d, items, True)
      | Some i \<Rightarrow>
          (case rp_state (items ! i) of
             None \<Rightarrow> (d, items, True)
           | Some s \<Rightarrow>
               if rp_latest_done (items ! i) then (d, items, True)
               else let (d1, fine) = persist_latest_state ok now agent s d
                    in (d1, if fine then items[i := (items ! i)\<lparr> rp_latest_done := True \<rparr>] else items, fine)))"

definition has_samples :: "report \<Rightarrow> bool" where
  "has_samples r = (rp_points r \<noteq> [] \<or> rp_pings r \<noteq> [] \<or> rp_checks r \<noteq> [])"

text \<open>The loop that replays the traffic counters: item \<open>i\<close> of the items on\<close>

fun replay_traffic :: "(nat \<Rightarrow> bool) \<Rightarrow> string \<Rightarrow> nat \<Rightarrow> report list \<Rightarrow> report list \<times> db_effect list \<times> bool" where
  "replay_traffic ok agent i [] = ([], [], True)"
| "replay_traffic ok agent i (r # rs) =
     (let (rs', effects, fine) = replay_traffic ok agent (i + 1) rs
      in case rp_net r of
           Some net \<Rightarrow>
             if rp_traffic_done r then (r # rs', effects, fine)
             else if ok i then (r\<lparr> rp_traffic_done := True \<rparr> # rs', Traffic agent net (rp_ts r) # effects, fine)
             else (r # rs', effects, False)
         | None \<Rightarrow> (r # rs', effects, fine))"

text \<open>Appending the samples of the group; \<open>None\<close>: the append threw\<close>

definition append_items ::
  "(string \<Rightarrow> string) \<Rightarrow> bool \<Rightarrow> string \<Rightarrow> report list \<Rightarrow> telemetry_do \<Rightarrow> (telemetry_do \<times> report list) option" where
  "append_items coll ok agent items d =
     (if list_ex has_samples items \<and> \<not> list_all rp_appended items
      then if \<not> ok then None
           else case append_local coll agent (concat (map rp_points items)) (concat (map rp_pings items))
                  (concat (map rp_checks items)) (st_chunks d) of
             Inl _ \<Rightarrow> None
           | Inr (chunks, _) \<Rightarrow> Some (d\<lparr> st_chunks := chunks \<rparr>, map (rp_appended_update (\<lambda>_. True)) items)
      else Some (d, items))"

definition record_avail :: "bool \<Rightarrow> bool \<Rightarrow> string \<Rightarrow> report list \<Rightarrow> report list \<times> db_effect list \<times> bool" where
  "record_avail ok no_public_ip agent items =
     (if no_public_ip \<and> js_truthy (rp_prev_at (hd items)) \<and> \<not> rp_avail_done (hd items)
      then if ok
           then (items[0 := (hd items)\<lparr> rp_avail_done := True \<rparr>],
                 [Availability agent (rp_prev_at (hd items)) (rp_ts (last items))], True)
           else (items, [], False)
      else (items, [], True))"

record drain_result =
  dr_do :: telemetry_do
  dr_effects :: "db_effect list"
  dr_failures :: "report list"
  dr_drained :: nat

text \<open>The body of the loop over the groups\<close>

definition drain_group ::
  "(jsval \<Rightarrow> int option) \<Rightarrow> (string \<Rightarrow> string) \<Rightarrow> int \<Rightarrow> outcomes \<Rightarrow> bool \<Rightarrow> string \<Rightarrow> report list \<Rightarrow> drain_result \<Rightarrow> drain_result" where
  "drain_group date_ms coll now oc no_public_ip agent items acc =
     (if current_agent_lifecycle_epoch (dr_do acc) agent (rp_epoch (hd items)) = None
      then acc\<lparr> dr_drained := dr_drained acc + length items \<rparr>
      else let (d1, items1, fine1) = persist_newest date_ms (oc_persist oc) now agent items (dr_do acc)
           in case append_items coll (oc_append oc) agent items1 d1 of
                None \<Rightarrow> acc\<lparr> dr_do := d1, dr_failures := dr_failures acc @ items1 \<rparr>
              | Some (d2, items2) \<Rightarrow>
                  (let (items3, effects3, fine3) = record_avail (oc_avail oc) no_public_ip agent items2;
                       (items4, effects4, fine4) = replay_traffic (oc_traffic oc) agent 0 items3;
                       (d5, items5, fine5) = persist_newest date_ms (oc_persist_again oc) now agent items4 d2;
                       acc' = acc\<lparr> dr_do := d5, dr_effects := dr_effects acc @ effects3 @ effects4 \<rparr>
                   in if fine1 \<and> fine3 \<and> fine4 \<and> fine5
                      then acc'\<lparr> dr_drained := dr_drained acc + length items \<rparr>
                      else acc'\<lparr> dr_failures := dr_failures acc @ items5 \<rparr>))"

definition schedule_retry :: "int \<Rightarrow> int \<Rightarrow> telemetry_do \<Rightarrow> telemetry_do" where
  "schedule_retry ms delay d =
     (case st_alarm d of
        Some a \<Rightarrow> if ms + delay < a then d\<lparr> st_alarm := Some (ms + delay) \<rparr> else d
      | None \<Rightarrow> d\<lparr> st_alarm := Some (ms + delay) \<rparr>)"

definition drain_pending_reports ::
  "(jsval \<Rightarrow> int option) \<Rightarrow> (string \<Rightarrow> string) \<Rightarrow> int \<Rightarrow> (string \<Rightarrow> outcomes) \<Rightarrow> (string \<Rightarrow> bool) \<Rightarrow> telemetry_do \<Rightarrow> drain_result" where
  "drain_pending_reports date_ms coll ms oc no_public_ip d =
     (if do_reports d = [] then \<lparr> dr_do = d, dr_effects = [], dr_failures = [], dr_drained = 0 \<rparr>
      else let groups = group_by_target (\<lambda>r. canon (rp_agent r)) (sort_key rp_ts (do_reports d));
               res = fold (\<lambda>(agent, items). drain_group date_ms coll (ms div 1000) (oc agent) (no_public_ip agent) agent items)
                       groups \<lparr> dr_do = d\<lparr> do_reports := [] \<rparr>, dr_effects = [], dr_failures = [], dr_drained = 0 \<rparr>;
               d1 = dr_do res
           in if dr_failures res = [] then res
              else res\<lparr> dr_do := schedule_retry ms 60000
                          (d1\<lparr> do_reports := take_last max_mem_reports (dr_failures res @ do_reports d1) \<rparr>) \<rparr>)"

text \<open>The first half of the alarm handler: the platform clears the alarm before it calls the handler\<close>

definition alarm_drain ::
  "(jsval \<Rightarrow> int option) \<Rightarrow> (string \<Rightarrow> string) \<Rightarrow> int \<Rightarrow> (string \<Rightarrow> outcomes) \<Rightarrow> (string \<Rightarrow> bool) \<Rightarrow> telemetry_do \<Rightarrow> drain_result" where
  "alarm_drain date_ms coll ms oc no_public_ip d =
     drain_pending_reports date_ms coll ms oc no_public_ip (d\<lparr> st_alarm := None \<rparr>)"

section \<open>Steps of the instance\<close>

record world =
  w_do :: telemetry_do
  w_sockets :: "socket list"
  w_flight :: "in_flight list"

text \<open>
  Every handler, and the platform's eviction of the instance, which loses the memory and the messages
  in flight but keeps the hibernating sockets. A deletion names an identifier that sanitizing leaves alone,
  as the identifiers of targets are. \<open>flaky\<close> says whether the write of the last report clock may fail.
\<close>

inductive stream_step :: "(jsval \<Rightarrow> int option) \<Rightarrow> (string \<Rightarrow> string) \<Rightarrow> jsval \<Rightarrow> bool \<Rightarrow> world \<Rightarrow> world \<Rightarrow> bool"
  for date_ms coll env flaky where
  opened: "open_agent_metrics_socket header (w_do w) = (d, Some s) \<Longrightarrow>
    stream_step date_ms coll env flaky w (w\<lparr> w_do := d, w_sockets := s # w_sockets w \<rparr>)"
| received: "s \<in> set (w_sockets w) \<Longrightarrow> ws_receive date_ms env now s message (w_do w) = (d, Inr f) \<Longrightarrow>
    stream_step date_ms coll env flaky w (w\<lparr> w_do := d, w_flight := f # w_flight w \<rparr>)"
| refused: "s \<in> set (w_sockets w) \<Longrightarrow> ws_receive date_ms env now s message (w_do w) = (d, Inl reply) \<Longrightarrow>
    stream_step date_ms coll env flaky w (w\<lparr> w_do := d \<rparr>)"
| committed: "f \<in> set (w_flight w) \<Longrightarrow> put_ok \<or> flaky \<Longrightarrow>
    ws_commit date_ms ms put_ok outcome f (w_do w) = (d, reply) \<Longrightarrow>
    stream_step date_ms coll env flaky w (w\<lparr> w_do := d, w_flight := remove1 f (w_flight w) \<rparr>)"
| deleted: "0 < now \<Longrightarrow> canon (canon query) = canon query \<Longrightarrow>
    stream_step date_ms coll env flaky w (w\<lparr> w_do := delete_latest now query (w_do w) \<rparr>)"
| seen: "put_ok \<or> flaky \<Longrightarrow>
    stream_step date_ms coll env flaky w (w\<lparr> w_do := record_agent_last_seen put_ok now agent seen_at (w_do w) \<rparr>)"
| drained: "stream_step date_ms coll env flaky w (w\<lparr> w_do := dr_do (alarm_drain date_ms coll ms oc no_public_ip (w_do w)) \<rparr>)"
| evicted: "stream_step date_ms coll env flaky w (w\<lparr> w_do := evict (w_do w), w_flight := [] \<rparr>)"

inductive stream_reach :: "(jsval \<Rightarrow> int option) \<Rightarrow> (string \<Rightarrow> string) \<Rightarrow> jsval \<Rightarrow> bool \<Rightarrow> world \<Rightarrow> bool"
  for date_ms coll env flaky where
  start: "stream_reach date_ms coll env flaky \<lparr> w_do = fresh_do, w_sockets = [], w_flight = [] \<rparr>"
| step: "stream_reach date_ms coll env flaky w \<Longrightarrow> stream_step date_ms coll env flaky w w' \<Longrightarrow>
    stream_reach date_ms coll env flaky w'"

inductive_cases stream_stepE: "stream_step date_ms coll env flaky w w'"

lemma stream_invariant:
  assumes "I \<lparr> w_do = fresh_do, w_sockets = [], w_flight = [] \<rparr>"
    and "\<And>w w'. I w \<Longrightarrow> stream_step date_ms coll env flaky w w' \<Longrightarrow> I w'"
    and "stream_reach date_ms coll env flaky w"
  shows "I w"
  using assms(3) by induction (use assms(1,2) in blast)+

section \<open>What each handler leaves alone\<close>

text \<open>The lifecycle table, the fields of the last report clock and the queue, handler by handler\<close>

named_theorems do_frame

lemma allow_frame [do_frame]:
  "allow_agent_message env now agent d = (d', b) \<Longrightarrow>
     d' = d\<lparr> do_windows := do_windows d' \<rparr>"
  by (auto simp: allow_agent_message_def Let_def split: prod.splits)

lemma receive_frame [do_frame]:
  "ws_receive date_ms env now s message d = (d', res) \<Longrightarrow> d' = d\<lparr> do_windows := do_windows d' \<rparr>"
  by (auto simp: ws_receive_def Let_def split: ws_message.splits prod.splits if_splits option.splits dest!: allow_frame)

lemma receive_flight:
  assumes "ws_receive date_ms env now s message d = (d', Inr f)"
  shows "if_agent f = canon (sk_agent s) \<and> current_agent_lifecycle_epoch d (if_agent f) (sk_epoch s) = Some (if_epoch f)"
proof -
  have "current_agent_lifecycle_epoch d' a e = current_agent_lifecycle_epoch d a e" for a e
    by (subst receive_frame [OF assms]) (simp add: current_agent_lifecycle_epoch_def)
  moreover have "if_agent f = canon (sk_agent s) \<and> current_agent_lifecycle_epoch d' (if_agent f) (sk_epoch s) = Some (if_epoch f)"
    using assms
    by (auto simp: ws_receive_def Let_def split: ws_message.splits prod.splits if_splits option.splits)
  ultimately show ?thesis by metis
qed

lemma seen_frame [do_frame]:
  "record_agent_last_seen put_ok now agent t d =
     d\<lparr> do_last_seen := do_last_seen (record_agent_last_seen put_ok now agent t d),
       st_last_seen := st_last_seen (record_agent_last_seen put_ok now agent t d) \<rparr>"
  by (simp add: record_agent_last_seen_def Let_def)

lemma accept_frame [do_frame]:
  "accept_state date_ms now f state d = (d', a) \<Longrightarrow> d' = d\<lparr> do_latest := do_latest d' \<rparr>"
  by (auto simp: accept_state_def Let_def split: if_splits option.splits)

lemma persist_frame [do_frame]:
  "persist_latest_state ok now agent s d = (d', b) \<Longrightarrow>
     d' = d\<lparr> do_persist_at := do_persist_at d', st_latest := st_latest d' \<rparr>"
  by (auto simp: persist_latest_state_def Let_def split: if_splits)

lemma persist_newest_frame [do_frame]:
  "persist_newest date_ms ok now agent items d = (d', items', b) \<Longrightarrow>
     d' = d\<lparr> do_persist_at := do_persist_at d', st_latest := st_latest d' \<rparr>"
  by (auto simp: persist_newest_def split: option.splits if_splits prod.splits dest!: persist_frame)

text \<open>A drain touches the latest states, the chunks, the alarm and the queue\<close>

definition same_fence :: "telemetry_do \<Rightarrow> telemetry_do \<Rightarrow> bool" where
  "same_fence d d' = (st_lifecycle d' = st_lifecycle d \<and> do_last_seen d' = do_last_seen d \<and>
     st_last_seen d' = st_last_seen d \<and> do_windows d' = do_windows d \<and> do_bytes d' = do_bytes d)"

lemma same_fence_refl [simp]: "same_fence d d"
  by (simp add: same_fence_def)

lemma same_fence_trans: "same_fence d d' \<Longrightarrow> same_fence d' d'' \<Longrightarrow> same_fence d d''"
  by (simp add: same_fence_def)

lemma persist_newest_fence:
  "persist_newest date_ms ok now agent items d = (d', items', b) \<Longrightarrow>
   same_fence d d' \<and> do_reports d' = do_reports d \<and> st_alarm d' = st_alarm d \<and> st_chunks d' = st_chunks d"
  by (drule persist_newest_frame, erule ssubst) (simp add: same_fence_def)

lemma append_items_fence:
  "append_items coll ok agent items d = Some (d', items') \<Longrightarrow>
   same_fence d d' \<and> do_reports d' = do_reports d \<and> st_alarm d' = st_alarm d \<and> st_latest d' = st_latest d"
  by (auto simp: append_items_def same_fence_def split: if_splits sum.splits prod.splits)

lemma drain_group_cases:
  obtains (skip) "current_agent_lifecycle_epoch (dr_do acc) agent (rp_epoch (hd items)) = None"
      "drain_group date_ms coll now oc nop agent items acc = acc\<lparr> dr_drained := dr_drained acc + length items \<rparr>"
  | (unappended) d1 items1 b1 where
      "current_agent_lifecycle_epoch (dr_do acc) agent (rp_epoch (hd items)) \<noteq> None"
      "persist_newest date_ms (oc_persist oc) now agent items (dr_do acc) = (d1, items1, b1)"
      "append_items coll (oc_append oc) agent items1 d1 = None"
      "drain_group date_ms coll now oc nop agent items acc = acc\<lparr> dr_do := d1, dr_failures := dr_failures acc @ items1 \<rparr>"
  | (appended) d1 items1 b1 d2 items2 items3 e3 b3 items4 e4 b4 d5 items5 b5 where
      "current_agent_lifecycle_epoch (dr_do acc) agent (rp_epoch (hd items)) \<noteq> None"
      "persist_newest date_ms (oc_persist oc) now agent items (dr_do acc) = (d1, items1, b1)"
      "append_items coll (oc_append oc) agent items1 d1 = Some (d2, items2)"
      "record_avail (oc_avail oc) nop agent items2 = (items3, e3, b3)"
      "replay_traffic (oc_traffic oc) agent 0 items3 = (items4, e4, b4)"
      "persist_newest date_ms (oc_persist_again oc) now agent items4 d2 = (d5, items5, b5)"
      "drain_group date_ms coll now oc nop agent items acc =
        (let acc' = acc\<lparr> dr_do := d5, dr_effects := dr_effects acc @ e3 @ e4 \<rparr>
         in if b1 \<and> b3 \<and> b4 \<and> b5 then acc'\<lparr> dr_drained := dr_drained acc + length items \<rparr>
            else acc'\<lparr> dr_failures := dr_failures acc @ items5 \<rparr>)"
proof (cases "current_agent_lifecycle_epoch (dr_do acc) agent (rp_epoch (hd items)) = None")
  case True
  then show ?thesis by (intro skip) (simp_all add: drain_group_def)
next
  case False
  obtain d1 items1 b1 where p1: "persist_newest date_ms (oc_persist oc) now agent items (dr_do acc) = (d1, items1, b1)"
    by (metis prod_cases3)
  show ?thesis
  proof (cases "append_items coll (oc_append oc) agent items1 d1")
    case None
    show ?thesis by (rule unappended [OF False p1 None]) (simp add: drain_group_def False p1 None)
  next
    case (Some r)
    obtain d2 items2 where r: "r = (d2, items2)" by (cases r)
    obtain items3 e3 b3 where p3: "record_avail (oc_avail oc) nop agent items2 = (items3, e3, b3)" by (metis prod_cases3)
    obtain items4 e4 b4 where p4: "replay_traffic (oc_traffic oc) agent 0 items3 = (items4, e4, b4)" by (metis prod_cases3)
    obtain d5 items5 b5 where p5: "persist_newest date_ms (oc_persist_again oc) now agent items4 d2 = (d5, items5, b5)"
      by (metis prod_cases3)
    show ?thesis
      by (rule appended [OF False p1 Some [unfolded r] p3 p4 p5])
        (simp add: drain_group_def False p1 Some r p3 p4 p5 Let_def)
  qed
qed

lemma drain_group_fence:
  "same_fence (dr_do acc) (dr_do (drain_group date_ms coll now oc nop agent items acc)) \<and>
   do_reports (dr_do (drain_group date_ms coll now oc nop agent items acc)) = do_reports (dr_do acc) \<and>
   st_alarm (dr_do (drain_group date_ms coll now oc nop agent items acc)) = st_alarm (dr_do acc)"
proof (cases rule: drain_group_cases [of acc agent items date_ms coll now oc nop])
  case (unappended d1 items1 b1)
  then show ?thesis using persist_newest_fence by fastforce
next
  case (appended d1 items1 b1 d2 items2 items3 e3 b3 items4 e4 b4 d5 items5 b5)
  note f = persist_newest_fence [OF appended(2)] append_items_fence [OF appended(3)] persist_newest_fence [OF appended(6)]
  show ?thesis unfolding appended(7) Let_def using f by (simp add: same_fence_def)
qed simp

lemma drain_groups_fence:
  "same_fence (dr_do acc) (dr_do (fold (\<lambda>(agent, items). drain_group date_ms coll now (oc agent) (nop agent) agent items) gs acc)) \<and>
   do_reports (dr_do (fold (\<lambda>(agent, items). drain_group date_ms coll now (oc agent) (nop agent) agent items) gs acc)) = do_reports (dr_do acc) \<and>
   st_alarm (dr_do (fold (\<lambda>(agent, items). drain_group date_ms coll now (oc agent) (nop agent) agent items) gs acc)) = st_alarm (dr_do acc)"
proof (induction gs arbitrary: acc)
  case (Cons g gs)
  obtain agent items where g: "g = (agent, items)" by (cases g)
  show ?case
    using Cons [of "drain_group date_ms coll now (oc agent) (nop agent) agent items acc"]
      drain_group_fence [of acc date_ms coll now "oc agent" "nop agent" agent items]
    by (auto simp: g intro: same_fence_trans)
qed simp

text \<open>A drain in which every write succeeds or fails, over the queue it found\<close>

definition drain_groups where
  "drain_groups date_ms coll ms oc nop d =
     fold (\<lambda>(agent, items). drain_group date_ms coll (ms div 1000) (oc agent) (nop agent) agent items)
       (group_by_target (\<lambda>r. canon (rp_agent r)) (sort_key rp_ts (do_reports d)))
       \<lparr> dr_do = d\<lparr> do_reports := [] \<rparr>, dr_effects = [], dr_failures = [], dr_drained = 0 \<rparr>"

lemma drain_pending_unfold:
  "drain_pending_reports date_ms coll ms oc nop d =
     (let res = drain_groups date_ms coll ms oc nop d
      in if do_reports d = [] then \<lparr> dr_do = d, dr_effects = [], dr_failures = [], dr_drained = 0 \<rparr>
         else if dr_failures res = [] then res
         else res\<lparr> dr_do := schedule_retry ms 60000
                ((dr_do res)\<lparr> do_reports := take_last max_mem_reports (dr_failures res @ do_reports (dr_do res)) \<rparr>) \<rparr>)"
  by (simp add: drain_pending_reports_def drain_groups_def Let_def)

lemma drain_groups_fence':
  "same_fence d (dr_do (drain_groups date_ms coll ms oc nop d)) \<and> do_reports (dr_do (drain_groups date_ms coll ms oc nop d)) = [] \<and>
   st_alarm (dr_do (drain_groups date_ms coll ms oc nop d)) = st_alarm d"
  using drain_groups_fence [of "\<lparr> dr_do = d\<lparr> do_reports := [] \<rparr>, dr_effects = [], dr_failures = [], dr_drained = 0 \<rparr>"
      date_ms coll "ms div 1000" oc nop "group_by_target (\<lambda>r. canon (rp_agent r)) (sort_key rp_ts (do_reports d))"]
  by (simp add: drain_groups_def same_fence_def)

lemma schedule_retry_fence [simp]:
  "same_fence d (schedule_retry ms t d) \<and> do_reports (schedule_retry ms t d) = do_reports d \<and> st_alarm (schedule_retry ms t d) \<noteq> None"
  by (simp add: schedule_retry_def same_fence_def split: option.split)

lemma alarm_drain_fence:
  "same_fence d (dr_do (alarm_drain date_ms coll ms oc nop d)) \<and>
   do_reports (dr_do (alarm_drain date_ms coll ms oc nop d)) =
     take_last max_mem_reports (dr_failures (alarm_drain date_ms coll ms oc nop d)) \<and>
   (do_reports (dr_do (alarm_drain date_ms coll ms oc nop d)) = [] \<or> st_alarm (dr_do (alarm_drain date_ms coll ms oc nop d)) \<noteq> None)"
  using drain_groups_fence' [of "d\<lparr> st_alarm := None \<rparr>" date_ms coll ms oc nop]
    schedule_retry_fence [of "(dr_do (drain_groups date_ms coll ms oc nop (d\<lparr> st_alarm := None \<rparr>)))\<lparr> do_reports :=
       take_last max_mem_reports (dr_failures (drain_groups date_ms coll ms oc nop (d\<lparr> st_alarm := None \<rparr>))) \<rparr>" ms 60000]
  by (auto simp: alarm_drain_def drain_pending_unfold Let_def same_fence_def)

section \<open>The reports a drain passes on\<close>

text \<open>A report without the marks a drain leaves on it\<close>

definition unmarked :: "report \<Rightarrow> report" where
  "unmarked r = r\<lparr> rp_latest_done := False, rp_appended := False, rp_avail_done := False, rp_traffic_done := False \<rparr>"

lemma unmarked_marks [simp]:
  "unmarked (r\<lparr> rp_latest_done := b \<rparr>) = unmarked r" "unmarked (r\<lparr> rp_appended := b \<rparr>) = unmarked r"
  "unmarked (r\<lparr> rp_avail_done := b \<rparr>) = unmarked r" "unmarked (r\<lparr> rp_traffic_done := b \<rparr>) = unmarked r"
  by (simp_all add: unmarked_def)

lemma unmarked_fields:
  "unmarked r = unmarked r' \<Longrightarrow> rp_agent r = rp_agent r' \<and> rp_epoch r = rp_epoch r' \<and> rp_ts r = rp_ts r' \<and> rp_net r = rp_net r'"
  by (cases r; cases r') (simp add: unmarked_def)

text \<open>The traffic counters of a report still to be replayed\<close>

definition pending :: "report \<Rightarrow> db_effect list" where
  "pending r = (case rp_net r of
     Some net \<Rightarrow> if rp_traffic_done r then [] else [Traffic (canon (rp_agent r)) net (rp_ts r)] | None \<Rightarrow> [])"

lemma pending_marks [simp]:
  "pending (r\<lparr> rp_latest_done := b \<rparr>) = pending r" "pending (r\<lparr> rp_appended := b \<rparr>) = pending r"
  "pending (r\<lparr> rp_avail_done := b \<rparr>) = pending r" "pending (r\<lparr> rp_traffic_done := True \<rparr>) = []"
  by (simp_all add: pending_def split: option.split)

lemma map_list_update_same: "f y = f (xs ! i) \<Longrightarrow> map f (xs[i := y]) = map f xs"
  by (metis list_update_id map_update)

lemma persist_newest_items:
  "persist_newest date_ms ok now agent items d = (d', items', b) \<Longrightarrow>
   map unmarked items' = map unmarked items \<and> map pending items' = map pending items"
  by (auto simp: persist_newest_def map_list_update_same split: option.splits if_splits prod.splits)

lemma append_items_items:
  "append_items coll ok agent items d = Some (d', items') \<Longrightarrow>
   map unmarked items' = map unmarked items \<and> map pending items' = map pending items"
  by (auto simp: append_items_def comp_def split: if_splits sum.splits prod.splits)

lemma record_avail_items:
  "record_avail ok nop agent items = (items', e, b) \<Longrightarrow> items \<noteq> [] \<Longrightarrow>
   map unmarked items' = map unmarked items \<and> map pending items' = map pending items \<and> filter is_Traffic e = []"
  by (auto simp: record_avail_def hd_conv_nth map_list_update_same split: if_splits)

lemma replay_traffic_items:
  assumes "\<forall>r \<in> set items. canon (rp_agent r) = agent"
    and "replay_traffic ok agent i items = (items', e, b)"
  shows "map unmarked items' = map unmarked items \<and> list_all is_Traffic e \<and>
    mset (concat (map pending items)) = mset e + mset (concat (map pending items')) \<and>
    (b \<longrightarrow> concat (map pending items') = [])"
  using assms
proof (induction items arbitrary: i items' e b)
  case (Cons r rs)
  obtain rs' es fine where rec: "replay_traffic ok agent (i + 1) rs = (rs', es, fine)" by (metis prod_cases3)
  show ?case
    using Cons.IH [OF _ rec] Cons.prems rec
    by (auto simp: pending_def [of r] split: option.splits if_splits)
qed simp

lemma drain_group_items:
  assumes own: "\<forall>r \<in> set items. canon (rp_agent r) = agent" and ne: "items \<noteq> []"
    and live: "current_agent_lifecycle_epoch (dr_do acc) agent (rp_epoch (hd items)) \<noteq> None"
  shows "\<exists>items' e. dr_failures (drain_group date_ms coll now oc nop agent items acc) = dr_failures acc @ items' \<and>
    dr_effects (drain_group date_ms coll now oc nop agent items acc) = dr_effects acc @ e \<and>
    (map unmarked items' = map unmarked items \<and> dr_drained (drain_group date_ms coll now oc nop agent items acc) = dr_drained acc \<or>
     items' = [] \<and> dr_drained (drain_group date_ms coll now oc nop agent items acc) = dr_drained acc + length items) \<and>
    mset (concat (map pending items)) = mset (filter is_Traffic e) + mset (concat (map pending items'))"
proof (cases rule: drain_group_cases [of acc agent items date_ms coll now oc nop])
  case skip
  with live show ?thesis by blast
next
  case (unappended d1 items1 b1)
  then show ?thesis using persist_newest_items [OF unappended(2)]
    by (intro exI [of _ items1] exI [of _ "[]"]) simp
next
  case (appended d1 items1 b1 d2 items2 items3 e3 b3 items4 e4 b4 d5 items5 b5)
  note p1 = persist_newest_items [OF appended(2)] and p2 = append_items_items [OF appended(3)]
  have ne2: "items2 \<noteq> []" using p1 p2 ne by (metis map_is_Nil_conv)
  note p3 = record_avail_items [OF appended(4) ne2]
  have u3: "map unmarked items3 = map unmarked items" using p1 p2 p3 by simp
  have "map (\<lambda>r. canon (rp_agent r)) items3 = map (\<lambda>r. canon (rp_agent r)) items"
    using arg_cong [OF u3, of "map (\<lambda>r. canon (rp_agent r))"] by (simp add: unmarked_def comp_def)
  then have own3: "\<forall>r \<in> set items3. canon (rp_agent r) = agent"
    using own by (metis (no_types, lifting) image_eqI imageE list.set_map)
  note p4 = replay_traffic_items [OF own3 appended(5)]
  note p5 = persist_newest_items [OF appended(6)]
  have pend: "mset (concat (map pending items)) = mset e4 + mset (concat (map pending items4))"
    using p1 p2 p3 p4 by simp
  have eff: "filter is_Traffic (e3 @ e4) = e4" using p3 p4 by (simp add: filter_id_conv list_all_iff)
  show ?thesis
  proof (cases "b1 \<and> b3 \<and> b4 \<and> b5")
    case True
    then show ?thesis using pend eff p4 unfolding appended(7) Let_def
      by (intro exI [of _ "[]"] exI [of _ "e3 @ e4"]) simp
  next
    case False
    have "map unmarked items5 = map unmarked items" "map pending items5 = map pending items4" using u3 p4 p5 by simp_all
    with False show ?thesis using pend eff unfolding appended(7) Let_def
      by (intro exI [of _ items5] exI [of _ "e3 @ e4"]) auto
  qed
qed

lemma current_epoch_fence:
  "same_fence d d' \<Longrightarrow> current_agent_lifecycle_epoch d' a e = current_agent_lifecycle_epoch d a e"
  by (simp add: same_fence_def current_agent_lifecycle_epoch_def)

lemma drain_fold_items:
  assumes "\<forall>(agent, items) \<in> set gs. items \<noteq> [] \<and> (\<forall>r \<in> set items. canon (rp_agent r) = agent \<and>
      current_agent_lifecycle_epoch (dr_do acc) (canon (rp_agent r)) (rp_epoch r) \<noteq> None)"
    and "res = fold (\<lambda>(agent, items). drain_group date_ms coll now (oc agent) (nop agent) agent items) gs acc"
  shows "\<exists>items' e. dr_failures res = dr_failures acc @ items' \<and> dr_effects res = dr_effects acc @ e \<and>
    unmarked ` set items' \<subseteq> unmarked ` set (concat (map snd gs)) \<and>
    dr_drained res + length items' = dr_drained acc + length (concat (map snd gs)) \<and>
    mset (concat (map pending (concat (map snd gs)))) = mset (filter is_Traffic e) + mset (concat (map pending items'))"
  unfolding assms(2) using assms(1)
proof (induction gs arbitrary: acc)
  case (Cons g gs)
  obtain agent items where g: "g = (agent, items)" by (cases g)
  let ?acc = "drain_group date_ms coll now (oc agent) (nop agent) agent items acc"
  have own: "\<forall>r \<in> set items. canon (rp_agent r) = agent" "items \<noteq> []"
    and live: "current_agent_lifecycle_epoch (dr_do acc) agent (rp_epoch (hd items)) \<noteq> None"
    using Cons.prems by (auto simp: g)
  obtain i1 e1 where step: "dr_failures ?acc = dr_failures acc @ i1" "dr_effects ?acc = dr_effects acc @ e1"
      "map unmarked i1 = map unmarked items \<and> dr_drained ?acc = dr_drained acc \<or>
       i1 = [] \<and> dr_drained ?acc = dr_drained acc + length items"
      "mset (concat (map pending items)) = mset (filter is_Traffic e1) + mset (concat (map pending i1))"
    using drain_group_items [OF own live, of date_ms coll now "oc agent" "nop agent"] by blast
  have "current_agent_lifecycle_epoch (dr_do ?acc) a e = current_agent_lifecycle_epoch (dr_do acc) a e" for a e
    using drain_group_fence [of acc date_ms coll now "oc agent" "nop agent" agent items] by (simp add: current_epoch_fence)
  with Cons.prems have "\<forall>(agent, items) \<in> set gs. items \<noteq> [] \<and> (\<forall>r \<in> set items. canon (rp_agent r) = agent \<and>
      current_agent_lifecycle_epoch (dr_do ?acc) (canon (rp_agent r)) (rp_epoch r) \<noteq> None)"
    by simp
  from Cons.IH [OF this] obtain i2 e2 where rest:
      "dr_failures (fold (\<lambda>(agent, items). drain_group date_ms coll now (oc agent) (nop agent) agent items) gs ?acc) = dr_failures ?acc @ i2"
      "dr_effects (fold (\<lambda>(agent, items). drain_group date_ms coll now (oc agent) (nop agent) agent items) gs ?acc) = dr_effects ?acc @ e2"
      "unmarked ` set i2 \<subseteq> unmarked ` set (concat (map snd gs))"
      "dr_drained (fold (\<lambda>(agent, items). drain_group date_ms coll now (oc agent) (nop agent) agent items) gs ?acc) + length i2
         = dr_drained ?acc + length (concat (map snd gs))"
      "mset (concat (map pending (concat (map snd gs)))) = mset (filter is_Traffic e2) + mset (concat (map pending i2))"
    by blast
  have sub: "unmarked ` set i1 \<subseteq> unmarked ` set items" and len: "dr_drained ?acc + length i1 = dr_drained acc + length items"
    using step(3) by (auto simp: set_map [symmetric] simp del: set_map dest: arg_cong [of _ _ length])
  have all: "unmarked ` set (i1 @ i2) \<subseteq> unmarked ` set (concat (map snd (g # gs)))"
    using rest(3) sub by (simp only: set_append image_Un concat.simps list.map g snd_conv) blast
  show ?case
    using step(1,2,4) rest(1,2,4,5) len all unfolding g
    by (intro exI [of _ "i1 @ i2"] exI [of _ "e1 @ e2"]) simp
qed simp

lemma mset_concat_map_cong:
  assumes "mset xs = mset ys"
  shows "mset (concat (map f xs)) = mset (concat (map f ys))"
proof -
  have "mset (concat (map f zs)) = \<Sum>\<^sub># (image_mset (\<lambda>x. mset (f x)) (mset zs))" for zs
    by (induction zs) auto
  then show ?thesis using assms by simp
qed

lemma drain_groups_items:
  assumes "\<forall>r \<in> set (do_reports d). canon (rp_agent r) \<noteq> [] \<and>
      current_agent_lifecycle_epoch d (canon (rp_agent r)) (rp_epoch r) \<noteq> None"
    and "res = drain_groups date_ms coll ms oc nop d"
  shows "unmarked ` set (dr_failures res) \<subseteq> unmarked ` set (do_reports d) \<and>
    dr_drained res + length (dr_failures res) = length (do_reports d) \<and>
    mset (filter is_Traffic (dr_effects res)) + mset (concat (map pending (dr_failures res))) =
      mset (concat (map pending (do_reports d)))"
proof -
  let ?gs = "group_by_target (\<lambda>r. canon (rp_agent r)) (sort_key rp_ts (do_reports d))"
  have m: "mset (concat (map snd ?gs)) = mset (do_reports d)"
    using assms(1) unfolding group_by_target_flat by (simp add: filter_id_conv)
  note len = arg_cong [OF m, of size, unfolded size_mset] and st = arg_cong [OF m, of set_mset, unfolded set_mset_mset]
  have pend: "mset (concat (map pending (concat (map snd ?gs)))) = mset (concat (map pending (do_reports d)))"
    by (rule mset_concat_map_cong [OF m])
  have "items \<noteq> [] \<and> (\<forall>r \<in> set items. canon (rp_agent r) = agent \<and>
      current_agent_lifecycle_epoch (d\<lparr> do_reports := [] \<rparr>) (canon (rp_agent r)) (rp_epoch r) \<noteq> None)"
    if "(agent, items) \<in> set ?gs" for agent items
  proof -
    have "set items \<subseteq> set (do_reports d)" using that st by force
    then have "\<forall>r \<in> set items. current_agent_lifecycle_epoch (d\<lparr> do_reports := [] \<rparr>) (canon (rp_agent r)) (rp_epoch r) \<noteq> None"
      using assms(1) current_epoch_fence [of d "d\<lparr> do_reports := [] \<rparr>"] by (auto simp: same_fence_def)
    then show ?thesis using group_by_target_own [OF that] by blast
  qed
  then have "\<forall>(agent, items) \<in> set ?gs. items \<noteq> [] \<and> (\<forall>r \<in> set items. canon (rp_agent r) = agent \<and>
      current_agent_lifecycle_epoch (dr_do \<lparr> dr_do = d\<lparr> do_reports := [] \<rparr>, dr_effects = [], dr_failures = [], dr_drained = 0 \<rparr>)
        (canon (rp_agent r)) (rp_epoch r) \<noteq> None)" by auto
  from drain_fold_items [OF this refl, of date_ms coll "ms div 1000" oc nop] show ?thesis
    unfolding assms(2) drain_groups_def using len st pend by auto
qed

section \<open>The fence around a deleted Agent\<close>

definition epoch_known :: "telemetry_do \<Rightarrow> string \<Rightarrow> int \<Rightarrow> bool" where
  "epoch_known d a e = (case map_of (st_lifecycle d) a of Some l \<Rightarrow> 1 \<le> e \<and> e \<le> lc_epoch l | None \<Rightarrow> False)"

definition epoch_live :: "telemetry_do \<Rightarrow> string \<Rightarrow> int \<Rightarrow> bool" where
  "epoch_live d a e = (case map_of (st_lifecycle d) a of
     Some l \<Rightarrow> \<not> lifecycle_deleted l \<and> lc_epoch l = e \<and> 1 \<le> e | None \<Rightarrow> False)"

definition report_ok :: "telemetry_do \<Rightarrow> report \<Rightarrow> bool" where
  "report_ok d r = (canon (rp_agent r) = rp_agent r \<and> rp_agent r \<noteq> [] \<and> epoch_live d (rp_agent r) (rp_epoch r))"

definition epochs_pos :: "telemetry_do \<Rightarrow> bool" where
  "epochs_pos d = (\<forall>a. case map_of (st_lifecycle d) a of Some l \<Rightarrow> 1 \<le> lc_epoch l | None \<Rightarrow> True)"

definition fence_inv :: "world \<Rightarrow> bool" where
  "fence_inv w =
     ((\<forall>s \<in> set (w_sockets w). epoch_known (w_do w) (canon (sk_agent s)) (sk_epoch s)
        \<and> canon (canon (sk_agent s)) = canon (sk_agent s)) \<and>
      (\<forall>f \<in> set (w_flight w). epoch_known (w_do w) (if_agent f) (if_epoch f)
        \<and> canon (if_agent f) = if_agent f \<and> if_agent f \<noteq> []) \<and>
      (\<forall>r \<in> set (do_reports (w_do w)). report_ok (w_do w) r) \<and>
      epochs_pos (w_do w) \<and> length (do_reports (w_do w)) \<le> max_mem_reports \<and>
      (do_reports (w_do w) = [] \<or> st_alarm (w_do w) \<noteq> None))"

lemma epoch_same:
  assumes "st_lifecycle d' = st_lifecycle d"
  shows "epoch_known d' a e = epoch_known d a e" "epoch_live d' a e = epoch_live d a e" "report_ok d' r = report_ok d r"
    "epochs_pos d' = epochs_pos d"
  by (simp_all add: epoch_known_def epoch_live_def report_ok_def epochs_pos_def assms)

lemma live_is_current:
  "epoch_live d a e \<Longrightarrow> canon a = a \<Longrightarrow> a \<noteq> [] \<Longrightarrow> current_agent_lifecycle_epoch d a e = Some e"
  by (auto simp: epoch_live_def current_agent_lifecycle_epoch_def split: option.splits)

lemma current_is_live:
  assumes "current_agent_lifecycle_epoch d a e = Some e'" "epoch_known d a e0" "canon a = a"
  shows "epoch_live d a e'"
  using assms by (auto simp: current_agent_lifecycle_epoch_def epoch_known_def epoch_live_def Let_def
      split: option.splits if_splits)

lemma canon_twice [simp]: "canon (canon (canon i)) = canon (canon i)"
  unfolding canon_def by (rule sanitize_agent_id_twice)

lemma cap_reports_suffix:
  "cap_reports rs b = (rs', b') \<Longrightarrow>
   (\<exists>k. rs' = drop k rs) \<and> length rs' \<le> max_mem_reports \<and>
   (\<Sum>r \<leftarrow> rs'. estimate_report_bytes r) - b' = (\<Sum>r \<leftarrow> rs. estimate_report_bytes r) - b \<and>
   (rs = [] \<or> rs' \<noteq> []) \<and> (b' \<le> max_mem_reports_bytes \<or> length rs' \<le> 1)"
proof (induction rs b rule: cap_reports.induct)
  case (2 r rs bytes)
  show ?case
  proof (cases "max_mem_reports < length (r # rs) \<or> (max_mem_reports_bytes < bytes \<and> 1 < length (r # rs))")
    case True
    then have c: "cap_reports rs (bytes - estimate_report_bytes r) = (rs', b')" using "2.prems" by simp
    obtain k where k: "rs' = drop k rs" using "2.IH" [OF True c] by blast
    have "rs \<noteq> []" using True by (auto simp: max_mem_reports_def)
    then show ?thesis using "2.IH" [OF True c] k by (auto intro!: exI [of _ "Suc k"])
  next
    case False
    then show ?thesis using "2.prems" by (auto intro!: exI [of _ 0])
  qed
qed (auto simp: max_mem_reports_def intro: exI [of _ 0])

lemma push_report_queue:
  "set (do_reports (push_report r d)) \<subseteq> insert r (set (do_reports d)) \<and>
   length (do_reports (push_report r d)) \<le> max_mem_reports \<and> st_lifecycle (push_report r d) = st_lifecycle d \<and>
   st_alarm (push_report r d) = st_alarm d"
proof -
  obtain rs b where c: "cap_reports (do_reports d @ [r]) (do_bytes d + estimate_report_bytes r) = (rs, b)" by (metis surj_pair)
  from cap_reports_suffix [OF c] obtain k where "rs = drop k (do_reports d @ [r])" by blast
  then have "set rs \<subseteq> set (do_reports d @ [r])" by (metis set_drop_subset)
  then show ?thesis using cap_reports_suffix [OF c] by (simp add: push_report_def c)
qed

lemma schedule_drain_alarm [simp]:
  "st_alarm (schedule_report_drain ms d) \<noteq> None" "do_reports (schedule_report_drain ms d) = do_reports d"
  "st_lifecycle (schedule_report_drain ms d) = st_lifecycle d"
  by (simp_all add: schedule_report_drain_def split: option.split)

lemma open_lifecycle:
  assumes "open_agent_lifecycle agent d = (d', l)" "epochs_pos d"
  shows "map_of (st_lifecycle d') (canon agent) = Some l \<and> 1 \<le> lc_epoch l \<and> epochs_pos d' \<and>
    do_reports d' = do_reports d \<and> st_alarm d' = st_alarm d \<and>
    (\<forall>a e. epoch_known d a e \<longrightarrow> epoch_known d' a e) \<and> (\<forall>a e. epoch_live d a e \<longrightarrow> epoch_live d' a e)"
proof -
  have pos: "map_of (st_lifecycle d) a = Some x \<Longrightarrow> 1 \<le> lc_epoch x" for a x
    using assms(2) unfolding epochs_pos_def by (metis option.simps(5))
  have fresh: "\<not> lifecycle_deleted \<lparr> lc_epoch = n, lc_deleted_at = None \<rparr>" for n by (simp add: lifecycle_deleted_def)
  show ?thesis
  proof (cases "map_of (st_lifecycle d) (canon agent)")
    case None
    with assms(1) pos fresh show ?thesis
      by (auto simp: open_agent_lifecycle_def epoch_known_def epoch_live_def epochs_pos_def update_conv' Let_def split: option.splits if_splits)
  next
    case (Some x)
    have "0 < lc_epoch x" "0 \<le> lc_epoch x" using pos [OF Some] by simp_all
    with assms(1) pos fresh Some show ?thesis
      by (cases "lifecycle_deleted x")
        (auto simp: open_agent_lifecycle_def epoch_known_def epoch_live_def epochs_pos_def update_conv' Let_def split: option.splits if_splits)
  qed
qed

lemma mark_deleted:
  assumes "epochs_pos d"
  shows "epochs_pos (mark_agent_deleted now agent d) \<and>
    (\<forall>a e. epoch_known d a e \<longrightarrow> epoch_known (mark_agent_deleted now agent d) a e) \<and>
    (\<forall>a e. a \<noteq> canon agent \<longrightarrow> epoch_live (mark_agent_deleted now agent d) a e = epoch_live d a e) \<and>
    do_reports (mark_agent_deleted now agent d) = do_reports d \<and> st_alarm (mark_agent_deleted now agent d) = st_alarm d"
proof -
  have pos: "map_of (st_lifecycle d) a = Some x \<Longrightarrow> 1 \<le> lc_epoch x" for a x
    using assms unfolding epochs_pos_def by (metis option.simps(5))
  show ?thesis
    using pos by (fastforce simp: mark_agent_deleted_def epoch_known_def epoch_live_def epochs_pos_def update_conv' Let_def
        split: option.splits)
qed

lemma fence_opened:
  assumes "fence_inv w" "open_agent_metrics_socket header (w_do w) = (d, Some s)"
  shows "fence_inv (w\<lparr> w_do := d, w_sockets := s # w_sockets w \<rparr>)"
proof -
  obtain l where o: "open_agent_lifecycle (canon header) (w_do w) = (d, l)" and s: "s = \<lparr> sk_agent = canon header, sk_epoch = lc_epoch l \<rparr>"
    using assms(2) by (auto simp: open_agent_metrics_socket_def Let_def split: if_splits prod.splits)
  have pos: "epochs_pos (w_do w)" using assms(1) by (simp add: fence_inv_def)
  note ol = open_lifecycle [OF o pos]
  have "epoch_known d (canon (sk_agent s)) (sk_epoch s)" using ol by (simp add: epoch_known_def s)
  moreover have "report_ok d r" if "report_ok (w_do w) r" for r using that ol by (auto simp: report_ok_def)
  ultimately show ?thesis using assms(1) ol by (auto simp: fence_inv_def s)
qed

lemma fence_windows:
  "fence_inv (w\<lparr> w_do := (w_do w)\<lparr> do_windows := x \<rparr> \<rparr>) = fence_inv w"
  using epoch_same [of "(w_do w)\<lparr> do_windows := x \<rparr>" "w_do w"] by (simp add: fence_inv_def)

lemma fence_received:
  assumes "fence_inv w" "s \<in> set (w_sockets w)" "ws_receive date_ms env now s message (w_do w) = (d, Inr f)"
  shows "fence_inv (w\<lparr> w_do := d, w_flight := f # w_flight w \<rparr>)"
proof -
  have d: "d = (w_do w)\<lparr> do_windows := do_windows d \<rparr>" by (rule receive_frame [OF assms(3)])
  note f = receive_flight [OF assms(3)]
  have s: "epoch_known (w_do w) (canon (sk_agent s)) (sk_epoch s)" "canon (canon (sk_agent s)) = canon (sk_agent s)"
    using assms(1,2) by (auto simp: fence_inv_def)
  have "epoch_live (w_do w) (if_agent f) (if_epoch f)"
    using current_is_live [OF conjunct2 [OF f] _ ] f s by simp
  moreover have "if_agent f \<noteq> []" using f by (auto simp: current_agent_lifecycle_epoch_def)
  ultimately have "epoch_known (w_do w) (if_agent f) (if_epoch f) \<and> canon (if_agent f) = if_agent f \<and> if_agent f \<noteq> []"
    using f s by (auto simp: epoch_known_def epoch_live_def split: option.splits)
  then have "fence_inv (w\<lparr> w_flight := f # w_flight w \<rparr>)" using assms(1) by (simp add: fence_inv_def)
  then show ?thesis
    using fence_windows [where w = "w\<lparr> w_flight := f # w_flight w \<rparr>" and x = "do_windows d"] d by (cases w) simp
qed

lemma commit_cases:
  assumes "ws_commit date_ms ms put_ok outcome f d = (d', reply)"
  obtains (unchanged) "d' = d"
  | (pushed) r d2 where "current_agent_lifecycle_epoch d (if_agent f) (if_epoch f) = Some (if_epoch f)"
      "d' = schedule_report_drain ms (push_report r d2)" "rp_agent r = if_agent f" "rp_epoch r = if_epoch f"
      "d2 = (record_agent_last_seen put_ok (ms div 1000) (if_agent f) (ms div 1000) d)\<lparr> do_latest := do_latest d2 \<rparr>"
proof (cases outcome)
  case (Inl e)
  with assms unchanged show ?thesis by (simp add: ws_commit_def)
next
  case (Inr res)
  show ?thesis
  proof (cases "current_agent_lifecycle_epoch d (if_agent f) (if_epoch f) = Some (if_epoch f)")
    case False
    with Inr assms unchanged show ?thesis by (simp add: ws_commit_def)
  next
    case True
    define d1 where "d1 = record_agent_last_seen put_ok (ms div 1000) (if_agent f) (ms div 1000) d"
    obtain d2 accepted where a: "(case re_state res of Some s \<Rightarrow> accept_state date_ms (ms div 1000) f s d1 | None \<Rightarrow> (d1, None)) = (d2, accepted)"
      by (metis surj_pair)
    have "d2 = d1\<lparr> do_latest := do_latest d2 \<rparr>"
      using a by (auto split: option.splits dest: accept_frame)
    note frame = this [unfolded d1_def]
    from assms have "\<exists>r. d' = schedule_report_drain ms (push_report r d2) \<and> rp_agent r = if_agent f \<and> rp_epoch r = if_epoch f"
      by (auto simp: ws_commit_def Inr Let_def a [unfolded d1_def] True)
    then obtain r where "d' = schedule_report_drain ms (push_report r d2)" "rp_agent r = if_agent f" "rp_epoch r = if_epoch f"
      by blast
    from pushed [OF True this frame] show ?thesis .
  qed
qed

lemma fence_committed:
  assumes "fence_inv w" "f \<in> set (w_flight w)" "ws_commit date_ms ms put_ok outcome f (w_do w) = (d, reply)"
  shows "fence_inv (w\<lparr> w_do := d, w_flight := remove1 f (w_flight w) \<rparr>)"
proof -
  have less: "fence_inv (w\<lparr> w_flight := remove1 f (w_flight w) \<rparr>)"
    using assms(1) set_remove1_subset [of f "w_flight w"] by (auto simp: fence_inv_def)
  have f: "epoch_known (w_do w) (if_agent f) (if_epoch f)" "canon (if_agent f) = if_agent f" "if_agent f \<noteq> []"
    using assms(1,2) by (auto simp: fence_inv_def)
  from assms(3) show ?thesis
  proof (cases rule: commit_cases)
    case unchanged
    with less show ?thesis by simp
  next
    case (pushed r d2)
    have d2: "st_lifecycle d2 = st_lifecycle (w_do w)" "do_reports d2 = do_reports (w_do w)"
      by (subst pushed(5), subst seen_frame, simp)+
    note q = push_report_queue [of r d2]
    have life: "st_lifecycle d = st_lifecycle (w_do w)" using pushed q d2 by simp
    have "report_ok (w_do w) r" using f pushed current_is_live [OF pushed(1) f(1,2)] by (simp add: report_ok_def)
    then show ?thesis using less q pushed d2 epoch_same [OF life] by (auto simp: fence_inv_def)
  qed
qed

lemma fence_deleted:
  assumes "fence_inv w" "0 < now" "canon (canon query) = canon query"
  shows "fence_inv (w\<lparr> w_do := delete_latest now query (w_do w) \<rparr>)"
proof (cases "canon query = []")
  case True
  with assms(1) show ?thesis by (simp add: delete_latest_def)
next
  case False
  let ?m = "mark_agent_deleted now (canon query) (w_do w)" and ?d = "delete_latest now query (w_do w)"
  note m = mark_deleted [of "w_do w" now "canon query"]
  have pos: "epochs_pos (w_do w)" using assms(1) by (simp add: fence_inv_def)
  have life: "st_lifecycle ?d = st_lifecycle ?m" using False by (simp add: delete_latest_def Let_def)
  note e = epoch_same [OF life]
  have q: "do_reports ?d = filter (\<lambda>r. canon (rp_agent r) \<noteq> canon query) (do_reports (w_do w))" "st_alarm ?d = st_alarm (w_do w)"
    using False m [OF pos] by (simp_all add: delete_latest_def Let_def)
  have "report_ok ?d r" if "r \<in> set (do_reports ?d)" for r
  proof -
    from that q have "r \<in> set (do_reports (w_do w))" "canon (rp_agent r) \<noteq> canon query" by auto
    then have "report_ok (w_do w) r" "rp_agent r \<noteq> canon (canon query)"
      using assms by (auto simp: fence_inv_def report_ok_def)
    then show ?thesis using m [OF pos] e by (simp add: report_ok_def)
  qed
  moreover have "length (do_reports ?d) \<le> max_mem_reports"
    unfolding q by (rule le_trans [OF length_filter_le]) (use assms(1) in \<open>simp add: fence_inv_def\<close>)
  moreover have "do_reports ?d = [] \<or> st_alarm ?d \<noteq> None" using assms(1) by (auto simp: q fence_inv_def)
  ultimately show ?thesis using assms(1) m [OF pos] e by (simp add: fence_inv_def)
qed

lemma report_ok_live: "report_ok d r \<Longrightarrow> canon (rp_agent r) \<noteq> [] \<and> current_agent_lifecycle_epoch d (canon (rp_agent r)) (rp_epoch r) \<noteq> None"
  by (auto simp: report_ok_def live_is_current)

lemma alarm_drain_items:
  assumes "\<forall>r \<in> set (do_reports d). report_ok d r" "length (do_reports d) \<le> max_mem_reports"
    and "res = alarm_drain date_ms coll ms oc nop d"
  shows "unmarked ` set (do_reports (dr_do res)) \<subseteq> unmarked ` set (do_reports d) \<and>
    dr_drained res + length (do_reports (dr_do res)) = length (do_reports d) \<and>
    mset (filter is_Traffic (dr_effects res)) + mset (concat (map pending (do_reports (dr_do res)))) =
      mset (concat (map pending (do_reports d)))"
proof -
  let ?d = "d\<lparr> st_alarm := None \<rparr>"
  have live: "\<forall>r \<in> set (do_reports ?d). canon (rp_agent r) \<noteq> [] \<and>
      current_agent_lifecycle_epoch ?d (canon (rp_agent r)) (rp_epoch r) \<noteq> None"
    using assms(1) current_epoch_fence [of d ?d] by (auto simp: same_fence_def dest: report_ok_live)
  note g = drain_groups_items [OF live refl, of date_ms coll ms oc nop]
  let ?res = "drain_groups date_ms coll ms oc nop ?d"
  have short: "take_last max_mem_reports (dr_failures ?res) = dr_failures ?res"
    using g assms(2) by (intro take_last_id) simp
  show ?thesis
  proof (cases "do_reports d = []")
    case True
    then show ?thesis unfolding assms(3) alarm_drain_def drain_pending_unfold Let_def by simp
  next
    case False
    then have "do_reports (dr_do res) = dr_failures ?res \<and> dr_effects res = dr_effects ?res \<and> dr_drained res = dr_drained ?res"
      using drain_groups_fence' [of ?d date_ms coll ms oc nop] short
      unfolding assms(3) alarm_drain_def drain_pending_unfold Let_def by auto
    moreover have "do_reports ?d = do_reports d" by simp
    ultimately show ?thesis using g by (simp only:)
  qed
qed

lemma fence_drained:
  assumes "fence_inv w"
  shows "fence_inv (w\<lparr> w_do := dr_do (alarm_drain date_ms coll ms oc nop (w_do w)) \<rparr>)"
proof -
  let ?d' = "dr_do (alarm_drain date_ms coll ms oc nop (w_do w))"
  have q: "\<forall>r \<in> set (do_reports (w_do w)). report_ok (w_do w) r" "length (do_reports (w_do w)) \<le> max_mem_reports"
    using assms by (simp_all add: fence_inv_def)
  note items = alarm_drain_items [OF q refl, of date_ms coll ms oc nop]
  note fence = alarm_drain_fence [of "w_do w" date_ms coll ms oc nop]
  have life: "st_lifecycle ?d' = st_lifecycle (w_do w)" using fence by (simp add: same_fence_def)
  have "report_ok (w_do w) r" if "r \<in> set (do_reports ?d')" for r
  proof -
    from that items obtain r' where "r' \<in> set (do_reports (w_do w))" "unmarked r = unmarked r'" by blast
    then show ?thesis using q(1) unmarked_fields [of r r'] by (simp add: report_ok_def)
  qed
  moreover have "length (do_reports ?d') \<le> max_mem_reports" using items q(2) by linarith
  ultimately show ?thesis using assms fence epoch_same [OF life] by (auto simp: fence_inv_def)
qed

lemma fence_evicted: "fence_inv w \<Longrightarrow> fence_inv (w\<lparr> w_do := evict (w_do w), w_flight := [] \<rparr>)"
  using epoch_same [of "evict (w_do w)" "w_do w"] by (simp add: fence_inv_def evict_def)

lemma fence_seen:
  assumes "fence_inv w"
  shows "fence_inv (w\<lparr> w_do := record_agent_last_seen put_ok now agent t (w_do w) \<rparr>)"
proof -
  let ?d = "record_agent_last_seen put_ok now agent t (w_do w)"
  have s: "st_lifecycle ?d = st_lifecycle (w_do w)" "do_reports ?d = do_reports (w_do w)" "st_alarm ?d = st_alarm (w_do w)"
    by (subst seen_frame, simp)+
  show ?thesis using assms epoch_same [OF s(1)] by (simp add: fence_inv_def s)
qed

lemma fence_refused:
  assumes "fence_inv w" "ws_receive date_ms env now s message (w_do w) = (d, Inl reply)"
  shows "fence_inv (w\<lparr> w_do := d \<rparr>)"
  using assms(1) fence_windows [where w = w and x = "do_windows d"] receive_frame [OF assms(2)] by simp

lemma fence_reach: "stream_reach date_ms coll env flaky w \<Longrightarrow> fence_inv w"
proof (rule stream_invariant [of fence_inv])
  show "fence_inv \<lparr> w_do = fresh_do, w_sockets = [], w_flight = [] \<rparr>"
    by (simp add: fence_inv_def fresh_do_def epochs_pos_def)
  show "fence_inv w'" if "fence_inv w" "stream_step date_ms coll env flaky w w'" for w w'
    using that(2) by cases
      (use that(1) in \<open>auto intro: fence_opened fence_received fence_committed fence_deleted fence_drained fence_evicted
         fence_seen fence_refused\<close>)
qed


definition demo_world :: world where
  "demo_world =
     (let d1 = fst (open_agent_metrics_socket ''a'' fresh_do);
          d2 = fst (ws_receive (\<lambda>_. None) (Obj []) 1000 \<lparr> sk_agent = ''a'', sk_epoch = 1 \<rparr> (WsMetrics (JsonBody Null)) d1)
      in \<lparr> w_do = fst (ws_commit (\<lambda>_. None) 1000000 True
             (Inr \<lparr> re_state = None, re_points = [], re_pings = [], re_checks = [], re_net = Some (Str ''n'') \<rparr>)
             \<lparr> if_agent = ''a'', if_epoch = 1, if_previous = None \<rparr> d2),
           w_sockets = [\<lparr> sk_agent = ''a'', sk_epoch = 1 \<rparr>], w_flight = [] \<rparr>)"

lemma demo_values:
  "open_agent_metrics_socket ''a'' fresh_do = (fst (open_agent_metrics_socket ''a'' fresh_do), Some \<lparr> sk_agent = ''a'', sk_epoch = 1 \<rparr>)"
  "ws_receive (\<lambda>_. None) (Obj []) 1000 \<lparr> sk_agent = ''a'', sk_epoch = 1 \<rparr> (WsMetrics (JsonBody Null)) (fst (open_agent_metrics_socket ''a'' fresh_do)) =
     (fst (ws_receive (\<lambda>_. None) (Obj []) 1000 \<lparr> sk_agent = ''a'', sk_epoch = 1 \<rparr> (WsMetrics (JsonBody Null)) (fst (open_agent_metrics_socket ''a'' fresh_do))),
      Inr \<lparr> if_agent = ''a'', if_epoch = 1, if_previous = None \<rparr>)"
  "map rp_net (do_reports (w_do demo_world)) = [Some (Str ''n'')]"
  by code_simp+

lemma demo_reach: "stream_reach (\<lambda>_. None) coll (Obj []) flaky demo_world"
proof -
  let ?s = "\<lparr> sk_agent = ''a'', sk_epoch = 1 \<rparr>" and ?f = "\<lparr> if_agent = ''a'', if_epoch = 1, if_previous = None \<rparr>"
  let ?d1 = "fst (open_agent_metrics_socket ''a'' fresh_do)"
  let ?d2 = "fst (ws_receive (\<lambda>_. None) (Obj []) 1000 ?s (WsMetrics (JsonBody Null)) ?d1)"
  let ?r = "Inr \<lparr> re_state = None, re_points = [], re_pings = [], re_checks = [], re_net = Some (Str ''n'') \<rparr>"
  let ?w0 = "\<lparr> w_do = fresh_do, w_sockets = [], w_flight = [] \<rparr>"
  have "open_agent_metrics_socket ''a'' (w_do ?w0) = (?d1, Some ?s)" using demo_values(1) by simp
  from stream_reach.step [OF stream_reach.start stream_step.opened [OF this]]
  have r1: "stream_reach (\<lambda>_. None) coll (Obj []) flaky \<lparr> w_do = ?d1, w_sockets = [?s], w_flight = [] \<rparr>" by simp
  have "ws_receive (\<lambda>_. None) (Obj []) 1000 ?s (WsMetrics (JsonBody Null)) (w_do \<lparr> w_do = ?d1, w_sockets = [?s], w_flight = [] \<rparr>) = (?d2, Inr ?f)"
    using demo_values(2) by simp
  from stream_reach.step [OF r1 stream_step.received [OF _ this]]
  have r2: "stream_reach (\<lambda>_. None) coll (Obj []) flaky \<lparr> w_do = ?d2, w_sockets = [?s], w_flight = [?f] \<rparr>" by simp
  have "ws_commit (\<lambda>_. None) 1000000 True ?r ?f (w_do \<lparr> w_do = ?d2, w_sockets = [?s], w_flight = [?f] \<rparr>) =
      (fst (ws_commit (\<lambda>_. None) 1000000 True ?r ?f ?d2), snd (ws_commit (\<lambda>_. None) 1000000 True ?r ?f ?d2))" by simp
  from stream_reach.step [OF r2 stream_step.committed [OF _ _ this]]
  have "stream_reach (\<lambda>_. None) coll (Obj []) flaky \<lparr> w_do = fst (ws_commit (\<lambda>_. None) 1000000 True ?r ?f ?d2), w_sockets = [?s], w_flight = [] \<rparr>"
    by simp
  then show ?thesis by (simp only: demo_world_def Let_def)
qed




section \<open>The clock of the last report\<close>

definition seen_inv :: "telemetry_do \<Rightarrow> bool" where
  "seen_inv d = (\<forall>a. case map_of (do_last_seen d) a of
     None \<Rightarrow> True
   | Some t \<Rightarrow> canon a = a \<longrightarrow> (case map_of (st_last_seen d) a of None \<Rightarrow> t \<le> 0 | Some s \<Rightarrow> t < s + last_seen_persist_interval_sec))"

lemma seen_inv_lookup:
  "seen_inv d \<longleftrightarrow> (\<forall>a t. map_of (do_last_seen d) a = Some t \<longrightarrow> canon a = a \<longrightarrow>
     (case map_of (st_last_seen d) a of None \<Rightarrow> t \<le> 0 | Some s \<Rightarrow> t < s + last_seen_persist_interval_sec))"
  unfolding seen_inv_def by (auto split: option.splits)

lemma seen_same:
  "do_last_seen d' = do_last_seen d \<Longrightarrow> st_last_seen d' = st_last_seen d \<Longrightarrow> seen_inv d' = seen_inv d"
  by (simp only: seen_inv_def)

lemma receive_seen:
  assumes "ws_receive date_ms env now s message d = (d', r)"
  shows "seen_inv d' = seen_inv d"
  by (rule seen_same; subst receive_frame [OF assms]; simp)

lemma seen_recorded:
  assumes "seen_inv d"
  shows "seen_inv (record_agent_last_seen True now raw t d)"
proof (cases "canon raw = []")
  case True
  then show ?thesis using assms by (simp add: record_agent_last_seen_def)
next
  case False
  define seen_at where "seen_at = (if t = 0 then now else t)"
  define a where "a = canon raw"
  define st where "st = (case map_of (st_last_seen d) (canon a) of Some t \<Rightarrow> t | None \<Rightarrow> 0)"
  define mem where "mem = (case map_of (do_last_seen d) a of Some t \<Rightarrow> t | None \<Rightarrow> 0)"
  let ?d = "record_agent_last_seen True now raw t d"
  have m: "map_of (do_last_seen ?d) k = (if k = a \<and> mem < seen_at then Some seen_at else map_of (do_last_seen d) k)" for k
    using False by (simp add: record_agent_last_seen_def Let_def a_def [symmetric] seen_at_def [symmetric] mem_def [symmetric] update_conv')
  have s: "map_of (st_last_seen ?d) k = (if k = canon a \<and> st < seen_at \<and> (st = 0 \<or> last_seen_persist_interval_sec \<le> seen_at - st)
      then Some seen_at else map_of (st_last_seen d) k)" for k
    using False by (simp add: record_agent_last_seen_def Let_def a_def [symmetric] seen_at_def [symmetric] st_def [symmetric] update_conv') blast
  show ?thesis
    unfolding seen_inv_lookup
  proof (intro allI impI)
    fix k x assume k: "map_of (do_last_seen ?d) k = Some x" "canon k = k"
    show "case map_of (st_last_seen ?d) k of None \<Rightarrow> x \<le> 0 | Some s \<Rightarrow> x < s + last_seen_persist_interval_sec"
    proof (cases "k = canon a")
      case False
      then have "k \<noteq> a" using k(2) by auto
      with k assms show ?thesis unfolding m s seen_inv_lookup using False by simp
    next
      case True
      then have ka: "canon a = k" by simp
      have mx: "k = a \<and> mem < seen_at \<and> x = seen_at \<or> map_of (do_last_seen d) k = Some x"
        using k(1) by (auto simp: m split: if_splits)
      have old: "x < st + last_seen_persist_interval_sec \<and> (map_of (st_last_seen d) k = None \<longrightarrow> x \<le> 0)"
        if "map_of (do_last_seen d) k = Some x"
      proof -
        from that assms k(2) have "case map_of (st_last_seen d) k of None \<Rightarrow> x \<le> 0 | Some s \<Rightarrow> x < s + last_seen_persist_interval_sec"
          unfolding seen_inv_lookup by blast
        then show ?thesis by (auto simp: st_def ka last_seen_persist_interval_sec_def split: option.splits)
      qed
      show ?thesis
      proof (cases "st < seen_at \<and> (st = 0 \<or> last_seen_persist_interval_sec \<le> seen_at - st)")
        case True
        then show ?thesis using mx old ka by (auto simp: s last_seen_persist_interval_sec_def)
      next
        case False
        then show ?thesis using mx old ka
          by (auto simp: s st_def last_seen_persist_interval_sec_def split: option.splits)
      qed
    qed
  qed
qed

text \<open>
  CX: The stored clock of the last report lags by less than two minutes. As long as its writes succeed, in every
  reachable state the persisted time of each Agent's last report is less than 120 seconds behind the time in memory,
  whatever the order of the time stamps, so an evicted instance still answers within the alert threshold.
\<close>

theorem last_seen_lag:
  assumes "stream_reach date_ms coll env False w" "map_of (do_last_seen (w_do w)) agent = Some t" "canon agent = agent" "0 < t"
  shows "\<exists>s. map_of (st_last_seen (w_do w)) agent = Some s \<and> t - s < 120"
proof -
  have "seen_inv (w_do w)"
  proof (rule stream_invariant [where I = "\<lambda>w. seen_inv (w_do w)", OF _ _ assms(1)])
    fix w w' assume inv: "seen_inv (w_do w)" and step: "stream_step date_ms coll env False w w'"
    from step show "seen_inv (w_do w')"
    proof cases
      case (opened header d s)
      then have "do_last_seen d = do_last_seen (w_do w) \<and> st_last_seen d = st_last_seen (w_do w)"
        by (auto simp: open_agent_metrics_socket_def open_agent_lifecycle_def Let_def split: if_splits prod.splits option.splits)
      with inv opened show ?thesis by (simp add: seen_same [of d "w_do w"])
    next
      case (received s now message d f)
      then show ?thesis using inv receive_seen [OF received(3)] by simp
    next
      case (refused s now message d reply)
      then show ?thesis using inv receive_seen [OF refused(3)] by simp
    next
      case (committed f put_ok ms outcome d reply)
      from committed(4) show ?thesis
      proof (cases rule: commit_cases)
        case unchanged
        with inv committed show ?thesis by simp
      next
        case (pushed r d2)
        have "put_ok" using committed(3) by simp
        moreover have "seen_inv d2 = seen_inv (record_agent_last_seen put_ok (ms div 1000) (if_agent f) (ms div 1000) (w_do w))"
          by (rule seen_same; subst pushed(5); simp)
        ultimately have "seen_inv d2" using seen_recorded [OF inv] by simp
        moreover have "seen_inv d = seen_inv d2"
          unfolding pushed(2) by (rule seen_same) (simp_all add: schedule_report_drain_def push_report_def split: option.split prod.split)
        ultimately show ?thesis using committed by simp
      qed
    next
      case (deleted now query)
      then have d: "w_do w' = delete_latest now query (w_do w)" "canon (canon query) = canon query" by simp_all
      show ?thesis
      proof (cases "canon query = []")
        case True
        with inv show ?thesis by (simp add: d delete_latest_def)
      next
        case False
        then have m: "map_of (do_last_seen (w_do w')) k = (if k = canon query then None else map_of (do_last_seen (w_do w)) k)"
          "map_of (st_last_seen (w_do w')) k = (if k = canon query then None else map_of (st_last_seen (w_do w)) k)" for k
          by (simp_all add: d delete_latest_def Let_def mark_agent_deleted_def delete_conv')
        show ?thesis using inv unfolding seen_inv_lookup m by (metis option.distinct(1))
      qed
    next
      case (seen put_ok now agent seen_at)
      then show ?thesis using seen_recorded [OF inv] by simp
    next
      case (drained ms oc nop)
      have "seen_inv (dr_do (alarm_drain date_ms coll ms oc nop (w_do w))) = seen_inv (w_do w)"
        using alarm_drain_fence [of "w_do w" date_ms coll ms oc nop] by (intro seen_same) (simp_all add: same_fence_def)
      then show ?thesis using inv drained by simp
    next
      case evicted
      then show ?thesis by (simp add: seen_inv_def evict_def)
    qed
  qed (simp add: seen_inv_def fresh_do_def)
  then have "case map_of (st_last_seen (w_do w)) agent of None \<Rightarrow> t \<le> 0 | Some s \<Rightarrow> t < s + last_seen_persist_interval_sec"
    using assms(2,3) unfolding seen_inv_lookup by blast
  then show ?thesis using assms(4) by (auto simp: last_seen_persist_interval_sec_def split: option.splits)
qed

lemma last_seen_lag_witness:
  "\<exists>s. map_of (st_last_seen (w_do demo_world)) ''a'' = Some s \<and> 1000 - s < 120"
proof -
  have "map_of (do_last_seen (w_do demo_world)) ''a'' = Some 1000" "canon ''a'' = ''a''" by code_simp+
  from last_seen_lag [OF demo_reach [of id] this] show ?thesis by simp
qed

section \<open>The rate limit bounds every window\<close>

text \<open>How many of a run of messages (time, Agent) are let through for one Agent\<close>

fun allowed_count :: "jsval \<Rightarrow> string \<Rightarrow> (int \<times> string) list \<Rightarrow> telemetry_do \<Rightarrow> int" where
  "allowed_count env agent [] d = 0"
| "allowed_count env agent ((t, a) # calls) d =
     (let (d', ok) = allow_agent_message env t a d
      in (if ok \<and> a = agent then 1 else 0) + allowed_count env agent calls d')"

text \<open>The entry of the Agent after a message of its own, and after one of another Agent\<close>

lemma map_of_filter_value:
  "distinct (map fst m) \<Longrightarrow> map_of (filter (\<lambda>(k, v). P v) m) k = (case map_of m k of Some v \<Rightarrow> if P v then Some v else None | None \<Rightarrow> None)"
proof (induction m)
  case (Cons e m)
  then have "fst e = k \<Longrightarrow> map_of m k = None" by (auto simp: map_of_eq_None_iff)
  with Cons show ?case by (cases e) (auto split: option.splits)
qed simp

lemma burst_limit_bounds: "2 \<le> burst_limit env" "0 \<le> burst_limit env"
proof -
  show "2 \<le> burst_limit env" by (simp add: burst_limit_def clamp_bounds)
  then show "0 \<le> burst_limit env" by simp
qed

lemma allow_own:
  assumes "allow_agent_message env now agent d = (d', ok)"
  shows "(case map_of (do_windows d) agent of
      Some (s, n) \<Rightarrow> if burst_window_sec env \<le> now - s then map_of (do_windows d') agent = Some (now, 1) \<and> ok = (1 \<le> burst_limit env)
        else map_of (do_windows d') agent = Some (s, n + 1) \<and> ok = (n + 1 \<le> burst_limit env)
    | None \<Rightarrow> map_of (do_windows d') agent = Some (now, 1) \<and> ok = (1 \<le> burst_limit env))"
  using assms by (auto simp: allow_agent_message_def Let_def update_conv' split: option.splits if_splits)

lemma allow_other:
  assumes "allow_agent_message env now a d = (d', ok)" "a \<noteq> agent" "distinct (map fst (do_windows d))"
  shows "map_of (do_windows d') agent = map_of (do_windows d) agent \<or>
    map_of (do_windows d') agent = None \<and> (\<exists>s n. map_of (do_windows d) agent = Some (s, n) \<and> burst_window_sec env \<le> now - s)"
proof -
  have dist: "distinct (map fst (AList.update a (now, 0) (do_windows d)))" using assms(3) by (rule distinct_update)
  have f: "map_of (filter (\<lambda>(k, s, n). \<not> burst_window_sec env \<le> now - s) (AList.update a (now, 0) (do_windows d))) agent =
      (case map_of (do_windows d) agent of Some v \<Rightarrow> if \<not> burst_window_sec env \<le> now - fst v then Some v else None | None \<Rightarrow> None)"
    using map_of_filter_value [OF dist, of "\<lambda>v. \<not> burst_window_sec env \<le> now - fst v" agent] assms(2)
    by (simp add: update_conv' case_prod_unfold)
  show ?thesis
    using assms(1,2) f
    by (auto simp: allow_agent_message_def Let_def update_conv' split: option.splits if_splits)
qed

lemma allow_distinct:
  "allow_agent_message env now a d = (d', ok) \<Longrightarrow> distinct (map fst (do_windows d)) \<Longrightarrow> distinct (map fst (do_windows d'))"
  by (auto simp: allow_agent_message_def Let_def distinct_update distinct_map_filter split: option.splits if_splits)

text \<open>No reset before \<open>T\<close>: what is left of the current window\<close>

lemma allowed_in_window:
  assumes "map_of (do_windows d) agent = Some (s, n)" "list_all (\<lambda>(t, _). t < s + burst_window_sec env) calls"
    and "distinct (map fst (do_windows d))"
  shows "allowed_count env agent calls d \<le> max 0 (burst_limit env - n)"
  using assms
proof (induction calls arbitrary: d n)
  case (Cons c calls)
  obtain t a where c: "c = (t, a)" by (cases c)
  obtain d' ok where d': "allow_agent_message env t a d = (d', ok)" by (metis surj_pair)
  have t: "\<not> burst_window_sec env \<le> t - s" and rest: "list_all (\<lambda>(t, _). t < s + burst_window_sec env) calls"
    using Cons.prems(2) by (simp_all add: c)
  note dist = allow_distinct [OF d' Cons.prems(3)]
  show ?case
  proof (cases "a = agent")
    case True
    then have m: "map_of (do_windows d') agent = Some (s, n + 1)" "ok = (n + 1 \<le> burst_limit env)"
      using allow_own [of env t agent d d' ok] d' Cons.prems(1) t by auto
    show ?thesis using Cons.IH [OF m(1) rest dist] m(2) by (simp add: c d' [unfolded True] True) (auto simp: max_def)
  next
    case False
    then have "map_of (do_windows d') agent = Some (s, n)"
      using allow_other [OF d' False Cons.prems(3)] Cons.prems(1) t by auto
    from Cons.IH [OF this rest dist] show ?thesis using False by (simp add: c d')
  qed
qed simp

lemma allowed_any:
  assumes "list_all (\<lambda>(t, _). t0 \<le> t \<and> t < t0 + burst_window_sec env) calls" "sorted (map fst calls)"
    and "distinct (map fst (do_windows d))"
  shows "allowed_count env agent calls d \<le>
    (case map_of (do_windows d) agent of None \<Rightarrow> 0 | Some (s, n) \<Rightarrow> max 0 (burst_limit env - n)) + burst_limit env"
  using assms
proof (induction calls arbitrary: d)
  case Nil
  show ?case using burst_limit_bounds(2) by (auto split: option.split)
next
  case (Cons c calls)
  obtain t a where c: "c = (t, a)" by (cases c)
  obtain d' ok where d': "allow_agent_message env t a d = (d', ok)" by (metis surj_pair)
  note dist = allow_distinct [OF d' Cons.prems(3)]
  have lim: "2 \<le> burst_limit env" by (rule burst_limit_bounds)
  have rest: "list_all (\<lambda>(t, _). t0 \<le> t \<and> t < t0 + burst_window_sec env) calls" "sorted (map fst calls)"
    using Cons.prems by (simp_all add: c)
  have late: "list_all (\<lambda>(u, _). u < t + burst_window_sec env) calls"
    using Cons.prems(1) by (auto simp: c list_all_iff)
  note IH = Cons.IH [OF rest dist]
  show ?case
  proof (cases "a = agent")
    case False
    then show ?thesis using allow_other [OF d' False Cons.prems(3)] IH lim
      by (auto simp: c d' split: option.splits)
  next
    case True
    note own = allow_own [of env t agent d d' ok]
    consider (fresh) "map_of (do_windows d') agent = Some (t, 1)"
      | (same) s n where "map_of (do_windows d) agent = Some (s, n)" "map_of (do_windows d') agent = Some (s, n + 1)" "ok = (n + 1 \<le> burst_limit env)"
      using own d' True by (auto split: option.splits if_splits prod.splits)
    then show ?thesis
    proof cases
      case fresh
      have "allowed_count env agent calls d' \<le> max 0 (burst_limit env - 1)" by (rule allowed_in_window [OF fresh late dist])
      then show ?thesis using lim by (auto simp: c d' [unfolded True] True split: option.splits)
    next
      case same
      then show ?thesis using IH by (auto simp: c d' [unfolded True] True)
    qed
  qed
qed

text \<open>
  CX: The rate limit holds. Whatever the earlier traffic and whatever other Agents send, at most twice the burst limit of
  messages of one Agent pass within any stretch as long as the burst window.
\<close>

theorem rate_limit_bound:
  assumes "sorted (map fst calls)" "list_all (\<lambda>(t, _). t0 \<le> t \<and> t < t0 + burst_window_sec env) calls"
    and "distinct (map fst (do_windows d))" "list_all (\<lambda>(_, s, n). 0 \<le> n) (do_windows d)"
  shows "allowed_count env agent calls d \<le> 2 * burst_limit env"
proof -
  have "(case map_of (do_windows d) agent of None \<Rightarrow> 0 | Some (s, n) \<Rightarrow> max 0 (burst_limit env - n)) \<le> burst_limit env"
    using assms(4) burst_limit_bounds(2) [of env] by (fastforce simp: list_all_iff split: option.split dest: map_of_SomeD)
  then show ?thesis using allowed_any [OF assms(2,1,3), of agent] by linarith
qed

lemma rate_limit_bound_witness:
  "allowed_count (Obj []) ''a'' (replicate 50 (7, ''a'')) fresh_do \<le> 2 * burst_limit (Obj [])"
proof -
  have "burst_window_sec (Obj []) = 300" by code_simp
  then show ?thesis by (intro rate_limit_bound [where ?t0.0 = 7]) (simp_all add: fresh_do_def list_all_iff)
qed

section \<open>Two ways the instance departs from its intent\<close>

text \<open>What the byte counter claims beyond the reports it should count\<close>

definition byte_drift :: "telemetry_do \<Rightarrow> int" where
  "byte_drift d = do_bytes d - (\<Sum>r \<leftarrow> do_reports d. estimate_report_bytes r)"

lemma estimate_pos: "0 < estimate_report_bytes r"
  by (simp add: estimate_report_bytes_def)

lemma push_report_drift: "byte_drift (push_report r d) = byte_drift d"
proof -
  obtain rs b where c: "cap_reports (do_reports d @ [r]) (do_bytes d + estimate_report_bytes r) = (rs, b)" by (metis surj_pair)
  show ?thesis using cap_reports_suffix [OF c] by (simp add: byte_drift_def push_report_def c)
qed

lemma sum_estimate_ge: "0 \<le> (\<Sum>r \<leftarrow> rs. estimate_report_bytes r)"
  by (rule sum_list_nonneg) (auto intro: less_imp_le [OF estimate_pos])

lemma push_report_last:
  assumes "max_mem_reports_bytes < byte_drift d"
  shows "do_reports (push_report r d) = [r]"
proof -
  obtain rs b where c: "cap_reports (do_reports d @ [r]) (do_bytes d + estimate_report_bytes r) = (rs, b)" by (metis surj_pair)
  note q = cap_reports_suffix [OF c]
  obtain k where k: "rs = drop k (do_reports d @ [r])" using q by blast
  have "max_mem_reports_bytes < b" using q assms sum_estimate_ge [of rs] by (simp add: byte_drift_def)
  with q have "length rs \<le> 1" "rs \<noteq> []" by auto
  then obtain x where "rs = [x]" by (cases rs) auto
  moreover have "last rs = r" using k \<open>rs \<noteq> []\<close> by (metis drop_eq_Nil last_drop last_snoc not_le)
  ultimately have "rs = [r]" by simp
  then show ?thesis by (simp add: push_report_def c)
qed

text \<open>
  CX: The byte counter is never given back. Draining the queue and deleting an Agent leave the counter as it is
  although they take reports out, so it drifts upwards by the size of every report ever drained; once the drift exceeds
  the 32 MiB limit, each new report pushes every other report out of memory undrained, and the drift stays.
\<close>

theorem byte_counter_drifts:
  "do_bytes (dr_do (alarm_drain date_ms coll ms oc nop d)) = do_bytes d \<and>
   do_bytes (delete_latest now query d) = do_bytes d \<and>
   byte_drift (push_report r d) = byte_drift d \<and>
   (max_mem_reports_bytes < byte_drift d \<longrightarrow> do_reports (push_report r d) = [r])"
  using alarm_drain_fence [of d date_ms coll ms oc nop]
  by (simp add: same_fence_def delete_latest_def Let_def mark_agent_deleted_def push_report_drift push_report_last)

definition demo_report :: "int \<Rightarrow> report" where
  "demo_report t = \<lparr> rp_agent = ''a'', rp_epoch = 1, rp_ts = t, rp_prev_at = Null, rp_state = None, rp_points = [], rp_pings = [],
     rp_checks = [], rp_net = None, rp_latest_done = False, rp_appended = False, rp_avail_done = False, rp_traffic_done = False \<rparr>"

lemma byte_counter_drifts_witness:
  "do_reports (push_report (demo_report 2) (fresh_do\<lparr> do_reports := [demo_report 1], do_bytes := 33557000 \<rparr>)) = [demo_report 2]"
proof -
  have "max_mem_reports_bytes < byte_drift (fresh_do\<lparr> do_reports := [demo_report 1], do_bytes := 33557000 \<rparr>)"
    by (simp add: byte_drift_def max_mem_reports_bytes_def estimate_report_bytes_def demo_report_def)
  then show ?thesis
    using byte_counter_drifts [of "\<lambda>_. None" id 0 "\<lambda>_. undefined" "\<lambda>_. False" "fresh_do\<lparr> do_reports := [demo_report 1], do_bytes := 33557000 \<rparr>" 0 "[]" "demo_report 2"]
    by blast
qed

text \<open>
  CX: A failed write of the latest state is never retried. When the first write of a drain fails, the throttle is already
  set, so the second attempt of the same drain returns without writing and marks the report as persisted; the retry that
  the group is queued for then skips it, and the stored state stays old although the drain reports success later.
\<close>

theorem failed_latest_state_is_marked_done:
  assumes "newest_report date_ms items = Some i" "i < length items" "rp_state (items ! i) = Some s" "\<not> rp_latest_done (items ! i)"
    and "latest_persist_throttle_sec \<le> now - (case map_of (do_persist_at d) agent of Some t \<Rightarrow> t | None \<Rightarrow> 0)"
  shows "\<exists>d1 d2. persist_newest date_ms False now agent items d = (d1, items, False) \<and>
    persist_newest date_ms ok now agent items d1 = (d2, items[i := (items ! i)\<lparr> rp_latest_done := True \<rparr>], True) \<and>
    st_latest d2 = st_latest d \<and>
    persist_newest date_ms ok later agent (items[i := (items ! i)\<lparr> rp_latest_done := True \<rparr>]) d2 =
      (d2, items[i := (items ! i)\<lparr> rp_latest_done := True \<rparr>], True)"
proof -
  let ?d1 = "d\<lparr> do_persist_at := AList.update agent now (do_persist_at d) \<rparr>"
  let ?items = "items[i := (items ! i)\<lparr> rp_latest_done := True \<rparr>]"
  have first: "persist_latest_state False now agent s d = (?d1, False)"
    using assms(5) by (simp add: persist_latest_state_def)
  have again: "persist_latest_state ok now agent s ?d1 = (?d1, True)"
    by (simp add: persist_latest_state_def update_conv' latest_persist_throttle_sec_def)
  have state: "rp_state (?items ! j) = rp_state (items ! j)" for j
    by (cases "j = i") (simp_all add: assms(2))
  have newest: "newest_report date_ms ?items = Some i"
    using assms(1) unfolding newest_report_def length_list_update state .
  show ?thesis
    using assms(1-4) newest state [of i]
    by (intro exI [of _ ?d1]) (simp add: persist_newest_def first again)
qed

lemma failed_latest_state_is_marked_done_witness:
  "\<exists>d2. st_latest d2 = [] \<and> persist_newest (\<lambda>_. None) True 2000 ''a'' [(demo_report 1)\<lparr> rp_state := Some Null, rp_latest_done := True \<rparr>] d2 =
     (d2, [(demo_report 1)\<lparr> rp_state := Some Null, rp_latest_done := True \<rparr>], True)"
proof -
  let ?items = "[(demo_report 1)\<lparr> rp_state := Some Null \<rparr>]"
  have n: "newest_report (\<lambda>_. None) ?items = Some 0" by (simp add: newest_report_def)
  show ?thesis
    using failed_latest_state_is_marked_done [OF n, of Null 1000 fresh_do "''a''" True 2000]
    by (simp add: demo_report_def fresh_do_def latest_persist_throttle_sec_def) blast
qed

end
