(* ===== verification/TelemetryFlush.thy ===== *)
theory TelemetryFlush
  imports TelemetryCodec AgentState
begin

text \<open>
  The archiving half of \<open>worker/src/telemetry-buffer.js\<close> and the retry bookkeeping of
  \<open>timeseries-export.js\<close>: listing the storage page by page, reading the buffers, moving complete hours to the
  R2 archive and exporting them with a bounded number of attempts.

  The storage is a list of entries in key order, as the platform lists it. A buffer row is keyed by an Agent
  and the start of its chunk, or by the start of its hour in the legacy form. The archive maps an Agent and an
  hour to the columns stored for it; its object name is \<open>telemetry_key\<close>. What the archive and the
  export endpoint do on a call is an argument.
\<close>

section \<open>Listing the storage in pages\<close>

text \<open>\<open>storage.list({ prefix, limit, startAfter })\<close>: at most \<open>limit\<close> entries, in key order\<close>

definition storage_list :: "(string \<times> 'v) list \<Rightarrow> string \<Rightarrow> nat \<Rightarrow> string option \<Rightarrow> (string \<times> 'v) list" where
  "storage_list st prefix limit start_after =
     take limit (filter (\<lambda>(k, _). starts_with prefix k \<and> (case start_after of None \<Rightarrow> True | Some s \<Rightarrow> s < k)) st)"

definition rest_after :: "(string \<times> 'v) list \<Rightarrow> string option \<Rightarrow> (string \<times> 'v) list" where
  "rest_after st start_after = filter (\<lambda>(k, _). case start_after of None \<Rightarrow> True | Some s \<Rightarrow> s < k) st"

definition add_new :: "(string \<times> 'v) list \<Rightarrow> (string \<times> 'v) list \<Rightarrow> (string \<times> 'v) list" where
  "add_new page entries = fold (\<lambda>(k, v) m. if map_of m k = None then m @ [(k, v)] else m) page entries"

text \<open>The loop of \<open>listStorageEntries\<close> from a \<open>startAfter\<close> on\<close>

function list_pages :: "(string \<times> 'v) list \<Rightarrow> string \<Rightarrow> nat \<Rightarrow> string option \<Rightarrow> (string \<times> 'v) list \<Rightarrow> (string \<times> 'v) list" where
  "list_pages st prefix limit start_after entries =
     (let page = storage_list st prefix limit start_after; entries' = add_new page entries
      in if length page < limit \<or> length entries' = length entries then entries'
         else case page of
           [] \<Rightarrow> entries'
         | _ \<Rightarrow> (let last_key = fst (last page)
                 in if last_key = [] \<or> start_after = Some last_key then entries'
                    else list_pages st prefix limit (Some last_key) entries'))"
  by pat_completeness auto

lemma storage_list_in:
  "e \<in> set (storage_list st prefix limit start_after) \<Longrightarrow>
   e \<in> set (rest_after st start_after) \<and> starts_with prefix (fst e)"
  by (auto simp: storage_list_def rest_after_def dest!: in_set_takeD)

lemma length_filter_strict:
  assumes "x \<in> set xs" "\<not> P x" "Q x" "\<And>y. P y \<Longrightarrow> Q y"
  shows "length (filter P xs) < length (filter Q xs)"
  using assms(1)
proof (induction xs)
  case (Cons y ys)
  have le: "length (filter P ys) \<le> length (filter Q ys)"
    using assms(4) by (induction ys) (auto simp: le_SucI)
  show ?case using Cons assms(2-4) le by (cases "x = y") auto
qed simp

lemma rest_after_shrinks:
  assumes "e \<in> set (rest_after st start_after)"
  shows "length (rest_after st (Some (fst e))) < length (rest_after st start_after)"
proof -
  have "length (filter (\<lambda>(k, _). fst e < k) st) < length (filter (\<lambda>(k, _). case start_after of None \<Rightarrow> True | Some s \<Rightarrow> s < k) st)"
  proof (rule length_filter_strict)
    show "e \<in> set st" using assms by (auto simp: rest_after_def)
    show "\<not> (\<lambda>(k, _). fst e < k) e" by (cases e) simp
    show "(\<lambda>(k, _). case start_after of None \<Rightarrow> True | Some s \<Rightarrow> s < k) e" using assms by (auto simp: rest_after_def)
    show "(\<lambda>(k, _). fst e < k) x \<Longrightarrow> (\<lambda>(k, _). case start_after of None \<Rightarrow> True | Some s \<Rightarrow> s < k) x" for x
      using assms by (auto simp: rest_after_def split: option.splits)
  qed
  then show ?thesis by (simp add: rest_after_def)
qed

termination list_pages
proof (relation "measure (\<lambda>(st, prefix, limit, start_after, entries). length (rest_after st start_after))")
  fix st :: "(string \<times> 'v) list" and prefix limit start_after entries page entries' and e es last_key
  assume "page = storage_list st prefix limit start_after" "page = e # es" "last_key = fst (last page)"
  moreover from this have "last page \<in> set (rest_after st start_after)"
    using storage_list_in [of "last page" st prefix limit start_after] by (metis last_in_set list.distinct(1))
  ultimately show "((st, prefix, limit, Some last_key, entries'), st, prefix, limit, start_after, entries)
      \<in> measure (\<lambda>(st, prefix, limit, start_after, entries). length (rest_after st start_after))"
    using rest_after_shrinks by simp
qed simp

declare list_pages.simps [simp del]

definition list_storage_entries :: "(string \<times> 'v) list \<Rightarrow> string \<Rightarrow> nat \<Rightarrow> (string \<times> 'v) list" where
  "list_storage_entries st prefix limit = list_pages st prefix limit None []"

lemma add_new_fresh:
  assumes "distinct (map fst page)" "fst ` set page \<inter> fst ` set entries = {}"
  shows "add_new page entries = entries @ page"
  using assms
proof (induction page arbitrary: entries)
  case (Cons e page)
  obtain k v where e: "e = (k, v)" by (cases e)
  have "map_of entries k = None" using Cons.prems by (auto simp: e map_of_eq_None_iff)
  then have "add_new (e # page) entries = add_new page (entries @ [e])" by (simp add: add_new_def e)
  also have "\<dots> = (entries @ [e]) @ page" by (rule Cons.IH) (use Cons.prems in auto)
  finally show ?case by simp
qed (simp add: add_new_def)

lemma filter_after_last:
  assumes "sorted_wrt (<) (map fst xs)" "0 < n" "n \<le> length xs"
  shows "filter (\<lambda>(k, _). fst (last (take n xs)) < (k::string)) xs = drop n xs"
proof -
  let ?t = "take n xs" and ?P = "\<lambda>(k, _). fst (last (take n xs)) < (k::string)"
  have ne: "?t \<noteq> []" using assms(2,3) by auto
  have split: "map fst xs = map fst ?t @ map fst (drop n xs)" by (metis append_take_drop_id map_append)
  have sep: "sorted_wrt (<) (map fst ?t)" "\<forall>x \<in> set (map fst ?t). \<forall>y \<in> set (map fst (drop n xs)). x < y"
    using assms(1) unfolding split sorted_wrt_append by blast+
  have "\<not> fst (last ?t) < fst e" if "e \<in> set ?t" for e
  proof -
    have "?t = butlast ?t @ [last ?t]" using ne by simp
    then have "sorted_wrt (<) (map fst (butlast ?t) @ [fst (last ?t)])" using sep(1) by (metis list.simps(8,9) map_append)
    then have "\<forall>x \<in> set (butlast ?t). fst x < fst (last ?t)" by (auto simp: sorted_wrt_append)
    moreover have "e \<in> set (butlast ?t) \<or> e = last ?t" using that ne by (metis append_butlast_last_id in_set_conv_decomp rotate1.simps(2) set_ConsD set_rotate1)
    ultimately show ?thesis by auto
  qed
  then have "filter ?P ?t = []" by (auto simp: filter_empty_conv)
  moreover have "filter ?P (drop n xs) = drop n xs"
  proof -
    have "fst (last ?t) \<in> set (map fst ?t)" using last_in_set [OF ne] by simp
    with sep(2) have "\<forall>y \<in> set (map fst (drop n xs)). fst (last ?t) < y" by blast
    then show ?thesis by (auto simp: filter_id_conv)
  qed
  ultimately show ?thesis by (metis append_self_conv2 append_take_drop_id filter_append)
qed

lemma list_pages_complete:
  assumes "sorted_wrt (<) (map fst st)" "prefix \<noteq> []" "0 < limit"
    and "entries @ filter (\<lambda>e. starts_with prefix (fst e)) (rest_after st start_after) = filter (\<lambda>e. starts_with prefix (fst e)) st"
  shows "list_pages st prefix limit start_after entries = filter (\<lambda>e. starts_with prefix (fst e)) st"
  using assms
proof (induction st prefix limit start_after entries rule: list_pages.induct)
  case (1 st prefix limit start_after entries)
  let ?P = "\<lambda>e. starts_with prefix (fst e)" and ?R = "\<lambda>s. filter (\<lambda>e. starts_with prefix (fst e)) (rest_after st s)"
  let ?page = "storage_list st prefix limit start_after"
  have page: "?page = take limit (?R start_after)"
    by (simp add: storage_list_def rest_after_def filter_filter case_prod_unfold conj_commute)
  have srt: "sorted_wrt (<) (map fst (filter ?P st))" using "1.prems"(1) by (simp add: sorted_wrt_map sorted_wrt_filter)
  then have dist: "distinct (map fst (filter ?P st))" using strict_sorted_iff by blast
  have split: "map fst (filter ?P st) = map fst entries @ map fst (?R start_after)" using "1.prems"(4) by (metis map_append)
  have parts: "distinct (map fst (?R start_after))" "set (map fst (?R start_after)) \<inter> set (map fst entries) = {}"
    using dist unfolding split by auto
  have "set (map fst ?page) \<subseteq> set (map fst (?R start_after))" unfolding page by (metis set_take_subset take_map)
  then have d: "distinct (map fst ?page)" "fst ` set ?page \<inter> fst ` set entries = {}"
    using parts unfolding page set_map by (metis distinct_take take_map, blast)
  note new = add_new_fresh [OF d]
  have srtR: "sorted_wrt (<) (map fst (?R start_after))" using srt unfolding split by (simp add: sorted_wrt_append)
  show ?case
  proof (cases "length ?page < limit")
    case True
    then have "?page = ?R start_after" unfolding page by simp
    then show ?thesis using True "1.prems"(4) new by (subst list_pages.simps) (simp add: Let_def)
  next
    case False
    then have len: "limit \<le> length (?R start_after)" unfolding page by simp
    then have ne: "?page \<noteq> []" using "1.prems"(3) unfolding page by (cases "?R start_after") auto
    then obtain e es where e: "?page = e # es" by (cases ?page) auto
    let ?k = "fst (last ?page)"
    have mem: "last ?page \<in> set (rest_after st start_after)" "starts_with prefix ?k"
      using storage_list_in [OF last_in_set [OF ne]] by auto
    have kne: "?k \<noteq> []" using mem(2) "1.prems"(2) by (auto simp: starts_with_def)
    have ks: "start_after \<noteq> Some ?k" using mem(1) by (auto simp: rest_after_def)
    have "?R (Some ?k) = filter (\<lambda>(x, _). ?k < x) (?R start_after)"
      using mem(1) by (auto simp: rest_after_def filter_filter case_prod_unfold intro!: filter_cong split: option.splits)
    also have "\<dots> = drop limit (?R start_after)"
      using filter_after_last [OF srtR "1.prems"(3) len] unfolding page .
    finally have R: "(entries @ ?page) @ ?R (Some ?k) = filter ?P st" using "1.prems"(4) unfolding page by simp
    have go: "\<not> (length ?page < limit \<or> length (add_new ?page entries) = length entries)" using False new ne by simp
    have stop: "\<not> (?k = [] \<or> start_after = Some ?k)" using kne ks by blast
    have "list_pages st prefix limit start_after entries =
        (case ?page of [] \<Rightarrow> add_new ?page entries
         | _ \<Rightarrow> if ?k = [] \<or> start_after = Some ?k then add_new ?page entries
               else list_pages st prefix limit (Some ?k) (add_new ?page entries))"
      using go by (subst list_pages.simps) (simp only: Let_def if_False)
    also have "\<dots> = list_pages st prefix limit (Some ?k) (add_new ?page entries)"
      using stop by (simp only: e list.case if_False)
    also have "\<dots> = filter ?P st"
      using "1.IH" [OF refl refl go e refl stop "1.prems"(1-3), unfolded new, OF R] by (simp only: new)
    finally show ?thesis .
  qed
qed

text \<open>C35: Listing by pages is complete. Whatever the page size, collecting the storage page by page returns exactly the entries
  with the prefix, each once and in key order, and the loop ends.
\<close>

theorem paged_listing_complete:
  assumes "sorted_wrt (<) (map fst st)" "prefix \<noteq> []" "0 < limit"
  shows "list_storage_entries st prefix limit = filter (\<lambda>e. starts_with prefix (fst e)) st"
  unfolding list_storage_entries_def by (rule list_pages_complete [OF assms]) (simp add: rest_after_def)

lemma paged_listing_complete_witness:
  "list_storage_entries [(''chunk:a'', 1::nat), (''chunk:b'', 2), (''chunk:c'', 3), (''export:a'', 4)] ''chunk:'' 2 =
   [(''chunk:a'', 1), (''chunk:b'', 2), (''chunk:c'', 3)]"
proof -
  have s: "sorted_wrt (<) (map fst [(''chunk:a'', 1::nat), (''chunk:b'', 2), (''chunk:c'', 3), (''export:a'', 4)])" by code_simp
  show ?thesis by (subst paged_listing_complete [OF s]) (simp_all add: starts_with_def)
qed

section \<open>Keys\<close>

definition chunk_prefix :: string where "chunk_prefix = ''chunk:''"
definition legacy_buffer_prefix :: string where "legacy_buffer_prefix = ''hour:''"

definition agent_id_of :: "string \<Rightarrow> string" where
  "agent_id_of i = sanitize_agent_id (Str i)"

definition chunk_key :: "string \<Rightarrow> int \<Rightarrow> string" where
  "chunk_key agent chunk = chunk_prefix @ agent_id_of agent @ '':'' @ int_str (chunk_start chunk)"

definition after_last_colon :: "string \<Rightarrow> string" where
  "after_last_colon s = rev (takeWhile (\<lambda>c. c \<noteq> CHR '':'') (rev s))"

definition buffered_start :: "string \<Rightarrow> jsnum" where
  "buffered_start key =
     (if \<not> starts_with chunk_prefix key \<and> \<not> starts_with legacy_buffer_prefix key then NaN
      else parse_number (after_last_colon key))"

definition telemetry_flush_interval_sec :: "jsval \<Rightarrow> int" where
  "telemetry_flush_interval_sec env =
     (case js_Number (js_coalesce (js_get env ''TELEMETRY_FLUSH_INTERVAL_SEC'') (JInt 3600)) of
        Fin q \<Rightarrow> max 600 (min 86400 \<lfloor>q\<rfloor>) | _ \<Rightarrow> 3600)"

definition utc_day_hour :: "int \<Rightarrow> string \<times> string" where
  "utc_day_hour ts = (iso_day (hour_start ts div 86400), pad2 (hour_start ts mod 86400 div 3600))"

definition telemetry_key :: "jsval \<Rightarrow> string \<Rightarrow> int \<Rightarrow> string" where
  "telemetry_key env agent hour =
     (let prefix = strip_both (\<lambda>c. c = CHR ''/'') (js_String (js_or (js_get env ''AGENT_METRICS_R2_PREFIX'') (Str ''agent-metrics-v1'')))
      in prefix @ ''/'' @ agent @ ''/'' @ fst (utc_day_hour hour) @ ''/'' @ snd (utc_day_hour hour) @ ''/telemetry.json'')"

section \<open>State\<close>

record archive_hour =
  ah_metrics :: metric_columns
  ah_pings :: "ping_series list"
  ah_checks :: "check_series list"

record export_attempt =
  ex_attempts :: int
  ex_error :: string
  ex_next :: int

record flush_state =
  fs_rows :: "(string \<times> stored_buffer) list"
  fs_archive :: "((string \<times> int) \<times> archive_hour) list"
  fs_exports :: "((string \<times> int) \<times> export_attempt) list"
  fs_alarm :: "int option"

section \<open>Flushing an hour\<close>

datatype flush_outcome = ReadFails | PutFails | VerifyFails | Flushed

text \<open>What a reader finds in an archived hour\<close>

definition archived :: "(string \<times> int) \<times> archive_hour \<Rightarrow> stored_buffer" where
  "archived e = Compact \<lparr> cb_agent = fst (fst e), cb_chunk = snd (fst e), cb_hour = snd (fst e),
     cb_metrics = ah_metrics (snd e), cb_ping_series = ah_pings (snd e), cb_check_series = ah_checks (snd e) \<rparr>"

definition existing_hour :: "string \<Rightarrow> int \<Rightarrow> ((string \<times> int) \<times> archive_hour) list \<Rightarrow> stored_buffer" where
  "existing_hour agent hour archive =
     (case map_of archive (agent, hour) of
        None \<Rightarrow> Plain (empty_buffer agent hour)
      | Some h \<Rightarrow> archived ((agent, hour), h))"

definition archive_of :: "(string \<Rightarrow> string) \<Rightarrow> plain_buffer \<Rightarrow> archive_hour" where
  "archive_of coll b = \<lparr> ah_metrics = metric_points_to_columns (pb_points b), ah_pings = ping_points_to_series coll (pb_pings b),
     ah_checks = proxy_checks_to_series coll (pb_checks b) \<rparr>"

text \<open>\<open>True\<close>: no error was thrown. A failed verification has already stored the object.\<close>

definition flush_hour ::
  "(string \<Rightarrow> string) \<Rightarrow> flush_outcome \<Rightarrow> string \<Rightarrow> int \<Rightarrow> stored_buffer \<Rightarrow>
   ((string \<times> int) \<times> archive_hour) list \<Rightarrow> bool \<times> ((string \<times> int) \<times> archive_hour) list" where
  "flush_hour coll outcome agent hour buffered archive =
     (if outcome = ReadFails then (False, archive)
      else let merged = merge_buffer coll (existing_hour agent hour archive) (buffer_group buffered) agent hour hour_sec
           in if outcome = PutFails then (False, archive)
              else (outcome = Flushed, AList.update (agent, hour) (archive_of coll merged) archive))"

record completed_item =
  ci_agent :: string
  ci_hour :: int
  ci_keys :: "string list"
  ci_buffers :: "stored_buffer list"

definition row_hour :: "string \<Rightarrow> int option" where
  "row_hour key = (case buffered_start key of Fin q \<Rightarrow> Some (hour_start \<lfloor>q\<rfloor>) | _ \<Rightarrow> None)"

text \<open>A row is left for later when its hour is not complete for longer than the grace period\<close>

definition row_due :: "jsval \<Rightarrow> int \<Rightarrow> string \<times> stored_buffer \<Rightarrow> (string \<times> int) option" where
  "row_due env now row =
     (let agent = agent_id_of (buffer_agent (snd row))
      in case row_hour (fst row) of
           None \<Rightarrow> None
         | Some hour \<Rightarrow> if agent = [] \<or> now - 600 < hour + telemetry_flush_interval_sec env then None else Some (agent, hour))"

definition completed_items :: "jsval \<Rightarrow> int \<Rightarrow> (string \<times> stored_buffer) list \<Rightarrow> ((string \<times> int) \<times> completed_item) list" where
  "completed_items env now rows =
     fold (\<lambda>row m. case row_due env now row of
             None \<Rightarrow> m
           | Some (agent, hour) \<Rightarrow>
               (let item = (case map_of m (agent, hour) of Some i \<Rightarrow> i
                  | None \<Rightarrow> \<lparr> ci_agent = agent, ci_hour = hour, ci_keys = [], ci_buffers = [] \<rparr>)
                in AList.update (agent, hour)
                     (item\<lparr> ci_keys := ci_keys item @ [fst row], ci_buffers := ci_buffers item @ [snd row] \<rparr>) m)) rows []"

definition merged_buffers :: "(string \<Rightarrow> string) \<Rightarrow> string \<Rightarrow> int \<Rightarrow> stored_buffer list \<Rightarrow> stored_buffer" where
  "merged_buffers coll agent hour buffers =
     fold (\<lambda>b acc. Plain (merge_buffer coll acc (buffer_group b) agent hour hour_sec)) buffers (Plain (empty_buffer agent hour))"

definition max_export_attempts :: int where "max_export_attempts = 12"

definition normalize_export_attempt :: "export_attempt option \<Rightarrow> export_attempt" where
  "normalize_export_attempt v = (case v of
     None \<Rightarrow> \<lparr> ex_attempts = 0, ex_error = [], ex_next = 0 \<rparr>
   | Some a \<Rightarrow> \<lparr> ex_attempts = max 0 (ex_attempts a), ex_error = take 240 (ex_error a), ex_next = ex_next a \<rparr>)"

definition timeseries_export_enabled :: "jsval \<Rightarrow> bool" where
  "timeseries_export_enabled env = (js_trim (str_or_empty (js_get env ''TIMESERIES_EXPORT_URL'')) \<noteq> [])"

definition queue_export :: "jsval \<Rightarrow> string \<Rightarrow> int \<Rightarrow> flush_state \<Rightarrow> flush_state" where
  "queue_export env raw_agent hour st =
     (if \<not> timeseries_export_enabled env then st
      else let key = (agent_id_of raw_agent, hour_start hour)
           in st\<lparr> fs_exports := AList.update key (normalize_export_attempt (map_of (fs_exports st) key)) (fs_exports st) \<rparr>)"

definition flush_item :: "(string \<Rightarrow> string) \<Rightarrow> jsval \<Rightarrow> flush_outcome \<Rightarrow> completed_item \<Rightarrow> flush_state \<times> bool \<Rightarrow> flush_state \<times> bool" where
  "flush_item coll env outcome item acc =
     (let (st, retry) = acc;
          merged = merged_buffers coll (ci_agent item) (ci_hour item) (ci_buffers item);
          (fine, archive) = flush_hour coll outcome (ci_agent item) (ci_hour item) merged (fs_archive st);
          st1 = st\<lparr> fs_archive := archive \<rparr>
      in if \<not> fine then (st1, True)
         else let st2 = queue_export env (ci_agent item) (ci_hour item) st1
              in (st2\<lparr> fs_rows := filter (\<lambda>(k, _). k \<notin> set (ci_keys item)) (fs_rows st2) \<rparr>, retry))"

definition schedule_alarm_if_sooner :: "int \<Rightarrow> int \<Rightarrow> flush_state \<Rightarrow> flush_state" where
  "schedule_alarm_if_sooner ms delay st =
     (case fs_alarm st of
        Some a \<Rightarrow> if ms + delay < a then st\<lparr> fs_alarm := Some (ms + delay) \<rparr> else st
      | None \<Rightarrow> st\<lparr> fs_alarm := Some (ms + delay) \<rparr>)"

definition schedule_flush :: "jsval \<Rightarrow> int \<Rightarrow> flush_state \<Rightarrow> flush_state" where
  "schedule_flush env ms st =
     (let alarm_at = (hour_start (ms div 1000) + telemetry_flush_interval_sec env + 600 + 30) * 1000
      in case fs_alarm st of
           Some a \<Rightarrow> if alarm_at < a then st\<lparr> fs_alarm := Some alarm_at \<rparr> else st
         | None \<Rightarrow> st\<lparr> fs_alarm := Some alarm_at \<rparr>)"

section \<open>Exports\<close>

datatype export_outcome = ExportMissing | Exported | ExportFailed string

text \<open>One queued export: what is queued afterwards, and whether a retry is needed\<close>

definition export_step :: "int \<Rightarrow> export_outcome \<Rightarrow> export_attempt \<Rightarrow> export_attempt option \<times> bool" where
  "export_step now outcome attempt =
     (if now < ex_next attempt then (Some attempt, True)
      else case outcome of
        ExportMissing \<Rightarrow> (None, False)
      | Exported \<Rightarrow> (None, False)
      | ExportFailed err \<Rightarrow>
          (let attempts = ex_attempts (normalize_export_attempt (Some attempt)) + 1
           in if max_export_attempts \<le> attempts then (None, False)
              else (Some \<lparr> ex_attempts = attempts, ex_error = take 240 err,
                      ex_next = now + min 3600 (300 * 2 ^ nat (min (attempts - 1) 3)) \<rparr>, True)))"

definition flush_pending_exports ::
  "jsval \<Rightarrow> int \<Rightarrow> int \<Rightarrow> (string \<times> int \<Rightarrow> export_outcome) \<Rightarrow> flush_state \<Rightarrow> flush_state" where
  "flush_pending_exports env ms now outcome st =
     (if \<not> timeseries_export_enabled env then st
      else let steps = map (\<lambda>(k, a). (k, export_step now (outcome k) a)) (fs_exports st);
               st1 = st\<lparr> fs_exports := List.map_filter (\<lambda>(k, r, _). map_option (Pair k) r) steps \<rparr>
           in if list_ex (\<lambda>(_, _, retry). retry) steps then schedule_alarm_if_sooner ms 300000 st1 else st1)"

definition flush_completed_hours ::
  "(string \<Rightarrow> string) \<Rightarrow> jsval \<Rightarrow> int \<Rightarrow> int \<Rightarrow> (string \<times> int \<Rightarrow> flush_outcome) \<Rightarrow> (string \<times> int \<Rightarrow> export_outcome) \<Rightarrow>
   flush_state \<Rightarrow> flush_state" where
  "flush_completed_hours coll env ms now outcome exported st =
     (let (st1, retry) = fold (\<lambda>(k, item). flush_item coll env (outcome k) item) (completed_items env now (fs_rows st)) (st, False);
          st2 = flush_pending_exports env ms now exported st1
      in if retry then schedule_alarm_if_sooner ms 300000 st2
         else if fs_rows st2 \<noteq> [] then schedule_flush env ms st2 else st2)"

section \<open>Reading and deleting\<close>

definition max_buffer_read_points :: nat where "max_buffer_read_points = 20000"

record telemetry_read =
  tr_points :: "metric_point list"
  tr_pings :: "ping list"
  tr_checks :: "proxy_check list"

definition read_buffers ::
  "(string \<Rightarrow> string) \<Rightarrow> int \<Rightarrow> int \<Rightarrow> string \<Rightarrow> (string \<times> stored_buffer) list \<Rightarrow> telemetry_read" where
  "read_buffers coll start till agent rows =
     (let mine = filter (\<lambda>v. agent = [] \<or> agent_id_of (buffer_agent v) = agent_id_of agent) (map snd rows)
      in \<lparr> tr_points = take_last max_buffer_read_points (sort_key mt_ts
               (filter (\<lambda>p. start \<le> mt_ts p \<and> mt_ts p \<le> till) (concat (map buffer_points mine)))),
           tr_pings = take_last max_buffer_read_points (sort_key (\<lambda>p. (pg_ts p, coll (pg_target p)))
               (filter (\<lambda>p. start \<le> pg_ts p \<and> pg_ts p \<le> till) (concat (map buffer_pings mine)))),
           tr_checks = take_last max_buffer_read_points (sort_key (\<lambda>c. (px_ts c, coll (px_target c)))
               (filter (\<lambda>c. start \<le> px_ts c \<and> px_ts c \<le> till) (concat (map buffer_checks mine)))) \<rparr>)"

definition delete_agent_buffer :: "string \<Rightarrow> flush_state \<Rightarrow> flush_state \<times> nat" where
  "delete_agent_buffer raw_agent st =
     (let agent = agent_id_of raw_agent
      in if agent = [] then (st, 0)
         else let doomed = filter (\<lambda>(k, _). starts_with (chunk_prefix @ agent @ '':'') k) (fs_rows st);
                  exports = filter (\<lambda>((a, _), _). agent_id_of a = agent) (fs_exports st)
              in (st\<lparr> fs_rows := filter (\<lambda>(k, _). \<not> starts_with (chunk_prefix @ agent @ '':'') k) (fs_rows st),
                    fs_exports := filter (\<lambda>((a, _), _). agent_id_of a \<noteq> agent) (fs_exports st) \<rparr>,
                  length doomed + length exports))"

section \<open>No sample is lost on the way to the archive\<close>

text \<open>What the buffers of an hour say about a key, the last one that knows it winning over \<open>old\<close>\<close>

definition layered :: "stored_buffer list \<Rightarrow> sample_key \<Rightarrow> sample_obs option \<Rightarrow> sample_obs option" where
  "layered buffers k old = fold (\<lambda>b ob. case buffer_contents b k of Some x \<Rightarrow> Some x | None \<Rightarrow> ob) buffers old"

lemma merged_buffers_ok: "buffer_ok (merged_buffers coll agent hour buffers)"
proof -
  have "buffer_ok acc \<Longrightarrow> buffer_ok (fold (\<lambda>b acc. Plain (merge_buffer coll acc (buffer_group b) agent hour hour_sec)) buffers acc)" for acc
    by (induction buffers arbitrary: acc) (simp_all add: plain_merge_ok)
  then show ?thesis
    by (simp add: merged_buffers_def buffer_ok_def empty_buffer_def buffer_points_def buffer_pings_def buffer_checks_def)
qed

lemma contents_empty_buffer [simp]: "buffer_contents (Plain (empty_buffer a h)) k = None"
  by (simp add: buffer_contents_def group_contents_def buffer_group_def empty_buffer_def buffer_points_def buffer_pings_def
      buffer_checks_def seek_def split: sample_key.split)

lemma merged_buffers_contents:
  "buffer_contents (merged_buffers coll agent hour buffers) k = (if key_in_span hour hour_sec k then layered buffers k None else None)"
proof -
  have "buffer_contents (fold (\<lambda>b acc. Plain (merge_buffer coll acc (buffer_group b) agent hour hour_sec)) buffers acc) k =
      (if buffers = [] then buffer_contents acc k
       else if key_in_span hour hour_sec k then layered buffers k (buffer_contents acc k) else None)"
    if "buffer_ok acc" for acc
    using that
  proof (induction buffers arbitrary: acc)
    case (Cons b bs)
    note m = plain_merge_contents [OF Cons.prems, of coll "buffer_group b" agent hour hour_sec k]
    show ?case
      using Cons.IH [OF plain_merge_ok, of coll acc "buffer_group b" agent hour hour_sec]
      by (simp add: m layered_def buffer_contents_def [of b, symmetric] cong: option.case_cong)
  qed simp
  from this [of "Plain (empty_buffer agent hour)"] show ?thesis
    by (simp add: merged_buffers_def layered_def buffer_ok_def empty_buffer_def buffer_points_def buffer_pings_def buffer_checks_def)
      (simp add: empty_buffer_def [symmetric])
qed

lemma layered_base: "layered bs k old = (case layered bs k None of Some x \<Rightarrow> Some x | None \<Rightarrow> old)"
proof (induction bs rule: rev_induct)
  case (snoc b bs)
  have "layered (bs @ [b]) k ob = (case buffer_contents b k of Some x \<Rightarrow> Some x | None \<Rightarrow> layered bs k ob)" for ob
    by (cases "buffer_contents b k") (simp_all add: layered_def)
  then show ?case using snoc by (cases "buffer_contents b k") simp_all
qed (simp add: layered_def)

lemma layered_none: "layered bs k None = None \<Longrightarrow> layered bs k old = old"
  and layered_some: "layered bs k None = Some x \<Longrightarrow> layered bs k old = Some x"
  by (subst layered_base, simp)+

text \<open>C4: Flushing an hour loses nothing. When the object is written, also when the verification of the write fails
  afterwards and the hour is flushed again, the archive holds for every key of the hour what the last buffer that knows it says,
  else what it held before; a failed read or write leaves the archive alone.
\<close>

theorem flush_keeps_samples:
  assumes "buffer_ok (existing_hour agent hour archive)" "0 < hour"
  shows "(outcome \<in> {ReadFails, PutFails} \<longrightarrow>
      flush_hour coll outcome agent hour (merged_buffers coll agent hour buffers) archive = (False, archive)) \<and>
    (outcome \<in> {VerifyFails, Flushed} \<longrightarrow>
      fst (flush_hour coll outcome agent hour (merged_buffers coll agent hour buffers) archive) = (outcome = Flushed) \<and>
      buffer_contents (existing_hour agent hour
        (snd (flush_hour coll outcome agent hour (merged_buffers coll agent hour buffers) archive))) k =
      (if key_in_span hour hour_sec k then layered buffers k (buffer_contents (existing_hour agent hour archive) k) else None))"
proof -
  let ?b = "merge_buffer coll (existing_hour agent hour archive) (buffer_group (merged_buffers coll agent hour buffers)) agent hour hour_sec"
  have same: "buffer_contents (archived ((agent, hour), archive_of coll ?b)) k = buffer_contents (compact_of coll ?b) k"
    by (simp add: archived_def archive_of_def compact_of_def buffer_contents_def buffer_group_def buffer_points_def buffer_pings_def
        buffer_checks_def)
  also have "\<dots> = (if key_in_span hour hour_sec k then layered buffers k (buffer_contents (existing_hour agent hour archive) k) else None)"
  proof -
    have g: "group_contents (buffer_group (merged_buffers coll agent hour buffers)) k =
        (if key_in_span hour hour_sec k then layered buffers k None else None)"
      using merged_buffers_contents [of coll agent hour buffers k] by (simp only: buffer_contents_def)
    show ?thesis
    proof (cases "layered buffers k None")
      case None
      from layered_none [OF this] None show ?thesis by (simp add: merge_contents [OF assms] g)
    next
      case (Some x)
      from layered_some [OF this] Some show ?thesis by (simp add: merge_contents [OF assms] g)
    qed
  qed
  finally show ?thesis
    by (auto simp: flush_hour_def existing_hour_def [of agent hour "AList.update _ _ _"] update_conv')
qed

lemma flush_keeps_samples_witness:
  "buffer_contents (existing_hour ''a'' 3600 (snd (flush_hour id VerifyFails ''a'' 3600
     (merged_buffers id ''a'' 3600 [Plain ((empty_buffer ''a'' 3900)\<lparr> pb_pings := [\<lparr> pg_target = ''t'', pg_ts = 4000, pg_latency = None, pg_ok = Fin 0 \<rparr>] \<rparr>)]) [])))
     (Ping_at ''t'' 4000) = Some (Ping_obs (None, Fin 0))"
proof -
  let ?b = "Plain ((empty_buffer ''a'' 3900)\<lparr> pb_pings := [\<lparr> pg_target = ''t'', pg_ts = 4000, pg_latency = None, pg_ok = Fin 0 \<rparr>] \<rparr>)"
  have "buffer_ok (existing_hour ''a'' 3600 [])"
    by (simp add: existing_hour_def buffer_ok_def empty_buffer_def buffer_points_def buffer_pings_def buffer_checks_def)
  from flush_keeps_samples [OF this, of VerifyFails id "[?b]" "Ping_at ''t'' 4000"] show ?thesis
    by (simp add: key_in_span_def in_span_def hour_sec_def layered_def buffer_contents_def group_contents_def buffer_group_def
        buffer_points_def buffer_pings_def buffer_checks_def empty_buffer_def seek_def ping_key_def ping_obs_def num_or_def)
qed

section \<open>Exports stop after twelve attempts\<close>

fun failing_exports :: "nat \<Rightarrow> (nat \<Rightarrow> int) \<Rightarrow> string \<Rightarrow> export_attempt \<Rightarrow> export_attempt option" where
  "failing_exports 0 now err a = Some a"
| "failing_exports (Suc n) now err a =
     (case failing_exports n now err a of None \<Rightarrow> None | Some b \<Rightarrow> fst (export_step (now n) (ExportFailed err) b))"

text \<open>A failing export is retried with growing delays and then given up. Starting from a newly queued entry and always failing
  when it is due, after \<open>n < 12\<close> failures the entry counts \<open>n\<close> attempts and is due between five minutes and one hour
  later; the twelfth failure removes it.
\<close>

theorem export_gives_up:
  assumes "\<And>i b. failing_exports i now err (normalize_export_attempt None) = Some b \<Longrightarrow> ex_next b \<le> now i"
  shows "case failing_exports n now err (normalize_export_attempt None) of
      None \<Rightarrow> 12 \<le> n
    | Some b \<Rightarrow> n < 12 \<and> ex_attempts b = int n \<and> (n = 0 \<or> now (n - 1) + 300 \<le> ex_next b \<and> ex_next b \<le> now (n - 1) + 3600)"
proof (induction n)
  case (Suc n)
  show ?case
  proof (cases "failing_exports n now err (normalize_export_attempt None)")
    case None
    with Suc show ?thesis by simp
  next
    case (Some b)
    then have b: "n < 12" "ex_attempts b = int n" "\<not> now n < ex_next b" using Suc assms [OF Some] by auto
    have "(300::int) \<le> 300 * 2 ^ m" for m :: nat by simp
    then show ?thesis using b Some
      by (auto simp: export_step_def max_export_attempts_def normalize_export_attempt_def Let_def)
  qed
qed (simp add: normalize_export_attempt_def)

lemma export_gives_up_witness:
  "failing_exports 12 (\<lambda>i. int i * 4000 + 1) ''down'' (normalize_export_attempt None) = None"
proof -
  let ?f = "\<lambda>i. failing_exports i (\<lambda>i. int i * 4000 + 1) ''down'' (normalize_export_attempt None)"
  have next_due: "case ?f i of None \<Rightarrow> True | Some b \<Rightarrow> ex_next b \<le> int i * 4000 + 1" for i
  proof (induction i)
    case (Suc i)
    then show ?case by (auto simp: export_step_def Let_def split: option.splits)
  qed (simp add: normalize_export_attempt_def)
  have "ex_next b \<le> int i * 4000 + 1" if "?f i = Some b" for i b using next_due [of i] that by simp
  from export_gives_up [of "\<lambda>i. int i * 4000 + 1" "''down''" 12, OF this] show ?thesis
    by (auto split: option.splits)
qed

section \<open>Rows leave the storage only when they are archived\<close>

definition items_ok :: "jsval \<Rightarrow> int \<Rightarrow> (string \<times> stored_buffer) list \<Rightarrow> ((string \<times> int) \<times> completed_item) list \<Rightarrow> bool" where
  "items_ok env now rows m =
     (\<forall>(k, i) \<in> set m. ci_agent i = fst k \<and> ci_hour i = snd k \<and>
        (\<forall>key \<in> set (ci_keys i). \<exists>v. (key, v) \<in> set rows \<and> row_due env now (key, v) = Some k))"

definition item_ok :: "jsval \<Rightarrow> int \<Rightarrow> (string \<times> stored_buffer) list \<Rightarrow> string \<times> int \<Rightarrow> completed_item \<Rightarrow> bool" where
  "item_ok env now rows k i \<longleftrightarrow> ci_agent i = fst k \<and> ci_hour i = snd k \<and>
     (\<forall>key \<in> set (ci_keys i). \<exists>v. (key, v) \<in> set rows \<and> row_due env now (key, v) = Some k)"

lemma items_ok_iff: "items_ok env now rows m \<longleftrightarrow> (\<forall>k i. (k, i) \<in> set m \<longrightarrow> item_ok env now rows k i)"
  by (auto simp: items_ok_def item_ok_def)

lemma items_ok_update:
  assumes "items_ok env now rows m" "item_ok env now rows k i"
  shows "items_ok env now rows (AList.update k i m)"
  unfolding items_ok_iff
proof (intro allI impI)
  fix k' i' assume "(k', i') \<in> set (AList.update k i m)"
  then have "(k', i') = (k, i) \<or> (k', i') \<in> set m"
    by (induction m) (auto split: if_splits)
  then show "item_ok env now rows k' i'" using assms unfolding items_ok_iff by blast
qed

lemma completed_items_ok: "items_ok env now rows (completed_items env now rows)"
proof -
  have "items_ok env now rows m \<Longrightarrow> set seen_rows \<subseteq> set rows \<Longrightarrow> items_ok env now rows
      (fold (\<lambda>row m. case row_due env now row of
             None \<Rightarrow> m
           | Some (agent, hour) \<Rightarrow>
               (let item = (case map_of m (agent, hour) of Some i \<Rightarrow> i
                  | None \<Rightarrow> \<lparr> ci_agent = agent, ci_hour = hour, ci_keys = [], ci_buffers = [] \<rparr>)
                in AList.update (agent, hour)
                     (item\<lparr> ci_keys := ci_keys item @ [fst row], ci_buffers := ci_buffers item @ [snd row] \<rparr>) m)) seen_rows m)" for seen_rows m
  proof (induction seen_rows arbitrary: m)
    case (Cons row r)
    obtain key v where row: "row = (key, v)" by (cases row)
    show ?case
    proof (cases "row_due env now row")
      case None
      with Cons show ?thesis by simp
    next
      case (Some k)
      define item where "item = (case map_of m k of Some i \<Rightarrow> i
                  | None \<Rightarrow> \<lparr> ci_agent = fst k, ci_hour = snd k, ci_keys = [], ci_buffers = [] \<rparr>)"
      have "item_ok env now rows k item"
      proof (cases "map_of m k")
        case None
        then show ?thesis by (simp add: item_def item_ok_def)
      next
        case (Some i)
        then have "item = i" by (simp add: item_def)
        moreover have "item_ok env now rows k i" using Cons.prems(1) map_of_SomeD [OF Some] unfolding items_ok_iff by blast
        ultimately show ?thesis by simp
      qed
      then have "item_ok env now rows k (item\<lparr> ci_keys := ci_keys item @ [key], ci_buffers := ci_buffers item @ [v] \<rparr>)"
        using Some Cons.prems(2) by (auto simp: item_ok_def row)
      from Cons.IH [OF items_ok_update [OF Cons.prems(1) this]] Cons.prems(2) Some show ?thesis
        by (simp add: row item_def case_prod_unfold Let_def)
    qed
  qed simp
  from this [of "[]" rows] show ?thesis by (simp add: completed_items_def items_ok_def)
qed

lemma flush_item_rows:
  "fs_rows (fst (flush_item coll env oc item acc)) =
   (if oc = Flushed then filter (\<lambda>(k, _). k \<notin> set (ci_keys item)) (fs_rows (fst acc)) else fs_rows (fst acc))"
  by (cases acc; cases oc) (auto simp: flush_item_def flush_hour_def queue_export_def Let_def)

lemma flush_items_rows:
  "fs_rows (fst (fold (\<lambda>(k, item). flush_item coll env (outcome k) item) items acc)) =
   filter (\<lambda>(key, _). \<not> (\<exists>(k, item) \<in> set items. outcome k = Flushed \<and> key \<in> set (ci_keys item))) (fs_rows (fst acc))"
proof (induction items arbitrary: acc)
  case (Cons e items)
  show ?case by (cases e) (auto simp: Cons.IH flush_item_rows filter_filter intro!: filter_cong)
qed simp

lemma flush_rows:
  "fs_rows (flush_completed_hours coll env ms now outcome exported st) =
   filter (\<lambda>(key, _). \<not> (\<exists>(k, item) \<in> set (completed_items env now (fs_rows st)). outcome k = Flushed \<and> key \<in> set (ci_keys item)))
     (fs_rows st)"
proof -
  have e: "fs_rows (flush_pending_exports env ms now exported s) = fs_rows s" for s
    by (simp add: flush_pending_exports_def schedule_alarm_if_sooner_def Let_def split: option.split)
  have a: "fs_rows (schedule_alarm_if_sooner ms d s) = fs_rows s" "fs_rows (schedule_flush env ms s) = fs_rows s" for d s
    by (simp_all add: schedule_alarm_if_sooner_def schedule_flush_def Let_def split: option.split)
  show ?thesis
    using flush_items_rows [of coll env outcome "completed_items env now (fs_rows st)" "(st, False)"]
    by (simp add: flush_completed_hours_def Let_def case_prod_unfold e a)
qed

text \<open>
  CX: The alarm removes a row from the storage only when the row's own hour, of the row's own Agent, has been complete for
  longer than the flush interval and the grace period, and the flush of exactly that hour succeeded. A failed flush keeps
  every row of the hour.
\<close>

theorem flush_removes_only_archived_rows:
  assumes "distinct (map fst (fs_rows st))" "(key, v) \<in> set (fs_rows st)"
    and "(key, v) \<notin> set (fs_rows (flush_completed_hours coll env ms now outcome exported st))"
  shows "\<exists>hour. row_hour key = Some hour \<and> hour + telemetry_flush_interval_sec env + 600 \<le> now \<and>
    outcome (agent_id_of (buffer_agent v), hour) = Flushed"
proof -
  from assms(2,3) obtain k item where i: "(k, item) \<in> set (completed_items env now (fs_rows st))" "outcome k = Flushed" "key \<in> set (ci_keys item)"
    unfolding flush_rows by auto
  then obtain v' where v': "(key, v') \<in> set (fs_rows st)" "row_due env now (key, v') = Some k"
    using completed_items_ok [of env now "fs_rows st"] unfolding items_ok_def by blast
  have "v' = v" using assms(1,2) v'(1) by (metis eq_key_imp_eq_value)
  with v'(2) i(2) show ?thesis by (auto simp: row_due_def Let_def split: option.splits if_splits)
qed

lemma flush_removes_only_archived_rows_witness:
  "row_hour ''chunk:a:3600'' = Some 3600 \<and>
   (''chunk:a:3600'', Plain (empty_buffer ''a'' 3600)) \<in> set (fs_rows (flush_completed_hours id (Obj []) 7000000 7000 (\<lambda>_. Flushed) (\<lambda>_. Exported)
     \<lparr> fs_rows = [(''chunk:a:3600'', Plain (empty_buffer ''a'' 3600))], fs_archive = [], fs_exports = [], fs_alarm = None \<rparr>))"
proof -
  have "after_last_colon ''chunk:a:3600'' = int_str 3600" by code_simp
  then have "buffered_start ''chunk:a:3600'' = jsint 3600"
    by (simp add: buffered_start_def starts_with_def chunk_prefix_def)
  moreover have "hour_start 3600 = 3600" by (simp add: hour_start_def hour_sec_def)
  ultimately have r: "row_hour ''chunk:a:3600'' = Some 3600" by (simp add: row_hour_def)
  have i: "telemetry_flush_interval_sec (Obj []) = 3600"
    by (simp add: telemetry_flush_interval_sec_def js_get_def js_coalesce_def)
  let ?st = "\<lparr> fs_rows = [(''chunk:a:3600'', Plain (empty_buffer ''a'' 3600))], fs_archive = [], fs_exports = [], fs_alarm = None \<rparr>"
  have "distinct (map fst (fs_rows ?st))" "(''chunk:a:3600'', Plain (empty_buffer ''a'' 3600)) \<in> set (fs_rows ?st)" by simp_all
  from flush_removes_only_archived_rows [OF this, of id "Obj []" 7000000 7000 "\<lambda>_. Flushed" "\<lambda>_. Exported"]
  show ?thesis using r i by force
qed

section \<open>What deleting an Agent removes\<close>

lemma int_str_no_colon: "CHR '':'' \<notin> set (int_str i)"
  using nat_str_digits [of "nat i"] nat_str_digits [of "nat (- i)"] by (auto simp: int_str_def is_digit_def)

lemma colon_prefix:
  assumes "CHR '':'' \<notin> set n"
  shows "starts_with (a @ '':'') (b @ '':'' @ n) \<longleftrightarrow> a = b \<or> starts_with (a @ '':'') b"
proof
  assume "starts_with (a @ '':'') (b @ '':'' @ n)"
  then have t: "take (Suc (length a)) (b @ CHR '':'' # n) = a @ '':''" by (simp add: starts_with_def)
  show "a = b \<or> starts_with (a @ '':'') b"
  proof (cases "length b" "length a" rule: linorder_cases)
    case less
    then obtain m where m: "length a = Suc (length b + m)" by (metis add_Suc less_iff_Suc_add)
    then have "take (Suc m) n = drop (Suc (length b)) (a @ '':'')" using arg_cong [OF t, of "drop (Suc (length b))"] by (simp add: drop_take)
    moreover have "CHR '':'' \<in> set (drop (Suc (length b)) (a @ '':''))" using m by simp
    ultimately show ?thesis using assms by (metis in_set_takeD)
  next
    case equal
    then show ?thesis using t by simp
  next
    case greater
    then show ?thesis using t by (simp add: starts_with_def)
  qed
next
  assume "a = b \<or> starts_with (a @ '':'') b"
  then show "starts_with (a @ '':'') (b @ '':'' @ n)"
  proof
    assume p: "starts_with (a @ '':'') b"
    then have "length (a @ '':'') \<le> length b" unfolding starts_with_def by (metis length_take min.absorb_iff2 min.commute)
    with p show ?thesis by (simp add: starts_with_def)
  qed (simp add: starts_with_def)
qed

text \<open>
  CX: Deleting an Agent removes its own buffer rows, and also those of every Agent whose identifier extends its own by a
  colon: the rows are matched by the prefix of the key alone, and identifiers may contain colons.
\<close>

theorem delete_agent_buffer_rows:
  assumes "agent_id_of a = a" "agent_id_of b = b" "a \<noteq> []"
    and "(chunk_key b t, v) \<in> set (fs_rows st)"
  shows "(chunk_key b t, v) \<notin> set (fs_rows (fst (delete_agent_buffer a st))) \<longleftrightarrow> a = b \<or> starts_with (a @ '':'') b"
proof -
  have "starts_with (chunk_prefix @ x) (chunk_prefix @ y) = starts_with x y" for x y
    by (simp add: starts_with_def)
  then have "starts_with (chunk_prefix @ a @ '':'') (chunk_key b t) \<longleftrightarrow> a = b \<or> starts_with (a @ '':'') b"
    unfolding chunk_key_def assms(2) using colon_prefix [OF int_str_no_colon] by simp
  then show ?thesis using assms by (simp add: delete_agent_buffer_def Let_def)
qed

lemma delete_agent_buffer_rows_witness:
  "(chunk_key ''web:eu'' 300, Plain (empty_buffer ''web:eu'' 300)) \<notin> set (fs_rows (fst (delete_agent_buffer ''web''
     \<lparr> fs_rows = [(chunk_key ''web:eu'' 300, Plain (empty_buffer ''web:eu'' 300))], fs_archive = [], fs_exports = [], fs_alarm = None \<rparr>)))"
proof -
  have i: "agent_id_of ''web'' = ''web''" "agent_id_of ''web:eu'' = ''web:eu''" by code_simp+
  let ?st = "\<lparr> fs_rows = [(chunk_key ''web:eu'' 300, Plain (empty_buffer ''web:eu'' 300))], fs_archive = [], fs_exports = [], fs_alarm = None \<rparr>"
  have "starts_with (''web'' @ '':'') ''web:eu''" by (simp add: starts_with_def)
  then show ?thesis using delete_agent_buffer_rows [OF i, of 300 "Plain (empty_buffer ''web:eu'' 300)" ?st] by simp
qed

section \<open>A read keeps the newest samples\<close>

lemma newest_tail:
  fixes xs :: "'a list" and key :: "'a \<Rightarrow> 'k::linorder" and n :: nat
  defines "r \<equiv> take_last n (sort_key key xs)"
  shows "sorted (map key r)" "length r = min n (length xs)"
    "\<exists>older. mset xs = mset older + mset r \<and> list_all (\<lambda>o'. list_all (\<lambda>x. key o' \<le> key x) r) older"
proof -
  let ?s = "sort_key key xs"
  show "sorted (map key r)" unfolding r_def by (simp add: map_take_last sorted_take_last)
  show "length r = min n (length xs)" unfolding r_def by simp
  have split: "?s = take (length ?s - n) ?s @ r" by (simp add: r_def take_last_def)
  have "sorted (map key (take (length ?s - n) ?s @ r))" using split sorted_sort_key [of key xs] by simp
  then have "list_all (\<lambda>o'. list_all (\<lambda>x. key o' \<le> key x) r) (take (length ?s - n) ?s)"
    by (auto simp: sorted_append list_all_iff)
  moreover have "mset xs = mset (take (length ?s - n) ?s) + mset r"
    by (metis mset_append mset_sort split)
  ultimately show "\<exists>older. mset xs = mset older + mset r \<and> list_all (\<lambda>o'. list_all (\<lambda>x. key o' \<le> key x) r) older"
    by blast
qed

definition wanted_pings :: "int \<Rightarrow> int \<Rightarrow> string \<Rightarrow> (string \<times> stored_buffer) list \<Rightarrow> ping list" where
  "wanted_pings start till agent rows =
     filter (\<lambda>p. start \<le> pg_ts p \<and> pg_ts p \<le> till)
       (concat (map buffer_pings (filter (\<lambda>v. agent = [] \<or> agent_id_of (buffer_agent v) = agent_id_of agent) (map snd rows))))"

text \<open>
  CX: A read of the buffers returns at most 20000 pings, in the order of their times; it leaves some of the wanted ones out only
  when there are more, and then only ones that come before every returned ping.
\<close>

theorem read_returns_newest_pings:
  "(\<exists>older. mset (wanted_pings start till agent rows) = mset older + mset (tr_pings (read_buffers coll start till agent rows)) \<and>
     list_all (\<lambda>o'. list_all (\<lambda>p. pg_ts o' \<le> pg_ts p) (tr_pings (read_buffers coll start till agent rows))) older) \<and>
   sorted (map pg_ts (tr_pings (read_buffers coll start till agent rows))) \<and>
   length (tr_pings (read_buffers coll start till agent rows)) = min 20000 (length (wanted_pings start till agent rows))"
proof (intro conjI)
  let ?k = "\<lambda>p. (pg_ts p, coll (pg_target p))" and ?w = "wanted_pings start till agent rows"
  let ?r = "tr_pings (read_buffers coll start till agent rows)"
  have r: "?r = take_last 20000 (sort_key ?k ?w)"
    by (simp add: read_buffers_def wanted_pings_def max_buffer_read_points_def Let_def)
  note t = newest_tail [where n = 20000 and key = ?k and xs = ?w, folded r]
  have fst_le: "fst a \<le> fst b" if "a \<le> b" for a b :: "int \<times> string" using that by (auto simp: less_eq_prod_def)
  obtain older where o: "mset ?w = mset older + mset ?r" "list_all (\<lambda>o'. list_all (\<lambda>x. ?k o' \<le> ?k x) ?r) older" using t(3) by blast
  have "list_all (\<lambda>o'. list_all (\<lambda>p. pg_ts o' \<le> pg_ts p) ?r) older"
    unfolding list_all_iff
  proof (intro ballI)
    fix o' p assume "o' \<in> set older" "p \<in> set ?r"
    then have "?k o' \<le> ?k p" using o(2) unfolding list_all_iff by blast
    from fst_le [OF this] show "pg_ts o' \<le> pg_ts p" by simp
  qed
  with o(1) show "\<exists>older. mset ?w = mset older + mset ?r \<and> list_all (\<lambda>o'. list_all (\<lambda>p. pg_ts o' \<le> pg_ts p) ?r) older" by blast
  show "sorted (map pg_ts ?r)"
    using t(1) unfolding sorted_map by (rule sorted_wrt_mono_rel [rotated]) (auto simp: less_eq_prod_def)
  show "length ?r = min 20000 (length ?w)" by (rule t(2))
qed

section \<open>The snapshot of the fleet\<close>

definition latest_state_prefix :: string where "latest_state_prefix = ''latest:state:''"
definition last_seen_prefix :: string where "last_seen_prefix = ''last:seen:''"

definition stored_fleet_state :: "string \<times> jsval \<Rightarrow> (string \<times> jsval) list \<Rightarrow> (string \<times> jsval) list" where
  "stored_fleet_state row states =
     (let agent = agent_id_of (drop (length latest_state_prefix) (fst row))
      in if agent \<noteq> [] \<and> js_is_record (snd row) then AList.update agent (snd row) states else states)"

definition overlay_fleet_state ::
  "(jsval \<Rightarrow> int option) \<Rightarrow> string \<times> jsval \<Rightarrow> (string \<times> jsval) list \<Rightarrow> (string \<times> jsval) list" where
  "overlay_fleet_state date_ms entry states =
     (let agent = sanitize_agent_id (js_or (js_get (snd entry) ''agent_id'') (Str (fst entry)))
      in if agent = [] \<or> \<not> js_is_record (snd entry) then states
         else case map_of states agent of
                None \<Rightarrow> AList.update agent (snd entry) states
              | Some cur \<Rightarrow> if updated_at date_ms cur \<le> updated_at date_ms (snd entry)
                            then AList.update agent (snd entry) states else states)"

definition stored_heartbeat :: "string \<times> int \<Rightarrow> (string \<times> int) list \<Rightarrow> (string \<times> int) list" where
  "stored_heartbeat row seen =
     (let agent = agent_id_of (drop (length last_seen_prefix) (fst row))
      in if agent \<noteq> [] \<and> 0 < snd row then AList.update agent (snd row) seen else seen)"

definition overlay_heartbeat :: "string \<times> int \<Rightarrow> (string \<times> int) list \<Rightarrow> (string \<times> int) list" where
  "overlay_heartbeat entry seen =
     (let agent = agent_id_of (fst entry)
      in if agent \<noteq> [] \<and> (case map_of seen agent of None \<Rightarrow> 0 | Some t \<Rightarrow> t) < snd entry
         then AList.update agent (snd entry) seen else seen)"

definition read_fleet_latest_states ::
  "(jsval \<Rightarrow> int option) \<Rightarrow> (string \<times> jsval) list \<Rightarrow> (string \<times> jsval) list \<Rightarrow> (string \<times> int) list \<Rightarrow> (string \<times> int) list \<Rightarrow>
   (string \<times> jsval) list \<times> (string \<times> int) list" where
  "read_fleet_latest_states date_ms state_rows mem_latest seen_rows mem_seen =
     (fold (overlay_fleet_state date_ms) mem_latest (fold stored_fleet_state state_rows []),
      fold overlay_heartbeat mem_seen (fold stored_heartbeat seen_rows []))"

definition state_at_least :: "(jsval \<Rightarrow> int option) \<Rightarrow> string \<Rightarrow> int \<Rightarrow> (string \<times> jsval) list \<Rightarrow> bool" where
  "state_at_least date_ms agent t states = (case map_of states agent of None \<Rightarrow> False | Some s \<Rightarrow> t \<le> updated_at date_ms s)"

definition seen_at_least :: "string \<Rightarrow> int \<Rightarrow> (string \<times> int) list \<Rightarrow> bool" where
  "seen_at_least agent t seen = (case map_of seen agent of None \<Rightarrow> False | Some s \<Rightarrow> t \<le> s)"

lemma overlay_keeps: "state_at_least date_ms agent t states \<Longrightarrow> state_at_least date_ms agent t (overlay_fleet_state date_ms e states)"
  by (auto simp: state_at_least_def overlay_fleet_state_def update_conv' Let_def split: option.splits if_splits)

lemma overlay_puts:
  "js_is_record v \<Longrightarrow> sanitize_agent_id (js_or (js_get v ''agent_id'') (Str key)) = agent \<Longrightarrow> agent \<noteq> [] \<Longrightarrow>
   state_at_least date_ms agent (updated_at date_ms v) (overlay_fleet_state date_ms (key, v) states)"
  by (auto simp: state_at_least_def overlay_fleet_state_def update_conv' Let_def split: option.splits if_splits)

lemma heartbeat_keeps: "seen_at_least agent t seen \<Longrightarrow> seen_at_least agent t (overlay_heartbeat e seen)"
  by (auto simp: seen_at_least_def overlay_heartbeat_def update_conv' Let_def split: option.splits if_splits)

lemma heartbeat_puts: "agent_id_of key = agent \<Longrightarrow> agent \<noteq> [] \<Longrightarrow> 0 < t \<Longrightarrow> seen_at_least agent t (overlay_heartbeat (key, t) seen)"
  by (auto simp: seen_at_least_def overlay_heartbeat_def update_conv' Let_def split: option.splits if_splits)

lemma fold_keeps_put:
  assumes keeps: "\<And>e s. P s \<Longrightarrow> P (f e s)" and puts: "\<And>s. P (f x s)" and x: "x \<in> set xs"
  shows "P (fold f xs s)"
proof -
  have keep: "P s \<Longrightarrow> P (fold f ys s)" for ys s by (induction ys arbitrary: s) (simp_all add: keeps)
  from x obtain ys zs where "xs = ys @ x # zs" by (meson split_list)
  then show ?thesis by (simp add: keep puts)
qed

text \<open>
  CX: The snapshot of the fleet is never behind the memory of the instance: for each Agent with a state in memory it shows a
  state at least as new, and for each heartbeat in memory a time at least as late, whatever older rows the storage holds.
\<close>

theorem fleet_snapshot_is_fresh:
  assumes "(key, v) \<in> set mem_latest" "js_is_record v" "sanitize_agent_id (js_or (js_get v ''agent_id'') (Str key)) = agent"
    and "(key', t) \<in> set mem_seen" "agent_id_of key' = agent" "0 < t" "agent \<noteq> []"
  shows "state_at_least date_ms agent (updated_at date_ms v)
      (fst (read_fleet_latest_states date_ms state_rows mem_latest seen_rows mem_seen)) \<and>
    seen_at_least agent t (snd (read_fleet_latest_states date_ms state_rows mem_latest seen_rows mem_seen))"
proof
  show "state_at_least date_ms agent (updated_at date_ms v)
      (fst (read_fleet_latest_states date_ms state_rows mem_latest seen_rows mem_seen))"
    unfolding read_fleet_latest_states_def fst_conv
    by (rule fold_keeps_put [where P = "state_at_least date_ms agent (updated_at date_ms v)", OF _ _ assms(1)])
      (simp_all add: overlay_keeps overlay_puts assms)
  show "seen_at_least agent t (snd (read_fleet_latest_states date_ms state_rows mem_latest seen_rows mem_seen))"
    unfolding read_fleet_latest_states_def snd_conv
    by (rule fold_keeps_put [where P = "seen_at_least agent t", OF _ _ assms(4)])
      (simp_all add: heartbeat_keeps heartbeat_puts assms)
qed

lemma fleet_snapshot_is_fresh_witness:
  "state_at_least (\<lambda>_. None) ''a'' 9 (fst (read_fleet_latest_states (\<lambda>_. None) [(''latest:state:a'', Obj [(''updated_at'', JInt 5)])]
     [(''a'', Obj [(''updated_at'', JInt 9)])] [(''last:seen:a'', 3)] [(''a'', 8)]))"
proof -
  have a: "agent_id_of ''a'' = ''a''" by code_simp
  then have k: "sanitize_agent_id (js_or (js_get (Obj [(''updated_at'', JInt 9)]) ''agent_id'') (Str ''a'')) = ''a''"
    by (simp add: agent_id_of_def js_get_def)
  from fleet_snapshot_is_fresh [of "''a''" "Obj [(''updated_at'', JInt 9)]" "[(''a'', Obj [(''updated_at'', JInt 9)])]" "''a''"
      "''a''" 8 "[(''a'', 8)]" "\<lambda>_. None"] k a
  show ?thesis by (simp add: js_is_record_def updated_at_def agent_state_timestamp_def js_get_def)
qed

end
