(* ===== verification/TimeseriesExport.thy ===== *)
theory TimeseriesExport
  imports TelemetryCodec
begin

text \<open>
  \<open>worker/src/timeseries-export.js\<close>: the pings of an archived hour as InfluxDB or Prometheus text,
  posted in batches. The escaped label values of both formats share one contract, the locale
  \<open>escaped_text\<close>: a reader that stops at the first unescaped delimiter gets the value back. The
  requests are an argument: the outcome of the n-th one.
\<close>

section \<open>Escaping\<close>

definition backslash :: char where "backslash = CHR 0x5C"
definition newline :: char where "newline = CHR 0x0A"
definition carriage :: char where "carriage = CHR 0x0D"

text \<open>\<open>s.replaceAll(c, r)\<close> for a single character\<close>

definition replace_char :: "char \<Rightarrow> string \<Rightarrow> string \<Rightarrow> string" where
  "replace_char c r s = concat (map (\<lambda>x. if x = c then r else [x]) s)"

definition escape_influx :: "string \<Rightarrow> string" where
  "escape_influx value =
     replace_char carriage [backslash, CHR ''r'']
       (replace_char newline [backslash, CHR ''n'']
         (replace_char (CHR ''='') [backslash, CHR ''='']
           (replace_char (CHR '' '') [backslash, CHR '' '']
             (replace_char (CHR '','') [backslash, CHR '','']
               (replace_char backslash [backslash, backslash] value)))))"

definition escape_prom :: "string \<Rightarrow> string" where
  "escape_prom value =
     replace_char newline [backslash, CHR ''n'']
       (replace_char (CHR 0x22) [backslash, CHR 0x22]
         (replace_char backslash [backslash, backslash] value))"

section \<open>Payloads\<close>

text \<open>\<open>Number(point?.ok) === 1\<close>, and the latency when \<open>Number.isFinite(Number(point?.latency_ms))\<close>; \<open>Number(null)\<close> is 0\<close>

definition ping_up :: "ping \<Rightarrow> bool" where
  "ping_up p = (pg_ok p = Fin 1)"

definition ping_latency_value :: "ping \<Rightarrow> jsnum" where
  "ping_latency_value p = (case pg_latency p of None \<Rightarrow> Fin 0 | Some n \<Rightarrow> n)"

definition influx_line :: "string \<Rightarrow> ping \<Rightarrow> string" where
  "influx_line agent p =
     (let tags = ''nie_sla_ping,agent_id='' @ escape_influx agent @ '',target_id='' @ escape_influx (pg_target p);
          fields = [''ok='' @ (if ping_up p then ''1'' else ''0'') @ ''i''] @
            (if ping_up p \<and> js_isFinite (ping_latency_value p) then [''latency_ms='' @ num_str (ping_latency_value p)] else [])
      in tags @ '' '' @ js_join '','' fields @ '' '' @ int_str (pg_ts p) @ ''000000000'')"

definition influx_payload :: "string \<Rightarrow> ping list \<Rightarrow> string" where
  "influx_payload agent pings = js_join [newline] (map (influx_line agent) pings)"

definition prom_labels :: "string \<Rightarrow> string \<Rightarrow> string" where
  "prom_labels agent target =
     ''agent_id='' @ [CHR 0x22] @ escape_prom agent @ [CHR 0x22] @ '',target_id='' @ [CHR 0x22] @ escape_prom target @ [CHR 0x22]"

definition prom_lines :: "string \<Rightarrow> ping \<Rightarrow> string list" where
  "prom_lines agent p =
     (let labels = prom_labels agent (pg_target p); ts = int_str (pg_ts p * 1000)
      in [''nie_sla_ping_ok{'' @ labels @ ''} '' @ (if ping_up p then ''1'' else ''0'') @ '' '' @ ts] @
         (if ping_up p \<and> js_isFinite (ping_latency_value p)
          then [''nie_sla_ping_latency_ms{'' @ labels @ ''} '' @ num_str (ping_latency_value p) @ '' '' @ ts] else []))"

definition prometheus_payload :: "string \<Rightarrow> ping list \<Rightarrow> string" where
  "prometheus_payload agent pings = js_join [newline] (concat (map (prom_lines agent) pings)) @ [newline]"

section \<open>Posting in batches\<close>

definition max_export_points_per_batch :: nat where "max_export_points_per_batch = 10000"

datatype export_error = ExportFormatInvalid | ExportUrlInvalid | ExportRequestFailed | ExportHttp int

datatype post_outcome = PostThrows | PostStatus bool int

definition post_error :: "post_outcome \<Rightarrow> export_error option" where
  "post_error r = (case r of
     PostThrows \<Rightarrow> Some ExportRequestFailed
   | PostStatus fine status \<Rightarrow> if \<not> fine \<or> 300 \<le> status then Some (ExportHttp status) else None)"

text \<open>The loop from an offset on: the bodies posted, and how it ended\<close>

function post_batches ::
  "(ping list \<Rightarrow> string) \<Rightarrow> (nat \<Rightarrow> post_outcome) \<Rightarrow> ping list \<Rightarrow> nat \<Rightarrow> string list \<times> export_error option" where
  "post_batches payload outcome points offset =
     (if length points \<le> offset then ([], None)
      else let body = payload (take max_export_points_per_batch (drop offset points))
           in case post_error (outcome (offset div max_export_points_per_batch)) of
                Some e \<Rightarrow> ([body], Some e)
              | None \<Rightarrow> (let (bodies, e) = post_batches payload outcome points (offset + max_export_points_per_batch)
                         in (body # bodies, e)))"
  by pat_completeness auto
termination
  by (relation "measure (\<lambda>(payload, outcome, points, offset). length points - offset)")
    (auto simp: max_export_points_per_batch_def)

declare post_batches.simps [simp del]

text \<open>\<open>url_ok\<close>: \<open>validateExportUrl\<close> does not throw. \<open>Inr None\<close>: the export is switched off.\<close>

definition export_telemetry_hour ::
  "(string \<Rightarrow> bool) \<Rightarrow> jsval \<Rightarrow> (nat \<Rightarrow> post_outcome) \<Rightarrow> string \<Rightarrow> ping list \<Rightarrow> string list \<times> (export_error + string option)" where
  "export_telemetry_hour url_ok env outcome agent pings =
     (let endpoint = js_trim (str_or_empty (js_get env ''TIMESERIES_EXPORT_URL'')) in
      if endpoint = [] then ([], Inr None)
      else let format = js_lower (js_trim (js_String (js_or (js_get env ''TIMESERIES_EXPORT_FORMAT'') (Str ''victoriametrics''))))
           in if format \<noteq> ''victoriametrics'' \<and> format \<noteq> ''influx'' then ([], Inl ExportFormatInvalid)
              else if \<not> url_ok endpoint then ([], Inl ExportUrlInvalid)
              else let (bodies, e) = post_batches (if format = ''influx'' then influx_payload agent else prometheus_payload agent)
                           outcome pings 0
                   in (bodies, case e of Some err \<Rightarrow> Inl err | None \<Rightarrow> Inr (Some format)))"

section \<open>Escaped values can be read back\<close>

fun read_escaped :: "(char \<Rightarrow> char) \<Rightarrow> (char \<Rightarrow> bool) \<Rightarrow> string \<Rightarrow> string \<times> string" where
  "read_escaped decode stops [] = ([], [])"
| "read_escaped decode stops (c # s) =
     (if c = backslash
      then (case s of [] \<Rightarrow> ([], []) | d # r \<Rightarrow> (let (v, rest) = read_escaped decode stops r in (decode d # v, rest)))
      else if stops c then ([], c # s)
      else (let (v, rest) = read_escaped decode stops s in (c # v, rest)))"

locale escaped_text =
  fixes code :: "char \<Rightarrow> string" and decode :: "char \<Rightarrow> char" and stops :: "char \<Rightarrow> bool" and forbidden :: "char \<Rightarrow> bool"
  assumes code_cases: "code c = [c] \<and> c \<noteq> backslash \<and> \<not> stops c \<or> (\<exists>d. code c = [backslash, d] \<and> decode d = c)"
    and code_clean: "x \<in> set (code c) \<Longrightarrow> \<not> forbidden x"
    and stop_plain: "\<not> stops backslash"
begin

lemma read_back:
  assumes "rest = [] \<or> stops (hd rest)"
  shows "read_escaped decode stops (concat (map code s) @ rest) = (s, rest)"
proof (induction s)
  case Nil
  then show ?case using assms stop_plain by (cases rest) auto
next
  case (Cons c s)
  show ?case using code_cases [of c] by (auto simp: Cons.IH)
qed

lemma clean: "x \<in> set (concat (map code s)) \<Longrightarrow> \<not> forbidden x"
  using code_clean by auto

end

definition influx_code :: "char \<Rightarrow> string" where
  "influx_code c =
     (if c = newline then [backslash, CHR ''n''] else if c = carriage then [backslash, CHR ''r'']
      else if c \<in> {backslash, CHR '','', CHR '' '', CHR ''=''} then [backslash, c] else [c])"

definition influx_decode :: "char \<Rightarrow> char" where
  "influx_decode d = (if d = CHR ''n'' then newline else if d = CHR ''r'' then carriage else d)"

definition prom_code :: "char \<Rightarrow> string" where
  "prom_code c = (if c = newline then [backslash, CHR ''n''] else if c \<in> {backslash, CHR 0x22} then [backslash, c] else [c])"

definition prom_decode :: "char \<Rightarrow> char" where
  "prom_decode d = (if d = CHR ''n'' then newline else d)"

definition influx_stop :: "char \<Rightarrow> bool" where
  "influx_stop c = (c \<in> {CHR '','', CHR '' '', CHR ''=''})"

lemmas special_chars = backslash_def newline_def carriage_def

interpretation influx: escaped_text influx_code influx_decode influx_stop "\<lambda>c. c = newline \<or> c = carriage"
  by unfold_locales (auto simp: influx_code_def influx_decode_def influx_stop_def special_chars split: if_splits)

interpretation prom: escaped_text prom_code prom_decode "\<lambda>c. c = CHR 0x22" "\<lambda>c. c = newline"
  by unfold_locales (auto simp: prom_code_def prom_decode_def special_chars split: if_splits)

lemma replace_char_append [simp]: "replace_char c r (s @ t) = replace_char c r s @ replace_char c r t"
  by (simp add: replace_char_def)

lemma replace_char_Cons: "replace_char c r (x # s) = (if x = c then r else [x]) @ replace_char c r s"
  by (simp add: replace_char_def)

lemma replace_char_Nil [simp]: "replace_char c r [] = []"
  by (simp add: replace_char_def)

lemma escape_influx_code: "escape_influx s = concat (map influx_code s)"
  by (induction s) (simp_all add: escape_influx_def influx_code_def replace_char_Cons special_chars)

lemma escape_prom_code: "escape_prom s = concat (map prom_code s)"
  by (induction s) (simp_all add: escape_prom_def prom_code_def replace_char_Cons special_chars)

text \<open>A reader of the head of an InfluxDB line, and of the label set of a Prometheus line\<close>

definition read_influx_tags :: "string \<Rightarrow> string \<times> string \<times> string" where
  "read_influx_tags line =
     (let (agent, r) = read_escaped influx_decode influx_stop (drop (length ''nie_sla_ping,agent_id='') line);
          (target, rest) = read_escaped influx_decode influx_stop (drop (length '',target_id='') r)
      in (agent, target, rest))"

definition read_prom_labels :: "string \<Rightarrow> string \<times> string" where
  "read_prom_labels labels =
     (let (agent, r) = read_escaped prom_decode (\<lambda>c. c = CHR 0x22) (drop (Suc (length ''agent_id='')) labels);
          (target, _) = read_escaped prom_decode (\<lambda>c. c = CHR 0x22) (drop (Suc (Suc (length '',target_id=''))) r)
      in (agent, target))"

text \<open>
  CX: Every exported line names its Agent and its target, whatever characters the identifiers contain: reading the tags of the
  InfluxDB line, or the labels of the Prometheus line, gives both back, and no identifier can break a line in two.
\<close>

theorem exported_identifiers_read_back:
  "(\<exists>rest. read_influx_tags (influx_line agent p) = (agent, pg_target p, CHR '' '' # rest)) \<and>
   read_prom_labels (prom_labels agent (pg_target p)) = (agent, pg_target p) \<and>
   newline \<notin> set (escape_influx agent @ prom_labels agent (pg_target p)) \<and> carriage \<notin> set (escape_influx agent)"
proof (intro conjI)
  show "\<exists>rest. read_influx_tags (influx_line agent p) = (agent, pg_target p, CHR '' '' # rest)"
    using influx.read_back [of "'',target_id='' @ _" agent] influx.read_back [of "CHR '' '' # _" "pg_target p"]
    by (simp add: read_influx_tags_def influx_line_def Let_def escape_influx_code influx_stop_def)
  show "read_prom_labels (prom_labels agent (pg_target p)) = (agent, pg_target p)"
    using prom.read_back [of "CHR 0x22 # _" agent] prom.read_back [of "[CHR 0x22]" "pg_target p"]
    by (simp add: read_prom_labels_def prom_labels_def escape_prom_code)
  have "newline \<notin> set (escape_influx agent @ prom_labels agent (pg_target p)) \<and> carriage \<notin> set (escape_influx agent)"
    using influx.clean [of newline agent] influx.clean [of carriage agent] prom.clean [of newline agent] prom.clean [of newline "pg_target p"]
    by (auto simp: prom_labels_def escape_influx_code escape_prom_code special_chars)
  then show "newline \<notin> set (escape_influx agent @ prom_labels agent (pg_target p))" "carriage \<notin> set (escape_influx agent)"
    by blast+
qed

section \<open>Every ping is posted, in order\<close>

definition batches_from :: "ping list \<Rightarrow> nat \<Rightarrow> ping list list" where
  "batches_from points k =
     map (\<lambda>i. take max_export_points_per_batch (drop (i * max_export_points_per_batch) points))
       [k..<(length points + (max_export_points_per_batch - 1)) div max_export_points_per_batch]"

lemma batches_from_step:
  assumes "k * max_export_points_per_batch < length points"
  shows "batches_from points k =
    take max_export_points_per_batch (drop (k * max_export_points_per_batch) points) # batches_from points (Suc k)"
proof -
  have "k < (length points + (max_export_points_per_batch - 1)) div max_export_points_per_batch"
    using assms by (simp add: max_export_points_per_batch_def)
  then show ?thesis by (simp add: batches_from_def upt_conv_Cons)
qed

lemma batches_from_end: "length points \<le> k * max_export_points_per_batch \<Longrightarrow> batches_from points k = []"
  by (simp add: batches_from_def max_export_points_per_batch_def)

lemma concat_batches: "concat (batches_from points k) = drop (k * max_export_points_per_batch) points"
proof (induction "length points - k * max_export_points_per_batch" arbitrary: k rule: less_induct)
  case less
  show ?case
  proof (cases "k * max_export_points_per_batch < length points")
    case True
    then have "length points - Suc k * max_export_points_per_batch < length points - k * max_export_points_per_batch"
      by (simp add: max_export_points_per_batch_def)
    from less [OF this] have ih: "concat (batches_from points (Suc k)) = drop (Suc k * max_export_points_per_batch) points" .
    show ?thesis unfolding batches_from_step [OF True] concat.simps ih
      by (metis append_take_drop_id drop_drop mult_Suc)
  next
    case False
    then show ?thesis using batches_from_end [of points k] by simp
  qed
qed

definition post_result ::
  "(ping list \<Rightarrow> string) \<Rightarrow> (nat \<Rightarrow> post_outcome) \<Rightarrow> nat \<Rightarrow> ping list list \<Rightarrow> string list \<times> export_error option" where
  "post_result payload outcome k batches =
     (case filter (\<lambda>i. post_error (outcome i) \<noteq> None) [k..<k + length batches] of
        [] \<Rightarrow> (map payload batches, None)
      | i # _ \<Rightarrow> (map payload (take (Suc i - k) batches), post_error (outcome i)))"

lemma post_result_Nil [simp]: "post_result payload outcome k [] = ([], None)"
  by (simp add: post_result_def)

lemma post_result_Cons:
  "post_result payload outcome k (b # bs) =
     (case post_error (outcome k) of
        Some e \<Rightarrow> ([payload b], Some e)
      | None \<Rightarrow> (payload b # fst (post_result payload outcome (Suc k) bs), snd (post_result payload outcome (Suc k) bs)))"
proof (cases "post_error (outcome k)")
  case None
  have u: "[k..<k + length (b # bs)] = k # [Suc k..<Suc k + length bs]" by (simp add: upt_conv_Cons del: upt_Suc)
  show ?thesis
  proof (cases "filter (\<lambda>i. post_error (outcome i) \<noteq> None) [Suc k..<Suc k + length bs]")
    case Nil
    then show ?thesis unfolding post_result_def u using None by simp
  next
    case (Cons i rest)
    then have "i \<in> set (filter (\<lambda>i. post_error (outcome i) \<noteq> None) [Suc k..<Suc k + length bs])" by simp
    then have "Suc k \<le> i" by auto
    then show ?thesis unfolding post_result_def u using None Cons by (simp add: Suc_diff_le)
  qed
qed (simp add: post_result_def upt_conv_Cons del: upt_Suc)

lemma post_batches_result:
  "post_batches payload outcome points (k * max_export_points_per_batch) = post_result payload outcome k (batches_from points k)"
proof (induction "length points - k * max_export_points_per_batch" arbitrary: k rule: less_induct)
  case less
  have pos: "0 < max_export_points_per_batch" by (simp add: max_export_points_per_batch_def)
  show ?case
  proof (cases "k * max_export_points_per_batch < length points")
    case True
    then have "length points - Suc k * max_export_points_per_batch < length points - k * max_export_points_per_batch"
      by (simp add: max_export_points_per_batch_def)
    from less [OF this]
    have ih: "post_batches payload outcome points (k * max_export_points_per_batch + max_export_points_per_batch) =
        post_result payload outcome (Suc k) (batches_from points (Suc k))"
      by (simp add: add.commute)
    show ?thesis
      by (subst post_batches.simps)
        (use True pos in \<open>simp add: not_le ih batches_from_step [OF True] post_result_Cons case_prod_unfold Let_def split: option.split\<close>)
  next
    case False
    then show ?thesis using batches_from_end [of points k] by (subst post_batches.simps) simp
  qed
qed

lemma batches_sizes: "list_all (\<lambda>b. b \<noteq> [] \<and> length b \<le> max_export_points_per_batch) (batches_from points k)"
  by (auto simp: batches_from_def list_all_iff max_export_points_per_batch_def)

text \<open>
  CX: An export posts the pings in batches of 1 to 10000 that together are exactly the pings in their order, one request after
  the other, and stops at the first request that fails, whose error is the result.
\<close>

theorem export_posts_batches_in_order:
  "concat (batches_from pings 0) = pings \<and>
   list_all (\<lambda>b. b \<noteq> [] \<and> length b \<le> 10000) (batches_from pings 0) \<and>
   post_batches payload outcome pings 0 =
     (case filter (\<lambda>i. post_error (outcome i) \<noteq> None) [0..<length (batches_from pings 0)] of
        [] \<Rightarrow> (map payload (batches_from pings 0), None)
      | i # _ \<Rightarrow> (map payload (take (Suc i) (batches_from pings 0)), post_error (outcome i)))"
  using post_batches_result [of payload outcome pings 0] concat_batches [of pings 0] batches_sizes [of pings 0]
  by (auto simp: post_result_def max_export_points_per_batch_def split: list.split)

end
