(* ===== verification/Traffic.thy ===== *)
theory Traffic
  imports AgentState
begin

text \<open>
  Traffic accounting: \<open>worker/src/traffic.js\<close> (settings, billing, the summary a reader sees) and the
  accounting part of \<open>worker/src/metrics.js\<close> (\<open>persistAgentTraffic\<close>, \<open>rebuildAgentTrafficPeriod\<close>).

  The two columns of every \<open>rx_\<close> / \<open>tx_\<close> pair are one function of the \<open>direction\<close>. The rows of one
  Agent are a \<open>traffic_db\<close>: the monthly rows by their key, in which the row of the running day lives,
  and the finished days. A write is planned from a snapshot and committed under the guards of its
  SQL statements, so that a plan may meet a database that has moved on. Counters are the
  rationals the report carries; stored bytes are integers. The target's row is a JSON value.
\<close>

section \<open>Settings\<close>

datatype traffic_mode = Total | TxOnly | RxOnly | MaxOf

definition normalize_traffic_quota_gb :: "jsval \<Rightarrow> rat" where
  "normalize_traffic_quota_gb value =
     (case js_Number value of Fin n \<Rightarrow> if n < 0 then 0 else of_int \<lfloor>min n 1048576 * 100 + 1 / 2\<rfloor> / 100 | _ \<Rightarrow> 0)"

definition normalize_traffic_mode :: "jsval \<Rightarrow> traffic_mode" where
  "normalize_traffic_mode value =
     (let mode = js_lower (js_trim (js_String (js_or value (Str ''total''))))
      in if mode = ''tx'' then TxOnly else if mode = ''rx'' then RxOnly else if mode = ''max'' then MaxOf else Total)"

definition normalize_traffic_reset_day :: "jsval \<Rightarrow> jsval \<Rightarrow> int" where
  "normalize_traffic_reset_day value fallback =
     (case js_Number value of
        Fin n \<Rightarrow> max 1 (min 31 \<lfloor>n\<rfloor>)
      | _ \<Rightarrow> (case num_or (js_Number fallback) (Fin 1) of
               Fin n \<Rightarrow> max 1 (min 31 \<lfloor>n\<rfloor>) | PosInf \<Rightarrow> 31 | _ \<Rightarrow> 1))"

datatype direction = Rx | Tx

definition traffic_billable_bytes :: "traffic_mode \<Rightarrow> (direction \<Rightarrow> rat) \<Rightarrow> rat" where
  "traffic_billable_bytes mode bytes =
     (case mode of TxOnly \<Rightarrow> bytes Tx | RxOnly \<Rightarrow> bytes Rx | MaxOf \<Rightarrow> max (bytes Rx) (bytes Tx) | Total \<Rightarrow> bytes Rx + bytes Tx)"

definition traffic_reset_day_from_target :: "int \<Rightarrow> jsval \<Rightarrow> jsval \<Rightarrow> int" where
  "traffic_reset_day_from_target now target env =
     (let v = js_get target ''traffic_reset_day'' in
      if v \<noteq> Undefined \<and> v \<noteq> Null \<and> v \<noteq> Str [] then normalize_traffic_reset_day v (JInt 1)
      else case num_or0 (js_get target ''expires_at'') of
             Fin e \<Rightarrow> if 0 < e
               then normalize_traffic_reset_day (Num (parse_number (take_last 2 (day_from_sec now env \<lfloor>e\<rfloor>)))) (JInt 1)
               else 1
           | _ \<Rightarrow> 1)"

record traffic_settings =
  st_enabled :: bool
  st_mode :: traffic_mode
  st_quota_gb :: rat
  st_quota_bytes :: int
  st_period :: traffic_period

definition traffic_settings_from_target :: "jsval \<Rightarrow> jsval \<Rightarrow> int \<Rightarrow> traffic_settings" where
  "traffic_settings_from_target target env ts =
     (let quota_gb = normalize_traffic_quota_gb (js_coalesce (js_get target ''traffic_quota_gb'') (JInt 0))
      in \<lparr> st_enabled = parse_boolean (js_get target ''traffic_enabled'') False,
           st_mode = normalize_traffic_mode (js_get target ''traffic_mode''),
           st_quota_gb = quota_gb,
           st_quota_bytes = \<lfloor>quota_gb * 1024 * 1024 * 1024 + 1 / 2\<rfloor>,
           st_period = traffic_period_from_reset_day ts env (JInt (traffic_reset_day_from_target ts target env)) ts \<rparr>)"

section \<open>The summary\<close>

record traffic_summary =
  sm_enabled :: bool
  sm_mode :: traffic_mode
  sm_period :: traffic_period
  sm_bytes :: "direction \<Rightarrow> rat"
  sm_raw_total :: rat
  sm_total :: rat
  sm_quota_bytes :: int
  sm_percent :: "rat option"
  sm_updated :: "int option"

definition summarize_traffic :: "(direction \<Rightarrow> rat) \<Rightarrow> int \<Rightarrow> traffic_settings \<Rightarrow> traffic_summary" where
  "summarize_traffic bytes updated settings =
     (let billable = traffic_billable_bytes (st_mode settings) bytes; quota = st_quota_bytes settings
      in \<lparr> sm_enabled = st_enabled settings, sm_mode = st_mode settings, sm_period = st_period settings,
           sm_bytes = bytes, sm_raw_total = bytes Rx + bytes Tx, sm_total = billable, sm_quota_bytes = quota,
           sm_percent = (if 0 < quota then Some (of_int \<lfloor>billable / of_int quota * 1000 + 1 / 2\<rfloor> / 10) else None),
           sm_updated = (if updated = 0 then None else Some updated) \<rparr>)"

definition has_traffic_baseline :: "jsval \<Rightarrow> bool" where
  "has_traffic_baseline value =
     (if value = Null \<or> value = Undefined then False
      else if (case value of Str s \<Rightarrow> js_trim s = [] | _ \<Rightarrow> False) then False
      else js_isFinite (js_Number value))"

text \<open>A nullable integer column: the baseline of a counter\<close>

lemma has_traffic_baseline_column: "has_traffic_baseline (opt_json JInt b) \<longleftrightarrow> b \<noteq> None"
  by (cases b) (simp_all add: has_traffic_baseline_def opt_json_def)

definition parse_json_object :: "(string \<Rightarrow> jsval option) \<Rightarrow> jsval \<Rightarrow> jsval" where
  "parse_json_object json value =
     (if js_is_record value then value
      else case json (js_String (js_or value (Str ''{}''))) of
             Some v \<Rightarrow> if js_is_record v then v else Obj []
           | None \<Rightarrow> Obj [])"

definition counter_of :: "jsval \<Rightarrow> direction \<Rightarrow> jsnum" where
  "counter_of net d = js_Number (js_get net (case d of Rx \<Rightarrow> ''rx_bytes'' | Tx \<Rightarrow> ''tx_bytes''))"

section \<open>Rows\<close>

record month_row =
  mr_bytes :: "direction \<Rightarrow> int"
  mr_last :: "direction \<Rightarrow> int option"
  mr_active :: "string option"
  mr_day_bytes :: "direction \<Rightarrow> int"
  mr_updated :: int

record traffic_db =
  td_months :: "(string \<times> month_row) list"
  td_days :: "(string \<times> (direction \<Rightarrow> int)) list"

text \<open>The bytes a report has counted since the last write, and the summary that includes them\<close>

definition pending_bytes :: "jsnum \<Rightarrow> int option \<Rightarrow> rat" where
  "pending_bytes current last_seen =
     (case (current, last_seen) of (Fin c, Some l) \<Rightarrow> if of_int l \<le> c then c - of_int l else 0 | _ \<Rightarrow> 0)"

definition summarize_traffic_with_pending ::
  "(jsval \<Rightarrow> int option) \<Rightarrow> (string \<Rightarrow> jsval option) \<Rightarrow> month_row option \<Rightarrow> traffic_settings \<Rightarrow> jsval \<Rightarrow> traffic_summary" where
  "summarize_traffic_with_pending date_ms json row settings metric =
     (let net = parse_json_object json (js_get metric ''net'');
          bytes = (\<lambda>d. (case row of None \<Rightarrow> 0 | Some r \<Rightarrow> of_int (mr_bytes r d)) +
            pending_bytes (counter_of net d) (case row of None \<Rightarrow> None | Some r \<Rightarrow> mr_last r d));
          updated = (if js_truthy (js_get metric ''updated_at'')
            then (case date_ms (js_get metric ''updated_at'') of None \<Rightarrow> 0 | Some ms \<Rightarrow> ms div 1000)
            else (case row of None \<Rightarrow> 0 | Some r \<Rightarrow> mr_updated r))
      in summarize_traffic bytes updated settings)"

text \<open>\<open>ORDER BY updated_at DESC, month DESC LIMIT 1\<close>\<close>

definition later_row :: "string \<times> month_row \<Rightarrow> string \<times> month_row \<Rightarrow> bool" where
  "later_row a b = (mr_updated (snd a) < mr_updated (snd b) \<or> mr_updated (snd a) = mr_updated (snd b) \<and> fst a < fst b)"

definition latest_month :: "traffic_db \<Rightarrow> (string \<times> month_row) option" where
  "latest_month db =
     (case td_months db of [] \<Rightarrow> None | x # xs \<Rightarrow> Some (fold (\<lambda>r best. if later_row best r then r else best) xs x))"

definition daily_traffic_sum :: "traffic_db \<Rightarrow> string \<Rightarrow> string \<Rightarrow> direction \<Rightarrow> int" where
  "daily_traffic_sum db from till d = max 0 (\<Sum>(day, b) \<leftarrow> td_days db. if from \<le> day \<and> day < till then b d else 0)"

definition raw_traffic_delta :: "rat \<Rightarrow> int option \<Rightarrow> int" where
  "raw_traffic_delta raw previous =
     (case previous of None \<Rightarrow> 0 | Some l \<Rightarrow> if of_int l \<le> raw then \<lfloor>raw - of_int l\<rfloor> else 0)"

definition day_in_traffic_period :: "string option \<Rightarrow> traffic_period \<Rightarrow> bool" where
  "day_in_traffic_period day p =
     (case day of None \<Rightarrow> False | Some d \<Rightarrow> d \<noteq> [] \<and> tp_start p \<le> d \<and> d < tp_end p)"

definition active_day :: "month_row option \<Rightarrow> string option" where
  "active_day row = (case row of None \<Rightarrow> None | Some r \<Rightarrow> (case mr_active r of Some (c # d) \<Rightarrow> Some (c # d) | _ \<Rightarrow> None))"

section \<open>Writing\<close>

text \<open>The guard of the statements: the row is still the one that was read\<close>

definition same_row :: "month_row \<Rightarrow> month_row \<Rightarrow> bool" where
  "same_row old r = (mr_active r = mr_active old \<and> mr_last r Rx = mr_last old Rx \<and> mr_last r Tx = mr_last old Tx)"

definition guard_holds :: "traffic_db \<Rightarrow> string \<Rightarrow> month_row \<Rightarrow> bool" where
  "guard_holds db month old = (case map_of (td_months db) month of None \<Rightarrow> False | Some r \<Rightarrow> same_row old r)"

definition day_carry :: "month_row \<Rightarrow> direction \<Rightarrow> int" where
  "day_carry r d = max 0 (mr_day_bytes r d)"

definition add_day :: "string \<Rightarrow> (direction \<Rightarrow> int) \<Rightarrow> (string \<times> (direction \<Rightarrow> int)) list \<Rightarrow> (string \<times> (direction \<Rightarrow> int)) list" where
  "add_day day b days =
     AList.update day (\<lambda>d. (case map_of days day of None \<Rightarrow> 0 | Some old \<Rightarrow> old d) + b d) days"

definition finalize_traffic_day :: "string \<Rightarrow> month_row \<Rightarrow> traffic_db \<Rightarrow> traffic_db" where
  "finalize_traffic_day month row db =
     (case active_day (Some row) of
        None \<Rightarrow> db
      | Some day \<Rightarrow>
          if day_carry row Rx = 0 \<and> day_carry row Tx = 0 \<or> \<not> guard_holds db month row then db
          else db\<lparr> td_days := add_day day (day_carry row) (td_days db) \<rparr>)"

datatype traffic_write =
    Roll_row string month_row bool "direction \<Rightarrow> int" month_row
  | New_row string "(string \<times> month_row) option" month_row

text \<open>
  \<open>Roll_row month old crossed delta new\<close> adds \<open>delta\<close> to the row it finds under the guard and takes the
  other columns of \<open>new\<close>; \<open>New_row month finished new\<close> inserts, unless the key exists.
\<close>

definition traffic_commit :: "traffic_write \<Rightarrow> traffic_db \<Rightarrow> bool \<times> traffic_db" where
  "traffic_commit w db = (case w of
     Roll_row month old crossed delta new \<Rightarrow>
       (let db1 = (if crossed then finalize_traffic_day month old db else db)
        in case map_of (td_months db1) month of
             None \<Rightarrow> (False, db1)
           | Some r \<Rightarrow>
               if \<not> same_row old r then (False, db1)
               else (True, db1\<lparr> td_months := AList.update month (new\<lparr> mr_bytes := (\<lambda>d. mr_bytes r d + delta d) \<rparr>) (td_months db1) \<rparr>))
   | New_row month finished new \<Rightarrow>
       if map_of (td_months db) month \<noteq> None then (False, db)
       else (let db1 = (case finished of None \<Rightarrow> db | Some (m, r) \<Rightarrow> finalize_traffic_day m r db)
             in (True, db1\<lparr> td_months := AList.update month new (td_months db1) \<rparr>)))"

definition traffic_flush_interval :: "jsval \<Rightarrow> int" where
  "traffic_flush_interval env = clamp (js_Number (js_or (js_get env ''TRAFFIC_PERSIST_INTERVAL_SEC'') (JInt 1800))) 300 3600"

definition latest_for :: "traffic_db \<Rightarrow> string \<Rightarrow> (string \<times> month_row) option" where
  "latest_for db month = (case map_of (td_months db) month of Some r \<Rightarrow> Some (month, r) | None \<Rightarrow> latest_month db)"

definition counters_continuous :: "month_row option \<Rightarrow> (direction \<Rightarrow> rat) \<Rightarrow> bool" where
  "counters_continuous row raw =
     (case row of None \<Rightarrow> False
      | Some r \<Rightarrow> (case (mr_last r Rx, mr_last r Tx) of
           (Some a, Some b) \<Rightarrow> of_int a \<le> raw Rx \<and> of_int b \<le> raw Tx | _ \<Rightarrow> False))"

definition traffic_plan ::
  "jsval \<Rightarrow> traffic_period \<Rightarrow> string \<Rightarrow> int \<Rightarrow> (direction \<Rightarrow> rat) \<Rightarrow> traffic_db \<Rightarrow> traffic_write option" where
  "traffic_plan env p today ts raw db =
     (let month = tp_month p;
          latest = latest_for db month;
          lrow = map_option snd latest;
          delta = (\<lambda>d. raw_traffic_delta (raw d) (case lrow of None \<Rightarrow> None | Some r \<Rightarrow> mr_last r d));
          last_now = (\<lambda>d. Some \<lfloor>raw d\<rfloor>)
      in case map_of (td_months db) month of
           Some row \<Rightarrow>
             if mr_active row = Some today \<and> counters_continuous lrow raw \<and> ts - traffic_flush_interval env < mr_updated row then None
             else let crossed = (case active_day (Some row) of None \<Rightarrow> False | Some a \<Rightarrow> a \<noteq> today);
                      fresh = (crossed \<or> active_day (Some row) = None)
                  in Some (Roll_row month row crossed delta
                       \<lparr> mr_bytes = (\<lambda>d. 0), mr_last = last_now, mr_active = Some today,
                         mr_day_bytes = (\<lambda>d. if fresh then delta d else day_carry row d + delta d), mr_updated = ts \<rparr>)
         | None \<Rightarrow>
             let carry = day_in_traffic_period (active_day lrow) p;
                 carried = (\<lambda>d. case lrow of None \<Rightarrow> 0 | Some r \<Rightarrow> if carry then day_carry r d else 0);
                 finished = (if active_day lrow \<noteq> None \<and> active_day lrow \<noteq> Some today then latest else None)
             in Some (New_row month finished
                  \<lparr> mr_bytes = (\<lambda>d. daily_traffic_sum db (tp_start p) (tp_end p) d + carried d + delta d),
                    mr_last = last_now, mr_active = Some today,
                    mr_day_bytes = (\<lambda>d. if active_day lrow = Some today then carried d + delta d else delta d),
                    mr_updated = max ts ((case lrow of None \<Rightarrow> 0 | Some r \<Rightarrow> mr_updated r + 1)) \<rparr>))"

definition traffic_cleanup :: "jsval \<Rightarrow> int \<Rightarrow> traffic_db \<Rightarrow> traffic_db" where
  "traffic_cleanup env ts db =
     db\<lparr> td_months := filter (\<lambda>(_, r). \<not> mr_updated r < ts - 400 * 86400) (td_months db),
         td_days := filter (\<lambda>(day, _). \<not> day < day_from_sec ts env (ts - 400 * 86400)) (td_days db) \<rparr>"

definition usable_counter :: "jsnum \<Rightarrow> bool" where
  "usable_counter n = (case n of Fin q \<Rightarrow> 0 \<le> q \<and> q \<le> 10 ^ 15 | _ \<Rightarrow> False)"

definition counter_value :: "jsnum \<Rightarrow> rat" where
  "counter_value n = (case n of Fin q \<Rightarrow> q | _ \<Rightarrow> 0)"

definition persist_agent_traffic :: "jsval \<Rightarrow> jsval \<Rightarrow> jsval \<Rightarrow> int \<Rightarrow> traffic_db \<Rightarrow> traffic_db" where
  "persist_agent_traffic target env net ts db =
     (let settings = traffic_settings_from_target target env ts; today = day_from_sec ts env ts;
          raw = (\<lambda>d. counter_value (counter_of net d)) in
      if \<not> st_enabled settings \<or> \<not> usable_counter (counter_of net Rx) \<or> \<not> usable_counter (counter_of net Tx) then db
      else case traffic_plan env (st_period settings) today ts raw db of
             None \<Rightarrow> db
           | Some w \<Rightarrow>
               (let (written, db1) = traffic_commit w db
                in if written \<and> active_day (map_option snd (latest_for db (tp_month (st_period settings)))) \<noteq> Some today
                   then traffic_cleanup env ts db1 else db1))"

section \<open>Rebuilding a period\<close>

definition adopted_baseline :: "int option \<Rightarrow> jsnum \<Rightarrow> int option" where
  "adopted_baseline last_seen current =
     (case last_seen of Some l \<Rightarrow> Some l | None \<Rightarrow> (case current of Fin c \<Rightarrow> Some \<lfloor>c\<rfloor> | _ \<Rightarrow> None))"

text \<open>The row it writes, and the bytes of the summary it returns\<close>

definition rebuild_agent_traffic_period ::
  "jsval \<Rightarrow> jsval \<Rightarrow> jsval \<Rightarrow> int \<Rightarrow> traffic_db \<Rightarrow> traffic_db \<times> traffic_summary" where
  "rebuild_agent_traffic_period target env net ts db =
     (let settings = traffic_settings_from_target target env ts; p = st_period settings;
          latest = latest_month db; lrow = map_option snd latest;
          include_active = day_in_traffic_period (active_day lrow) p;
          lastb = (\<lambda>d. case lrow of None \<Rightarrow> None | Some r \<Rightarrow> mr_last r d);
          pending = (\<lambda>d. if include_active
            then (case counter_of net d of Fin c \<Rightarrow> raw_traffic_delta c (lastb d) | _ \<Rightarrow> 0) else 0);
          active = (\<lambda>d. if include_active then (case lrow of None \<Rightarrow> 0 | Some r \<Rightarrow> day_carry r d) + pending d else 0);
          bytes = (\<lambda>d. daily_traffic_sum db (tp_start p) (tp_end p) d + active d);
          updated = max ts (case latest of None \<Rightarrow> 0 | Some (m, r) \<Rightarrow> mr_updated r + (if m \<noteq> tp_month p then 1 else 0));
          row = \<lparr> mr_bytes = bytes,
            mr_last = (\<lambda>d. if 0 < pending d then Some \<lfloor>counter_value (counter_of net d)\<rfloor> else adopted_baseline (lastb d) (counter_of net d)),
            mr_active = Some (case active_day lrow of Some a \<Rightarrow> a | None \<Rightarrow> day_from_sec ts env ts),
            mr_day_bytes = active, mr_updated = updated \<rparr>
      in (db\<lparr> td_months := AList.update (tp_month p) row (td_months db) \<rparr>,
          summarize_traffic (\<lambda>d. of_int (bytes d)) updated settings))"

end
