(* ===== verification/TrafficLedger.thy ===== *)
theory TrafficLedger
  imports Traffic
begin

text \<open>
  What the accounting of \<open>Traffic\<close> keeps true over any sequence of reports of one Agent: the monthly
  row is the sum of the finished days of its period and of the running day, no byte of a monotone
  counter is lost or counted twice, and rebuilding a period changes nothing.
\<close>

section \<open>The calendar of a target\<close>

definition valid_time :: "jsval \<Rightarrow> int \<Rightarrow> bool" where
  "valid_time env ts \<longleftrightarrow> 400 * 86400 < ts \<and> year_from_day (local_day ts env ts) \<le> 9998"

definition zday :: "jsval \<Rightarrow> int \<Rightarrow> int" where
  "zday env ts = (ts + timezone_offset_min env * 60) div 86400"

definition reset_day_of :: "jsval \<Rightarrow> int" where
  "reset_day_of rd = clamp (js_Number (js_or rd (JInt 1))) 1 31"

definition bill :: "jsval \<Rightarrow> jsval \<Rightarrow> int \<Rightarrow> int" where
  "bill env rd ts = billing_month (reset_day_of rd) (zday env ts)"

definition period_at :: "jsval \<Rightarrow> jsval \<Rightarrow> int \<Rightarrow> traffic_period" where
  "period_at env rd ts = traffic_period_from_reset_day ts env rd ts"

definition day_at :: "jsval \<Rightarrow> int \<Rightarrow> string" where
  "day_at env ts = day_from_sec ts env ts"

lemma reset_day_ge [simp]: "1 \<le> reset_day_of rd"
  unfolding reset_day_of_def using clamp_bounds [of 1 31] by simp

lemma zday_local: "0 < ts \<Longrightarrow> local_day ts env ts = zday env ts"
  by (simp add: local_day_def local_seconds_def zday_def)

lemma zday_mono: "t \<le> u \<Longrightarrow> zday env t \<le> zday env u"
  by (simp add: zday_def zdiv_mono1)

lemma zday_year:
  assumes "valid_time env ts"
  shows "1001 \<le> year_from_day (zday env ts)" "year_from_day (zday env ts) \<le> 9998"
proof -
  have ts: "400 * 86400 < ts" "0 < ts" using assms by (auto simp: valid_time_def)
  then show "year_from_day (zday env ts) \<le> 9998" using assms zday_local [of ts env] by (simp add: valid_time_def)
  have "0 \<le> zday env ts" using ts timezone_offset_bounds [of env] by (simp add: zday_def pos_imp_zdiv_nonneg_iff)
  then have "year_from_day 0 \<le> year_from_day (zday env ts)" by (rule year_from_day_mono)
  moreover have "year_from_day 0 = 1970" by code_simp
  ultimately show "1001 \<le> year_from_day (zday env ts)" by simp
qed

lemma day_at_iso: "valid_time env ts \<Longrightarrow> day_at env ts = iso_day (zday env ts)"
  using zday_local [of ts env] by (simp add: day_at_def day_from_sec_def valid_time_def)

lemma period_at_eq:
  assumes "valid_time env ts"
  shows "period_at env rd ts = \<lparr> tp_month = iso_day (reset_point (reset_day_of rd) (bill env rd ts)),
      tp_calendar_month = (reset_day_of rd = 1), tp_reset_day = reset_day_of rd,
      tp_start = iso_day (reset_point (reset_day_of rd) (bill env rd ts)),
      tp_end = iso_day (reset_point (reset_day_of rd) (bill env rd ts + 1)) \<rparr>"
proof -
  have l: "local_day ts env ts = zday env ts" using assms zday_local by (simp add: valid_time_def)
  show ?thesis
    unfolding period_at_def bill_def reset_day_of_def
    using traffic_period_eq [of ts env ts rd] zday_year [OF assms] by (simp add: l)
qed

lemma period_years:
  assumes "valid_time env ts"
  shows "0 \<le> year_from_day (reset_point (reset_day_of rd) (bill env rd ts))"
    "year_from_day (reset_point (reset_day_of rd) (bill env rd ts)) \<le> 9999"
    "0 \<le> year_from_day (reset_point (reset_day_of rd) (bill env rd ts + 1))"
    "year_from_day (reset_point (reset_day_of rd) (bill env rd ts + 1)) \<le> 9999"
  using year_bounds_reset [OF reset_day_ge zday_year [OF assms], of rd]
    billing_points_in_range [OF reset_day_ge zday_year [OF assms], of rd] by (simp_all add: bill_def)

lemma bill_bounds:
  "reset_point (reset_day_of rd) (bill env rd ts) \<le> zday env ts"
  "zday env ts < reset_point (reset_day_of rd) (bill env rd ts + 1)"
  unfolding bill_def by (rule billing_month_bounds [OF reset_day_ge])+

lemma bill_mono: "t \<le> u \<Longrightarrow> bill env rd t \<le> bill env rd u"
proof (rule ccontr)
  assume "t \<le> u" "\<not> bill env rd t \<le> bill env rd u"
  then have "bill env rd u + 1 \<le> bill env rd t" by simp
  then have "reset_point (reset_day_of rd) (bill env rd u + 1) \<le> reset_point (reset_day_of rd) (bill env rd t)"
    using reset_point_mono [OF reset_day_ge, of "bill env rd u + 1" "bill env rd t" rd] by (cases "bill env rd u + 1 = bill env rd t") auto
  with bill_bounds [where rd = rd and env = env and ts = t] bill_bounds [where rd = rd and env = env and ts = u] zday_mono [OF \<open>t \<le> u\<close>, of env] show False by linarith
qed

text \<open>The day of an instant lies in its own period, and in no later one\<close>

lemma own_period:
  assumes "valid_time env ts"
  shows "tp_start (period_at env rd ts) \<le> day_at env ts" "day_at env ts < tp_end (period_at env rd ts)"
  using assms zday_year [OF assms] period_years [OF assms, of rd] bill_bounds [where rd = rd and env = env and ts = ts]
  by (simp_all add: period_at_eq day_at_iso iso_day_le_iff)

lemma day_at_less:
  assumes "valid_time env t" "valid_time env u" "t \<le> u" "day_at env t \<noteq> day_at env u"
  shows "day_at env t < day_at env u"
proof -
  have "zday env t < zday env u"
    using assms zday_mono [OF assms(3), of env] by (auto simp: day_at_iso order_less_le)
  then show ?thesis
    using zday_year [OF assms(1)] zday_year [OF assms(2)] by (simp add: assms day_at_iso iso_day_le_iff)
qed

lemma same_month_iff:
  assumes "valid_time env t" "valid_time env u"
  shows "tp_month (period_at env rd t) = tp_month (period_at env rd u) \<longleftrightarrow> bill env rd t = bill env rd u"
proof -
  have "reset_point (reset_day_of rd) (bill env rd t) = reset_point (reset_day_of rd) (bill env rd u) \<longleftrightarrow> bill env rd t = bill env rd u"
    using reset_point_mono [OF reset_day_ge, of "bill env rd t" "bill env rd u" rd]
      reset_point_mono [OF reset_day_ge, of "bill env rd u" "bill env rd t" rd]
    by (cases "bill env rd t" "bill env rd u" rule: linorder_cases) auto
  then show ?thesis using assms period_years [OF assms(1), of rd] period_years [OF assms(2), of rd]
    by (simp add: period_at_eq iso_day_inject)
qed

lemma same_bill_period:
  "valid_time env t \<Longrightarrow> valid_time env u \<Longrightarrow> bill env rd t = bill env rd u \<Longrightarrow> period_at env rd t = period_at env rd u"
  by (simp add: period_at_eq)

lemma later_bill:
  assumes "valid_time env t" "valid_time env u" "bill env rd t < bill env rd u"
  shows "tp_month (period_at env rd t) < tp_month (period_at env rd u)" "day_at env t < tp_start (period_at env rd u)"
    "day_at env t \<noteq> day_at env u" "t < u"
proof -
  have r: "reset_point (reset_day_of rd) (bill env rd t) < reset_point (reset_day_of rd) (bill env rd u)"
    using reset_point_mono [OF reset_day_ge assms(3)] .
  then show "tp_month (period_at env rd t) < tp_month (period_at env rd u)"
    using assms period_years [OF assms(1), of rd] period_years [OF assms(2), of rd] by (simp add: period_at_eq iso_day_le_iff)
  have "reset_point (reset_day_of rd) (bill env rd t + 1) \<le> reset_point (reset_day_of rd) (bill env rd u)"
    using assms(3) reset_point_mono [OF reset_day_ge, of "bill env rd t + 1" "bill env rd u" rd]
    by (cases "bill env rd t + 1 = bill env rd u") auto
  then have z: "zday env t < reset_point (reset_day_of rd) (bill env rd u)" using bill_bounds [where rd = rd and env = env and ts = t] by linarith
  then show s: "day_at env t < tp_start (period_at env rd u)"
    using assms zday_year [OF assms(1)] period_years [OF assms(2), of rd] by (simp add: period_at_eq day_at_iso iso_day_le_iff)
  show "day_at env t \<noteq> day_at env u" using s own_period(1) [OF assms(2), of rd] by auto
  show "t < u" using assms(3) bill_mono [of u t env rd] by linarith
qed

text \<open>The days that are cleaned up lie before the running period\<close>

lemma cutoff_before_period:
  assumes "valid_time env ts"
  shows "day_from_sec ts env (ts - 400 * 86400) < tp_start (period_at env rd ts)"
proof -
  let ?r = "reset_day_of rd" and ?M = "bill env rd ts"
  have "zday env ts - 400 < reset_point ?r ?M"
  proof -
    have "reset_point ?r (?M + 1) < month_first (?M + 1 + 1)" "month_first ?M \<le> reset_point ?r ?M"
      by (rule reset_point_in_month [OF reset_day_ge])+
    moreover have "month_first (?M + 1 + 1) \<le> month_first ?M + 62"
      using month_first_Suc [of ?M] month_first_Suc [of "?M + 1"] month_days_bounds(2) [of ?M] month_days_bounds(2) [of "?M + 1"] by linarith
    ultimately show ?thesis using bill_bounds [where rd = rd and env = env and ts = ts] by linarith
  qed
  moreover have "local_day ts env (ts - 400 * 86400) = zday env ts - 400"
  proof -
    have "(ts - 400 * 86400 + timezone_offset_min env * 60) = (ts + timezone_offset_min env * 60) + (- 400) * 86400" by simp
    then have "(ts - 400 * 86400 + timezone_offset_min env * 60) div 86400 = (ts + timezone_offset_min env * 60) div 86400 + - 400"
      by (simp only: div_mult_self1 [of 86400 _ "- 400", simplified mult.commute] split: if_splits)
    then show ?thesis using assms by (simp add: local_day_def local_seconds_def zday_def valid_time_def)
  qed
  moreover have "0 \<le> year_from_day (zday env ts - 400)"
  proof -
    have "0 \<le> zday env ts" using assms timezone_offset_bounds [of env] by (simp add: zday_def valid_time_def pos_imp_zdiv_nonneg_iff)
    then have "year_from_day (- 400) \<le> year_from_day (zday env ts - 400)" by (intro year_from_day_mono) simp
    moreover have "year_from_day (- 400) = 1968" by code_simp
    ultimately show ?thesis by simp
  qed
  ultimately show ?thesis
    using assms period_years [OF assms, of rd] by (simp add: period_at_eq day_from_sec_def iso_day_less)
qed

section \<open>Sums over the finished days\<close>

definition period_sum :: "traffic_period \<Rightarrow> (string \<times> (direction \<Rightarrow> int)) list \<Rightarrow> direction \<Rightarrow> int" where
  "period_sum p days d = (\<Sum>(day, b) \<leftarrow> days. if tp_start p \<le> day \<and> day < tp_end p then b d else 0)"

definition days_ok :: "string \<Rightarrow> (string \<times> (direction \<Rightarrow> int)) list \<Rightarrow> bool" where
  "days_ok today days \<longleftrightarrow> distinct (map fst days) \<and> list_all (\<lambda>(day, b). day < today \<and> 0 \<le> b Rx \<and> 0 \<le> b Tx) days"

lemma direction_all: "(\<forall>d. P d) \<longleftrightarrow> P Rx \<and> P Tx"
  by (metis direction.exhaust)

lemma days_ok_nonneg: "days_ok today days \<Longrightarrow> (day, b) \<in> set days \<Longrightarrow> 0 \<le> b d \<and> day < today"
  by (cases d) (auto simp: days_ok_def list_all_iff)

lemma daily_sum_ok:
  assumes "days_ok today (td_days db)"
  shows "daily_traffic_sum db (tp_start p) (tp_end p) d = period_sum p (td_days db) d"
proof -
  have "0 \<le> period_sum p days d" if "\<forall>(day, b) \<in> set days. 0 \<le> b d" for days
    using that by (induction days) (auto simp: period_sum_def)
  then show ?thesis using days_ok_nonneg [OF assms] unfolding daily_traffic_sum_def period_sum_def [symmetric]
    by (auto simp: max_def)
qed

lemma period_sum_nil [simp]: "period_sum p [] d = 0"
  by (simp add: period_sum_def)

lemma period_sum_before:
  assumes "days_ok today days" "today \<le> tp_start p"
  shows "period_sum p days d = 0"
proof -
  have "list_all (\<lambda>(day, b). \<not> tp_start p \<le> day) days"
    using assms by (auto simp: days_ok_def list_all_iff)
  then show ?thesis by (induction days) (auto simp: period_sum_def)
qed

lemma period_sum_update:
  "distinct (map fst days) \<Longrightarrow> period_sum p (AList.update day b days) d =
     period_sum p days d + (if tp_start p \<le> day \<and> day < tp_end p then b d - (case map_of days day of None \<Rightarrow> 0 | Some old \<Rightarrow> old d) else 0)"
proof (induction days)
  case (Cons x days)
  obtain day' b' where x: "x = (day', b')" by (cases x)
  show ?case
  proof (cases "day' = day")
    case True
    then have "map_of days day = None" using Cons.prems by (auto simp: x map_of_eq_None_iff)
    then show ?thesis using True by (simp add: x period_sum_def)
  next
    case False
    then show ?thesis using Cons by (simp add: x period_sum_def)
  qed
qed (simp add: period_sum_def)

lemma add_day_sum:
  assumes "days_ok today days"
  shows "period_sum p (add_day day b days) d = period_sum p days d + (if tp_start p \<le> day \<and> day < tp_end p then b d else 0)"
  using assms period_sum_update [of days p day] by (auto simp: add_day_def days_ok_def split: option.split)

lemma add_day_ok:
  assumes "days_ok today days" "day < today'" "today \<le> today'" "0 \<le> b Rx" "0 \<le> b Tx"
  shows "days_ok today' (add_day day b days)"
proof -
  have "0 \<le> (case map_of days day of None \<Rightarrow> 0 | Some old \<Rightarrow> old d)" for d
    using days_ok_nonneg [OF assms(1) map_of_SomeD, of day _ d] by (auto split: option.split)
  then show ?thesis
    using assms set_update_subset [of day _ days]
    unfolding days_ok_def add_day_def list_all_iff by (fastforce simp: distinct_update)
qed

lemma days_ok_later: "days_ok today days \<Longrightarrow> today \<le> today' \<Longrightarrow> days_ok today' days"
  by (fastforce simp: days_ok_def list_all_iff)

lemma period_sum_cleanup:
  assumes "cutoff \<le> tp_start p"
  shows "period_sum p (filter (\<lambda>(day, _). \<not> day < cutoff) days) d = period_sum p days d"
proof -
  have early: "day < cutoff \<Longrightarrow> \<not> tp_start p \<le> day" for day using assms by (metis leD order_trans)
  show ?thesis by (induction days) (auto simp: period_sum_def dest: early)
qed

section \<open>The invariant of the ledger\<close>

text \<open>\<open>u\<close> is the time of the last write\<close>

definition ledger :: "jsval \<Rightarrow> jsval \<Rightarrow> int \<Rightarrow> month_row \<Rightarrow> traffic_db \<Rightarrow> bool" where
  "ledger env rd u r db \<longleftrightarrow>
     valid_time env u \<and> map_of (td_months db) (tp_month (period_at env rd u)) = Some r \<and>
     distinct (map fst (td_months db)) \<and> days_ok (day_at env u) (td_days db) \<and>
     mr_active r = Some (day_at env u) \<and> (\<forall>d. mr_last r d \<noteq> None \<and> 0 \<le> mr_day_bytes r d) \<and>
     u \<le> mr_updated r \<and> mr_updated r \<le> u + 1 \<and>
     (\<forall>m' r'. (m', r') \<in> set (td_months db) \<longrightarrow> m' \<noteq> tp_month (period_at env rd u) \<longrightarrow>
        m' < tp_month (period_at env rd u) \<and> mr_updated r' \<le> u) \<and>
     (\<forall>d. mr_bytes r d = period_sum (period_at env rd u) (td_days db) d + mr_day_bytes r d)"

definition traffic_inv :: "jsval \<Rightarrow> jsval \<Rightarrow> int \<Rightarrow> traffic_db \<Rightarrow> bool" where
  "traffic_inv env rd t db \<longleftrightarrow> td_months db = [] \<and> td_days db = [] \<or> (\<exists>u r. u \<le> t \<and> ledger env rd u r db)"

lemma latest_is_max:
  assumes "map_of ms m = Some r" "distinct (map fst ms)"
    and "\<And>m' r'. (m', r') \<in> set ms \<Longrightarrow> m' \<noteq> m \<Longrightarrow> later_row (m', r') (m, r)"
  shows "latest_month \<lparr> td_months = ms, td_days = days \<rparr> = Some (m, r)"
proof -
  let ?f = "\<lambda>r best. if later_row best r then r else best"
  have irrefl: "\<not> later_row a a" for a by (simp add: later_row_def)
  have asym: "\<not> later_row (m, r) e" if "e \<in> set ms" for e
  proof (cases "fst e = m")
    case True
    with that assms(1,2) have "e = (m, r)" by (metis eq_key_imp_eq_value map_of_SomeD prod.collapse)
    then show ?thesis using irrefl by simp
  next
    case False
    with assms(3) [of "fst e" "snd e"] that show ?thesis by (auto simp: later_row_def)
  qed
  have stay: "set xs \<subseteq> set ms \<Longrightarrow> fold ?f xs (m, r) = (m, r)" for xs
    by (induction xs) (auto simp: asym)
  have reach: "set xs \<subseteq> set ms \<Longrightarrow> (m, r) \<in> set xs \<Longrightarrow> a \<in> set ms \<Longrightarrow> fold ?f xs a = (m, r)" for xs a
  proof (induction xs arbitrary: a)
    case (Cons x xs)
    show ?case
    proof (cases "x = (m, r)")
      case True
      have "later_row a x \<or> a = x"
        using True assms(1-3) Cons.prems(3) by (metis eq_key_imp_eq_value map_of_SomeD prod.collapse)
      then show ?thesis using stay [of xs] Cons.prems True by auto
    next
      case False
      with Cons show ?thesis by auto
    qed
  qed simp
  obtain x xs where ms: "ms = x # xs" using assms(1) by (cases ms) auto
  have "(m, r) \<in> set ms" using assms(1) by (rule map_of_SomeD)
  then have "fold ?f xs x = (m, r)"
    using stay [of xs] reach [of xs x] by (auto simp: ms)
  then show ?thesis by (simp add: latest_month_def ms)
qed

lemma ledger_latest:
  assumes "ledger env rd u r db"
  shows "latest_month db = Some (tp_month (period_at env rd u), r)"
proof -
  have "latest_month \<lparr> td_months = td_months db, td_days = td_days db \<rparr> = Some (tp_month (period_at env rd u), r)"
  proof (rule latest_is_max)
    fix m' r' assume "(m', r') \<in> set (td_months db)" "m' \<noteq> tp_month (period_at env rd u)"
    then have "m' < tp_month (period_at env rd u)" "mr_updated r' \<le> u" "u \<le> mr_updated r"
      using assms unfolding ledger_def by blast+
    then show "later_row (m', r') (tp_month (period_at env rd u), r)" by (auto simp: later_row_def)
  qed (use assms in \<open>auto simp: ledger_def\<close>)
  then show ?thesis by (simp add: latest_month_def)
qed

section \<open>One report\<close>

text \<open>A report with usable counters for a target whose accounting is on\<close>

definition traffic_step :: "jsval \<Rightarrow> jsval \<Rightarrow> int \<Rightarrow> (direction \<Rightarrow> rat) \<Rightarrow> traffic_db \<Rightarrow> traffic_db" where
  "traffic_step env rd ts raw db =
     (case traffic_plan env (period_at env rd ts) (day_at env ts) ts raw db of
        None \<Rightarrow> db
      | Some w \<Rightarrow>
          (let (written, db1) = traffic_commit w db
           in if written \<and> active_day (map_option snd (latest_for db (tp_month (period_at env rd ts)))) \<noteq> Some (day_at env ts)
              then traffic_cleanup env ts db1 else db1))"

lemma day_at_nonempty: "valid_time env t \<Longrightarrow> day_at env t \<noteq> []"
  using zday_year [of env t] by (simp add: day_at_iso iso_day_digits)

lemma active_day_Some: "mr_active r = Some a \<Longrightarrow> a \<noteq> [] \<Longrightarrow> active_day (Some r) = Some a"
  by (cases a) (simp_all add: active_day_def)

lemma ledger_active: "ledger env rd u r db \<Longrightarrow> active_day (Some r) = Some (day_at env u)"
  by (rule active_day_Some) (auto simp: ledger_def dest: day_at_nonempty)

lemma ledger_carry: "ledger env rd u r db \<Longrightarrow> day_carry r d = mr_day_bytes r d"
  by (simp add: ledger_def day_carry_def)

lemma raw_delta_nonneg: "0 \<le> raw_traffic_delta raw previous"
  by (simp add: raw_traffic_delta_def le_floor_iff split: option.split)

lemma finalize_ledger:
  assumes "ledger env rd u r db"
  defines "db1 \<equiv> finalize_traffic_day (tp_month (period_at env rd u)) r db"
  shows "td_months db1 = td_months db"
    "period_sum p (td_days db1) d = period_sum p (td_days db) d +
       (if tp_start p \<le> day_at env u \<and> day_at env u < tp_end p then mr_day_bytes r d else 0)"
    "day_at env u < today \<Longrightarrow> days_ok today (td_days db1)"
proof -
  note act = ledger_active [OF assms(1)] and carry = ledger_carry [OF assms(1)]
  have ok: "days_ok (day_at env u) (td_days db)" and nn: "0 \<le> mr_day_bytes r d" for d using assms(1) by (simp_all add: ledger_def)
  have g: "guard_holds db (tp_month (period_at env rd u)) r" using assms(1) by (simp add: ledger_def guard_holds_def same_row_def)
  have days: "td_days db1 = (if mr_day_bytes r Rx = 0 \<and> mr_day_bytes r Tx = 0 then td_days db else add_day (day_at env u) (day_carry r) (td_days db))"
    by (simp add: db1_def finalize_traffic_day_def act g carry)
  have zero: "mr_day_bytes r Rx = 0 \<and> mr_day_bytes r Tx = 0 \<Longrightarrow> mr_day_bytes r d = 0" by (cases d) simp_all
  show "td_months db1 = td_months db" by (simp add: db1_def finalize_traffic_day_def split: option.split)
  show "period_sum p (td_days db1) d = period_sum p (td_days db) d +
       (if tp_start p \<le> day_at env u \<and> day_at env u < tp_end p then mr_day_bytes r d else 0)"
    using zero by (simp add: days add_day_sum [OF ok] carry)
  show "days_ok today (td_days db1)" if "day_at env u < today"
    using that add_day_ok [OF ok that, of "day_carry r"] days_ok_later [OF ok, of today] nn by (simp add: days carry)
qed

lemma ledger_cleanup:
  assumes "ledger env rd u r db"
  shows "ledger env rd u r (traffic_cleanup env u db)"
proof -
  let ?keep = "\<lambda>(_, r). \<not> mr_updated r < u - 400 * 86400"
  have v: "valid_time env u" using assms by (simp add: ledger_def)
  have m: "map_of (filter ?keep ms) k = Some r" if "map_of ms k = Some r" "distinct (map fst ms)" for ms k
    using that assms
  proof (induction ms)
    case (Cons x ms)
    then show ?case by (cases x) (auto simp: ledger_def map_of_eq_None_iff split: if_splits)
  qed simp
  have "period_sum (period_at env rd u) (td_days (traffic_cleanup env u db)) d = period_sum (period_at env rd u) (td_days db) d" for d
    unfolding traffic_cleanup_def using period_sum_cleanup [of "day_from_sec u env (u - 400 * 86400)" "period_at env rd u"]
      cutoff_before_period [OF v, of rd] by simp
  moreover have "days_ok (day_at env u) (td_days (traffic_cleanup env u db))"
    using assms by (auto simp: ledger_def days_ok_def traffic_cleanup_def list_all_iff distinct_map_filter)
  moreover have "distinct (map fst (td_months (traffic_cleanup env u db)))"
    using assms by (auto simp: ledger_def traffic_cleanup_def distinct_map_filter)
  moreover have "map_of (td_months (traffic_cleanup env u db)) (tp_month (period_at env rd u)) = Some r"
  proof -
    have "map_of (td_months db) (tp_month (period_at env rd u)) = Some r" "distinct (map fst (td_months db))"
      using assms unfolding ledger_def by blast+
    from m [OF this] show ?thesis by (simp add: traffic_cleanup_def)
  qed
  moreover have "set (td_months (traffic_cleanup env u db)) \<subseteq> set (td_months db)" by (auto simp: traffic_cleanup_def)
  ultimately show ?thesis using assms unfolding ledger_def by (simp only: subset_iff) blast
qed

text \<open>What a report makes of the running row, when it is written\<close>

definition next_row :: "jsval \<Rightarrow> jsval \<Rightarrow> int \<Rightarrow> month_row \<Rightarrow> int \<Rightarrow> (direction \<Rightarrow> rat) \<Rightarrow> traffic_db \<Rightarrow> month_row" where
  "next_row env rd u r ts raw db =
     (let delta = (\<lambda>d. raw_traffic_delta (raw d) (mr_last r d)); same = (bill env rd u = bill env rd ts)
      in \<lparr> mr_bytes = (\<lambda>d. if same then mr_bytes r d + delta d else delta d),
           mr_last = (\<lambda>d. Some \<lfloor>raw d\<rfloor>), mr_active = Some (day_at env ts),
           mr_day_bytes = (\<lambda>d. if day_at env u = day_at env ts then mr_day_bytes r d + delta d else delta d),
           mr_updated = (if same then ts else max ts (mr_updated r + 1)) \<rparr>)"

definition next_months :: "jsval \<Rightarrow> jsval \<Rightarrow> int \<Rightarrow> month_row \<Rightarrow> int \<Rightarrow> (direction \<Rightarrow> rat) \<Rightarrow> traffic_db \<Rightarrow> (string \<times> month_row) list" where
  "next_months env rd u r ts raw db = AList.update (tp_month (period_at env rd ts)) (next_row env rd u r ts raw db) (td_months db)"

lemma same_day_bill:
  assumes "valid_time env u" "valid_time env ts" "day_at env u = day_at env ts"
  shows "bill env rd u = bill env rd ts"
proof -
  have "zday env u = zday env ts"
    using assms zday_year [OF assms(1)] zday_year [OF assms(2)] by (simp add: day_at_iso iso_day_inject)
  then show ?thesis by (simp add: bill_def)
qed

definition base_db :: "jsval \<Rightarrow> jsval \<Rightarrow> int \<Rightarrow> month_row \<Rightarrow> int \<Rightarrow> (direction \<Rightarrow> rat) \<Rightarrow> traffic_db \<Rightarrow> traffic_db" where
  "base_db env rd u r ts raw db =
     (if day_at env u = day_at env ts then db else finalize_traffic_day (tp_month (period_at env rd u)) r db)
       \<lparr> td_months := next_months env rd u r ts raw db \<rparr>"

lemma traffic_step_eq:
  assumes l: "ledger env rd u r db" and v: "valid_time env ts" and le: "u \<le> ts"
  shows "traffic_step env rd ts raw db = db \<or>
    traffic_step env rd ts raw db = (if day_at env u = day_at env ts then base_db env rd u r ts raw db
      else traffic_cleanup env ts (base_db env rd u r ts raw db))"
proof -
  note act = ledger_active [OF l] and carry = ledger_carry [OF l] and fin = finalize_ledger [OF l]
  have vu: "valid_time env u" using l by (simp add: ledger_def)
  have found: "map_of (td_months db) (tp_month (period_at env rd u)) = Some r" using l by (simp add: ledger_def)
  have nn: "max 0 (mr_day_bytes r d) = mr_day_bytes r d" for d using l by (simp add: ledger_def)
  show ?thesis
  proof (cases "bill env rd u = bill env rd ts")
    case True
    then have P: "period_at env rd ts = period_at env rd u" using same_bill_period [OF vu v] by simp
    show ?thesis
      by (auto simp: traffic_step_def traffic_plan_def P found latest_for_def act traffic_commit_def fin(1) same_row_def base_db_def
          next_months_def next_row_def True carry Let_def split: option.splits)
  next
    case False
    then have b: "bill env rd u < bill env rd ts" using bill_mono [OF le, of env rd] by simp
    note later = later_bill [OF vu v b]
    have none: "map_of (td_months db) (tp_month (period_at env rd ts)) = None"
      using l later(1) unfolding ledger_def map_of_eq_None_iff by (force dest: order.strict_trans)
    have out: "\<not> day_in_traffic_period (Some (day_at env u)) (period_at env rd ts)"
      using later(2) by (auto simp: day_in_traffic_period_def)
    have z: "daily_traffic_sum db (tp_start (period_at env rd ts)) (tp_end (period_at env rd ts)) d = 0" for d
      using l later(2) daily_sum_ok [of "day_at env u" db "period_at env rd ts" d] period_sum_before [of "day_at env u" "td_days db" "period_at env rd ts" d]
      by (simp add: ledger_def)
    show ?thesis
      using later(3)
      by (simp add: traffic_step_def traffic_plan_def none latest_for_def ledger_latest [OF l] act out traffic_commit_def fin(1)
          base_db_def next_months_def next_row_def False z Let_def)
  qed
qed

lemma base_db_ledger:
  assumes l: "ledger env rd u r db" and v: "valid_time env ts" and le: "u \<le> ts"
  shows "ledger env rd ts (next_row env rd u r ts raw db) (base_db env rd u r ts raw db)"
proof -
  note fin = finalize_ledger [OF l]
  let ?r = "next_row env rd u r ts raw db" and ?db = "base_db env rd u r ts raw db"
  have vu: "valid_time env u" and nn: "0 \<le> mr_day_bytes r d" and up: "u \<le> mr_updated r" "mr_updated r \<le> u + 1"
    and sums: "mr_bytes r d = period_sum (period_at env rd u) (td_days db) d + mr_day_bytes r d" for d
    using l by (simp_all add: ledger_def)
  have months: "td_months ?db = next_months env rd u r ts raw db" by (simp add: base_db_def)
  have keys: "m' < tp_month (period_at env rd ts) \<and> mr_updated r' \<le> ts"
    if "(m', r') \<in> set (td_months db)" "m' \<noteq> tp_month (period_at env rd ts)" for m' r'
  proof (cases "bill env rd u = bill env rd ts")
    case True
    then have "period_at env rd ts = period_at env rd u" using same_bill_period [OF vu v] by simp
    with that l le show ?thesis unfolding ledger_def by fastforce
  next
    case False
    then have b: "bill env rd u < bill env rd ts" using bill_mono [OF le, of env rd] by simp
    note later = later_bill [OF vu v b]
    show ?thesis
    proof (cases "m' = tp_month (period_at env rd u)")
      case True
      then have "r' = r" using that l unfolding ledger_def by (metis eq_key_imp_eq_value map_of_SomeD)
      with True later up show ?thesis by simp
    next
      case False
      with that l have "m' < tp_month (period_at env rd u)" "mr_updated r' \<le> u" unfolding ledger_def by blast+
      with later show ?thesis by auto
    qed
  qed
  have days: "days_ok (day_at env ts) (td_days ?db)"
    using l fin(3) day_at_less [OF vu v le] by (auto simp: base_db_def ledger_def)
  have total: "mr_bytes ?r d = period_sum (period_at env rd ts) (td_days ?db) d + mr_day_bytes ?r d" for d
  proof (cases "bill env rd u = bill env rd ts")
    case True
    then have P: "period_at env rd ts = period_at env rd u" using same_bill_period [OF vu v] by simp
    show ?thesis
      using sums [of d] fin(2) [of "period_at env rd u" d] own_period [OF vu, of rd]
      by (auto simp: base_db_def next_row_def True P)
  next
    case False
    then have b: "bill env rd u < bill env rd ts" using bill_mono [OF le, of env rd] by simp
    note later = later_bill [OF vu v b]
    have "period_sum (period_at env rd ts) (td_days db) d = 0"
      using period_sum_before [of "day_at env u" "td_days db"] later(2) l by (simp add: ledger_def)
    then show ?thesis
      using fin(2) [of "period_at env rd ts" d] later(2,3) False by (auto simp: base_db_def next_row_def Let_def)
  qed
  have nonneg: "0 \<le> mr_day_bytes ?r d" for d
    using nn [of d] raw_delta_nonneg [of "raw d" "mr_last r d"] by (simp add: next_row_def Let_def)
  have updated: "ts \<le> mr_updated ?r \<and> mr_updated ?r \<le> ts + 1"
  proof (cases "bill env rd u = bill env rd ts")
    case False
    then have "u < ts" using later_bill(4) [OF vu v, of rd] bill_mono [OF le, of env rd] by auto
    with False up show ?thesis by (simp add: next_row_def)
  qed (simp add: next_row_def)
  show ?thesis
    unfolding ledger_def months
  proof (intro conjI allI impI)
    show "map_of (next_months env rd u r ts raw db) (tp_month (period_at env rd ts)) = Some ?r"
      by (simp add: next_months_def update_conv')
    show "distinct (map fst (next_months env rd u r ts raw db))"
      using l by (simp add: next_months_def distinct_update ledger_def)
    fix m' r' assume "(m', r') \<in> set (next_months env rd u r ts raw db)" "m' \<noteq> tp_month (period_at env rd ts)"
    then have "(m', r') \<in> set (td_months db)"
      using set_update_subset [of "tp_month (period_at env rd ts)" ?r "td_months db"] by (auto simp: next_months_def)
    with keys \<open>m' \<noteq> _\<close> show "m' < tp_month (period_at env rd ts)" "mr_updated r' \<le> ts" by blast+
  qed (use v days total nonneg updated in \<open>simp_all add: next_row_def Let_def\<close>)
qed

lemma first_report:
  fixes raw :: "direction \<Rightarrow> rat" and db :: traffic_db and env rd :: jsval and ts :: int
  assumes "td_months db = []" "td_days db = []" "valid_time env ts"
  defines "r \<equiv> \<lparr> mr_bytes = (\<lambda>d. 0), mr_last = (\<lambda>d. Some \<lfloor>raw d\<rfloor>), mr_active = Some (day_at env ts),
      mr_day_bytes = (\<lambda>d. 0), mr_updated = ts \<rparr>"
  shows "ledger env rd ts r (traffic_step env rd ts raw db)"
    "td_months (traffic_step env rd ts raw db) = [(tp_month (period_at env rd ts), r)]"
proof -
  have pos: "0 < ts" using assms(3) by (simp add: valid_time_def)
  have step: "traffic_step env rd ts raw db = traffic_cleanup env ts \<lparr> td_months = [(tp_month (period_at env rd ts), r)], td_days = [] \<rparr>"
    using assms(1,2) pos
    by (cases db) (simp add: traffic_step_def traffic_plan_def latest_for_def latest_month_def active_day_def day_in_traffic_period_def
        daily_traffic_sum_def raw_traffic_delta_def traffic_commit_def r_def)
  have l: "ledger env rd ts r \<lparr> td_months = [(tp_month (period_at env rd ts), r)], td_days = [] \<rparr>"
    using assms(3) by (simp add: ledger_def r_def days_ok_def)
  show "ledger env rd ts r (traffic_step env rd ts raw db)" unfolding step by (rule ledger_cleanup [OF l])
  show "td_months (traffic_step env rd ts raw db) = [(tp_month (period_at env rd ts), r)]"
    unfolding step by (simp add: traffic_cleanup_def r_def)
qed

lemma ledger_step:
  assumes "ledger env rd u r db" "valid_time env ts" "u \<le> ts"
  shows "\<exists>u' r'. u' \<le> ts \<and> ledger env rd u' r' (traffic_step env rd ts raw db)"
  using traffic_step_eq [OF assms, of raw] base_db_ledger [OF assms, of raw] ledger_cleanup [OF base_db_ledger [OF assms, of raw]] assms(1,3)
  by (metis order_refl)

lemma traffic_step_inv:
  assumes "traffic_inv env rd t db" "valid_time env ts" "t \<le> ts"
  shows "traffic_inv env rd ts (traffic_step env rd ts raw db)"
proof -
  consider (empty) "td_months db = []" "td_days db = []" | (row) u r where "u \<le> t" "ledger env rd u r db"
    using assms(1) unfolding traffic_inv_def by blast
  then show ?thesis
  proof cases
    case empty
    from first_report(1) [OF this assms(2)] show ?thesis unfolding traffic_inv_def by blast
  next
    case row
    then show ?thesis using ledger_step [OF row(2) assms(2)] assms(3) unfolding traffic_inv_def by (meson order_trans)
  qed
qed

section \<open>Any sequence of reports\<close>

definition empty_traffic :: traffic_db where "empty_traffic = \<lparr> td_months = [], td_days = [] \<rparr>"

definition traffic_run :: "jsval \<Rightarrow> jsval \<Rightarrow> (int \<times> jsval) list \<Rightarrow> traffic_db" where
  "traffic_run target env reports = fold (\<lambda>(ts, net). persist_agent_traffic target env net ts) reports empty_traffic"

definition report_ok :: "jsval \<Rightarrow> int \<times> jsval \<Rightarrow> bool" where
  "report_ok env = (\<lambda>(ts, net). valid_time env ts)"

definition usable_net :: "jsval \<Rightarrow> bool" where
  "usable_net net = (usable_counter (counter_of net Rx) \<and> usable_counter (counter_of net Tx))"

definition net_counter :: "jsval \<Rightarrow> direction \<Rightarrow> rat" where
  "net_counter net d = counter_value (counter_of net d)"

definition target_reset :: "int \<Rightarrow> jsval" where "target_reset k = JInt (max 1 (min 31 k))"

lemma settings_period:
  assumes "js_get target ''traffic_reset_day'' = JInt k"
  shows "st_period (traffic_settings_from_target target env ts) = period_at env (target_reset k) ts"
proof -
  have "traffic_reset_day_from_target ts target env = max 1 (min 31 k)"
    using assms by (simp add: traffic_reset_day_from_target_def normalize_traffic_reset_day_def Let_def)
  then show ?thesis by (simp add: traffic_settings_from_target_def Let_def period_at_def target_reset_def)
qed

lemma persist_step:
  assumes "js_get target ''traffic_reset_day'' = JInt k"
  shows "persist_agent_traffic target env net ts db =
    (if parse_boolean (js_get target ''traffic_enabled'') False \<and> usable_net net
     then traffic_step env (target_reset k) ts (net_counter net) db else db)"
proof -
  have e: "st_enabled (traffic_settings_from_target target env ts) = parse_boolean (js_get target ''traffic_enabled'') False"
    by (simp add: traffic_settings_from_target_def Let_def)
  have n: "(\<lambda>d. counter_value (counter_of net d)) = net_counter net" by (simp add: net_counter_def fun_eq_iff)
  show ?thesis
    unfolding persist_agent_traffic_def Let_def settings_period [OF assms] e n day_at_def [symmetric]
    unfolding traffic_step_def Let_def by (simp add: usable_net_def)
qed

lemma traffic_run_inv:
  assumes "js_get target ''traffic_reset_day'' = JInt k"
    and "sorted (map fst (reports))" "list_all (report_ok env) reports"
  shows "\<exists>t. traffic_inv env (target_reset k) t (traffic_run target env reports) \<and> (reports \<noteq> [] \<longrightarrow> t = fst (last reports))"
  using assms(2,3)
proof (induction reports rule: rev_induct)
  case Nil
  show ?case by (simp add: traffic_run_def traffic_inv_def empty_traffic_def)
next
  case (snoc x xs)
  obtain ts net where x: "x = (ts, net)" by (cases x)
  from snoc obtain t where t: "traffic_inv env (target_reset k) t (traffic_run target env xs)" "xs \<noteq> [] \<longrightarrow> t = fst (last xs)"
    by (auto simp: sorted_append)
  have v: "valid_time env ts" using snoc.prems(2) by (simp add: x report_ok_def)
  have run: "traffic_run target env (xs @ [x]) = persist_agent_traffic target env net ts (traffic_run target env xs)"
    by (simp add: traffic_run_def x)
  show ?case
  proof (cases "xs = []")
    case True
    then have e: "traffic_inv env (target_reset k) ts (traffic_run target env xs)" by (simp add: traffic_run_def traffic_inv_def empty_traffic_def)
    then show ?thesis using traffic_step_inv [OF e v order_refl] True
      by (intro exI [of _ ts], unfold run persist_step [OF assms(1)]) (simp add: x)
  next
    case False
    then have "t \<le> ts" using t(2) snoc.prems(1) last_in_set [OF False] by (auto simp: sorted_append x)
    moreover from this have "traffic_inv env (target_reset k) ts (traffic_run target env xs)"
      using t(1) unfolding traffic_inv_def by (meson order_trans)
    ultimately show ?thesis using traffic_step_inv [OF t(1) v] by (intro exI [of _ ts], unfold run persist_step [OF assms(1)]) (simp add: x)
  qed
qed

text \<open>
  CX: After any sequence of reports in time order, the newest monthly row belongs to the period of its running day, and its total
  is the sum of the finished days of that period and of the running day: neither the throttle, nor the change of the day, nor
  the change of the period or the clean-up of old rows breaks the books.
\<close>

theorem traffic_month_is_sum_of_days:
  assumes "js_get target ''traffic_reset_day'' = JInt k" "sorted (map fst reports)" "list_all (report_ok env) reports"
    and "latest_month (traffic_run target env reports) = Some (m, r)"
  shows "\<exists>u. u \<le> fst (last reports) \<and> m = tp_month (period_at env (target_reset k) u) \<and> mr_active r = Some (day_at env u) \<and>
    mr_bytes r d = daily_traffic_sum (traffic_run target env reports) (tp_start (period_at env (target_reset k) u))
      (tp_end (period_at env (target_reset k) u)) d + mr_day_bytes r d"
proof -
  obtain t where t: "traffic_inv env (target_reset k) t (traffic_run target env reports)" "reports \<noteq> [] \<longrightarrow> t = fst (last reports)"
    using traffic_run_inv [OF assms(1-3)] by blast
  have "reports \<noteq> []" using assms(4) by (auto simp: traffic_run_def empty_traffic_def latest_month_def)
  moreover obtain u r' where u: "u \<le> t" "ledger env (target_reset k) u r' (traffic_run target env reports)"
    using t(1) assms(4) unfolding traffic_inv_def by (auto simp: latest_month_def)
  moreover have "m = tp_month (period_at env (target_reset k) u)" "r' = r" using ledger_latest [OF u(2)] assms(4) by simp_all
  moreover have "days_ok (day_at env u) (td_days (traffic_run target env reports))" "mr_active r' = Some (day_at env u)"
    "mr_bytes r' d = period_sum (period_at env (target_reset k) u) (td_days (traffic_run target env reports)) d + mr_day_bytes r' d"
    using u(2) by (simp_all add: ledger_def)
  ultimately show ?thesis using daily_sum_ok t(2) by fastforce
qed

definition demo_target :: jsval where
  "demo_target = Obj [(''traffic_enabled'', Bool True), (''traffic_reset_day'', JInt 1)]"

definition demo_net :: "int \<Rightarrow> int \<Rightarrow> jsval" where
  "demo_net a b = Obj [(''rx_bytes'', JInt a), (''tx_bytes'', JInt b)]"

text \<open>1 March 2026, then two reports on the next day\<close>

definition demo_reports :: "(int \<times> jsval) list" where
  "demo_reports = [(1772323200, demo_net 1000 10), (1772409600, demo_net 1500 30), (1772413200, demo_net 1700 60)]"

lemma demo_valid: "list_all (report_ok (Obj [])) demo_reports" "sorted (map fst demo_reports)"
  "js_get demo_target ''traffic_reset_day'' = JInt 1"
  by code_simp+

lemma demo_counters [simp]:
  "counter_of (demo_net a b) d = jsint (case d of Rx \<Rightarrow> a | Tx \<Rightarrow> b)" "net_counter (demo_net a b) d = of_int (case d of Rx \<Rightarrow> a | Tx \<Rightarrow> b)"
  by (cases d; simp add: counter_of_def demo_net_def js_get_def net_counter_def counter_value_def)+

lemma demo_usable: "0 \<le> a \<Longrightarrow> a \<le> 10 ^ 6 \<Longrightarrow> 0 \<le> b \<Longrightarrow> b \<le> 10 ^ 6 \<Longrightarrow> usable_net (demo_net a b)"
  by (simp add: usable_net_def usable_counter_def)

lemma demo_persist:
  assumes "0 \<le> a" "a \<le> 10 ^ 6" "0 \<le> b" "b \<le> 10 ^ 6"
  shows "persist_agent_traffic demo_target (Obj []) (demo_net a b) ts db = traffic_step (Obj []) (target_reset 1) ts (net_counter (demo_net a b)) db"
  using demo_usable [OF assms] by (simp add: persist_step [OF demo_valid(3)]) (simp add: demo_target_def parse_boolean_def)

lemma demo_ledger: "\<exists>u r. u \<le> 1772413200 \<and> ledger (Obj []) (target_reset 1) u r (traffic_run demo_target (Obj []) demo_reports)"
proof -
  let ?e = "Obj []" and ?rd = "target_reset 1"
  have v: "valid_time ?e 1772323200" "valid_time ?e 1772409600" "valid_time ?e 1772413200"
    using demo_valid(1) by (simp_all add: demo_reports_def report_ok_def)
  obtain r where l1: "ledger ?e ?rd 1772323200 r (traffic_step ?e ?rd 1772323200 (net_counter (demo_net 1000 10)) empty_traffic)"
    using first_report(1) [of empty_traffic, OF _ _ v(1)] by (simp add: empty_traffic_def) blast
  from ledger_step [OF l1 v(2), of "net_counter (demo_net 1500 30)"] obtain u2 r2 where
    l2: "u2 \<le> 1772409600" "ledger ?e ?rd u2 r2 (traffic_step ?e ?rd 1772409600 (net_counter (demo_net 1500 30))
      (traffic_step ?e ?rd 1772323200 (net_counter (demo_net 1000 10)) empty_traffic))" by auto
  from ledger_step [OF l2(2) v(3), of "net_counter (demo_net 1700 60)"] l2(1) show ?thesis
    by (simp add: traffic_run_def demo_reports_def demo_persist)
qed

lemma traffic_month_is_sum_of_days_witness:
  "\<exists>m r u. latest_month (traffic_run demo_target (Obj []) demo_reports) = Some (m, r) \<and> u \<le> 1772413200 \<and> mr_active r = Some (day_at (Obj []) u)"
proof -
  obtain u r where "ledger (Obj []) (target_reset 1) u r (traffic_run demo_target (Obj []) demo_reports)" using demo_ledger by blast
  note latest = ledger_latest [OF this]
  from traffic_month_is_sum_of_days [OF demo_valid(3,2,1) latest] obtain v where
    "v \<le> fst (last demo_reports)" "mr_active r = Some (day_at (Obj []) v)" by blast
  with latest show ?thesis by (auto simp: demo_reports_def)
qed

section \<open>No byte is lost\<close>

definition total_bytes :: "(string \<times> month_row) list \<Rightarrow> direction \<Rightarrow> int" where
  "total_bytes ms d = (\<Sum>(m, r) \<leftarrow> ms. mr_bytes r d)"

lemma total_update:
  "distinct (map fst ms) \<Longrightarrow>
   total_bytes (AList.update m r ms) d = total_bytes ms d + mr_bytes r d - (case map_of ms m of None \<Rightarrow> 0 | Some old \<Rightarrow> mr_bytes old d)"
proof (induction ms)
  case (Cons x ms)
  obtain m' r' where x: "x = (m', r')" by (cases x)
  have "m' = m \<Longrightarrow> map_of ms m = None" using Cons.prems by (auto simp: x map_of_eq_None_iff)
  then show ?case using Cons by (cases "m' = m") (simp_all add: x total_bytes_def)
qed (simp add: total_bytes_def)

text \<open>\<open>t0\<close>, \<open>c0\<close>: time and counters of the first report; \<open>c\<close>: the counters of the last one\<close>

definition conserved :: "jsval \<Rightarrow> jsval \<Rightarrow> int \<Rightarrow> (direction \<Rightarrow> rat) \<Rightarrow> int \<Rightarrow> (direction \<Rightarrow> rat) \<Rightarrow> traffic_db \<Rightarrow> bool" where
  "conserved env rd t0 c0 t c db \<longleftrightarrow> (\<exists>u r. u \<le> t \<and> ledger env rd u r db \<and>
     list_all (\<lambda>(_, r'). t0 \<le> mr_updated r') (td_months db) \<and>
     (\<forall>d. \<exists>l. mr_last r d = Some l \<and> of_int l \<le> c d \<and> total_bytes (td_months db) d = l - \<lfloor>c0 d\<rfloor>))"

lemma base_total:
  assumes l: "ledger env rd u r db" and v: "valid_time env ts" and le: "u \<le> ts"
    and c: "mr_last r d = Some l" "of_int l \<le> raw d"
  shows "total_bytes (next_months env rd u r ts raw db) d = total_bytes (td_months db) d + \<lfloor>raw d\<rfloor> - l"
proof -
  have vu: "valid_time env u" and dist: "distinct (map fst (td_months db))"
    and found: "map_of (td_months db) (tp_month (period_at env rd u)) = Some r" using l by (simp_all add: ledger_def)
  have delta: "raw_traffic_delta (raw d) (mr_last r d) = \<lfloor>raw d\<rfloor> - l"
    using c by (simp add: raw_traffic_delta_def)
  note up = total_update [OF dist, of "tp_month (period_at env rd ts)" "next_row env rd u r ts raw db" d]
  have nb: "mr_bytes (next_row env rd u r ts raw db) d =
      (if bill env rd u = bill env rd ts then mr_bytes r d + (\<lfloor>raw d\<rfloor> - l) else \<lfloor>raw d\<rfloor> - l)"
    by (simp add: next_row_def Let_def delta)
  show ?thesis
  proof (cases "bill env rd u = bill env rd ts")
    case True
    then have "period_at env rd ts = period_at env rd u" using same_bill_period [OF vu v] by simp
    with True found show ?thesis unfolding next_months_def up nb by simp
  next
    case False
    then have b: "bill env rd u < bill env rd ts" using bill_mono [OF le, of env rd] by simp
    have "map_of (td_months db) (tp_month (period_at env rd ts)) = None"
      using l later_bill(1) [OF vu v b] unfolding ledger_def map_of_eq_None_iff by (force dest: order.strict_trans)
    with False show ?thesis unfolding next_months_def up nb by simp
  qed
qed

lemma conserved_step:
  assumes "conserved env rd t0 c0 t c db" "valid_time env ts" "t \<le> ts" "ts \<le> t0 + 400 * 86400" "t0 \<le> ts" "\<And>d. c d \<le> raw d"
  shows "conserved env rd t0 c0 ts raw (traffic_step env rd ts raw db)"
proof -
  obtain u r where u: "u \<le> t" "ledger env rd u r db" "list_all (\<lambda>(_, r'). t0 \<le> mr_updated r') (td_months db)"
    and last_ok: "\<And>d. \<exists>l. mr_last r d = Some l \<and> of_int l \<le> c d \<and> total_bytes (td_months db) d = l - \<lfloor>c0 d\<rfloor>"
    using assms(1) unfolding conserved_def by blast
  have le: "u \<le> ts" using u(1) assms(3) by simp
  note base = base_db_ledger [OF u(2) assms(2) le, of raw]
  let ?r = "next_row env rd u r ts raw db" and ?db = "base_db env rd u r ts raw db"
  have months: "td_months ?db = next_months env rd u r ts raw db" by (simp add: base_db_def)
  have up: "t0 \<le> mr_updated ?r" using assms(5) base by (auto simp: ledger_def)
  have kept: "list_all (\<lambda>(_, r'). t0 \<le> mr_updated r') (td_months ?db)"
    using u(3) up set_update_subset [of "tp_month (period_at env rd ts)" ?r "td_months db"]
    by (fastforce simp: months next_months_def list_all_iff)
  then have clean: "td_months (traffic_cleanup env ts ?db) = td_months ?db"
    using assms(4) unfolding traffic_cleanup_def by (simp add: filter_id_conv list_all_iff) fastforce
  have tot: "\<exists>l. mr_last ?r d = Some l \<and> of_int l \<le> raw d \<and> total_bytes (td_months ?db) d = l - \<lfloor>c0 d\<rfloor>" for d
  proof -
    obtain l where l: "mr_last r d = Some l" "of_int l \<le> c d" "total_bytes (td_months db) d = l - \<lfloor>c0 d\<rfloor>" using last_ok by blast
    have "of_int l \<le> raw d" using l(2) assms(6) [of d] by linarith
    from base_total [where raw = raw and d = d, OF u(2) assms(2) le l(1) this] l(3) show ?thesis by (simp add: months next_row_def Let_def)
  qed
  from traffic_step_eq [OF u(2) assms(2) le, of raw] show ?thesis
  proof
    assume "traffic_step env rd ts raw db = db"
    moreover have "\<exists>l. mr_last r d = Some l \<and> of_int l \<le> raw d \<and> total_bytes (td_months db) d = l - \<lfloor>c0 d\<rfloor>" for d
      using last_ok [of d] assms(6) [of d] by force
    ultimately show ?thesis unfolding conserved_def using u le by metis
  next
    assume s: "traffic_step env rd ts raw db = (if day_at env u = day_at env ts then ?db else traffic_cleanup env ts ?db)"
    have "ledger env rd ts ?r (traffic_step env rd ts raw db)" "td_months (traffic_step env rd ts raw db) = td_months ?db"
      using base ledger_cleanup [OF base] clean by (simp_all add: s)
    then show ?thesis unfolding conserved_def using kept tot by (metis order_refl)
  qed
qed

lemma conserved_run:
  assumes "js_get target ''traffic_reset_day'' = JInt k" "parse_boolean (js_get target ''traffic_enabled'') False"
    and "sorted (map fst (first # reports))" "list_all (report_ok env) (first # reports)"
    and "list_all (\<lambda>(_, net). usable_net net) (first # reports)"
    and "sorted_wrt (\<lambda>(_, a) (_, b). net_counter a Rx \<le> net_counter b Rx \<and> net_counter a Tx \<le> net_counter b Tx) (first # reports)"
    and "fst (last (first # reports)) \<le> fst first + 400 * 86400"
  shows "conserved env (target_reset k) (fst first) (net_counter (snd first)) (fst (last (first # reports)))
    (net_counter (snd (last (first # reports)))) (traffic_run target env (first # reports))"
  using assms(3-7)
proof (induction reports rule: rev_induct)
  case Nil
  obtain ts net where f: "first = (ts, net)" by (cases first)
  have v: "valid_time env ts" and un: "usable_net net" using Nil by (simp_all add: f report_ok_def)
  note first = first_report [of empty_traffic env ts "target_reset k" "net_counter net", OF _ _ v]
  have "persist_agent_traffic target env net ts empty_traffic = traffic_step env (target_reset k) ts (net_counter net) empty_traffic"
    using assms(2) un by (simp add: persist_step [OF assms(1)])
  then show ?case
    using first unfolding conserved_def
    by (intro exI [of _ ts] exI) (auto simp: traffic_run_def f empty_traffic_def total_bytes_def)
next
  case (snoc x xs)
  obtain ts net where x: "x = (ts, net)" by (cases x)
  let ?prev = "last (first # xs)"
  have prev: "?prev \<in> set (first # xs)" by (rule last_in_set) simp
  have sorted: "sorted (map fst (first # xs) @ [ts])" using snoc.prems(1) by (simp add: x)
  then have "fst ?prev \<le> ts" "fst first \<le> ts" using prev unfolding sorted_append by auto
  moreover have "fst ?prev \<le> fst first + 400 * 86400" using \<open>fst ?prev \<le> ts\<close> snoc.prems(5) by (simp add: x)
  moreover have wrt: "sorted_wrt (\<lambda>(_, a) (_, b). net_counter a Rx \<le> net_counter b Rx \<and> net_counter a Tx \<le> net_counter b Tx) ((first # xs) @ [x])"
    using snoc.prems(4) by simp
  moreover from wrt have "net_counter (snd ?prev) d \<le> net_counter net d" for d
    using prev unfolding sorted_wrt_append by (cases d) (auto simp: x)
  moreover have "traffic_run target env (first # xs @ [x]) =
      traffic_step env (target_reset k) ts (net_counter net) (traffic_run target env (first # xs))"
    using assms(2) snoc.prems(3) by (simp add: traffic_run_def x persist_step [OF assms(1)])
  ultimately show ?case
    using conserved_step [OF snoc.IH, of ts "net_counter net"] snoc.prems
    by (auto simp: x report_ok_def sorted_wrt_append)
qed

text \<open>C1: While the counters of the machine only grow, no byte is lost and none is counted twice: at any time the totals of all monthly
  rows, together with the bytes the summary adds as pending, are exactly the growth of the counter since the first report,
  across throttled writes, changes of the day and changes of the period.
\<close>

theorem traffic_bytes_conserved:
  assumes "js_get target ''traffic_reset_day'' = JInt k" "parse_boolean (js_get target ''traffic_enabled'') False"
    and "sorted (map fst (first # reports))" "list_all (report_ok env) (first # reports)"
    and "list_all (\<lambda>(_, net). usable_net net) (first # reports)"
    and "sorted_wrt (\<lambda>(_, a) (_, b). net_counter a Rx \<le> net_counter b Rx \<and> net_counter a Tx \<le> net_counter b Tx) (first # reports)"
    and "fst (last (first # reports)) \<le> fst first + 400 * 86400"
  shows "\<exists>m r. latest_month (traffic_run target env (first # reports)) = Some (m, r) \<and>
    of_int (total_bytes (td_months (traffic_run target env (first # reports))) d) +
      pending_bytes (counter_of (snd (last (first # reports))) d) (mr_last r d) =
    net_counter (snd (last (first # reports))) d - of_int \<lfloor>net_counter (snd first) d\<rfloor>"
proof -
  let ?db = "traffic_run target env (first # reports)" and ?net = "snd (last (first # reports))"
  obtain u r l where l: "ledger env (target_reset k) u r ?db" "mr_last r d = Some l" "of_int l \<le> net_counter ?net d"
    "total_bytes (td_months ?db) d = l - \<lfloor>net_counter (snd first) d\<rfloor>"
    using conserved_run [OF assms] unfolding conserved_def by metis
  have "last (first # reports) \<in> set (first # reports)" by (rule last_in_set) simp
  moreover have "\<forall>x \<in> set (first # reports). usable_net (snd x)" using assms(5) by (auto simp: list_all_iff)
  ultimately have "usable_net ?net" by blast
  then obtain q where q: "counter_of ?net d = Fin q"
    unfolding usable_net_def usable_counter_def by (cases d) (auto split: jsnum.splits)
  show ?thesis using ledger_latest [OF l(1)] l(2-4) q by (simp add: pending_bytes_def net_counter_def counter_value_def)
qed

lemma traffic_bytes_conserved_witness:
  "\<exists>m r. latest_month (traffic_run demo_target (Obj []) demo_reports) = Some (m, r) \<and>
    of_int (total_bytes (td_months (traffic_run demo_target (Obj []) demo_reports)) Rx) +
      pending_bytes (jsint 1700) (mr_last r Rx) = (700 :: rat)"
proof -
  have c: "parse_boolean (js_get demo_target ''traffic_enabled'') False" by code_simp
  have "list_all (\<lambda>(_, net). usable_net net) demo_reports" by (simp add: demo_reports_def demo_usable)
  moreover have "sorted_wrt (\<lambda>(_, a) (_, b). net_counter a Rx \<le> net_counter b Rx \<and> net_counter a Tx \<le> net_counter b Tx) demo_reports"
    by (simp add: demo_reports_def)
  ultimately show ?thesis
    using traffic_bytes_conserved [OF demo_valid(3) c, of "hd demo_reports" "tl demo_reports" "Obj []" Rx] demo_valid(1,2)
    by (simp add: demo_reports_def)
qed

section \<open>Rebuilding and concurrency\<close>

text \<open>C32: Rebuilding a period agrees with the incremental accounting: within the period of the last write it returns, and stores, the
  bytes of the running row plus the pending ones, rounded down.
\<close>

theorem rebuild_equals_incremental:
  assumes "js_get target ''traffic_reset_day'' = JInt k" "sorted (map fst reports)" "list_all (report_ok env) reports"
    and "latest_month (traffic_run target env reports) = Some (m, r)"
    and "st_period (traffic_settings_from_target target env ts) = period_at env (target_reset k) u"
    and "m = tp_month (period_at env (target_reset k) u)" "valid_time env u"
    and "counter_of net d = Fin c"
  shows "sm_bytes (snd (rebuild_agent_traffic_period target env net ts (traffic_run target env reports))) d =
    of_int (mr_bytes r d + \<lfloor>pending_bytes (counter_of net d) (mr_last r d)\<rfloor>) \<and>
    map_option (\<lambda>row. mr_bytes row d) (map_of (td_months (fst (rebuild_agent_traffic_period target env net ts (traffic_run target env reports)))) m) =
    Some (mr_bytes r d + \<lfloor>pending_bytes (counter_of net d) (mr_last r d)\<rfloor>)"
proof -
  let ?db = "traffic_run target env reports" and ?rd = "target_reset k"
  obtain t where "traffic_inv env ?rd t ?db" using traffic_run_inv [OF assms(1-3)] by blast
  then obtain v r' where v: "ledger env ?rd v r' ?db" using assms(4) unfolding traffic_inv_def by (auto simp: latest_month_def)
  note latest = ledger_latest [OF v]
  have r: "r' = r" and m: "m = tp_month (period_at env ?rd v)" using latest assms(4) by simp_all
  have vv: "valid_time env v" using v by (simp add: ledger_def)
  have P: "period_at env ?rd u = period_at env ?rd v"
    using same_month_iff [OF assms(7) vv, of ?rd] same_bill_period [OF assms(7) vv, of ?rd] assms(6) m by simp
  note own = own_period [OF vv, of ?rd]
  have inside: "day_in_traffic_period (Some (day_at env v)) (period_at env ?rd v)"
    using own day_at_nonempty [OF vv] by (simp add: day_in_traffic_period_def)
  have days: "days_ok (day_at env v) (td_days ?db)" and sums: "mr_bytes r d = period_sum (period_at env ?rd v) (td_days ?db) d + mr_day_bytes r d"
    and base: "mr_last r d \<noteq> None" using v by (simp_all add: ledger_def r)
  then obtain l where l: "mr_last r d = Some l" by blast
  have pend: "raw_traffic_delta c (mr_last r d) = \<lfloor>pending_bytes (counter_of net d) (mr_last r d)\<rfloor>"
    by (simp add: l raw_traffic_delta_def pending_bytes_def assms(8))
  show ?thesis
    by (simp add: rebuild_agent_traffic_period_def Let_def assms(5) P latest r ledger_active [OF v, unfolded r] inside
        daily_sum_ok [OF days] ledger_carry [OF v, unfolded r] sums assms(8) pend summarize_traffic_def m update_conv')
qed

lemma rebuild_equals_incremental_witness:
  "\<exists>m r. latest_month (traffic_run demo_target (Obj []) (take 1 demo_reports)) = Some (m, r) \<and>
     sm_bytes (snd (rebuild_agent_traffic_period demo_target (Obj []) (demo_net 1400 50) 1772323200
       (traffic_run demo_target (Obj []) (take 1 demo_reports)))) Rx =
     of_int (mr_bytes r Rx + \<lfloor>pending_bytes (jsint 1400) (mr_last r Rx)\<rfloor>)"
proof -
  let ?e = "Obj []"
  have v: "valid_time ?e 1772323200" using demo_valid(1) by (simp add: demo_reports_def report_ok_def)
  have run: "traffic_run demo_target ?e (take 1 demo_reports) = traffic_step ?e (target_reset 1) 1772323200 (net_counter (demo_net 1000 10)) empty_traffic"
    by (simp add: traffic_run_def demo_reports_def demo_persist)
  obtain r where l: "ledger ?e (target_reset 1) 1772323200 r (traffic_run demo_target ?e (take 1 demo_reports))"
    unfolding run using first_report(1) [of empty_traffic, OF _ _ v] by (simp add: empty_traffic_def) blast
  have c: "sorted (map fst (take 1 demo_reports))" "list_all (report_ok ?e) (take 1 demo_reports)"
    using demo_valid(1) by (simp_all add: demo_reports_def)
  from rebuild_equals_incremental [OF demo_valid(3) c ledger_latest [OF l] settings_period [OF demo_valid(3)] refl v, of "demo_net 1400 50" Rx]
  show ?thesis using ledger_latest [OF l] by simp
qed

text \<open>Two reports that were planned from the same stored row never count a byte twice and never finish the same day twice: the
  guards of the statements refuse the second plan, unless the first left the baseline where it was.
\<close>

theorem concurrent_reports_count_once:
  assumes "map_of (td_months db) (tp_month p) = Some row" "\<And>d. mr_last row d = Some (l d)"
    and "\<And>d. of_int (l d) \<le> raw1 d" "\<And>d. of_int (l d) \<le> raw2 d"
    and "traffic_plan env p today ts1 raw1 db = Some w1" "traffic_plan env p today ts2 raw2 db = Some w2" "today \<noteq> []"
  shows "\<exists>row2. map_of (td_months (snd (traffic_commit w2 (snd (traffic_commit w1 db))))) (tp_month p) = Some row2 \<and>
    (\<exists>l2. mr_last row2 d = Some l2 \<and> mr_bytes row2 d - l2 = mr_bytes row d - l d) \<and>
    td_days (snd (traffic_commit w2 (snd (traffic_commit w1 db)))) = td_days (snd (traffic_commit w1 db))"
proof -
  define crossed where "crossed = (case active_day (Some row) of None \<Rightarrow> False | Some a \<Rightarrow> a \<noteq> today)"
  define plan where "plan = (\<lambda>ts (raw :: direction \<Rightarrow> rat). Roll_row (tp_month p) row crossed (\<lambda>d. \<lfloor>raw d\<rfloor> - l d)
    \<lparr> mr_bytes = (\<lambda>d. 0), mr_last = (\<lambda>d. Some \<lfloor>raw d\<rfloor>), mr_active = Some today,
      mr_day_bytes = (\<lambda>d. if crossed \<or> active_day (Some row) = None then \<lfloor>raw d\<rfloor> - l d else day_carry row d + (\<lfloor>raw d\<rfloor> - l d)), mr_updated = ts \<rparr>)"
  have delta: "raw_traffic_delta (raw e) (mr_last row e) = \<lfloor>raw e\<rfloor> - l e" if "of_int (l e) \<le> raw e" for raw e
    using that assms(2) by (simp add: raw_traffic_delta_def)
  have latest: "latest_for db (tp_month p) = Some (tp_month p, row)" by (simp add: latest_for_def assms(1))
  have w: "w = plan ts raw" if "traffic_plan env p today ts raw db = Some w" "\<And>d. of_int (l d) \<le> raw d" for w ts raw
    using that(1) unfolding traffic_plan_def Let_def latest
    by (simp add: assms(1) delta [where raw = raw, OF that(2)] plan_def crossed_def Let_def split: if_splits cong del: if_weak_cong)
  have w12: "w1 = plan ts1 raw1" "w2 = plan ts2 raw2" using w assms(3-6) by blast+
  let ?fin = "if crossed then finalize_traffic_day (tp_month p) row db else db"
  have fm: "td_months ?fin = td_months db"
    by (simp add: finalize_traffic_day_def split: option.split)
  define row1 where "row1 = \<lparr> mr_bytes = (\<lambda>d. mr_bytes row d + (\<lfloor>raw1 d\<rfloor> - l d)), mr_last = (\<lambda>d. Some \<lfloor>raw1 d\<rfloor>), mr_active = Some today,
      mr_day_bytes = (\<lambda>d. if crossed \<or> active_day (Some row) = None then \<lfloor>raw1 d\<rfloor> - l d else day_carry row d + (\<lfloor>raw1 d\<rfloor> - l d)), mr_updated = ts1 \<rparr>"
  have c1: "snd (traffic_commit w1 db) = ?fin\<lparr> td_months := AList.update (tp_month p) row1 (td_months db) \<rparr>"
    by (simp add: w12 plan_def traffic_commit_def fm assms(1) same_row_def row1_def Let_def)
  define db1 where "db1 = snd (traffic_commit w1 db)"
  have look: "map_of (td_months db1) (tp_month p) = Some row1" by (simp add: db1_def c1 update_conv')
  have no_fin: "finalize_traffic_day (tp_month p) row db1 = db1" if crossed
  proof -
    have "\<not> same_row row row1" using that by (auto simp: same_row_def row1_def crossed_def active_day_def split: option.splits list.splits)
    then show ?thesis by (simp add: finalize_traffic_day_def guard_holds_def look split: option.split)
  qed
  have c2: "snd (traffic_commit w2 db1) = (if \<not> same_row row row1 then db1
      else db1\<lparr> td_months := AList.update (tp_month p) (row1\<lparr> mr_bytes := (\<lambda>d. mr_bytes row1 d + (\<lfloor>raw2 d\<rfloor> - l d)), mr_last := (\<lambda>d. Some \<lfloor>raw2 d\<rfloor>),
        mr_day_bytes := (\<lambda>d. if crossed \<or> active_day (Some row) = None then \<lfloor>raw2 d\<rfloor> - l d else day_carry row d + (\<lfloor>raw2 d\<rfloor> - l d)),
        mr_updated := ts2 \<rparr>) (td_months db1) \<rparr>)"
    using no_fin by (simp add: w12(2) plan_def traffic_commit_def look Let_def) (simp add: row1_def)
  have floor: "\<lfloor>raw1 d\<rfloor> = l d" if "same_row row row1"
  proof -
    have "mr_last row1 Rx = mr_last row Rx" "mr_last row1 Tx = mr_last row Tx" using that by (simp_all add: same_row_def)
    then have "mr_last row1 d = mr_last row d" by (cases d) simp_all
    then show ?thesis using assms(2) [of d] by (simp add: row1_def)
  qed
  have bytes1: "mr_bytes row1 d = mr_bytes row d + (\<lfloor>raw1 d\<rfloor> - l d)" "mr_last row1 d = Some \<lfloor>raw1 d\<rfloor>"
    by (simp_all add: row1_def)
  show ?thesis
    unfolding db1_def [symmetric] c2
    by (cases "same_row row row1") (simp_all add: look update_conv' floor bytes1)
qed

lemma concurrent_reports_count_once_witness:
  "\<exists>w1 w2 row2. map_of (td_months (snd (traffic_commit w2 (snd (traffic_commit w1
       \<lparr> td_months = [(''2026-03-01'', \<lparr> mr_bytes = (\<lambda>_. 7), mr_last = (\<lambda>_. Some 100), mr_active = Some ''2026-03-02'',
          mr_day_bytes = (\<lambda>_. 7), mr_updated = 0 \<rparr>)], td_days = [] \<rparr>))))) ''2026-03-01'' = Some row2 \<and>
     (\<exists>l2. mr_last row2 Rx = Some l2 \<and> mr_bytes row2 Rx - l2 = 7 - 100)"
proof -
  let ?row = "\<lparr> mr_bytes = (\<lambda>_. 7), mr_last = (\<lambda>_. Some 100), mr_active = Some ''2026-03-02'', mr_day_bytes = (\<lambda>_. 7), mr_updated = 0 \<rparr>"
  let ?db = "\<lparr> td_months = [(''2026-03-01'', ?row)], td_days = [] \<rparr>"
  let ?p = "\<lparr> tp_month = ''2026-03-01'', tp_calendar_month = True, tp_reset_day = 1, tp_start = ''2026-03-01'', tp_end = ''2026-04-01'' \<rparr>"
  have "\<exists>w. traffic_plan (Obj []) ?p ''2026-03-02'' 1000000 raw ?db = Some w" for raw
    by (simp add: traffic_plan_def Let_def traffic_flush_interval_def js_get_def)
  then obtain w1 w2 where w: "traffic_plan (Obj []) ?p ''2026-03-02'' 1000000 (\<lambda>_. 150) ?db = Some w1"
    "traffic_plan (Obj []) ?p ''2026-03-02'' 1000000 (\<lambda>_. 180) ?db = Some w2" by metis
  have "\<exists>row2. map_of (td_months (snd (traffic_commit w2 (snd (traffic_commit w1 ?db))))) (tp_month ?p) = Some row2 \<and>
    (\<exists>l2. mr_last row2 Rx = Some l2 \<and> mr_bytes row2 Rx - l2 = mr_bytes ?row Rx - 100) \<and>
    td_days (snd (traffic_commit w2 (snd (traffic_commit w1 ?db)))) = td_days (snd (traffic_commit w1 ?db))"
    by (rule concurrent_reports_count_once [where l = "\<lambda>_. 100" and row = ?row, OF _ _ _ _ w]) simp_all
  then show ?thesis by auto
qed

end
