(* ===== verification/PingHistory.thy ===== *)
theory PingHistory
  imports TelemetryCodec
begin

text \<open>
  The pings of a report and of the history, in \<open>worker/src/metrics.js\<close>: decoding the columns of a report
  (\<open>pingSeriesToPoints\<close>), the window a report may cover (\<open>filterTelemetryBatch\<close>), normal form, merging
  into the latest state, thinning out for charts, loss rates, and the run-length code of the losses.

  A time is finite: JSON has no infinities. A normalised time that is no number is 0, which every use
  drops as it drops NaN. \<open>coll\<close> is the collation key of \<open>localeCompare\<close>.
\<close>

section \<open>Normal form\<close>

record ping_point =
  np_target :: string
  np_ts :: int
  np_latency :: "int option"
  np_ok :: int

definition is_control :: "char \<Rightarrow> bool" where
  "is_control c = ((of_char c :: nat) < 32 \<or> (of_char c :: nat) = 127)"

text \<open>\<open>s.replace(/[\u0000-\u001f\u007f]+/g, ' ')\<close>\<close>

function blank_controls :: "string \<Rightarrow> string" where
  "blank_controls [] = []"
| "blank_controls (c # s) =
     (if is_control c then CHR '' '' # blank_controls (dropWhile is_control s) else c # blank_controls s)"
  by pat_completeness auto
termination blank_controls
  by (relation "measure length") (auto simp: le_imp_less_Suc length_dropWhile_le)

declare blank_controls.simps [simp del]

definition finite_int :: "jsnum \<Rightarrow> int" where
  "finite_int n = (case n of Fin q \<Rightarrow> \<lfloor>q\<rfloor> | _ \<Rightarrow> 0)"

definition latency_in_range :: "jsnum \<Rightarrow> int option" where
  "latency_in_range n = (case js_round n of Fin q \<Rightarrow> if 0 \<le> q \<and> q \<le> 1000 then Some \<lfloor>q\<rfloor> else None | _ \<Rightarrow> None)"

definition normalize_ping_point :: "jsval \<Rightarrow> int \<Rightarrow> ping_point" where
  "normalize_ping_point p fallback =
     (let latency = (if js_nullish (js_get p ''latency_ms'') then None else latency_in_range (js_Number (js_get p ''latency_ms'')))
      in \<lparr> np_target = take 64 (js_trim (blank_controls (str_or_empty (js_get p ''target_id'')))),
           np_ts = finite_int (js_Number (js_or (js_get p ''ts'') (JInt fallback))),
           np_latency = latency,
           np_ok = normalize_ok_int (if latency = None then Bool False
             else if js_get p ''ok'' = Undefined then Bool True else js_get p ''ok'') \<rparr>)"

definition named_point :: "ping_point \<Rightarrow> bool" where
  "named_point p = (np_target p \<noteq> [] \<and> np_ts p \<noteq> 0)"

definition named_points :: "jsval list \<Rightarrow> ping_point list" where
  "named_points pings = filter named_point (map (\<lambda>p. normalize_ping_point p 0) pings)"

definition point_key :: "ping_point \<Rightarrow> string \<times> int" where
  "point_key p = (np_target p, np_ts p)"

section \<open>The columns of a report\<close>

datatype batch_error = SeriesNotArray | SeriesItem | SeriesTarget | SeriesLengths | TooManyPings | SeriesSample

definition max_agent_pings_per_report :: nat where "max_agent_pings_per_report = 5000"

record report_ping =
  rp_target :: string
  rp_ts :: int
  rp_latency :: "rat option"
  rp_ok :: jsval

definition js_int :: "jsval \<Rightarrow> int option" where
  "js_int v = (case js_Number v of Fin q \<Rightarrow> if of_int \<lfloor>q\<rfloor> = q then Some \<lfloor>q\<rfloor> else None | _ \<Rightarrow> None)"

definition series_latency :: "jsval \<Rightarrow> rat option" where
  "series_latency v =
     (if js_nullish v then None
      else case js_Number v of Fin q \<Rightarrow> if 0 \<le> q \<and> q \<le> 1000 then Some q else None | _ \<Rightarrow> None)"

fun series_samples :: "string \<Rightarrow> int \<Rightarrow> jsval list \<Rightarrow> jsval list \<Rightarrow> jsval list \<Rightarrow> batch_error + report_ping list" where
  "series_samples tid t0 (d # ds) (l # ls) (k # ks) =
     (case js_int d of
        None \<Rightarrow> Inl SeriesSample
      | Some delta \<Rightarrow>
          if delta < 0 \<or> k \<notin> {JInt 0, JInt 1, Bool False, Bool True} then Inl SeriesSample
          else case series_samples tid t0 ds ls ks of
                 Inl e \<Rightarrow> Inl e
               | Inr ps \<Rightarrow> Inr (\<lparr> rp_target = tid, rp_ts = t0 + delta, rp_latency = series_latency l,
                   rp_ok = (if series_latency l = None then JInt 0 else k) \<rparr> # ps))"
| "series_samples tid t0 _ _ _ = Inr []"

definition series_of_column :: "nat \<Rightarrow> jsval \<Rightarrow> batch_error + report_ping list" where
  "series_of_column sofar series =
     (if \<not> js_is_record series then Inl SeriesItem
      else let tid = js_trim (str_or_empty (js_get series ''target_id'')) in
      case js_int (js_get series ''t0'') of
        None \<Rightarrow> Inl SeriesTarget
      | Some t0 \<Rightarrow>
          if tid = [] \<or> 128 < length tid \<or> t0 \<le> 0 then Inl SeriesTarget
          else case (js_get series ''dt'', js_get series ''latency_ms'', js_get series ''ok'') of
            (Arr dt, Arr latency, Arr ok) \<Rightarrow>
              if length dt \<noteq> length latency \<or> length dt \<noteq> length ok then Inl SeriesLengths
              else if max_agent_pings_per_report < sofar + length dt then Inl TooManyPings
              else series_samples tid t0 dt latency ok
          | _ \<Rightarrow> Inl SeriesLengths)"

fun all_series_points :: "report_ping list \<Rightarrow> jsval list \<Rightarrow> batch_error + report_ping list" where
  "all_series_points acc [] = Inr acc"
| "all_series_points acc (s # ss) =
     (case series_of_column (length acc) s of Inl e \<Rightarrow> Inl e | Inr ps \<Rightarrow> all_series_points (acc @ ps) ss)"

definition ping_series_to_points :: "jsval \<Rightarrow> batch_error + report_ping list" where
  "ping_series_to_points v =
     (if js_nullish v then Inr [] else case v of Arr ss \<Rightarrow> all_series_points [] ss | _ \<Rightarrow> Inl SeriesNotArray)"

section \<open>The window of a report\<close>

definition max_telemetry_age :: int where "max_telemetry_age = 7 * 86400"
definition max_telemetry_future :: int where "max_telemetry_future = 300"
definition max_telemetry_hours :: nat where "max_telemetry_hours = 25"

definition sample_ts :: "jsval \<Rightarrow> int" where
  "sample_ts p = finite_int (num_or0 (js_get p ''ts''))"

definition in_window :: "int \<Rightarrow> jsval \<Rightarrow> bool" where
  "in_window now p = (0 < sample_ts p \<and> now - max_telemetry_age \<le> sample_ts p \<and> sample_ts p \<le> now + max_telemetry_future)"

definition allowed_hours :: "jsval list \<Rightarrow> int list" where
  "allowed_hours candidates =
     (let hours = set_order (map (hour_start \<circ> sample_ts) candidates)
      in if max_telemetry_hours < length hours then take max_telemetry_hours (rev (sort hours)) else hours)"

record telemetry_batch =
  bt_samples :: "jsval list"
  bt_pings :: "jsval list"
  bt_checks :: "jsval list"
  bt_dropped :: nat

definition filter_telemetry_batch :: "jsval list \<Rightarrow> jsval list \<Rightarrow> jsval list \<Rightarrow> int \<Rightarrow> batch_error + telemetry_batch" where
  "filter_telemetry_batch samples pings checks now =
     (if max_agent_pings_per_report < length pings then Inl TooManyPings
      else let allowed = allowed_hours (filter (in_window now) (samples @ pings @ checks));
               keep = (\<lambda>p. in_window now p \<and> hour_start (sample_ts p) \<in> set allowed)
           in Inr \<lparr> bt_samples = filter keep samples, bt_pings = filter keep pings, bt_checks = filter keep checks,
                bt_dropped = length (filter (\<lambda>p. \<not> keep p) (samples @ pings @ checks)) \<rparr>)"

section \<open>Merging and thinning out\<close>

definition max_report_ping_targets :: nat where "max_report_ping_targets = 64"

definition ping_order :: "(string \<Rightarrow> string) \<Rightarrow> ping_point \<Rightarrow> int \<times> string" where
  "ping_order coll p = (np_ts p, coll (np_target p))"

text \<open>The distinct targets a report may bring, in order of appearance\<close>

fun admit_targets :: "string list \<Rightarrow> ping_point list \<Rightarrow> ping_point list" where
  "admit_targets targets [] = []"
| "admit_targets targets (p # ps) =
     (if np_target p = [] \<or> np_ts p \<le> 0 then admit_targets targets ps
      else if np_target p \<in> set targets then p # admit_targets targets ps
      else if max_report_ping_targets \<le> length targets then admit_targets targets ps
      else p # admit_targets (targets @ [np_target p]) ps)"

definition map_pings :: "(string \<Rightarrow> string) \<Rightarrow> jsval list \<Rightarrow> int \<Rightarrow> ping_point list" where
  "map_pings coll pings fallback =
     sort_key (ping_order coll) (latest point_key (admit_targets [] (map (\<lambda>p. normalize_ping_point p fallback) pings)))"

definition merge_state_pings :: "(string \<Rightarrow> string) \<Rightarrow> int \<Rightarrow> jsval list \<Rightarrow> jsval list \<Rightarrow> ping_point list" where
  "merge_state_pings coll cutoff previous incoming =
     (let fresh = filter (\<lambda>p. np_target p \<noteq> [] \<and> cutoff \<le> np_ts p) (map (\<lambda>p. normalize_ping_point p 0) (previous @ incoming));
          groups = group_by_target np_target (latest point_key fresh)
      in take_last 600 (sort_key (ping_order coll) (concat (map (\<lambda>(_, l). take_last 60 (sort_key np_ts l)) groups))))"

definition state_cutoff :: "int \<Rightarrow> jsval \<Rightarrow> int" where
  "state_cutoff now env = now - retention_seconds env ''PING_HISTORY_RETENTION_HOURS'' 6 1 168"

definition mean :: "rat list \<Rightarrow> rat" where
  "mean xs = (if xs = [] then 0 else sum_list xs / of_nat (length xs))"

definition round_half_up :: "rat \<Rightarrow> int" where
  "round_half_up q = \<lfloor>q + 1 / 2\<rfloor>"

definition average_ping_chunk :: "ping_point list \<Rightarrow> ping_point" where
  "average_ping_chunk chunk =
     (let ok_points = filter (\<lambda>p. np_ok p = 1 \<and> np_latency p \<noteq> None) chunk
      in \<lparr> np_target = (case chunk of [] \<Rightarrow> [] | p # _ \<Rightarrow> np_target p),
           np_ts = round_half_up (mean (map (\<lambda>p. of_int (np_ts p)) chunk)),
           np_latency = (if ok_points = [] then None
             else Some (round_half_up (mean (map (\<lambda>p. of_int (case np_latency p of Some l \<Rightarrow> l | None \<Rightarrow> 0)) ok_points)))),
           np_ok = (if list_ex (\<lambda>p. np_ok p \<noteq> 1) chunk then 0 else 1) \<rparr>)"

text \<open>The slices of \<open>step\<close> points of a list\<close>

function chunks_of :: "nat \<Rightarrow> 'a list \<Rightarrow> 'a list list" where
  "chunks_of n xs = (if xs = [] \<or> n = 0 then [] else take n xs # chunks_of n (drop n xs))"
  by pat_completeness auto
termination chunks_of
  by (relation "measure (\<lambda>(n, xs). length xs)") auto

declare chunks_of.simps [simp del]

definition compact_ping_series :: "ping_point list \<Rightarrow> nat \<Rightarrow> ping_point list" where
  "compact_ping_series pts max_points =
     (if length pts \<le> max_points then pts
      else let step = (length pts + max_points - 1) div max_points;
               out = map average_ping_chunk (chunks_of step pts)
           in (out[0 := hd pts])[length out - 1 := last pts])"

definition compact_ping_points_by_target :: "(string \<Rightarrow> string) \<Rightarrow> jsval list \<Rightarrow> jsval \<Rightarrow> ping_point list" where
  "compact_ping_points_by_target coll pings max_per_target =
     (let limit = nat (clamp (num_or0 max_per_target) 2 5000)
      in sort_key (ping_order coll)
           (concat (map (\<lambda>(_, l). compact_ping_series (sort_key np_ts l) limit) (group_by_target np_target (named_points pings)))))"

record loss_summary =
  lm_target :: string
  lm_total :: nat
  lm_ok :: nat
  lm_lost :: nat
  lm_rate :: rat

definition summarize_ping_points_by_target :: "(string \<Rightarrow> string) \<Rightarrow> jsval list \<Rightarrow> loss_summary list" where
  "summarize_ping_points_by_target coll pings =
     map (\<lambda>(tid, l). let ok = length (filter (\<lambda>p. np_ok p = 1) l)
            in \<lparr> lm_target = tid, lm_total = length l, lm_ok = ok, lm_lost = length l - ok,
                 lm_rate = to_fixed 4 (of_nat (length l - ok) / of_nat (length l) * 100) \<rparr>)
       (sort_key (\<lambda>e. coll (fst e)) (group_by_target np_target (named_points pings)))"

section \<open>Columns of the history\<close>

record point_series =
  pc_target :: string
  pc_t0 :: int
  pc_dt :: "int list"
  pc_latency :: "int option list"
  pc_ok :: "int list"

definition ping_points_to_columns :: "(string \<Rightarrow> string) \<Rightarrow> jsval list \<Rightarrow> point_series list" where
  "ping_points_to_columns coll pings =
     map (\<lambda>(tid, l0). let l = sort_key np_ts l0; t0 = (case l of [] \<Rightarrow> 0 | p # _ \<Rightarrow> np_ts p)
            in \<lparr> pc_target = tid, pc_t0 = t0, pc_dt = map (\<lambda>p. np_ts p - t0) l, pc_latency = map np_latency l, pc_ok = map np_ok l \<rparr>)
       (sort_key (\<lambda>e. coll (fst e)) (group_by_target np_target (named_points pings)))"

section \<open>Runs of losses\<close>

fun dedup_sorted :: "int list \<Rightarrow> int list" where
  "dedup_sorted (x # y # r) = (if x = y then dedup_sorted (y # r) else x # dedup_sorted (y # r))"
| "dedup_sorted xs = xs"

text \<open>How many times the step repeats\<close>

fun step_run :: "int \<Rightarrow> int \<Rightarrow> int list \<Rightarrow> nat" where
  "step_run prev step [] = 0"
| "step_run prev step (z # r) = (if z - prev = step then Suc (step_run z step r) else 0)"

type_synonym loss_run = "int \<times> int \<times> nat"

function loss_runs :: "int \<Rightarrow> int list \<Rightarrow> loss_run list" where
  "loss_runs t0 [] = []"
| "loss_runs t0 [x] = [(x - t0, 0, 1)]"
| "loss_runs t0 (x # y # r) =
     (let k = step_run y (y - x) r in (x - t0, y - x, 2 + k) # loss_runs t0 (drop k r))"
  by pat_completeness auto
termination loss_runs
  by (relation "measure (\<lambda>(t0, xs). length xs)") auto

record loss_series =
  ls_target :: string
  ls_t0 :: int
  ls_runs :: "loss_run list"

definition ping_loss_points_to_runs :: "(string \<Rightarrow> string) \<Rightarrow> jsval list \<Rightarrow> loss_series list" where
  "ping_loss_points_to_runs coll pings =
     map (\<lambda>(tid, l). let times = dedup_sorted (sort (map np_ts l)); t0 = (case times of [] \<Rightarrow> 0 | t # _ \<Rightarrow> t)
            in \<lparr> ls_target = tid, ls_t0 = t0, ls_runs = loss_runs t0 times \<rparr>)
       (sort_key (\<lambda>e. coll (fst e)) (group_by_target np_target (filter (\<lambda>p. np_ok p \<noteq> 1) (named_points pings))))"

definition run_times :: "int \<Rightarrow> loss_run \<Rightarrow> int list" where
  "run_times t0 = (\<lambda>(start, step, count).
     if start < 0 \<or> step < 0 \<or> count < 1 then [] else map (\<lambda>i. t0 + start + step * int i) [0..<count])"

definition series_losses :: "loss_series \<Rightarrow> ping_point list" where
  "series_losses s =
     (let tid = js_trim (ls_target s)
      in if tid = [] \<or> ls_t0 s \<le> 0 then []
         else map (\<lambda>t. \<lparr> np_target = tid, np_ts = t, np_latency = None, np_ok = 0 \<rparr>) (concat (map (run_times (ls_t0 s)) (ls_runs s))))"

definition ping_loss_runs_to_points :: "(string \<Rightarrow> string) \<Rightarrow> loss_series list \<Rightarrow> ping_point list" where
  "ping_loss_runs_to_points coll ss = sort_key (ping_order coll) (concat (map series_losses ss))"

text \<open>A stored series, as parsed from its JSON\<close>

definition loss_run_of :: "jsval \<Rightarrow> loss_run option" where
  "loss_run_of v =
     (case v of
        Arr (start # step # n # _) \<Rightarrow>
          (case (js_Number start, js_Number step, js_Number n) of
             (Fin q, Fin r, Fin m) \<Rightarrow> Some (\<lfloor>q\<rfloor>, \<lfloor>r\<rfloor>, nat \<lfloor>m\<rfloor>) | _ \<Rightarrow> None)
      | _ \<Rightarrow> None)"

definition loss_series_of :: "jsval \<Rightarrow> loss_series option" where
  "loss_series_of v =
     (case js_get v ''runs'' of
        Arr rs \<Rightarrow> Some \<lparr> ls_target = str_or_empty (js_get v ''target_id''), ls_t0 = finite_int (num_or0 (js_get v ''t0'')),
                     ls_runs = List.map_filter loss_run_of rs \<rparr>
      | _ \<Rightarrow> None)"

definition stored_losses :: "(string \<Rightarrow> string) \<Rightarrow> jsval list \<Rightarrow> ping_point list" where
  "stored_losses coll stored = ping_loss_runs_to_points coll (List.map_filter loss_series_of stored)"

section \<open>The run-length code loses nothing\<close>

lemma run_times_block:
  "0 \<le> x - t0 \<Longrightarrow> 0 \<le> y - x \<Longrightarrow>
   run_times t0 (x - t0, y - x, 2 + step_run y (y - x) r) @ drop (step_run y (y - x) r) r = x # y # r"
proof -
  assume nn: "0 \<le> x - t0" "0 \<le> y - x"
  have block: "map (\<lambda>i. z + s * int (Suc i)) [0..<step_run z s r] @ drop (step_run z s r) r = r" for z s
  proof (induction r arbitrary: z)
    case (Cons w r)
    show ?case
    proof (cases "w - z = s")
      case True
      have "map (\<lambda>i. z + s * int (Suc i)) [0..<Suc (step_run w s r)] = w # map (\<lambda>i. w + s * int (Suc i)) [0..<step_run w s r]"
        using True by (simp add: upt_conv_Cons map_Suc_upt [symmetric] algebra_simps del: upt_Suc)
      with Cons.IH [of w] True show ?thesis by simp
    qed simp
  qed simp
  have "map (\<lambda>i. x + (y - x) * int i) [0..<2 + k] = x # y # map (\<lambda>i. y + (y - x) * int (Suc i)) [0..<k]" for k
    by (simp add: numeral_2_eq_2 upt_conv_Cons map_Suc_upt [symmetric] algebra_simps del: upt_Suc)
  then show ?thesis using nn block [of y "y - x"] by (simp add: run_times_def)
qed

lemma loss_runs_times:
  assumes "sorted_wrt (<) ts" "list_all (\<lambda>t. t0 \<le> t) ts"
  shows "concat (map (run_times t0) (loss_runs t0 ts)) = ts"
  using assms
proof (induction t0 ts rule: loss_runs.induct)
  case (3 t0 x y r)
  let ?k = "step_run y (y - x) r"
  have "sorted_wrt (<) (drop ?k r)" "list_all (\<lambda>t. t0 \<le> t) (drop ?k r)"
    using 3(2,3) by (auto simp: sorted_wrt_drop list_all_iff dest: in_set_dropD)
  from 3(1) [OF refl this] run_times_block [of x t0 y r] 3(2,3) show ?case by (simp add: Let_def)
qed (simp_all add: run_times_def)

lemma dedup_sorted_facts:
  assumes "sorted xs"
  shows "set (dedup_sorted xs) = set xs \<and> sorted_wrt (<) (dedup_sorted xs) \<and> (xs \<noteq> [] \<longrightarrow> dedup_sorted xs \<noteq> [] \<and> hd (dedup_sorted xs) = hd xs)"
  using assms by (induction xs rule: dedup_sorted.induct) (auto simp: less_le)

definition loss_times :: "ping_point list \<Rightarrow> int list" where
  "loss_times l = dedup_sorted (sort (map np_ts l))"

lemma loss_times_facts: "set (loss_times l) = np_ts ` set l" "sorted_wrt (<) (loss_times l)" "distinct (loss_times l)"
proof -
  have s: "sorted (sort (map np_ts l))" by simp
  note d = dedup_sorted_facts [OF s]
  show "set (loss_times l) = np_ts ` set l" "sorted_wrt (<) (loss_times l)" using d by (simp_all add: loss_times_def)
  then show "distinct (loss_times l)" by (simp add: strict_sorted_iff)
qed

lemma series_losses_of_group:
  assumes "js_trim tid = tid" "tid \<noteq> []" "l \<noteq> []" "list_all (\<lambda>p. 0 < np_ts p) l"
  defines "t0 \<equiv> (case loss_times l of [] \<Rightarrow> 0 | t # _ \<Rightarrow> t)"
  shows "series_losses \<lparr> ls_target = tid, ls_t0 = t0, ls_runs = loss_runs t0 (loss_times l) \<rparr> =
    map (\<lambda>t. \<lparr> np_target = tid, np_ts = t, np_latency = None, np_ok = 0 \<rparr>) (loss_times l)"
proof -
  note f = loss_times_facts [of l]
  have "loss_times l \<noteq> []" using f(1) assms(3) by auto
  then obtain t r where t: "loss_times l = t # r" by (cases "loss_times l") auto
  then have "t \<in> np_ts ` set l" using f(1) by auto
  then have "0 < t" using assms(4) by (auto simp: list_all_iff)
  moreover have "list_all (\<lambda>x. t \<le> x) (loss_times l)" using f(2) by (auto simp: t list_all_iff)
  ultimately show ?thesis
    using loss_runs_times [OF f(2), of t] assms(1,2) by (simp add: series_losses_def t0_def t Let_def)
qed

lemma group_keys_distinct: "distinct (map fst (group_by_target t xs))"
proof -
  have "distinct (map fst m) \<Longrightarrow> distinct (map fst (fold (\<lambda>x m. if t x = [] then m
           else AList.update (t x) ((case map_of m (t x) of Some l \<Rightarrow> l | None \<Rightarrow> []) @ [x]) m) xs m))" for m
    by (induction xs arbitrary: m) (simp_all add: distinct_update)
  from this [of "[]"] show ?thesis by (simp add: group_by_target_def)
qed

lemma group_members: "(\<exists>k l. (k, l) \<in> set (group_by_target t xs) \<and> x \<in> set l) \<longleftrightarrow> x \<in> set xs \<and> t x \<noteq> []"
proof -
  have "set (concat (map snd (group_by_target t xs))) = set (filter (\<lambda>x. t x \<noteq> []) xs)"
    by (metis group_by_target_flat mset_eq_setD)
  then show ?thesis by (force simp: set_eq_iff)
qed

lemma distinct_concat_keys:
  assumes "distinct (map fst gs)" "\<And>k l. (k, l) \<in> set gs \<Longrightarrow> distinct (f (k, l)) \<and> (\<forall>x \<in> set (f (k, l)). key x = k)"
  shows "distinct (concat (map f gs))"
  using assms
proof (induction gs)
  case (Cons g gs)
  obtain k l where g: "g = (k, l)" by (cases g)
  have "distinct (concat (map f gs))" using Cons.prems by (intro Cons.IH) auto
  moreover have "distinct (f g)" "\<And>x. x \<in> set (f g) \<Longrightarrow> key x = k" using Cons.prems(2) by (auto simp: g)
  moreover have "key x \<noteq> k" if x: "x \<in> set (concat (map f gs))" for x
  proof -
    from x obtain k' l' where e: "(k', l') \<in> set gs" "x \<in> set (f (k', l'))" by auto
    then have "key x = k'" using Cons.prems(2) [of k' l'] by simp
    then show ?thesis using e(1) Cons.prems(1) by (force simp: g)
  qed
  ultimately show ?case by (auto simp: disjoint_iff)
qed simp

definition failed_points :: "jsval list \<Rightarrow> ping_point list" where
  "failed_points pings = filter (\<lambda>p. np_ok p \<noteq> 1) (named_points pings)"

definition as_loss :: "ping_point \<Rightarrow> ping_point" where
  "as_loss p = p\<lparr> np_latency := None, np_ok := 0 \<rparr>"

definition loss_points :: "string \<Rightarrow> ping_point list \<Rightarrow> ping_point list" where
  "loss_points tid l = map (\<lambda>t. \<lparr> np_target = tid, np_ts = t, np_latency = None, np_ok = 0 \<rparr>) (loss_times l)"

lemma decoded_groups:
  assumes "list_all (\<lambda>p. js_trim (np_target p) = np_target p \<and> 0 < np_ts p) (failed_points pings)"
  shows "concat (map series_losses (ping_loss_points_to_runs coll pings)) =
    concat (map (\<lambda>(tid, l). loss_points tid l) (sort_key (\<lambda>e. coll (fst e)) (group_by_target np_target (failed_points pings))))"
proof -
  have "series_losses (let times = loss_times l; t0 = (case times of [] \<Rightarrow> 0 | t # _ \<Rightarrow> t)
            in \<lparr> ls_target = tid, ls_t0 = t0, ls_runs = loss_runs t0 times \<rparr>) = loss_points tid l"
    if g: "(tid, l) \<in> set (group_by_target np_target (failed_points pings))" for tid l
  proof -
    note own = group_by_target_own [OF g]
    have "p \<in> set (failed_points pings)" if "p \<in> set l" for p
      using g that group_members [of np_target "failed_points pings" p] by blast
    then have ok: "js_trim (np_target p) = np_target p \<and> 0 < np_ts p" if "p \<in> set l" for p
      using assms that by (auto simp: list_all_iff)
    obtain p where "p \<in> set l" using own by (cases l) auto
    then have "js_trim tid = tid" using ok own by force
    then show ?thesis
      using series_losses_of_group [of tid l] own ok by (simp add: loss_points_def Let_def list_all_iff)
  qed
  then show ?thesis
    unfolding ping_loss_points_to_runs_def failed_points_def [symmetric] loss_times_def [symmetric]
    by (simp add: comp_def case_prod_unfold) (rule arg_cong [where f = concat], rule map_cong, auto)
qed

text \<open>The run-length code of the losses is lossless: decoding the runs of any list of pings gives back exactly the failed pings,
  each target and time once, in the order of the times.
\<close>

theorem loss_runs_roundtrip:
  assumes "list_all (\<lambda>p. js_trim (np_target p) = np_target p \<and> 0 < np_ts p) (failed_points pings)"
  shows "set (ping_loss_runs_to_points coll (ping_loss_points_to_runs coll pings)) = as_loss ` set (failed_points pings) \<and>
    distinct (ping_loss_runs_to_points coll (ping_loss_points_to_runs coll pings)) \<and>
    sorted (map np_ts (ping_loss_runs_to_points coll (ping_loss_points_to_runs coll pings)))"
proof -
  let ?gs = "sort_key (\<lambda>e. coll (fst e)) (group_by_target np_target (failed_points pings))"
  let ?out = "concat (map (\<lambda>(tid, l). loss_points tid l) ?gs)"
  have out: "ping_loss_runs_to_points coll (ping_loss_points_to_runs coll pings) = sort_key (ping_order coll) ?out"
    by (simp add: ping_loss_runs_to_points_def decoded_groups [OF assms])
  have lp: "set (loss_points tid l) = (\<lambda>p. \<lparr> np_target = tid, np_ts = np_ts p, np_latency = None, np_ok = 0 \<rparr>) ` set l" for tid l
    by (simp add: loss_points_def loss_times_facts(1) image_image)
  have al: "as_loss p = \<lparr> np_target = np_target p, np_ts = np_ts p, np_latency = None, np_ok = 0 \<rparr>" for p :: ping_point
    by (cases p) (simp add: as_loss_def)
  have named: "np_target p \<noteq> []" if "p \<in> set (failed_points pings)" for p
    using that by (simp add: failed_points_def named_points_def named_point_def)
  have "set ?out = as_loss ` set (failed_points pings)"
  proof (rule set_eqI)
    fix x
    have "x \<in> set ?out \<longleftrightarrow> (\<exists>k l. (k, l) \<in> set (group_by_target np_target (failed_points pings)) \<and> (\<exists>p \<in> set l. x = as_loss p))"
      using group_by_target_own [of _ _ np_target "failed_points pings"] by (fastforce simp: lp al)
    also have "\<dots> \<longleftrightarrow> (\<exists>p. p \<in> set (failed_points pings) \<and> x = as_loss p)"
      using group_members [of np_target "failed_points pings"] named by blast
    finally show "x \<in> set ?out \<longleftrightarrow> x \<in> as_loss ` set (failed_points pings)" by auto
  qed
  moreover have "distinct ?out"
  proof (rule distinct_concat_keys [where key = np_target])
    show "distinct (map fst ?gs)" by (simp add: group_keys_distinct)
    show "distinct (case (k, l) of (tid, l) \<Rightarrow> loss_points tid l) \<and> (\<forall>x \<in> set (case (k, l) of (tid, l) \<Rightarrow> loss_points tid l). np_target x = k)" for k l
      using loss_times_facts(3) [of l] by (auto simp: loss_points_def distinct_map inj_on_def)
  qed
  moreover have "sorted (map np_ts (sort_key (ping_order coll) ?out))"
    using sorted_sort_key [of "ping_order coll" ?out] unfolding sorted_map
    by (rule sorted_wrt_mono_rel [rotated]) (auto simp: ping_order_def less_eq_prod_def)
  ultimately show ?thesis unfolding out by simp
qed

lemma loss_runs_roundtrip_witness:
  "distinct (ping_loss_runs_to_points id (ping_loss_points_to_runs id
     [Obj [(''target_id'', Str ''a''), (''ts'', JInt 30)], Obj [(''target_id'', Str ''a''), (''ts'', JInt 10)],
      Obj [(''target_id'', Str ''a''), (''ts'', JInt 20)]]))"
proof -
  let ?p = "[Obj [(''target_id'', Str ''a''), (''ts'', JInt 30)], Obj [(''target_id'', Str ''a''), (''ts'', JInt 10)],
      Obj [(''target_id'', Str ''a''), (''ts'', JInt 20)]]"
  have t: "js_trim (blank_controls ''a'') = ''a''" "js_trim ''a'' = ''a''" by code_simp+
  have point: "normalize_ping_point (Obj [(''target_id'', Str ''a''), (''ts'', JInt n)]) 0 = \<lparr> np_target = ''a'', np_ts = n, np_latency = None, np_ok = 0 \<rparr>" for n
    by (simp add: normalize_ping_point_def js_get_def js_nullish_def str_or_empty_def t finite_int_def normalize_ok_int_def js_or_def)
  have "list_all (\<lambda>p. js_trim (np_target p) = np_target p \<and> 0 < np_ts p) (failed_points ?p)"
    using point [of 30] point [of 10] point [of 20] by (simp add: failed_points_def named_points_def t)
  from loss_runs_roundtrip [OF this] show ?thesis by blast
qed

section \<open>The window of a report\<close>

lemma newest_first:
  fixes xs :: "'a::linorder list"
  assumes "distinct xs"
  shows "set (take n (rev (sort xs))) \<subseteq> set xs" "length (take n (rev (sort xs))) = min n (length xs)"
    "x \<in> set xs \<Longrightarrow> x \<notin> set (take n (rev (sort xs))) \<Longrightarrow> y \<in> set (take n (rev (sort xs))) \<Longrightarrow> x < y"
proof -
  let ?r = "rev (sort xs)"
  show "set (take n ?r) \<subseteq> set xs" using set_take_subset [of n ?r] by simp
  show "length (take n ?r) = min n (length xs)" by simp
  have "sorted_wrt (\<ge>) (take n ?r @ drop n ?r)" by (simp add: sorted_wrt_rev)
  then have sep: "\<forall>y \<in> set (take n ?r). \<forall>x \<in> set (drop n ?r). x \<le> y" unfolding sorted_wrt_append by blast
  assume "x \<in> set xs" "x \<notin> set (take n ?r)" "y \<in> set (take n ?r)"
  moreover from this have "x \<in> set (drop n ?r)" by (metis append_take_drop_id set_rev set_sort Un_iff set_append)
  ultimately show "x < y" using sep by (metis order_le_less)
qed

lemma allowed_hours_newest:
  "set (allowed_hours ps) \<subseteq> (hour_start \<circ> sample_ts) ` set ps" "length (allowed_hours ps) \<le> 25"
  "p \<in> set ps \<Longrightarrow> hour_start (sample_ts p) \<notin> set (allowed_hours ps) \<Longrightarrow> h \<in> set (allowed_hours ps) \<Longrightarrow> hour_start (sample_ts p) < h"
proof -
  define hours where "hours = set_order (map (hour_start \<circ> sample_ts) ps)"
  have d: "distinct hours" and s: "set hours = (hour_start \<circ> sample_ts) ` set ps"
    by (simp_all add: hours_def set_order_set)
  have a: "allowed_hours ps = (if max_telemetry_hours < length hours then take max_telemetry_hours (rev (sort hours)) else hours)"
    by (simp add: allowed_hours_def hours_def Let_def)
  show "set (allowed_hours ps) \<subseteq> (hour_start \<circ> sample_ts) ` set ps"
    using newest_first(1) [OF d, of max_telemetry_hours] s by (auto simp: a)
  show "length (allowed_hours ps) \<le> 25" by (auto simp: a max_telemetry_hours_def)
  show "hour_start (sample_ts p) < h" if "p \<in> set ps" "hour_start (sample_ts p) \<notin> set (allowed_hours ps)" "h \<in> set (allowed_hours ps)"
    using newest_first(3) [OF d, of "hour_start (sample_ts p)" max_telemetry_hours h] that s by (auto simp: a split: if_splits)
qed

definition batch_points :: "telemetry_batch \<Rightarrow> jsval list" where
  "batch_points b = bt_samples b @ bt_pings b @ bt_checks b"

text \<open>
  CX: A report is cut to its window: every sample kept lies at most seven days back and five minutes ahead, the samples kept
  cover at most 25 hours, kept and dropped ones add up to what was sent, and a sample of the window is dropped only when its
  hour is older than the hour of every sample kept.
\<close>

theorem batch_window:
  assumes "filter_telemetry_batch samples pings checks now = Inr b"
  shows "(\<forall>p \<in> set (batch_points b). in_window now p) \<and>
    card ((hour_start \<circ> sample_ts) ` set (batch_points b)) \<le> 25 \<and>
    length (batch_points b) + bt_dropped b = length (samples @ pings @ checks) \<and>
    (\<forall>p \<in> set (samples @ pings @ checks). \<forall>q \<in> set (batch_points b).
      in_window now p \<longrightarrow> p \<notin> set (batch_points b) \<longrightarrow> hour_start (sample_ts p) < hour_start (sample_ts q))"
proof -
  let ?all = "samples @ pings @ checks"
  let ?allowed = "allowed_hours (filter (in_window now) ?all)"
  let ?keep = "\<lambda>p. in_window now p \<and> hour_start (sample_ts p) \<in> set ?allowed"
  have b: "batch_points b = filter ?keep ?all" "bt_dropped b = length (filter (\<lambda>p. \<not> ?keep p) ?all)"
    using assms by (auto simp: filter_telemetry_batch_def batch_points_def Let_def split: if_splits)
  have "(hour_start \<circ> sample_ts) ` set (batch_points b) \<subseteq> set ?allowed" unfolding b by auto
  then have "card ((hour_start \<circ> sample_ts) ` set (batch_points b)) \<le> card (set ?allowed)" by (rule card_mono [OF finite_set])
  also have "\<dots> \<le> 25" using card_length [of ?allowed] allowed_hours_newest(2) [of "filter (in_window now) ?all"] by linarith
  finally have hours: "card ((hour_start \<circ> sample_ts) ` set (batch_points b)) \<le> 25" .
  have count: "length (batch_points b) + bt_dropped b = length ?all" unfolding b by (rule sum_length_filter_compl)
  have older: "hour_start (sample_ts p) < hour_start (sample_ts q)"
    if "p \<in> set ?all" "q \<in> set (batch_points b)" "in_window now p" "p \<notin> set (batch_points b)" for p q
    using allowed_hours_newest(3) [of p "filter (in_window now) ?all" "hour_start (sample_ts q)"] that unfolding b by auto
  show ?thesis using hours count older unfolding b(1) by auto
qed

lemma batch_window_witness:
  "\<exists>b. filter_telemetry_batch [Obj [(''ts'', JInt 1000000)], Obj [(''ts'', JInt 5)]] [] [] 1000100 = Inr b \<and>
     length (batch_points b) + bt_dropped b = 2"
proof -
  obtain b where b: "filter_telemetry_batch [Obj [(''ts'', JInt 1000000)], Obj [(''ts'', JInt 5)]] [] [] 1000100 = Inr b"
    by (simp add: filter_telemetry_batch_def Let_def)
  from batch_window [OF b] b show ?thesis by auto
qed

section \<open>Bounds of the latest state\<close>

lemma length_concat_le: "(\<And>x. x \<in> set xs \<Longrightarrow> length (f x) \<le> n) \<Longrightarrow> length (concat (map f xs)) \<le> n * length xs"
  by (induction xs) (auto intro: add_mono)

lemma count_in_groups:
  assumes "distinct (map fst gs)" "\<And>k l x. (k, l) \<in> set gs \<Longrightarrow> x \<in> set (f l) \<Longrightarrow> key x = k" "\<And>l. length (f l) \<le> n"
  shows "length (filter (\<lambda>x. key x = k) (concat (map (\<lambda>(_, l). f l) gs))) \<le> n"
  using assms(1,2)
proof (induction gs)
  case (Cons g gs)
  obtain k' l where g: "g = (k', l)" by (cases g)
  have ih: "length (filter (\<lambda>x. key x = k) (concat (map (\<lambda>(_, l). f l) gs))) \<le> n" using Cons.prems by (intro Cons.IH) auto
  show ?case
  proof (cases "k' = k")
    case True
    have "key x \<noteq> k" if x: "x \<in> set (concat (map (\<lambda>(_, l). f l) gs))" for x
    proof -
      from x obtain k2 l2 where e: "(k2, l2) \<in> set gs" "x \<in> set (f l2)" by auto
      then have "key x = k2" using Cons.prems(2) [of k2 l2 x] by simp
      then show ?thesis using e(1) Cons.prems(1) by (force simp: g True)
    qed
    then have "filter (\<lambda>x. key x = k) (concat (map (\<lambda>(_, l). f l) gs)) = []" unfolding filter_empty_conv by blast
    then show ?thesis using le_trans [OF length_filter_le assms(3) [of l]] by (simp add: g)
  next
    case False
    then have "filter (\<lambda>x. key x = k) (f l) = []" using Cons.prems(2) [of k' l] by (auto simp: filter_empty_conv g)
    then show ?thesis using ih by (simp add: g)
  qed
qed simp

text \<open>
  CX: The pings kept in the latest state stay bounded: at most 600, at most 60 of one target, none older than the cut-off, one for
  each target and time, in the order of their times.
\<close>

theorem state_pings_bounded:
  "length (merge_state_pings coll cutoff previous incoming) \<le> 600 \<and>
   length (filter (\<lambda>p. np_target p = tid) (merge_state_pings coll cutoff previous incoming)) \<le> 60 \<and>
   list_all (\<lambda>p. cutoff \<le> np_ts p \<and> np_target p \<noteq> []) (merge_state_pings coll cutoff previous incoming) \<and>
   distinct (map point_key (merge_state_pings coll cutoff previous incoming)) \<and>
   sorted (map np_ts (merge_state_pings coll cutoff previous incoming))"
proof -
  define fresh where "fresh = filter (\<lambda>p. np_target p \<noteq> [] \<and> cutoff \<le> np_ts p) (map (\<lambda>p. normalize_ping_point p 0) (previous @ incoming))"
  define one where "one = latest point_key fresh"
  define f where "f = (\<lambda>l. take_last 60 (sort_key np_ts l :: ping_point list))"
  let ?gs = "group_by_target np_target one"
  let ?c = "concat (map (\<lambda>(_, l). f l) ?gs)"
  have m: "merge_state_pings coll cutoff previous incoming = take_last 600 (sort_key (ping_order coll) ?c)"
    by (simp add: merge_state_pings_def fresh_def one_def f_def Let_def)
  have fs: "set (f l) \<subseteq> set l" for l using set_take_last [of 60 "sort_key np_ts l"] by (simp add: f_def)
  have members: "x \<in> set one" if "x \<in> set ?c" for x
  proof -
    from that obtain k l where "(k, l) \<in> set ?gs" "x \<in> set l" using fs by fastforce
    then show ?thesis using group_members [of np_target one x] by blast
  qed
  have "length (filter (\<lambda>p. np_target p = tid) ?c) \<le> 60"
  proof (rule count_in_groups)
    show "distinct (map fst ?gs)" by (rule group_keys_distinct)
    show "np_target x = k" if "(k, l) \<in> set ?gs" "x \<in> set (f l)" for k l x
      using group_by_target_own [OF that(1)] that(2) fs by blast
  qed (simp add: f_def)
  moreover have "mset (filter (\<lambda>p. np_target p = tid) (sort_key (ping_order coll) ?c)) = mset (filter (\<lambda>p. np_target p = tid) ?c)"
    by (simp add: mset_filter)
  ultimately have "length (filter (\<lambda>p. np_target p = tid) (sort_key (ping_order coll) ?c)) \<le> 60" by (metis mset_eq_length)
  moreover have "length (filter P (take_last n xs)) \<le> length (filter P xs)" for P n and xs :: "ping_point list"
    unfolding take_last_def by (metis append_take_drop_id filter_append le_add2 length_append)
  ultimately have per: "length (filter (\<lambda>p. np_target p = tid) (merge_state_pings coll cutoff previous incoming)) \<le> 60"
    unfolding m by (meson order_trans)
  have sub: "set (merge_state_pings coll cutoff previous incoming) \<subseteq> set one"
  proof -
    have "set (take_last 600 (sort_key (ping_order coll) ?c)) \<subseteq> set ?c"
      using set_take_last [of 600 "sort_key (ping_order coll) ?c"] by (simp only: set_sort)
    then show ?thesis using members unfolding m by blast
  qed
  then have all: "list_all (\<lambda>p. cutoff \<le> np_ts p \<and> np_target p \<noteq> []) (merge_state_pings coll cutoff previous incoming)"
    using set_latest [of point_key fresh] by (auto simp: list_all_iff one_def fresh_def)
  have inj: "inj_on point_key (set one)" using distinct_latest [of point_key fresh] by (simp add: one_def distinct_map)
  have "distinct ?c"
  proof (rule distinct_concat_keys [where key = np_target])
    show "distinct (map fst ?gs)" by (rule group_keys_distinct)
    fix k l assume g: "(k, l) \<in> set ?gs"
    have "distinct (filter (\<lambda>x. np_target x \<noteq> []) one)"
      using distinct_latest [of point_key fresh] by (simp add: one_def distinct_map)
    then have "distinct (concat (map snd ?gs))"
      using group_by_target_flat [of np_target one] by (metis mset_eq_imp_distinct_iff)
    then have "distinct l" using g by (force simp: distinct_concat_iff)
    then have "distinct (f l)" by (simp add: f_def distinct_take_last)
    then show "distinct (case (k, l) of (_, l) \<Rightarrow> f l) \<and> (\<forall>x \<in> set (case (k, l) of (_, l) \<Rightarrow> f l). np_target x = k)"
      using group_by_target_own [OF g] fs by auto
  qed
  then have "distinct (merge_state_pings coll cutoff previous incoming)" unfolding m by (simp add: distinct_take_last)
  then have dist: "distinct (map point_key (merge_state_pings coll cutoff previous incoming))"
    using inj_on_subset [OF inj sub] by (simp add: distinct_map)
  have "sorted (map np_ts (sort_key (ping_order coll) ?c))"
    using sorted_sort_key [of "ping_order coll" ?c] unfolding sorted_map
    by (rule sorted_wrt_mono_rel [rotated]) (auto simp: ping_order_def less_eq_prod_def)
  then have "sorted (map np_ts (merge_state_pings coll cutoff previous incoming))"
    unfolding m map_take_last by (rule sorted_take_last)
  then show ?thesis using per all dist by (simp add: m)
qed

end
