(* ===== verification/MetricReport.thy ===== *)
theory MetricReport
  imports PingHistory
begin

text \<open>
  The normal form of a report in \<open>worker/src/metrics.js\<close>: bounded metrics, capacities, hardware
  description, temperature sensors, proxy checks, the capabilities an Agent may claim, and the metric
  points of the history with their selection, thinning out and public query limits.

  Input is a JSON value; output is a record of exact numbers, or a JSON object where the code builds one
  with optional keys.
\<close>

section \<open>Bounded metrics\<close>

definition max_metric_rate :: rat where "max_metric_rate = 1024 ^ 5"
definition max_metric_count :: rat where "max_metric_count = 10 ^ 9"
definition max_capacity :: rat where "max_capacity = 10 ^ 12"

definition bounded_metric :: "jsval \<Rightarrow> rat \<Rightarrow> rat \<Rightarrow> rat" where
  "bounded_metric v lo hi = (case js_Number v of Fin q \<Rightarrow> max lo (min hi q) | _ \<Rightarrow> 0)"

definition bounded_count :: "jsval \<Rightarrow> rat \<Rightarrow> int" where
  "bounded_count v hi = \<lfloor>bounded_metric v 0 hi\<rfloor>"

text \<open>\<open>value && typeof value === 'object'\<close>, and the object itself unless it is an array\<close>

definition js_is_object :: "jsval \<Rightarrow> bool" where
  "js_is_object v = (case v of Obj _ \<Rightarrow> True | Arr _ \<Rightarrow> True | _ \<Rightarrow> False)"

definition record_or_empty :: "jsval \<Rightarrow> jsval" where
  "record_or_empty v = (if js_is_record v then v else Obj [])"

record capacity =
  ca_total :: rat
  ca_used :: rat
  ca_percent :: rat
  ca_avail :: "rat option"

definition normalize_capacity :: "jsval \<Rightarrow> string \<Rightarrow> capacity" where
  "normalize_capacity v unit =
     (let source = record_or_empty v;
          tot = bounded_metric (js_get source (''total_'' @ unit)) 0 max_capacity;
          used = min tot (bounded_metric (js_get source (''used_'' @ unit)) 0 max_capacity)
      in \<lparr> ca_total = tot, ca_used = used,
           ca_percent = (if 0 < tot then to_fixed 2 (used / tot * 100) else 0),
           ca_avail = (if unit = ''gb'' then Some (max 0 (tot - used)) else None) \<rparr>)"

record metric_stat =
  sa_avg :: rat
  sa_max :: rat
  sa_min :: rat

definition normalize_metric_stat :: "jsval \<Rightarrow> rat \<Rightarrow> rat \<Rightarrow> metric_stat" where
  "normalize_metric_stat v lo hi =
     (let source = record_or_empty v;
          a = bounded_metric (js_get source ''min'') lo hi; b = bounded_metric (js_get source ''avg'') lo hi;
          c = bounded_metric (js_get source ''max'') lo hi;
          low = min a (min b c); high = max a (max b c)
      in \<lparr> sa_avg = max low (min high b), sa_max = high, sa_min = low \<rparr>)"

definition stat_limits :: "(string \<times> rat) list" where
  "stat_limits = [(''cpu'', 100), (''mem'', 100), (''disk'', 100), (''load'', 1000000), (''net_rx'', max_metric_rate),
     (''net_tx'', max_metric_rate), (''tcp_conns'', max_metric_count), (''udp_conns'', max_metric_count),
     (''disk_read'', max_metric_rate), (''disk_write'', max_metric_rate)]"

definition normalize_agent_stats :: "jsval \<Rightarrow> (string \<times> metric_stat) list option" where
  "normalize_agent_stats v =
     (if \<not> js_is_record v then None
      else Some (map (\<lambda>(k, hi). (k, normalize_metric_stat (js_get v k) 0 hi)) stat_limits))"

section \<open>Hardware\<close>

definition strip_controls :: "string \<Rightarrow> string" where
  "strip_controls s = filter (\<lambda>c. \<not> is_control c) s"

definition vps_text :: "jsval \<Rightarrow> string \<Rightarrow> nat \<Rightarrow> string" where
  "vps_text v key n = take n (js_trim (strip_controls (str_or_empty (js_get v key))))"

definition cut_text :: "jsval \<Rightarrow> nat \<Rightarrow> string" where
  "cut_text v n = take n (js_trim (str_or_empty v))"

definition sensor_kind :: "jsval \<Rightarrow> string" where
  "sensor_kind s = (let kind = str_or_empty (js_get s ''kind'') in if kind \<in> set sensor_kinds then kind else ''other'')"

text \<open>The finite temperature of a sensor that is given at all\<close>

definition sensor_temp :: "jsval \<Rightarrow> rat option" where
  "sensor_temp s =
     (let raw = js_get s ''temp_c'' in
      if js_nullish raw \<or> raw = Str [] \<or> raw \<in> {Bool True, Bool False} then None
      else case js_Number raw of Fin q \<Rightarrow> Some (max (- 100) (min 1000 q)) | _ \<Rightarrow> None)"

definition sensor_object :: "jsval \<Rightarrow> rat \<Rightarrow> jsval" where
  "sensor_object s t = Obj [(''id'', Str (cut_text (js_get s ''id'') 64)), (''label'', Str (cut_text (js_get s ''label'') 128)),
     (''kind'', Str (sensor_kind s)), (''temp_c'', Num (Fin t))]"

definition disk_entry :: "jsval \<Rightarrow> jsval option" where
  "disk_entry e =
     (let device = cut_text (js_get e ''device'') 32; mount = cut_text (js_get e ''mount'') 64;
          tot = bounded_metric (js_get e ''total_gb'') 0 max_capacity; used = bounded_metric (js_get e ''used_gb'') 0 max_capacity
      in if device = [] \<or> mount = [] \<or> tot = 0 then None
         else Some (Obj [(''device'', Str device), (''mount'', Str mount), (''total_gb'', Num (Fin tot)), (''used_gb'', Num (Fin used))]))"

definition vps_temps :: "jsval \<Rightarrow> (string \<times> jsval) list" where
  "vps_temps v = List.map_filter (\<lambda>k. case js_Number (js_get v k) of
       Fin q \<Rightarrow> Some (k, Num (Fin (max (- 100) (min 1000 q)))) | _ \<Rightarrow> None)
     [''cpu_temp_c'', ''gpu_temp_c'', ''motherboard_temp_c'', ''disk_temp_c'', ''chipset_temp_c'']"

definition normalize_agent_vps_info :: "jsval \<Rightarrow> jsval option" where
  "normalize_agent_vps_info v =
     (if \<not> js_is_record v then None
      else let num = (\<lambda>k. Num (Fin (bounded_metric (js_get v k) 0 max_capacity)));
               count = (\<lambda>k hi. JInt (bounded_count (js_get v k) hi)) in
      Some (Obj ([(''cpu_model'', Str (vps_text v ''cpu_model'' 256)), (''cpu_cores'', count ''cpu_cores'' 4096),
          (''physical_cores'', count ''physical_cores'' 4096), (''arch'', Str (vps_text v ''arch'' 64)),
          (''total_mem_mb'', num ''total_mem_mb''), (''total_swap_mb'', num ''total_swap_mb''), (''total_disk_gb'', num ''total_disk_gb''),
          (''os'', Str (vps_text v ''os'' 256)), (''kernel'', Str (vps_text v ''kernel'' 256)),
          (''virtualization'', Str (vps_text v ''virtualization'' 128)), (''gpu_name'', Str (vps_text v ''gpu_name'' 256)),
          (''gpu_count'', count ''gpu_count'' 256), (''gpu_accessible'', Bool (js_get v ''gpu_accessible'' = Bool True))] @
        vps_temps v @
        (case js_Number (js_get v ''gpu_util'') of Fin q \<Rightarrow> [(''gpu_util'', Num (Fin (max 0 (min 100 q))))] | _ \<Rightarrow> []) @
        (case js_get v ''disk_list'' of
           Arr ds \<Rightarrow> (let l = List.map_filter disk_entry (take 16 ds) in if l = [] then [] else [(''disk_list'', Arr l)])
         | _ \<Rightarrow> []) @
        (case js_get v ''temperature_sensors'' of
           Arr ss \<Rightarrow> [(''temperature_sensors'', Arr (List.map_filter
             (\<lambda>s. if cut_text (js_get s ''label'') 128 = [] then None else map_option (sensor_object s) (sensor_temp s)) (take 128 ss)))]
         | _ \<Rightarrow> []))))"

text \<open>\<open>seen\<close>: the identifiers taken so far\<close>

fun distinct_sensors :: "string list \<Rightarrow> jsval list \<Rightarrow> jsval list" where
  "distinct_sensors seen [] = []"
| "distinct_sensors seen (s # ss) =
     (let i = cut_text (js_get s ''id'') 64 in
      if i = [] \<or> i \<in> set seen \<or> cut_text (js_get s ''label'') 128 = [] then distinct_sensors seen ss
      else case sensor_temp s of
             None \<Rightarrow> distinct_sensors seen ss
           | Some t \<Rightarrow> sensor_object s t # distinct_sensors (seen @ [i]) ss)"

definition normalize_temperature_sensors :: "jsval \<Rightarrow> nat \<Rightarrow> jsval list" where
  "normalize_temperature_sensors v n = (case v of Arr ss \<Rightarrow> distinct_sensors [] (take (max 1 n) ss) | _ \<Rightarrow> [])"

section \<open>The state of an Agent\<close>

record metric_state =
  ms_cpu :: rat
  ms_processes :: int
  ms_threads :: int
  ms_memory :: capacity
  ms_swap :: "capacity option"
  ms_load :: "rat \<times> rat \<times> rat"
  ms_disk :: capacity
  ms_rx_rate :: rat
  ms_tx_rate :: rat
  ms_rx_bytes :: rat
  ms_tx_bytes :: rat
  ms_tcp :: int
  ms_udp :: int
  ms_read_rate :: rat
  ms_write_rate :: rat
  ms_stats :: "(string \<times> metric_stat) list option"
  ms_uptime :: int

definition normalize_agent_metric_state :: "jsval \<Rightarrow> metric_state" where
  "normalize_agent_metric_state m =
     (let memory = js_get m ''memory''; load = js_get m ''load''; net = js_get m ''net''; io = js_get m ''diskio''
      in \<lparr> ms_cpu = bounded_metric (js_get m ''cpu_percent'') 0 100,
           ms_processes = bounded_count (js_get m ''process_count'') max_metric_count,
           ms_threads = bounded_count (js_coalesce (js_get m ''thread_count'') (js_get m ''process_count'')) max_metric_count,
           ms_memory = normalize_capacity memory ''mb'',
           ms_swap = (if js_is_object (js_get memory ''swap'') then Some (normalize_capacity (js_get memory ''swap'') ''mb'') else None),
           ms_load = (bounded_metric (js_get load ''load1'') 0 1000000, bounded_metric (js_get load ''load5'') 0 1000000,
             bounded_metric (js_get load ''load15'') 0 1000000),
           ms_disk = normalize_capacity (js_get m ''disk'') ''gb'',
           ms_rx_rate = bounded_metric (js_get net ''rx_bytes_sec'') 0 max_metric_rate,
           ms_tx_rate = bounded_metric (js_get net ''tx_bytes_sec'') 0 max_metric_rate,
           ms_rx_bytes = bounded_metric (js_get net ''rx_bytes'') 0 (2 ^ 53 - 1),
           ms_tx_bytes = bounded_metric (js_get net ''tx_bytes'') 0 (2 ^ 53 - 1),
           ms_tcp = bounded_count (js_get net ''tcp_conns'') max_metric_count,
           ms_udp = bounded_count (js_get net ''udp_conns'') max_metric_count,
           ms_read_rate = bounded_metric (js_get io ''read_bytes_sec'') 0 max_metric_rate,
           ms_write_rate = bounded_metric (js_get io ''write_bytes_sec'') 0 max_metric_rate,
           ms_stats = normalize_agent_stats (js_get m ''stats''),
           ms_uptime = bounded_count (js_get m ''uptime_sec'') max_capacity \<rparr>)"

section \<open>Proxy checks\<close>

definition max_agent_proxy_checks :: nat where "max_agent_proxy_checks = 100"

definition proxy_check_stages :: "string list" where
  "proxy_check_stages = [''config'', ''connect'', ''handshake'', ''canary'', ''runtime'', ''failed'']"

definition proxy_check_errors :: "string list" where
  "proxy_check_errors = [''timeout'', ''auth_failed'', ''unsupported'', ''handshake_failed'', ''canary_failed'', ''invalid_config'', ''runtime_failed'']"

definition is_lower :: "char \<Rightarrow> bool" where
  "is_lower c = (97 \<le> (of_char c :: nat) \<and> (of_char c :: nat) \<le> 122)"

text \<open>\<open>/^[a-z][a-z0-9-]{0,31}$/\<close>\<close>

definition is_protocol_name :: "string \<Rightarrow> bool" where
  "is_protocol_name s = (case s of [] \<Rightarrow> False
     | c # r \<Rightarrow> is_lower c \<and> length r \<le> 31 \<and> list_all (\<lambda>d. is_lower d \<or> is_digit d \<or> d = CHR ''-'') r)"

definition check_duration :: "jsval \<Rightarrow> jsnum option" where
  "check_duration v =
     (if js_nullish v then None
      else case js_Number v of Fin q \<Rightarrow> if 0 \<le> q \<and> q \<le> 120000 then Some (jsint (round_half_up q)) else None | _ \<Rightarrow> None)"

definition normalize_proxy_check :: "int \<Rightarrow> jsval \<Rightarrow> proxy_check option" where
  "normalize_proxy_check fallback item =
     (let target = take 128 (js_trim (js_String (js_or (js_get item ''target_id'') (js_or (js_get item ''id'') (Str [])))));
          protocol = js_lower (js_trim (str_or_empty (js_get item ''protocol'')));
          ts = finite_int (js_Number (js_or (js_get item ''ts'') (JInt fallback)));
          ok = (js_get item ''ok'' \<in> {Bool True, JInt 1, Str ''1''});
          stage = take 32 (js_trim (js_String (js_or (js_get item ''stage'') (Str (if ok then ''canary'' else ''failed'')))));
          err = take 64 (js_trim (str_or_empty (js_get item ''error'')))
      in if target = [] \<or> \<not> is_protocol_name protocol \<or> ts \<le> 0 then None
         else Some \<lparr> px_target = target, px_name = take 96 (js_trim (js_String (js_or (js_get item ''name'') (Str target)))),
           px_protocol = protocol, px_ts = ts, px_latency = check_duration (js_get item ''latency_ms''),
           px_handshake = check_duration (js_get item ''handshake_ms''), px_first_byte = check_duration (js_get item ''first_byte_ms''),
           px_total = check_duration (js_get item ''total_ms''), px_ok = jsint (if ok then 1 else 0),
           px_stage = (if stage \<in> set proxy_check_stages then stage else if ok then ''canary'' else ''failed''),
           px_error = (if err \<in> set proxy_check_errors then Some err else None) \<rparr>)"

definition normalize_agent_proxy_checks :: "jsval \<Rightarrow> int \<Rightarrow> proxy_check list" where
  "normalize_agent_proxy_checks v fallback =
     (case v of Arr items \<Rightarrow> List.map_filter (normalize_proxy_check fallback) (take max_agent_proxy_checks items) | _ \<Rightarrow> [])"

text \<open>The newest check of each target, the 100 newest of them, in the order of their times\<close>

definition newest_check :: "proxy_check \<Rightarrow> (string \<times> proxy_check) list \<Rightarrow> (string \<times> proxy_check) list" where
  "newest_check c m =
     (case map_of m (px_target c) of
        Some cur \<Rightarrow> if px_ts cur \<le> px_ts c then AList.update (px_target c) c m else m
      | None \<Rightarrow> AList.update (px_target c) c m)"

definition merge_state_proxy_checks :: "(string \<Rightarrow> string) \<Rightarrow> int \<Rightarrow> jsval \<Rightarrow> proxy_check list \<Rightarrow> proxy_check list" where
  "merge_state_proxy_checks coll fallback previous incoming =
     (let by_target = fold newest_check (normalize_agent_proxy_checks previous fallback @ incoming) [];
          newest = take max_agent_proxy_checks (sort_key (\<lambda>c. (- px_ts c, coll (px_target c))) (map snd by_target))
      in sort_key (\<lambda>c. (px_ts c, coll (px_target c))) newest)"

section \<open>What an Agent may claim\<close>

definition normalize_agent_process :: "jsval \<Rightarrow> int option" where
  "normalize_agent_process v =
     (if \<not> js_is_record v then None
      else case js_Number (js_get v ''rss_bytes'') of
             Fin q \<Rightarrow> if q < 0 \<or> 16 * 1024 * 1024 * 1024 < q then None else Some (round_half_up q) | _ \<Rightarrow> None)"

datatype agent_mode = Manager | Compatibility | TelemetryOnly

record capabilities =
  cy_mode :: agent_mode
  cy_version :: "string option"
  cy_privileged :: bool
  cy_actions :: "string list"
  cy_schema :: int
  cy_update :: "string option"
  cy_observed :: int

definition agent_actions :: "string list" where
  "agent_actions = [''nodequality'', ''ip_unlock'', ''backroute'']"

text \<open>\<open>/^v?\d+\.\d+\.\d+$/\<close>\<close>

definition is_version_text :: "string \<Rightarrow> bool" where
  "is_version_text s =
     (let parts = js_split (CHR ''.'') (if s \<noteq> [] \<and> hd s = CHR ''v'' then tl s else s)
      in length parts = 3 \<and> list_all (\<lambda>p. p \<noteq> [] \<and> list_all is_digit p) parts)"

definition agent_mode_of :: "jsval \<Rightarrow> agent_mode" where
  "agent_mode_of v =
     (let m = str_or_empty v in if m = ''manager'' then Manager else if m = ''compatibility'' then Compatibility else TelemetryOnly)"

definition claimed_actions :: "jsval \<Rightarrow> string list" where
  "claimed_actions v =
     (case v of
        Arr xs \<Rightarrow> take 8 (set_order (filter (\<lambda>a. a \<in> set agent_actions) (map (\<lambda>a. js_trim (str_or_empty a)) xs)))
      | _ \<Rightarrow> [])"

definition permitted_actions :: "agent_mode \<Rightarrow> bool \<Rightarrow> string list \<Rightarrow> string list" where
  "permitted_actions mode privileged claimed =
     (let a1 = (if mode = Compatibility then filter (\<lambda>a. a = ''ip_unlock'') claimed else claimed);
          a2 = (if mode = TelemetryOnly then [] else a1)
      in if \<not> privileged then filter (\<lambda>a. a \<noteq> ''nodequality'') a2 else a2)"

definition normalize_agent_capabilities :: "jsval \<Rightarrow> int \<Rightarrow> capabilities option" where
  "normalize_agent_capabilities v observed_at =
     (if \<not> js_is_record v \<or> js_Number (js_get v ''protocol'') \<noteq> Fin 1 then None
      else let mode = agent_mode_of (js_get v ''mode'');
               privileged = (mode = Manager \<and> js_get v ''privileged'' = Bool True);
               version = str_or_empty (js_get v ''manager_version'');
               update = str_or_empty (js_get v ''update_state'')
           in Some \<lparr> cy_mode = mode, cy_version = (if is_version_text version then Some (take 32 version) else None),
                cy_privileged = privileged,
                cy_actions = permitted_actions mode privileged (claimed_actions (js_get v ''actions'')),
                cy_schema = (if privileged then clamp (num_or0 (js_get v ''service_schema'')) 0 1000 else 0),
                cy_update = (if update \<in> {''current'', ''restarting''} then Some update else None),
                cy_observed = observed_at \<rparr>)"

section \<open>Metric points\<close>

text \<open>The fields in their order, and the ones a point may lack\<close>

definition metric_fields :: "string list" where
  "metric_fields = [''cpu'', ''mem'', ''disk'', ''load1'', ''load5'', ''load15'', ''process_count'', ''net_rx'', ''net_tx'', ''tcp_conns'',
     ''udp_conns'', ''disk_read'', ''disk_write'', ''cpu_temp'', ''gpu_temp'', ''gpu_util'', ''motherboard_temp'', ''disk_temp'', ''chipset_temp'']"

definition optional_fields :: "string list" where
  "optional_fields = [''cpu_temp'', ''gpu_temp'', ''gpu_util'', ''motherboard_temp'', ''disk_temp'', ''chipset_temp'']"

record chart_point =
  ch_ts :: rat
  ch_fields :: "(string \<times> rat) list"
  ch_sensors :: "jsval list"

definition finite_rat :: "jsnum \<Rightarrow> rat" where
  "finite_rat n = (case n of Fin q \<Rightarrow> q | _ \<Rightarrow> 0)"

definition normalize_metric_point :: "jsval \<Rightarrow> chart_point" where
  "normalize_metric_point p =
     (let b = (\<lambda>k hi. (k, bounded_metric (js_get p k) 0 hi)); c = (\<lambda>k. (k, of_int (bounded_count (js_get p k) max_metric_count)))
      in \<lparr> ch_ts = finite_rat (num_or0 (js_get p ''ts'')),
           ch_fields = [b ''cpu'' 100, b ''mem'' 100, b ''disk'' 100,
             (''load1'', bounded_metric (js_coalesce (js_get p ''load1'') (js_get p ''load'')) 0 1000000),
             b ''load5'' 1000000, b ''load15'' 1000000, c ''process_count'', b ''net_rx'' max_metric_rate, b ''net_tx'' max_metric_rate,
             c ''tcp_conns'', c ''udp_conns'', b ''disk_read'' max_metric_rate, b ''disk_write'' max_metric_rate] @
             List.map_filter (\<lambda>k. case js_Number (js_get p k) of
                 Fin q \<Rightarrow> Some (k, if k = ''gpu_util'' then max 0 (min 100 q) else max (- 100) (min 1000 q)) | _ \<Rightarrow> None) optional_fields,
           ch_sensors = normalize_temperature_sensors (js_get p ''temperature_sensors'') 16 \<rparr>)"

text \<open>The point as the JSON object it is stored as\<close>

definition chart_json :: "chart_point \<Rightarrow> jsval" where
  "chart_json c = Obj ([(''ts'', Num (Fin (ch_ts c)))] @ map (\<lambda>(k, q). (k, Num (Fin q))) (ch_fields c) @
     (if ch_sensors c = [] then [] else [(''temperature_sensors'', Arr (ch_sensors c))]))"

definition metric_field_group :: "string \<Rightarrow> string list option" where
  "metric_field_group g = map_of [(''cpu'', [''cpu'']), (''mem'', [''mem'']), (''disk'', [''disk'']), (''load'', [''load1'', ''load5'', ''load15'']),
     (''proc'', [''process_count'']), (''net'', [''net_rx'', ''net_tx'']), (''conns'', [''tcp_conns'', ''udp_conns'']),
     (''diskio'', [''disk_read'', ''disk_write'']), (''temp'', [''cpu_temp'', ''gpu_temp'', ''motherboard_temp'', ''disk_temp'', ''chipset_temp'']),
     (''gpu'', [''gpu_util'', ''gpu_temp''])] g"

definition metric_fields_for_request :: "jsval \<Rightarrow> string list option" where
  "metric_fields_for_request v =
     (let raw = js_lower (js_trim (str_or_empty v)) in
      if raw = [] then None
      else case metric_field_group raw of
             Some fs \<Rightarrow> Some fs
           | None \<Rightarrow> (let fs = filter (\<lambda>f. f \<in> set metric_fields) (map js_trim (js_split (CHR '','') raw))
                      in if fs = [] then None else Some (set_order fs)))"

text \<open>A field the point lacks becomes \<open>undefined\<close>, which JSON drops\<close>

definition select_metric_fields :: "string list option \<Rightarrow> jsval \<Rightarrow> chart_point" where
  "select_metric_fields wanted p =
     (let n = normalize_metric_point p
      in case wanted of
           None \<Rightarrow> n
         | Some fs \<Rightarrow> if fs = [] then n
             else n\<lparr> ch_fields := List.map_filter (\<lambda>f. map_option (Pair f) (map_of (ch_fields n) f)) fs \<rparr>)"

definition round_metric :: "rat \<Rightarrow> rat" where
  "round_metric q = of_int (round_half_up (q * 100)) / 100"

definition average_sensors :: "chart_point list \<Rightarrow> jsval list" where
  "average_sensors chunk =
     (let readings = concat (map (\<lambda>p. List.map_filter (\<lambda>s.
            let i = cut_text (js_get s ''id'') 64 in
            if i = [] \<or> cut_text (js_get s ''label'') 128 = [] then None
            else case js_Number (js_get s ''temp_c'') of
                   Fin q \<Rightarrow> Some (i, s, max (- 100) (min 1000 q)) | _ \<Rightarrow> None) (ch_sensors p)) chunk);
          grouped = group_by_target fst readings
      in map (\<lambda>(_, rs). sensor_object (fst (snd (hd rs))) (round_metric (mean (map (snd \<circ> snd) rs)))) grouped)"

definition average_metric_chunk :: "chart_point list \<Rightarrow> chart_point" where
  "average_metric_chunk chunk =
     \<lparr> ch_ts = of_int (round_half_up (mean (map ch_ts chunk))),
       ch_fields = List.map_filter (\<lambda>k.
         let vals = List.map_filter (\<lambda>p. map_of (ch_fields p) k) chunk in
         if vals \<noteq> [] then Some (k, round_metric (mean vals))
         else if k \<in> set optional_fields then None else Some (k, 0)) metric_fields,
       ch_sensors = average_sensors chunk \<rparr>"

definition compact_metric_points :: "jsval list \<Rightarrow> jsval \<Rightarrow> chart_point list" where
  "compact_metric_points points max_points =
     (let pts = sort_key ch_ts (filter (\<lambda>p. 0 < ch_ts p) (map normalize_metric_point points));
          limit = nat (clamp (num_or0 max_points) 2 5000)
      in if length pts \<le> limit then pts
         else let step = (length pts + limit - 1) div limit;
                  out = map average_metric_chunk (chunks_of step pts)
              in (out[0 := hd pts])[length out - 1 := last pts])"

definition limit_series :: "chart_point list \<Rightarrow> jsval \<Rightarrow> chart_point list" where
  "limit_series points max_points =
     (let pts = filter (\<lambda>p. 0 < ch_ts p) points; limit = nat (clamp (num_or0 max_points) 1 60); final = length pts - 1
      in if length pts \<le> limit then pts
         else if limit = 1 then [last pts]
         else map (\<lambda>i. pts ! nat (round_half_up (of_nat (i * final) / of_nat (limit - 1)))) [0..<limit])"

section \<open>Public query limits\<close>

definition env_limit :: "jsval \<Rightarrow> string \<Rightarrow> int \<Rightarrow> int \<Rightarrow> int \<Rightarrow> int" where
  "env_limit env key def lo hi = clamp (js_Number (js_or (js_get env key) (JInt def))) lo hi"

definition default_metrics_max_points_for_hours :: "int \<Rightarrow> jsval \<Rightarrow> int" where
  "default_metrics_max_points_for_hours hours env =
     (let h = (if hours = 0 then 24 else hours) in
      if h \<le> 1 then env_limit env ''AGENT_METRICS_MAX_POINTS_1H'' 3600 60 10000
      else if h \<le> 6 then env_limit env ''AGENT_METRICS_MAX_POINTS_6H'' 1800 60 10000
      else if h \<le> 24 then env_limit env ''AGENT_METRICS_MAX_POINTS_24H'' 1200 60 10000
      else env_limit env ''AGENT_METRICS_MAX_POINTS'' 900 60 10000)"

record metrics_query =
  mq_hours :: int
  mq_max_points :: int

text \<open>\<open>params\<close>: the query parameters; an absent one is \<open>Null\<close>\<close>

definition resolve_public_metrics_query :: "(string \<Rightarrow> jsval) \<Rightarrow> jsval \<Rightarrow> metrics_query" where
  "resolve_public_metrics_query params env =
     (let public_max = env_limit env ''AGENT_METRICS_PUBLIC_MAX_HOURS'' 72 1 168;
          hours = clamp (js_floor (js_Number (js_or (params ''hours'') (JInt 24)))) 1 public_max;
          hard_max = env_limit env ''AGENT_METRICS_HARD_MAX_POINTS'' 4000 60 10000;
          default_max = default_metrics_max_points_for_hours hours env;
          raw = (if params ''max_points'' \<noteq> Null then js_Number (params ''max_points'') else jsint default_max);
          wanted = (case raw of Fin q \<Rightarrow> if q \<le> 0 then default_max else \<lfloor>q\<rfloor> | _ \<Rightarrow> default_max)
      in \<lparr> mq_hours = hours, mq_max_points = max 60 (min hard_max wanted) \<rparr>)"

definition resolve_public_proxy_checks_query :: "(string \<Rightarrow> jsval) \<Rightarrow> jsval \<Rightarrow> metrics_query" where
  "resolve_public_proxy_checks_query params env =
     (let public_max = env_limit env ''PROXY_CHECK_PUBLIC_MAX_HOURS'' 720 1 720;
          hours = clamp (js_floor (js_Number (js_or (params ''hours'') (JInt 24)))) 1 public_max;
          hard_max = env_limit env ''PROXY_CHECK_HARD_MAX_POINTS'' 50000 1 50000;
          raw = js_Number (js_or (params ''max_points'') (JInt hard_max));
          wanted = (case raw of Fin q \<Rightarrow> if 0 < q then \<lfloor>q\<rfloor> else hard_max | _ \<Rightarrow> hard_max)
      in \<lparr> mq_hours = hours, mq_max_points = max 1 (min hard_max wanted) \<rparr>)"

section \<open>Least privilege\<close>

lemma claimed_actions_known: "set (claimed_actions a) \<subseteq> set agent_actions"
  by (auto simp: claimed_actions_def dest!: in_set_takeD split: jsval.split)

lemma claimed_actions_distinct: "distinct (claimed_actions a)"
  by (auto simp: claimed_actions_def split: jsval.split)

lemma permitted_actions_known:
  assumes "set xs \<subseteq> set agent_actions" "distinct xs"
  shows "set (permitted_actions m p xs) \<subseteq> set agent_actions \<and> distinct (permitted_actions m p xs)"
  using assms by (auto simp: permitted_actions_def Let_def)

lemma permitted_actions_mode:
  "permitted_actions TelemetryOnly p xs = []" "set (permitted_actions Compatibility p xs) \<subseteq> {''ip_unlock''}"
  "''nodequality'' \<notin> set (permitted_actions m False xs)"
  by (auto simp: permitted_actions_def Let_def)

lemma capabilities_fields:
  assumes "normalize_agent_capabilities v observed_at = Some c"
  defines "mode \<equiv> agent_mode_of (js_get v ''mode'')"
  defines "privileged \<equiv> mode = Manager \<and> js_get v ''privileged'' = Bool True"
  shows "cy_mode c = mode" "cy_privileged c = privileged"
    "cy_actions c = permitted_actions mode privileged (claimed_actions (js_get v ''actions''))"
    "cy_schema c = (if privileged then clamp (num_or0 (js_get v ''service_schema'')) 0 1000 else 0)"
  using assms(1) unfolding normalize_agent_capabilities_def Let_def mode_def privileged_def
  by (auto split: if_split_asm)

text \<open>
  CX: Whatever an Agent claims, its recorded capabilities grant no more than its mode: a telemetry-only Agent has no action, one in
  compatibility mode at most \<open>ip_unlock\<close>, only a privileged manager has \<open>nodequality\<close> or a service schema, only a
  manager is privileged, and every action is one of the known ones, listed once.
\<close>

theorem capabilities_least_privilege:
  assumes "normalize_agent_capabilities v observed_at = Some c"
  shows "(cy_mode c = TelemetryOnly \<longrightarrow> cy_actions c = []) \<and>
    (cy_mode c = Compatibility \<longrightarrow> set (cy_actions c) \<subseteq> {''ip_unlock''}) \<and>
    (''nodequality'' \<in> set (cy_actions c) \<longrightarrow> cy_privileged c) \<and> (cy_privileged c \<longrightarrow> cy_mode c = Manager) \<and>
    (cy_schema c \<noteq> 0 \<longrightarrow> cy_privileged c) \<and> 0 \<le> cy_schema c \<and> cy_schema c \<le> 1000 \<and>
    set (cy_actions c) \<subseteq> set agent_actions \<and> distinct (cy_actions c)"
proof -
  let ?mode = "agent_mode_of (js_get v ''mode'')"
  have c: "cy_mode c = ?mode" "cy_privileged c \<longleftrightarrow> ?mode = Manager \<and> js_get v ''privileged'' = Bool True"
    "cy_actions c = permitted_actions (cy_mode c) (cy_privileged c) (claimed_actions (js_get v ''actions''))"
    "cy_schema c = (if cy_privileged c then clamp (num_or0 (js_get v ''service_schema'')) 0 1000 else 0)"
    using capabilities_fields [OF assms] by simp_all
  show ?thesis
    unfolding c(3,4) using c(1,2) permitted_actions_mode permitted_actions_known [OF claimed_actions_known claimed_actions_distinct]
      clamp_bounds [of 0 1000 "num_or0 (js_get v ''service_schema'')"]
    by (cases "cy_mode c") auto
qed

lemma capabilities_least_privilege_witness:
  "\<exists>c. normalize_agent_capabilities (Obj [(''protocol'', JInt 1), (''mode'', Str ''compatibility''),
      (''actions'', Arr [Str ''nodequality'', Str ''ip_unlock''])]) 7 = Some c \<and> set (cy_actions c) \<subseteq> {''ip_unlock''}"
proof -
  let ?v = "Obj [(''protocol'', JInt 1), (''mode'', Str ''compatibility''), (''actions'', Arr [Str ''nodequality'', Str ''ip_unlock''])]"
  have "agent_mode_of (js_get ?v ''mode'') = Compatibility" by code_simp
  then obtain c where c: "normalize_agent_capabilities ?v 7 = Some c" "cy_mode c = Compatibility"
    by (simp add: normalize_agent_capabilities_def Let_def js_is_record_def)
  from capabilities_least_privilege [OF c(1)] c show ?thesis by blast
qed

end
