(* ===== verification/AlertRules.thy ===== *)
theory AlertRules
  imports Traffic AgentState
begin

text \<open>
  The rules of \<open>worker/src/alerts.js\<close>: the rows of \<open>alert_state\<close> with the cache a run keeps of them, the
  collectors that compare a target with its thresholds, and the pass of a run over all targets.

  \<^item> A row is keyed by target and rule. A run reads the cache only (\<open>ALERT_STATE_CACHE\<close>), which it fills with
    every row, and writes both; a failing write ends the run.
  \<^item> A collector takes the state and the messages found so far. A message carries the values of its text (the
    wording and the localized dates are not modelled) and the change to commit once it has been handed over.
  \<^item> \<open>tick target rule\<close> is the clock \<open>enqueueActiveAlert\<close> reads, \<open>date_ms\<close> the platform's date parser,
    \<open>json\<close> its JSON parser.
\<close>

section \<open>The rows\<close>

type_synonym alert_key = "string \<times> string"

record alert_row =
  ar_active :: bool
  ar_value :: "jsnum option"
  ar_opened :: "int option"
  ar_resolved :: "int option"
  ar_last_sent :: "int option"
  ar_updated :: int

type_synonym alert_rows = "(alert_key \<times> alert_row) list"

record alert_tables =
  at_db :: alert_rows
  at_cache :: alert_rows

definition open_alert_tables :: "alert_rows \<Rightarrow> alert_tables" where
  "open_alert_tables rows = \<lparr> at_db = rows, at_cache = rows \<rparr>"

definition get_alert_state :: "alert_tables \<Rightarrow> alert_key \<Rightarrow> alert_row option" where
  "get_alert_state st k = map_of (at_cache st) k"

definition is_active :: "alert_row option \<Rightarrow> bool" where
  "is_active r = (case r of Some x \<Rightarrow> ar_active x | None \<Rightarrow> False)"

definition active_row :: "int \<Rightarrow> jsnum option \<Rightarrow> int option \<Rightarrow> alert_row" where
  "active_row now v opened =
     \<lparr> ar_active = True, ar_value = v, ar_opened = opened, ar_resolved = None, ar_last_sent = Some now, ar_updated = now \<rparr>"

definition mark_active :: "alert_key \<Rightarrow> int \<Rightarrow> jsnum option \<Rightarrow> alert_tables \<Rightarrow> alert_tables" where
  "mark_active k now v st =
     (let opened = (case map_of (at_db st) k of Some r \<Rightarrow> if ar_active r then ar_opened r else Some now | None \<Rightarrow> Some now)
      in \<lparr> at_db = AList.update k (active_row now v opened) (at_db st),
           at_cache = AList.update k (active_row now v (Some now)) (at_cache st) \<rparr>)"

definition resolved_row :: "int \<Rightarrow> alert_row option \<Rightarrow> alert_row" where
  "resolved_row now old =
     (case old of
        Some r \<Rightarrow> r\<lparr> ar_active := False, ar_resolved := Some now, ar_updated := now \<rparr>
      | None \<Rightarrow> \<lparr> ar_active = False, ar_value = None, ar_opened = None, ar_resolved = Some now, ar_last_sent = None, ar_updated = now \<rparr>)"

definition mark_resolved :: "alert_key \<Rightarrow> int \<Rightarrow> alert_tables \<Rightarrow> alert_tables" where
  "mark_resolved k now st =
     \<lparr> at_db = AList.update k (resolved_row now (map_of (at_db st) k)) (at_db st),
       at_cache = AList.update k (resolved_row now (map_of (at_cache st) k)) (at_cache st) \<rparr>"

definition clear_if_active :: "alert_key \<Rightarrow> int \<Rightarrow> alert_tables \<Rightarrow> alert_tables" where
  "clear_if_active k now st = (if is_active (get_alert_state st k) then mark_resolved k now st else st)"

text \<open>\<open>clearTrafficStates\<close> and \<open>clearExpiryStates\<close>: every active row of the target whose rule has the prefix\<close>

definition clear_rules_with :: "string \<Rightarrow> string \<Rightarrow> int \<Rightarrow> alert_tables \<Rightarrow> alert_tables" where
  "clear_rules_with prefix target now st =
     fold (\<lambda>k. mark_resolved k now)
       (map fst (filter (\<lambda>(k, r). fst k = target \<and> starts_with prefix (snd k) \<and> ar_active r) (at_cache st))) st"

definition clear_traffic_states :: "string \<Rightarrow> int \<Rightarrow> alert_tables \<Rightarrow> alert_tables" where
  "clear_traffic_states = clear_rules_with ''traffic:''"

definition clear_expiry_states :: "string \<Rightarrow> int \<Rightarrow> alert_tables \<Rightarrow> alert_tables" where
  "clear_expiry_states = clear_rules_with ''expiry:''"

section \<open>Messages\<close>

datatype alert_text =
    ProbeStale string jsnum jsnum int
  | ProbeFresh string jsnum
  | ProbeDown string jsnum jsnum string
  | ProbeUp string jsval jsval
  | AgentOffline string int int jsval
  | AgentOnline string int int
  | MetricOver string string jsnum jsnum int
  | ExpirySoon string rat int jsval jsval jsval
  | TrafficLow string traffic_mode traffic_period rat int rat rat rat "jsnum option" "jsnum option"

datatype alert_commit = Activate int "jsnum option" | Resolve int

record alert_message =
  am_key :: alert_key
  am_text :: alert_text
  am_commit :: alert_commit

type_synonym alert_pass_state = "alert_tables \<times> alert_message list"

definition commit_message :: "alert_message \<Rightarrow> alert_tables \<Rightarrow> alert_tables" where
  "commit_message m st =
     (case am_commit m of Activate t v \<Rightarrow> mark_active (am_key m) t v st | Resolve t \<Rightarrow> mark_resolved (am_key m) t st)"

definition push_message :: "alert_key \<Rightarrow> alert_text \<Rightarrow> alert_commit \<Rightarrow> alert_pass_state \<Rightarrow> alert_pass_state" where
  "push_message k txt c s = (fst s, snd s @ [\<lparr> am_key = k, am_text = txt, am_commit = c \<rparr>])"

definition repeat_sec :: "jsval \<Rightarrow> int" where
  "repeat_sec settings = clamp (js_Number (js_or (js_get settings ''repeat_minutes'') (JInt 360))) 0 10080 * 60"

definition should_send :: "jsval \<Rightarrow> int \<Rightarrow> alert_row option \<Rightarrow> bool" where
  "should_send settings now state =
     (case state of
        None \<Rightarrow> True
      | Some r \<Rightarrow> \<not> ar_active r \<or>
          (case ar_last_sent r of None \<Rightarrow> True
           | Some s \<Rightarrow> s = 0 \<or> (0 < repeat_sec settings \<and> repeat_sec settings \<le> now - s)))"

definition enqueue_active_alert ::
  "jsval \<Rightarrow> int \<Rightarrow> (string \<Rightarrow> string \<Rightarrow> int) \<Rightarrow> alert_key \<Rightarrow> alert_text \<Rightarrow> jsnum \<Rightarrow> alert_pass_state \<Rightarrow> alert_pass_state" where
  "enqueue_active_alert settings max_messages tick k txt v s =
     (if max_messages \<le> int (length (snd s)) then s
      else let now = tick (fst k) (snd k) in
           if should_send settings now (get_alert_state (fst s) k) then push_message k txt (Activate now (Some v)) s else s)"

text \<open>The message of a recovery, or the silent change\<close>

definition announce_recovery :: "jsval \<Rightarrow> alert_key \<Rightarrow> alert_text \<Rightarrow> int \<Rightarrow> alert_pass_state \<Rightarrow> alert_pass_state" where
  "announce_recovery settings k txt now s =
     (if js_truthy (js_get settings ''notify_online'') then push_message k txt (Resolve now) s
      else (mark_resolved k now (fst s), snd s))"

definition clear_one :: "alert_key \<Rightarrow> int \<Rightarrow> alert_pass_state \<Rightarrow> alert_pass_state" where
  "clear_one k now s = (clear_if_active k now (fst s), snd s)"

section \<open>Readings of a target\<close>

definition target_key :: "jsval \<Rightarrow> string" where
  "target_key target = str_or_empty (js_get target ''id'')"

definition target_label :: "jsval \<Rightarrow> string" where
  "target_label target =
     (let name = js_trim (js_String (js_or (js_get target ''name'') (js_or (js_get target ''id'') (Str []))));
          i = js_trim (target_key target)
      in if name \<noteq> [] \<and> i \<noteq> [] \<and> name \<noteq> i then name @ '' ('' @ i @ '')''
         else if name \<noteq> [] then name else if i \<noteq> [] then i else ''unknown'')"

definition offline_threshold_sec :: "jsval \<Rightarrow> int" where
  "offline_threshold_sec settings = clamp (js_Number (js_or (js_get settings ''offline_minutes'') (JInt 10))) 1 1440 * 60"

definition probe_stale_threshold_sec :: "jsval \<Rightarrow> jsval \<Rightarrow> int" where
  "probe_stale_threshold_sec settings target =
     max (offline_threshold_sec settings) (clamp (js_Number (js_or (js_get target ''interval_sec'') (JInt 300))) 60 86400 * 3)"

definition latest_probe_at :: "jsval \<Rightarrow> jsval \<Rightarrow> jsnum" where
  "latest_probe_at target probe = js_max (num_or0 (js_get probe ''checked_at'')) (num_or0 (js_get target ''last_checked_at''))"

definition is_probe_stale :: "jsval \<Rightarrow> jsval \<Rightarrow> jsval \<Rightarrow> int \<Rightarrow> bool" where
  "is_probe_stale settings target probe now =
     (let last_at = latest_probe_at target probe
      in num_truthy last_at \<and> js_le (jsint (probe_stale_threshold_sec settings target)) (js_sub (jsint now) last_at))"

definition is_agent_only_probe :: "jsval \<Rightarrow> jsval \<Rightarrow> bool" where
  "is_agent_only_probe target probe =
     (js_includes ''private host'' (js_lower (str_or_empty (js_get probe ''error''))) \<or>
      (js_get target ''type'' = Str ''tcp'' \<and> is_private_host (str_or_empty (js_get target ''target_host''))))"

definition metric_updated_at_sec :: "(jsval \<Rightarrow> int option) \<Rightarrow> jsval \<Rightarrow> int" where
  "metric_updated_at_sec date_ms metric =
     (if \<not> js_truthy (js_get metric ''updated_at'') then 0
      else case date_ms (js_get metric ''updated_at'') of None \<Rightarrow> 0 | Some ms \<Rightarrow> ms div 1000)"

section \<open>The collectors\<close>

definition collect_probe_stale_alert ::
  "jsval \<Rightarrow> int \<Rightarrow> (string \<Rightarrow> string \<Rightarrow> int) \<Rightarrow> jsval \<Rightarrow> jsval \<Rightarrow> int \<Rightarrow> alert_pass_state \<Rightarrow> alert_pass_state" where
  "collect_probe_stale_alert settings max_messages tick target probe now s =
     (let k = (target_key target, ''probe_stale''); last_at = latest_probe_at target probe;
          gone = js_sub (jsint now) last_at; limit = probe_stale_threshold_sec settings target
      in if is_agent_only_probe target probe then clear_one k now s
         else if \<not> num_truthy last_at then s
         else if js_le (jsint limit) gone
              then enqueue_active_alert settings max_messages tick k (ProbeStale (target_label target) last_at gone limit) gone s
         else if is_active (get_alert_state (fst s) k)
              then announce_recovery settings k (ProbeFresh (target_label target) last_at) now s
         else s)"

definition collect_probe_down_alert ::
  "jsval \<Rightarrow> int \<Rightarrow> (string \<Rightarrow> string \<Rightarrow> int) \<Rightarrow> jsval \<Rightarrow> jsval \<Rightarrow> int \<Rightarrow> alert_pass_state \<Rightarrow> alert_pass_state" where
  "collect_probe_down_alert settings max_messages tick target probe now s =
     (let k = (target_key target, ''probe_down'') in
      if \<not> js_truthy probe \<or> is_agent_only_probe target probe \<or> is_probe_stale settings target probe now
      then (if is_agent_only_probe target probe then clear_one k now s else s)
      else if num_or0 (js_get probe ''ok'') \<noteq> Fin 1 then
        (let since = num_or (js_Number (js_or (js_get probe ''current_outage_started_at'') (js_or (js_get probe ''checked_at'') (JInt 0)))) (jsint now);
             gone = js_sub (jsint now) since
         in if js_lt gone (jsint (offline_threshold_sec settings)) then s
            else enqueue_active_alert settings max_messages tick k
                   (ProbeDown (target_label target) since gone (take 180 (str_or_empty (js_get probe ''error'')))) gone s)
      else if is_active (get_alert_state (fst s) k)
           then announce_recovery settings k
                  (ProbeUp (target_label target) (js_or (js_get probe ''checked_at'') (JInt now)) (js_get probe ''latency_ms'')) now s
      else s)"

definition collect_offline_alert ::
  "jsval \<Rightarrow> int \<Rightarrow> (string \<Rightarrow> string \<Rightarrow> int) \<Rightarrow> (jsval \<Rightarrow> int option) \<Rightarrow> jsval \<Rightarrow> jsval \<Rightarrow> int \<Rightarrow> int \<Rightarrow> alert_pass_state \<Rightarrow> alert_pass_state" where
  "collect_offline_alert settings max_messages tick date_ms target metric heartbeat_at now s =
     (let k = (target_key target, ''agent_offline''); seen = max (metric_updated_at_sec date_ms metric) heartbeat_at
      in if seen = 0 then clear_one k now s
         else if offline_threshold_sec settings \<le> now - seen
              then enqueue_active_alert settings max_messages tick k
                     (AgentOffline (target_label target) seen (now - seen) (js_get settings ''offline_minutes'')) (jsint (now - seen)) s
         else if is_active (get_alert_state (fst s) k)
              then announce_recovery settings k (AgentOnline (target_label target) now seen) now s
         else s)"

text \<open>\<open>parseJsonSafe\<close> and \<open>metricValues\<close>\<close>

definition parse_json_safe :: "(string \<Rightarrow> jsval option) \<Rightarrow> jsval \<Rightarrow> jsval" where
  "parse_json_safe json v =
     (case v of
        Obj m \<Rightarrow> Obj m
      | Str t \<Rightarrow> (if t = [] then Obj [] else case json t of Some (Obj m) \<Rightarrow> Obj m | _ \<Rightarrow> Obj [])
      | _ \<Rightarrow> Obj [])"

definition metric_reading :: "(string \<Rightarrow> jsval option) \<Rightarrow> jsval \<Rightarrow> string \<Rightarrow> string \<Rightarrow> jsnum" where
  "metric_reading json metric part key = num_or0 (js_get (parse_json_safe json (js_get metric part)) key)"

definition mib_setting :: "jsval \<Rightarrow> string \<Rightarrow> jsnum" where
  "mib_setting settings key = js_mul (num_or0 (js_get settings key)) (jsint (1024 * 1024))"

text \<open>Rule, value and threshold, in the order of the code\<close>

definition metric_rules :: "(string \<Rightarrow> jsval option) \<Rightarrow> jsval \<Rightarrow> jsval \<Rightarrow> (string \<times> jsnum \<times> jsnum) list" where
  "metric_rules json settings metric =
     [(''metric_cpu'', num_or0 (js_get metric ''cpu_percent''), num_or0 (js_get settings ''cpu_percent'')),
      (''metric_memory'', metric_reading json metric ''memory'' ''percent'', num_or0 (js_get settings ''memory_percent'')),
      (''metric_disk'', metric_reading json metric ''disk'' ''percent'', num_or0 (js_get settings ''disk_percent'')),
      (''metric_load1'', metric_reading json metric ''load'' ''load1'', num_or0 (js_get settings ''load1'')),
      (''metric_disk_read'', metric_reading json metric ''diskio'' ''read_bytes_sec'', mib_setting settings ''disk_read_mb_s''),
      (''metric_disk_write'', metric_reading json metric ''diskio'' ''write_bytes_sec'', mib_setting settings ''disk_write_mb_s''),
      (''metric_net_rx'', metric_reading json metric ''net'' ''rx_bytes_sec'', mib_setting settings ''net_rx_mb_s''),
      (''metric_net_tx'', metric_reading json metric ''net'' ''tx_bytes_sec'', mib_setting settings ''net_tx_mb_s''),
      (''metric_process_count'', num_or0 (js_get metric ''process_count''), num_or0 (js_get settings ''process_count'')),
      (''metric_thread_count'', js_Number (js_or (js_get metric ''thread_count'') (js_or (js_get metric ''process_count'') (JInt 0))),
         num_or0 (js_get settings ''thread_count'')),
      (''metric_agent_rss'', metric_reading json metric ''agent_process'' ''rss_bytes'', jsint (256 * 1024 * 1024))]"

definition check_metric_rule ::
  "jsval \<Rightarrow> int \<Rightarrow> (string \<Rightarrow> string \<Rightarrow> int) \<Rightarrow> jsval \<Rightarrow> int \<Rightarrow> int \<Rightarrow> string \<times> jsnum \<times> jsnum \<Rightarrow> alert_pass_state \<Rightarrow> alert_pass_state" where
  "check_metric_rule settings max_messages tick target seen now rule s =
     (let (r, v, limit) = rule; k = (target_key target, r) in
      if max_messages \<le> int (length (snd s)) then s
      else if \<not> js_isFinite v \<or> \<not> js_isFinite limit \<or> js_le limit (Fin 0) then clear_one k now s
      else if js_lt limit v then enqueue_active_alert settings max_messages tick k (MetricOver (target_label target) r v limit seen) v s
      else clear_one k now s)"

definition collect_metric_alerts ::
  "jsval \<Rightarrow> int \<Rightarrow> (string \<Rightarrow> string \<Rightarrow> int) \<Rightarrow> (jsval \<Rightarrow> int option) \<Rightarrow> (string \<Rightarrow> jsval option) \<Rightarrow> jsval \<Rightarrow> jsval \<Rightarrow> int
   \<Rightarrow> alert_pass_state \<Rightarrow> alert_pass_state" where
  "collect_metric_alerts settings max_messages tick date_ms json target metric now s =
     (let seen = metric_updated_at_sec date_ms metric in
      if \<not> js_truthy metric \<or> seen = 0 \<or> 2 * offline_threshold_sec settings < now - seen then s
      else fold (check_metric_rule settings max_messages tick target seen now) (metric_rules json settings metric) s)"

definition expiry_days_left :: "rat \<Rightarrow> int \<Rightarrow> int" where
  "expiry_days_left expires now = \<lceil>(expires - of_int now) / 86400\<rceil>"

definition collect_expiry_alert ::
  "jsval \<Rightarrow> int \<Rightarrow> (string \<Rightarrow> string \<Rightarrow> int) \<Rightarrow> jsval \<Rightarrow> int \<Rightarrow> alert_pass_state \<Rightarrow> alert_pass_state" where
  "collect_expiry_alert settings max_messages tick target now s =
     (let cleared = (clear_expiry_states (target_key target) now (fst s), snd s) in
      case (num_or0 (js_get target ''expires_at''), num_or0 (js_get settings ''expiry_days'')) of
        (Fin expires, Fin days) \<Rightarrow>
          (let left = expiry_days_left expires now in
           if expires \<le> 0 \<or> days \<le> 0 \<or> left < 0 \<or> days < of_int left then cleared
           else enqueue_active_alert settings max_messages tick (target_key target, ''expiry:'' @ num_str (Fin expires))
                  (ExpirySoon (target_label target) expires left (js_get target ''price'')
                     (js_or (js_get target ''currency'') (Str ''USD'')) (js_get target ''billing_cycle''))
                  (jsint left) s)
      | _ \<Rightarrow> cleared)"

definition traffic_remaining :: "traffic_summary \<Rightarrow> rat" where
  "traffic_remaining t = max 0 (of_int (sm_quota_bytes t) - sm_total t)"

definition traffic_remaining_percent :: "traffic_summary \<Rightarrow> rat" where
  "traffic_remaining_percent t =
     (if 0 < sm_quota_bytes t then max 0 (100 - (case sm_percent t of Some p \<Rightarrow> p | None \<Rightarrow> 0)) else 100)"

text \<open>A limit that is set and reached\<close>

definition limit_hit :: "jsnum \<Rightarrow> rat \<Rightarrow> rat \<Rightarrow> bool" where
  "limit_hit limit unit remaining = (case limit of Fin q \<Rightarrow> 0 < q \<and> remaining \<le> q * unit | _ \<Rightarrow> False)"

definition collect_traffic_alert ::
  "jsval \<Rightarrow> int \<Rightarrow> (string \<Rightarrow> string \<Rightarrow> int) \<Rightarrow> (jsval \<Rightarrow> int option) \<Rightarrow> (string \<Rightarrow> jsval option) \<Rightarrow> jsval
   \<Rightarrow> jsval \<Rightarrow> (string \<Rightarrow> string \<Rightarrow> month_row option) \<Rightarrow> jsval \<Rightarrow> int \<Rightarrow> alert_pass_state \<Rightarrow> alert_pass_state" where
  "collect_traffic_alert settings max_messages tick date_ms json env target months metric now s =
     (let ts = traffic_settings_from_target target env now in
      if \<not> st_enabled ts \<or> st_quota_bytes ts \<le> 0 then (clear_traffic_states (target_key target) now (fst s), snd s)
      else let row = months (sanitize_agent_id (js_get target ''id'')) (tp_month (st_period ts));
               t = summarize_traffic_with_pending date_ms json row ts metric;
               left = traffic_remaining t; left_percent = traffic_remaining_percent t;
               percent_limit = num_or0 (js_get settings ''traffic_remaining_percent'');
               gb_limit = num_or0 (js_get settings ''traffic_remaining_gb'');
               hit_percent = limit_hit percent_limit 1 left_percent;
               hit_gb = limit_hit gb_limit (1024 * 1024 * 1024) left;
               k = (target_key target, ''traffic:'' @ tp_month (sm_period t))
           in if \<not> hit_percent \<and> \<not> hit_gb then clear_one k now s
              else enqueue_active_alert settings max_messages tick k
                     (TrafficLow (target_label target) (sm_mode t) (sm_period t) (sm_total t) (sm_quota_bytes t)
                        (case sm_percent t of Some p \<Rightarrow> p | None \<Rightarrow> 0) left left_percent
                        (if hit_percent then Some percent_limit else None) (if hit_gb then Some gb_limit else None))
                     (Fin left) s)"

section \<open>The pass over the targets\<close>

record alert_inputs =
  ai_settings :: jsval
  ai_env :: jsval
  ai_now :: int
  ai_max :: int
  ai_tick :: "string \<Rightarrow> string \<Rightarrow> int"
  ai_date :: "jsval \<Rightarrow> int option"
  ai_json :: "string \<Rightarrow> jsval option"
  ai_targets :: "jsval list"
  ai_metrics :: "string \<Rightarrow> jsval"
  ai_heartbeats :: "string \<Rightarrow> int"
  ai_months :: "string \<Rightarrow> string \<Rightarrow> month_row option"
  ai_probes :: "string \<Rightarrow> jsval"

definition override_number :: "jsval \<Rightarrow> jsval \<Rightarrow> jsval" where
  "override_number v fallback =
     (if js_nullish v \<or> v = Str [] then fallback
      else case js_Number v of Fin q \<Rightarrow> if 0 \<le> q then Num (Fin q) else fallback | _ \<Rightarrow> fallback)"

definition target_alert_settings :: "jsval \<Rightarrow> jsval \<Rightarrow> jsval" where
  "target_alert_settings target settings =
     (let over = (\<lambda>key s. js_set s key (override_number (js_get target (''alert_'' @ key)) (js_get settings key)));
          s1 = js_set settings ''enabled''
            (Bool (if js_nullish (js_get target ''alert_enabled'') then True else parse_boolean (js_get target ''alert_enabled'') True))
      in over ''traffic_remaining_gb'' (over ''traffic_remaining_percent'' (over ''expiry_days'' s1)))"

definition unless_full :: "int \<Rightarrow> (alert_pass_state \<Rightarrow> alert_pass_state) \<Rightarrow> alert_pass_state \<Rightarrow> alert_pass_state" where
  "unless_full max_messages f s = (if max_messages \<le> int (length (snd s)) then s else f s)"

definition target_collectors :: "alert_inputs \<Rightarrow> jsval \<Rightarrow> (alert_pass_state \<Rightarrow> alert_pass_state) list" where
  "target_collectors inp target =
     (let settings = target_alert_settings target (ai_settings inp); limit = ai_max inp; tick = ai_tick inp; now = ai_now inp;
          agent = sanitize_agent_id (js_get target ''id'');
          metric = ai_metrics inp agent; probe = ai_probes inp (target_key target)
      in [collect_probe_stale_alert settings limit tick target probe now,
          collect_probe_down_alert settings limit tick target probe now,
          collect_offline_alert settings limit tick (ai_date inp) target metric (ai_heartbeats inp agent) now,
          collect_metric_alerts settings limit tick (ai_date inp) (ai_json inp) target metric now,
          collect_expiry_alert settings limit tick target now,
          collect_traffic_alert settings limit tick (ai_date inp) (ai_json inp) (ai_env inp) target (ai_months inp) metric now])"

text \<open>The loop leaves off at the first check that finds the list full\<close>

definition check_target :: "alert_inputs \<Rightarrow> jsval \<Rightarrow> alert_pass_state \<Rightarrow> alert_pass_state" where
  "check_target inp target s =
     (if js_truthy (js_get (target_alert_settings target (ai_settings inp)) ''enabled'')
      then fold (unless_full (ai_max inp)) (target_collectors inp target) s else s)"

definition check_targets :: "alert_inputs \<Rightarrow> alert_pass_state \<Rightarrow> alert_pass_state" where
  "check_targets inp s = fold (\<lambda>t. unless_full (ai_max inp) (check_target inp t)) (ai_targets inp) s"

text \<open>\<open>clearOrphanedAlertStates\<close>: by the rows read at the start, those of targets that are not enabled\<close>

definition clear_orphaned_alert_states :: "jsval list \<Rightarrow> alert_rows \<Rightarrow> int \<Rightarrow> alert_tables \<Rightarrow> alert_tables" where
  "clear_orphaned_alert_states targets rows now st =
     (let enabled = filter (\<lambda>i. i \<noteq> []) (map target_key targets)
      in fold (\<lambda>k. mark_resolved k now) (map fst (filter (\<lambda>(k, r). ar_active r \<and> fst k \<notin> set enabled) rows)) st)"

definition alert_pass :: "alert_inputs \<Rightarrow> alert_rows \<Rightarrow> alert_pass_state" where
  "alert_pass inp rows =
     (let (st, ms) = check_targets inp (open_alert_tables rows, [])
      in (clear_orphaned_alert_states (ai_targets inp) rows (ai_now inp) st, ms))"

section \<open>What the pass reads\<close>

definition metrics_by_agent :: "jsval option list \<Rightarrow> (string \<times> jsval) list" where
  "metrics_by_agent rows =
     upserts (\<lambda>row. sanitize_agent_id (js_get row ''agent_id''))
       (filter (\<lambda>row. sanitize_agent_id (js_get row ''agent_id'') \<noteq> []) (List.map_filter id rows)) []"

definition last_seen_by_agent :: "(string \<times> jsval) list \<Rightarrow> (string \<times> int) list" where
  "last_seen_by_agent seen =
     fold (\<lambda>(key, v) m. let i = sanitize_agent_id (Str key);
              at_sec = (case js_Number v of Fin q \<Rightarrow> \<lfloor>q\<rfloor> | _ \<Rightarrow> 0)
            in if i \<noteq> [] \<and> 0 < at_sec then AList.update i at_sec m else m) seen []"

text \<open>A state of the object storage wins over a row only when it is newer\<close>

definition latest_by_target :: "jsval list \<Rightarrow> (string \<times> jsval) list \<Rightarrow> (string \<times> jsval) list" where
  "latest_by_target rows states =
     fold (\<lambda>(i, state) m.
         if (case map_of m i of None \<Rightarrow> True
             | Some current \<Rightarrow> js_lt (num_or0 (js_get current ''checked_at'')) (num_or0 (js_get state ''checked_at'')))
         then AList.update i state m else m)
       states
       (upserts (\<lambda>row. js_String (js_get row ''target_id''))
          (filter (\<lambda>row. js_truthy (js_get row ''target_id'')) rows) [])"

end
