(* ===== verification/AlertLifecycle.thy ===== *)
theory AlertLifecycle
  imports AlertRules
begin

text \<open>
  What a pass of the alert rules does to the rows and which messages it finds: the cache agrees with the
  table, each rule of a target has at most one message, a message is due by the rows the pass started from,
  and no row of a target that is not enabled stays active.
\<close>

section \<open>The store of incidents\<close>

text \<open>Whether a key is active and when its last message was sent, whatever keeps it.\<close>

locale incident_store =
  fixes status :: "'s \<Rightarrow> alert_key \<Rightarrow> (bool \<times> int option) option"
    and activate :: "alert_key \<Rightarrow> int \<Rightarrow> jsnum option \<Rightarrow> 's \<Rightarrow> 's"
    and settle :: "alert_key \<Rightarrow> int \<Rightarrow> 's \<Rightarrow> 's"
  assumes status_activate: "status (activate k t v s) = (status s)(k := Some (True, Some t))"
    and status_settle: "status (settle k t s) = (status s)(k := Some (False, Option.bind (status s k) snd))"
begin

lemma status_settle_all:
  "status (fold (\<lambda>k. settle k t) ks s) k = (if k \<in> set ks then Some (False, Option.bind (status s k) snd) else status s k)"
proof (induction ks arbitrary: s)
  case (Cons x ks)
  show ?case
    unfolding fold_Cons comp_def Cons.IH status_settle by (cases "status s x") auto
qed simp

definition carry_out :: "alert_message \<Rightarrow> 's \<Rightarrow> 's" where
  "carry_out m s = (case am_commit m of Activate t v \<Rightarrow> activate (am_key m) t v s | Resolve t \<Rightarrow> settle (am_key m) t s)"

definition outcome :: "alert_message \<Rightarrow> (bool \<times> int option) option \<Rightarrow> bool \<times> int option" where
  "outcome m old = (case am_commit m of Activate t _ \<Rightarrow> (True, Some t) | Resolve _ \<Rightarrow> (False, Option.bind old snd))"

lemma status_carry_out: "status (carry_out m s) = (status s)(am_key m := Some (outcome m (status s (am_key m))))"
  by (simp add: carry_out_def outcome_def status_activate status_settle split: alert_commit.split)

lemma status_carry_out_other: "k \<notin> am_key ` set ms \<Longrightarrow> status (fold carry_out ms s) k = status s k"
  by (induction ms arbitrary: s) (auto simp: status_carry_out)

lemma status_carry_out_all:
  assumes "distinct (map am_key ms)" "m \<in> set ms"
  shows "status (fold carry_out ms s) (am_key m) = Some (outcome m (status s (am_key m)))"
  using assms
proof (induction ms arbitrary: s)
  case (Cons x ms)
  show ?case
  proof (cases "x = m")
    case True
    with Cons.prems show ?thesis by (simp add: status_carry_out status_carry_out_other)
  next
    case False
    with Cons.prems have m: "m \<in> set ms" by simp
    then have "am_key m \<noteq> am_key x" using Cons.prems(1) by (metis distinct.simps(2) imageI list.simps(9) set_map)
    with m Cons show ?thesis by (simp add: status_carry_out)
  qed
qed simp

end

definition row_view :: "alert_row \<Rightarrow> bool \<times> int option" where
  "row_view r = (ar_active r, ar_last_sent r)"

definition db_status :: "alert_tables \<Rightarrow> alert_key \<Rightarrow> (bool \<times> int option) option" where
  "db_status st k = map_option row_view (map_of (at_db st) k)"

definition cache_status :: "alert_tables \<Rightarrow> alert_key \<Rightarrow> (bool \<times> int option) option" where
  "cache_status st k = map_option row_view (get_alert_state st k)"

lemma row_view_rows [simp]:
  "row_view (active_row t v opened) = (True, Some t)"
  "row_view (resolved_row t old) = (False, Option.bind (map_option row_view old) snd)"
  by (auto simp: row_view_def active_row_def resolved_row_def split: option.split)

interpretation table: incident_store db_status mark_active mark_resolved
  by unfold_locales (auto simp: fun_eq_iff db_status_def mark_active_def mark_resolved_def Let_def update_conv')

interpretation cached: incident_store cache_status mark_active mark_resolved
  by unfold_locales (auto simp: fun_eq_iff cache_status_def get_alert_state_def mark_active_def mark_resolved_def Let_def update_conv')

lemma commit_is_carry_out: "table.carry_out = commit_message" "cached.carry_out = commit_message"
  by (simp_all add: fun_eq_iff table.carry_out_def cached.carry_out_def commit_message_def)

definition coherent :: "alert_tables \<Rightarrow> bool" where
  "coherent st = (db_status st = cache_status st)"

lemma coherent_mark [simp]:
  "coherent st \<Longrightarrow> coherent (mark_active k t v st)" "coherent st \<Longrightarrow> coherent (mark_resolved k t st)"
  by (simp_all add: coherent_def table.status_activate cached.status_activate table.status_settle cached.status_settle)

lemma coherent_open [simp]: "coherent (open_alert_tables rows)"
  by (simp add: coherent_def fun_eq_iff db_status_def cache_status_def get_alert_state_def open_alert_tables_def)

lemma coherent_settle_all: "coherent st \<Longrightarrow> coherent (fold (\<lambda>k. mark_resolved k t) ks st)"
  by (induction ks arbitrary: st) simp_all

lemma coherent_commits: "coherent st \<Longrightarrow> coherent (fold commit_message ms st)"
  by (induction ms arbitrary: st) (auto simp: commit_message_def split: alert_commit.split)

section \<open>What one collector may touch\<close>

definition sendable :: "int \<Rightarrow> int \<Rightarrow> (bool \<times> int option) option \<Rightarrow> bool" where
  "sendable pause now st =
     (case st of Some (True, Some s) \<Rightarrow> s = 0 \<or> (0 < pause \<and> pause \<le> now - s) | _ \<Rightarrow> True)"

lemma should_send_sendable: "should_send settings now r = sendable (repeat_sec settings) now (map_option row_view r)"
  by (auto simp: should_send_def sendable_def row_view_def split: option.split bool.split)

lemma is_active_view: "is_active (get_alert_state st k) \<longleftrightarrow> (\<exists>l. cache_status st k = Some (True, l))"
  by (auto simp: is_active_def cache_status_def row_view_def split: option.split)

text \<open>A message is due: an alert that is not open, or was last sent long enough ago; a recovery of an open one\<close>

definition due :: "int \<Rightarrow> alert_message \<Rightarrow> (bool \<times> int option) option \<Rightarrow> bool" where
  "due pause m st = (case am_commit m of Activate t _ \<Rightarrow> sendable pause t st | Resolve _ \<Rightarrow> (\<exists>l. st = Some (True, l)))"

definition touched :: "int \<Rightarrow> alert_key set \<Rightarrow> alert_pass_state \<Rightarrow> alert_pass_state \<Rightarrow> bool" where
  "touched pause K s s' \<longleftrightarrow> (\<exists>new. snd s' = snd s @ new \<and> distinct (map am_key new) \<and> am_key ` set new \<subseteq> K \<and>
     (\<forall>k. k \<notin> K \<or> k \<in> am_key ` set new \<longrightarrow> cache_status (fst s') k = cache_status (fst s) k) \<and>
     (\<forall>m \<in> set new. due pause m (cache_status (fst s) (am_key m))) \<and>
     (coherent (fst s) \<longrightarrow> coherent (fst s')))"

definition touches :: "int \<Rightarrow> alert_key set \<Rightarrow> (alert_pass_state \<Rightarrow> alert_pass_state) \<Rightarrow> bool" where
  "touches pause K f \<longleftrightarrow> (\<forall>s. touched pause K s (f s))"

lemma touched_silent:
  assumes "snd s' = snd s" "\<And>k. k \<notin> K \<Longrightarrow> cache_status (fst s') k = cache_status (fst s) k"
    and "coherent (fst s) \<Longrightarrow> coherent (fst s')"
  shows "touched pause K s s'"
  using assms unfolding touched_def by (intro exI [of _ "[]"]) auto

lemma touched_refl: "touched pause K s s"
  by (rule touched_silent) simp_all

lemma touched_push:
  assumes "due pause \<lparr> am_key = k, am_text = txt, am_commit = c \<rparr> (cache_status (fst s) k)"
  shows "touched pause {k} s (push_message k txt c s)"
  using assms unfolding touched_def
  by (intro exI [of _ "[\<lparr> am_key = k, am_text = txt, am_commit = c \<rparr>]"]) (simp add: push_message_def)

lemma touched_mono: "touched pause K s s' \<Longrightarrow> K \<subseteq> L \<Longrightarrow> touched pause L s s'"
  unfolding touched_def by (elim ex_forward) blast

lemma touched_trans:
  assumes f: "touched pause K s1 s2" and g: "touched pause L s2 s3" and KL: "K \<inter> L = {}"
  shows "touched pause (K \<union> L) s1 s3"
proof -
  obtain n1 where 1: "snd s2 = snd s1 @ n1" "distinct (map am_key n1)" "am_key ` set n1 \<subseteq> K"
     "\<And>k. k \<notin> K \<or> k \<in> am_key ` set n1 \<Longrightarrow> cache_status (fst s2) k = cache_status (fst s1) k"
     "\<forall>m \<in> set n1. due pause m (cache_status (fst s1) (am_key m))" "coherent (fst s1) \<longrightarrow> coherent (fst s2)"
    using f unfolding touched_def by blast
  obtain n2 where 2: "snd s3 = snd s2 @ n2" "distinct (map am_key n2)" "am_key ` set n2 \<subseteq> L"
     "\<And>k. k \<notin> L \<or> k \<in> am_key ` set n2 \<Longrightarrow> cache_status (fst s3) k = cache_status (fst s2) k"
     "\<forall>m \<in> set n2. due pause m (cache_status (fst s2) (am_key m))" "coherent (fst s2) \<longrightarrow> coherent (fst s3)"
    using g unfolding touched_def by blast
  have keys: "distinct (map am_key (n1 @ n2))" "am_key ` set (n1 @ n2) \<subseteq> K \<union> L" using 1(2,3) 2(2,3) KL by auto
  have frame: "cache_status (fst s3) k = cache_status (fst s1) k" if k: "k \<notin> K \<union> L \<or> k \<in> am_key ` set (n1 @ n2)" for k
  proof -
    have "k \<notin> L \<or> k \<in> am_key ` set n2" "k \<notin> K \<or> k \<in> am_key ` set n1" using k 1(3) 2(3) KL by auto
    then show ?thesis using 1(4) [of k] 2(4) [of k] by simp
  qed
  have "due pause m (cache_status (fst s1) (am_key m))" if "m \<in> set n2" for m
  proof -
    have "am_key m \<notin> K" using that 2(3) KL by auto
    then show ?thesis using 2(5) that 1(4) [of "am_key m"] by auto
  qed
  then show ?thesis
    unfolding touched_def using 1 2 keys frame by (intro exI [of _ "n1 @ n2"] conjI) auto
qed

lemma touches_id: "touches pause K (\<lambda>s. s)"
  by (simp add: touches_def touched_refl)

lemma touches_if: "touches pause K f \<Longrightarrow> touches pause K g \<Longrightarrow> touches pause K (\<lambda>s. if P s then f s else g s)"
  by (simp add: touches_def)

lemma touches_mono: "touches pause K f \<Longrightarrow> K \<subseteq> L \<Longrightarrow> touches pause L f"
  using touched_mono unfolding touches_def by blast

lemma touches_fold:
  assumes "\<forall>x \<in> set xs. touches pause (K x) (f x)" "sorted_wrt (\<lambda>x y. K x \<inter> K y = {}) xs"
  shows "touches pause (\<Union> (K ` set xs)) (fold f xs)"
  using assms
proof (induction xs)
  case Nil
  show ?case by (simp add: touches_id id_def)
next
  case (Cons x xs)
  have disj: "K x \<inter> \<Union> (K ` set xs) = {}" using Cons.prems(2) by auto
  show ?case
    unfolding touches_def
  proof (intro allI)
    fix s
    have "touched pause (K x) s (f x s)" "touched pause (\<Union> (K ` set xs)) (f x s) (fold f xs (f x s))"
      using Cons unfolding touches_def by (simp_all del: split_paired_All)
    then have "touched pause (K x \<union> \<Union> (K ` set xs)) s (fold f xs (f x s))" using disj by (rule touched_trans)
    then show "touched pause (\<Union> (K ` set (x # xs))) s (fold f (x # xs) s)" by simp
  qed
qed

lemma touches_unless_full: "touches pause K f \<Longrightarrow> touches pause K (unless_full n f)"
  by (simp add: touches_def unless_full_def touched_refl)

lemma touches_clear_one: "touches pause {k} (clear_one k now)"
  unfolding touches_def
  by (intro allI touched_silent) (auto simp: clear_one_def clear_if_active_def cached.status_settle)

lemma touches_enqueue: "touches (repeat_sec settings) {k} (enqueue_active_alert settings n tick k txt v)"
  unfolding touches_def enqueue_active_alert_def Let_def
  by (auto simp: touched_refl due_def should_send_sendable cache_status_def intro!: touched_push)

lemma touches_recovery:
  "touches pause {k} (\<lambda>s. if is_active (get_alert_state (fst s) k) then announce_recovery settings k txt now s else s)"
  unfolding touches_def announce_recovery_def
  by (auto simp: touched_refl due_def is_active_view cached.status_settle intro!: touched_push touched_silent split: if_splits)

lemmas touches_steps = touches_id touches_if touches_clear_one touches_enqueue touches_recovery

section \<open>What each collector may touch\<close>

definition rules_of :: "string \<Rightarrow> (string \<Rightarrow> bool) \<Rightarrow> alert_key set" where
  "rules_of target P = {(t, r). t = target \<and> P r}"

lemma touches_rule: "touches pause {(t, r)} f \<Longrightarrow> P r \<Longrightarrow> touches pause (rules_of t P) f"
  by (erule touches_mono) (simp add: rules_of_def)

lemma touches_clear_rules:
  "touches pause (rules_of target (starts_with prefix)) (\<lambda>s. (clear_rules_with prefix target now (fst s), snd s))"
  unfolding touches_def clear_rules_with_def
  by (intro allI touched_silent) (auto simp: rules_of_def cached.status_settle_all coherent_settle_all)

lemma touches_probe_stale:
  "touches (repeat_sec settings) {(target_key target, ''probe_stale'')} (collect_probe_stale_alert settings n tick target probe now)"
  unfolding collect_probe_stale_alert_def [abs_def] Let_def by (intro touches_steps)

lemma touches_probe_down:
  "touches (repeat_sec settings) {(target_key target, ''probe_down'')} (collect_probe_down_alert settings n tick target probe now)"
  unfolding collect_probe_down_alert_def [abs_def] Let_def by (intro touches_steps)

lemma touches_offline:
  "touches (repeat_sec settings) {(target_key target, ''agent_offline'')}
     (collect_offline_alert settings n tick date_ms target metric heartbeat now)"
  unfolding collect_offline_alert_def [abs_def] Let_def by (intro touches_steps)

lemma touches_metric_rule:
  "touches (repeat_sec settings) {(target_key target, fst rule)} (check_metric_rule settings n tick target seen now rule)"
  unfolding check_metric_rule_def [abs_def] Let_def by (cases rule) (simp only: prod.case fst_conv, intro touches_steps)

definition metric_rule_names :: "string list" where
  "metric_rule_names = [''metric_cpu'', ''metric_memory'', ''metric_disk'', ''metric_load1'', ''metric_disk_read'', ''metric_disk_write'',
     ''metric_net_rx'', ''metric_net_tx'', ''metric_process_count'', ''metric_thread_count'', ''metric_agent_rss'']"

lemma metric_rules_names: "map fst (metric_rules json settings metric) = metric_rule_names"
  by (simp add: metric_rules_def metric_rule_names_def)

lemma touches_metrics:
  "touches (repeat_sec settings) (rules_of (target_key target) (\<lambda>r. r \<in> set metric_rule_names))
     (collect_metric_alerts settings n tick date_ms json target metric now)"
proof -
  let ?rules = "metric_rules json settings metric"
  have "distinct (map fst ?rules)" unfolding metric_rules_names by (simp add: metric_rule_names_def)
  then have "sorted_wrt (\<lambda>x y. {(target_key target, fst x)} \<inter> {(target_key target, fst y)} = {}) ?rules"
    by (simp add: sorted_wrt_iff_nth_less distinct_conv_nth)
  from touches_fold [OF _ this] have "touches (repeat_sec settings) (\<Union> ((\<lambda>x. {(target_key target, fst x)}) ` set ?rules))
      (fold (check_metric_rule settings n tick target (metric_updated_at_sec date_ms metric) now) ?rules)"
    by (simp add: touches_metric_rule)
  moreover have "(\<Union> ((\<lambda>x. {(target_key target, fst x)}) ` set ?rules)) = rules_of (target_key target) (\<lambda>r. r \<in> set metric_rule_names)"
    unfolding metric_rules_names [of json settings metric, symmetric] by (auto simp: rules_of_def)
  ultimately have "touches (repeat_sec settings) (rules_of (target_key target) (\<lambda>r. r \<in> set metric_rule_names))
      (\<lambda>s. fold (check_metric_rule settings n tick target (metric_updated_at_sec date_ms metric) now) ?rules s)" by simp
  then show ?thesis
    unfolding collect_metric_alerts_def [abs_def] Let_def by (intro touches_if touches_id)
qed

lemma starts_with_append [simp]: "starts_with p (p @ s)"
  by (simp add: starts_with_def)

lemma starts_with_hd: "starts_with (c # p) s \<Longrightarrow> s \<noteq> [] \<and> hd s = c"
  by (cases s) (auto simp: starts_with_def)

lemma touches_expiry:
  "touches (repeat_sec settings) (rules_of (target_key target) (starts_with ''expiry:'')) (collect_expiry_alert settings n tick target now)"
proof -
  have clear: "touches (repeat_sec settings) (rules_of (target_key target) (starts_with ''expiry:''))
      (\<lambda>s. (clear_expiry_states (target_key target) now (fst s), snd s))"
    unfolding clear_expiry_states_def by (rule touches_clear_rules)
  show ?thesis
    unfolding collect_expiry_alert_def [abs_def] Let_def
    by (cases "num_or0 (js_get target ''expires_at'')"; cases "num_or0 (js_get settings ''expiry_days'')";
        simp only: prod.case jsnum.case; intro touches_if clear touches_rule [OF touches_enqueue] starts_with_append)
qed

lemma touches_traffic:
  "touches (repeat_sec settings) (rules_of (target_key target) (starts_with ''traffic:''))
     (collect_traffic_alert settings n tick date_ms json env target months metric now)"
  unfolding collect_traffic_alert_def [abs_def] Let_def clear_traffic_states_def
  by (intro touches_if touches_clear_rules touches_rule [OF touches_clear_one] touches_rule [OF touches_enqueue]) (rule starts_with_append)+

section \<open>A target and the whole pass\<close>

lemma target_settings_repeat [simp]: "repeat_sec (target_alert_settings target settings) = repeat_sec settings"
  by (cases settings) (simp_all add: repeat_sec_def target_alert_settings_def Let_def js_set_def js_get_def update_conv')

text \<open>The collectors with the rules each may touch\<close>

definition collector_rules :: "jsval \<Rightarrow> alert_key set list" where
  "collector_rules target =
     [{(target_key target, ''probe_stale'')}, {(target_key target, ''probe_down'')}, {(target_key target, ''agent_offline'')},
      rules_of (target_key target) (\<lambda>r. r \<in> set metric_rule_names),
      rules_of (target_key target) (starts_with ''expiry:''), rules_of (target_key target) (starts_with ''traffic:'')]"

lemma collector_rules_disjoint: "sorted_wrt (\<lambda>K L. K \<inter> L = {}) (collector_rules target)"
  by (auto simp: collector_rules_def rules_of_def metric_rule_names_def dest!: starts_with_hd)

lemma collectors_touch:
  "list_all2 (touches (repeat_sec (ai_settings inp))) (collector_rules target) (target_collectors inp target)"
  unfolding collector_rules_def target_collectors_def Let_def target_settings_repeat [of target "ai_settings inp", symmetric]
  by (simp only: list_all2_Cons list_all2_Nil touches_probe_stale touches_probe_down touches_offline touches_metrics
      touches_expiry touches_traffic simp_thms)

lemma touches_fold_all2:
  assumes "list_all2 (touches pause) Ks fs" "sorted_wrt (\<lambda>K L. K \<inter> L = {}) Ks"
  shows "touches pause (\<Union> (set Ks)) (fold (unless_full n) fs)"
proof -
  have len: "length Ks = length fs" using assms(1) by (rule list_all2_lengthD)
  have "touches pause (\<Union> (fst ` set (zip Ks fs))) (fold (\<lambda>p. unless_full n (snd p)) (zip Ks fs))"
  proof (rule touches_fold)
    show "\<forall>x \<in> set (zip Ks fs). touches pause (fst x) (unless_full n (snd x))"
      using assms(1) by (intro ballI touches_unless_full) (auto simp: list_all2_iff)
    show "sorted_wrt (\<lambda>x y. fst x \<inter> fst y = {}) (zip Ks fs)"
      using assms(2) len by (simp add: sorted_wrt_iff_nth_less)
  qed
  moreover have "fold (\<lambda>p. unless_full n (snd p)) (zip Ks fs) = fold (unless_full n) fs"
    using len by (simp add: fold_map [of "unless_full n" snd, unfolded comp_def, symmetric])
  moreover have "fst ` set (zip Ks fs) = set Ks" using len by (metis map_fst_zip set_map)
  ultimately show ?thesis by simp
qed

lemma touches_check_target:
  "touches (repeat_sec (ai_settings inp)) (rules_of (target_key target) (\<lambda>_. True)) (check_target inp target)"
proof -
  have "touches (repeat_sec (ai_settings inp)) (\<Union> (set (collector_rules target)))
      (fold (unless_full (ai_max inp)) (target_collectors inp target))"
    by (rule touches_fold_all2 [OF collectors_touch collector_rules_disjoint])
  then have "touches (repeat_sec (ai_settings inp)) (rules_of (target_key target) (\<lambda>_. True))
      (fold (unless_full (ai_max inp)) (target_collectors inp target))"
    by (rule touches_mono) (auto simp: collector_rules_def rules_of_def)
  then have "touches (repeat_sec (ai_settings inp)) (rules_of (target_key target) (\<lambda>_. True))
      (\<lambda>s. if js_truthy (js_get (target_alert_settings target (ai_settings inp)) ''enabled'')
        then fold (unless_full (ai_max inp)) (target_collectors inp target) s else s)"
    by (intro touches_if touches_id) simp
  then show ?thesis by (simp add: check_target_def [abs_def])
qed

definition target_keys :: "alert_inputs \<Rightarrow> string set" where
  "target_keys inp = target_key ` set (ai_targets inp)"

lemma touches_all_targets:
  assumes "distinct (map target_key (ai_targets inp))"
    and "\<And>t. t \<in> set (ai_targets inp) \<Longrightarrow> touches pause (K t) (check_target inp t)"
    and "\<And>t. K t \<subseteq> rules_of (target_key t) (\<lambda>_. True)"
  shows "touches pause (\<Union> (K ` set (ai_targets inp))) (check_targets inp)"
  unfolding check_targets_def [abs_def]
proof (rule touches_fold)
  show "\<forall>t \<in> set (ai_targets inp). touches pause (K t) (unless_full (ai_max inp) (check_target inp t))"
    using assms(2) by (blast intro: touches_unless_full)
  have "K x \<inter> K y = {}" if "target_key x \<noteq> target_key y" for x y
    using assms(3) [of x] assms(3) [of y] that by (auto simp: rules_of_def)
  then show "sorted_wrt (\<lambda>x y. K x \<inter> K y = {}) (ai_targets inp)"
    using assms(1) by (simp add: sorted_wrt_iff_nth_less distinct_conv_nth)
qed

lemma touches_check_targets:
  assumes "distinct (map target_key (ai_targets inp))"
  shows "touches (repeat_sec (ai_settings inp)) {(t, r). t \<in> target_keys inp} (check_targets inp)"
  by (rule touches_mono [OF touches_all_targets [OF assms touches_check_target order_refl]])
    (auto simp: rules_of_def target_keys_def)

section \<open>A run that hands over all its messages\<close>

definition run_alert_rules :: "alert_inputs \<Rightarrow> alert_rows \<Rightarrow> alert_tables \<times> alert_message list" where
  "run_alert_rules inp rows = (let (st, ms) = alert_pass inp rows in (fold commit_message ms st, ms))"

lemma pass_touched:
  assumes "distinct (map target_key (ai_targets inp))"
  shows "touched (repeat_sec (ai_settings inp)) {(t, r). t \<in> target_keys inp} (open_alert_tables rows, [])
    (check_targets inp (open_alert_tables rows, []))"
  using touches_check_targets [OF assms] unfolding touches_def by blast

definition row_status :: "alert_rows \<Rightarrow> alert_key \<Rightarrow> (bool \<times> int option) option" where
  "row_status rows k = map_option row_view (map_of rows k)"

lemma open_status [simp]: "cache_status (open_alert_tables rows) = row_status rows"
  by (simp add: fun_eq_iff cache_status_def get_alert_state_def open_alert_tables_def row_status_def)

lemma coherent_rows: "coherent st \<Longrightarrow> row_status (at_db st) = cache_status st"
  by (simp add: coherent_def db_status_def row_status_def fun_eq_iff)

lemma coherent_orphans: "coherent st \<Longrightarrow> coherent (clear_orphaned_alert_states targets rows now st)"
  by (simp add: clear_orphaned_alert_states_def coherent_settle_all Let_def)

text \<open>What the run leaves, in terms of the rows it started from\<close>

lemma orphans_status:
  "cache_status (clear_orphaned_alert_states targets rows now st) k =
     (if fst k \<notin> target_key ` set targets - {[]} \<and> (\<exists>r. (k, r) \<in> set rows \<and> ar_active r)
      then Some (False, Option.bind (cache_status st k) snd) else cache_status st k)"
proof -
  have "k \<in> set (map fst (filter (\<lambda>(k, r). ar_active r \<and> fst k \<notin> set (filter (\<lambda>i. i \<noteq> []) (map target_key targets))) rows))
      \<longleftrightarrow> fst k \<notin> target_key ` set targets - {[]} \<and> (\<exists>r. (k, r) \<in> set rows \<and> ar_active r)"
    by force
  then show ?thesis
    unfolding clear_orphaned_alert_states_def Let_def cached.status_settle_all by simp
qed

lemma pass_frame:
  assumes "touches pause K (check_targets inp)" "k \<notin> K"
    and "target \<in> set (ai_targets inp)" "fst k \<noteq> []" "row_status rows k = old" "fst k = target_key target"
  shows "row_status (at_db (fst (run_alert_rules inp rows))) k = old"
proof -
  obtain st0 ms where s0: "check_targets inp (open_alert_tables rows, []) = (st0, ms)" by (metis surj_pair)
  let ?st1 = "clear_orphaned_alert_states (ai_targets inp) rows (ai_now inp) st0"
  have "touched pause K (open_alert_tables rows, []) (st0, ms)" using assms(1) unfolding touches_def s0 [symmetric] by blast
  then have t: "am_key ` set ms \<subseteq> K" "cache_status st0 k = old" "coherent st0"
    using assms(2,5) unfolding touched_def by (auto simp del: split_paired_All)
  have "cache_status (fold commit_message ms ?st1) k = cache_status ?st1 k"
    unfolding commit_is_carry_out [symmetric] using t(1) assms(2) by (intro cached.status_carry_out_other) blast
  also have "\<dots> = old" using assms(3,4,6) t(2) by (simp add: orphans_status)
  finally have "cache_status (fold commit_message ms ?st1) k = old" .
  moreover have "coherent (fold commit_message ms ?st1)" using t(3) by (simp add: coherent_commits coherent_orphans)
  moreover have "fst (run_alert_rules inp rows) = fold commit_message ms ?st1" by (simp add: run_alert_rules_def alert_pass_def s0)
  ultimately show ?thesis by (simp add: coherent_rows)
qed

lemma run_facts:
  fixes inp :: alert_inputs and rows :: alert_rows
  assumes "distinct (map target_key (ai_targets inp))"
  defines "ms \<equiv> snd (run_alert_rules inp rows)" and "st \<equiv> fst (run_alert_rules inp rows)"
  shows "distinct (map am_key ms)" "\<And>m. m \<in> set ms \<Longrightarrow> fst (am_key m) \<in> target_keys inp"
    "\<And>m. m \<in> set ms \<Longrightarrow> due (repeat_sec (ai_settings inp)) m (row_status rows (am_key m))"
    "\<And>m. m \<in> set ms \<Longrightarrow> \<exists>old. row_status (at_db st) (am_key m) = Some (cached.outcome m old)"
    "\<And>k. k \<notin> am_key ` set ms \<Longrightarrow> fst k \<notin> target_keys inp \<Longrightarrow> \<not> (\<exists>l. row_status (at_db st) k = Some (True, l))"
proof -
  obtain st0 where s0: "check_targets inp (open_alert_tables rows, []) = (st0, ms)"
    by (cases "check_targets inp (open_alert_tables rows, [])") (simp add: ms_def run_alert_rules_def alert_pass_def)
  let ?st1 = "clear_orphaned_alert_states (ai_targets inp) rows (ai_now inp) st0"
  have st: "st = fold commit_message ms ?st1"
    by (simp add: st_def run_alert_rules_def alert_pass_def s0)
  from pass_touched [OF assms(1), of rows] have t: "distinct (map am_key ms)" "am_key ` set ms \<subseteq> {(t, r). t \<in> target_keys inp}"
    "\<And>k. k \<notin> {(t, r). t \<in> target_keys inp} \<Longrightarrow> cache_status st0 k = row_status rows k"
    "\<forall>m \<in> set ms. due (repeat_sec (ai_settings inp)) m (row_status rows (am_key m))" "coherent st0"
    unfolding s0 touched_def by auto
  show "distinct (map am_key ms)" by (rule t(1))
  show "fst (am_key m) \<in> target_keys inp" if "m \<in> set ms" for m using t(2) that by auto
  show "due (repeat_sec (ai_settings inp)) m (row_status rows (am_key m))" if "m \<in> set ms" for m using t(4) that by blast
  have "coherent st" unfolding st using t(5) by (simp add: coherent_commits coherent_orphans)
  then have db: "row_status (at_db st) = cache_status st" by (rule coherent_rows)
  have carry: "fold commit_message ms ?st1 = fold cached.carry_out ms ?st1"
    by (simp add: commit_is_carry_out)
  show "\<exists>old. row_status (at_db st) (am_key m) = Some (cached.outcome m old)" if "m \<in> set ms" for m
  proof -
    have "cache_status st (am_key m) = Some (cached.outcome m (cache_status ?st1 (am_key m)))"
      unfolding st carry by (rule cached.status_carry_out_all [OF t(1) that])
    then show ?thesis unfolding db by blast
  qed
  show "\<not> (\<exists>l. row_status (at_db st) k = Some (True, l))" if k: "k \<notin> am_key ` set ms" "fst k \<notin> target_keys inp" for k
  proof -
    have "cache_status st k = cache_status ?st1 k" unfolding st carry by (rule cached.status_carry_out_other [OF k(1)])
    moreover have "cache_status st0 k = row_status rows k" by (rule t(3)) (use k(2) in auto)
    moreover have "(k, r) \<in> set rows" if "map_of rows k = Some r" for r using that by (rule map_of_SomeD)
    ultimately show ?thesis
      using k(2) unfolding db orphans_status target_keys_def
      by (auto simp: row_status_def row_view_def split: if_splits)
  qed
qed

section \<open>Messages are due, recorded, and few\<close>

lemma filter_unique_key:
  "m \<in> set ms \<Longrightarrow> distinct (map key ms) \<Longrightarrow> filter (\<lambda>m'. key m' = key m) ms = [m]"
proof (induction ms)
  case (Cons x ms)
  show ?case
  proof (cases "x = m")
    case True
    have "key y \<noteq> key x" if "y \<in> set ms" for y using Cons.prems(2) that by (metis distinct.simps(2) imageI list.simps(9) set_map)
    with True show ?thesis by (simp add: filter_empty_conv)
  next
    case False
    with Cons.prems(1) have m: "m \<in> set ms" by simp
    with Cons.prems(2) have "key x \<noteq> key m" by (metis distinct.simps(2) imageI list.simps(9) set_map)
    with m Cons show ?thesis by simp
  qed
qed simp

lemma traffic_settings_enabled [simp]:
  "st_enabled (traffic_settings_from_target target env now) = parse_boolean (js_get target ''traffic_enabled'') False"
  by (simp add: traffic_settings_from_target_def Let_def)

section \<open>An Agent that fell silent\<close>

text \<open>One target, settings with two values, and a last report 9000 seconds ago: the run of the examples\<close>

definition silent_target :: jsval where "silent_target = Obj [(''id'', Str ''a'')]"

definition silent_settings :: jsval where
  "silent_settings = Obj [(''repeat_minutes'', Num (Fin 60)), (''offline_minutes'', Num (Fin 10))]"

definition silent_run :: alert_inputs where
  "silent_run = \<lparr> ai_settings = silent_settings, ai_env = Obj [], ai_now = 10000, ai_max = 30,
     ai_tick = \<lambda>_ _. 10000, ai_date = \<lambda>_. None, ai_json = \<lambda>_. None, ai_targets = [silent_target],
     ai_metrics = \<lambda>_. Null, ai_heartbeats = \<lambda>_. 1000, ai_months = \<lambda>_ _. None, ai_probes = \<lambda>_. Null \<rparr>"

definition silent_message :: alert_message where
  "silent_message = \<lparr> am_key = (''a'', ''agent_offline''), am_text = AgentOffline ''a'' 1000 9000 (Num (Fin 10)),
     am_commit = Activate 10000 (Some (jsint 9000)) \<rparr>"

lemma silent_target_simps [simp]:
  "target_key silent_target = ''a''" "js_get silent_target k = (if k = ''id'' then Str ''a'' else Undefined)"
  "target_label silent_target = ''a''" "\<not> is_agent_only_probe silent_target Null"
  by (simp_all add: silent_target_def target_key_def str_or_empty_def target_label_def js_trim_def strip_both_def js_space_def
      is_agent_only_probe_def js_lower_def)

lemma object_is_record [simp]: "js_is_record (Obj m)"
  by (simp add: js_is_record_def)

lemma silent_settings_simps [simp]:
  "js_get (target_alert_settings silent_target silent_settings) ''enabled'' = Bool True"
  "js_get (target_alert_settings silent_target silent_settings) ''offline_minutes'' = Num (Fin 10)"
  by (simp_all add: target_alert_settings_def silent_settings_def override_number_def js_nullish_def)

lemma silent_collectors:
  "collect_probe_stale_alert s n tick silent_target Null now x = x"
  "collect_probe_down_alert s n tick silent_target Null now x = x"
  "collect_metric_alerts s n tick date_ms json silent_target Null now x = x"
  "collect_expiry_alert s n tick silent_target now x = (clear_expiry_states ''a'' now (fst x), snd x)"
  "collect_traffic_alert s n tick date_ms json env silent_target months m now x = (clear_traffic_states ''a'' now (fst x), snd x)"
  by (simp_all add: collect_probe_stale_alert_def collect_probe_down_alert_def collect_metric_alerts_def collect_expiry_alert_def
      collect_traffic_alert_def latest_probe_at_def parse_boolean_def Let_def split: jsnum.split)

lemma silent_offline:
  "collect_offline_alert (target_alert_settings silent_target silent_settings) 30 (\<lambda>_ _. 10000) date_ms silent_target Null 1000 10000
     (open_alert_tables [], []) = (open_alert_tables [], [silent_message])"
  by (simp add: collect_offline_alert_def Let_def metric_updated_at_sec_def offline_threshold_sec_def clamp_def
      enqueue_active_alert_def get_alert_state_def open_alert_tables_def should_send_def push_message_def silent_message_def)

lemma silent_clear [simp]: "clear_rules_with p t now (open_alert_tables []) = open_alert_tables []"
  by (simp add: clear_rules_with_def open_alert_tables_def)

lemma silent_pass: "check_targets silent_run (open_alert_tables [], []) = (open_alert_tables [], [silent_message])"
  by (simp add: check_targets_def check_target_def target_collectors_def silent_run_def Let_def
      unless_full_def silent_collectors silent_offline clear_expiry_states_def clear_traffic_states_def)

lemma silent_run_result: "run_alert_rules silent_run [] = (commit_message silent_message (open_alert_tables []), [silent_message])"
  by (simp add: run_alert_rules_def alert_pass_def silent_pass clear_orphaned_alert_states_def)

text \<open>C5: In a run each rule of a target has at most one message. An alert is sent only when the table has no open
  alert under its key, or the last one was sent at least the repeat interval ago (never, when the interval is 0);
  a recovery only when the alert is open. Once handed over, the table has the alert open with the time of this
  message, or closed.
\<close>

theorem alerts_are_due_and_recorded:
  assumes "distinct (map target_key (ai_targets inp))" "m \<in> set (snd (run_alert_rules inp rows))"
  shows "length (filter (\<lambda>m'. am_key m' = am_key m) (snd (run_alert_rules inp rows))) = 1 \<and>
    (case am_commit m of
       Activate t v \<Rightarrow>
         (\<forall>s. row_status rows (am_key m) = Some (True, Some s) \<and> s \<noteq> 0 \<longrightarrow>
            0 < repeat_sec (ai_settings inp) \<and> repeat_sec (ai_settings inp) \<le> t - s) \<and>
         row_status (at_db (fst (run_alert_rules inp rows))) (am_key m) = Some (True, Some t)
     | Resolve t \<Rightarrow>
         (\<exists>l. row_status rows (am_key m) = Some (True, l)) \<and>
         (\<exists>l. row_status (at_db (fst (run_alert_rules inp rows))) (am_key m) = Some (False, l)))"
proof -
  let ?ms = "snd (run_alert_rules inp rows)"
  have "distinct (map am_key ?ms)" by (rule run_facts(1) [OF assms(1)])
  with assms(2) have "filter (\<lambda>m'. am_key m' = am_key m) ?ms = [m]" by (rule filter_unique_key)
  moreover note run_facts(3) [OF assms] run_facts(4) [OF assms]
  ultimately show ?thesis
    by (cases "am_commit m") (auto simp: due_def sendable_def cached.outcome_def)
qed

lemma alerts_are_due_and_recorded_witness:
  "row_status (at_db (fst (run_alert_rules silent_run []))) (''a'', ''agent_offline'') = Some (True, Some 10000)"
proof -
  have "distinct (map target_key (ai_targets silent_run))" "silent_message \<in> set (snd (run_alert_rules silent_run []))"
    by (simp_all add: silent_run_result) (simp add: silent_run_def)
  from alerts_are_due_and_recorded [OF this] show ?thesis by (simp add: silent_message_def)
qed

text \<open>After a run no alert is open for a target that is not among the enabled ones: rows of a disabled or deleted
  target are closed, so it starts from a clean state when it comes back.
\<close>

theorem no_open_alert_of_absent_target:
  assumes "distinct (map target_key (ai_targets inp))"
    and "map_of (at_db (fst (run_alert_rules inp rows))) (t, r) = Some row" "ar_active row"
  shows "t \<in> target_key ` set (ai_targets inp)"
proof (rule ccontr)
  assume "t \<notin> target_key ` set (ai_targets inp)"
  then have absent: "t \<notin> target_keys inp" by (simp add: target_keys_def)
  have "(t, r) \<notin> am_key ` set (snd (run_alert_rules inp rows))"
    using run_facts(2) [OF assms(1), of _ rows] absent by (metis fst_conv imageE)
  from run_facts(5) [OF assms(1) this] absent assms(2,3) show False by (simp add: row_status_def row_view_def)
qed

lemma no_open_alert_of_absent_target_witness:
  "''a'' \<in> target_key ` set (ai_targets silent_run)"
proof -
  have "map_of (at_db (fst (run_alert_rules silent_run []))) (''a'', ''agent_offline'') = Some (active_row 10000 (Some (jsint 9000)) (Some 10000))"
    by (simp add: silent_run_result open_alert_tables_def commit_message_def silent_message_def mark_active_def)
  from no_open_alert_of_absent_target [OF _ this] show ?thesis by (simp add: silent_run_def active_row_def)
qed

text \<open>The list of messages never outgrows its limit.\<close>

definition fits :: "int \<Rightarrow> (alert_pass_state \<Rightarrow> alert_pass_state) \<Rightarrow> bool" where
  "fits n f \<longleftrightarrow> (\<forall>s. int (length (snd s)) \<le> n \<longrightarrow> int (length (snd (f s))) \<le> n)"

lemma fits_fold: "(\<And>x. x \<in> set xs \<Longrightarrow> fits n (f x)) \<Longrightarrow> fits n (fold f xs)"
proof (induction xs)
  case (Cons x xs)
  then have "fits n (f x)" "fits n (fold f xs)" by simp_all
  then show ?case unfolding fits_def fold_Cons comp_def by blast
qed (simp add: fits_def)

lemma fits_unless_full:
  assumes "\<And>s. length (snd (f s)) \<le> Suc (length (snd s))"
  shows "fits n (unless_full n f)"
  unfolding fits_def unless_full_def
proof (intro allI impI)
  fix s :: alert_pass_state
  show "int (length (snd (if n \<le> int (length (snd s)) then s else f s))) \<le> n" if "int (length (snd s)) \<le> n"
    using that assms [of s] by simp
qed

lemma fits_unless_full': "fits n f \<Longrightarrow> fits n (unless_full n f)"
  by (simp add: fits_def unless_full_def)

lemma push_length:
  "length (snd (push_message k txt c s)) = Suc (length (snd s))"
  "length (snd (enqueue_active_alert settings n tick k txt v s)) \<le> Suc (length (snd s))"
  "length (snd (announce_recovery settings k txt now s)) \<le> Suc (length (snd s))"
  "length (snd (clear_one k now s)) = length (snd s)"
  by (simp_all add: push_message_def enqueue_active_alert_def announce_recovery_def clear_one_def Let_def)

lemma metric_rule_fit: "fits n (check_metric_rule settings n tick target seen now rule)"
proof -
  have "check_metric_rule settings n tick target seen now rule = unless_full n (check_metric_rule settings n tick target seen now rule)"
    by (rule ext) (cases rule, simp add: check_metric_rule_def unless_full_def Let_def)
  moreover have "length (snd (check_metric_rule settings n tick target seen now rule s)) \<le> Suc (length (snd s))" for s
    by (cases rule) (simp add: check_metric_rule_def Let_def push_length)
  ultimately show ?thesis using fits_unless_full by metis
qed

lemma collector_fits:
  "fits n (unless_full n (collect_probe_stale_alert settings n tick target probe now))"
  "fits n (unless_full n (collect_probe_down_alert settings n tick target probe now))"
  "fits n (unless_full n (collect_offline_alert settings n tick date_ms target metric heartbeat now))"
  "fits n (unless_full n (collect_expiry_alert settings n tick target now))"
  "fits n (unless_full n (collect_traffic_alert settings n tick date_ms json env target months metric now))"
  by (rule fits_unless_full, simp add: collect_probe_stale_alert_def collect_probe_down_alert_def collect_offline_alert_def
      collect_expiry_alert_def collect_traffic_alert_def Let_def push_length split: jsnum.split)+

lemma metrics_fit: "fits n (unless_full n (collect_metric_alerts settings n tick date_ms json target metric now))"
proof (rule fits_unless_full')
  show "fits n (collect_metric_alerts settings n tick date_ms json target metric now)"
    using fits_fold [of "metric_rules json settings metric" n, OF metric_rule_fit]
    unfolding collect_metric_alerts_def [abs_def] Let_def by (simp add: fits_def)
qed

lemma collectors_fit: "f \<in> set (target_collectors inp target) \<Longrightarrow> fits (ai_max inp) (unless_full (ai_max inp) f)"
  by (auto simp: target_collectors_def Let_def collector_fits metrics_fit)

text \<open>
  CX: A run finds at most as many messages as its limit allows, however many targets and rules there are.
\<close>

theorem alert_messages_bounded: "int (length (snd (run_alert_rules inp rows))) \<le> max 0 (ai_max inp)"
proof (cases "0 \<le> ai_max inp")
  case True
  have "fits (ai_max inp) (check_target inp t)" for t
    using fits_fold [of "target_collectors inp t" "ai_max inp" "unless_full (ai_max inp)", OF collectors_fit]
    by (simp add: check_target_def [abs_def] fits_def)
  then have "fits (ai_max inp) (check_targets inp)"
    unfolding check_targets_def [abs_def] by (intro fits_fold fits_unless_full')
  with True have "int (length (snd (check_targets inp (open_alert_tables rows, [])))) \<le> ai_max inp"
    unfolding fits_def by simp
  then show ?thesis by (simp add: run_alert_rules_def alert_pass_def case_prod_unfold Let_def)
next
  case False
  have "fold (\<lambda>t. unless_full (ai_max inp) (check_target inp t)) xs s = s" for xs s
    by (induction xs) (use False in \<open>simp_all add: unless_full_def\<close>)
  then have "check_targets inp s = s" for s by (simp add: check_targets_def)
  with False show ?thesis by (simp add: run_alert_rules_def alert_pass_def case_prod_unfold Let_def)
qed

section \<open>A row of an earlier billing period\<close>

lemma touches_traffic_period:
  assumes "st_enabled (traffic_settings_from_target target env now)" "0 < st_quota_bytes (traffic_settings_from_target target env now)"
  shows "touches (repeat_sec settings)
     {(target_key target, ''traffic:'' @ tp_month (st_period (traffic_settings_from_target target env now)))}
     (collect_traffic_alert settings n tick date_ms json env target months metric now)"
proof -
  have "sm_period (summarize_traffic_with_pending date_ms json row ts metric) = st_period ts" for row ts
    by (simp add: summarize_traffic_with_pending_def summarize_traffic_def Let_def)
  then show ?thesis
    using assms unfolding collect_traffic_alert_def [abs_def] Let_def
    by (simp add: touches_if touches_clear_one touches_enqueue)
qed

text \<open>While the traffic accounting of an enabled target is on, a run looks only at the row of the current billing
  period: an alert that is open for an earlier period stays open, whatever the traffic does.
\<close>

theorem open_traffic_alert_outlives_period:
  assumes "distinct (map target_key (ai_targets inp))" "target \<in> set (ai_targets inp)" "target_key target \<noteq> []"
    and "st_enabled (traffic_settings_from_target target (ai_env inp) (ai_now inp))"
    and "0 < st_quota_bytes (traffic_settings_from_target target (ai_env inp) (ai_now inp))"
    and "month \<noteq> tp_month (st_period (traffic_settings_from_target target (ai_env inp) (ai_now inp)))"
    and "row_status rows (target_key target, ''traffic:'' @ month) = Some (True, sent)"
  shows "row_status (at_db (fst (run_alert_rules inp rows))) (target_key target, ''traffic:'' @ month) = Some (True, sent)"
proof -
  let ?k = "(target_key target, ''traffic:'' @ month)"
  let ?now = "''traffic:'' @ tp_month (st_period (traffic_settings_from_target target (ai_env inp) (ai_now inp)))"
  let ?Ks = "[{(target_key target, ''probe_stale'')}, {(target_key target, ''probe_down'')}, {(target_key target, ''agent_offline'')},
      rules_of (target_key target) (\<lambda>r. r \<in> set metric_rule_names), rules_of (target_key target) (starts_with ''expiry:''),
      {(target_key target, ?now)}]"
  let ?pause = "repeat_sec (ai_settings inp)"
  have "list_all2 (touches ?pause) ?Ks (target_collectors inp target)"
    unfolding collector_rules_def target_collectors_def Let_def target_settings_repeat [of target "ai_settings inp", symmetric]
    by (simp only: list_all2_Cons list_all2_Nil touches_probe_stale touches_probe_down
        touches_offline touches_metrics touches_expiry touches_traffic_period [OF assms(4,5)] simp_thms)
  moreover have "sorted_wrt (\<lambda>K L. K \<inter> L = {}) ?Ks"
    by (auto simp: collector_rules_def rules_of_def metric_rule_names_def dest!: starts_with_hd)
  ultimately have "touches ?pause (\<Union> (set ?Ks)) (fold (unless_full (ai_max inp)) (target_collectors inp target))"
    by (rule touches_fold_all2)
  then have "touches ?pause (rules_of (target_key target) (\<lambda>r. r \<noteq> ''traffic:'' @ month))
      (fold (unless_full (ai_max inp)) (target_collectors inp target))"
    by (rule touches_mono)
      (use assms(6) in \<open>auto simp: collector_rules_def rules_of_def metric_rule_names_def starts_with_def\<close>)
  then have own: "touches ?pause (rules_of (target_key target) (\<lambda>r. r \<noteq> ''traffic:'' @ month)) (check_target inp target)"
    unfolding check_target_def [abs_def] by (intro touches_if touches_id) simp
  define K where "K t = (if t = target then rules_of (target_key t) (\<lambda>r. r \<noteq> ''traffic:'' @ month)
    else rules_of (target_key t) (\<lambda>_. True))" for t
  have A: "touches ?pause (\<Union> (K ` set (ai_targets inp))) (check_targets inp)"
  proof (rule touches_all_targets [OF assms(1)])
    show "touches ?pause (K t) (check_target inp t)" for t unfolding K_def using own touches_check_target by (cases "t = target") (simp_all only: if_True if_False simp_thms)
    show "K t \<subseteq> rules_of (target_key t) (\<lambda>_. True)" for t by (auto simp: K_def rules_of_def)
  qed
  have B: "?k \<notin> \<Union> (K ` set (ai_targets inp))"
    using assms(1,2) by (auto simp: K_def rules_of_def distinct_map inj_on_def split: if_splits)
  show ?thesis
    by (rule pass_frame [OF A B assms(2) _ assms(7)]) (simp_all only: fst_conv assms(3) not_False_eq_True)
qed

lemma open_traffic_alert_outlives_period_witness:
  "let target = Obj [(''id'', Str ''a''), (''traffic_enabled'', Bool True), (''traffic_quota_gb'', Num (Fin 1))];
       inp = silent_run\<lparr> ai_targets := [target] \<rparr>
   in row_status (at_db (fst (run_alert_rules inp [((''a'', ''traffic:'' @ ''old''), active_row 7 None (Some 7))]))) (''a'', ''traffic:'' @ ''old'')
      = Some (True, Some 7)"
proof -
  let ?t = "Obj [(''id'', Str ''a''), (''traffic_enabled'', Bool True), (''traffic_quota_gb'', Num (Fin 1))]"
  let ?inp = "silent_run\<lparr> ai_targets := [?t] \<rparr>"
  have not_old: "''old'' \<noteq> m" if "CHR ''-'' \<in> set m" for m using that by auto
  have "CHR ''-'' \<in> set (tp_month (traffic_period_from_reset_day now env r ts))" for now env r ts
    by (simp add: traffic_period_from_reset_day_def case_prod_unfold Let_def date_key_def)
  then have "CHR ''-'' \<in> set (tp_month (st_period (traffic_settings_from_target ?t env now)))" for env now
    by (simp add: traffic_settings_from_target_def Let_def)
  then have month: "''old'' \<noteq> tp_month (st_period (traffic_settings_from_target ?t env now))" for env now
    using not_old by blast
  have "\<lfloor>201 / 2 :: rat\<rfloor> = 100" by (rule floor_unique) simp_all
  then have quota: "0 < st_quota_bytes (traffic_settings_from_target ?t env now)" for env now
    by (simp add: traffic_settings_from_target_def normalize_traffic_quota_gb_def Let_def)
  show ?thesis
    unfolding Let_def
    using open_traffic_alert_outlives_period [where inp = ?inp and target = ?t and month = "''old''" and sent = "Some 7"
        and rows = "[((''a'', ''traffic:'' @ ''old''), active_row 7 None (Some 7))]"] month quota
    by (simp add: silent_run_def target_key_def str_or_empty_def row_status_def parse_boolean_def)
qed

end
