(* ===== verification/AlertDelivery.thy ===== *)
theory AlertDelivery
  imports AlertLifecycle
begin

text \<open>
  The second half of \<open>runAlertChecks\<close> in \<open>worker/src/alerts.js\<close>: packing the messages into batches, handing each
  batch to every channel, the backoff of a failing channel and the queue of deliveries to retry.

  \<^item> A text is a list of UTF-16 code units. \<open>render\<close> gives the text of a message.
  \<^item> \<open>send n channel text\<close> is the answer of a channel to the \<open>n\<close>-th request of the run: \<open>None\<close> for success, or
    the error. The requests are kept in order in \<open>ds_log\<close>, which the code does not have.
  \<^item> The stored queue and backoff are read back as the code wrote them.
\<close>

section \<open>Batches\<close>

type_synonym utext = "nat list"

definition units :: "string \<Rightarrow> utext" where
  "units s = map of_char s"

definition unit_space :: "nat \<Rightarrow> bool" where
  "unit_space c = (c \<in> {9, 10, 11, 12, 13, 32, 160, 5760, 8232, 8233, 8239, 8287, 12288, 65279} \<or> (8192 \<le> c \<and> c \<le> 8202))"

text \<open>\<open>replace(/\n{3,}/g, '\n\n')\<close>: at most two in a row survive\<close>

fun squeeze_lines :: "nat \<Rightarrow> utext \<Rightarrow> utext" where
  "squeeze_lines seen [] = []"
| "squeeze_lines seen (c # cs) =
     (if c \<noteq> 10 then c # squeeze_lines 0 cs else if seen < 2 then c # squeeze_lines (Suc seen) cs else squeeze_lines seen cs)"

definition batch_title :: "nat \<Rightarrow> utext" where
  "batch_title n = units ''NIE-SLA '' @ [25253, 35686, 27719, 24635, 65288] @ units (nat_str n) @ [32, 26465, 65289]"

definition batch_header :: "nat \<Rightarrow> nat \<Rightarrow> nat \<Rightarrow> utext" where
  "batch_header total_count start n =
     units ''NIE-SLA '' @ [25253, 35686, 27719, 24635, 65288] @ units (nat_str total_count) @ [32, 26465] @
     (if 1 < total_count then 65292 # units (nat_str (start + 1)) @ units ''-'' @ units (nat_str (start + n)) else []) @ [65289]"

definition batch_entry :: "nat \<Rightarrow> utext \<Rightarrow> utext" where
  "batch_entry i body = 10 # units (nat_str (i + 1)) @ units ''. '' @ take 900 (squeeze_lines 0 (strip_both unit_space body))"

record alert_batch =
  ab_items :: "alert_message list"
  ab_text :: utext

definition max_batch_chars :: nat where "max_batch_chars = 2400"

definition flush_batch :: "nat \<Rightarrow> nat \<Rightarrow> alert_message list \<Rightarrow> utext \<Rightarrow> alert_batch list" where
  "flush_batch total_count start items body =
     (if items = [] then []
      else [\<lparr> ab_items = items, ab_text = take 3900 (batch_header total_count start (length items) @ 10 # body) \<rparr>])"

definition add_entry :: "utext \<Rightarrow> utext \<Rightarrow> utext" where
  "add_entry body entry = (if body \<noteq> [] then body @ 10 # entry else entry)"

fun batch_loop :: "(alert_text \<Rightarrow> utext) \<Rightarrow> nat \<Rightarrow> nat \<Rightarrow> nat \<Rightarrow> alert_message list \<Rightarrow> utext \<Rightarrow> alert_message list \<Rightarrow> alert_batch list" where
  "batch_loop render total_count i start items body [] = flush_batch total_count start items body"
| "batch_loop render total_count i start items body (m # ms) =
     (let entry = batch_entry i (render (am_text m)); candidate = add_entry body entry in
      if items \<noteq> [] \<and> max_batch_chars < length (batch_header total_count i (length items)) + length candidate
      then flush_batch total_count start items body @ batch_loop render total_count (Suc i) i [m] entry ms
      else batch_loop render total_count (Suc i) (if items = [] then i else start) (items @ [m]) candidate ms)"

definition build_alert_batches :: "(alert_text \<Rightarrow> utext) \<Rightarrow> alert_message list \<Rightarrow> alert_batch list" where
  "build_alert_batches render ms = batch_loop render (length ms) 0 0 [] [] ms"

section \<open>Backoff and the queue of retries\<close>

definition channel_retry_base_sec :: int where "channel_retry_base_sec = 300"
definition channel_retry_max_sec :: int where "channel_retry_max_sec = 3600"
definition channel_retry_max_attempts :: int where "channel_retry_max_attempts = 8"
definition pending_deliveries_max :: nat where "pending_deliveries_max = 100"

definition channel_retry_delay_sec :: "int \<Rightarrow> int" where
  "channel_retry_delay_sec failures = min channel_retry_max_sec (channel_retry_base_sec * 2 ^ nat (max 1 failures - 1))"

record channel_backoff =
  cb_failures :: int
  cb_next_at :: int
  cb_error :: utext
  cb_updated :: int

record delivery =
  dl_channel :: string
  dl_text :: utext
  dl_title :: utext
  dl_target :: string
  dl_status :: string
  dl_count :: nat
  dl_attempts :: int
  dl_next_at :: int
  dl_created :: int
  dl_error :: "utext option"

datatype delivery_error =
    RetryFailed string int utext bool
  | BatchFailed alert_key string utext
  | BatchDeferred alert_key string int

record delivery_state =
  ds_queue :: "delivery list"
  ds_backoff :: "(string \<times> channel_backoff) list"
  ds_changed :: bool
  ds_errors :: "delivery_error list"
  ds_log :: "(string \<times> utext \<times> bool) list"

type_synonym send_channel = "nat \<Rightarrow> string \<Rightarrow> utext \<Rightarrow> utext option"

definition record_channel_failure :: "string \<Rightarrow> utext \<Rightarrow> int \<Rightarrow> (string \<times> channel_backoff) list \<Rightarrow> (string \<times> channel_backoff) list" where
  "record_channel_failure channel err now backoff =
     (let failures = max 1 ((case map_of backoff channel of Some b \<Rightarrow> cb_failures b | None \<Rightarrow> 0) + 1)
      in AList.update channel \<lparr> cb_failures = failures, cb_next_at = now + channel_retry_delay_sec failures,
           cb_error = take 200 err, cb_updated = now \<rparr> backoff)"

definition pending_delivery_key :: "delivery \<Rightarrow> string \<times> utext" where
  "pending_delivery_key d = (dl_channel d, dl_text d)"

definition pending_delivery_entry :: "string \<Rightarrow> alert_batch \<Rightarrow> utext \<Rightarrow> string \<Rightarrow> int \<Rightarrow> int \<Rightarrow> delivery" where
  "pending_delivery_entry channel batch title targets now next_at =
     \<lparr> dl_channel = channel, dl_text = ab_text batch, dl_title = title, dl_target = targets, dl_status = ''active'',
       dl_count = length (ab_items batch), dl_attempts = 0, dl_next_at = next_at, dl_created = now, dl_error = None \<rparr>"

definition enqueue_pending_delivery :: "delivery \<Rightarrow> delivery list \<Rightarrow> bool \<times> delivery list" where
  "enqueue_pending_delivery entry queue =
     (if pending_delivery_key entry \<in> pending_delivery_key ` set queue then (False, queue)
      else (True, take_last pending_deliveries_max (queue @ [entry])))"

text \<open>One request to a channel\<close>

definition send_alert :: "send_channel \<Rightarrow> string \<Rightarrow> utext \<Rightarrow> delivery_state \<Rightarrow> utext option \<times> delivery_state" where
  "send_alert send channel body s =
     (let answer = send (length (ds_log s)) channel body
      in (answer, s\<lparr> ds_log := ds_log s @ [(channel, body, answer = None)] \<rparr>))"

definition queue_delivery :: "delivery \<Rightarrow> delivery_state \<Rightarrow> delivery_state" where
  "queue_delivery entry s =
     (let (added, q) = enqueue_pending_delivery entry (ds_queue s)
      in s\<lparr> ds_queue := q, ds_changed := ds_changed s \<or> added \<rparr>)"

text \<open>\<open>drainPendingDeliveries\<close>: what is kept of an entry, and the state after its request\<close>

definition drain_entry :: "send_channel \<Rightarrow> string list \<Rightarrow> int \<Rightarrow> delivery \<Rightarrow> delivery_state \<Rightarrow> delivery list \<times> delivery_state" where
  "drain_entry send channels now e s =
     (if dl_channel e \<notin> set channels then ([], s\<lparr> ds_changed := True \<rparr>)
      else if now < dl_next_at e then ([e], s)
      else case send_alert send (dl_channel e) (dl_text e) s of
        (None, s1) \<Rightarrow> ([], s1\<lparr> ds_changed := True, ds_backoff := AList.delete (dl_channel e) (ds_backoff s1) \<rparr>)
      | (Some err, s1) \<Rightarrow>
          (let attempts = max 1 (dl_attempts e + 1); exhausted = channel_retry_max_attempts \<le> attempts
           in (if exhausted then []
               else [e\<lparr> dl_attempts := attempts, dl_next_at := now + channel_retry_delay_sec attempts, dl_error := Some (take 200 err) \<rparr>],
               s1\<lparr> ds_changed := True, ds_backoff := record_channel_failure (dl_channel e) err now (ds_backoff s1),
                   ds_errors := ds_errors s1 @ [RetryFailed (dl_channel e) attempts err exhausted] \<rparr>)))"

fun drain_loop :: "send_channel \<Rightarrow> string list \<Rightarrow> int \<Rightarrow> delivery list \<Rightarrow> delivery_state \<Rightarrow> delivery list \<times> delivery_state" where
  "drain_loop send channels now [] s = ([], s)"
| "drain_loop send channels now (e # q) s =
     (let (kept, s1) = drain_entry send channels now e s; (rest, s2) = drain_loop send channels now q s1 in (kept @ rest, s2))"

definition drain_pending_deliveries :: "send_channel \<Rightarrow> string list \<Rightarrow> int \<Rightarrow> delivery_state \<Rightarrow> delivery_state" where
  "drain_pending_deliveries send channels now s =
     (let (q, s') = drain_loop send channels now (ds_queue s) s in s'\<lparr> ds_queue := q \<rparr>)"

section \<open>Handing a batch to the channels\<close>

record channel_result =
  cr_channel :: string
  cr_ok :: bool
  cr_deferred :: bool
  cr_queued :: bool
  cr_error :: "utext option"
  cr_wait :: int

definition batch_targets :: "alert_batch \<Rightarrow> string" where
  "batch_targets batch = js_join '', '' (set_order (filter (\<lambda>t. t \<noteq> []) (map (fst \<circ> am_key) (ab_items batch))))"

definition deliver_to_channel ::
  "send_channel \<Rightarrow> int \<Rightarrow> alert_batch \<Rightarrow> string \<Rightarrow> channel_result list \<times> delivery_state \<Rightarrow> channel_result list \<times> delivery_state" where
  "deliver_to_channel send now batch channel rs =
     (let (results, s) = rs; title = batch_title (length (ab_items batch)); targets = batch_targets batch;
          blocked = (case map_of (ds_backoff s) channel of Some b \<Rightarrow> if now < cb_next_at b then Some (cb_next_at b) else None | None \<Rightarrow> None)
      in case blocked of
           Some next_at \<Rightarrow>
             (results @ [\<lparr> cr_channel = channel, cr_ok = False, cr_deferred = True, cr_queued = True, cr_error = None, cr_wait = next_at - now \<rparr>],
              queue_delivery (pending_delivery_entry channel batch title targets now next_at) s)
         | None \<Rightarrow>
             (case send_alert send channel (ab_text batch) s of
                (None, s1) \<Rightarrow>
                  (results @ [\<lparr> cr_channel = channel, cr_ok = True, cr_deferred = False, cr_queued = False, cr_error = None, cr_wait = 0 \<rparr>],
                   s1\<lparr> ds_changed := ds_changed s1 \<or> map_of (ds_backoff s1) channel \<noteq> None,
                       ds_backoff := AList.delete channel (ds_backoff s1) \<rparr>)
              | (Some err, s1) \<Rightarrow>
                  (let backoff = record_channel_failure channel err now (ds_backoff s1);
                       next_at = (case map_of backoff channel of Some b \<Rightarrow> cb_next_at b | None \<Rightarrow> now)
                   in (results @ [\<lparr> cr_channel = channel, cr_ok = False, cr_deferred = False, cr_queued = True, cr_error = Some err, cr_wait = 0 \<rparr>],
                       queue_delivery (pending_delivery_entry channel batch title targets now next_at)
                         (s1\<lparr> ds_backoff := backoff, ds_changed := True \<rparr>)))))"

definition batch_errors :: "alert_batch \<Rightarrow> channel_result list \<Rightarrow> delivery_error list" where
  "batch_errors batch results =
     concat (map (\<lambda>r. map (\<lambda>m. if cr_deferred r then BatchDeferred (am_key m) (cr_channel r) (cr_wait r)
                else BatchFailed (am_key m) (cr_channel r) (case cr_error r of Some e \<Rightarrow> e | None \<Rightarrow> [])) (ab_items batch))
       (filter (\<lambda>r. \<not> cr_ok r) results))"

text \<open>The rows, the deliveries, and the keys sent and retried\<close>

record alert_run_state =
  rn_tables :: alert_tables
  rn_delivery :: delivery_state
  rn_sent :: "alert_key list"
  rn_retried :: "alert_key list"
  rn_results :: "channel_result list"

definition deliver_batch :: "send_channel \<Rightarrow> int \<Rightarrow> string list \<Rightarrow> alert_batch \<Rightarrow> alert_run_state \<Rightarrow> alert_run_state" where
  "deliver_batch send now channels batch r =
     (let (results, s) = fold (deliver_to_channel send now batch) channels ([], rn_delivery r);
          delivered = list_ex cr_ok results;
          queued_all = list_all (\<lambda>x. cr_ok x \<or> cr_queued x) results;
          keys = map am_key (ab_items batch);
          r1 = (if delivered \<or> queued_all
            then r\<lparr> rn_tables := fold commit_message (ab_items batch) (rn_tables r),
                    rn_sent := rn_sent r @ (if delivered then keys else []),
                    rn_retried := rn_retried r @ (if delivered then [] else keys) \<rparr>
            else r)
      in r1\<lparr> rn_delivery := s\<lparr> ds_errors := ds_errors s @ batch_errors batch results \<rparr>, rn_results := rn_results r @ results \<rparr>)"

definition max_messages_per_run :: "jsval \<Rightarrow> jsval \<Rightarrow> int" where
  "max_messages_per_run options env =
     clamp (js_Number (js_or (js_get options ''max_messages'') (js_or (js_get env ''ALERT_MAX_MESSAGES_PER_RUN'') (JInt 30)))) 1 100"

definition deliver_alerts ::
  "send_channel \<Rightarrow> (alert_text \<Rightarrow> utext) \<Rightarrow> string list \<Rightarrow> alert_inputs \<Rightarrow> alert_rows \<Rightarrow> delivery_state \<Rightarrow> alert_run_state" where
  "deliver_alerts send render channels inp rows s0 =
     (let (st, ms) = alert_pass inp rows;
          s1 = drain_pending_deliveries send channels (ai_now inp) s0
      in fold (deliver_batch send (ai_now inp) channels) (build_alert_batches render ms)
           \<lparr> rn_tables = st, rn_delivery = s1, rn_sent = [], rn_retried = [], rn_results = [] \<rparr>)"

text \<open>What is written back: only when something changed, and at most the first 100 entries\<close>

definition stored_deliveries :: "delivery_state \<Rightarrow> delivery_state \<Rightarrow> delivery list \<times> (string \<times> channel_backoff) list" where
  "stored_deliveries old new =
     (if ds_changed new then (take pending_deliveries_max (ds_queue new), ds_backoff new) else (ds_queue old, ds_backoff old))"

section \<open>Batches hold every message, in order and in full\<close>

lemma length_units [simp]: "length (units s) = length s"
  by (simp add: units_def)

lemma nat_str_three_digits: "n \<le> 999 \<Longrightarrow> length (nat_str n) \<le> 3"
  by (subst nat_str.simps, simp, subst nat_str.simps, simp, subst nat_str.simps, simp)

definition batch_body :: "(alert_text \<Rightarrow> utext) \<Rightarrow> nat \<Rightarrow> alert_message list \<Rightarrow> utext" where
  "batch_body render start items = fold (\<lambda>(i, m) body. add_entry body (batch_entry i (render (am_text m)))) (enumerate start items) []"

lemma batch_body_snoc:
  "batch_body render start (items @ [m]) = add_entry (batch_body render start items) (batch_entry (start + length items) (render (am_text m)))"
  by (simp add: batch_body_def enumerate_append_eq)

lemma batch_body_one: "batch_body render i [m] = batch_entry i (render (am_text m))"
  by (simp add: batch_body_def add_entry_def)

text \<open>The batches from a position on: not empty, headed by their position, with the whole text of each entry\<close>

fun batches_from :: "(alert_text \<Rightarrow> utext) \<Rightarrow> nat \<Rightarrow> nat \<Rightarrow> alert_batch list \<Rightarrow> bool" where
  "batches_from render n start [] = True"
| "batches_from render n start (b # bs) =
     (ab_items b \<noteq> [] \<and>
      ab_text b = batch_header n start (length (ab_items b)) @ 10 # batch_body render start (ab_items b) \<and>
      batches_from render n (start + length (ab_items b)) bs)"

lemma batch_header_length: "n \<le> 999 \<Longrightarrow> start + k \<le> 999 \<Longrightarrow> start < 999 \<Longrightarrow> length (batch_header n start k) \<le> 27"
proof -
  assume "n \<le> 999" "start + k \<le> 999" "start < 999"
  then have "length (nat_str n) \<le> 3" "length (nat_str (start + 1)) \<le> 3" "length (nat_str (start + k)) \<le> 3"
    by (simp_all add: nat_str_three_digits)
  moreover have "length (batch_header n start k) =
      16 + length (nat_str n) + (if 1 < n then 2 + length (nat_str (start + 1)) + length (nat_str (start + k)) else 0)"
    by (simp add: batch_header_def)
  ultimately show ?thesis by (simp split: if_split)
qed

lemma batch_entry_length: "i < 999 \<Longrightarrow> length (batch_entry i body) \<le> 906"
  using nat_str_three_digits [of "i + 1"] by (simp add: batch_entry_def)

lemma flush_batch_whole:
  assumes "items \<noteq> []" "length body \<le> max_batch_chars" "n \<le> 999" "start + length items \<le> 999"
  shows "flush_batch n start items body = [\<lparr> ab_items = items, ab_text = batch_header n start (length items) @ 10 # body \<rparr>]"
proof -
  have "start < 999" using assms(1,4) by (cases items) simp_all
  then have "length (batch_header n start (length items)) \<le> 27" using assms(3,4) by (intro batch_header_length) simp_all
  with assms(1,2) show ?thesis by (simp add: flush_batch_def max_batch_chars_def)
qed

lemma batch_loop_partition:
  "concat (map ab_items (batch_loop render n i start items body ms)) = items @ ms"
  by (induction ms arbitrary: i start items body) (auto simp: flush_batch_def Let_def)

lemma batch_loop_from:
  assumes "items \<noteq> []" "body = batch_body render start items" "length body \<le> max_batch_chars" "i = start + length items"
    and "i + length ms \<le> n" "n \<le> 999"
  shows "batches_from render n start (batch_loop render n i start items body ms)"
  using assms
proof (induction ms arbitrary: i start items body)
  case Nil
  then show ?case by (simp add: flush_batch_whole)
next
  case (Cons m ms)
  let ?entry = "batch_entry i (render (am_text m))"
  have i: "i < 999" using Cons.prems(5,6) by simp
  show ?case
  proof (cases "max_batch_chars < length (batch_header n i (length items)) + length (add_entry body ?entry)")
    case True
    have "batches_from render n i (batch_loop render n (Suc i) i [m] ?entry ms)"
      using Cons.prems batch_entry_length [OF i, of "render (am_text m)"]
      by (intro Cons.IH) (simp_all add: batch_body_one max_batch_chars_def)
    moreover have "flush_batch n start items body = [\<lparr> ab_items = items, ab_text = batch_header n start (length items) @ 10 # body \<rparr>]"
      using Cons.prems by (intro flush_batch_whole) simp_all
    ultimately show ?thesis using True Cons.prems(1,2,4) by (simp add: Let_def)
  next
    case False
    have "batches_from render n start (batch_loop render n (Suc i) start (items @ [m]) (add_entry body ?entry) ms)"
      using Cons.prems False by (intro Cons.IH) (simp_all add: batch_body_snoc)
    with False Cons.prems(1) show ?thesis by (simp add: Let_def)
  qed
qed

text \<open>
  CX: The batches of a run contain its messages once each and in order; none is empty, and the text of a batch is its
  header followed by the numbered entries of its messages in full: the limits on its length never cut one off.
\<close>

theorem batches_complete:
  assumes "length ms \<le> 999"
  shows "concat (map ab_items (build_alert_batches render ms)) = ms \<and>
    batches_from render (length ms) 0 (build_alert_batches render ms)"
proof -
  have "batches_from render (length ms) 0 (build_alert_batches render ms)"
  proof (cases ms)
    case Nil
    then show ?thesis by (simp add: build_alert_batches_def flush_batch_def)
  next
    case (Cons m rest)
    have "batches_from render (length ms) 0 (batch_loop render (length ms) 1 0 [m] (batch_entry 0 (render (am_text m))) rest)"
      using assms Cons batch_entry_length [of 0 "render (am_text m)"]
      by (intro batch_loop_from) (simp_all add: batch_body_one max_batch_chars_def)
    with Cons show ?thesis by (simp add: build_alert_batches_def add_entry_def Let_def)
  qed
  then show ?thesis by (simp add: build_alert_batches_def batch_loop_partition)
qed

lemma batches_complete_witness:
  "concat (map ab_items (build_alert_batches (\<lambda>_. units ''down'') [silent_message, silent_message])) = [silent_message, silent_message]"
  using batches_complete [of "[silent_message, silent_message]" "\<lambda>_. units ''down''"] by simp

section \<open>Committing\<close>

lemma deliver_to_channel_result:
  "\<exists>r s'. deliver_to_channel send now batch channel (results, s) = (results @ [r], s') \<and> (cr_ok r \<or> cr_queued r)"
  by (auto simp: deliver_to_channel_def Let_def send_alert_def split: option.split)

lemma deliver_channels_results:
  "\<exists>rs s'. fold (deliver_to_channel send now batch) channels (results, s) = (results @ rs, s') \<and>
     list_all (\<lambda>r. cr_ok r \<or> cr_queued r) rs"
proof (induction channels arbitrary: results s)
  case (Cons c cs)
  obtain r s1 where "deliver_to_channel send now batch c (results, s) = (results @ [r], s1)" "cr_ok r \<or> cr_queued r"
    using deliver_to_channel_result by metis
  moreover obtain rs s2 where "fold (deliver_to_channel send now batch) cs (results @ [r], s1) = ((results @ [r]) @ rs, s2)"
      "list_all (\<lambda>r. cr_ok r \<or> cr_queued r) rs"
    using Cons.IH by metis
  ultimately show ?case by (intro exI [of _ "r # rs"] exI [of _ s2]) simp
qed simp

lemma deliver_batch_commits: "rn_tables (deliver_batch send now channels batch r) = fold commit_message (ab_items batch) (rn_tables r)"
proof -
  obtain rs s' where "fold (deliver_to_channel send now batch) channels ([], rn_delivery r) = ([] @ rs, s')"
      "list_all (\<lambda>r. cr_ok r \<or> cr_queued r) rs"
    using deliver_channels_results by metis
  then show ?thesis by (simp add: deliver_batch_def Let_def)
qed

lemma deliver_batches_commit:
  "rn_tables (fold (deliver_batch send now channels) bs r) = fold commit_message (concat (map ab_items bs)) (rn_tables r)"
  by (induction bs arbitrary: r) (simp_all add: deliver_batch_commits)

text \<open>Whatever the channels answer, a run changes the rows exactly as the rules say: every message is committed once,
  in order, because a failed delivery is queued for a retry.
\<close>

theorem run_commits_every_message:
  "rn_tables (deliver_alerts send render channels inp rows s0) = fst (run_alert_rules inp rows)"
  by (simp add: deliver_alerts_def run_alert_rules_def case_prod_unfold Let_def deliver_batches_commit
      build_alert_batches_def batch_loop_partition)

section \<open>What happens to a queued delivery\<close>

lemma channel_retry_delay_bounds: "300 \<le> channel_retry_delay_sec k \<and> channel_retry_delay_sec k \<le> 3600"
proof -
  have "(1::int) \<le> 2 ^ nat (max 1 k - 1)" by simp
  then show ?thesis by (simp add: channel_retry_delay_sec_def channel_retry_max_sec_def channel_retry_base_sec_def)
qed

text \<open>
  The fate of an entry in a drain: its channel is gone; it is not due and stays; it was delivered; it stays with one
  more attempt and a new time; or it is given up with an error at its last attempt.
\<close>

definition delivery_fate :: "string list \<Rightarrow> int \<Rightarrow> delivery list \<Rightarrow> delivery_state \<Rightarrow> delivery \<Rightarrow> bool" where
  "delivery_fate channels now kept s e \<longleftrightarrow>
     dl_channel e \<notin> set channels \<or>
     (now < dl_next_at e \<and> e \<in> set kept) \<or>
     (dl_channel e, dl_text e, True) \<in> set (ds_log s) \<or>
     (\<exists>e' \<in> set kept. pending_delivery_key e' = pending_delivery_key e \<and> dl_attempts e' = max 1 (dl_attempts e + 1) \<and>
        dl_attempts e' < channel_retry_max_attempts \<and> now + 300 \<le> dl_next_at e' \<and> dl_next_at e' \<le> now + 3600) \<or>
     (channel_retry_max_attempts \<le> max 1 (dl_attempts e + 1) \<and>
        (\<exists>err. RetryFailed (dl_channel e) (max 1 (dl_attempts e + 1)) err True \<in> set (ds_errors s)))"

lemma delivery_fate_mono:
  assumes "delivery_fate channels now kept s e" "set kept \<subseteq> set kept'" "set (ds_log s) \<subseteq> set (ds_log s')" "set (ds_errors s) \<subseteq> set (ds_errors s')"
  shows "delivery_fate channels now kept' s' e"
  using assms unfolding delivery_fate_def by blast

lemma drain_entry_grows:
  assumes "drain_entry send channels now e s = (kept, s')"
  shows "set (ds_log s) \<subseteq> set (ds_log s')" "set (ds_errors s) \<subseteq> set (ds_errors s')" "ds_queue s' = ds_queue s"
  using assms by (auto simp: drain_entry_def send_alert_def Let_def split: if_splits option.splits)

lemma drain_entry_fate:
  assumes "drain_entry send channels now e s = (kept, s')"
  shows "delivery_fate channels now kept s' e"
  using assms channel_retry_delay_bounds [of "max 1 (dl_attempts e + 1)"]
  by (auto simp: drain_entry_def send_alert_def delivery_fate_def pending_delivery_key_def Let_def split: if_splits option.splits)

lemma drain_entry_key:
  assumes "drain_entry send channels now e s = (kept, s')"
  shows "map pending_delivery_key kept \<in> {[], [pending_delivery_key e]}"
  using assms by (auto simp: drain_entry_def send_alert_def pending_delivery_key_def Let_def split: if_splits option.splits)

lemma drain_loop_grows:
  assumes "drain_loop send channels now q s = (kept, s')"
  shows "set (ds_log s) \<subseteq> set (ds_log s') \<and> set (ds_errors s) \<subseteq> set (ds_errors s') \<and> ds_queue s' = ds_queue s"
  using assms
proof (induction q arbitrary: s kept)
  case (Cons e q)
  obtain k1 s1 rest where "drain_entry send channels now e s = (k1, s1)" "drain_loop send channels now q s1 = (rest, s')"
    using Cons.prems by (auto simp: Let_def split: prod.splits)
  with drain_entry_grows [OF this(1)] Cons.IH [OF this(2)] show ?case by auto
qed simp

lemma drain_loop_fate:
  assumes "drain_loop send channels now q s = (kept, s')" "e \<in> set q"
  shows "delivery_fate channels now kept s' e"
  using assms
proof (induction q arbitrary: s kept)
  case (Cons x q)
  obtain k1 s1 rest where 1: "drain_entry send channels now x s = (k1, s1)" and 2: "drain_loop send channels now q s1 = (rest, s')"
      and k: "kept = k1 @ rest"
    using Cons.prems(1) by (auto simp: Let_def split: prod.splits)
  show ?case
  proof (cases "e = x")
    case True
    then show ?thesis
      using drain_entry_fate [OF 1] drain_loop_grows [OF 2] k by (auto intro: delivery_fate_mono)
  next
    case False
    with Cons.prems(2) have "delivery_fate channels now rest s' e" by (intro Cons.IH [OF 2]) simp
    then show ?thesis using k by (auto intro: delivery_fate_mono)
  qed
qed simp

lemma drain_loop_keys:
  assumes "drain_loop send channels now q s = (kept, s')"
  shows "mset (map pending_delivery_key kept) \<subseteq># mset (map pending_delivery_key q)"
  using assms
proof (induction q arbitrary: s kept)
  case (Cons e q)
  obtain k1 s1 rest where 1: "drain_entry send channels now e s = (k1, s1)" and 2: "drain_loop send channels now q s1 = (rest, s')"
      and k: "kept = k1 @ rest"
    using Cons.prems by (auto simp: Let_def split: prod.splits)
  have "mset (map pending_delivery_key rest) \<subseteq># mset (map pending_delivery_key q)" by (rule Cons.IH [OF 2])
  moreover have "mset (map pending_delivery_key k1) \<subseteq># {# pending_delivery_key e #}"
    using drain_entry_key [OF 1] by auto
  ultimately show ?case
    using k subset_mset.add_mono [of "mset (map pending_delivery_key k1)" "{# pending_delivery_key e #}"
        "mset (map pending_delivery_key rest)" "mset (map pending_delivery_key q)"] by simp
qed simp

text \<open>
  CX: A drain of the retry queue loses no delivery silently. Each entry is delivered, or belongs to a channel that is
  no longer configured, or stays as it is because it is not due, or stays with one more attempt and is due again in 5
  to 60 minutes, or is given up with a recorded error after its eighth attempt. Nothing is added, and no delivery
  comes to be queued twice.
\<close>

theorem drain_accounts_for_each_delivery:
  fixes s :: delivery_state and send :: send_channel and channels :: "string list" and now :: int
  defines "s' \<equiv> drain_pending_deliveries send channels now s"
  shows "(\<forall>e \<in> set (ds_queue s). delivery_fate channels now (ds_queue s') s' e) \<and>
    mset (map pending_delivery_key (ds_queue s')) \<subseteq># mset (map pending_delivery_key (ds_queue s))"
proof -
  obtain kept s1 where d: "drain_loop send channels now (ds_queue s) s = (kept, s1)" by (metis surj_pair)
  have s': "s' = s1\<lparr> ds_queue := kept \<rparr>" by (simp add: s'_def drain_pending_deliveries_def d)
  have "delivery_fate channels now (ds_queue s') s' e" if "e \<in> set (ds_queue s)" for e
    by (rule delivery_fate_mono [OF drain_loop_fate [OF d that]]) (simp_all add: s')
  then show ?thesis using drain_loop_keys [OF d] by (simp add: s')
qed

text \<open>A state with the given queue, and nothing else\<close>

definition queue_of :: "delivery list \<Rightarrow> delivery_state" where
  "queue_of q = \<lparr> ds_queue = q, ds_backoff = [], ds_changed = False, ds_errors = [], ds_log = [] \<rparr>"

definition sample_delivery :: delivery where
  "sample_delivery = \<lparr> dl_channel = ''bark'', dl_text = [65], dl_title = [], dl_target = ''a'', dl_status = ''active'', dl_count = 1,
     dl_attempts = 7, dl_next_at = 10, dl_created = 1, dl_error = None \<rparr>"

lemma drain_accounts_for_each_delivery_witness:
  "let s' = drain_pending_deliveries (\<lambda>_ _ _. Some [66]) [''bark''] 20 (queue_of [sample_delivery])
   in ds_queue s' = [] \<and> RetryFailed ''bark'' 8 [66] True \<in> set (ds_errors s')"
proof -
  let ?s = "drain_pending_deliveries (\<lambda>_ _ _. Some [66]) [''bark''] 20 (queue_of [sample_delivery])"
  have "delivery_fate [''bark''] 20 (ds_queue ?s) ?s sample_delivery"
    using drain_accounts_for_each_delivery [where s = "queue_of [sample_delivery]" and channels = "[''bark'']" and now = 20
        and send = "\<lambda>_ _ _. Some [66]"] by (simp add: queue_of_def)
  moreover have q: "ds_queue ?s = []" "ds_log ?s = [(''bark'', [65], False)]" "ds_errors ?s = [RetryFailed ''bark'' 8 [66] True]"
    by code_simp+
  ultimately show ?thesis by (simp add: delivery_fate_def sample_delivery_def)
qed

section \<open>The queue\<close>

definition queue_ok :: "delivery list \<Rightarrow> bool" where
  "queue_ok q \<longleftrightarrow> length q \<le> pending_deliveries_max \<and> distinct (map pending_delivery_key q)"

lemma enqueue_ok: "queue_ok q \<Longrightarrow> queue_ok (snd (enqueue_pending_delivery e q))"
  by (auto simp: queue_ok_def enqueue_pending_delivery_def distinct_take_last map_take_last)

lemma distinct_submset:
  assumes "mset xs \<subseteq># mset ys" "distinct ys"
  shows "distinct xs"
proof -
  obtain zs where "mset ys = mset (xs @ zs)" using assms(1) by (metis ex_mset mset_append subset_mset.le_iff_add)
  then have "distinct (xs @ zs)" using assms(2) mset_eq_imp_distinct_iff by blast
  then show ?thesis by simp
qed

lemma drain_accounts_size:
  "mset (map pending_delivery_key (ds_queue (drain_pending_deliveries send channels now s)))
     \<subseteq># mset (map pending_delivery_key (ds_queue s)) \<and>
   length (ds_queue (drain_pending_deliveries send channels now s)) \<le> length (ds_queue s)"
proof -
  have sub: "mset (map pending_delivery_key (ds_queue (drain_pending_deliveries send channels now s)))
      \<subseteq># mset (map pending_delivery_key (ds_queue s))"
    using drain_loop_keys [OF surjective_pairing, of send channels now "ds_queue s" s]
    by (simp add: drain_pending_deliveries_def case_prod_unfold Let_def)
  with size_mset_mono [OF sub] show ?thesis by simp
qed

lemma drain_ok:
  assumes "queue_ok (ds_queue s)"
  shows "queue_ok (ds_queue (drain_pending_deliveries send channels now s))"
  using assms drain_accounts_size [of send channels now s] distinct_submset unfolding queue_ok_def by (meson le_trans)

section \<open>Every batch reaches every channel or its queue\<close>

text \<open>The channel has accepted the text, or the text waits in the queue for it\<close>

definition handed_over :: "delivery_state \<Rightarrow> string \<Rightarrow> utext \<Rightarrow> bool" where
  "handed_over s c body \<longleftrightarrow> (c, body, True) \<in> set (ds_log s) \<or> (c, body) \<in> pending_delivery_key ` set (ds_queue s)"

text \<open>A state that has dropped nothing of another\<close>

definition keeps :: "delivery_state \<Rightarrow> delivery_state \<Rightarrow> bool" where
  "keeps s s' \<longleftrightarrow> set (ds_log s) \<subseteq> set (ds_log s') \<and> pending_delivery_key ` set (ds_queue s) \<subseteq> pending_delivery_key ` set (ds_queue s')"

lemma keeps_trans: "keeps s1 s2 \<Longrightarrow> keeps s2 s3 \<Longrightarrow> keeps s1 s3"
  unfolding keeps_def by (meson subset_trans)

lemma keeps_handed_over: "keeps s s' \<Longrightarrow> handed_over s c body \<Longrightarrow> handed_over s' c body"
  by (auto simp: keeps_def handed_over_def)

lemma enqueue_queue:
  "pending_delivery_key e \<in> pending_delivery_key ` set (snd (enqueue_pending_delivery e q))"
  "length q < pending_deliveries_max \<Longrightarrow> pending_delivery_key ` set q \<subseteq> pending_delivery_key ` set (snd (enqueue_pending_delivery e q))"
  "length (snd (enqueue_pending_delivery e q)) \<le> Suc (length q)"
  by (auto simp: enqueue_pending_delivery_def take_last_def pending_deliveries_max_def)

text \<open>Either the channel accepted the batch, or its delivery was queued\<close>

lemma deliver_to_channel_shape:
  assumes "deliver_to_channel send now batch c rs = (results, s')"
  shows "\<exists>l. ds_log s' = ds_log (snd rs) @ l \<and>
    ((ds_queue s' = ds_queue (snd rs) \<and> (c, ab_text batch, True) \<in> set l) \<or>
     (\<exists>e. pending_delivery_key e = (c, ab_text batch) \<and> ds_queue s' = snd (enqueue_pending_delivery e (ds_queue (snd rs)))))"
proof -
  have key: "pending_delivery_key (pending_delivery_entry c batch t ts n at') = (c, ab_text batch)" for t ts n at'
    by (simp add: pending_delivery_key_def pending_delivery_entry_def)
  have queued: "ds_queue (queue_delivery e x) = snd (enqueue_pending_delivery e (ds_queue x))" "ds_log (queue_delivery e x) = ds_log x" for e x
    by (simp_all add: queue_delivery_def case_prod_unfold Let_def)
  have ex: "\<exists>e. pending_delivery_key e = (c, ab_text batch) \<and>
      snd (enqueue_pending_delivery (pending_delivery_entry c batch t ts n at') q) = snd (enqueue_pending_delivery e q)" for t ts n at' q
    using key by blast
  show ?thesis
    using assms by (cases rs) (auto simp: deliver_to_channel_def send_alert_def Let_def queued split: option.splits intro: ex)
qed

lemma deliver_to_channel_handed:
  assumes "deliver_to_channel send now batch c rs = (results, s')"
  shows "handed_over s' c (ab_text batch)" "length (ds_queue s') \<le> Suc (length (ds_queue (snd rs)))"
    "length (ds_queue (snd rs)) < pending_deliveries_max \<Longrightarrow> keeps (snd rs) s'"
    "queue_ok (ds_queue (snd rs)) \<Longrightarrow> queue_ok (ds_queue s')"
proof -
  obtain l where l: "ds_log s' = ds_log (snd rs) @ l"
    and q: "(ds_queue s' = ds_queue (snd rs) \<and> (c, ab_text batch, True) \<in> set l) \<or>
     (\<exists>e. pending_delivery_key e = (c, ab_text batch) \<and> ds_queue s' = snd (enqueue_pending_delivery e (ds_queue (snd rs))))"
    using deliver_to_channel_shape [OF assms] by blast
  show "handed_over s' c (ab_text batch)"
    using q
  proof (elim disjE exE conjE)
    fix e
    assume "pending_delivery_key e = (c, ab_text batch)" "ds_queue s' = snd (enqueue_pending_delivery e (ds_queue (snd rs)))"
    then show ?thesis using enqueue_queue(1) [of e "ds_queue (snd rs)"] by (simp add: handed_over_def)
  qed (simp add: handed_over_def l)
  show "length (ds_queue s') \<le> Suc (length (ds_queue (snd rs)))" using q enqueue_queue(3) by auto
  show "length (ds_queue (snd rs)) < pending_deliveries_max \<Longrightarrow> keeps (snd rs) s'"
    using q enqueue_queue(2) [of "ds_queue (snd rs)"] unfolding keeps_def l by (metis Un_upper1 order_refl set_append)
  show "queue_ok (ds_queue (snd rs)) \<Longrightarrow> queue_ok (ds_queue s')" using q enqueue_ok by auto
qed

lemma deliver_channels_handed:
  assumes "fold (deliver_to_channel send now batch) cs rs = (results, s')" "length (ds_queue (snd rs)) + length cs \<le> pending_deliveries_max"
  shows "keeps (snd rs) s' \<and> (\<forall>c \<in> set cs. handed_over s' c (ab_text batch)) \<and> length (ds_queue s') \<le> length (ds_queue (snd rs)) + length cs"
  using assms
proof (induction cs arbitrary: rs)
  case (Cons c cs)
  obtain r1 s1 where 1: "deliver_to_channel send now batch c rs = (r1, s1)" by (metis surj_pair)
  note h = deliver_to_channel_handed [OF 1]
  have room: "length (ds_queue (snd rs)) < pending_deliveries_max" using Cons.prems(2) by simp
  have "keeps s1 s' \<and> (\<forall>c \<in> set cs. handed_over s' c (ab_text batch)) \<and> length (ds_queue s') \<le> length (ds_queue s1) + length cs"
    using Cons.IH [of "(r1, s1)"] Cons.prems 1 h(2) by simp
  then show ?case using h(1,2) h(3) [OF room] by (auto intro: keeps_trans keeps_handed_over)
qed (auto simp: keeps_def)

lemma deliver_batch_delivery:
  "rn_delivery (deliver_batch send now cs batch r) =
     (let (results, s) = fold (deliver_to_channel send now batch) cs ([], rn_delivery r) in s\<lparr> ds_errors := ds_errors s @ batch_errors batch results \<rparr>)"
  by (simp add: deliver_batch_def case_prod_unfold Let_def)

lemma deliver_batches_handed:
  assumes "length (ds_queue (rn_delivery r)) + length bs * length cs \<le> pending_deliveries_max"
  shows "keeps (rn_delivery r) (rn_delivery (fold (deliver_batch send now cs) bs r)) \<and>
    (\<forall>b \<in> set bs. \<forall>c \<in> set cs. handed_over (rn_delivery (fold (deliver_batch send now cs) bs r)) c (ab_text b))"
  using assms
proof (induction bs arbitrary: r)
  case (Cons b bs)
  let ?r1 = "deliver_batch send now cs b r"
  obtain results s1 where 1: "fold (deliver_to_channel send now b) cs ([], rn_delivery r) = (results, s1)" by (metis surj_pair)
  have d: "rn_delivery ?r1 = s1\<lparr> ds_errors := ds_errors s1 @ batch_errors b results \<rparr>" by (simp add: deliver_batch_delivery 1)
  have h: "keeps (rn_delivery r) s1 \<and> (\<forall>c \<in> set cs. handed_over s1 c (ab_text b)) \<and>
      length (ds_queue s1) \<le> length (ds_queue (rn_delivery r)) + length cs"
    using deliver_channels_handed [OF 1] Cons.prems by simp
  have same: "keeps s1 (rn_delivery ?r1)" "ds_queue (rn_delivery ?r1) = ds_queue s1" by (simp_all add: d keeps_def)
  have "keeps (rn_delivery ?r1) (rn_delivery (fold (deliver_batch send now cs) bs ?r1)) \<and>
    (\<forall>b \<in> set bs. \<forall>c \<in> set cs. handed_over (rn_delivery (fold (deliver_batch send now cs) bs ?r1)) c (ab_text b))"
    using Cons.IH [of ?r1] Cons.prems h same(2) by simp
  then show ?case using h same(1) by (auto intro: keeps_trans keeps_handed_over)
qed (simp add: keeps_def)

text \<open>C31: While the retry queue has room, a run hands every batch to every configured channel: after the run the channel
  has accepted its text, or the delivery waits in the queue. A failing channel holds nothing back from the others.
\<close>

theorem every_batch_delivered_or_queued:
  assumes "length (ds_queue s0) + length (build_alert_batches render (snd (alert_pass inp rows))) * length channels \<le> pending_deliveries_max"
    and "b \<in> set (build_alert_batches render (snd (alert_pass inp rows)))" "c \<in> set channels"
  shows "handed_over (rn_delivery (deliver_alerts send render channels inp rows s0)) c (ab_text b)"
proof -
  have "length (ds_queue (drain_pending_deliveries send channels (ai_now inp) s0)) \<le> length (ds_queue s0)"
    using drain_accounts_size by blast
  with assms show ?thesis
    by (auto simp: deliver_alerts_def case_prod_unfold Let_def intro!: deliver_batches_handed [THEN conjunct2, rule_format])
qed

lemma every_batch_delivered_or_queued_witness:
  "handed_over (rn_delivery (deliver_alerts (\<lambda>_ _ _. Some [66]) (\<lambda>_. [68]) [''bark''] silent_run [] (queue_of []))) ''bark''
     (ab_text (hd (build_alert_batches (\<lambda>_. [68]) [silent_message])))"
proof -
  have ms: "snd (alert_pass silent_run []) = [silent_message]" by (simp add: alert_pass_def silent_pass)
  obtain b where one: "build_alert_batches (\<lambda>_. [68]) [silent_message] = [b]"
    by (simp add: build_alert_batches_def Let_def flush_batch_def)
  show ?thesis
    by (rule every_batch_delivered_or_queued) (simp_all add: ms one queue_of_def pending_deliveries_max_def)
qed

text \<open>
  CX: The retry queue stays within 100 entries and never holds the same text for the same channel twice, whatever a run
  does; so the queue it stores is the whole queue.
\<close>

theorem retry_queue_invariant:
  assumes "queue_ok (ds_queue s0)"
  shows "queue_ok (ds_queue (rn_delivery (deliver_alerts send render channels inp rows s0))) \<and>
    fst (stored_deliveries s0 (rn_delivery (deliver_alerts send render channels inp rows s0))) \<in>
      {ds_queue s0, ds_queue (rn_delivery (deliver_alerts send render channels inp rows s0))}"
proof -
  have channels: "queue_ok (ds_queue (snd rs)) \<Longrightarrow> queue_ok (ds_queue (snd (fold (deliver_to_channel send now b) cs rs)))" for cs b now rs
  proof (induction cs arbitrary: rs)
    case (Cons c cs)
    then show ?case using deliver_to_channel_handed(4) [OF surjective_pairing] by simp
  qed simp
  have batches: "queue_ok (ds_queue (rn_delivery r)) \<Longrightarrow> queue_ok (ds_queue (rn_delivery (fold (deliver_batch send now cs) bs r)))" for cs bs now r
  proof (induction bs arbitrary: r)
    case (Cons b bs)
    then show ?case using channels [of "([], rn_delivery r)" now b cs] by (simp add: deliver_batch_delivery case_prod_unfold Let_def)
  qed simp
  have "queue_ok (ds_queue (rn_delivery (deliver_alerts send render channels inp rows s0)))"
    unfolding deliver_alerts_def case_prod_unfold Let_def by (rule batches) (simp add: assms drain_ok)
  then show ?thesis by (simp add: stored_deliveries_def queue_ok_def)
qed

lemma retry_queue_invariant_witness:
  "queue_ok (ds_queue (rn_delivery (deliver_alerts (\<lambda>_ _ _. Some [66]) (\<lambda>_. [68]) [''bark''] silent_run [] (queue_of [sample_delivery]))))"
  using retry_queue_invariant [of "queue_of [sample_delivery]"]
  by (simp add: queue_ok_def [of "[sample_delivery]"] queue_of_def pending_deliveries_max_def)

end
