(* ===== verification/AlertSettings.thy ===== *)
theory AlertSettings
  imports Utils
begin

text \<open>
  The settings of the alerts in \<open>worker/src/alerts.js\<close>: their normal form, the templates of the notifications
  with their validation, and what a template renders to.

  \<^item> The two default templates with Chinese words are arguments (\<open>default_texts\<close>); a string holds units below 256.
  \<^item> A rejected template is the left side of a sum, with the reason the code reports.
\<close>

section \<open>Normal form\<close>

definition numeric_fields :: "string list" where
  "numeric_fields = [''offline_minutes'', ''repeat_minutes'', ''cpu_percent'', ''memory_percent'', ''disk_percent'', ''load1'',
     ''disk_read_mb_s'', ''disk_write_mb_s'', ''net_rx_mb_s'', ''net_tx_mb_s'', ''process_count'', ''thread_count'', ''expiry_days'',
     ''traffic_remaining_percent'', ''traffic_remaining_gb'']"

definition boolean_fields :: "string list" where
  "boolean_fields = [''enabled'', ''telegram_enabled'', ''telegram_disable_web_preview'', ''telegram_silent'', ''email_enabled'',
     ''webhook_enabled'', ''bark_enabled'', ''gotify_enabled'', ''feishu_enabled'', ''dingtalk_enabled'', ''wecom_enabled'',
     ''serverchan_enabled'', ''notify_online'']"

record default_texts =
  dt_email :: string
  dt_webhook :: string

definition newline :: string where "newline = [CHR 0x0A]"

definition default_telegram_template :: string where
  "default_telegram_template =
     ''{{title}}'' @ newline @ ''{{message}}'' @ newline @ newline @ ''{{site_name}} '' @ [CHR 0xB7] @ '' {{time}}''"

definition default_email_subject_template :: string where
  "default_email_subject_template = ''{{site_name}} '' @ [CHR 0xB7] @ '' {{title}}''"

definition default_settings :: "default_texts \<Rightarrow> (string \<times> jsval) list" where
  "default_settings texts =
     [(''enabled'', Bool False), (''telegram_enabled'', Bool True), (''telegram_chat_id'', Str []), (''telegram_format'', Str ''plain''),
      (''telegram_template'', Str default_telegram_template), (''telegram_message_thread_id'', Str []),
      (''telegram_disable_web_preview'', Bool True), (''telegram_silent'', Bool False), (''email_enabled'', Bool False),
      (''email_from'', Str []), (''email_to'', Str []), (''email_reply_to'', Str []), (''email_format'', Str ''text''),
      (''email_subject_template'', Str default_email_subject_template), (''email_template'', Str (dt_email texts)),
      (''webhook_enabled'', Bool False), (''webhook_url'', Str []), (''webhook_method'', Str ''POST''),
      (''webhook_template'', Str (dt_webhook texts)), (''bark_enabled'', Bool False), (''bark_server'', Str ''https://api.day.app''),
      (''gotify_enabled'', Bool False), (''gotify_url'', Str []), (''feishu_enabled'', Bool False), (''dingtalk_enabled'', Bool False),
      (''wecom_enabled'', Bool False), (''serverchan_enabled'', Bool False), (''offline_minutes'', JInt 10), (''repeat_minutes'', JInt 360),
      (''notify_online'', Bool True), (''cpu_percent'', JInt 90), (''memory_percent'', JInt 90), (''disk_percent'', JInt 90),
      (''load1'', JInt 0), (''disk_read_mb_s'', JInt 0), (''disk_write_mb_s'', JInt 0), (''net_rx_mb_s'', JInt 0), (''net_tx_mb_s'', JInt 0),
      (''process_count'', JInt 0), (''thread_count'', JInt 0), (''expiry_days'', JInt 7), (''traffic_remaining_percent'', JInt 10),
      (''traffic_remaining_gb'', JInt 0)]"

definition number_limits :: "(string \<times> int) list" where
  "number_limits = [(''offline_minutes'', 1440), (''repeat_minutes'', 10080), (''cpu_percent'', 100), (''memory_percent'', 100),
     (''disk_percent'', 100), (''load1'', 1000), (''disk_read_mb_s'', 100000), (''disk_write_mb_s'', 100000), (''net_rx_mb_s'', 100000),
     (''net_tx_mb_s'', 100000), (''process_count'', 1000000), (''thread_count'', 1000000), (''expiry_days'', 3650),
     (''traffic_remaining_percent'', 100), (''traffic_remaining_gb'', 1048576)]"

definition number_limit :: "string \<Rightarrow> int" where
  "number_limit key = (case map_of number_limits key of Some m \<Rightarrow> m | None \<Rightarrow> 1000000)"

definition keeps_decimals :: "string \<Rightarrow> bool" where
  "keeps_decimals key = (ends_with ''_percent'' key \<or> ends_with ''_gb'' key \<or> ends_with ''_mb_s'' key \<or> key = ''load1'')"

definition normalize_number :: "string \<Rightarrow> jsval \<Rightarrow> jsval \<Rightarrow> jsval" where
  "normalize_number key v fallback =
     (case js_Number v of
        Fin n \<Rightarrow>
          if n < 0 then fallback
          else let m = min n (of_int (number_limit key))
               in if keeps_decimals key then Num (Fin (of_int \<lfloor>m * 100 + 1 / 2\<rfloor> / 100)) else JInt \<lfloor>m\<rfloor>
      | _ \<Rightarrow> fallback)"

definition normalize_telegram_format :: "string \<Rightarrow> string" where
  "normalize_telegram_format v =
     (let f = js_lower (js_trim v) in if f \<in> {''plain'', ''html'', ''markdownv2''} then f else ''plain'')"

definition normalize_email_format :: "string \<Rightarrow> string" where
  "normalize_email_format v = (if js_lower (js_trim v) = ''html'' then ''html'' else ''text'')"

text \<open>\<open>toUpperCase() === 'GET'\<close>: no unit below 256 outside the letters has one of these as its upper case\<close>

definition normalize_webhook_method :: "string \<Rightarrow> string" where
  "normalize_webhook_method v = (if js_lower (js_trim v) = ''get'' then ''GET'' else ''POST'')"

section \<open>Templates\<close>

definition template_keys :: "string list" where
  "template_keys = [''title'', ''message'', ''site_name'', ''time'', ''alert_count'', ''channel'']"

definition webhook_template_keys :: "string list" where
  "webhook_template_keys = [''event'', ''target'', ''message'', ''status'', ''time'', ''url'']"

text \<open>The names of \<open>/\{\{\s*([^{}]+?)\s*\}\}/g\<close>\<close>

definition is_brace :: "char \<Rightarrow> bool" where
  "is_brace c = (c = CHR ''{'' \<or> c = CHR ''}'')"

definition placeholder_name :: "string \<Rightarrow> string" where
  "placeholder_name w = (if js_trim w = [] then [last w] else js_trim w)"

function placeholders :: "string \<Rightarrow> string list" where
  "placeholders [] = []"
| "placeholders (c # s) =
     (let w = takeWhile (\<lambda>x. \<not> is_brace x) (tl s); r = drop (Suc (length w)) s
      in if starts_with ''{{'' (c # s) \<and> w \<noteq> [] \<and> starts_with ''}}'' r then placeholder_name w # placeholders (drop 2 r)
         else placeholders s)"
  by pat_completeness auto
termination placeholders
  by (relation "measure length") auto

declare placeholders.simps [simp del]

datatype template_error = TooLong string | UnknownPlaceholder string | RepeatedPlaceholder string | NoMessage string

definition no_returns :: "string \<Rightarrow> string" where
  "no_returns s = filter (\<lambda>c. c \<noteq> CHR 0x0D) s"

definition check_template :: "string \<Rightarrow> string \<Rightarrow> nat \<Rightarrow> bool \<Rightarrow> template_error option" where
  "check_template key raw max_length require_message =
     (let template = js_trim (no_returns raw); names = placeholders template in
      if template = [] then None
      else if max_length < length template then Some (TooLong key)
      else case find (\<lambda>n. n \<notin> set template_keys) names of
        Some n \<Rightarrow> Some (UnknownPlaceholder n)
      | None \<Rightarrow>
          (case find (\<lambda>n. 1 < length (filter (\<lambda>x. x = n) names)) template_keys of
             Some n \<Rightarrow> Some (RepeatedPlaceholder n)
           | None \<Rightarrow> if require_message \<and> ''message'' \<notin> set names then Some (NoMessage key) else None))"

definition validate_template_field :: "jsval \<Rightarrow> string \<Rightarrow> nat \<Rightarrow> bool \<Rightarrow> template_error option" where
  "validate_template_field body key max_length require_message =
     (if \<not> js_has body key then None
      else check_template key (js_String (js_coalesce (js_get body key) (Str []))) max_length require_message)"

text \<open>The first error, as the code throws it\<close>

definition validate_notification_templates :: "jsval \<Rightarrow> template_error option" where
  "validate_notification_templates body =
     (case validate_template_field body ''telegram_template'' 1500 True of
        Some e \<Rightarrow> Some e
      | None \<Rightarrow>
          (case validate_template_field body ''email_subject_template'' 300 False of
             Some e \<Rightarrow> Some e
           | None \<Rightarrow> validate_template_field body ''email_template'' 12000 True))"

definition check_webhook_template :: "string \<Rightarrow> template_error option" where
  "check_webhook_template raw =
     (let template = js_trim (no_returns raw) in
      if template = [] then None
      else if 4000 < length template then Some (TooLong ''webhook_template'')
      else map_option UnknownPlaceholder (find (\<lambda>n. n \<notin> set webhook_template_keys) (placeholders template)))"

definition validate_webhook_template_body :: "jsval \<Rightarrow> template_error option" where
  "validate_webhook_template_body body =
     (if \<not> js_has body ''webhook_template'' then None
      else check_webhook_template (js_String (js_coalesce (js_get body ''webhook_template'') (Str []))))"

definition normalize_body_template :: "string \<Rightarrow> string \<Rightarrow> nat \<Rightarrow> string" where
  "normalize_body_template v fallback max_length =
     (let template = js_trim v in
      if template = [] then fallback
      else if check_template ''template'' template max_length True = None then template else fallback)"

definition normalize_webhook_template :: "string \<Rightarrow> string \<Rightarrow> string" where
  "normalize_webhook_template v fallback =
     (let template = js_trim v in
      if template = [] then fallback else if check_webhook_template template = None then template else fallback)"

text \<open>\<open>/^-?\d{1,20}$/\<close>\<close>

definition is_thread_id :: "string \<Rightarrow> bool" where
  "is_thread_id s =
     (let d = (if s \<noteq> [] \<and> hd s = CHR ''-'' then tl s else s) in d \<noteq> [] \<and> length d \<le> 20 \<and> list_all is_digit d)"

definition normalize_string_setting :: "string \<Rightarrow> jsval \<Rightarrow> string \<Rightarrow> string" where
  "normalize_string_setting key v fallback =
     (let s = no_returns (js_String (js_coalesce v (Str []))) in
      if key = ''telegram_format'' then normalize_telegram_format s
      else if key = ''email_format'' then normalize_email_format s
      else if key = ''telegram_message_thread_id'' then (if is_thread_id (js_trim s) then js_trim s else [])
      else if key = ''telegram_template'' then normalize_body_template s fallback 1500
      else if key = ''email_subject_template'' then take 300 (if js_trim s \<noteq> [] then js_trim s else fallback)
      else if key = ''email_template'' then normalize_body_template s fallback 12000
      else if key = ''webhook_method'' then normalize_webhook_method s
      else if key = ''webhook_template'' then normalize_webhook_template s fallback
      else take (if key = ''email_to'' then 1000 else 320) (js_trim s))"

definition normalize_setting :: "jsval \<Rightarrow> string \<times> jsval \<Rightarrow> string \<times> jsval" where
  "normalize_setting input field =
     (let (key, fallback) = field; v = js_get input key in
      if \<not> js_has input key then field
      else if key \<in> set boolean_fields then (key, Bool (parse_boolean v (fallback = Bool True)))
      else if key \<in> set numeric_fields then (key, normalize_number key v fallback)
      else (key, Str (normalize_string_setting key v (js_String fallback))))"

definition normalize_alert_settings :: "default_texts \<Rightarrow> jsval \<Rightarrow> jsval" where
  "normalize_alert_settings texts input = Obj (map (normalize_setting input) (default_settings texts))"

text \<open>The fields a request may change\<close>

definition settable_texts :: "string list" where
  "settable_texts = [''telegram_chat_id'', ''telegram_format'', ''telegram_template'', ''telegram_message_thread_id'', ''email_from'',
     ''email_to'', ''email_reply_to'', ''email_format'', ''email_subject_template'', ''email_template'', ''webhook_url'', ''webhook_method'',
     ''webhook_template'', ''bark_server'', ''gotify_url'']"

definition pick_settings :: "jsval \<Rightarrow> (string \<times> jsval) list" where
  "pick_settings body =
     List.map_filter (\<lambda>k. if js_has body k then Some (k, js_get body k) else None) (numeric_fields @ boolean_fields @ settable_texts)"

text \<open>\<open>updateAlertSettings\<close> up to the write of the settings: the error, or the settings stored\<close>

definition updated_alert_settings :: "default_texts \<Rightarrow> jsval \<Rightarrow> jsval \<Rightarrow> template_error + jsval" where
  "updated_alert_settings texts previous body =
     (case validate_notification_templates body of
        Some e \<Rightarrow> Inl e
      | None \<Rightarrow>
          (case validate_webhook_template_body body of
             Some e \<Rightarrow> Inl e
           | None \<Rightarrow> Inr (normalize_alert_settings texts (fold (\<lambda>(k, v) s. js_set s k v) (pick_settings body) previous))))"

section \<open>Rendering\<close>

definition markup_entity :: "char \<Rightarrow> string" where
  "markup_entity c =
     (if c = CHR ''&'' then ''&amp;'' else if c = CHR ''<'' then ''&lt;'' else if c = CHR ''>'' then ''&gt;''
      else if c = CHR 0x22 then ''&quot;'' else if c = CHR 0x27 then ''&#39;'' else [c])"

definition escape_markup :: "string \<Rightarrow> string" where
  "escape_markup v = concat (map markup_entity v)"

definition markdown_specials :: "char list" where
  "markdown_specials = ''_*[]()~`>#+-=|{}.!'' @ [CHR 0x5C]"

definition escape_markdown_v2 :: "string \<Rightarrow> string" where
  "escape_markdown_v2 v = concat (map (\<lambda>c. if c \<in> set markdown_specials then [CHR 0x5C, c] else [c]) v)"

definition break_lines :: "string \<Rightarrow> string" where
  "break_lines v = concat (map (\<lambda>c. if c = CHR 0x0A then ''<br>'' @ newline else [c]) v)"

datatype notification_target = ToTelegram | ToSubject | ToEmail

definition render_format :: "notification_target \<Rightarrow> string \<Rightarrow> string" where
  "render_format target fmt = (if target = ToEmail then normalize_email_format fmt else normalize_telegram_format fmt)"

definition render_value :: "string \<Rightarrow> notification_target \<Rightarrow> string \<Rightarrow> string \<Rightarrow> string" where
  "render_value fmt target key v =
     (if fmt = ''html'' then (if target = ToEmail \<and> key = ''message'' then break_lines (escape_markup v) else escape_markup v)
      else if fmt = ''markdownv2'' then escape_markdown_v2 v
      else v)"

definition slot :: "string \<Rightarrow> string" where
  "slot key = ''{{'' @ key @ ''}}''"

text \<open>A template as literal characters and slots, from left to right\<close>

datatype piece = Literal char | Slot string

function template_pieces :: "string \<Rightarrow> piece list" where
  "template_pieces [] = []"
| "template_pieces (c # s) =
     (case find (\<lambda>k. starts_with (slot k) (c # s)) template_keys of
        Some k \<Rightarrow> Slot k # template_pieces (drop (length k + 3) s)
      | None \<Rightarrow> Literal c # template_pieces s)"
  by pat_completeness auto
termination template_pieces
  by (relation "measure length") auto

declare template_pieces.simps [simp del]

definition render_piece :: "(string \<Rightarrow> string) \<Rightarrow> string \<Rightarrow> notification_target \<Rightarrow> piece \<Rightarrow> string" where
  "render_piece context fmt target p = (case p of Literal c \<Rightarrow> [c] | Slot k \<Rightarrow> render_value fmt target k (context k))"

definition render_notification_template :: "string \<Rightarrow> (string \<Rightarrow> string) \<Rightarrow> string \<Rightarrow> notification_target \<Rightarrow> string" where
  "render_notification_template template context fmt target =
     concat (map (render_piece context (render_format target fmt) target) (template_pieces template))"

text \<open>\<open>renderWebhookTemplate\<close>: \<open>/\{\{\s*(event|target|message|status|time|url)\s*\}\}/g\<close>\<close>

definition webhook_slot :: "string \<Rightarrow> (string \<times> nat) option" where
  "webhook_slot s =
     (if \<not> starts_with ''{{'' s then None
      else let r = dropWhile js_space (drop 2 s) in
        List.find (\<lambda>_. True) (List.map_filter (\<lambda>k.
          if starts_with k r
          then (let e = dropWhile js_space (drop (length k) r) in if starts_with ''}}'' e then Some (k, length s - length e + 2) else None)
          else None) webhook_template_keys))"

function render_webhook_template :: "(string \<Rightarrow> string) \<Rightarrow> string \<Rightarrow> string" where
  "render_webhook_template context [] = []"
| "render_webhook_template context (c # s) =
     (case webhook_slot (c # s) of
        Some (k, n) \<Rightarrow> context k @ render_webhook_template context (drop (n - 1) s)
      | None \<Rightarrow> c # render_webhook_template context s)"
  by pat_completeness auto
termination render_webhook_template
  by (relation "measure (length \<circ> snd)") auto

declare render_webhook_template.simps [simp del]

section \<open>Rendering fills every slot, and only slots\<close>

definition piece_source :: "piece \<Rightarrow> string" where
  "piece_source p = (case p of Literal c \<Rightarrow> [c] | Slot k \<Rightarrow> slot k)"

lemma piece_simps [simp]:
  "piece_source (Literal c) = [c]" "piece_source (Slot k) = slot k"
  "render_piece context fmt target (Literal c) = [c]"
  "render_piece context fmt target (Slot k) = render_value fmt target k (context k)"
  by (simp_all add: piece_source_def render_piece_def)

lemma starts_with_split: "starts_with p s \<Longrightarrow> s = p @ drop (length p) s"
  by (simp add: starts_with_def) (metis append_take_drop_id)

lemma slot_length [simp]: "length (slot k) = length k + 4"
  by (simp add: slot_def)

lemma found_slot:
  assumes "find (\<lambda>k. starts_with (slot k) s) template_keys = Some k"
  shows "k \<in> set template_keys" "s = slot k @ drop (length k + 4) s"
  using assms starts_with_split [of "slot k" s] by (auto simp: find_Some_iff)

lemma drop_slot: "drop (length k + 4) (c # s) = drop (length k + 3) s"
  by (simp add: numeral_eq_Suc)

lemma pieces_source: "concat (map piece_source (template_pieces s)) = s"
proof (induction s rule: template_pieces.induct)
  case (2 c s)
  show ?case
  proof (cases "find (\<lambda>k. starts_with (slot k) (c # s)) template_keys")
    case None
    with 2 show ?thesis by (simp add: template_pieces.simps)
  next
    case (Some k)
    with 2 have "concat (map piece_source (template_pieces (c # s))) = slot k @ drop (length k + 3) s"
      by (simp add: template_pieces.simps)
    also have "\<dots> = c # s" using found_slot(2) [OF Some] unfolding drop_slot by simp
    finally show ?thesis .
  qed
qed (simp add: template_pieces.simps)

lemma pieces_slots: "Slot k \<in> set (template_pieces s) \<Longrightarrow> k \<in> set template_keys"
proof (induction s rule: template_pieces.induct)
  case (2 c s)
  then show ?case
    using found_slot(1) [of "c # s"]
    by (cases "find (\<lambda>k. starts_with (slot k) (c # s)) template_keys") (auto simp: template_pieces.simps)
qed (simp add: template_pieces.simps)

definition is_markup :: "char \<Rightarrow> bool" where
  "is_markup c = (c \<in> {CHR ''<'', CHR ''>'', CHR 0x22, CHR 0x27})"

lemma escape_markup_inert: "filter is_markup (escape_markup v) = []"
  by (induction v) (auto simp: escape_markup_def markup_entity_def is_markup_def)

lemma slot_no_markup: "k \<in> set template_keys \<Longrightarrow> filter is_markup (slot k) = []"
  by (auto simp: template_keys_def slot_def is_markup_def)

text \<open>In a Telegram message of HTML format the markup is the template's own: the angle brackets and quotes of the
  rendered text are, in order, those of the template, so no value (the name of a target, the error of a probe) can add a
  tag or close an attribute.
\<close>

theorem html_markup_is_the_templates:
  "filter is_markup (render_notification_template template context ''html'' ToTelegram) = filter is_markup template"
proof -
  have fmt: "render_format ToTelegram ''html'' = ''html''" by code_simp
  have "filter is_markup (render_piece context ''html'' ToTelegram p) = filter is_markup (piece_source p)"
    if "p \<in> set (template_pieces template)" for p
    using that pieces_slots slot_no_markup escape_markup_inert
    by (cases p rule: piece.exhaust) (simp_all add: render_value_def)
  then have "concat (map (filter is_markup \<circ> render_piece context ''html'' ToTelegram) (template_pieces template)) =
      concat (map (filter is_markup \<circ> piece_source) (template_pieces template))"
    by (intro arg_cong [where f = concat] map_cong) simp_all
  then show ?thesis
    unfolding render_notification_template_def fmt
    using pieces_source [of template] by (simp add: filter_concat) (metis (no_types, lifting) filter_concat map_map)
qed

text \<open>No slot begins inside another one\<close>

lemma slots_do_not_overlap:
  assumes "k \<in> set template_keys" "k' \<in> set template_keys" "starts_with (slot k') (a @ slot k @ b)" "a \<noteq> []"
  shows "length (slot k') \<le> length a"
proof (rule ccontr)
  assume "\<not> length (slot k') \<le> length a"
  then have i: "length a < length k' + 4" by simp
  let ?s = "a @ slot k @ b"
  have nth: "?s ! j = slot k' ! j" if "j < length k' + 4" for j
    using arg_cong [OF starts_with_split [OF assms(3)], of "\<lambda>x. x ! j"] that by (simp add: nth_append)
  have "slot k' ! length a = CHR ''{''" using nth [OF i] by (simp add: nth_append slot_def)
  moreover have "slot k' ! Suc (length a) = CHR ''{''" if "Suc (length a) < length k' + 4"
    using nth [OF that] by (simp add: nth_append slot_def)
  ultimately show False
    using i assms(2,4) by (auto simp: template_keys_def slot_def nth_Cons' split: if_splits)
qed

lemma slot_prefix:
  assumes "k \<in> set template_keys" "k' \<in> set template_keys" "starts_with (slot k') (slot k @ b)"
  shows "k' = k"
proof -
  have nb: "x \<noteq> CHR ''}''" if "x \<in> set q" "q \<in> set template_keys" for q x using that by (auto simp: template_keys_def)
  have "k' @ ''}}'' @ drop (length (slot k')) (slot k @ b) = k @ ''}}'' @ b"
    using starts_with_split [OF assms(3)] by (simp add: slot_def)
  then have "takeWhile (\<lambda>c. c \<noteq> CHR ''}'') (k' @ ''}}'' @ drop (length (slot k')) (slot k @ b)) = takeWhile (\<lambda>c. c \<noteq> CHR ''}'') (k @ ''}}'' @ b)"
    by simp
  then show ?thesis using nb assms(1,2) by (simp add: takeWhile_append2)
qed

lemma slot_is_piece:
  assumes "k \<in> set template_keys"
  shows "Slot k \<in> set (template_pieces (a @ slot k @ b))"
proof (induction "length a" arbitrary: a rule: less_induct)
  case less
  let ?s = "a @ slot k @ b"
  obtain c s where cs: "?s = c # s" by (cases ?s) (simp_all add: slot_def)
  show ?case
  proof (cases "find (\<lambda>k. starts_with (slot k) ?s) template_keys")
    case None
    then have "\<not> starts_with (slot k) ?s" using assms by (simp add: find_None_iff)
    then have "a \<noteq> []" by (auto simp: starts_with_def)
    then obtain a' where a: "a = c # a'" "s = a' @ slot k @ b" using cs by (cases a) simp_all
    have "Slot k \<in> set (template_pieces s)" unfolding a(2) by (rule less) (simp add: a)
    with None show ?thesis unfolding cs by (simp add: template_pieces.simps)
  next
    case (Some k')
    note f = found_slot [OF Some]
    have pre: "starts_with (slot k') ?s" using Some by (auto simp: find_Some_iff)
    show ?thesis
    proof (cases "a = []")
      case True
      then have "k' = k" using slot_prefix [OF assms f(1)] pre by simp
      with Some show ?thesis unfolding cs by (simp add: template_pieces.simps)
    next
      case False
      then have len: "length k' + 4 \<le> length a" using slots_do_not_overlap [OF assms f(1) pre] by simp
      have "drop (length k' + 3) s = drop (length k' + 4) ?s" unfolding cs drop_slot ..
      also have "\<dots> = drop (length k' + 4) a @ slot k @ b" using len by simp
      finally have "drop (length k' + 3) s = drop (length k' + 4) a @ slot k @ b" .
      moreover have "Slot k \<in> set (template_pieces (drop (length k' + 4) a @ slot k @ b))"
        by (rule less) (use len in simp)
      ultimately show ?thesis using Some unfolding cs by (simp add: template_pieces.simps)
    qed
  qed
qed

text \<open>
  CX: Every slot \<open>{{key}}\<close> of a template is filled: wherever it stands, the rendered text contains the value of
  the key, escaped for the format of the message.
\<close>

theorem every_slot_is_filled:
  assumes "key \<in> set template_keys"
  shows "\<exists>x y. render_notification_template (a @ slot key @ b) context fmt target =
    x @ render_value (render_format target fmt) target key (context key) @ y"
proof -
  obtain ps qs where "template_pieces (a @ slot key @ b) = ps @ Slot key # qs"
    using slot_is_piece [OF assms] by (meson split_list)
  then show ?thesis by (auto simp: render_notification_template_def)
qed

lemma every_slot_is_filled_witness:
  "\<exists>x y. render_notification_template (''<b>'' @ slot ''message'' @ ''</b>'') (\<lambda>_. ''a&b'') ''html'' ToTelegram = x @ ''a&amp;b'' @ y"
proof -
  have "render_value (render_format ToTelegram ''html'') ToTelegram ''message'' ''a&b'' = ''a&amp;b''" by code_simp
  then show ?thesis
    using every_slot_is_filled [of "''message''" "''<b>''" "''</b>''" "\<lambda>_. ''a&b''" "''html''" ToTelegram]
    by (simp add: template_keys_def)
qed

text \<open>
  CX: The validation accepts a slot with spaces inside, as \<open>{{ message }}\<close>, as the message every template must
  have; the rendering fills slots without spaces only, so such a notification never contains its message.
\<close>

theorem spaced_slot_is_accepted_but_not_filled:
  "check_template key ''{{ message }}'' 1500 True = None \<and>
   render_notification_template ''{{ message }}'' context fmt target = ''{{ message }}''"
proof -
  have "placeholders ''{{ message }}'' = [''message'']" "js_trim (no_returns ''{{ message }}'') = ''{{ message }}''" by code_simp+
  then have "check_template key ''{{ message }}'' 1500 True = None" by (simp add: check_template_def template_keys_def)
  moreover have "template_pieces ''{{ message }}'' = map Literal ''{{ message }}''" by code_simp
  ultimately show ?thesis by (simp add: render_notification_template_def)
qed

section \<open>Numbers stay within their limits\<close>

lemma normalize_number_bounds:
  assumes "fallback = Num (Fin f)" "0 \<le> f" "f \<le> of_int (number_limit key)" "0 \<le> number_limit key"
  shows "\<exists>q. normalize_number key v fallback = Num (Fin q) \<and> 0 \<le> q \<and> q \<le> of_int (number_limit key)"
proof (cases "js_Number v")
  case (Fin n)
  show ?thesis
  proof (cases "n < 0")
    case True
    with Fin assms show ?thesis by (simp add: normalize_number_def)
  next
    case False
    let ?m = "min n (of_int (number_limit key))"
    have m: "0 \<le> ?m" "?m \<le> of_int (number_limit key)" using False assms(4) by simp_all
    have "\<lfloor>?m * 100 + 1 / 2\<rfloor> \<le> \<lfloor>of_int (number_limit key * 100) + 1 / 2 :: rat\<rfloor>" using m(2) by (intro floor_mono) simp
    also have "\<dots> = number_limit key * 100" by (rule floor_unique) simp_all
    finally have "(of_int \<lfloor>?m * 100 + 1 / 2\<rfloor> :: rat) \<le> of_int (number_limit key * 100)" by (simp only: of_int_le_iff)
    moreover have "0 \<le> \<lfloor>?m * 100 + 1 / 2\<rfloor>" using m(1) by simp
    moreover have "\<lfloor>?m\<rfloor> \<le> number_limit key" "0 \<le> \<lfloor>?m\<rfloor>" using m by (simp_all add: floor_le_iff)
    ultimately have "\<exists>q. (if keeps_decimals key then Num (Fin (of_int \<lfloor>?m * 100 + 1 / 2\<rfloor> / 100)) else JInt \<lfloor>?m\<rfloor>) = Num (Fin q) \<and>
        0 \<le> q \<and> q \<le> of_int (number_limit key)"
      by (intro exI [of _ "if keeps_decimals key then of_int \<lfloor>?m * 100 + 1 / 2\<rfloor> / 100 else of_int \<lfloor>?m\<rfloor>"]) simp
    with Fin False show ?thesis by (simp add: normalize_number_def Let_def)
  qed
qed (use assms in \<open>simp_all add: normalize_number_def\<close>)

lemma normalize_setting_key: "fst (normalize_setting input field) = fst field"
  by (simp add: normalize_setting_def case_prod_unfold Let_def)

lemma settings_lookup:
  "map_of (map (normalize_setting input) fs) key = map_option (\<lambda>v. snd (normalize_setting input (key, v))) (map_of fs key)"
proof (induction fs)
  case (Cons f fs)
  have "normalize_setting input f = (fst f, snd (normalize_setting input f))"
    using normalize_setting_key by (metis prod.collapse)
  with Cons show ?case by (cases f) (auto simp: normalize_setting_key)
qed simp

lemma default_numbers_table:
  "list_all (\<lambda>key. key \<notin> set boolean_fields \<and> 0 \<le> number_limit key \<and>
     (case map_of (default_settings texts) key of Some (Num (Fin f)) \<Rightarrow> 0 \<le> f \<and> f \<le> of_int (number_limit key) | _ \<Rightarrow> False)) numeric_fields"
  by code_simp

lemma default_numbers:
  assumes "key \<in> set numeric_fields"
  shows "\<exists>f. map_of (default_settings texts) key = Some (Num (Fin f)) \<and> 0 \<le> f \<and> f \<le> of_int (number_limit key)"
    "key \<notin> set boolean_fields \<and> 0 \<le> number_limit key"
proof -
  have "key \<notin> set boolean_fields \<and> 0 \<le> number_limit key \<and>
     (case map_of (default_settings texts) key of Some (Num (Fin f)) \<Rightarrow> 0 \<le> f \<and> f \<le> of_int (number_limit key) | _ \<Rightarrow> False)"
    using default_numbers_table [of texts] assms unfolding list_all_iff by blast
  then show "\<exists>f. map_of (default_settings texts) key = Some (Num (Fin f)) \<and> 0 \<le> f \<and> f \<le> of_int (number_limit key)"
    "key \<notin> set boolean_fields \<and> 0 \<le> number_limit key"
    by (auto split: option.split_asm jsval.split_asm jsnum.split_asm)
qed

text \<open>
  CX: Whatever is stored or sent, each threshold of the normalized settings is a number between 0 and the limit of its
  field.
\<close>

theorem alert_thresholds_bounded:
  assumes "key \<in> set numeric_fields"
  shows "\<exists>q. js_get (normalize_alert_settings texts input) key = Num (Fin q) \<and> 0 \<le> q \<and> q \<le> of_int (number_limit key)"
proof -
  obtain f where f: "map_of (default_settings texts) key = Some (Num (Fin f))" "0 \<le> f" "f \<le> of_int (number_limit key)"
    using default_numbers(1) [OF assms] by blast
  have "js_get (normalize_alert_settings texts input) key = snd (normalize_setting input (key, Num (Fin f)))"
    by (simp add: normalize_alert_settings_def js_get_def settings_lookup f(1))
  then show ?thesis
    using normalize_number_bounds [OF refl f(2,3), of "js_get input key"] f default_numbers(2) [OF assms] assms
    by (simp add: normalize_setting_def Let_def)
qed

lemma alert_thresholds_bounded_witness:
  "\<exists>q. js_get (normalize_alert_settings \<lparr> dt_email = [], dt_webhook = [] \<rparr> (Obj [(''offline_minutes'', Str ''1e9'')])) ''offline_minutes'' = Num (Fin q)
     \<and> 0 \<le> q \<and> q \<le> 1440"
  using alert_thresholds_bounded [of "''offline_minutes''"] by (simp add: numeric_fields_def number_limit_def number_limits_def)

end
