(* ===== verification/Secrets.thy ===== *)
theory Secrets
  imports Protobuf Utils
begin

text \<open>
  What the stored secrets of the worker share (\<open>utils.js\<close>, \<open>auth.js\<close>, \<open>totp.js\<close>, \<open>agent-credentials.js\<close>, \<open>alerts.js\<close>):
  base64, the comparison in constant time, the encryption materials of the environment and the envelope
  \<open>enc:v1:\<close> \<open>base64 (iv, ciphertext)\<close>.

  AES-GCM is a pair of parameters: \<open>enc key iv aad plain\<close> and \<open>dec key iv aad ciphertext\<close>, the key standing for the
  material it is derived from; \<open>sealing enc dec\<close> is the contract of authenticated encryption. SHA-256 is a parameter
  \<open>sha\<close> that is injective on the values in play.
\<close>

section \<open>Base64\<close>

definition b64_alphabet :: string where
  "b64_alphabet = ''ABCDEFGHIJKLMNOPQRSTUVWXYZabcdefghijklmnopqrstuvwxyz0123456789+/''"

definition b64_char :: "nat \<Rightarrow> char" where "b64_char n = b64_alphabet ! n"

definition b64_value :: "char \<Rightarrow> nat option" where
  "b64_value = map_of (zip b64_alphabet [0..<64])"

fun btoa :: "nat list \<Rightarrow> string" where
  "btoa [] = []"
| "btoa [a] = [b64_char (a div 4), b64_char (a mod 4 * 16), CHR ''='', CHR ''='']"
| "btoa [a, b] = [b64_char (a div 4), b64_char (a mod 4 * 16 + b div 16), b64_char (b mod 16 * 4), CHR ''='']"
| "btoa (a # b # c # r) =
     [b64_char (a div 4), b64_char (a mod 4 * 16 + b div 16), b64_char (b mod 16 * 4 + c div 64), b64_char (c mod 64)] @ btoa r"

fun b64_groups :: "nat list \<Rightarrow> nat list" where
  "b64_groups [a, b] = [a * 4 + b div 16]"
| "b64_groups [a, b, c] = [a * 4 + b div 16, b mod 16 * 16 + c div 4]"
| "b64_groups (a # b # c # d # r) = [a * 4 + b div 16, b mod 16 * 16 + c div 4, c mod 4 * 64 + d] @ b64_groups r"
| "b64_groups _ = []"

definition strip_padding :: "string \<Rightarrow> string" where
  "strip_padding s =
     (if length s mod 4 = 0 \<and> ends_with ''=='' s then take (length s - 2) s
      else if length s mod 4 = 0 \<and> ends_with ''='' s then take (length s - 1) s else s)"

text \<open>\<open>None\<close>: \<open>atob\<close> throws\<close>

definition atob :: "string \<Rightarrow> nat list option" where
  "atob s =
     (let t = strip_padding (filter (\<lambda>c. c \<notin> {CHR 0x09, CHR 0x0A, CHR 0x0C, CHR 0x0D, CHR '' ''}) s)
      in if length t mod 4 = 1 \<or> list_ex (\<lambda>c. b64_value c = None) t then None
         else Some (b64_groups (map (\<lambda>c. the (b64_value c)) t)))"

definition bytes_to_base64 :: "bytes \<Rightarrow> string" where
  "bytes_to_base64 bs = btoa (map unat bs)"

definition base64_to_bytes :: "string \<Rightarrow> bytes option" where
  "base64_to_bytes s = map_option (map of_nat) (atob s)"

section \<open>Comparison in constant time\<close>

text \<open>\<open>charCodeAt(i) || 0\<close>: zero behind the end\<close>

definition code_at :: "string \<Rightarrow> nat \<Rightarrow> nat" where
  "code_at s i = (if i < length s then of_char (s ! i) else 0)"

definition constant_time_equal :: "string \<Rightarrow> string \<Rightarrow> bool" where
  "constant_time_equal a b =
     (fold (\<lambda>i diff. or diff (xor (code_at a i) (code_at b i))) [0..<max (length a) (length b)] (xor (length a) (length b)) = (0 :: nat))"

section \<open>Materials and envelopes\<close>

definition secret_prefix :: string where "secret_prefix = ''enc:v1:''"

definition env_text :: "jsval \<Rightarrow> string \<Rightarrow> string" where
  "env_text env k = js_trim (str_or_empty (js_get env k))"

datatype key_source = PrimaryKey | PreviousKey | LegacyAlert | LegacyTotp | LegacyPassword | LegacyToken

text \<open>Of equal materials the first\<close>

fun first_of_each :: "string list \<Rightarrow> (string \<times> key_source) list \<Rightarrow> (string \<times> key_source) list" where
  "first_of_each seen [] = []"
| "first_of_each seen ((m, src) # cs) =
     (if m = [] \<or> m \<in> set seen then first_of_each seen cs else (m, src) # first_of_each (m # seen) cs)"

text \<open>The first key that fits: the secret, and whether it should be encrypted anew\<close>

fun try_keys :: "(string \<Rightarrow> 'p \<Rightarrow> string option) \<Rightarrow> (string \<times> key_source) list \<Rightarrow> 'p \<Rightarrow> (string \<times> bool) option" where
  "try_keys dec [] payload = None"
| "try_keys dec ((m, src) # cs) payload =
     (case dec m payload of Some s \<Rightarrow> Some (s, src \<noteq> PrimaryKey) | None \<Rightarrow> try_keys dec cs payload)"

text \<open>The materials of the agents' tokens and of the TOTP secret\<close>

definition encryption_materials :: "jsval \<Rightarrow> (string \<times> key_source) list" where
  "encryption_materials env =
     first_of_each []
       [(env_text env ''TOTP_ENCRYPTION_KEY'', PrimaryKey), (env_text env ''PREVIOUS_ENCRYPTION_KEY'', PreviousKey),
        (env_text env ''ADMIN_PASSWORD'', LegacyPassword), (env_text env ''ADMIN_TOKEN'', LegacyToken)]"

definition primary_material_of :: "jsval \<Rightarrow> string" where
  "primary_material_of env = env_text env ''TOTP_ENCRYPTION_KEY''"

type_synonym aead_enc = "string \<Rightarrow> bytes \<Rightarrow> string \<Rightarrow> string \<Rightarrow> bytes"
type_synonym aead_dec = "string \<Rightarrow> bytes \<Rightarrow> string \<Rightarrow> bytes \<Rightarrow> string option"

text \<open>\<open>None\<close>: there is no key to encrypt with\<close>

definition seal_secret :: "aead_enc \<Rightarrow> jsval \<Rightarrow> bytes \<Rightarrow> string \<Rightarrow> string \<Rightarrow> string option" where
  "seal_secret enc env iv aad plain =
     (if primary_material_of env = [] then None
      else Some (secret_prefix @ bytes_to_base64 (iv @ enc (primary_material_of env) iv aad plain)))"

text \<open>The secret, and whether another key than the primary one opened it\<close>

definition open_payload :: "aead_dec \<Rightarrow> jsval \<Rightarrow> string \<Rightarrow> string \<Rightarrow> (string \<times> bool) option" where
  "open_payload dec env aad payload =
     (case base64_to_bytes payload of
        None \<Rightarrow> None
      | Some combined \<Rightarrow>
          if length combined \<le> 12 then None
          else try_keys (\<lambda>m. dec m (take 12 combined) aad) (encryption_materials env) (drop 12 combined))"

definition open_secret :: "aead_dec \<Rightarrow> jsval \<Rightarrow> string \<Rightarrow> string \<Rightarrow> (string \<times> bool) option" where
  "open_secret dec env aad stored =
     (if starts_with secret_prefix stored then open_payload dec env aad (drop (length secret_prefix) stored) else None)"

definition sealing :: "aead_enc \<Rightarrow> aead_dec \<Rightarrow> bool" where
  "sealing enc dec \<longleftrightarrow>
     (\<forall>key iv aad plain key' aad'. enc key iv aad plain \<noteq> [] \<and>
        dec key' iv aad' (enc key iv aad plain) = (if key' = key \<and> aad' = aad then Some plain else None))"

section \<open>Lemmas\<close>

lemma try_keys_finds:
  assumes "(m, src) \<in> set ms" "dec m payload = Some s" "\<And>m'. m' \<noteq> m \<Longrightarrow> dec m' payload = None" "distinct (map fst ms)"
  shows "try_keys dec ms payload = Some (s, src \<noteq> PrimaryKey)"
  using assms(1,4)
proof (induction ms)
  case (Cons c ms)
  obtain m' src' where c: "c = (m', src')" by (cases c)
  show ?case
  proof (cases "m' = m")
    case True
    then have "src' = src" using Cons.prems c by (auto simp: rev_image_eqI)
    with True c assms(2) show ?thesis by simp
  next
    case False
    with Cons c assms(3) show ?thesis by auto
  qed
qed simp

lemma first_of_each_facts:
  "distinct (map fst (first_of_each seen cs)) \<and> set seen \<inter> fst ` set (first_of_each seen cs) = {} \<and>
   (\<forall>m \<in> fst ` set cs. m = [] \<or> m \<in> set seen \<or> m \<in> fst ` set (first_of_each seen cs))"
  by (induction seen cs rule: first_of_each.induct) auto

lemma secret_prefix_stored [simp]:
  "starts_with secret_prefix (secret_prefix @ t)" "drop (length secret_prefix) (secret_prefix @ t) = t"
  by (simp_all add: starts_with_def)


subsection \<open>Constant time\<close>

lemma or_zero: "or a b = (0 :: nat) \<longleftrightarrow> a = 0 \<and> b = 0"
  by (auto simp: bit_eq_iff bit_or_iff)

lemma xor_zero: "xor a b = (0 :: nat) \<longleftrightarrow> a = b"
  by (auto simp: bit_eq_iff bit_xor_iff)

lemma fold_or_zero: "fold (\<lambda>i diff. or diff (f i)) xs d = (0 :: nat) \<longleftrightarrow> d = 0 \<and> (\<forall>i \<in> set xs. f i = 0)"
  by (induction xs arbitrary: d) (auto simp: or_zero)

theorem constant_time_equal_iff [simp]: "constant_time_equal a b \<longleftrightarrow> a = b"
proof
  assume "constant_time_equal a b"
  then have l: "length a = length b" and c: "\<forall>i < length a. (of_char (a ! i) :: nat) = of_char (b ! i)"
    by (auto simp: constant_time_equal_def fold_or_zero xor_zero code_at_def)
  from c have "\<forall>i < length a. a ! i = b ! i" by simp
  with l show "a = b" by (simp add: list_eq_iff_nth_eq)
next
  assume "a = b"
  then show "constant_time_equal a b" unfolding constant_time_equal_def fold_or_zero xor_zero by simp
qed

subsection \<open>Base64\<close>

lemma b64_table:
  "list_all (\<lambda>n. b64_value (b64_char n) = Some n \<and> b64_char n \<notin> {CHR 0x09, CHR 0x0A, CHR 0x0C, CHR 0x0D, CHR '' '', CHR ''=''}) [0..<64]"
  by code_simp

lemma b64_value_char [simp]: "n < 64 \<Longrightarrow> b64_value (b64_char n) = Some n"
  using b64_table by (simp add: list_all_iff)

lemma b64_char_plain: "n < 64 \<Longrightarrow> b64_char n \<notin> {CHR 0x09, CHR 0x0A, CHR 0x0C, CHR 0x0D, CHR '' '', CHR ''=''}"
  using b64_table by (simp add: list_all_iff)

text \<open>The characters of \<open>btoa\<close> without the padding, and what they stand for\<close>

fun b64_digits :: "nat list \<Rightarrow> nat list" where
  "b64_digits [] = []"
| "b64_digits [a] = [a div 4, a mod 4 * 16]"
| "b64_digits [a, b] = [a div 4, a mod 4 * 16 + b div 16, b mod 16 * 4]"
| "b64_digits (a # b # c # r) = [a div 4, a mod 4 * 16 + b div 16, b mod 16 * 4 + c div 64, c mod 64] @ b64_digits r"

fun b64_padding :: "nat list \<Rightarrow> string" where
  "b64_padding [] = []"
| "b64_padding [a] = ''==''"
| "b64_padding [a, b] = ''=''"
| "b64_padding (a # b # c # r) = b64_padding r"

lemma btoa_digits: "btoa bs = map b64_char (b64_digits bs) @ b64_padding bs"
  by (induction bs rule: btoa.induct) simp_all

lemma b64_digits_bound: "\<forall>b \<in> set bs. b < 256 \<Longrightarrow> \<forall>d \<in> set (b64_digits bs). d < 64"
  by (induction bs rule: b64_digits.induct) auto

lemma b64_groups_digits: "\<forall>b \<in> set bs. b < 256 \<Longrightarrow> b64_groups (b64_digits bs) = bs"
proof (induction bs rule: b64_digits.induct)
  case (4 a b c r)
  moreover have "(a mod 4 * 16 + b div 16) div 16 = a mod 4" "(b mod 16 * 4 + c div 64) div 4 = b mod 16"
    "(a mod 4 * 16 + b div 16) mod 16 = b div 16" "(b mod 16 * 4 + c div 64) mod 4 = c div 64" using 4(2) by auto
  ultimately show ?case by simp
qed auto

lemma b64_lengths: "length (b64_digits bs) + length (b64_padding bs) = 4 * ((length bs + 2) div 3)"
proof (induction bs rule: b64_digits.induct)
  case (4 a b c r)
  have "Suc (Suc (Suc (length r + 2))) div 3 = Suc ((length r + 2) div 3)" by presburger
  with 4 show ?case by simp
qed auto

lemma b64_padding_cases:
  "(b64_padding bs = [] \<and> length bs mod 3 = 0) \<or> (b64_padding bs = ''=='' \<and> length bs mod 3 = 1) \<or> (b64_padding bs = ''='' \<and> length bs mod 3 = 2)"
  by (induction bs rule: b64_padding.induct) (auto simp: mod_Suc)

lemma ends_with_iff: "ends_with p s \<longleftrightarrow> (\<exists>zs. s = zs @ p)"
  by (metis append_eq_conv_conj append_take_drop_id ends_with_def length_append diff_add_inverse2 le_add2)

lemma strip_padding_append:
  assumes "CHR ''='' \<notin> set d" "p \<in> {[], ''='', ''==''}" "length (d @ p) mod 4 = 0"
  shows "strip_padding (d @ p) = d"
proof -
  have one: "\<not> ends_with ''='' d" "\<not> ends_with ''=='' d" using assms(1) by (auto simp: ends_with_iff)
  have "ends_with ''=='' (d @ ''='') \<Longrightarrow> ends_with ''='' d"
    unfolding ends_with_iff by (metis append.assoc append1_eq_conv append_Cons append_Nil)
  with one have no: "\<not> ends_with ''=='' (d @ ''='')" by blast
  from assms(2) consider "p = []" | "p = ''=''" | "p = ''==''" by blast
  then show ?thesis
  proof cases
    case 1 with one show ?thesis by (simp add: strip_padding_def)
  next
    case 2
    moreover have "ends_with ''='' (d @ ''='')" by (simp add: ends_with_def)
    ultimately show ?thesis using no assms(3) by (simp add: strip_padding_def)
  next
    case 3
    moreover have "ends_with ''=='' (d @ ''=='')" by (simp add: ends_with_def)
    ultimately show ?thesis using assms(3) by (simp add: strip_padding_def)
  qed
qed

lemma unpadded_length: "d + p = 4 * k \<Longrightarrow> p \<le> 2 \<Longrightarrow> d mod 4 \<noteq> (1 :: nat)"
  by presburger

lemma atob_btoa:
  assumes "\<forall>b \<in> set bs. b < 256"
  shows "atob (btoa bs) = Some bs"
proof -
  let ?d = "map b64_char (b64_digits bs)" and ?p = "b64_padding bs"
  have bound: "\<forall>d \<in> set (b64_digits bs). d < 64" by (rule b64_digits_bound [OF assms])
  have plain: "\<forall>c \<in> set ?d. c \<notin> {CHR 0x09, CHR 0x0A, CHR 0x0C, CHR 0x0D, CHR '' '', CHR ''=''}"
    using bound b64_char_plain by auto
  have ws: "filter (\<lambda>c. c \<notin> {CHR 0x09, CHR 0x0A, CHR 0x0C, CHR 0x0D, CHR '' ''}) (btoa bs) = ?d @ ?p"
    unfolding btoa_digits using plain b64_padding_cases [of bs] by (auto simp: filter_id_conv)
  have lens: "length ?d + length ?p = 4 * ((length bs + 2) div 3)" using b64_lengths [of bs] by simp
  have "CHR ''='' \<notin> set ?d" using plain by blast
  then have strip: "strip_padding (?d @ ?p) = ?d"
    by (rule strip_padding_append) (use b64_padding_cases [of bs] lens in auto)
  have "length ?p \<le> 2" using b64_padding_cases [of bs] by auto
  with lens have mod1: "length ?d mod 4 \<noteq> 1" by (rule unpadded_length)
  have "map (\<lambda>c. the (b64_value c)) ?d = b64_digits bs" using bound by (auto intro: map_idI)
  moreover have "\<not> list_ex (\<lambda>c. b64_value c = None) ?d" using bound by (auto simp: list_ex_iff)
  ultimately show ?thesis
    unfolding atob_def Let_def ws strip using mod1 b64_groups_digits [OF assms] by simp
qed

lemma base64_roundtrip [simp]: "base64_to_bytes (bytes_to_base64 bs) = Some bs"
proof -
  have "\<forall>b \<in> set (map unat bs). b < 256" using unsigned_less [where 'b = 8] by auto
  then show ?thesis by (simp add: base64_to_bytes_def bytes_to_base64_def atob_btoa comp_def)
qed

lemma b64_no_space: "\<forall>c \<in> set b64_alphabet. \<not> js_space c"
  by (simp add: b64_alphabet_def js_space_def)

lemma base64_no_space: "c \<in> set (bytes_to_base64 bs) \<Longrightarrow> \<not> js_space c"
proof -
  assume "c \<in> set (bytes_to_base64 bs)"
  moreover have "\<forall>d \<in> set (b64_digits (map unat bs)). d < 64" using unsigned_less [where 'b = 8] by (intro b64_digits_bound) auto
  ultimately consider d where "d < 64" "c = b64_char d" | "c = CHR ''=''"
    using b64_padding_cases [of "map unat bs"] by (auto simp: bytes_to_base64_def btoa_digits)
  then show ?thesis
  proof cases
    case 1
    moreover have "length b64_alphabet = 64" by (simp add: b64_alphabet_def)
    ultimately show ?thesis using b64_no_space by (simp add: b64_char_def)
  next
    case 2 then show ?thesis by (simp add: js_space_def)
  qed
qed

subsection \<open>Envelopes\<close>

lemma primary_material_first: "primary_material_of env \<noteq> [] \<Longrightarrow> hd (encryption_materials env) = (primary_material_of env, PrimaryKey)"
  by (simp add: encryption_materials_def primary_material_of_def)

lemma materials_of_distinct: "distinct (map fst (encryption_materials env))"
  using first_of_each_facts unfolding encryption_materials_def by blast

lemma open_payload_sealed:
  assumes "sealing enc dec" "length iv = 12" "(m, src) \<in> set (encryption_materials env)"
  shows "open_payload dec env aad (bytes_to_base64 (iv @ enc m iv aad plain)) = Some (plain, src \<noteq> PrimaryKey)"
proof -
  have "enc m iv aad plain \<noteq> []" using assms(1) unfolding sealing_def by blast
  then have long: "\<not> length (iv @ enc m iv aad plain) \<le> 12" using assms(2) by (cases "enc m iv aad plain") auto
  have "dec m iv aad (enc m iv aad plain) = Some plain" and other: "m' \<noteq> m \<Longrightarrow> dec m' iv aad (enc m iv aad plain) = None" for m'
    using assms(1) unfolding sealing_def by auto
  from try_keys_finds [where dec = "\<lambda>m. dec m iv aad", OF assms(3) this(1) other materials_of_distinct] long assms(2)
  show ?thesis by (simp add: open_payload_def)
qed

lemma open_seal:
  assumes "sealing enc dec" "length iv = 12" "seal_secret enc env iv aad plain = Some t"
  shows "open_secret dec env aad t = Some (plain, False)" "starts_with secret_prefix t"
proof -
  have p: "primary_material_of env \<noteq> []" and t: "t = secret_prefix @ bytes_to_base64 (iv @ enc (primary_material_of env) iv aad plain)"
    using assms(3) by (auto simp: seal_secret_def split: if_splits)
  have "(primary_material_of env, PrimaryKey) \<in> set (encryption_materials env)"
    using p by (simp add: encryption_materials_def primary_material_of_def)
  with open_payload_sealed [OF assms(1,2)] show "open_secret dec env aad t = Some (plain, False)"
    unfolding open_secret_def t by simp
  show "starts_with secret_prefix t" unfolding t by simp
qed

lemma sealed_trim: "seal_secret enc env iv aad plain = Some t \<Longrightarrow> js_trim t = t \<and> t \<noteq> []"
proof -
  assume "seal_secret enc env iv aad plain = Some t"
  then obtain bs where t: "t = secret_prefix @ bytes_to_base64 bs" by (auto simp: seal_secret_def split: if_splits)
  have "\<not> js_space (hd t)" "t \<noteq> []" unfolding t by (simp_all add: secret_prefix_def js_space_def)
  moreover have "\<not> js_space (last t)"
    unfolding t by (cases "bytes_to_base64 bs = []") (auto simp: secret_prefix_def js_space_def dest: base64_no_space [OF last_in_set])
  ultimately show ?thesis unfolding js_trim_def by (intro conjI strip_both_id) auto
qed

text \<open>The contract holds of a concrete pair: an envelope that carries key, additional data and text in frames\<close>

fun framed :: "string \<Rightarrow> bytes" where
  "framed [] = [0]"
| "framed (c # cs) = 1 # of_nat (of_char c) # framed cs"

fun unframe :: "bytes \<Rightarrow> (string \<times> bytes) option" where
  "unframe (f # r) =
     (if f = 0 then Some ([], r)
      else case r of [] \<Rightarrow> None | c # r' \<Rightarrow> map_option (\<lambda>(s, t). (char_of (unat c) # s, t)) (unframe r'))"
| "unframe [] = None"

definition framed_enc :: aead_enc where
  "framed_enc key iv aad plain = framed key @ framed aad @ framed plain"

definition framed_dec :: aead_dec where
  "framed_dec key iv aad sealed =
     (case unframe sealed of None \<Rightarrow> None | Some (k, r) \<Rightarrow>
      case unframe r of None \<Rightarrow> None | Some (a, t) \<Rightarrow>
      if k = key \<and> a = aad then map_option fst (unframe t) else None)"

lemma unframe_framed [simp]: "unframe (framed s @ r) = Some (s, r)"
proof (induction s)
  case (Cons c s)
  have "(of_char c :: nat) < 256" by simp
  then have "unat (of_nat (of_char c) :: 8 word) = of_char c" by (simp add: unat_of_nat take_bit_eq_mod)
  then show ?case using Cons by simp
qed simp

lemma framed_sealing: "sealing framed_enc framed_dec"
proof -
  have "framed s \<noteq> []" for s by (cases s) auto
  moreover have "unframe (framed s) = Some (s, [])" for s using unframe_framed [of s "[]"] by simp
  ultimately show ?thesis by (auto simp: sealing_def framed_enc_def framed_dec_def)
qed

end
