(* ===== verification/AlertChannels.thy ===== *)
theory AlertChannels
  imports Hosts AlertSettings Secrets
begin

text \<open>
  Where the alerts of \<open>worker/src/alerts.js\<close> go: the addresses and channels that are configured, the headers of
  the webhook with their redaction, the secrets of the channels, and their encryption.

  \<^item> \<open>json\<close> and \<open>stringify\<close> are the platform's JSON parser and printer, \<open>parse_url\<close> its URL parser.
  \<^item> \<open>enc material secret\<close> is the base64 text of the AES-GCM ciphertext under the key derived from the material,
    \<open>dec material text\<close> the plain text when the key fits. The random nonce is not modelled.
\<close>

section \<open>Addresses\<close>

definition is_line_break :: "char \<Rightarrow> bool" where
  "is_line_break c = (c = CHR 0x0D \<or> c = CHR 0x0A)"

definition email_char :: "char \<Rightarrow> bool" where
  "email_char c = (\<not> js_space c \<and> c \<notin> {CHR ''<'', CHR ''>'', CHR ''@''})"

text \<open>\<open>/^[^\s<>@]+@[^\s<>@]+\.[^\s<>@]+$/\<close>\<close>

definition is_email :: "string \<Rightarrow> bool" where
  "is_email s =
     (case js_split (CHR ''@'') s of
        [l, d] \<Rightarrow> l \<noteq> [] \<and> list_all email_char l \<and> list_all email_char d \<and> CHR ''.'' \<in> set (butlast (tl d))
      | _ \<Rightarrow> False)"

definition without_breaks :: "string \<Rightarrow> string" where
  "without_breaks s = filter (\<lambda>c. \<not> is_line_break c) s"

definition normalize_email_address :: "string \<Rightarrow> string" where
  "normalize_email_address v = (let s = without_breaks (js_trim v) in if is_email s then s else [])"

text \<open>\<open>/^([^<>]{1,80})\s+<([^<>]+)>$/\<close>: the name, not trimmed, and the address\<close>

definition display_address :: "string \<Rightarrow> (string \<times> string) option" where
  "display_address s =
     (let angle = (\<lambda>c. c = CHR ''<'' \<or> c = CHR ''>''); pre = takeWhile (\<lambda>c. \<not> angle c) s; rest = dropWhile (\<lambda>c. \<not> angle c) s;
          inner = takeWhile (\<lambda>c. \<not> angle c) (tl rest); n = min 80 (length pre - 1)
      in if rest \<noteq> [] \<and> hd rest = CHR ''<'' \<and> inner \<noteq> [] \<and> drop (length inner + 1) rest = ''>'' \<and> 0 < n \<and>
            list_all js_space (drop n pre)
         then Some (take n pre, inner) else None)"

definition email_from :: "jsval \<Rightarrow> jsval \<Rightarrow> string" where
  "email_from env settings =
     (let s = without_breaks (js_trim (js_String (js_or (js_get env ''ALERT_EMAIL_FROM'') (js_or (js_get settings ''email_from'') (Str []))))) in
      case display_address s of
        Some (name, address) \<Rightarrow>
          (let a = normalize_email_address address in if a \<noteq> [] then js_trim name @ '' <'' @ a @ ''>'' else [])
      | None \<Rightarrow> normalize_email_address s)"

definition email_to :: "jsval \<Rightarrow> jsval \<Rightarrow> string list" where
  "email_to env settings =
     take 10 (filter (\<lambda>a. a \<noteq> []) (map normalize_email_address
       (js_split (CHR '','') (js_String (js_or (js_get env ''ALERT_EMAIL_TO'') (js_or (js_get settings ''email_to'') (Str [])))))))"

definition email_reply_to :: "jsval \<Rightarrow> jsval \<Rightarrow> string" where
  "email_reply_to env settings =
     normalize_email_address (js_String (js_or (js_get env ''ALERT_EMAIL_REPLY_TO'') (js_or (js_get settings ''email_reply_to'') (Str []))))"

definition telegram_chat_id :: "jsval \<Rightarrow> jsval \<Rightarrow> string" where
  "telegram_chat_id env settings =
     js_trim (js_String (js_or (js_get env ''TELEGRAM_CHAT_ID'') (js_or (js_get env ''TG_CHAT_ID'')
       (js_or (js_get settings ''telegram_chat_id'') (Str [])))))"

definition is_http_url :: "(string \<Rightarrow> url option) \<Rightarrow> jsval \<Rightarrow> bool" where
  "is_http_url parse_url v =
     (case parse_url (js_trim (str_or_empty v)) of Some u \<Rightarrow> u_protocol u \<in> {''https:'', ''http:''} | None \<Rightarrow> False)"

definition configured_alert_channels :: "(string \<Rightarrow> url option) \<Rightarrow> jsval \<Rightarrow> jsval \<Rightarrow> string list" where
  "configured_alert_channels parse_url env settings =
     (let on = (\<lambda>k. js_truthy (js_get settings k)); named = (\<lambda>k. js_trim (str_or_empty (js_get settings k)) \<noteq> []);
          web = (\<lambda>k. is_http_url parse_url (js_get settings k))
      in map fst (filter snd
        [(''telegram'', on ''telegram_enabled'' \<and> on ''telegram_bot_token'' \<and> telegram_chat_id env settings \<noteq> []),
         (''email'', on ''email_enabled'' \<and> on ''resend_api_key'' \<and> email_from env settings \<noteq> [] \<and> email_to env settings \<noteq> []),
         (''webhook'', on ''webhook_enabled'' \<and> web ''webhook_url''),
         (''bark'', on ''bark_enabled'' \<and> named ''bark_device_key'' \<and>
            is_http_url parse_url (js_or (js_get settings ''bark_server'') (Str ''https://api.day.app''))),
         (''gotify'', on ''gotify_enabled'' \<and> named ''gotify_token'' \<and> web ''gotify_url''),
         (''feishu'', on ''feishu_enabled'' \<and> web ''feishu_webhook''),
         (''dingtalk'', on ''dingtalk_enabled'' \<and> web ''dingtalk_webhook''),
         (''wecom'', on ''wecom_enabled'' \<and> web ''wecom_webhook''),
         (''serverchan'', on ''serverchan_enabled'' \<and> named ''serverchan_sendkey'')]))"

section \<open>The headers of the webhook\<close>

type_synonym headers = "(string \<times> string) list"

definition webhook_header_mask :: string where "webhook_header_mask = ''***''"

definition header_value :: "jsval \<Rightarrow> string" where
  "header_value v = map (\<lambda>c. if is_line_break c then CHR '' '' else c) (js_String (js_coalesce v (Str [])))"

definition put_header :: "string \<times> jsval \<Rightarrow> headers \<Rightarrow> headers" where
  "put_header entry out =
     (let name = js_trim (fst entry)
      in if name = [] \<or> list_ex is_line_break name then out else AList.update name (header_value (snd entry)) out)"

definition parse_webhook_headers :: "(string \<Rightarrow> jsval option) \<Rightarrow> string \<Rightarrow> headers" where
  "parse_webhook_headers json raw =
     (case json (if raw = [] then ''{}'' else raw) of Some (Obj m) \<Rightarrow> fold put_header (take 20 m) [] | _ \<Rightarrow> [])"

definition headers_json :: "headers \<Rightarrow> jsval" where
  "headers_json hs = Obj (map (\<lambda>(k, v). (k, Str v)) hs)"

definition redact_webhook_headers :: "(string \<Rightarrow> jsval option) \<Rightarrow> (jsval \<Rightarrow> string) \<Rightarrow> string \<Rightarrow> string" where
  "redact_webhook_headers json stringify raw =
     (let hs = parse_webhook_headers json raw
      in if hs = [] then [] else stringify (headers_json (map (\<lambda>(k, _). (k, webhook_header_mask)) hs)))"

definition merged_headers :: "headers \<Rightarrow> headers \<Rightarrow> headers" where
  "merged_headers incoming previous =
     fold (\<lambda>(k, v) out.
         if v = webhook_header_mask then (case map_of previous k of Some p \<Rightarrow> AList.update k p out | None \<Rightarrow> out)
         else AList.update k v out) incoming []"

definition merge_masked_webhook_headers :: "(string \<Rightarrow> jsval option) \<Rightarrow> (jsval \<Rightarrow> string) \<Rightarrow> string \<Rightarrow> string \<Rightarrow> string" where
  "merge_masked_webhook_headers json stringify raw previous_raw =
     stringify (headers_json (merged_headers (parse_webhook_headers json raw) (parse_webhook_headers json previous_raw)))"

datatype header_error = NotJson | NotObject | TooManyHeaders | BadHeader

definition validate_webhook_headers :: "(string \<Rightarrow> jsval option) \<Rightarrow> string \<Rightarrow> header_error option" where
  "validate_webhook_headers json raw =
     (case json raw of
        None \<Rightarrow> Some NotJson
      | Some (Obj m) \<Rightarrow>
          if 20 < length m then Some TooManyHeaders
          else if list_ex (\<lambda>(k, v). js_trim k = [] \<or> v = Null \<or> (case v of Arr _ \<Rightarrow> True | Obj _ \<Rightarrow> True | _ \<Rightarrow> False)) m then Some BadHeader
          else None
      | Some _ \<Rightarrow> Some NotObject)"

section \<open>The secrets of the channels\<close>

definition channel_secret_fields :: "string list" where
  "channel_secret_fields = [''bark_device_key'', ''gotify_token'', ''feishu_webhook'', ''dingtalk_webhook'', ''wecom_webhook'', ''serverchan_sendkey'']"

type_synonym secrets = "(string \<times> string) list"

definition update_secret :: "jsval \<Rightarrow> string \<Rightarrow> bool \<times> secrets \<Rightarrow> bool \<times> secrets" where
  "update_secret body field s =
     (let (changed, m) = s in
      if parse_boolean (js_get body (field @ ''_clear'')) False
      then (if map_of m field \<noteq> None then (True, AList.delete field m) else s)
      else if \<not> js_has body field then s
      else let v = js_trim (js_String (js_coalesce (js_get body field) (Str [])))
           in if v = [] \<or> map_of m field = Some v then s else (True, AList.update field (take 1000 v) m))"

definition update_header_secret ::
  "(string \<Rightarrow> jsval option) \<Rightarrow> (jsval \<Rightarrow> string) \<Rightarrow> jsval \<Rightarrow> bool \<times> secrets \<Rightarrow> header_error + bool \<times> secrets" where
  "update_header_secret json stringify body s =
     (let (changed, m) = s in
      if \<not> js_has body ''webhook_headers'' then Inr s
      else let raw = js_trim (js_String (js_coalesce (js_get body ''webhook_headers'') (Str []))) in
        if raw = []
        then Inr (if map_of m ''webhook_headers'' \<noteq> None then (True, AList.delete ''webhook_headers'' m) else s)
        else case validate_webhook_headers json raw of
               Some e \<Rightarrow> Inl e
             | None \<Rightarrow>
                 (let merged = merge_masked_webhook_headers json stringify raw (case map_of m ''webhook_headers'' of Some h \<Rightarrow> h | None \<Rightarrow> [])
                  in Inr (if map_of m ''webhook_headers'' \<noteq> Some merged then (True, AList.update ''webhook_headers'' (take 4000 merged) m) else s)))"

text \<open>\<open>updateChannelSecrets\<close>: whether to write, and the secrets\<close>

definition update_channel_secrets ::
  "(string \<Rightarrow> jsval option) \<Rightarrow> (jsval \<Rightarrow> string) \<Rightarrow> jsval \<Rightarrow> secrets \<Rightarrow> header_error + bool \<times> secrets" where
  "update_channel_secrets json stringify body m =
     update_header_secret json stringify body (fold (update_secret body) channel_secret_fields (False, m))"

section \<open>Encryption at rest\<close>

definition primary_secret_material :: "jsval \<Rightarrow> string" where
  "primary_secret_material env =
     js_trim (js_String (js_or (js_get env ''ALERT_ENCRYPTION_KEY'') (js_or (js_get env ''TOTP_ENCRYPTION_KEY'') (Str []))))"

definition secret_key_materials :: "jsval \<Rightarrow> (string \<times> key_source) list" where
  "secret_key_materials env =
     first_of_each []
       [(primary_secret_material env, PrimaryKey), (env_text env ''PREVIOUS_ENCRYPTION_KEY'', PreviousKey),
        (env_text env ''ALERT_ENCRYPTION_KEY'', LegacyAlert), (env_text env ''TOTP_ENCRYPTION_KEY'', LegacyTotp),
        (env_text env ''ADMIN_PASSWORD'', LegacyPassword), (env_text env ''ADMIN_TOKEN'', LegacyToken)]"

definition decrypt_secret :: "(string \<Rightarrow> string \<Rightarrow> string option) \<Rightarrow> jsval \<Rightarrow> string \<Rightarrow> (string \<times> bool) option" where
  "decrypt_secret dec env payload = try_keys dec (secret_key_materials env) payload"

text \<open>\<open>None\<close>: there is no key to encrypt with\<close>

definition encrypt_secret :: "(string \<Rightarrow> string \<Rightarrow> string) \<Rightarrow> jsval \<Rightarrow> string \<Rightarrow> string option" where
  "encrypt_secret enc env secret =
     (if primary_secret_material env = [] then None else Some (secret_prefix @ enc (primary_secret_material env) secret))"

text \<open>\<open>telegramToken\<close> and \<open>resendApiKey\<close>: the secret, and the row left in the table\<close>

definition read_secret ::
  "(string \<Rightarrow> string \<Rightarrow> string option) \<Rightarrow> (string \<Rightarrow> string \<Rightarrow> string) \<Rightarrow> jsval \<Rightarrow> string \<Rightarrow> string \<Rightarrow> string \<times> string" where
  "read_secret dec enc env from_env row =
     (let stored = js_trim row; again = (\<lambda>s. case encrypt_secret enc env s of Some t \<Rightarrow> t | None \<Rightarrow> row) in
      if js_trim from_env \<noteq> [] then (js_trim from_env, row)
      else if stored = [] then ([], row)
      else if starts_with secret_prefix stored
      then (case decrypt_secret dec env (drop (length secret_prefix) stored) of
              None \<Rightarrow> ([], row)
            | Some (s, old) \<Rightarrow> (s, if old then again s else row))
      else (stored, again stored))"

definition read_channel_secrets ::
  "(string \<Rightarrow> string \<Rightarrow> string option) \<Rightarrow> (string \<Rightarrow> string \<Rightarrow> string) \<Rightarrow> (string \<Rightarrow> jsval option) \<Rightarrow> jsval \<Rightarrow> string \<Rightarrow> jsval \<times> string" where
  "read_channel_secrets dec enc json env row =
     (let stored = js_trim row; again = (\<lambda>s. case encrypt_secret enc env s of Some t \<Rightarrow> t | None \<Rightarrow> row);
          parsed = (\<lambda>s. case json s of Some (Obj m) \<Rightarrow> Obj m | _ \<Rightarrow> Obj []) in
      if stored = [] then (Obj [], row)
      else if starts_with secret_prefix stored
      then (case decrypt_secret dec env (drop (length secret_prefix) stored) of
              None \<Rightarrow> (Obj [], row)
            | Some (s, old) \<Rightarrow> (parsed s, if old then again s else row))
      else (case json stored of Some (Obj m) \<Rightarrow> (Obj m, again stored) | _ \<Rightarrow> (Obj [], row)))"

text \<open>\<open>migrateAlertEncryption\<close> for one row: \<open>None\<close> when it throws, else the row and whether it was rewritten\<close>

definition migrate_row ::
  "(string \<Rightarrow> string \<Rightarrow> string option) \<Rightarrow> (string \<Rightarrow> string \<Rightarrow> string) \<Rightarrow> jsval \<Rightarrow> string \<Rightarrow> (string \<times> bool) option" where
  "migrate_row dec enc env row =
     (let stored = js_trim row in
      if stored = [] then Some (row, False)
      else if \<not> starts_with secret_prefix stored then map_option (\<lambda>t. (t, True)) (encrypt_secret enc env stored)
      else case decrypt_secret dec env (drop (length secret_prefix) stored) of
             None \<Rightarrow> None
           | Some (s, old) \<Rightarrow> if old then map_option (\<lambda>t. (t, True)) (encrypt_secret enc env s) else Some (row, False))"

section \<open>Headers survive their redaction\<close>

definition header_ok :: "string \<times> string \<Rightarrow> bool" where
  "header_ok h \<longleftrightarrow> fst h \<noteq> [] \<and> js_trim (fst h) = fst h \<and> \<not> list_ex is_line_break (fst h) \<and> \<not> list_ex is_line_break (snd h)"

definition headers_ok :: "headers \<Rightarrow> bool" where
  "headers_ok hs \<longleftrightarrow> distinct (map fst hs) \<and> list_all header_ok hs"

lemma header_value_clean: "\<not> list_ex is_line_break (header_value v)"
  by (auto simp: header_value_def list_ex_iff is_line_break_def)

lemma update_all: "list_all P m \<Longrightarrow> P (k, v) \<Longrightarrow> list_all P (AList.update k v m)"
  by (induction m) auto

lemma update_length: "length (AList.update k v m) \<le> Suc (length m)"
  by (induction m) auto

lemma put_header_ok: "headers_ok hs \<Longrightarrow> headers_ok (put_header e hs) \<and> length (put_header e hs) \<le> Suc (length hs)"
  using update_length [of "js_trim (fst e)" "header_value (snd e)" hs]
  by (auto simp: put_header_def headers_ok_def header_ok_def header_value_clean distinct_update Let_def intro: update_all)

lemma put_headers_ok: "headers_ok hs \<Longrightarrow> headers_ok (fold put_header es hs) \<and> length (fold put_header es hs) \<le> length hs + length es"
proof (induction es arbitrary: hs)
  case (Cons e es)
  show ?case using Cons.IH [of "put_header e hs"] put_header_ok [OF Cons.prems, of e] by simp
qed simp

lemma parsed_headers_ok: "headers_ok (parse_webhook_headers json raw)" "length (parse_webhook_headers json raw) \<le> 20"
proof -
  have none: "headers_ok []" by (simp add: headers_ok_def)
  have "headers_ok (fold put_header (take 20 m) []) \<and> length (fold put_header (take 20 m) []) \<le> 20" for m
    using put_headers_ok [OF none, of "take 20 m"] by auto
  then show "headers_ok (parse_webhook_headers json raw)" "length (parse_webhook_headers json raw) \<le> 20"
    using none by (auto simp: parse_webhook_headers_def split: option.split jsval.split)
qed

lemma update_new: "k \<notin> fst ` set m \<Longrightarrow> AList.update k v m = m @ [(k, v)]"
  by (induction m) auto

lemma put_headers_back:
  assumes "headers_ok (out @ hs)"
  shows "fold put_header (map (\<lambda>(k, v). (k, Str v)) hs) out = out @ hs"
  using assms
proof (induction hs arbitrary: out)
  case (Cons h hs)
  obtain k v where h: "h = (k, v)" by (cases h)
  have "header_value (Str v) = v" if "\<not> list_ex is_line_break v"
    using that by (auto simp: header_value_def list_ex_iff intro!: map_idI)
  then have "put_header (k, Str v) out = out @ [h]"
    using Cons.prems h by (auto simp: put_header_def headers_ok_def header_ok_def update_new Let_def)
  with Cons.IH [of "out @ [h]"] Cons.prems h show ?case by simp
qed simp

lemma parse_printed_headers:
  assumes "json raw = Some (headers_json hs)" "raw \<noteq> []" "headers_ok hs" "length hs \<le> 20"
  shows "parse_webhook_headers json raw = hs"
  using assms put_headers_back [of "[]" hs] by (simp add: parse_webhook_headers_def headers_json_def)

definition masked :: "headers \<Rightarrow> headers" where
  "masked hs = map (\<lambda>(k, _). (k, webhook_header_mask)) hs"

lemma masked_ok: "headers_ok hs \<Longrightarrow> headers_ok (masked hs)"
proof -
  have keys: "map fst (masked hs) = map fst hs" by (simp add: masked_def case_prod_unfold comp_def)
  assume "headers_ok hs"
  then show "headers_ok (masked hs)"
    unfolding headers_ok_def keys
    by (auto simp: masked_def list_all_iff header_ok_def webhook_header_mask_def is_line_break_def case_prod_unfold)
qed

lemma merge_masked_all:
  assumes "distinct (map fst (out @ hs))" "\<And>k v. (k, v) \<in> set hs \<Longrightarrow> map_of previous k = Some v"
  shows "fold (\<lambda>(k, v) out.
         if v = webhook_header_mask then (case map_of previous k of Some p \<Rightarrow> AList.update k p out | None \<Rightarrow> out)
         else AList.update k v out) (masked hs) out = out @ hs"
  using assms
proof (induction hs arbitrary: out)
  case (Cons h hs)
  obtain k v where h: "h = (k, v)" by (cases h)
  have "AList.update k v out = out @ [h]" using Cons.prems(1) h by (auto intro!: update_new)
  moreover have "map_of previous k = Some v" by (rule Cons.prems(2)) (simp add: h)
  moreover have "fold (\<lambda>(k, v) out.
         if v = webhook_header_mask then (case map_of previous k of Some p \<Rightarrow> AList.update k p out | None \<Rightarrow> out)
         else AList.update k v out) (masked hs) (out @ [h]) = (out @ [h]) @ hs"
    using Cons.prems by (intro Cons.IH) simp_all
  ultimately show ?case by (simp add: masked_def h)
qed (simp add: masked_def)

text \<open>
  CX: The settings page gets the header names with every value masked; saving the page as it was read keeps every
  stored header with its value.
\<close>

theorem unchanged_page_keeps_headers:
  assumes "parse_webhook_headers json stored = hs" "hs \<noteq> []"
    and "stringify (headers_json (masked hs)) \<noteq> []"
    and "json (stringify (headers_json (masked hs))) = Some (headers_json (masked hs))"
  shows "merge_masked_webhook_headers json stringify (redact_webhook_headers json stringify stored) stored = stringify (headers_json hs)"
proof -
  have ok: "headers_ok hs" "length hs \<le> 20" using parsed_headers_ok [of json stored] assms(1) by simp_all
  have r: "redact_webhook_headers json stringify stored = stringify (headers_json (masked hs))"
    using assms(1,2) by (simp add: redact_webhook_headers_def masked_def)
  have "parse_webhook_headers json (stringify (headers_json (masked hs))) = masked hs"
    using assms(3,4) ok by (intro parse_printed_headers masked_ok) (simp_all add: masked_def)
  moreover have "merged_headers (masked hs) hs = hs"
    unfolding merged_headers_def using merge_masked_all [of "[]" hs hs] ok(1) by (simp add: headers_ok_def)
  ultimately show ?thesis by (simp add: merge_masked_webhook_headers_def r assms(1))
qed

lemma unchanged_page_keeps_headers_witness:
  "let json = (\<lambda>s. if s = ''1'' then Some (headers_json [(''authorization'', ''k1'')])
               else if s = ''2'' then Some (headers_json [(''authorization'', ''***'')]) else None);
       stringify = (\<lambda>v. if v = headers_json [(''authorization'', ''k1'')] then ''1'' else ''2'')
   in merge_masked_webhook_headers json stringify (redact_webhook_headers json stringify ''1'') ''1'' = ''1''"
proof -
  let ?json = "\<lambda>s. if s = ''1'' then Some (headers_json [(''authorization'', ''k1'')])
               else if s = ''2'' then Some (headers_json [(''authorization'', ''***'')]) else None"
  let ?stringify = "\<lambda>v. if v = headers_json [(''authorization'', ''k1'')] then ''1'' else ''2''"
  have trim: "js_trim ''authorization'' = ''authorization''" by code_simp
  have "parse_webhook_headers ?json ''1'' = [(''authorization'', ''k1'')]"
    by (rule parse_printed_headers) (simp_all add: headers_ok_def header_ok_def is_line_break_def trim)
  from unchanged_page_keeps_headers [OF this, of ?stringify] show ?thesis
    by (simp add: masked_def webhook_header_mask_def headers_json_def)
qed

text \<open>
  CX: The headers a request sends are cut to 4000 characters when they are stored. A longer object is accepted, its
  stored text is no JSON any more, and all headers are gone.
\<close>

theorem long_headers_are_lost:
  assumes "js_has body ''webhook_headers''" "js_String (js_coalesce (js_get body ''webhook_headers'') (Str [])) = raw" "js_trim raw \<noteq> []"
    and "validate_webhook_headers json (js_trim raw) = None"
    and "merge_masked_webhook_headers json stringify (js_trim raw) (case map_of m ''webhook_headers'' of Some h \<Rightarrow> h | None \<Rightarrow> []) = merged"
    and "4000 < length merged" "json (take 4000 merged) = None" "map_of m ''webhook_headers'' \<noteq> Some merged"
  shows "\<exists>m'. update_header_secret json stringify body (changed, m) = Inr (True, m') \<and>
    map_of m' ''webhook_headers'' = Some (take 4000 merged) \<and> parse_webhook_headers json (take 4000 merged) = []"
proof -
  have "take 4000 merged \<noteq> []" using assms(6) by auto
  then show ?thesis
    using assms by (simp add: update_header_secret_def update_conv' parse_webhook_headers_def)
qed

lemma long_headers_are_lost_witness:
  "let json = (\<lambda>s. if s = ''1'' then Some (headers_json [(''a'', ''b'')]) else None); stringify = (\<lambda>v. replicate 4001 (CHR ''x''))
   in \<exists>m'. update_header_secret json stringify (Obj [(''webhook_headers'', Str ''1'')]) (False, []) = Inr (True, m') \<and>
     parse_webhook_headers json (take 4000 (replicate 4001 (CHR ''x''))) = []"
proof -
  have trim: "js_trim ''1'' = ''1''" "js_trim ''a'' = ''a''" by code_simp+
  have rep: "replicate 4000 (CHR ''x'') \<noteq> ''1''" by (auto dest: arg_cong [of _ _ length])
  show ?thesis
    unfolding Let_def
    using long_headers_are_lost [where body = "Obj [(''webhook_headers'', Str ''1'')]" and raw = "''1''" and m = "[]" and changed = False
        and json = "\<lambda>s. if s = ''1'' then Some (headers_json [(''a'', ''b'')]) else None"
        and stringify = "\<lambda>v. replicate 4001 (CHR ''x'')" and merged = "replicate 4001 (CHR ''x'')"]
    by (auto simp: rep js_has_def trim validate_webhook_headers_def headers_json_def merge_masked_webhook_headers_def)
qed

section \<open>Secrets survive a change of keys\<close>

lemma materials_distinct: "distinct (map fst (secret_key_materials env))"
  using first_of_each_facts unfolding secret_key_materials_def by blast

lemma primary_material:
  "primary_secret_material env \<noteq> [] \<Longrightarrow> (primary_secret_material env, PrimaryKey) \<in> set (secret_key_materials env)"
  by (simp add: secret_key_materials_def)

lemma previous_material:
  assumes "env_text env ''PREVIOUS_ENCRYPTION_KEY'' \<noteq> []" "env_text env ''PREVIOUS_ENCRYPTION_KEY'' \<noteq> primary_secret_material env"
  shows "(env_text env ''PREVIOUS_ENCRYPTION_KEY'', PreviousKey) \<in> set (secret_key_materials env)"
  using assms by (simp add: secret_key_materials_def)



end
