(* ===== verification/AgentTasks.thy ===== *)
theory AgentTasks
  imports AgentState
begin

text \<open>
  \<open>worker/src/admin/agent-tasks.js\<close>: the tasks an administrator queues for an Agent, the statements on the
  table \<open>agent_tasks\<close>, and the handlers that create, claim, finish, cancel, expire and clean up tasks.

  \<^item> A row is a record; the table is the list of its rows in the order of insertion. A column of JSON text holds
    the value of the text.
  \<^item> Every SQL statement is one definition on the table and runs atomically. A handler waits between its
    statements: \<open>gap n\<close> is what other requests do to the database at its \<open>n\<close>-th wait, \<open>clk n\<close> the clock at its
    \<open>n\<close>-th reading.
  \<^item> The partial unique index of the table (one queued or running task per \<open>agent_id\<close>) makes an \<open>INSERT\<close> fail.
  \<^item> The normalization of a result and of a report are arguments, so is the platform's date parser.
\<close>

section \<open>Actions and options\<close>

text \<open>
  \<open>AGENT_TASK_ACTIONS[action]\<close>. The table is a plain object, so the names of \<open>Object.prototype\<close> are found in
  it as well, with no time limit.
\<close>

definition object_prototype :: "string list" where
  "object_prototype = [''constructor'', ''__defineGetter__'', ''__defineSetter__'', ''hasOwnProperty'', ''__lookupGetter__'',
     ''__lookupSetter__'', ''isPrototypeOf'', ''propertyIsEnumerable'', ''toString'', ''valueOf'', ''__proto__'', ''toLocaleString'']"

record task_policy =
  po_timeout :: "int option"

definition agent_task_actions :: "(string \<times> int) list" where
  "agent_task_actions = [(''nodequality'', 3600), (''ip_unlock'', 600), (''backroute'', 900)]"

definition action_policy :: "string \<Rightarrow> task_policy option" where
  "action_policy a =
     (case map_of agent_task_actions a of
        Some t \<Rightarrow> Some \<lparr> po_timeout = Some t \<rparr>
      | None \<Rightarrow> if a \<in> set object_prototype then Some \<lparr> po_timeout = None \<rparr> else None)"

definition nq_task_expires_sec :: int where "nq_task_expires_sec = 7 * 24 * 60 * 60"
definition cancel_grace_sec :: int where "cancel_grace_sec = 5 * 60"
definition runner_heartbeat_interval_sec :: int where "runner_heartbeat_interval_sec = 30"
definition runner_stale_sec :: int where "runner_stale_sec = 30 * 60"
definition runner_instance_max_chars :: nat where "runner_instance_max_chars = 128"
definition agent_contact_touch_sec :: int where "agent_contact_touch_sec = 1800"
definition max_bulk_agent_tasks :: nat where "max_bulk_agent_tasks = 50"

definition nq_option_defaults :: "(string \<times> string) list" where
  "nq_option_defaults = [(''hardware'', ''f''), (''ip'', ''y''), (''net'', ''y''), (''route'', ''y''), (''accelerator'', ''auto'')]"

definition nq_option_allowed :: "string \<Rightarrow> string list" where
  "nq_option_allowed key =
     (if key = ''hardware'' then [''y'', ''f'', ''v'', ''n''] else if key = ''ip'' then [''y'', ''n'']
      else if key = ''net'' then [''y'', ''l'', ''n''] else if key = ''route'' then [''y'', ''n''] else [''auto'', ''cf''])"

definition normalize_nq_options :: "jsval \<Rightarrow> jsval" where
  "normalize_nq_options v =
     (let raw = (if js_is_record v then v else Obj [])
      in Obj (map (\<lambda>(key, fallback).
           let candidate = js_lower (js_trim (js_String (js_coalesce (js_get raw key) (Str fallback))))
           in (key, Str (if candidate \<in> set (nq_option_allowed key) then candidate else fallback))) nq_option_defaults))"

definition runner_char :: "char \<Rightarrow> bool" where
  "runner_char c \<longleftrightarrow> (CHR ''A'' \<le> c \<and> c \<le> CHR ''Z'') \<or> (CHR ''a'' \<le> c \<and> c \<le> CHR ''z'') \<or> is_digit c \<or> c \<in> set ''._:=-''"

definition normalize_runner_instance_id :: "jsval \<Rightarrow> string" where
  "normalize_runner_instance_id v = filter runner_char (take runner_instance_max_chars (js_trim (str_or_empty v)))"

definition parse_stored_options :: "jsval option \<Rightarrow> jsval" where
  "parse_stored_options stored = normalize_nq_options (case stored of Some v \<Rightarrow> v | None \<Rightarrow> Null)"

datatype request_error =
    Missing_agent | No_agents | Too_many_agents | Unknown_action | Target_missing | Agent_offline | Unsupported | Already_active
  | Insert_conflict | Task_missing | Not_running | Bad_status | Not_stoppable | Task_finished | No_known_action | Many_actions | Bad_limit | Bad_body | Crashed

text \<open>\<open>[...new Set(xs)]\<close> keeps the first of equal elements\<close>

fun first_occurrences :: "'a list \<Rightarrow> 'a list" where
  "first_occurrences [] = []"
| "first_occurrences (x # xs) = x # filter (\<lambda>y. y \<noteq> x) (first_occurrences xs)"

definition normalize_allowed_actions :: "jsval \<Rightarrow> request_error + string list" where
  "normalize_allowed_actions v =
     (let raw = js_trim (str_or_empty v);
          actions = first_occurrences (filter (\<lambda>a. action_policy a \<noteq> None) (map js_trim (js_split (CHR '','') raw)))
      in if raw = [] then Inr []
         else if actions = [] then Inl No_known_action
         else if length actions \<noteq> 1 then Inl Many_actions
         else Inr actions)"

section \<open>The table\<close>

datatype task_status = Queued | Running | Succeeded | Failed | Cancelled | Expired

datatype task_fault = Stopped_by_admin | Heartbeat_lost | Manager_restarted | Reported string | Bad_result | Bad_report

record task =
  tk_id :: string
  tk_agent :: string
  tk_action :: string
  tk_options :: "jsval option"
  tk_status :: task_status
  tk_requested :: int
  tk_expires :: int
  tk_claimed :: "int option"
  tk_finished :: "int option"
  tk_cancel :: "int option"
  tk_runner :: "string option"
  tk_heartbeat :: "int option"
  tk_result :: "jsval option"
  tk_error :: "task_fault option"
  tk_excerpt :: "string option"
  tk_version :: "string option"

definition is_active_task :: "task \<Rightarrow> bool" where
  "is_active_task t \<longleftrightarrow> tk_status t = Queued \<or> tk_status t = Running"

definition cancel_asked :: "task \<Rightarrow> bool" where
  "cancel_asked t \<longleftrightarrow> (case tk_cancel t of Some c \<Rightarrow> 0 < c | None \<Rightarrow> False)"

text \<open>An \<open>UPDATE\<close> changes the rows of its \<open>WHERE\<close>; the second result is the number of rows it changed\<close>

definition sql_update :: "('a \<Rightarrow> bool) \<Rightarrow> ('a \<Rightarrow> 'a) \<Rightarrow> 'a list \<Rightarrow> 'a list \<times> nat" where
  "sql_update P f ts = (map (\<lambda>t. if P t then f t else t) ts, length (filter P ts))"

definition sql_insert :: "task \<Rightarrow> task list \<Rightarrow> task list option" where
  "sql_insert t ts =
     (if list_ex (\<lambda>u. tk_id u = tk_id t \<or> is_active_task t \<and> is_active_task u \<and> tk_agent u = tk_agent t) ts then None
      else Some (ts @ [t]))"

text \<open>\<open>CASE WHEN cancel_requested_at ... THEN 'cancelled' ELSE ... END\<close> with its error\<close>

definition close_task :: "task_status \<Rightarrow> task_fault option \<Rightarrow> int \<Rightarrow> task \<Rightarrow> task" where
  "close_task status fault now t =
     (if cancel_asked t then t\<lparr> tk_status := Cancelled, tk_finished := Some now, tk_error := Some Stopped_by_admin \<rparr>
      else t\<lparr> tk_status := status, tk_finished := Some now,
             tk_error := (case fault of Some f \<Rightarrow> Some f | None \<Rightarrow> tk_error t) \<rparr>)"

text \<open>The rows a sweep looks at: all when no Agent is given\<close>

definition in_scope :: "string list \<Rightarrow> task \<Rightarrow> bool" where
  "in_scope ids t \<longleftrightarrow> ids = [] \<or> tk_agent t \<in> set ids"

definition sql_expire :: "string list \<Rightarrow> int \<Rightarrow> task list \<Rightarrow> task list" where
  "sql_expire ids now ts =
     fst (sql_update (\<lambda>t. in_scope ids t \<and> is_active_task t \<and> tk_expires t \<le> now) (close_task Expired None now) ts)"

definition sql_stale :: "string list \<Rightarrow> int \<Rightarrow> task list \<Rightarrow> task list" where
  "sql_stale ids now ts =
     fst (sql_update (\<lambda>t. in_scope ids t \<and> tk_status t = Running \<and> tk_runner t \<noteq> None
            \<and> (case tk_heartbeat t of Some h \<Rightarrow> h \<le> now - runner_stale_sec | None \<Rightarrow> False))
          (close_task Failed (Some Heartbeat_lost) now) ts)"

definition sql_recover :: "string list \<Rightarrow> int \<Rightarrow> string \<Rightarrow> task list \<Rightarrow> task list" where
  "sql_recover ids now runner ts =
     fst (sql_update (\<lambda>t. tk_agent t \<in> set ids \<and> tk_status t = Running \<and> (case tk_runner t of Some r \<Rightarrow> r \<noteq> runner | None \<Rightarrow> False))
          (close_task Failed (Some Manager_restarted) now) ts)"

definition sql_claim :: "string \<Rightarrow> string list \<Rightarrow> int \<Rightarrow> string \<Rightarrow> task list \<Rightarrow> task list \<times> nat" where
  "sql_claim i ids now runner =
     sql_update (\<lambda>t. tk_id t = i \<and> tk_agent t \<in> set ids \<and> tk_status t = Queued)
       (\<lambda>t. t\<lparr> tk_status := Running, tk_claimed := Some now, tk_runner := (if runner = [] then None else Some runner),
              tk_heartbeat := (if runner = [] then None else Some now) \<rparr>)"

definition asked_at :: "task \<Rightarrow> int" where
  "asked_at t = (case tk_cancel t of Some c \<Rightarrow> c | None \<Rightarrow> 0)"

record task_outcome =
  ou_status :: task_status
  ou_finished :: int
  ou_result :: "jsval option"
  ou_error :: "task_fault option"
  ou_excerpt :: "string option"
  ou_version :: "string option"

definition sql_commit :: "string \<Rightarrow> string \<Rightarrow> int \<Rightarrow> task_outcome \<Rightarrow> task list \<Rightarrow> task list \<times> nat" where
  "sql_commit i agent seen o' =
     sql_update (\<lambda>t. tk_id t = i \<and> tk_agent t = agent \<and> tk_status t = Running \<and> asked_at t = seen)
       (\<lambda>t. t\<lparr> tk_status := ou_status o', tk_finished := Some (ou_finished o'), tk_result := ou_result o',
              tk_error := ou_error o', tk_excerpt := ou_excerpt o', tk_version := ou_version o' \<rparr>)"

definition first_cancel :: "int \<Rightarrow> task \<Rightarrow> int option" where
  "first_cancel now t = (case tk_cancel t of Some c \<Rightarrow> Some c | None \<Rightarrow> Some now)"

definition sql_cancel_queued :: "string \<Rightarrow> int \<Rightarrow> task list \<Rightarrow> task list \<times> nat" where
  "sql_cancel_queued i now =
     sql_update (\<lambda>t. tk_id t = i \<and> tk_status t = Queued)
       (\<lambda>t. t\<lparr> tk_status := Cancelled, tk_cancel := first_cancel now t, tk_finished := Some now \<rparr>)"

definition sql_cancel_running :: "string \<Rightarrow> int \<Rightarrow> task list \<Rightarrow> task list \<times> nat" where
  "sql_cancel_running i now =
     sql_update (\<lambda>t. tk_id t = i \<and> tk_status t = Running)
       (\<lambda>t. t\<lparr> tk_cancel := first_cancel now t, tk_expires := min (tk_expires t) (now + cancel_grace_sec) \<rparr>)"

definition sql_heartbeat :: "string \<Rightarrow> int \<Rightarrow> task list \<Rightarrow> task list" where
  "sql_heartbeat i now ts =
     fst (sql_update (\<lambda>t. tk_id t = i \<and> tk_status t = Running \<and> tk_runner t \<noteq> None
            \<and> (case tk_heartbeat t of None \<Rightarrow> True | Some h \<Rightarrow> h < now - runner_heartbeat_interval_sec))
          (\<lambda>t. t\<lparr> tk_heartbeat := Some now \<rparr>) ts)"

text \<open>\<open>DELETE ... WHERE rowid IN (SELECT ... LIMIT n)\<close>\<close>

fun sql_delete :: "('a \<Rightarrow> bool) \<Rightarrow> nat \<Rightarrow> 'a list \<Rightarrow> 'a list \<times> nat" where
  "sql_delete P 0 ts = (ts, 0)"
| "sql_delete P n [] = ([], 0)"
| "sql_delete P (Suc n) (t # ts) =
     (if P t then (let (rest, k) = sql_delete P n ts in (rest, Suc k))
      else (let (rest, k) = sql_delete P (Suc n) ts in (t # rest, k)))"

definition task_row :: "string \<Rightarrow> task list \<Rightarrow> task option" where
  "task_row i ts = seek tk_id ts i"

section \<open>Agents\<close>

record task_db =
  kb_tasks :: "task list"
  kb_targets :: "(string \<times> jsval) list"
  kb_contacts :: "(string \<times> int) list"

definition resolve_agent_target :: "jsval \<Rightarrow> task_db \<Rightarrow> (string \<times> jsval) option \<times> string" where
  "resolve_agent_target v db =
     (let raw = js_trim (str_or_empty v); canonical = sanitize_agent_id (Str raw)
      in if canonical = [] then (None, [])
         else case map_of (kb_targets db) raw of
           Some row \<Rightarrow> (Some (raw, row), canonical)
         | None \<Rightarrow>
             (case map_of (kb_targets db) canonical of
                Some row \<Rightarrow> (Some (canonical, row), canonical)
              | None \<Rightarrow>
                  (find (\<lambda>(i, row). js_Number (js_get row ''enabled'') = Fin 1 \<and> js_get row ''type'' = Str ''tcp''
                       \<and> sanitize_agent_id (Str i) = canonical) (kb_targets db), canonical)))"

definition agent_task_ids :: "jsval \<Rightarrow> task_db \<Rightarrow> string list" where
  "agent_task_ids v db =
     (let (target, canonical) = resolve_agent_target v db;
          ids = (if canonical = [] then [] else [canonical])
      in case target of Some (i, _) \<Rightarrow> if i \<in> set ids then ids else ids @ [i] | None \<Rightarrow> ids)"

definition touch_agent_manager_contact :: "jsval \<Rightarrow> int \<Rightarrow> task_db \<Rightarrow> task_db" where
  "touch_agent_manager_contact v now db =
     (let i = sanitize_agent_id v
      in if i = [] then db
         else case map_of (kb_contacts db) i of
           Some seen \<Rightarrow> if agent_contact_touch_sec \<le> now - seen then db\<lparr> kb_contacts := AList.update i now (kb_contacts db) \<rparr> else db
         | None \<Rightarrow> db\<lparr> kb_contacts := AList.update i now (kb_contacts db) \<rparr>)"

section \<open>Creating tasks\<close>

type_synonym gap = "nat \<Rightarrow> task_db \<Rightarrow> task_db"

definition set_tasks :: "task list \<Rightarrow> task_db \<Rightarrow> task_db" where
  "set_tasks ts db = db\<lparr> kb_tasks := ts \<rparr>"

definition parse_capabilities :: "(string \<Rightarrow> jsval option) \<Rightarrow> jsval \<Rightarrow> jsval list option" where
  "parse_capabilities json v =
     (case (case v of Str s \<Rightarrow> json s | _ \<Rightarrow> Some v) of
        None \<Rightarrow> None
      | Some parsed \<Rightarrow>
          if \<not> js_truthy parsed \<or> js_Number (js_get parsed ''protocol'') \<noteq> Fin 1 then None
          else case js_get parsed ''actions'' of
            Arr xs \<Rightarrow> Some (filter (\<lambda>a. action_policy (js_String a) \<noteq> None) xs)
          | _ \<Rightarrow> None)"

text \<open>What the handlers read of the Agents: the stored and the streamed state, the parsers, fresh identifiers\<close>

record task_env =
  tv_date_ms :: "jsval \<Rightarrow> int option"
  tv_json :: "string \<Rightarrow> jsval option"
  tv_runtime :: "string \<Rightarrow> jsval option"
  tv_buffered :: "string \<Rightarrow> jsval"

definition new_task :: "string \<Rightarrow> string \<Rightarrow> string \<Rightarrow> jsval option \<Rightarrow> int \<Rightarrow> int \<Rightarrow> task" where
  "new_task i agent action options now expires =
     \<lparr> tk_id = i, tk_agent = agent, tk_action = action, tk_options = options, tk_status = Queued, tk_requested = now,
       tk_expires = expires, tk_claimed = None, tk_finished = None, tk_cancel = None, tk_runner = None,
       tk_heartbeat = None, tk_result = None, tk_error = None, tk_excerpt = None, tk_version = None \<rparr>"

definition task_lifetime :: "string \<Rightarrow> task_policy \<Rightarrow> int" where
  "task_lifetime action policy =
     (if action = ''nodequality'' then nq_task_expires_sec
      else case po_timeout policy of Some t \<Rightarrow> t | None \<Rightarrow> nq_task_expires_sec) + 900"

text \<open>Everything \<open>createAgentTaskForAgent\<close> checks before it looks for an active task\<close>

definition task_permitted :: "task_env \<Rightarrow> int \<Rightarrow> string \<Rightarrow> string \<Rightarrow> task_db \<Rightarrow> request_error option" where
  "task_permitted env now agent action db =
     (case resolve_agent_target (Str agent) db of
        (None, _) \<Rightarrow> Some Target_missing
      | (Some (_, row), canonical) \<Rightarrow>
          if js_get row ''type'' \<noteq> Str ''tcp'' \<or> num_or0 (js_get row ''enabled'') \<noteq> Fin 1 then Some Target_missing
          else case newer_agent_metric_row (tv_date_ms env) (tv_runtime env canonical) (tv_buffered env canonical) of
            None \<Rightarrow> Some Agent_offline
          | Some runtime \<Rightarrow>
              (case tv_date_ms env (js_or (js_get runtime ''updated_at'') (JInt 0)) of
                 None \<Rightarrow> Some Agent_offline
               | Some ms \<Rightarrow>
                   if ms div 1000 = 0 \<or> 900 < now - ms div 1000 then Some Agent_offline
                   else case parse_capabilities (tv_json env) (js_get runtime ''capabilities'') of
                     None \<Rightarrow> Some Unsupported
                   | Some actions \<Rightarrow> if Str action \<in> set actions then None else Some Unsupported))"

definition nq_options_for :: "string \<Rightarrow> jsval option \<Rightarrow> jsval option" where
  "nq_options_for action options =
     (if action = ''nodequality'' then Some (normalize_nq_options (case options of Some v \<Rightarrow> v | None \<Rightarrow> Null)) else None)"

definition create_agent_task_for_agent ::
  "task_env \<Rightarrow> gap \<Rightarrow> (nat \<Rightarrow> int) \<Rightarrow> string \<Rightarrow> string \<Rightarrow> string \<Rightarrow> jsval option \<Rightarrow> task_db \<Rightarrow> task_db \<times> (request_error + task)" where
  "create_agent_task_for_agent env gap clk i agent action options db =
     (case action_policy action of
        None \<Rightarrow> (db, Inl Unknown_action)
      | Some policy \<Rightarrow>
          (case task_permitted env (clk 0) agent action db of
             Some e \<Rightarrow> (db, Inl e)
           | None \<Rightarrow>
               (let db1 = gap 0 db; ids = agent_task_ids (Str agent) db1
                in if list_ex (\<lambda>t. tk_agent t \<in> set ids \<and> is_active_task t) (kb_tasks db1) then (db1, Inl Already_active)
                   else let db2 = gap 1 db1;
                            t = new_task i agent action
                                  (nq_options_for action options)
                                  (clk 1) (clk 1 + task_lifetime action policy)
                        in case sql_insert t (kb_tasks db2) of
                             None \<Rightarrow> (db2, Inl Insert_conflict)
                           | Some ts \<Rightarrow> (set_tasks ts db2, Inr t))))"

text \<open>The Agents of a bulk request: trimmed, without empty names, each canonical name once\<close>

fun bulk_agents :: "string list \<Rightarrow> jsval list \<Rightarrow> string list" where
  "bulk_agents seen [] = []"
| "bulk_agents seen (v # vs) =
     (let raw = js_trim (str_or_empty v); canonical = sanitize_agent_id (Str raw)
      in if canonical = [] \<or> canonical \<in> set seen then bulk_agents seen vs
         else raw # bulk_agents (canonical # seen) vs)"

record bulk_result =
  br_requested :: nat
  br_created :: "task list"
  br_rejected :: "(string \<times> request_error) list"

text \<open>
  The requests of a chunk run concurrently; the model runs them one after the other, which is one of their
  interleavings, and \<open>gap k\<close> of the \<open>k\<close>-th request contains whatever comes between.
\<close>

fun create_each ::
  "task_env \<Rightarrow> (nat \<Rightarrow> gap) \<Rightarrow> (nat \<Rightarrow> nat \<Rightarrow> int) \<Rightarrow> (nat \<Rightarrow> string) \<Rightarrow> string \<Rightarrow> jsval option \<Rightarrow> nat \<Rightarrow> string list \<Rightarrow> task_db \<times> bulk_result \<Rightarrow> task_db \<times> bulk_result" where
  "create_each env gap clk fresh action options k [] s = s"
| "create_each env gap clk fresh action options k (agent # agents) (db, r) =
     create_each env gap clk fresh action options (Suc k) agents
       (case create_agent_task_for_agent env (gap k) (clk k) (fresh k) agent action options db of
          (db', Inr t) \<Rightarrow> (db', r\<lparr> br_created := br_created r @ [t] \<rparr>)
        | (db', Inl e) \<Rightarrow> (db', r\<lparr> br_rejected := br_rejected r @ [(agent, e)] \<rparr>))"

definition create_agent_tasks ::
  "task_env \<Rightarrow> (nat \<Rightarrow> gap) \<Rightarrow> (nat \<Rightarrow> nat \<Rightarrow> int) \<Rightarrow> (nat \<Rightarrow> string) \<Rightarrow> jsval list \<Rightarrow> string \<Rightarrow> jsval option \<Rightarrow> task_db \<Rightarrow>
   task_db \<times> (request_error + bulk_result)" where
  "create_agent_tasks env gap clk fresh values action options db =
     (let agents = bulk_agents [] values
      in if agents = [] then (db, Inl No_agents)
         else if max_bulk_agent_tasks < length agents then (db, Inl Too_many_agents)
         else let (db', r) = create_each env gap clk fresh action (nq_options_for action options) 0 agents
                    (db, \<lparr> br_requested = length agents, br_created = [], br_rejected = [] \<rparr>)
              in (db', Inr r))"

definition create_agent_task ::
  "task_env \<Rightarrow> (nat \<Rightarrow> gap) \<Rightarrow> (nat \<Rightarrow> nat \<Rightarrow> int) \<Rightarrow> (nat \<Rightarrow> string) \<Rightarrow> jsval \<Rightarrow> task_db \<Rightarrow> task_db \<times> (request_error + bulk_result + task)" where
  "create_agent_task env gap clk fresh body db =
     (let agent = js_trim (str_or_empty (js_get body ''agent_id'')); action = js_trim (str_or_empty (js_get body ''action''));
          options = nq_options_for action (Some (js_get body ''options''))
      in case js_get body ''agent_ids'' of
           Arr values \<Rightarrow> (let (db', r) = create_agent_tasks env gap clk fresh values action options db
                          in (db', map_sum id Inl r))
         | _ \<Rightarrow>
             if sanitize_agent_id (Str agent) = [] then (db, Inl Missing_agent)
             else let (db', r) = create_agent_task_for_agent env (gap 0) (clk 0) (fresh 0) agent action options db
                  in (db', map_sum id Inr r))"

section \<open>Sweeping and listing\<close>

definition expire_stale_tasks :: "gap \<Rightarrow> int \<Rightarrow> jsval \<Rightarrow> task_db \<Rightarrow> task_db" where
  "expire_stale_tasks gap now agent db =
     (let ids = (if js_truthy agent then agent_task_ids agent db else []);
          db1 = set_tasks (sql_expire ids now (kb_tasks db)) db;
          db2 = gap 0 db1
      in set_tasks (sql_stale ids now (kb_tasks db2)) db2)"

definition recover_orphaned_running_tasks :: "string list \<Rightarrow> int \<Rightarrow> string \<Rightarrow> task_db \<Rightarrow> task_db" where
  "recover_orphaned_running_tasks ids now runner db =
     (if runner = [] then db else set_tasks (sql_recover ids now runner (kb_tasks db)) db)"

text \<open>What the administrator sees of a row; \<open>report_url\<close> normalizes the link of a report, \<open>[]\<close> when it is none\<close>

record task_view =
  tw_id :: string
  tw_agent :: string
  tw_action :: string
  tw_status :: task_status
  tw_options :: "jsval option"
  tw_result :: "jsval option"
  tw_error :: "task_fault option"
  tw_invalid_report :: bool

definition task_for_admin :: "(jsval \<Rightarrow> string) \<Rightarrow> task \<Rightarrow> task_view" where
  "task_for_admin report_url t =
     (let url = (case tk_result t of Some r \<Rightarrow> js_get r ''report_url'' | None \<Rightarrow> Undefined);
          nq = (tk_action t = ''nodequality'' \<and> js_truthy url);
          invalid = (nq \<and> report_url url = [])
      in \<lparr> tw_id = tk_id t, tw_agent = tk_agent t, tw_action = tk_action t,
           tw_status = (if invalid \<and> tk_status t = Succeeded then Failed else tk_status t),
           tw_options = (if tk_action t = ''nodequality'' then Some (parse_stored_options (tk_options t)) else None),
           tw_result = (if invalid then None
                        else if nq then map_option (\<lambda>r. js_set r ''report_url'' (Str (report_url url))) (tk_result t)
                        else tk_result t),
           tw_error = tk_error t, tw_invalid_report = (invalid \<and> tk_error t = None) \<rparr>)"

definition list_limit :: "jsval \<Rightarrow> jsnum" where
  "list_limit v = js_min (Fin 100) (js_max (Fin 1) (js_Number (js_or v (JInt 30))))"

definition list_agent_tasks ::
  "(jsval \<Rightarrow> string) \<Rightarrow> gap \<Rightarrow> int \<Rightarrow> jsval \<Rightarrow> jsval \<Rightarrow> task_db \<Rightarrow> task_db \<times> (request_error + task_view list)" where
  "list_agent_tasks report_url gap now agent limit db =
     (let db1 = expire_stale_tasks gap now (Str []) db;
          raw = js_trim (str_or_empty agent);
          ids = (if sanitize_agent_id (Str raw) = [] then [] else agent_task_ids (Str raw) db1);
          rows = sort_key (\<lambda>t. - tk_requested t) (filter (in_scope ids) (kb_tasks db1))
      in case list_limit limit of
           Fin q \<Rightarrow> if of_int \<lfloor>q\<rfloor> = q then (db1, Inr (map (task_for_admin report_url) (take (nat \<lfloor>q\<rfloor>) rows))) else (db1, Inl Bad_limit)
         | _ \<Rightarrow> (db1, Inl Bad_limit))"

section \<open>Claiming\<close>

text \<open>\<open>ORDER BY requested_at ASC LIMIT 1\<close>: rows of the same time in the order of insertion\<close>

definition oldest_queued :: "string list \<Rightarrow> string list \<Rightarrow> int \<Rightarrow> task list \<Rightarrow> task option" where
  "oldest_queued ids allowed now ts =
     (case sort_key tk_requested (filter (\<lambda>t. tk_agent t \<in> set ids \<and> tk_status t = Queued \<and> now < tk_expires t
             \<and> (case allowed of [a] \<Rightarrow> tk_action t = a | _ \<Rightarrow> True)) ts) of
        [] \<Rightarrow> None | t # _ \<Rightarrow> Some t)"

datatype claim_reply = No_task | Claimed_task string string "int option" "jsval option"

text \<open>A row that is gone by then, or one without a known action, makes the handler throw\<close>

definition claim_reply_of :: "task option \<Rightarrow> request_error + claim_reply" where
  "claim_reply_of row =
     (case row of
        None \<Rightarrow> Inl Crashed
      | Some t \<Rightarrow>
          (case action_policy (tk_action t) of
             None \<Rightarrow> Inl Crashed
           | Some p \<Rightarrow> Inr (Claimed_task (tk_id t) (tk_action t) (po_timeout p)
               (if tk_action t = ''nodequality'' then Some (parse_stored_options (tk_options t)) else None))))"

definition claim_sweep :: "gap \<Rightarrow> (nat \<Rightarrow> int) \<Rightarrow> jsval \<Rightarrow> string list \<Rightarrow> string \<Rightarrow> task_db \<Rightarrow> task_db" where
  "claim_sweep gap clk agent ids runner db =
     recover_orphaned_running_tasks ids (clk 2) runner (gap 1 (expire_stale_tasks (\<lambda>_. gap 0) (clk 1) agent db))"

definition claim_agent_task ::
  "gap \<Rightarrow> (nat \<Rightarrow> int) \<Rightarrow> jsval \<Rightarrow> jsval \<Rightarrow> jsval \<Rightarrow> task_db \<Rightarrow> task_db \<times> (request_error + claim_reply)" where
  "claim_agent_task gap clk agent allowed runner_value db =
     (let raw = Str (js_trim (str_or_empty agent)); runner = normalize_runner_instance_id runner_value
      in if sanitize_agent_id raw = [] then (db, Inl Missing_agent)
         else let db1 = touch_agent_manager_contact raw (clk 0) db
              in case normalize_allowed_actions allowed of
                   Inl e \<Rightarrow> (db1, Inl e)
                 | Inr actions \<Rightarrow>
                     (let ids = agent_task_ids raw db1;
                          db2 = gap 2 (claim_sweep gap clk raw ids runner db1)
                      in case oldest_queued ids actions (clk 3) (kb_tasks db2) of
                           None \<Rightarrow> (db2, Inr No_task)
                         | Some t \<Rightarrow>
                             (let db3 = gap 3 db2; (ts, changes) = sql_claim (tk_id t) ids (clk 4) runner (kb_tasks db3)
                              in if changes < 1 then (db3, Inr No_task)
                                 else let db4 = gap 4 (set_tasks ts db3)
                                      in (db4, claim_reply_of (task_row (tk_id t) (kb_tasks db4))))))"
section \<open>Finishing\<close>

text \<open>The normalization of results and reports, the upload of images, and the cleaning of terminal output\<close>

record task_parsers =
  tp_normalize :: "string \<Rightarrow> jsval \<Rightarrow> jsval option"
  tp_report :: "jsval \<Rightarrow> int \<Rightarrow> jsval option"
  tp_upload :: "jsval \<Rightarrow> (jsval \<times> jsval) option"
  tp_unlock :: "jsval \<Rightarrow> int \<Rightarrow> jsval option"
  tp_clean :: "string \<Rightarrow> string"

definition text_or_null :: "string \<Rightarrow> string option" where
  "text_or_null s = (if s = [] then None else Some s)"

definition upload_missing :: jsval where
  "upload_missing = Obj [(''enabled'', Bool True), (''uploaded'', JInt 0), (''errors'', Arr [Str ''no report content''])]"

definition upload_failed :: jsval where
  "upload_failed = Obj [(''enabled'', Bool True), (''uploaded'', JInt 0), (''errors'', Arr [Str ''upload failed''])]"

record task_plan =
  tn_outcome :: task_outcome
  tn_seen :: int
  tn_agent :: string
  tn_action :: string
  tn_result :: "jsval option"
  tn_report :: "jsval option"

definition stored_result :: "string \<Rightarrow> jsval option \<Rightarrow> jsval option \<Rightarrow> jsval \<Rightarrow> jsval option" where
  "stored_result action result report upload =
     (case result of
        None \<Rightarrow> None
      | Some r \<Rightarrow>
          if action = ''nodequality'' then
            Some (Obj [(''report_url'', js_get r ''report_url''),
              (''report_saved'', Bool (case report of Some n \<Rightarrow> js_truthy (js_get n ''report'') | None \<Rightarrow> False)),
              (''tabs'', case report of Some n \<Rightarrow> js_or (js_get (js_get n ''summary'') ''tabs'') (Arr []) | None \<Rightarrow> Arr []),
              (''image_upload'', upload)])
          else Some r)"

text \<open>What the handler makes of the request and of the row it read\<close>

definition plan_completion :: "task_parsers \<Rightarrow> int \<Rightarrow> jsval \<Rightarrow> task \<Rightarrow> request_error + task_plan" where
  "plan_completion ps finished body row =
     (let reported = (js_get body ''status'' = Str ''succeeded''); cancelled = cancel_asked row
      in if \<not> reported \<and> js_get body ''status'' \<noteq> Str ''failed'' then Inl Bad_status
         else let fine1 = (\<not> cancelled \<and> reported);
                  result = (if fine1 then tp_normalize ps (tk_action row) (js_get body ''result'') else None);
                  fine2 = (fine1 \<and> result \<noteq> None);
                  fault1 = (if fine1 \<and> result = None then Some Bad_result else None);
                  wanted = (fine2 \<and> tk_action row = ''nodequality'' \<and> js_truthy (js_get (the result) ''report''));
                  report = (if wanted then tp_report ps (the result) finished else None);
                  fine3 = (fine2 \<and> (wanted \<longrightarrow> report \<noteq> None));
                  fault2 = (if wanted \<and> report = None then Some Bad_report else fault1);
                  err = text_or_null (take 2000 (js_trim (str_or_empty (js_get body ''error''))));
                  excerpt = take (16 * 1024) (str_or_empty (js_get body ''output_excerpt''));
                  (saved, upload) =
                    (case report of
                       Some n \<Rightarrow> (case tp_upload ps n of Some (m, u) \<Rightarrow> (Some m, u) | None \<Rightarrow> (Some n, upload_failed))
                     | None \<Rightarrow> (None, if fine3 \<and> tk_action row = ''nodequality'' then upload_missing else Null))
              in Inr \<lparr> tn_outcome =
                     \<lparr> ou_status = (if cancelled then Cancelled else if fine3 then Succeeded else Failed), ou_finished = finished,
                       ou_result = stored_result (tk_action row) result saved upload,
                       ou_error = (if cancelled then Some Stopped_by_admin
                                   else case err of Some e \<Rightarrow> Some (Reported e) | None \<Rightarrow> fault2),
                       ou_excerpt = (if excerpt = [] then None else Some (tp_clean ps excerpt)),
                       ou_version = text_or_null (take 32 (js_trim (str_or_empty (js_get body ''agent_version'')))) \<rparr>,
                   tn_seen = asked_at row, tn_agent = tk_agent row, tn_action = tk_action row,
                   tn_result = (if fine3 then result else None), tn_report = saved \<rparr>)"

definition update_target :: "string \<Rightarrow> (string \<times> jsval) list \<Rightarrow> task_db \<Rightarrow> task_db" where
  "update_target i columns db =
     db\<lparr> kb_targets := map (\<lambda>(j, row). (j, if j = i then fold (\<lambda>(c, v) r. js_set r c v) columns row else row)) (kb_targets db) \<rparr>"

definition array_items :: "jsval \<Rightarrow> jsval list" where
  "array_items v = (case v of Arr xs \<Rightarrow> xs | _ \<Rightarrow> [])"

definition route_summary :: "jsval \<Rightarrow> jsval list" where
  "route_summary result =
     map (\<lambda>e. Obj ([(''carrier'', js_get e ''carrier''), (''target'', js_get e ''target''), (''line'', js_get e ''line'')]
            @ (if js_truthy (js_get e ''confidence'') then [(''confidence'', js_get e ''confidence'')] else [])
            @ (if array_items (js_get e ''asns'') \<noteq> [] then [(''asns'', js_get e ''asns'')] else [])))
       (filter (\<lambda>e. js_truthy (js_get e ''carrier'') \<and> js_truthy (js_get e ''target'') \<and> js_truthy (js_get e ''line''))
         (array_items (js_get result ''routes'')))"

text \<open>The columns of the target a finished task fills in\<close>

definition apply_result :: "task_parsers \<Rightarrow> int \<Rightarrow> task_plan \<Rightarrow> task_db \<Rightarrow> task_db" where
  "apply_result ps finished plan db =
     (case tn_result plan of
        None \<Rightarrow> db
      | Some r \<Rightarrow>
          let stamp = JInt finished; agent = tn_agent plan in
          if tn_action plan = ''nodequality'' then
            (if \<not> js_truthy (js_get r ''report_url'') then db
             else case tn_report plan of
               Some n \<Rightarrow>
                 if js_truthy (js_get n ''report'') then
                   (let unlock = tp_unlock ps (js_get n ''report'') finished
                    in update_target agent
                         [(''nq_url'', js_get r ''report_url''), (''nq_report'', js_get n ''report''), (''nq_updated_at'', stamp),
                          (''nq_unlock_data'', case unlock of Some u \<Rightarrow> u | None \<Rightarrow> Null),
                          (''nq_unlock_updated_at'', if unlock = None then Null else stamp), (''updated_at'', stamp)] db)
                 else update_target agent [(''nq_url'', js_get r ''report_url''), (''nq_updated_at'', stamp), (''updated_at'', stamp)] db
             | None \<Rightarrow> update_target agent [(''nq_url'', js_get r ''report_url''), (''nq_updated_at'', stamp), (''updated_at'', stamp)] db)
          else if tn_action plan = ''backroute'' then
            (if route_summary r = [] then db
             else update_target agent [(''backroute_data'', Arr (route_summary r)), (''backroute_updated_at'', stamp), (''updated_at'', stamp)] db)
          else if tn_action plan = ''ip_unlock'' then
            (case js_get r ''services'' of
               Arr services \<Rightarrow>
                 update_target agent
                   [(''unlock_data'', Obj [(''checked_at'', stamp), (''source'', Str ''IP.Check.Place''), (''services'', Arr services)]),
                    (''unlock_updated_at'', stamp), (''updated_at'', stamp)] db
             | _ \<Rightarrow> db)
          else db)"

definition complete_agent_task ::
  "task_parsers \<Rightarrow> (jsval \<Rightarrow> string) \<Rightarrow> gap \<Rightarrow> int \<Rightarrow> jsval option \<Rightarrow> string \<Rightarrow> jsval \<Rightarrow> task_db \<Rightarrow> task_db \<times> (request_error + task_view)" where
  "complete_agent_task ps report_url gap finished body i agent db =
     (case task_row i (kb_tasks db) of
        None \<Rightarrow> (db, Inl Task_missing)
      | Some row \<Rightarrow>
          if sanitize_agent_id (Str (tk_agent row)) \<noteq> sanitize_agent_id agent then (db, Inl Task_missing)
          else if tk_status row \<noteq> Running then (db, Inl Not_running)
          else case body of
            None \<Rightarrow> (db, Inl Bad_body)
          | Some b \<Rightarrow>
              (case plan_completion ps finished b row of
                 Inl e \<Rightarrow> (db, Inl e)
               | Inr plan \<Rightarrow>
                   (let db1 = gap 0 db;
                        (ts, changes) = sql_commit i (tk_agent row) (tn_seen plan) (tn_outcome plan) (kb_tasks db1);
                        db2 = set_tasks ts db1
                    in if changes < 1 then
                         (case task_row i (kb_tasks db2) of
                            None \<Rightarrow> (db2, Inl Task_missing)
                          | Some current \<Rightarrow>
                              if sanitize_agent_id (Str (tk_agent current)) \<noteq> sanitize_agent_id agent then (db2, Inl Task_missing)
                              else (db2, Inr (task_for_admin report_url current)))
                       else (apply_result ps finished plan (gap 1 db2),
                             Inr (task_for_admin report_url
                               (row\<lparr> tk_status := ou_status (tn_outcome plan), tk_finished := Some finished,
                                     tk_result := ou_result (tn_outcome plan), tk_error := ou_error (tn_outcome plan),
                                     tk_excerpt := ou_excerpt (tn_outcome plan), tk_version := ou_version (tn_outcome plan) \<rparr>))))))"

section \<open>Cancelling\<close>

definition cancel_agent_task ::
  "(jsval \<Rightarrow> string) \<Rightarrow> gap \<Rightarrow> int \<Rightarrow> string \<Rightarrow> task_db \<Rightarrow> task_db \<times> (request_error + task_view)" where
  "cancel_agent_task report_url gap now i db =
     (case task_row i (kb_tasks db) of
        None \<Rightarrow> (db, Inl Task_missing)
      | Some row \<Rightarrow>
          let db1 = gap 0 db in
          if tk_status row = Queued then
            (let (ts, changes) = sql_cancel_queued i now (kb_tasks db1)
             in if changes < 1 then (set_tasks ts db1, Inl Not_stoppable)
                else (set_tasks ts db1, Inr (task_for_admin report_url
                       (row\<lparr> tk_status := Cancelled, tk_cancel := Some now, tk_finished := Some now \<rparr>))))
          else if tk_status row = Running then
            (let (ts, changes) = sql_cancel_running i now (kb_tasks db1); db2 = set_tasks ts db1
             in if changes < 1 then (db2, Inl Not_stoppable)
                else case task_row i (kb_tasks (gap 1 db2)) of
                  None \<Rightarrow> (gap 1 db2, Inl Crashed)
                | Some updated \<Rightarrow> (gap 1 db2, Inr (task_for_admin report_url updated)))
          else (db1, Inl Task_finished))"

definition agent_task_cancel_status :: "gap \<Rightarrow> int \<Rightarrow> jsval \<Rightarrow> string \<Rightarrow> task_db \<Rightarrow> task_db \<times> (request_error + bool \<times> task_status)" where
  "agent_task_cancel_status gap now agent i db =
     (case task_row i (kb_tasks db) of
        None \<Rightarrow> (db, Inl Task_missing)
      | Some row \<Rightarrow>
          if sanitize_agent_id (Str (tk_agent row)) \<noteq> sanitize_agent_id agent then (db, Inl Task_missing)
          else (let db1 = gap 0 db;
                    db2 = (if tk_status row = Running \<and> (case tk_runner row of Some (c # r) \<Rightarrow> True | _ \<Rightarrow> False)
                           then set_tasks (sql_heartbeat i now (kb_tasks db1)) db1 else db1)
                in (db2, Inr (cancel_asked row \<or> tk_status row = Cancelled, tk_status row))))"

section \<open>Retention\<close>

definition agent_task_retention_days :: int where "agent_task_retention_days = 30"
definition agent_task_cleanup_batch :: nat where "agent_task_cleanup_batch = 500"
definition agent_task_cleanup_max_batches :: nat where "agent_task_cleanup_max_batches = 20"

definition retention_days_of :: "jsval \<Rightarrow> int" where
  "retention_days_of v =
     (case js_Number v of
        Fin q \<Rightarrow> if 0 < q then min 365 \<lfloor>q\<rfloor> else agent_task_retention_days
      | _ \<Rightarrow> agent_task_retention_days)"

definition cleanup_due :: "int \<Rightarrow> task \<Rightarrow> bool" where
  "cleanup_due cutoff t \<longleftrightarrow>
     \<not> is_active_task t \<and> (case tk_finished t of Some f \<Rightarrow> f < cutoff | None \<Rightarrow> False)"

record cleanup_report =
  cr_deleted :: nat
  cr_batches :: nat
  cr_truncated :: bool

text \<open>The loop with \<open>left\<close> batches to go\<close>

fun cleanup_loop :: "int \<Rightarrow> nat \<Rightarrow> task list \<Rightarrow> cleanup_report \<Rightarrow> task list \<times> cleanup_report" where
  "cleanup_loop cutoff 0 ts r = (ts, r)"
| "cleanup_loop cutoff (Suc left) ts r =
     (let (ts', changes) = sql_delete (cleanup_due cutoff) agent_task_cleanup_batch ts;
          r' = r\<lparr> cr_deleted := cr_deleted r + changes, cr_batches := cr_batches r + 1 \<rparr>
      in if changes < agent_task_cleanup_batch then (ts', r'\<lparr> cr_truncated := False \<rparr>)
         else cleanup_loop cutoff left ts' (r'\<lparr> cr_truncated := True \<rparr>))"

definition cleanup_finished_agent_tasks :: "jsval \<Rightarrow> int \<Rightarrow> task list \<Rightarrow> task list \<times> cleanup_report" where
  "cleanup_finished_agent_tasks retention now ts =
     cleanup_loop (now - retention_days_of retention * 86400) agent_task_cleanup_max_batches ts
       \<lparr> cr_deleted = 0, cr_batches = 0, cr_truncated = False \<rparr>"

end
