(* ===== verification/AgentTaskLife.thy ===== *)
theory AgentTaskLife
  imports AgentTasks
begin

text \<open>
  The life of a task under any interleaving of the requests of \<open>AgentTasks\<close>. A run is a sequence of SQL
  statements as the handlers issue them; each handler, whatever happens while it waits, is such a sequence.
  Shown: one active task per Agent, a finished task stays as it is, a cancelled task ends as cancelled and
  within the grace period, a task is handed to one runner only, and the clean-up removes old finished rows only.
\<close>

section \<open>Runs of statements\<close>

datatype statement =
    Insert_row task
  | Expire_rows "string list" int
  | Stale_rows "string list" int
  | Recover_rows "string list" int string
  | Claim_row string "string list" int string
  | Commit_row string string int task_outcome
  | Cancel_queued string int
  | Cancel_running string int
  | Heartbeat_row string int
  | Clean_rows int
  | Forget_agent "string list"

fun run_statement :: "statement \<Rightarrow> task list \<Rightarrow> task list" where
  "run_statement (Insert_row t) ts = (case sql_insert t ts of Some us \<Rightarrow> us | None \<Rightarrow> ts)"
| "run_statement (Expire_rows ids now) ts = sql_expire ids now ts"
| "run_statement (Stale_rows ids now) ts = sql_stale ids now ts"
| "run_statement (Recover_rows ids now runner) ts = sql_recover ids now runner ts"
| "run_statement (Claim_row i ids now runner) ts = fst (sql_claim i ids now runner ts)"
| "run_statement (Commit_row i agent seen out) ts = fst (sql_commit i agent seen out ts)"
| "run_statement (Cancel_queued i now) ts = fst (sql_cancel_queued i now ts)"
| "run_statement (Cancel_running i now) ts = fst (sql_cancel_running i now ts)"
| "run_statement (Heartbeat_row i now) ts = sql_heartbeat i now ts"
| "run_statement (Clean_rows cutoff) ts = fst (sql_delete (cleanup_due cutoff) agent_task_cleanup_batch ts)"
| "run_statement (Forget_agent ids) ts = filter (\<lambda>t. tk_agent t \<notin> set ids) ts"

text \<open>What the handlers see to: fresh rows are queued, the verdict follows the cancellation that was read\<close>

fun statement_ok :: "statement \<Rightarrow> bool" where
  "statement_ok (Insert_row t) =
     (tk_status t = Queued \<and> tk_finished t = None \<and> tk_cancel t = None \<and> tk_claimed t = None)"
| "statement_ok (Commit_row i agent seen out) =
     (if 0 < seen then ou_status out = Cancelled else ou_status out \<in> {Succeeded, Failed})"
| "statement_ok (Cancel_queued i now) = (0 < now)"
| "statement_ok (Cancel_running i now) = (0 < now)"
| "statement_ok _ = True"

inductive task_run :: "statement list \<Rightarrow> task list \<Rightarrow> task list \<Rightarrow> bool" where
  Start: "task_run [] ts ts"
| Step: "task_run sts ts us \<Longrightarrow> statement_ok st \<Longrightarrow> task_run (sts @ [st]) ts (run_statement st us)"

inductive_cases task_run_NilE: "task_run [] ts us"

lemma task_run_one: "statement_ok st \<Longrightarrow> task_run [st] ts (run_statement st ts)"
  using task_run.Step [OF task_run.Start] by simp

lemma task_run_append: "task_run ys us vs \<Longrightarrow> task_run xs ts us \<Longrightarrow> task_run (xs @ ys) ts vs"
  by (induction rule: task_run.induct) (auto simp flip: append_assoc intro: task_run.intros)

definition inserts :: "string \<Rightarrow> statement \<Rightarrow> bool" where
  "inserts i st = (case st of Insert_row t \<Rightarrow> tk_id t = i | _ \<Rightarrow> False)"

section \<open>What a statement may do to a row\<close>

definition row_ok :: "task \<Rightarrow> bool" where
  "row_ok t \<longleftrightarrow>
     (is_active_task t \<longleftrightarrow> tk_finished t = None) \<and>
     (case tk_cancel t of Some c \<Rightarrow> 0 < c | None \<Rightarrow> True) \<and>
     (tk_status t = Queued \<longrightarrow> \<not> cancel_asked t) \<and>
     (tk_status t = Running \<longrightarrow> tk_claimed t \<noteq> None) \<and>
     (\<not> is_active_task t \<longrightarrow> (tk_status t = Cancelled) = cancel_asked t)"

definition row_advance :: "task \<Rightarrow> task \<Rightarrow> bool" where
  "row_advance t u \<longleftrightarrow>
     tk_id u = tk_id t \<and> tk_agent u = tk_agent t \<and> tk_requested u = tk_requested t \<and> tk_expires u \<le> tk_expires t \<and>
     (u \<noteq> t \<longrightarrow> is_active_task t) \<and> (tk_status u = Queued \<longrightarrow> tk_status t = Queued) \<and>
     (cancel_asked t \<longrightarrow> cancel_asked u) \<and> (row_ok t \<longrightarrow> row_ok u)"

lemma row_advance_refl [simp]: "row_advance t t"
  by (simp add: row_advance_def)

lemma active_advance: "row_advance t u \<Longrightarrow> is_active_task u \<Longrightarrow> is_active_task t"
  by (auto simp: row_advance_def)

lemmas row_defs = row_ok_def is_active_task_def cancel_asked_def close_task_def asked_at_def first_cancel_def

lemma close_advance:
  assumes "is_active_task t" "status \<in> {Failed, Expired}"
  shows "row_advance t (close_task status fault now t)"
  using assms by (auto simp: row_advance_def row_defs split: option.splits if_splits)

lemma claim_advance:
  "tk_status t = Queued \<Longrightarrow> row_advance t (t\<lparr> tk_status := Running, tk_claimed := Some now, tk_runner := r, tk_heartbeat := h \<rparr>)"
  by (auto simp: row_advance_def row_defs split: option.splits)

lemma commit_advance:
  assumes "tk_status t = Running" "asked_at t = seen" "if 0 < seen then ou_status out = Cancelled else ou_status out \<in> {Succeeded, Failed}"
  shows "row_advance t (t\<lparr> tk_status := ou_status out, tk_finished := Some (ou_finished out), tk_result := ou_result out,
              tk_error := ou_error out, tk_excerpt := ou_excerpt out, tk_version := ou_version out \<rparr>)"
  using assms by (auto simp: row_advance_def row_defs split: option.splits if_splits)

lemma cancel_queued_advance:
  "tk_status t = Queued \<Longrightarrow> 0 < now \<Longrightarrow>
   row_advance t (t\<lparr> tk_status := Cancelled, tk_cancel := first_cancel now t, tk_finished := Some now \<rparr>)"
  by (auto simp: row_advance_def row_defs split: option.splits)

lemma cancel_running_advance:
  "tk_status t = Running \<Longrightarrow> 0 < now \<Longrightarrow> row_advance t (t\<lparr> tk_cancel := first_cancel now t, tk_expires := min (tk_expires t) e \<rparr>)"
  by (auto simp: row_advance_def row_defs split: option.splits)

lemma heartbeat_advance: "tk_status t = Running \<Longrightarrow> row_advance t (t\<lparr> tk_heartbeat := h \<rparr>)"
  by (auto simp: row_advance_def row_defs)

text \<open>An update leads every row to its successor\<close>

lemma sql_update_advance:
  assumes "\<And>t. P t \<Longrightarrow> row_advance t (f t)"
  shows "list_all2 row_advance ts (fst (sql_update P f ts))"
  using assms by (induction ts) (auto simp: sql_update_def)

lemma sql_delete_subset: "set (fst (sql_delete P n ts)) \<subseteq> set ts"
  by (induction P n ts rule: sql_delete.induct) (auto simp: Let_def split: prod.splits if_splits)

lemma sql_delete_sublist: "distinct (map g ts) \<Longrightarrow> distinct (map g (fst (sql_delete P n ts)))"
proof (induction P n ts rule: sql_delete.induct)
  case (3 P n t ts)
  have "set (fst (sql_delete P m ts)) \<subseteq> set ts" for m by (rule sql_delete_subset)
  then show ?case using 3 by (auto simp: Let_def split: prod.splits) (metis fst_conv image_iff subsetD)
qed auto

definition is_update :: "statement \<Rightarrow> bool" where
  "is_update st \<longleftrightarrow> (case st of Insert_row _ \<Rightarrow> False | Clean_rows _ \<Rightarrow> False | Forget_agent _ \<Rightarrow> False | _ \<Rightarrow> True)"

lemma update_advance:
  assumes "statement_ok st" "is_update st"
  shows "list_all2 row_advance ts (run_statement st ts)"
proof (cases st)
  case (Expire_rows ids now)
  then show ?thesis by (simp add: sql_expire_def) (rule sql_update_advance, auto intro!: close_advance)
next
  case (Stale_rows ids now)
  then show ?thesis
    by (simp add: sql_stale_def) (rule sql_update_advance, auto simp: is_active_task_def intro!: close_advance)
next
  case (Recover_rows ids now r)
  then show ?thesis
    by (simp add: sql_recover_def) (rule sql_update_advance, auto simp: is_active_task_def intro!: close_advance)
next
  case (Claim_row i ids now r)
  then show ?thesis
    by (simp only: run_statement.simps sql_claim_def) (rule sql_update_advance, auto intro!: claim_advance)
next
  case (Commit_row i agent seen out)
  then show ?thesis using assms(1)
    by (simp only: run_statement.simps sql_commit_def statement_ok.simps) (rule sql_update_advance, rule commit_advance, auto)
next
  case (Cancel_queued i now)
  then show ?thesis using assms(1)
    by (simp add: sql_cancel_queued_def) (rule sql_update_advance, auto intro!: cancel_queued_advance)
next
  case (Cancel_running i now)
  then show ?thesis using assms(1)
    by (simp add: sql_cancel_running_def) (rule sql_update_advance, auto intro!: cancel_running_advance)
next
  case (Heartbeat_row i now)
  then show ?thesis by (simp add: sql_heartbeat_def) (rule sql_update_advance, auto intro!: heartbeat_advance)
qed (use assms in \<open>simp_all add: is_update_def\<close>)

text \<open>Every statement keeps rows, lets them advance, drops some, or adds one new queued row\<close>

lemma run_statement_rows:
  assumes "statement_ok st" "u \<in> set (run_statement st ts)"
  shows "(\<exists>t \<in> set ts. row_advance t u) \<or> st = Insert_row u"
proof (cases "is_update st")
  case True
  then show ?thesis using update_advance [OF assms(1)] assms(2) by (metis in_set_conv_nth list_all2_conv_all_nth)
next
  case False
  have "u \<in> set ts \<or> u = t" if "st = Insert_row t" for t
    using assms(2) that by (auto simp: sql_insert_def split: if_splits)
  moreover have "u \<in> set ts" if "st = Clean_rows cutoff \<or> st = Forget_agent ids" for cutoff ids
    using assms(2) that sql_delete_subset [of "cleanup_due cutoff" agent_task_cleanup_batch ts] by auto
  ultimately have "u \<in> set ts \<or> st = Insert_row u" using False by (cases st) (auto simp: is_update_def)
  then show ?thesis using row_advance_refl [of u] by blast
qed

section \<open>The invariant of the table\<close>

definition table_ok :: "task list \<Rightarrow> bool" where
  "table_ok ts \<longleftrightarrow> distinct (map tk_id ts) \<and> distinct (map tk_agent (filter is_active_task ts)) \<and> list_all row_ok ts"

lemma active_agents_advance:
  assumes "list_all2 row_advance ts us" "distinct (map tk_agent (filter is_active_task ts))"
  shows "distinct (map tk_agent (filter is_active_task us)) \<and>
         set (map tk_agent (filter is_active_task us)) \<subseteq> set (map tk_agent (filter is_active_task ts))"
  using assms
proof (induction rule: list_all2_induct)
  case (Cons t ts u us)
  then have "tk_agent u = tk_agent t" "is_active_task u \<longrightarrow> is_active_task t"
    by (auto simp: row_advance_def)
  with Cons show ?case by (auto split: if_splits)
qed simp

lemma table_ok_advance:
  assumes "list_all2 row_advance ts us" "table_ok ts"
  shows "table_ok us"
proof -
  have "map tk_id us = map tk_id ts"
    using assms(1) by (induction rule: list_all2_induct) (simp_all add: row_advance_def)
  moreover have "list_all row_ok us"
    using assms by (auto simp: table_ok_def list_all_length list_all2_conv_all_nth row_advance_def)
  ultimately show ?thesis using active_agents_advance [OF assms(1)] assms(2) by (simp add: table_ok_def)
qed

lemma distinct_map_filter_active:
  assumes "distinct (map g (filter Q ts))"
  shows "distinct (map g (filter Q (filter P ts)))"
proof -
  have "filter Q (filter P ts) = filter P (filter Q ts)" by (simp add: conj_commute)
  then show ?thesis using distinct_map_filter [OF assms, of P] by (simp only:)
qed

lemma active_after_delete:
  "(\<And>t. P t \<Longrightarrow> \<not> is_active_task t) \<Longrightarrow> filter is_active_task (fst (sql_delete P n ts)) = filter is_active_task ts"
  by (induction P n ts rule: sql_delete.induct) (auto simp: Let_def split: prod.splits)

lemma table_ok_insert:
  assumes "table_ok ts" "statement_ok (Insert_row t)" "sql_insert t ts = Some us"
  shows "table_ok us"
proof -
  have "\<not> list_ex (\<lambda>u. tk_id u = tk_id t \<or> is_active_task t \<and> is_active_task u \<and> tk_agent u = tk_agent t) ts" "us = ts @ [t]"
    using assms(3) by (auto simp: sql_insert_def split: if_splits)
  moreover have "row_ok t" "is_active_task t" using assms(2) by (auto simp: row_defs)
  ultimately show ?thesis using assms(1) by (auto simp: table_ok_def list_ex_iff)
qed

lemma run_statement_table_ok:
  assumes "table_ok ts" "statement_ok st"
  shows "table_ok (run_statement st ts)"
proof (cases "is_update st")
  case True
  then show ?thesis using table_ok_advance [OF update_advance] assms by blast
next
  case False
  have "table_ok (run_statement (Insert_row t) ts)" if "statement_ok (Insert_row t)" for t
    using assms(1) that table_ok_insert by (auto simp del: statement_ok.simps split: option.splits)
  moreover have "table_ok (run_statement (Clean_rows cutoff) ts)" for cutoff
  proof -
    have "filter is_active_task (fst (sql_delete (cleanup_due cutoff) agent_task_cleanup_batch ts)) = filter is_active_task ts"
      by (rule active_after_delete) (simp add: cleanup_due_def)
    then show ?thesis using assms(1) sql_delete_sublist [of tk_id ts] sql_delete_subset [of "cleanup_due cutoff" _ ts]
      by (auto simp: table_ok_def list_all_iff subset_iff)
  qed
  moreover have "table_ok (run_statement (Forget_agent ids) ts)" for ids
    using assms(1) distinct_map_filter_active [of tk_agent is_active_task ts "\<lambda>t. tk_agent t \<notin> set ids"]
    by (auto simp: table_ok_def list_all_iff distinct_map_filter)
  ultimately show ?thesis using False assms(2) by (cases st) (auto simp: is_update_def)
qed

lemma task_run_table_ok: "task_run sts ts us \<Longrightarrow> table_ok ts \<Longrightarrow> table_ok us"
  by (induction rule: task_run.induct) (auto intro: run_statement_table_ok)

lemma table_ok_Nil [simp]: "table_ok []"
  by (simp add: table_ok_def)

lemmas reachable_table_ok = task_run_table_ok [OF _ table_ok_Nil]

text \<open>A row of the end is a new one or continues one of the start\<close>

lemma task_run_rows:
  assumes "task_run sts ts us" "u \<in> set us" "list_all (\<lambda>st. \<not> inserts (tk_id u) st) sts"
  shows "\<exists>t \<in> set ts. tk_id t = tk_id u \<and> (u \<noteq> t \<longrightarrow> is_active_task t) \<and> tk_expires u \<le> tk_expires t
           \<and> (tk_status u = Queued \<longrightarrow> tk_status t = Queued) \<and> (cancel_asked t \<longrightarrow> cancel_asked u) \<and> tk_agent u = tk_agent t"
  using assms
proof (induction arbitrary: u rule: task_run.induct)
  case (Step sts ts us st)
  from run_statement_rows [OF Step.hyps(2) Step.prems(1)] Step.prems(2)
  obtain v where v: "v \<in> set us" "row_advance v u" by (auto simp: inserts_def)
  then have "tk_id v = tk_id u" by (simp add: row_advance_def)
  then obtain t where "t \<in> set ts" "tk_id t = tk_id v" "v \<noteq> t \<longrightarrow> is_active_task t" "tk_expires v \<le> tk_expires t"
      "tk_status v = Queued \<longrightarrow> tk_status t = Queued" "cancel_asked t \<longrightarrow> cancel_asked v" "tk_agent v = tk_agent t"
    using Step.IH [OF v(1)] Step.prems(2) by auto
  then show ?case using v(2) by (intro bexI [of _ t]) (auto simp: row_advance_def)
qed auto

section \<open>The handlers are runs\<close>

definition runs_to :: "task list \<Rightarrow> task list \<Rightarrow> bool" where
  "runs_to ts us \<longleftrightarrow> (\<exists>sts. task_run sts ts us)"

lemma runs_to_refl [simp, intro]: "runs_to ts ts"
  unfolding runs_to_def using task_run.Start by blast

lemma runs_to_trans [trans]: "runs_to ts us \<Longrightarrow> runs_to us vs \<Longrightarrow> runs_to ts vs"
  unfolding runs_to_def using task_run_append by blast

lemma runs_to_statement: "statement_ok st \<Longrightarrow> runs_to ts (run_statement st ts)"
  unfolding runs_to_def using task_run_one by blast

text \<open>While a handler waits, the others issue statements of the same kind\<close>

definition orderly :: "gap \<Rightarrow> bool" where
  "orderly gap \<longleftrightarrow> (\<forall>n db. runs_to (kb_tasks db) (kb_tasks (gap n db)))"

lemma orderlyD: "orderly gap \<Longrightarrow> runs_to (kb_tasks db) (kb_tasks (gap n db))"
  by (simp add: orderly_def)

lemma tasks_of_set_tasks [simp]: "kb_tasks (set_tasks ts db) = ts"
  by (simp add: set_tasks_def)

lemma tasks_of_touch [simp]: "kb_tasks (touch_agent_manager_contact v now db) = kb_tasks db"
  by (simp add: touch_agent_manager_contact_def Let_def split: option.split)

lemma tasks_of_apply_result [simp]: "kb_tasks (apply_result ps finished plan db) = kb_tasks db"
  by (simp add: apply_result_def Let_def update_target_def split: option.split jsval.split)

lemma runs_to_after: "runs_to (kb_tasks db) ts \<Longrightarrow> orderly gap \<Longrightarrow> runs_to (kb_tasks db) (kb_tasks (gap n (set_tasks ts db)))"
  using runs_to_trans orderlyD [of gap "set_tasks ts db" n] by simp

lemma runs_to_gap: "runs_to ts (kb_tasks db) \<Longrightarrow> orderly gap \<Longrightarrow> runs_to ts (kb_tasks (gap n db))"
  using runs_to_trans orderlyD by blast

lemma runs_to_insert: "sql_insert t us = Some vs \<Longrightarrow> statement_ok (Insert_row t) \<Longrightarrow> runs_to ts us \<Longrightarrow> runs_to ts vs"
  using runs_to_trans runs_to_statement [of "Insert_row t" us] by (simp del: statement_ok.simps)

lemma create_runs:
  assumes "orderly gap"
  shows "runs_to (kb_tasks db) (kb_tasks (fst (create_agent_task_for_agent env gap clk i agent action options db)))"
proof -
  have 1: "runs_to (kb_tasks db) (kb_tasks (gap 0 db))" by (rule runs_to_gap [OF runs_to_refl assms])
  then have 2: "runs_to (kb_tasks db) (kb_tasks (gap 1 (gap 0 db)))" by (rule runs_to_gap [OF _ assms])
  show ?thesis
    unfolding create_agent_task_for_agent_def Let_def
    using 1 2 by (auto simp: new_task_def intro: runs_to_insert split: option.split)
qed

lemma create_each_runs:
  assumes "\<And>k. orderly (gap k)"
  shows "runs_to (kb_tasks (fst s)) (kb_tasks (fst (create_each env gap clk fresh action options k agents s)))"
proof (induction agents arbitrary: k s)
  case (Cons agent agents)
  obtain db r where s: "s = (db, r)" by (rule prod.exhaust)
  obtain db' x where c: "create_agent_task_for_agent env (gap k) (clk k) (fresh k) agent action options db = (db', x)"
    by (rule prod.exhaust)
  have "runs_to (kb_tasks db) (kb_tasks (fst (create_agent_task_for_agent env (gap k) (clk k) (fresh k) agent action options db)))"
    by (rule create_runs [OF assms])
  then have "runs_to (kb_tasks db) (kb_tasks db')" by (simp add: c)
  then show ?case unfolding s create_each.simps c prod.case
    by (cases x) (auto intro: runs_to_trans [OF _ Cons.IH [of "(db', r')" for r', simplified]])
qed simp

lemma create_task_runs:
  assumes "\<And>k. orderly (gap k)"
  shows "runs_to (kb_tasks db) (kb_tasks (fst (create_agent_task env gap clk fresh body db)))"
proof -
  have bulk: "runs_to (kb_tasks db) (kb_tasks (fst (create_agent_tasks env gap clk fresh values action options db)))" for "values" action options
    using create_each_runs [OF assms, of "(db, r)" for r]
    by (simp add: create_agent_tasks_def Let_def case_prod_beta)
  have one: "runs_to (kb_tasks db) (kb_tasks (fst (create_agent_task_for_agent env (gap 0) (clk 0) (fresh 0) agent action options db)))"
    for agent action options by (rule create_runs [OF assms])
  show ?thesis using bulk one
    by (simp add: create_agent_task_def Let_def case_prod_beta split: jsval.split)
qed

lemma expire_runs:
  assumes "orderly gap"
  shows "runs_to (kb_tasks db) (kb_tasks (expire_stale_tasks gap now agent db))"
proof -
  let ?ids = "if js_truthy agent then agent_task_ids agent db else []"
  have "runs_to (kb_tasks db) (sql_expire ?ids now (kb_tasks db))"
    using runs_to_statement [of "Expire_rows ?ids now"] by simp
  then have "runs_to (kb_tasks db) (kb_tasks (gap 0 (set_tasks (sql_expire ?ids now (kb_tasks db)) db)))"
    by (rule runs_to_after [OF _ assms])
  also have "runs_to \<dots> (sql_stale ?ids now \<dots>)" using runs_to_statement [of "Stale_rows ?ids now"] by simp
  finally show ?thesis by (simp add: expire_stale_tasks_def Let_def)
qed

lemma recover_runs: "runs_to (kb_tasks db) (kb_tasks (recover_orphaned_running_tasks ids now runner db))"
  using runs_to_statement [of "Recover_rows ids now runner"] by (simp add: recover_orphaned_running_tasks_def)

lemma sweep_runs:
  assumes "orderly gap"
  shows "runs_to (kb_tasks db) (kb_tasks (claim_sweep gap clk agent ids runner db))"
proof -
  have g: "orderly (\<lambda>_. gap 0)" using assms by (simp add: orderly_def)
  show ?thesis unfolding claim_sweep_def
    by (rule runs_to_trans [OF runs_to_gap [OF expire_runs [OF g] assms] recover_runs])
qed

lemma claim_step_runs: "runs_to ts us \<Longrightarrow> runs_to ts (fst (sql_claim i ids now runner us))"
  using runs_to_trans runs_to_statement [of "Claim_row i ids now runner" us] by simp

lemma claim_runs:
  assumes "orderly gap"
  shows "runs_to (kb_tasks db) (kb_tasks (fst (claim_agent_task gap clk agent allowed runner db)))"
proof -
  define raw where "raw = Str (js_trim (str_or_empty agent))"
  define db1 where "db1 = touch_agent_manager_contact raw (clk 0) db"
  define ids where "ids = agent_task_ids raw db1"
  define r where "r = normalize_runner_instance_id runner"
  define db2 where "db2 = gap 2 (claim_sweep gap clk raw ids r db1)"
  have 1: "kb_tasks db1 = kb_tasks db" by (simp add: db1_def)
  have 2: "runs_to (kb_tasks db) (kb_tasks db2)"
    unfolding db2_def 1 [symmetric] by (rule runs_to_gap [OF sweep_runs [OF assms] assms])
  have 3: "runs_to (kb_tasks db) (kb_tasks (gap 3 db2))" by (rule runs_to_gap [OF 2 assms])
  have 4: "runs_to (kb_tasks db) (kb_tasks (gap 4 (set_tasks (fst (sql_claim i ids now r (kb_tasks (gap 3 db2)))) (gap 3 db2))))" for i now
    by (rule runs_to_gap [OF _ assms]) (simp add: claim_step_runs [OF 3])
  have e: "claim_agent_task gap clk agent allowed runner db =
      (if sanitize_agent_id raw = [] then (db, Inl Missing_agent)
       else case normalize_allowed_actions allowed of Inl e \<Rightarrow> (db1, Inl e)
         | Inr actions \<Rightarrow> (case oldest_queued ids actions (clk 3) (kb_tasks db2) of None \<Rightarrow> (db2, Inr No_task)
             | Some t \<Rightarrow> (let db3 = gap 3 db2; (ts, changes) = sql_claim (tk_id t) ids (clk 4) r (kb_tasks db3)
                            in if changes < 1 then (db3, Inr No_task)
                               else let db4 = gap 4 (set_tasks ts db3) in (db4, claim_reply_of (task_row (tk_id t) (kb_tasks db4))))))"
    unfolding claim_agent_task_def Let_def raw_def db1_def ids_def r_def db2_def by (rule refl)
  show ?thesis
  proof (cases "normalize_allowed_actions allowed")
    case (Inl e')
    then show ?thesis by (simp add: e 1)
  next
    case (Inr actions)
    show ?thesis
    proof (cases "oldest_queued ids actions (clk 3) (kb_tasks db2)")
      case None
      then show ?thesis using 2 by (simp only: e Inr sum.case option.case if_split fst_conv) (simp add: 1)
    next
      case (Some t)
      obtain ts changes where c: "sql_claim (tk_id t) ids (clk 4) r (kb_tasks (gap 3 db2)) = (ts, changes)" by (rule prod.exhaust)
      have r: "fst (claim_agent_task gap clk agent allowed runner db) =
          (if sanitize_agent_id raw = [] then db else if changes < 1 then gap 3 db2 else gap 4 (set_tasks ts (gap 3 db2)))"
        by (simp only: e Inr Some sum.case option.case Let_def c prod.case if_distrib [of fst] fst_conv)
      have "runs_to (kb_tasks db) (kb_tasks (gap 4 (set_tasks ts (gap 3 db2))))" using 4 [of "tk_id t" "clk 4"] unfolding c fst_conv .
      with 3 show ?thesis unfolding r by (simp only: runs_to_refl if_split_asm split: if_split) blast
    qed
  qed
qed

lemma list_runs:
  assumes "orderly gap"
  shows "runs_to (kb_tasks db) (kb_tasks (fst (list_agent_tasks url gap now agent limit db)))"
  using expire_runs [OF assms] by (auto simp: list_agent_tasks_def Let_def split: jsnum.split)

lemma cancel_asked_at: "cancel_asked t \<longleftrightarrow> 0 < asked_at t"
  by (simp add: cancel_asked_def asked_at_def split: option.split)

lemma LetE: "(let x = a in f x) = y \<Longrightarrow> (\<And>x. f x = y \<Longrightarrow> thesis) \<Longrightarrow> thesis"
  by (simp add: Let_def)

lemma choice_LetE: "(if b then Inl e else f) = Inr y \<Longrightarrow> (f = Inr y \<Longrightarrow> thesis) \<Longrightarrow> thesis"
  by (cases b) simp_all

lemma pair_LetE: "(case p of (x, y) \<Rightarrow> f x y) = z \<Longrightarrow> (\<And>x y. f x y = z \<Longrightarrow> thesis) \<Longrightarrow> thesis"
  by (cases p) simp

text \<open>Only the status and the cancellation that was read matter here, so the other values are forgotten\<close>

lemma plan_completion_ok:
  assumes "plan_completion ps finished body row = Inr plan"
  shows "statement_ok (Commit_row i (tk_agent row) (tn_seen plan) (tn_outcome plan))"
proof -
  from assms obtain fine where "ou_status (tn_outcome plan) = (if cancel_asked row then Cancelled else if fine then Succeeded else Failed)"
      "tn_seen plan = asked_at row"
    unfolding plan_completion_def
    apply (subst (asm) (2) Let_def)
    apply (elim LetE choice_LetE pair_LetE)
    apply (drule sym)
    apply simp
    done
  then show ?thesis by (simp add: cancel_asked_at)
qed

lemma complete_runs:
  assumes "orderly gap"
  shows "runs_to (kb_tasks db) (kb_tasks (fst (complete_agent_task ps url gap finished body i agent db)))"
proof -
  have 1: "runs_to (kb_tasks db) (kb_tasks (gap 0 db))" by (rule runs_to_gap [OF runs_to_refl assms])
  have 2: "runs_to (kb_tasks db) (fst (sql_commit i (tk_agent row) (tn_seen plan) (tn_outcome plan) (kb_tasks (gap 0 db))))"
    if "plan_completion ps finished b row = Inr plan" for b row plan
    using runs_to_trans [OF 1 runs_to_statement [OF plan_completion_ok [OF that]]] by simp
  have 3: "runs_to (kb_tasks db) (kb_tasks (gap 1 (set_tasks (fst (sql_commit i (tk_agent row) (tn_seen plan) (tn_outcome plan) (kb_tasks (gap 0 db)))) (gap 0 db))))"
    if "plan_completion ps finished b row = Inr plan" for b row plan
    by (rule runs_to_gap [OF _ assms]) (simp add: 2 [OF that])
  show ?thesis
    unfolding complete_agent_task_def Let_def
    using 1 2 3 by (simp add: case_prod_beta del: One_nat_def split: option.split sum.split)
qed

lemma cancel_runs:
  assumes "orderly gap" "0 < now"
  shows "runs_to (kb_tasks db) (kb_tasks (fst (cancel_agent_task url gap now i db)))"
proof -
  have 1: "runs_to (kb_tasks db) (kb_tasks (gap 0 db))" by (rule runs_to_gap [OF runs_to_refl assms(1)])
  have 2: "runs_to (kb_tasks db) (fst (sql_cancel_queued i now (kb_tasks (gap 0 db))))"
    using runs_to_trans [OF 1 runs_to_statement [of "Cancel_queued i now"]] assms(2) by simp
  have 3: "runs_to (kb_tasks db) (fst (sql_cancel_running i now (kb_tasks (gap 0 db))))"
    using runs_to_trans [OF 1 runs_to_statement [of "Cancel_running i now"]] assms(2) by simp
  have 4: "runs_to (kb_tasks db) (kb_tasks (gap 1 (set_tasks (fst (sql_cancel_running i now (kb_tasks (gap 0 db)))) (gap 0 db))))"
    by (rule runs_to_gap [OF _ assms(1)]) (simp add: 3)
  show ?thesis
    unfolding cancel_agent_task_def Let_def
    using 1 2 3 4 by (simp add: case_prod_beta del: One_nat_def split: option.split)
qed

lemma cancel_status_runs:
  assumes "orderly gap"
  shows "runs_to (kb_tasks db) (kb_tasks (fst (agent_task_cancel_status gap now agent i db)))"
proof -
  have 1: "runs_to (kb_tasks db) (kb_tasks (gap 0 db))" by (rule runs_to_gap [OF runs_to_refl assms])
  then have "runs_to (kb_tasks db) (sql_heartbeat i now (kb_tasks (gap 0 db)))"
    using runs_to_trans runs_to_statement [of "Heartbeat_row i now" "kb_tasks (gap 0 db)"] by simp
  with 1 show ?thesis by (auto simp: agent_task_cancel_status_def Let_def split: option.split)
qed

lemma cleanup_runs: "runs_to ts (fst (cleanup_loop cutoff left ts r))"
proof (induction cutoff left ts r rule: cleanup_loop.induct)
  case (2 cutoff left ts r)
  have "runs_to ts (fst (sql_delete (cleanup_due cutoff) agent_task_cleanup_batch ts))"
    using runs_to_statement [of "Clean_rows cutoff"] by simp
  with 2 show ?case by (auto simp: Let_def split: prod.splits intro: runs_to_trans)
qed simp

section \<open>Properties\<close>

definition quiet :: gap where
  "quiet n db = db"

lemma orderly_quiet [simp]: "orderly quiet"
  by (simp add: orderly_def quiet_def)

text \<open>C7: Every request that touches the tasks (create, list, claim, finish, cancel, ask for the status, clean up)
  changes the table by a run of lawful statements, whatever lawful statements the other requests issue
  while it waits. So what holds of all runs holds under any interleaving of requests.
\<close>

theorem requests_are_runs:
  assumes "orderly gap" "\<And>k. orderly (gaps k)" "0 < now"
  shows "runs_to (kb_tasks db) (kb_tasks (fst (create_agent_task env gaps clks fresh body db))) \<and>
         runs_to (kb_tasks db) (kb_tasks (fst (list_agent_tasks url gap now agent limit db))) \<and>
         runs_to (kb_tasks db) (kb_tasks (fst (claim_agent_task gap clk agent allowed runner db))) \<and>
         runs_to (kb_tasks db) (kb_tasks (fst (complete_agent_task ps url gap now result i agent db))) \<and>
         runs_to (kb_tasks db) (kb_tasks (fst (cancel_agent_task url gap now i db))) \<and>
         runs_to (kb_tasks db) (kb_tasks (fst (agent_task_cancel_status gap now agent i db))) \<and>
         runs_to (kb_tasks db) (fst (cleanup_finished_agent_tasks retention now (kb_tasks db)))"
  using create_task_runs [OF assms(2)] list_runs [OF assms(1)] claim_runs [OF assms(1)] complete_runs [OF assms(1)]
    cancel_runs [OF assms(1,3)] cancel_status_runs [OF assms(1)] cleanup_runs
  by (simp add: cleanup_finished_agent_tasks_def)

definition demo_task :: "string \<Rightarrow> string \<Rightarrow> task" where
  "demo_task i agent = new_task i agent ''ip_unlock'' None 1000 2500"

definition demo_running :: task where
  "demo_running = (demo_task ''t1'' ''a'')\<lparr> tk_status := Running, tk_claimed := Some 1100 \<rparr>"

definition demo_statements :: "statement list" where
  "demo_statements = [Insert_row (demo_task ''t1'' ''a''), Claim_row ''t1'' [''a''] 1100 []]"

lemma demo_run: "task_run demo_statements [] [demo_running]"
proof -
  have "task_run ([Insert_row (demo_task ''t1'' ''a'')] @ [Claim_row ''t1'' [''a''] 1100 []]) []
          (run_statement (Claim_row ''t1'' [''a''] 1100 []) (run_statement (Insert_row (demo_task ''t1'' ''a'')) []))"
    by (rule task_run_append [OF task_run_one task_run_one]) (simp_all add: demo_task_def new_task_def)
  moreover have "run_statement (Claim_row ''t1'' [''a''] 1100 []) (run_statement (Insert_row (demo_task ''t1'' ''a'')) []) = [demo_running]"
    by code_simp
  ultimately show ?thesis by (simp add: demo_statements_def)
qed

lemma requests_are_runs_witness:
  "runs_to [demo_running] (kb_tasks (fst (cancel_agent_task (\<lambda>_. []) quiet 1200 ''t1'' \<lparr> kb_tasks = [demo_running], kb_targets = [], kb_contacts = [] \<rparr>)))"
  using requests_are_runs [of quiet "\<lambda>_. quiet" 1200 "\<lparr> kb_tasks = [demo_running], kb_targets = [], kb_contacts = [] \<rparr>"]
  by simp

text \<open>C8: In every reachable table an Agent has at most one queued or running task, identifiers are unique, and a
  finished task counts as cancelled exactly when its cancellation was asked for, however the answers of the
  Agent, cancellations and sweeps interleave.
\<close>

theorem task_table_invariant:
  assumes "task_run sts [] ts"
  shows "distinct (map tk_agent (filter is_active_task ts)) \<and> distinct (map tk_id ts) \<and>
         (\<forall>t \<in> set ts. if is_active_task t then tk_finished t = None
                       else tk_finished t \<noteq> None \<and> (tk_status t = Cancelled \<longleftrightarrow> cancel_asked t))"
  using reachable_table_ok [OF assms] by (auto simp: table_ok_def list_all_iff row_ok_def)

lemma task_table_invariant_witness:
  "distinct (map tk_agent (filter is_active_task [demo_running]))"
  using task_table_invariant [OF demo_run] by blast

lemma advance_finished:
  assumes "task_run sts ts us" "distinct (map tk_id ts)" "t \<in> set ts" "u \<in> set us" "tk_id u = tk_id t"
    and "list_all (\<lambda>st. \<not> inserts (tk_id t) st) sts"
  shows "(u \<noteq> t \<longrightarrow> is_active_task t) \<and> tk_expires u \<le> tk_expires t \<and> (tk_status u = Queued \<longrightarrow> tk_status t = Queued)
         \<and> (cancel_asked t \<longrightarrow> cancel_asked u) \<and> tk_agent u = tk_agent t"
proof -
  have "list_all (\<lambda>st. \<not> inserts (tk_id u) st) sts" using assms(5,6) by simp
  from task_run_rows [OF assms(1,4) this] obtain v where v: "v \<in> set ts" "tk_id v = tk_id u" "u \<noteq> v \<longrightarrow> is_active_task v"
      "tk_expires u \<le> tk_expires v" "tk_status u = Queued \<longrightarrow> tk_status v = Queued" "cancel_asked v \<longrightarrow> cancel_asked u" "tk_agent u = tk_agent v"
    by blast
  have "v = t" using assms(2,3,5) v(1,2) by (auto simp: distinct_map dest: inj_onD)
  with v show ?thesis by simp
qed

text \<open>A finished task is final: as long as its row exists, no request changes anything in it (no late answer,
  sweep or cancellation), provided its identifier is not given out again.
\<close>

theorem finished_task_is_final:
  assumes "task_run sts ts us" "distinct (map tk_id ts)" "t \<in> set ts" "\<not> is_active_task t"
    and "u \<in> set us" "tk_id u = tk_id t" "list_all (\<lambda>st. \<not> inserts (tk_id t) st) sts"
  shows "u = t"
  using advance_finished [OF assms(1,2,3,5,6,7)] assms(4) by blast

definition demo_done :: task where
  "demo_done = demo_running\<lparr> tk_status := Failed, tk_finished := Some 1300 \<rparr>"

lemma finished_task_is_final_witness:
  "run_statement (Cancel_running ''t1'' 1400) [demo_done] = [demo_done]"
proof -
  have r: "task_run [Cancel_running ''t1'' 1400] [demo_done] (run_statement (Cancel_running ''t1'' 1400) [demo_done])"
    by (rule task_run_one) simp
  have d: "\<exists>u. run_statement (Cancel_running ''t1'' 1400) [demo_done] = [u] \<and> tk_id u = tk_id demo_done"
    by (simp add: sql_cancel_running_def sql_update_def demo_done_def demo_running_def)
  then obtain u where u: "run_statement (Cancel_running ''t1'' 1400) [demo_done] = [u]" "tk_id u = tk_id demo_done" by blast
  have n: "\<not> is_active_task demo_done" by code_simp
  from finished_task_is_final [OF r, of demo_done u] u n have "u = demo_done" by (simp add: inserts_def)
  with u show ?thesis by simp
qed

lemma expire_closes:
  assumes "u \<in> set (sql_expire ids now ts)" "in_scope ids u" "is_active_task u"
  shows "now < tk_expires u"
proof -
  obtain t where "t \<in> set ts" and u: "u = (if in_scope ids t \<and> is_active_task t \<and> tk_expires t \<le> now then close_task Expired None now t else t)"
    using assms(1) by (auto simp: sql_expire_def sql_update_def)
  then show ?thesis using assms(2,3)
    by (auto simp: close_task_def is_active_task_def cancel_asked_def in_scope_def split: if_splits option.splits)
qed



lemma claimed_row:
  assumes "sql_claim i ids now runner ts = (us, k)" "k \<noteq> 0"
  shows "\<exists>u \<in> set us. tk_id u = i \<and> tk_status u = Running"
proof -
  from assms obtain t where t: "t \<in> set ts" "tk_id t = i" "tk_agent t \<in> set ids" "tk_status t = Queued"
    by (auto simp: sql_claim_def sql_update_def filter_empty_conv)
  then show ?thesis using assms(1)
    by (auto simp: sql_claim_def sql_update_def intro!: bexI [of _ "t\<lparr> tk_status := Running, tk_claimed := Some now, tk_runner := (if runner = [] then None else Some runner), tk_heartbeat := (if runner = [] then None else Some now) \<rparr>"] rev_image_eqI [OF t(1)])
qed

text \<open>A task is handed out once: after a claim took effect, no claim of any runner, however late, takes effect on
  the same task.
\<close>

theorem task_is_claimed_once:
  assumes "task_run before [] ts" "sql_claim i ids now runner ts = (us, k)" "k \<noteq> 0"
    and "task_run sts us vs" "list_all (\<lambda>st. \<not> inserts i st) sts"
  shows "snd (sql_claim i ids' now' runner' vs) = 0"
proof -
  from claimed_row [OF assms(2,3)] obtain u where u: "u \<in> set us" "tk_id u = i" "tk_status u = Running" by blast
  have "us = run_statement (Claim_row i ids now runner) ts" using assms(2) by simp
  then have "table_ok us" using run_statement_table_ok [OF reachable_table_ok [OF assms(1)], of "Claim_row i ids now runner"] by simp
  then have "distinct (map tk_id us)" by (simp add: table_ok_def)
  then have "tk_status v \<noteq> Queued" if "v \<in> set vs" "tk_id v = i" for v
    using advance_finished [OF assms(4) _ u(1) that(1)] that(2) u(2,3) assms(5) by auto
  then show ?thesis by (auto simp: sql_claim_def sql_update_def filter_empty_conv)
qed

lemma task_is_claimed_once_witness:
  "snd (sql_claim ''t1'' [''a''] 1200 ''r2'' (fst (sql_claim ''t1'' [''a''] 1100 ''r1'' [demo_task ''t1'' ''a'']))) = 0"
proof -
  have r: "task_run [Insert_row (demo_task ''t1'' ''a'')] [] [demo_task ''t1'' ''a'']"
    using task_run_one [of "Insert_row (demo_task ''t1'' ''a'')" "[]"] by (simp add: demo_task_def new_task_def sql_insert_def)
  have "snd (sql_claim ''t1'' [''a''] 1100 ''r1'' [demo_task ''t1'' ''a'']) \<noteq> 0" by code_simp
  then show ?thesis
    by (intro task_is_claimed_once [OF r prod.collapse [symmetric] _ task_run.Start]) simp_all
qed

section \<open>The clean-up\<close>

lemma sql_delete_counts:
  "length (filter P (fst (sql_delete P n ts))) = length (filter P ts) - n \<and>
   filter (\<lambda>t. \<not> P t) (fst (sql_delete P n ts)) = filter (\<lambda>t. \<not> P t) ts \<and>
   snd (sql_delete P n ts) = min n (length (filter P ts))"
  by (induction P n ts rule: sql_delete.induct) (auto simp: Let_def split: prod.splits)

lemma cleanup_loop_counts:
  assumes "cleanup_loop cutoff left ts r = (us, r')"
  shows "let due = length (filter (cleanup_due cutoff) ts); room = left * agent_task_cleanup_batch in
         cr_deleted r' = cr_deleted r + min room due \<and> length (filter (cleanup_due cutoff) us) = due - room \<and>
         filter (\<lambda>t. \<not> cleanup_due cutoff t) us = filter (\<lambda>t. \<not> cleanup_due cutoff t) ts \<and>
         (0 < left \<longrightarrow> cr_truncated r' = (room \<le> due))"
  using assms
proof (induction cutoff left ts r rule: cleanup_loop.induct)
  case (2 cutoff left ts r)
  define b where "b = agent_task_cleanup_batch"
  have b: "0 < b" by (simp add: b_def agent_task_cleanup_batch_def)
  obtain ts' k where d: "sql_delete (cleanup_due cutoff) b ts = (ts', k)" by (rule prod.exhaust)
  note c = sql_delete_counts [of "cleanup_due cutoff" b ts, unfolded d fst_conv snd_conv]
  show ?case
  proof (cases "k < b")
    case True
    with 2(2) have "us = ts'" "r' = r\<lparr> cr_deleted := cr_deleted r + k, cr_batches := cr_batches r + 1, cr_truncated := False \<rparr>"
      by (simp_all add: Let_def b_def [symmetric] d)
    moreover have "length (filter (cleanup_due cutoff) ts) < b + left * b" using c True by auto
    moreover have "length (filter (cleanup_due cutoff) ts) < b" using c True by auto
    ultimately show ?thesis using c by (simp add: Let_def b_def [symmetric])
  next
    case False
    let ?r = "r\<lparr> cr_deleted := cr_deleted r + k, cr_batches := cr_batches r + 1 \<rparr>"
    from c False have k: "k = b" "b \<le> length (filter (cleanup_due cutoff) ts)" by auto
    have e: "cleanup_loop cutoff left ts' (?r\<lparr> cr_truncated := True \<rparr>) = (us, r')"
      using 2(2) False by (simp add: Let_def b_def [symmetric] d)
    show ?thesis
    proof (cases left)
      case 0
      with e have "us = ts'" "r' = ?r\<lparr> cr_truncated := True \<rparr>" by simp_all
      with c k 0 show ?thesis by (simp add: Let_def b_def [symmetric])
    next
      case (Suc n)
      from 2(1) [OF d [unfolded b_def, symmetric] refl refl False [unfolded b_def] e] c k Suc
      show ?thesis by (simp add: Let_def b_def [symmetric]) linarith
    qed
  qed
qed simp

text \<open>
  CX: The clean-up deletes finished tasks older than the retention only, all of them unless there are 10000 or
  more, keeps every other row in place, and reports the number it deleted and whether some may be left.
\<close>

theorem cleanup_is_exact:
  assumes "cleanup_finished_agent_tasks retention now ts = (us, r)"
  shows "let cutoff = now - retention_days_of retention * 86400; due = length (filter (cleanup_due cutoff) ts) in
         filter (\<lambda>t. \<not> cleanup_due cutoff t) us = filter (\<lambda>t. \<not> cleanup_due cutoff t) ts \<and>
         length (filter (cleanup_due cutoff) us) = due - 10000 \<and>
         cr_deleted r = min 10000 due \<and> (cr_truncated r \<longleftrightarrow> 10000 \<le> due)"
  using cleanup_loop_counts [OF assms [unfolded cleanup_finished_agent_tasks_def]]
  by (simp add: Let_def agent_task_cleanup_max_batches_def agent_task_cleanup_batch_def)

lemma cleanup_is_exact_witness:
  "cr_deleted (snd (cleanup_finished_agent_tasks Undefined 10000000 [demo_done, demo_running])) = 1"
proof -
  obtain us r where c: "cleanup_finished_agent_tasks Undefined 10000000 [demo_done, demo_running] = (us, r)" by (rule prod.exhaust)
  have "length (filter (cleanup_due (10000000 - retention_days_of Undefined * 86400)) [demo_done, demo_running]) = 1" by code_simp
  with cleanup_is_exact [OF c] c show ?thesis by (simp add: Let_def)
qed

section \<open>A name that is not an identifier\<close>

definition casing_env :: task_env where
  "casing_env = \<lparr> tv_date_ms = (\<lambda>_. Some 1000000), tv_json = (\<lambda>_. Some (Obj [(''protocol'', JInt 1), (''actions'', Arr [Str ''ip_unlock''])])),
     tv_runtime = (\<lambda>_. Some (Obj [(''updated_at'', Str ''now''), (''capabilities'', Str ''stored'')])), tv_buffered = (\<lambda>_. Null) \<rparr>"

definition casing_db :: task_db where
  "casing_db = \<lparr> kb_tasks = [], kb_targets = [(''my-agent'', Obj [(''type'', Str ''tcp''), (''enabled'', JInt 1)])], kb_contacts = [] \<rparr>"

text \<open>
  CX: A request that names an Agent by another spelling of its identifier (\<open>My Agent\<close> for \<open>my-agent\<close>) passes
  every check and is queued under that spelling; the Agent it is meant for asks for tasks and gets none.
\<close>

theorem misspelled_agent_is_never_served:
  "let (db, created) = create_agent_task_for_agent casing_env quiet (\<lambda>_. 1000) ''t1'' ''My Agent'' ''ip_unlock'' None casing_db in
   map (\<lambda>t. (tk_id t, tk_agent t, tk_status t)) (kb_tasks db) = [(''t1'', ''My Agent'', Queued)] \<and>
   created = Inr (hd (kb_tasks db)) \<and>
   snd (claim_agent_task quiet (\<lambda>_. 1010) (Str ''my-agent'') Undefined Undefined db) = Inr No_task \<and>
   snd (claim_agent_task quiet (\<lambda>_. 1010) (Str ''My Agent'') Undefined Undefined db) = Inr No_task"
  by code_simp

end
