(* ===== verification/ProbeHistory.thy ===== *)
theory ProbeHistory
  imports Utils Hosts
begin

text \<open>
  \<open>worker/src/probe-history-buffer.js\<close>: the durable object that buffers the results of the probes of all targets
  (the shared hub), merges them into one archive object per target and day, and keeps what it cannot archive as
  dead letters.

  \<^item> A buffered day has the key \<open>(target, day)\<close>. \<open>ps_mem\<close> is lost when the instance is evicted, \<open>ps_days\<close>,
    \<open>ps_dead\<close> and \<open>ps_migrated\<close> are the storage of the object, \<open>ps_archive\<close> is R2.
  \<^item> What storage and R2 answer is the argument \<open>oc\<close>, by key. Reading the storage and deleting from it succeed.
  \<^item> The clock \<open>now\<close> is read once per handler.
\<close>

section \<open>Points\<close>

record probe_point =
  pp_at :: int
  pp_total :: jsnum
  pp_ok_count :: jsnum
  pp_sum :: jsnum
  pp_last_ok :: int
  pp_latency :: "jsnum option"
  pp_status :: "jsnum option"
  pp_error :: "string option"
  pp_region :: string
  pp_colo :: "string option"

definition number_or :: "jsnum \<Rightarrow> int \<Rightarrow> jsnum" where
  "number_or n i = num_or n (jsint i)"

definition normalize_probe_point :: "jsval \<Rightarrow> probe_point option" where
  "normalize_probe_point p =
     (case js_floor (num_or0 (js_get p ''checked_at'')) of
        Fin q \<Rightarrow>
          if q \<le> 0 then None
          else let error = js_coalesce (js_get p ''error'') (js_get p ''last_error'');
                   missed = is_missed_monitor_point (js_set p ''error'' error);
                   total = (if missed then js_max (jsint 1) (number_or (num_or0 (js_get p ''total'')) 1)
                            else js_max (jsint 0) (number_or (js_Number (js_coalesce (js_get p ''total'') (JInt 1))) 0));
                   ok = js_coalesce (js_get p ''ok'') (js_get p ''last_ok'');
                   ok_count = (if missed then jsint 0
                     else js_max (jsint 0) (number_or (js_Number (js_coalesce (js_get p ''ok_count'') (JInt (if js_truthy ok then 1 else 0)))) 0));
                   raw_latency = js_coalesce (js_get p ''latency_ms'') (js_get p ''last_latency_ms'');
                   latency = (if missed \<or> js_nullish raw_latency \<or> \<not> js_isFinite (js_Number raw_latency) then None else Some (js_Number raw_latency));
                   total_latency = (if missed then jsint 0
                     else if js_isFinite (js_Number (js_get p ''sum_latency_ms'')) then js_max (jsint 0) (js_Number (js_get p ''sum_latency_ms''))
                     else case latency of None \<Rightarrow> jsint 0 | Some l \<Rightarrow> js_mul l ok_count);
                   status = js_coalesce (js_get p ''status_code'') (js_get p ''last_status_code'')
               in Some \<lparr> pp_at = \<lfloor>q\<rfloor>, pp_total = total, pp_ok_count = ok_count, pp_sum = total_latency,
                    pp_last_ok = (if missed \<or> js_nullish ok \<or> \<not> num_truthy (js_Number ok) then 0 else 1),
                    pp_latency = latency,
                    pp_status = (if missed \<or> js_nullish status then None else Some (js_Number status)),
                    pp_error = (if js_nullish error then None else Some (take 500 (js_String error))),
                    pp_region = take 32 (js_String (js_or (js_get p ''probe_region'') (Str ''auto''))),
                    pp_colo = (if js_truthy (js_get p ''cf_colo'') then Some (take 32 (js_String (js_get p ''cf_colo''))) else None) \<rparr>
      | _ \<Rightarrow> None)"

definition probe_point_json :: "probe_point \<Rightarrow> jsval" where
  "probe_point_json p = Obj [(''checked_at'', JInt (pp_at p)), (''total'', Num (pp_total p)), (''ok_count'', Num (pp_ok_count p)),
     (''sum_latency_ms'', Num (pp_sum p)), (''last_ok'', JInt (pp_last_ok p)), (''last_latency_ms'', opt_json Num (pp_latency p)),
     (''last_status_code'', opt_json Num (pp_status p)), (''last_error'', opt_json Str (pp_error p)),
     (''probe_region'', Str (pp_region p)), (''cf_colo'', opt_json Str (pp_colo p))]"

text \<open>Every merge normalizes the stored points once more\<close>

definition renormalize :: "probe_point \<Rightarrow> probe_point option" where
  "renormalize p = normalize_probe_point (probe_point_json p)"

definition max_day_points :: "jsval \<Rightarrow> nat" where
  "max_day_points env = nat (clamp (js_Number (js_or (js_get env ''PROBE_HISTORY_MAX_POINTS_PER_DAY'') (JInt 2000))) 288 10000)"

definition on_day :: "jsval \<Rightarrow> int \<Rightarrow> string \<Rightarrow> probe_point \<Rightarrow> bool" where
  "on_day env now day p \<longleftrightarrow> day_from_sec now env (pp_at p) = day"

definition merge_day :: "jsval \<Rightarrow> int \<Rightarrow> probe_point list \<Rightarrow> string \<Rightarrow> probe_point list \<Rightarrow> probe_point list" where
  "merge_day env now existing day incoming =
     take_last (max_day_points env)
       (sort_key pp_at (map snd (upserts pp_at (filter (on_day env now day) (List.map_filter renormalize (existing @ incoming))) [])))"

record public_point =
  qp_missed :: bool
  qp_at :: int
  qp_ok :: jsnum
  qp_latency :: "jsnum option"
  qp_status :: "jsnum option"
  qp_error :: "string option"
  qp_region :: string
  qp_total :: jsnum
  qp_ok_count :: jsnum

definition to_public_point :: "probe_point \<Rightarrow> public_point" where
  "to_public_point p =
     (let json = probe_point_json p;
          missed = (is_missed_monitor_point (js_set json ''error'' (js_coalesce (js_get json ''error'') (js_get json ''last_error'')))
                    \<or> (pp_total p = jsint 0 \<and> pp_ok_count p = jsint 0))
      in \<lparr> qp_missed = missed, qp_at = pp_at p, qp_ok = (if missed then jsint 0 else jsint (pp_last_ok p)),
           qp_latency = (if missed then None else pp_latency p), qp_status = (if missed then None else pp_status p),
           qp_error = pp_error p, qp_region = (if pp_region p = [] then ''auto'' else pp_region p),
           qp_total = (if missed then js_max (jsint 1) (number_or (pp_total p) 1) else pp_total p),
           qp_ok_count = (if missed then jsint 0 else pp_ok_count p) \<rparr>)"

record point_sums =
  su_total :: jsnum
  su_ok :: jsnum
  su_latency :: jsnum

text \<open>The loop tests the running count of successes, not the count of the point\<close>

definition summarize_points :: "public_point list \<Rightarrow> point_sums" where
  "summarize_points points =
     fold (\<lambda>p acc.
         if qp_missed p then acc
         else let ok = js_add (su_ok acc) (js_max (jsint 0) (qp_ok_count p))
              in \<lparr> su_total = js_add (su_total acc) (js_max (jsint 0) (qp_total p)), su_ok = ok,
                   su_latency =
                     (case qp_latency p of
                        Some l \<Rightarrow> if num_truthy ok \<and> js_isFinite l then js_add (su_latency acc) (js_mul l (js_max (jsint 0) (qp_ok_count p))) else su_latency acc
                      | None \<Rightarrow> su_latency acc) \<rparr>)
       points \<lparr> su_total = jsint 0, su_ok = jsint 0, su_latency = jsint 0 \<rparr>"

section \<open>The state of the hub\<close>

type_synonym day_key = "string \<times> string"

record day_entry =
  de_points :: "probe_point list"
  de_archived :: int
  de_fails :: nat

record probe_store =
  ps_mem :: "(day_key \<times> probe_point list) list"
  ps_mem_attempts :: "(day_key \<times> nat) list"
  ps_archive_attempts :: "(string \<times> nat) list"
  ps_days :: "(day_key \<times> day_entry) list"
  ps_dead :: "(day_key \<times> probe_point list) list"
  ps_archive :: "(day_key \<times> probe_point list) list"
  ps_migrated :: "string list"
  ps_alarm :: "int option"

definition rows_of :: "('k \<times> 'v list) list \<Rightarrow> 'k \<Rightarrow> 'v list" where
  "rows_of m k = (case map_of m k of Some xs \<Rightarrow> xs | None \<Rightarrow> [])"

definition live_points :: "probe_store \<Rightarrow> day_key \<Rightarrow> probe_point list" where
  "live_points s k = (case map_of (ps_days s) k of Some e \<Rightarrow> de_points e | None \<Rightarrow> [])"

definition archive_confirm_window_sec :: int where "archive_confirm_window_sec = 1800"
definition archive_read_retention_sec :: int where "archive_read_retention_sec = 4 * 86400"
definition max_archive_confirm_fails :: nat where "max_archive_confirm_fails = 8"
definition max_archive_day_attempts :: nat where "max_archive_day_attempts = 3"
definition max_mem_day_attempts :: nat where "max_mem_day_attempts = 3"
definition max_archive_writes_per_alarm :: nat where "max_archive_writes_per_alarm = 10"
definition day_range_limit :: nat where "day_range_limit = 90"

definition hub_day_key :: "day_key \<Rightarrow> string" where
  "hub_day_key k = ''d:'' @ fst k @ ''|'' @ snd k"

text \<open>A listing of the storage is in the order of the keys\<close>

definition stored_days :: "probe_store \<Rightarrow> (day_key \<times> day_entry) list" where
  "stored_days s = sort_key (\<lambda>e. hub_day_key (fst e)) (ps_days s)"

definition stored_dead :: "probe_store \<Rightarrow> (day_key \<times> probe_point list) list" where
  "stored_dead s = sort_key (\<lambda>e. hub_day_key (fst e)) (ps_dead s)"

text \<open>What the storage and R2 answer: a merge into the archive may throw before or after it was written\<close>

datatype merge_outcome = Merged | Not_written | Written_then_thrown

record day_outcome =
  yo_merge :: merge_outcome
  yo_put :: bool
  yo_persisted :: bool
  yo_dead :: bool

section \<open>Appending\<close>

definition per_key_limit :: "jsval \<Rightarrow> nat" where
  "per_key_limit env =
     (case js_Number (js_or (js_get env ''PROBE_HISTORY_MAX_POINTS_PER_DAY'') (JInt 10000)) of
        Fin q \<Rightarrow> nat (min 100000 (max 100 \<lfloor>q\<rfloor>)) | _ \<Rightarrow> 10000)"

definition write_point :: "jsval \<Rightarrow> int \<Rightarrow> jsval \<Rightarrow> (string \<times> probe_point) option" where
  "write_point env now item =
     (let point = normalize_probe_point (js_or (js_get item ''point'') item);
          day = take 10 (js_String (js_or (js_get item ''day'')
                  (Str (day_from_sec now env (case point of Some p \<Rightarrow> pp_at p | None \<Rightarrow> 0)))))
      in case point of Some p \<Rightarrow> if is_day_key day then Some (day, p) else None | None \<Rightarrow> None)"

definition push_row :: "'k \<times> 'v \<Rightarrow> ('k \<times> 'v list) list \<Rightarrow> ('k \<times> 'v list) list" where
  "push_row e m = AList.update (fst e) (rows_of m (fst e) @ [snd e]) m"

definition hub_append_local :: "jsval \<Rightarrow> int \<Rightarrow> string \<Rightarrow> jsval list \<Rightarrow> probe_store \<Rightarrow> probe_store \<times> nat \<times> nat" where
  "hub_append_local env now target writes s =
     (let incoming = fold push_row (List.map_filter (write_point env now) writes) [];
          add = (\<lambda>(day, points) m. AList.update (target, day) (take_last (per_key_limit env) (rows_of m (target, day) @ points)) m)
      in (s\<lparr> ps_mem := fold add incoming (ps_mem s) \<rparr>, length incoming, sum_list (map (\<lambda>e. length (snd e)) incoming)))"

text \<open>The export of a legacy instance, \<open>None\<close> when the request fails: its days and its dead letters\<close>

type_synonym legacy_export = "((string \<times> jsval list) list \<times> (string \<times> probe_point list) list) option"

definition add_days :: "string \<Rightarrow> int \<Rightarrow> string" where
  "add_days day n = (case parse_day_key (take 10 day) of None \<Rightarrow> take 10 day | Some z \<Rightarrow> iso_day (z + n))"

definition schedule_hub_flush :: "jsval \<Rightarrow> int \<Rightarrow> string \<Rightarrow> bool \<Rightarrow> probe_store \<Rightarrow> probe_store" where
  "schedule_hub_flush env ms current_day mem_pending s =
     (if mem_pending then
        (case ps_alarm s of
           Some a \<Rightarrow> if ms + 30 * 60 * 1000 < a then s\<lparr> ps_alarm := Some (ms + 30 * 60 * 1000) \<rparr> else s
         | None \<Rightarrow> s\<lparr> ps_alarm := Some (ms + 30 * 60 * 1000) \<rparr>)
      else case day_start_sec env (add_days current_day 1) of
        None \<Rightarrow> s
      | Some start \<Rightarrow>
          let boundary = (start + 300) * 1000 in
          case ps_alarm s of
            Some a \<Rightarrow> if a < ms \<or> boundary < a then s\<lparr> ps_alarm := Some boundary \<rparr> else s
          | None \<Rightarrow> s\<lparr> ps_alarm := Some boundary \<rparr>)"

definition ensure_legacy_buffer_migrated :: "jsval \<Rightarrow> int \<Rightarrow> (string \<Rightarrow> legacy_export) \<Rightarrow> string \<Rightarrow> probe_store \<Rightarrow> probe_store" where
  "ensure_legacy_buffer_migrated env now legacy target s =
     (if target \<in> set (ps_migrated s) then s
      else case legacy target of
        None \<Rightarrow> s
      | Some (days, letters) \<Rightarrow>
          (let s1 = fold (\<lambda>(day, points) st. if is_day_key (take 10 day) \<and> points \<noteq> [] then
                     fst (hub_append_local env now target (map (\<lambda>p. Obj [(''day'', Str (take 10 day)), (''point'', p)]) points) st) else st) days s;
               s2 = fold (\<lambda>(day, points) st. if is_day_key (take 10 day)
                     then st\<lparr> ps_dead := AList.update (target, take 10 day) points (ps_dead st) \<rparr> else st) letters s1;
               s3 = s2\<lparr> ps_migrated := target # ps_migrated s2 \<rparr>
           in if ps_mem s3 = [] then s3 else schedule_hub_flush env (now * 1000) (day_from_sec now env now) True s3))"

definition append_writes :: "jsval \<Rightarrow> int \<Rightarrow> (string \<Rightarrow> legacy_export) \<Rightarrow> (string \<times> jsval list) list \<Rightarrow> probe_store \<Rightarrow> probe_store" where
  "append_writes env now legacy entries s =
     (let (s1, accepted) = fold (\<lambda>(target, writes) (st, k).
            if target = [] \<or> writes = [] then (st, k)
            else let (st', days, points) = hub_append_local env now target writes (ensure_legacy_buffer_migrated env now legacy target st)
                 in (st', if days = 0 then k else Suc k)) entries (s, 0::nat)
      in if accepted = 0 then s1
         else schedule_hub_flush env (now * 1000) (day_from_sec now env now) (ps_mem s1 \<noteq> []) s1)"

section \<open>Reading\<close>

text \<open>\<open>for (i = 0; i < limit \<and> day <= end; i++)\<close>; a day that is no date repeats itself\<close>

fun day_range :: "nat \<Rightarrow> string \<Rightarrow> string \<Rightarrow> string list" where
  "day_range 0 day until = []"
| "day_range (Suc n) day until = (if day \<le> until then day # day_range n (add_days day 1) until else [])"

definition bounded_day_range :: "jsval \<Rightarrow> int \<Rightarrow> string \<Rightarrow> string \<Rightarrow> int \<Rightarrow> int \<Rightarrow> string list" where
  "bounded_day_range env now from_day to_day since until =
     day_range day_range_limit
       (if is_day_key from_day then from_day else day_from_sec now env (if since = 0 then now else since))
       (if is_day_key to_day then to_day else day_from_sec now env (if until = 0 then now else until))"

text \<open>One day as a read puts it together; \<open>readable\<close>: the archive object can be read\<close>

definition read_day :: "jsval \<Rightarrow> int \<Rightarrow> bool \<Rightarrow> day_key \<Rightarrow> probe_store \<Rightarrow> probe_point list" where
  "read_day env now readable k s =
     merge_day env now (if readable then rows_of (ps_archive s) k else []) (snd k)
       (live_points s k @ rows_of (ps_mem s) k @ rows_of (ps_dead s) k)"

definition read_points ::
  "jsval \<Rightarrow> int \<Rightarrow> (string \<Rightarrow> legacy_export) \<Rightarrow> (day_key \<Rightarrow> bool) \<Rightarrow> string \<Rightarrow> string \<Rightarrow> string \<Rightarrow> int \<Rightarrow> int \<Rightarrow> probe_store \<Rightarrow>
   probe_store \<times> public_point list" where
  "read_points env now legacy readable target from_day to_day since until s =
     (if target = [] then (s, [])
      else let s1 = ensure_legacy_buffer_migrated env now legacy target s;
               days = bounded_day_range env now from_day to_day since until;
               points = concat (map (\<lambda>day. read_day env now (readable (target, day)) (target, day) s1) days)
           in (s1, sort_key qp_at (map to_public_point (filter (\<lambda>p. since \<le> pp_at p \<and> pp_at p \<le> until) points))))"

definition day_summary ::
  "jsval \<Rightarrow> int \<Rightarrow> (string \<Rightarrow> legacy_export) \<Rightarrow> (day_key \<Rightarrow> bool) \<Rightarrow> string \<Rightarrow> string \<Rightarrow> int \<Rightarrow> probe_store \<Rightarrow> point_sums option" where
  "day_summary env now legacy readable target day before s =
     (case day_start_sec env day of
        None \<Rightarrow> None
      | Some start \<Rightarrow>
          Some (summarize_points (snd (read_points env now legacy readable target day day start (min before (start + 86400 - 1)) s))))"

section \<open>Archiving\<close>

text \<open>\<open>mergeArchiveDay\<close>: the result tells whether it returned\<close>

definition merge_archive_day :: "jsval \<Rightarrow> int \<Rightarrow> merge_outcome \<Rightarrow> day_key \<Rightarrow> probe_point list \<Rightarrow> probe_store \<Rightarrow> probe_store \<times> bool" where
  "merge_archive_day env now out k points s =
     (if out = Not_written then (s, False)
      else (s\<lparr> ps_archive := AList.update k (merge_day env now (rows_of (ps_archive s) k) (snd k) points) (ps_archive s) \<rparr>, out = Merged))"

definition write_dead_letter_day :: "jsval \<Rightarrow> int \<Rightarrow> bool \<Rightarrow> day_key \<Rightarrow> probe_point list \<Rightarrow> probe_store \<Rightarrow> probe_store \<times> bool" where
  "write_dead_letter_day env now stored k points s =
     (if \<not> stored then (s, False)
      else (s\<lparr> ps_dead := AList.update k (merge_day env now (rows_of (ps_dead s) k) (snd k) (rows_of (ps_dead s) k @ points)) (ps_dead s) \<rparr>, True))"

definition count_of :: "('k \<times> nat) list \<Rightarrow> 'k \<Rightarrow> nat" where
  "count_of m k = (case map_of m k of Some n \<Rightarrow> n | None \<Rightarrow> 0)"

text \<open>One entry of the loop of \<open>flushMemDays\<close>; the result tells whether the entry stays in memory\<close>

definition mem_day_failed :: "jsval \<Rightarrow> int \<Rightarrow> day_outcome \<Rightarrow> day_key \<Rightarrow> probe_point list \<Rightarrow> probe_store \<Rightarrow> probe_store \<times> bool" where
  "mem_day_failed env now out k points s =
     (let attempts = count_of (ps_mem_attempts s) k + 1;
          (s1, saved) = (if max_mem_day_attempts \<le> attempts then write_dead_letter_day env now (yo_dead out) k points s else (s, False))
      in if saved then (s1\<lparr> ps_mem_attempts := AList.delete k (ps_mem_attempts s1) \<rparr>, False)
         else (s1\<lparr> ps_mem_attempts := AList.update k attempts (ps_mem_attempts s1) \<rparr>, True))"

definition flush_mem_entry :: "jsval \<Rightarrow> int \<Rightarrow> bool \<Rightarrow> string \<Rightarrow> day_outcome \<Rightarrow> day_key \<Rightarrow> probe_point list \<Rightarrow> probe_store \<Rightarrow> probe_store \<times> bool" where
  "flush_mem_entry env now has_archive current out k points s =
     (if \<not> is_day_key (snd k) then (s, False)
      else if snd k < current \<and> has_archive then
        (let (s1, merged) = merge_archive_day env now (yo_merge out) k points s
         in if merged \<and> yo_put out then
              (s1\<lparr> ps_days := AList.update k \<lparr> de_points = points, de_archived = now, de_fails = 0 \<rparr> (ps_days s1),
                   ps_mem_attempts := AList.delete k (ps_mem_attempts s1) \<rparr>, False)
            else mem_day_failed env now out k points s1)
      else if yo_put out then
        (s\<lparr> ps_days := AList.update k \<lparr> de_points = merge_day env now (live_points s k) (snd k) points, de_archived = 0, de_fails = 0 \<rparr> (ps_days s),
            ps_mem_attempts := AList.delete k (ps_mem_attempts s) \<rparr>, False)
      else mem_day_failed env now out k points s)"

fun flush_mem_loop :: "jsval \<Rightarrow> int \<Rightarrow> bool \<Rightarrow> string \<Rightarrow> (day_key \<Rightarrow> day_outcome) \<Rightarrow> (day_key \<times> probe_point list) list \<Rightarrow> probe_store \<Rightarrow>
   probe_store \<times> (day_key \<times> probe_point list) list" where
  "flush_mem_loop env now has_archive current oc [] s = (s, [])"
| "flush_mem_loop env now has_archive current oc ((k, points) # rest) s =
     (let (s1, stays) = flush_mem_entry env now has_archive current (oc k) k points s;
          (s2, failed) = flush_mem_loop env now has_archive current oc rest s1
      in (s2, if stays then (k, points) # failed else failed))"

definition flush_mem_days :: "jsval \<Rightarrow> int \<Rightarrow> bool \<Rightarrow> (day_key \<Rightarrow> day_outcome) \<Rightarrow> probe_store \<Rightarrow> probe_store" where
  "flush_mem_days env now has_archive oc s =
     (let (s1, failed) = flush_mem_loop env now has_archive (day_from_sec now env now) oc (ps_mem s) s
      in s1\<lparr> ps_mem := failed \<rparr>)"

record day_flush =
  df_store :: probe_store
  df_budget :: nat
  df_pending :: bool
  df_flushed :: nat

definition release_day :: "day_key \<Rightarrow> probe_store \<Rightarrow> probe_store" where
  "release_day k s =
     s\<lparr> ps_days := AList.delete k (ps_days s), ps_archive_attempts := AList.delete (snd k) (ps_archive_attempts s) \<rparr>"

definition mark_archived :: "int \<Rightarrow> nat \<Rightarrow> day_key \<Rightarrow> day_entry \<Rightarrow> probe_store \<Rightarrow> probe_store" where
  "mark_archived now fails k e s =
     s\<lparr> ps_days := AList.update k (e\<lparr> de_archived := now, de_fails := fails \<rparr>) (ps_days s) \<rparr>"

text \<open>The \<open>catch\<close> of the loop over the days\<close>

definition archive_failed :: "jsval \<Rightarrow> int \<Rightarrow> day_outcome \<Rightarrow> day_key \<Rightarrow> probe_point list \<Rightarrow> day_flush \<Rightarrow> day_flush" where
  "archive_failed env now out k points f =
     (let s = df_store f; attempts = count_of (ps_archive_attempts s) (snd k) + 1
      in if max_archive_day_attempts \<le> attempts then
           (let (s1, saved) = write_dead_letter_day env now (yo_dead out) k points s
            in f\<lparr> df_store := (if saved then release_day k s1 else s1\<lparr> ps_archive_attempts := AList.update (snd k) attempts (ps_archive_attempts s1) \<rparr>) \<rparr>)
         else f\<lparr> df_store := s\<lparr> ps_archive_attempts := AList.update (snd k) attempts (ps_archive_attempts s) \<rparr>, df_pending := True \<rparr>)"

text \<open>Merging a day into the archive and noting it; \<open>fails\<close> is the number of confirmations that failed so far\<close>

definition archive_day :: "jsval \<Rightarrow> int \<Rightarrow> day_outcome \<Rightarrow> nat \<Rightarrow> day_key \<Rightarrow> day_entry \<Rightarrow> day_flush \<Rightarrow> day_flush" where
  "archive_day env now out fails k e f =
     (let (s1, merged) = merge_archive_day env now (yo_merge out) k (de_points e) (df_store f)
      in if merged \<and> yo_put out then f\<lparr> df_store := mark_archived now fails k e s1, df_pending := True \<rparr>
         else archive_failed env now out k (de_points e) (f\<lparr> df_store := s1 \<rparr>))"

definition confirm_day :: "jsval \<Rightarrow> int \<Rightarrow> day_outcome \<Rightarrow> day_key \<Rightarrow> day_entry \<Rightarrow> day_flush \<Rightarrow> day_flush" where
  "confirm_day env now out k e f =
     (if yo_persisted out then
        (case day_start_sec env (snd k) of
           Some start \<Rightarrow>
             if archive_read_retention_sec \<le> now - start
             then f\<lparr> df_store := release_day k (df_store f), df_flushed := df_flushed f + 1 \<rparr>
             else f\<lparr> df_pending := True \<rparr>
         | None \<Rightarrow> f\<lparr> df_pending := True \<rparr>)
      else let fails = de_fails e + 1
           in if max_archive_confirm_fails \<le> fails then
                (let (s1, saved) = write_dead_letter_day env now (yo_dead out) k (de_points e) (df_store f)
                 in f\<lparr> df_store := (if saved then release_day k s1
                                    else s1\<lparr> ps_archive_attempts := AList.update (snd k) max_archive_day_attempts (ps_archive_attempts s1) \<rparr>) \<rparr>)
              else archive_day env now out fails k e f)"

text \<open>The body of the loop of \<open>flushCompletedDays\<close>\<close>

definition flush_day :: "jsval \<Rightarrow> int \<Rightarrow> string \<Rightarrow> (day_key \<Rightarrow> day_outcome) \<Rightarrow> day_key \<times> day_entry \<Rightarrow> day_flush \<Rightarrow> day_flush" where
  "flush_day env now current oc row f =
     (let (k, e) = row
      in if \<not> is_day_key (snd k) \<or> current \<le> snd k then f
         else if de_archived e \<noteq> 0 \<and> now - de_archived e < archive_confirm_window_sec then f\<lparr> df_pending := True \<rparr>
         else if df_budget f = 0 then f\<lparr> df_pending := True \<rparr>
         else let f1 = f\<lparr> df_budget := df_budget f - 1 \<rparr>
              in if de_archived e \<noteq> 0 then confirm_day env now (oc k) k e f1 else archive_day env now (oc k) 0 k e f1)"

definition replay_dead_letter :: "jsval \<Rightarrow> int \<Rightarrow> merge_outcome \<Rightarrow> day_key \<Rightarrow> probe_store \<Rightarrow> probe_store \<times> bool" where
  "replay_dead_letter env now out k s =
     (case map_of (ps_dead s) k of
        None \<Rightarrow> (s, False)
      | Some points \<Rightarrow>
          (let (s1, merged) = merge_archive_day env now out k points s
           in if merged then (s1\<lparr> ps_dead := AList.delete k (ps_dead s1) \<rparr>, True) else (s1, False)))"

definition drain_dead_letters :: "jsval \<Rightarrow> int \<Rightarrow> (day_key \<Rightarrow> merge_outcome) \<Rightarrow> nat \<Rightarrow> probe_store \<Rightarrow> probe_store" where
  "drain_dead_letters env now oc limit s =
     fold (\<lambda>(k, _) st. if is_day_key (snd k) then fst (replay_dead_letter env now (oc k) k st) else st) (take limit (stored_dead s)) s"

record flush_report =
  fo_flushed :: nat
  fo_dead_pending :: bool
  fo_confirm_pending :: bool

definition flush_completed_days ::
  "jsval \<Rightarrow> int \<Rightarrow> bool \<Rightarrow> string \<Rightarrow> (day_key \<Rightarrow> day_outcome) \<Rightarrow> (day_key \<Rightarrow> merge_outcome) \<Rightarrow> probe_store \<Rightarrow> probe_store \<times> flush_report" where
  "flush_completed_days env now has_archive current oc replay s =
     (if \<not> has_archive then (s, \<lparr> fo_flushed = 0, fo_dead_pending = False, fo_confirm_pending = False \<rparr>)
      else let f = fold (flush_day env now current oc) (stored_days s)
                     \<lparr> df_store = s, df_budget = max_archive_writes_per_alarm, df_pending = False, df_flushed = 0 \<rparr>;
               s1 = drain_dead_letters env now replay 3 (df_store f)
           in (s1, \<lparr> fo_flushed = df_flushed f, fo_dead_pending = (ps_dead s1 \<noteq> []), fo_confirm_pending = df_pending f \<rparr>))"

definition probe_alarm ::
  "jsval \<Rightarrow> int \<Rightarrow> bool \<Rightarrow> (day_key \<Rightarrow> day_outcome) \<Rightarrow> (day_key \<Rightarrow> day_outcome) \<Rightarrow> (day_key \<Rightarrow> merge_outcome) \<Rightarrow> probe_store \<Rightarrow> probe_store" where
  "probe_alarm env now has_archive mem_oc oc replay s =
     (let current = day_from_sec now env now;
          s1 = flush_mem_days env now has_archive mem_oc s;
          (s2, r) = flush_completed_days env now has_archive current oc replay s1
      in schedule_hub_flush env (now * 1000) current (ps_mem s \<noteq> [] \<or> fo_dead_pending r \<or> fo_confirm_pending r) s2)"

end
