(* ===== verification/ProbeHistoryKept.thy ===== *)
theory ProbeHistoryKept
  imports ProbeHistory
begin

text \<open>
  Which points the hub of \<open>ProbeHistory\<close> keeps. The buckets of a day are the times of its points wherever they
  are: in memory, in the storage, among the dead letters or in the archive. Archiving, confirming, releasing and
  replaying move them between these places without losing one; flushing the memory of a past day does lose the
  points of that day that were already stored.
\<close>

section \<open>The buckets of a list of points\<close>

definition list_times :: "jsval \<Rightarrow> string \<Rightarrow> probe_point list \<Rightarrow> int set" where
  "list_times env day ps = pp_at ` {p \<in> set ps. 0 < pp_at p \<and> on_day env 1 day p}"

lemma list_times_append [simp]: "list_times env day (xs @ ys) = list_times env day xs \<union> list_times env day ys"
  by (auto simp: list_times_def)

lemma list_times_Nil [simp]: "list_times env day [] = {}"
  by (simp add: list_times_def)

lemma list_times_mono: "set xs \<subseteq> set ys \<Longrightarrow> list_times env day xs \<subseteq> list_times env day ys"
  by (auto simp: list_times_def)

lemma finite_list_times [simp]: "finite (list_times env day xs)"
  by (simp add: list_times_def)

lemma on_day_clock: "0 < pp_at p \<Longrightarrow> on_day env now day p = on_day env 1 day p"
  by (simp add: on_day_def day_from_sec_def local_day_def local_seconds_def)

lemma normalize_shape:
  assumes "js_get v ''checked_at'' = JInt i"
  shows "\<exists>r. normalize_probe_point v = (if i \<le> 0 then None else Some r) \<and> pp_at r = i"
proof -
  have e: "js_floor (num_or0 (js_get v ''checked_at'')) = Fin (of_int i)"
    by (simp add: assms num_or0_def js_or_def js_truthy_def num_truthy_def js_floor_def)
  show ?thesis
    unfolding normalize_probe_point_def e jsnum.case Let_def of_int_le_0_iff floor_of_int
    by (intro exI conjI, rule refl) (simp only: probe_point.select_convs)
qed

lemma normalize_at:
  assumes "js_get v ''checked_at'' = JInt i"
  shows "normalize_probe_point v = None \<longleftrightarrow> i \<le> 0"
    and "normalize_probe_point v = Some p \<Longrightarrow> pp_at p = i"
  using normalize_shape [OF assms] by (auto split: if_splits)

lemma renormalize_at:
  "renormalize p = None \<longleftrightarrow> pp_at p \<le> 0" "renormalize p = Some q \<Longrightarrow> pp_at q = pp_at p"
proof -
  have "js_get (probe_point_json p) ''checked_at'' = JInt (pp_at p)" by (simp add: probe_point_json_def js_get_def)
  note stamp_of_json = normalize_at [OF this]
  show "renormalize p = None \<longleftrightarrow> pp_at p \<le> 0" "renormalize p = Some q \<Longrightarrow> pp_at q = pp_at p"
    unfolding renormalize_def by (fact stamp_of_json(1), fact stamp_of_json(2))
qed

lemma times_renormalized:
  "pp_at ` {p \<in> set (List.map_filter renormalize ps). on_day env now day p} = list_times env day ps"
proof -
  have "(\<exists>q. renormalize p = Some q \<and> on_day env now day q \<and> pp_at q = t) \<longleftrightarrow> 0 < pp_at p \<and> on_day env 1 day p \<and> pp_at p = t" for p t
  proof (cases "0 < pp_at p")
    case True
    then have "renormalize p \<noteq> None" by (simp add: renormalize_at(1))
    then obtain q where "renormalize p = Some q" by blast
    note q = this renormalize_at(2) [OF this]
    then have "on_day env now day q = on_day env 1 day p" using True on_day_clock [of q] by (simp add: on_day_def)
    with q True show ?thesis by auto
  next
    case False
    then have "renormalize p = None" by (simp add: renormalize_at(1))
    with False show ?thesis by simp
  qed
  then show ?thesis
    by (auto simp: list_times_def map_filter_def image_iff) (metis option.sel option.distinct(1))+
qed

lemma own_keys: "pp_at ` set (map snd (upserts pp_at xs [])) = pp_at ` set xs"
proof -
  have "\<forall>(k, v) \<in> set (upserts pp_at xs []). pp_at v = k" by (rule upserts_own_key) simp
  then have "pp_at ` set (map snd (upserts pp_at xs [])) = fst ` set (upserts pp_at xs [])" by force
  then show ?thesis by (simp add: keys_upserts)
qed

lemma merged_on_day:
  assumes "p \<in> set (merge_day env now existing day incoming)"
  shows "0 < pp_at p" "on_day env 1 day p"
proof -
  define xs where "xs = filter (on_day env now day) (List.map_filter renormalize (existing @ incoming))"
  have "p \<in> set (map snd (upserts pp_at xs []))"
    using assms set_take_last by (fastforce simp: merge_day_def xs_def)
  then have "p \<in> set xs" using values_upserts_subset [of pp_at xs "[]"] by auto
  then obtain q where q: "renormalize q = Some p" "on_day env now day p" by (auto simp: xs_def map_filter_def)
  have "0 < pp_at q" using renormalize_at(1) [of q] q(1) by auto
  then show "0 < pp_at p" using renormalize_at(2) [OF q(1)] by simp
  then show "on_day env 1 day p" using on_day_clock [of p env now day] q(2) by simp
qed

lemma merged_list_times: "list_times env day (merge_day env now existing day incoming) = pp_at ` set (merge_day env now existing day incoming)"
proof -
  have "{p \<in> set (merge_day env now existing day incoming). 0 < pp_at p \<and> on_day env 1 day p} = set (merge_day env now existing day incoming)"
    using merged_on_day by blast
  then show ?thesis by (simp add: list_times_def)
qed

text \<open>A merge keeps the buckets of both sides, unless they are more than the limit of a day\<close>

lemma merged_times:
  assumes "card (list_times env day (existing @ incoming)) \<le> max_day_points env"
  shows "list_times env day (merge_day env now existing day incoming) = list_times env day (existing @ incoming)"
proof -
  define xs where "xs = filter (on_day env now day) (List.map_filter renormalize (existing @ incoming))"
  define m where "m = upserts pp_at xs []"
  have xs: "pp_at ` set xs = list_times env day (existing @ incoming)"
    unfolding xs_def times_renormalized [of "existing @ incoming" env now day, symmetric] by auto
  have "distinct (map fst m)" by (simp add: m_def distinct_keys_upserts)
  moreover have "fst ` set m = pp_at ` set xs" by (simp add: m_def keys_upserts)
  ultimately have "length m = card (list_times env day (existing @ incoming))"
    using distinct_card [of "map fst m"] xs by simp
  then have "merge_day env now existing day incoming = sort_key pp_at (map snd m)"
    using assms by (simp add: merge_day_def xs_def [symmetric] m_def [symmetric])
  then show ?thesis using own_keys [of xs] xs unfolding merged_list_times by (simp add: m_def)
qed

lemma merged_subset: "list_times env day (merge_day env now existing day incoming) \<subseteq> list_times env day (existing @ incoming)"
proof -
  define xs where "xs = filter (on_day env now day) (List.map_filter renormalize (existing @ incoming))"
  have xs: "pp_at ` set xs = list_times env day (existing @ incoming)"
    unfolding xs_def times_renormalized [of "existing @ incoming" env now day, symmetric] by auto
  have "set (merge_day env now existing day incoming) \<subseteq> set (map snd (upserts pp_at xs []))"
    using set_take_last by (fastforce simp: merge_day_def xs_def)
  then show ?thesis using own_keys [of xs] unfolding merged_list_times xs [symmetric] by blast
qed

lemma merged_increasing: "sorted_wrt (<) (map pp_at (merge_day env now existing day incoming))"
proof -
  define m where "m = upserts pp_at (filter (on_day env now day) (List.map_filter renormalize (existing @ incoming))) []"
  have "\<forall>(k, v) \<in> set m. pp_at v = k" unfolding m_def by (rule upserts_own_key) simp
  then have "map pp_at (map snd m) = map fst m" by (auto simp: map_eq_conv)
  then have "distinct (map pp_at (map snd m))" by (simp only:) (simp add: m_def distinct_keys_upserts)
  then have d: "distinct (map pp_at (sort_key pp_at (map snd m)))"
    by (simp only: distinct_map distinct_sort set_sort)
  have "sorted_wrt (<) (map pp_at (sort_key pp_at (map snd m)))"
    using d sorted_sort_key [of pp_at] by (simp add: strict_sorted_iff)
  then show ?thesis
    unfolding merge_day_def m_def take_last_def by (metis drop_map sorted_wrt_drop)
qed

section \<open>The buckets of the hub\<close>

definition all_points :: "probe_store \<Rightarrow> day_key \<Rightarrow> probe_point list" where
  "all_points s k = rows_of (ps_archive s) k @ live_points s k @ rows_of (ps_mem s) k @ rows_of (ps_dead s) k"

definition kept_times :: "jsval \<Rightarrow> probe_store \<Rightarrow> day_key \<Rightarrow> int set" where
  "kept_times env s k = list_times env (snd k) (all_points s k)"

definition archive_times :: "jsval \<Rightarrow> probe_store \<Rightarrow> day_key \<Rightarrow> int set" where
  "archive_times env s k = list_times env (snd k) (rows_of (ps_archive s) k)"

text \<open>No day holds more buckets than the limit (288 five-minute checks are below every limit)\<close>

definition roomy :: "jsval \<Rightarrow> probe_store \<Rightarrow> bool" where
  "roomy env s \<longleftrightarrow> (\<forall>k. card (kept_times env s k) \<le> max_day_points env)"

text \<open>A day that is marked as archived is in the archive\<close>

definition store_ok :: "jsval \<Rightarrow> probe_store \<Rightarrow> bool" where
  "store_ok env s \<longleftrightarrow> distinct (map fst (ps_days s)) \<and>
     (\<forall>k e. map_of (ps_days s) k = Some e \<and> de_archived e \<noteq> 0 \<longrightarrow> list_times env (snd k) (de_points e) \<subseteq> archive_times env s k)"

lemma rows_of_update [simp]: "rows_of (AList.update k v m) j = (if j = k then v else rows_of m j)"
  by (simp add: rows_of_def update_conv)

lemma rows_of_delete [simp]: "rows_of (AList.delete k m) j = (if j = k then [] else rows_of m j)"
  by (simp add: rows_of_def delete_conv)

lemmas kept_defs = kept_times_def all_points_def archive_times_def live_points_def

lemma roomy_part: "roomy env s \<Longrightarrow> T \<subseteq> kept_times env s k \<Longrightarrow> card T \<le> max_day_points env"
  unfolding roomy_def by (metis card_mono finite_list_times kept_times_def le_trans)

text \<open>
  A state a flush may lead to: every bucket is still there and no new one is, the archive holds what it held,
  and the stored days are those of before except the one worked on.
\<close>

definition same_buckets :: "jsval \<Rightarrow> probe_store \<Rightarrow> probe_store \<Rightarrow> bool" where
  "same_buckets env s s' \<longleftrightarrow>
     (\<forall>k. kept_times env s' k = kept_times env s k) \<and> (\<forall>k. archive_times env s k \<subseteq> archive_times env s' k)"

lemma same_buckets_refl [simp]: "same_buckets env s s"
  by (simp add: same_buckets_def)

lemma same_buckets_trans: "same_buckets env s t \<Longrightarrow> same_buckets env t u \<Longrightarrow> same_buckets env s u"
  unfolding same_buckets_def by blast

lemma same_buckets_roomy: "same_buckets env s t \<Longrightarrow> roomy env s \<Longrightarrow> roomy env t"
  by (simp add: same_buckets_def roomy_def)

lemma archive_merge:
  assumes "merge_archive_day env now out k points s = (s', merged)" "roomy env s" "list_times env (snd k) points \<subseteq> kept_times env s k"
  shows "same_buckets env s s' \<and> ps_days s' = ps_days s \<and> ps_dead s' = ps_dead s \<and> ps_mem s' = ps_mem s \<and>
         (merged \<longrightarrow> list_times env (snd k) points \<subseteq> archive_times env s' k)"
proof (cases "out = Not_written")
  case False
  have "list_times env (snd k) (rows_of (ps_archive s) k @ points) \<subseteq> kept_times env s k" using assms(3) by (auto simp: kept_defs)
  from merged_times [OF roomy_part [OF assms(2) this]]
  have t: "list_times env (snd k) (merge_day env now (rows_of (ps_archive s) k) (snd k) points) =
      list_times env (snd k) (rows_of (ps_archive s) k @ points)" .
  have s': "s' = s\<lparr> ps_archive := AList.update k (merge_day env now (rows_of (ps_archive s) k) (snd k) points) (ps_archive s) \<rparr>"
    using assms(1) False by (simp add: merge_archive_day_def)
  have "kept_times env s' j = kept_times env s j" for j
    using assms(3) t by (cases "j = k") (auto simp: s' kept_defs)
  then show ?thesis using t by (auto simp: same_buckets_def s' archive_times_def)
qed (use assms(1) in \<open>simp add: merge_archive_day_def\<close>)

lemma dead_letter_written:
  assumes "write_dead_letter_day env now stored k points s = (s', saved)" "roomy env s" "list_times env (snd k) points \<subseteq> kept_times env s k"
  shows "same_buckets env s s' \<and> ps_days s' = ps_days s \<and> ps_mem s' = ps_mem s \<and>
         (\<forall>j. list_times env (snd j) (rows_of (ps_dead s) j) \<subseteq> list_times env (snd j) (rows_of (ps_dead s') j)) \<and>
         (saved \<longrightarrow> list_times env (snd k) points \<subseteq> list_times env (snd k) (rows_of (ps_dead s') k))"
proof (cases stored)
  case True
  have "list_times env (snd k) (rows_of (ps_dead s) k @ rows_of (ps_dead s) k @ points) \<subseteq> kept_times env s k"
    using assms(3) by (auto simp: kept_defs)
  from merged_times [OF roomy_part [OF assms(2) this]]
  have t: "list_times env (snd k) (merge_day env now (rows_of (ps_dead s) k) (snd k) (rows_of (ps_dead s) k @ points)) =
      list_times env (snd k) (rows_of (ps_dead s) k @ points)" by simp
  have s': "s' = s\<lparr> ps_dead := AList.update k (merge_day env now (rows_of (ps_dead s) k) (snd k) (rows_of (ps_dead s) k @ points)) (ps_dead s) \<rparr>"
    using assms(1) True by (simp add: write_dead_letter_day_def)
  have "kept_times env s' j = kept_times env s j" for j
    using assms(3) t by (cases "j = k") (auto simp: s' kept_defs)
  then show ?thesis using t by (auto simp: same_buckets_def s' archive_times_def)
qed (use assms(1) in \<open>simp add: write_dead_letter_day_def\<close>)

section \<open>Flushing the stored days\<close>

definition day_step :: "jsval \<Rightarrow> day_key \<Rightarrow> probe_store \<Rightarrow> probe_store \<Rightarrow> bool" where
  "day_step env k s s' \<longleftrightarrow> same_buckets env s s' \<and> store_ok env s' \<and> (\<forall>j. j \<noteq> k \<longrightarrow> map_of (ps_days s') j = map_of (ps_days s) j)"

lemma day_step_trans: "day_step env k s t \<Longrightarrow> day_step env k t u \<Longrightarrow> day_step env k s u"
  unfolding day_step_def by (metis same_buckets_trans)

lemma store_ok_grow: "store_ok env s \<Longrightarrow> same_buckets env s s' \<Longrightarrow> ps_days s' = ps_days s \<Longrightarrow> store_ok env s'"
  unfolding store_ok_def same_buckets_def by (metis subset_trans)

lemma day_step_same_days: "store_ok env s \<Longrightarrow> same_buckets env s s' \<Longrightarrow> ps_days s' = ps_days s \<Longrightarrow> day_step env k s s'"
  by (simp add: day_step_def store_ok_grow)

lemma day_step_refl: "store_ok env s \<Longrightarrow> day_step env k s s"
  by (simp add: day_step_same_days)

lemma live_kept: "map_of (ps_days s) k = Some e \<Longrightarrow> list_times env (snd k) (de_points e) \<subseteq> kept_times env s k"
  by (auto simp: kept_defs)

lemma day_step_attempts [simp]: "day_step env k s (t\<lparr> ps_archive_attempts := a \<rparr>) \<longleftrightarrow> day_step env k s t"
  by (simp add: day_step_def same_buckets_def store_ok_def kept_defs)

lemma released:
  assumes "store_ok env s" "map_of (ps_days s) k = Some e"
    and "list_times env (snd k) (de_points e) \<subseteq> archive_times env s k \<union> list_times env (snd k) (rows_of (ps_dead s) k)"
  shows "day_step env k s (release_day k s)"
proof -
  have "kept_times env (release_day k s) j = kept_times env s j" for j
    using assms(2,3) by (cases "j = k") (auto simp: kept_defs release_day_def delete_conv)
  moreover have "archive_times env (release_day k s) j = archive_times env s j" for j
    by (simp add: archive_times_def release_day_def)
  moreover have "store_ok env (release_day k s)"
    using assms(1) by (auto simp: store_ok_def release_day_def archive_times_def delete_conv distinct_delete split: if_splits)
  ultimately show ?thesis by (simp add: day_step_def same_buckets_def) (simp add: release_day_def delete_conv)
qed

lemma marked:
  assumes "store_ok env s" "map_of (ps_days s) k = Some e" "list_times env (snd k) (de_points e) \<subseteq> archive_times env s k"
  shows "day_step env k s (mark_archived now fails k e s)"
proof -
  have "kept_times env (mark_archived now fails k e s) j = kept_times env s j" for j
    using assms(2) by (cases "j = k") (auto simp: kept_defs mark_archived_def update_conv)
  moreover have "archive_times env (mark_archived now fails k e s) j = archive_times env s j" for j
    by (simp add: archive_times_def mark_archived_def)
  moreover have "store_ok env (mark_archived now fails k e s)"
    using assms(1,3) by (auto simp: store_ok_def mark_archived_def archive_times_def update_conv distinct_update split: if_splits)
  ultimately show ?thesis by (simp add: day_step_def same_buckets_def) (simp add: mark_archived_def update_conv)
qed

lemma dead_lettered:
  assumes "write_dead_letter_day env now stored k (de_points e) s = (s', saved)"
    and "store_ok env s" "roomy env s" "map_of (ps_days s) k = Some e"
  shows "day_step env k s (if saved then release_day k s' else s'\<lparr> ps_archive_attempts := a \<rparr>)"
proof -
  note w = dead_letter_written [OF assms(1,3) live_kept [OF assms(4)]]
  then have step: "day_step env k s s'" using assms(2) by (simp add: day_step_same_days)
  show ?thesis
  proof (cases saved)
    case True
    have "day_step env k s' (release_day k s')"
      by (rule released) (use step w True assms(4) in \<open>auto simp: day_step_def\<close>)
    with step True show ?thesis by (simp add: day_step_trans)
  qed (simp add: step)
qed

lemma archive_failed_keeps:
  assumes "store_ok env (df_store f)" "roomy env (df_store f)" "map_of (ps_days (df_store f)) k = Some e"
  shows "day_step env k (df_store f) (df_store (archive_failed env now out k (de_points e) f))"
proof -
  obtain s' saved where w: "write_dead_letter_day env now (yo_dead out) k (de_points e) (df_store f) = (s', saved)" by fastforce
  show ?thesis
    using dead_lettered [OF w assms] day_step_refl [OF assms(1)] by (simp add: archive_failed_def Let_def w)
qed

lemma archive_day_keeps:
  assumes "store_ok env (df_store f)" "roomy env (df_store f)" "map_of (ps_days (df_store f)) k = Some e"
  shows "day_step env k (df_store f) (df_store (archive_day env now out fails k e f))"
proof -
  obtain s1 merged where m: "merge_archive_day env now (yo_merge out) k (de_points e) (df_store f) = (s1, merged)" by fastforce
  note am = archive_merge [OF m assms(2) live_kept [OF assms(3)]]
  then have step: "day_step env k (df_store f) s1" using assms(1) by (simp add: day_step_same_days)
  then have ok: "store_ok env s1" by (simp add: day_step_def)
  have e: "map_of (ps_days s1) k = Some e" using am assms(3) by simp
  have "roomy env s1" using am assms(2) same_buckets_roomy by blast
  with ok e have failed: "day_step env k s1 (df_store (archive_failed env now out k (de_points e) (f\<lparr> df_store := s1 \<rparr>)))"
    using archive_failed_keeps [of env "f\<lparr> df_store := s1 \<rparr>" k e now out] by simp
  have "day_step env k s1 (mark_archived now fails k e s1)" if merged using marked [OF ok e] am that by simp
  with failed step show ?thesis by (auto simp: archive_day_def m intro: day_step_trans)
qed

lemma confirm_day_keeps:
  assumes "store_ok env (df_store f)" "roomy env (df_store f)" "map_of (ps_days (df_store f)) k = Some e" "de_archived e \<noteq> 0"
  shows "day_step env k (df_store f) (df_store (confirm_day env now out k e f))"
proof -
  obtain s' saved where w: "write_dead_letter_day env now (yo_dead out) k (de_points e) (df_store f) = (s', saved)" by fastforce
  have "list_times env (snd k) (de_points e) \<subseteq> archive_times env (df_store f) k"
    using assms(1,3,4) unfolding store_ok_def by blast
  then have "day_step env k (df_store f) (release_day k (df_store f))"
    using released [OF assms(1,3)] by blast
  then show ?thesis
    using dead_lettered [OF w assms(1-3)] day_step_refl [OF assms(1)] archive_day_keeps [OF assms(1-3)]
    by (simp add: confirm_day_def Let_def w split: option.split)
qed

lemma flush_day_keeps:
  assumes "store_ok env (df_store f)" "roomy env (df_store f)" "map_of (ps_days (df_store f)) k = Some e"
  shows "day_step env k (df_store f) (df_store (flush_day env now current oc (k, e) f))"
  using assms day_step_refl [OF assms(1)] confirm_day_keeps [of env "f\<lparr> df_budget := df_budget f - 1 \<rparr>" k e]
    archive_day_keeps [of env "f\<lparr> df_budget := df_budget f - 1 \<rparr>" k e]
  by (simp add: flush_day_def Let_def)

lemma flush_days_keep:
  assumes "store_ok env (df_store f)" "roomy env (df_store f)" "distinct (map fst rows)"
    and "\<forall>(k, e) \<in> set rows. map_of (ps_days (df_store f)) k = Some e"
  shows "same_buckets env (df_store f) (df_store (fold (flush_day env now current oc) rows f)) \<and>
         store_ok env (df_store (fold (flush_day env now current oc) rows f))"
  using assms
proof (induction rows arbitrary: f)
  case (Cons row rows)
  obtain k e where row: "row = (k, e)" by fastforce
  have step: "day_step env k (df_store f) (df_store (flush_day env now current oc row f))"
    using Cons.prems by (simp add: row flush_day_keeps)
  then have "roomy env (df_store (flush_day env now current oc row f))"
    using Cons.prems(2) same_buckets_roomy by (simp add: day_step_def) blast
  moreover have "\<forall>(j, d) \<in> set rows. map_of (ps_days (df_store (flush_day env now current oc row f))) j = Some d"
  proof safe
    fix a b d assume "((a, b), d) \<in> set rows"
    with Cons.prems(3,4) have "(a, b) \<noteq> k" "map_of (ps_days (df_store f)) (a, b) = Some d" by (force simp: row)+
    with step show "map_of (ps_days (df_store (flush_day env now current oc row f))) (a, b) = Some d" by (simp add: day_step_def)
  qed
  ultimately show ?case
    using step Cons.IH [of "flush_day env now current oc row f"] Cons.prems(3) same_buckets_trans
    by (simp add: day_step_def) blast
qed simp

lemma replay_keeps:
  assumes "store_ok env s" "roomy env s"
  shows "day_step env k s (fst (replay_dead_letter env now out k s))"
proof (cases "map_of (ps_dead s) k")
  case (Some points)
  obtain s1 merged where m: "merge_archive_day env now out k points s = (s1, merged)" by fastforce
  have "list_times env (snd k) points \<subseteq> kept_times env s k" by (auto simp: kept_defs rows_of_def Some)
  note am = archive_merge [OF m assms(2) this]
  let ?s2 = "s1\<lparr> ps_dead := AList.delete k (ps_dead s1) \<rparr>"
  have dead: "rows_of (ps_dead s1) k = points" using am Some by (simp add: rows_of_def)
  have "kept_times env ?s2 j = kept_times env s1 j" if merged for j
    using am that dead by (cases "j = k") (auto simp: kept_defs)
  then have "same_buckets env s ?s2" if merged using am that by (simp add: same_buckets_def archive_times_def)
  then have "day_step env k s ?s2" if merged using assms(1) am that by (simp add: day_step_same_days)
  moreover have "day_step env k s s1" using assms(1) am by (simp add: day_step_same_days)
  ultimately show ?thesis by (simp add: replay_dead_letter_def Some m)
qed (simp add: replay_dead_letter_def day_step_refl [OF assms(1)])

lemma drain_keeps:
  assumes "store_ok env s" "roomy env s"
  shows "same_buckets env s (drain_dead_letters env now oc limit s) \<and> store_ok env (drain_dead_letters env now oc limit s)"
proof -
  define replay where "replay = (\<lambda>(k, _ :: probe_point list) st. if is_day_key (snd k) then fst (replay_dead_letter env now (oc k) k st) else st)"
  have "same_buckets env s (fold replay rows s) \<and> store_ok env (fold replay rows s)" for rows
    using assms
  proof (induction rows arbitrary: s)
    case (Cons row rows)
    obtain k ps where row: "row = (k, ps)" by fastforce
    have "same_buckets env s (replay row s) \<and> store_ok env (replay row s)"
      using replay_keeps [OF Cons.prems] Cons.prems by (simp add: row replay_def day_step_def)
    with Cons.IH [of "replay row s"] Cons.prems(2) same_buckets_roomy same_buckets_trans show ?case by simp blast
  qed simp
  then show ?thesis by (simp add: drain_dead_letters_def replay_def)
qed

lemma flush_completed_keeps:
  assumes "store_ok env s" "roomy env s"
  shows "same_buckets env s (fst (flush_completed_days env now has_archive current oc replay s)) \<and>
         store_ok env (fst (flush_completed_days env now has_archive current oc replay s))"
proof -
  define f where "f = fold (flush_day env now current oc) (stored_days s)
                     \<lparr> df_store = s, df_budget = max_archive_writes_per_alarm, df_pending = False, df_flushed = 0 \<rparr>"
  have d: "distinct (map fst (ps_days s))" using assms(1) by (simp add: store_ok_def)
  have "distinct (map fst (stored_days s))"
    using d by (simp add: stored_days_def distinct_map inj_on_def)
  moreover have "\<forall>(k, e) \<in> set (stored_days s). map_of (ps_days s) k = Some e"
    using d by (auto simp: stored_days_def)
  ultimately have f: "same_buckets env s (df_store f) \<and> store_ok env (df_store f)"
    using flush_days_keep [of env "\<lparr> df_store = s, df_budget = max_archive_writes_per_alarm, df_pending = False, df_flushed = 0 \<rparr>"
        "stored_days s" now current oc] assms by (simp add: f_def)
  then have "roomy env (df_store f)" using assms(2) same_buckets_roomy by blast
  with f drain_keeps [of env "df_store f" now replay 3] assms(1) show ?thesis
    by (auto simp: flush_completed_days_def Let_def f_def [symmetric] intro: same_buckets_trans)
qed

section \<open>Flushing the memory\<close>

text \<open>What of a day outlives an eviction of the instance\<close>

definition durable_times :: "jsval \<Rightarrow> probe_store \<Rightarrow> day_key \<Rightarrow> int set" where
  "durable_times env s k = list_times env (snd k) (rows_of (ps_archive s) k @ live_points s k @ rows_of (ps_dead s) k)"

lemma kept_durable: "kept_times env s k = durable_times env s k \<union> list_times env (snd k) (rows_of (ps_mem s) k)"
  by (auto simp: kept_defs durable_times_def)

text \<open>
  The stored points of a past day that has points in memory are archived or in memory too: what the flush of the memory
  needs, since it overwrites them
\<close>

definition covered :: "jsval \<Rightarrow> probe_store \<Rightarrow> day_key \<Rightarrow> probe_point list \<Rightarrow> bool" where
  "covered env s k points \<longleftrightarrow> list_times env (snd k) (live_points s k) \<subseteq> archive_times env s k \<union> list_times env (snd k) points"

definition mem_step :: "jsval \<Rightarrow> day_key \<Rightarrow> probe_store \<Rightarrow> probe_store \<Rightarrow> bool" where
  "mem_step env k s s' \<longleftrightarrow> day_step env k s s' \<and> ps_mem s' = ps_mem s \<and> (\<forall>j. durable_times env s j \<subseteq> durable_times env s' j)"

lemma mem_step_trans: "mem_step env k s t \<Longrightarrow> mem_step env k t u \<Longrightarrow> mem_step env k s u"
  unfolding mem_step_def by (metis day_step_trans subset_trans)

lemma mem_step_attempts [simp]: "mem_step env k s (t\<lparr> ps_mem_attempts := a \<rparr>) \<longleftrightarrow> mem_step env k s t"
  by (simp add: mem_step_def day_step_def same_buckets_def store_ok_def kept_defs durable_times_def)

lemma mem_day_failed_keeps:
  assumes "mem_day_failed env now out k points s = (s', stays)" "store_ok env s" "roomy env s"
    and "list_times env (snd k) points \<subseteq> kept_times env s k"
  shows "mem_step env k s s' \<and> (stays \<or> list_times env (snd k) points \<subseteq> durable_times env s' k)"
proof -
  obtain s1 saved where w: "write_dead_letter_day env now (yo_dead out) k points s = (s1, saved)" by fastforce
  note dw = dead_letter_written [OF w assms(3,4)]
  then have "mem_step env k s s1"
    using assms(2) by (auto simp: mem_step_def day_step_same_days same_buckets_def kept_defs durable_times_def) blast+
  moreover have "mem_step env k s s" using assms(2) by (simp add: mem_step_def day_step_refl)
  ultimately show ?thesis
    using assms(1) dw by (auto simp: mem_day_failed_def Let_def w durable_times_def split: if_splits)
qed

text \<open>Putting the entry of a day\<close>

lemma day_put:
  fixes s :: probe_store and e :: day_entry and k :: day_key and a :: "(day_key \<times> nat) list"
  defines "s' \<equiv> s\<lparr> ps_days := AList.update k e (ps_days s), ps_mem_attempts := a \<rparr>"
  assumes "store_ok env s"
    and live: "list_times env (snd k) (live_points s k) \<subseteq> archive_times env s k \<union> list_times env (snd k) (de_points e)"
    and new: "list_times env (snd k) (de_points e) \<subseteq> kept_times env s k"
    and arch: "de_archived e \<noteq> 0 \<longrightarrow> list_times env (snd k) (de_points e) \<subseteq> archive_times env s k"
  shows "mem_step env k s s' \<and> list_times env (snd k) (de_points e) \<subseteq> durable_times env s' k"
proof -
  have other: "live_points s' j = (if j = k then de_points e else live_points s j)" for j
    by (simp add: s'_def live_points_def update_conv)
  have rest: "ps_archive s' = ps_archive s" "ps_dead s' = ps_dead s" "ps_mem s' = ps_mem s" by (simp_all add: s'_def)
  have "durable_times env s j \<subseteq> durable_times env s' j" for j
    using live by (auto simp: durable_times_def other rest archive_times_def)
  moreover have "kept_times env s' j = kept_times env s j" for j
  proof (cases "j = k")
    case True
    have "kept_times env s' k \<subseteq> kept_times env s k"
      using new by (simp add: kept_times_def all_points_def other rest) blast
    moreover have "kept_times env s k \<subseteq> kept_times env s' k"
      using live by (simp add: kept_times_def all_points_def other rest archive_times_def) blast
    ultimately show ?thesis using True by blast
  qed (simp add: kept_times_def all_points_def other rest)
  moreover have "store_ok env s'"
    using assms(2) arch by (auto simp: store_ok_def s'_def archive_times_def update_conv distinct_update split: if_splits)
  moreover have "archive_times env s' j = archive_times env s j" for j by (simp add: archive_times_def rest)
  moreover have "map_of (ps_days s') j = map_of (ps_days s) j" if "j \<noteq> k" for j using that by (simp add: s'_def update_conv)
  moreover have "list_times env (snd k) (de_points e) \<subseteq> durable_times env s' k"
    unfolding durable_times_def list_times_append other by auto
  ultimately show ?thesis by (simp add: mem_step_def day_step_def same_buckets_def rest)
qed

lemma merged_step:
  assumes "merge_archive_day env now out k points s = (s', merged)" "store_ok env s" "roomy env s"
    and "list_times env (snd k) points \<subseteq> kept_times env s k"
  shows "mem_step env k s s'"
proof -
  note am = archive_merge [OF assms(1,3,4)]
  have "durable_times env s j \<subseteq> durable_times env s' j" for j
  proof -
    have "archive_times env s j \<subseteq> archive_times env s' j" using am unfolding same_buckets_def by blast
    moreover have "live_points s' j = live_points s j" using am by (simp add: live_points_def)
    ultimately show ?thesis using am by (auto simp: durable_times_def archive_times_def)
  qed
  then show ?thesis using am assms(2) by (simp add: mem_step_def day_step_same_days)
qed

lemma flush_mem_entry_keeps:
  assumes "flush_mem_entry env now has_archive current out k points s = (s', stays)" "store_ok env s" "roomy env s"
    and points: "rows_of (ps_mem s) k = points" and day: "is_day_key (snd k)"
    and cov: "has_archive \<Longrightarrow> snd k < current \<Longrightarrow> covered env s k points"
  shows "mem_step env k s s' \<and> (stays \<or> list_times env (snd k) points \<subseteq> durable_times env s' k)"
proof -
  have kept: "list_times env (snd k) points \<subseteq> kept_times env s k" using points by (auto simp: kept_defs)
  have live: "list_times env (snd k) (live_points s k) \<subseteq> kept_times env s k" by (auto simp: kept_times_def all_points_def)
  show ?thesis
  proof (cases "snd k < current \<and> has_archive")
    case True
    obtain s1 merged where m: "merge_archive_day env now (yo_merge out) k points s = (s1, merged)" by fastforce
    note am = archive_merge [OF m assms(3) kept]
    note step = merged_step [OF m assms(2,3) kept]
    then have "same_buckets env s s1" "store_ok env s1" by (simp_all add: mem_step_def day_step_def)
    note s1 = this(2) same_buckets_roomy [OF this(1) assms(3)] kept [folded this(1) [unfolded same_buckets_def, THEN conjunct1, rule_format]]
    show ?thesis
    proof (cases "merged \<and> yo_put out")
      case put: True
      have "live_points s1 k = live_points s k" using am by (simp add: live_points_def)
      moreover have "archive_times env s k \<subseteq> archive_times env s1 k" using am unfolding same_buckets_def by blast
      ultimately have "list_times env (snd k) (live_points s1 k) \<subseteq> archive_times env s1 k \<union> list_times env (snd k) points"
        using cov True unfolding covered_def by auto
      then have "mem_step env k s1 s' \<and> list_times env (snd k) points \<subseteq> durable_times env s' k"
        using day_put [OF s1(1), of k "\<lparr> de_points = points, de_archived = now, de_fails = 0 \<rparr>" "AList.delete k (ps_mem_attempts s1)"]
          assms(1) put True day am s1(3) by (auto simp: flush_mem_entry_def m)
      with step show ?thesis by (blast intro: mem_step_trans)
    next
      case False
      then have "mem_day_failed env now out k points s1 = (s', stays)"
        using assms(1) True day by (simp add: flush_mem_entry_def m split: if_splits)
      from mem_day_failed_keeps [OF this s1] step show ?thesis by (blast intro: mem_step_trans)
    qed
  next
    case False
    show ?thesis
    proof (cases "yo_put out")
      case True
      let ?m = "merge_day env now (live_points s k) (snd k) points"
      have t: "list_times env (snd k) ?m = list_times env (snd k) (live_points s k @ points)"
        by (rule merged_times, rule roomy_part [OF assms(3), of _ k]) (use kept live in simp)
      let ?e = "\<lparr> de_points = ?m, de_archived = 0, de_fails = 0 \<rparr>"
      have s': "s' = s\<lparr> ps_days := AList.update k ?e (ps_days s), ps_mem_attempts := AList.delete k (ps_mem_attempts s) \<rparr>"
        using assms(1) True False day by (auto simp: flush_mem_entry_def)
      have "mem_step env k s s' \<and> list_times env (snd k) (de_points ?e) \<subseteq> durable_times env s' k"
        unfolding s' by (rule day_put [OF assms(2)]) (use t kept live in auto)
      with t show ?thesis by simp
    next
      case put: False
      then have "mem_day_failed env now out k points s = (s', stays)"
        using assms(1) False day by (auto simp: flush_mem_entry_def)
      from mem_day_failed_keeps [OF this assms(2,3) kept] show ?thesis .
    qed
  qed
qed

lemma flush_mem_loop_keeps:
  assumes "flush_mem_loop env now has_archive current oc entries s = (s', failed)" "store_ok env s" "roomy env s"
    and "distinct (map fst entries)" "\<forall>(k, points) \<in> set entries. rows_of (ps_mem s) k = points \<and> is_day_key (snd k)"
    and "has_archive \<Longrightarrow> \<forall>(k, points) \<in> set entries. snd k < current \<longrightarrow> covered env s k points"
  shows "same_buckets env s s' \<and> store_ok env s' \<and> ps_mem s' = ps_mem s \<and> (\<forall>j. durable_times env s j \<subseteq> durable_times env s' j) \<and>
         set failed \<subseteq> set entries \<and> distinct (map fst failed) \<and>
         (\<forall>(k, points) \<in> set entries. (k, points) \<in> set failed \<or> list_times env (snd k) points \<subseteq> durable_times env s' k)"
  using assms
proof (induction entries arbitrary: s failed)
  case (Cons entry rest)
  obtain k points where entry: "entry = (k, points)" by fastforce
  obtain s1 stays where e: "flush_mem_entry env now has_archive current (oc k) k points s = (s1, stays)" by fastforce
  obtain failed' where l: "flush_mem_loop env now has_archive current oc rest s1 = (s', failed')"
    and failed: "failed = (if stays then entry # failed' else failed')"
    using Cons.prems(1) by (auto simp: entry e split: prod.splits)
  have step: "mem_step env k s s1 \<and> (stays \<or> list_times env (snd k) points \<subseteq> durable_times env s1 k)"
    by (rule flush_mem_entry_keeps [OF e Cons.prems(2,3)]) (use Cons.prems(5,6) in \<open>auto simp: entry\<close>)
  then have same: "same_buckets env s s1" "store_ok env s1" "ps_mem s1 = ps_mem s" "\<forall>j. durable_times env s j \<subseteq> durable_times env s1 j"
    and days: "\<forall>j. j \<noteq> k \<longrightarrow> map_of (ps_days s1) j = map_of (ps_days s) j"
    by (simp_all add: mem_step_def day_step_def)
  have cov: "\<forall>(j, ps) \<in> set rest. snd j < current \<longrightarrow> covered env s1 j ps" if "has_archive"
  proof safe
    fix a b ps assume r: "((a, b), ps) \<in> set rest" "snd (a, b) < current"
    then have "(a, b) \<noteq> k" using Cons.prems(4) by (force simp: entry)
    then have "live_points s1 (a, b) = live_points s (a, b)" using days by (simp add: live_points_def)
    moreover have "archive_times env s (a, b) \<subseteq> archive_times env s1 (a, b)" using same(1) unfolding same_buckets_def by blast
    moreover have "covered env s (a, b) ps" using Cons.prems(6) [OF that] r by (auto simp: entry)
    ultimately show "covered env s1 (a, b) ps" unfolding covered_def by auto
  qed
  have "\<forall>(j, ps) \<in> set rest. rows_of (ps_mem s1) j = ps \<and> is_day_key (snd j)" "distinct (map fst rest)"
    using Cons.prems(4,5) same(3) by (auto simp: entry)
  from Cons.IH [OF l same(2) same_buckets_roomy [OF same(1) Cons.prems(3)] this(2,1) cov]
  have IH: "same_buckets env s1 s' \<and> store_ok env s' \<and> ps_mem s' = ps_mem s1 \<and> (\<forall>j. durable_times env s1 j \<subseteq> durable_times env s' j)"
    "set failed' \<subseteq> set rest" "distinct (map fst failed')"
    "\<forall>(k, points) \<in> set rest. (k, points) \<in> set failed' \<or> list_times env (snd k) points \<subseteq> durable_times env s' k" by auto
  have "same_buckets env s s'" using same(1) IH(1) same_buckets_trans by blast
  moreover have "durable_times env s j \<subseteq> durable_times env s' j" for j using same(4) IH(1) by blast
  moreover have "stays \<or> list_times env (snd k) points \<subseteq> durable_times env s' k" using step IH(1) by blast
  moreover have "k \<notin> fst ` set failed'" using Cons.prems(4) IH(2) by (auto simp: entry)
  ultimately show ?case using IH same(3) by (auto simp: failed entry)
qed simp

lemma flush_mem_keeps:
  assumes "store_ok env s" "roomy env s" "distinct (map fst (ps_mem s))" "\<forall>(k, points) \<in> set (ps_mem s). is_day_key (snd k)"
    and "has_archive \<Longrightarrow> \<forall>(k, points) \<in> set (ps_mem s). snd k < day_from_sec now env now \<longrightarrow> covered env s k points"
  shows "same_buckets env s (flush_mem_days env now has_archive oc s) \<and> store_ok env (flush_mem_days env now has_archive oc s)"
proof -
  obtain s' failed where l: "flush_mem_loop env now has_archive (day_from_sec now env now) oc (ps_mem s) s = (s', failed)" by fastforce
  have mem: "rows_of (ps_mem s) k = points" if "(k, points) \<in> set (ps_mem s)" for k points
    using assms(3) that by (simp add: rows_of_def)
  then have "\<forall>(k, points) \<in> set (ps_mem s). rows_of (ps_mem s) k = points \<and> is_day_key (snd k)" using assms(4) by auto
  note k = flush_mem_loop_keeps [OF l assms(1-3) this assms(5)]
  let ?s = "s'\<lparr> ps_mem := failed \<rparr>"
  have A: "list_times env (snd j) (rows_of (ps_mem s) j) \<subseteq> durable_times env s' j \<union> list_times env (snd j) (rows_of failed j)" for j
  proof (cases "map_of (ps_mem s) j")
    case (Some points)
    then have "(j, points) \<in> set (ps_mem s)" by (rule map_of_SomeD)
    then have "(j, points) \<in> set failed \<or> list_times env (snd j) points \<subseteq> durable_times env s' j" using k by auto
    moreover have "rows_of failed j = points" if "(j, points) \<in> set failed" using k that by (simp add: rows_of_def)
    ultimately show ?thesis by (auto simp: rows_of_def Some)
  qed (simp add: rows_of_def)
  have B: "list_times env (snd j) (rows_of failed j) \<subseteq> list_times env (snd j) (rows_of (ps_mem s) j)" for j
  proof (cases "map_of failed j")
    case (Some points)
    then have "(j, points) \<in> set (ps_mem s)" using k map_of_SomeD by fastforce
    with mem show ?thesis by (simp add: rows_of_def [of failed] Some)
  qed (simp add: rows_of_def)
  have "durable_times env ?s j = durable_times env s' j" for j by (simp add: durable_times_def live_points_def)
  moreover have "ps_mem s' = ps_mem s" using k by simp
  ultimately have "kept_times env ?s j = kept_times env s' j" for j
    using A [of j] B [of j] unfolding kept_durable by auto
  then have "same_buckets env s ?s" using k by (simp add: same_buckets_def archive_times_def)
  moreover have "store_ok env ?s" using k by (simp add: store_ok_def archive_times_def)
  ultimately show ?thesis by (simp add: flush_mem_days_def l)
qed

lemma alarm_keeps:
  assumes "store_ok env s" "roomy env s" "distinct (map fst (ps_mem s))" "\<forall>(k, points) \<in> set (ps_mem s). is_day_key (snd k)"
    and "has_archive \<Longrightarrow> \<forall>(k, points) \<in> set (ps_mem s). snd k < day_from_sec now env now \<longrightarrow> covered env s k points"
  shows "same_buckets env s (probe_alarm env now has_archive mem_oc oc replay s)"
proof -
  have sched: "same_buckets env t (schedule_hub_flush env ms day pending t)" for t ms day pending
    by (auto simp: schedule_hub_flush_def same_buckets_def kept_defs Let_def split: option.split)
  let ?m = "flush_mem_days env now has_archive mem_oc s"
  note m = flush_mem_keeps [OF assms, where oc = mem_oc]
  with assms(2) have "same_buckets env ?m (fst (flush_completed_days env now has_archive (day_from_sec now env now) oc replay ?m))"
    using flush_completed_keeps same_buckets_roomy by blast
  with m show ?thesis
    unfolding probe_alarm_def Let_def case_prod_beta by (blast intro: same_buckets_trans sched)
qed

section \<open>What a flush of the memory loses\<close>

lemma flush_mem_entry_other:
  assumes "flush_mem_entry env now has_archive current out j points s = (s', stays)" "k \<noteq> j"
  shows "rows_of (ps_archive s') k = rows_of (ps_archive s) k" "live_points s' k = live_points s k" "rows_of (ps_dead s') k = rows_of (ps_dead s) k"
  using assms
  by (auto simp: flush_mem_entry_def merge_archive_day_def mem_day_failed_def write_dead_letter_day_def live_points_def update_conv Let_def
      split: if_splits prod.splits)

lemma flush_mem_entry_overwrites:
  assumes "flush_mem_entry env now True current out k points s = (s', stays)" "is_day_key (snd k)" "snd k < current"
    and "yo_merge out = Merged" "yo_put out"
  shows "\<not> stays" "durable_times env s' k \<subseteq> archive_times env s k \<union> list_times env (snd k) points \<union> list_times env (snd k) (rows_of (ps_dead s) k)"
  using assms merged_subset [of env "snd k" now "rows_of (ps_archive s) k" points]
  by (auto simp: flush_mem_entry_def merge_archive_day_def durable_times_def live_points_def archive_times_def update_conv)

lemma flush_mem_loop_overwrites:
  assumes "flush_mem_loop env now True current oc entries s = (s', failed)" "distinct (map fst entries)"
    and "is_day_key (snd k)" "snd k < current" "yo_merge (oc k) = Merged" "yo_put (oc k)"
  shows "set failed \<subseteq> set entries \<and>
    (k \<notin> fst ` set entries \<longrightarrow> rows_of (ps_archive s') k = rows_of (ps_archive s) k \<and> live_points s' k = live_points s k \<and>
       rows_of (ps_dead s') k = rows_of (ps_dead s) k) \<and>
    ((k, points) \<in> set entries \<longrightarrow> k \<notin> fst ` set failed \<and>
       durable_times env s' k \<subseteq> archive_times env s k \<union> list_times env (snd k) points \<union> list_times env (snd k) (rows_of (ps_dead s) k))"
  using assms(1,2)
proof (induction entries arbitrary: s failed)
  case (Cons entry rest)
  obtain j ps where entry: "entry = (j, ps)" by fastforce
  obtain s1 stays where e: "flush_mem_entry env now True current (oc j) j ps s = (s1, stays)" by fastforce
  obtain failed' where l: "flush_mem_loop env now True current oc rest s1 = (s', failed')"
    and failed: "failed = (if stays then entry # failed' else failed')"
    using Cons.prems(1) by (auto simp: entry e split: prod.splits)
  have d: "distinct (map fst rest)" "j \<notin> fst ` set rest" using Cons.prems(2) by (auto simp: entry)
  note IH = Cons.IH [OF l d(1)]
  have sub: "set failed \<subseteq> set (entry # rest)" using IH by (auto simp: failed)
  show ?case
  proof (cases "k = j")
    case True
    then have k: "k \<notin> fst ` set rest" using d(2) by simp
    with IH have same: "durable_times env s' k = durable_times env s1 k" "k \<notin> fst ` set failed'"
      by (auto simp: durable_times_def)
    note o = flush_mem_entry_overwrites [OF e [folded True] assms(3-6)]
    have "ps = points" if "(k, points) \<in> set (entry # rest)" using that k by (force simp: entry)
    with sub same o show ?thesis by (auto simp: failed entry True)
  next
    case False
    with sub IH flush_mem_entry_other [OF e False] show ?thesis by (auto simp: failed entry archive_times_def)
  qed
qed simp

section \<open>Properties\<close>

text \<open>C9: An alarm keeps every bucket of every day, whatever R2 and the storage answer, provided that the stored points of
  the past days whose flush from memory is due are archived or in memory too: a day leaves the memory only into the
  storage or the dead letters, the storage only into the archive or the dead letters, and a dead letter only into the
  archive.
\<close>

theorem alarm_keeps_every_bucket:
  assumes "store_ok env s" "roomy env s" "distinct (map fst (ps_mem s))" "\<forall>(k, points) \<in> set (ps_mem s). is_day_key (snd k)"
    and "\<forall>(k, points) \<in> set (ps_mem s). snd k < day_from_sec now env now \<longrightarrow> covered env s k points"
  shows "kept_times env (probe_alarm env now has_archive mem_oc oc replay s) k = kept_times env s k"
  using alarm_keeps [OF assms] unfolding same_buckets_def by blast

text \<open>C34: A flush of the completed days alone keeps every bucket with no condition on the memory.
\<close>

theorem completed_days_keep_every_bucket:
  assumes "store_ok env s" "roomy env s"
  shows "kept_times env (fst (flush_completed_days env now has_archive current oc replay s)) k = kept_times env s k"
  using flush_completed_keeps [OF assms] unfolding same_buckets_def by blast

text \<open>The condition of the alarm is needed. When the points of a past day in memory are merged into the archive, the
  stored entry of the day is overwritten with them: a bucket that was only in the stored entry (the points flushed
  before midnight) is nowhere afterwards.
\<close>

theorem midnight_flush_loses_stored_points:
  assumes "(k, points) \<in> set (ps_mem s)" "distinct (map fst (ps_mem s))" "is_day_key (snd k)" "snd k < day_from_sec now env now"
    and "yo_merge (oc k) = Merged" "yo_put (oc k)"
    and "t \<in> list_times env (snd k) (live_points s k)"
    and "t \<notin> archive_times env s k" "t \<notin> list_times env (snd k) points" "t \<notin> list_times env (snd k) (rows_of (ps_dead s) k)"
  shows "t \<in> kept_times env s k \<and> t \<notin> kept_times env (flush_mem_days env now True oc s) k"
proof
  show "t \<in> kept_times env s k" using assms(7) by (simp add: kept_defs)
  obtain s' failed where l: "flush_mem_loop env now True (day_from_sec now env now) oc (ps_mem s) s = (s', failed)" by fastforce
  note o = flush_mem_loop_overwrites [OF l assms(2-6), of points]
  then have "map_of failed k = None" using assms(1) by (simp add: map_of_eq_None_iff)
  then have "rows_of failed k = []" by (simp add: rows_of_def)
  moreover have "durable_times env (s'\<lparr> ps_mem := failed \<rparr>) k = durable_times env s' k"
    by (simp add: durable_times_def live_points_def)
  ultimately have "kept_times env (flush_mem_days env now True oc s) k = durable_times env s' k"
    by (simp add: kept_durable flush_mem_days_def l)
  then show "t \<notin> kept_times env (flush_mem_days env now True oc s) k" using o assms(1,8-10) by auto
qed

text \<open>A read of a day whose archive object can be read returns exactly the buckets the hub keeps of that day, wherever
  they are, each once and in increasing order.
\<close>

theorem read_day_returns_the_kept:
  assumes "roomy env s"
  shows "pp_at ` set (read_day env now True k s) = kept_times env s k \<and> sorted_wrt (<) (map pp_at (read_day env now True k s))"
proof -
  have "list_times env (snd k) (rows_of (ps_archive s) k @ live_points s k @ rows_of (ps_mem s) k @ rows_of (ps_dead s) k) = kept_times env s k"
    by (simp add: kept_defs)
  with merged_times [OF roomy_part [OF assms equalityD1 [OF this]], of now]
  show ?thesis by (simp add: merged_list_times read_day_def merged_increasing)
qed

section \<open>Examples\<close>

text \<open>Five minutes after midnight: one point of the day that ended is in memory, the others were stored before\<close>

definition sample_point :: "int \<Rightarrow> probe_point" where
  "sample_point t = \<lparr> pp_at = t, pp_total = jsint 1, pp_ok_count = jsint 1, pp_sum = jsint 20, pp_last_ok = 1, pp_latency = Some (jsint 20),
     pp_status = Some (jsint 200), pp_error = None, pp_region = ''auto'', pp_colo = None \<rparr>"

definition sample_hub :: "int \<Rightarrow> probe_store" where
  "sample_hub t = \<lparr> ps_mem = [((''web'', ''2024-01-01''), [sample_point 1704124500])], ps_mem_attempts = [], ps_archive_attempts = [],
     ps_days = [((''web'', ''2024-01-01''), \<lparr> de_points = [sample_point t], de_archived = 0, de_fails = 0 \<rparr>)],
     ps_dead = [], ps_archive = [], ps_migrated = [], ps_alarm = None \<rparr>"

definition sample_answer :: day_outcome where
  "sample_answer = \<lparr> yo_merge = Merged, yo_put = True, yo_persisted = True, yo_dead = True \<rparr>"

lemma sample_hub_points: "all_points (sample_hub t) k = (if k = (''web'', ''2024-01-01'') then [sample_point t, sample_point 1704124500] else [])"
  by (simp add: all_points_def sample_hub_def rows_of_def live_points_def)

lemma sample_hub_roomy: "roomy (Obj []) (sample_hub t)"
proof -
  have "kept_times (Obj []) (sample_hub t) k \<subseteq> set [t, 1704124500]" for k
    by (auto simp: kept_times_def sample_hub_points list_times_def sample_point_def)
  then have "card (kept_times (Obj []) (sample_hub t) k) \<le> card (set [t, 1704124500])" for k by (intro card_mono) simp_all
  moreover have "card (set [t, 1704124500]) \<le> length [t, 1704124500]" by (rule card_length)
  moreover have "max_day_points (Obj []) = 2000" by code_simp
  ultimately show ?thesis unfolding roomy_def by (fastforce intro: le_trans)
qed

lemma sample_hub_ok: "store_ok (Obj []) (sample_hub t)"
  by (simp add: store_ok_def sample_hub_def)

lemma sample_now: "day_from_sec 1704125100 (Obj []) 1704125100 = ''2024-01-02''"
  by code_simp

lemma sample_hub_live: "live_points (sample_hub t) (''web'', ''2024-01-01'') = [sample_point t]"
  by (simp add: live_points_def sample_hub_def)

lemma sample_times: "list_times (Obj []) ''2024-01-01'' [sample_point 1704081600] = {1704081600}"
  "list_times (Obj []) ''2024-01-01'' [sample_point 1704124500] = {1704124500}"
  by code_simp+

lemma alarm_keeps_every_bucket_witness:
  "kept_times (Obj []) (probe_alarm (Obj []) 1704125100 True (\<lambda>_. sample_answer) (\<lambda>_. sample_answer) (\<lambda>_. Merged) (sample_hub 1704124500))
     (''web'', ''2024-01-01'') = kept_times (Obj []) (sample_hub 1704124500) (''web'', ''2024-01-01'')"
proof (rule alarm_keeps_every_bucket)
  show "store_ok (Obj []) (sample_hub 1704124500)" by (rule sample_hub_ok)
  show "roomy (Obj []) (sample_hub 1704124500)" by (rule sample_hub_roomy)
  show "distinct (map fst (ps_mem (sample_hub 1704124500)))" by (simp add: sample_hub_def)
  have "is_day_key ''2024-01-01''" by code_simp
  then show "\<forall>(k, points) \<in> set (ps_mem (sample_hub 1704124500)). is_day_key (snd k)" by (simp add: sample_hub_def)
  show "\<forall>(k, points) \<in> set (ps_mem (sample_hub 1704124500)). snd k < day_from_sec 1704125100 (Obj []) 1704125100 \<longrightarrow>
      covered (Obj []) (sample_hub 1704124500) k points"
    by (simp add: sample_hub_def covered_def live_points_def)
qed

lemma completed_days_keep_every_bucket_witness:
  "kept_times (Obj []) (fst (flush_completed_days (Obj []) 1704125100 True ''2024-01-02'' (\<lambda>_. sample_answer) (\<lambda>_. Merged) (sample_hub 1704081600)))
     (''web'', ''2024-01-01'') = kept_times (Obj []) (sample_hub 1704081600) (''web'', ''2024-01-01'')"
  by (rule completed_days_keep_every_bucket [OF sample_hub_ok sample_hub_roomy])

lemma midnight_flush_loses_stored_points_witness:
  "1704081600 \<in> kept_times (Obj []) (sample_hub 1704081600) (''web'', ''2024-01-01'') \<and>
   1704081600 \<notin> kept_times (Obj []) (flush_mem_days (Obj []) 1704125100 True (\<lambda>_. sample_answer) (sample_hub 1704081600)) (''web'', ''2024-01-01'')"
proof (rule midnight_flush_loses_stored_points)
  show "((''web'', ''2024-01-01''), [sample_point 1704124500]) \<in> set (ps_mem (sample_hub 1704081600))" by (simp add: sample_hub_def)
  show "distinct (map fst (ps_mem (sample_hub 1704081600)))" by (simp add: sample_hub_def)
  show "is_day_key (snd (''web'', ''2024-01-01''))" by code_simp
  show "snd (''web'', ''2024-01-01'') < day_from_sec 1704125100 (Obj []) 1704125100" unfolding sample_now by code_simp
qed (simp_all add: sample_hub_live sample_times sample_answer_def archive_times_def, simp_all add: sample_hub_def rows_of_def)

lemma read_day_returns_the_kept_witness:
  "pp_at ` set (read_day (Obj []) 1704125100 True (''web'', ''2024-01-01'') (sample_hub 1704081600)) =
     kept_times (Obj []) (sample_hub 1704081600) (''web'', ''2024-01-01'') \<and>
   sorted_wrt (<) (map pp_at (read_day (Obj []) 1704125100 True (''web'', ''2024-01-01'') (sample_hub 1704081600)))"
  by (rule read_day_returns_the_kept [OF sample_hub_roomy])

end
