(* ===== verification/StatusState.thy ===== *)
theory StatusState
  imports Utils
begin

text \<open>
  \<open>worker/src/storage.js\<close>: the current status of all targets (one R2 object), merged from the updates of the
  schedulers, and the daily summaries it carries.

  \<^item> The updates are objects that the code shares and mutates: an update stored in the overlay of a session or in
    the state of a merge is the same object, and \<open>history_checked_at\<close> is written into it. They live in a heap
    \<open>nat \<Rightarrow> status_entry\<close>; a state is a list of references by target, and what is written to R2 is what they refer to.
  \<^item> \<open>null\<close> instants are \<open>0\<close>, as the code reads them with \<open>||\<close>.
\<close>

section \<open>Daily summaries\<close>

record day_sum =
  ds_total :: jsnum
  ds_ok :: jsnum
  ds_latency :: jsnum
  ds_last_ok :: int
  ds_last_latency :: "jsnum option"
  ds_last_status :: "jsnum option"
  ds_last_error :: jsval
  ds_updated :: jsnum

definition point_total :: "jsval \<Rightarrow> jsnum" where
  "point_total p = (if js_nullish (js_get p ''total'') then jsint 1 else js_max (jsint 0) (num_or0 (js_get p ''total'')))"

definition point_ok :: "jsval \<Rightarrow> jsnum" where
  "point_ok p = (if js_nullish (js_get p ''ok_count'') then jsint (if js_truthy (js_get p ''ok'') then 1 else 0)
                 else js_max (jsint 0) (num_or0 (js_get p ''ok_count'')))"

definition add_latency :: "jsnum \<Rightarrow> jsval \<Rightarrow> jsnum" where
  "add_latency lat p = (if num_truthy (point_ok p) \<and> js_isFinite (js_Number (js_get p ''latency_ms''))
                        then js_add lat (js_mul (js_Number (js_get p ''latency_ms'')) (point_ok p)) else lat)"

type_synonym day_sums = "jsnum \<times> jsnum \<times> jsnum"

definition add_point :: "jsval \<Rightarrow> day_sums \<Rightarrow> day_sums" where
  "add_point p = (\<lambda>(total, ok, lat). (js_add total (point_total p), js_add ok (point_ok p), add_latency lat p))"

definition counted_points :: "jsval list \<Rightarrow> jsval list" where
  "counted_points points = filter (\<lambda>p. \<not> is_missed_monitor_point p) points"

definition latest_point :: "jsval list \<Rightarrow> jsval option" where
  "latest_point points = fold (\<lambda>p l. case l of
       None \<Rightarrow> Some p
     | Some q \<Rightarrow> if js_le (num_or0 (js_get q ''checked_at'')) (num_or0 (js_get p ''checked_at'')) then Some p else l) points None"

definition daily_summary_from_points :: "int \<Rightarrow> jsval list \<Rightarrow> day_sum" where
  "daily_summary_from_points now points =
     (let rows = counted_points points;
          (total, ok, lat) = fold add_point rows (jsint 0, jsint 0, jsint 0);
          latest = (case latest_point rows of Some p \<Rightarrow> p | None \<Rightarrow> Undefined);
          latency = (if js_nullish (js_get latest ''latency_ms'') then NaN else js_Number (js_get latest ''latency_ms''))
      in \<lparr> ds_total = total, ds_ok = ok, ds_latency = lat,
           ds_last_ok = (if js_truthy (js_get latest ''ok'') then 1 else 0),
           ds_last_latency = (if js_isFinite latency then Some latency else None),
           ds_last_status = (if js_nullish (js_get latest ''status_code'') then None else Some (js_Number (js_get latest ''status_code''))),
           ds_last_error = js_or (js_get latest ''error'') Null,
           ds_updated = js_Number (js_or (js_get latest ''checked_at'') (JInt now)) \<rparr>)"

type_synonym daily = "(string \<times> day_sum) list"

definition daily_limit :: nat where "daily_limit = 90"

definition set_daily_summary :: "daily \<Rightarrow> string \<Rightarrow> day_sum \<Rightarrow> daily" where
  "set_daily_summary existing day summary =
     (let daily = AList.update day summary existing;
          keys = sort (map fst daily);
          old = take (length keys - daily_limit) keys
      in filter (\<lambda>(k, _). k \<notin> set old) daily)"

definition stats_from_daily_summaries :: "daily \<Rightarrow> string \<Rightarrow> nat \<Rightarrow> rat option \<times> jsnum option" where
  "stats_from_daily_summaries daily end_day days =
     (let keys = take_last days (sort (filter (\<lambda>d. d \<le> end_day) (map fst daily)));
          (total, ok, lat) = fold (\<lambda>k (total, ok, lat).
              case map_of daily k of
                Some row \<Rightarrow> (js_add total (num_or (ds_total row) (jsint 0)), js_add ok (num_or (ds_ok row) (jsint 0)),
                             js_add lat (num_or (ds_latency row) (jsint 0)))
              | None \<Rightarrow> (total, ok, lat)) keys (jsint 0, jsint 0, jsint 0)
      in (if num_truthy total then (case js_mul (js_div ok total) (jsint 100) of Fin q \<Rightarrow> Some (to_fixed 4 q) | _ \<Rightarrow> None) else None,
          if num_truthy ok then Some (js_round (js_div lat ok)) else None))"

record check_summary =
  cs_target :: string
  cs_day :: string
  cs_sums :: day_sums

definition summary_rows_from_checks :: "int \<Rightarrow> jsval \<Rightarrow> string \<Rightarrow> jsval list \<Rightarrow> check_summary list" where
  "summary_rows_from_checks now env target points =
     (let by_day = fold (\<lambda>p m. case num_or0 (js_get p ''checked_at'') of
              Fin q \<Rightarrow> (let day = day_from_sec now env \<lfloor>q\<rfloor>
                        in AList.update day (add_point p (case map_of m day of Some e \<Rightarrow> e | None \<Rightarrow> (jsint 0, jsint 0, jsint 0))) m)
            | _ \<Rightarrow> m) (counted_points points) []
      in map (\<lambda>(day, acc). \<lparr> cs_target = target, cs_day = day, cs_sums = acc \<rparr>) (sort_key fst by_day))"

section \<open>The status of a target and its updates\<close>

record status_entry =
  st_target :: string
  st_checked :: int
  st_history :: int
  st_ok :: int
  st_latency :: "int option"
  st_status :: "jsnum option"
  st_error :: "string option"
  st_region :: string
  st_colo :: "string option"
  st_uptime_24h :: "rat option"
  st_uptime_7d :: "rat option"
  st_avg_latency :: "jsnum option"
  st_last_fail :: int
  st_outage_started :: int
  st_last_recover :: int
  st_changed :: int
  st_daily :: daily

definition cached_daily_summary_before :: "status_entry option \<Rightarrow> string \<Rightarrow> int \<Rightarrow> day_sums option" where
  "cached_daily_summary_before previous day before_at =
     (case previous of None \<Rightarrow> None
      | Some p \<Rightarrow>
          (case map_of (st_daily p) day of None \<Rightarrow> None
           | Some summary \<Rightarrow>
               if st_checked p = 0 \<or> before_at = 0 \<or> before_at \<le> st_checked p
                  \<or> js_lt (num_or (ds_updated summary) (jsint 0)) (jsint (st_checked p)) then None
               else Some (num_or (ds_total summary) (jsint 0), num_or (ds_ok summary) (jsint 0), num_or (ds_latency summary) (jsint 0))))"

type_synonym heap = "nat \<Rightarrow> status_entry"
type_synonym refs = "(string \<times> nat) list"

text \<open>\<open>applyR2StateUpdate\<close>: the last line writes into the object that is in the state afterwards\<close>

definition apply_update :: "nat \<Rightarrow> heap \<times> refs \<Rightarrow> heap \<times> refs" where
  "apply_update r = (\<lambda>(h, targets).
     let update = h r;
         previous = map_of targets (st_target update);
         newer = (case previous of None \<Rightarrow> True | Some p \<Rightarrow> st_checked (h p) \<le> st_checked update);
         targets' = (if newer then AList.update (st_target update) r targets else targets);
         current = (if newer then r else the previous);
         history = max (st_history update) (case previous of None \<Rightarrow> 0 | Some p \<Rightarrow> st_history (h p))
     in (if 0 < history then h(current := (h current)\<lparr> st_history := history \<rparr>) else h, targets'))"

text \<open>What a state refers to, and reading one from R2: every entry is a new object\<close>

definition state_values :: "heap \<times> refs \<Rightarrow> string \<Rightarrow> status_entry option" where
  "state_values hs t = map_option (fst hs) (map_of (snd hs) t)"

definition load_state :: "nat \<Rightarrow> (string \<times> status_entry) list \<Rightarrow> heap \<Rightarrow> heap \<times> refs" where
  "load_state next stored h =
     ((\<lambda>r. if next \<le> r \<and> r < next + length stored then snd (stored ! (r - next)) else h r),
      zip (map fst stored) [next..<next + length stored])"

definition store_state :: "heap \<times> refs \<Rightarrow> (string \<times> status_entry) list" where
  "store_state hs = map (\<lambda>(t, r). (t, fst hs r)) (snd hs)"

definition apply_updates :: "nat list \<Rightarrow> heap \<times> refs \<Rightarrow> heap \<times> refs" where
  "apply_updates = fold apply_update"

datatype merge_result = Skipped | Lock_failed | State_failed | State_merged nat

text \<open>\<open>mergeR2StateUpdates\<close> under the lock; \<open>put\<close>: R2 took the object\<close>

definition merge_r2_state_updates ::
  "bool \<Rightarrow> bool \<Rightarrow> bool \<Rightarrow> nat \<Rightarrow> nat list \<Rightarrow> heap \<Rightarrow> (string \<times> status_entry) list \<Rightarrow> heap \<times> (string \<times> status_entry) list \<times> merge_result" where
  "merge_r2_state_updates locked readable put next updates h stored =
     (if updates = [] then (h, stored, Skipped)
      else if \<not> locked then (h, stored, Lock_failed)
      else if \<not> readable then (h, stored, State_failed)
      else let hs = apply_updates (filter (\<lambda>r. st_target (h r) \<noteq> []) updates) (load_state next stored h)
           in if put then (fst hs, store_state hs, State_merged (length updates)) else (fst hs, stored, State_failed))"

text \<open>\<open>createR2StateSyncSession\<close>: the buffered updates and the overlay, over the heap of the round\<close>

record sync_session =
  sy_updates :: "nat list"
  sy_overlay :: refs

definition session_add :: "nat list \<Rightarrow> heap \<times> sync_session \<Rightarrow> heap \<times> sync_session" where
  "session_add list = (\<lambda>(h, s).
     let added = filter (\<lambda>r. st_target (h r) \<noteq> []) list;
         (h', overlay) = apply_updates added (h, sy_overlay s)
     in (h', \<lparr> sy_updates = sy_updates s @ added, sy_overlay = overlay \<rparr>))"

definition apply_overlay :: "sync_session \<Rightarrow> heap \<times> refs \<Rightarrow> heap \<times> refs" where
  "apply_overlay s = apply_updates (map snd (sy_overlay s))"

text \<open>A scheduled round: the history scheduler fills the session, the fast one reads a state with the overlay and adds its own updates\<close>

definition session_round ::
  "nat \<Rightarrow> (string \<times> status_entry) list \<Rightarrow> nat list \<Rightarrow> nat list \<Rightarrow> heap \<Rightarrow> (string \<times> status_entry) list \<Rightarrow>
   heap \<times> (string \<times> status_entry) list \<times> merge_result" where
  "session_round next seen first second h stored =
     (let (h1, s1) = session_add first (h, \<lparr> sy_updates = [], sy_overlay = [] \<rparr>);
          (h2, view) = apply_overlay s1 (load_state next seen h1);
          (h3, s2) = session_add second (h2, s1)
      in merge_r2_state_updates True True True (next + length seen) (sy_updates s2) h3 stored)"

definition remove_target_from_state :: "bool \<Rightarrow> bool \<Rightarrow> string \<Rightarrow> (string \<times> status_entry) list \<Rightarrow> (string \<times> status_entry) list option" where
  "remove_target_from_state locked put target stored =
     (if \<not> locked then None
      else if map_of stored target = None then Some stored
      else if put then Some (AList.delete target stored) else None)"

record state_row =
  sr_target :: string
  sr_day :: string
  sr_sums :: day_sums

text \<open>\<open>coll\<close>: the collation key of \<open>localeCompare\<close>\<close>

definition summary_rows_from_state :: "(string \<Rightarrow> string) \<Rightarrow> (string \<times> status_entry) list \<Rightarrow> string \<Rightarrow> state_row list" where
  "summary_rows_from_state coll stored start_day =
     sort_key sr_day (sort_key (\<lambda>r. coll (sr_target r)) (concat (map (\<lambda>(t, e).
       map (\<lambda>(day, row). \<lparr> sr_target = t, sr_day = day,
              sr_sums = (num_or (ds_total row) (jsint 0), num_or (ds_ok row) (jsint 0), num_or (ds_latency row) (jsint 0)) \<rparr>)
         (filter (\<lambda>(day, _). start_day \<le> day) (st_daily e))) stored)))"

end
