(* ===== verification/StatusMerge.thy ===== *)
theory StatusMerge
  imports StatusState
begin

text \<open>
  The updates of \<open>StatusState\<close> as values: a merge of objects that alias is the merge of their values, a session is
  the same as merging its batches one after the other, the newest check wins, and the daily summaries add up.
\<close>

section \<open>The merge of values\<close>

definition merge_entry :: "status_entry \<Rightarrow> status_entry option \<Rightarrow> status_entry" where
  "merge_entry u previous =
     (case previous of
        None \<Rightarrow> u
      | Some p \<Rightarrow> (if st_checked p \<le> st_checked u then u else p)\<lparr> st_history := max (st_history u) (st_history p) \<rparr>)"

definition merge_value :: "status_entry \<Rightarrow> (string \<Rightarrow> status_entry option) \<Rightarrow> string \<Rightarrow> status_entry option" where
  "merge_value u m = m(st_target u \<mapsto> merge_entry u (m (st_target u)))"

text \<open>The references of a state: one object per target, of that target, with an instant that is not negative\<close>

definition state_ok :: "heap \<times> refs \<Rightarrow> bool" where
  "state_ok hs \<longleftrightarrow> distinct (map fst (snd hs)) \<and> (\<forall>(t, r) \<in> set (snd hs). st_target (fst hs r) = t \<and> 0 \<le> st_history (fst hs r))"

lemma state_ok_lookup: "state_ok (h, ts) \<Longrightarrow> map_of ts t = Some r \<Longrightarrow> st_target (h r) = t \<and> 0 \<le> st_history (h r)"
  by (auto simp: state_ok_def dest: map_of_SomeD)

lemma apply_update_eq:
  assumes "state_ok (h, ts)" "0 \<le> st_history (h r)"
  shows "apply_update r (h, ts) =
    (case map_of ts (st_target (h r)) of
       None \<Rightarrow> (h, AList.update (st_target (h r)) r ts)
     | Some p \<Rightarrow> (let current = (if st_checked (h p) \<le> st_checked (h r) then r else p)
                 in (h(current := (h current)\<lparr> st_history := max (st_history (h r)) (st_history (h p)) \<rparr>),
                     if st_checked (h p) \<le> st_checked (h r) then AList.update (st_target (h r)) r ts else ts)))"
proof (cases "map_of ts (st_target (h r))")
  case None
  have "(h r)\<lparr> st_history := st_history (h r) \<rparr> = h r" by simp
  with None assms(2) show ?thesis by (simp add: apply_update_def Let_def max_def fun_upd_idem)
next
  case (Some p)
  then have "0 \<le> st_history (h p)" using state_ok_lookup [OF assms(1)] by blast
  moreover have "h(x := (h x)\<lparr> st_history := 0 \<rparr>) = h" if "st_history (h x) = 0" for x
    using that by (metis fun_upd_triv status_entry.surjective status_entry.update_convs(3))
  ultimately show ?thesis using Some assms(2)
    by (auto simp: apply_update_def Let_def max_def)
qed

text \<open>One update, when its object is not in the state yet\<close>

lemma apply_update_step:
  assumes "state_ok (h, ts)" "0 \<le> st_history (h r)" "r \<notin> snd ` set ts" "apply_update r (h, ts) = (h', ts')"
  shows "state_ok (h', ts') \<and> state_values (h', ts') = merge_value (h r) (state_values (h, ts)) \<and>
         snd ` set ts' \<subseteq> insert r (snd ` set ts) \<and> (\<forall>q. q \<notin> insert r (snd ` set ts) \<longrightarrow> h' q = h q)"
proof (cases "map_of ts (st_target (h r))")
  case None
  then have e: "h' = h" "ts' = AList.update (st_target (h r)) r ts" using apply_update_eq [OF assms(1,2)] assms(4) by simp_all
  have "state_ok (h', ts')"
    using assms(1,2) by (fastforce simp: e state_ok_def distinct_update dest: set_update_subset [THEN subsetD])
  moreover have "state_values (h', ts') = merge_value (h r) (state_values (h, ts))"
    using None by (auto simp: e state_values_def merge_value_def merge_entry_def update_conv)
  moreover have "snd ` set ts' \<subseteq> insert r (snd ` set ts)" unfolding e by (force dest: set_update_subset [THEN subsetD])
  ultimately show ?thesis by (simp add: e)
next
  case (Some p)
  define current where "current = (if st_checked (h p) \<le> st_checked (h r) then r else p)"
  have p: "st_target (h p) = st_target (h r)" "0 \<le> st_history (h p)" "p \<in> snd ` set ts"
    using state_ok_lookup [OF assms(1) Some] map_of_SomeD [OF Some] by force+
  have h': "h' = h(current := (h current)\<lparr> st_history := max (st_history (h r)) (st_history (h p)) \<rparr>)"
    and ts': "ts' = (if st_checked (h p) \<le> st_checked (h r) then AList.update (st_target (h r)) r ts else ts)"
    using apply_update_eq [OF assms(1,2)] assms(4) Some by (simp_all add: current_def Let_def)
  have look: "map_of ts' t = (if t = st_target (h r) then Some current else map_of ts t)" for t
    using Some by (simp add: ts' current_def update_conv)
  have target: "st_target (h' q) = st_target (h q)" for q by (simp add: h')
  have keys: "distinct (map fst ts')" using assms(1) by (simp add: ts' state_ok_def distinct_update)
  have ok: "st_target (h' q) = t \<and> 0 \<le> st_history (h' q)" if "(t, q) \<in> set ts'" for t q
  proof -
    have "map_of ts' t = Some q" using that keys by simp
    then have "st_target (h q) = t \<and> (q = current \<or> 0 \<le> st_history (h q))"
      using state_ok_lookup [OF assms(1)] p(1) by (auto simp: look current_def split: if_splits)
    then show ?thesis using assms(2) by (auto simp: h')
  qed
  have "state_values (h', ts') t = merge_value (h r) (state_values (h, ts)) t" for t
  proof (cases "t = st_target (h r)")
    case True
    then show ?thesis using Some p(1) by (auto simp: state_values_def merge_value_def merge_entry_def look h' current_def)
  next
    case False
    then have "map_of ts t = Some current \<Longrightarrow> False" using state_ok_lookup [OF assms(1)] p(1) by (auto simp: current_def split: if_splits)
    with False show ?thesis by (auto simp: state_values_def merge_value_def look h' map_option_case split: option.split)
  qed
  moreover have "snd ` set ts' \<subseteq> insert r (snd ` set ts)" unfolding ts' by (auto dest: set_update_subset [THEN subsetD])
  moreover have "h' q = h q" if "q \<notin> insert r (snd ` set ts)" for q using that p(3) by (auto simp: h' current_def)
  ultimately show ?thesis using keys ok by (auto simp: state_ok_def)
qed

text \<open>A merge of distinct objects is the merge of the values they have before it\<close>

lemma apply_updates_values:
  assumes "state_ok (h, ts)" "distinct rs" "set rs \<inter> snd ` set ts = {}" "\<forall>r \<in> set rs. 0 \<le> st_history (h r)"
    and "apply_updates rs (h, ts) = (h', ts')"
  shows "state_ok (h', ts') \<and> state_values (h', ts') = fold merge_value (map h rs) (state_values (h, ts)) \<and>
         snd ` set ts' \<subseteq> set rs \<union> snd ` set ts \<and> (\<forall>q. q \<notin> set rs \<union> snd ` set ts \<longrightarrow> h' q = h q)"
  using assms
proof (induction rs arbitrary: h ts)
  case (Cons r rs)
  obtain h1 ts1 where u: "apply_update r (h, ts) = (h1, ts1)" by fastforce
  have rest: "apply_updates rs (h1, ts1) = (h', ts')" using Cons.prems(5) u by (simp add: apply_updates_def)
  note s = apply_update_step [OF Cons.prems(1) _ _ u]
  have s: "state_ok (h1, ts1)" "state_values (h1, ts1) = merge_value (h r) (state_values (h, ts))"
    "snd ` set ts1 \<subseteq> insert r (snd ` set ts)" "\<forall>q. q \<notin> insert r (snd ` set ts) \<longrightarrow> h1 q = h q"
    using s Cons.prems(3,4) by auto
  have same: "h1 q = h q" if "q \<in> set rs" for q using s(4) that Cons.prems(2,3) by auto
  have "set rs \<inter> snd ` set ts1 = {}" using s(3) Cons.prems(2,3) by auto
  moreover have "\<forall>q \<in> set rs. 0 \<le> st_history (h1 q)" using Cons.prems(4) same by simp
  ultimately have IH: "state_ok (h', ts') \<and> state_values (h', ts') = fold merge_value (map h1 rs) (state_values (h1, ts1)) \<and>
      snd ` set ts' \<subseteq> set rs \<union> snd ` set ts1 \<and> (\<forall>q. q \<notin> set rs \<union> snd ` set ts1 \<longrightarrow> h' q = h1 q)"
    using Cons.IH [OF s(1) _ _ _ rest] Cons.prems(2) by simp
  moreover have "map h1 rs = map h rs" using same by simp
  moreover have "h' q = h q" if "q \<notin> set (r # rs) \<union> snd ` set ts" for q
  proof -
    have "q \<notin> snd ` set ts1" using s(3) that by auto
    then show ?thesis using IH s(4) that by simp
  qed
  moreover have "snd ` set ts' \<subseteq> set (r # rs) \<union> snd ` set ts"
  proof -
    have "snd ` set ts' \<subseteq> set rs \<union> snd ` set ts1" using IH by blast
    with s(3) show ?thesis by (simp add: subset_iff) blast
  qed
  ultimately show ?case using s(2) by simp
qed (auto simp: apply_updates_def)

section \<open>Updates that other updates have written into\<close>

text \<open>The object \<open>u'\<close> is \<open>u\<close> with a later \<open>history_checked_at\<close>, at most the one of its target in the end\<close>

definition touched :: "(string \<Rightarrow> int) \<Rightarrow> status_entry \<Rightarrow> status_entry \<Rightarrow> bool" where
  "touched K u u' \<longleftrightarrow> u' = u\<lparr> st_history := st_history u' \<rparr> \<and> st_history u \<le> st_history u' \<and> st_history u' \<le> K (st_target u)"

lemma touched_same:
  assumes "touched K u u'"
  shows "st_target u' = st_target u" "st_checked u' = st_checked u" "st_history u \<le> st_history u'" "st_history u' \<le> K (st_target u)"
    "u\<lparr> st_history := x \<rparr> = u'\<lparr> st_history := x \<rparr>"
proof -
  have e: "u' = u\<lparr> st_history := st_history u' \<rparr>" using assms by (simp add: touched_def)
  show "st_target u' = st_target u" by (subst e) simp
  show "st_checked u' = st_checked u" by (subst e) simp
  have "(u\<lparr> st_history := y \<rparr>)\<lparr> st_history := x \<rparr> = u\<lparr> st_history := x \<rparr>" for y by simp
  then show "u\<lparr> st_history := x \<rparr> = u'\<lparr> st_history := x \<rparr>" using e by metis
qed (use assms in \<open>simp_all add: touched_def\<close>)

lemma touched_update: "touched K u u' \<Longrightarrow> st_history u \<le> y \<Longrightarrow> y \<le> K (st_target u) \<Longrightarrow> touched K u (u'\<lparr> st_history := y \<rparr>)"
  using touched_same(5) [of K u u' y] by (simp add: touched_def)

lemma touched_self: "st_history u \<le> K (st_target u) \<Longrightarrow> touched K u u"
  by (simp add: touched_def)

lemma apply_update_touched:
  assumes "state_ok (h, ts)" "0 \<le> st_history (h r)" "apply_update r (h, ts) = (h', ts')"
    and "\<forall>q \<in> Q. touched K (v q) (h q)" "r \<in> Q" "snd ` set ts \<subseteq> Q"
  shows "\<forall>q \<in> Q. touched K (v q) (h' q)"
proof (cases "map_of ts (st_target (h r))")
  case None
  then show ?thesis using apply_update_eq [OF assms(1,2)] assms(3,4) by simp
next
  case (Some p)
  define current where "current = (if st_checked (h p) \<le> st_checked (h r) then r else p)"
  define y where "y = max (st_history (h r)) (st_history (h p))"
  have p: "st_target (h p) = st_target (h r)" "p \<in> Q"
    using state_ok_lookup [OF assms(1) Some] map_of_SomeD [OF Some] assms(6) by force+
  have h': "h' = h(current := (h current)\<lparr> st_history := y \<rparr>)"
    using apply_update_eq [OF assms(1,2)] assms(3) Some by (simp add: current_def y_def Let_def)
  note tr = touched_same [OF assms(4) [rule_format, OF assms(5)]]
  note tp = touched_same [OF assms(4) [rule_format, OF p(2)]]
  have "st_target (v p) = st_target (v r)" using tr(1) tp(1) p(1) by simp
  then have "y \<le> K (st_target (v current))" "st_history (v current) \<le> y"
    using tr(3,4) tp(3,4) by (auto simp: y_def current_def)
  moreover have "current \<in> Q" using assms(5) p(2) by (simp add: current_def)
  ultimately show ?thesis using assms(4) touched_update by (auto simp: h')
qed

lemma apply_updates_touched:
  assumes "state_ok (h, ts)" "distinct rs" "set rs \<inter> snd ` set ts = {}" "\<forall>q \<in> Q. 0 \<le> st_history (v q)"
    and "apply_updates rs (h, ts) = (h', ts')" "\<forall>q \<in> Q. touched K (v q) (h q)" "set rs \<subseteq> Q" "snd ` set ts \<subseteq> Q"
  shows "\<forall>q \<in> Q. touched K (v q) (h' q)"
  using assms
proof (induction rs arbitrary: h ts)
  case (Cons r rs)
  obtain h1 ts1 where u: "apply_update r (h, ts) = (h1, ts1)" by fastforce
  have rest: "apply_updates rs (h1, ts1) = (h', ts')" using Cons.prems(5) u by (simp add: apply_updates_def)
  have r: "r \<in> Q" "r \<notin> snd ` set ts" using Cons.prems(3,7) by auto
  have "0 \<le> st_history (v r)" using Cons.prems(4) r(1) by blast
  also have "\<dots> \<le> st_history (h r)" using Cons.prems(6) r(1) touched_same(3) by blast
  finally have pos: "0 \<le> st_history (h r)" .
  note s = apply_update_step [OF Cons.prems(1) pos r(2) u]
  then have ts1: "snd ` set ts1 \<subseteq> insert r (snd ` set ts)" by simp
  show ?case
  proof (rule Cons.IH [OF _ _ _ Cons.prems(4) rest])
    show "state_ok (h1, ts1)" using s by simp
    show "\<forall>q \<in> Q. touched K (v q) (h1 q)" by (rule apply_update_touched [OF Cons.prems(1) pos u Cons.prems(6) r(1) Cons.prems(8)])
    show "set rs \<inter> snd ` set ts1 = {}" using Cons.prems(2,3) ts1 by (simp add: disjoint_iff subset_iff) blast
    show "snd ` set ts1 \<subseteq> Q" using ts1 r(1) Cons.prems(8) by (meson insert_subset order_trans subset_insertI)
  qed (use Cons.prems(2,7) in auto)
qed (simp add: apply_updates_def)

definition history_of :: "(string \<Rightarrow> status_entry option) \<Rightarrow> string \<Rightarrow> int" where
  "history_of m t = (case m t of Some e \<Rightarrow> st_history e | None \<Rightarrow> 0)"

lemma history_merge: "history_of m t \<le> history_of (merge_value u m) t \<or> st_history u < 0"
  by (auto simp: history_of_def merge_value_def merge_entry_def split: option.split)

lemma history_grows:
  "\<forall>u \<in> set us. 0 \<le> st_history u \<Longrightarrow> history_of m t \<le> history_of (fold merge_value us m) t"
proof (induction us arbitrary: m)
  case (Cons u us)
  have "history_of m t \<le> history_of (merge_value u m) t" using history_merge [of m t u] Cons.prems by auto
  also have "\<dots> \<le> history_of (fold merge_value us (merge_value u m)) t" using Cons by simp
  finally show ?case by simp
qed simp

lemma history_covers:
  assumes "\<forall>u \<in> set us. 0 \<le> st_history u" "u \<in> set us"
  shows "st_history u \<le> history_of (fold merge_value us m) (st_target u)"
proof -
  obtain xs ys where us: "us = xs @ u # ys" using assms(2) by (meson split_list)
  have "st_history u \<le> history_of (merge_value u m') (st_target u)" for m'
    by (auto simp: history_of_def merge_value_def merge_entry_def split: option.split)
  also have "history_of (merge_value u m') (st_target u) \<le> history_of (fold merge_value ys (merge_value u m')) (st_target u)" for m'
    using assms(1) us by (intro history_grows) simp
  finally show ?thesis by (simp add: us)
qed

text \<open>Merging touched updates gives what merging the updates gives\<close>

lemma merge_touched_step:
  assumes "touched K u u'" "\<forall>t. rel_option (touched K) (m t) (m' t)" "\<forall>t e. m t = Some e \<longrightarrow> st_target e = t"
  shows "\<forall>t. rel_option (touched K) (merge_value u m t) (merge_value u' m' t)"
proof
  fix t
  show "rel_option (touched K) (merge_value u m t) (merge_value u' m' t)"
  proof (cases "m (st_target u)")
    case None
    then have "m' (st_target u) = None" using assms(2) by (metis option.rel_distinct(1) option.exhaust)
    with None show ?thesis using assms(1,2) touched_same(1) [OF assms(1)] by (simp add: merge_value_def merge_entry_def)
  next
    case (Some p)
    then obtain p' where p': "m' (st_target u) = Some p'" "touched K p p'"
      using assms(2) by (metis option_rel_Some1)
    have tp: "st_target p = st_target u" using assms(3) Some by blast
    note tu = touched_same [OF assms(1)] and tp' = touched_same [OF p'(2)]
    define x where "x = max (st_history u) (st_history p)"
    define y where "y = max (st_history u') (st_history p')"
    have y: "x \<le> y" "y \<le> K (st_target u)" using tu(3,4) tp'(3,4) tp by (auto simp: x_def y_def)
    have "touched K (merge_entry u (Some p)) (merge_entry u' (Some p'))"
      unfolding merge_entry_def option.case tu(2) tp'(2) x_def [symmetric] y_def [symmetric]
      using y tp tu(5) [of y] tp'(5) [of y] by (auto simp: touched_def)
    with Some p'(1) assms(2) tu(1) show ?thesis by (simp add: merge_value_def)
  qed
qed

lemma merge_touched:
  assumes "list_all2 (touched K) us us'" "\<forall>t. rel_option (touched K) (m t) (m' t)" "\<forall>t e. m t = Some e \<longrightarrow> st_target e = t"
  shows "\<forall>t. rel_option (touched K) (fold merge_value us m t) (fold merge_value us' m' t)"
  using assms
proof (induction us us' arbitrary: m m' rule: list_all2_induct)
  case (Cons u us u' us')
  have "\<forall>t e. merge_value u m t = Some e \<longrightarrow> st_target e = t"
    using Cons.prems(2) by (auto simp: merge_value_def merge_entry_def split: option.splits if_splits)
  with Cons.IH merge_touched_step [OF Cons.hyps(1) Cons.prems] show ?case by simp
qed simp

lemma merged_target:
  "fold merge_value us m t = Some e \<Longrightarrow> \<forall>t e. m t = Some e \<longrightarrow> st_target e = t \<Longrightarrow> st_target e = t"
proof (induction us arbitrary: m)
  case (Cons u us)
  have "\<forall>t e. merge_value u m t = Some e \<longrightarrow> st_target e = t"
    using Cons.prems(2) by (auto simp: merge_value_def merge_entry_def split: option.splits if_splits)
  with Cons show ?case by simp
qed simp

section \<open>A merge and a session\<close>

definition good_state :: "(string \<times> status_entry) list \<Rightarrow> bool" where
  "good_state stored \<longleftrightarrow> distinct (map fst stored) \<and> (\<forall>(t, e) \<in> set stored. st_target e = t \<and> 0 \<le> st_history e)"

definition good_updates :: "heap \<Rightarrow> nat \<Rightarrow> nat list \<Rightarrow> bool" where
  "good_updates h next rs \<longleftrightarrow> distinct rs \<and> (\<forall>r \<in> set rs. r < next \<and> 0 \<le> st_history (h r) \<and> st_target (h r) \<noteq> [])"

lemma loaded:
  assumes "good_state stored" "load_state next stored h = (h', ts)"
  shows "state_ok (h', ts)" "state_values (h', ts) = map_of stored" "snd ` set ts = {next..<next + length stored}"
    "\<And>q. q < next \<Longrightarrow> h' q = h q"
proof -
  have h': "h' = (\<lambda>r. if next \<le> r \<and> r < next + length stored then snd (stored ! (r - next)) else h r)"
    and ts: "ts = zip (map fst stored) [next..<next + length stored]"
    using assms(2) by (simp_all add: load_state_def)
  have e: "map (\<lambda>(t, r). (t, h' r)) ts = stored"
    by (rule nth_equalityI) (auto simp: ts h')
  show "snd ` set ts = {next..<next + length stored}"
    by (metis (no_types, lifting) atLeastLessThan_upt length_map length_upt diff_add_inverse list.set_map map_snd_zip ts)
  show "state_values (h', ts) = map_of stored"
  proof
    fix t
    have "map_of (map (\<lambda>(t, r). (t, h' r)) ts) t = map_option h' (map_of ts t)" by (simp add: map_of_map)
    then show "state_values (h', ts) t = map_of stored t" by (simp add: e state_values_def)
  qed
  have keys: "map fst ts = map fst stored" by (simp add: ts)
  have "st_target (h' r) = t \<and> 0 \<le> st_history (h' r)" if "(t, r) \<in> set ts" for t r
  proof -
    have "(t, h' r) \<in> set (map (\<lambda>(t, r). (t, h' r)) ts)" using that by force
    then show ?thesis using assms(1) unfolding e good_state_def by auto
  qed
  then show "state_ok (h', ts)" using assms(1) keys by (auto simp: state_ok_def good_state_def)
qed (use assms(2) in \<open>auto simp: load_state_def\<close>)

lemma stored_values: "state_ok (h, ts) \<Longrightarrow> map_of (store_state (h, ts)) = state_values (h, ts)"
  by (rule ext) (simp add: store_state_def state_values_def map_of_map)

lemma good_stored: "state_ok (h, ts) \<Longrightarrow> good_state (store_state (h, ts))"
  by (auto simp: state_ok_def good_state_def store_state_def comp_def case_prod_beta)

lemma good_updates_filter: "good_updates h next rs \<Longrightarrow> filter (\<lambda>r. st_target (h r) \<noteq> []) rs = rs"
  by (simp add: good_updates_def filter_id_conv)

text \<open>A merge that succeeds writes the merge of the values\<close>

lemma merge_stores:
  assumes "good_state stored" "good_updates h next rs"
    and "merge_r2_state_updates True True True next rs h stored = (h', stored', result)"
  shows "map_of stored' = fold merge_value (map h rs) (map_of stored) \<and> good_state stored' \<and> (\<forall>q. q < next \<and> q \<notin> set rs \<longrightarrow> h' q = h q)"
proof (cases "rs = []")
  case True
  then show ?thesis using assms by (simp add: merge_r2_state_updates_def)
next
  case False
  obtain h1 ts1 where l: "load_state next stored h = (h1, ts1)" by fastforce
  obtain h2 ts2 where u: "apply_updates rs (h1, ts1) = (h2, ts2)" by fastforce
  note ld = loaded [OF assms(1) l]
  have eq: "h' = h2" "stored' = store_state (h2, ts2)"
    using assms(3) False good_updates_filter [OF assms(2)] l u by (auto simp: merge_r2_state_updates_def Let_def)
  have same: "h1 q = h q" if "q \<in> set rs" for q using ld(4) assms(2) that by (simp add: good_updates_def)
  have "set rs \<inter> snd ` set ts1 = {}" using assms(2) by (auto simp: ld(3) good_updates_def)
  moreover have "distinct rs" "\<forall>r \<in> set rs. 0 \<le> st_history (h1 r)" using assms(2) same by (simp_all add: good_updates_def)
  ultimately have a: "state_ok (h2, ts2)" "state_values (h2, ts2) = fold merge_value (map h1 rs) (state_values (h1, ts1))"
    "\<forall>q. q \<notin> set rs \<union> snd ` set ts1 \<longrightarrow> h2 q = h1 q"
    using apply_updates_values [OF ld(1) _ _ _ u] by blast+
  have e: "map h1 rs = map h rs" using same by simp
  moreover have "h2 q = h q" if "q < next" "q \<notin> set rs" for q using a(3) that ld(3,4) by simp
  ultimately show ?thesis using a(1) stored_values [OF a(1)] good_stored [OF a(1)] a(2) [unfolded e ld(2)] by (simp add: eq)
qed

definition sees_past :: "(string \<times> status_entry) list \<Rightarrow> (string \<times> status_entry) list \<Rightarrow> bool" where
  "sees_past seen stored \<longleftrightarrow> (\<forall>t e. map_of seen t = Some e \<longrightarrow> st_history e \<le> history_of (map_of stored) t)"

text \<open>The objects of a session before its merge are touched at most\<close>

lemma session_touched:
  assumes good: "good_state seen" "good_updates h next (first @ second)"
    and K: "\<forall>r \<in> set (first @ second). st_history (h r) \<le> K (st_target (h r))" "\<forall>(t, e) \<in> set seen. st_history e \<le> K t"
    and run: "session_add first (h, \<lparr> sy_updates = [], sy_overlay = [] \<rparr>) = (h1, s1)"
      "apply_overlay s1 (load_state next seen h1) = (h2, view)" "session_add second (h2, s1) = (h3, s2)"
  shows "sy_updates s2 = first @ second \<and> (\<forall>r \<in> set (first @ second). touched K (h r) (h3 r))"
proof -
  have "good_updates h next first" using good(2) by (simp add: good_updates_def)
  from good_updates_filter [OF this]
  obtain ts1 where u1: "apply_updates first (h, []) = (h1, ts1)" and s1: "s1 = \<lparr> sy_updates = first, sy_overlay = ts1 \<rparr>"
    using run(1) by (auto simp: session_add_def Let_def split: prod.splits)
  let ?Q = "set (first @ second)"
  have pos: "\<forall>q \<in> ?Q. 0 \<le> st_history (h q)" using good(2) by (simp add: good_updates_def)
  have ok0: "state_ok (h, [])" by (simp add: state_ok_def)
  have f: "distinct first" "\<forall>r \<in> set first. 0 \<le> st_history (h r)" using good(2) by (simp_all add: good_updates_def)
  have v1: "state_ok (h1, ts1)" "snd ` set ts1 \<subseteq> set first" "\<forall>q. q \<notin> set first \<longrightarrow> h1 q = h q"
    using apply_updates_values [OF ok0 f(1) _ f(2) u1] by auto
  have t1: "\<forall>q \<in> ?Q. touched K (h q) (h1 q)"
    by (rule apply_updates_touched [OF ok0 f(1) _ pos u1]) (use K(1) in \<open>auto intro: touched_self\<close>)
  obtain hl tl where l: "load_state next seen h1 = (hl, tl)" by fastforce
  note ld = loaded [OF good(1) l]
  define v where "v = (\<lambda>q. if q < next then h q else hl q)"
  let ?P = "?Q \<union> snd ` set tl"
  have lt: "q < next" if "q \<in> ?Q" for q using good(2) that by (auto simp: good_updates_def)
  have vs: "v q = h q" if "q \<in> ?Q" for q using lt [OF that] by (simp add: v_def)
  have vl: "v q = hl q" if "q \<in> snd ` set tl" for q using that by (simp add: v_def ld(3))
  have okl: "0 \<le> st_history (hl r) \<and> st_history (hl r) \<le> K (st_target (hl r))" if "(t, r) \<in> set tl" for t r
  proof -
    have "map_of tl t = Some r" using ld(1) that by (simp add: state_ok_def)
    then have "map_of seen t = Some (hl r)" using fun_cong [OF ld(2), of t] by (simp add: state_values_def)
    then have "(t, hl r) \<in> set seen" by (rule map_of_SomeD)
    then show ?thesis using K(2) good(1) by (auto simp: good_state_def)
  qed
  have posP: "\<forall>q \<in> ?P. 0 \<le> st_history (v q)" using pos okl vs vl by fastforce
  have tl: "\<forall>q \<in> ?P. touched K (v q) (hl q)"
  proof
    fix q assume "q \<in> ?P"
    then consider "q \<in> ?Q" | "q \<in> snd ` set tl" by blast
    then show "touched K (v q) (hl q)"
    proof cases
      case 1
      then show ?thesis using t1 vs lt ld(4) by simp
    next
      case 2
      then show ?thesis using okl vl by (force intro: touched_self)
    qed
  qed
  have overlay: "set (map snd ts1) \<subseteq> set first" using v1(2) by simp
  have inj: "distinct (map snd ts1)"
  proof (rule distinct_map [THEN iffD2], intro conjI inj_onI)
    show "distinct ts1" using v1(1) by (simp add: state_ok_def distinct_map)
    fix x y assume "x \<in> set ts1" "y \<in> set ts1" "snd x = snd y"
    moreover from this have "st_target (h1 (snd x)) = fst x" "st_target (h1 (snd y)) = fst y"
      using v1(1) unfolding state_ok_def by force+
    ultimately show "x = y" by (simp add: prod_eq_iff)
  qed
  have disj: "set (map snd ts1) \<inter> snd ` set tl = {}" 
  proof -
    have "q < next" if "q \<in> set (map snd ts1)" for q using that overlay lt [of q] by (simp add: subset_iff)
    then show ?thesis unfolding ld(3) disjoint_iff by (metis atLeastLessThan_iff not_le)
  qed
  have u2: "apply_updates (map snd ts1) (hl, tl) = (h2, view)" using run(2) by (simp add: apply_overlay_def s1 l)
  have t2: "\<forall>q \<in> ?P. touched K (v q) (h2 q)"
    by (rule apply_updates_touched [OF ld(1) inj disj posP u2 tl]) (use overlay in auto)
  have pos2: "0 \<le> st_history (h2 q)" if "q \<in> ?Q" for q
  proof -
    have "touched K (v q) (h2 q)" "0 \<le> st_history (v q)" using t2 posP that by (blast intro: UnI1)+
    then show ?thesis using touched_same(3) [of K "v q" "h2 q"] by simp
  qed
  have target2: "st_target (h2 q) = st_target (h q)" if "q \<in> ?Q" for q
  proof -
    have "touched K (v q) (h2 q)" using t2 that by (blast intro: UnI1)
    then show ?thesis using touched_same(1) [of K "v q" "h2 q"] vs [OF that] by simp
  qed
  then have "filter (\<lambda>r. st_target (h2 r) \<noteq> []) second = second" using good(2) by (simp add: good_updates_def filter_id_conv)
  then obtain ts3 where u3: "apply_updates second (h2, ts1) = (h3, ts3)" and s2: "sy_updates s2 = first @ second"
    using run(3) by (auto simp: session_add_def s1 Let_def split: prod.splits)
  have "map_of ts1 t = Some r \<Longrightarrow> st_target (h2 r) = t \<and> 0 \<le> st_history (h2 r)" for t r
  proof -
    assume a: "map_of ts1 t = Some r"
    then have "r \<in> ?Q" using map_of_SomeD [OF a] v1(2) by force
    moreover have "st_target (h1 r) = t" using state_ok_lookup [OF v1(1) a] by simp
    ultimately show ?thesis using t1 target2 pos2 touched_same(1) [of K "h r" "h1 r"] by simp
  qed
  then have ok2: "state_ok (h2, ts1)" using v1(1) unfolding state_ok_def by auto
  have t3: "\<forall>q \<in> ?Q. touched K (h q) (h2 q)" using t2 vs by (metis UnI1)
  have "\<forall>q \<in> ?Q. touched K (h q) (h3 q)"
    by (rule apply_updates_touched [OF ok2 _ _ pos u3 t3]) (use good(2) overlay in \<open>auto simp: good_updates_def\<close>)
  with s2 show ?thesis by simp
qed

lemma session_is_sequential:
  assumes "good_state seen" "good_state stored" "sees_past seen stored" "good_updates h next (first @ second)"
    and "session_round next seen first second h stored = (h', stored', result)"
  shows "map_of stored' = fold merge_value (map h (first @ second)) (map_of stored)"
proof -
  let ?us = "map h (first @ second)"
  define K where "K = history_of (fold merge_value ?us (map_of stored))"
  obtain h1 s1 where r1: "session_add first (h, \<lparr> sy_updates = [], sy_overlay = [] \<rparr>) = (h1, s1)" by fastforce
  obtain h2 view where r2: "apply_overlay s1 (load_state next seen h1) = (h2, view)" by fastforce
  obtain h3 s2 where r3: "session_add second (h2, s1) = (h3, s2)" by fastforce
  have pos: "\<forall>u \<in> set ?us. 0 \<le> st_history u" using assms(4) by (auto simp: good_updates_def)
  have K1: "\<forall>r \<in> set (first @ second). st_history (h r) \<le> K (st_target (h r))"
    using history_covers [OF pos] by (auto simp: K_def)
  have K0: "history_of (map_of stored) t \<le> K t" for t using history_grows [OF pos] by (simp add: K_def)
  have "\<forall>(t, e) \<in> set seen. st_history e \<le> K t"
    using assms(1,3) K0 unfolding sees_past_def good_state_def by (auto intro: order_trans)
  note st = session_touched [OF assms(1,4) K1 this r1 r2 r3]
  then have touched: "touched K (h r) (h3 r)" if "r \<in> set (first @ second)" for r using that by blast
  have "good_updates h3 (next + length seen) (first @ second)"
    using assms(4) touched touched_same(1,3) unfolding good_updates_def by (metis order_trans trans_less_add1)
  moreover have "merge_r2_state_updates True True True (next + length seen) (first @ second) h3 stored = (h', stored', result)"
    using assms(5) st r1 r2 r3 by (simp add: session_round_def)
  ultimately have m: "map_of stored' = fold merge_value (map h3 (first @ second)) (map_of stored)"
    using merge_stores [OF assms(2)] by blast
  have "list_all2 (touched K) ?us (map h3 (first @ second))"
    unfolding list_all2_map1 list_all2_map2 list_all2_same using touched by blast
  moreover have "rel_option (touched K) (map_of stored t) (map_of stored t)" for t
    using K0 [of t] assms(2) by (cases "map_of stored t") (auto simp: history_of_def good_state_def dest!: map_of_SomeD intro: touched_self)
  moreover have "\<forall>t e. map_of stored t = Some e \<longrightarrow> st_target e = t"
    using assms(2) by (auto simp: good_state_def dest: map_of_SomeD)
  ultimately have rel: "\<forall>t. rel_option (touched K) (fold merge_value ?us (map_of stored) t) (map_of stored' t)"
    unfolding m by (intro merge_touched) blast+
  show ?thesis
  proof
    fix t
    show "map_of stored' t = fold merge_value ?us (map_of stored) t"
    proof (cases "fold merge_value ?us (map_of stored) t")
      case (Some e)
      then obtain e' where e': "map_of stored' t = Some e'" "touched K e e'" using rel by (metis option_rel_Some1)
      have "st_target e = t"
        using Some \<open>\<forall>t e. map_of stored t = Some e \<longrightarrow> st_target e = t\<close> by (rule merged_target)
      then have "K (st_target e) = st_history e" using Some by (simp only: K_def history_of_def option.case)
      then have "st_history e' = st_history e" using touched_same(3,4) [OF e'(2)] by simp
      moreover have "e' = e\<lparr> st_history := st_history e' \<rparr>" using e'(2) by (simp add: touched_def)
      ultimately show ?thesis using Some e'(1) by simp
    next
      case None
      then show ?thesis using rel by (metis option.rel_distinct(1) option.exhaust)
    qed
  qed
qed

section \<open>What a merge writes\<close>

lemma merge_value_same_target:
  "merge_value u m t = (if t = st_target u then Some (merge_entry u (m t)) else m t)"
  by (simp add: merge_value_def)

definition same_check :: "status_entry \<Rightarrow> status_entry \<Rightarrow> bool" where
  "same_check e u \<longleftrightarrow> e = u\<lparr> st_history := st_history e \<rparr>"

lemma merged_newest:
  assumes "\<forall>t e. m t = Some e \<longrightarrow> st_target e = t" "fold merge_value us m t = Some e"
  shows "(\<forall>u \<in> set us. st_target u = t \<longrightarrow> st_checked u \<le> st_checked e \<and> st_history u \<le> st_history e) \<and>
         (\<forall>p. m t = Some p \<longrightarrow> st_checked p \<le> st_checked e \<and> st_history p \<le> st_history e) \<and>
         ((\<exists>u \<in> set us. st_target u = t \<and> same_check e u) \<or> (\<exists>p. m t = Some p \<and> same_check e p))"
  using assms
proof (induction us arbitrary: m)
  case Nil
  then show ?case by (simp add: same_check_def)
next
  case (Cons u us)
  have m: "\<forall>t e. merge_value u m t = Some e \<longrightarrow> st_target e = t"
    using Cons.prems(1) by (auto simp: merge_value_def merge_entry_def split: option.splits if_splits)
  have "fold merge_value us (merge_value u m) t = Some e" using Cons.prems(2) by simp
  note IH = Cons.IH [OF m this]
  show ?case
  proof (cases "t = st_target u")
    case False
    then show ?thesis using IH by (auto simp: merge_value_same_target)
  next
    case True
    define x where "x = merge_entry u (m t)"
    have "merge_value u m t = Some x" using True by (simp add: merge_value_same_target x_def)
    with IH have e: "st_checked x \<le> st_checked e" "st_history x \<le> st_history e"
      "(\<exists>u \<in> set us. st_target u = t \<and> same_check e u) \<or> same_check e x" by auto
    have x: "st_checked u \<le> st_checked x" "st_history u \<le> st_history x"
      "\<And>p. m t = Some p \<Longrightarrow> st_checked p \<le> st_checked x \<and> st_history p \<le> st_history x"
      by (auto simp: x_def merge_entry_def split: option.split)
    have "same_check e u \<or> (\<exists>p. m t = Some p \<and> same_check e p)" if "same_check e x"
      using that by (auto simp: x_def merge_entry_def same_check_def split: option.splits if_splits)
    then have "(\<exists>v \<in> set (u # us). st_target v = t \<and> same_check e v) \<or> (\<exists>p. m t = Some p \<and> same_check e p)"
      using e(3) True by auto
    moreover have "st_checked v \<le> st_checked e \<and> st_history v \<le> st_history e" if "v \<in> set (u # us)" "st_target v = t" for v
      using that IH e(1,2) x(1,2) by auto
    moreover have "st_checked p \<le> st_checked e \<and> st_history p \<le> st_history e" if "m t = Some p" for p
      using x(3) [OF that] e(1,2) by simp
    ultimately show ?thesis by blast
  qed
qed

section \<open>Daily summaries add up\<close>

fun plus_sums :: "day_sums \<Rightarrow> day_sums \<Rightarrow> day_sums" where
  "plus_sums (a, b, c) (x, y, z) = (js_add a x, js_add b y, js_add c z)"

definition sums_of :: "jsval list \<Rightarrow> day_sums" where
  "sums_of points = fold add_point (counted_points points) (jsint 0, jsint 0, jsint 0)"

lemma js_add_assoc: "js_add (js_add x y) z = js_add x (js_add y z)"
  by (cases x; cases y; cases z) simp_all

lemma js_add_0 [simp]: "js_add (Fin 0) x = x" "js_add x (Fin 0) = x"
  by (cases x; simp)+

lemma plus_sums_assoc: "plus_sums (plus_sums a b) c = plus_sums a (plus_sums b c)"
  by (cases a; cases b; cases c) (simp add: js_add_assoc)

lemma plus_sums_0 [simp]: "plus_sums (Fin 0, Fin 0, Fin 0) a = a" "plus_sums a (Fin 0, Fin 0, Fin 0) = a"
  by (cases a; simp)+

lemma add_point_plus: "add_point p acc = plus_sums acc (add_point p (jsint 0, jsint 0, jsint 0))"
  by (cases acc) (simp add: add_point_def add_latency_def)

lemma fold_add_point: "fold add_point ps acc = plus_sums acc (fold add_point ps (jsint 0, jsint 0, jsint 0))"
proof (induction ps arbitrary: acc)
  case (Cons p ps)
  show ?case
    using Cons.IH [of "add_point p acc"] Cons.IH [of "add_point p (jsint 0, jsint 0, jsint 0)"] add_point_plus [of p acc]
    by (simp add: plus_sums_assoc)
qed simp

lemma sums_of_append: "sums_of (xs @ ys) = plus_sums (sums_of xs) (sums_of ys)"
  unfolding sums_of_def counted_points_def filter_append fold_append comp_def by (rule fold_add_point)

lemma daily_sums:
  "(ds_total (daily_summary_from_points now ps), ds_ok (daily_summary_from_points now ps), ds_latency (daily_summary_from_points now ps)) = sums_of ps"
  by (simp add: daily_summary_from_points_def sums_of_def case_prod_beta Let_def)

section \<open>The days that are kept\<close>

lemma map_of_filter_key: "map_of (filter (\<lambda>(k, _). P k) m) k = (if P k then map_of m k else None)"
  by (induction m) auto

lemma daily_keys:
  fixes day :: string and summary :: day_sum and existing :: daily
  defines "d \<equiv> AList.update day summary existing"
  assumes "distinct (map fst existing)"
  shows "distinct (map fst (set_daily_summary existing day summary))"
    "sort (map fst (set_daily_summary existing day summary)) = take_last daily_limit (sort (map fst d))"
    "\<And>k. k \<in> fst ` set (set_daily_summary existing day summary) \<Longrightarrow> map_of (set_daily_summary existing day summary) k = map_of d k"
proof -
  define ks where "ks = sort (map fst d)"
  define old where "old = take (length ks - daily_limit) ks"
  have dist: "distinct (map fst d)" using assms(2) by (simp add: d_def distinct_update)
  have e: "set_daily_summary existing day summary = filter (\<lambda>(k, _). k \<notin> set old) d"
    by (simp add: set_daily_summary_def Let_def old_def ks_def d_def)
  have fst_filter: "map fst (filter (\<lambda>(k, _). k \<notin> set old) d) = filter (\<lambda>k. k \<notin> set old) (map fst d)"
    by (simp add: filter_map comp_def case_prod_unfold)
  then show "distinct (map fst (set_daily_summary existing day summary))" using dist by (simp add: e)
  have ks: "distinct ks" "set ks = fst ` set d" "sorted ks" using dist by (simp_all add: ks_def)
  have "filter (\<lambda>k. k \<notin> set old) ks = drop (length ks - daily_limit) ks"
  proof -
    have split: "ks = old @ drop (length ks - daily_limit) ks" by (simp add: old_def)
    then have "distinct (old @ drop (length ks - daily_limit) ks)" using ks(1) by simp
    then have "filter (\<lambda>k. k \<notin> set old) (drop (length ks - daily_limit) ks) = drop (length ks - daily_limit) ks"
      by (intro filter_True) auto
    then show ?thesis by (subst split) simp
  qed
  moreover have "sort (filter (\<lambda>k. k \<notin> set old) (map fst d)) = filter (\<lambda>k. k \<notin> set old) ks"
    using filter_sort [of "\<lambda>k. k \<notin> set old" "\<lambda>x. x" "map fst d"] by (simp add: ks_def)
  ultimately show "sort (map fst (set_daily_summary existing day summary)) = take_last daily_limit (sort (map fst d))"
    by (simp add: e fst_filter take_last_def ks_def)
  fix k assume "k \<in> fst ` set (set_daily_summary existing day summary)"
  then have "k \<notin> set old" by (auto simp: e)
  then show "map_of (set_daily_summary existing day summary) k = map_of d k"
    by (simp add: e map_of_filter_key)
qed

section \<open>Properties\<close>

text \<open>C14: A scheduled round writes what two merges one after the other write: buffering both batches in a session, showing
  the first to the second scheduler through the overlay and merging once gives every target the same status, although
  the overlay and the state the fast scheduler reads share the update objects and write into them.
\<close>

theorem session_equals_two_merges:
  assumes "good_state stored" "good_state seen" "sees_past seen stored" "good_updates h n (first @ second)"
    and "merge_r2_state_updates True True True n first h stored = (h1, stored1, r1)"
    and "merge_r2_state_updates True True True n second h1 stored1 = (h2, stored2, r2)"
    and "session_round n seen first second h stored = (h', stored', result)"
  shows "map_of stored' = map_of stored2"
proof -
  have first: "good_updates h n first" using assms(4) by (simp add: good_updates_def)
  note m1 = merge_stores [OF assms(1) first assms(5)]
  have same: "h1 q = h q" if "q \<in> set second" for q
    using m1 assms(4) that by (auto simp: good_updates_def)
  then have "good_updates h1 n second" using assms(4) by (simp add: good_updates_def)
  then have "map_of stored2 = fold merge_value (map h1 second) (map_of stored1)"
    using m1 merge_stores [OF _ _ assms(6)] by blast
  moreover have "map h1 second = map h second" using same by simp
  ultimately show ?thesis using m1 session_is_sequential [OF assms(2,1,3,4,7)] by simp
qed

text \<open>A merge keeps the newest: the status of a target afterwards is one of the updates or the stored one, no update and
  not the stored one is a later check, and its \<open>history_checked_at\<close> is the latest of all.
\<close>

theorem merged_status_is_newest:
  assumes "good_state stored" "good_updates h n rs" "merge_r2_state_updates True True True n rs h stored = (h', stored', result)"
    and "map_of stored' t = Some e"
  shows "(\<forall>r \<in> set rs. st_target (h r) = t \<longrightarrow> st_checked (h r) \<le> st_checked e \<and> st_history (h r) \<le> st_history e) \<and>
         (\<forall>p. map_of stored t = Some p \<longrightarrow> st_checked p \<le> st_checked e \<and> st_history p \<le> st_history e) \<and>
         ((\<exists>r \<in> set rs. st_target (h r) = t \<and> same_check e (h r)) \<or> (\<exists>p. map_of stored t = Some p \<and> same_check e p))"
proof -
  have "\<forall>t e. map_of stored t = Some e \<longrightarrow> st_target e = t"
    using assms(1) by (auto simp: good_state_def dest: map_of_SomeD)
  moreover have "fold merge_value (map h rs) (map_of stored) t = Some e"
    using merge_stores [OF assms(1-3)] assms(4) by simp
  ultimately show ?thesis using merged_newest [of "map_of stored" "map h rs" t e] by simp
qed

text \<open>
  C1. The sums of a day add up: the summary of the points of a day is the sum of the summary of the points stored before
  and of the summary of the incoming ones, wherever the list is cut.
\<close>

theorem daily_summary_adds_up:
  "(ds_total (daily_summary_from_points now (xs @ ys)), ds_ok (daily_summary_from_points now (xs @ ys)), ds_latency (daily_summary_from_points now (xs @ ys))) =
   (js_add (ds_total (daily_summary_from_points now xs)) (ds_total (daily_summary_from_points now ys)),
    js_add (ds_ok (daily_summary_from_points now xs)) (ds_ok (daily_summary_from_points now ys)),
    js_add (ds_latency (daily_summary_from_points now xs)) (ds_latency (daily_summary_from_points now ys)))"
  using sums_of_append [of xs ys, folded daily_sums [of now]] by simp

text \<open>C1. The status of a target carries the latest ninety days: the newest of the stored days and of the one set, each as it was.\<close>

theorem daily_summaries_are_bounded:
  assumes "distinct (map fst existing)"
  shows "length (set_daily_summary existing day summary) \<le> 90 \<and>
         sort (map fst (set_daily_summary existing day summary)) = take_last 90 (sort (map fst (AList.update day summary existing))) \<and>
         (\<forall>k \<in> fst ` set (set_daily_summary existing day summary).
            map_of (set_daily_summary existing day summary) k = (if k = day then Some summary else map_of existing k))"
proof -
  note d = daily_keys [OF assms, where day = day and summary = summary]
  have "length (set_daily_summary existing day summary) = length (sort (map fst (set_daily_summary existing day summary)))" by simp
  also have "\<dots> \<le> 90" unfolding d(2) by (simp add: daily_limit_def)
  finally show ?thesis using d(2,3) by (simp add: daily_limit_def update_conv)
qed

section \<open>Examples\<close>

definition sample_status :: "string \<Rightarrow> int \<Rightarrow> int \<Rightarrow> int \<Rightarrow> status_entry" where
  "sample_status t checked history ok =
     \<lparr> st_target = t, st_checked = checked, st_history = history, st_ok = ok, st_latency = Some 20, st_status = None, st_error = None,
       st_region = ''auto'', st_colo = None, st_uptime_24h = None, st_uptime_7d = None, st_avg_latency = None, st_last_fail = 0,
       st_outage_started = 0, st_last_recover = 0, st_changed = 0, st_daily = [] \<rparr>"

text \<open>Two updates of \<open>web\<close>, the second checked earlier, and one of \<open>db\<close>\<close>

definition sample_heap :: heap where
  "sample_heap r = (if r = 0 then sample_status ''web'' 900 600 1 else if r = 1 then sample_status ''web'' 870 870 0 else sample_status ''db'' 900 0 1)"

definition sample_stored :: "(string \<times> status_entry) list" where
  "sample_stored = [(''web'', sample_status ''web'' 600 600 1)]"

lemma sample_good: "good_state sample_stored" "good_updates sample_heap 3 ([0] @ [1, 2])" "sees_past sample_stored sample_stored"
  by (auto simp: good_state_def good_updates_def sees_past_def history_of_def sample_stored_def sample_heap_def sample_status_def)

lemma session_equals_two_merges_witness:
  "map_of (fst (snd (session_round 3 sample_stored [0] [1, 2] sample_heap sample_stored))) =
   map_of (fst (snd (case merge_r2_state_updates True True True 3 [0] sample_heap sample_stored of
     (h1, stored1, _) \<Rightarrow> merge_r2_state_updates True True True 3 [1, 2] h1 stored1)))"
proof -
  obtain h1 s1 r1 where a: "merge_r2_state_updates True True True 3 [0] sample_heap sample_stored = (h1, s1, r1)" by (metis prod.exhaust)
  obtain h2 s2 r2 where b: "merge_r2_state_updates True True True 3 [1, 2] h1 s1 = (h2, s2, r2)" by (metis prod.exhaust)
  obtain h3 s3 r3 where c: "session_round 3 sample_stored [0] [1, 2] sample_heap sample_stored = (h3, s3, r3)" by (metis prod.exhaust)
  show ?thesis using session_equals_two_merges [OF sample_good(1,1,3,2) a b c] by (simp only: a b c prod.case fst_conv snd_conv)
qed

lemma merged_status_is_newest_witness:
  "\<exists>e. map_of (fst (snd (merge_r2_state_updates True True True 3 [0, 1, 2] sample_heap sample_stored))) ''web'' = Some e \<and>
       st_checked e = 900 \<and> st_history e = 870 \<and> st_history (sample_heap 1) \<le> st_history e"
proof -
  obtain h s r where m: "merge_r2_state_updates True True True 3 [0, 1, 2] sample_heap sample_stored = (h, s, r)" by (metis prod.exhaust)
  have g: "good_updates sample_heap 3 [0, 1, 2]" using sample_good(2) by simp
  have "map_of s ''web'' = fold merge_value (map sample_heap [0, 1, 2]) (map_of sample_stored) ''web''"
    using merge_stores [OF sample_good(1) g m] by simp
  also have "\<dots> = Some (sample_status ''web'' 900 870 1)"
    by (simp add: merge_value_def merge_entry_def sample_heap_def sample_stored_def sample_status_def)
  finally have e: "map_of s ''web'' = Some (sample_status ''web'' 900 870 1)" .
  have "st_history (sample_heap 1) \<le> st_history (sample_status ''web'' 900 870 1)"
    using merged_status_is_newest [OF sample_good(1) g m e, THEN conjunct1, THEN bspec, of 1]
    by (simp add: sample_heap_def sample_status_def)
  with e show ?thesis by (simp only: m fst_conv snd_conv) (simp add: sample_status_def)
qed

lemma daily_summaries_are_bounded_witness:
  "length (set_daily_summary [] ''2024-01-01'' (daily_summary_from_points 0 [])) \<le> 90"
  using daily_summaries_are_bounded [of "[]" "''2024-01-01''" "daily_summary_from_points 0 []"] by simp

end
