(* ===== verification/Leases.thy ===== *)
theory Leases
  imports Utils
begin

text \<open>
  The leases in the table \<open>app_meta\<close>: the lock of the R2 state and of an Agent's history (\<open>storage.js\<close>) and the lease
  of a probe run (\<open>probe.js\<close>). All three are one row \<open>expiry:uuid\<close>, taken by an upsert that is guarded by the expiry of
  the row, confirmed by reading the row back, and released by deleting the row that still holds the token.

  Between the upsert and the read any other request may act, and the clock a request reads may be behind. A token is its
  expiry and its \<open>crypto.randomUUID()\<close>, a number that is drawn once.
\<close>

type_synonym token = "int \<times> nat"

definition lease_upsert :: "int \<Rightarrow> token \<Rightarrow> token option \<Rightarrow> token option" where
  "lease_upsert now token row = (case row of Some (expiry, _) \<Rightarrow> if expiry < now then Some token else row | None \<Rightarrow> Some token)"

definition lease_release :: "token \<Rightarrow> token option \<Rightarrow> token option" where
  "lease_release token row = (if row = Some token then None else row)"

definition r2_lock_ttl_sec :: "jsval \<Rightarrow> int" where
  "r2_lock_ttl_sec env = clamp (js_Number (js_or (js_get env ''R2_LOCK_TTL_SEC'') (JInt 30))) 15 120"

definition history_lock_ttl_sec :: int where "history_lock_ttl_sec = 90"
definition probe_lease_ttl_sec :: int where "probe_lease_ttl_sec = 180"
definition fast_lease_ttl_sec :: int where "fast_lease_ttl_sec = 120"
definition lock_attempts :: nat where "lock_attempts = 12"

text \<open>\<open>gap\<close>: what other requests do to the row between the two statements\<close>

definition acquire_lease :: "int \<Rightarrow> int \<Rightarrow> nat \<Rightarrow> (token option \<Rightarrow> token option) \<Rightarrow> token option \<Rightarrow> token option \<times> token option" where
  "acquire_lease now ttl uuid gap row =
     (let token = (now + ttl, uuid); row' = gap (lease_upsert now token row)
      in (row', if row' = Some token then Some token else None))"

text \<open>\<open>acquireR2Lock\<close>: one clock, identifier and pair of gaps per attempt\<close>

fun acquire_r2_lock ::
  "int \<Rightarrow> (int \<times> nat \<times> (token option \<Rightarrow> token option) \<times> (token option \<Rightarrow> token option)) list \<Rightarrow> token option \<Rightarrow> token option \<times> token option" where
  "acquire_r2_lock ttl [] row = (row, None)"
| "acquire_r2_lock ttl ((now, uuid, gap, pause) # attempts) row =
     (case acquire_lease now ttl uuid gap row of
        (row', Some token) \<Rightarrow> (row', Some token)
      | (row', None) \<Rightarrow> acquire_r2_lock ttl attempts (pause row'))"

section \<open>The requests of one lease\<close>

record lease_state =
  ls_clock :: int
  ls_row :: "token option"
  ls_asked :: "token set"
  ls_held :: "token set"
  ls_drawn :: "nat set"

definition initial_lease :: lease_state where
  "initial_lease = \<lparr> ls_clock = 0, ls_row = None, ls_asked = {}, ls_held = {}, ls_drawn = {} \<rparr>"

inductive lease_step :: "lease_state \<Rightarrow> lease_state \<Rightarrow> bool" where
  tick: "ls_clock s \<le> now \<Longrightarrow> lease_step s (s\<lparr> ls_clock := now \<rparr>)"
| ask: "now \<le> ls_clock s \<Longrightarrow> uuid \<notin> ls_drawn s \<Longrightarrow> 0 < ttl \<Longrightarrow>
    lease_step s (s\<lparr> ls_row := lease_upsert now (now + ttl, uuid) (ls_row s), ls_asked := insert (now + ttl, uuid) (ls_asked s),
                     ls_drawn := insert uuid (ls_drawn s) \<rparr>)"
| confirm: "token \<in> ls_asked s \<Longrightarrow>
    lease_step s (s\<lparr> ls_asked := ls_asked s - {token}, ls_held := (if ls_row s = Some token then insert token (ls_held s) else ls_held s) \<rparr>)"
| release: "token \<in> ls_held s \<Longrightarrow>
    lease_step s (s\<lparr> ls_row := lease_release token (ls_row s), ls_held := ls_held s - {token} \<rparr>)"

abbreviation reachable_lease :: "lease_state \<Rightarrow> bool" where
  "reachable_lease \<equiv> lease_step\<^sup>*\<^sup>* initial_lease"

definition lease_ok :: "lease_state \<Rightarrow> bool" where
  "lease_ok s \<longleftrightarrow>
     snd ` (ls_asked s \<union> ls_held s \<union> set_option (ls_row s)) \<subseteq> ls_drawn s \<and>
     ls_asked s \<inter> ls_held s = {} \<and>
     (\<forall>token \<in> ls_held s. ls_clock s \<le> fst token \<longrightarrow> ls_row s = Some token)"

lemma lease_step_ok: "lease_step s s' \<Longrightarrow> lease_ok s \<Longrightarrow> lease_ok s'"
proof (induction rule: lease_step.induct)
  case (tick s now)
  then show ?case by (auto simp: lease_ok_def)
next
  case (ask now s uuid ttl)
  have fresh: "(now + ttl, uuid) \<notin> ls_held s" using ask by (force simp: lease_ok_def)
  have "lease_upsert now (now + ttl, uuid) (ls_row s) = Some token" if "token \<in> ls_held s" "ls_clock s \<le> fst token" for token
    using ask that by (auto simp: lease_ok_def lease_upsert_def split: prod.split)
  moreover have "set_option (lease_upsert now (now + ttl, uuid) (ls_row s)) \<subseteq> insert (now + ttl, uuid) (set_option (ls_row s))"
    by (auto simp: lease_upsert_def split: option.splits prod.splits if_splits)
  ultimately show ?case using ask fresh by (fastforce simp: lease_ok_def)
next
  case (confirm token s)
  then show ?case by (auto simp: lease_ok_def)
next
  case (release token s)
  have "lease_release token (ls_row s) = Some other" if "other \<in> ls_held s - {token}" "ls_clock s \<le> fst other" for other
    using release that by (auto simp: lease_ok_def lease_release_def)
  with release show ?case by (auto simp: lease_ok_def lease_release_def split: if_splits)
qed

lemma reachable_lease_ok: "reachable_lease s \<Longrightarrow> lease_ok s"
  by (induction rule: rtranclp_induct) (auto simp: lease_step_ok, simp add: lease_ok_def initial_lease_def)

section \<open>Properties\<close>

text \<open>C15: A lease excludes: of the requests that hold a confirmed token, at most one has a token that is not expired, however
  the statements of any number of requests come between each other and however far behind the clock one of them read is.
\<close>

theorem lease_is_exclusive:
  assumes "reachable_lease s" "a \<in> ls_held s" "b \<in> ls_held s" "ls_clock s \<le> fst a" "ls_clock s \<le> fst b"
  shows "a = b"
  using reachable_lease_ok [OF assms(1)] assms(2-5) unfolding lease_ok_def by (metis option.inject)

text \<open>
  C1. An attempt is a run of the steps above: what \<open>acquire_lease\<close> returns is a token that is held afterwards, when what
  comes between its two statements is a run of steps too.
\<close>

theorem acquired_lease_is_held:
  assumes "reachable_lease s" "now \<le> ls_clock s" "uuid \<notin> ls_drawn s" "0 < ttl"
    and "lease_step\<^sup>*\<^sup>* (s\<lparr> ls_row := lease_upsert now (now + ttl, uuid) (ls_row s), ls_asked := insert (now + ttl, uuid) (ls_asked s),
                              ls_drawn := insert uuid (ls_drawn s) \<rparr>) t"
    and "(now + ttl, uuid) \<in> ls_asked t" "gap (lease_upsert now (now + ttl, uuid) (ls_row s)) = ls_row t"
    and "acquire_lease now ttl uuid gap (ls_row s) = (row, Some token)"
  shows "\<exists>u. reachable_lease u \<and> ls_row u = row \<and> token \<in> ls_held u \<and> ls_clock u = ls_clock t"
proof -
  have row: "row = ls_row t" "token = (now + ttl, uuid)" "ls_row t = Some token"
    using assms(7,8) by (auto simp: acquire_lease_def Let_def split: if_splits)
  have "reachable_lease t" using assms(1) lease_step.ask [OF assms(2-4)] assms(5) by (meson converse_rtranclp_into_rtranclp rtranclp_trans)
  moreover define u where "u = t\<lparr> ls_asked := ls_asked t - {token}, ls_held := (if ls_row t = Some token then insert token (ls_held t) else ls_held t) \<rparr>"
  moreover have "lease_step t u" unfolding u_def using assms(6) row(2) by (intro lease_step.confirm) simp
  ultimately have "reachable_lease u" by (meson rtranclp.rtrancl_into_rtrancl)
  moreover have "ls_row u = row" "token \<in> ls_held u" "ls_clock u = ls_clock t" using row by (simp_all add: u_def)
  ultimately show ?thesis by blast
qed

section \<open>Examples\<close>

definition one_asked :: lease_state where
  "one_asked = \<lparr> ls_clock = 0, ls_row = Some (30, 7), ls_asked = {(30, 7)}, ls_held = {}, ls_drawn = {7} \<rparr>"

definition one_holder :: lease_state where
  "one_holder = \<lparr> ls_clock = 0, ls_row = Some (30, 7), ls_asked = {}, ls_held = {(30, 7)}, ls_drawn = {7} \<rparr>"

lemma one_asked_step: "lease_step initial_lease one_asked"
  using lease_step.ask [of 0 initial_lease 7 30] by (simp add: initial_lease_def one_asked_def lease_upsert_def)

lemma one_holder_reachable: "reachable_lease one_holder"
proof -
  have "lease_step one_asked one_holder"
    using lease_step.confirm [of "(30, 7)" one_asked] by (simp add: one_asked_def one_holder_def)
  with one_asked_step show ?thesis by (meson converse_rtranclp_into_rtranclp rtranclp.rtrancl_refl)
qed

lemma lease_is_exclusive_witness: "ls_held one_holder = {(30, 7)} \<and> reachable_lease one_holder"
proof -
  have "a = (30, 7)" if "a \<in> ls_held one_holder" for a
    by (rule lease_is_exclusive [OF one_holder_reachable that]) (use that in \<open>simp_all add: one_holder_def\<close>)
  then show ?thesis using one_holder_reachable by (auto simp: one_holder_def)
qed

lemma acquired_lease_is_held_witness:
  "\<exists>u. reachable_lease u \<and> ls_row u = Some (30, 7) \<and> (30, 7) \<in> ls_held u \<and> ls_clock u = 0"
proof -
  have "\<exists>u. reachable_lease u \<and> ls_row u = Some (30, 7) \<and> (30, 7) \<in> ls_held u \<and> ls_clock u = ls_clock one_asked"
    by (rule acquired_lease_is_held [of initial_lease 0 7 30 one_asked "\<lambda>r. r"])
      (simp_all add: initial_lease_def one_asked_def lease_upsert_def acquire_lease_def Let_def)
  then show ?thesis by (simp add: one_asked_def)
qed

end
