(* ===== verification/ProbeRun.thy ===== *)
theory ProbeRun
  imports StatusState
begin

text \<open>
  \<open>worker/src/probe.js\<close> and the statements of \<open>worker/src/admin/check-buckets.js\<close> it writes with: which targets are due,
  how the answers of a region are matched to them, what a check changes in the status, the daily summary, the incidents
  and the tables, and what a fast status check changes.

  \<^item> A target is its row (\<open>jsval\<close>). The probe itself (\<open>fetch\<close>, a socket) is the argument \<open>result\<close>.
  \<^item> What the history hub and D1 answer is an argument: \<open>appended\<close>, \<open>committed\<close>, and \<open>read_day\<close> for the day summary
    that is read back. The clock is \<open>now\<close>; \<open>checked_at\<close> is what the code passes.
  \<^item> \<open>daySummaryCache\<close>, the cache of the isolate, is a list passed and returned.
\<close>

section \<open>Targets, regions and intervals\<close>

definition target_id_of :: "jsval \<Rightarrow> string" where
  "target_id_of t = js_String (js_get t ''id'')"

definition region_of :: "jsval \<Rightarrow> string" where
  "region_of t = js_String (js_or (js_get t ''probe_region'') (Str ''auto''))"

definition group_targets_by_region :: "jsval list \<Rightarrow> (string \<times> jsval list) list" where
  "group_targets_by_region targets =
     fold (\<lambda>t groups. AList.update (region_of t) ((case map_of groups (region_of t) of Some ts \<Rightarrow> ts | None \<Rightarrow> []) @ [t]) groups) targets []"

definition trimmed_id :: "string \<Rightarrow> jsval \<Rightarrow> string" where
  "trimmed_id field v = js_trim (js_String (js_or (js_get v field) (Str [])))"

datatype align_error = Duplicate_or_missing_input | Incomplete_mapping | Invalid_mapping

fun expect_targets :: "jsval list \<Rightarrow> string list \<Rightarrow> align_error + string list" where
  "expect_targets [] ids = Inr ids"
| "expect_targets (t # ts) ids =
     (let i = trimmed_id ''id'' t
      in if i = [] \<or> i \<in> set ids then Inl Duplicate_or_missing_input else expect_targets ts (ids @ [i]))"

fun receive_results :: "string list \<Rightarrow> jsval list \<Rightarrow> (string \<times> jsval) list \<Rightarrow> align_error + (string \<times> jsval) list" where
  "receive_results ids [] received = Inr received"
| "receive_results ids (r # rs) received =
     (let i = trimmed_id ''target_id'' r
      in if i = [] \<or> i \<notin> set ids \<or> i \<in> fst ` set received then Inl Invalid_mapping else receive_results ids rs (received @ [(i, r)]))"

definition align_region_batch_results :: "jsval list \<Rightarrow> jsval list option \<Rightarrow> align_error + jsval list" where
  "align_region_batch_results targets results =
     (case expect_targets targets [] of
        Inl e \<Rightarrow> Inl e
      | Inr ids \<Rightarrow>
          (case results of
             None \<Rightarrow> Inl Incomplete_mapping
           | Some rs \<Rightarrow>
               if length rs \<noteq> length ids then Inl Incomplete_mapping
               else (case receive_results ids rs [] of
                       Inl e \<Rightarrow> Inl e
                     | Inr received \<Rightarrow>
                         if length received \<noteq> length ids then Inl Incomplete_mapping
                         else Inr (map (\<lambda>t. the (map_of received (js_trim (js_String (js_get t ''id''))))) targets))))"

definition setting :: "jsval \<Rightarrow> string \<Rightarrow> int \<Rightarrow> int \<Rightarrow> int \<Rightarrow> int" where
  "setting v key default_value lo hi = clamp (js_Number (js_or (js_get v key) (JInt default_value))) lo hi"

definition region_batch_timeout_ms :: "jsval \<Rightarrow> jsval list \<Rightarrow> int" where
  "region_batch_timeout_ms env targets =
     (let longest = fold (\<lambda>t m. max m (setting t ''timeout_ms'' 3000 500 30000)) targets 0
      in max 5000 (min 65000 (longest + setting env ''REGION_PROXY_EXTRA_TIMEOUT_MS'' 1500 250 10000 + 3000)))"

definition schedule_flush_due :: "jsval \<Rightarrow> int \<Rightarrow> jsval \<Rightarrow> bool" where
  "schedule_flush_due target checked_at env =
     (let least = clamp (js_Number (js_coalesce (js_get env ''TARGET_SCHEDULE_FLUSH_SEC'') (JInt 7200))) 60 86400
      in case num_or0 (js_get target ''last_checked_at'') of
           Fin q \<Rightarrow> q \<le> 0 \<or> of_int least \<le> of_int checked_at - q
         | _ \<Rightarrow> True)"

definition min_interval_sec :: int where "min_interval_sec = 300"

definition history_due_interval_sec :: "jsval \<Rightarrow> jsval \<Rightarrow> int option \<Rightarrow> int" where
  "history_due_interval_sec target env previous_ok =
     (let base = setting target ''interval_sec'' 300 min_interval_sec 86400
      in if previous_ok = Some 0 then setting env ''HISTORY_PROBE_DOWN_INTERVAL_SEC'' 120 60 3600
         else let healthy = setting env ''HISTORY_PROBE_HEALTHY_INTERVAL_SEC'' 300 min_interval_sec 86400;
                  region = (if region_of target = ''auto'' then min_interval_sec
                            else setting env ''HISTORY_PROBE_REGION_INTERVAL_SEC'' 300 min_interval_sec 3600)
              in max (max base healthy) region)"

definition fast_status_due_interval :: "jsval \<Rightarrow> status_entry option \<Rightarrow> int \<Rightarrow> int \<Rightarrow> jsval \<Rightarrow> int" where
  "fast_status_due_interval target previous now base_interval_sec env =
     (let base = max 60 (min 3600 (if base_interval_sec = 0 then 300 else base_interval_sec));
          due = (if region_of target \<noteq> ''auto'' then max base (setting env ''FAST_STATUS_REGION_INTERVAL_SEC'' 300 60 3600) else base)
      in case previous of
           None \<Rightarrow> due
         | Some p \<Rightarrow>
             if st_ok p \<noteq> 0 then due
             else let down_after = clamp (js_Number (js_coalesce (js_get env ''FAST_STATUS_DOWN_AFTER_SEC'') (JInt 0))) 0 7200
                  in if down_after = 0 \<or> (st_outage_started p \<noteq> 0 \<and> down_after \<le> now - st_outage_started p)
                     then min due (setting env ''FAST_STATUS_DOWN_INTERVAL_SEC'' 120 60 1800) else due)"

section \<open>The previous state\<close>

definition merge_previous_state :: "status_entry option \<Rightarrow> status_entry option \<Rightarrow> status_entry option" where
  "merge_previous_state r2 d1 =
     (case d1 of
        None \<Rightarrow> r2
      | Some d \<Rightarrow>
          (case r2 of
             None \<Rightarrow> Some (d\<lparr> st_history := 0, st_daily := [] \<rparr>)
           | Some r \<Rightarrow> if st_checked r < st_checked d then Some (d\<lparr> st_history := st_history r, st_daily := st_daily r \<rparr>) else Some r))"

definition last_check_of :: "jsval \<Rightarrow> status_entry option \<Rightarrow> int \<Rightarrow> jsnum" where
  "last_check_of target d1 history =
     last_persisted_check_at target (case d1 of None \<Rightarrow> Undefined | Some d \<Rightarrow> Obj [(''checked_at'', JInt (st_checked d))]) (JInt history)"

definition previous_of_target :: "(string \<times> status_entry) list \<Rightarrow> (string \<times> status_entry) list \<Rightarrow> jsval \<Rightarrow> status_entry option" where
  "previous_of_target r2 d1 target = merge_previous_state (map_of r2 (target_id_of target)) (map_of d1 (target_id_of target))"

definition whole :: "jsnum \<Rightarrow> int" where
  "whole n = (case n of Fin q \<Rightarrow> \<lfloor>q\<rfloor> | _ \<Rightarrow> 0)"

definition history_previous_state :: "(string \<times> status_entry) list \<Rightarrow> (string \<times> status_entry) list \<Rightarrow> jsval \<Rightarrow> status_entry option" where
  "history_previous_state r2 d1 target =
     (case previous_of_target r2 d1 target of
        None \<Rightarrow> None
      | Some p \<Rightarrow> Some (p\<lparr> st_checked := whole (last_check_of target (map_of d1 (target_id_of target)) (st_history p)) \<rparr>))"

text \<open>Which targets \<open>runDueTargets\<close> and \<open>runFastStatusTargets\<close> probe, the one waiting longest first\<close>

definition due_targets :: "jsval \<Rightarrow> int \<Rightarrow> (string \<times> status_entry) list \<Rightarrow> (string \<times> status_entry) list \<Rightarrow> jsval list \<Rightarrow> jsval list" where
  "due_targets env now r2 d1 targets =
     (let last = (\<lambda>t. last_check_of t (map_of d1 (target_id_of t)) (case map_of r2 (target_id_of t) of Some e \<Rightarrow> st_history e | None \<Rightarrow> 0))
      in take (nat (setting env ''MAX_TARGETS_PER_RUN'' 20 1 200))
           (sort_key (\<lambda>t. whole (last t))
              (filter (\<lambda>t. js_le (last t) (jsint (now - history_due_interval_sec t env (map_option st_ok (history_previous_state r2 d1 t))))) targets)))"

definition fast_due_targets :: "jsval \<Rightarrow> int \<Rightarrow> (string \<times> status_entry) list \<Rightarrow> (string \<times> status_entry) list \<Rightarrow> jsval list \<Rightarrow> jsval list" where
  "fast_due_targets env now r2 d1 targets =
     (let previous = previous_of_target r2 d1;
          last = (\<lambda>t. case previous t of Some p \<Rightarrow> st_checked p | None \<Rightarrow> 0);
          interval = setting env ''FAST_STATUS_INTERVAL_SEC'' 300 60 3600
      in take (nat (setting env ''FAST_STATUS_MAX_TARGETS'' 100 1 200))
           (sort_key last (filter (\<lambda>t. last t \<le> now - fast_status_due_interval t (previous t) now interval env) targets)))"

section \<open>Incidents\<close>

datatype incident_action = Started | Still_down | Recovered

record incident_write =
  iw_action :: incident_action
  iw_started :: int
  iw_recovered :: int
  iw_colo :: "string option"
  iw_error :: "string option"

record outage_update =
  ou_started_at :: int
  ou_last_recover :: int
  ou_write :: "incident_write option"

definition or_time :: "int \<Rightarrow> int \<Rightarrow> int" where
  "or_time a b = (if a \<noteq> 0 then a else b)"

definition was_down :: "status_entry option \<Rightarrow> bool" where
  "was_down previous = (case previous of Some p \<Rightarrow> st_ok p = 0 | None \<Rightarrow> False)"

definition previous_time :: "(status_entry \<Rightarrow> int) \<Rightarrow> status_entry option \<Rightarrow> int" where
  "previous_time f previous = (case previous of Some p \<Rightarrow> f p | None \<Rightarrow> 0)"

definition build_incident_update :: "int \<Rightarrow> int \<Rightarrow> string option \<Rightarrow> string option \<Rightarrow> status_entry option \<Rightarrow> outage_update" where
  "build_incident_update checked_at ok err colo previous =
     (let started = or_time (previous_time st_outage_started previous) checked_at; recover = previous_time st_last_recover previous
      in if ok = 0 \<and> \<not> was_down previous then
           \<lparr> ou_started_at = checked_at, ou_last_recover = recover,
             ou_write = Some \<lparr> iw_action = Started, iw_started = checked_at, iw_recovered = 0, iw_colo = colo, iw_error = err \<rparr> \<rparr>
         else if ok = 0 then
           \<lparr> ou_started_at = started, ou_last_recover = recover,
             ou_write = Some \<lparr> iw_action = Still_down, iw_started = started, iw_recovered = 0, iw_colo = colo, iw_error = err \<rparr> \<rparr>
         else if was_down previous then
           \<lparr> ou_started_at = 0, ou_last_recover = checked_at,
             ou_write = Some \<lparr> iw_action = Recovered, iw_started = started, iw_recovered = checked_at, iw_colo = colo, iw_error = None \<rparr> \<rparr>
         else \<lparr> ou_started_at = 0, ou_last_recover = recover, ou_write = None \<rparr>)"

record incident =
  in_id :: string
  in_target :: string
  in_started :: int
  in_recovered :: "int option"
  in_last :: "int option"
  in_start_colo :: "string option"
  in_recover_colo :: "string option"
  in_error :: "string option"

definition open_of :: "string \<Rightarrow> incident \<Rightarrow> bool" where
  "open_of target i \<longleftrightarrow> in_target i = target \<and> in_recovered i = None"

definition int_text :: "int \<Rightarrow> string" where
  "int_text i = js_String (JInt i)"

text \<open>\<open>INSERT OR IGNORE\<close> with the primary key and the unique index on the open incident of a target\<close>

definition sql_incident_started :: "string \<Rightarrow> int \<Rightarrow> string option \<Rightarrow> string option \<Rightarrow> incident list \<Rightarrow> incident list" where
  "sql_incident_started target started_at colo err rows =
     (let row = \<lparr> in_id = target @ ''-'' @ int_text started_at, in_target = target, in_started = started_at, in_recovered = None,
                  in_last = Some started_at, in_start_colo = colo, in_recover_colo = None, in_error = map_option (take 500) err \<rparr>
      in if \<exists>i \<in> set rows. in_id i = in_id row \<or> open_of target i then rows else rows @ [row])"

definition sql_incident_recovered :: "string \<Rightarrow> int \<Rightarrow> string option \<Rightarrow> incident list \<Rightarrow> incident list" where
  "sql_incident_recovered target recovered_at colo rows =
     map (\<lambda>i. if open_of target i then i\<lparr> in_recovered := Some recovered_at, in_last := Some recovered_at, in_recover_colo := colo, in_error := None \<rparr> else i) rows"

definition sql_incident_touch :: "string \<Rightarrow> int \<Rightarrow> string option \<Rightarrow> incident list \<Rightarrow> incident list" where
  "sql_incident_touch target checked_at err rows =
     map (\<lambda>i. if open_of target i then i\<lparr> in_last := Some checked_at, in_error := map_option (take 500) err \<rparr> else i) rows"

definition write_incident :: "string \<Rightarrow> int \<Rightarrow> incident_write option \<Rightarrow> incident list \<Rightarrow> incident list" where
  "write_incident target checked_at w rows =
     (case w of
        None \<Rightarrow> rows
      | Some w \<Rightarrow>
          (case iw_action w of
             Started \<Rightarrow> sql_incident_started target (iw_started w) (iw_colo w) (iw_error w) rows
           | Recovered \<Rightarrow> sql_incident_recovered target (iw_recovered w) (iw_colo w) rows
           | Still_down \<Rightarrow> sql_incident_touch target checked_at (iw_error w) rows))"

section \<open>The tables\<close>

record bucket_row =
  bk_day :: string
  bk_total :: jsnum
  bk_ok_count :: jsnum
  bk_latency_sum :: jsnum
  bk_ok :: jsnum
  bk_latency :: "jsnum option"
  bk_status :: "jsnum option"
  bk_error :: "string option"
  bk_region :: string
  bk_colo :: "string option"

type_synonym bucket_write = "string \<times> jsval"

record probe_db =
  pd_buckets :: "((string \<times> int) \<times> bucket_row) list"
  pd_latest :: "(string \<times> status_entry) list"
  pd_incidents :: "incident list"
  pd_schedule :: "(string \<times> int \<times> int) list"
  pd_hub :: "(string \<times> bucket_write list) list"

definition normalize_check_bucket_point :: "string \<Rightarrow> jsval \<Rightarrow> bucket_row" where
  "normalize_check_bucket_point day p =
     (let missed = is_missed_monitor_point p;
          latency = (if missed \<or> js_nullish (js_get p ''latency_ms'') then None else Some (js_Number (js_get p ''latency_ms'')))
      in \<lparr> bk_day = day,
           bk_total = (if missed then js_max (jsint 1) (num_or (point_total p) (jsint 1)) else point_total p),
           bk_ok_count = (if missed then jsint 0 else point_ok p),
           bk_latency_sum = (case latency of None \<Rightarrow> jsint 0 | Some l \<Rightarrow> l),
           bk_ok = (if missed \<or> js_nullish (js_get p ''ok'') then jsint 0 else js_Number (js_get p ''ok'')),
           bk_latency = latency,
           bk_status = (if missed \<or> js_nullish (js_get p ''status_code'') then None else Some (js_Number (js_get p ''status_code''))),
           bk_error = (if js_nullish (js_get p ''error'') then None else Some (take 500 (js_String (js_get p ''error'')))),
           bk_region = js_String (js_or (js_get p ''probe_region'') (Str ''auto'')),
           bk_colo = (if js_truthy (js_get p ''cf_colo'') then Some (js_String (js_get p ''cf_colo'')) else None) \<rparr>)"

definition sql_check_bucket :: "string \<Rightarrow> bucket_write \<Rightarrow> ((string \<times> int) \<times> bucket_row) list \<Rightarrow> ((string \<times> int) \<times> bucket_row) list" where
  "sql_check_bucket target w rows =
     AList.update (target, whole (js_Number (js_get (snd w) ''checked_at''))) (normalize_check_bucket_point (fst w) (snd w)) rows"

definition latest_status_min_interval_sec :: "jsval \<Rightarrow> int" where
  "latest_status_min_interval_sec env =
     clamp (num_or (js_Number (js_coalesce (js_get env ''PROBE_LATEST_STATUS_MIN_INTERVAL_SEC'') (JInt 900))) (jsint 900)) 60 3600"

definition latest_status_to_d1_enabled :: "jsval \<Rightarrow> bool" where
  "latest_status_to_d1_enabled env = parse_boolean (js_coalesce (js_get env ''PROBE_LATEST_STATUS_TO_D1'') (Bool True)) True"

text \<open>The guard of the upsert of \<open>latest_status\<close>: a quiet repetition within the interval is not written\<close>

definition latest_differs :: "jsval \<Rightarrow> status_entry \<Rightarrow> status_entry \<Rightarrow> bool" where
  "latest_differs env old new \<longleftrightarrow>
     st_checked old + latest_status_min_interval_sec env \<le> st_checked new \<or> st_ok new \<noteq> st_ok old
     \<or> (case st_status new of None \<Rightarrow> jsint (- 1) | Some c \<Rightarrow> c) \<noteq> (case st_status old of None \<Rightarrow> jsint (- 1) | Some c \<Rightarrow> c)
     \<or> (st_error new = None) \<noteq> (st_error old = None)"

definition sql_latest_status :: "jsval \<Rightarrow> status_entry \<Rightarrow> (string \<times> status_entry) list \<Rightarrow> (string \<times> status_entry) list" where
  "sql_latest_status env s rows =
     (case map_of rows (st_target s) of
        Some old \<Rightarrow> if latest_differs env old s then AList.update (st_target s) s rows else rows
      | None \<Rightarrow> AList.update (st_target s) s rows)"

text \<open>\<open>last_checked_at\<close> and \<open>next_probe_at\<close> only go up (\<open>0\<close>: \<open>NULL\<close>)\<close>

definition sql_schedule :: "string \<Rightarrow> int \<Rightarrow> int \<Rightarrow> (string \<times> int \<times> int) list \<Rightarrow> (string \<times> int \<times> int) list" where
  "sql_schedule target checked_at next_at rows =
     map (\<lambda>(t, last, upcoming). if t = target then (t, if last = 0 \<or> last < checked_at then checked_at else last,
              if upcoming = 0 \<or> upcoming < next_at then next_at else upcoming) else (t, last, upcoming)) rows"

text \<open>\<open>applyProbeWriteBatch\<close>: \<open>appended\<close>: the hub took the buckets; \<open>committed\<close>: the batch of D1 went through\<close>

definition apply_probe_write_batch ::
  "jsval \<Rightarrow> bool \<Rightarrow> bool \<Rightarrow> bool \<Rightarrow> string \<Rightarrow> int \<Rightarrow> bucket_write list \<Rightarrow> status_entry option \<Rightarrow> incident_write option \<Rightarrow> int \<Rightarrow> bool \<Rightarrow>
   probe_db \<Rightarrow> probe_db" where
  "apply_probe_write_batch env history_enabled appended committed target checked_at writes status incident next_at flush db =
     (let buffered = history_enabled \<and> writes \<noteq> [] \<and> appended;
          db1 = (if buffered then db\<lparr> pd_hub := pd_hub db @ [(target, writes)] \<rparr> else db);
          db2 = (if buffered then db1 else db1\<lparr> pd_buckets := fold (sql_check_bucket target) writes (pd_buckets db1) \<rparr>);
          db3 = (case status of
                   Some s \<Rightarrow> if latest_status_to_d1_enabled env then db2\<lparr> pd_latest := sql_latest_status env s (pd_latest db2) \<rparr> else db2
                 | None \<Rightarrow> db2);
          db4 = db3\<lparr> pd_incidents := write_incident target checked_at incident (pd_incidents db3) \<rparr>;
          db5 = (if flush \<and> 0 < next_at then db4\<lparr> pd_schedule := sql_schedule target checked_at next_at (pd_schedule db4) \<rparr> else db4)
      in if committed then db5 else db1)"

section \<open>A check\<close>

record probe_result =
  pr_ok :: bool
  pr_latency :: "jsnum option"
  pr_status :: "jsnum option"
  pr_error :: "string option"
  pr_colo :: "string option"
  pr_skipped :: bool

definition result_latency :: "probe_result \<Rightarrow> int option" where
  "result_latency r = (case pr_latency r of Some (Fin q) \<Rightarrow> Some \<lfloor>q + 1 / 2\<rfloor> | _ \<Rightarrow> None)"

definition result_error :: "probe_result \<Rightarrow> string option" where
  "result_error r = (case pr_error r of Some e \<Rightarrow> if e = [] then None else Some (take 500 e) | None \<Rightarrow> None)"

definition result_ok :: "probe_result \<Rightarrow> int" where
  "result_ok r = (if pr_ok r then 1 else 0)"

definition check_json :: "int \<Rightarrow> probe_result \<Rightarrow> string \<Rightarrow> jsval" where
  "check_json bucket_at r region =
     Obj [(''checked_at'', JInt bucket_at), (''ok'', JInt (result_ok r)), (''latency_ms'', opt_json JInt (result_latency r)),
          (''status_code'', opt_json Num (pr_status r)), (''error'', opt_json Str (result_error r)), (''probe_region'', Str region),
          (''cf_colo'', opt_json Str (pr_colo r)), (''total'', JInt 1), (''ok_count'', JInt (result_ok r))]"

definition missed_json :: "missed_point \<Rightarrow> jsval" where
  "missed_json m =
     Obj [(''checked_at'', JInt (mp_at m)), (''ok'', JInt 0), (''latency_ms'', Null), (''status_code'', Null), (''error'', Str missed_message),
          (''probe_region'', mp_region m), (''cf_colo'', Null), (''total'', JInt 1), (''ok_count'', JInt 0), (''bucket'', Bool True), (''missed'', Bool True)]"

definition missed_backfill_write_limit :: "jsval \<Rightarrow> int" where
  "missed_backfill_write_limit env =
     clamp (js_Number (js_coalesce (js_get env ''MISSED_WRITE_BACKFILL_MAX_BUCKETS'')
              (js_coalesce (js_get env ''MISSED_BACKFILL_WRITE_MAX_BUCKETS'') (JInt 6)))) 0 48"

definition point_at :: "jsval \<Rightarrow> int" where
  "point_at p = whole (js_Number (js_get p ''checked_at''))"

definition check_points :: "int \<Rightarrow> jsval \<Rightarrow> jsval \<Rightarrow> int \<Rightarrow> probe_result \<Rightarrow> status_entry option \<Rightarrow> jsval list" where
  "check_points now env target checked_at r previous =
     (let bucket_at = floor_bucket checked_at
      in map missed_json (build_missed_points now env (previous_time st_checked previous) bucket_at (Str (region_of target))
           (Some (jsint (missed_backfill_write_limit env)))) @ [check_json bucket_at r (region_of target)])"

type_synonym summary_cache = "((string \<times> string) \<times> day_sums) list"

text \<open>The summary of the day before the first incoming point: from the previous state, the cache, or read back\<close>

definition stored_summary ::
  "(int \<Rightarrow> day_sums) \<Rightarrow> string \<Rightarrow> string \<Rightarrow> int \<Rightarrow> bool \<Rightarrow> status_entry option \<Rightarrow> summary_cache \<Rightarrow> day_sums \<times> summary_cache" where
  "stored_summary read_day target day first_at some_missed previous cache =
     (case cached_daily_summary_before previous day first_at of
        Some s \<Rightarrow> (s, cache)
      | None \<Rightarrow>
          (let s = (if some_missed then read_day first_at
                    else case map_of cache (target, day) of Some c \<Rightarrow> c | None \<Rightarrow> read_day first_at)
           in (s, AList.update (target, day) s (if 5000 < length cache then [] else cache))))"

record check_outcome =
  co_db :: probe_db
  co_cache :: summary_cache
  co_update :: "status_entry option"
  co_writes :: "bucket_write list"

definition save_check ::
  "int \<Rightarrow> jsval \<Rightarrow> bool \<Rightarrow> bool \<Rightarrow> bool \<Rightarrow> (int \<Rightarrow> day_sums) \<Rightarrow> jsval \<Rightarrow> int \<Rightarrow> probe_result \<Rightarrow> status_entry option \<Rightarrow> summary_cache \<Rightarrow> probe_db \<Rightarrow>
   check_outcome" where
  "save_check now env history_enabled appended committed read_day target checked_at r previous cache db =
     (let bucket_at = floor_bucket checked_at; day = day_from_sec now env bucket_at; ok = result_ok r; tid = target_id_of target;
          flush = schedule_flush_due target checked_at env;
          write = apply_probe_write_batch env history_enabled appended committed tid
      in if pr_skipped r then
           \<lparr> co_db = write bucket_at [] None None (bucket_at + history_due_interval_sec target env (map_option st_ok previous)) flush db,
             co_cache = cache, co_update = None, co_writes = [] \<rparr>
         else
           let points = check_points now env target checked_at r previous;
               writes = map (\<lambda>p. (day_from_sec now env (point_at p), p)) points;
               incoming = filter (\<lambda>p. day_from_sec now env (point_at p) = day) points;
               first_at = Min (set (map point_at incoming));
               ((total, ok_count, lat), cache1) = stored_summary read_day tid day first_at (length points \<noteq> 1) previous cache;
               summary = daily_summary_from_points now incoming;
               daily_row = summary\<lparr> ds_total := js_add total (ds_total summary), ds_ok := js_add ok_count (ds_ok summary),
                                  ds_latency := js_add lat (ds_latency summary) \<rparr>;
               cache2 = AList.update (tid, day) (ds_total daily_row, ds_ok daily_row, ds_latency daily_row) cache1;
               daily = set_daily_summary (case previous of Some p \<Rightarrow> st_daily p | None \<Rightarrow> []) day daily_row;
               (uptime_24h, avg_24h) = stats_from_daily_summaries daily day 1;
               (uptime_7d, avg_7d) = stats_from_daily_summaries daily day 7;
               changed = (case previous of Some p \<Rightarrow> if st_ok p = ok then or_time (st_changed p) checked_at else checked_at | None \<Rightarrow> checked_at);
               outage = build_incident_update checked_at ok (result_error r) (pr_colo r) previous;
               update = \<lparr> st_target = tid, st_checked = checked_at, st_history = checked_at, st_ok = ok, st_latency = result_latency r,
                          st_status = pr_status r, st_error = result_error r, st_region = region_of target, st_colo = pr_colo r,
                          st_uptime_24h = uptime_24h, st_uptime_7d = uptime_7d, st_avg_latency = avg_24h,
                          st_last_fail = (if ok = 1 then previous_time st_last_fail previous else checked_at),
                          st_outage_started = ou_started_at outage, st_last_recover = ou_last_recover outage, st_changed = changed, st_daily = daily \<rparr>
           in \<lparr> co_db = write checked_at writes (Some update) (ou_write outage) (checked_at + history_due_interval_sec target env (Some ok)) flush db,
                co_cache = cache2, co_update = Some update, co_writes = writes \<rparr>)"

section \<open>A fast status check\<close>

definition fast_status_update :: "jsval \<Rightarrow> status_entry option \<Rightarrow> probe_result \<Rightarrow> int \<Rightarrow> status_entry" where
  "fast_status_update target previous r checked_at =
     (let ok = result_ok r; down = (ok = 0); was = was_down previous;
          base = (case previous of
                    Some p \<Rightarrow> p
                  | None \<Rightarrow> \<lparr> st_target = [], st_checked = 0, st_history = 0, st_ok = 0, st_latency = None, st_status = None, st_error = None, st_region = [],
                             st_colo = None, st_uptime_24h = None, st_uptime_7d = None, st_avg_latency = None, st_last_fail = 0, st_outage_started = 0,
                             st_last_recover = 0, st_changed = 0, st_daily = [] \<rparr>)
      in base\<lparr> st_target := target_id_of target, st_checked := checked_at, st_ok := ok, st_latency := result_latency r, st_status := pr_status r,
               st_error := result_error r, st_region := region_of target, st_colo := pr_colo r,
               st_last_fail := (if down then (if was then or_time (previous_time st_last_fail previous) checked_at else checked_at)
                                else previous_time st_last_fail previous),
               st_outage_started := (if down then (if was then or_time (previous_time st_outage_started previous) checked_at else checked_at) else 0),
               st_last_recover := (if \<not> down \<and> was then checked_at else previous_time st_last_recover previous),
               st_changed := (case previous of Some p \<Rightarrow> if st_ok p = ok then or_time (st_changed p) checked_at else checked_at | None \<Rightarrow> checked_at) \<rparr>)"

section \<open>Committing a round\<close>

datatype sync_warning = State_sync_failed | State_sync_and_fallback_failed

text \<open>\<open>fallbackLatestStatusToD1\<close>: \<open>upserted\<close> tells which upserts go through\<close>

definition fallback_latest_status :: "jsval \<Rightarrow> (status_entry \<Rightarrow> bool) \<Rightarrow> status_entry list \<Rightarrow> probe_db \<Rightarrow> probe_db \<times> bool" where
  "fallback_latest_status env upserted updates db =
     (if latest_status_to_d1_enabled env \<or> updates = [] then (db, True)
      else (db\<lparr> pd_latest := fold (sql_latest_status env) (filter upserted updates) (pd_latest db) \<rparr>, list_all upserted updates))"

definition commit_r2_state_sync ::
  "jsval \<Rightarrow> bool \<Rightarrow> bool \<Rightarrow> bool \<Rightarrow> (status_entry \<Rightarrow> bool) \<Rightarrow> nat \<Rightarrow> nat list \<Rightarrow> heap \<Rightarrow> (string \<times> status_entry) list \<Rightarrow> probe_db \<Rightarrow>
   (string \<times> status_entry) list \<times> probe_db \<times> sync_warning option" where
  "commit_r2_state_sync env locked readable put upserted n updates h stored db =
     (let (h', stored', result) = merge_r2_state_updates locked readable put n updates h stored
      in case result of
           Skipped \<Rightarrow> (stored', db, None)
         | State_merged _ \<Rightarrow> (stored', db, None)
         | _ \<Rightarrow> (let (db', ok) = fallback_latest_status env upserted (map h' updates) db
                in (stored', db', Some (if ok then State_sync_failed else State_sync_and_fallback_failed))))"

end
