(* ===== verification/ProbeChecks.thy ===== *)
theory ProbeChecks
  imports ProbeRun StatusMerge "HOL-Library.Multiset"
begin

text \<open>
  What the checks of \<open>ProbeRun\<close> keep true: the incidents of a target are the outages of its history checks, an outage
  the fast status check sees first is not recorded at all, the daily summary counts every bucket once unless a bucket is
  checked twice, the answers of a region are matched to their targets, and no due target is passed over for one that
  waited less.
\<close>

section \<open>What a check changes\<close>

lemma int_text_inject [simp]: "int_text a = int_text b \<longleftrightarrow> a = b"
proof
  assume "int_text a = int_text b"
  then have "parse_number (int_str a) = parse_number (int_str b)" by (simp add: int_text_def num_str_def)
  then show "a = b" by simp
qed simp

lemma save_check_incidents:
  assumes "\<not> pr_skipped r"
  shows "pd_incidents (co_db (save_check now env he ap True rd target t r previous cache db)) =
         write_incident (target_id_of target) t (ou_write (build_incident_update t (result_ok r) (result_error r) (pr_colo r) previous)) (pd_incidents db)"
  using assms unfolding save_check_def Let_def case_prod_beta
  by (simp add: apply_probe_write_batch_def Let_def split: option.split)

lemma save_check_update:
  assumes "\<not> pr_skipped r"
  obtains u where "co_update (save_check now env he ap cm rd target t r previous cache db) = Some u" "st_target u = target_id_of target"
    "st_checked u = t" "st_history u = t" "st_ok u = result_ok r"
    "st_outage_started u = ou_started_at (build_incident_update t (result_ok r) (result_error r) (pr_colo r) previous)"
  using assms that unfolding save_check_def Let_def case_prod_beta by simp

lemma save_check_points:
  assumes "\<not> pr_skipped r"
  shows "co_writes (save_check now env he ap cm rd target t r previous cache db) =
         map (\<lambda>p. (day_from_sec now env (point_at p), p)) (check_points now env target t r previous)"
  using assms unfolding save_check_def Let_def case_prod_beta by simp

section \<open>Incidents are outages\<close>

text \<open>A round of history checks of one target, the status state being what the check before wrote\<close>

record check_run =
  cr_state :: "(string \<times> status_entry) list"
  cr_cache :: summary_cache
  cr_db :: probe_db

definition check_round ::
  "int \<Rightarrow> jsval \<Rightarrow> bool \<Rightarrow> bool \<Rightarrow> (int \<Rightarrow> day_sums) \<Rightarrow> jsval \<Rightarrow> int \<times> probe_result \<Rightarrow> check_run \<Rightarrow> check_run" where
  "check_round now env history_enabled appended read_day target = (\<lambda>(t, r) s.
     let o' = save_check now env history_enabled appended True read_day target t r (history_previous_state (cr_state s) [] target) (cr_cache s) (cr_db s)
     in \<lparr> cr_state = (case co_update o' of Some u \<Rightarrow> AList.update (st_target u) u (cr_state s) | None \<Rightarrow> cr_state s),
          cr_cache = co_cache o', cr_db = co_db o' \<rparr>)"

definition check_rounds ::
  "int \<Rightarrow> jsval \<Rightarrow> bool \<Rightarrow> bool \<Rightarrow> (int \<Rightarrow> day_sums) \<Rightarrow> jsval \<Rightarrow> (int \<times> probe_result) list \<Rightarrow> check_run \<Rightarrow> check_run" where
  "check_rounds now env history_enabled appended read_day target = fold (check_round now env history_enabled appended read_day target)"

text \<open>The outages of a list of checks: each begins with a failure after no failure, and ends with the next success\<close>

fun outage_starts :: "bool \<Rightarrow> (int \<times> probe_result) list \<Rightarrow> int list" where
  "outage_starts down [] = []"
| "outage_starts down ((t, r) # checks) = (if \<not> pr_ok r \<and> \<not> down then [t] else []) @ outage_starts (\<not> pr_ok r) checks"

definition recovery_after :: "int \<Rightarrow> (int \<times> probe_result) list \<Rightarrow> int option" where
  "recovery_after t checks = map_option fst (find (\<lambda>(u, r). t < u \<and> pr_ok r) checks)"

definition outages :: "(int \<times> probe_result) list \<Rightarrow> (int \<times> int option) list" where
  "outages checks = map (\<lambda>t. (t, recovery_after t checks)) (outage_starts False checks)"

definition incidents_of :: "string \<Rightarrow> incident list \<Rightarrow> (int \<times> int option) list" where
  "incidents_of target rows = map (\<lambda>i. (in_started i, in_recovered i)) (filter (\<lambda>i. in_target i = target) rows)"

lemma outage_starts_snoc:
  "outage_starts down (checks @ [(t, r)]) =
     outage_starts down checks @ (if \<not> pr_ok r \<and> \<not> (if checks = [] then down else \<not> pr_ok (snd (last checks))) then [t] else [])"
  by (induction down checks rule: outage_starts.induct) auto

lemma outage_starts_times: "set (outage_starts down checks) \<subseteq> fst ` set checks"
  by (induction down checks rule: outage_starts.induct) auto

lemma recovery_snoc:
  "recovery_after s (checks @ [(t, r)]) = (case recovery_after s checks of Some u \<Rightarrow> Some u | None \<Rightarrow> if s < t \<and> pr_ok r then Some t else None)"
proof -
  have "find P (xs @ ys) = (case find P xs of Some x \<Rightarrow> Some x | None \<Rightarrow> find P ys)" for P :: "int \<times> probe_result \<Rightarrow> bool" and xs ys
    by (induction xs) auto
  then show ?thesis by (auto simp: recovery_after_def split: option.split)
qed

lemma history_previous_single:
  "history_previous_state r2 [] target =
     (case map_of r2 (target_id_of target) of None \<Rightarrow> None
      | Some p \<Rightarrow> Some (p\<lparr> st_checked := whole (last_check_of target None (st_history p)) \<rparr>))"
  by (simp add: history_previous_state_def previous_of_target_def merge_previous_state_def split: option.split)

lemma incidents_of_touch: "incidents_of target (sql_incident_touch target t err rows) = incidents_of target rows"
  by (induction rows) (auto simp: incidents_of_def sql_incident_touch_def open_of_def)

lemma incidents_of_recovered:
  "incidents_of target (sql_incident_recovered target t colo rows) =
     map (\<lambda>(s, e). (s, case e of Some u \<Rightarrow> Some u | None \<Rightarrow> Some t)) (incidents_of target rows)"
  by (induction rows) (auto simp: incidents_of_def sql_incident_recovered_def open_of_def)

lemma open_incidents: "(\<exists>i \<in> set rows. open_of target i) \<longleftrightarrow> None \<in> snd ` set (incidents_of target rows)"
  by (force simp: incidents_of_def open_of_def)

text \<open>Rows as the statements write them: the identifier names the target and the start\<close>

definition named_rows :: "string \<Rightarrow> incident list \<Rightarrow> bool" where
  "named_rows target rows \<longleftrightarrow>
     (\<forall>i \<in> set rows. if in_target i = target then in_id i = target @ ''-'' @ int_text (in_started i) else \<forall>t. in_id i \<noteq> target @ ''-'' @ int_text t)"

lemma named_rows_write: "named_rows target rows \<Longrightarrow> named_rows target (write_incident target t w rows)"
  by (auto simp: named_rows_def write_incident_def sql_incident_started_def sql_incident_recovered_def sql_incident_touch_def Let_def
      split: option.split incident_action.split)

lemma started_row:
  assumes "named_rows target rows" "\<not> (\<exists>i \<in> set rows. open_of target i)" "t \<notin> fst ` set (incidents_of target rows)"
  shows "incidents_of target (sql_incident_started target t colo err rows) = incidents_of target rows @ [(t, None)]"
proof -
  have "in_id i \<noteq> target @ ''-'' @ int_text t" if "i \<in> set rows" for i
    using assms(1,3) that by (force simp: named_rows_def incidents_of_def split: if_splits)
  then show ?thesis using assms(2) by (auto simp: sql_incident_started_def Let_def incidents_of_def)
qed

lemma increasing_snoc:
  "sorted_wrt (<) (map fst (checks @ [(t, r)])) \<longleftrightarrow> sorted_wrt (<) (map fst checks) \<and> (\<forall>u \<in> fst ` set checks. u < (t :: int))"
  by (auto simp: sorted_wrt_append)

lemma recovery_beyond: "\<forall>u \<in> fst ` set checks. u \<le> t \<Longrightarrow> recovery_after t checks = None"
  by (induction checks) (auto simp: recovery_after_def)

lemma recovery_Nil [simp]: "recovery_after t [] = None"
  by (simp add: recovery_after_def)

lemma check_rounds_snoc:
  "check_rounds now env he ap rd target (checks @ [c]) s0 = check_round now env he ap rd target c (check_rounds now env he ap rd target checks s0)"
  by (simp add: check_rounds_def)

text \<open>An outage is open exactly when the last check failed\<close>

lemma outage_open:
  "sorted_wrt (<) (map fst checks) \<Longrightarrow> None \<in> snd ` set (outages checks) \<longleftrightarrow> checks \<noteq> [] \<and> \<not> pr_ok (snd (last checks))"
proof (induction checks rule: rev_induct)
  case (snoc c checks)
  obtain t r where c: "c = (t, r)" by fastforce
  have inc: "sorted_wrt (<) (map fst checks)" "\<forall>u \<in> fst ` set checks. u < t" using snoc.prems unfolding c increasing_snoc by auto
  have starts: "\<forall>s \<in> set (outage_starts False checks). s < t" using outage_starts_times inc(2) by blast
  have new: "recovery_after t checks = None" using inc(2) by (intro recovery_beyond) auto
  have IH: "(\<exists>s \<in> set (outage_starts False checks). recovery_after s checks = None) \<longleftrightarrow> checks \<noteq> [] \<and> \<not> pr_ok (snd (last checks))"
    using snoc.IH [OF inc(1)] by (force simp: outages_def)
  have "None \<in> snd ` set (outages (checks @ [(t, r)])) \<longleftrightarrow>
      (\<exists>s \<in> set (outage_starts False (checks @ [(t, r)])). recovery_after s (checks @ [(t, r)]) = None)"
    by (force simp: outages_def)
  also have "\<dots> \<longleftrightarrow> \<not> pr_ok r"
  proof (cases "pr_ok r")
    case True
    then show ?thesis using starts by (auto simp: outage_starts_snoc recovery_snoc split: option.split)
  next
    case False
    then show ?thesis using IH new by (auto simp: outage_starts_snoc recovery_snoc split: option.split)
  qed
  finally show ?case by (simp add: c)
qed (simp add: outages_def)

lemma outages_snoc:
  assumes "sorted_wrt (<) (map fst (checks @ [(t, r)]))"
  shows "outages (checks @ [(t, r)]) =
    (if pr_ok r then map (\<lambda>(s, e). (s, case e of Some u \<Rightarrow> Some u | None \<Rightarrow> Some t)) (outages checks)
     else if checks \<noteq> [] \<and> \<not> pr_ok (snd (last checks)) then outages checks else outages checks @ [(t, None)])"
proof -
  have inc: "\<forall>u \<in> fst ` set checks. u < t" using assms unfolding increasing_snoc by simp
  have starts: "\<forall>s \<in> set (outage_starts False checks). s < t" using outage_starts_times inc by blast
  have "recovery_after t checks = None" using inc by (intro recovery_beyond) auto
  then show ?thesis
    using starts by (auto simp: outages_def outage_starts_snoc recovery_snoc comp_def split: option.split)
qed

lemma rounds_write_outages:
  fixes target env :: jsval and now :: int and he ap :: bool and rd :: "int \<Rightarrow> day_sums"
  defines "i \<equiv> target_id_of target"
  assumes "sorted_wrt (<) (map fst checks)" "\<forall>(t, r) \<in> set checks. \<not> pr_skipped r"
    and "map_of (cr_state s0) i = None" "named_rows i (pd_incidents (cr_db s0))" "incidents_of i (pd_incidents (cr_db s0)) = []"
  defines "s \<equiv> check_rounds now env he ap rd target checks s0"
  shows "incidents_of i (pd_incidents (cr_db s)) = outages checks \<and> named_rows i (pd_incidents (cr_db s)) \<and>
         (case map_of (cr_state s) i of None \<Rightarrow> checks = [] | Some u \<Rightarrow> checks \<noteq> [] \<and> st_ok u = result_ok (snd (last checks)))"
  using assms(2,3) unfolding s_def
proof (induction checks rule: rev_induct)
  case Nil
  then show ?case using assms(4-6) by (simp add: check_rounds_def outages_def)
next
  case (snoc c checks)
  obtain t r where c: "c = (t, r)" by fastforce
  define s1 where "s1 = check_rounds now env he ap rd target checks s0"
  have inc: "sorted_wrt (<) (map fst checks)" "\<forall>u \<in> fst ` set checks. u < t" using snoc.prems(1) unfolding c increasing_snoc by auto
  have r: "\<not> pr_skipped r" using snoc.prems(2) by (auto simp: c)
  have IH: "incidents_of i (pd_incidents (cr_db s1)) = outages checks" "named_rows i (pd_incidents (cr_db s1))"
    "case map_of (cr_state s1) i of None \<Rightarrow> checks = [] | Some u \<Rightarrow> checks \<noteq> [] \<and> st_ok u = result_ok (snd (last checks))"
    using snoc.IH [OF inc(1)] snoc.prems(2) by (auto simp: s1_def)
  define previous where "previous = history_previous_state (cr_state s1) [] target"
  have down: "was_down previous \<longleftrightarrow> checks \<noteq> [] \<and> \<not> pr_ok (snd (last checks))"
    using IH(3) unfolding previous_def history_previous_single i_def [symmetric]
    by (auto simp: was_down_def result_ok_def split: option.splits if_splits)
  define out where "out = save_check now env he ap True rd target t r previous (cr_cache s1) (cr_db s1)"
  obtain u where u: "co_update out = Some u" "st_target u = i" "st_ok u = result_ok r"
    unfolding out_def i_def using save_check_update [OF r] by metis
  have s: "check_rounds now env he ap rd target (checks @ [c]) s0 =
      \<lparr> cr_state = AList.update i u (cr_state s1), cr_cache = co_cache out, cr_db = co_db out \<rparr>"
    unfolding check_rounds_snoc s1_def [symmetric] c check_round_def prod.case Let_def previous_def [symmetric] out_def [symmetric]
    by (simp add: u)
  define w where "w = ou_write (build_incident_update t (result_ok r) (result_error r) (pr_colo r) previous)"
  have rows: "pd_incidents (co_db out) = write_incident i t w (pd_incidents (cr_db s1))"
    unfolding out_def w_def i_def by (rule save_check_incidents [OF r])
  have "incidents_of i (write_incident i t w (pd_incidents (cr_db s1))) = outages (checks @ [(t, r)])"
  proof (cases "pr_ok r")
    case True
    have "map (\<lambda>(s, e). (s, case e of Some u \<Rightarrow> Some u | None \<Rightarrow> Some t)) (outages checks) = outages checks" if "\<not> was_down previous"
    proof (rule map_idI)
      fix x assume x: "x \<in> set (outages checks)"
      have "snd x \<noteq> None"
      proof
        assume "snd x = None"
        then have "None \<in> snd ` set (outages checks)" using x by force
        then show False using outage_open [OF inc(1)] that down by simp
      qed
      then show "(case x of (s, e) \<Rightarrow> (s, case e of Some u \<Rightarrow> Some u | None \<Rightarrow> Some t)) = x" by (cases x) auto
    qed
    with True show ?thesis unfolding outages_snoc [OF snoc.prems(1) [unfolded c]]
      by (simp add: w_def build_incident_update_def Let_def result_ok_def write_incident_def incidents_of_recovered IH(1))
  next
    case False
    show ?thesis
    proof (cases "was_down previous")
      case True
      with False down show ?thesis unfolding outages_snoc [OF snoc.prems(1) [unfolded c]]
        by (simp add: w_def build_incident_update_def Let_def result_ok_def write_incident_def incidents_of_touch IH(1))
    next
      case up: False
      have "\<not> (\<exists>j \<in> set (pd_incidents (cr_db s1)). open_of i j)"
        using outage_open [OF inc(1)] up down by (simp add: open_incidents IH(1))
      moreover have "t \<notin> fst ` set (incidents_of i (pd_incidents (cr_db s1)))"
        using outage_starts_times [of False checks] inc(2) by (force simp: IH(1) outages_def)
      ultimately show ?thesis unfolding outages_snoc [OF snoc.prems(1) [unfolded c]]
        using False up down started_row [OF IH(2)] 
        by (simp add: w_def build_incident_update_def Let_def result_ok_def write_incident_def IH(1))
    qed
  qed
  then show ?case using named_rows_write [OF IH(2)] u unfolding s by (simp add: rows c update_conv)
qed

section \<open>An outage the fast status check sees first\<close>

lemma no_open_unchanged:
  assumes "\<not> (\<exists>i \<in> set rows. open_of target i)"
  shows "sql_incident_touch target t err rows = rows" "sql_incident_recovered target t colo rows = rows"
  using assms by (auto simp: sql_incident_touch_def sql_incident_recovered_def intro!: map_idI)

lemma down_round_unrecorded:
  assumes "map_of (cr_state s) (target_id_of target) = Some p" "st_ok p = 0" "\<not> pr_skipped r"
    and "\<not> (\<exists>i \<in> set (pd_incidents (cr_db s)). open_of (target_id_of target) i)"
  shows "pd_incidents (cr_db (check_round now env he ap rd target (t, r) s)) = pd_incidents (cr_db s) \<and>
         (\<exists>u. map_of (cr_state (check_round now env he ap rd target (t, r) s)) (target_id_of target) = Some u \<and> st_ok u = result_ok r)"
proof -
  define previous where "previous = history_previous_state (cr_state s) [] target"
  have down: "was_down previous" using assms(1,2) by (simp add: previous_def history_previous_single was_down_def)
  define out where "out = save_check now env he ap True rd target t r previous (cr_cache s) (cr_db s)"
  obtain u where u: "co_update out = Some u" "st_target u = target_id_of target" "st_ok u = result_ok r"
    unfolding out_def using save_check_update [OF assms(3)] by metis
  have "pd_incidents (co_db out) = pd_incidents (cr_db s)"
    unfolding out_def save_check_incidents [OF assms(3)]
    using down by (simp add: build_incident_update_def Let_def write_incident_def no_open_unchanged [OF assms(4)])
  then show ?thesis
    unfolding check_round_def prod.case Let_def previous_def [symmetric] out_def [symmetric] by (simp add: u update_conv)
qed

lemma down_rounds_unrecorded:
  assumes "map_of (cr_state s) (target_id_of target) = Some p" "st_ok p = 0"
    and "\<not> (\<exists>i \<in> set (pd_incidents (cr_db s)). open_of (target_id_of target) i)"
    and "\<forall>(t, r) \<in> set checks. \<not> pr_skipped r \<and> \<not> pr_ok r"
  shows "pd_incidents (cr_db (check_rounds now env he ap rd target checks s)) = pd_incidents (cr_db s) \<and>
         (\<exists>u. map_of (cr_state (check_rounds now env he ap rd target checks s)) (target_id_of target) = Some u \<and> st_ok u = 0)"
  using assms
proof (induction checks rule: rev_induct)
  case (snoc c checks)
  obtain t r where c: "c = (t, r)" by fastforce
  obtain u where u: "map_of (cr_state (check_rounds now env he ap rd target checks s)) (target_id_of target) = Some u" "st_ok u = 0"
    "pd_incidents (cr_db (check_rounds now env he ap rd target checks s)) = pd_incidents (cr_db s)"
    using snoc by auto
  have r: "\<not> pr_skipped r" "result_ok r = 0" using snoc.prems(4) by (auto simp: c result_ok_def)
  have "\<not> (\<exists>i \<in> set (pd_incidents (cr_db (check_rounds now env he ap rd target checks s))). open_of (target_id_of target) i)"
    using snoc.prems(3) u(3) by simp
  from down_round_unrecorded [OF u(1,2) r(1) this] show ?case using u(3) r(2) by (simp add: check_rounds_snoc c)
qed (simp add: check_rounds_def)

section \<open>The daily summary\<close>

lemma save_check_cache:
  fixes now t :: int and env target :: jsval and r :: probe_result and previous :: "status_entry option"
  assumes "\<not> pr_skipped r"
  defines "day \<equiv> day_from_sec now env (floor_bucket t)"
  defines "points \<equiv> check_points now env target t r previous"
  defines "incoming \<equiv> filter (\<lambda>p. day_from_sec now env (point_at p) = day) points"
  shows "map_of (co_cache (save_check now env he ap cm rd target t r previous cache db)) (target_id_of target, day) =
         Some (plus_sums (fst (stored_summary rd (target_id_of target) day (Min (set (map point_at incoming))) (length points \<noteq> 1) previous cache)) (sums_of incoming))"
proof -
  have "plus_sums (a, b, c) (sums_of incoming) =
      (js_add a (ds_total (daily_summary_from_points now incoming)), js_add b (ds_ok (daily_summary_from_points now incoming)),
       js_add c (ds_latency (daily_summary_from_points now incoming)))" for a b c
    unfolding daily_sums [of now incoming, symmetric] by simp
  note e = this
  obtain a b c cache1 where st: "stored_summary rd (target_id_of target) day (Min (set (map point_at incoming))) (length points \<noteq> 1) previous cache = ((a, b, c), cache1)"
    by (metis prod.exhaust)
  show ?thesis
    using assms(1) unfolding st fst_conv e save_check_def Let_def case_prod_beta
      day_def [symmetric] points_def [symmetric] incoming_def [symmetric] st
    by (simp add: update_conv)
qed

lemma point_at_simps [simp]: "point_at (check_json b r region) = b" "point_at (missed_json m) = mp_at m"
  by (simp_all add: point_at_def check_json_def missed_json_def js_get_def whole_def)

lemma bucket_range_lower: "x \<in> set (bucket_range a b) \<Longrightarrow> a \<le> x"
  by (simp add: bucket_range_set)

lemma missed_times:
  assumes "m \<in> set (build_missed_points now env previous_at bucket_at region limit)"
  shows "floor_bucket previous_at < mp_at m"
proof -
  have "mp_at m \<in> set (bucket_range (floor_bucket previous_at + bucket_sec) bucket_at)"
    using assms by (auto simp: build_missed_points_def Let_def split: if_splits)
  then show ?thesis using bucket_range_lower bucket_sec_pos by fastforce
qed

lemma same_bucket_points:
  assumes "previous_time st_checked previous = floor_bucket t \<or> previous = None"
  shows "check_points now env target t r previous = [check_json (floor_bucket t) r (region_of target)]"
proof -
  have "floor_bucket (floor_bucket t) = floor_bucket t" by (simp add: floor_bucket_def bucket_sec_def)
  then have "build_missed_points now env (previous_time st_checked previous) (floor_bucket t) region limit = []" for region limit
    using assms by (auto simp: build_missed_points_def previous_time_def Let_def)
  then show ?thesis by (simp add: check_points_def Let_def)
qed

lemma later_points:
  assumes "bucket_sec dvd st_checked p" "st_checked p < floor_bucket t" "q \<in> set (check_points now env target t r (Some p))"
  shows "st_checked p < point_at q"
proof -
  have "floor_bucket (st_checked p) = st_checked p" using assms(1) by (auto simp: floor_bucket_def)
  then show ?thesis using assms(2,3) missed_times by (fastforce simp: check_points_def Let_def previous_time_def)
qed

definition row_sums :: "day_sum \<Rightarrow> day_sums" where
  "row_sums row = (num_or (ds_total row) (jsint 0), num_or (ds_ok row) (jsint 0), num_or (ds_latency row) (jsint 0))"

lemma last_point_incoming:
  "check_json (floor_bucket t) r (region_of target) \<in>
     set (filter (\<lambda>q. day_from_sec now env (point_at q) = day_from_sec now env (floor_bucket t)) (check_points now env target t r previous))"
  by (simp add: check_points_def Let_def)

section \<open>The answers of a region\<close>

lemma expected:
  "expect_targets ts ids = Inr ids' \<Longrightarrow> distinct ids \<Longrightarrow>
     ids' = ids @ map (trimmed_id ''id'') ts \<and> distinct ids' \<and> [] \<notin> set (map (trimmed_id ''id'') ts)"
  by (induction ts arbitrary: ids) (fastforce simp: Let_def split: if_splits)+

lemma expected_total:
  "distinct (ids @ map (trimmed_id ''id'') ts) \<Longrightarrow> [] \<notin> set (map (trimmed_id ''id'') ts) \<Longrightarrow> expect_targets ts ids = Inr (ids @ map (trimmed_id ''id'') ts)"
  by (induction ts arbitrary: ids) (auto simp: Let_def)

lemma received:
  "receive_results ids rs got = Inr got' \<Longrightarrow> distinct (map fst got) \<Longrightarrow>
     got' = got @ map (\<lambda>r. (trimmed_id ''target_id'' r, r)) rs \<and> distinct (map fst got') \<and> set (map (trimmed_id ''target_id'') rs) \<subseteq> set ids"
  by (induction rs arbitrary: got) (fastforce simp: Let_def split: if_splits)+

lemma received_total:
  "distinct (map fst got @ map (trimmed_id ''target_id'') rs) \<Longrightarrow> set (map (trimmed_id ''target_id'') rs) \<subseteq> set ids \<Longrightarrow> [] \<notin> set ids \<Longrightarrow>
     receive_results ids rs got = Inr (got @ map (\<lambda>r. (trimmed_id ''target_id'' r, r)) rs)"
  by (induction rs arbitrary: got) (auto simp: Let_def)

lemma trimmed_id_direct: "trimmed_id ''id'' t \<noteq> [] \<Longrightarrow> js_trim (js_String (js_get t ''id'')) = trimmed_id ''id'' t"
  by (auto simp: trimmed_id_def js_or_def js_trim_def strip_both_def split: if_splits)

lemma aligned:
  assumes "distinct (map (trimmed_id ''id'') targets)" "[] \<notin> set (map (trimmed_id ''id'') targets)"
    and "length results = length targets" "distinct (map (trimmed_id ''target_id'') results)"
    and "set (map (trimmed_id ''target_id'') results) \<subseteq> set (map (trimmed_id ''id'') targets)"
  defines "pick \<equiv> \<lambda>t. the (map_of (map (\<lambda>r. (trimmed_id ''target_id'' r, r)) results) (trimmed_id ''id'' t))"
  shows "mset (map pick targets) = mset results \<and> map (trimmed_id ''target_id'') (map pick targets) = map (trimmed_id ''id'') targets"
proof -
  let ?m = "map (\<lambda>r. (trimmed_id ''target_id'' r, r)) results"
  have keys: "map fst ?m = map (trimmed_id ''target_id'') results" by simp
  have eq: "set (map (trimmed_id ''target_id'') results) = set (map (trimmed_id ''id'') targets)"
  proof (rule card_subset_eq [OF _ assms(5)])
    show "card (set (map (trimmed_id ''target_id'') results)) = card (set (map (trimmed_id ''id'') targets))"
      unfolding distinct_card [OF assms(1)] distinct_card [OF assms(4)] using assms(3) by simp
  qed simp
  have pick: "pick t \<in> set results \<and> trimmed_id ''target_id'' (pick t) = trimmed_id ''id'' t" if "t \<in> set targets" for t
  proof -
    have "trimmed_id ''id'' t \<in> set (map fst ?m)" unfolding keys eq using that by simp
    then have "map_of ?m (trimmed_id ''id'' t) \<noteq> None" unfolding map_of_eq_None_iff by (simp only: set_map not_not)
    then obtain r where r: "map_of ?m (trimmed_id ''id'' t) = Some r" by blast
    then have "(trimmed_id ''id'' t, r) \<in> set ?m" by (rule map_of_SomeD)
    with r show ?thesis by (auto simp: pick_def)
  qed
  have ids: "map (trimmed_id ''target_id'') (map pick targets) = map (trimmed_id ''id'') targets"
    unfolding map_map comp_def by (rule map_cong [OF refl]) (use pick in blast)
  then have d: "distinct (map pick targets)" using assms(1) by (metis distinct_map)
  have "set (map pick targets) = set results"
  proof (rule card_subset_eq)
    show "set (map pick targets) \<subseteq> set results" using pick by auto
    have "distinct results" using assms(4) by (simp add: distinct_map)
    then show "card (set (map pick targets)) = card (set results)"
      unfolding distinct_card [OF d] by (simp add: distinct_card assms(3))
  qed simp
  moreover have "distinct results" using assms(4) by (simp add: distinct_map)
  ultimately have "mset (map pick targets) = mset results" using d set_eq_iff_mset_eq_distinct by blast
  with ids show ?thesis by blast
qed

section \<open>Properties\<close>


text \<open>C38: An outage that the fast status check sees first is not recorded: it writes the failure into the status but no
  incident, so every later failure is taken for a continued outage and the success at its end for the recovery of an
  incident that does not exist. No row is written for the whole outage.
\<close>

theorem fast_outage_is_not_recorded:
  assumes "\<not> pr_ok r0" "\<not> (\<exists>i \<in> set (pd_incidents db). open_of (target_id_of target) i)"
    and "\<forall>(t, r) \<in> set failures. \<not> pr_skipped r \<and> \<not> pr_ok r" "\<not> pr_skipped r1"
  shows "pd_incidents (cr_db (check_rounds now env he ap rd target (failures @ [(t1, r1)])
           \<lparr> cr_state = AList.update (target_id_of target) (fast_status_update target previous r0 t0) state, cr_cache = cache, cr_db = db \<rparr>)) =
         pd_incidents db"
proof -
  let ?s = "\<lparr> cr_state = AList.update (target_id_of target) (fast_status_update target previous r0 t0) state, cr_cache = cache, cr_db = db \<rparr>"
  have p: "map_of (cr_state ?s) (target_id_of target) = Some (fast_status_update target previous r0 t0)"
    and down: "st_ok (fast_status_update target previous r0 t0) = 0"
    using assms(1) by (simp_all add: update_conv fast_status_update_def Let_def result_ok_def)
  have "\<not> (\<exists>i \<in> set (pd_incidents (cr_db ?s)). open_of (target_id_of target) i)" using assms(2) by simp
  from down_rounds_unrecorded [OF p down this assms(3), of now env he ap rd]
  obtain u where u: "map_of (cr_state (check_rounds now env he ap rd target failures ?s)) (target_id_of target) = Some u" "st_ok u = 0"
    "pd_incidents (cr_db (check_rounds now env he ap rd target failures ?s)) = pd_incidents db" by auto
  show ?thesis
    using down_round_unrecorded [OF u(1,2) assms(4), of now env he ap rd t1] assms(2) u(3) by (simp add: check_rounds_snoc)
qed

text \<open>The daily summary counts every bucket once when the check before was in an earlier bucket: its sums are those of
  the day so far and those of the points written now, the missed ones not counted.
\<close>

theorem daily_summary_counts_new_points:
  assumes "\<not> pr_skipped r" "bucket_sec dvd st_checked p" "0 < st_checked p" "st_checked p < floor_bucket t"
    and "map_of (st_daily p) (day_from_sec now env (floor_bucket t)) = Some row" "ds_updated row = jsint (st_checked p)"
  shows "map_of (co_cache (save_check now env he ap cm rd target t r (Some p) cache db)) (target_id_of target, day_from_sec now env (floor_bucket t)) =
         Some (plus_sums (row_sums row)
           (sums_of (filter (\<lambda>q. day_from_sec now env (point_at q) = day_from_sec now env (floor_bucket t)) (check_points now env target t r (Some p)))))"
proof -
  let ?incoming = "filter (\<lambda>q. day_from_sec now env (point_at q) = day_from_sec now env (floor_bucket t)) (check_points now env target t r (Some p))"
  have "Min (set (map point_at ?incoming)) \<in> set (map point_at ?incoming)"
    using last_point_incoming [of t r target now env "Some p"] by (intro Min_in) auto
  then have "st_checked p < Min (set (map point_at ?incoming))" using later_points [OF assms(2,4)] by auto
  then have "cached_daily_summary_before (Some p) (day_from_sec now env (floor_bucket t)) (Min (set (map point_at ?incoming))) = Some (row_sums row)"
    using assms(3,5,6) by (simp add: cached_daily_summary_before_def row_sums_def num_or_def num_truthy_def)
  then show ?thesis unfolding save_check_cache [OF assms(1)] by (simp add: stored_summary_def)
qed

text \<open>A bucket that is checked twice (an outage is checked every two minutes) is written once but counted twice: the
  second check takes the cached sums of the day, which hold the first one already, for the sums before its bucket.
\<close>

theorem rechecked_bucket_is_counted_twice:
  assumes "\<not> pr_skipped r1" "\<not> pr_skipped r2" "pr_error r1 = None" "pr_error r2 = None"
    and "floor_bucket t2 = floor_bucket t1" "0 < floor_bucket t1"
    and "save_check now env he ap cm rd target t1 r1 None [] db = o1" "co_update o1 = Some u"
    and "save_check now env he ap cm rd target t2 r2 (Some (u\<lparr> st_checked := floor_bucket t1 \<rparr>)) (co_cache o1) (co_db o1) = o2"
  shows "(\<forall>w \<in> set (co_writes o1 @ co_writes o2). point_at (snd w) = floor_bucket t1) \<and>
         (\<exists>ok lat. map_of (co_cache o2) (target_id_of target, day_from_sec now env (floor_bucket t1)) =
            Some (js_add (fst (rd (floor_bucket t1))) (jsint 2), ok, lat))"
proof -
  let ?p = "Some (u\<lparr> st_checked := floor_bucket t1 \<rparr>)"
  let ?key = "(target_id_of target, day_from_sec now env (floor_bucket t1))"
  have pts: "check_points now env target t1 r1 None = [check_json (floor_bucket t1) r1 (region_of target)]"
    "check_points now env target t2 r2 ?p = [check_json (floor_bucket t1) r2 (region_of target)]"
    using same_bucket_points [of ?p t2 now env target r2] same_bucket_points [of None t1 now env target r1] assms(5)
    by (simp_all add: previous_time_def)
  have one: "fst (sums_of [check_json b r region]) = jsint 1" if "pr_error r = None" for b r region
  proof -
    have "\<not> is_missed_monitor_point (check_json b r region)"
      using that by (simp add: is_missed_monitor_point_def check_json_def js_get_def result_error_def opt_json_def str_or_empty_def js_or_def
          js_truthy_def js_trim_def js_lower_def missed_message_def strip_both_def starts_with_def)
    then show ?thesis
      by (simp add: sums_of_def counted_points_def add_point_def point_total_def check_json_def js_get_def js_nullish_def num_or0_def js_or_def js_max_def
          js_truthy_def num_truthy_def)
  qed
  have c1: "map_of (co_cache o1) ?key = Some (plus_sums (rd (floor_bucket t1)) (sums_of [check_json (floor_bucket t1) r1 (region_of target)]))"
    using save_check_cache [OF assms(1), where previous = None and t = t1 and cache = "[]" and env = env and now = now and target = target and he = he and ap = ap and cm = cm and rd = rd and db = db] assms(7)
    by (simp add: pts stored_summary_def cached_daily_summary_before_def Let_def)
  have "cached_daily_summary_before ?p (day_from_sec now env (floor_bucket t1)) (floor_bucket t1) = None"
    by (simp add: cached_daily_summary_before_def split: option.split)
  then have c2: "map_of (co_cache o2) ?key = Some (plus_sums (plus_sums (rd (floor_bucket t1)) (sums_of [check_json (floor_bucket t1) r1 (region_of target)]))
      (sums_of [check_json (floor_bucket t1) r2 (region_of target)]))"
    using save_check_cache [OF assms(2), where previous = ?p and t = t2 and cache = "co_cache o1" and env = env and now = now and target = target and he = he and ap = ap and cm = cm and rd = rd and db = "co_db o1"] assms(5,9)
    by (simp add: pts stored_summary_def c1 Let_def)
  have fst_plus: "fst (plus_sums a b) = js_add (fst a) (fst b)" for a b by (cases a; cases b) simp
  have "fst (plus_sums (plus_sums (rd (floor_bucket t1)) (sums_of [check_json (floor_bucket t1) r1 (region_of target)]))
      (sums_of [check_json (floor_bucket t1) r2 (region_of target)])) = js_add (fst (rd (floor_bucket t1))) (jsint 2)"
    by (simp add: fst_plus one assms(3,4) js_add_assoc)
  then have "\<exists>ok lat. map_of (co_cache o2) ?key = Some (js_add (fst (rd (floor_bucket t1))) (jsint 2), ok, lat)"
    unfolding c2 by (metis prod.collapse)
  moreover have "\<forall>w \<in> set (co_writes o1 @ co_writes o2). point_at (snd w) = floor_bucket t1"
    using save_check_points [OF assms(1)] save_check_points [OF assms(2)] assms(7,9) by (auto simp: pts)
  ultimately show ?thesis by blast
qed

text \<open>The answers of a region are matched exactly: they are accepted if and only if the targets have distinct
  identifiers and the answers name each of them once, and then they come back in the order of the targets, each answer
  for the target it names and none lost.
\<close>

theorem region_answers_are_matched:
  "(case align_region_batch_results targets (Some results) of
      Inr out \<Rightarrow> mset out = mset results \<and> map (trimmed_id ''target_id'') out = map (trimmed_id ''id'') targets
    | Inl e \<Rightarrow> \<not> (distinct (map (trimmed_id ''id'') targets) \<and> [] \<notin> set (map (trimmed_id ''id'') targets) \<and>
                 mset (map (trimmed_id ''target_id'') results) = mset (map (trimmed_id ''id'') targets)))"
proof (cases "align_region_batch_results targets (Some results)")
  case (Inr out)
  obtain ids where ids: "expect_targets targets [] = Inr ids" using Inr by (auto simp: align_region_batch_results_def split: sum.splits)
  have "distinct ([] :: string list)" by simp
  note e0 = expected [OF ids this]
  have e: "ids = map (trimmed_id ''id'') targets" "distinct ids" "[] \<notin> set (map (trimmed_id ''id'') targets)"
    using e0 by (simp, blast, blast)
  obtain got where got: "receive_results ids results [] = Inr got" "length results = length ids"
    and out: "out = map (\<lambda>t. the (map_of got (js_trim (js_String (js_get t ''id''))))) targets"
    using Inr ids by (auto simp: align_region_batch_results_def split: sum.splits if_splits)
  have "distinct (map fst ([] :: (string \<times> jsval) list))" by simp
  note g = received [OF got(1) this]
  have out2: "out = map (\<lambda>t. the (map_of (map (\<lambda>r. (trimmed_id ''target_id'' r, r)) results) (trimmed_id ''id'' t))) targets"
  proof (unfold out, rule map_cong [OF refl])
    fix t assume t: "t \<in> set targets"
    have got': "got = map (\<lambda>r. (trimmed_id ''target_id'' r, r)) results" using g by simp
    have ne: "trimmed_id ''id'' t \<noteq> []" using e(3) t by force
    show "the (map_of got (js_trim (js_String (js_get t ''id'')))) =
        the (map_of (map (\<lambda>r. (trimmed_id ''target_id'' r, r)) results) (trimmed_id ''id'' t))"
      by (simp only: got' trimmed_id_direct [OF ne])
  qed
  have keys: "map fst got = map (trimmed_id ''target_id'') results" using g by (simp add: comp_def)
  have "distinct (map fst got)" using g by blast
  then have d: "distinct (map (trimmed_id ''target_id'') results)" unfolding keys .
  have len: "length results = length targets" using got(2) e(1) by simp
  have "set (map (trimmed_id ''target_id'') results) \<subseteq> set (map (trimmed_id ''id'') targets)" using g unfolding e(1) by blast
  from aligned [OF e(2) [unfolded e(1)] e(3) len d this] show ?thesis unfolding Inr sum.case out2 .
next
  case (Inl err)
  have "\<not> (distinct (map (trimmed_id ''id'') targets) \<and> [] \<notin> set (map (trimmed_id ''id'') targets) \<and>
        mset (map (trimmed_id ''target_id'') results) = mset (map (trimmed_id ''id'') targets))"
  proof
    assume a: "distinct (map (trimmed_id ''id'') targets) \<and> [] \<notin> set (map (trimmed_id ''id'') targets) \<and>
        mset (map (trimmed_id ''target_id'') results) = mset (map (trimmed_id ''id'') targets)"
    then have m: "mset (map (trimmed_id ''target_id'') results) = mset (map (trimmed_id ''id'') targets)" by blast
    have d: "distinct (map (trimmed_id ''target_id'') results)" using mset_eq_imp_distinct_iff [OF m] a by blast
    have eq: "set (map (trimmed_id ''target_id'') results) = set (map (trimmed_id ''id'') targets)" using mset_eq_setD [OF m] .
    have len: "length results = length targets" using mset_eq_length [OF m] by simp
    have ids: "expect_targets targets [] = Inr (map (trimmed_id ''id'') targets)" using expected_total [of "[]" targets] a by simp
    have "receive_results (map (trimmed_id ''id'') targets) results [] = Inr ([] @ map (\<lambda>r. (trimmed_id ''target_id'' r, r)) results)"
      by (rule received_total) (use d eq a in simp_all)
    with ids len show False using Inl by (simp add: align_region_batch_results_def)
  qed
  then show ?thesis by (simp add: Inl)
qed

text \<open>A scheduled run takes the due targets that waited longest: it takes at most the limit, only due ones, and leaves a
  due target out only when it is full and every target it takes has waited at least as long.
\<close>

theorem due_targets_longest_first:
  assumes "t \<in> set targets" "t \<notin> set (due_targets env now r2 d1 targets)"
    and "js_le (last_check_of t (map_of d1 (target_id_of t)) (case map_of r2 (target_id_of t) of Some e \<Rightarrow> st_history e | None \<Rightarrow> 0))
           (jsint (now - history_due_interval_sec t env (map_option st_ok (history_previous_state r2 d1 t))))"
  shows "length (due_targets env now r2 d1 targets) = nat (setting env ''MAX_TARGETS_PER_RUN'' 20 1 200) \<and>
         (\<forall>u \<in> set (due_targets env now r2 d1 targets). u \<in> set targets \<and>
            whole (last_check_of u (map_of d1 (target_id_of u)) (case map_of r2 (target_id_of u) of Some e \<Rightarrow> st_history e | None \<Rightarrow> 0)) \<le>
            whole (last_check_of t (map_of d1 (target_id_of t)) (case map_of r2 (target_id_of t) of Some e \<Rightarrow> st_history e | None \<Rightarrow> 0)))"
proof -
  define waited where "waited = (\<lambda>t. last_check_of t (map_of d1 (target_id_of t)) (case map_of r2 (target_id_of t) of Some e \<Rightarrow> st_history e | None \<Rightarrow> 0))"
  define n where "n = nat (setting env ''MAX_TARGETS_PER_RUN'' 20 1 200)"
  define due where "due = sort_key (\<lambda>t. whole (waited t))
     (filter (\<lambda>t. js_le (waited t) (jsint (now - history_due_interval_sec t env (map_option st_ok (history_previous_state r2 d1 t))))) targets)"
  have d: "due_targets env now r2 d1 targets = take n due"
    by (simp add: due_targets_def Let_def due_def n_def waited_def)
  have t: "t \<in> set due" using assms(1,3) by (simp add: due_def waited_def)
  then have rest: "t \<in> set (drop n due)" using assms(2) unfolding d by (metis Un_iff append_take_drop_id set_append)
  have "sorted (map (\<lambda>t. whole (waited t)) (take n due @ drop n due))" by (simp add: due_def)
  then have "whole (waited u) \<le> whole (waited t)" if "u \<in> set (take n due)" for u
    using that rest unfolding map_append sorted_append by auto
  moreover have "length (take n due) = n" using rest by (simp add: min_def) (metis drop_all empty_iff empty_set linear)
  moreover have "u \<in> set targets" if "u \<in> set (take n due)" for u using set_take_subset [of n due] that by (auto simp: due_def)
  ultimately show ?thesis unfolding d waited_def n_def by blast
qed

section \<open>Examples\<close>

definition web_target :: jsval where
  "web_target = Obj [(''id'', Str ''web''), (''probe_region'', Str ''auto'')]"

definition sample_result :: "bool \<Rightarrow> probe_result" where
  "sample_result ok = \<lparr> pr_ok = ok, pr_latency = None, pr_status = None, pr_error = None, pr_colo = None, pr_skipped = False \<rparr>"

definition empty_db :: probe_db where
  "empty_db = \<lparr> pd_buckets = [], pd_latest = [], pd_incidents = [], pd_schedule = [], pd_hub = [] \<rparr>"

definition no_sums :: "int \<Rightarrow> day_sums" where
  "no_sums _ = (Fin 0, Fin 0, Fin 0)"

lemma sample_result_simps [simp]: "pr_ok (sample_result ok) = ok" "\<not> pr_skipped (sample_result ok)" "pr_error (sample_result ok) = None"
  by (simp_all add: sample_result_def)

lemma web_target_id: "target_id_of web_target = ''web''"
  by (simp add: target_id_of_def web_target_def js_get_def)


text \<open>The fast check fails at 400, the history checks at 600 and 720, and the one at 900 succeeds\<close>

lemma fast_outage_is_not_recorded_witness:
  "pd_incidents (cr_db (check_rounds 5000 (Obj []) True True no_sums web_target
      ([(600, sample_result False), (720, sample_result False)] @ [(900, sample_result True)])
      \<lparr> cr_state = AList.update (target_id_of web_target) (fast_status_update web_target None (sample_result False) 400) [], cr_cache = [], cr_db = empty_db \<rparr>)) =
   pd_incidents empty_db"
  by (rule fast_outage_is_not_recorded) (simp_all add: empty_db_def)

definition status_with_day :: status_entry where
  "status_with_day = (sample_status ''web'' 1704081600 1704081600 1)\<lparr> st_daily := [(''2024-01-01'', \<lparr> ds_total = Fin 4, ds_ok = Fin 3, ds_latency = Fin 60,
     ds_last_ok = 1, ds_last_latency = None, ds_last_status = None, ds_last_error = Null, ds_updated = Fin 1704081600 \<rparr>)] \<rparr>"

lemma status_with_day_simps: "st_checked status_with_day = 1704081600" "map fst (st_daily status_with_day) = [''2024-01-01'']"
  by (simp_all add: status_with_day_def sample_status_def)

lemma daily_summary_counts_new_points_witness:
  "\<exists>row. map_of (st_daily status_with_day) ''2024-01-01'' = Some row \<and>
     map_of (co_cache (save_check 1704082000 (Obj []) True True True no_sums web_target 1704081910 (sample_result True) (Some status_with_day) [] empty_db))
       (target_id_of web_target, day_from_sec 1704082000 (Obj []) (floor_bucket 1704081910)) =
     Some (plus_sums (row_sums row) (sums_of (filter (\<lambda>q. day_from_sec 1704082000 (Obj []) (point_at q) =
        day_from_sec 1704082000 (Obj []) (floor_bucket 1704081910)) (check_points 1704082000 (Obj []) web_target 1704081910 (sample_result True) (Some status_with_day)))))"
proof -
  obtain row where row: "map_of (st_daily status_with_day) ''2024-01-01'' = Some row" "ds_updated row = Fin 1704081600"
    by (simp add: status_with_day_def)
  have day: "day_from_sec 1704082000 (Obj []) (floor_bucket 1704081910) = ''2024-01-01''" by code_simp
  show ?thesis
    by (intro exI [of _ row] conjI row(1) daily_summary_counts_new_points)
      (simp_all add: status_with_day_simps bucket_sec_def floor_bucket_def row day [unfolded floor_bucket_def bucket_sec_def, simplified])
qed

definition first_check :: check_outcome where
  "first_check = save_check 5000 (Obj []) True True True no_sums web_target 610 (sample_result False) None [] empty_db"

definition second_check :: check_outcome where
  "second_check = save_check 5000 (Obj []) True True True no_sums web_target 740 (sample_result False)
     (Some ((the (co_update first_check))\<lparr> st_checked := floor_bucket 610 \<rparr>)) (co_cache first_check) (co_db first_check)"

lemma rechecked_bucket_is_counted_twice_witness:
  "(\<exists>ok lat. map_of (co_cache second_check) (target_id_of web_target, day_from_sec 5000 (Obj []) (floor_bucket 610)) = Some (Fin 2, ok, lat))"
proof -
  obtain u where u: "co_update first_check = Some u"
    using save_check_update [of "sample_result False" 5000 "Obj []" True True True no_sums web_target 610 None "[]" empty_db]
    by (auto simp: first_check_def)
  have "\<exists>ok lat. map_of (co_cache second_check) (target_id_of web_target, day_from_sec 5000 (Obj []) (floor_bucket 610)) =
      Some (js_add (fst (no_sums (floor_bucket 610))) (jsint 2), ok, lat)"
    by (rule rechecked_bucket_is_counted_twice [OF _ _ _ _ _ _ first_check_def [symmetric] u, THEN conjunct2])
      (simp_all add: second_check_def u floor_bucket_def bucket_sec_def)
  then show ?thesis by (simp add: no_sums_def)
qed

definition db_target :: jsval where
  "db_target = Obj [(''id'', Str ''db''), (''last_checked_at'', JInt 600)]"

definition one_per_run :: jsval where
  "one_per_run = Obj [(''MAX_TARGETS_PER_RUN'', JInt 1)]"

lemma due_targets_longest_first_witness:
  "length (due_targets one_per_run 5000 [] [] [web_target, db_target]) = nat (setting one_per_run ''MAX_TARGETS_PER_RUN'' 20 1 200)"
proof -
  have "db_target \<in> set [web_target, db_target]" by simp
  moreover have "db_target \<notin> set (due_targets one_per_run 5000 [] [] [web_target, db_target])" by code_simp
  moreover have "js_le (last_check_of db_target (map_of [] (target_id_of db_target)) (case map_of [] (target_id_of db_target) of Some e \<Rightarrow> st_history e | None \<Rightarrow> 0))
      (jsint (5000 - history_due_interval_sec db_target one_per_run (map_option st_ok (history_previous_state [] [] db_target))))" by code_simp
  ultimately show ?thesis by (rule due_targets_longest_first [THEN conjunct1])
qed

end
