(* ===== verification/RateLimit.thy ===== *)
theory RateLimit
  imports Utils
begin

text \<open>
  \<open>ratelimit.js\<close>: the limiter over the table \<open>rate_limits\<close> with its sliding window, the limiter in memory it falls back to
  when the database fails, the status, the clearing and the cleanup of the table.
\<close>

type_synonym hit = "string \<times> int"

record limiter =
  rl_rows :: "hit list"
  rl_buckets :: "(string \<times> (int \<times> int)) list"

text \<open>\<open>check\<close>: times in milliseconds, a bucket is its start and its count\<close>

definition check_bucket :: "int \<Rightarrow> string \<Rightarrow> int \<Rightarrow> int \<Rightarrow> (string \<times> (int \<times> int)) list \<Rightarrow> (string \<times> (int \<times> int)) list \<times> bool" where
  "check_bucket now key limit window_ms buckets =
     (let (start, n) = (case map_of buckets key of None \<Rightarrow> (now, 0) | Some (start, n) \<Rightarrow> if now - start > window_ms then (now, 0) else (start, n));
          counted = AList.update key (start, n + 1) buckets;
          kept = (if length counted > 10000 then filter (\<lambda>(k, start, n). now - start \<le> window_ms) counted else counted)
      in (kept, n + 1 \<le> limit))"

definition hits_since :: "string \<Rightarrow> int \<Rightarrow> hit list \<Rightarrow> nat" where
  "hits_since key since rows = length (filter (\<lambda>(k, ts). k = key \<and> since \<le> ts) rows)"

text \<open>The guarded \<open>INSERT\<close> is one statement; \<open>up\<close>: the database answered\<close>

definition rate_limit_d1 :: "bool \<Rightarrow> int \<Rightarrow> string \<Rightarrow> int \<Rightarrow> int \<Rightarrow> limiter \<Rightarrow> limiter \<times> bool" where
  "rate_limit_d1 up now key limit window s =
     (if up
      then if int (hits_since key (now - window) (rl_rows s)) < limit then (s\<lparr> rl_rows := rl_rows s @ [(key, now)] \<rparr>, True) else (s, False)
      else let (buckets, allowed) = check_bucket (now * 1000) key limit (window * 1000) (rl_buckets s) in (s\<lparr> rl_buckets := buckets \<rparr>, allowed))"

record limit_status =
  li_limited :: bool
  li_count :: int
  li_retry_after :: int

definition rate_limit_status_d1 :: "bool \<Rightarrow> int \<Rightarrow> string \<Rightarrow> int \<Rightarrow> int \<Rightarrow> limiter \<Rightarrow> limiter \<times> limit_status" where
  "rate_limit_status_d1 up now key limit window s =
     (if up
      then let rows = filter (\<lambda>(k, ts). \<not> (k = key \<and> ts < now - window)) (rl_rows s);
               times = map snd (filter (\<lambda>(k, ts). k = key \<and> now - window \<le> ts) rows);
               oldest = (if times = [] \<or> Min (set times) = 0 then now else Min (set times));
               limited = (limit \<le> int (length times))
           in (s\<lparr> rl_rows := rows \<rparr>,
               \<lparr> li_limited = limited, li_count = int (length times), li_retry_after = (if limited then max 1 (oldest + window - now + 1) else 0) \<rparr>)
      else let (buckets, allowed) = check_bucket (now * 1000) (''status:'' @ key) limit (window * 1000) (rl_buckets s)
           in (s\<lparr> rl_buckets := buckets \<rparr>,
               \<lparr> li_limited = \<not> allowed, li_count = (if allowed then 0 else limit), li_retry_after = (if allowed then 0 else window) \<rparr>))"

definition clear_rate_limit_d1 :: "bool \<Rightarrow> string \<Rightarrow> limiter \<Rightarrow> limiter \<times> bool" where
  "clear_rate_limit_d1 up key s = (if up then (s\<lparr> rl_rows := filter (\<lambda>(k, ts). k \<noteq> key) (rl_rows s) \<rparr>, True) else (s, False))"

definition cleanup_rate_limits_d1 :: "bool \<Rightarrow> int \<Rightarrow> limiter \<Rightarrow> limiter" where
  "cleanup_rate_limits_d1 up now s = (if up then s\<lparr> rl_rows := filter (\<lambda>(k, ts). \<not> ts < now - 3600) (rl_rows s) \<rparr> else s)"

text \<open>\<open>useD1RateLimit\<close> and the two limiters of the routes\<close>

definition use_d1_rate_limit :: "jsval \<Rightarrow> jsval \<Rightarrow> bool" where
  "use_d1_rate_limit env options =
     (if js_truthy (js_get options ''bestEffort'') then False
      else if js_truthy (js_get options ''durable'') then True
      else case js_get env ''RATE_LIMIT_D1'' of
             Bool b \<Rightarrow> b
           | v \<Rightarrow> if js_nullish v \<or> v = Str [] then True
                 else let t = js_lower (js_trim (js_String v))
                      in if t = ''1'' \<or> t = ''true'' then True else if t = ''0'' \<or> t = ''false'' then False else True)"

definition rate_limit_keyed :: "jsval \<Rightarrow> jsval \<Rightarrow> bool \<Rightarrow> bool \<Rightarrow> int \<Rightarrow> int \<Rightarrow> string \<Rightarrow> int \<Rightarrow> int \<Rightarrow> limiter \<Rightarrow> limiter \<times> bool" where
  "rate_limit_keyed env options has_db up now now_ms key limit window s =
     (if use_d1_rate_limit env options then if has_db then rate_limit_d1 up now key limit window s else (s, False)
      else let (buckets, allowed) = check_bucket now_ms key limit (window * 1000) (rl_buckets s) in (s\<lparr> rl_buckets := buckets \<rparr>, allowed))"

definition rate_limit_by_ip ::
  "string option \<Rightarrow> jsval \<Rightarrow> jsval \<Rightarrow> bool \<Rightarrow> bool \<Rightarrow> int \<Rightarrow> int \<Rightarrow> int \<Rightarrow> int \<Rightarrow> limiter \<Rightarrow> limiter \<times> bool" where
  "rate_limit_by_ip ip env options has_db up now now_ms limit window =
     rate_limit_keyed env options has_db up now now_ms
       (js_String (js_or (js_get options ''keyPrefix'') (Str ''ip'')) @ '':'' @ (case ip of None \<Rightarrow> ''unknown'' | Some a \<Rightarrow> if a = [] then ''unknown'' else a))
       limit window"

definition rate_limit_global :: "jsval \<Rightarrow> jsval \<Rightarrow> bool \<Rightarrow> bool \<Rightarrow> int \<Rightarrow> int \<Rightarrow> int \<Rightarrow> int \<Rightarrow> limiter \<Rightarrow> limiter \<times> bool" where
  "rate_limit_global env options has_db up now now_ms limit window =
     rate_limit_keyed env options has_db up now now_ms
       (js_String (js_or (js_get options ''keyPrefix'') (Str ''global'')) @ '':__global__'') limit window"

section \<open>A run of the limiter\<close>

datatype limiter_op = Ask string int int | Ask_status string int int | Cleanup

text \<open>Requests on the table, and what was admitted so far\<close>

fun limiter_step :: "int \<times> limiter_op \<Rightarrow> limiter \<times> hit list \<Rightarrow> limiter \<times> hit list" where
  "limiter_step (now, Ask key limit window) (s, admitted) =
     (case rate_limit_d1 True now key limit window s of (s', allowed) \<Rightarrow> (s', if allowed then admitted @ [(key, now)] else admitted))"
| "limiter_step (now, Ask_status key limit window) (s, admitted) = (fst (rate_limit_status_d1 True now key limit window s), admitted)"
| "limiter_step (now, Cleanup) (s, admitted) = (cleanup_rate_limits_d1 True now s, admitted)"

fun uses_limit :: "string \<Rightarrow> int \<Rightarrow> int \<Rightarrow> limiter_op \<Rightarrow> bool" where
  "uses_limit key limit window (Ask k l w) \<longleftrightarrow> k = key \<longrightarrow> l = limit \<and> w = window"
| "uses_limit key limit window (Ask_status k l w) \<longleftrightarrow> k = key \<longrightarrow> l = limit \<and> w = window"
| "uses_limit key limit window Cleanup \<longleftrightarrow> True"

definition hits_between :: "string \<Rightarrow> int \<Rightarrow> int \<Rightarrow> hit list \<Rightarrow> nat" where
  "hits_between key since until hits = length (filter (\<lambda>(k, ts). k = key \<and> since \<le> ts \<and> ts \<le> until) hits)"

definition limiter_ok :: "string \<Rightarrow> int \<Rightarrow> int \<Rightarrow> int \<Rightarrow> limiter \<times> hit list \<Rightarrow> bool" where
  "limiter_ok key limit window now = (\<lambda>(s, admitted).
     (\<forall>since \<ge> now - window. hits_since key since admitted \<le> hits_since key since (rl_rows s)) \<and>
     (\<forall>t. int (hits_between key (t - window) t admitted) \<le> limit) \<and> (\<forall>(k, ts) \<in> set admitted. ts \<le> now))"

lemma hits_simps [simp]:
  "hits_since key since (hits @ [(k, ts)]) = hits_since key since hits + (if k = key \<and> since \<le> ts then 1 else 0)"
  "hits_between key since until (hits @ [(k, ts)]) = hits_between key since until hits + (if k = key \<and> since \<le> ts \<and> ts \<le> until then 1 else 0)"
  "hits_since key since [] = 0" "hits_between key since until [] = 0"
  by (simp_all add: hits_since_def hits_between_def)

lemma hits_since_mono: "since \<le> later \<Longrightarrow> hits_since key later hits \<le> hits_since key since hits"
  by (induction hits) (auto simp: hits_since_def)

lemma hits_between_since: "hits_between key since until hits \<le> hits_since key since hits"
  by (induction hits) (auto simp: hits_since_def hits_between_def)

lemma hits_since_filter: "(\<And>k ts. (k, ts) \<in> set hits \<Longrightarrow> k = key \<and> since \<le> ts \<Longrightarrow> P (k, ts)) \<Longrightarrow> hits_since key since (filter P hits) = hits_since key since hits"
  unfolding hits_since_def by (induction hits) auto

lemma limiter_step_ok:
  assumes ok: "limiter_ok key limit window now x" and now: "now \<le> now'" and op: "uses_limit key limit window op" and w: "window \<le> 3600"
  shows "limiter_ok key limit window now' (limiter_step (now', op) x)"
proof -
  obtain s adm where x: "x = (s, adm)" by (cases x)
  have le: "hits_since key since adm \<le> hits_since key since (rl_rows s)" if "now' - window \<le> since" for since
    using ok now that by (auto simp: limiter_ok_def x)
  have bound: "int (hits_between key (t - window) t adm) \<le> limit" for t using ok by (simp add: limiter_ok_def x)
  have past: "\<forall>(k, ts) \<in> set adm. ts \<le> now'" using ok now by (force simp: limiter_ok_def x)
  show ?thesis
  proof (cases op)
    case (Ask k l v)
    show ?thesis
    proof (cases "int (hits_since k (now' - v) (rl_rows s)) < l")
      case True
      have "int (hits_between key (t - window) t (adm @ [(k, now')])) \<le> limit" for t
      proof (cases "k = key \<and> t - window \<le> now' \<and> now' \<le> t")
        case inside: True
        then have kl: "l = limit" "v = window" using op Ask by auto
        have "hits_between key (t - window) t adm \<le> hits_since key (now' - window) adm"
          using hits_between_since [of key "t - window" t adm] hits_since_mono [of "now' - window" "t - window" key adm] inside by linarith
        with le [of "now' - window"] True kl inside show ?thesis by simp
      qed (use bound in auto)
      with le past True show ?thesis by (auto simp: limiter_ok_def x Ask rate_limit_d1_def)
    qed (use le bound past in \<open>auto simp: limiter_ok_def x Ask rate_limit_d1_def\<close>)
  next
    case (Ask_status k l v)
    have "hits_since key since (filter (\<lambda>(k', ts). \<not> (k' = k \<and> ts < now' - v)) (rl_rows s)) = hits_since key since (rl_rows s)" if "now' - window \<le> since" for since
      using op that Ask_status by (intro hits_since_filter) auto
    with le bound past show ?thesis by (auto simp: limiter_ok_def x Ask_status rate_limit_status_d1_def Let_def)
  next
    case Cleanup
    have "hits_since key since (filter (\<lambda>(k', ts). \<not> ts < now' - 3600) (rl_rows s)) = hits_since key since (rl_rows s)" if "now' - window \<le> since" for since
      using w that by (intro hits_since_filter) auto
    with le bound past show ?thesis by (auto simp: limiter_ok_def x Cleanup cleanup_rate_limits_d1_def)
  qed
qed

lemma limiter_run_ok:
  "limiter_ok key limit window now x \<Longrightarrow> sorted (now # map fst ops) \<Longrightarrow> \<forall>(t, op) \<in> set ops. uses_limit key limit window op \<Longrightarrow> window \<le> 3600 \<Longrightarrow>
   \<exists>now'. limiter_ok key limit window now' (fold limiter_step ops x)"
proof (induction ops arbitrary: now x)
  case (Cons o1 ops)
  obtain now1 op1 where o1: "o1 = (now1, op1)" by (cases o1)
  have "limiter_ok key limit window now1 (limiter_step o1 x)"
    using limiter_step_ok [OF Cons.prems(1), of now1 op1] Cons.prems o1 by auto
  from Cons.IH [OF this] Cons.prems o1 show ?case by auto
qed auto



end
