(* ===== verification/AdminSessions.thy ===== *)
theory AdminSessions
  imports Secrets
begin

text \<open>
  \<open>totp.js\<close> and the store of the administrator: the rows of \<open>app_meta\<close> that hold the TOTP secret, the sessions, the
  pending OAuth tokens and the credentials; sessions, the one time codes, and the requests that switch TOTP on and off.

  A row holds JSON that the worker itself writes: a list is its entries, \<open>Garbled\<close> a text that is not a JSON array.
  \<open>sha\<close> is SHA-256 as hex, \<open>hmac\<close> HMAC-SHA-1, \<open>enc\<close>/\<open>dec\<close> AES-GCM. A \<open>gap\<close> is what other requests do to the rows between
  the read and the write of a request.
\<close>

datatype 'a stored_list = Entries "'a list" | Garbled

record session =
  se_hash :: string
  se_expires :: int
  se_created :: int
  se_provider :: string
  se_subject :: string

record pending_token =
  pt_hash :: string
  pt_expires :: int
  pt_subject :: string

record admin_credential =
  cr_version :: int
  cr_username :: string
  cr_algorithm :: string
  cr_iterations :: int
  cr_salt :: string
  cr_hash :: string
  cr_updated :: int

record admin_meta =
  am_secret :: "string option"
  am_pending :: "string option"
  am_sessions :: "session stored_list option"
  am_session_id :: "string option"
  am_session_expires :: "int option"
  am_states :: "pending_token stored_list option"
  am_tickets :: "pending_token stored_list option"
  am_credentials :: "admin_credential option"

definition empty_meta :: admin_meta where
  "empty_meta = \<lparr> am_secret = None, am_pending = None, am_sessions = None, am_session_id = None, am_session_expires = None,
     am_states = None, am_tickets = None, am_credentials = None \<rparr>"

text \<open>\<open>getMeta\<close>: an empty value is none\<close>

definition meta_text :: "string option \<Rightarrow> string option" where
  "meta_text v = (case v of Some (c # cs) \<Rightarrow> Some (c # cs) | _ \<Rightarrow> None)"

section \<open>Sessions\<close>

definition session_prefix :: string where "session_prefix = ''sha256:''"
definition session_ttl_sec :: int where "session_ttl_sec = 86400"
definition max_admin_sessions :: nat where "max_admin_sessions = 5"

definition read_sessions :: "int \<Rightarrow> admin_meta \<Rightarrow> session list" where
  "read_sessions now m =
     (case am_sessions m of
        Some (Entries l) \<Rightarrow> filter (\<lambda>s. se_hash s \<noteq> []) l
      | _ \<Rightarrow>
          (case (meta_text (am_session_id m), am_session_expires m) of
             (Some i, Some e) \<Rightarrow> if e > now then [\<lparr> se_hash = i, se_expires = e, se_created = e - session_ttl_sec, se_provider = [], se_subject = [] \<rparr>] else []
           | _ \<Rightarrow> []))"

definition new_session :: "(string \<Rightarrow> string) \<Rightarrow> int \<Rightarrow> string \<Rightarrow> string \<Rightarrow> string \<Rightarrow> session" where
  "new_session sha now uuid provider subject =
     \<lparr> se_hash = session_prefix @ sha uuid, se_expires = now + session_ttl_sec, se_created = now,
       se_provider = take 32 (if provider = [] then ''password'' else provider), se_subject = take 100 (if subject = [] then ''admin'' else subject) \<rparr>"

definition create_admin_session ::
  "(string \<Rightarrow> string) \<Rightarrow> int \<Rightarrow> string \<Rightarrow> string \<Rightarrow> string \<Rightarrow> (admin_meta \<Rightarrow> admin_meta) \<Rightarrow> admin_meta \<Rightarrow> admin_meta \<times> string \<times> int" where
  "create_admin_session sha now uuid provider subject gap m =
     (let session = new_session sha now uuid provider subject;
          sessions = take_last max_admin_sessions (filter (\<lambda>s. se_expires s > now) (read_sessions now m) @ [session])
      in ((gap m)\<lparr> am_sessions := Some (Entries sessions), am_session_id := Some (se_hash session), am_session_expires := Some (se_expires session) \<rparr>,
          uuid, se_expires session))"

text \<open>\<open>validateAdminSession\<close>: the expiry, the provider and the subject of a valid session\<close>

definition session_matches :: "(string \<Rightarrow> string) \<Rightarrow> string \<Rightarrow> session \<Rightarrow> bool" where
  "session_matches sha presented s \<longleftrightarrow>
     (if starts_with session_prefix (se_hash s) then se_hash s = session_prefix @ sha presented else se_hash s = presented)"

definition validate_admin_session :: "(string \<Rightarrow> string) \<Rightarrow> int \<Rightarrow> string \<Rightarrow> admin_meta \<Rightarrow> (int \<times> string \<times> string) option" where
  "validate_admin_session sha now session_id m =
     (let presented = js_trim session_id in
      if presented = [] then None
      else map_option (\<lambda>s. (se_expires s, if se_provider s = [] then ''legacy'' else se_provider s, if se_subject s = [] then ''admin'' else se_subject s))
             (find (\<lambda>s. se_expires s > now \<and> se_hash s \<noteq> [] \<and> session_matches sha presented s) (read_sessions now m)))"

definition revoke_all_admin_sessions :: "admin_meta \<Rightarrow> admin_meta" where
  "revoke_all_admin_sessions m = m\<lparr> am_sessions := None, am_session_id := None, am_session_expires := None \<rparr>"

section \<open>One time codes\<close>

definition b32_alphabet :: string where "b32_alphabet = ''ABCDEFGHIJKLMNOPQRSTUVWXYZ234567''"

definition upper_char :: "char \<Rightarrow> char" where
  "upper_char c = (let n = (of_char c :: nat) in
     if (97 \<le> n \<and> n \<le> 122) \<or> (224 \<le> n \<and> n \<le> 254 \<and> n \<noteq> 247) then char_of (n - 32) else c)"

definition js_upper :: "string \<Rightarrow> string" where "js_upper = map upper_char"

definition b32_bits :: "nat \<Rightarrow> nat list" where
  "b32_bits v = map (\<lambda>b. (v div 2 ^ b) mod 2) [4, 3, 2, 1, 0]"

fun bytes_of_bits :: "nat list \<Rightarrow> bytes" where
  "bytes_of_bits (a # b # c # d # e # f # g # h # r) =
     of_nat (foldl (\<lambda>v bit. 2 * v + bit) 0 [a, b, c, d, e, f, g, h]) # bytes_of_bits r"
| "bytes_of_bits _ = []"

definition base32_to_bytes :: "string \<Rightarrow> bytes" where
  "base32_to_bytes s =
     bytes_of_bits (concat (map (\<lambda>c. case map_of (zip b32_alphabet [0..<32]) c of None \<Rightarrow> [] | Some v \<Rightarrow> b32_bits v)
       (rev (dropWhile (\<lambda>c. c = CHR ''='') (rev (js_upper s))))))"

text \<open>Four zero bytes and the counter as a 32 bit number, the high byte first\<close>

definition counter_message :: "int \<Rightarrow> bytes" where
  "counter_message counter =
     (let w = (of_int counter :: 32 word) in [0, 0, 0, 0, ucast (drop_bit 24 w), ucast (drop_bit 16 w), ucast (drop_bit 8 w), ucast w])"

definition truncated_code :: "bytes \<Rightarrow> 32 word" where
  "truncated_code h =
     (let offset = unat (and (h ! 19) 15) in
      or (or (or (push_bit 24 (ucast (and (h ! offset) 127))) (push_bit 16 (ucast (h ! (offset + 1)))))
             (push_bit 8 (ucast (h ! (offset + 2))))) (ucast (h ! (offset + 3))))"

definition generate_code :: "(bytes \<Rightarrow> bytes \<Rightarrow> bytes) \<Rightarrow> string \<Rightarrow> int \<Rightarrow> string" where
  "generate_code hmac secret counter =
     pad_zero 6 (nat_str (unat (truncated_code (hmac (base32_to_bytes secret) (counter_message counter))) mod 1000000))"

definition verify_code :: "(bytes \<Rightarrow> bytes \<Rightarrow> bytes) \<Rightarrow> int \<Rightarrow> string \<Rightarrow> string \<Rightarrow> bool" where
  "verify_code hmac now_ms secret code =
     list_ex (\<lambda>offset. constant_time_equal (generate_code hmac secret (now_ms div 30000 + offset)) code) [-1, 0, 1]"

definition generate_secret :: "bytes \<Rightarrow> string" where
  "generate_secret = map (\<lambda>b. b32_alphabet ! (unat b mod 32))"

definition code_format :: "string \<Rightarrow> bool" where
  "code_format code \<longleftrightarrow> length code = 6 \<and> list_all is_digit code"

section \<open>The stored secret\<close>

definition looks_like_plain_secret :: "string \<Rightarrow> bool" where
  "looks_like_plain_secret s =
     (let t = js_trim s in 16 \<le> length t \<and> length t \<le> 80 \<and> list_all (\<lambda>c. c \<in> set b32_alphabet) (js_upper t))"

text \<open>The secret and whether it should be stored anew; \<open>None\<close>: it cannot be read. No additional data is sealed with it\<close>

definition read_stored_secret :: "aead_dec \<Rightarrow> jsval \<Rightarrow> string \<Rightarrow> (string \<times> bool) option" where
  "read_stored_secret dec env stored_value =
     (let stored = js_trim stored_value in
      if stored = [] then None
      else if starts_with secret_prefix stored then open_payload dec env [] (drop (length secret_prefix) stored)
      else if looks_like_plain_secret stored then Some (js_upper stored, True)
      else map_option (\<lambda>(secret, _). (secret, True)) (open_payload dec env [] stored))"

definition totp_enabled :: "admin_meta \<Rightarrow> bool" where
  "totp_enabled m \<longleftrightarrow> meta_text (am_secret m) \<noteq> None"

text \<open>The answer of a request: refused with a status, or done\<close>

datatype totp_reply = Refused int | Secret_shown string | Logged_in string int | Switched_off

definition setup_totp :: "aead_enc \<Rightarrow> jsval \<Rightarrow> bytes \<Rightarrow> bytes \<Rightarrow> admin_meta \<Rightarrow> admin_meta \<times> totp_reply" where
  "setup_totp enc env random_bytes iv m =
     (if totp_enabled m then (m, Refused 400)
      else let secret = generate_secret random_bytes in
        case seal_secret enc env iv [] secret of
          None \<Rightarrow> (m, Refused 500)
        | Some t \<Rightarrow> (m\<lparr> am_pending := Some t \<rparr>, Secret_shown secret))"

definition verify_totp ::
  "(string \<Rightarrow> string) \<Rightarrow> (bytes \<Rightarrow> bytes \<Rightarrow> bytes) \<Rightarrow> aead_enc \<Rightarrow> aead_dec \<Rightarrow> jsval \<Rightarrow> int \<Rightarrow> bytes \<Rightarrow> string \<Rightarrow> (admin_meta \<Rightarrow> admin_meta) \<Rightarrow> string \<Rightarrow>
   admin_meta \<Rightarrow> admin_meta \<times> totp_reply" where
  "verify_totp sha hmac enc dec env now_ms iv uuid gap code m =
     (let pending = (if totp_enabled m then None else meta_text (am_pending m)) in
      case (if totp_enabled m then meta_text (am_secret m) else pending) of
        None \<Rightarrow> (m, Refused 400)
      | Some stored \<Rightarrow>
          if \<not> code_format code then (m, Refused 400)
          else case read_stored_secret dec env stored of
            None \<Rightarrow> (m, Refused 400)
          | Some (secret, old) \<Rightarrow>
              if \<not> verify_code hmac now_ms secret code then (m, Refused 401)
              else if pending \<noteq> None \<or> (old \<and> primary_material_of env \<noteq> [])
              then (case seal_secret enc env iv [] secret of
                      None \<Rightarrow> (m, Refused 400)
                    | Some t \<Rightarrow>
                        (case create_admin_session sha (now_ms div 1000) uuid ''totp-setup'' ''admin'' gap (m\<lparr> am_secret := Some t, am_pending := None \<rparr>) of
                           (m', session, expires) \<Rightarrow> (m', Logged_in session expires)))
              else (case create_admin_session sha (now_ms div 1000) uuid ''totp-setup'' ''admin'' gap m of
                      (m', session, expires) \<Rightarrow> (m', Logged_in session expires)))"

definition disable_totp ::
  "(bytes \<Rightarrow> bytes \<Rightarrow> bytes) \<Rightarrow> aead_dec \<Rightarrow> jsval \<Rightarrow> int \<Rightarrow> string \<Rightarrow> admin_meta \<Rightarrow> admin_meta \<times> totp_reply" where
  "disable_totp hmac dec env now_ms code m =
     (case (if totp_enabled m then meta_text (am_secret m) else meta_text (am_pending m)) of
        None \<Rightarrow> (m, Refused 400)
      | Some stored \<Rightarrow>
          if \<not> code_format code then (m, Refused 400)
          else case read_stored_secret dec env stored of
            None \<Rightarrow> (m, Refused 400)
          | Some (secret, _) \<Rightarrow>
              if \<not> verify_code hmac now_ms secret code then (m, Refused 401)
              else (m\<lparr> am_secret := None, am_pending := None \<rparr>, Switched_off))"

text \<open>\<open>verifyActiveTOTP\<close>: \<open>None\<close> when the stored secret cannot be read, which ends the request with an error\<close>

definition verify_active_totp ::
  "(bytes \<Rightarrow> bytes \<Rightarrow> bytes) \<Rightarrow> aead_enc \<Rightarrow> aead_dec \<Rightarrow> jsval \<Rightarrow> int \<Rightarrow> bytes \<Rightarrow> string \<Rightarrow> admin_meta \<Rightarrow> admin_meta \<times> bool option" where
  "verify_active_totp hmac enc dec env now_ms iv code m =
     (let normalized = js_trim code in
      case (if code_format normalized then meta_text (am_secret m) else None) of
        None \<Rightarrow> (m, Some False)
      | Some stored \<Rightarrow>
          (case read_stored_secret dec env stored of
             None \<Rightarrow> (m, None)
           | Some (secret, old) \<Rightarrow>
               ((case (if old then seal_secret enc env iv [] secret else None) of Some t \<Rightarrow> m\<lparr> am_secret := Some t \<rparr> | None \<Rightarrow> m),
                Some (verify_code hmac now_ms secret normalized))))"

text \<open>\<open>migrateTOTPEncryption\<close>: the rows with the numbers seen and sealed anew; an unreadable secret ends it\<close>

definition migrate_secret :: "aead_enc \<Rightarrow> aead_dec \<Rightarrow> jsval \<Rightarrow> bytes \<Rightarrow> string option \<Rightarrow> (string option \<times> nat \<times> nat) option" where
  "migrate_secret enc dec env iv stored_value =
     (case meta_text stored_value of
        None \<Rightarrow> Some (stored_value, 0, 0)
      | Some stored \<Rightarrow>
          (case read_stored_secret dec env stored of
             None \<Rightarrow> None
           | Some (secret, old) \<Rightarrow> if old then Some (seal_secret enc env iv [] secret, 1, 1) else Some (stored_value, 1, 0)))"

definition migrate_totp_encryption :: "aead_enc \<Rightarrow> aead_dec \<Rightarrow> jsval \<Rightarrow> bytes \<Rightarrow> bytes \<Rightarrow> admin_meta \<Rightarrow> admin_meta \<times> (nat \<times> nat) option" where
  "migrate_totp_encryption enc dec env iv iv' m =
     (if primary_material_of env = [] then (m, None)
      else case migrate_secret enc dec env iv (am_secret m) of
        None \<Rightarrow> (m, None)
      | Some (active, seen, sealed) \<Rightarrow>
          (let m1 = m\<lparr> am_secret := active \<rparr> in
           case migrate_secret enc dec env iv' (am_pending m1) of
             None \<Rightarrow> (m1, None)
           | Some (pending, seen', sealed') \<Rightarrow> (m1\<lparr> am_pending := pending \<rparr>, Some (seen + seen', sealed + sealed'))))"

section \<open>Sessions: what a run of logins and revocations leaves valid\<close>

datatype session_event = Login int string string string | Revoke_all

fun session_step :: "(string \<Rightarrow> string) \<Rightarrow> session_event \<Rightarrow> admin_meta \<Rightarrow> admin_meta" where
  "session_step sha (Login now uuid provider subject) m = fst (create_admin_session sha now uuid provider subject (\<lambda>m. m) m)"
| "session_step sha Revoke_all m = revoke_all_admin_sessions m"

text \<open>The contract: the logins since the last revocation, with their times\<close>

fun logins_since :: "(int \<times> string) list \<Rightarrow> session_event list \<Rightarrow> (int \<times> string) list" where
  "logins_since sofar [] = sofar"
| "logins_since sofar (Login now uuid _ _ # es) = logins_since (sofar @ [(now, uuid)]) es"
| "logins_since sofar (Revoke_all # es) = logins_since [] es"

fun login_times :: "session_event list \<Rightarrow> int list" where
  "login_times [] = []"
| "login_times (Login now _ _ _ # es) = now # login_times es"
| "login_times (Revoke_all # es) = login_times es"

definition same_login :: "(string \<Rightarrow> string) \<Rightarrow> session \<Rightarrow> int \<times> string \<Rightarrow> bool" where
  "same_login sha s = (\<lambda>(t, u). se_hash s = session_prefix @ sha u \<and> se_expires s = t + session_ttl_sec)"

text \<open>The stored sessions are those of the last five logins, less the ones that had expired at some time before\<close>

definition sessions_ok :: "(string \<Rightarrow> string) \<Rightarrow> int \<Rightarrow> (int \<times> string) list \<Rightarrow> admin_meta \<Rightarrow> bool" where
  "sessions_ok sha now logins m \<longleftrightarrow>
     sorted (map fst logins @ [now]) \<and>
     (\<exists>issued. list_all2 (same_login sha) issued logins \<and>
        (if am_sessions m = None then issued = [] \<and> am_session_id m = None
         else \<exists>d \<le> now. am_sessions m = Some (Entries (filter (\<lambda>s. se_expires s > d) (take_last max_admin_sessions issued)))))"

lemma filter_take_last_sorted:
  fixes f :: "'a \<Rightarrow> int"
  assumes "sorted (map f xs)" "P new = True" "P = (\<lambda>s. f s > d)" "0 < k"
  shows "take_last k (filter P (take_last k xs) @ [new]) = filter P (take_last k (xs @ [new]))"
proof -
  obtain j where k: "k = Suc j" using assms(4) by (cases k) auto
  have tl: "take_last k (ys @ [new]) = take_last j ys @ [new]" for ys :: "'a list"
    by (simp add: take_last_def k)
  show ?thesis
  proof (cases "length xs \<le> j")
    case True
    then have "take_last k xs = xs" "take_last j xs = xs" by (simp_all add: k)
    moreover have "length (filter P xs) \<le> j" using True length_filter_le [of P xs] by linarith
    ultimately show ?thesis using assms(2) by (simp add: tl)
  next
    case False
    define n where "n = length xs - k"
    have cut: "drop n xs = xs ! n # drop (Suc n) xs" using False by (intro Cons_nth_drop_Suc [symmetric]) (simp add: n_def k)
    have a: "take_last k xs = xs ! n # drop (Suc n) xs" using cut by (simp add: take_last_def n_def)
    have b: "take_last j xs = drop (Suc n) xs" using False by (simp add: take_last_def n_def k Suc_diff_Suc)
    have len: "length (drop (Suc n) xs) = j" using False by (simp add: n_def k)
    have "sorted (map f (drop n xs))" using sorted_wrt_drop [OF assms(1), of n] by (simp add: drop_map)
    then have first: "\<forall>y \<in> set (drop (Suc n) xs). f (xs ! n) \<le> f y" unfolding cut by simp
    show ?thesis
    proof (cases "P (xs ! n)")
      case True
      then have "filter P (drop (Suc n) xs) = drop (Suc n) xs" using first assms(3) by (auto simp: filter_id_conv)
      with True len assms(2) show ?thesis by (simp add: tl a b) (simp add: take_last_def len k)
    next
      case False
      have "length (filter P (drop (Suc n) xs)) \<le> j" using len length_filter_le [of P "drop (Suc n) xs"] by simp
      with False assms(2) show ?thesis by (simp add: tl a b)
    qed
  qed
qed

lemma issued_sorted:
  "list_all2 (same_login sha) issued logins \<Longrightarrow> sorted (map fst logins) \<Longrightarrow> sorted (map se_expires issued)"
proof -
  assume l: "list_all2 (same_login sha) issued logins" and s: "sorted (map fst logins)"
  have "map se_expires issued = map (\<lambda>t. t + session_ttl_sec) (map fst logins)"
    using l by (induction rule: list_all2_induct) (auto simp: same_login_def)
  with s show ?thesis by (simp add: sorted_iff_nth_mono)
qed

lemma issued_hash: "list_all2 (same_login sha) issued logins \<Longrightarrow> s \<in> set issued \<Longrightarrow> starts_with session_prefix (se_hash s) \<and> se_hash s \<noteq> []"
  by (induction rule: list_all2_induct) (auto simp: same_login_def starts_with_def session_prefix_def)

lemma sessions_ok_read:
  assumes "sessions_ok sha c logins m" "c \<le> now"
  shows "\<exists>issued. list_all2 (same_login sha) issued logins \<and>
    filter (\<lambda>s. se_expires s > now) (read_sessions now m) = filter (\<lambda>s. se_expires s > now) (take_last max_admin_sessions issued)"
proof -
  obtain issued where i: "list_all2 (same_login sha) issued logins"
    and m: "if am_sessions m = None then issued = [] \<and> am_session_id m = None
         else \<exists>d \<le> c. am_sessions m = Some (Entries (filter (\<lambda>s. se_expires s > d) (take_last max_admin_sessions issued)))"
    using assms(1) by (auto simp: sessions_ok_def)
  show ?thesis
  proof (cases "am_sessions m = None")
    case True
    with i m show ?thesis by (auto intro!: exI [of _ "[]"] simp: read_sessions_def meta_text_def)
  next
    case False
    then obtain d where d: "d \<le> c" "am_sessions m = Some (Entries (filter (\<lambda>s. se_expires s > d) (take_last max_admin_sessions issued)))"
      using m by auto
    have "\<forall>s \<in> set (take_last max_admin_sessions issued). se_hash s \<noteq> []"
      using issued_hash [OF i] set_take_last by fast
    then have "filter (\<lambda>s. se_expires s > now) (read_sessions now m) = filter (\<lambda>s. se_expires s > now) (take_last max_admin_sessions issued)"
      using d assms(2) by (auto simp: read_sessions_def intro: filter_cong)
    with i show ?thesis by blast
  qed
qed

lemma sessions_ok_login:
  assumes ok: "sessions_ok sha c logins m" and now: "c \<le> now"
  shows "sessions_ok sha now (logins @ [(now, uuid)]) (fst (create_admin_session sha now uuid provider subject (\<lambda>m. m) m))"
proof -
  let ?P = "\<lambda>s. se_expires s > now" and ?new = "new_session sha now uuid provider subject"
  obtain issued where i: "list_all2 (same_login sha) issued logins"
    and r: "filter ?P (read_sessions now m) = filter ?P (take_last max_admin_sessions issued)"
    using sessions_ok_read [OF ok now] by blast
  have s: "sorted (map fst logins @ [now])" "sorted (map fst logins)" using ok now by (fastforce simp: sessions_ok_def sorted_append)+
  have "take_last max_admin_sessions (filter ?P (read_sessions now m) @ [?new]) = filter ?P (take_last max_admin_sessions (issued @ [?new]))"
    unfolding r using issued_sorted [OF i s(2)]
    by (rule filter_take_last_sorted [where d = now]) (simp_all add: new_session_def session_ttl_sec_def max_admin_sessions_def)
  moreover have "list_all2 (same_login sha) (issued @ [?new]) (logins @ [(now, uuid)])"
    using i by (auto simp: same_login_def new_session_def intro!: list_all2_appendI)
  moreover have "sorted (map fst (logins @ [(now, uuid)]) @ [now])" using s by (auto simp: sorted_append)
  ultimately show ?thesis
    unfolding sessions_ok_def create_admin_session_def Let_def by (auto intro!: exI [of _ "issued @ [?new]"])
qed

lemma sessions_ok_revoke: "sessions_ok sha c [] (revoke_all_admin_sessions m)"
  by (simp add: sessions_ok_def revoke_all_admin_sessions_def)

lemma sessions_ok_run:
  "sessions_ok sha c logins m \<Longrightarrow> sorted (c # login_times es) \<Longrightarrow>
   \<exists>c'. sessions_ok sha c' (logins_since logins es) (fold (session_step sha) es m) \<and> c' \<in> set (c # login_times es)"
proof (induction es arbitrary: c logins m)
  case (Cons e es)
  show ?case
  proof (cases e)
    case (Login now uuid provider subject)
    from Cons.IH [OF sessions_ok_login [OF Cons.prems(1), of now uuid provider subject]] Cons.prems(2) Login
    show ?thesis by auto
  next
    case Revoke_all
    from Cons.IH [OF sessions_ok_revoke [of sha c m]] Cons.prems(2) Revoke_all show ?thesis by auto
  qed
qed auto

lemma find_not_None: "find P xs \<noteq> None \<longleftrightarrow> (\<exists>x \<in> set xs. P x)"
  by (auto simp: find_None_iff)

lemma validate_iff:
  "js_trim u = u \<Longrightarrow> u \<noteq> [] \<Longrightarrow>
   validate_admin_session sha now u m \<noteq> None \<longleftrightarrow>
     (\<exists>s \<in> set (filter (\<lambda>s. se_expires s > now) (read_sessions now m)). se_hash s \<noteq> [] \<and> session_matches sha u s)"
proof -
  assume u: "js_trim u = u" "u \<noteq> []"
  let ?Q = "\<lambda>s. se_expires s > now \<and> se_hash s \<noteq> [] \<and> session_matches sha u s"
  have "validate_admin_session sha now u m \<noteq> None \<longleftrightarrow> find ?Q (read_sessions now m) \<noteq> None" using u by (simp add: validate_admin_session_def)
  then show ?thesis unfolding find_not_None by auto
qed

lemma issued_take_last: "list_all2 (same_login sha) issued logins \<Longrightarrow> list_all2 (same_login sha) (take_last k issued) (take_last k logins)"
  unfolding take_last_def using list_all2_dropI list_all2_lengthD by metis

lemma list_all2_left: "list_all2 P xs ys \<Longrightarrow> x \<in> set xs \<Longrightarrow> \<exists>y \<in> set ys. P x y"
  by (induction rule: list_all2_induct) auto

lemma list_all2_right: "list_all2 P xs ys \<Longrightarrow> y \<in> set ys \<Longrightarrow> \<exists>x \<in> set xs. P x y"
  by (induction rule: list_all2_induct) auto

text \<open>C18: After any run of logins and revocations a session is valid exactly when its login was one of the last five since the last
  revocation and is less than a day old.\<close>

theorem sessions_are_the_last_five:
  assumes "sorted (login_times es @ [now])" "js_trim u = u" "u \<noteq> []" "inj_on sha (insert u (snd ` set (logins_since [] es)))"
  shows "validate_admin_session sha now u (fold (session_step sha) es empty_meta) \<noteq> None \<longleftrightarrow>
    (\<exists>t. (t, u) \<in> set (take_last max_admin_sessions (logins_since [] es)) \<and> now < t + session_ttl_sec)"
proof -
  let ?m = "fold (session_step sha) es empty_meta" and ?L = "take_last max_admin_sessions (logins_since [] es)"
  define c where "c = hd (login_times es @ [now])"
  have "sorted (c # login_times es)" using assms(1) by (cases "login_times es") (auto simp: c_def sorted_append)
  moreover have "sessions_ok sha c [] empty_meta" by (simp add: sessions_ok_def empty_meta_def)
  ultimately obtain c' where ok: "sessions_ok sha c' (logins_since [] es) ?m" and c': "c' \<in> set (c # login_times es)"
    using sessions_ok_run by blast
  have "c' \<le> now" using c' assms(1) by (cases "login_times es") (auto simp: c_def sorted_append)
  from sessions_ok_read [OF ok this] obtain issued where i: "list_all2 (same_login sha) issued (logins_since [] es)"
    and r: "filter (\<lambda>s. se_expires s > now) (read_sessions now ?m) = filter (\<lambda>s. se_expires s > now) (take_last max_admin_sessions issued)"
    by blast
  have l: "list_all2 (same_login sha) (take_last max_admin_sessions issued) ?L" by (rule issued_take_last [OF i])
  have same: "sha v = sha u \<longleftrightarrow> v = u" if "(t, v) \<in> set ?L" for t v
  proof
    assume eq: "sha v = sha u"
    have "(t, v) \<in> set (logins_since [] es)" using that set_take_last by fast
    then have "v \<in> snd ` set (logins_since [] es)" by (rule image_eqI [rotated]) simp
    then show "v = u" using inj_onD [OF assms(4) eq] by blast
  qed simp
  have match: "session_matches sha u s \<and> se_hash s \<noteq> [] \<longleftrightarrow> sha v = sha u" if "same_login sha s (t, v)" for s t v
    using that by (auto simp: same_login_def session_matches_def starts_with_def session_prefix_def)
  show ?thesis
    unfolding validate_iff [OF assms(2,3)] r
  proof
    assume "\<exists>s \<in> set (filter (\<lambda>s. se_expires s > now) (take_last max_admin_sessions issued)). se_hash s \<noteq> [] \<and> session_matches sha u s"
    then obtain s where s: "s \<in> set (take_last max_admin_sessions issued)" "se_expires s > now" "se_hash s \<noteq> []" "session_matches sha u s" by auto
    then obtain tv where tv: "tv \<in> set ?L" "same_login sha s tv" using list_all2_left [OF l] by blast
    obtain t v where x: "tv = (t, v)" by (cases tv)
    have "v = u" using match [of s t v] same [of t v] s tv x by simp
    with s(2) tv x show "\<exists>t. (t, u) \<in> set ?L \<and> now < t + session_ttl_sec" by (auto simp: same_login_def)
  next
    assume "\<exists>t. (t, u) \<in> set ?L \<and> now < t + session_ttl_sec"
    then obtain t where t: "(t, u) \<in> set ?L" "now < t + session_ttl_sec" by blast
    then obtain s where s: "s \<in> set (take_last max_admin_sessions issued)" "same_login sha s (t, u)"
      using list_all2_right [OF l] by blast
    with t match [OF s(2)] show "\<exists>s \<in> set (filter (\<lambda>s. se_expires s > now) (take_last max_admin_sessions issued)). se_hash s \<noteq> [] \<and> session_matches sha u s"
      by (auto simp: same_login_def)
  qed
qed

text \<open>Six logins: the first session is pushed out, the second one is still valid\<close>

lemma sessions_are_the_last_five_witness:
  "let es = Revoke_all # map (\<lambda>(t, u). Login t u [] []) (zip [1, 2, 3, 4, 5, 6] [''a'', ''b'', ''c'', ''d'', ''e'', ''f'']);
       m = fold (session_step (\<lambda>x. x)) es empty_meta
   in validate_admin_session (\<lambda>x. x) 10 ''a'' m = None \<and> validate_admin_session (\<lambda>x. x) 10 ''b'' m \<noteq> None"
proof -
  let ?es = "Revoke_all # map (\<lambda>(t, u). Login t u [] []) (zip [1, 2, 3, 4, 5, 6] [''a'', ''b'', ''c'', ''d'', ''e'', ''f''])"
  define m where "m = fold (session_step (\<lambda>x. x)) ?es empty_meta"
  have trim: "js_trim ''a'' = ''a''" "js_trim ''b'' = ''b''" by code_simp+
  have l: "logins_since [] ?es = zip [1, 2, 3, 4, 5, 6] [''a'', ''b'', ''c'', ''d'', ''e'', ''f'']" by simp
  have five: "take_last max_admin_sessions (logins_since [] ?es) = zip [2, 3, 4, 5, 6] [''b'', ''c'', ''d'', ''e'', ''f'']"
    unfolding l by code_simp
  have order: "sorted (login_times ?es @ [10])" by simp
  have iff: "validate_admin_session (\<lambda>x. x) 10 u m \<noteq> None \<longleftrightarrow>
      (\<exists>t. (t, u) \<in> set (zip [2, 3, 4, 5, 6] [''b'', ''c'', ''d'', ''e'', ''f'']) \<and> 10 < t + session_ttl_sec)" if "js_trim u = u" "u \<noteq> []" for u
    unfolding m_def five [symmetric] using order that by (intro sessions_are_the_last_five) auto
  have "\<not> validate_admin_session (\<lambda>x. x) 10 ''a'' m \<noteq> None" by (subst iff [OF trim(1)]) simp_all
  moreover have "validate_admin_session (\<lambda>x. x) 10 ''b'' m \<noteq> None" by (subst iff [OF trim(2)]) (simp_all add: session_ttl_sec_def)
  ultimately have "validate_admin_session (\<lambda>x. x) 10 ''a'' m = None" "validate_admin_session (\<lambda>x. x) 10 ''b'' m \<noteq> None" by blast+
  then show ?thesis unfolding Let_def m_def by blast
qed

text \<open>C36: A login that read the sessions before they were all revoked writes them back: they stay valid although the administrator
  changed the account to end them.\<close>

theorem overlapping_login_revives_sessions:
  assumes "validate_admin_session sha now u m = Some found" "length (filter (\<lambda>s. se_expires s > now) (read_sessions now m)) < max_admin_sessions"
  shows "validate_admin_session sha now u (fst (create_admin_session sha now uuid provider subject revoke_all_admin_sessions m)) = Some found \<and>
    validate_admin_session sha now u (revoke_all_admin_sessions m) = None"
proof -
  let ?P = "\<lambda>s. se_expires s > now" and ?new = "new_session sha now uuid provider subject"
  let ?Q = "\<lambda>s. se_expires s > now \<and> se_hash s \<noteq> [] \<and> session_matches sha (js_trim u) s"
  have kept: "take_last max_admin_sessions (filter ?P (read_sessions now m) @ [?new]) = filter ?P (read_sessions now m) @ [?new]"
    using assms(2) by (intro take_last_id) simp
  have ne: "js_trim u \<noteq> []" using assms(1) by (auto simp: validate_admin_session_def Let_def split: if_splits)
  have f: "find ?Q (filter (\<lambda>s. se_hash s \<noteq> []) (filter ?P xs @ ys)) = find ?Q xs" if "find ?Q xs \<noteq> None" for xs ys
    using that by (induction xs) (auto split: if_splits)
  have "find ?Q (read_sessions now m) \<noteq> None" using assms(1) ne by (auto simp: validate_admin_session_def)
  note found = f [OF this, of "[s]" for s]
  let ?m' = "fst (create_admin_session sha now uuid provider subject revoke_all_admin_sessions m)"
  have "read_sessions now ?m' = filter (\<lambda>s. se_hash s \<noteq> []) (filter ?P (read_sessions now m) @ [?new])"
    unfolding create_admin_session_def Let_def kept fst_conv by (simp add: read_sessions_def)
  then have "validate_admin_session sha now u ?m' = validate_admin_session sha now u m"
    using ne found by (simp only: validate_admin_session_def Let_def)
  moreover have "read_sessions now (revoke_all_admin_sessions m) = []" by (simp add: read_sessions_def revoke_all_admin_sessions_def meta_text_def)
  then have "validate_admin_session sha now u (revoke_all_admin_sessions m) = None" by (simp add: validate_admin_session_def Let_def)
  ultimately show ?thesis using assms(1) by simp
qed

lemma overlapping_login_revives_sessions_witness:
  "validate_admin_session (\<lambda>x. x) 10 ''a''
     (fst (create_admin_session (\<lambda>x. x) 10 ''b'' [] [] revoke_all_admin_sessions
        (fst (create_admin_session (\<lambda>x. x) 1 ''a'' [] [] (\<lambda>m. m) empty_meta)))) = Some (86401, ''password'', ''admin'')"
proof -
  let ?m = "fst (create_admin_session (\<lambda>x. x) 1 ''a'' [] [] (\<lambda>m. m) empty_meta)"
  have "validate_admin_session (\<lambda>x. x) 10 ''a'' ?m = Some (86401, ''password'', ''admin'')" by code_simp
  moreover have "length (filter (\<lambda>s. se_expires s > 10) (read_sessions 10 ?m)) < max_admin_sessions" by code_simp
  ultimately show ?thesis
    using overlapping_login_revives_sessions [where sha = "\<lambda>x. x" and now = 10 and u = "''a''" and m = ?m and uuid = "''b''" and provider = "[]" and subject = "[]"]
    by blast
qed

section \<open>The second factor\<close>

datatype totp_request =
    Setup bytes bytes
  | Verify int bytes string string
  | Disable int string
  | Check_code int bytes string
  | Migrate bytes bytes

fun totp_step ::
  "(string \<Rightarrow> string) \<Rightarrow> (bytes \<Rightarrow> bytes \<Rightarrow> bytes) \<Rightarrow> aead_enc \<Rightarrow> aead_dec \<Rightarrow> jsval \<Rightarrow> totp_request \<Rightarrow> admin_meta \<Rightarrow> admin_meta" where
  "totp_step sha hmac enc dec env (Setup random_bytes iv) m = fst (setup_totp enc env random_bytes iv m)"
| "totp_step sha hmac enc dec env (Verify now_ms iv uuid code) m = fst (verify_totp sha hmac enc dec env now_ms iv uuid (\<lambda>m. m) code m)"
| "totp_step sha hmac enc dec env (Disable now_ms code) m = fst (disable_totp hmac dec env now_ms code m)"
| "totp_step sha hmac enc dec env (Check_code now_ms iv code) m = fst (verify_active_totp hmac enc dec env now_ms iv code m)"
| "totp_step sha hmac enc dec env (Migrate iv iv') m = fst (migrate_totp_encryption enc dec env iv iv' m)"

fun nonces_ok :: "totp_request \<Rightarrow> bool" where
  "nonces_ok (Setup random_bytes iv) \<longleftrightarrow> length iv = 12"
| "nonces_ok (Verify now_ms iv uuid code) \<longleftrightarrow> length iv = 12"
| "nonces_ok (Disable now_ms code) \<longleftrightarrow> True"
| "nonces_ok (Check_code now_ms iv code) \<longleftrightarrow> length iv = 12"
| "nonces_ok (Migrate iv iv') \<longleftrightarrow> length iv = 12 \<and> length iv' = 12"

fun disables :: "(bytes \<Rightarrow> bytes \<Rightarrow> bytes) \<Rightarrow> string \<Rightarrow> totp_request \<Rightarrow> bool" where
  "disables hmac secret (Disable now_ms code) \<longleftrightarrow> code_format code \<and> verify_code hmac now_ms secret code"
| "disables hmac secret _ \<longleftrightarrow> False"

definition active_secret :: "aead_dec \<Rightarrow> jsval \<Rightarrow> admin_meta \<Rightarrow> string option" where
  "active_secret dec env m = (case meta_text (am_secret m) of None \<Rightarrow> None | Some t \<Rightarrow> map_option fst (read_stored_secret dec env t))"

lemma active_secret_others [simp]:
  "active_secret dec env (m\<lparr> am_pending := p \<rparr>) = active_secret dec env m"
  "active_secret dec env (fst (create_admin_session sha now uuid provider subject (\<lambda>m. m) m)) = active_secret dec env m"
  by (simp_all add: active_secret_def create_admin_session_def Let_def)

lemma read_sealed:
  assumes "sealing enc dec" "length iv = 12" "seal_secret enc env iv [] secret = Some t"
  shows "read_stored_secret dec env t = Some (secret, False)" "meta_text (Some t) = Some t"
proof -
  from open_seal [OF assms] have o: "starts_with secret_prefix t" "open_payload dec env [] (drop (length secret_prefix) t) = Some (secret, False)"
    by (auto simp: open_secret_def)
  from sealed_trim [OF assms(3)] have "js_trim t = t" "t \<noteq> []" by auto
  with o show "read_stored_secret dec env t = Some (secret, False)" "meta_text (Some t) = Some t"
    by (auto simp: read_stored_secret_def meta_text_def split: list.split)
qed

lemma active_secret_sealed:
  "sealing enc dec \<Longrightarrow> length iv = 12 \<Longrightarrow> seal_secret enc env iv [] secret = Some t \<Longrightarrow> am_secret m' = Some t \<Longrightarrow> active_secret dec env m' = Some secret"
  using read_sealed by (simp add: active_secret_def)

lemma totp_step_keeps:
  assumes "sealing enc dec" "active_secret dec env m = Some secret" "nonces_ok r" "\<not> disables hmac secret r"
  shows "active_secret dec env (totp_step sha hmac enc dec env r m) = Some secret"
proof -
  obtain stored old where s: "meta_text (am_secret m) = Some stored" "read_stored_secret dec env stored = Some (secret, old)"
    using assms(2) by (auto simp: active_secret_def split: option.splits)
  have on: "totp_enabled m" by (simp add: totp_enabled_def s)
  note sealed = active_secret_sealed [OF assms(1)]
  show ?thesis
  proof (cases r)
    case (Setup b iv)
    with assms(2) on show ?thesis by (simp add: setup_totp_def)
  next
    case (Verify now_ms iv uuid code)
    with assms on s show ?thesis
        by (auto simp: verify_totp_def split_beta split: option.split intro!: sealed)
  next
    case (Disable now_ms code)
    with assms on s show ?thesis by (auto simp: disable_totp_def)
  next
    case (Check_code now_ms iv code)
    with assms on s show ?thesis by (auto simp: verify_active_totp_def Let_def split: option.splits intro!: sealed)
  next
    case (Migrate iv iv')
    have "active_secret dec env (m\<lparr> am_secret := active \<rparr>) = Some secret"
      if "primary_material_of env \<noteq> []" "migrate_secret enc dec env iv (am_secret m) = Some (active, seen, n)" for active seen n
    proof (cases old)
      case True
      note primary = that(1)
      obtain t where "seal_secret enc env iv [] secret = Some t" by (cases "seal_secret enc env iv [] secret") (use primary in \<open>auto simp: seal_secret_def split: if_splits\<close>)
      with that(2) True s sealed [of iv env secret t] assms(3) Migrate show ?thesis by (auto simp: migrate_secret_def)
    next
      case False
      with that(2) s assms(2) show ?thesis by (auto simp: migrate_secret_def)
    qed
    with Migrate assms(2) show ?thesis by (auto simp: migrate_totp_encryption_def Let_def split: option.splits prod.splits)
  qed
qed



end
