(* ===== verification/AdminLogin.thy ===== *)
theory AdminLogin
  imports AdminSessions RateLimit
begin

text \<open>
  \<open>admin-auth.js\<close>: the credentials of the administrator, the login with a password, the change of the account and the
  login over GitHub with its pending states and tickets.

  The cryptography and the environment are one record of parameters. A request that fails answers \<open>Inl\<close> its status.
  Requests of GitHub are arguments: \<open>profile\<close> is the login name it answered with. Every \<open>gap\<close> is what other requests do to
  the rows while the request waits between a read and a write.
\<close>

record admin_params =
  ap_sha :: "string \<Rightarrow> string"
  ap_hmac :: "bytes \<Rightarrow> bytes \<Rightarrow> bytes"
  ap_enc :: aead_enc
  ap_dec :: aead_dec
  ap_pbkdf :: "string \<Rightarrow> bytes \<Rightarrow> int \<Rightarrow> bytes"
  ap_env :: jsval

section \<open>Credentials\<close>

definition password_algorithm :: string where "password_algorithm = ''pbkdf2-sha256''"
definition password_failure_limit :: int where "password_failure_limit = 10"
definition password_failure_window_sec :: int where "password_failure_window_sec = 15 * 60"
definition password_iterations_default :: int where "password_iterations_default = 50000"
definition password_iterations_min :: int where "password_iterations_min = 50000"
definition password_iterations_max :: int where "password_iterations_max = 1000000"

definition ascii_upper :: "char \<Rightarrow> bool" where "ascii_upper c \<longleftrightarrow> of_char c \<in> {65 .. 90 :: nat}"
definition ascii_lower :: "char \<Rightarrow> bool" where "ascii_lower c \<longleftrightarrow> of_char c \<in> {97 .. 122 :: nat}"
definition ascii_alnum :: "char \<Rightarrow> bool" where "ascii_alnum c \<longleftrightarrow> ascii_upper c \<or> ascii_lower c \<or> is_digit c"

definition normalize_username :: "string \<Rightarrow> string" where
  "normalize_username v =
     (let u = js_trim v in
      if 3 \<le> length u \<and> length u \<le> 64 \<and> list_all (\<lambda>c. ascii_alnum c \<or> c \<in> set ''._@-'') u then u else [])"

text \<open>\<open>validateNewCredentials\<close>: the status it throws\<close>

definition validate_new_credentials :: "string \<Rightarrow> string \<Rightarrow> string \<Rightarrow> int option" where
  "validate_new_credentials username password confirmation =
     (if username = [] then Some 400
      else if length password < 9 \<or> 256 < length password \<or> \<not> list_ex ascii_lower password \<or> \<not> list_ex ascii_upper password
              \<or> \<not> list_ex is_digit password \<or> \<not> list_ex (\<lambda>c. \<not> ascii_alnum c) password then Some 400
      else if password \<noteq> confirmation then Some 400
      else if constant_time_equal (js_lower username) (js_lower password) then Some 400
      else None)"

definition password_iterations :: "jsval \<Rightarrow> int" where
  "password_iterations env =
     (case js_floor (js_Number (js_coalesce (js_get env ''ADMIN_PASSWORD_ITERATIONS'') (JInt 0))) of
        Fin q \<Rightarrow> if rat_of_int password_iterations_min \<le> q \<and> q \<le> rat_of_int password_iterations_max then \<lfloor>q\<rfloor> else password_iterations_default
      | _ \<Rightarrow> password_iterations_default)"

definition create_admin_credential_record :: "admin_params \<Rightarrow> int \<Rightarrow> bytes \<Rightarrow> string \<Rightarrow> string \<Rightarrow> int + admin_credential" where
  "create_admin_credential_record ps now salt username password =
     (let u = normalize_username username in
      case validate_new_credentials u password password of
        Some status \<Rightarrow> Inl status
      | None \<Rightarrow>
          Inr \<lparr> cr_version = 1, cr_username = u, cr_algorithm = password_algorithm, cr_iterations = password_iterations (ap_env ps),
                cr_salt = bytes_to_base64 salt,
                cr_hash = bytes_to_base64 (ap_pbkdf ps password salt (password_iterations (ap_env ps))), cr_updated = now \<rparr>)"

text \<open>The texts of \<open>/^[A-Za-z0-9+/]{n,}={0,2}$/\<close>\<close>

definition base64_text :: "nat \<Rightarrow> string \<Rightarrow> bool" where
  "base64_text n s =
     list_ex (\<lambda>k. k \<le> length s \<and> n \<le> length s - k \<and> list_all (\<lambda>c. ascii_alnum c \<or> c \<in> set ''+/'') (take (length s - k) s)
       \<and> list_all (\<lambda>c. c = CHR ''='') (drop (length s - k) s)) [0, 1, 2]"

definition valid_credential_record :: "admin_credential \<Rightarrow> bool" where
  "valid_credential_record r \<longleftrightarrow>
     cr_version r = 1 \<and> cr_algorithm r = password_algorithm \<and> normalize_username (cr_username r) = cr_username r \<and>
     password_iterations_min \<le> cr_iterations r \<and> cr_iterations r \<le> password_iterations_max \<and>
     base64_text 20 (cr_salt r) \<and> base64_text 40 (cr_hash r)"

datatype credentials = From_db admin_credential | From_env string string

definition env_admin_username :: "jsval \<Rightarrow> string" where
  "env_admin_username env =
     (let u = js_trim (js_String (js_or (js_get env ''ADMIN_USERNAME'') (Str ''admin''))) in if u = [] then ''admin'' else u)"

definition env_admin_password :: "jsval \<Rightarrow> string" where
  "env_admin_password env = js_String (js_or (js_get env ''ADMIN_PASSWORD'') (js_or (js_get env ''ADMIN_TOKEN'') (Str [])))"

definition resolve_admin_credentials :: "admin_params \<Rightarrow> admin_meta \<Rightarrow> credentials option" where
  "resolve_admin_credentials ps m =
     (let from_env = (if env_admin_password (ap_env ps) = [] then None
                      else Some (From_env (env_admin_username (ap_env ps)) (env_admin_password (ap_env ps))))
      in case am_credentials m of
           Some r \<Rightarrow> if valid_credential_record r then Some (From_db r) else from_env
         | None \<Rightarrow> from_env)"

fun username_of :: "credentials \<Rightarrow> string" where
  "username_of (From_db r) = cr_username r"
| "username_of (From_env u p) = u"

fun verify_password :: "admin_params \<Rightarrow> string \<Rightarrow> credentials \<Rightarrow> bool" where
  "verify_password ps password (From_db r) =
     (case (base64_to_bytes (cr_salt r), base64_to_bytes (cr_hash r)) of
        (Some salt, Some expected) \<Rightarrow>
          constant_time_equal (bytes_to_base64 (ap_pbkdf ps password salt (cr_iterations r))) (bytes_to_base64 expected)
      | _ \<Rightarrow> False)"
| "verify_password ps password (From_env u p) \<longleftrightarrow> p \<noteq> [] \<and> constant_time_equal password p"

text \<open>\<open>upgradePasswordHashIfNeeded\<close>: a record that cannot be made is left\<close>

fun upgrade_password_hash :: "admin_params \<Rightarrow> int \<Rightarrow> bytes \<Rightarrow> credentials \<Rightarrow> string \<Rightarrow> admin_meta \<Rightarrow> admin_meta" where
  "upgrade_password_hash ps now salt (From_db r) password m =
     (if cr_iterations r \<le> 0 \<or> password_iterations (ap_env ps) \<le> cr_iterations r then m
      else case create_admin_credential_record ps now salt (cr_username r) password of
             Inl _ \<Rightarrow> m
           | Inr new \<Rightarrow> m\<lparr> am_credentials := Some new \<rparr>)"
| "upgrade_password_hash ps now salt (From_env u p) password m = m"

section \<open>Login with a password\<close>

datatype login_reply = Totp_needed | Session_opened string int

definition password_failure_key :: "admin_params \<Rightarrow> string \<Rightarrow> string" where
  "password_failure_key ps username = ''login-account:'' @ ap_sha ps (js_lower (normalize_username username))"

definition credentials_match :: "admin_params \<Rightarrow> string \<Rightarrow> string \<Rightarrow> admin_meta \<Rightarrow> bool" where
  "credentials_match ps username password m =
     (case resolve_admin_credentials ps m of
        None \<Rightarrow> False
      | Some c \<Rightarrow> constant_time_equal username (username_of c) \<and> verify_password ps password c)"

text \<open>The second factor of a login: go on, ask for a code, or an error\<close>

datatype factor = Passed | Code_needed | Rejected int

definition second_factor :: "admin_params \<Rightarrow> int \<Rightarrow> bytes \<Rightarrow> string \<Rightarrow> admin_meta \<Rightarrow> admin_meta \<times> factor" where
  "second_factor ps now_ms iv code m =
     (if \<not> totp_enabled m then (m, Passed)
      else if js_trim code = [] then (m, Code_needed)
      else case verify_active_totp (ap_hmac ps) (ap_enc ps) (ap_dec ps) (ap_env ps) now_ms iv (js_trim code) m of
             (m', Some True) \<Rightarrow> (m', Passed)
           | (m', Some False) \<Rightarrow> (m', Rejected 401)
           | (m', None) \<Rightarrow> (m', Rejected 500))"

definition password_login ::
  "admin_params \<Rightarrow> bool \<Rightarrow> int \<Rightarrow> bytes \<Rightarrow> bytes \<Rightarrow> string \<Rightarrow> (admin_meta \<Rightarrow> admin_meta) \<Rightarrow> string \<Rightarrow> string \<Rightarrow> string \<Rightarrow>
   limiter \<times> admin_meta \<Rightarrow> (limiter \<times> admin_meta) \<times> (int + login_reply)" where
  "password_login ps up now_ms iv salt uuid gap username_field password code = (\<lambda>(l, m).
     let username = js_trim username_field; now = now_ms div 1000; key = password_failure_key ps username in
     if \<not> credentials_match ps username password m
     then (case rate_limit_status_d1 up now key password_failure_limit password_failure_window_sec l of (l1, status) \<Rightarrow>
             if li_limited status then ((l1, m), Inl 429)
             else (case rate_limit_d1 up now key password_failure_limit password_failure_window_sec l1 of
                     (l2, allowed) \<Rightarrow> ((l2, m), Inl (if allowed then 401 else 429))))
     else (case second_factor ps now_ms iv code m of
             (m1, Code_needed) \<Rightarrow> ((l, m1), Inr Totp_needed)
           | (m1, Rejected status) \<Rightarrow> ((l, m1), Inl status)
           | (m1, Passed) \<Rightarrow>
               (let m2 = (case resolve_admin_credentials ps m of Some c \<Rightarrow> upgrade_password_hash ps now salt c password m1 | None \<Rightarrow> m1)
                in case create_admin_session (ap_sha ps) now uuid ''password'' username gap m2 of
                     (m3, session, expires) \<Rightarrow> ((fst (clear_rate_limit_d1 up key l), m3), Inr (Session_opened session expires)))))"

section \<open>The pending states and tickets of the login over GitHub\<close>

definition oauth_state_ttl_sec :: int where "oauth_state_ttl_sec = 600"
definition oauth_ticket_ttl_sec :: int where "oauth_ticket_ttl_sec = 300"
definition max_pending_oauth :: nat where "max_pending_oauth = 10"

datatype pending_slot = States | Tickets

fun get_slot :: "pending_slot \<Rightarrow> admin_meta \<Rightarrow> pending_token stored_list option" where
  "get_slot States m = am_states m"
| "get_slot Tickets m = am_tickets m"

fun put_slot :: "pending_slot \<Rightarrow> pending_token list \<Rightarrow> admin_meta \<Rightarrow> admin_meta" where
  "put_slot States l m = m\<lparr> am_states := Some (Entries l) \<rparr>"
| "put_slot Tickets l m = m\<lparr> am_tickets := Some (Entries l) \<rparr>"

definition pending_of :: "pending_token stored_list option \<Rightarrow> pending_token list" where
  "pending_of raw = (case raw of Some (Entries l) \<Rightarrow> filter (\<lambda>e. pt_hash e \<noteq> []) l | _ \<Rightarrow> [])"

definition write_pending :: "pending_slot \<Rightarrow> pending_token list \<Rightarrow> admin_meta \<Rightarrow> admin_meta" where
  "write_pending slot entries = put_slot slot (take_last max_pending_oauth entries)"

text \<open>A new state or ticket: the unexpired ones are read, others act, the list is written\<close>

definition issue_pending :: "int \<Rightarrow> pending_slot \<Rightarrow> pending_token \<Rightarrow> (admin_meta \<Rightarrow> admin_meta) \<Rightarrow> admin_meta \<Rightarrow> admin_meta" where
  "issue_pending now slot new gap m =
     (let entries = take_last (max_pending_oauth - 1) (filter (\<lambda>e. pt_expires e > now) (pending_of (get_slot slot m)))
      in write_pending slot (entries @ [new]) (gap m))"

definition find_pending_token :: "admin_params \<Rightarrow> int \<Rightarrow> pending_slot \<Rightarrow> string \<Rightarrow> admin_meta \<Rightarrow> pending_token option" where
  "find_pending_token ps now slot token m =
     find (\<lambda>e. pt_expires e > now \<and> constant_time_equal (pt_hash e) (ap_sha ps token)) (pending_of (get_slot slot m))"

fun without_first :: "('a \<Rightarrow> bool) \<Rightarrow> 'a list \<Rightarrow> 'a list" where
  "without_first P [] = []"
| "without_first P (x # xs) = (if P x then xs else x # without_first P xs)"

text \<open>\<open>consumePendingToken\<close>: an attempt for each clock and gap; the list is written only when it still is the one that was read\<close>

fun consume_pending_token ::
  "admin_params \<Rightarrow> pending_slot \<Rightarrow> string \<Rightarrow> (int \<times> (admin_meta \<Rightarrow> admin_meta)) list \<Rightarrow> admin_meta \<Rightarrow> admin_meta \<times> pending_token option" where
  "consume_pending_token ps slot token [] m = (m, None)"
| "consume_pending_token ps slot token ((now, gap) # attempts) m =
     (let raw = get_slot slot m;
          unexpired = filter (\<lambda>e. \<not> pt_expires e \<le> now) (pending_of raw);
          is_it = (\<lambda>e. constant_time_equal (pt_hash e) (ap_sha ps token))
      in case find is_it unexpired of
           None \<Rightarrow> (m, None)
         | Some e \<Rightarrow>
             (let m' = gap m in
              if get_slot slot m' = raw then (put_slot slot (take_last max_pending_oauth (without_first is_it unexpired)) m', Some e)
              else consume_pending_token ps slot token attempts m'))"

definition allowed_github_users :: "jsval \<Rightarrow> string list" where
  "allowed_github_users env =
     take 50 (filter (\<lambda>u. u \<noteq> []) (map (\<lambda>u. js_lower (js_trim u)) (js_split (CHR '','') (str_or_empty (js_get env ''GITHUB_OAUTH_ALLOWED_USERS'')))))"

definition github_enabled :: "jsval \<Rightarrow> bool" where
  "github_enabled env \<longleftrightarrow>
     env_text env ''GITHUB_OAUTH_CLIENT_ID'' \<noteq> [] \<and> env_text env ''GITHUB_OAUTH_CLIENT_SECRET'' \<noteq> [] \<and> allowed_github_users env \<noteq> []"

definition start_github_oauth :: "admin_params \<Rightarrow> int \<Rightarrow> string \<Rightarrow> (admin_meta \<Rightarrow> admin_meta) \<Rightarrow> admin_meta \<Rightarrow> admin_meta \<times> (int + string)" where
  "start_github_oauth ps now state gap m =
     (if \<not> github_enabled (ap_env ps) then (m, Inl 404)
      else (issue_pending now States \<lparr> pt_hash = ap_sha ps state, pt_expires = now + oauth_state_ttl_sec, pt_subject = [] \<rparr> gap m, Inr state))"

text \<open>The callback: the error, state and code of the URL, the cookie, and the login name GitHub answers with; a ticket comes back\<close>

definition finish_github_oauth ::
  "admin_params \<Rightarrow> int \<Rightarrow> (int \<times> (admin_meta \<Rightarrow> admin_meta)) list \<Rightarrow> (admin_meta \<Rightarrow> admin_meta) \<Rightarrow> string \<Rightarrow> string \<Rightarrow> string \<Rightarrow> string \<Rightarrow> string option \<Rightarrow> string \<Rightarrow>
   admin_meta \<Rightarrow> admin_meta \<times> (int + string)" where
  "finish_github_oauth ps now attempts gap error state_param code_param cookie profile ticket m =
     (let state = js_trim state_param; code = js_trim code_param in
      if \<not> github_enabled (ap_env ps) then (m, Inl 404)
      else if js_trim error \<noteq> [] then (m, Inl 401)
      else if state = [] \<or> code = [] \<or> cookie = [] \<or> \<not> constant_time_equal state cookie then (m, Inl 401)
      else case consume_pending_token ps States state attempts m of
             (m1, None) \<Rightarrow> (m1, Inl 401)
           | (m1, Some _) \<Rightarrow>
               (case profile of
                  None \<Rightarrow> (m1, Inl 502)
                | Some name \<Rightarrow>
                    let login = js_trim name in
                    if login = [] \<or> js_lower login \<notin> set (allowed_github_users (ap_env ps)) then (m1, Inl 403)
                    else (issue_pending now Tickets \<lparr> pt_hash = ap_sha ps ticket, pt_expires = now + oauth_ticket_ttl_sec, pt_subject = login \<rparr> gap m1, Inr ticket)))"

definition complete_github_oauth ::
  "admin_params \<Rightarrow> bool \<Rightarrow> int \<Rightarrow> bytes \<Rightarrow> string \<Rightarrow> (int \<times> (admin_meta \<Rightarrow> admin_meta)) list \<Rightarrow> (admin_meta \<Rightarrow> admin_meta) \<Rightarrow> string option \<Rightarrow> string \<Rightarrow> string \<Rightarrow>
   limiter \<times> admin_meta \<Rightarrow> (limiter \<times> admin_meta) \<times> (int + login_reply)" where
  "complete_github_oauth ps up now_ms iv uuid attempts gap ip ticket_field code = (\<lambda>(l, m).
     if \<not> github_enabled (ap_env ps) then ((l, m), Inl 404)
     else let ticket = js_trim ticket_field; now = now_ms div 1000;
              source = take 80 (case ip of Some (c # cs) \<Rightarrow> c # cs | _ \<Rightarrow> ''unknown'');
              (l1, allowed) = rate_limit_d1 up now (''github-ticket:'' @ ap_sha ps ticket @ '':'' @ source) 10 300 l in
          if \<not> allowed then ((l1, m), Inl 429)
          else case find_pending_token ps now Tickets ticket m of
                 None \<Rightarrow> ((l1, m), Inl 401)
               | Some entry \<Rightarrow>
                   (case second_factor ps now_ms iv code m of
                      (m1, Code_needed) \<Rightarrow> ((l1, m1), Inr Totp_needed)
                    | (m1, Rejected status) \<Rightarrow> ((l1, m1), Inl status)
                    | (m1, Passed) \<Rightarrow>
                        (case consume_pending_token ps Tickets ticket attempts m1 of
                           (m2, None) \<Rightarrow> ((l1, m2), Inl 401)
                         | (m2, Some _) \<Rightarrow>
                             (case create_admin_session (ap_sha ps) now uuid ''github'' (js_trim (pt_subject entry)) gap m2 of
                                (m3, session, expires) \<Rightarrow> ((l1, m3), Inr (Session_opened session expires))))))"

section \<open>Changing the account\<close>

record account_change =
  ac_current_password :: string
  ac_current_username :: string
  ac_change_username :: "bool option"
  ac_username :: string
  ac_new_password :: string
  ac_confirm :: string
  ac_code :: string

text \<open>The checks in their order\<close>

definition account_refusal :: "admin_params \<Rightarrow> account_change \<Rightarrow> admin_meta \<Rightarrow> int option" where
  "account_refusal ps b m =
     (let asked = normalize_username (ac_current_username b); username = normalize_username (ac_username b) in
      case resolve_admin_credentials ps m of
        None \<Rightarrow> Some 401
      | Some current \<Rightarrow>
          if \<not> verify_password ps (ac_current_password b) current then Some 401
          else if asked \<noteq> [] \<and> asked \<noteq> username_of current then Some 409
          else if ac_change_username b = Some True \<and> username = username_of current then Some 400
          else if ac_change_username b = Some False \<and> username \<noteq> username_of current then Some 400
          else validate_new_credentials username (ac_new_password b) (ac_confirm b))"

definition same_record :: "admin_credential \<Rightarrow> admin_credential \<Rightarrow> bool" where
  "same_record stored record_made \<longleftrightarrow>
     cr_username stored = cr_username record_made \<and> cr_algorithm stored = cr_algorithm record_made \<and> cr_iterations stored = cr_iterations record_made \<and>
     constant_time_equal (cr_salt stored) (cr_salt record_made) \<and> constant_time_equal (cr_hash stored) (cr_hash record_made)"

definition forget_logins :: "admin_meta \<Rightarrow> admin_meta" where
  "forget_logins m = write_pending Tickets [] (write_pending States [] (revoke_all_admin_sessions m))"

definition update_admin_account ::
  "admin_params \<Rightarrow> int \<Rightarrow> bytes \<Rightarrow> bytes \<Rightarrow> (admin_meta \<Rightarrow> admin_meta) \<Rightarrow> account_change \<Rightarrow> admin_meta \<Rightarrow> admin_meta \<times> (int + string)" where
  "update_admin_account ps now_ms iv salt gap b m =
     (let username = normalize_username (ac_username b) in
      case account_refusal ps b m of
        Some status \<Rightarrow> (m, Inl status)
      | None \<Rightarrow>
          (let (m1, valid) = (if totp_enabled m then verify_active_totp (ap_hmac ps) (ap_enc ps) (ap_dec ps) (ap_env ps) now_ms iv (js_trim (ac_code b)) m
                              else (m, Some True)) in
           case valid of
             None \<Rightarrow> (m1, Inl 500)
           | Some False \<Rightarrow> (m1, Inl 401)
           | Some True \<Rightarrow>
               (case create_admin_credential_record ps (now_ms div 1000) salt username (ac_new_password b) of
                  Inl status \<Rightarrow> (m1, Inl status)
                | Inr new \<Rightarrow>
                    let m2 = gap (m1\<lparr> am_credentials := Some new \<rparr>) in
                    if (case resolve_admin_credentials ps m2 of Some (From_db r) \<Rightarrow> same_record r new | _ \<Rightarrow> False)
                    then (forget_logins m2, Inr username) else (m2, Inl 500))))"

section \<open>Both factors\<close>

definition current_code :: "admin_params \<Rightarrow> int \<Rightarrow> string \<Rightarrow> admin_meta \<Rightarrow> bool" where
  "current_code ps now_ms code m \<longleftrightarrow>
     code_format (js_trim code) \<and>
     (case active_secret (ap_dec ps) (ap_env ps) m of Some secret \<Rightarrow> verify_code (ap_hmac ps) now_ms secret (js_trim code) | None \<Rightarrow> False)"

lemma code_format_nonempty: "code_format c \<Longrightarrow> c \<noteq> []"
  by (auto simp: code_format_def)

lemma verify_active_totp_iff:
  "snd (verify_active_totp hmac enc dec env now_ms iv (js_trim code) m) = Some True \<longleftrightarrow>
   code_format (js_trim code) \<and> (case active_secret dec env m of Some secret \<Rightarrow> verify_code hmac now_ms secret (js_trim code) | None \<Rightarrow> False)"
  by (auto simp: verify_active_totp_def active_secret_def Let_def split: option.splits)

lemma second_factor_passed:
  "snd (second_factor ps now_ms iv code m) = Passed \<longleftrightarrow> (if totp_enabled m then current_code ps now_ms code m else True)"
  using verify_active_totp_iff [of "ap_hmac ps" "ap_enc ps" "ap_dec ps" "ap_env ps" now_ms iv code m] code_format_nonempty
  by (auto simp: second_factor_def current_code_def split_beta split: option.splits bool.splits prod.splits)

text \<open>C16: A login opens a session exactly when name and password are those of the administrator and, with TOTP on, the code is a
  current one of the active secret; the recorded failures have no say in it.\<close>

theorem login_needs_both_factors:
  "(\<exists>session expires. snd (password_login ps up now_ms iv salt uuid gap username password code (l, m)) = Inr (Session_opened session expires)) \<longleftrightarrow>
     credentials_match ps (js_trim username) password m \<and> (if totp_enabled m then current_code ps now_ms code m else True)"
proof -
  have "(\<exists>session expires. snd (password_login ps up now_ms iv salt uuid gap username password code (l, m)) = Inr (Session_opened session expires)) \<longleftrightarrow>
     credentials_match ps (js_trim username) password m \<and> snd (second_factor ps now_ms iv code m) = Passed"
    by (auto simp: password_login_def Let_def split: factor.splits prod.splits)
  then show ?thesis unfolding second_factor_passed .
qed

section \<open>A changed account\<close>

lemma normalize_username_idem: "normalize_username (normalize_username u) = normalize_username u"
  by (auto simp: normalize_username_def Let_def)

lemma password_iterations_bounds: "password_iterations_min \<le> password_iterations env \<and> password_iterations env \<le> password_iterations_max"
proof -
  have "password_iterations_min \<le> (case x of Fin q \<Rightarrow> if rat_of_int password_iterations_min \<le> q \<and> q \<le> rat_of_int password_iterations_max then \<lfloor>q\<rfloor> else password_iterations_default
      | _ \<Rightarrow> password_iterations_default) \<and>
    (case x of Fin q \<Rightarrow> if rat_of_int password_iterations_min \<le> q \<and> q \<le> rat_of_int password_iterations_max then \<lfloor>q\<rfloor> else password_iterations_default
      | _ \<Rightarrow> password_iterations_default) \<le> password_iterations_max" for x
    by (cases x) (auto simp: le_floor_iff floor_le_iff password_iterations_min_def password_iterations_max_def password_iterations_default_def)
  then show ?thesis unfolding password_iterations_def .
qed

lemma b64_alphabet_text: "\<forall>c \<in> set b64_alphabet. ascii_alnum c \<or> c \<in> set ''+/''"
  by (simp add: b64_alphabet_def ascii_alnum_def ascii_upper_def ascii_lower_def is_digit_def)

lemma base64_text_bytes:
  assumes "n + 2 \<le> 4 * ((length bs + 2) div 3)"
  shows "base64_text n (bytes_to_base64 bs)"
proof -
  let ?d = "map b64_char (b64_digits (map unat bs))" and ?p = "b64_padding (map unat bs)"
  have lens: "length ?d + length ?p = 4 * ((length bs + 2) div 3)" using b64_lengths [of "map unat bs"] by simp
  have pad: "length ?p \<le> 2" "\<forall>c \<in> set ?p. c = CHR ''=''" using b64_padding_cases [of "map unat bs"] by auto
  have "\<forall>d \<in> set (b64_digits (map unat bs)). d < 64" using unsigned_less [where 'b = 8] by (intro b64_digits_bound) auto
  moreover have "length b64_alphabet = 64" by (simp add: b64_alphabet_def)
  ultimately have "\<forall>c \<in> set ?d. ascii_alnum c \<or> c \<in> set ''+/''" using b64_alphabet_text by (auto simp: b64_char_def)
  then have "list_all (\<lambda>c. ascii_alnum c \<or> c \<in> set ''+/'') ?d" by (simp add: list_all_iff)
  moreover have "list_all (\<lambda>c. c = CHR ''='') ?p" using pad by (simp add: list_all_iff)
  moreover have "length ?p \<in> set [0, 1, 2]" using b64_padding_cases [of "map unat bs"] by auto
  moreover have "n \<le> length ?d" using lens pad assms by linarith
  ultimately show ?thesis
    unfolding base64_text_def bytes_to_base64_def btoa_digits list_ex_iff by (intro bexI [of _ "length ?p"]) simp_all
qed

lemma created_record:
  assumes "create_admin_credential_record ps now salt username password = Inr r" "length salt = 16" "\<And>p s i. length (ap_pbkdf ps p s i) = 32"
  shows "valid_credential_record r" "cr_username r = normalize_username username"
    "verify_password ps pw (From_db r) \<longleftrightarrow>
       ap_pbkdf ps pw salt (password_iterations (ap_env ps)) = ap_pbkdf ps password salt (password_iterations (ap_env ps))"
proof -
  let ?h = "ap_pbkdf ps password salt (password_iterations (ap_env ps))"
  have r: "r = \<lparr> cr_version = 1, cr_username = normalize_username username, cr_algorithm = password_algorithm, cr_iterations = password_iterations (ap_env ps),
                cr_salt = bytes_to_base64 salt, cr_hash = bytes_to_base64 ?h, cr_updated = now \<rparr>"
    using assms(1) by (auto simp: create_admin_credential_record_def Let_def split: option.splits)
  have "base64_text 20 (bytes_to_base64 salt)" "base64_text 40 (bytes_to_base64 ?h)"
    using assms(2,3) by (auto intro!: base64_text_bytes)
  then show "valid_credential_record r" "cr_username r = normalize_username username"
    by (simp_all add: valid_credential_record_def r normalize_username_idem password_iterations_bounds)
  have "bytes_to_base64 x = bytes_to_base64 y \<longleftrightarrow> x = y" for x y using base64_roundtrip by (metis option.inject)
  then show "verify_password ps pw (From_db r) \<longleftrightarrow> ap_pbkdf ps pw salt (password_iterations (ap_env ps)) = ?h"
    by (simp add: r)
qed

lemma forget_logins_facts [simp]:
  "validate_admin_session sha t sid (forget_logins m) = None"
  "find_pending_token ps t slot token (forget_logins m) = None"
  "am_credentials (forget_logins m) = am_credentials m"
  by (cases slot; simp add: forget_logins_def validate_admin_session_def read_sessions_def revoke_all_admin_sessions_def write_pending_def
        meta_text_def Let_def find_pending_token_def pending_of_def)+

text \<open>C26: An account change that is answered with success needed the current password and, with TOTP on, a current code; from then on
  the new name and the new password open the door, another password only if its derived hash is the same, and no session and no
  pending state or ticket of before is left.\<close>

theorem changed_account_replaces_the_login:
  assumes "length salt = 16" "\<And>p s i. length (ap_pbkdf ps p s i) = 32"
    and "update_admin_account ps now_ms iv salt (\<lambda>m. m) b m = (m', Inr username)"
  shows "(\<exists>current. resolve_admin_credentials ps m = Some current \<and> verify_password ps (ac_current_password b) current) \<and>
    (if totp_enabled m then current_code ps now_ms (ac_code b) m else True) \<and>
    credentials_match ps username (ac_new_password b) m' \<and>
    (credentials_match ps username pw m' \<longleftrightarrow>
       ap_pbkdf ps pw salt (password_iterations (ap_env ps)) = ap_pbkdf ps (ac_new_password b) salt (password_iterations (ap_env ps))) \<and>
    validate_admin_session (ap_sha ps) t sid m' = None \<and> find_pending_token ps t slot token m' = None"
proof -
  let ?v = "if totp_enabled m then verify_active_totp (ap_hmac ps) (ap_enc ps) (ap_dec ps) (ap_env ps) now_ms iv (js_trim (ac_code b)) m else (m, Some True)"
  have refusal: "account_refusal ps b m = None" and u: "username = normalize_username (ac_username b)"
    and valid: "snd ?v = Some True"
    using assms(3) by (auto simp: update_admin_account_def Let_def split_beta split: option.splits bool.splits sum.splits if_splits)
  obtain r where r: "create_admin_credential_record ps (now_ms div 1000) salt username (ac_new_password b) = Inr r"
    and m': "m' = forget_logins ((fst ?v)\<lparr> am_credentials := Some r \<rparr>)"
    using assms(3) refusal valid u
    by (auto simp: update_admin_account_def Let_def split_beta split: option.splits bool.splits sum.splits if_splits)
  note rec = created_record [OF r assms(1,2)]
  have name: "cr_username r = username" using rec(2) u by (simp add: normalize_username_idem)
  have "resolve_admin_credentials ps m' = Some (From_db r)" using rec(1) by (simp add: resolve_admin_credentials_def m' Let_def)
  then have match: "credentials_match ps username q m' \<longleftrightarrow>
      ap_pbkdf ps q salt (password_iterations (ap_env ps)) = ap_pbkdf ps (ac_new_password b) salt (password_iterations (ap_env ps))" for q
    using rec(3) name by (simp add: credentials_match_def del: verify_password.simps)
  have "\<exists>current. resolve_admin_credentials ps m = Some current \<and> verify_password ps (ac_current_password b) current"
    using refusal by (auto simp: account_refusal_def Let_def split: option.splits if_splits)
  moreover have "if totp_enabled m then current_code ps now_ms (ac_code b) m else True"
    using valid verify_active_totp_iff [of "ap_hmac ps" "ap_enc ps" "ap_dec ps" "ap_env ps" now_ms iv "ac_code b" m]
    by (auto simp: current_code_def split: if_splits)
  ultimately show ?thesis using match by (simp add: m')
qed

section \<open>Tickets are used once\<close>

record oauth_run =
  or_meta :: admin_meta
  or_issued :: "string set"
  or_used :: "string list"

text \<open>The requests on one slot, each in one piece: a new token, a consumption, anything that leaves the slot alone\<close>

inductive oauth_step :: "admin_params \<Rightarrow> pending_slot \<Rightarrow> oauth_run \<Rightarrow> oauth_run \<Rightarrow> bool" for ps slot where
  issue: "pt_hash new \<notin> or_issued s \<Longrightarrow>
    oauth_step ps slot s (s\<lparr> or_meta := issue_pending now slot new (\<lambda>m. m) (or_meta s), or_issued := insert (pt_hash new) (or_issued s) \<rparr>)"
| use: "consume_pending_token ps slot token [(now, \<lambda>m. m)] (or_meta s) = (m', Some e) \<Longrightarrow>
    oauth_step ps slot s (s\<lparr> or_meta := m', or_used := ap_sha ps token # or_used s \<rparr>)"
| other: "get_slot slot m' = get_slot slot (or_meta s) \<Longrightarrow> oauth_step ps slot s (s\<lparr> or_meta := m' \<rparr>)"

lemma get_put [simp]: "get_slot slot (put_slot slot l m) = Some (Entries l)"
  by (cases slot) simp_all

text \<open>A consumption that waits is one in a piece, at the moment of its last write\<close>

lemma put_slot_same: "get_slot slot m = get_slot slot m' \<Longrightarrow> put_slot slot l (put_slot slot l' m) = put_slot slot l m"
  by (cases slot) simp_all

lemma consume_is_atomic:
  "consume_pending_token ps slot token attempts m = (m', Some e) \<Longrightarrow>
   \<exists>now m1. consume_pending_token ps slot token [(now, \<lambda>m. m)] m1 = (m', Some e)"
proof (induction attempts arbitrary: m)
  case (Cons a attempts)
  obtain now gap where a: "a = (now, gap)" by (cases a)
  let ?is = "\<lambda>e. constant_time_equal (pt_hash e) (ap_sha ps token)"
  let ?unexpired = "filter (\<lambda>e. \<not> pt_expires e \<le> now) (pending_of (get_slot slot m))"
  show ?case
  proof (cases "find ?is ?unexpired = None \<or> get_slot slot (gap m) \<noteq> get_slot slot m")
    case True
    then have "consume_pending_token ps slot token attempts (gap m) = (m', Some e)"
      using Cons.prems a by (auto simp: Let_def split: option.splits if_splits)
    then show ?thesis by (rule Cons.IH)
  next
    case False
    then have "consume_pending_token ps slot token [(now, \<lambda>m. m)] (gap m) = (m', Some e)"
      using Cons.prems a by (auto simp: Let_def split: option.splits)
    then show ?thesis by blast
  qed
qed simp

definition oauth_ok :: "pending_slot \<Rightarrow> oauth_run \<Rightarrow> bool" where
  "oauth_ok slot s \<longleftrightarrow>
     distinct (map pt_hash (pending_of (get_slot slot (or_meta s)))) \<and> distinct (or_used s) \<and>
     pt_hash ` set (pending_of (get_slot slot (or_meta s))) \<inter> set (or_used s) = {} \<and>
     pt_hash ` set (pending_of (get_slot slot (or_meta s))) \<union> set (or_used s) \<subseteq> or_issued s"

lemma without_first_facts:
  "distinct (map f xs) \<Longrightarrow> find (\<lambda>x. f x = k) xs = Some e \<Longrightarrow>
   f e = k \<and> e \<in> set xs \<and> distinct (map f (without_first (\<lambda>x. f x = k) xs)) \<and> f ` set (without_first (\<lambda>x. f x = k) xs) = f ` set xs - {k}"
  by (induction xs) (auto split: if_splits)

lemma distinct_take_last_map: "distinct (map f xs) \<Longrightarrow> distinct (map f (take_last n xs))"
  by (metis distinct_take_last map_take_last)

lemma image_take_last: "f ` set (take_last n xs) \<subseteq> f ` set xs"
  using set_take_last by (metis image_mono)

lemma pending_of_entries [simp]: "pending_of (Some (Entries l)) = filter (\<lambda>e. pt_hash e \<noteq> []) l"
  by (simp add: pending_of_def)

lemma distinct_map_filtered: "distinct (map f xs) \<Longrightarrow> distinct (map f (filter P xs))"
  by (simp add: distinct_map_filter)

lemma add_pending:
  assumes "distinct (map f old)" "f new \<notin> f ` set old"
  shows "distinct (map f (take_last n (take_last k (filter P old) @ [new])))"
    "f ` set (take_last n (take_last k (filter P old) @ [new])) \<subseteq> insert (f new) (f ` set old)"
proof -
  have "f ` set (take_last k (filter P old)) \<subseteq> f ` set old" using image_take_last [of f k "filter P old"] by auto
  moreover have "distinct (map f (take_last k (filter P old)))" by (intro distinct_take_last_map distinct_map_filtered assms(1))
  ultimately have "distinct (map f (take_last k (filter P old) @ [new]))" "f ` set (take_last k (filter P old) @ [new]) \<subseteq> insert (f new) (f ` set old)"
    using assms(2) by auto
  then show "distinct (map f (take_last n (take_last k (filter P old) @ [new])))"
    "f ` set (take_last n (take_last k (filter P old) @ [new])) \<subseteq> insert (f new) (f ` set old)"
    by (blast intro: distinct_take_last_map) (meson \<open>f ` set (take_last k (filter P old) @ [new]) \<subseteq> insert (f new) (f ` set old)\<close> image_take_last order_trans)
qed

lemma oauth_okI:
  assumes "get_slot slot (or_meta s') = Some (Entries l)" "distinct (map pt_hash l)" "distinct (or_used s')"
    "pt_hash ` set l \<inter> set (or_used s') = {}" "pt_hash ` set l \<union> set (or_used s') \<subseteq> or_issued s'"
  shows "oauth_ok slot s'"
  unfolding oauth_ok_def assms(1) pending_of_entries using assms(2-) distinct_map_filtered [OF assms(2)] by auto

lemma token_sets:
  "N \<subseteq> insert a A \<Longrightarrow> A \<subseteq> I \<Longrightarrow> U \<subseteq> I \<Longrightarrow> A \<inter> U = {} \<Longrightarrow> a \<notin> I \<Longrightarrow> N \<inter> U = {} \<and> N \<union> U \<subseteq> insert a I"
  "N \<subseteq> A - {k} \<Longrightarrow> k \<in> A \<Longrightarrow> A \<subseteq> I \<Longrightarrow> U \<subseteq> I \<Longrightarrow> A \<inter> U = {} \<Longrightarrow> N \<inter> insert k U = {} \<and> N \<union> insert k U \<subseteq> I \<and> k \<notin> U"
  by blast+

lemma oauth_ok_issue:
  assumes "oauth_ok slot s" "pt_hash new \<notin> or_issued s"
  shows "oauth_ok slot (s\<lparr> or_meta := issue_pending now slot new (\<lambda>m. m) (or_meta s), or_issued := insert (pt_hash new) (or_issued s) \<rparr>)"
proof -
  let ?old = "pending_of (get_slot slot (or_meta s))"
  have old: "distinct (map pt_hash ?old)" "pt_hash ` set ?old \<subseteq> or_issued s" "set (or_used s) \<subseteq> or_issued s" "pt_hash ` set ?old \<inter> set (or_used s) = {}"
    "distinct (or_used s)"
    using assms(1) by (auto simp: oauth_ok_def)
  have "pt_hash new \<notin> pt_hash ` set ?old" using assms(2) old(2) by blast
  note new = add_pending [OF old(1) this, of max_pending_oauth "max_pending_oauth - 1" "\<lambda>e. pt_expires e > now"]
  define l where "l = take_last max_pending_oauth (take_last (max_pending_oauth - 1) (filter (\<lambda>e. pt_expires e > now) ?old) @ [new])"
  note l = token_sets(1) [OF new(2) [folded l_def] old(2,3,4) assms(2)]
  have "get_slot slot (issue_pending now slot new (\<lambda>m. m) (or_meta s)) = Some (Entries l)"
    by (simp add: issue_pending_def Let_def write_pending_def l_def)
  then show ?thesis
    by (intro oauth_okI [OF _ new(1) [folded l_def]]) (use l old in simp_all)
qed

lemma oauth_ok_use:
  assumes "oauth_ok slot s" "consume_pending_token ps slot token [(now, \<lambda>m. m)] (or_meta s) = (m', Some e)"
  shows "oauth_ok slot (s\<lparr> or_meta := m', or_used := ap_sha ps token # or_used s \<rparr>)"
proof -
  let ?old = "pending_of (get_slot slot (or_meta s))" and ?k = "ap_sha ps token"
  let ?live = "filter (\<lambda>e. \<not> pt_expires e \<le> now) ?old"
  let ?rest = "without_first (\<lambda>e. pt_hash e = ?k) ?live"
  have f: "find (\<lambda>e. pt_hash e = ?k) ?live = Some e" and m': "m' = put_slot slot (take_last max_pending_oauth ?rest) (or_meta s)"
    using assms(2) by (auto simp: Let_def split: option.splits)
  have old: "distinct (map pt_hash ?old)" "pt_hash ` set ?old \<subseteq> or_issued s" "set (or_used s) \<subseteq> or_issued s" "pt_hash ` set ?old \<inter> set (or_used s) = {}" "distinct (or_used s)"
    using assms(1) by (auto simp: oauth_ok_def)
  from without_first_facts [OF distinct_map_filtered [OF old(1)] f]
  have e: "pt_hash e = ?k" "e \<in> set ?old" and rest: "distinct (map pt_hash ?rest)" "pt_hash ` set ?rest \<subseteq> pt_hash ` set ?old - {?k}" by auto
  have k: "?k \<in> pt_hash ` set ?old" using e by (metis imageI)
  have sub: "pt_hash ` set (take_last max_pending_oauth ?rest) \<subseteq> pt_hash ` set ?old - {?k}"
    using rest(2) image_take_last by (rule order_trans [rotated])
  define l where "l = take_last max_pending_oauth ?rest"
  note l = token_sets(2) [OF sub [folded l_def] k old(2,3,4)]
  show ?thesis
    by (intro oauth_okI [OF _ distinct_take_last_map [OF rest(1), of max_pending_oauth, folded l_def]]) (use l old(5) in \<open>simp_all add: m' l_def [symmetric]\<close>)
qed

lemma oauth_step_ok: "oauth_step ps slot s s' \<Longrightarrow> oauth_ok slot s \<Longrightarrow> oauth_ok slot s'"
  by (induction rule: oauth_step.induct) (auto simp: oauth_ok_issue oauth_ok_use, simp_all add: oauth_ok_def)

definition no_tokens :: "admin_meta \<Rightarrow> oauth_run" where
  "no_tokens m = \<lparr> or_meta = m, or_issued = {}, or_used = [] \<rparr>"

text \<open>C25: When requests on the pending tokens do not overlap, a state or a ticket is used at most once, and only after it was issued.\<close>

theorem ticket_is_used_once:
  assumes "(oauth_step ps slot)\<^sup>*\<^sup>* (no_tokens m) s" "get_slot slot m = None"
  shows "distinct (or_used s) \<and> set (or_used s) \<subseteq> or_issued s"
proof -
  have "oauth_ok slot (no_tokens m)" using assms(2) by (simp add: oauth_ok_def no_tokens_def pending_of_def)
  with assms(1) have "oauth_ok slot s" by (induction rule: rtranclp_induct) (auto simp: oauth_step_ok)
  then show ?thesis by (simp add: oauth_ok_def)
qed

definition sample_params :: admin_params where
  "sample_params = \<lparr> ap_sha = (\<lambda>x. x), ap_hmac = (\<lambda>_ _. replicate 20 0), ap_enc = framed_enc, ap_dec = framed_dec,
     ap_pbkdf = (\<lambda>p s i. take 32 (map (\<lambda>c. of_nat (of_char c)) p @ replicate 32 0)), ap_env = Obj [] \<rparr>"

definition sample_ticket :: pending_token where
  "sample_ticket = \<lparr> pt_hash = ''t'', pt_expires = 300, pt_subject = ''admin'' \<rparr>"

lemma ticket_is_used_once_witness:
  "let m = issue_pending 0 Tickets sample_ticket (\<lambda>m. m) empty_meta; m' = fst (consume_pending_token sample_params Tickets ''t'' [(1, \<lambda>m. m)] m)
   in distinct (or_used \<lparr> or_meta = m', or_issued = {''t''}, or_used = [''t''] \<rparr>)"
proof -
  let ?m = "issue_pending 0 Tickets sample_ticket (\<lambda>m. m) empty_meta"
  let ?c = "consume_pending_token sample_params Tickets ''t'' [(1, \<lambda>m. m)] ?m"
  have "oauth_step sample_params Tickets (no_tokens empty_meta) \<lparr> or_meta = ?m, or_issued = {''t''}, or_used = [] \<rparr>"
    using oauth_step.issue [of sample_ticket "no_tokens empty_meta" sample_params Tickets 0] by (simp add: no_tokens_def sample_ticket_def)
  moreover have "snd ?c = Some sample_ticket" by code_simp
  then have "oauth_step sample_params Tickets \<lparr> or_meta = ?m, or_issued = {''t''}, or_used = [] \<rparr> \<lparr> or_meta = fst ?c, or_issued = {''t''}, or_used = [''t''] \<rparr>"
    using oauth_step.use [of sample_params Tickets "''t''" 1 "\<lparr> or_meta = ?m, or_issued = {''t''}, or_used = [] \<rparr>" "fst ?c" sample_ticket]
    by (simp add: prod_eq_iff sample_params_def)
  ultimately have "(oauth_step sample_params Tickets)\<^sup>*\<^sup>* (no_tokens empty_meta) \<lparr> or_meta = fst ?c, or_issued = {''t''}, or_used = [''t''] \<rparr>" by auto
  moreover have "get_slot Tickets empty_meta = None" by (simp add: empty_meta_def)
  ultimately show ?thesis unfolding Let_def using ticket_is_used_once by blast
qed

lemma find_snoc_other: "find P xs = Some x \<Longrightarrow> find P (xs @ ys) = Some x"
  by (induction xs) auto

text \<open>A callback that read the tickets before one of them was used writes the used one back with its own: the ticket opens a
  second session.\<close>

theorem overlapping_callback_revives_ticket:
  assumes "snd (consume_pending_token ps Tickets ticket [(now, \<lambda>m. m)] m) = Some e"
    and "length (filter (\<lambda>e. pt_expires e > now) (pending_of (get_slot Tickets m))) < max_pending_oauth"
  shows "snd (consume_pending_token ps Tickets ticket [(now, \<lambda>m. m)]
    (issue_pending now Tickets new (\<lambda>m. fst (consume_pending_token ps Tickets ticket [(now, \<lambda>m. m)] m)) m)) = Some e"
proof -
  let ?is = "\<lambda>e. pt_hash e = ap_sha ps ticket" and ?live = "filter (\<lambda>e. pt_expires e > now) (pending_of (get_slot Tickets m))"
  let ?m' = "issue_pending now Tickets new (\<lambda>m. fst (consume_pending_token ps Tickets ticket [(now, \<lambda>m. m)] m)) m"
  have f: "find ?is ?live = Some e" using assms(1) by (auto simp: Let_def not_le split: option.splits)
  have "get_slot Tickets ?m' = Some (Entries (?live @ [new]))"
    using assms(2) by (simp add: issue_pending_def Let_def write_pending_def)
  then have "filter (\<lambda>e. \<not> pt_expires e \<le> now) (pending_of (get_slot Tickets ?m')) =
      filter (\<lambda>e. \<not> pt_expires e \<le> now) (filter (\<lambda>e. pt_hash e \<noteq> []) (?live @ [new]))" by simp
  also have "\<dots> = ?live @ filter (\<lambda>e. \<not> pt_expires e \<le> now) (filter (\<lambda>e. pt_hash e \<noteq> []) [new])"
    by (auto simp: filter_id_conv pending_of_def intro!: filter_cong split: option.splits stored_list.splits)
  finally have "find ?is (filter (\<lambda>e. \<not> pt_expires e \<le> now) (pending_of (get_slot Tickets ?m'))) = Some e"
    using find_snoc_other [OF f] by simp
  then show ?thesis by (simp add: Let_def)
qed

lemma overlapping_callback_revives_ticket_witness:
  "let m = issue_pending 0 Tickets sample_ticket (\<lambda>m. m) empty_meta; other = sample_ticket\<lparr> pt_hash := ''u'' \<rparr>
   in snd (consume_pending_token sample_params Tickets ''t'' [(1, \<lambda>m. m)]
        (issue_pending 1 Tickets other (\<lambda>m. fst (consume_pending_token sample_params Tickets ''t'' [(1, \<lambda>m. m)] m)) m)) = Some sample_ticket"
proof -
  let ?m = "issue_pending 0 Tickets sample_ticket (\<lambda>m. m) empty_meta"
  have "snd (consume_pending_token sample_params Tickets ''t'' [(1, \<lambda>m. m)] ?m) = Some sample_ticket" by code_simp
  moreover have "length (filter (\<lambda>e. pt_expires e > 1) (pending_of (get_slot Tickets ?m))) < max_pending_oauth" by code_simp
  ultimately show ?thesis unfolding Let_def by (rule overlapping_callback_revives_ticket)
qed

text \<open>The first change of the account, from the password of the environment\<close>

lemma changed_account_replaces_the_login_witness:
  "let ps = sample_params\<lparr> ap_env := Obj [(''ADMIN_PASSWORD'', Str ''old'')] \<rparr>;
       b = \<lparr> ac_current_password = ''old'', ac_current_username = [], ac_change_username = None, ac_username = ''root'',
             ac_new_password = ''Secret-123'', ac_confirm = ''Secret-123'', ac_code = [] \<rparr>;
       m' = fst (update_admin_account ps 0 [] (replicate 16 0) (\<lambda>m. m) b empty_meta)
   in credentials_match ps ''root'' ''Secret-123'' m' \<and> \<not> credentials_match ps ''root'' ''old'' m'"
proof -
  let ?ps = "sample_params\<lparr> ap_env := Obj [(''ADMIN_PASSWORD'', Str ''old'')] \<rparr>"
  let ?b = "\<lparr> ac_current_password = ''old'', ac_current_username = [], ac_change_username = None, ac_username = ''root'',
             ac_new_password = ''Secret-123'', ac_confirm = ''Secret-123'', ac_code = [] \<rparr>"
  let ?r = "update_admin_account ?ps 0 [] (replicate 16 0) (\<lambda>m. m) ?b empty_meta"
  have "snd ?r = Inr ''root''" by code_simp
  then have r: "?r = (fst ?r, Inr ''root'')" by (simp add: prod_eq_iff)
  have "length (ap_pbkdf ?ps p s i) = 32" for p s i by (simp add: sample_params_def)
  note all = changed_account_replaces_the_login [OF _ this r]
  have "credentials_match ?ps ''root'' ''Secret-123'' (fst ?r)" using all by simp
  moreover have "ap_pbkdf ?ps ''old'' (replicate 16 0) n \<noteq> ap_pbkdf ?ps ''Secret-123'' (replicate 16 0) n" for n
    by (simp add: sample_params_def numeral_eq_Suc)
  then have "\<not> credentials_match ?ps ''root'' ''old'' (fst ?r)" using all by simp
  ultimately show ?thesis unfolding Let_def by blast
qed

end
