(* ===== verification/Credentials.thy ===== *)
theory Credentials
  imports Secrets Hosts
begin

text \<open>
  \<open>agent-credentials.js\<close> and the authentication of the Agents in \<open>auth.js\<close>: the table \<open>agent_credentials\<close>, its requests, and
  who is let in with which token.

  The parameters are SHA-256, AES-GCM and the environment. A token is sealed with the name of its subject as additional
  data. Every \<open>gap\<close> is what other requests do to the tables between two statements of a request; \<open>iv\<close> and \<open>random\<close> are the
  random bytes it draws.
  The unique index on the hashes is not modelled: drawn tokens are taken not to collide, and a restored batch that violates
  it is one of the failures in \<open>ok\<close>.
\<close>

record vault =
  va_sha :: "string \<Rightarrow> string"
  va_enc :: aead_enc
  va_dec :: aead_dec
  va_env :: jsval

datatype subject_type = Agent | Latency

type_synonym subject = "subject_type \<times> string"

record credential =
  cd_hash :: string
  cd_cipher :: string
  cd_created :: int
  cd_updated :: int
  cd_used :: "int option"

record credential_db =
  kd_rows :: "(subject \<times> credential) list"
  kd_targets :: "(string \<times> bool) list"
  kd_latency :: "(string \<times> bool) list"
  kd_touched :: "(subject \<times> int) list"

datatype credential_error = Bad_subject | No_key | Unreadable | Not_saved | Bad_token | Duplicate_subject

section \<open>Subjects and tokens\<close>

definition normalize_subject :: "string \<Rightarrow> jsval \<Rightarrow> subject option" where
  "normalize_subject type_text id_value =
     (let t = js_lower (js_trim type_text); i = sanitize_agent_id id_value in
      if i = [] then None else if t = ''agent'' then Some (Agent, i) else if t = ''latency'' then Some (Latency, i) else None)"

fun type_text :: "subject_type \<Rightarrow> string" where
  "type_text Agent = ''agent''"
| "type_text Latency = ''latency''"

definition subject_bytes :: "subject \<Rightarrow> string" where
  "subject_bytes s = ''nie-sla:'' @ type_text (fst s) @ '':'' @ snd s"

definition hex_digit :: "nat \<Rightarrow> char" where "hex_digit n = ''0123456789abcdef'' ! n"

definition random_token :: "bytes \<Rightarrow> string" where
  "random_token bs = ''nst_'' @ concat (map (\<lambda>b. [hex_digit (unat b div 16), hex_digit (unat b mod 16)]) bs)"

text \<open>\<open>/^nst_[a-f0-9]{48}(?:[a-f0-9]{16})?$/\<close>\<close>

definition token_format :: "string \<Rightarrow> bool" where
  "token_format t \<longleftrightarrow> starts_with ''nst_'' t \<and> length t \<in> {52, 68} \<and> list_all (\<lambda>c. c \<in> set ''0123456789abcdef'') (drop 4 t)"

definition seal_token :: "vault \<Rightarrow> bytes \<Rightarrow> subject \<Rightarrow> string \<Rightarrow> string option" where
  "seal_token va iv s token = seal_secret (va_enc va) (va_env va) iv (subject_bytes s) token"

definition decrypt_token :: "vault \<Rightarrow> subject \<Rightarrow> string \<Rightarrow> (string \<times> bool) option" where
  "decrypt_token va s cipher = open_secret (va_dec va) (va_env va) (subject_bytes s) cipher"

definition legacy_scoped_token :: "vault \<Rightarrow> subject \<Rightarrow> string" where
  "legacy_scoped_token va s =
     (let configured = env_text (va_env va) ''AGENT_TOKEN'';
          scoped = (if fst s = Latency then ''latency:'' @ snd s else snd s)
      in if configured = [] then [] else ''nst_'' @ take 48 (va_sha va (configured @ '':'' @ scoped)))"

section \<open>The table\<close>

definition read_credential :: "subject \<Rightarrow> credential_db \<Rightarrow> credential option" where
  "read_credential s db = map_of (kd_rows db) s"

definition put_credential :: "subject \<Rightarrow> credential \<Rightarrow> credential_db \<Rightarrow> credential_db" where
  "put_credential s row db = db\<lparr> kd_rows := AList.update s row (kd_rows db) \<rparr>"

definition new_credential :: "vault \<Rightarrow> int \<Rightarrow> string \<Rightarrow> string \<Rightarrow> credential" where
  "new_credential va now token cipher = \<lparr> cd_hash = va_sha va token, cd_cipher = cipher, cd_created = now, cd_updated = now, cd_used = None \<rparr>"

definition insert_or_ignore :: "subject \<Rightarrow> credential \<Rightarrow> credential_db \<Rightarrow> credential_db" where
  "insert_or_ignore s row db = (if read_credential s db = None then put_credential s row db else db)"

text \<open>\<open>decryptCredentialValue\<close>: the token, and whether the row was sealed anew\<close>

definition decrypt_credential ::
  "vault \<Rightarrow> int \<Rightarrow> bytes \<Rightarrow> subject \<Rightarrow> credential \<Rightarrow> credential_db \<Rightarrow> credential_db \<times> (string \<times> bool) option" where
  "decrypt_credential va now iv s row db =
     (case decrypt_token va s (cd_cipher row) of
        None \<Rightarrow> (db, None)
      | Some (token, old) \<Rightarrow>
          if \<not> constant_time_equal (va_sha va token) (cd_hash row) then (db, None)
          else case (if old then seal_token va iv s token else None) of
                 None \<Rightarrow> (db, Some (token, False))
               | Some cipher \<Rightarrow>
                   ((case read_credential s db of
                       None \<Rightarrow> db
                     | Some stored \<Rightarrow> put_credential s (stored\<lparr> cd_cipher := cipher, cd_updated := now \<rparr>) db), Some (token, True)))"

definition get_or_create_agent_token ::
  "vault \<Rightarrow> int \<Rightarrow> bytes \<Rightarrow> bytes \<Rightarrow> (credential_db \<Rightarrow> credential_db) \<Rightarrow> (credential_db \<Rightarrow> credential_db) \<Rightarrow> string \<Rightarrow> jsval \<Rightarrow>
   credential_db \<Rightarrow> credential_db \<times> (credential_error + string)" where
  "get_or_create_agent_token va now random iv gap gap' type_field id_field db =
     (case normalize_subject type_field id_field of
        None \<Rightarrow> (db, Inl Bad_subject)
      | Some s \<Rightarrow>
          (let opened = (\<lambda>row d. case decrypt_credential va now iv s row d of
                 (d', None) \<Rightarrow> (d', Inl Unreadable) | (d', Some (token, _)) \<Rightarrow> (d', Inr token));
               fresh = (let token = random_token random in
                 if legacy_scoped_token va s \<noteq> [] then (db, Inr (legacy_scoped_token va s))
                 else case seal_token va iv s token of
                   None \<Rightarrow> (db, Inl No_key)
                 | Some cipher \<Rightarrow>
                     (let db2 = gap' (insert_or_ignore s (new_credential va now token cipher) (gap db)) in
                      case read_credential s db2 of None \<Rightarrow> (db2, Inl Not_saved) | Some row \<Rightarrow> opened row db2))
           in case read_credential s db of
                Some row \<Rightarrow> if cd_hash row \<noteq> [] \<and> cd_cipher row \<noteq> [] then opened row db else fresh
              | None \<Rightarrow> fresh))"

definition rotate_agent_credential ::
  "vault \<Rightarrow> int \<Rightarrow> bytes \<Rightarrow> bytes \<Rightarrow> (credential_db \<Rightarrow> credential_db) \<Rightarrow> string \<Rightarrow> jsval \<Rightarrow> credential_db \<Rightarrow> credential_db \<times> (credential_error + string)" where
  "rotate_agent_credential va now random iv gap type_field id_field db =
     (case normalize_subject type_field id_field of
        None \<Rightarrow> (db, Inl Bad_subject)
      | Some s \<Rightarrow>
          (let token = random_token random in
           case seal_token va iv s token of
             None \<Rightarrow> (db, Inl No_key)
           | Some cipher \<Rightarrow>
               ((case read_credential s db of
                   Some row \<Rightarrow> put_credential s (row\<lparr> cd_hash := va_sha va token, cd_cipher := cipher, cd_updated := now \<rparr>) db
                 | None \<Rightarrow> insert_or_ignore s (new_credential va now token cipher) (gap db)), Inr token)))"

text \<open>For a new installation: the token and whether it is a new one in place of one that could not be read\<close>

definition get_or_create_for_reinstall ::
  "vault \<Rightarrow> int \<Rightarrow> bytes \<Rightarrow> bytes \<Rightarrow> (credential_db \<Rightarrow> credential_db) \<Rightarrow> (credential_db \<Rightarrow> credential_db) \<Rightarrow> string \<Rightarrow> jsval \<Rightarrow>
   credential_db \<Rightarrow> credential_db \<times> (credential_error + string \<times> bool)" where
  "get_or_create_for_reinstall va now random iv gap gap' type_field id_field db =
     (case get_or_create_agent_token va now random iv gap gap' type_field id_field db of
        (db', Inr token) \<Rightarrow> (db', Inr (token, False))
      | (db', Inl Unreadable) \<Rightarrow>
          (case rotate_agent_credential va now random iv gap type_field id_field db' of
             (db2, Inr token) \<Rightarrow> (db2, Inr (token, True)) | (db2, Inl e) \<Rightarrow> (db2, Inl e))
      | (db', Inl e) \<Rightarrow> (db', Inl e))"

text \<open>\<open>DELETE FROM agent_credentials\<close> when the target is deleted\<close>

definition delete_credential :: "subject \<Rightarrow> credential_db \<Rightarrow> credential_db" where
  "delete_credential s db = db\<lparr> kd_rows := AList.delete s (kd_rows db) \<rparr>"

section \<open>Verification\<close>

text \<open>\<open>touchCredential\<close>: the time of the last use, noted at most once per interval\<close>

definition touch_interval :: "jsval \<Rightarrow> jsnum" where
  "touch_interval env = js_max (Fin 3600) (js_min (Fin 86400) (js_Number (js_or (js_get env ''AGENT_CREDENTIAL_TOUCH_SEC'') (JInt 21600))))"

definition touch_credential :: "vault \<Rightarrow> int \<Rightarrow> subject \<Rightarrow> credential_db \<Rightarrow> credential_db" where
  "touch_credential va now_ms s db =
     (let now = now_ms div 1000; interval = touch_interval (va_env va);
          recent = (case map_of (kd_touched db) s of None \<Rightarrow> False | Some t \<Rightarrow> t \<noteq> 0 \<and> js_lt (jsint (now_ms - t)) (js_mul interval (Fin 1000)))
      in if recent then db
         else (case read_credential s db of
                 None \<Rightarrow> db
               | Some row \<Rightarrow>
                   if (case cd_used row of None \<Rightarrow> True | Some u \<Rightarrow> js_le (jsint u) (js_sub (jsint now) interval))
                   then put_credential s (row\<lparr> cd_used := Some now \<rparr>) db else db)\<lparr> kd_touched := AList.update s now_ms (kd_touched db) \<rparr>)"

definition verify_agent_credential :: "vault \<Rightarrow> int \<Rightarrow> subject \<Rightarrow> string \<Rightarrow> credential_db \<Rightarrow> credential_db \<times> bool" where
  "verify_agent_credential va now_ms s token db =
     (let presented = js_trim token in
      if presented = [] then (db, False)
      else case read_credential s db of
             None \<Rightarrow> (db, False)
           | Some row \<Rightarrow>
               if cd_hash row = [] \<or> \<not> constant_time_equal (va_sha va presented) (cd_hash row) then (db, False)
               else (touch_credential va now_ms s db, True))"

fun enabled_table :: "subject_type \<Rightarrow> credential_db \<Rightarrow> (string \<times> bool) list" where
  "enabled_table Agent db = kd_targets db"
| "enabled_table Latency db = kd_latency db"

definition verify_enabled_agent_credential :: "vault \<Rightarrow> int \<Rightarrow> subject \<Rightarrow> string \<Rightarrow> credential_db \<Rightarrow> credential_db \<times> bool" where
  "verify_enabled_agent_credential va now_ms s token db =
     (if map_of (enabled_table (fst s) db) (snd s) = Some True then verify_agent_credential va now_ms s token db else (db, False))"

text \<open>The subject of a type whose row has the hash of the token, and whether its target is enabled\<close>

definition find_credential :: "vault \<Rightarrow> subject_type \<Rightarrow> string \<Rightarrow> credential_db \<Rightarrow> string option" where
  "find_credential va t token db =
     (let presented = js_trim token in
      if presented = [] then None
      else map_option (snd \<circ> fst) (find (\<lambda>(s, row). fst s = t \<and> cd_hash row = va_sha va presented) (kd_rows db)))"

definition find_agent_credential :: "vault \<Rightarrow> int \<Rightarrow> subject_type \<Rightarrow> string \<Rightarrow> credential_db \<Rightarrow> credential_db \<times> string option" where
  "find_agent_credential va now_ms t token db =
     (case find_credential va t token db of
        None \<Rightarrow> (db, None)
      | Some i \<Rightarrow> if i = [] then (db, None) else (touch_credential va now_ms (t, i) db, Some i))"

definition find_enabled_credential :: "vault \<Rightarrow> int \<Rightarrow> subject_type \<Rightarrow> string \<Rightarrow> credential_db \<Rightarrow> credential_db \<times> (string \<times> bool) option" where
  "find_enabled_credential va now_ms t token db =
     (case find_agent_credential va now_ms t token db of
        (db', None) \<Rightarrow> (db', None)
      | (db', Some i) \<Rightarrow> (db', Some (i, map_of (enabled_table t db) i = Some True)))"

section \<open>Backup and change of keys\<close>

fun export_rows :: "vault \<Rightarrow> int \<Rightarrow> bytes list \<Rightarrow> (subject \<times> credential) list \<Rightarrow> credential_db \<Rightarrow> credential_db \<times> (credential_error + (subject \<times> string) list)" where
  "export_rows va now ivs [] db = (db, Inr [])"
| "export_rows va now ivs ((s0, row) # rows) db =
     (case normalize_subject (type_text (fst s0)) (Str (snd s0)) of
        None \<Rightarrow> (db, Inl Bad_subject)
      | Some s \<Rightarrow>
          (case decrypt_credential va now (hd ivs) s row db of
             (db1, None) \<Rightarrow> (db1, Inl Unreadable)
           | (db1, Some (token, _)) \<Rightarrow>
               (case export_rows va now (tl ivs) rows db1 of
                  (db2, Inl e) \<Rightarrow> (db2, Inl e)
                | (db2, Inr tokens) \<Rightarrow> (db2, Inr ((s, token) # tokens)))))"

text \<open>\<open>ORDER BY subject_type, subject_id\<close>; \<open>ivs\<close>: the random bytes of the rows that are sealed anew\<close>

definition sort_rows :: "(subject \<times> credential) list \<Rightarrow> (subject \<times> credential) list" where
  "sort_rows = sort_key (\<lambda>(s, _). map of_char (type_text (fst s) @ [CHR 0x00] @ snd s) :: nat list)"

definition export_agent_tokens :: "vault \<Rightarrow> int \<Rightarrow> bytes list \<Rightarrow> credential_db \<Rightarrow> credential_db \<times> (credential_error + (subject \<times> string) list)" where
  "export_agent_tokens va now ivs db = export_rows va now ivs (sort_rows (kd_rows db)) db"

text \<open>The rows of a backup as statements: subject, hash and ciphertext\<close>

fun restore_statements ::
  "vault \<Rightarrow> subject set \<Rightarrow> bytes list \<Rightarrow> (string \<times> jsval \<times> string) list \<Rightarrow> credential_error + (subject \<times> string \<times> string) list" where
  "restore_statements va seen ivs [] = Inr []"
| "restore_statements va seen ivs ((type_field, id_field, token_field) # rows) =
     (case normalize_subject type_field id_field of
        None \<Rightarrow> Inl Bad_subject
      | Some s \<Rightarrow>
          (let token = js_trim token_field in
           if \<not> token_format token then Inl Bad_token
           else if s \<in> seen then Inl Duplicate_subject
           else case seal_token va (hd ivs) s token of
                  None \<Rightarrow> Inl No_key
                | Some cipher \<Rightarrow>
                    (case restore_statements va (insert s seen) (tl ivs) rows of
                       Inl e \<Rightarrow> Inl e
                     | Inr stmts \<Rightarrow> Inr ((s, va_sha va token, cipher) # stmts))))"

definition upsert_credential :: "int \<Rightarrow> subject \<times> string \<times> string \<Rightarrow> credential_db \<Rightarrow> credential_db" where
  "upsert_credential now = (\<lambda>(s, hash, cipher) db.
     case read_credential s db of
       None \<Rightarrow> put_credential s \<lparr> cd_hash = hash, cd_cipher = cipher, cd_created = now, cd_updated = now, cd_used = None \<rparr> db
     | Some row \<Rightarrow> put_credential s (row\<lparr> cd_hash := hash, cd_cipher := cipher, cd_updated := now \<rparr>) db)"

text \<open>In batches of fifty; \<open>ok\<close>: which batches succeed, the first failure ends the request\<close>

function restore_batches :: "bool list \<Rightarrow> int \<Rightarrow> (subject \<times> string \<times> string) list \<Rightarrow> credential_db \<Rightarrow> credential_db \<times> bool" where
  "restore_batches ok now stmts db =
     (if stmts = [] then (db, True)
      else if ok \<noteq> [] \<and> \<not> hd ok then (db, False)
      else restore_batches (tl ok) now (drop 50 stmts) (fold (upsert_credential now) (take 50 stmts) db))"
  by pat_completeness auto
termination by (relation "measure (\<lambda>(ok, now, stmts, db). length stmts)") auto

definition restore_agent_tokens ::
  "vault \<Rightarrow> int \<Rightarrow> bool list \<Rightarrow> bytes list \<Rightarrow> (string \<times> jsval \<times> string) list \<Rightarrow> credential_db \<Rightarrow> credential_db \<times> (credential_error + nat)" where
  "restore_agent_tokens va now ok ivs rows db =
     (case restore_statements va {} ivs (take 10000 rows) of
        Inl e \<Rightarrow> (db, Inl e)
      | Inr stmts \<Rightarrow> (case restore_batches ok now stmts db of (db', stored) \<Rightarrow> (db', if stored then Inr (length stmts) else Inl Not_saved)))"

fun migrate_rows :: "vault \<Rightarrow> int \<Rightarrow> bytes list \<Rightarrow> (subject \<times> credential) list \<Rightarrow> nat \<Rightarrow> credential_db \<Rightarrow> credential_db \<times> (credential_error + nat)" where
  "migrate_rows va now ivs [] n db = (db, Inr n)"
| "migrate_rows va now ivs ((s0, row) # rows) n db =
     (case normalize_subject (type_text (fst s0)) (Str (snd s0)) of
        None \<Rightarrow> (db, Inl Bad_subject)
      | Some s \<Rightarrow>
          (case decrypt_credential va now (hd ivs) s row db of
             (db1, None) \<Rightarrow> (db1, Inl Unreadable)
           | (db1, Some (_, migrated)) \<Rightarrow> migrate_rows va now (tl ivs) rows (if migrated then Suc n else n) db1))"

definition migrate_agent_credential_encryption :: "vault \<Rightarrow> int \<Rightarrow> bytes list \<Rightarrow> credential_db \<Rightarrow> credential_db \<times> (credential_error + nat \<times> nat)" where
  "migrate_agent_credential_encryption va now ivs db =
     (if primary_material_of (va_env va) = [] then (db, Inl No_key)
      else case migrate_rows va now ivs (sort_rows (kd_rows db)) 0 db of
             (db', Inl e) \<Rightarrow> (db', Inl e) | (db', Inr n) \<Rightarrow> (db', Inr (length (kd_rows db), n)))"

section \<open>Who is let in\<close>

text \<open>\<open>findEnabledAgentTarget\<close>: the identifier of the enabled target that stands for the given one\<close>

definition find_enabled_agent_target :: "string \<Rightarrow> credential_db \<Rightarrow> string option" where
  "find_enabled_agent_target agent_id db =
     (let raw = js_trim agent_id; canonical = sanitize_agent_id (Str raw) in
      if canonical = [] then None
      else if map_of (kd_targets db) raw = Some True then Some raw
      else if map_of (kd_targets db) canonical = Some True then Some canonical
      else map_option fst (find (\<lambda>(i, enabled). enabled \<and> sanitize_agent_id (Str i) = canonical) (kd_targets db)))"

datatype identity = Global | Scoped string

definition global_token :: "vault \<Rightarrow> string" where
  "global_token va = env_text (va_env va) ''AGENT_TOKEN''"

text \<open>\<open>bearerToken\<close>: of the header\<close>

definition bearer_token :: "string \<Rightarrow> string" where
  "bearer_token auth = (if starts_with ''bearer '' (js_lower auth) then drop 7 auth else [])"

text \<open>\<open>agentScopedToken\<close>: \<open>None\<close> when the identifier has no subject, which ends the request with an error\<close>

definition agent_scoped_token :: "vault \<Rightarrow> string \<Rightarrow> string option" where
  "agent_scoped_token va agent_id =
     (if js_trim agent_id = [] \<or> global_token va = [] then Some []
      else map_option (legacy_scoped_token va) (normalize_subject ''agent'' (Str (js_trim agent_id))))"

definition require_agent_for_id :: "vault \<Rightarrow> int \<Rightarrow> string \<Rightarrow> string \<Rightarrow> credential_db \<Rightarrow> credential_db \<times> (int + identity)" where
  "require_agent_for_id va now_ms token agent_id db =
     (let i = js_trim agent_id; target = find_enabled_agent_target i db; configured = global_token va in
      if i = [] \<or> token = [] then (db, Inl 401)
      else if configured \<noteq> [] \<and> constant_time_equal token configured
      then (db, if target = None then Inl 401 else Inr Global)
      else case normalize_subject ''agent'' (Str i) of
             None \<Rightarrow> (db, Inl 500)
           | Some s \<Rightarrow>
               (case verify_enabled_agent_credential va now_ms s token db of
                  (db1, True) \<Rightarrow> (db1, Inr (Scoped i))
                | (db1, False) \<Rightarrow>
                    if target = None then (db1, Inl 401)
                    else (case verify_agent_credential va now_ms s token db1 of
                            (db2, True) \<Rightarrow> (db2, Inr (Scoped i))
                          | (db2, False) \<Rightarrow>
                              (case agent_scoped_token va i of
                                 None \<Rightarrow> (db2, Inl 500)
                               | Some scoped \<Rightarrow>
                                   (db2, if scoped \<noteq> [] \<and> constant_time_equal token scoped then Inr (Scoped i) else Inl 401)))))"

definition require_agent_identity :: "vault \<Rightarrow> int \<Rightarrow> string \<Rightarrow> string \<Rightarrow> credential_db \<Rightarrow> credential_db \<times> (int + identity)" where
  "require_agent_identity va now_ms token agent_id db =
     (let i = sanitize_agent_id (Str (js_trim agent_id)) in
      if js_trim agent_id = [] \<or> i = [] \<or> token = [] then (db, Inl 401)
      else if global_token va \<noteq> [] \<and> constant_time_equal token (global_token va) then (db, Inr Global)
      else case normalize_subject ''agent'' (Str i) of
             None \<Rightarrow> (db, Inl 500)
           | Some s \<Rightarrow>
               (case verify_agent_credential va now_ms s token db of
                  (db1, True) \<Rightarrow> (db1, Inr (Scoped i))
                | (db1, False) \<Rightarrow>
                    (case agent_scoped_token va i of
                       None \<Rightarrow> (db1, Inl 500)
                     | Some scoped \<Rightarrow> (db1, if scoped \<noteq> [] \<and> constant_time_equal token scoped then Inr (Scoped i) else Inl 401))))"

text \<open>The derived tokens of the first five hundred enabled targets, kept for thirty seconds\<close>

definition scoped_token_entries ::
  "vault \<Rightarrow> int \<Rightarrow> credential_db \<Rightarrow> (int \<times> (string \<times> string) list) option \<Rightarrow> ((int \<times> (string \<times> string) list) option \<times> (string \<times> string) list) option" where
  "scoped_token_entries va now_ms db cache =
     (let ids = map fst (take 500 (filter snd (kd_targets db)));
          entries = filter (\<lambda>(_, t). t \<noteq> []) (map (\<lambda>i. (i, the (agent_scoped_token va i))) ids);
          fresh = (if list_ex (\<lambda>i. agent_scoped_token va i = None) ids then None else Some (Some (now_ms + 30000, entries), entries))
      in case cache of Some (expires, kept) \<Rightarrow> if expires > now_ms then Some (cache, kept) else fresh | None \<Rightarrow> fresh)"

definition require_any_agent ::
  "vault \<Rightarrow> int \<Rightarrow> string \<Rightarrow> (int \<times> (string \<times> string) list) option \<Rightarrow> credential_db \<Rightarrow>
   (credential_db \<times> (int \<times> (string \<times> string) list) option) \<times> (int + identity)" where
  "require_any_agent va now_ms token cache db =
     (if token = [] then ((db, cache), Inl 401)
      else if global_token va \<noteq> [] \<and> constant_time_equal token (global_token va) then ((db, cache), Inr Global)
      else case find_enabled_credential va now_ms Agent token db of
             (db1, found) \<Rightarrow>
               (let by_row = (case found of
                      Some (i, enabled) \<Rightarrow> if enabled \<or> find_enabled_agent_target i db1 \<noteq> None then Some i else None
                    | None \<Rightarrow> None)
                in case by_row of
                     Some i \<Rightarrow> ((db1, cache), Inr (Scoped i))
                   | None \<Rightarrow>
                       (case scoped_token_entries va now_ms db1 cache of
                          None \<Rightarrow> ((db1, cache), Inl 500)
                        | Some (cache', entries) \<Rightarrow>
                            ((db1, cache'), case find (\<lambda>(_, t). constant_time_equal token t) entries of
                                              Some (i, _) \<Rightarrow> Inr (Scoped i) | None \<Rightarrow> Inl 401))))"

definition latency_enabled :: "string \<Rightarrow> credential_db \<Rightarrow> bool" where
  "latency_enabled i db \<longleftrightarrow> map_of (kd_latency db) i = Some True"

definition require_latency_agent_for_id :: "vault \<Rightarrow> int \<Rightarrow> string \<Rightarrow> string \<Rightarrow> credential_db \<Rightarrow> credential_db \<times> (int + identity)" where
  "require_latency_agent_for_id va now_ms token node_id db =
     (let i = sanitize_agent_id (Str node_id) in
      if i = [] \<or> token = [] then (db, Inl 401)
      else if global_token va \<noteq> [] \<and> constant_time_equal token (global_token va)
      then (db, if latency_enabled i db then Inr Global else Inl 401)
      else case normalize_subject ''latency'' (Str i) of
             None \<Rightarrow> (db, Inl 500)
           | Some s \<Rightarrow>
               (case verify_enabled_agent_credential va now_ms s token db of
                  (db1, True) \<Rightarrow> (db1, Inr (Scoped i))
                | (db1, False) \<Rightarrow>
                    if \<not> latency_enabled i db1 then (db1, Inl 401)
                    else (case verify_agent_credential va now_ms s token db1 of
                            (db2, True) \<Rightarrow> (db2, Inr (Scoped i))
                          | (db2, False) \<Rightarrow>
                              (db2, if legacy_scoped_token va s \<noteq> [] \<and> constant_time_equal token (legacy_scoped_token va s) then Inr (Scoped i) else Inl 401))))"

section \<open>Who is let in, exactly\<close>

text \<open>The token of the row of a subject\<close>

definition token_of_row :: "vault \<Rightarrow> subject \<Rightarrow> string \<Rightarrow> credential_db \<Rightarrow> bool" where
  "token_of_row va s token db \<longleftrightarrow>
     js_trim token \<noteq> [] \<and> (case read_credential s db of Some row \<Rightarrow> cd_hash row \<noteq> [] \<and> va_sha va (js_trim token) = cd_hash row | None \<Rightarrow> False)"

definition token_fits :: "vault \<Rightarrow> subject \<Rightarrow> string \<Rightarrow> credential_db \<Rightarrow> bool" where
  "token_fits va s token db \<longleftrightarrow>
     (global_token va \<noteq> [] \<and> token \<in> {global_token va, legacy_scoped_token va s}) \<or> token_of_row va s token db"

lemma touch_credential_facts [simp]:
  "kd_targets (touch_credential va t s db) = kd_targets db" "kd_latency (touch_credential va t s db) = kd_latency db"
  "map_option cd_hash (read_credential s' (touch_credential va t s db)) = map_option cd_hash (read_credential s' db)"
  by (auto simp: touch_credential_def Let_def put_credential_def read_credential_def update_conv split: option.split)

lemma verify_iff: "snd (verify_agent_credential va t s token db) \<longleftrightarrow> token_of_row va s token db"
  by (auto simp: verify_agent_credential_def token_of_row_def Let_def split: option.splits)

lemma verify_same: "\<not> snd (verify_agent_credential va t s token db) \<Longrightarrow> fst (verify_agent_credential va t s token db) = db"
  by (auto simp: verify_agent_credential_def Let_def split: option.splits)

lemma verify_enabled_iff:
  "snd (verify_enabled_agent_credential va t s token db) \<longleftrightarrow> map_of (enabled_table (fst s) db) (snd s) = Some True \<and> token_of_row va s token db"
  by (simp add: verify_enabled_agent_credential_def verify_iff)

lemma verify_enabled_same: "\<not> snd (verify_enabled_agent_credential va t s token db) \<Longrightarrow> fst (verify_enabled_agent_credential va t s token db) = db"
  by (auto simp: verify_enabled_agent_credential_def verify_same split: if_splits)

lemma canonical_enabled:
  "map_of (kd_targets db) (sanitize_agent_id (Str (js_trim i))) = Some True \<Longrightarrow> sanitize_agent_id (Str (js_trim i)) \<noteq> [] \<Longrightarrow>
   find_enabled_agent_target i db \<noteq> None"
  by (simp add: find_enabled_agent_target_def Let_def)

lemma enabled_trim: "find_enabled_agent_target (js_trim i) db = find_enabled_agent_target i db"
  by (simp add: find_enabled_agent_target_def)

lemma enabled_canonical: "find_enabled_agent_target i db \<noteq> None \<Longrightarrow> sanitize_agent_id (Str (js_trim i)) \<noteq> [] \<and> js_trim i \<noteq> []"
proof -
  assume "find_enabled_agent_target i db \<noteq> None"
  then have "sanitize_agent_id (Str (js_trim i)) \<noteq> []" by (auto simp: find_enabled_agent_target_def Let_def)
  moreover have "sanitize_agent_id (Str []) = []" by code_simp
  ultimately show ?thesis by metis
qed

text \<open>C19: An Agent is let in exactly when an enabled target stands for its identifier and it presents the shared token, the token
  derived from it, or the token of its row; the derived token is good whatever the row holds.\<close>

theorem agent_is_let_in_iff:
  "(\<exists>who. snd (require_agent_for_id va now_ms token agent_id db) = Inr who) \<longleftrightarrow>
     token \<noteq> [] \<and> find_enabled_agent_target agent_id db \<noteq> None \<and> token_fits va (Agent, sanitize_agent_id (Str (js_trim agent_id))) token db"
  (is "?in \<longleftrightarrow> ?ok")
proof -
  let ?i = "js_trim agent_id" and ?s = "(Agent, sanitize_agent_id (Str (js_trim agent_id)))"
  let ?target = "find_enabled_agent_target ?i db"
  show ?thesis
  proof (cases "sanitize_agent_id (Str ?i) = [] \<or> ?i = [] \<or> token = []")
    case True
    then have "find_enabled_agent_target agent_id db = None \<or> token = []" using enabled_canonical by blast
    then have no: "\<not> ?ok" by auto
    have "\<not> ?in"
    proof (cases "token = [] \<or> ?i = []")
      case False
      with True have "sanitize_agent_id (Str ?i) = []" by blast
      then have "find_enabled_agent_target ?i db = None" "normalize_subject ''agent'' (Str ?i) = None"
        by (simp_all add: find_enabled_agent_target_def normalize_subject_def)
      then show ?thesis by (simp add: require_agent_for_id_def Let_def)
    qed (auto simp: require_agent_for_id_def)
    with no show ?thesis by blast
  next
    case False
    then have n: "normalize_subject ''agent'' (Str ?i) = Some ?s"
      by (simp add: normalize_subject_def js_trim_def js_lower_def strip_both_id js_space_def lower_char_def)
    consider (shared) "global_token va \<noteq> []" "token = global_token va" | (own) "\<not> (global_token va \<noteq> [] \<and> token = global_token va)" by blast
    then show ?thesis
    proof cases
      case shared
      with False show ?thesis by (simp add: require_agent_for_id_def Let_def token_fits_def enabled_trim)
    next
      case own
      have derived: "agent_scoped_token va ?i = Some (if global_token va = [] then [] else legacy_scoped_token va ?s)"
        using False n by (simp add: agent_scoped_token_def)
      have r: "require_agent_for_id va now_ms token agent_id db =
        (case verify_enabled_agent_credential va now_ms ?s token db of
           (db1, True) \<Rightarrow> (db1, Inr (Scoped ?i))
         | (db1, False) \<Rightarrow>
             if ?target = None then (db1, Inl 401)
             else (case verify_agent_credential va now_ms ?s token db1 of
                     (db2, True) \<Rightarrow> (db2, Inr (Scoped ?i))
                   | (db2, False) \<Rightarrow> (db2, if global_token va \<noteq> [] \<and> legacy_scoped_token va ?s \<noteq> [] \<and> token = legacy_scoped_token va ?s then Inr (Scoped ?i) else Inl 401)))"
        using False own by (auto simp: require_agent_for_id_def Let_def n derived cong: if_cong)
      show ?thesis
      proof (cases "verify_enabled_agent_credential va now_ms ?s token db")
        case (Pair db1 yes)
        show ?thesis
        proof (cases yes)
          case True
          then have "?target \<noteq> None" "token_of_row va ?s token db"
            using canonical_enabled [of db agent_id] False Pair verify_enabled_iff [of va now_ms ?s token db] by (auto simp: enabled_trim)
          with False True Pair show ?thesis unfolding r by (simp add: token_fits_def enabled_trim)
        next
          case no: False
          then have db1: "db1 = db" using verify_enabled_same [of va now_ms ?s token db] Pair by simp
          show ?thesis
          proof (cases "verify_agent_credential va now_ms ?s token db")
            case v: (Pair db2 row)
            then have "row = token_of_row va ?s token db" using verify_iff [of va now_ms ?s token db] by simp
            with False own no Pair v db1 show ?thesis unfolding r by (auto simp: token_fits_def enabled_trim)
          qed
        qed
      qed
    qed
  qed
qed

section \<open>Sound rows\<close>

text \<open>A row holds the hash of a token and the token itself, sealed for its subject under a material the environment still has\<close>

definition row_holds :: "vault \<Rightarrow> subject \<Rightarrow> string \<Rightarrow> credential \<Rightarrow> bool" where
  "row_holds va s token row \<longleftrightarrow>
     token_format token \<and> cd_hash row = va_sha va token \<and>
     (\<exists>m src iv. (m, src) \<in> set (encryption_materials (va_env va)) \<and> length iv = 12 \<and>
        cd_cipher row = secret_prefix @ bytes_to_base64 (iv @ va_enc va m iv (subject_bytes s) token))"

definition rows_sound :: "vault \<Rightarrow> credential_db \<Rightarrow> bool" where
  "rows_sound va db \<longleftrightarrow>
     distinct (map fst (kd_rows db)) \<and> (\<forall>s row. read_credential s db = Some row \<longrightarrow> (\<exists>token. row_holds va s token row))"

definition vault_ok :: "vault \<Rightarrow> bool" where
  "vault_ok va \<longleftrightarrow> sealing (va_enc va) (va_dec va) \<and> (\<forall>x. va_sha va x \<noteq> [])"

lemma read_put [simp]: "read_credential s' (put_credential s row db) = (if s' = s then Some row else read_credential s' db)"
  by (simp add: read_credential_def put_credential_def update_conv)

lemma subject_bytes_inject [simp]: "subject_bytes s = subject_bytes s' \<longleftrightarrow> s = s'"
  by (cases s; cases s'; cases "fst s"; cases "fst s'") (auto simp: subject_bytes_def)

lemma decrypt_held:
  assumes "vault_ok va" "row_holds va s token row"
  shows "\<exists>old. decrypt_token va s (cd_cipher row) = Some (token, old)" "s' \<noteq> s \<Longrightarrow> decrypt_token va s' (cd_cipher row) = None"
proof -
  have seal: "sealing (va_enc va) (va_dec va)" using assms(1) by (simp add: vault_ok_def)
  obtain m src iv where m: "(m, src) \<in> set (encryption_materials (va_env va))" "length iv = 12"
    and c: "cd_cipher row = secret_prefix @ bytes_to_base64 (iv @ va_enc va m iv (subject_bytes s) token)"
    using assms(2) by (auto simp: row_holds_def)
  show "\<exists>old. decrypt_token va s (cd_cipher row) = Some (token, old)"
    using open_payload_sealed [OF seal m(2,1)] by (simp add: decrypt_token_def open_secret_def c)
  assume "s' \<noteq> s"
  then have "va_dec va key iv (subject_bytes s') (va_enc va m iv (subject_bytes s) token) = None" for key
    using seal by (auto simp: sealing_def)
  moreover have "try_keys dec ms payload = None" if "\<And>key. dec key payload = None" for dec ms and payload :: bytes
    using that by (induction ms) auto
  ultimately show "decrypt_token va s' (cd_cipher row) = None"
    using m(2) by (simp add: decrypt_token_def open_secret_def open_payload_def c)
qed

lemma sealed_holds:
  assumes "vault_ok va" "seal_token va iv s token = Some cipher" "length iv = 12" "token_format token"
  shows "row_holds va s token (row\<lparr> cd_hash := va_sha va token, cd_cipher := cipher, cd_updated := now \<rparr>)"
    "row_holds va s token \<lparr> cd_hash = va_sha va token, cd_cipher = cipher, cd_created = now, cd_updated = now, cd_used = None \<rparr>"
    "cd_hash stored = va_sha va token \<Longrightarrow> row_holds va s token (stored\<lparr> cd_cipher := cipher, cd_updated := now \<rparr>)"
proof -
  let ?m = "primary_material_of (va_env va)"
  have "?m \<noteq> []" and c: "cipher = secret_prefix @ bytes_to_base64 (iv @ va_enc va ?m iv (subject_bytes s) token)"
    using assms(2) by (auto simp: seal_token_def seal_secret_def split: if_splits)
  then have "(?m, PrimaryKey) \<in> set (encryption_materials (va_env va))" by (simp add: encryption_materials_def primary_material_of_def)
  with assms(3,4) c show "row_holds va s token (row\<lparr> cd_hash := va_sha va token, cd_cipher := cipher, cd_updated := now \<rparr>)"
    "row_holds va s token \<lparr> cd_hash = va_sha va token, cd_cipher = cipher, cd_created = now, cd_updated = now, cd_used = None \<rparr>"
    "cd_hash stored = va_sha va token \<Longrightarrow> row_holds va s token (stored\<lparr> cd_cipher := cipher, cd_updated := now \<rparr>)"
    by (auto simp: row_holds_def)
qed

lemma token_format_trim: "token_format t \<Longrightarrow> js_trim t = t \<and> t \<noteq> []"
proof -
  assume f: "token_format t"
  then have "take (length ''nst_'') t = ''nst_''" by (simp only: token_format_def starts_with_def)
  then have st: "take 4 t = ''nst_''" by (simp add: numeral_eq_Suc)
  from f have l: "length t > 4" and hx: "list_all (\<lambda>c. c \<in> set ''0123456789abcdef'') (drop 4 t)"
    by (auto simp only: token_format_def)
  have "hd t = hd (take 4 t)" using l by (simp add: hd_take)
  then have "hd t = CHR ''n''" using st by simp
  moreover have "last (drop 4 t) \<in> set (drop 4 t)" using l by (intro last_in_set) simp
  with hx [unfolded list_all_iff] have "last (drop 4 t) \<in> set ''0123456789abcdef''" by (rule bspec)
  then have "last t \<in> set ''0123456789abcdef''" using l by (simp add: last_drop del: list.set)
  then have "\<not> js_space (last t)" by (auto simp: js_space_def)
  ultimately show ?thesis using l unfolding js_trim_def by (intro conjI strip_both_id) (auto simp: js_space_def)
qed

lemma random_token_format: "length bs = 32 \<Longrightarrow> token_format (random_token bs)"
proof -
  assume l: "length bs = 32"
  let ?d = "concat (map (\<lambda>b. [hex_digit (unat b div 16), hex_digit (unat b mod 16)]) bs)"
  have "length ?d = 64" using l by (simp add: length_concat comp_def sum_list_triv)
  moreover have "list_all (\<lambda>c. c \<in> set ''0123456789abcdef'') ?d"
  proof -
    define hexes where "hexes = set ''0123456789abcdef''"
    have d: "hex_digit n \<in> hexes" if "n < 16" for n
      unfolding hex_digit_def hexes_def by (rule nth_mem) (use that in simp)
    have "unat b div 16 < 16" for b :: "8 word" using unsigned_less [where 'b = 8 and 'a = nat, of b] by auto
    then have "list_all (\<lambda>c. c \<in> hexes) ?d" by (auto simp: list_all_iff intro: d)
    then show ?thesis unfolding hexes_def .
  qed
  ultimately show ?thesis by (simp add: token_format_def random_token_def starts_with_def)
qed

lemma rows_sound_put: "rows_sound va db \<Longrightarrow> row_holds va s token row \<Longrightarrow> rows_sound va (put_credential s row db)"
  unfolding rows_sound_def by (auto simp: put_credential_def distinct_update read_credential_def update_conv)

lemma decrypt_credential_sound:
  assumes "vault_ok va" "length iv = 12" "row_holds va s token row" "rows_sound va db"
    and "\<And>stored. read_credential s db = Some stored \<Longrightarrow> cd_hash stored = cd_hash row"
  shows "\<exists>db' migrated. decrypt_credential va now iv s row db = (db', Some (token, migrated)) \<and> rows_sound va db' \<and>
    (\<forall>s'. map_option cd_hash (read_credential s' db') = map_option cd_hash (read_credential s' db)) \<and>
    (if read_credential s db = Some row then \<exists>row'. read_credential s db' = Some row' \<and> row_holds va s token row' else True)"
proof -
  obtain old where d: "decrypt_token va s (cd_cipher row) = Some (token, old)" using decrypt_held(1) [OF assms(1,3)] by blast
  have h: "cd_hash row = va_sha va token" and f: "token_format token" using assms(3) by (auto simp: row_holds_def)
  show ?thesis
  proof (cases "if old then seal_token va iv s token else None")
    case None
    with d h assms(3,4) show ?thesis by (auto simp: decrypt_credential_def)
  next
    case (Some cipher)
    then have c: "seal_token va iv s token = Some cipher" by (auto split: if_splits)
    show ?thesis
    proof (cases "read_credential s db")
      case None
      with Some d h assms(4) show ?thesis by (auto simp: decrypt_credential_def)
    next
      case stored: (Some stored)
      have "cd_hash stored = va_sha va token" using assms(5) [OF stored] h by simp
      from sealed_holds(3) [OF assms(1) c assms(2) f this] stored Some d h assms(4) show ?thesis
        by (auto simp: decrypt_credential_def intro: rows_sound_put)
    qed
  qed
qed

lemma open_row:
  assumes "vault_ok va" "length iv = 12" "rows_sound va db" "read_credential s db = Some row" "row_holds va s token row"
  shows "\<exists>db' migrated row'. decrypt_credential va now iv s row db = (db', Some (token, migrated)) \<and> rows_sound va db' \<and>
     read_credential s db' = Some row' \<and> row_holds va s token row'"
  using decrypt_credential_sound [OF assms(1,2,5,3), of now] assms(4) by auto

lemma no_legacy: "global_token va = [] \<Longrightarrow> legacy_scoped_token va s = []"
  by (simp add: global_token_def legacy_scoped_token_def)

lemma row_holds_verifies:
  assumes "vault_ok va" "read_credential s db = Some row" "row_holds va s token row"
  shows "snd (verify_agent_credential va t s token db)"
    "snd (verify_agent_credential va t s other db) = (js_trim other \<noteq> [] \<and> va_sha va (js_trim other) = va_sha va token)"
  using assms token_format_trim [of token] by (auto simp: verify_iff token_of_row_def row_holds_def vault_ok_def)

lemma insert_sound:
  assumes "vault_ok va" "seal_token va iv s token = Some cipher" "length iv = 12" "token_format token" "rows_sound va db"
  shows "rows_sound va (insert_or_ignore s (new_credential va now token cipher) db)"
  using assms sealed_holds(2) [OF assms(1-4)] by (auto simp: insert_or_ignore_def new_credential_def intro: rows_sound_put)

lemma get_or_create_sound:
  assumes "vault_ok va" "length iv = 12" "length random = 32" "rows_sound va db" "normalize_subject type_field id_field = Some s"
    and "\<And>d. rows_sound va d \<Longrightarrow> rows_sound va (gap d)" "\<And>d. rows_sound va d \<Longrightarrow> rows_sound va (gap' d)"
    and "get_or_create_agent_token va now random iv gap gap' type_field id_field db = (db', r)"
  shows "rows_sound va db'"
    "global_token va = [] \<Longrightarrow> r = Inr token \<Longrightarrow> \<exists>row. read_credential s db' = Some row \<and> row_holds va s token row"
proof -
  let ?new = "random_token random"
  let ?opened = "\<lambda>row d. case decrypt_credential va now iv s row d of (d', None) \<Rightarrow> (d', Inl Unreadable) | (d', Some (token, _)) \<Rightarrow> (d', Inr token)"
  have opened: "rows_sound va (fst (?opened row d)) \<and> (\<forall>tok. snd (?opened row d) = Inr tok \<longrightarrow> (\<exists>row'. read_credential s (fst (?opened row d)) = Some row' \<and> row_holds va s tok row'))"
    if "rows_sound va d" "read_credential s d = Some row" for row d
  proof -
    have "\<exists>tok. row_holds va s tok row" using that unfolding rows_sound_def by blast
    then obtain tok where "row_holds va s tok row" ..
    from open_row [OF assms(1,2) that this, of now] show ?thesis by auto
  qed
  show goal: "rows_sound va db'" and "global_token va = [] \<Longrightarrow> r = Inr token \<Longrightarrow> \<exists>row. read_credential s db' = Some row \<and> row_holds va s token row"
  proof -
    have "rows_sound va db' \<and> (global_token va = [] \<and> r = Inr token \<longrightarrow> (\<exists>row. read_credential s db' = Some row \<and> row_holds va s token row))"
    proof (cases "\<exists>row. read_credential s db = Some row \<and> cd_hash row \<noteq> [] \<and> cd_cipher row \<noteq> []")
      case True
      then obtain row where row: "read_credential s db = Some row" "cd_hash row \<noteq> []" "cd_cipher row \<noteq> []" by blast
      then have "(db', r) = ?opened row db" using assms(5,8) by (simp add: get_or_create_agent_token_def Let_def)
      with opened [OF assms(4) row(1)] show ?thesis by (metis fst_conv snd_conv)
    next
      case False
      show ?thesis
      proof (cases "legacy_scoped_token va s \<noteq> []")
        case True
        with False assms(4,5,8) show ?thesis by (auto simp: get_or_create_agent_token_def Let_def no_legacy split: option.splits)
      next
        case none: False
        show ?thesis
        proof (cases "seal_token va iv s ?new")
          case None
          with False none assms(4,5,8) show ?thesis by (auto simp: get_or_create_agent_token_def Let_def split: option.splits)
        next
          case (Some cipher)
          let ?db2 = "gap' (insert_or_ignore s (new_credential va now ?new cipher) (gap db))"
          have sound: "rows_sound va ?db2"
            using insert_sound [OF assms(1) Some assms(2) random_token_format [OF assms(3)]] assms(4,6,7) by blast
          have "(db', r) = (case read_credential s ?db2 of None \<Rightarrow> (?db2, Inl Not_saved) | Some row \<Rightarrow> ?opened row ?db2)"
            using False none Some assms(5,8) by (auto simp: get_or_create_agent_token_def Let_def split: option.splits)
          with sound opened [OF sound] show ?thesis by (cases "read_credential s ?db2") (auto, metis fst_conv snd_conv, metis fst_conv snd_conv)
        qed
      qed
    qed
    then show "rows_sound va db'" "global_token va = [] \<Longrightarrow> r = Inr token \<Longrightarrow> \<exists>row. read_credential s db' = Some row \<and> row_holds va s token row"
      by blast+
  qed
qed

lemma rotate_sound:
  assumes "vault_ok va" "length iv = 12" "length random = 32" "rows_sound va db" "\<And>d. rows_sound va d \<Longrightarrow> rows_sound va (gap d)"
  shows "rows_sound va (fst (rotate_agent_credential va now random iv gap type_field id_field db))"
proof (cases "normalize_subject type_field id_field")
  case (Some s)
  show ?thesis
  proof (cases "seal_token va iv s (random_token random)")
    case None
    with Some assms(4) show ?thesis by (simp add: rotate_agent_credential_def Let_def)
  next
    case sealed: (Some cipher)
    note f = random_token_format [OF assms(3)]
    show ?thesis
      using Some sealed assms(4,5) insert_sound [OF assms(1) sealed assms(2) f]
      by (auto simp: rotate_agent_credential_def Let_def intro!: rows_sound_put [OF _ sealed_holds(1) [OF assms(1) sealed assms(2) f]] split: option.split)
  qed
qed (simp add: rotate_agent_credential_def assms(4))

lemma touch_sound: "rows_sound va db \<Longrightarrow> rows_sound va (touch_credential va t s db)"
proof -
  assume sound: "rows_sound va db"
  have same: "rows_sound va (d\<lparr> kd_touched := x \<rparr>) = rows_sound va d" for d x by (simp add: rows_sound_def read_credential_def)
  have "row_holds va s tok (row\<lparr> cd_used := u \<rparr>) = row_holds va s tok row" for tok row u by (simp add: row_holds_def)
  moreover have "read_credential s db = Some row \<Longrightarrow> \<exists>tok. row_holds va s tok row" for row using sound unfolding rows_sound_def by blast
  ultimately have "read_credential s db = Some row \<Longrightarrow> rows_sound va (put_credential s (row\<lparr> cd_used := u \<rparr>) db)" for row u
    using rows_sound_put [OF sound] by blast
  with sound show ?thesis by (auto simp: touch_credential_def Let_def same split: option.split)
qed

lemma verify_sound: "rows_sound va db \<Longrightarrow> rows_sound va (fst (verify_agent_credential va t s token db))"
  by (auto simp: verify_agent_credential_def Let_def touch_sound split: option.split)

lemma delete_sound: "rows_sound va db \<Longrightarrow> rows_sound va (delete_credential s db)"
  unfolding rows_sound_def by (auto simp: delete_credential_def read_credential_def delete_conv distinct_delete split: if_splits)

text \<open>A statement of a restore carries a sealed token\<close>

definition statement_ok :: "vault \<Rightarrow> subject \<times> string \<times> string \<Rightarrow> bool" where
  "statement_ok va = (\<lambda>(s, hash, cipher). \<exists>token iv. token_format token \<and> length iv = 12 \<and> hash = va_sha va token \<and> seal_token va iv s token = Some cipher)"

lemma restore_statements_ok:
  "restore_statements va seen ivs rows = Inr stmts \<Longrightarrow> length rows \<le> length ivs \<Longrightarrow> \<forall>iv \<in> set ivs. length iv = 12 \<Longrightarrow> \<forall>st \<in> set stmts. statement_ok va st"
proof (induction va seen ivs rows arbitrary: stmts rule: restore_statements.induct)
  case (2 va seen ivs type_field id_field token_field rows)
  obtain iv ivs' where ivs: "ivs = iv # ivs'" using 2(3) by (cases ivs) auto
  from 2(2) obtain s cipher rest where s: "normalize_subject type_field id_field = Some s" "token_format (js_trim token_field)" "s \<notin> seen"
    "seal_token va iv s (js_trim token_field) = Some cipher" "restore_statements va (insert s seen) ivs' rows = Inr rest"
    "stmts = (s, va_sha va (js_trim token_field), cipher) # rest"
    by (auto simp: Let_def ivs split: option.splits if_splits sum.splits)
  have "\<forall>st \<in> set rest. statement_ok va st"
    using 2(1) [OF s(1) refl] s 2(3,4) by (simp add: ivs)
  moreover have "statement_ok va (s, va_sha va (js_trim token_field), cipher)"
    using s 2(4) by (auto simp: statement_ok_def ivs)
  ultimately show ?case using s(6) by simp
qed simp

lemma upsert_sound: "vault_ok va \<Longrightarrow> statement_ok va st \<Longrightarrow> rows_sound va db \<Longrightarrow> rows_sound va (upsert_credential now st db)"
proof -
  assume va: "vault_ok va" and st: "statement_ok va st" and db: "rows_sound va db"
  obtain s token iv cipher where t: "st = (s, va_sha va token, cipher)" "token_format token" "length iv = 12" "seal_token va iv s token = Some cipher"
    using st by (cases st) (auto simp: statement_ok_def)
  note held = sealed_holds [OF va t(4,3,2)]
  show ?thesis
    using rows_sound_put [OF db held(1)] rows_sound_put [OF db held(2)] by (simp add: upsert_credential_def t(1) split: option.split)
qed

lemma fold_upsert_sound: "vault_ok va \<Longrightarrow> \<forall>st \<in> set stmts. statement_ok va st \<Longrightarrow> rows_sound va db \<Longrightarrow> rows_sound va (fold (upsert_credential now) stmts db)"
  by (induction stmts arbitrary: db) (auto simp: upsert_sound)

declare restore_batches.simps [simp del]

lemma restore_batches_sound:
  "vault_ok va \<Longrightarrow> \<forall>st \<in> set stmts. statement_ok va st \<Longrightarrow> rows_sound va db \<Longrightarrow> rows_sound va (fst (restore_batches ok now stmts db))"
proof (induction ok now stmts db rule: restore_batches.induct)
  case (1 ok now stmts db)
  show ?case
  proof (cases "stmts = [] \<or> ok \<noteq> [] \<and> \<not> hd ok")
    case True
    with "1.prems" show ?thesis by (subst restore_batches.simps) auto
  next
    case False
    have "rows_sound va (fold (upsert_credential now) (take 50 stmts) db)"
      using "1.prems" by (intro fold_upsert_sound) (auto dest: in_set_takeD)
    with False "1.IH" "1.prems" have "rows_sound va (fst (restore_batches (tl ok) now (drop 50 stmts) (fold (upsert_credential now) (take 50 stmts) db)))"
      by (blast dest: in_set_dropD)
    with False show ?thesis by (subst restore_batches.simps) auto
  qed
qed

text \<open>The rows a request read at its start, against the table as it goes on\<close>

definition snapshot_of :: "vault \<Rightarrow> (subject \<times> credential) list \<Rightarrow> credential_db \<Rightarrow> bool" where
  "snapshot_of va rows db \<longleftrightarrow>
     (\<forall>(s, row) \<in> set rows. (\<exists>token. row_holds va s token row) \<and> map_option cd_hash (read_credential s db) = Some (cd_hash row))"

lemma snapshot_start: "rows_sound va db \<Longrightarrow> snapshot_of va (sort_rows (kd_rows db)) db"
  unfolding snapshot_of_def rows_sound_def sort_rows_def set_sort by (fastforce simp: read_credential_def)

lemma decrypt_listed:
  assumes "vault_ok va" "length iv = 12" "rows_sound va db" "snapshot_of va ((s0, row) # rows) db" "row_holds va s0 token row"
  shows "rows_sound va (fst (decrypt_credential va now iv s row db)) \<and> snapshot_of va rows (fst (decrypt_credential va now iv s row db)) \<and>
    map_option fst (snd (decrypt_credential va now iv s row db)) = (if s = s0 then Some token else None)"
proof (cases "s = s0")
  case True
  have hash: "map_option cd_hash (read_credential s0 db) = Some (cd_hash row)" and rest: "snapshot_of va rows db"
    using assms(4) by (auto simp: snapshot_of_def)
  have "read_credential s0 db = Some stored \<Longrightarrow> cd_hash stored = cd_hash row" for stored using hash by simp
  from decrypt_credential_sound [OF assms(1,2,5,3) this, of now]
  obtain db' migrated where d: "decrypt_credential va now iv s0 row db = (db', Some (token, migrated))" "rows_sound va db'"
    "\<forall>s'. map_option cd_hash (read_credential s' db') = map_option cd_hash (read_credential s' db)" by auto
  have eq: "map_option cd_hash (read_credential x db') = map_option cd_hash (read_credential x db)" for x using d(3) by blast
  from rest have "snapshot_of va rows db'" unfolding snapshot_of_def eq .
  with d True show ?thesis by simp
next
  case False
  from decrypt_held(2) [OF assms(1,5) False] have "decrypt_credential va now iv s row db = (db, None)"
    by (simp add: decrypt_credential_def)
  with False assms(3,4) show ?thesis by (simp add: snapshot_of_def)
qed

lemma migrate_rows_sound:
  "vault_ok va \<Longrightarrow> rows_sound va db \<Longrightarrow> snapshot_of va rows db \<Longrightarrow> length rows \<le> length ivs \<Longrightarrow> \<forall>iv \<in> set ivs. length iv = 12 \<Longrightarrow>
   rows_sound va (fst (migrate_rows va now ivs rows n db))"
proof (induction rows arbitrary: ivs n db)
  case (Cons r rows)
  obtain s0 row where r: "r = (s0, row)" by (cases r)
  obtain iv ivs' where ivs: "ivs = iv # ivs'" using Cons.prems(4) by (cases ivs) auto
  obtain token where t: "row_holds va s0 token row" using Cons.prems(3) r by (auto simp: snapshot_of_def)
  show ?case
  proof (cases "normalize_subject (type_text (fst s0)) (Str (snd s0))")
    case None
    with Cons.prems(2) show ?thesis by (simp add: r)
  next
    case (Some s)
    note d = decrypt_listed [OF Cons.prems(1) _ Cons.prems(2) Cons.prems(3) [unfolded r] t, of iv now s]
    show ?thesis
      using d Cons.IH [OF Cons.prems(1)] Cons.prems(4,5) Some
      by (cases "decrypt_credential va now iv s row db") (auto simp: r ivs split: option.splits)
  qed
qed simp

lemma export_rows_sound:
  "vault_ok va \<Longrightarrow> rows_sound va db \<Longrightarrow> snapshot_of va rows db \<Longrightarrow> length rows \<le> length ivs \<Longrightarrow> \<forall>iv \<in> set ivs. length iv = 12 \<Longrightarrow>
   rows_sound va (fst (export_rows va now ivs rows db))"
proof (induction rows arbitrary: ivs db)
  case (Cons r rows)
  obtain s0 row where r: "r = (s0, row)" by (cases r)
  obtain iv ivs' where ivs: "ivs = iv # ivs'" using Cons.prems(4) by (cases ivs) auto
  obtain token where t: "row_holds va s0 token row" using Cons.prems(3) r by (auto simp: snapshot_of_def)
  show ?case
  proof (cases "normalize_subject (type_text (fst s0)) (Str (snd s0))")
    case None
    with Cons.prems(2) show ?thesis by (simp add: r)
  next
    case (Some s)
    note d = decrypt_listed [OF Cons.prems(1) _ Cons.prems(2) Cons.prems(3) [unfolded r] t, of iv now s]
    obtain db1 x where x: "decrypt_credential va now iv s row db = (db1, x)" by (cases "decrypt_credential va now iv s row db")
    have db1: "rows_sound va db1" "snapshot_of va rows db1" using d x Cons.prems(5) by (auto simp: ivs)
    have "rows_sound va (fst (export_rows va now ivs' rows db1))"
      using Cons.IH [OF Cons.prems(1) db1] Cons.prems(4,5) by (simp add: ivs)
    with db1 x Some show ?thesis by (cases "export_rows va now ivs' rows db1") (auto simp: r ivs split: option.splits sum.splits)
  qed
qed simp

section \<open>Any run of requests\<close>

datatype credential_request =
    Issue bytes bytes string jsval
  | Rotate bytes bytes string jsval
  | Reinstall bytes bytes string jsval
  | Present subject string
  | Drop_subject subject
  | Export "bytes list"
  | Restore "bool list" "bytes list" "(string \<times> jsval \<times> string) list"
  | Reseal "bytes list"

fun credential_step :: "vault \<Rightarrow> int \<times> credential_request \<Rightarrow> credential_db \<Rightarrow> credential_db" where
  "credential_step va (now, Issue random iv t i) db = fst (get_or_create_agent_token va now random iv (\<lambda>d. d) (\<lambda>d. d) t i db)"
| "credential_step va (now, Rotate random iv t i) db = fst (rotate_agent_credential va now random iv (\<lambda>d. d) t i db)"
| "credential_step va (now, Reinstall random iv t i) db = fst (get_or_create_for_reinstall va now random iv (\<lambda>d. d) (\<lambda>d. d) t i db)"
| "credential_step va (now, Present s token) db = fst (verify_agent_credential va (now * 1000) s token db)"
| "credential_step va (now, Drop_subject s) db = delete_credential s db"
| "credential_step va (now, Export ivs) db = fst (export_agent_tokens va now ivs db)"
| "credential_step va (now, Restore ok ivs rows) db = fst (restore_agent_tokens va now ok ivs rows db)"
| "credential_step va (now, Reseal ivs) db = fst (migrate_agent_credential_encryption va now ivs db)"

text \<open>The random bytes have their lengths, and there are enough of them\<close>

fun draws_ok :: "credential_request \<Rightarrow> credential_db \<Rightarrow> bool" where
  "draws_ok (Issue random iv t i) db \<longleftrightarrow> length random = 32 \<and> length iv = 12"
| "draws_ok (Rotate random iv t i) db \<longleftrightarrow> length random = 32 \<and> length iv = 12"
| "draws_ok (Reinstall random iv t i) db \<longleftrightarrow> length random = 32 \<and> length iv = 12"
| "draws_ok (Present s token) db \<longleftrightarrow> True"
| "draws_ok (Drop_subject s) db \<longleftrightarrow> True"
| "draws_ok (Export ivs) db \<longleftrightarrow> length (kd_rows db) \<le> length ivs \<and> list_all (\<lambda>iv. length iv = 12) ivs"
| "draws_ok (Restore ok ivs rows) db \<longleftrightarrow> length rows \<le> length ivs \<and> list_all (\<lambda>iv. length iv = 12) ivs"
| "draws_ok (Reseal ivs) db \<longleftrightarrow> length (kd_rows db) \<le> length ivs \<and> list_all (\<lambda>iv. length iv = 12) ivs"

fun draws_run_ok :: "vault \<Rightarrow> (int \<times> credential_request) list \<Rightarrow> credential_db \<Rightarrow> bool" where
  "draws_run_ok va [] db \<longleftrightarrow> True"
| "draws_run_ok va (r # rs) db \<longleftrightarrow> draws_ok (snd r) db \<and> draws_run_ok va rs (credential_step va r db)"

lemma get_or_create_rows_sound:
  assumes "vault_ok va" "length iv = 12" "length random = 32" "rows_sound va db"
  shows "rows_sound va (fst (get_or_create_agent_token va now random iv (\<lambda>d. d) (\<lambda>d. d) t i db))"
proof (cases "normalize_subject t i")
  case (Some s)
  obtain d x where dx: "get_or_create_agent_token va now random iv (\<lambda>d. d) (\<lambda>d. d) t i db = (d, x)"
    by (cases "get_or_create_agent_token va now random iv (\<lambda>d. d) (\<lambda>d. d) t i db")
  have "rows_sound va d" by (rule get_or_create_sound(1) [OF assms Some _ _ dx])
  then show ?thesis by (simp add: dx)
qed (simp add: get_or_create_agent_token_def assms(4))

lemma credential_step_sound: "vault_ok va \<Longrightarrow> rows_sound va db \<Longrightarrow> draws_ok r db \<Longrightarrow> rows_sound va (credential_step va (now, r) db)"
proof (cases r)
  case (Reinstall random iv t i)
  assume va: "vault_ok va" and db: "rows_sound va db" and "draws_ok r db"
  then have l: "length iv = 12" "length random = 32" using Reinstall by auto
  obtain d x where dx: "get_or_create_agent_token va now random iv (\<lambda>d. d) (\<lambda>d. d) t i db = (d, x)"
    by (cases "get_or_create_agent_token va now random iv (\<lambda>d. d) (\<lambda>d. d) t i db")
  have "rows_sound va d" using get_or_create_rows_sound [OF va l db, of now t i] dx by simp
  then have "rows_sound va d" "rows_sound va (fst (rotate_agent_credential va now random iv (\<lambda>d. d) t i d))"
    using rotate_sound [OF va l] by auto
  then show ?thesis
    using dx by (auto simp: Reinstall get_or_create_for_reinstall_def split: sum.splits credential_error.splits prod.splits)
next
  case (Restore ok ivs rows)
  assume "vault_ok va" "rows_sound va db" "draws_ok r db"
  then have "rows_sound va (fst (restore_batches ok now stmts db))" if "restore_statements va {} ivs (take 10000 rows) = Inr stmts" for stmts
    using restore_statements_ok [OF that] by (intro restore_batches_sound) (auto simp: Restore list_all_iff)
  with \<open>rows_sound va db\<close> show ?thesis
    by (cases "restore_statements va {} ivs (take 10000 rows)") (simp_all add: Restore restore_agent_tokens_def split_beta)
next
  case (Export ivs)
  assume "vault_ok va" "rows_sound va db" "draws_ok r db"
  then have "rows_sound va (fst (export_rows va now ivs (sort_rows (kd_rows db)) db))"
    by (intro export_rows_sound snapshot_start) (auto simp: Export list_all_iff sort_rows_def)
  then show ?thesis by (simp add: Export export_agent_tokens_def)
next
  case (Reseal ivs)
  assume "vault_ok va" "rows_sound va db" "draws_ok r db"
  then have "rows_sound va (fst (migrate_rows va now ivs (sort_rows (kd_rows db)) 0 db))"
    by (intro migrate_rows_sound snapshot_start) (auto simp: Reseal list_all_iff sort_rows_def)
  with \<open>rows_sound va db\<close> show ?thesis
    by (auto simp: Reseal migrate_agent_credential_encryption_def split: prod.splits sum.splits)
qed (auto simp: get_or_create_rows_sound rotate_sound verify_sound delete_sound)

definition empty_db :: "(string \<times> bool) list \<Rightarrow> (string \<times> bool) list \<Rightarrow> credential_db" where
  "empty_db targets latency = \<lparr> kd_rows = [], kd_targets = targets, kd_latency = latency, kd_touched = [] \<rparr>"


section \<open>Issued tokens\<close>

text \<open>A token that is handed out for a subject, with any sound requests in between, is the one its row holds afterwards: it
  authenticates the subject, and another token does so only if its hash is the same.\<close>

theorem issued_token_authenticates:
  assumes "vault_ok va" "length iv = 12" "length random = 32" "rows_sound va db" "global_token va = []"
    and "\<And>d. rows_sound va d \<Longrightarrow> rows_sound va (gap d)" "\<And>d. rows_sound va d \<Longrightarrow> rows_sound va (gap' d)"
    and "get_or_create_agent_token va now random iv gap gap' type_field id_field db = (db', Inr token)"
  shows "\<exists>s. normalize_subject type_field id_field = Some s \<and> snd (verify_agent_credential va t s token db') \<and>
    (snd (verify_agent_credential va t s other db') \<longleftrightarrow> js_trim other \<noteq> [] \<and> va_sha va (js_trim other) = va_sha va token)"
proof -
  obtain s where s: "normalize_subject type_field id_field = Some s"
    using assms(8) by (cases "normalize_subject type_field id_field") (auto simp: get_or_create_agent_token_def)
  from get_or_create_sound(2) [OF assms(1-4) s assms(6-8) assms(5) refl]
  obtain row where "read_credential s db' = Some row" "row_holds va s token row" by blast
  from row_holds_verifies [OF assms(1) this] s show ?thesis by simp
qed

text \<open>C21: Two requests for a subject without a row, one running while the other waits, hand out the same token.\<close>

theorem concurrent_requests_share_a_token:
  assumes "vault_ok va" "length iv = 12" "length iv' = 12" "length random = 32" "length random' = 32" "rows_sound va db" "global_token va = []"
    and "normalize_subject type_field id_field = Some s" "read_credential s db = None" "primary_material_of (va_env va) \<noteq> []"
    and "other = get_or_create_agent_token va now' random' iv' (\<lambda>d. d) (\<lambda>d. d) type_field id_field"
  shows "snd (get_or_create_agent_token va now random iv (\<lambda>d. fst (other d)) (\<lambda>d. d) type_field id_field db) = snd (other db) \<and>
    snd (get_or_create_agent_token va now random iv (\<lambda>d. d) (\<lambda>d. fst (other d)) type_field id_field db) =
      snd (other (fst (get_or_create_agent_token va now random iv (\<lambda>d. d) (\<lambda>d. d) type_field id_field db)))"
proof -
  have seals: "\<exists>cipher. seal_token va n s tok = Some cipher" for n tok
    using assms(10) by (simp add: seal_token_def seal_secret_def)
  have legacy: "legacy_scoped_token va s = []" by (rule no_legacy [OF assms(7)])
  have primary: "(primary_material_of (va_env va), PrimaryKey) \<in> set (encryption_materials (va_env va))"
    using assms(10) by (simp add: encryption_materials_def primary_material_of_def)
  have seal: "sealing (va_enc va) (va_dec va)" using assms(1) by (simp add: vault_ok_def)
  have new_opens: "decrypt_credential va tm n s (new_credential va made tok cipher) d = (d, Some (tok, False))"
    if "seal_token va n' s tok = Some cipher" "length n' = 12" for tm made n n' tok cipher d
  proof -
    have "decrypt_token va s cipher = Some (tok, False)"
      using open_seal(1) [OF seal that(2)] that(1) by (simp add: decrypt_token_def seal_token_def)
    then show ?thesis by (simp add: decrypt_credential_def new_credential_def)
  qed
  have new_ok: "cd_hash (new_credential va tm tok cipher) \<noteq> [] \<and> cd_cipher (new_credential va tm tok cipher) \<noteq> []"
    if "seal_token va n s tok = Some cipher" for tm n tok cipher
    using assms(1) that sealed_trim by (auto simp: new_credential_def vault_ok_def seal_token_def)
  obtain c where c: "seal_token va iv s (random_token random) = Some c" using seals by blast
  obtain c' where c': "seal_token va iv' s (random_token random') = Some c'" using seals by blast
  let ?row = "new_credential va now (random_token random) c" and ?row' = "new_credential va now' (random_token random') c'"
  have fresh: "other d = (put_credential s ?row' d, Inr (random_token random'))" if "read_credential s d = None" for d
    using that legacy c' new_opens [OF c' assms(3)] by (simp add: assms(11,8) get_or_create_agent_token_def Let_def insert_or_ignore_def)
  have known: "other d = (d, Inr tok)" if "read_credential s d = Some (new_credential va tm tok cipher)" "seal_token va n s tok = Some cipher" "length n = 12" for d tm tok cipher n
    using that new_opens [OF that(2,3)] new_ok [OF that(2)] by (simp add: assms(11,8) get_or_create_agent_token_def Let_def)
  have "snd (get_or_create_agent_token va now random iv (\<lambda>d. fst (other d)) (\<lambda>d. d) type_field id_field db) = Inr (random_token random')"
    using legacy c assms(9) fresh [OF assms(9)] new_opens [OF c' assms(3)]
    by (simp add: assms(8) get_or_create_agent_token_def Let_def insert_or_ignore_def)
  moreover have "snd (get_or_create_agent_token va now random iv (\<lambda>d. d) (\<lambda>d. fst (other d)) type_field id_field db) = Inr (random_token random)"
    using legacy c assms(9) known [OF _ c assms(2), of "put_credential s ?row db" now] new_opens [OF c assms(2)]
    by (simp add: assms(8) get_or_create_agent_token_def Let_def insert_or_ignore_def)
  moreover have "fst (get_or_create_agent_token va now random iv (\<lambda>d. d) (\<lambda>d. d) type_field id_field db) = put_credential s ?row db"
    using legacy c assms(9) new_opens [OF c assms(2)]
    by (simp add: assms(8) get_or_create_agent_token_def Let_def insert_or_ignore_def)
  ultimately show ?thesis using fresh [OF assms(9)] known [OF _ c assms(2), of "put_credential s ?row db" now] by simp
qed

section \<open>Backups\<close>

definition canonical_subject :: "subject \<Rightarrow> bool" where
  "canonical_subject s \<longleftrightarrow> sanitize_agent_id (Str (snd s)) = snd s \<and> snd s \<noteq> []"

lemma type_text_parsed: "js_lower (js_trim (type_text t)) = type_text t"
proof (cases t)
  case Agent
  have "js_lower (js_trim ''agent'') = ''agent''" by code_simp
  with Agent show ?thesis by (simp only: type_text.simps)
next
  case Latency
  have "js_lower (js_trim ''latency'') = ''latency''" by code_simp
  with Latency show ?thesis by (simp only: type_text.simps)
qed

lemma normalize_canonical: "canonical_subject s \<Longrightarrow> normalize_subject (type_text (fst s)) (Str (snd s)) = Some s"
  unfolding normalize_subject_def canonical_subject_def type_text_parsed by (cases s; cases "fst s") auto

lemma export_rows_tokens:
  "vault_ok va \<Longrightarrow> rows_sound va db \<Longrightarrow> snapshot_of va rows db \<Longrightarrow> length rows \<le> length ivs \<Longrightarrow> \<forall>iv \<in> set ivs. length iv = 12 \<Longrightarrow>
   \<forall>r \<in> set rows. canonical_subject (fst r) \<Longrightarrow>
   \<exists>tokens. snd (export_rows va now ivs rows db) = Inr tokens \<and> list_all2 (\<lambda>(s, token) (s0, row). s = s0 \<and> row_holds va s token row) tokens rows"
proof (induction rows arbitrary: ivs db)
  case (Cons r rows)
  obtain s0 row where r: "r = (s0, row)" by (cases r)
  obtain iv ivs' where ivs: "ivs = iv # ivs'" using Cons.prems(4) by (cases ivs) auto
  obtain token where t: "row_holds va s0 token row" using Cons.prems(3) r by (auto simp: snapshot_of_def)
  have n: "normalize_subject (type_text (fst s0)) (Str (snd s0)) = Some s0" using Cons.prems(6) by (intro normalize_canonical) (simp add: r)
  note d = decrypt_listed [OF Cons.prems(1) _ Cons.prems(2) Cons.prems(3) [unfolded r] t, of iv now s0]
  obtain db1 x where x: "decrypt_credential va now iv s0 row db = (db1, x)" by (cases "decrypt_credential va now iv s0 row db")
  have db1: "rows_sound va db1" "snapshot_of va rows db1" and "map_option fst x = Some token" using d x Cons.prems(5) by (auto simp: ivs)
  then obtain migrated where m: "x = Some (token, migrated)" by auto
  obtain tokens where tokens: "snd (export_rows va now ivs' rows db1) = Inr tokens"
    "list_all2 (\<lambda>(s, token) (s0, row). s = s0 \<and> row_holds va s token row) tokens rows"
    using Cons.IH [OF Cons.prems(1) db1, of ivs'] Cons.prems(4-6) by (auto simp: ivs)
  show ?case
    using tokens t x m n by (cases "export_rows va now ivs' rows db1") (auto simp: r ivs intro!: exI [of _ "(s0, token) # tokens"])
qed simp

lemma restore_statements_tokens:
  assumes "primary_material_of (va_env va) \<noteq> []"
  shows "distinct (map fst tokens) \<Longrightarrow> seen \<inter> fst ` set tokens = {} \<Longrightarrow> \<forall>(s, token) \<in> set tokens. canonical_subject s \<and> token_format token \<Longrightarrow>
   \<exists>stmts. restore_statements va seen ivs (map (\<lambda>(s, token). (type_text (fst s), Str (snd s), token)) tokens) = Inr stmts \<and>
     list_all2 (\<lambda>(s, hash, cipher) (s0, token). s = s0 \<and> hash = va_sha va token) stmts tokens"
proof (induction tokens arbitrary: seen ivs)
  case (Cons x tokens)
  obtain s token where x: "x = (s, token)" by (cases x)
  have n: "normalize_subject (type_text (fst s)) (Str (snd s)) = Some s" and f: "token_format token" "js_trim token = token"
    using Cons.prems(3) token_format_trim by (auto simp: x intro: normalize_canonical)
  obtain cipher where c: "seal_token va (hd ivs) s token = Some cipher" using assms by (simp add: seal_token_def seal_secret_def)
  obtain stmts where st: "restore_statements va (insert s seen) (tl ivs) (map (\<lambda>(s, token). (type_text (fst s), Str (snd s), token)) tokens) = Inr stmts"
    "list_all2 (\<lambda>(s, hash, cipher) (s0, token). s = s0 \<and> hash = va_sha va token) stmts tokens"
    using Cons.IH [of "insert s seen" "tl ivs"] Cons.prems by (auto simp: x)
  have "s \<notin> seen" using Cons.prems(2) by (auto simp: x)
  with st n f c show ?case by (auto simp: x intro!: exI [of _ "(s, va_sha va token, cipher) # stmts"])
qed simp

lemma restore_batches_all: "restore_batches [] now stmts db = (fold (upsert_credential now) stmts db, True)"
proof (induction "length stmts" arbitrary: stmts db rule: less_induct)
  case less
  show ?case
  proof (cases "stmts = []")
    case False
    have "restore_batches [] now stmts db = restore_batches [] now (drop 50 stmts) (fold (upsert_credential now) (take 50 stmts) db)"
      using False by (subst restore_batches.simps) simp
    also have "\<dots> = (fold (upsert_credential now) (drop 50 stmts) (fold (upsert_credential now) (take 50 stmts) db), True)"
      by (rule less) (use False in simp)
    also have "\<dots> = (fold (upsert_credential now) (take 50 stmts @ drop 50 stmts) db, True)" by (simp only: fold_append comp_apply)
    finally show ?thesis unfolding append_take_drop_id .
  qed (subst restore_batches.simps, simp)
qed

lemma upsert_hash: "map_option cd_hash (read_credential s' (upsert_credential now (s, h, c) db)) = (if s' = s then Some h else map_option cd_hash (read_credential s' db))"
  by (simp add: upsert_credential_def split: option.split)

lemma fold_upsert_hash:
  "distinct (map fst stmts) \<Longrightarrow>
   map_option cd_hash (read_credential s (fold (upsert_credential now) stmts db)) =
     (case map_of stmts s of Some (h, c) \<Rightarrow> Some h | None \<Rightarrow> map_option cd_hash (read_credential s db))"
proof (induction stmts arbitrary: db)
  case (Cons st stmts)
  obtain s0 h c where "st = (s0, h, c)" by (cases st)
  then show ?case using Cons by (auto simp: upsert_hash map_of_eq_None_iff [symmetric] split: option.split)
qed simp

text \<open>C22: A backup of sound rows with canonical subjects restores on another deployment with keys of its own, and every token that
  authenticated a subject before does so there.\<close>

theorem backup_keeps_tokens:
  assumes "vault_ok va" "vault_ok va'" "va_sha va' = va_sha va" "rows_sound va db" "\<forall>r \<in> set (kd_rows db). canonical_subject (fst r)"
    and "length (kd_rows db) \<le> length ivs" "\<forall>iv \<in> set ivs. length iv = 12" "length (kd_rows db) \<le> 10000" "primary_material_of (va_env va') \<noteq> []"
    and "snd (verify_agent_credential va t s token db)"
  shows "\<exists>tokens. snd (export_agent_tokens va now ivs db) = Inr tokens \<and>
    (let r = restore_agent_tokens va' now' [] ivs' (map (\<lambda>(s, token). (type_text (fst s), Str (snd s), token)) tokens) db2
     in snd r = Inr (length (kd_rows db)) \<and> snd (verify_agent_credential va' t' s token (fst r)))"
proof -
  let ?R = "sort_rows (kd_rows db)"
  have R: "set ?R = set (kd_rows db)" "length ?R = length (kd_rows db)" by (simp_all add: sort_rows_def)
  have keys: "distinct (map fst (kd_rows db))" using assms(4) by (simp add: rows_sound_def)
  then have "distinct (map fst ?R)" unfolding distinct_map R(1) by (simp add: sort_rows_def)
  obtain tokens where tokens: "snd (export_rows va now ivs ?R db) = Inr tokens" and l: "list_all2 (\<lambda>(s, token) (s0, row). s = s0 \<and> row_holds va s token row) tokens ?R"
    using export_rows_tokens [OF assms(1,4) snapshot_start [OF assms(4)] _ assms(7), of now] assms(5,6) R by auto
  have fst_tokens: "map fst tokens = map fst ?R" using l by (induction rule: list_all2_induct) auto
  have tk: "\<forall>(s, token) \<in> set tokens. canonical_subject s \<and> token_format token"
  proof -
    have "\<forall>r \<in> set ?R. canonical_subject (fst r)" using assms(5) R by simp
    with l show ?thesis by (induction rule: list_all2_induct) (auto simp: row_holds_def)
  qed
  obtain stmts where st: "restore_statements va' {} ivs' (map (\<lambda>(s, token). (type_text (fst s), Str (snd s), token)) tokens) = Inr stmts"
    and ls: "list_all2 (\<lambda>(s, hash, cipher) (s0, token). s = s0 \<and> hash = va_sha va' token) stmts tokens"
    using restore_statements_tokens [OF assms(9), of tokens "{}" ivs'] \<open>distinct (map fst ?R)\<close> tk by (auto simp: fst_tokens)
  have fst_stmts: "map fst stmts = map fst ?R" using ls unfolding fst_tokens [symmetric] by (induction rule: list_all2_induct) auto
  have lens: "length tokens = length (kd_rows db)" "length stmts = length (kd_rows db)"
    using l ls R(2) by (auto dest!: list_all2_lengthD)
  let ?r = "restore_agent_tokens va' now' [] ivs' (map (\<lambda>(s, token). (type_text (fst s), Str (snd s), token)) tokens) db2"
  have r: "?r = (fold (upsert_credential now') stmts db2, Inr (length (kd_rows db)))"
    using st lens assms(8) by (simp add: restore_agent_tokens_def restore_batches_all)
  have combined: "list_all2 (\<lambda>(s, hash, cipher) (s0, row). s = s0 \<and> hash = cd_hash row) stmts ?R"
    by (rule list_all2_trans [OF _ ls l]) (auto simp: row_holds_def assms(3))
  obtain row where row: "read_credential s db = Some row" and v: "js_trim token \<noteq> []" "cd_hash row \<noteq> []" "va_sha va (js_trim token) = cd_hash row"
    using assms(10) by (auto simp: verify_iff token_of_row_def split: option.splits)
  then have "(s, row) \<in> set ?R" using R by (auto simp: read_credential_def dest: map_of_SomeD)
  then obtain st1 where "st1 \<in> set stmts" "(\<lambda>(s, hash, cipher) (s0, row). s = s0 \<and> hash = cd_hash row) st1 (s, row)"
    using combined by (metis (no_types, lifting) in_set_conv_nth list_all2_conv_all_nth)
  then obtain c where "(s, cd_hash row, c) \<in> set stmts" by (cases st1) auto
  then have "map_of stmts s = Some (cd_hash row, c)" using fst_stmts \<open>distinct (map fst ?R)\<close> by (simp add: map_of_eq_Some_iff)
  then have "map_option cd_hash (read_credential s (fold (upsert_credential now') stmts db2)) = Some (cd_hash row)"
    using fold_upsert_hash [of stmts s now' db2] fst_stmts \<open>distinct (map fst ?R)\<close> by simp
  then have "token_of_row va' s token (fst ?r)" using v assms(3) by (auto simp: r token_of_row_def)
  with r tokens show ?thesis by (auto simp: export_agent_tokens_def verify_iff Let_def)
qed

text \<open>A row whose identifier changes when it is normalized again ends the export of all rows\<close>

lemma export_rows_fails:
  "vault_ok va \<Longrightarrow> rows_sound va db \<Longrightarrow> snapshot_of va rows db \<Longrightarrow> length rows \<le> length ivs \<Longrightarrow> \<forall>iv \<in> set ivs. length iv = 12 \<Longrightarrow>
   \<exists>r \<in> set rows. sanitize_agent_id (Str (snd (fst r))) \<noteq> snd (fst r) \<Longrightarrow> \<exists>e. snd (export_rows va now ivs rows db) = Inl e"
proof (induction rows arbitrary: ivs db)
  case (Cons r rows)
  obtain s0 row where r: "r = (s0, row)" by (cases r)
  obtain iv ivs' where ivs: "ivs = iv # ivs'" using Cons.prems(4) by (cases ivs) auto
  obtain token where t: "row_holds va s0 token row" using Cons.prems(3) r by (auto simp: snapshot_of_def)
  show ?case
  proof (cases "normalize_subject (type_text (fst s0)) (Str (snd s0))")
    case (Some s)
    note d = decrypt_listed [OF Cons.prems(1) _ Cons.prems(2) Cons.prems(3) [unfolded r] t, of iv now s]
    obtain db1 x where x: "decrypt_credential va now iv s row db = (db1, x)" by (cases "decrypt_credential va now iv s row db")
    have db1: "rows_sound va db1" "snapshot_of va rows db1" "map_option fst x = (if s = s0 then Some token else None)"
      using d x Cons.prems(5) by (auto simp: ivs)
    show ?thesis
    proof (cases "s = s0")
      case True
      then have "sanitize_agent_id (Str (snd s0)) = snd s0"
        using Some by (auto simp: normalize_subject_def Let_def split: if_splits) (metis snd_conv)+
      then have "\<exists>e. snd (export_rows va now ivs' rows db1) = Inl e"
        using Cons.IH [OF Cons.prems(1) db1(1,2), of ivs'] Cons.prems(4-6) by (auto simp: ivs r)
      with True db1(3) x Some show ?thesis by (cases "export_rows va now ivs' rows db1") (auto simp: r ivs)
    next
      case False
      with db1(3) x Some show ?thesis by (simp add: r ivs)
    qed
  qed (simp add: r)
qed simp

text \<open>One subject whose identifier ends in a dash, as an identifier cut at 64 characters may, makes every backup of the tokens
  fail: the export normalizes the identifier again and opens the token under another name than it was sealed with.\<close>

theorem cut_identifier_blocks_the_export:
  assumes "vault_ok va" "rows_sound va db" "r \<in> set (kd_rows db)" "sanitize_agent_id (Str (snd (fst r))) \<noteq> snd (fst r)"
    and "length (kd_rows db) \<le> length ivs" "\<forall>iv \<in> set ivs. length iv = 12"
  shows "\<exists>e. snd (export_agent_tokens va now ivs db) = Inl e"
proof -
  have R: "set (sort_rows (kd_rows db)) = set (kd_rows db)" "length (sort_rows (kd_rows db)) = length (kd_rows db)"
    by (simp_all add: sort_rows_def)
  have "\<exists>r \<in> set (sort_rows (kd_rows db)). sanitize_agent_id (Str (snd (fst r))) \<noteq> snd (fst r)" using assms(3,4) unfolding R(1) by blast
  from export_rows_fails [OF assms(1,2) snapshot_start [OF assms(2)] _ assms(6) this, of now] assms(5) R(2)
  show ?thesis by (simp add: export_agent_tokens_def)
qed

section \<open>A concrete deployment\<close>

definition sample_vault :: vault where
  "sample_vault = \<lparr> va_sha = (\<lambda>x. CHR ''h'' # x), va_enc = framed_enc, va_dec = framed_dec,
     va_env = Obj [(''TOTP_ENCRYPTION_KEY'', Str ''k'')] \<rparr>"

lemma sample_vault_facts: "vault_ok sample_vault" "global_token sample_vault = []" "primary_material_of (va_env sample_vault) \<noteq> []"
proof -
  show "vault_ok sample_vault" by (simp add: vault_ok_def sample_vault_def framed_sealing)
  show "global_token sample_vault = []" by code_simp
  have "primary_material_of (Obj [(''TOTP_ENCRYPTION_KEY'', Str ''k'')]) \<noteq> []" by code_simp
  then show "primary_material_of (va_env sample_vault) \<noteq> []" by (simp add: sample_vault_def)
qed

lemma fresh_issue:
  assumes "vault_ok va" "length iv = 12" "global_token va = []" "primary_material_of (va_env va) \<noteq> []"
    and "normalize_subject type_field id_field = Some s" "read_credential s db = None"
  shows "\<exists>cipher. get_or_create_agent_token va now random iv (\<lambda>d. d) (\<lambda>d. d) type_field id_field db =
    (put_credential s (new_credential va now (random_token random) cipher) db, Inr (random_token random)) \<and>
    seal_token va iv s (random_token random) = Some cipher"
proof -
  have seal: "sealing (va_enc va) (va_dec va)" using assms(1) by (simp add: vault_ok_def)
  obtain c where c: "seal_token va iv s (random_token random) = Some c" using assms(4) by (simp add: seal_token_def seal_secret_def)
  have "decrypt_token va s c = Some (random_token random, False)"
    using open_seal(1) [OF seal assms(2)] c by (simp add: decrypt_token_def seal_token_def)
  with c assms(5,6) no_legacy [OF assms(3)] show ?thesis
    by (simp add: get_or_create_agent_token_def Let_def insert_or_ignore_def decrypt_credential_def new_credential_def)
qed

definition sample_issue :: "string \<Rightarrow> credential_db \<times> (credential_error + string)" where
  "sample_issue i = get_or_create_agent_token sample_vault 7 (replicate 32 5) (replicate 12 0) (\<lambda>d. d) (\<lambda>d. d) ''agent'' (Str i) (empty_db [] [])"

lemma sample_issue_facts:
  assumes "normalize_subject ''agent'' (Str i) = Some s"
  shows "snd (sample_issue i) = Inr (random_token (replicate 32 5))" "rows_sound sample_vault (fst (sample_issue i))"
    "\<exists>row. kd_rows (fst (sample_issue i)) = [(s, row)] \<and> row_holds sample_vault s (random_token (replicate 32 5)) row"
proof -
  have empty: "rows_sound sample_vault (empty_db [] [])" "read_credential s (empty_db [] []) = None"
    by (simp_all add: rows_sound_def empty_db_def read_credential_def)
  obtain cipher where c: "sample_issue i = (put_credential s (new_credential sample_vault 7 (random_token (replicate 32 5)) cipher) (empty_db [] []), Inr (random_token (replicate 32 5)))"
    "seal_token sample_vault (replicate 12 0) s (random_token (replicate 32 5)) = Some cipher"
    using fresh_issue [OF sample_vault_facts(1) _ sample_vault_facts(2,3) assms empty(2), of "replicate 12 0" 7 "replicate 32 5"]
    unfolding sample_issue_def by auto
  then have holds: "row_holds sample_vault s (random_token (replicate 32 5)) (new_credential sample_vault 7 (random_token (replicate 32 5)) cipher)"
    unfolding new_credential_def by (intro sealed_holds(2) [OF sample_vault_facts(1) c(2)] random_token_format) simp_all
  show "snd (sample_issue i) = Inr (random_token (replicate 32 5))" by (simp add: c(1))
  show "rows_sound sample_vault (fst (sample_issue i))" unfolding c(1) fst_conv by (rule rows_sound_put [OF empty(1) holds])
  show "\<exists>row. kd_rows (fst (sample_issue i)) = [(s, row)] \<and> row_holds sample_vault s (random_token (replicate 32 5)) row"
    using holds by (simp add: c(1) put_credential_def empty_db_def)
qed

lemma web_subject: "normalize_subject ''agent'' (Str ''web'') = Some (Agent, ''web'')" by code_simp


theorem issued_token_authenticates_witness:
  "\<exists>s. normalize_subject ''agent'' (Str ''web'') = Some s \<and>
     snd (verify_agent_credential sample_vault 9000 s (random_token (replicate 32 5)) (fst (sample_issue ''web'')))"
proof -
  have "get_or_create_agent_token sample_vault 7 (replicate 32 5) (replicate 12 0) (\<lambda>d. d) (\<lambda>d. d) ''agent'' (Str ''web'') (empty_db [] []) =
      (fst (sample_issue ''web''), Inr (random_token (replicate 32 5)))"
    using sample_issue_facts(1) [OF web_subject] unfolding sample_issue_def by (simp add: prod_eq_iff)
  from issued_token_authenticates [OF sample_vault_facts(1) _ _ _ sample_vault_facts(2) _ _ this, of 9000 "[]"]
  show ?thesis by (auto simp: rows_sound_def empty_db_def read_credential_def)
qed

theorem concurrent_requests_share_a_token_witness:
  "snd (get_or_create_agent_token sample_vault 7 (replicate 32 5) (replicate 12 0)
      (\<lambda>d. fst (get_or_create_agent_token sample_vault 7 (replicate 32 6) (replicate 12 1) (\<lambda>d. d) (\<lambda>d. d) ''agent'' (Str ''web'') d)) (\<lambda>d. d) ''agent'' (Str ''web'') (empty_db [] []))
   = snd (get_or_create_agent_token sample_vault 7 (replicate 32 6) (replicate 12 1) (\<lambda>d. d) (\<lambda>d. d) ''agent'' (Str ''web'') (empty_db [] []))"
  by (rule concurrent_requests_share_a_token [OF sample_vault_facts(1) _ _ _ _ _ sample_vault_facts(2) web_subject _ sample_vault_facts(3) refl, THEN conjunct1])
    (simp_all add: rows_sound_def empty_db_def read_credential_def)

text \<open>A second deployment with a key of its own\<close>

definition other_vault :: vault where
  "other_vault = sample_vault\<lparr> va_env := Obj [(''TOTP_ENCRYPTION_KEY'', Str ''x'')] \<rparr>"

theorem backup_keeps_tokens_witness:
  "\<exists>tokens. snd (export_agent_tokens sample_vault 9 [replicate 12 1] (fst (sample_issue ''web''))) = Inr tokens \<and>
     snd (verify_agent_credential other_vault 9000 (Agent, ''web'') (random_token (replicate 32 5))
       (fst (restore_agent_tokens other_vault 10 [] [replicate 12 2] (map (\<lambda>(s, token). (type_text (fst s), Str (snd s), token)) tokens) (empty_db [] []))))"
proof -
  obtain row where row: "kd_rows (fst (sample_issue ''web'')) = [((Agent, ''web''), row)]" "row_holds sample_vault (Agent, ''web'') (random_token (replicate 32 5)) row"
    using sample_issue_facts(3) [OF web_subject] by blast
  have "vault_ok other_vault" "va_sha other_vault = va_sha sample_vault"
    using sample_vault_facts(1) by (simp_all add: other_vault_def vault_ok_def)
  moreover have "primary_material_of (Obj [(''TOTP_ENCRYPTION_KEY'', Str ''x'')]) \<noteq> []" by code_simp
  then have "primary_material_of (va_env other_vault) \<noteq> []" by (simp add: other_vault_def)
  moreover have "sanitize_agent_id (Str ''web'') = ''web''" by code_simp
  moreover have "snd (verify_agent_credential sample_vault 0 (Agent, ''web'') (random_token (replicate 32 5)) (fst (sample_issue ''web'')))"
    by (rule row_holds_verifies(1) [OF sample_vault_facts(1) _ row(2)]) (simp add: row(1) read_credential_def)
  ultimately show ?thesis
    using backup_keeps_tokens [OF sample_vault_facts(1) _ _ sample_issue_facts(2) [OF web_subject], of other_vault "[replicate 12 1]" 0 "(Agent, ''web'')" "random_token (replicate 32 5)" 9 10 "[replicate 12 2]" "empty_db [] []" 9000]
    by (auto simp: row(1) canonical_subject_def Let_def)
qed

theorem cut_identifier_blocks_the_export_witness:
  "\<exists>e. snd (export_agent_tokens sample_vault 9 [replicate 12 1] (fst (sample_issue (replicate 63 (CHR ''a'') @ ''-b'')))) = Inl e"
proof -
  have "sanitize_agent_id (Str (replicate 63 (CHR ''a'') @ ''-b'')) = replicate 63 (CHR ''a'') @ ''-''" by code_simp
  moreover have "js_lower (js_trim ''agent'') = ''agent''" by code_simp
  ultimately have n: "normalize_subject ''agent'' (Str (replicate 63 (CHR ''a'') @ ''-b'')) = Some (Agent, replicate 63 (CHR ''a'') @ ''-'')"
    by (simp add: normalize_subject_def)
  have cut: "sanitize_agent_id (Str (replicate 63 (CHR ''a'') @ ''-'')) \<noteq> replicate 63 (CHR ''a'') @ ''-''" by code_simp
  obtain row where row: "kd_rows (fst (sample_issue (replicate 63 (CHR ''a'') @ ''-b''))) = [((Agent, replicate 63 (CHR ''a'') @ ''-''), row)]"
    using sample_issue_facts(3) [OF n] by blast
  show ?thesis
    by (rule cut_identifier_blocks_the_export [OF sample_vault_facts(1) sample_issue_facts(2) [OF n], of "((Agent, replicate 63 (CHR ''a'') @ ''-''), row)"])
      (use cut in \<open>simp_all add: row\<close>)
qed

end
