(* ===== verification/CheckBuckets.thy ===== *)
theory CheckBuckets
  imports ProbeRun ProbeHistory PingHistory
begin

text \<open>
  \<open>worker/src/admin/check-buckets.js\<close> beyond the statements of a check (\<open>ProbeRun\<close>): the history of a target as it is read
  from D1 and the history hub, the sums of a day, the plan and the result of the summaries, and the maintenance of the
  tables.

  \<^item> \<open>bd_days\<close> is the table \<open>check_bucket_days\<close>. A read of the hub is the argument \<open>hub\<close> (\<open>None\<close>: it fails), \<open>enabled\<close> is
    \<open>probeHistoryEnabled(env)\<close>.
  \<^item> Keys \<open>target|day\<close> of the code are pairs. Statements that fail are the arguments \<open>committed\<close> and \<open>ok\<close>.
\<close>

record bucket_db = probe_db +
  bd_days :: "((string \<times> string) \<times> day_sums) list"

section \<open>Points\<close>

text \<open>A row as the statements select it, and a point of the hub as its response has it\<close>

definition bucket_json :: "int \<Rightarrow> bucket_row \<Rightarrow> jsval" where
  "bucket_json t r =
     Obj [(''checked_at'', JInt t), (''ok'', Num (bk_ok r)), (''latency_ms'', opt_json Num (bk_latency r)),
          (''status_code'', opt_json Num (bk_status r)), (''error'', opt_json Str (bk_error r)), (''probe_region'', Str (bk_region r)),
          (''total'', Num (bk_total r)), (''ok_count'', Num (bk_ok_count r))]"

definition public_json :: "public_point \<Rightarrow> jsval" where
  "public_json p =
     Obj [(''missed'', Bool (qp_missed p)), (''checked_at'', JInt (qp_at p)), (''ok'', Num (qp_ok p)), (''latency_ms'', opt_json Num (qp_latency p)),
          (''status_code'', opt_json Num (qp_status p)), (''error'', opt_json Str (qp_error p)), (''probe_region'', Str (qp_region p)),
          (''total'', Num (qp_total p)), (''ok_count'', Num (qp_ok_count p)), (''bucket'', Bool True)]"

definition stored_point :: "int \<Rightarrow> bucket_row \<Rightarrow> public_point" where
  "stored_point t r =
     (let missed = is_missed_monitor_point (bucket_json t r); zero = (\<lambda>n. num_or n (jsint 0))
      in \<lparr> qp_missed = missed \<or> (zero (bk_total r) = jsint 0 \<and> zero (bk_ok_count r) = jsint 0), qp_at = t,
           qp_ok = (if missed then jsint 0 else zero (bk_ok r)), qp_latency = (if missed then None else bk_latency r),
           qp_status = (if missed then None else bk_status r), qp_error = bk_error r,
           qp_region = (if bk_region r = [] then ''auto'' else bk_region r),
           qp_total = (if missed then js_max (jsint 1) (num_or (zero (bk_total r)) (jsint 1)) else zero (bk_total r)),
           qp_ok_count = (if missed then jsint 0 else zero (bk_ok_count r)) \<rparr>)"

definition missed_public :: "missed_point \<Rightarrow> public_point" where
  "missed_public m =
     \<lparr> qp_missed = True, qp_at = mp_at m, qp_ok = jsint 0, qp_latency = None, qp_status = None, qp_error = Some missed_message,
       qp_region = js_String (mp_region m), qp_total = jsint 1, qp_ok_count = jsint 0 \<rparr>"

type_synonym hub_read = "string \<Rightarrow> int \<Rightarrow> int \<Rightarrow> string \<Rightarrow> string \<Rightarrow> public_point list option"

text \<open>\<open>readBufferedProbeHistory(...).catch(() => [])\<close>\<close>

definition buffered_points :: "bool \<Rightarrow> hub_read \<Rightarrow> string \<Rightarrow> int \<Rightarrow> int \<Rightarrow> string \<Rightarrow> string \<Rightarrow> public_point list" where
  "buffered_points enabled hub target since until from_day to_day =
     (if enabled then case hub target since until from_day to_day of None \<Rightarrow> [] | Some points \<Rightarrow> points else [])"

section \<open>The history of a target\<close>

definition rows_since :: "string \<Rightarrow> int \<Rightarrow> ((string \<times> int) \<times> bucket_row) list \<Rightarrow> (int \<times> bucket_row) list" where
  "rows_since target since rows = sort_key fst (map (\<lambda>((_, t), r). (t, r)) (filter (\<lambda>((x, t), _). x = target \<and> since \<le> t) rows))"

fun fill_gaps :: "int \<Rightarrow> jsval \<Rightarrow> public_point list \<Rightarrow> public_point list" where
  "fill_gaps now env [] = []"
| "fill_gaps now env [p] = [p]"
| "fill_gaps now env (p # q # ps) =
     p # map missed_public (build_missed_points now env (qp_at p) (qp_at q) (Str (qp_region q)) None) @ fill_gaps now env (q # ps)"

definition stored_history :: "int \<Rightarrow> jsval \<Rightarrow> bool \<Rightarrow> hub_read \<Rightarrow> string \<Rightarrow> int \<Rightarrow> 'a bucket_db_scheme \<Rightarrow> public_point list" where
  "stored_history now env enabled hub target days db =
     (let since = now - days * 86400;
          legacy = filter (\<lambda>p. 0 < qp_at p) (map (\<lambda>(t, r). stored_point t r) (rows_since target since (pd_buckets db)));
          buffered = buffered_points enabled hub target since now (day_from_sec now env since) (day_from_sec now env now)
      in sort_key qp_at (map snd (upserts qp_at (legacy @ buffered) [])))"

definition read_check_buckets :: "int \<Rightarrow> jsval \<Rightarrow> bool \<Rightarrow> hub_read \<Rightarrow> string \<Rightarrow> int \<Rightarrow> 'a bucket_db_scheme \<Rightarrow> public_point list" where
  "read_check_buckets now env enabled hub target days db =
     (let stored = stored_history now env enabled hub target days db
      in if stored = [] then []
         else let newest = last stored
              in fill_gaps now env stored @
                 map missed_public (build_open_missed_points now env (qp_at newest) (Str (qp_region newest)) now (Str (qp_region newest))))"

section \<open>The sums of a day\<close>

definition add_check_point :: "jsval \<Rightarrow> day_sums \<Rightarrow> day_sums" where
  "add_check_point p = (\<lambda>(total, ok, lat).
     if is_missed_monitor_point p then (total, ok, lat)
     else let n = js_max (jsint 0) (num_or0 (js_get p ''total'')); k = js_max (jsint 0) (num_or0 (js_get p ''ok_count''));
              l = js_Number (js_get p ''latency_ms'')
          in (js_add total n, js_add ok k, if num_truthy k \<and> js_isFinite l then js_add lat (js_mul l k) else lat))"

definition no_sums :: day_sums where "no_sums = (jsint 0, jsint 0, jsint 0)"

definition summarize_check_points :: "jsval list \<Rightarrow> day_sums" where
  "summarize_check_points points = fold add_check_point points no_sums"

text \<open>\<open>last_error LIKE '%monitor missed this 5-minute check%'\<close>, without regard to case\<close>

definition row_missed :: "bucket_row \<Rightarrow> bool" where
  "row_missed r = (case bk_error r of None \<Rightarrow> False | Some e \<Rightarrow> js_includes missed_message (js_lower e))"

definition sql_sums :: "bucket_row list \<Rightarrow> day_sums" where
  "sql_sums rows = fold (\<lambda>r (total, ok, lat).
     if row_missed r then (total, ok, lat) else (js_add total (bk_total r), js_add ok (bk_ok_count r), js_add lat (bk_latency_sum r))) rows no_sums"

definition day_rows :: "string \<Rightarrow> string \<Rightarrow> int \<Rightarrow> ((string \<times> int) \<times> bucket_row) list \<Rightarrow> (int \<times> bucket_row) list" where
  "day_rows target day before_at rows =
     sort_key fst (map (\<lambda>((_, t), r). (t, r)) (filter (\<lambda>((x, t), r). x = target \<and> bk_day r = day \<and> t < before_at) rows))"

definition read_check_bucket_day_summary :: "jsval \<Rightarrow> bool \<Rightarrow> hub_read \<Rightarrow> string \<Rightarrow> string \<Rightarrow> int \<Rightarrow> 'a bucket_db_scheme \<Rightarrow> day_sums" where
  "read_check_bucket_day_summary env enabled hub target day before_at db =
     (let rows = day_rows target day before_at (pd_buckets db)
      in if enabled then
           let since = (case day_start_sec env day of None \<Rightarrow> 0 | Some s \<Rightarrow> s);
               buffered = buffered_points enabled hub target since (before_at - 1) day day
           in summarize_check_points
                (map (snd \<circ> snd) (upserts fst (map (\<lambda>(t, r). (t, bucket_json t r)) rows @ map (\<lambda>p. (qp_at p, public_json p)) buffered) []))
         else sql_sums (map snd rows))"

section \<open>Which days of which targets\<close>

record query_options =
  qo_targets :: "string list option"
  qo_recent :: string
  qo_history :: "string list"
  qo_ranges :: "(string \<times> string \<times> string list) list"

text \<open>\<open>day >= pl_from\<close>, below \<open>pl_upto\<close> and for \<open>pl_ids\<close> when it is a historical plan, and for a chunk of the targets\<close>

record query_plan =
  pl_from :: string
  pl_upto :: "string option"
  pl_ids :: "string list"
  pl_chunk :: "string list option"

definition plan_params :: "query_plan \<Rightarrow> string list" where
  "plan_params p = pl_from p # (case pl_upto p of None \<Rightarrow> [] | Some d \<Rightarrow> d # pl_ids p) @ (case pl_chunk p of None \<Rightarrow> [] | Some ids \<Rightarrow> ids)"

definition plan_selects :: "query_plan \<Rightarrow> string \<Rightarrow> string \<Rightarrow> bool" where
  "plan_selects p target day \<longleftrightarrow>
     pl_from p \<le> day \<and> (case pl_upto p of None \<Rightarrow> True | Some d \<Rightarrow> day < d \<and> target \<in> set (pl_ids p))
     \<and> (case pl_chunk p of None \<Rightarrow> True | Some ids \<Rightarrow> target \<in> set ids)"

definition named_ids :: "string list \<Rightarrow> string list" where
  "named_ids ids = set_order (filter (\<lambda>i. i \<noteq> []) ids)"

definition check_bucket_summary_query_plan :: "string \<Rightarrow> query_options \<Rightarrow> query_plan list" where
  "check_bucket_summary_query_plan start_day opts =
     (let target_ids = map_option named_ids (qo_targets opts);
          recent = (if qo_recent opts = [] then start_day else qo_recent opts);
          historical = named_ids (qo_history opts);
          ranges = filter (\<lambda>(f, t, ids). f \<noteq> [] \<and> t \<noteq> [] \<and> f < t \<and> ids \<noteq> []) (map (\<lambda>(f, t, ids). (take 10 f, take 10 t, named_ids ids)) (qo_ranges opts));
          live = \<lparr> pl_from = recent, pl_upto = None, pl_ids = [], pl_chunk = None \<rparr>;
          past = (if start_day < recent \<and> ranges \<noteq> [] then
                    List.map_filter (\<lambda>(f, t, ids). let f' = (if f < start_day then start_day else f); t' = (if t > recent then recent else t)
                      in if t' \<le> f' then None else Some \<lparr> pl_from = f', pl_upto = Some t', pl_ids = ids, pl_chunk = None \<rparr>) ranges
                  else if start_day < recent \<and> historical \<noteq> [] then [\<lparr> pl_from = start_day, pl_upto = Some recent, pl_ids = historical, pl_chunk = None \<rparr>]
                  else [])
      in case target_ids of
           None \<Rightarrow> live # past
         | Some ids \<Rightarrow> concat (map (\<lambda>p. map (\<lambda>c. p\<lparr> pl_chunk := Some c \<rparr>) (chunks_of 90 ids)) (live # past)))"

text \<open>\<open>buildSummaryFallbackOptions\<close>: the days that neither the state nor the cache of the summaries has, as ranges\<close>

definition required_days :: "string \<Rightarrow> int \<Rightarrow> string list" where
  "required_days start_day days = map (\<lambda>i. add_days start_day (int i)) [0..<nat (max 1 days)]"

fun day_runs :: "string \<Rightarrow> string \<Rightarrow> string list \<Rightarrow> (string \<times> string) list" where
  "day_runs start previous [] = [(start, add_days previous 1)]"
| "day_runs start previous (d # ds) =
     (if d \<noteq> add_days previous 1 then (start, add_days previous 1) # day_runs d d ds else day_runs start d ds)"

record fallback_input =
  fi_start :: string
  fi_days :: int
  fi_current :: string
  fi_targets :: "string list"
  fi_forced :: "string list"
  fi_cached :: "(string \<times> string) list"
  fi_daily :: "string \<Rightarrow> string list"

definition covered_day :: "fallback_input \<Rightarrow> string \<Rightarrow> string \<Rightarrow> bool" where
  "covered_day i t d \<longleftrightarrow>
     d \<in> set (fi_daily i t) \<or> list_ex (\<lambda>(t', d'). js_trim t' = t \<and> t \<noteq> [] \<and> take 10 d' = d \<and> d \<noteq> [] \<and> d < fi_current i) (fi_cached i)"

definition historical_days :: "fallback_input \<Rightarrow> string list" where
  "historical_days i = filter (\<lambda>d. d < fi_current i) (required_days (fi_start i) (fi_days i))"

definition ranges_of_target :: "fallback_input \<Rightarrow> string \<Rightarrow> (string \<times> string) list" where
  "ranges_of_target i t =
     (if t \<in> set (fi_forced i) \<and> t \<noteq> [] then [(case historical_days i of [] \<Rightarrow> fi_start i | d # _ \<Rightarrow> d, fi_current i)]
      else case filter (\<lambda>d. \<not> covered_day i t d) (historical_days i) of
             [] \<Rightarrow> []
           | d # ds \<Rightarrow> day_runs d d ds)"

definition build_summary_fallback_options :: "fallback_input \<Rightarrow> query_options" where
  "build_summary_fallback_options i =
     (let ids = named_ids (fi_targets i);
          ranges = fold (\<lambda>(k, t) m. AList.update k (set_order ((case map_of m k of None \<Rightarrow> [] | Some ts \<Rightarrow> ts) @ [t])) m)
                     (concat (map (\<lambda>t. map (\<lambda>k. (k, t)) (ranges_of_target i t)) ids)) []
      in if ids = [] then \<lparr> qo_targets = Some [], qo_recent = [], qo_history = [], qo_ranges = [] \<rparr>
         else \<lparr> qo_targets = Some ids, qo_recent = fi_current i, qo_history = filter (\<lambda>t. ranges_of_target i t \<noteq> []) ids,
                qo_ranges = map (\<lambda>((f, t), ts). (f, t, ts)) ranges \<rparr>)"

section \<open>The summaries of the days\<close>

definition add_sums :: "day_sums \<Rightarrow> day_sums \<Rightarrow> day_sums" where
  "add_sums = (\<lambda>(a, b, c) (a', b', c'). (js_add a a', js_add b b', js_add c c'))"

type_synonym sums_by_day = "((string \<times> string) \<times> day_sums) list"

definition add_summary :: "check_summary \<Rightarrow> sums_by_day \<Rightarrow> sums_by_day" where
  "add_summary r m = AList.update (cs_target r, cs_day r)
     (add_sums (case map_of m (cs_target r, cs_day r) of None \<Rightarrow> no_sums | Some s \<Rightarrow> s) (cs_sums r)) m"

text \<open>\<open>GROUP BY target_id, day\<close> over the rows a plan selects\<close>

definition plan_groups :: "query_plan \<Rightarrow> ((string \<times> int) \<times> bucket_row) list \<Rightarrow> sums_by_day" where
  "plan_groups p rows =
     (let hits = filter (\<lambda>((t, _), r). plan_selects p t (bk_day r)) rows
      in map (\<lambda>(t, d). ((t, d), sql_sums (map snd (filter (\<lambda>((t', _), r). t' = t \<and> bk_day r = d) hits))))
           (set_order (map (\<lambda>((t, _), r). (t, bk_day r)) hits)))"

definition number_sums :: "day_sums \<Rightarrow> day_sums" where
  "number_sums = (\<lambda>(a, b, c). (num_or a (jsint 0), num_or b (jsint 0), num_or c (jsint 0)))"

definition latest_rows :: "jsval \<Rightarrow> (string \<times> status_entry) list \<Rightarrow> (string \<times> status_entry) list \<Rightarrow> (string \<times> status_entry) list" where
  "latest_rows env stored current =
     (if latest_status_to_d1_enabled env then stored
      else fold (\<lambda>(t, s) m. case map_of m t of
                   Some old \<Rightarrow> if st_checked old \<le> st_checked s then AList.update t s m else m
                 | None \<Rightarrow> AList.update t s m) current stored)"

definition open_gap_summaries :: "int \<Rightarrow> jsval \<Rightarrow> string \<times> status_entry \<Rightarrow> check_summary list" where
  "open_gap_summaries now env = (\<lambda>(t, s).
     if st_ok s \<noteq> 1 \<or> st_checked s = 0 then []
     else summary_rows_from_checks now env t
            (map (public_json \<circ> missed_public) (build_open_missed_points now env (st_checked s) (Str (st_region s)) now (Str (if st_region s = [] then ''auto'' else st_region s)))))"

definition get_check_bucket_summaries ::
  "(string \<Rightarrow> string) \<Rightarrow> int \<Rightarrow> jsval \<Rightarrow> bool \<Rightarrow> hub_read \<Rightarrow> (string \<times> status_entry) list \<Rightarrow> string \<Rightarrow> query_options \<Rightarrow> 'a bucket_db_scheme \<Rightarrow> check_summary list" where
  "get_check_bucket_summaries coll now env enabled hub current start_day opts db =
     (let today = day_from_sec now env now;
          completed = map (\<lambda>(k, s). (k, number_sums s)) (filter (\<lambda>((t, d), _). start_day \<le> d \<and> d < today) (bd_days db));
          live = concat (map (\<lambda>p. map (\<lambda>(k, s). (k, number_sums s)) (plan_groups p (pd_buckets db)))
                   (filter (\<lambda>p. pl_upto p = None) (check_bucket_summary_query_plan start_day opts)));
          m1 = fold (\<lambda>(k, s). AList.update k s) (completed @ live) [];
          m2 = fold add_summary (filter (\<lambda>r. start_day \<le> cs_day r) (concat (map (open_gap_summaries now env) (latest_rows env (pd_latest db) current)))) m1;
          ids = named_ids ((case qo_targets opts of None \<Rightarrow> [] | Some ts \<Rightarrow> ts) @ qo_history opts @ concat (map (\<lambda>(_, _, ts). ts) (qo_ranges opts)));
          read = (\<lambda>t. summary_rows_from_checks now env t (map public_json
                    (buffered_points enabled hub t (case day_start_sec env start_day of None \<Rightarrow> 0 | Some s \<Rightarrow> s) now start_day today)));
          m3 = (if enabled then fold add_summary (filter (\<lambda>r. start_day \<le> cs_day r) (concat (map read ids))) m2 else m2)
      in map (\<lambda>((t, d), s). \<lparr> cs_target = t, cs_day = d, cs_sums = s \<rparr>)
           (sort_key (\<lambda>((t, d), _). (coll d, coll t)) m3))"

section \<open>Maintenance\<close>

text \<open>The buckets of a batch the hub did not take, back into D1\<close>

definition write_probe_buckets_to_d1 :: "bool \<Rightarrow> (string \<times> bucket_write list) list \<Rightarrow> 'a bucket_db_scheme \<Rightarrow> 'a bucket_db_scheme" where
  "write_probe_buckets_to_d1 committed entries db =
     (if committed then db\<lparr> pd_buckets := fold (\<lambda>(t, ws). fold (sql_check_bucket t) (filter (\<lambda>(day, _). day \<noteq> []) ws)) entries (pd_buckets db) \<rparr> else db)"

definition check_bucket_refresh_days :: int where "check_bucket_refresh_days = 3"

text \<open>\<open>DELETE\<close> and \<open>INSERT ... SELECT ... GROUP BY\<close> of one day\<close>

definition rebuild_day :: "string \<Rightarrow> 'a bucket_db_scheme \<Rightarrow> 'a bucket_db_scheme" where
  "rebuild_day day db =
     (let hits = filter (\<lambda>(_, r). bk_day r = day) (pd_buckets db);
          groups = map (\<lambda>t. ((t, day), sql_sums (map snd (filter (\<lambda>((t', _), _). t' = t) hits)))) (set_order (map (\<lambda>((t, _), _). t) hits))
      in db\<lparr> bd_days := filter (\<lambda>((_, d), _). d \<noteq> day) (bd_days db) @ groups \<rparr>)"

definition refresh_days :: "int \<Rightarrow> jsval \<Rightarrow> 'a bucket_db_scheme \<Rightarrow> string list" where
  "refresh_days now env db =
     map snd (filter (\<lambda>(i, day). i = 1 \<or> \<not> list_ex (\<lambda>((_, d), _). d = day) (bd_days db))
                (map (\<lambda>i. (i, day_from_sec now env (now - i * 86400))) [1..check_bucket_refresh_days]))"

definition refresh_check_bucket_days :: "int \<Rightarrow> jsval \<Rightarrow> bool \<Rightarrow> 'a bucket_db_scheme \<Rightarrow> 'a bucket_db_scheme" where
  "refresh_check_bucket_days now env committed db = (if committed then fold rebuild_day (refresh_days now env db) db else db)"

definition cleanup_old_check_buckets :: "int \<Rightarrow> jsval \<Rightarrow> bool \<Rightarrow> string set \<Rightarrow> int \<Rightarrow> 'a bucket_db_scheme \<Rightarrow> 'a bucket_db_scheme" where
  "cleanup_old_check_buckets now env committed targets keep db =
     (let cutoff = now - keep * 86400; cut_day = day_from_sec now env cutoff
      in if committed then
           db\<lparr> pd_buckets := filter (\<lambda>((t, b), r). \<not> (t \<in> targets \<and> bk_day r = cut_day \<and> b < cutoff))
                              (filter (\<lambda>(_, r). \<not> bk_day r < cut_day) (pd_buckets db)) \<rparr>
         else db)"

text \<open>The histories of the Agents: agent and time of each row, and the agents with a state\<close>

record volatile_db =
  vd_state :: "string list"
  vd_metrics :: "(string \<times> int) list"
  vd_pings :: "(string \<times> int) list"

definition history_to_d1 :: "jsval \<Rightarrow> string \<Rightarrow> bool" where
  "history_to_d1 env key =
     (let archive = js_truthy (js_get env ''ARCHIVE'') in parse_boolean (js_coalesce (js_get env key) (Bool (\<not> archive))) (\<not> archive))"

definition retention_of :: "jsval \<Rightarrow> jsval \<Rightarrow> string \<Rightarrow> string \<Rightarrow> int" where
  "retention_of env options hours key = clamp (js_Number (js_or (js_get options hours) (js_or (js_get env key) (JInt 6)))) 1 72 * 3600"

text \<open>\<open>fails\<close>: the agents whose deletion fails\<close>

definition delete_older :: "string set \<Rightarrow> string list \<Rightarrow> int \<Rightarrow> (string \<times> int) list \<Rightarrow> (string \<times> int) list" where
  "delete_older fails agents cutoff rows = filter (\<lambda>(a, ts). \<not> (a \<in> set agents \<and> a \<notin> fails \<and> ts < cutoff)) rows"

definition cleanup_volatile_history :: "int \<Rightarrow> jsval \<Rightarrow> jsval \<Rightarrow> bool \<Rightarrow> bool \<Rightarrow> string set \<Rightarrow> string set \<Rightarrow> volatile_db \<Rightarrow> volatile_db \<times> bool" where
  "cleanup_volatile_history now env options listed pings_listed fails ping_fails db =
     (let agent_cut = now - retention_of env options ''agent_hours'' ''AGENT_METRICS_RETENTION_HOURS'';
          ping_cut = now - retention_of env options ''ping_hours'' ''PING_HISTORY_RETENTION_HOURS'';
          metrics_on = history_to_d1 env ''AGENT_METRICS_TO_D1''; pings_on = history_to_d1 env ''AGENT_PINGS_TO_D1'';
          agents = (if listed then named_ids (vd_state db) else []);
          old = take 200 (set_order (map fst (filter (\<lambda>(_, ts). ts < ping_cut) (vd_pings db))));
          ping_agents = named_ids (agents @ (if pings_on \<and> pings_listed then old else []));
          db1 = (if metrics_on then db\<lparr> vd_metrics := delete_older fails agents agent_cut (vd_metrics db) \<rparr> else db);
          db2 = (if pings_on then db1\<lparr> vd_pings := delete_older ping_fails ping_agents ping_cut (vd_pings db1) \<rparr> else db1);
          failed = (metrics_on \<and> list_ex (\<lambda>a. a \<in> fails) agents) \<or> (pings_on \<and> list_ex (\<lambda>a. a \<in> ping_fails) ping_agents)
      in (db2, listed \<and> (pings_on \<longrightarrow> pings_listed) \<and> \<not> failed))"

text \<open>\<open>reconcileOpenIncidents\<close>: an open incident ends with the last success within half an hour\<close>

definition recovery_of :: "int \<Rightarrow> public_point list \<Rightarrow> int" where
  "recovery_of since points =
     fold (\<lambda>p r. if js_lt (jsint 0) (num_or (qp_ok p) (jsint 0)) \<and> since \<le> qp_at p \<and> r < qp_at p then qp_at p else r) points 0"

definition reconcile_open_incidents :: "int \<Rightarrow> jsval \<Rightarrow> bool \<Rightarrow> hub_read \<Rightarrow> 'a bucket_db_scheme \<Rightarrow> 'a bucket_db_scheme" where
  "reconcile_open_incidents now env enabled hub db =
     db\<lparr> pd_incidents := map (\<lambda>i.
          if in_recovered i \<noteq> None then i
          else let t = recovery_of (max (in_started i) (now - 1800)) (read_check_buckets now env enabled hub (in_target i) 2 db)
               in if 0 < t then i\<lparr> in_recovered := Some t \<rparr> else i) (pd_incidents db) \<rparr>"

end
