(* ===== verification/BucketHistory.thy ===== *)
theory BucketHistory
  imports CheckBuckets
begin

text \<open>
  What \<open>CheckBuckets\<close> keeps true: the history of a target is the merge of both stores with the gaps filled in, the two ways
  of summing up a day differ by the latencies of failed checks, the statements of the summaries stay within the limit of
  bound parameters, and the maintenance of the tables changes what it should.
\<close>

section \<open>Missed rows\<close>

lemma starts_with_iff: "starts_with p s \<longleftrightarrow> (\<exists>r. s = p @ r)"
  by (metis append_eq_conv_conj append_take_drop_id starts_with_def)

lemma js_includes_iff: "js_includes p s \<longleftrightarrow> (\<exists>a b. s = a @ p @ b)"
proof (induction s)
  case (Cons c s)
  show ?case
  proof
    assume "js_includes p (c # s)"
    then consider r where "c # s = p @ r" | a b where "s = a @ p @ b" using Cons by (auto simp: starts_with_iff)
    then show "\<exists>a b. c # s = a @ p @ b" by cases (metis append_Nil, metis append_Cons)
  next
    assume "\<exists>a b. c # s = a @ p @ b"
    then obtain a b where ab: "c # s = a @ p @ b" by blast
    show "js_includes p (c # s)"
    proof (cases a)
      case Nil
      with ab have "starts_with p (c # s)" unfolding starts_with_iff by auto
      then show ?thesis by simp
    next
      case (Cons x a')
      with ab have "s = a' @ p @ b" by simp
      with Cons.IH show ?thesis by auto
    qed
  qed
qed auto

lemma dropWhile_keeps: "n \<noteq> [] \<Longrightarrow> \<not> P (hd n) \<Longrightarrow> dropWhile P (a @ n @ b) = dropWhile P a @ n @ b"
  by (induction a) (cases n, auto)

lemma strip_both_keeps:
  assumes "n \<noteq> []" "\<not> P (hd n)" "\<not> P (last n)"
  shows "\<exists>x y. strip_both P (a @ n @ b) = x @ n @ y"
proof -
  have "rev n \<noteq> []" "\<not> P (hd (rev n))" using assms by (simp_all add: hd_rev)
  then have "dropWhile P (rev b @ rev n @ c) = dropWhile P (rev b) @ rev n @ c" for c by (rule dropWhile_keeps)
  moreover have "dropWhile P (a @ n @ b) = dropWhile P a @ n @ b" using assms(1,2) by (rule dropWhile_keeps)
  ultimately show ?thesis by (auto simp: strip_both_def)
qed

lemma strip_both_infix: "\<exists>x y. s = x @ strip_both P s @ y"
proof -
  obtain x where x: "s = x @ dropWhile P s" by (metis takeWhile_dropWhile_id)
  obtain y where "rev (dropWhile P s) = y @ dropWhile P (rev (dropWhile P s))" by (metis takeWhile_dropWhile_id)
  then have "dropWhile P s = strip_both P s @ rev y" unfolding strip_both_def by (metis rev_append rev_rev_ident)
  with x show ?thesis by metis
qed

lemma lower_of_space: "lower_char c \<in> set missed_message - {CHR '' ''} \<Longrightarrow> \<not> js_space c"
proof
  assume m: "lower_char c \<in> set missed_message - {CHR '' ''}" and "js_space c"
  then have "lower_char c = c" by (auto simp: js_space_def lower_char_def)
  with m \<open>js_space c\<close> show False by (auto simp: missed_message_def js_space_def)
qed

lemma is_missed_row:
  "is_missed_monitor_point (bucket_json t r) \<longleftrightarrow>
     (let error = js_lower (js_trim (case bk_error r of None \<Rightarrow> [] | Some e \<Rightarrow> e)) in error = missed_message \<or> js_includes missed_message error)"
proof -
  have g: "js_get (bucket_json t r) ''missed'' = Undefined" "js_get (bucket_json t r) ''synthetic'' = Undefined"
    "js_get (bucket_json t r) ''error'' = opt_json Str (bk_error r)"
    by (simp_all add: bucket_json_def js_get_def)
  have e: "str_or_empty (opt_json Str (bk_error r)) = (case bk_error r of None \<Rightarrow> [] | Some e \<Rightarrow> e)"
    by (cases "bk_error r") (simp_all add: str_or_empty_def opt_json_def)
  show ?thesis
    unfolding is_missed_monitor_point_def Let_def g e by (simp add: bucket_json_def)
qed

lemma map_infix: "map f e = a @ n @ b \<Longrightarrow> \<exists>e1 n' e3. e = e1 @ n' @ e3 \<and> map f n' = n"
proof -
  assume "map f e = a @ n @ b"
  then obtain us vs where "e = us @ vs" "n @ b = map f vs" by (auto simp: map_eq_append_conv)
  moreover then obtain ns r where "vs = ns @ r" "n = map f ns" by (auto simp: append_eq_map_conv)
  ultimately show ?thesis by blast
qed

lemma row_missed_iff: "is_missed_monitor_point (bucket_json t r) = row_missed r"
proof (cases "bk_error r")
  case None
  have "\<not> js_includes missed_message []" "missed_message \<noteq> []" by (simp_all add: missed_message_def)
  with None show ?thesis by (simp add: is_missed_row row_missed_def js_lower_def)
next
  case (Some e)
  have "js_includes missed_message (js_lower (js_trim e)) = js_includes missed_message (js_lower e)"
  proof
    assume "js_includes missed_message (js_lower (js_trim e))"
    then obtain a b where ab: "js_lower (js_trim e) = a @ missed_message @ b" unfolding js_includes_iff by blast
    obtain x y where "e = x @ js_trim e @ y" unfolding js_trim_def using strip_both_infix by blast
    then have "js_lower e = js_lower (x @ js_trim e @ y)" by (rule arg_cong)
    then have "js_lower e = js_lower x @ js_lower (js_trim e) @ js_lower y" by (simp only: js_lower_def map_append)
    then have "js_lower e = (js_lower x @ a) @ missed_message @ (b @ js_lower y)" by (simp only: ab append_assoc)
    then show "js_includes missed_message (js_lower e)" unfolding js_includes_iff by blast
  next
    assume "js_includes missed_message (js_lower e)"
    then obtain a b where ab: "map lower_char e = a @ missed_message @ b" unfolding js_includes_iff js_lower_def by blast
    from map_infix [OF ab] obtain e1 n e3 where n: "e = e1 @ n @ e3" "map lower_char n = missed_message" by blast
    have ne: "n \<noteq> []" using n(2) by (auto simp: missed_message_def)
    have "lower_char (hd n) = hd missed_message" "lower_char (last n) = last missed_message"
      using ne unfolding n(2) [symmetric] by (auto simp: hd_map last_map)
    then have "lower_char (hd n) \<in> set missed_message - {CHR '' ''}" "lower_char (last n) \<in> set missed_message - {CHR '' ''}"
      by (simp_all add: missed_message_def)
    then have "\<not> js_space (hd n)" "\<not> js_space (last n)" using lower_of_space by blast+
    from strip_both_keeps [OF ne this, of e1 e3] obtain x y where "js_trim e = x @ n @ y"
      unfolding js_trim_def n(1) by blast
    then have "js_lower (js_trim e) = js_lower x @ missed_message @ js_lower y" by (simp add: js_lower_def n(2))
    then show "js_includes missed_message (js_lower (js_trim e))" unfolding js_includes_iff by blast
  qed
  moreover have "js_includes missed_message missed_message" unfolding js_includes_iff by (metis append_Nil append_Nil2)
  ultimately show ?thesis using Some
    by (cases "js_lower (js_trim e) = missed_message") (simp_all add: is_missed_row row_missed_def Let_def)
qed

section \<open>The history of a target\<close>

lemma build_missed_between:
  "m \<in> set (build_missed_points now env p q region limit) \<Longrightarrow> p < mp_at m \<and> mp_at m < q"
proof -
  assume "m \<in> set (build_missed_points now env p q region limit)"
  then have "mp_at m \<in> set (bucket_range (floor_bucket p + bucket_sec) q)"
    by (auto simp: build_missed_points_def Let_def split: if_splits)
  then show ?thesis using floor_bucket_bounds(2) [of p] by (auto simp: bucket_range_set)
qed

lemma open_missed_after: "m \<in> set (build_open_missed_points now env p region t region') \<Longrightarrow> p < mp_at m"
proof -
  assume "m \<in> set (build_open_missed_points now env p region t region')"
  then obtain b where "mp_at m \<in> set (bucket_range (floor_bucket p + bucket_sec) b)"
    by (auto simp: build_open_missed_points_def Let_def split: if_splits)
  then show ?thesis using floor_bucket_bounds(2) [of p] by (auto simp: bucket_range_set)
qed

lemma missed_sorted:
  "sorted_wrt (<) (map mp_at (build_missed_points now env p q region limit))"
  "sorted_wrt (<) (map mp_at (build_open_missed_points now env p region t region'))"
  using bucket_range_sorted by (auto simp: build_missed_points_def build_open_missed_points_def Let_def comp_def)

lemma qp_at_missed [simp]: "qp_at (missed_public m) = mp_at m" "qp_missed (missed_public m)" "qp_ok (missed_public m) = jsint 0"
  by (simp_all add: missed_public_def)

definition gaps_between :: "int \<Rightarrow> jsval \<Rightarrow> public_point \<Rightarrow> public_point \<Rightarrow> public_point list" where
  "gaps_between now env p q = map missed_public (build_missed_points now env (qp_at p) (qp_at q) (Str (qp_region q)) None)"

lemma gaps_between_facts:
  "\<forall>g \<in> set (gaps_between now env p q). qp_at p < qp_at g \<and> qp_at g < qp_at q \<and> (\<exists>m. g = missed_public m)"
  "sorted_wrt (<) (map qp_at (gaps_between now env p q))"
  using build_missed_between missed_sorted(1) by (fastforce simp: gaps_between_def comp_def)+

lemma fill_gaps_facts:
  assumes "sorted_wrt (<) (map qp_at ps)"
  shows "sorted_wrt (<) (map qp_at (fill_gaps now env ps)) \<and> set ps \<subseteq> set (fill_gaps now env ps) \<and>
    (\<forall>g \<in> set (fill_gaps now env ps). (g \<in> set ps \<or> (\<exists>m. g = missed_public m)) \<and> (ps \<noteq> [] \<longrightarrow> qp_at (hd ps) \<le> qp_at g \<and> qp_at g \<le> qp_at (last ps)))"
  using assms
proof (induction now env ps rule: fill_gaps.induct)
  case (3 now env p q ps)
  let ?g = "gaps_between now env p q" and ?r = "fill_gaps now env (q # ps)"
  have e: "fill_gaps now env (p # q # ps) = p # ?g @ ?r" by (simp add: gaps_between_def)
  have IH: "sorted_wrt (<) (map qp_at ?r)" "set (q # ps) \<subseteq> set ?r"
    "\<forall>g \<in> set ?r. (g \<in> set (q # ps) \<or> (\<exists>m. g = missed_public m)) \<and> qp_at q \<le> qp_at g \<and> qp_at g \<le> qp_at (last (q # ps))"
    using 3 by auto
  have pq: "qp_at p < qp_at q" "qp_at q \<le> qp_at (last (q # ps))" using "3.prems" by (auto simp: last_in_set less_imp_le)
  note G = gaps_between_facts(1) [of now env p q]
  have "\<forall>g \<in> set ?g. \<forall>r \<in> set ?r. qp_at g < qp_at r" using G IH(3) by fastforce
  moreover have "\<forall>x \<in> set (?g @ ?r). qp_at p < qp_at x" using G IH(3) pq by fastforce
  ultimately have "sorted_wrt (<) (map qp_at (fill_gaps now env (p # q # ps)))"
    using gaps_between_facts(2) IH(1) unfolding e by (auto simp: sorted_wrt_append)
  moreover have "set (p # q # ps) \<subseteq> set (fill_gaps now env (p # q # ps))" using IH(2) unfolding e by auto
  moreover have "\<forall>g \<in> set (fill_gaps now env (p # q # ps)). (g \<in> set (p # q # ps) \<or> (\<exists>m. g = missed_public m)) \<and> qp_at p \<le> qp_at g \<and> qp_at g \<le> qp_at (last (q # ps))"
    using G IH(3) pq unfolding e by fastforce
  ultimately show ?case by simp
qed auto

text \<open>What the two stores have at a time: the last point of the hub, or else the row of D1\<close>

definition store_at :: "int \<Rightarrow> jsval \<Rightarrow> bool \<Rightarrow> hub_read \<Rightarrow> string \<Rightarrow> int \<Rightarrow> 'a bucket_db_scheme \<Rightarrow> int \<Rightarrow> public_point option" where
  "store_at now env enabled hub target days db t =
     (let since = now - days * 86400;
          buffered = buffered_points enabled hub target since now (day_from_sec now env since) (day_from_sec now env now)
      in case find (\<lambda>p. qp_at p = t) (rev buffered) of
           Some p \<Rightarrow> Some p
         | None \<Rightarrow> if 0 < t \<and> since \<le> t then map_option (stored_point t) (map_of (pd_buckets db) (target, t)) else None)"

lemma find_append: "find P (xs @ ys) = (case find P xs of None \<Rightarrow> find P ys | Some x \<Rightarrow> Some x)"
  by (induction xs) auto

lemma find_unique: "p \<in> set l \<Longrightarrow> P p \<Longrightarrow> \<forall>q \<in> set l. P q \<longrightarrow> q = p \<Longrightarrow> find P l = Some p"
proof (induction l)
  case (Cons a l)
  show ?case
  proof (cases "P a")
    case True
    then have "a = p" using Cons.prems(3) by (meson list.set_intros(1))
    with True show ?thesis by simp
  next
    case False
    then have "p \<in> set l" using Cons.prems(1,2) by auto
    moreover have "\<forall>q \<in> set l. P q \<longrightarrow> q = p" using Cons.prems(3) by (meson list.set_intros(2))
    ultimately have "find P l = Some p" using Cons.IH Cons.prems(2) by blast
    with False show ?thesis by simp
  qed
qed simp

lemma qp_at_stored [simp]: "qp_at (stored_point t r) = t"
  by (simp add: stored_point_def Let_def)

lemma rows_since_iff: "(t, r) \<in> set (rows_since target since rows) \<longleftrightarrow> ((target, t), r) \<in> set rows \<and> since \<le> t"
  by (force simp: rows_since_def)

lemma find_rows:
  assumes "distinct (map fst rows)"
  shows "find (\<lambda>p. qp_at p = t) (rev (filter (\<lambda>p. 0 < qp_at p) (map (\<lambda>(t, r). stored_point t r) (rows_since target since rows)))) =
    (if 0 < t \<and> since \<le> t then map_option (stored_point t) (map_of rows (target, t)) else None)"
    (is "find _ (rev ?l) = _")
proof -
  have mem: "p \<in> set ?l \<longleftrightarrow> (\<exists>t r. p = stored_point t r \<and> map_of rows (target, t) = Some r \<and> since \<le> t \<and> 0 < t)" for p
  proof -
    have "p \<in> set ?l \<longleftrightarrow> 0 < qp_at p \<and> (\<exists>x \<in> set (rows_since target since rows). p = (case x of (t, r) \<Rightarrow> stored_point t r))"
      unfolding set_filter set_map image_iff by blast
    also have "\<dots> \<longleftrightarrow> (\<exists>t r. p = stored_point t r \<and> (t, r) \<in> set (rows_since target since rows) \<and> 0 < t)"
      unfolding Bex_def split_paired_Ex prod.case by (metis qp_at_stored)
    finally show ?thesis unfolding rows_since_iff using assms by (auto simp: map_of_eq_Some_iff)
  qed
  show ?thesis
  proof (cases "0 < t \<and> since \<le> t \<and> map_of rows (target, t) \<noteq> None")
    case True
    then obtain r where r: "map_of rows (target, t) = Some r" by blast
    have "find (\<lambda>p. qp_at p = t) (rev ?l) = Some (stored_point t r)"
      by (rule find_unique) (use True r in \<open>auto simp: mem simp del: set_filter set_map\<close>)
    with True r show ?thesis by simp
  next
    case False
    then have "\<forall>p \<in> set (rev ?l). qp_at p \<noteq> t" unfolding set_rev by (auto simp: mem simp del: set_filter set_map)
    then have "find (\<lambda>p. qp_at p = t) (rev ?l) = None" by (simp add: find_None_iff)
    with False show ?thesis by auto
  qed
qed

lemma sorted_values:
  assumes "distinct (map fst m)" "\<forall>(k, v) \<in> set m. f v = k"
  shows "sorted_wrt (<) (map f (sort_key f (map snd m)))" "v \<in> set (map snd m) \<longleftrightarrow> map_of m (f v) = Some v"
proof -
  have "map f (map snd m) = map fst m" using assms(2) by (induction m) auto
  with assms(1) have d: "distinct (map f (map snd m))" by metis
  have "distinct (map f (sort_key f xs)) = distinct (map f xs)" for xs by (simp add: distinct_map)
  with d show "sorted_wrt (<) (map f (sort_key f (map snd m)))" by (simp add: strict_sorted_iff del: map_map)
  show "v \<in> set (map snd m) \<longleftrightarrow> map_of m (f v) = Some v"
  proof
    assume "v \<in> set (map snd m)"
    then obtain k where "(k, v) \<in> set m" by auto
    moreover with assms(2) have "f v = k" by blast
    ultimately show "map_of m (f v) = Some v" using assms(1) by (simp add: map_of_eq_Some_iff)
  next
    assume "map_of m (f v) = Some v"
    then have "(f v, v) \<in> set m" by (rule map_of_SomeD)
    then show "v \<in> set (map snd m)" by force
  qed
qed

lemma same_time: "sorted_wrt (<) (map f xs) \<Longrightarrow> x \<in> set xs \<Longrightarrow> y \<in> set xs \<Longrightarrow> f x = f y \<Longrightarrow> x = y" for f :: "'a \<Rightarrow> 'b :: linorder"
  by (metis distinct_map inj_on_def strict_sorted_iff)

lemma stored_history_facts:
  assumes "distinct (map fst (pd_buckets db))"
  shows "sorted_wrt (<) (map qp_at (stored_history now env enabled hub target days db))"
    "p \<in> set (stored_history now env enabled hub target days db) \<longleftrightarrow> store_at now env enabled hub target days db (qp_at p) = Some p"
proof -
  let ?since = "now - days * 86400"
  let ?legacy = "filter (\<lambda>p. 0 < qp_at p) (map (\<lambda>(t, r). stored_point t r) (rows_since target ?since (pd_buckets db)))"
  let ?buffered = "buffered_points enabled hub target ?since now (day_from_sec now env ?since) (day_from_sec now env now)"
  let ?m = "upserts qp_at (?legacy @ ?buffered) []"
  have own: "\<forall>(k, v) \<in> set ?m. qp_at v = k" by (rule upserts_own_key) simp
  have d: "distinct (map fst ?m)" by (rule distinct_keys_upserts) simp
  have h: "stored_history now env enabled hub target days db = sort_key qp_at (map snd ?m)" by (simp only: stored_history_def Let_def)
  show "sorted_wrt (<) (map qp_at (stored_history now env enabled hub target days db))"
    unfolding h by (rule sorted_values(1) [OF d own])
  have "map_of ?m t = store_at now env enabled hub target days db t" for t
    unfolding map_of_upserts store_at_def Let_def rev_append find_append find_rows [OF assms] by (simp split: option.split)
  then show "p \<in> set (stored_history now env enabled hub target days db) \<longleftrightarrow> store_at now env enabled hub target days db (qp_at p) = Some p"
    unfolding h set_sort sorted_values(2) [OF d own] by simp
qed

lemma history_points:
  assumes "distinct (map fst (pd_buckets db))"
  shows "sorted_wrt (<) (map qp_at (read_check_buckets now env enabled hub target days db))"
    "store_at now env enabled hub target days db t = Some p \<Longrightarrow> p \<in> set (read_check_buckets now env enabled hub target days db) \<and> qp_at p = t"
    "p \<in> set (read_check_buckets now env enabled hub target days db) \<Longrightarrow>
       store_at now env enabled hub target days db (qp_at p) = Some p \<or>
       store_at now env enabled hub target days db (qp_at p) = None \<and> (\<exists>m. p = missed_public m)"
proof -
  let ?s = "stored_history now env enabled hub target days db" and ?h = "read_check_buckets now env enabled hub target days db"
  let ?spec = "store_at now env enabled hub target days db"
  note S = stored_history_facts [OF assms]
  have H: "sorted_wrt (<) (map qp_at ?h) \<and> set ?s \<subseteq> set ?h \<and> (\<forall>g \<in> set ?h. g \<in> set ?s \<or> (\<exists>m. g = missed_public m))"
  proof (cases "?s = []")
    case False
    let ?open = "build_open_missed_points now env (qp_at (last ?s)) (Str (qp_region (last ?s))) now (Str (qp_region (last ?s)))"
    have h: "?h = fill_gaps now env ?s @ map missed_public ?open" using False by (simp add: read_check_buckets_def Let_def)
    note F = fill_gaps_facts [of ?s now env, OF S(1)]
    have "\<forall>g \<in> set (fill_gaps now env ?s). \<forall>m \<in> set ?open. qp_at g < mp_at m"
      using F False open_missed_after by (meson order_le_less_trans)
    then have "sorted_wrt (<) (map qp_at ?h)" unfolding h using F missed_sorted(2) by (auto simp: sorted_wrt_append comp_def)
    moreover have "set ?s \<subseteq> set ?h" "\<forall>g \<in> set ?h. g \<in> set ?s \<or> (\<exists>m. g = missed_public m)" unfolding h using F by auto
    ultimately show ?thesis by blast
  qed (simp add: read_check_buckets_def)
  show "sorted_wrt (<) (map qp_at ?h)" using H by blast
  show found: "p \<in> set ?h \<and> qp_at p = t" if "?spec t = Some p" for t p
  proof -
    have "qp_at p = t" using that
      by (auto simp: store_at_def Let_def find_Some_iff split: option.splits if_splits)
    with that S(2) [of p] H show ?thesis by auto
  qed
  show "?spec (qp_at p) = Some p \<or> ?spec (qp_at p) = None \<and> (\<exists>m. p = missed_public m)" if "p \<in> set ?h"
  proof (cases "?spec (qp_at p)")
    case None
    then have "p \<notin> set ?s" using S(2) by simp
    with None H that show ?thesis by blast
  next
    case (Some q)
    from found [OF this] have "q = p" using H that by (blast intro: same_time)
    with Some show ?thesis by simp
  qed
qed

text \<open>C11: The history of a target is strictly ordered in time; it holds for every time the point of the hub, or else the row of D1,
  and every other point of it is a missed check in a gap.\<close>

theorem read_history_is_the_merge:
  assumes "distinct (map fst (pd_buckets db))"
  shows "sorted_wrt (<) (map qp_at (read_check_buckets now env enabled hub target days db)) \<and>
    (\<forall>t p. store_at now env enabled hub target days db t = Some p \<longrightarrow> p \<in> set (read_check_buckets now env enabled hub target days db)) \<and>
    (\<forall>p \<in> set (read_check_buckets now env enabled hub target days db).
       store_at now env enabled hub target days db (qp_at p) = Some p \<or>
       store_at now env enabled hub target days db (qp_at p) = None \<and> (\<exists>m. p = missed_public m))"
  by (intro conjI allI impI ballI; (rule history_points(1) [OF assms] | rule history_points(2) [OF assms, THEN conjunct1], assumption
    | rule history_points(3) [OF assms], assumption))

section \<open>The sums of a day\<close>

lemma upserts_distinct: "distinct (map key xs @ map fst m) \<Longrightarrow> upserts key xs m = m @ map (\<lambda>x. (key x, x)) xs"
proof (induction xs arbitrary: m)
  case (Cons x xs)
  have "AList.update (key x) x m = m @ [(key x, x)]" if "key x \<notin> fst ` set m" for m using that by (induction m) auto
  with Cons.prems have "AList.update (key x) x m = m @ [(key x, x)]" by simp
  with Cons show ?case by auto
qed simp

text \<open>A row as a check writes it: one check or more, which succeeded or failed as a whole\<close>

definition plain_row :: "bucket_row \<Rightarrow> bool" where
  "plain_row r \<longleftrightarrow>
     (\<exists>n. bk_total r = Fin n \<and> 0 \<le> n) \<and> bk_ok_count r \<in> {Fin 0, Fin 1} \<and>
     (case bk_latency r of None \<Rightarrow> bk_latency_sum r = Fin 0 | Some l \<Rightarrow> \<exists>q. l = Fin q \<and> bk_latency_sum r = Fin q)"

text \<open>The latencies of the failed checks\<close>

definition failed_latency :: "bucket_row list \<Rightarrow> jsnum" where
  "failed_latency rows = fold (\<lambda>r a. js_add a (bk_latency_sum r)) (filter (\<lambda>r. \<not> row_missed r \<and> bk_ok_count r = Fin 0) rows) (jsint 0)"

lemma get_row [simp]:
  "js_get (bucket_json t r) ''total'' = Num (bk_total r)" "js_get (bucket_json t r) ''ok_count'' = Num (bk_ok_count r)"
  "js_get (bucket_json t r) ''latency_ms'' = opt_json Num (bk_latency r)"
  by (simp_all add: bucket_json_def js_get_def)

lemma plain_row_cases:
  assumes "plain_row r"
  obtains n k q where "bk_total r = Fin n" "0 \<le> n" "bk_ok_count r = Fin k" "k = 0 \<or> k = 1" "bk_latency_sum r = Fin q"
    "bk_latency r = None \<and> q = 0 \<or> bk_latency r = Some (Fin q)"
  using assms by (auto simp: plain_row_def split: option.splits)

lemma add_row_point:
  assumes "\<not> row_missed r" "bk_total r = Fin n" "0 \<le> n" "bk_ok_count r = Fin k" "k = 0 \<or> k = 1" "bk_latency_sum r = Fin q"
    "bk_latency r = None \<and> q = 0 \<or> bk_latency r = Some (Fin q)"
  shows "add_check_point (bucket_json t r) (Fin a, Fin b, Fin c) = (Fin (a + n), Fin (b + k), Fin (c + (if k = 0 then 0 else q)))"
  using assms by (auto simp: add_check_point_def row_missed_iff num_or0_def opt_json_def js_max_def Let_def)

definition sql_step :: "bucket_row \<Rightarrow> day_sums \<Rightarrow> day_sums" where
  "sql_step r = (\<lambda>(total, ok, lat).
     if row_missed r then (total, ok, lat) else (js_add total (bk_total r), js_add ok (bk_ok_count r), js_add lat (bk_latency_sum r)))"

lemma sql_sums_fold: "sql_sums rows = fold sql_step rows no_sums"
  by (simp add: sql_sums_def sql_step_def [abs_def])

lemma folds_differ:
  assumes "\<forall>(t, r) \<in> set rows. plain_row r"
  shows "\<exists>T K L F. fold (\<lambda>(t, r). add_check_point (bucket_json t r)) rows (Fin a, Fin b, Fin c) = (Fin T, Fin K, Fin L) \<and>
    fold sql_step (map snd rows) (Fin a, Fin b, Fin (c + f)) = (Fin T, Fin K, Fin (L + F)) \<and>
    fold (\<lambda>r a. js_add a (bk_latency_sum r)) (filter (\<lambda>r. \<not> row_missed r \<and> bk_ok_count r = Fin 0) (map snd rows)) (Fin f) = Fin F"
  using assms
proof (induction rows arbitrary: a b c f)
  case (Cons x rows)
  obtain t r where x: "x = (t, r)" by (cases x)
  have rest: "\<forall>(t, r) \<in> set rows. plain_row r" and p: "plain_row r" using Cons.prems by (auto simp: x)
  show ?case
  proof (cases "row_missed r")
    case True
    then have "add_check_point (bucket_json t r) = (\<lambda>s. s)" "sql_step r = (\<lambda>s. s)"
      by (auto simp: add_check_point_def row_missed_iff sql_step_def fun_eq_iff)
    with True Cons.IH [OF rest] show ?thesis by (simp add: x)
  next
    case False
    obtain n k q where nkq: "bk_total r = Fin n" "0 \<le> n" "bk_ok_count r = Fin k" "k = 0 \<or> k = 1" "bk_latency_sum r = Fin q"
      "bk_latency r = None \<and> q = 0 \<or> bk_latency r = Some (Fin q)" by (rule plain_row_cases [OF p])
    define q1 q2 where "q1 = (if k = 0 then 0 else q)" and "q2 = (if k = 0 then q else 0)"
    have add: "add_check_point (bucket_json t r) (Fin a, Fin b, Fin c) = (Fin (a + n), Fin (b + k), Fin (c + q1))"
      unfolding q1_def by (rule add_row_point [OF False nkq])
    have sql: "sql_step r (Fin a, Fin b, Fin (c + f)) = (Fin (a + n), Fin (b + k), Fin ((c + q1) + (f + q2)))"
      using False nkq by (simp add: sql_step_def q1_def q2_def)
    have fails: "fold (\<lambda>r a. js_add a (bk_latency_sum r)) (filter (\<lambda>r. \<not> row_missed r \<and> bk_ok_count r = Fin 0) (map snd (x # rows))) (Fin f) =
        fold (\<lambda>r a. js_add a (bk_latency_sum r)) (filter (\<lambda>r. \<not> row_missed r \<and> bk_ok_count r = Fin 0) (map snd rows)) (Fin (f + q2))"
      using False nkq by (simp add: x q2_def)
    show ?thesis
      using Cons.IH [OF rest, of "a + n" "b + k" "c + q1" "f + q2"] unfolding fails by (simp add: x add sql)
  qed
qed simp

lemma times_distinct:
  "distinct (map fst rows) \<Longrightarrow> \<forall>((x, t), r) \<in> set rows. x = target \<Longrightarrow> distinct (map fst (map (\<lambda>((_, t), r). (t, r)) rows))"
proof (induction rows)
  case (Cons y rows)
  obtain t r where y: "y = ((target, t), r)" using Cons.prems(2) by (cases y) auto
  have "(target, t) \<notin> fst ` set rows" using Cons.prems(1) by (simp add: y)
  then have "t \<notin> fst ` set (map (\<lambda>((_, t), r). (t, r)) rows)" using Cons.prems(2) by force
  with Cons show ?case by (simp add: y image_image)
qed simp

lemma distinct_sorted_keys: "distinct (map fst xs) \<Longrightarrow> distinct (map fst (sort_key fst xs))"
  by (simp add: distinct_map)

text \<open>C13: Summed up by SQL, a day has the counts it has when its points are summed up one by one, but the sum of its latencies
  also has the latencies of the failed checks.\<close>

theorem sql_day_sums_add_failed_latency:
  assumes "distinct (map fst (pd_buckets db))" "\<forall>((t, b), r) \<in> set (pd_buckets db). t = target \<longrightarrow> plain_row r"
  shows "read_check_bucket_day_summary env False hub target day before_at db =
    add_sums (read_check_bucket_day_summary env True (\<lambda>_ _ _ _ _. Some []) target day before_at db)
      (jsint 0, jsint 0, failed_latency (map snd (day_rows target day before_at (pd_buckets db))))"
proof -
  let ?rows = "day_rows target day before_at (pd_buckets db)"
  have plain: "\<forall>(t, r) \<in> set ?rows. plain_row r" using assms(2) by (fastforce simp: day_rows_def)
  have "distinct (map fst (map (\<lambda>((_, t), r). (t, r)) (filter (\<lambda>((x, t), r). x = target \<and> bk_day r = day \<and> t < before_at) (pd_buckets db))))"
    by (rule times_distinct [of _ target]) (use assms(1) in \<open>auto simp: distinct_map_filter\<close>)
  then have "distinct (map fst ?rows)" unfolding day_rows_def by (rule distinct_sorted_keys)
  then have points: "upserts fst (map (\<lambda>(t, r). (t, bucket_json t r)) ?rows) [] = map (\<lambda>(t, r). (t, t, bucket_json t r)) ?rows"
    by (subst upserts_distinct) (simp_all add: comp_def split_beta)
  have "read_check_bucket_day_summary env True (\<lambda>_ _ _ _ _. Some []) target day before_at db = fold (\<lambda>(t, r). add_check_point (bucket_json t r)) ?rows no_sums"
    by (simp add: read_check_bucket_day_summary_def Let_def buffered_points_def points summarize_check_points_def fold_map comp_def) (simp add: split_beta')
  moreover have "read_check_bucket_day_summary env False hub target day before_at db = fold sql_step (map snd ?rows) no_sums"
    by (simp add: read_check_bucket_day_summary_def sql_sums_fold Let_def)
  ultimately show ?thesis
    using folds_differ [OF plain, of 0 0 0 0] by (auto simp: no_sums_def failed_latency_def add_sums_def)
qed

section \<open>The statements of the summaries\<close>

lemma chunks_of_facts:
  "0 < n \<Longrightarrow> concat (chunks_of n xs) = xs \<and> (\<forall>c \<in> set (chunks_of n xs). length c \<le> n)"
proof (induction n xs rule: chunks_of.induct)
  case (1 n xs)
  have e: "chunks_of n xs = (if xs = [] \<or> n = 0 then [] else take n xs # chunks_of n (drop n xs))" by (rule chunks_of.simps)
  show ?case using 1 unfolding e by simp
qed

lemma named_ids_facts [simp]: "set (named_ids ids) = set ids - {[]}" "distinct (named_ids ids)"
  by (auto simp: named_ids_def)

lemma live_plans:
  assumes "qo_targets opts = Some ids"
  shows "filter (\<lambda>p. pl_upto p = None) (check_bucket_summary_query_plan start_day opts) =
    map (\<lambda>c. \<lparr> pl_from = (if qo_recent opts = [] then start_day else qo_recent opts), pl_upto = None, pl_ids = [], pl_chunk = Some c \<rparr>) (chunks_of 90 (named_ids ids))"
proof -
  have past: "filter (\<lambda>p. pl_upto p = None) (concat (map (\<lambda>p. map (\<lambda>c. p\<lparr> pl_chunk := Some c \<rparr>) cs) ps)) = []"
    if "\<forall>p \<in> set ps. pl_upto p \<noteq> None" for cs and ps :: "query_plan list"
    using that by (auto simp: filter_empty_conv)
  show ?thesis
    unfolding check_bucket_summary_query_plan_def Let_def assms option.map option.case list.map concat.simps filter_append
    by (subst past) (auto simp: map_filter_def Let_def filter_True comp_def)
qed

text \<open>The statements of the summaries that are sent bind at most 91 parameters each, and each row of the wanted targets since the
  first live day is read by exactly one of them.\<close>

theorem summary_statements_partition:
  assumes "qo_targets opts = Some ids" "live = filter (\<lambda>p. pl_upto p = None) (check_bucket_summary_query_plan start_day opts)"
  shows "(\<forall>p \<in> set live. length (plan_params p) \<le> 91) \<and>
    length (filter (\<lambda>p. plan_selects p t d) live) =
      (if t \<in> set ids \<and> t \<noteq> [] \<and> (if qo_recent opts = [] then start_day else qo_recent opts) \<le> d then 1 else 0)"
proof -
  let ?cs = "chunks_of 90 (named_ids ids)" and ?from = "if qo_recent opts = [] then start_day else qo_recent opts"
  have c: "concat ?cs = named_ids ids" "\<forall>c \<in> set ?cs. length c \<le> 90" using chunks_of_facts [of 90 "named_ids ids"] by auto
  have "length (filter (\<lambda>c. t \<in> set c) cs) = (if t \<in> set (concat cs) then 1 else 0)" if "distinct (concat cs)" for cs
    using that by (induction cs) auto
  from this [of ?cs] have one: "length (filter (\<lambda>c. t \<in> set c) ?cs) = (if t \<in> set ids \<and> t \<noteq> [] then 1 else 0)" by (simp add: c(1))
  have "filter (\<lambda>p. plan_selects p t d) live =
      map (\<lambda>c. \<lparr> pl_from = ?from, pl_upto = None, pl_ids = [], pl_chunk = Some c \<rparr>) (filter (\<lambda>c. ?from \<le> d \<and> t \<in> set c) ?cs)"
    unfolding assms(2) live_plans [OF assms(1)] by (simp add: filter_map plan_selects_def comp_def)
  then have "length (filter (\<lambda>p. plan_selects p t d) live) = (if t \<in> set ids \<and> t \<noteq> [] \<and> ?from \<le> d then 1 else 0)"
    using one by (cases "?from \<le> d") simp_all
  moreover have "\<forall>p \<in> set live. length (plan_params p) \<le> 91"
    unfolding assms(2) live_plans [OF assms(1)] using c(2) by (auto simp: plan_params_def)
  ultimately show ?thesis by blast
qed

section \<open>Maintenance\<close>

text \<open>The summary of a target and day, from its rows\<close>

definition day_group :: "string \<Rightarrow> string \<Rightarrow> ((string \<times> int) \<times> bucket_row) list \<Rightarrow> day_sums option" where
  "day_group t d rows =
     (let hits = map snd (filter (\<lambda>((t', _), r). t' = t \<and> bk_day r = d) rows) in if hits = [] then None else Some (sql_sums hits))"

lemma rebuild_day_lookup:
  "map_of (bd_days (rebuild_day day db)) (t, d) = (if d = day then day_group t d (pd_buckets db) else map_of (bd_days db) (t, d))"
  "pd_buckets (rebuild_day day db) = pd_buckets db"
proof -
  let ?hits = "filter (\<lambda>(_, r). bk_day r = day) (pd_buckets db)"
  let ?groups = "map (\<lambda>t. ((t, day), sql_sums (map snd (filter (\<lambda>((t', _), _). t' = t) ?hits)))) (set_order (map (\<lambda>((t, _), _). t) ?hits))"
  have old: "map_of (filter (\<lambda>((_, d), _). d \<noteq> day) xs) (t, d) = (if d = day then None else map_of xs (t, d))" for xs :: "sums_by_day"
    by (induction xs) auto
  have map_groups: "map_of (map (\<lambda>t. ((t, day), f t)) ts) (t, d) = (if d = day \<and> t \<in> set ts then Some (f t) else None)" for f :: "string \<Rightarrow> day_sums" and ts
    by (induction ts) auto
  have "filter (\<lambda>((t', _), _). t' = t) ?hits = filter (\<lambda>((t', _), r). t' = t \<and> bk_day r = day) (pd_buckets db)"
    by (simp add: split_beta' conj_commute)
  moreover have "t \<in> set (set_order (map (\<lambda>((t, _), _). t) ?hits)) \<longleftrightarrow> filter (\<lambda>((t', _), r). t' = t \<and> bk_day r = day) (pd_buckets db) \<noteq> []"
    by (force simp: filter_empty_conv image_iff)
  ultimately have "map_of ?groups (t, d) = (if d = day then day_group t d (pd_buckets db) else None)"
    by (auto simp: map_groups day_group_def Let_def)
  moreover have "bd_days (rebuild_day day db) = filter (\<lambda>((_, d), _). d \<noteq> day) (bd_days db) @ ?groups"
    by (simp add: rebuild_day_def Let_def)
  ultimately show "map_of (bd_days (rebuild_day day db)) (t, d) = (if d = day then day_group t d (pd_buckets db) else map_of (bd_days db) (t, d))"
    by (simp only: map_of_append map_add_def old) (simp split: option.split)
qed (simp add: rebuild_day_def Let_def)

text \<open>The refresh gives every day it rebuilds the sums of its rows, target by target, and leaves all other days as they are;
  yesterday is always rebuilt.\<close>

theorem refresh_rebuilds_days:
  "map_of (bd_days (refresh_check_bucket_days now env True db)) (t, d) =
     (if d \<in> set (refresh_days now env db) then day_group t d (pd_buckets db) else map_of (bd_days db) (t, d)) \<and>
   day_from_sec now env (now - 86400) \<in> set (refresh_days now env db)"
proof -
  have "map_of (bd_days (fold rebuild_day ds db)) (t, d) = (if d \<in> set ds then day_group t d (pd_buckets db) else map_of (bd_days db) (t, d))" for ds
  proof (induction ds arbitrary: db)
    case (Cons x ds)
    show ?case using Cons [of "rebuild_day x db"] by (simp add: rebuild_day_lookup)
  qed simp
  moreover have "day_from_sec now env (now - 86400) \<in> set (refresh_days now env db)"
    by (force simp: refresh_days_def check_bucket_refresh_days_def)
  ultimately show ?thesis by (simp add: refresh_check_bucket_days_def)
qed

text \<open>Every row lies on the day of its bucket, in years of four digits\<close>

definition dated_rows :: "int \<Rightarrow> jsval \<Rightarrow> ((string \<times> int) \<times> bucket_row) list \<Rightarrow> bool" where
  "dated_rows now env rows \<longleftrightarrow>
     (\<forall>((t, b), r) \<in> set rows. bk_day r = day_from_sec now env b \<and> 400 * 86400 < b \<and> year_from_day (local_day now env b) \<le> 9999)"

lemma local_day_years: "400 * 86400 < b \<Longrightarrow> 0 \<le> year_from_day (local_day now env b)"
proof -
  assume b: "400 * 86400 < b"
  have "0 \<le> local_day now env b"
    using b timezone_offset_bounds [of env] by (simp add: local_day_def local_seconds_def pos_imp_zdiv_nonneg_iff)
  then have "year_from_day 0 \<le> year_from_day (local_day now env b)" by (rule year_from_day_mono)
  moreover have "year_from_day 0 = 1970" by code_simp
  ultimately show ?thesis by simp
qed

text \<open>The cleanup drops exactly the rows before the cutoff; on the day of the cutoff itself only those of existing targets.\<close>

theorem cleanup_keeps_the_window:
  assumes "dated_rows now env (pd_buckets db)" "400 * 86400 < now - keep * 86400" "year_from_day (local_day now env (now - keep * 86400)) \<le> 9999"
  shows "((t, b), r) \<in> set (pd_buckets (cleanup_old_check_buckets now env True targets keep db)) \<longleftrightarrow>
    ((t, b), r) \<in> set (pd_buckets db) \<and>
    (now - keep * 86400 \<le> b \<or> t \<notin> targets \<and> bk_day r = day_from_sec now env (now - keep * 86400))"
proof (cases "((t, b), r) \<in> set (pd_buckets db)")
  case True
  let ?c = "now - keep * 86400"
  have b: "bk_day r = iso_day (local_day now env b)" "400 * 86400 < b" "year_from_day (local_day now env b) \<le> 9999"
    using assms(1) True by (auto simp: dated_rows_def day_from_sec_def)
  have day: "bk_day r < day_from_sec now env ?c \<longleftrightarrow> local_day now env b < local_day now env ?c"
    unfolding b(1) day_from_sec_def
    by (rule iso_day_le_iff(2)) (use b assms(2,3) local_day_years in auto)
  have same: "bk_day r = day_from_sec now env ?c \<longleftrightarrow> local_day now env b = local_day now env ?c"
    unfolding b(1) day_from_sec_def
    by (rule iso_day_inject) (use b assms(2,3) local_day_years in auto)
  have "?c \<le> b \<Longrightarrow> local_day now env ?c \<le> local_day now env b" "b \<le> ?c \<Longrightarrow> local_day now env b \<le> local_day now env ?c"
    using assms(2) b(2) by (auto intro: local_day_mono)
  then show ?thesis using True day same by (auto simp: cleanup_old_check_buckets_def Let_def)
qed (simp add: cleanup_old_check_buckets_def Let_def)

text \<open>The target succeeded at a time, by what the stores hold\<close>

definition succeeded :: "int \<Rightarrow> jsval \<Rightarrow> bool \<Rightarrow> hub_read \<Rightarrow> string \<Rightarrow> 'a bucket_db_scheme \<Rightarrow> int \<Rightarrow> bool" where
  "succeeded now env enabled hub target db t \<longleftrightarrow>
     (case store_at now env enabled hub target 2 db t of None \<Rightarrow> False | Some p \<Rightarrow> js_lt (jsint 0) (num_or (qp_ok p) (jsint 0)))"

lemma recovery_fold:
  fixes f :: "'p \<Rightarrow> int"
  shows "r \<le> fold (\<lambda>p r. if good p \<and> since \<le> f p \<and> r < f p then f p else r) ps r \<and>
    (fold (\<lambda>p r. if good p \<and> since \<le> f p \<and> r < f p then f p else r) ps r = r \<or>
     (\<exists>p \<in> set ps. good p \<and> since \<le> f p \<and> f p = fold (\<lambda>p r. if good p \<and> since \<le> f p \<and> r < f p then f p else r) ps r)) \<and>
    (\<forall>p \<in> set ps. good p \<and> since \<le> f p \<longrightarrow> f p \<le> fold (\<lambda>p r. if good p \<and> since \<le> f p \<and> r < f p then f p else r) ps r)"
proof (induction ps arbitrary: r)
  case (Cons p ps)
  show ?case using Cons [of "if good p \<and> since \<le> f p \<and> r < f p then f p else r"] by (auto split: if_splits)
qed simp

lemma last_by_time:
  fixes f :: "'p \<Rightarrow> int"
  shows "(\<exists>p \<in> S. ok p \<and> since \<le> f p \<and> f p = t) \<and> (\<forall>p \<in> S. ok p \<and> since \<le> f p \<longrightarrow> f p \<le> t) \<longleftrightarrow>
    since \<le> t \<and> (\<exists>p \<in> S. ok p \<and> f p = t) \<and> (\<forall>u > t. \<not> (\<exists>p \<in> S. ok p \<and> f p = u))"
proof (cases "since \<le> t")
  case True
  have "(since \<le> f p \<longrightarrow> f p \<le> t) \<longleftrightarrow> f p \<le> t" for p using True by linarith
  then have "(\<forall>p \<in> S. ok p \<and> since \<le> f p \<longrightarrow> f p \<le> t) \<longleftrightarrow> (\<forall>p \<in> S. ok p \<longrightarrow> f p \<le> t)" by blast
  moreover have "(\<forall>u > t. \<not> (\<exists>p \<in> S. ok p \<and> f p = u)) \<longleftrightarrow> (\<forall>p \<in> S. ok p \<longrightarrow> f p \<le> t)"
    unfolding not_less [symmetric] by blast
  ultimately show ?thesis using True by blast
qed auto

lemma recovery_of_iff:
  assumes "0 < since"
  shows "0 < t \<and> recovery_of since ps = t \<longleftrightarrow>
    (\<exists>p \<in> set ps. js_lt (jsint 0) (num_or (qp_ok p) (jsint 0)) \<and> since \<le> qp_at p \<and> qp_at p = t) \<and>
    (\<forall>p \<in> set ps. js_lt (jsint 0) (num_or (qp_ok p) (jsint 0)) \<and> since \<le> qp_at p \<longrightarrow> qp_at p \<le> t)"
  using recovery_fold [of 0 "\<lambda>p. js_lt (jsint 0) (num_or (qp_ok p) (jsint 0))" since qp_at ps] assms
  unfolding recovery_of_def [symmetric] by fastforce

text \<open>C12: The reconciliation ends an open incident at the last successful check since its start within the last half hour, and only
  then; checks that were missed never end one, and closed incidents stay as they are.\<close>

theorem reconcile_ends_at_the_last_success:
  assumes "distinct (map fst (pd_buckets db))" "1800 < now" "i \<in> set (pd_incidents db)"
  shows "\<exists>i' \<in> set (pd_incidents (reconcile_open_incidents now env enabled hub db)).
    i' = i\<lparr> in_recovered := in_recovered i' \<rparr> \<and>
    (in_recovered i \<noteq> None \<longrightarrow> i' = i) \<and>
    (in_recovered i = None \<longrightarrow> (\<forall>t. in_recovered i' = Some t \<longleftrightarrow>
       max (in_started i) (now - 1800) \<le> t \<and> succeeded now env enabled hub (in_target i) db t \<and>
       (\<forall>u > t. \<not> succeeded now env enabled hub (in_target i) db u)))"
proof -
  let ?h = "read_check_buckets now env enabled hub (in_target i) 2 db" and ?since = "max (in_started i) (now - 1800)"
  let ?ok = "\<lambda>p. js_lt (jsint 0) (num_or (qp_ok p) (jsint 0))"
  have suc: "(\<exists>p \<in> set ?h. ?ok p \<and> qp_at p = t) \<longleftrightarrow> succeeded now env enabled hub (in_target i) db t" for t
  proof
    assume "\<exists>p \<in> set ?h. ?ok p \<and> qp_at p = t"
    then obtain p where p: "p \<in> set ?h" "?ok p" "qp_at p = t" by blast
    have "\<not> ?ok (missed_public m)" for m by (simp add: num_or_def)
    then have "store_at now env enabled hub (in_target i) 2 db t = Some p"
      using history_points(3) [OF assms(1) p(1)] p(2,3) by blast
    with p(2) show "succeeded now env enabled hub (in_target i) db t" by (simp add: succeeded_def)
  next
    assume "succeeded now env enabled hub (in_target i) db t"
    then obtain p where p: "store_at now env enabled hub (in_target i) 2 db t = Some p" "?ok p"
      by (auto simp: succeeded_def split: option.splits)
    with history_points(2) [OF assms(1) p(1)] show "\<exists>p \<in> set ?h. ?ok p \<and> qp_at p = t" by blast
  qed
  let ?i' = "if in_recovered i \<noteq> None then i else if 0 < recovery_of ?since ?h then i\<lparr> in_recovered := Some (recovery_of ?since ?h) \<rparr> else i"
  have "?i' \<in> set (pd_incidents (reconcile_open_incidents now env enabled hub db))"
    using assms(3) by (force simp: reconcile_open_incidents_def Let_def)
  moreover have "in_recovered ?i' = Some t \<longleftrightarrow> ?since \<le> t \<and> succeeded now env enabled hub (in_target i) db t \<and>
       (\<forall>u > t. \<not> succeeded now env enabled hub (in_target i) db u)" if "in_recovered i = None" for t
  proof -
    have "in_recovered ?i' = Some t \<longleftrightarrow> 0 < t \<and> recovery_of ?since ?h = t" using that by auto
    also have "\<dots> \<longleftrightarrow> (\<exists>p \<in> set ?h. ?ok p \<and> ?since \<le> qp_at p \<and> qp_at p = t) \<and> (\<forall>p \<in> set ?h. ?ok p \<and> ?since \<le> qp_at p \<longrightarrow> qp_at p \<le> t)"
      by (rule recovery_of_iff) (use assms(2) in simp)
    also have "\<dots> \<longleftrightarrow> ?since \<le> t \<and> succeeded now env enabled hub (in_target i) db t \<and> (\<forall>u > t. \<not> succeeded now env enabled hub (in_target i) db u)"
      unfolding suc [symmetric] by (rule last_by_time)
    finally show ?thesis .
  qed
  ultimately show ?thesis by (intro bexI [of _ ?i']) auto
qed

section \<open>A bucket in both stores\<close>

lemma open_gaps_add_nothing: "open_gap_summaries now env x = []"
proof -
  have "is_missed_monitor_point (public_json (missed_public m))" for m
    by (simp add: is_missed_monitor_point_def public_json_def js_get_def)
  then have "counted_points (map (public_json \<circ> missed_public) ms) = []" for ms by (simp add: counted_points_def filter_empty_conv)
  then show ?thesis by (cases x) (simp add: open_gap_summaries_def summary_rows_from_checks_def Let_def)
qed

definition lost_answer_point :: jsval where
  "lost_answer_point = Obj [(''checked_at'', JInt 1704124800), (''ok'', JInt 1), (''latency_ms'', JInt 20), (''total'', JInt 1), (''ok_count'', JInt 1)]"

text \<open>The hub has buffered the points, but its answer is lost, and the points go to D1 as well\<close>

definition lost_answer_hub :: probe_store where
  "lost_answer_hub = append_writes (Obj []) 1704125100 (\<lambda>_. None)
     [(''web'', [Obj [(''day'', Str ''2024-01-02''), (''point'', lost_answer_point)]])]
     \<lparr> ps_mem = [], ps_mem_attempts = [], ps_archive_attempts = [], ps_days = [], ps_dead = [], ps_archive = [], ps_migrated = [], ps_alarm = None \<rparr>"

definition lost_answer_db :: bucket_db where
  "lost_answer_db = write_probe_buckets_to_d1 True [(''web'', [(''2024-01-02'', lost_answer_point)])]
     \<lparr> pd_buckets = [], pd_latest = [], pd_incidents = [], pd_schedule = [], pd_hub = [], bd_days = [] \<rparr>"

definition lost_answer_read :: hub_read where
  "lost_answer_read target since until from_day to_day =
     Some (snd (read_points (Obj []) 1704125100 (\<lambda>_. None) (\<lambda>_. False) target from_day to_day since until lost_answer_hub))"

definition lost_answer_public :: public_point where
  "lost_answer_public = \<lparr> qp_missed = False, qp_at = 1704124800, qp_ok = Fin 1, qp_latency = Some (Fin 20), qp_status = None, qp_error = None,
     qp_region = ''auto'', qp_total = Fin 1, qp_ok_count = Fin 1 \<rparr>"

lemma lost_answer_days:
  "day_from_sec 1704125100 (Obj []) 1704125100 = ''2024-01-02''" "day_start_sec (Obj []) ''2024-01-02'' = Some 1704124800"
  by code_simp+

lemma lost_answer_tables:
  "pd_latest lost_answer_db = []" "bd_days lost_answer_db = []"
  by (simp_all add: lost_answer_db_def write_probe_buckets_to_d1_def)

lemma lost_answer_plan:
  "filter (\<lambda>p. pl_upto p = None) (check_bucket_summary_query_plan ''2024-01-02'' \<lparr> qo_targets = Some [''web''], qo_recent = ''2024-01-02'', qo_history = [], qo_ranges = [] \<rparr>)
     = [\<lparr> pl_from = ''2024-01-02'', pl_upto = None, pl_ids = [], pl_chunk = Some [''web''] \<rparr>]"
proof -
  have e: "chunks_of 90 [x] = [[x]]" for x :: string by (subst chunks_of.simps, simp, subst chunks_of.simps, simp)
  show ?thesis by (subst live_plans [where ids = "[''web'']"]) (simp_all add: named_ids_def set_order_def e)
qed

definition lost_answer_row :: bucket_row where
  "lost_answer_row = \<lparr> bk_day = ''2024-01-02'', bk_total = Fin 1, bk_ok_count = Fin 1, bk_latency_sum = Fin 20, bk_ok = Fin 1, bk_latency = Some (Fin 20),
     bk_status = None, bk_error = None, bk_region = ''auto'', bk_colo = None \<rparr>"

lemma lost_answer_stored: "pd_buckets lost_answer_db = [((''web'', 1704124800), lost_answer_row)]"
  by code_simp

lemma lost_answer_groups:
  "plan_groups \<lparr> pl_from = ''2024-01-02'', pl_upto = None, pl_ids = [], pl_chunk = Some [''web''] \<rparr> (pd_buckets lost_answer_db) =
     [((''web'', ''2024-01-02''), (jsint 1, jsint 1, jsint 20))]"
  by (simp add: plan_groups_def lost_answer_stored plan_selects_def lost_answer_row_def set_order_def sql_sums_def row_missed_def no_sums_def)

definition lost_answer_kept :: probe_point where
  "lost_answer_kept = \<lparr> pp_at = 1704124800, pp_total = Fin 1, pp_ok_count = Fin 1, pp_sum = Fin 20, pp_last_ok = 1, pp_latency = Some (Fin 20),
     pp_status = None, pp_error = None, pp_region = ''auto'', pp_colo = None \<rparr>"

lemma lost_answer_written:
  "write_point (Obj []) 1704125100 (Obj [(''day'', Str ''2024-01-02''), (''point'', lost_answer_point)]) = Some (''2024-01-02'', lost_answer_kept)"
  "renormalize lost_answer_kept = Some lost_answer_kept" "on_day (Obj []) 1704125100 ''2024-01-02'' lost_answer_kept"
  "to_public_point lost_answer_kept = lost_answer_public" "per_key_limit (Obj []) = 10000" "max_day_points (Obj []) = 2000"
  "bounded_day_range (Obj []) 1704125100 ''2024-01-02'' ''2024-01-02'' since until = [''2024-01-02'']"
  by code_simp+

lemma flush_schedule_fields [simp]:
  "ps_mem (schedule_hub_flush env ms day pending st) = ps_mem st" "ps_days (schedule_hub_flush env ms day pending st) = ps_days st"
  "ps_dead (schedule_hub_flush env ms day pending st) = ps_dead st"
  by (simp_all add: schedule_hub_flush_def Let_def split: option.split)

lemma lost_answer_fields:
  "ps_mem lost_answer_hub = [((''web'', ''2024-01-02''), [lost_answer_kept])]" "ps_days lost_answer_hub = []" "ps_dead lost_answer_hub = []"
  by (simp_all add: lost_answer_hub_def append_writes_def ensure_legacy_buffer_migrated_def hub_append_local_def lost_answer_written
      map_filter_def push_row_def rows_of_def take_last_def)

lemma lost_answer_day: "read_day (Obj []) 1704125100 False (''web'', ''2024-01-02'') lost_answer_hub = [lost_answer_kept]"
proof -
  have rows: "live_points lost_answer_hub (''web'', ''2024-01-02'') @ rows_of (ps_mem lost_answer_hub) (''web'', ''2024-01-02'') @
      rows_of (ps_dead lost_answer_hub) (''web'', ''2024-01-02'') = [lost_answer_kept]"
    by (simp add: live_points_def rows_of_def lost_answer_fields)
  have "filter (on_day (Obj []) 1704125100 ''2024-01-02'') (List.map_filter renormalize ([] @ [lost_answer_kept])) = [lost_answer_kept]"
    using lost_answer_written(2,3) by (simp add: map_filter_def)
  then show ?thesis
    unfolding read_day_def merge_day_def snd_conv if_False rows by (simp add: lost_answer_written(6) take_last_def)
qed

lemma lost_answer_buffered:
  assumes "since \<le> 1704124800" "1704124800 \<le> until"
  shows "buffered_points True lost_answer_read ''web'' since until ''2024-01-02'' ''2024-01-02'' = [lost_answer_public]"
proof -
  have "ensure_legacy_buffer_migrated (Obj []) 1704125100 (\<lambda>_. None) ''web'' lost_answer_hub = lost_answer_hub"
    by (simp add: ensure_legacy_buffer_migrated_def)
  moreover have "filter (\<lambda>p. since \<le> pp_at p \<and> pp_at p \<le> until) [lost_answer_kept] = [lost_answer_kept]"
    using assms by (simp add: lost_answer_kept_def)
  ultimately have "snd (read_points (Obj []) 1704125100 (\<lambda>_. None) (\<lambda>_. False) ''web'' ''2024-01-02'' ''2024-01-02'' since until lost_answer_hub) = [lost_answer_public]"
    unfolding read_points_def Let_def lost_answer_written(7) by (simp add: lost_answer_day lost_answer_written(4) del: filter.simps)
  then show ?thesis by (simp add: buffered_points_def lost_answer_read_def)
qed

lemma lost_answer_rows:
  "summary_rows_from_checks 1704125100 (Obj []) ''web'' [public_json lost_answer_public] =
     [\<lparr> cs_target = ''web'', cs_day = ''2024-01-02'', cs_sums = (jsint 1, jsint 1, jsint 20) \<rparr>]"
  by code_simp


section \<open>A small table\<close>

text \<open>A check that succeeded in 100 ms and one that failed after 3000 ms\<close>

definition quick_row :: bucket_row where
  "quick_row = \<lparr> bk_day = ''2024-01-02'', bk_total = Fin 1, bk_ok_count = Fin 1, bk_latency_sum = Fin 100, bk_ok = Fin 1, bk_latency = Some (Fin 100),
     bk_status = Some (Fin 200), bk_error = None, bk_region = ''auto'', bk_colo = None \<rparr>"

definition failed_row :: bucket_row where
  "failed_row = \<lparr> bk_day = ''2024-01-02'', bk_total = Fin 1, bk_ok_count = Fin 0, bk_latency_sum = Fin 3000, bk_ok = Fin 0, bk_latency = Some (Fin 3000),
     bk_status = Some (Fin 500), bk_error = Some ''Unexpected HTTP 500'', bk_region = ''auto'', bk_colo = None \<rparr>"

definition sample_incident :: incident where
  "sample_incident = \<lparr> in_id = ''web-1'', in_target = ''web'', in_started = 1704124500, in_recovered = None, in_last = None, in_start_colo = None,
     in_recover_colo = None, in_error = None \<rparr>"

definition sample_tables :: bucket_db where
  "sample_tables = \<lparr> pd_buckets = [((''web'', 1704124800), quick_row), ((''web'', 1704125100), failed_row)], pd_latest = [],
     pd_incidents = [sample_incident], pd_schedule = [], pd_hub = [], bd_days = [] \<rparr>"

lemma sample_buckets: "pd_buckets sample_tables = [((''web'', 1704124800), quick_row), ((''web'', 1704125100), failed_row)]" "distinct (map fst (pd_buckets sample_tables))"
  by (simp_all add: sample_tables_def)

theorem read_history_is_the_merge_witness:
  "stored_point 1704125100 failed_row \<in> set (read_check_buckets 1704125200 (Obj []) False (\<lambda>_ _ _ _ _. None) ''web'' 1 sample_tables)"
proof -
  have "store_at 1704125200 (Obj []) False (\<lambda>_ _ _ _ _. None) ''web'' 1 sample_tables 1704125100 = Some (stored_point 1704125100 failed_row)"
    by (simp add: store_at_def Let_def buffered_points_def sample_buckets)
  with read_history_is_the_merge [OF sample_buckets(2), of 1704125200 "Obj []" False "\<lambda>_ _ _ _ _. None" "''web''" 1] show ?thesis by blast
qed

theorem sql_day_sums_add_failed_latency_witness:
  "read_check_bucket_day_summary (Obj []) False (\<lambda>_ _ _ _ _. None) ''web'' ''2024-01-02'' 1704125400 sample_tables \<noteq>
   read_check_bucket_day_summary (Obj []) True (\<lambda>_ _ _ _ _. Some []) ''web'' ''2024-01-02'' 1704125400 sample_tables"
proof -
  have "\<forall>((t, b), r) \<in> set (pd_buckets sample_tables). t = ''web'' \<longrightarrow> plain_row r"
    by (simp add: sample_buckets plain_row_def quick_row_def failed_row_def)
  note sums = sql_day_sums_add_failed_latency [OF sample_buckets(2) this, of "Obj []" "\<lambda>_ _ _ _ _. None" "''2024-01-02''" 1704125400]
  have "day_rows ''web'' ''2024-01-02'' 1704125400 (pd_buckets sample_tables) = [(1704124800, quick_row), (1704125100, failed_row)]"
    by (simp add: sample_buckets day_rows_def quick_row_def failed_row_def)
  moreover have "\<not> row_missed quick_row" "\<not> row_missed failed_row" by code_simp+
  ultimately have "failed_latency (map snd (day_rows ''web'' ''2024-01-02'' 1704125400 (pd_buckets sample_tables))) = Fin 3000"
    by (simp add: failed_latency_def quick_row_def failed_row_def)
  moreover have "read_check_bucket_day_summary (Obj []) True (\<lambda>_ _ _ _ _. Some []) ''web'' ''2024-01-02'' 1704125400 sample_tables = (Fin 2, Fin 1, Fin 100)"
    by code_simp
  ultimately show ?thesis using sums by (simp add: add_sums_def)
qed

theorem summary_statements_partition_witness:
  "length (filter (\<lambda>p. plan_selects p ''web'' ''2024-01-02'')
     (filter (\<lambda>p. pl_upto p = None) (check_bucket_summary_query_plan ''2023-12-01''
        \<lparr> qo_targets = Some [''db'', ''web''], qo_recent = ''2024-01-02'', qo_history = [''db''], qo_ranges = [] \<rparr>))) = 1"
  using summary_statements_partition [of "\<lparr> qo_targets = Some [''db'', ''web''], qo_recent = ''2024-01-02'', qo_history = [''db''], qo_ranges = [] \<rparr>" "[''db'', ''web'']" _ "''2023-12-01''" "''web''" "''2024-01-02''", OF _ refl]
  by simp

theorem cleanup_keeps_the_window_witness:
  "((''web'', 1704125100), failed_row) \<in> set (pd_buckets (cleanup_old_check_buckets 1704211500 (Obj []) True {''web''} 1 sample_tables)) \<and>
   ((''web'', 1704124800), quick_row) \<notin> set (pd_buckets (cleanup_old_check_buckets 1704211500 (Obj []) True {''web''} 1 sample_tables))"
proof -
  have "dated_rows 1704211500 (Obj []) (pd_buckets sample_tables)"
  proof -
    have "day_from_sec 1704211500 (Obj []) 1704124800 = ''2024-01-02''" "day_from_sec 1704211500 (Obj []) 1704125100 = ''2024-01-02''"
      "year_from_day (local_day 1704211500 (Obj []) 1704124800) = 2024" "year_from_day (local_day 1704211500 (Obj []) 1704125100) = 2024" by code_simp+
    then show ?thesis by (simp add: dated_rows_def sample_buckets quick_row_def failed_row_def)
  qed
  moreover have "year_from_day (local_day 1704211500 (Obj []) (1704211500 - 1 * 86400)) \<le> 9999" by code_simp
  ultimately show ?thesis
    using cleanup_keeps_the_window [of 1704211500 "Obj []" sample_tables 1] by (simp add: sample_buckets)
qed

theorem reconcile_ends_at_the_last_success_witness:
  "\<exists>i' \<in> set (pd_incidents (reconcile_open_incidents 1704125200 (Obj []) False (\<lambda>_ _ _ _ _. None) sample_tables)). in_recovered i' = Some 1704124800"
proof -
  have s: "store_at 1704125200 (Obj []) False (\<lambda>_ _ _ _ _. None) ''web'' 2 sample_tables t =
      (if t = 1704124800 then Some (stored_point t quick_row) else if t = 1704125100 then Some (stored_point t failed_row) else None)" for t
    by (simp add: store_at_def Let_def buffered_points_def sample_buckets)
  have "qp_ok (stored_point t quick_row) = Fin 1" "qp_ok (stored_point t failed_row) = Fin 0" for t
    unfolding stored_point_def Let_def row_missed_iff by (simp_all add: row_missed_def quick_row_def failed_row_def num_or_def)
  then have suc: "succeeded 1704125200 (Obj []) False (\<lambda>_ _ _ _ _. None) ''web'' sample_tables t \<longleftrightarrow> t = 1704124800" for t
    unfolding succeeded_def s by (simp add: num_or_def)
  have "sample_incident \<in> set (pd_incidents sample_tables)" by (simp add: sample_tables_def)
  moreover have fields: "in_recovered sample_incident = None" "in_target sample_incident = ''web''" "in_started sample_incident = 1704124500"
    by (simp_all add: sample_incident_def)
  ultimately obtain i' where i': "i' \<in> set (pd_incidents (reconcile_open_incidents 1704125200 (Obj []) False (\<lambda>_ _ _ _ _. None) sample_tables))"
    and at: "\<And>t. in_recovered i' = Some t \<longleftrightarrow> 1704124500 \<le> t \<and> t = 1704124800 \<and> (\<forall>u > t. u \<noteq> 1704124800)"
    using reconcile_ends_at_the_last_success [OF sample_buckets(2), of 1704125200 sample_incident "Obj []" False "\<lambda>_ _ _ _ _. None"]
    by (auto simp: suc)
  have "in_recovered i' = Some 1704124800" unfolding at by simp
  with i' show ?thesis by blast
qed

end
