(* ===== verification/InstallTickets.thy ===== *)
theory InstallTickets
  imports Credentials
begin

text \<open>
  \<open>admin/install-command.js\<close> and the installation half of \<open>admin/latency-agents.js\<close>: the one time tickets, the commands and
  scripts that are generated, and how a shell reads them.

  A target and a node are known by identifier and name. The addresses come from \<open>agentInstallBase\<close> and \<open>agentApiBase\<close> and are
  arguments of the handlers; \<open>bs\<close> are the random bytes of a ticket. Handlers that throw return the error.
\<close>

section \<open>Words of a shell\<close>

definition name_char :: "char \<Rightarrow> bool" where
  "name_char c \<longleftrightarrow> c \<in> set ''ABCDEFGHIJKLMNOPQRSTUVWXYZ_0123456789''"

definition alphanumeric :: "char \<Rightarrow> bool" where
  "alphanumeric c \<longleftrightarrow> c \<noteq> CHR ''_'' \<and> (name_char c \<or> c \<in> set ''abcdefghijklmnopqrstuvwxyz'')"

text \<open>\<open>shellQuote\<close>\<close>

definition shell_quote :: "string \<Rightarrow> string" where
  "shell_quote v = CHR 0x27 # concat (map (\<lambda>c. if c = CHR 0x27 then [CHR 0x27, CHR 0x5C, CHR 0x27, CHR 0x27] else [c]) v) @ [CHR 0x27]"

text \<open>How a POSIX shell reads a word: quotes keep everything up to the next quote, a backslash keeps one character, a delimiter ends
  the word. \<open>None\<close>: the word is not closed, or a character would be expanded.\<close>

fun sh_quoted :: "string \<Rightarrow> (string \<times> string) option" where
  "sh_quoted [] = None"
| "sh_quoted (c # s) = (if c = CHR 0x27 then Some ([], s) else map_option (\<lambda>(w, r). (c # w, r)) (sh_quoted s))"

definition sh_delimiter :: "char \<Rightarrow> bool" where
  "sh_delimiter c \<longleftrightarrow> c \<in> set '' ;&|<>()'' \<or> c = CHR 0x09 \<or> c = CHR 0x0A"

definition sh_plain :: "char \<Rightarrow> bool" where
  "sh_plain c \<longleftrightarrow> alphanumeric c \<or> c \<in> set ''_-./:,@%+''"

lemma sh_quoted_shorter: "sh_quoted s = Some (w, r) \<Longrightarrow> length r < length s"
  by (induction s arbitrary: w) (auto split: if_splits)

function sh_word :: "string \<Rightarrow> (string \<times> string) option" where
  "sh_word [] = Some ([], [])"
| "sh_word (c # s) =
     (if sh_delimiter c then Some ([], c # s)
      else if c = CHR 0x27 then
        (case sh_quoted s of None \<Rightarrow> None | Some (w, r) \<Rightarrow> map_option (\<lambda>(w', r'). (w @ w', r')) (sh_word r))
      else if c = CHR 0x5C then
        (case s of [] \<Rightarrow> None | d # s' \<Rightarrow> if d = CHR 0x0A then None else map_option (\<lambda>(w, r). (d # w, r)) (sh_word s'))
      else if sh_plain c then map_option (\<lambda>(w, r). (c # w, r)) (sh_word s) else None)"
  by pat_completeness auto
termination by (relation "measure length") (auto dest: sh_quoted_shorter)

text \<open>Lines \<open>NAME=word\<close>\<close>

fun sh_assignments :: "nat \<Rightarrow> string \<Rightarrow> ((string \<times> string) list \<times> string) option" where
  "sh_assignments 0 s = Some ([], s)"
| "sh_assignments (Suc n) s =
     (let name = takeWhile (\<lambda>c. c \<noteq> CHR ''='') s; rest = dropWhile (\<lambda>c. c \<noteq> CHR ''='') s
      in if name = [] \<or> rest = [] \<or> \<not> list_all name_char name then None
         else case sh_word (tl rest) of
                Some (v, c # r) \<Rightarrow> if c = CHR 0x0A then map_option (\<lambda>(env, r'). ((name, v) # env, r')) (sh_assignments n r) else None
              | _ \<Rightarrow> None)"

section \<open>The scripts\<close>

definition dq :: "string \<Rightarrow> string" where "dq s = CHR 0x22 # s @ [CHR 0x22]"
definition sq :: "string \<Rightarrow> string" where "sq s = CHR 0x27 # s @ [CHR 0x27]"
definition nl :: string where "nl = [CHR 0x0A]"

text \<open>\<open>encodeURIComponent\<close>\<close>

definition uri_byte :: "nat \<Rightarrow> string" where
  "uri_byte n = [CHR ''%'', ''0123456789ABCDEF'' ! (n div 16), ''0123456789ABCDEF'' ! (n mod 16)]"

definition encode_uri_char :: "char \<Rightarrow> string" where
  "encode_uri_char c =
     (let n = of_char c :: nat
      in if alphanumeric c \<or> c \<in> set ''-_.!~*()'' \<or> c = CHR 0x27 then [c]
         else if n < 128 then uri_byte n else uri_byte (192 + n div 64) @ uri_byte (128 + n mod 64))"

definition encode_uri_component :: "string \<Rightarrow> string" where
  "encode_uri_component s = concat (map encode_uri_char s)"

definition installer_sha256 :: string where "installer_sha256 = ''bea0d8cee75de1b45fad03a7c5ef98975e01abd48602bce3b8844054b40ad150''"
definition setup_sha256 :: string where "setup_sha256 = ''040149a51995756e2f100fd4e4c910f8300137f27cc5d0c1d78e989f004e7263''"
definition cftz_sha256 :: string where "cftz_sha256 = ''497aace14fedad41d50d55b97553f2a2dbfd9b664ce4e82a382c7057d894ded9''"

record install_config =
  ic_install_base :: string
  ic_api_base :: string
  ic_token :: string
  ic_id :: string
  ic_label :: string
  ic_ping :: int
  ic_manifest :: string
  ic_version :: string

definition ping_text :: "int \<Rightarrow> int \<Rightarrow> int \<Rightarrow> int \<Rightarrow> string" where
  "ping_text n fallback lo hi = js_String (JInt (clamp (if n = 0 then jsint fallback else jsint n) lo hi))"

definition agent_env :: "install_config \<Rightarrow> (string \<times> string) list" where
  "agent_env c =
     [(''NIE_SLA_AGENT_BASE_URL'', ic_install_base c), (''DOWNLOAD_BASE'', ic_install_base c), (''CFTZ_URL_BASE'', ic_install_base c),
      (''NIE_SLA_API_BASE'', ic_api_base c), (''NIE_SLA_AGENT_TOKEN'', ic_token c), (''NIE_SLA_AGENT_ID'', ic_id c),
      (''NIE_SLA_AGENT_LABEL'', ic_label c), (''NIE_SLA_PING_SEC'', ping_text (ic_ping c) 20 5 300), (''NIE_SLA_INSTALLER_SHA256'', installer_sha256),
      (''NIE_SLA_SETUP_SHA256'', setup_sha256), (''NIE_SLA_CFTZ_SHA256'', cftz_sha256), (''NIE_SLA_SHA256SUMS_SHA256'', ic_manifest c),
      (''NIE_SLA_EXPECTED_VERSION'', ic_version c)]"

definition assignment_lines :: "(string \<times> string) list \<Rightarrow> string list" where
  "assignment_lines env = map (\<lambda>(k, v). k @ ''='' @ shell_quote v) env"

definition digest_line :: string where
  "digest_line = ''actual=$(if command -v sha256sum >/dev/null 2>&1; then sha256sum '' @ dq ''$tmp'' @ '' | awk '' @ sq ''{print $1}'' @
     ''; elif command -v shasum >/dev/null 2>&1; then shasum -a 256 '' @ dq ''$tmp'' @ '' | awk '' @ sq ''{print $1}'' @
     ''; elif command -v openssl >/dev/null 2>&1; then openssl dgst -sha256 '' @ dq ''$tmp'' @ '' | awk '' @ sq ''{print $NF}'' @ ''; else exit 127; fi)''"

definition fetch_lines :: "string \<Rightarrow> string list" where
  "fetch_lines url =
     [''tmp=$(mktemp)'', ''chmod 0600 '' @ dq ''$tmp'', ''trap '' @ sq (''rm -f '' @ dq ''$tmp'') @ '' EXIT INT TERM'',
      ''curl -fsSL '' @ shell_quote url @ '' -o '' @ dq ''$tmp'', digest_line]"

text \<open>\<open>lines.join('\n')\<close> with an empty last line\<close>

definition script_of :: "string list \<Rightarrow> string" where
  "script_of ls = concat (map (\<lambda>l. l @ nl) ls)"

definition agent_script :: "install_config \<Rightarrow> string" where
  "agent_script c =
     (let names = map fst (agent_env c); url = ic_install_base c @ ''/install.sh?v='' @ encode_uri_component (ic_manifest c)
      in script_of ([''#!/bin/sh'', ''set -eu''] @ assignment_lines (agent_env c) @ [''export '' @ js_join '' '' names] @ fetch_lines url @
           [''[ '' @ dq ''$actual'' @ '' = '' @ dq ''$NIE_SLA_INSTALLER_SHA256'' @ '' ]'', ''rootless=0'',
            ''for arg in '' @ dq ''$@'' @ ''; do if [ '' @ dq ''$arg'' @ '' = '' @ dq ''--rootless'' @ '' ]; then rootless=1; fi; done'',
            ''if [ '' @ dq ''$(id -u)'' @ '' -eq 0 ] || [ '' @ dq ''$rootless'' @ '' -eq 1 ]; then sh '' @ dq ''$tmp'' @ '' --non-interactive '' @ dq ''$@'' @
            ''; else sudo --preserve-env='' @ js_join '','' names @ '' sh '' @ dq ''$tmp'' @ '' --non-interactive '' @ dq ''$@'' @ ''; fi'']))"

definition latency_installer_sha256 :: string where "latency_installer_sha256 = ''0982cf3546282fc445a5fb84169db009cdc1177defbc8efc12d297fd41b0737c''"
definition latency_script_sha256 :: string where "latency_script_sha256 = ''a76f1e06835aa37965fe60b46bf7f94f6b65ef36083597ab11995ec00238958a''"
definition latency_script_version :: string where "latency_script_version = ''8''"

definition latency_env :: "install_config \<Rightarrow> (string \<times> string) list" where
  "latency_env c =
     [(''NIE_SLA_LATENCY_INSTALL_BASE'', ic_install_base c), (''NIE_SLA_LATENCY_API_BASE'', ic_api_base c), (''NIE_SLA_LATENCY_TOKEN'', ic_token c),
      (''NIE_SLA_LATENCY_NODE_ID'', ic_id c), (''NIE_SLA_LATENCY_INTERVAL_SEC'', ping_text (ic_ping c) 60 30 600),
      (''NIE_SLA_LATENCY_SCRIPT_SHA256'', ic_manifest c)]"

definition latency_script :: "install_config \<Rightarrow> string" where
  "latency_script c =
     (let names = map fst (latency_env c);
          url = ic_install_base c @ ''/install-latency.sh?v='' @ encode_uri_component (if ic_version c = [] then latency_script_version else ic_version c)
      in script_of ([''#!/bin/sh'', ''set -eu''] @ assignment_lines (latency_env c) @ [''export '' @ js_join '' '' names] @ fetch_lines url @
           [''[ '' @ dq ''$actual'' @ '' = '' @ shell_quote latency_installer_sha256 @ '' ]'',
            ''if [ '' @ dq ''$(id -u)'' @ '' -eq 0 ]; then sh '' @ dq ''$tmp'' @ ''; else sudo --preserve-env='' @ js_join '','' names @ '' sh '' @ dq ''$tmp'' @ ''; fi'']))"

text \<open>\<open>replaceAgentArgument\<close> and the command that fetches a script with a ticket\<close>

definition replace_agent_argument :: "jsval \<Rightarrow> string" where
  "replace_agent_argument v =
     (let source = js_lower (js_trim (str_or_empty v))
      in if source \<noteq> ''nezha'' \<and> source \<noteq> ''komari'' \<and> source \<noteq> ''nodeget'' then [] else '' --replace-agent '' @ source)"

definition fetch_command :: "string \<Rightarrow> string \<Rightarrow> string \<Rightarrow> string" where
  "fetch_command ticket url arguments =
     ''(t=$(mktemp) && trap '' @ sq (''rm -f '' @ dq ''$t'') @ '' EXIT INT TERM && chmod 0600 '' @ dq ''$t'' @ '' && curl -fsSL -H '' @
     shell_quote (''Authorization: Bearer '' @ ticket) @ '' '' @ shell_quote url @ '' -o '' @ dq ''$t'' @ '' && sh '' @ dq ''$t'' @ arguments @ '')''"

section \<open>Addresses\<close>

text \<open>\<open>parse\<close>: protocol, host and host name of \<open>new URL(v)\<close>, \<open>None\<close> when it throws\<close>

type_synonym url_parts = "string \<Rightarrow> (string \<times> string \<times> string) option"

definition strip_slashes :: "string \<Rightarrow> string" where
  "strip_slashes s = rev (dropWhile (\<lambda>c. c = CHR ''/'') (rev s))"

definition is_public_http_origin :: "url_parts \<Rightarrow> string \<Rightarrow> bool" where
  "is_public_http_origin parse v =
     (case parse v of None \<Rightarrow> False
      | Some (protocol, _, hostname) \<Rightarrow> protocol = ''https:'' \<and> js_lower hostname \<notin> {''localhost'', ''127.0.0.1'', ''::1''})"

definition origin_of :: "url_parts \<Rightarrow> string \<Rightarrow> string" where
  "origin_of parse v =
     (case parse v of None \<Rightarrow> []
      | Some (protocol, host, _) \<Rightarrow> let origin = protocol @ ''//'' @ host in if is_public_http_origin parse origin then origin else [])"

record install_request =
  ir_origin :: string
  ir_referer :: string
  ir_url :: string

definition public_request_origin :: "url_parts \<Rightarrow> install_request \<Rightarrow> string" where
  "public_request_origin parse r =
     (if is_public_http_origin parse (js_trim (ir_origin r)) then js_trim (ir_origin r) else origin_of parse (js_trim (ir_referer r)))"

definition agent_install_base :: "jsval \<Rightarrow> url_parts \<Rightarrow> string \<Rightarrow> install_request \<Rightarrow> string" where
  "agent_install_base env parse stored r =
     (let explicit = js_trim (str_or_empty (js_or (js_get env ''PUBLIC_AGENT_INSTALL_BASE'') (js_get env ''AGENT_INSTALL_BASE'')));
          site = env_text env ''PUBLIC_SITE_ORIGIN''; public = public_request_origin parse r
      in if explicit \<noteq> [] then strip_slashes explicit else if stored \<noteq> [] then stored else if site \<noteq> [] then strip_slashes site
         else if public \<noteq> [] then strip_slashes public else strip_slashes (origin_of parse (ir_url r)))"

definition agent_api_base :: "jsval \<Rightarrow> url_parts \<Rightarrow> string \<Rightarrow> install_request \<Rightarrow> string \<Rightarrow> string" where
  "agent_api_base env parse stored r install_base =
     (let explicit = js_trim (str_or_empty (js_or (js_get env ''PUBLIC_AGENT_API_BASE'') (js_or (js_get env ''AGENT_API_BASE'') (js_get env ''PUBLIC_API_BASE''))));
          public = public_request_origin parse r; worker = env_text env ''PUBLIC_WORKER_URL''
      in if stored \<noteq> [] then stored else if explicit \<noteq> [] then strip_slashes explicit else if public \<noteq> [] then strip_slashes public
         else if worker \<noteq> [] then strip_slashes worker else if install_base \<noteq> [] then strip_slashes install_base
         else (case parse (ir_url r) of None \<Rightarrow> [] | Some (protocol, host, _) \<Rightarrow> strip_slashes (protocol @ ''//'' @ host)))"

section \<open>Tickets\<close>

record ticket =
  tk_hash :: string
  tk_target :: string
  tk_install_base :: string
  tk_api_base :: string
  tk_label :: string
  tk_ping :: int
  tk_manifest :: string
  tk_version :: string
  tk_created :: int
  tk_expires :: int
  tk_used :: "int option"

definition random_install_ticket :: "bytes \<Rightarrow> string" where
  "random_install_ticket bs = ''nsi_'' @ concat (map (\<lambda>b. [hex_digit (unat b div 16), hex_digit (unat b mod 16)]) bs)"

definition install_ticket_ttl_sec :: int where "install_ticket_ttl_sec = 600"

text \<open>\<open>/^nsi_[a-f0-9]{48}$/\<close>\<close>

definition ticket_format :: "string \<Rightarrow> bool" where
  "ticket_format t \<longleftrightarrow> starts_with ''nsi_'' t \<and> length t = 52 \<and> list_all (\<lambda>c. c \<in> set ''0123456789abcdef'') (drop 4 t)"

text \<open>\<open>target_id LIKE 'latency:%'\<close>, without regard to case\<close>

definition like_latency :: "string \<Rightarrow> bool" where
  "like_latency target \<longleftrightarrow> starts_with ''latency:'' (js_lower target)"

text \<open>\<open>INSERT\<close>: the hash is the primary key\<close>

definition insert_ticket :: "ticket \<Rightarrow> ticket list \<Rightarrow> ticket list option" where
  "insert_ticket t rows = (if tk_hash t \<in> set (map tk_hash rows) then None else Some (rows @ [t]))"

text \<open>\<open>UPDATE ... SET used_at ... RETURNING\<close>, of the one or the other kind\<close>

definition redeem_ticket :: "bool \<Rightarrow> int \<Rightarrow> string \<Rightarrow> ticket list \<Rightarrow> ticket list \<times> ticket option" where
  "redeem_ticket latency now hash rows =
     (let hit = (\<lambda>t. tk_hash t = hash \<and> like_latency (tk_target t) = latency \<and> tk_used t = None \<and> now \<le> tk_expires t)
      in (map (\<lambda>t. if hit t then t\<lparr> tk_used := Some now \<rparr> else t) rows, find hit rows))"

definition cleanup_tickets :: "bool \<Rightarrow> int \<Rightarrow> ticket list \<Rightarrow> ticket list" where
  "cleanup_tickets latency_only now rows =
     filter (\<lambda>t. \<not> ((latency_only \<longrightarrow> like_latency (tk_target t)) \<and>
        (tk_expires t < now - 3600 \<or> (case tk_used t of None \<Rightarrow> False | Some u \<Rightarrow> u < now - 3600)))) rows"

definition drop_tickets :: "string \<Rightarrow> ticket list \<Rightarrow> ticket list" where
  "drop_tickets target rows = filter (\<lambda>t. tk_target t \<noteq> target) rows"

section \<open>The handlers\<close>

record install_db =
  id_cred :: credential_db
  id_tickets :: "ticket list"
  id_targets :: "(string \<times> string) list"
  id_nodes :: "(string \<times> string) list"

datatype install_error =
    No_target_id | No_such_target | Agent_id_collision | Credential_failed credential_error | No_token | No_install_base | Ticket_exists
  | Bad_ticket | Target_gone

definition has_agent_id_collision :: "install_db \<Rightarrow> string \<Rightarrow> string \<Rightarrow> bool" where
  "has_agent_id_collision db target agent \<longleftrightarrow> list_ex (\<lambda>(i, _). i \<noteq> target \<and> sanitize_agent_id (Str i) = agent) (id_targets db)"

record install_settings =
  is_install_base :: string
  is_api_base :: string
  is_ping :: int
  is_manifest :: string
  is_version :: string

definition new_ticket :: "vault \<Rightarrow> int \<Rightarrow> install_settings \<Rightarrow> bytes \<Rightarrow> string \<Rightarrow> string \<Rightarrow> ticket" where
  "new_ticket va now st bs target label =
     \<lparr> tk_hash = va_sha va (random_install_ticket bs), tk_target = target, tk_install_base = is_install_base st, tk_api_base = is_api_base st,
       tk_label = label, tk_ping = is_ping st, tk_manifest = is_manifest st, tk_version = is_version st, tk_created = now,
       tk_expires = now + install_ticket_ttl_sec, tk_used = None \<rparr>"

definition label_of :: "string \<Rightarrow> string \<Rightarrow> string" where
  "label_of name i = (let l = js_trim (if name = [] then i else name) in if l = [] then i else l)"

definition get_agent_install_command ::
  "vault \<Rightarrow> int \<Rightarrow> bytes \<Rightarrow> bytes \<Rightarrow> bytes \<Rightarrow> install_settings \<Rightarrow> jsval \<Rightarrow> string \<Rightarrow> install_db \<Rightarrow> install_db \<times> (install_error + string \<times> string)" where
  "get_agent_install_command va now random iv bs st replace target_param db =
     (let target = js_trim target_param; agent = sanitize_agent_id (Str target)
      in if target = [] \<or> agent = [] then (db, Inl No_target_id)
         else case map_of (id_targets db) target of
           None \<Rightarrow> (db, Inl No_such_target)
         | Some name \<Rightarrow>
             if has_agent_id_collision db target agent then (db, Inl Agent_id_collision)
             else case get_or_create_for_reinstall va now random iv (\<lambda>d. d) (\<lambda>d. d) ''agent'' (Str agent) (id_cred db) of
               (cred, Inl e) \<Rightarrow> (db\<lparr> id_cred := cred \<rparr>, Inl (Credential_failed e))
             | (cred, Inr (token, _)) \<Rightarrow>
                 if token = [] then (db\<lparr> id_cred := cred \<rparr>, Inl No_token)
                 else if is_install_base st = [] then (db\<lparr> id_cred := cred \<rparr>, Inl No_install_base)
                 else case insert_ticket (new_ticket va now st bs target (label_of name target)) (id_tickets db) of
                   None \<Rightarrow> (db\<lparr> id_cred := cred \<rparr>, Inl Ticket_exists)
                 | Some rows \<Rightarrow>
                     let url = is_api_base st @ ''/api/agent/install-script''; ticket = random_install_ticket bs; flag = replace_agent_argument replace
                     in (db\<lparr> id_cred := cred, id_tickets := cleanup_tickets False now rows \<rparr>,
                         Inr (fetch_command ticket url flag, fetch_command ticket url ('' --rootless'' @ flag))))"

definition get_agent_install_script ::
  "vault \<Rightarrow> int \<Rightarrow> bytes \<Rightarrow> bytes \<Rightarrow> string \<Rightarrow> install_db \<Rightarrow> install_db \<times> (install_error + string)" where
  "get_agent_install_script va now random iv ticket db =
     (if \<not> ticket_format ticket then (db, Inl Bad_ticket)
      else case redeem_ticket False now (va_sha va ticket) (id_tickets db) of
        (rows, None) \<Rightarrow> (db\<lparr> id_tickets := rows \<rparr>, Inl Bad_ticket)
      | (rows, Some t) \<Rightarrow>
          (let db1 = db\<lparr> id_tickets := rows \<rparr>; target = js_trim (tk_target t); agent = sanitize_agent_id (Str target)
           in if target = [] \<or> agent = [] \<or> map_of (id_targets db) target = None then (db1, Inl Target_gone)
              else if has_agent_id_collision db1 target agent then (db1, Inl Agent_id_collision)
              else case get_or_create_for_reinstall va now random iv (\<lambda>d. d) (\<lambda>d. d) ''agent'' (Str agent) (id_cred db1) of
                (cred, Inl e) \<Rightarrow> (db1\<lparr> id_cred := cred \<rparr>, Inl (Credential_failed e))
              | (cred, Inr (token, _)) \<Rightarrow>
                  (db1\<lparr> id_cred := cred \<rparr>,
                   if token = [] then Inl No_token
                   else Inr (agent_script \<lparr> ic_install_base = tk_install_base t, ic_api_base = tk_api_base t, ic_token = token, ic_id = agent,
                          ic_label = tk_label t, ic_ping = tk_ping t, ic_manifest = tk_manifest t, ic_version = tk_version t \<rparr>))))"

definition get_latency_install_command ::
  "vault \<Rightarrow> int \<Rightarrow> bytes \<Rightarrow> install_settings \<Rightarrow> string \<Rightarrow> install_db \<Rightarrow> install_db \<times> (install_error + string)" where
  "get_latency_install_command va now bs st node_param db =
     (let node = sanitize_agent_id (Str node_param)
      in if node = [] then (db, Inl No_target_id)
         else case map_of (id_nodes db) node of
           None \<Rightarrow> (db, Inl No_such_target)
         | Some name \<Rightarrow>
             if is_install_base st = [] then (db, Inl No_install_base)
             else case insert_ticket (new_ticket va now (st\<lparr> is_manifest := latency_script_sha256, is_version := latency_script_version \<rparr>) bs
                      (''latency:'' @ node) (label_of name node)) (id_tickets db) of
               None \<Rightarrow> (db, Inl Ticket_exists)
             | Some rows \<Rightarrow>
                 (db\<lparr> id_tickets := cleanup_tickets True now rows \<rparr>,
                  Inr (fetch_command (random_install_ticket bs) (is_api_base st @ ''/api/latency-agent/install-script'') [])))"

definition get_latency_install_script ::
  "vault \<Rightarrow> int \<Rightarrow> bytes \<Rightarrow> bytes \<Rightarrow> string \<Rightarrow> install_db \<Rightarrow> install_db \<times> (install_error + string)" where
  "get_latency_install_script va now random iv ticket db =
     (if \<not> ticket_format ticket then (db, Inl Bad_ticket)
      else case redeem_ticket True now (va_sha va ticket) (id_tickets db) of
        (rows, None) \<Rightarrow> (db\<lparr> id_tickets := rows \<rparr>, Inl Bad_ticket)
      | (rows, Some t) \<Rightarrow>
          (let db1 = db\<lparr> id_tickets := rows \<rparr>; node = drop 8 (tk_target t)
           in if node = [] \<or> sanitize_agent_id (Str node) \<noteq> node \<or> map_of (id_nodes db) node = None then (db1, Inl Target_gone)
              else case get_or_create_agent_token va now random iv (\<lambda>d. d) (\<lambda>d. d) ''latency'' (Str node) (id_cred db1) of
                (cred, Inl e) \<Rightarrow> (db1\<lparr> id_cred := cred \<rparr>, Inl (Credential_failed e))
              | (cred, Inr token) \<Rightarrow>
                  (db1\<lparr> id_cred := cred \<rparr>,
                   if token = [] then Inl No_token
                   else Inr (latency_script \<lparr> ic_install_base = tk_install_base t, ic_api_base = tk_api_base t, ic_token = token, ic_id = node,
                          ic_label = tk_label t, ic_ping = tk_ping t, ic_manifest = tk_manifest t, ic_version = tk_version t \<rparr>))))"

section \<open>What a shell reads\<close>

definition quoted_rest :: "string \<Rightarrow> (string \<times> string) option" where
  "quoted_rest s = (case sh_quoted s of None \<Rightarrow> None | Some (w, r) \<Rightarrow> map_option (\<lambda>(w', r'). (w @ w', r')) (sh_word r))"

lemma sh_word_quote: "sh_word (CHR 0x27 # s) = quoted_rest s"
  by (simp add: quoted_rest_def sh_delimiter_def)

lemma quoted_rest_char: "c \<noteq> CHR 0x27 \<Longrightarrow> quoted_rest (c # s) = map_option (\<lambda>(w, r). (c # w, r)) (quoted_rest s)"
  by (cases "sh_quoted s") (auto simp: quoted_rest_def option.map_comp comp_def split_beta')

lemma quoted_rest_escaped:
  "quoted_rest (CHR 0x27 # CHR 0x5C # CHR 0x27 # CHR 0x27 # s) = map_option (\<lambda>(w, r). (CHR 0x27 # w, r)) (quoted_rest s)"
proof -
  have "sh_word (CHR 0x5C # CHR 0x27 # CHR 0x27 # s) = map_option (\<lambda>(w, r). (CHR 0x27 # w, r)) (sh_word (CHR 0x27 # s))"
    by (subst sh_word.simps) (simp add: sh_delimiter_def del: sh_word.simps)
  then show ?thesis unfolding sh_word_quote
    by (simp add: quoted_rest_def [of "CHR 0x27 # x" for x] option.map_comp comp_def split_beta' del: sh_word.simps)
qed

lemma sh_word_shell_quote: "sh_word (shell_quote v @ rest) = map_option (\<lambda>(w, r). (v @ w, r)) (sh_word rest)"
proof -
  let ?q = "\<lambda>v. concat (map (\<lambda>c. if c = CHR 0x27 then [CHR 0x27, CHR 0x5C, CHR 0x27, CHR 0x27] else [c]) v)"
  have "quoted_rest (?q v @ CHR 0x27 # rest) = map_option (\<lambda>(w, r). (v @ w, r)) (sh_word rest)"
  proof (induction v)
    case Nil
    show ?case by (cases "sh_word rest") (auto simp: quoted_rest_def)
  next
    case (Cons c v)
    then show ?case
      by (cases "c = CHR 0x27") (simp_all add: quoted_rest_char quoted_rest_escaped option.map_comp comp_def split_beta' id_def)
  qed
  then show ?thesis unfolding shell_quote_def by (simp add: sh_word_quote del: sh_word.simps)
qed

lemma sh_word_delimited: "rest = [] \<or> sh_delimiter (hd rest) \<Longrightarrow> sh_word (shell_quote v @ rest) = Some (v, rest)"
  using sh_word_shell_quote [of v "[]"] by (cases rest) (simp_all add: sh_word_shell_quote)

definition env_name :: "string \<Rightarrow> bool" where
  "env_name k \<longleftrightarrow> k \<noteq> [] \<and> list_all name_char k"

lemma no_equals: "\<not> name_char (CHR ''='')"
  by code_simp

lemma assignments_read:
  "\<forall>(k, v) \<in> set env. env_name k \<Longrightarrow> sh_assignments (length env) (script_of (assignment_lines env) @ rest) = Some (env, rest)"
proof (induction env)
  case (Cons x env)
  obtain k v where x: "x = (k, v)" by (cases x)
  let ?rest = "script_of (assignment_lines env) @ rest"
  have k: "env_name k" using Cons.prems by (simp add: x)
  have no: "\<forall>c \<in> set k. c \<noteq> CHR ''=''" using k no_equals by (auto simp: env_name_def list_all_iff)
  have s: "script_of (assignment_lines (x # env)) @ rest = k @ CHR ''='' # (shell_quote v @ CHR 0x0A # ?rest)"
    by (simp add: x script_of_def assignment_lines_def nl_def)
  have split: "takeWhile (\<lambda>c. c \<noteq> CHR ''='') (k @ CHR ''='' # y) = k" "dropWhile (\<lambda>c. c \<noteq> CHR ''='') (k @ CHR ''='' # y) = CHR ''='' # y" for y
    using no by (induction k) auto
  have "sh_word (shell_quote v @ CHR 0x0A # ?rest) = Some (v, CHR 0x0A # ?rest)"
    by (rule sh_word_delimited) (simp add: sh_delimiter_def)
  with Cons k show ?case unfolding s by (simp add: x split env_name_def del: sh_word.simps)
qed (simp add: script_of_def assignment_lines_def)

lemma script_of_append: "script_of (xs @ ys) = script_of xs @ script_of ys"
  by (simp add: script_of_def)

definition agent_names :: "string list" where
  "agent_names = [''NIE_SLA_AGENT_BASE_URL'', ''DOWNLOAD_BASE'', ''CFTZ_URL_BASE'', ''NIE_SLA_API_BASE'', ''NIE_SLA_AGENT_TOKEN'', ''NIE_SLA_AGENT_ID'',
     ''NIE_SLA_AGENT_LABEL'', ''NIE_SLA_PING_SEC'', ''NIE_SLA_INSTALLER_SHA256'', ''NIE_SLA_SETUP_SHA256'', ''NIE_SLA_CFTZ_SHA256'',
     ''NIE_SLA_SHA256SUMS_SHA256'', ''NIE_SLA_EXPECTED_VERSION'']"

definition latency_names :: "string list" where
  "latency_names = [''NIE_SLA_LATENCY_INSTALL_BASE'', ''NIE_SLA_LATENCY_API_BASE'', ''NIE_SLA_LATENCY_TOKEN'', ''NIE_SLA_LATENCY_NODE_ID'',
     ''NIE_SLA_LATENCY_INTERVAL_SEC'', ''NIE_SLA_LATENCY_SCRIPT_SHA256'']"

lemma script_names: "map fst (agent_env c) = agent_names" "map fst (latency_env c) = latency_names"
  by (simp_all add: agent_env_def agent_names_def latency_env_def latency_names_def)

lemma env_names_ok: "\<forall>(k, v) \<in> set (agent_env c). env_name k" "\<forall>(k, v) \<in> set (latency_env c). env_name k"
proof -
  have "list_all env_name agent_names" "list_all env_name latency_names" by code_simp+
  then have "\<forall>k \<in> set (map fst (agent_env c)). env_name k" "\<forall>k \<in> set (map fst (latency_env c)). env_name k"
    unfolding script_names list_all_iff .
  then show "\<forall>(k, v) \<in> set (agent_env c). env_name k" "\<forall>(k, v) \<in> set (latency_env c). env_name k" by fastforce+
qed

lemma script_assignments:
  assumes "\<forall>(k, v) \<in> set env. env_name k" "script = script_of (heads @ assignment_lines env @ [line] @ others)"
  shows "\<exists>rest. sh_assignments (length env) (drop (length (script_of heads)) script) = Some (env, line @ nl @ rest)"
proof -
  have "drop (length (script_of heads)) script = script_of (assignment_lines env) @ line @ nl @ script_of others"
    unfolding assms(2) script_of_append by (simp add: script_of_def)
  with assignments_read [OF assms(1), of "line @ nl @ script_of others"] show ?thesis by auto
qed

text \<open>C24: Whatever a target, a node, an address or a setting is called, a shell reads from the scripts exactly the variables that were
  meant, each with its value, and goes on with the command that exports them.\<close>

theorem scripts_set_the_variables:
  "(\<exists>rest. sh_assignments (length (agent_env c)) (drop (length (script_of [''#!/bin/sh'', ''set -eu''])) (agent_script c)) =
      Some (agent_env c, (''export '' @ js_join '' '' (map fst (agent_env c))) @ nl @ rest)) \<and>
   (\<exists>rest. sh_assignments (length (latency_env c)) (drop (length (script_of [''#!/bin/sh'', ''set -eu''])) (latency_script c)) =
      Some (latency_env c, (''export '' @ js_join '' '' (map fst (latency_env c))) @ nl @ rest))"
  by (intro conjI script_assignments env_names_ok) (simp_all only: agent_script_def latency_script_def Let_def append_assoc)

section \<open>The life of a ticket\<close>

text \<open>Requests and deletions, in the order in which their statements on the tickets are executed\<close>

datatype install_event =
    Ask_agent int bytes bytes bytes install_settings jsval string
  | Ask_latency int bytes install_settings string
  | Fetch_agent int bytes bytes string
  | Fetch_latency int bytes bytes string
  | Remove_agent string
  | Remove_node string

datatype ticket_log = Drawn string int | Given string int

definition drawn_if :: "string \<Rightarrow> int \<Rightarrow> install_db \<times> (install_error + 'a) \<Rightarrow> install_db \<times> ticket_log list" where
  "drawn_if h now r = (case r of (db, Inr _) \<Rightarrow> (db, [Drawn h now]) | (db, Inl _) \<Rightarrow> (db, []))"

definition given_if :: "string \<Rightarrow> int \<Rightarrow> install_db \<times> (install_error + 'a) \<Rightarrow> install_db \<times> ticket_log list" where
  "given_if h now r = (case r of (db, Inr _) \<Rightarrow> (db, [Given h now]) | (db, Inl _) \<Rightarrow> (db, []))"

fun install_step :: "vault \<Rightarrow> install_event \<Rightarrow> install_db \<Rightarrow> install_db \<times> ticket_log list" where
  "install_step va (Ask_agent now random iv bs st replace target) db =
     drawn_if (va_sha va (random_install_ticket bs)) now (get_agent_install_command va now random iv bs st replace target db)"
| "install_step va (Ask_latency now bs st node) db = drawn_if (va_sha va (random_install_ticket bs)) now (get_latency_install_command va now bs st node db)"
| "install_step va (Fetch_agent now random iv ticket) db = given_if (va_sha va ticket) now (get_agent_install_script va now random iv ticket db)"
| "install_step va (Fetch_latency now random iv ticket) db = given_if (va_sha va ticket) now (get_latency_install_script va now random iv ticket db)"
| "install_step va (Remove_agent target) db = (db\<lparr> id_tickets := drop_tickets (sanitize_agent_id (Str target)) (id_tickets db) \<rparr>, [])"
| "install_step va (Remove_node node) db = (db\<lparr> id_tickets := drop_tickets (''latency:'' @ sanitize_agent_id (Str node)) (id_tickets db) \<rparr>, [])"

fun install_run :: "vault \<Rightarrow> install_event list \<Rightarrow> install_db \<Rightarrow> install_db \<times> ticket_log list" where
  "install_run va [] db = (db, [])"
| "install_run va (e # es) db = (let (db1, l) = install_step va e db; (db2, l') = install_run va es db1 in (db2, l @ l'))"

text \<open>What a step does to the tickets\<close>

lemma agent_command_tickets:
  "case get_agent_install_command va now random iv bs st replace target db of
     (db', Inl _) \<Rightarrow> id_tickets db' = id_tickets db
   | (db', Inr _) \<Rightarrow> \<exists>st tg l. id_tickets db' = cleanup_tickets False now (id_tickets db @ [new_ticket va now st bs tg l])"
  by (auto simp: get_agent_install_command_def insert_ticket_def Let_def split: option.splits sum.splits prod.splits)

lemma latency_command_tickets:
  "case get_latency_install_command va now bs st node db of
     (db', Inl _) \<Rightarrow> id_tickets db' = id_tickets db
   | (db', Inr _) \<Rightarrow> \<exists>st' tg l. id_tickets db' = cleanup_tickets True now (id_tickets db @ [new_ticket va now st' bs tg l])"
  by (auto simp: get_latency_install_command_def insert_ticket_def Let_def split: option.splits sum.splits prod.splits)

lemma agent_script_tickets:
  "case get_agent_install_script va now random iv ticket db of
     (db', Inl _) \<Rightarrow> id_tickets db' \<in> {id_tickets db, fst (redeem_ticket False now (va_sha va ticket) (id_tickets db))}
   | (db', Inr _) \<Rightarrow> \<exists>t. redeem_ticket False now (va_sha va ticket) (id_tickets db) = (id_tickets db', Some t)"
  by (auto simp: get_agent_install_script_def Let_def split: option.splits sum.splits prod.splits)

lemma latency_script_tickets:
  "case get_latency_install_script va now random iv ticket db of
     (db', Inl _) \<Rightarrow> id_tickets db' \<in> {id_tickets db, fst (redeem_ticket True now (va_sha va ticket) (id_tickets db))}
   | (db', Inr _) \<Rightarrow> \<exists>t. redeem_ticket True now (va_sha va ticket) (id_tickets db) = (id_tickets db', Some t)"
  by (auto simp: get_latency_install_script_def Let_def split: option.splits sum.splits prod.splits)

text \<open>Tickets that can still be redeemed, and what a log says of a ticket\<close>

definition open_tickets :: "ticket list \<Rightarrow> (string \<times> int) list" where
  "open_tickets rows = map (\<lambda>t. (tk_hash t, tk_expires t)) (filter (\<lambda>t. tk_used t = None) rows)"

definition open_with :: "string \<Rightarrow> ticket list \<Rightarrow> nat" where
  "open_with h rows = length (filter (\<lambda>p. fst p = h) (open_tickets rows))"

definition drawings :: "string \<Rightarrow> ticket_log list \<Rightarrow> nat" where
  "drawings h js = length (filter (\<lambda>l. case l of Drawn k _ \<Rightarrow> k = h | _ \<Rightarrow> False) js)"

definition deliveries :: "string \<Rightarrow> ticket_log list \<Rightarrow> nat" where
  "deliveries h js = length (filter (\<lambda>l. case l of Given k _ \<Rightarrow> k = h | _ \<Rightarrow> False) js)"

fun in_time :: "(string \<times> int) list \<Rightarrow> ticket_log list \<Rightarrow> bool" where
  "in_time valid [] \<longleftrightarrow> True"
| "in_time valid (Drawn h now # js) \<longleftrightarrow> in_time ((h, now + 600) # valid) js"
| "in_time valid (Given h now # js) \<longleftrightarrow> list_ex (\<lambda>(k, expires). k = h \<and> now \<le> expires) valid \<and> in_time valid js"

fun valid_after :: "(string \<times> int) list \<Rightarrow> ticket_log list \<Rightarrow> (string \<times> int) list" where
  "valid_after valid [] = valid"
| "valid_after valid (Drawn h now # js) = valid_after ((h, now + 600) # valid) js"
| "valid_after valid (Given h now # js) = valid_after valid js"

lemma in_time_append: "in_time valid (l @ l') \<longleftrightarrow> in_time valid l \<and> in_time (valid_after valid l) l'"
  by (induction valid l rule: in_time.induct) auto

lemma log_sums [simp]: "drawings h (l @ l') = drawings h l + drawings h l'" "deliveries h (l @ l') = deliveries h l + deliveries h l'"
  by (simp_all add: drawings_def deliveries_def)

lemma log_single [simp]:
  "drawings h [] = 0" "deliveries h [] = 0" "drawings h [Drawn k n] = (if k = h then 1 else 0)" "deliveries h [Drawn k n] = 0"
  "drawings h [Given k n] = 0" "deliveries h [Given k n] = (if k = h then 1 else 0)"
  by (simp_all add: drawings_def deliveries_def)

lemma open_kept:
  "set (open_tickets (filter P rows)) \<subseteq> set (open_tickets rows)" "open_with h (filter P rows) \<le> open_with h rows"
  by (induction rows) (auto simp: open_tickets_def open_with_def)

lemma open_cleanup:
  "set (open_tickets (cleanup_tickets k now rows)) \<subseteq> set (open_tickets rows)" "open_with h (cleanup_tickets k now rows) \<le> open_with h rows"
  unfolding cleanup_tickets_def by (rule open_kept)+

lemma open_new:
  "open_tickets (rows @ [new_ticket va now st bs tg l]) = open_tickets rows @ [(va_sha va (random_install_ticket bs), now + 600)]"
  by (simp add: open_tickets_def new_ticket_def install_ticket_ttl_sec_def)

lemma open_cons:
  "open_tickets (t # rows) = (if tk_used t = None then (tk_hash t, tk_expires t) # open_tickets rows else open_tickets rows)"
  "open_with h (t # rows) = (if tk_used t = None \<and> tk_hash t = h then Suc (open_with h rows) else open_with h rows)"
  by (simp_all add: open_with_def open_tickets_def)

lemma open_used:
  "set (open_tickets (map (\<lambda>t. if P t then t\<lparr> tk_used := Some now \<rparr> else t) rows)) \<subseteq> set (open_tickets rows)"
  "open_with h (map (\<lambda>t. if P t then t\<lparr> tk_used := Some now \<rparr> else t) rows) \<le> open_with h rows"
  by (induction rows) (simp_all add: open_cons subset_iff)

lemma open_used_hit:
  "t \<in> set rows \<Longrightarrow> P t \<Longrightarrow> tk_hash t = h \<Longrightarrow> tk_used t = None \<Longrightarrow>
     open_with h (map (\<lambda>t. if P t then t\<lparr> tk_used := Some now \<rparr> else t) rows) < open_with h rows"
proof (induction rows)
  case (Cons r rows)
  have "open_with h (map (\<lambda>t. if P t then t\<lparr> tk_used := Some now \<rparr> else t) rows) \<le> open_with h rows" by (rule open_used)
  with Cons show ?case by (cases "t = r") (auto simp: open_cons less_Suc_eq_le)
qed simp

lemma open_redeem:
  "set (open_tickets (fst (redeem_ticket k now h' rows))) \<subseteq> set (open_tickets rows)"
  "open_with h (fst (redeem_ticket k now h' rows)) \<le> open_with h rows"
  by (simp_all add: redeem_ticket_def open_used Let_def)

lemma redeem_uses:
  assumes "redeem_ticket k now h rows = (rows', Some t)"
  shows "(h, tk_expires t) \<in> set (open_tickets rows)" "now \<le> tk_expires t" "open_with h rows' < open_with h rows"
proof -
  let ?hit = "\<lambda>t. tk_hash t = h \<and> like_latency (tk_target t) = k \<and> tk_used t = None \<and> now \<le> tk_expires t"
  have t: "t \<in> set rows" "?hit t" and r: "rows' = map (\<lambda>t. if ?hit t then t\<lparr> tk_used := Some now \<rparr> else t) rows"
    using assms by (auto simp: redeem_ticket_def Let_def find_Some_iff in_set_conv_nth)
  show "(h, tk_expires t) \<in> set (open_tickets rows)" "now \<le> tk_expires t" using t by (auto simp: open_tickets_def)
  show "open_with h rows' < open_with h rows" unfolding r by (rule open_used_hit [OF t(1)]) (use t(2) in simp_all)
qed

text \<open>One step\<close>

definition step_ok :: "install_db \<Rightarrow> install_db \<times> ticket_log list \<Rightarrow> bool" where
  "step_ok db r \<longleftrightarrow> in_time (open_tickets (id_tickets db)) (snd r) \<and>
     set (open_tickets (id_tickets (fst r))) \<subseteq> set (valid_after (open_tickets (id_tickets db)) (snd r)) \<and>
     (\<forall>h. open_with h (id_tickets (fst r)) + deliveries h (snd r) \<le> open_with h (id_tickets db) + drawings h (snd r))"

lemma drawn_step:
  assumes "case r of (db', Inl _) \<Rightarrow> id_tickets db' = id_tickets db
     | (db', Inr _) \<Rightarrow> \<exists>st tg l. id_tickets db' = cleanup_tickets k now (id_tickets db @ [new_ticket va now st bs tg l])"
  shows "step_ok db (drawn_if (va_sha va (random_install_ticket bs)) now r)"
proof -
  obtain db' x where r: "r = (db', x)" by (cases r)
  show ?thesis
  proof (cases x)
    case (Inr y)
    then obtain st tg l where t: "id_tickets db' = cleanup_tickets k now (id_tickets db @ [new_ticket va now st bs tg l])"
      using assms by (auto simp: r)
    have w: "open_with h (id_tickets db @ [new_ticket va now st bs tg l]) =
        open_with h (id_tickets db) + (if va_sha va (random_install_ticket bs) = h then 1 else 0)" for h
      by (simp add: open_with_def open_new)
    show ?thesis unfolding step_ok_def drawn_if_def r Inr
      using open_cleanup [where k = k and now = now and rows = "id_tickets db @ [new_ticket va now st bs tg l]"]
      by (simp add: t w open_new)
  qed (use assms in \<open>simp add: step_ok_def drawn_if_def r\<close>)
qed

lemma given_step:
  assumes "case r of (db', Inl _) \<Rightarrow> id_tickets db' \<in> {id_tickets db, fst (redeem_ticket k now h (id_tickets db))}
     | (db', Inr _) \<Rightarrow> \<exists>t. redeem_ticket k now h (id_tickets db) = (id_tickets db', Some t)"
  shows "step_ok db (given_if h now r)"
proof -
  obtain db' x where r: "r = (db', x)" by (cases r)
  show ?thesis
  proof (cases x)
    case (Inl e)
    then show ?thesis using assms open_redeem [where k = k and now = now and h' = h and rows = "id_tickets db"] by (auto simp: step_ok_def given_if_def r)
  next
    case (Inr y)
    then obtain t where t: "redeem_ticket k now h (id_tickets db) = (id_tickets db', Some t)" using assms by (auto simp: r)
    have "open_with g (id_tickets db') \<le> open_with g (id_tickets db)" "set (open_tickets (id_tickets db')) \<subseteq> set (open_tickets (id_tickets db))" for g
      using open_redeem [where k = k and now = now and h' = h and rows = "id_tickets db"] by (simp_all add: t)
    with redeem_uses [OF t] show ?thesis by (auto simp: step_ok_def given_if_def r Inr list_ex_iff)
  qed
qed

lemma install_step_ok: "step_ok db (install_step va e db)"
proof (cases e)
  case (Ask_agent now random iv bs st replace target)
  show ?thesis unfolding Ask_agent install_step.simps
    by (rule drawn_step [OF agent_command_tickets])
next
  case (Ask_latency now bs st node)
  show ?thesis unfolding Ask_latency install_step.simps by (rule drawn_step [OF latency_command_tickets])
next
  case (Fetch_agent now random iv ticket)
  show ?thesis unfolding Fetch_agent install_step.simps by (rule given_step [OF agent_script_tickets])
next
  case (Fetch_latency now random iv ticket)
  show ?thesis unfolding Fetch_latency install_step.simps by (rule given_step [OF latency_script_tickets])
qed (simp_all add: step_ok_def drop_tickets_def open_kept)

lemma in_time_mono: "set v \<subseteq> set valid \<Longrightarrow> in_time v js \<Longrightarrow> in_time valid js"
proof (induction valid js arbitrary: v rule: in_time.induct)
  case (2 valid h now js)
  then show ?case using "2.IH" [of "(h, now + 600) # v"] by auto
qed (auto simp: list_ex_iff)

text \<open>C23: Whatever is requested and deleted in whatever order, a ticket yields at most one installation script for each time it was
  drawn, and only within ten minutes of being drawn.\<close>

theorem ticket_delivers_once:
  "deliveries h (snd (install_run va es db)) \<le> open_with h (id_tickets db) + drawings h (snd (install_run va es db)) \<and>
   in_time (open_tickets (id_tickets db)) (snd (install_run va es db))"
proof (induction es arbitrary: db)
  case (Cons e es)
  obtain db1 l where e: "install_step va e db = (db1, l)" by fastforce
  have ok: "step_ok db (db1, l)" using install_step_ok [where db = db and va = va and e = e] by (simp add: e)
  obtain db2 l' where es: "install_run va es db1 = (db2, l')" by fastforce
  have step: "open_with h (id_tickets db1) + deliveries h l \<le> open_with h (id_tickets db) + drawings h l" using ok by (simp add: step_ok_def)
  have rest: "deliveries h l' \<le> open_with h (id_tickets db1) + drawings h l'" "in_time (open_tickets (id_tickets db1)) l'"
    using Cons [of db1] by (simp_all add: es)
  have "in_time (valid_after (open_tickets (id_tickets db)) l) l'"
    by (rule in_time_mono [OF _ rest(2)]) (use ok in \<open>simp add: step_ok_def\<close>)
  moreover have "in_time (open_tickets (id_tickets db)) l" using ok by (simp add: step_ok_def)
  ultimately show ?case using step rest(1) by (simp add: e es in_time_append)
qed simp

section \<open>An Agent named like a node\<close>

lemma agent_command_ticket:
  assumes "get_agent_install_command va now random iv bs st replace target db = (db', Inr cmd)"
  obtains l where "va_sha va (random_install_ticket bs) \<notin> set (map tk_hash (id_tickets db))"
    "id_tickets db' = cleanup_tickets False now (id_tickets db @ [new_ticket va now st bs (js_trim target) l])"
  using assms by (auto simp: get_agent_install_command_def insert_ticket_def Let_def new_ticket_def split: option.splits sum.splits prod.splits if_splits)

text \<open>C40: The ticket of an Agent whose identifier begins with \<open>latency:\<close> is never accepted by the endpoint for Agents, and the endpoint
  for nodes redeems it.\<close>

theorem latency_named_agent_cannot_install:
  assumes "get_agent_install_command va now random iv bs st replace target db = (db', Inr cmd)" "like_latency (js_trim target)"
  shows "get_agent_install_script va now' random' iv' (random_install_ticket bs) db' = (db', Inl Bad_ticket) \<and>
    (now' \<le> now + 600 \<longrightarrow>
      (\<exists>t. snd (redeem_ticket True now' (va_sha va (random_install_ticket bs)) (id_tickets db')) = Some t \<and> tk_target t = js_trim target))"
proof -
  let ?h = "va_sha va (random_install_ticket bs)"
  obtain l where fresh: "?h \<notin> set (map tk_hash (id_tickets db))"
    and t: "id_tickets db' = cleanup_tickets False now (id_tickets db @ [new_ticket va now st bs (js_trim target) l])"
    using agent_command_ticket [OF assms(1)] by blast
  let ?t = "new_ticket va now st bs (js_trim target) l" and ?old = "cleanup_tickets False now (id_tickets db)"
  have rows: "id_tickets db' = ?old @ [?t]"
    by (simp add: t cleanup_tickets_def new_ticket_def install_ticket_ttl_sec_def)
  have old: "\<forall>r \<in> set ?old. tk_hash r \<noteq> ?h" using fresh by (auto simp: cleanup_tickets_def) (metis imageI)
  have new: "tk_hash ?t = ?h" "like_latency (tk_target ?t)" "tk_used ?t = None" "tk_expires ?t = now + 600" "tk_target ?t = js_trim target"
    using assms(2) by (simp_all add: new_ticket_def install_ticket_ttl_sec_def)
  have "redeem_ticket False now' ?h (id_tickets db') = (id_tickets db', None)"
    using old new by (auto simp: redeem_ticket_def Let_def rows find_None_iff intro!: map_idI)
  then have "get_agent_install_script va now' random' iv' (random_install_ticket bs) db' = (db', Inl Bad_ticket)"
    by (simp add: get_agent_install_script_def)
  moreover have "\<exists>t. snd (redeem_ticket True now' ?h (id_tickets db')) = Some t \<and> tk_target t = js_trim target" if "now' \<le> now + 600"
  proof -
    have "find P (xs @ [y]) = Some y" if "\<forall>x \<in> set xs. \<not> P x" "P y" for P and xs :: "ticket list" and y
      using that by (induction xs) auto
    from this [of ?old _ ?t] old new that show ?thesis by (simp add: redeem_ticket_def Let_def rows)
  qed
  ultimately show ?thesis by blast
qed

definition sample_settings :: install_settings where
  "sample_settings = \<lparr> is_install_base = ''https://x'', is_api_base = ''https://x'', is_ping = 20, is_manifest = [], is_version = [] \<rparr>"

definition sample_install :: install_db where
  "sample_install = \<lparr> id_cred = empty_db [] [], id_tickets = [], id_targets = [(''latency:ams'', ''Ams'')], id_nodes = [(''ams'', ''Ams'')] \<rparr>"

lemma sample_command:
  "\<exists>db' cmd. get_agent_install_command sample_vault 7 (replicate 32 5) (replicate 12 0) (replicate 24 1) sample_settings Null ''latency:ams'' sample_install = (db', Inr cmd)"
proof -
  have n: "normalize_subject ''agent'' (Str ''latency:ams'') = Some (Agent, ''latency:ams'')" by code_simp
  have i: "js_trim ''latency:ams'' = ''latency:ams''" "sanitize_agent_id (Str ''latency:ams'') = ''latency:ams''" by code_simp+
  have t: "random_token (replicate 32 5) \<noteq> []" by code_simp
  have e: "read_credential (Agent, ''latency:ams'') (empty_db [] []) = None" by (simp add: read_credential_def empty_db_def)
  obtain c where "get_or_create_agent_token sample_vault 7 (replicate 32 5) (replicate 12 0) (\<lambda>d. d) (\<lambda>d. d) ''agent'' (Str ''latency:ams'') (empty_db [] []) =
      (put_credential (Agent, ''latency:ams'') (new_credential sample_vault 7 (random_token (replicate 32 5)) c) (empty_db [] []), Inr (random_token (replicate 32 5)))"
    using fresh_issue [OF sample_vault_facts(1) _ sample_vault_facts(2,3) n e, of "replicate 12 0" 7 "replicate 32 5"] by auto
  then show ?thesis
    by (simp add: get_agent_install_command_def i sample_install_def has_agent_id_collision_def get_or_create_for_reinstall_def t sample_settings_def
      insert_ticket_def Let_def)
qed

theorem latency_named_agent_cannot_install_witness:
  "\<exists>db' cmd. get_agent_install_command sample_vault 7 (replicate 32 5) (replicate 12 0) (replicate 24 1) sample_settings Null ''latency:ams'' sample_install = (db', Inr cmd) \<and>
     get_agent_install_script sample_vault 8 (replicate 32 6) (replicate 12 1) (random_install_ticket (replicate 24 1)) db' = (db', Inl Bad_ticket)"
proof -
  obtain db' cmd where c: "get_agent_install_command sample_vault 7 (replicate 32 5) (replicate 12 0) (replicate 24 1) sample_settings Null ''latency:ams'' sample_install = (db', Inr cmd)"
    using sample_command by blast
  have "like_latency (js_trim ''latency:ams'')" by code_simp
  from latency_named_agent_cannot_install [OF c this] c show ?thesis by blast
qed

end
