(* ===== verification/Spec2Isabelle.thy ===== *)
theory Spec2Isabelle
  imports Prelude JsValue Calendar Utils Hosts Protobuf TelemetryCodec AgentState Availability ReportStream TelemetryFlush TimeseriesExport Traffic TrafficLedger PingHistory MetricReport
    AlertRules AlertLifecycle AlertDelivery AlertSettings AlertChannels AgentTasks AgentTaskLife ProbeHistory ProbeHistoryKept
    StatusState StatusMerge Leases ProbeRun ProbeChecks Secrets RateLimit AdminSessions AdminLogin Credentials CheckBuckets BucketHistory InstallTickets
begin

text \<open>
  \<^bold>\<open>The program.\<close> NIE-SLA is a monitoring service: Agents on the monitored machines send reports (metrics,
  pings of targets, checks of proxies, traffic counters) over a WebSocket to a Cloudflare Worker
  (\<open>src/worker/src\<close>). A durable object (\<open>telemetry-buffer.js\<close>) holds the reports in memory, drains them into
  its storage in chunks of five minutes, and archives completed hours into R2; the worker accounts the
  traffic and the availability in D1, runs the alert rules on a schedule, and serves the public pages.

  \<^bold>\<open>Theories and code.\<close>
  \<^item> \<open>Prelude\<close>: error sums, JavaScript \<open>Map\<close>s as insertion-ordered association lists, list and word lemmas.
  \<^item> \<open>JsValue\<close>: JavaScript values and the coercions the code relies on (\<open>Number\<close>, \<open>String\<close>, \<open>Boolean\<close>, \<open>||\<close>,
    \<open>??\<close>, property access, \<open>trim\<close>, \<open>split\<close>). Numbers are exact rationals with \<open>NaN\<close> and infinities.
  \<^item> \<open>Calendar\<close>, \<open>Utils\<close>, \<open>Hosts\<close>: \<open>utils.js\<close>. Local days and billing periods, status codes, missed points,
    the private host filter, redirects with validation, identifiers, the public projection of a target.
  \<^item> \<open>Protobuf\<close>: \<open>telemetry-protobuf.js\<close> (decoder) against the encoder of the Rust agent.
  \<^item> \<open>TelemetryCodec\<close>, \<open>ReportStream\<close>, \<open>TelemetryFlush\<close>: \<open>telemetry-buffer.js\<close>. The columns of a chunk and
    their merge; the handlers of the live instance (socket messages, deletion, drain, alarm, eviction) as
    steps on one state record; archiving, export bookkeeping and the reads.
  \<^item> \<open>TimeseriesExport\<close>, \<open>AgentState\<close>, \<open>Availability\<close>: the files of the same names.
  \<^item> \<open>Traffic\<close>, \<open>TrafficLedger\<close>: \<open>traffic.js\<close> and the traffic half of \<open>metrics.js\<close>: plan from a snapshot, commit
    under the guards of the SQL; the ledger invariant over any sequence of reports.
  \<^item> \<open>PingHistory\<close>, \<open>MetricReport\<close>: the pure functions of \<open>metrics.js\<close> over pings and the normalization of a report.
  \<^item> \<open>AlertRules\<close>, \<open>AlertLifecycle\<close>, \<open>AlertDelivery\<close>, \<open>AlertSettings\<close>, \<open>AlertChannels\<close>: \<open>alerts.js\<close>. The rules
    and their rows, what a pass keeps true of them, batches and retry queue, settings and templates,
    channels, headers and stored secrets.
  \<^item> \<open>AgentTasks\<close>, \<open>AgentTaskLife\<close>: \<open>admin/agent-tasks.js\<close>. The statements on the table of tasks, the handlers
    with what other requests do while they wait, and what every interleaving of them keeps true.
  \<^item> \<open>ProbeHistory\<close>, \<open>ProbeHistoryKept\<close>: \<open>probe-history-buffer.js\<close>. The hub that buffers the points of the probes, its
    archive, dead letters, alarm, reads and migration; which points survive which answer of R2.
  \<^item> \<open>StatusState\<close>, \<open>StatusMerge\<close>: \<open>storage.js\<close>. The current status with its daily summaries, merges and sessions over
    a heap of shared objects; a session against the merges it stands for.
  \<^item> \<open>Leases\<close>: the leases of \<open>storage.js\<close> and \<open>probe.js\<close>, as an upsert of one row under any interleaving.
  \<^item> \<open>ProbeRun\<close>, \<open>ProbeChecks\<close>: \<open>probe.js\<close> with the statements of \<open>admin/check-buckets.js\<close> it sends. Selection of the
    due targets, answers of the regions, one check with its status, summary, incident and rows; the incidents and
    the sums of a day over any sequence of checks.
  \<^item> \<open>CheckBuckets\<close>, \<open>BucketHistory\<close>: the rest of \<open>admin/check-buckets.js\<close>. The history of a target over D1 and the hub, the
    sums of a day, the summaries and the maintenance of the tables.
  \<^item> \<open>Secrets\<close>: base64, the comparison in constant time and the envelope of the stored secrets (\<open>utils.js\<close>, \<open>auth.js\<close>,
    \<open>totp.js\<close>, \<open>agent-credentials.js\<close>, \<open>alerts.js\<close>).
  \<^item> \<open>RateLimit\<close>: \<open>ratelimit.js\<close>. \<open>AdminSessions\<close>: \<open>totp.js\<close>. \<open>AdminLogin\<close>: \<open>admin-auth.js\<close>. The rows of the administrator in
    \<open>app_meta\<close> as one record; sessions, one time codes, both factors, the login over GitHub, with what other requests
    do between a read and a write as an argument.
  \<^item> \<open>Credentials\<close>: \<open>agent-credentials.js\<close> and the Agent half of \<open>auth.js\<close>. The table of the tokens with every request on
    it, who is let in with which token, backup and change of keys.
  \<^item> \<open>InstallTickets\<close>: \<open>admin/install-command.js\<close> and the installation half of \<open>admin/latency-agents.js\<close>. The one time
    tickets under any order of requests, and the scripts as a shell reads them.

  \<^bold>\<open>State and interfaces.\<close> Each stateful part is a record (the durable object, the tables of a run, the retry
  queue) passed and returned by one definition per handler. Interleavings are sequences of handler steps
  (inductive reachability in \<open>ReportStream\<close>); an \<open>await\<close> inside a handler splits it in two steps where other
  messages may come between. Locales state the contracts (the override laws of a buffer, a store of incidents
  with a table and a cache) and are interpreted on the definitions of the code.

  \<^bold>\<open>What the lemmas show.\<close> Conservation: no report, sample, traffic byte, alert or delivery is lost or counted
  twice by the operations that move it, with the failures of each write as arguments. Round trips: the wire
  format, the run-length code of losses, the exported identifiers, masked headers. Safety: the fetch of user
  supplied URLs, the public projection, escaping. Bounds and termination: paging, retries, memory limits.

  \<^bold>\<open>Bounds.\<close> Recursion is structural or has a measure; no fuel is used for a loop of the code. The decoder
  consumes at least one byte per round; paging is bounded by the number of rows; redirects by the counter.

  \<^bold>\<open>Parameters.\<close> Code outside the repository is an argument: \<open>JSON.parse\<close>, \<open>new URL\<close>, \<open>Date.parse\<close>,
  \<open>localeCompare\<close> (as a collation key), AES, SHA-256, HMAC, PBKDF2, \<open>fetch\<close> and the answers of the channels, failures of storage.

  \<^bold>\<open>Not modelled.\<close> The HTTP routing and request parsing, the SQL text, the HTML and CSS, the browser code, the
  installation scripts that are downloaded and the Rust agent except its encoder: they are glue around the platform or draw pages.
  Rounding of binary floating point is not modelled (numbers are exact rationals).
\<close>

end
